(* ===== verification/Prelude.thy ===== *)
theory Prelude
  imports Main "HOL-Library.Word" "HOL-Library.Monad_Syntax"
begin

text \<open>
  Shared vocabulary of the development: the machine types of the C++ front end
  (\<open>char16_t\<close>, \<open>unsigned char\<close>, \<open>uint32_t\<close>, \<open>uint64_t\<close>), the theorem collections the component
  proofs feed, the loop combinator used wherever the source has a \<open>while\<close> whose body can fail, and
  generic lemmas on lists and options.
\<close>

unbundle bit_operations_syntax

type_synonym char16 = "16 word"
type_synonym u16string = "char16 list"
type_synonym byte = "8 word"
type_synonym bytes = "byte list"
type_synonym u32 = "32 word"
type_synonym u64 = "64 word"

text \<open>A \<open>u'x'\<close> literal, and a \<open>u"..."\<close> literal whose characters are all ASCII.\<close>

abbreviation uc :: "char \<Rightarrow> char16" where
  "uc c \<equiv> of_char c"

definition u16 :: "string \<Rightarrow> u16string" where
  "u16 s = map of_char s"

abbreviation chLF :: char16 where "chLF \<equiv> 0x0A"
abbreviation chCR :: char16 where "chCR \<equiv> 0x0D"

text \<open>\<open>std::to_string\<close> on an integer.\<close>

function showNat :: "nat \<Rightarrow> string" where
  "showNat n = (if n < 10 then [char_of (48 + n)] else showNat (n div 10) @ [char_of (48 + n mod 10)])"
  by pat_completeness auto
termination
  by (relation "measure id") auto

declare showNat.simps [simp del]

definition to_string :: "int \<Rightarrow> string" where
  "to_string i = (if i < 0 then CHR ''-'' # showNat (nat (- i)) else showNat (nat i))"

named_theorems kind_simps \<open>membership tests on syntax kinds\<close>
named_theorems tz_intros \<open>tokenizer operations only move the cursor by advancing\<close>
named_theorems act_intros \<open>parser actions that return and keep the parser invariant\<close>
named_theorems act_defs \<open>definitions of the parser's actions\<close>

section \<open>Loops with a body that can fail\<close>

text \<open>
  \<open>whileP c b s\<close> is \<open>while (c(s)) s = b(s);\<close>, where \<open>None\<close> is a body that does not return (a failed
  assertion) or a loop that runs forever.
\<close>

partial_function (option) whileP :: "('s \<Rightarrow> bool) \<Rightarrow> ('s \<Rightarrow> 's option) \<Rightarrow> 's \<Rightarrow> 's option" where
  "whileP c b s = (if c s then Option.bind (b s) (whileP c b) else Some s)"

declare whileP.simps [code]

lemma whileP_done: "\<not> c s \<Longrightarrow> whileP c b s = Some s"
  by (subst whileP.simps) simp

lemma whileP_step: "c s \<Longrightarrow> b s = Some s' \<Longrightarrow> whileP c b s = whileP c b s'"
  by (subst whileP.simps) simp

text \<open>
  Total correctness: a reflexive and transitive relation that every iteration stays in, and a
  natural number that every iteration makes smaller.
\<close>

lemma whileP_total:
  fixes m :: "'s \<Rightarrow> nat"
  assumes body: "\<And>s. I s \<Longrightarrow> c s \<Longrightarrow> \<exists>s'. b s = Some s' \<and> I s' \<and> R s s' \<and> m s' < m s"
    and refl: "\<And>s. I s \<Longrightarrow> R s s"
    and trans: "\<And>s t u. R s t \<Longrightarrow> R t u \<Longrightarrow> R s u"
    and start: "I s"
  shows "\<exists>s'. whileP c b s = Some s' \<and> I s' \<and> R s s' \<and> \<not> c s'"
  using start
proof (induction "m s" arbitrary: s rule: less_induct)
  case less
  show ?case
  proof (cases "c s")
    case False
    with less.prems show ?thesis by (auto simp: whileP_done intro: refl)
  next
    case True
    with body [OF less.prems] obtain t where t: "b s = Some t" "I t" "R s t" "m t < m s" by blast
    from less.hyps [OF t(4) t(2)] obtain u
      where u: "whileP c b t = Some u" "I u" "R t u" "\<not> c u" by blast
    from t u True show ?thesis by (auto simp: whileP_step intro: trans)
  qed
qed

section \<open>Lists\<close>

lemma take_Suc_nth: "n < length xs \<Longrightarrow> take (Suc n) xs = take n xs @ [xs ! n]"
  by (rule take_Suc_conv_app_nth)

lemma drop_nth_Cons: "n < length xs \<Longrightarrow> drop n xs = xs ! n # drop (Suc n) xs"
  by (simp add: Cons_nth_drop_Suc)

lemma take_drop_split:
  "m \<le> n \<Longrightarrow> take m xs @ take (n - m) (drop m xs) = take n xs"
  by (metis add_diff_inverse_nat linorder_not_less take_add)

lemma drop_slice_append:
  "m \<le> n \<Longrightarrow> n \<le> length xs \<Longrightarrow> take (n - m) (drop m xs) @ drop n xs = drop m xs"
  by (metis append_take_drop_id drop_drop le_add_diff_inverse2)

section \<open>Bit operations as arithmetic\<close>

text \<open>
  The encoders shift, mask and OR bytes together. Read as natural numbers these are division,
  remainder and addition, because the fields never overlap.
\<close>

lemma nat_or_plus:
  fixes y :: nat
  assumes "y < 2 ^ n"
  shows "x * 2 ^ n OR y = x * 2 ^ n + y"
proof -
  have "bit y k \<Longrightarrow> k < n" for k
    using assms by (metis bit_take_bit_iff take_bit_nat_eq_self)
  then have "push_bit n x AND y = 0"
    by (auto simp: bit_eq_iff bit_simps not_less [symmetric])
  then show ?thesis
    by (simp add: push_bit_eq_mult flip: disjunctive_add_eq_or)
qed

lemma nat_and_mask: "(x::nat) AND (2 ^ n - 1) = x mod 2 ^ n"
  by (metis mask_eq_exp_minus_1 take_bit_eq_mask take_bit_eq_mod)

lemmas nat_masks =
  nat_and_mask [of _ 3, simplified] nat_and_mask [of _ 4, simplified]
  nat_and_mask [of _ 5, simplified] nat_and_mask [of _ 6, simplified]
  nat_and_mask [of _ 10, simplified]

lemma nat_ors:
  fixes y :: nat
  shows "y < 64 \<Longrightarrow> 128 OR y = 128 + y" and "y < 64 \<Longrightarrow> 192 OR y = 192 + y"
    and "y < 32 \<Longrightarrow> 224 OR y = 224 + y" and "y < 16 \<Longrightarrow> 240 OR y = 240 + y"
    and "y < 1024 \<Longrightarrow> 55296 OR y = 55296 + y" and "y < 1024 \<Longrightarrow> 56320 OR y = 56320 + y"
  using nat_or_plus [of y 6 2] nat_or_plus [of y 6 3] nat_or_plus [of y 5 7]
    nat_or_plus [of y 4 15] nat_or_plus [of y 10 54] nat_or_plus [of y 10 55]
  by simp_all

lemma nat_mod_256:
  fixes x :: nat
  shows "x mod 256 mod 64 = x mod 64" and "x mod 256 mod 32 = x mod 32"
    and "x mod 256 mod 16 = x mod 16" and "x mod 256 mod 8 = x mod 8"
    and "x mod 65536 mod 1024 = x mod 1024"
  by (simp_all add: mod_mod_cancel)

lemmas word_to_nat =
  unsigned_or_eq unsigned_and_eq unsigned_ucast_eq unsigned_take_bit_eq unat_drop_bit_eq
  unsigned_push_bit_eq

lemmas bits_to_arith = take_bit_eq_mod drop_bit_eq_div push_bit_eq_mult nat_mod_256 unat_div

lemma unat_push_bit:
  fixes x :: "'a::len word"
  assumes "unat x * 2 ^ n < 2 ^ LENGTH('a)"
  shows "unat (push_bit n x) = unat x * 2 ^ n"
  unfolding unsigned_push_bit_eq using assms by (simp add: push_bit_eq_mult take_bit_nat_eq_self)

lemma unat_byte_bits:
  fixes b :: byte
  shows "unat (ucast b AND 0x3F :: u32) = unat b mod 64"
    and "unat (ucast b AND 0x1F :: u32) = unat b mod 32"
    and "unat (ucast b AND 0x0F :: u32) = unat b mod 16"
    and "unat (ucast b AND 0x07 :: u32) = unat b mod 8"
  by (simp_all add: word_to_nat nat_masks bits_to_arith mod_mod_cancel)

lemma unat_byte_less [simp]: "unat (b :: byte) < 256"
  using unsigned_less [of b] by simp

lemma unat_char16_less [simp]: "unat (c :: char16) < 65536"
  using unsigned_less [of c] by simp

lemma unat_ucast_char16 [simp]: "unat (ucast (c :: char16) :: u32) = unat c"
  using less_trans [OF unat_char16_less [of c], of "2 ^ 32"]
  by (simp add: unsigned_ucast_eq take_bit_eq_mod)

lemma unat_ucast_byte [simp]:
  "unat (ucast (b :: byte) :: u32) = unat b" "unat (ucast (b :: byte) :: char16) = unat b"
  using less_trans [OF unat_byte_less [of b], of "2 ^ 32"]
    less_trans [OF unat_byte_less [of b], of "2 ^ 16"]
  by (simp_all add: unsigned_ucast_eq take_bit_eq_mod)

lemma unat_ucast_down:
  "unat (ucast (x :: u32) :: char16) = unat x mod 65536" "unat (ucast (x :: u32) :: byte) = unat x mod 256"
  by (simp_all add: unsigned_ucast_eq take_bit_eq_mod)

lemma ucast_ucast_char16 [simp]: "ucast (ucast (c :: char16) :: u32) = c"
  by (simp add: word_unat_eq_iff unat_ucast_down)

lemma nat_and_high: "(x::nat) AND (2 ^ k - 1) * 2 ^ n = (x div 2 ^ n mod 2 ^ k) * 2 ^ n"
proof -
  have "x AND push_bit n m = push_bit n (drop_bit n x AND m)" for m
    by (rule bit_eqI) (auto simp: bit_simps)
  from this [of "2 ^ k - 1"] show ?thesis
    by (simp add: push_bit_eq_mult drop_bit_eq_div nat_and_mask [simplified])
qed

lemma nat_high_field:
  fixes x :: nat
  assumes "x < k * m"
  shows "(x div m mod k) * m = j * m \<longleftrightarrow> j * m \<le> x \<and> x < j * m + m"
proof -
  have m: "0 < m" using assms by (cases m) auto
  have "x div m < k" using assms by (rule less_mult_imp_div_less)
  moreover have "x div m = j \<longleftrightarrow> j * m \<le> x \<and> x < j * m + m"
    using m by (metis add.commute div_nat_eqI mult.commute mult_Suc_right dividend_less_times_div
        div_times_less_eq_dividend)
  ultimately show ?thesis using m by simp
qed

text \<open>The tests on the high bits of a UTF-8 byte, as ranges.\<close>

lemma byte_high_bits:
  fixes b :: byte
  shows "(b AND 0xC0) = 0x80 \<longleftrightarrow> 128 \<le> unat b \<and> unat b < 192"
    and "(b AND 0xE0) = 0xC0 \<longleftrightarrow> 192 \<le> unat b \<and> unat b < 224"
    and "(b AND 0xF0) = 0xE0 \<longleftrightarrow> 224 \<le> unat b \<and> unat b < 240"
    and "(b AND 0xF8) = 0xF0 \<longleftrightarrow> 240 \<le> unat b \<and> unat b < 248"
  using nat_high_field [of "unat b" 4 64 2] nat_high_field [of "unat b" 8 32 6]
    nat_high_field [of "unat b" 16 16 14] nat_high_field [of "unat b" 32 8 30]
    nat_and_high [of "unat b" 2 6] nat_and_high [of "unat b" 3 5]
    nat_and_high [of "unat b" 4 4] nat_and_high [of "unat b" 5 3]
  by (simp_all add: word_unat_eq_iff unsigned_and_eq)

section \<open>Searching\<close>

text \<open>\<open>for (x : xs) if (auto v = f(x)) return v;\<close>\<close>

primrec firstFound :: "('s \<Rightarrow> 'v option) \<Rightarrow> 's list \<Rightarrow> 'v option" where
  "firstFound f [] = None"
| "firstFound f (s # ss) = (case f s of Some v \<Rightarrow> Some v | None \<Rightarrow> firstFound f ss)"

section \<open>Runs of operations that keep an order\<close>

locale preorder_ops =
  fixes le :: "'s \<Rightarrow> 's \<Rightarrow> bool"
  assumes le_refl: "le s s" and le_trans: "le s t \<Longrightarrow> le t u \<Longrightarrow> le s u"
begin

lemma fold_le: "(\<And>x s. x \<in> set xs \<Longrightarrow> le s (f x s)) \<Longrightarrow> le s (fold f xs s)"
proof (induction xs arbitrary: s)
  case Nil
  then show ?case by (simp add: le_refl)
next
  case (Cons x xs)
  from Cons.prems have "le s (f x s)" by simp
  moreover from Cons have "le (f x s) (fold f xs (f x s))" by simp
  ultimately show ?case by (simp add: le_trans)
qed

end

text \<open>When states only grow, a sequence that ends where it began did nothing on the way.\<close>

locale growing_ops = preorder_ops le for le :: "'s \<Rightarrow> 's \<Rightarrow> bool" +
  assumes le_antisym: "le s t \<Longrightarrow> le t s \<Longrightarrow> s = t"
begin

lemma between: "le s t \<Longrightarrow> le t u \<Longrightarrow> u = s \<Longrightarrow> t = s"
  by (blast intro: le_antisym)

lemma fold_fixed:
  assumes "\<And>x s. x \<in> set xs \<Longrightarrow> le s (f x s)" and "fold f xs s = s" and "x \<in> set xs"
  shows "f x s = s"
  using assms
proof (induction xs)
  case (Cons y ys)
  have "le s (f y s)" using Cons.prems(1) by simp
  moreover have "le (f y s) (fold f ys (f y s))" using Cons.prems(1) by (intro fold_le) simp
  ultimately have y: "f y s = s" using Cons.prems(2) by (auto intro: between)
  with Cons show ?case by auto
qed simp

end

end
