(* ===== verification/Literals.thy ===== *)
theory Literals
  imports Prelude
begin

text \<open>
  The literal decoders of \<open>semantic/Literals.cpp\<close> (integer magnitudes, escape sequences, character
  and string literals, UTF-16 to UTF-8 and the strict UTF-8 decoder that reads source files) and the
  lenient conversions of \<open>server/Encoding.cpp\<close> that the language server uses on the wire.
\<close>

section \<open>Integer literals\<close>

text \<open>
  \<open>parseIntegerLiteralMagnitude\<close> returns false on a malformed literal or one above 64 bits; that is
  \<open>None\<close> here. \<open>static_cast<char>\<close> keeps the low eight bits of a code unit.
\<close>

definition strippedLiteral :: "u16string \<Rightarrow> bytes" where
  "strippedLiteral t = map ucast (filter (\<lambda>c. c \<notin> {uc CHR ''_'', uc CHR ''l'', uc CHR ''L''}) t)"

definition literalDigit :: "byte \<Rightarrow> u64 option" where
  "literalDigit c =
     (if 0x30 \<le> c \<and> c \<le> 0x39 then Some (ucast (c - 0x30))
      else if 0x61 \<le> c \<and> c \<le> 0x66 then Some (ucast (c - 0x61 + 10))
      else if 0x41 \<le> c \<and> c \<le> 0x46 then Some (ucast (c - 0x41 + 10))
      else None)"

fun literalDigitsLoop :: "u64 \<Rightarrow> u64 \<Rightarrow> bytes \<Rightarrow> u64 option" where
  "literalDigitsLoop base v [] = Some v"
| "literalDigitsLoop base v (c # s) =
     (case literalDigit c of
        None \<Rightarrow> None
      | Some digit \<Rightarrow>
          if digit \<ge> base then None
          else if v > (0xFFFFFFFFFFFFFFFF - digit) div base then None
          else literalDigitsLoop base (v * base + digit) s)"

definition literalBase :: "bytes \<Rightarrow> u64 \<times> bytes" where
  "literalBase s =
     (if length s > 2 \<and> s ! 0 = 0x30 \<and> s ! 1 \<in> {0x78, 0x58} then (16, drop 2 s)
      else if length s > 2 \<and> s ! 0 = 0x30 \<and> s ! 1 \<in> {0x62, 0x42} then (2, drop 2 s)
      else (10, s))"

definition parseIntegerLiteralMagnitude :: "u16string \<Rightarrow> u64 option" where
  "parseIntegerLiteralMagnitude t =
     (case literalBase (strippedLiteral t) of
        (base, digits) \<Rightarrow> if digits = [] then None else literalDigitsLoop base 0 digits)"

section \<open>Floating point literals\<close>

text \<open>
  A literal stands for a decimal number \<open>m * 10 ^ e\<close>. \<open>strtod\<close> reads the longest beginning that is a decimal number
  and rounds it to the nearest \<open>double\<close>; the pair \<open>(m, e)\<close> is the number before it is rounded, so the tests on
  the \<open>double\<close> become tests on where the rounding goes. A token never starts with a sign or a space, and
  hexadecimal floats, infinities and \<open>nan\<close> are no literals.
\<close>

type_synonym Magnitude = "int \<times> int"

definition isDigitByte :: "byte \<Rightarrow> bool" where
  "isDigitByte c \<longleftrightarrow> 0x30 \<le> c \<and> c \<le> 0x39"

definition decimalValue :: "bytes \<Rightarrow> int" where
  "decimalValue = foldl (\<lambda>v c. v * 10 + uint (c - 0x30)) 0"

definition strtodExponent :: "bytes \<Rightarrow> int" where
  "strtodExponent s =
     (if s = [] \<or> hd s \<notin> {0x65, 0x45} then 0
      else let r = tl s; signed = (r \<noteq> [] \<and> hd r \<in> {0x2B, 0x2D});
               ds = takeWhile isDigitByte (if signed then tl r else r)
           in (if signed \<and> hd r = 0x2D then - decimalValue ds else decimalValue ds))"

definition strtod :: "bytes \<Rightarrow> Magnitude" where
  "strtod s =
     (let whole = takeWhile isDigitByte s; r = dropWhile isDigitByte s;
          point = (r \<noteq> [] \<and> hd r = 0x2E);
          fraction = (if point then takeWhile isDigitByte (tl r) else []);
          rest = (if point then dropWhile isDigitByte (tl r) else r)
      in if whole = [] \<and> fraction = [] then (0, 0)
         else (decimalValue (whole @ fraction), strtodExponent rest - int (length fraction)))"

definition parseFloatLiteralMagnitude :: "u16string \<Rightarrow> Magnitude" where
  "parseFloatLiteralMagnitude t =
     (let s = map ucast (filter (\<lambda>c. c \<noteq> 0x5F) t);
          s = (if s \<noteq> [] \<and> last s \<in> {0x66, 0x46, 0x64, 0x44} then butlast s else s)
      in if s = [] then (0, 0) else strtod s)"

text \<open>\<open>m * 10 ^ e < l\<close> and \<open>m * 10 ^ e \<le> l\<close>.\<close>

definition decimalLess :: "Magnitude \<Rightarrow> int \<Rightarrow> bool" where
  "decimalLess d l = (case d of (m, e) \<Rightarrow> if e \<ge> 0 then m * 10 ^ nat e < l else m < l * 10 ^ nat (- e))"

definition decimalAtMost :: "Magnitude \<Rightarrow> int \<Rightarrow> bool" where
  "decimalAtMost d l = (case d of (m, e) \<Rightarrow> if e \<ge> 0 then m * 10 ^ nat e \<le> l else m \<le> l * 10 ^ nat (- e))"

text \<open>
  The nearest \<open>double\<close> is infinite from halfway between the largest one, \<open>2^1024 - 2^971\<close>, and \<open>2^1024\<close> on. It is at
  most the largest \<open>float\<close>, \<open>2^128 - 2^104\<close>, up to halfway to the next \<open>double\<close>, \<open>2^75\<close> further, where it
  rounds to even.
\<close>

definition floatMagnitudeFits :: "Magnitude \<Rightarrow> bool \<Rightarrow> bool" where
  "floatMagnitudeFits d isFloat =
     (if \<not> decimalLess d (2 ^ 1024 - 2 ^ 970) then False
      else if \<not> isFloat then True
      else decimalAtMost d (2 ^ 128 - 2 ^ 104 + 2 ^ 74))"

section \<open>Escapes, character and string literals\<close>

definition hexDigitValue :: "char16 \<Rightarrow> int" where
  "hexDigitValue c =
     (if uc CHR ''0'' \<le> c \<and> c \<le> uc CHR ''9'' then uint c - 0x30
      else if uc CHR ''a'' \<le> c \<and> c \<le> uc CHR ''f'' then uint c - 0x61 + 10
      else if uc CHR ''A'' \<le> c \<and> c \<le> uc CHR ''F'' then uint c - 0x41 + 10
      else -1)"

text \<open>The result is the decoded scalar and the index \<open>next\<close> just past the escape.\<close>

definition decodeEscapeSequence :: "u16string \<Rightarrow> nat \<Rightarrow> nat \<Rightarrow> u32 \<times> nat" where
  "decodeEscapeSequence t i e =
     (let n = t ! (i + 1) in
      if n = uc CHR ''n'' then (0x0A, i + 2)
      else if n = uc CHR ''t'' then (0x09, i + 2)
      else if n = uc CHR ''r'' then (0x0D, i + 2)
      else if n = uc CHR ''b'' then (0x08, i + 2)
      else if n = uc CHR ''f'' then (0x0C, i + 2)
      else if n = uc CHR ''0'' then (0x00, i + 2)
      else if n = 0x5C then (0x5C, i + 2)
      else if n = 0x27 then (0x27, i + 2)
      else if n = 0x22 then (0x22, i + 2)
      else if n = uc CHR ''u'' then
        (if i + 6 \<le> e then
           (let h0 = hexDigitValue (t ! (i + 2)); h1 = hexDigitValue (t ! (i + 3));
                h2 = hexDigitValue (t ! (i + 4)); h3 = hexDigitValue (t ! (i + 5))
            in if h0 \<ge> 0 \<and> h1 \<ge> 0 \<and> h2 \<ge> 0 \<and> h3 \<ge> 0
               then (word_of_int (push_bit 12 h0 OR push_bit 8 h1 OR push_bit 4 h2 OR h3), i + 6)
               else (ucast n, i + 2))
         else (ucast n, i + 2))
      else (ucast n, i + 2))"

abbreviation highSurrogate :: "char16 \<Rightarrow> bool" where
  "highSurrogate c \<equiv> 0xD800 \<le> c \<and> c \<le> 0xDBFF"

abbreviation lowSurrogate :: "char16 \<Rightarrow> bool" where
  "lowSurrogate c \<equiv> 0xDC00 \<le> c \<and> c \<le> 0xDFFF"

text \<open>\<open>0x10000u + ((c - 0xD800u) << 10) + (low - 0xDC00u)\<close> on \<open>uint32_t\<close>.\<close>

definition surrogatePair :: "char16 \<Rightarrow> char16 \<Rightarrow> u32" where
  "surrogatePair c low = 0x10000 + push_bit 10 (ucast c - 0xD800) + (ucast low - 0xDC00)"

text \<open>The bounds of a literal's content: the surrounding quotes are skipped when both are there.\<close>

definition quotedRange :: "char16 \<Rightarrow> u16string \<Rightarrow> nat \<times> nat" where
  "quotedRange q t =
     (if length t \<ge> 2 \<and> hd t = q \<and> last t = q then (1, length t - 1) else (0, length t))"

definition parseCharLiteralCodepoint :: "u16string \<Rightarrow> u32" where
  "parseCharLiteralCodepoint t =
     (case quotedRange 0x27 t of (start, e) \<Rightarrow>
        if start \<ge> e then 0
        else let c = t ! start in
          if c = 0x5C \<and> start + 1 < e then fst (decodeEscapeSequence t start e)
          else if highSurrogate c \<and> start + 1 < e \<and> lowSurrogate (t ! (start + 1))
          then surrogatePair c (t ! (start + 1))
          else ucast c)"

definition utf16Units :: "u32 \<Rightarrow> u16string" where
  "utf16Units scalar =
     (if scalar \<le> 0xFFFF then [ucast scalar]
      else let s = scalar - 0x10000
           in [ucast (0xD800 OR drop_bit 10 s), ucast (0xDC00 OR (s AND 0x3FF))])"

lemma decodeEscapeSequence_next: "snd (decodeEscapeSequence t i e) \<in> {i + 2, i + 6}"
  by (simp add: decodeEscapeSequence_def Let_def)

function decodeStringLoop :: "u16string \<Rightarrow> nat \<Rightarrow> nat \<Rightarrow> u16string \<Rightarrow> u16string" where
  "decodeStringLoop t i e out =
     (if i < e then
        (let c = t ! i in
         if c = 0x5C \<and> i + 1 < e
         then (case decodeEscapeSequence t i e of
                 (scalar, nxt) \<Rightarrow> decodeStringLoop t nxt e (out @ utf16Units scalar))
         else decodeStringLoop t (i + 1) e (out @ [c]))
      else out)"
  by pat_completeness auto
termination
proof (relation "measure (\<lambda>(t, i, e, out). e - i)", goal_cases)
  case (2 t i e out c scalar nxt)
  then have "nxt \<in> {i + 2, i + 6}"
    using decodeEscapeSequence_next [of t i e] by (metis snd_conv)
  with 2 show ?case by auto
qed auto

declare decodeStringLoop.simps [simp del]

definition decodeStringLiteral :: "u16string \<Rightarrow> u16string" where
  "decodeStringLiteral t = (case quotedRange 0x22 t of (start, e) \<Rightarrow> decodeStringLoop t start e [])"

section \<open>UTF-16 to UTF-8\<close>

definition appendUtf8 :: "bytes \<Rightarrow> u32 \<Rightarrow> bytes" where
  "appendUtf8 out scalar = out @
     (if scalar < 0x80 then [ucast scalar]
      else if scalar < 0x800 then
        [ucast (0xC0 OR drop_bit 6 scalar), ucast (0x80 OR (scalar AND 0x3F))]
      else if scalar < 0x10000 then
        [ucast (0xE0 OR drop_bit 12 scalar), ucast (0x80 OR (drop_bit 6 scalar AND 0x3F)),
         ucast (0x80 OR (scalar AND 0x3F))]
      else
        [ucast (0xF0 OR drop_bit 18 scalar), ucast (0x80 OR (drop_bit 12 scalar AND 0x3F)),
         ucast (0x80 OR (drop_bit 6 scalar AND 0x3F)), ucast (0x80 OR (scalar AND 0x3F))])"

fun utf16ToUtf8Loop :: "bytes \<Rightarrow> u16string \<Rightarrow> bytes" where
  "utf16ToUtf8Loop out [] = out"
| "utf16ToUtf8Loop out [c] = appendUtf8 out (ucast c)"
| "utf16ToUtf8Loop out (c # low # s) =
     (if highSurrogate c \<and> lowSurrogate low
      then utf16ToUtf8Loop (appendUtf8 out (surrogatePair c low)) s
      else utf16ToUtf8Loop (appendUtf8 out (ucast c)) (low # s))"

definition utf16ToUtf8 :: "u16string \<Rightarrow> bytes" where
  "utf16ToUtf8 s = utf16ToUtf8Loop [] s"

section \<open>The strict UTF-8 decoder\<close>

record Utf8DecodeError =
  byteOffset :: nat
  err_line :: nat
  err_byte :: byte
  reason :: string

definition skipBom :: "bytes \<Rightarrow> nat" where
  "skipBom bs =
     (if length bs \<ge> 3 \<and> bs ! 0 = 0xEF \<and> bs ! 1 = 0xBB \<and> bs ! 2 = 0xBF then 3 else 0)"

definition isCont :: "bytes \<Rightarrow> nat \<Rightarrow> bool" where
  "isCont bs j = (j < length bs \<and> (bs ! j AND 0xC0) = 0x80)"

definition decodeFail :: "bytes \<Rightarrow> nat \<Rightarrow> string \<Rightarrow> Utf8DecodeError" where
  "decodeFail bs at why =
     \<lparr>byteOffset = at, err_line = 1 + count_list (take at bs) 0x0A, err_byte = bs ! at,
      reason = why\<rparr>"

definition cp2 :: "byte \<Rightarrow> byte \<Rightarrow> u32" where
  "cp2 c c1 = push_bit 6 (ucast c AND 0x1F) OR (ucast c1 AND 0x3F)"

definition cp3 :: "byte \<Rightarrow> byte \<Rightarrow> byte \<Rightarrow> u32" where
  "cp3 c c1 c2 = push_bit 12 (ucast c AND 0x0F) OR push_bit 6 (ucast c1 AND 0x3F) OR (ucast c2 AND 0x3F)"

definition cp4 :: "byte \<Rightarrow> byte \<Rightarrow> byte \<Rightarrow> byte \<Rightarrow> u32" where
  "cp4 c c1 c2 c3 = push_bit 18 (ucast c AND 0x07) OR push_bit 12 (ucast c1 AND 0x3F) OR
     push_bit 6 (ucast c2 AND 0x3F) OR (ucast c3 AND 0x3F)"

definition astralUnits :: "u32 \<Rightarrow> u16string" where
  "astralUnits cp = (let s = cp - 0x10000
     in [ucast (0xD800 OR drop_bit 10 s), ucast (0xDC00 OR (s AND 0x3FF))])"

text \<open>
  The result pairs the code units decoded so far with the failure, if there was one: the decoder
  leaves \<open>out\<close> filled up to the offending byte when it returns false.
\<close>

function decodeUtf8Loop :: "bytes \<Rightarrow> nat \<Rightarrow> u16string \<Rightarrow> u16string \<times> Utf8DecodeError option" where
  "decodeUtf8Loop bs i out =
     (if \<not> i < length bs then (out, None)
      else let c = bs ! i in
        if c < 0x80 then decodeUtf8Loop bs (i + 1) (out @ [ucast c])
        else if c < 0xC2 then
          (out, Some (decodeFail bs i
             (if c < 0xC0 then ''is a stray continuation byte with no character to continue''
              else ''is an overlong encoding'')))
        else if c < 0xE0 then
          (if \<not> isCont bs (i + 1) then (out, Some (decodeFail bs i ''starts an incomplete character''))
           else decodeUtf8Loop bs (i + 2) (out @ [ucast (cp2 c (bs ! (i + 1)))]))
        else if c < 0xF0 then
          (if \<not> isCont bs (i + 1) \<or> \<not> isCont bs (i + 2)
           then (out, Some (decodeFail bs i ''starts an incomplete character''))
           else let cp = cp3 c (bs ! (i + 1)) (bs ! (i + 2)) in
             if cp < 0x800 then (out, Some (decodeFail bs i ''is an overlong encoding''))
             else if cp \<ge> 0xD800 \<and> cp \<le> 0xDFFF then
               (out, Some (decodeFail bs i ''encodes a UTF-16 surrogate, which is not allowed''))
             else decodeUtf8Loop bs (i + 3) (out @ [ucast cp]))
        else if c < 0xF5 then
          (if \<not> isCont bs (i + 1) \<or> \<not> isCont bs (i + 2) \<or> \<not> isCont bs (i + 3)
           then (out, Some (decodeFail bs i ''starts an incomplete character''))
           else let cp = cp4 c (bs ! (i + 1)) (bs ! (i + 2)) (bs ! (i + 3)) in
             if cp < 0x10000 then (out, Some (decodeFail bs i ''is an overlong encoding''))
             else if cp > 0x10FFFF then
               (out, Some (decodeFail bs i ''is above the highest Unicode character''))
             else decodeUtf8Loop bs (i + 4) (out @ astralUnits cp))
        else (out, Some (decodeFail bs i ''is not a valid UTF-8 start byte'')))"
  by pat_completeness auto
termination
  by (relation "measure (\<lambda>(bs, i, out). length bs - i)") auto

declare decodeUtf8Loop.simps [simp del]

definition hexUpper :: "nat \<Rightarrow> char" where
  "hexUpper d = ''0123456789ABCDEF'' ! d"

definition describeUtf8DecodeError :: "Utf8DecodeError \<Rightarrow> string" where
  "describeUtf8DecodeError err =
     ''This file is not valid UTF-8 text: byte '' @
     ''0x'' @ [hexUpper (unat (drop_bit 4 (err_byte err) AND 0xF)), hexUpper (unat (err_byte err AND 0xF))] @
     '' at line '' @ to_string (int (err_line err)) @ '' '' @ reason err @
     ''. Save the file with UTF-8 encoding.''"

definition decodeUtf8ToUtf16 :: "bytes \<Rightarrow> u16string \<times> Utf8DecodeError option" where
  "decodeUtf8ToUtf16 bs = decodeUtf8Loop bs (skipBom bs) []"

section \<open>The server's lenient conversions\<close>

text \<open>\<open>server/Encoding.cpp\<close>. The byte loop is written over the unread bytes.\<close>

fun utf8To16 :: "bytes \<Rightarrow> u16string" where
  "utf8To16 [] = []"
| "utf8To16 (c # s) =
     (if c < 0x80 then ucast c # utf8To16 s
      else if (c AND 0xE0) = 0xC0 \<and> length s \<ge> 1
      then ucast (cp2 c (s ! 0)) # utf8To16 (drop 1 s)
      else if (c AND 0xF0) = 0xE0 \<and> length s \<ge> 2
      then ucast (cp3 c (s ! 0) (s ! 1)) # utf8To16 (drop 2 s)
      else if (c AND 0xF8) = 0xF0 \<and> length s \<ge> 3
      then astralUnits (cp4 c (s ! 0) (s ! 1) (s ! 2)) @ utf8To16 (drop 3 s)
      else uc CHR ''?'' # utf8To16 s)"

fun utf16To8 :: "u16string \<Rightarrow> bytes" where
  "utf16To8 [] = []"
| "utf16To8 (c # s) =
     (if c < 0x80 then ucast c # utf16To8 s
      else if c < 0x800 then
        ucast (0xC0 OR drop_bit 6 c) # ucast (0x80 OR (c AND 0x3F)) # utf16To8 s
      else if highSurrogate c \<and> s \<noteq> [] then
        (let cp = surrogatePair c (hd s) in
         ucast (0xF0 OR drop_bit 18 cp) # ucast (0x80 OR (drop_bit 12 cp AND 0x3F)) #
         ucast (0x80 OR (drop_bit 6 cp AND 0x3F)) # ucast (0x80 OR (cp AND 0x3F)) #
         utf16To8 (tl s))
      else
        ucast (0xE0 OR drop_bit 12 c) # ucast (0x80 OR (drop_bit 6 c AND 0x3F)) #
        ucast (0x80 OR (c AND 0x3F)) # utf16To8 s)"

section \<open>Well-formed UTF-16\<close>

text \<open>Every surrogate belongs to a high-low pair.\<close>

fun wf16 :: "u16string \<Rightarrow> bool" where
  "wf16 [] = True"
| "wf16 [c] = (\<not> (0xD800 \<le> c \<and> c \<le> 0xDFFF))"
| "wf16 (c # low # s) =
     (if highSurrogate c then lowSurrogate low \<and> wf16 s
      else \<not> lowSurrogate c \<and> wf16 (low # s))"

section \<open>Code points read from bytes\<close>

lemma unat_cp2: "unat (cp2 c c1) = (unat c mod 32) * 64 + unat c1 mod 64"
proof -
  have 1: "unat (push_bit 6 (ucast c AND 0x1F) :: u32) = (unat c mod 32) * 2 ^ 6"
    by (subst unat_push_bit) (simp_all only: unat_byte_bits, simp)
  show ?thesis
    unfolding cp2_def unsigned_or_eq 1 unat_byte_bits
    using nat_or_plus [of "unat c1 mod 64" 6 "unat c mod 32"] by simp
qed

lemma unat_cp3:
  "unat (cp3 c c1 c2) = (unat c mod 16) * 4096 + (unat c1 mod 64) * 64 + unat c2 mod 64"
proof -
  have 1: "unat (push_bit 12 (ucast c AND 0x0F) :: u32) = (unat c mod 16) * 2 ^ 12"
    by (subst unat_push_bit) (simp_all only: unat_byte_bits, simp)
  have 2: "unat (push_bit 6 (ucast c1 AND 0x3F) :: u32) = (unat c1 mod 64) * 2 ^ 6"
    by (subst unat_push_bit) (simp_all only: unat_byte_bits, simp)
  show ?thesis
    unfolding cp3_def unsigned_or_eq or.assoc 1 2 unat_byte_bits
    using nat_or_plus [of "(unat c1 mod 64) * 64 + unat c2 mod 64" 12 "unat c mod 16"]
      nat_or_plus [of "unat c2 mod 64" 6 "unat c1 mod 64"] by simp
qed

lemma unat_cp4:
  "unat (cp4 c c1 c2 c3) = (unat c mod 8) * 262144 + (unat c1 mod 64) * 4096 +
     (unat c2 mod 64) * 64 + unat c3 mod 64"
proof -
  have 0: "unat (push_bit 18 (ucast c AND 0x07) :: u32) = (unat c mod 8) * 2 ^ 18"
    by (subst unat_push_bit) (simp_all only: unat_byte_bits, simp)
  have 1: "unat (push_bit 12 (ucast c1 AND 0x3F) :: u32) = (unat c1 mod 64) * 2 ^ 12"
    by (subst unat_push_bit) (simp_all only: unat_byte_bits, simp)
  have 2: "unat (push_bit 6 (ucast c2 AND 0x3F) :: u32) = (unat c2 mod 64) * 2 ^ 6"
    by (subst unat_push_bit) (simp_all only: unat_byte_bits, simp)
  have "(unat c1 mod 64) * 4096 + (unat c2 mod 64) * 64 + unat c3 mod 64 < 2 ^ 18"
    by simp
  note a = nat_or_plus [OF this, of "unat c mod 8"]
  have "(unat c2 mod 64) * 64 + unat c3 mod 64 < 2 ^ 12" by simp
  note b = nat_or_plus [OF this, of "unat c1 mod 64"]
  show ?thesis
    unfolding cp4_def unsigned_or_eq or.assoc 0 1 2 unat_byte_bits
    using a b nat_or_plus [of "unat c3 mod 64" 6 "unat c2 mod 64"] by (simp add: add.assoc)
qed

section \<open>Bytes and code units written for a scalar\<close>

lemma unat_cont_byte: "unat (ucast (0x80 OR ((c::u32) AND 0x3F)) :: byte) = 128 + unat c mod 64"
  by (simp add: word_to_nat nat_masks nat_ors bits_to_arith)

lemmas unat_lead_simps = word_to_nat nat_masks nat_ors bits_to_arith word_less_nat_alt
  less_mult_imp_div_less

lemma unat_lead2:
  "(c::u32) < 0x800 \<Longrightarrow> unat (ucast (0xC0 OR drop_bit 6 c) :: byte) = 192 + unat c div 64"
  by (simp add: unat_lead_simps)

lemma unat_lead3:
  "(c::u32) < 0x10000 \<Longrightarrow> unat (ucast (0xE0 OR drop_bit 12 c) :: byte) = 224 + unat c div 4096"
  by (simp add: unat_lead_simps)

lemma unat_lead4:
  "(c::u32) < 0x200000 \<Longrightarrow> unat (ucast (0xF0 OR drop_bit 18 c) :: byte) = 240 + unat c div 262144"
  by (simp add: unat_lead_simps)

lemma unat_surrogatePair:
  assumes "highSurrogate c" and "lowSurrogate low"
  shows "unat (surrogatePair c low) = 65536 + (unat c - 55296) * 1024 + (unat low - 56320)"
proof -
  have c: "55296 \<le> unat c" "unat c \<le> 56319" and l: "56320 \<le> unat low" "unat low \<le> 57343"
    using assms by (simp_all add: word_le_nat_alt)
  have 1: "unat ((ucast c :: u32) - 0xD800) = unat c - 55296"
    using c by (simp add: unat_sub word_le_nat_alt)
  have 2: "unat ((ucast low :: u32) - 0xDC00) = unat low - 56320"
    using l by (simp add: unat_sub word_le_nat_alt)
  have 3: "unat (push_bit 10 ((ucast c :: u32) - 0xD800)) = (unat c - 55296) * 1024"
    by (subst unat_push_bit) (use c 1 in simp_all)
  show ?thesis
    unfolding surrogatePair_def unat_word_ariths 2 3 using c l by simp
qed

lemma astralUnits_unat:
  assumes "0x10000 \<le> cp" and "cp \<le> 0x10FFFF"
  obtains c low where "astralUnits cp = [c, low]"
    and "unat c = 55296 + (unat cp - 65536) div 1024"
    and "unat low = 56320 + (unat cp - 65536) mod 1024"
proof -
  have b: "65536 \<le> unat cp" "unat cp \<le> 1114111"
    using assms by (simp_all add: word_le_nat_alt)
  have s: "unat (cp - 0x10000) = unat cp - 65536"
    using assms(1) by (simp add: unat_sub)
  have d: "(unat cp - 65536) div 1024 < 1024" using b by simp
  have 1: "unat (ucast (0xD800 OR drop_bit 10 (cp - 0x10000)) :: char16)
      = 55296 + (unat cp - 65536) div 1024"
    using d by (simp add: word_to_nat s bits_to_arith nat_ors)
  have 2: "unat (ucast (0xDC00 OR ((cp - 0x10000) AND 0x3FF)) :: char16)
      = 56320 + (unat cp - 65536) mod 1024"
    by (simp add: word_to_nat s bits_to_arith nat_ors nat_masks)
  show thesis by (rule that [OF _ 1 2]) (simp add: astralUnits_def Let_def)
qed

section \<open>Scalars of a UTF-16 string\<close>

text \<open>The bytes of one scalar, and the code units the decoder produces for it.\<close>

definition encodeScalar :: "u32 \<Rightarrow> bytes" where
  "encodeScalar x = appendUtf8 [] x"

definition decodeUnits :: "u32 \<Rightarrow> u16string" where
  "decodeUnits x = (if x < 0x10000 then [ucast x] else astralUnits x)"

definition scalarValue :: "u32 \<Rightarrow> bool" where
  "scalarValue x = (x \<le> 0x10FFFF \<and> \<not> (0xD800 \<le> x \<and> x \<le> 0xDFFF))"

lemma appendUtf8_append: "appendUtf8 out x = out @ encodeScalar x"
  by (simp add: encodeScalar_def appendUtf8_def)

lemma utf16ToUtf8Loop_prefix: "utf16ToUtf8Loop (out @ b) s = out @ utf16ToUtf8Loop b s"
  by (induction b s rule: utf16ToUtf8Loop.induct) (simp_all add: appendUtf8_append)

lemma utf16ToUtf8Loop_append: "utf16ToUtf8Loop out s = out @ utf16ToUtf8Loop [] s"
  using utf16ToUtf8Loop_prefix [of out "[]" s] by simp

lemma utf16ToUtf8_Nil [simp]: "utf16ToUtf8 [] = []"
  by (simp add: utf16ToUtf8_def)

lemma utf16ToUtf8_single:
  "\<not> highSurrogate c \<Longrightarrow> utf16ToUtf8 (c # s) = encodeScalar (ucast c) @ utf16ToUtf8 s"
  by (cases s) (auto simp: utf16ToUtf8_def appendUtf8_append,
    auto simp: utf16ToUtf8Loop_append [of "encodeScalar x" for x])

lemma utf16ToUtf8_pair:
  "highSurrogate c \<Longrightarrow> lowSurrogate low \<Longrightarrow>
     utf16ToUtf8 (c # low # s) = encodeScalar (surrogatePair c low) @ utf16ToUtf8 s"
  by (simp add: utf16ToUtf8_def appendUtf8_append utf16ToUtf8Loop_append [of "encodeScalar x" for x])

lemma wf16_single: "\<not> highSurrogate c \<Longrightarrow> wf16 (c # s) \<longleftrightarrow> \<not> lowSurrogate c \<and> wf16 s"
  by (cases s) (auto simp: word_le_nat_alt)

lemma wf16_pair: "highSurrogate c \<Longrightarrow> wf16 (c # low # s) \<longleftrightarrow> lowSurrogate low \<and> wf16 s"
  by simp

text \<open>
  A well-formed string is a sequence of scalars: induction over it meets a unit that is no surrogate
  or a surrogate pair.
\<close>

lemma wf16_induct [consumes 1, case_names Nil single pair]:
  assumes "wf16 s" and "P []"
    and "\<And>c s. \<lbrakk>\<not> highSurrogate c; \<not> lowSurrogate c; wf16 s; P s\<rbrakk> \<Longrightarrow> P (c # s)"
    and "\<And>c low s. \<lbrakk>highSurrogate c; lowSurrogate low; wf16 s; P s\<rbrakk> \<Longrightarrow> P (c # low # s)"
  shows "P s"
  using assms(1)
proof (induction s rule: length_induct)
  case (1 s)
  note IH = 1(1)[rule_format] and wf = 1(2)
  show ?case
  proof (cases s)
    case Nil
    with assms(2) show ?thesis by simp
  next
    case (Cons c t)
    show ?thesis
    proof (cases "highSurrogate c")
      case False
      with wf Cons IH [of t] show ?thesis by (auto simp: wf16_single intro!: assms(3))
    next
      case True
      with wf Cons obtain low u where t: "t = low # u"
        by (cases t) (auto simp: word_le_nat_alt)
      with wf Cons True have "lowSurrogate low" "wf16 u" by (simp_all only: wf16_pair)
      with True Cons t IH [of u] show ?thesis by (auto intro!: assms(4))
    qed
  qed
qed

lemma scalarValue_unit:
  "\<not> highSurrogate c \<Longrightarrow> \<not> lowSurrogate c \<Longrightarrow> scalarValue (ucast c) \<and> decodeUnits (ucast c) = [c]"
  using unat_char16_less [of c]
  by (auto simp: scalarValue_def decodeUnits_def word_le_nat_alt word_less_nat_alt
      simp del: unat_char16_less)

lemma scalarValue_pair:
  assumes "highSurrogate c" and "lowSurrogate low"
  shows "scalarValue (surrogatePair c low) \<and> decodeUnits (surrogatePair c low) = [c, low]"
proof -
  let ?x = "surrogatePair c low"
  have c: "55296 \<le> unat c" "unat c \<le> 56319" and l: "56320 \<le> unat low" "unat low \<le> 57343"
    using assms by (simp_all add: word_le_nat_alt)
  have x: "unat ?x = 65536 + (unat c - 55296) * 1024 + (unat low - 56320)"
    by (rule unat_surrogatePair [OF assms])
  then have b: "0x10000 \<le> ?x" "?x \<le> 0x10FFFF"
    using c l by (simp_all add: word_le_nat_alt)
  from astralUnits_unat [OF b] obtain c' l' where u: "astralUnits ?x = [c', l']"
    and c': "unat c' = 55296 + (unat ?x - 65536) div 1024"
    and l': "unat l' = 56320 + (unat ?x - 65536) mod 1024" .
  have d: "unat ?x - 65536 = (unat low - 56320) + (unat c - 55296) * 1024" by (simp add: x)
  have "(b + a * 1024) div 1024 = a" "(b + a * 1024) mod 1024 = b" if "b < 1024" for a b :: nat
    using that by simp_all
  from this [of "unat low - 56320" "unat c - 55296"] have "c' = c" and "l' = low"
    unfolding word_unat_eq_iff c' l' d using c l by simp_all
  with u b show ?thesis
    using c l by (simp add: scalarValue_def decodeUnits_def x word_le_nat_alt word_less_nat_alt)
qed

text \<open>The bytes written for a scalar, as numbers, by the four lengths.\<close>

lemma encodeScalar_cases:
  assumes "scalarValue x"
  obtains
    (one) b where "unat x < 128" "encodeScalar x = [b]" "unat b = unat x"
  | (two) b0 b1 where "128 \<le> unat x" "unat x < 2048" "encodeScalar x = [b0, b1]"
      "unat b0 = 192 + unat x div 64" "unat b1 = 128 + unat x mod 64"
  | (three) b0 b1 b2 where "2048 \<le> unat x" "unat x < 65536" "encodeScalar x = [b0, b1, b2]"
      "unat b0 = 224 + unat x div 4096" "unat b1 = 128 + unat x div 64 mod 64"
      "unat b2 = 128 + unat x mod 64"
  | (four) b0 b1 b2 b3 where "65536 \<le> unat x" "unat x \<le> 1114111"
      "encodeScalar x = [b0, b1, b2, b3]"
      "unat b0 = 240 + unat x div 262144" "unat b1 = 128 + unat x div 4096 mod 64"
      "unat b2 = 128 + unat x div 64 mod 64" "unat b3 = 128 + unat x mod 64"
proof -
  have m: "unat x \<le> 1114111"
    using assms by (simp add: scalarValue_def word_le_nat_alt)
  consider "unat x < 128" | "128 \<le> unat x" "unat x < 2048" | "2048 \<le> unat x" "unat x < 65536"
    | "65536 \<le> unat x" by linarith
  moreover have c6: "unat (ucast (0x80 OR (drop_bit 6 x AND 0x3F)) :: byte) = 128 + unat x div 64 mod 64"
    and c12: "unat (ucast (0x80 OR (drop_bit 12 x AND 0x3F)) :: byte) = 128 + unat x div 4096 mod 64"
    by (simp_all add: unat_cont_byte unat_drop_bit_eq drop_bit_eq_div unat_div)
  moreover note defs = encodeScalar_def appendUtf8_def word_less_nat_alt
  ultimately show thesis
  proof cases
    case 1
    then show ?thesis
      by (intro one [of "ucast x"]) (simp_all add: defs unat_ucast_down)
  next
    case 2
    then show ?thesis
      by (intro two [OF _ _ _ unat_lead2 unat_cont_byte]) (simp_all add: defs)
  next
    case 3
    then show ?thesis
      by (intro three [OF _ _ _ unat_lead3 c6 unat_cont_byte]) (simp_all add: defs)
  next
    case 4
    with m show ?thesis
      by (intro four [OF _ _ _ unat_lead4 c12 c6 unat_cont_byte]) (simp_all add: defs)
  qed
qed

section \<open>The decoder reads back one scalar at a time\<close>

lemma isCont_unat: "isCont bs j \<longleftrightarrow> j < length bs \<and> 128 \<le> unat (bs ! j) \<and> unat (bs ! j) < 192"
  by (simp add: isCont_def byte_high_bits)

lemma cp2_encode:
  assumes "unat x < 2048" "unat b0 = 192 + unat x div 64" "unat b1 = 128 + unat x mod 64"
  shows "cp2 b0 b1 = x"
proof -
  have "(192 + d) mod 32 = d" if "d < 32" for d :: nat
    using that mod_add_left_eq [of 192 32 d] by simp
  moreover have "unat x div 64 < 32" using assms(1) by simp
  moreover have "(128 + unat x mod 64) mod 64 = unat x mod 64"
    using mod_add_left_eq [of 128 64 "unat x mod 64"] by simp
  ultimately show ?thesis
    unfolding word_unat_eq_iff unat_cp2 assms by simp
qed

lemma mod_128_64: "(128 + (n::nat) mod 64) mod 64 = n mod 64"
  using mod_add_left_eq [of 128 64 "n mod 64"] by simp

lemma nat_split_64: "(n div 64) * 64 + n mod 64 = (n::nat)" "(n div 4096) * 4096 + (n div 64 mod 64) * 64 + n mod 64 = n"
  "(n div 262144) * 262144 + (n div 4096 mod 64) * 4096 + (n div 64 mod 64) * 64 + n mod 64 = n"
proof -
  show 1: "(n div 64) * 64 + n mod 64 = n" for n :: nat by simp
  have d: "n div 64 div 64 = n div 4096" "n div 4096 div 64 = n div 262144" for n :: nat
    by (simp_all flip: div_mult2_eq)
  show 2: "(n div 4096) * 4096 + (n div 64 mod 64) * 64 + n mod 64 = n" for n :: nat
    using 1 [of "n div 64"] 1 [of n] unfolding d by linarith
  show "(n div 262144) * 262144 + (n div 4096 mod 64) * 4096 + (n div 64 mod 64) * 64 + n mod 64 = n"
    using 1 [of "n div 4096"] 2 [of n] unfolding d by linarith
qed

lemma cp3_encode:
  assumes "unat x < 65536" "unat b0 = 224 + unat x div 4096"
    "unat b1 = 128 + unat x div 64 mod 64" "unat b2 = 128 + unat x mod 64"
  shows "cp3 b0 b1 b2 = x"
proof -
  have "(224 + d) mod 16 = d" if "d < 16" for d :: nat
    using that mod_add_left_eq [of 224 16 d] by simp
  moreover have "unat x div 4096 < 16" using assms(1) by simp
  ultimately show ?thesis
    unfolding word_unat_eq_iff unat_cp3 assms mod_128_64 using nat_split_64(2) [of "unat x"] by simp
qed

lemma cp4_encode:
  assumes "unat x \<le> 1114111" "unat b0 = 240 + unat x div 262144"
    "unat b1 = 128 + unat x div 4096 mod 64" "unat b2 = 128 + unat x div 64 mod 64"
    "unat b3 = 128 + unat x mod 64"
  shows "cp4 b0 b1 b2 b3 = x"
proof -
  have "(240 + d) mod 8 = d" if "d < 8" for d :: nat
    using that mod_add_left_eq [of 240 8 d] by simp
  moreover have "unat x div 262144 < 8" using assms(1) by simp
  ultimately show ?thesis
    unfolding word_unat_eq_iff unat_cp4 assms mod_128_64 using nat_split_64(3) [of "unat x"] by simp
qed

lemmas decode_step_simps = Let_def isCont_unat nth_append word_less_nat_alt word_le_nat_alt
  decodeUnits_def

lemma four_Suc: "n + 4 = Suc (Suc (Suc (Suc n)))"
  by simp

lemma decodeUtf8Loop_scalar:
  assumes "scalarValue x"
  shows "decodeUtf8Loop (pre @ encodeScalar x @ rest) (length pre) out =
    decodeUtf8Loop (pre @ encodeScalar x @ rest) (length pre + length (encodeScalar x))
      (out @ decodeUnits x)"
  using assms
proof (cases rule: encodeScalar_cases)
  case (one b)
  then have "ucast b = (ucast x :: char16)"
    by (simp add: word_unat_eq_iff unat_ucast_down)
  with one show ?thesis
    by (subst decodeUtf8Loop.simps) (simp add: decode_step_simps)
next
  case (two b0 b1)
  then have "unat b0 < 224" "194 \<le> unat b0" by linarith+
  with two cp2_encode [OF two(2,4,5)] show ?thesis
    by (subst decodeUtf8Loop.simps) (simp add: decode_step_simps)
next
  case (three b0 b1 b2)
  then have b: "unat b0 < 240" "224 \<le> unat b0" by linarith+
  have s: "\<not> (55296 \<le> unat x \<and> unat x \<le> 57343)"
    using assms three by (simp add: scalarValue_def word_le_nat_alt)
  show ?thesis
    using three b s cp3_encode [OF three(2,4,5,6)]
    by (subst decodeUtf8Loop.simps) (auto simp: decode_step_simps numeral_3_eq_3)
next
  case (four b0 b1 b2 b3)
  then have "unat b0 < 245" "240 \<le> unat b0" by linarith+
  with four cp4_encode [OF four(2,4,5,6,7)] show ?thesis
    by (subst decodeUtf8Loop.simps)
      (simp add: decode_step_simps four_Suc)
qed

text \<open>The loop reads the encoding of a well-formed text, whatever follows it.\<close>

lemma decodeUtf8Loop_reads:
  assumes "wf16 s"
  shows "decodeUtf8Loop (pre @ utf16ToUtf8 s @ rest) (length pre) out =
    decodeUtf8Loop (pre @ utf16ToUtf8 s @ rest) (length pre + length (utf16ToUtf8 s)) (out @ s)"
  using assms
proof (induction s arbitrary: pre out rule: wf16_induct)
  case Nil
  then show ?case by simp
next
  case (single c s)
  with single.IH [of "pre @ encodeScalar (ucast c)" "out @ [c]"] scalarValue_unit [of c]
  show ?case by (simp add: utf16ToUtf8_single decodeUtf8Loop_scalar add.assoc)
next
  case (pair c low s)
  with pair.IH [of "pre @ encodeScalar (surrogatePair c low)" "out @ [c, low]"]
    scalarValue_pair [of c low]
  show ?case by (simp add: utf16ToUtf8_pair decodeUtf8Loop_scalar add.assoc)
qed

lemma decodeUtf8Loop_encode:
  "wf16 s \<Longrightarrow> decodeUtf8Loop (pre @ utf16ToUtf8 s) (length pre) out = (out @ s, None)"
  using decodeUtf8Loop_reads [of s pre "[]" out] decodeUtf8Loop.simps [of "pre @ utf16ToUtf8 s" "length pre + length (utf16ToUtf8 s)"]
  by simp

section \<open>The decoder accepts nothing else\<close>

lemma digits_64:
  fixes a b c d :: nat
  assumes "b < 64" "c < 64" "d < 64"
  shows "(a * 64 + b) div 64 = a" "(a * 64 + b) mod 64 = b"
    "(a * 4096 + b * 64 + c) div 4096 = a" "(a * 4096 + b * 64 + c) div 64 mod 64 = b"
    "(a * 4096 + b * 64 + c) mod 64 = c"
    "(a * 262144 + b * 4096 + c * 64 + d) div 262144 = a"
    "(a * 262144 + b * 4096 + c * 64 + d) div 4096 mod 64 = b"
    "(a * 262144 + b * 4096 + c * 64 + d) div 64 mod 64 = c"
    "(a * 262144 + b * 4096 + c * 64 + d) mod 64 = d"
proof -
  have 1: "b < 64 \<Longrightarrow> (a * 64 + b) div 64 = a" "b < 64 \<Longrightarrow> (a * 64 + b) mod 64 = b" for a b :: nat
    by simp_all
  have dd: "n div 4096 = n div 64 div 64" "n div 262144 = n div 64 div 64 div 64" for n :: nat
    by (simp_all flip: div_mult2_eq)
  have 2: "a * 4096 + b * 64 + c = (a * 64 + b) * 64 + c"
    "a * 262144 + b * 4096 + c * 64 + d = ((a * 64 + b) * 64 + c) * 64 + d" by simp_all
  show "(a * 64 + b) div 64 = a" "(a * 64 + b) mod 64 = b"
    "(a * 4096 + b * 64 + c) div 4096 = a" "(a * 4096 + b * 64 + c) div 64 mod 64 = b"
    "(a * 4096 + b * 64 + c) mod 64 = c"
    "(a * 262144 + b * 4096 + c * 64 + d) div 262144 = a"
    "(a * 262144 + b * 4096 + c * 64 + d) div 4096 mod 64 = b"
    "(a * 262144 + b * 4096 + c * 64 + d) div 64 mod 64 = c"
    "(a * 262144 + b * 4096 + c * 64 + d) mod 64 = d"
    unfolding 2 dd by (simp_all only: 1 assms)
qed

lemma cont_split:
  assumes "128 \<le> unat (b::byte)" "unat b < 192"
  obtains k where "unat b = 128 + k" "k < 64" "unat b mod 64 = k"
proof -
  define k where "k = unat b - 128"
  then have "unat b = 128 + k" "k < 64" using assms by simp_all
  with that [of k] mod_128_64 [of k] show thesis by simp
qed

lemma lead_split:
  assumes "m * k \<le> unat (b::byte)" "unat b < m * k + k"
  obtains a where "unat b = m * k + a" "a < k" "unat b mod k = a"
proof -
  define a where "a = unat b - m * k"
  then have "unat b = m * k + a" "a < k" using assms by simp_all
  with that [of a] show thesis by simp
qed

lemma encodeScalar_cp2:
  assumes "194 \<le> unat b0" "unat b0 < 224" "128 \<le> unat b1" "unat b1 < 192"
  shows "scalarValue (cp2 b0 b1) \<and> encodeScalar (cp2 b0 b1) = [b0, b1] \<and>
    decodeUnits (cp2 b0 b1) = [ucast (cp2 b0 b1)]"
proof -
  from lead_split [of 6 32 b0] assms(1,2) obtain a
    where a: "unat b0 = 192 + a" "a < 32" "unat b0 mod 32 = a" by auto
  from cont_split [OF assms(3,4)] obtain b where b: "unat b1 = 128 + b" "b < 64" "unat b1 mod 64 = b" .
  have x: "unat (cp2 b0 b1) = a * 64 + b" by (simp add: unat_cp2 a(3) b(3))
  have a2: "2 \<le> a" using assms(1) a(1) by simp
  have sv: "scalarValue (cp2 b0 b1)"
    unfolding scalarValue_def word_le_nat_alt x using a b by simp
  then show ?thesis
  proof (cases rule: encodeScalar_cases)
    case (two c0 c1)
    with a b sv digits_64(1,2) [OF b(2) b(2) b(2), of a] show ?thesis
      by (simp add: word_unat_eq_iff decodeUnits_def word_less_nat_alt x)
  qed (use a a2 b x in simp_all)
qed

lemma encodeScalar_cp3:
  assumes "224 \<le> unat b0" "unat b0 < 240" "128 \<le> unat b1" "unat b1 < 192"
    "128 \<le> unat b2" "unat b2 < 192"
    and big: "\<not> cp3 b0 b1 b2 < 0x800"
    and nosur: "\<not> (cp3 b0 b1 b2 \<ge> 0xD800 \<and> cp3 b0 b1 b2 \<le> 0xDFFF)"
  shows "scalarValue (cp3 b0 b1 b2) \<and> encodeScalar (cp3 b0 b1 b2) = [b0, b1, b2] \<and>
    decodeUnits (cp3 b0 b1 b2) = [ucast (cp3 b0 b1 b2)]"
proof -
  from lead_split [of 14 16 b0] assms(1,2) obtain a
    where a: "unat b0 = 224 + a" "a < 16" "unat b0 mod 16 = a" by auto
  from cont_split [OF assms(3,4)] obtain b where b: "unat b1 = 128 + b" "b < 64" "unat b1 mod 64 = b" .
  from cont_split [OF assms(5,6)] obtain c where c: "unat b2 = 128 + c" "c < 64" "unat b2 mod 64 = c" .
  have x: "unat (cp3 b0 b1 b2) = a * 4096 + b * 64 + c" by (simp add: unat_cp3 a(3) b(3) c(3))
  have lim: "unat (cp3 b0 b1 b2) < 65536" "2048 \<le> unat (cp3 b0 b1 b2)"
    using a b c big by (simp_all add: x word_less_nat_alt)
  have sv: "scalarValue (cp3 b0 b1 b2)"
    using nosur lim by (auto simp: scalarValue_def word_le_nat_alt)
  then show ?thesis
  proof (cases rule: encodeScalar_cases)
    case (three c0 c1 c2)
    with a b c sv digits_64(3,4,5) [OF b(2) c(2) c(2), of a] lim show ?thesis
      by (simp add: word_unat_eq_iff decodeUnits_def word_less_nat_alt x)
  qed (use lim in simp_all)
qed

lemma encodeScalar_cp4:
  assumes "240 \<le> unat b0" "unat b0 < 248" "128 \<le> unat b1" "unat b1 < 192"
    "128 \<le> unat b2" "unat b2 < 192" "128 \<le> unat b3" "unat b3 < 192"
    and big: "\<not> cp4 b0 b1 b2 b3 < 0x10000" and lim: "\<not> cp4 b0 b1 b2 b3 > 0x10FFFF"
  shows "scalarValue (cp4 b0 b1 b2 b3) \<and> encodeScalar (cp4 b0 b1 b2 b3) = [b0, b1, b2, b3] \<and>
    decodeUnits (cp4 b0 b1 b2 b3) = astralUnits (cp4 b0 b1 b2 b3)"
proof -
  from lead_split [of 30 8 b0] assms(1,2) obtain a
    where a: "unat b0 = 240 + a" "a < 8" "unat b0 mod 8 = a" by auto
  from cont_split [OF assms(3,4)] obtain b where b: "unat b1 = 128 + b" "b < 64" "unat b1 mod 64 = b" .
  from cont_split [OF assms(5,6)] obtain c where c: "unat b2 = 128 + c" "c < 64" "unat b2 mod 64 = c" .
  from cont_split [OF assms(7,8)] obtain d where d: "unat b3 = 128 + d" "d < 64" "unat b3 mod 64 = d" .
  have x: "unat (cp4 b0 b1 b2 b3) = a * 262144 + b * 4096 + c * 64 + d"
    by (simp add: unat_cp4 a(3) b(3) c(3) d(3))
  have l: "65536 \<le> unat (cp4 b0 b1 b2 b3)" "unat (cp4 b0 b1 b2 b3) \<le> 1114111"
    using big lim by (simp_all add: word_less_nat_alt)
  have sv: "scalarValue (cp4 b0 b1 b2 b3)"
    using l by (simp add: scalarValue_def word_le_nat_alt)
  then show ?thesis
  proof (cases rule: encodeScalar_cases)
    case (four c0 c1 c2 c3)
    have "c0 = b0" "c1 = b1" "c2 = b2" "c3 = b3"
      unfolding word_unat_eq_iff four(4-7) x digits_64(6,7,8,9) [OF b(2) c(2) d(2), of a]
      by (simp_all only: a b c d)
    with sv four(3) l show ?thesis
      by (simp add: decodeUnits_def word_less_nat_alt)
  qed (use l in simp_all)
qed

text \<open>
  One iteration of the decoder: it stops at \<open>i\<close> with an error, or it reads the whole encoding of one
  scalar and appends that scalar's code units.
\<close>

definition decodeStep :: "bytes \<Rightarrow> nat \<Rightarrow> u16string \<Rightarrow> bool" where
  "decodeStep bs i out \<longleftrightarrow>
    (\<exists>why. decodeUtf8Loop bs i out = (out, Some (decodeFail bs i why))) \<or>
    (\<exists>x. scalarValue x \<and> i + length (encodeScalar x) \<le> length bs \<and>
      take (length (encodeScalar x)) (drop i bs) = encodeScalar x \<and>
      decodeUtf8Loop bs i out =
        decodeUtf8Loop bs (i + length (encodeScalar x)) (out @ decodeUnits x))"

lemma decodeStep_fail:
  "decodeUtf8Loop bs i out = (out, Some (decodeFail bs i why)) \<Longrightarrow> decodeStep bs i out"
  by (auto simp: decodeStep_def)

lemma decodeStep_read:
  assumes "scalarValue x" "encodeScalar x = take n (drop i bs)" "i + n \<le> length bs"
    "decodeUtf8Loop bs i out = decodeUtf8Loop bs (i + n) (out @ decodeUnits x)"
  shows "decodeStep bs i out"
proof -
  have "length (encodeScalar x) = n" using assms(2,3) by simp
  with assms have "scalarValue x \<and> i + length (encodeScalar x) \<le> length bs \<and>
      take (length (encodeScalar x)) (drop i bs) = encodeScalar x \<and>
      decodeUtf8Loop bs i out =
        decodeUtf8Loop bs (i + length (encodeScalar x)) (out @ decodeUnits x)"
    by simp
  then show ?thesis unfolding decodeStep_def by blast
qed

lemma take_nths:
  assumes "i < length bs"
  shows "take 1 (drop i bs) = [bs ! i]"
    "i + 1 < length bs \<Longrightarrow> take 2 (drop i bs) = [bs ! i, bs ! (i + 1)]"
    "i + 2 < length bs \<Longrightarrow> take 3 (drop i bs) = [bs ! i, bs ! (i + 1), bs ! (i + 2)]"
    "i + 3 < length bs \<Longrightarrow> take 4 (drop i bs) = [bs ! i, bs ! (i + 1), bs ! (i + 2), bs ! (i + 3)]"
  using assms by (simp_all add: drop_nth_Cons eval_nat_numeral)

lemma decodeStep_ascii:
  assumes "i < length bs" and c: "unat (bs ! i) < 128"
  shows "decodeStep bs i out"
proof -
  let ?x = "ucast (bs ! i) :: u32"
  have "scalarValue ?x" "encodeScalar ?x = [bs ! i]" "decodeUnits ?x = [ucast (bs ! i)]"
    using c by (simp_all add: scalarValue_def encodeScalar_def appendUtf8_def decodeUnits_def
      word_le_nat_alt word_less_nat_alt word_unat_eq_iff unat_ucast_down)
  then show ?thesis
    using assms take_nths(1) [OF assms(1)]
    by (intro decodeStep_read [of ?x 1]) (auto simp: decodeUtf8Loop.simps [of bs i out] Let_def word_less_nat_alt)
qed

lemma decodeStep_two:
  assumes "i < length bs" and c: "194 \<le> unat (bs ! i)" "unat (bs ! i) < 224"
  shows "decodeStep bs i out"
proof (cases "isCont bs (i + 1)")
  case True
  then show ?thesis
    using assms take_nths(2) [OF assms(1)] encodeScalar_cp2 [of "bs ! i" "bs ! (i + 1)"]
    by (intro decodeStep_read [of "cp2 (bs ! i) (bs ! (i + 1))" 2])
      (auto simp: decodeUtf8Loop.simps [of bs i out] Let_def word_less_nat_alt isCont_unat)
next
  case False
  with assms show ?thesis
    by (intro decodeStep_fail) (simp add: decodeUtf8Loop.simps [of bs i out] Let_def word_less_nat_alt)
qed

lemma decodeStep_three:
  assumes "i < length bs" and c: "224 \<le> unat (bs ! i)" "unat (bs ! i) < 240"
  shows "decodeStep bs i out"
proof -
  let ?x = "cp3 (bs ! i) (bs ! (i + 1)) (bs ! (i + 2))"
  have lead: "\<not> bs ! i < 0x80" "\<not> bs ! i < 0xC2" "\<not> bs ! i < 0xE0" "bs ! i < 0xF0"
    using c by (simp_all add: word_less_nat_alt)
  note unf = decodeUtf8Loop.simps [of bs i out] Let_def
  consider (incomplete) "\<not> (isCont bs (i + 1) \<and> isCont bs (i + 2))"
    | (overlong) "isCont bs (i + 1)" "isCont bs (i + 2)" "?x < 0x800"
    | (surrogate) "isCont bs (i + 1)" "isCont bs (i + 2)" "\<not> ?x < 0x800" "?x \<ge> 0xD800 \<and> ?x \<le> 0xDFFF"
    | (good) "isCont bs (i + 1)" "isCont bs (i + 2)" "\<not> ?x < 0x800" "\<not> (?x \<ge> 0xD800 \<and> ?x \<le> 0xDFFF)"
    by blast
  then show ?thesis
  proof cases
    case good
    then have i2: "i + 2 < length bs" by (simp add: isCont_unat)
    have e: "scalarValue ?x \<and> encodeScalar ?x = [bs ! i, bs ! (i + 1), bs ! (i + 2)] \<and>
        decodeUnits ?x = [ucast ?x]"
      using c good by (intro encodeScalar_cp3) (auto simp: isCont_unat)
    have "decodeUtf8Loop bs i out = decodeUtf8Loop bs (i + 3) (out @ [ucast ?x])"
      using lead good assms(1) unfolding unf by (simp only: if_True if_False not_False_eq_True simp_thms)
    with e i2 take_nths(3) [OF assms(1) i2] show ?thesis by (intro decodeStep_read [of ?x 3]) simp_all
  qed (rule decodeStep_fail, use lead assms(1) in \<open>simp add: unf\<close>)+
qed

lemma decodeStep_four:
  assumes "i < length bs" and c: "240 \<le> unat (bs ! i)" "unat (bs ! i) < 245"
  shows "decodeStep bs i out"
proof -
  let ?x = "cp4 (bs ! i) (bs ! (i + 1)) (bs ! (i + 2)) (bs ! (i + 3))"
  have lead: "\<not> bs ! i < 0x80" "\<not> bs ! i < 0xC2" "\<not> bs ! i < 0xE0" "\<not> bs ! i < 0xF0" "bs ! i < 0xF5"
    using c by (simp_all add: word_less_nat_alt)
  note unf = decodeUtf8Loop.simps [of bs i out] Let_def
  let ?conts = "isCont bs (i + 1) \<and> isCont bs (i + 2) \<and> isCont bs (i + 3)"
  consider (incomplete) "\<not> ?conts" | (overlong) ?conts "?x < 0x10000"
    | (beyond) ?conts "\<not> ?x < 0x10000" "?x > 0x10FFFF"
    | (good) ?conts "\<not> ?x < 0x10000" "\<not> ?x > 0x10FFFF" by blast
  then show ?thesis
  proof cases
    case good
    then have i3: "i + 3 < length bs" by (simp add: isCont_unat)
    have e: "scalarValue ?x \<and> decodeUnits ?x = astralUnits ?x \<and>
        encodeScalar ?x = [bs ! i, bs ! (i + 1), bs ! (i + 2), bs ! (i + 3)]"
      using c good encodeScalar_cp4 [of "bs ! i" "bs ! (i + 1)" "bs ! (i + 2)" "bs ! (i + 3)"]
      by (simp add: isCont_unat)
    have "decodeUtf8Loop bs i out = decodeUtf8Loop bs (i + 4) (out @ astralUnits ?x)"
      using lead good assms(1) unfolding unf by (simp only: if_True if_False not_False_eq_True simp_thms)
    with e i3 take_nths(4) [OF assms(1) i3] show ?thesis by (intro decodeStep_read [of ?x 4]) simp_all
  qed (rule decodeStep_fail, use lead assms(1) in \<open>simp add: unf\<close>)+
qed

lemma decodeUtf8Loop_step:
  assumes "i < length bs"
  shows "decodeStep bs i out"
proof -
  consider "unat (bs ! i) < 128" | "128 \<le> unat (bs ! i)" "unat (bs ! i) < 194"
    | "194 \<le> unat (bs ! i)" "unat (bs ! i) < 224" | "224 \<le> unat (bs ! i)" "unat (bs ! i) < 240"
    | "240 \<le> unat (bs ! i)" "unat (bs ! i) < 245" | "245 \<le> unat (bs ! i)"
    by linarith
  then show ?thesis
    by cases (use assms in \<open>auto intro: decodeStep_ascii decodeStep_two decodeStep_three
      decodeStep_four decodeStep_fail simp: decodeUtf8Loop.simps [of bs i out] Let_def word_less_nat_alt\<close>)
qed

lemma decodeUnits_cases:
  assumes "scalarValue x"
  obtains (unit) c where "\<not> highSurrogate c" "\<not> lowSurrogate c" "decodeUnits x = [c]" "x = ucast c"
  | (pair) c low where "highSurrogate c" "lowSurrogate low" "decodeUnits x = [c, low]"
      "x = surrogatePair c low"
proof (cases "x < 0x10000")
  case True
  let ?c = "ucast x :: char16"
  have u: "unat ?c = unat x" using True by (simp add: unat_ucast_down word_less_nat_alt)
  have "\<not> highSurrogate ?c \<and> \<not> lowSurrogate ?c"
    using assms unfolding scalarValue_def word_le_nat_alt u by auto
  moreover have "x = ucast ?c" unfolding word_unat_eq_iff unat_ucast_char16 u ..
  ultimately show thesis using True by (intro unit [of ?c]) (simp_all add: decodeUnits_def)
next
  case False
  then have b: "0x10000 \<le> x" "x \<le> 0x10FFFF" using assms by (simp_all add: scalarValue_def)
  then have n: "65536 \<le> unat x" "unat x \<le> 1114111" by (simp_all add: word_le_nat_alt)
  from astralUnits_unat [OF b] obtain c low where u: "astralUnits x = [c, low]"
    and c: "unat c = 55296 + (unat x - 65536) div 1024"
    and l: "unat low = 56320 + (unat x - 65536) mod 1024" .
  have "(unat x - 65536) div 1024 < 1024" "(unat x - 65536) mod 1024 < 1024" using n by simp_all
  then have s: "highSurrogate c" "lowSurrogate low" by (simp_all add: word_le_nat_alt c l)
  have "unat x = unat (surrogatePair c low)"
    unfolding unat_surrogatePair [OF s] c l using n by simp
  then have "x = surrogatePair c low" by (simp add: word_unat_eq_iff)
  with u s False show thesis by (intro pair) (simp_all only: decodeUnits_def if_False)
qed

lemma decodeUnits_encode:
  assumes "scalarValue x"
  shows "utf16ToUtf8 (decodeUnits x @ s) = encodeScalar x @ utf16ToUtf8 s"
    and "wf16 (decodeUnits x @ s) = wf16 s"
proof -
  from assms show "utf16ToUtf8 (decodeUnits x @ s) = encodeScalar x @ utf16ToUtf8 s"
    by (cases rule: decodeUnits_cases)
      (simp_all only: utf16ToUtf8_single utf16ToUtf8_pair append_Cons append_Nil not_False_eq_True)
  from assms show "wf16 (decodeUnits x @ s) = wf16 s"
    by (cases rule: decodeUnits_cases)
      (simp_all only: wf16_single wf16_pair append_Cons append_Nil simp_thms)
qed

text \<open>
  What a run of the decoder from \<open>i\<close> has established when it ends at byte \<open>n\<close>: the units it appended
  are well-formed UTF-16 whose UTF-8 encoding is exactly the bytes from \<open>i\<close> to \<open>n\<close>.
\<close>

definition decodedUpTo :: "bytes \<Rightarrow> nat \<Rightarrow> nat \<Rightarrow> u16string \<Rightarrow> bool" where
  "decodedUpTo bs i n s \<longleftrightarrow>
     wf16 s \<and> i \<le> n \<and> n \<le> length bs \<and> take (n - i) (drop i bs) = utf16ToUtf8 s"

lemma decodedUpTo_scalar:
  assumes "scalarValue x" and "i + length (encodeScalar x) \<le> length bs"
    and "take (length (encodeScalar x)) (drop i bs) = encodeScalar x"
    and "decodedUpTo bs (i + length (encodeScalar x)) n s"
  shows "decodedUpTo bs i n (decodeUnits x @ s)"
proof -
  let ?k = "length (encodeScalar x)"
  have "take (n - i) (drop i bs) = take ?k (drop i bs) @ take (n - (i + ?k)) (drop ?k (drop i bs))"
    using assms(4) take_add [of ?k "n - (i + ?k)" "drop i bs"] by (simp add: decodedUpTo_def)
  with assms show ?thesis
    by (simp add: decodedUpTo_def decodeUnits_encode add.commute)
qed

lemma encodeScalar_length_pos: "0 < length (encodeScalar x)"
  by (simp add: encodeScalar_def appendUtf8_def)

lemma decodeUtf8Loop_result:
  assumes "i \<le> length bs"
  shows "(\<exists>s. decodeUtf8Loop bs i out = (out @ s, None) \<and> decodedUpTo bs i (length bs) s) \<or>
    (\<exists>s n why. decodeUtf8Loop bs i out = (out @ s, Some (decodeFail bs n why)) \<and>
       n < length bs \<and> decodedUpTo bs i n s)"
  using assms
proof (induction "length bs - i" arbitrary: i out rule: less_induct)
  case less
  show ?case
  proof (cases "i < length bs")
    case False
    then have "decodeUtf8Loop bs i out = (out @ [], None)"
      by (subst decodeUtf8Loop.simps) simp
    moreover have "decodedUpTo bs i (length bs) []"
      using False less.prems by (simp add: decodedUpTo_def)
    ultimately show ?thesis by blast
  next
    case True
    from decodeUtf8Loop_step [OF this, of out] consider
        (fail) why where "decodeUtf8Loop bs i out = (out @ [], Some (decodeFail bs i why))"
      | (read) x where "scalarValue x" "i + length (encodeScalar x) \<le> length bs"
        "take (length (encodeScalar x)) (drop i bs) = encodeScalar x"
        "decodeUtf8Loop bs i out =
          decodeUtf8Loop bs (i + length (encodeScalar x)) (out @ decodeUnits x)"
      unfolding decodeStep_def by auto
    then show ?thesis
    proof cases
      case (fail why)
      moreover have "decodedUpTo bs i i []" using True by (simp add: decodedUpTo_def)
      ultimately show ?thesis using True by blast
    next
      case (read x)
      have "length bs - (i + length (encodeScalar x)) < length bs - i"
        using True encodeScalar_length_pos [of x] by linarith
      from less.hyps [OF this read(2), of "out @ decodeUnits x"] read(4)
        decodedUpTo_scalar [OF read(1-3)]
      show ?thesis by (simp only: append_assoc) blast
    qed
  qed
qed

section \<open>The server's conversions agree on well-formed text\<close>

lemma utf16To8_scalar:
  "\<not> highSurrogate c \<Longrightarrow> utf16To8 (c # s) = encodeScalar (ucast c) @ utf16To8 s"
  "highSurrogate c \<Longrightarrow> lowSurrogate low \<Longrightarrow>
     utf16To8 (c # low # s) = encodeScalar (surrogatePair c low) @ utf16To8 s"
proof -
  have b: "unat (0xC0 OR drop_bit 6 c) mod 256 = unat (0xC0 OR drop_bit 6 (ucast c :: u32)) mod 256"
    "unat (0xE0 OR drop_bit 12 c) mod 256 = unat (0xE0 OR drop_bit 12 (ucast c :: u32)) mod 256"
    "unat (0x80 OR (c AND 0x3F)) mod 256 = unat (0x80 OR ((ucast c :: u32) AND 0x3F)) mod 256"
    "unat (0x80 OR (drop_bit 6 c AND 0x3F)) mod 256 =
       unat (0x80 OR (drop_bit 6 (ucast c :: u32) AND 0x3F)) mod 256"
    by (simp_all add: unsigned_or_eq unsigned_and_eq unat_drop_bit_eq)
  have u: "ucast (w :: char16) = (ucast (v :: u32) :: byte) \<longleftrightarrow> unat w mod 256 = unat v mod 256" for w v
    by (simp add: word_unat_eq_iff unsigned_ucast_eq take_bit_eq_mod)
  show "\<not> highSurrogate c \<Longrightarrow> utf16To8 (c # s) = encodeScalar (ucast c) @ utf16To8 s"
    using b unat_char16_less [of c]
    by (auto simp: encodeScalar_def appendUtf8_def u word_less_nat_alt)
  assume s: "highSurrogate c" "lowSurrogate low"
  then have "unat (surrogatePair c low) \<ge> 65536" by (simp add: unat_surrogatePair)
  with s show "utf16To8 (c # low # s) = encodeScalar (surrogatePair c low) @ utf16To8 s"
    by (auto simp: encodeScalar_def appendUtf8_def word_less_nat_alt word_le_nat_alt Let_def)
qed

lemma utf16To8_wf16: "wf16 s \<Longrightarrow> utf16To8 s = utf16ToUtf8 s"
proof (induction s rule: wf16_induct)
  case (single c s)
  then show ?case using utf16To8_scalar(1) [OF single(1)] utf16ToUtf8_single [OF single(1)] by simp
next
  case (pair c low s)
  then show ?case using utf16To8_scalar(2) [OF pair(1,2)] utf16ToUtf8_pair [OF pair(1,2)] by simp
qed simp

lemma utf8To16_scalar:
  assumes "scalarValue x"
  shows "utf8To16 (encodeScalar x @ rest) = decodeUnits x @ utf8To16 rest"
  using assms
proof (cases rule: encodeScalar_cases)
  case (one b)
  then have "ucast b = (ucast x :: char16)"
    by (simp add: word_unat_eq_iff unat_ucast_down)
  with one show ?thesis by (simp add: decodeUnits_def word_less_nat_alt)
next
  case (two b0 b1)
  with cp2_encode [OF two(2,4,5)] show ?thesis
    by (simp add: decodeUnits_def word_less_nat_alt byte_high_bits)
next
  case (three b0 b1 b2)
  with cp3_encode [OF three(2,4,5,6)] show ?thesis
    by (simp add: decodeUnits_def word_less_nat_alt byte_high_bits)
next
  case (four b0 b1 b2 b3)
  then have "unat x div 262144 < 8" by simp
  with four cp4_encode [OF four(2,4,5,6,7)] show ?thesis
    by (simp add: decodeUnits_def word_less_nat_alt byte_high_bits)
qed

lemma utf8To16_encode: "wf16 s \<Longrightarrow> utf8To16 (utf16ToUtf8 s) = s"
proof (induction s rule: wf16_induct)
  case (single c s)
  with scalarValue_unit [of c] show ?case by (simp add: utf16ToUtf8_single utf8To16_scalar)
next
  case (pair c low s)
  with scalarValue_pair [of c low] show ?case by (simp add: utf16ToUtf8_pair utf8To16_scalar)
qed simp

section \<open>Codecs\<close>

text \<open>
  What a pair of conversions between UTF-16 and UTF-8 promises its client: decoding undoes encoding
  on well-formed text, and encoding works piecewise. The front end and the server each have one.
\<close>

locale utf_codec =
  fixes encode :: "u16string \<Rightarrow> bytes" and decode :: "bytes \<Rightarrow> u16string"
  assumes decode_encode: "wf16 s \<Longrightarrow> decode (encode s) = s"
    and encode_append: "wf16 s \<Longrightarrow> encode (s @ t) = encode s @ encode t"
begin

lemma encode_inj: "inj_on encode {s. wf16 s}"
  by (rule inj_on_inverseI [of _ decode]) (simp add: decode_encode)

lemma encode_Nil: "encode [] = []"
  using encode_append [of "[]" "[]"] by (metis append_self_conv wf16.simps(1))

lemma encode_concat: "\<forall>s \<in> set ss. wf16 s \<Longrightarrow> encode (concat ss) = concat (map encode ss)"
  by (induction ss) (auto simp: encode_append encode_Nil)

end

lemma utf16ToUtf8_append: "wf16 s \<Longrightarrow> utf16ToUtf8 (s @ t) = utf16ToUtf8 s @ utf16ToUtf8 t"
proof (induction s rule: wf16_induct)
  case (single c s)
  then show ?case
    using utf16ToUtf8_single [OF single(1), of s] utf16ToUtf8_single [OF single(1), of "s @ t"]
    by simp
next
  case (pair c low s)
  then show ?case
    using utf16ToUtf8_pair [OF pair(1,2), of s] utf16ToUtf8_pair [OF pair(1,2), of "s @ t"]
    by simp
qed simp

lemma utf16To8_append: "wf16 s \<Longrightarrow> utf16To8 (s @ t) = utf16To8 s @ utf16To8 t"
proof (induction s rule: wf16_induct)
  case (single c s)
  then show ?case
    using utf16To8_scalar(1) [OF single(1), of s] utf16To8_scalar(1) [OF single(1), of "s @ t"]
    by simp
next
  case (pair c low s)
  then show ?case
    using utf16To8_scalar(2) [OF pair(1,2), of s] utf16To8_scalar(2) [OF pair(1,2), of "s @ t"]
    by simp
qed simp

interpretation frontend_codec: utf_codec utf16ToUtf8 "\<lambda>bs. fst (decodeUtf8Loop bs 0 [])"
  by unfold_locales
    (use decodeUtf8Loop_encode [of _ "[]" "[]"] in \<open>simp_all add: utf16ToUtf8_append\<close>)

interpretation wire_codec: utf_codec utf16To8 utf8To16
  by unfold_locales (simp_all add: utf16To8_wf16 utf8To16_encode utf16To8_append)

section \<open>Integer literals\<close>

text \<open>The value of a digit string, as an unbounded number.\<close>

definition digitsValue :: "u64 \<Rightarrow> nat \<Rightarrow> bytes \<Rightarrow> nat" where
  "digitsValue base v s = foldl (\<lambda>a c. a * unat base + unat (the (literalDigit c))) v s"

definition digitsOk :: "u64 \<Rightarrow> bytes \<Rightarrow> bool" where
  "digitsOk base s = list_all (\<lambda>c. case literalDigit c of None \<Rightarrow> False | Some d \<Rightarrow> d < base) s"

lemma digitsValue_Cons:
  "digitsValue base v (c # s) =
     digitsValue base (v * unat base + unat (the (literalDigit c))) s"
  by (simp add: digitsValue_def)

lemma digitsValue_ge: "0 < unat base \<Longrightarrow> v \<le> digitsValue base v s"
proof (induction s arbitrary: v)
  case (Cons c s)
  have "v \<le> v * unat base + unat (the (literalDigit c))" using Cons.prems by (simp add: trans_le_add1)
  with Cons.IH [OF Cons.prems] show ?case unfolding digitsValue_Cons using le_trans by blast
qed (simp add: digitsValue_def)

lemma literal_overflow_check:
  fixes v base digit :: u64
  assumes "0 < unat base"
  shows "\<not> v > (0xFFFFFFFFFFFFFFFF - digit) div base \<longleftrightarrow> unat v * unat base + unat digit < 2 ^ 64"
    and "unat v * unat base + unat digit < 2 ^ 64 \<Longrightarrow>
      unat (v * base + digit) = unat v * unat base + unat digit"
proof -
  have "unat digit < 2 ^ LENGTH(64)" by (rule unsigned_less)
  then have d: "unat digit \<le> 0xFFFFFFFFFFFFFFFF" by simp
  then have "unat (0xFFFFFFFFFFFFFFFF - digit) = 0xFFFFFFFFFFFFFFFF - unat digit"
    by (subst unat_sub) (simp_all add: word_le_nat_alt)
  then have "\<not> v > (0xFFFFFFFFFFFFFFFF - digit) div base \<longleftrightarrow>
      unat v \<le> (0xFFFFFFFFFFFFFFFF - unat digit) div unat base"
    by (simp add: word_less_nat_alt unat_div not_less)
  also have "\<dots> \<longleftrightarrow> unat v * unat base \<le> 0xFFFFFFFFFFFFFFFF - unat digit"
    using assms by (rule less_eq_div_iff_mult_less_eq)
  finally show "\<not> v > (0xFFFFFFFFFFFFFFFF - digit) div base \<longleftrightarrow> unat v * unat base + unat digit < 2 ^ 64"
    using d by auto
  assume "unat v * unat base + unat digit < 2 ^ 64"
  then show "unat (v * base + digit) = unat v * unat base + unat digit"
    by (simp add: unat_word_ariths mod_add_left_eq)
qed

lemma literalDigitsLoop_spec:
  assumes "0 < unat base"
  shows "literalDigitsLoop base v s =
    (if digitsOk base s \<and> digitsValue base (unat v) s < 2 ^ 64
     then Some (of_nat (digitsValue base (unat v) s)) else None)"
proof (induction s arbitrary: v)
  case Nil
  then show ?case using unsigned_less [of v] by (simp add: digitsOk_def digitsValue_def)
next
  case (Cons c s)
  show ?case
  proof (cases "literalDigit c")
    case None
    then show ?thesis by (simp add: digitsOk_def)
  next
    case (Some digit)
    let ?w = "unat v * unat base + unat digit"
    have val: "digitsValue base (unat v) (c # s) = digitsValue base ?w s"
      by (simp add: digitsValue_Cons Some)
    show ?thesis
    proof (cases "digit < base \<and> ?w < 2 ^ 64")
      case True
      then have "unat (v * base + digit) = ?w"
        by (intro literal_overflow_check(2) assms) simp
      with True Some Cons.IH [of "v * base + digit"] literal_overflow_check(1) [OF assms, where v = v and digit = digit]
      show ?thesis by (simp only: val) (simp add: digitsOk_def not_le)
    next
      case False
      moreover have "?w \<le> digitsValue base ?w s" by (rule digitsValue_ge [OF assms])
      ultimately show ?thesis
        using Some literal_overflow_check(1) [OF assms, where v = v and digit = digit]
        by (simp only: val) (auto simp: digitsOk_def)
    qed
  qed
qed

section \<open>Escapes round trip\<close>

text \<open>The spelling of a code unit as a \<open>\uXXXX\<close> escape.\<close>

definition hexDigit :: "nat \<Rightarrow> char16" where
  "hexDigit d = (if d < 10 then of_nat (48 + d) else of_nat (55 + d))"

definition unicodeEscape :: "char16 \<Rightarrow> u16string" where
  "unicodeEscape c = [0x5C, uc CHR ''u'', hexDigit (unat c div 4096), hexDigit (unat c div 256 mod 16),
     hexDigit (unat c div 16 mod 16), hexDigit (unat c mod 16)]"

lemma hexDigitValue_hexDigit: "d < 16 \<Longrightarrow> hexDigitValue (hexDigit d) = int d"
proof -
  have "list_all (\<lambda>d. hexDigitValue (hexDigit d) = int d) [0..<16]"
    by code_simp
  then show "d < 16 \<Longrightarrow> hexDigitValue (hexDigit d) = int d" by (simp add: list_all_iff)
qed

lemma hex_fields:
  assumes "a < 16" "b < 16" "c < 16" "d < 16"
  shows "(push_bit 12 (int a) OR push_bit 8 (int b) OR push_bit 4 (int c) OR int d)
    = int (a * 4096 + b * 256 + c * 16 + d)"
proof -
  have 1: "c * 2 ^ 4 OR d = c * 2 ^ 4 + d" using assms by (intro nat_or_plus) simp
  have 2: "b * 2 ^ 8 OR (c * 2 ^ 4 + d) = b * 2 ^ 8 + (c * 2 ^ 4 + d)"
    using assms by (intro nat_or_plus) simp
  have 3: "a * 2 ^ 12 OR (b * 2 ^ 8 + (c * 2 ^ 4 + d)) = a * 2 ^ 12 + (b * 2 ^ 8 + (c * 2 ^ 4 + d))"
    using assms by (intro nat_or_plus) simp
  have "push_bit 12 (int a) OR push_bit 8 (int b) OR push_bit 4 (int c) OR int d =
      int (a * 2 ^ 12 OR (b * 2 ^ 8 OR (c * 2 ^ 4 OR d)))"
    by (simp add: of_nat_or_eq push_bit_eq_mult or.assoc)
  then show ?thesis by (simp only: 1 2 3) simp
qed

lemma nat_hex_split: "(n div 4096) * 4096 + (n div 256 mod 16) * 256 + (n div 16 mod 16) * 16 + n mod 16 = (n::nat)"
proof -
  have 1: "(n div 16) * 16 + n mod 16 = n" for n :: nat by simp
  have d: "n div 16 div 16 = n div 256" "n div 256 div 16 = n div 4096" for n :: nat
    by (simp_all flip: div_mult2_eq)
  show ?thesis using 1 [of n] 1 [of "n div 16"] 1 [of "n div 256"] unfolding d by linarith
qed

lemma decodeEscapeSequence_unicode:
  assumes "i + 6 \<le> e" and "take 6 (drop i t) = unicodeEscape c"
  shows "decodeEscapeSequence t i e = (ucast c, i + 6)"
proof -
  have nth: "t ! (i + k) = unicodeEscape c ! k" if "k < 6" for k
  proof -
    have "i + 6 \<le> length t" using arg_cong [OF assms(2), of length] by (simp add: unicodeEscape_def)
    then show ?thesis using that arg_cong [OF assms(2), of "\<lambda>x. x ! k"] by simp
  qed
  have n: "unat c div 4096 < 16" "unat c div 256 mod 16 < 16" "unat c div 16 mod 16 < 16" "unat c mod 16 < 16"
    using less_mult_imp_div_less [of "unat c" 16 4096] by simp_all
  have h: "hexDigitValue (t ! (i + 2)) = int (unat c div 4096)"
    "hexDigitValue (t ! (i + 3)) = int (unat c div 256 mod 16)"
    "hexDigitValue (t ! (i + 4)) = int (unat c div 16 mod 16)"
    "hexDigitValue (t ! (i + 5)) = int (unat c mod 16)" "t ! (i + 1) = uc CHR ''u''"
    using nth [of 1] nth [of 2] nth [of 3] nth [of 4] nth [of 5]
      hexDigitValue_hexDigit [OF n(1)] hexDigitValue_hexDigit [OF n(2)]
      hexDigitValue_hexDigit [OF n(3)] hexDigitValue_hexDigit [OF n(4)]
    by (simp_all add: unicodeEscape_def)
  have "word_of_int (int (unat c)) = (ucast c :: u32)"
    by (simp add: word_unat_eq_iff unat_of_nat)
  then show ?thesis
    unfolding decodeEscapeSequence_def Let_def h
    using assms(1) hex_fields [OF n] nat_hex_split [of "unat c"] by simp
qed

lemma utf16Units_unit: "utf16Units (ucast (c::char16)) = [c]"
proof -
  have "unat c \<le> 65535" using unat_char16_less [of c] by linarith
  then show ?thesis by (simp add: utf16Units_def word_le_nat_alt)
qed

lemma decodeStringLoop_escapes:
  assumes "e \<le> length t" and "i \<le> e" and "take (e - i) (drop i t) = concat (map unicodeEscape s)"
  shows "decodeStringLoop t i e out = out @ s"
  using assms
proof (induction s arbitrary: i out)
  case Nil
  then show ?case by (subst decodeStringLoop.simps) auto
next
  case (Cons c s)
  have len: "length (unicodeEscape c) = 6" by (simp add: unicodeEscape_def)
  from arg_cong [OF Cons.prems(3), of length] Cons.prems(1,2) len have i6: "i + 6 \<le> e" by simp
  have spl: "take (e - i) (drop i t) = take 6 (drop i t) @ take (e - (i + 6)) (drop (i + 6) t)"
    using i6 take_add [of 6 "e - (i + 6)" "drop i t"] by (simp add: add.commute)
  then have t6: "take 6 (drop i t) = unicodeEscape c"
    and rest: "take (e - (i + 6)) (drop (i + 6) t) = concat (map unicodeEscape s)"
    using Cons.prems(1,3) i6 len by (simp_all add: append_eq_append_conv)
  have "t ! i = 0x5C"
    using arg_cong [OF t6, of "\<lambda>x. x ! 0"] i6 Cons.prems(1) by (simp add: unicodeEscape_def)
  then have "decodeStringLoop t i e out = decodeStringLoop t (i + 6) e (out @ [c])"
    using i6 by (subst decodeStringLoop.simps)
      (simp add: decodeEscapeSequence_unicode [OF i6 t6] utf16Units_unit)
  with Cons.IH [OF Cons.prems(1) i6 rest] show ?case by simp
qed

lemma decodeStringLoop_plain:
  assumes "e \<le> length t" and "i \<le> e" and "take (e - i) (drop i t) = s" and "0x5C \<notin> set s"
  shows "decodeStringLoop t i e out = out @ s"
  using assms
proof (induction s arbitrary: i out)
  case Nil
  then show ?case by (subst decodeStringLoop.simps) auto
next
  case (Cons c s)
  from arg_cong [OF Cons.prems(3), of length] Cons.prems(1,2) have i: "i < e" by simp
  then have "take (e - i) (drop i t) = t ! i # take (e - Suc i) (drop (Suc i) t)"
    using Cons.prems(1) by (simp add: drop_nth_Cons take_Cons')
  with Cons.prems have "t ! i = c" "take (e - Suc i) (drop (Suc i) t) = s" by simp_all
  with Cons.IH [of "Suc i" "out @ [c]"] Cons.prems i show ?case
    by (subst decodeStringLoop.simps) simp
qed

lemma quotedRange_quoted: "quotedRange q (q # s @ [q]) = (1, length s + 1)"
  by (simp add: quotedRange_def)

text \<open>
  Every sequence of UTF-16 code units can be written as a string literal: spelling each unit
  as a \<open>\uXXXX\<close> escape between double quotes and decoding the literal gives the
  sequence back, surrogates and control characters included.
\<close>

theorem decodeStringLiteral_roundtrip:
  "decodeStringLiteral (0x22 # concat (map unicodeEscape s) @ [0x22]) = s"
proof -
  let ?b = "concat (map unicodeEscape s)"
  have "take (length ?b + 1 - 1) (drop 1 (0x22 # ?b @ [0x22])) = ?b" by simp
  from decodeStringLoop_escapes [OF _ _ this, of "[]"] show ?thesis
    by (simp add: decodeStringLiteral_def quotedRange_quoted)
qed

text \<open>
  C23: The source decoder is strict and lossless: it returns without an error exactly when the
  bytes, after an optional byte order mark, are the UTF-8 encoding of a well-formed UTF-16 string,
  and then it returns that string. Overlong forms, surrogates, stray or missing continuation bytes
  and values above U+10FFFF are therefore all refused.
\<close>

theorem decodeUtf8_accepts_exactly:
  "decodeUtf8ToUtf16 bs = (s, None) \<longleftrightarrow> wf16 s \<and> drop (skipBom bs) bs = utf16ToUtf8 s"
proof -
  let ?i = "skipBom bs"
  have i: "?i \<le> length bs" by (simp add: skipBom_def)
  have "decodeUtf8Loop bs ?i [] = (s, None)" if "wf16 s" "drop ?i bs = utf16ToUtf8 s"
    using decodeUtf8Loop_encode [OF that(1), of "take ?i bs" "[]"] that(2) i
    by (metis append_Nil append_take_drop_id length_take min.absorb2)
  moreover have "wf16 s \<and> drop ?i bs = utf16ToUtf8 s" if "decodeUtf8Loop bs ?i [] = (s, None)"
    using decodeUtf8Loop_result [OF i, of "[]"] that by (auto simp: decodedUpTo_def)
  ultimately show ?thesis by (auto simp: decodeUtf8ToUtf16_def)
qed

text \<open>The loop stands at \<open>k\<close> when the bytes up to \<open>k\<close> are the encoding of a text.\<close>

lemma decodeUtf8Loop_at:
  assumes "wf16 s" and "i \<le> k" and "k \<le> length bs" and "drop i (take k bs) = utf16ToUtf8 s"
  shows "decodeUtf8Loop bs i out = decodeUtf8Loop bs k (out @ s)"
proof -
  have "bs = take k bs @ drop k bs" by simp
  also have "take k bs = take i bs @ drop i (take k bs)"
    using append_take_drop_id [of i "take k bs"] assms(2) by (simp add: min_absorb2 min.commute)
  finally have bs: "bs = take i bs @ utf16ToUtf8 s @ drop k bs" by (simp add: assms(4))
  have "length (take i bs) = i" "i + length (utf16ToUtf8 s) = k" using assms(2,3) by (simp_all flip: assms(4))
  with decodeUtf8Loop_reads [OF assms(1), of "take i bs" "drop k bs" out] bs show ?thesis by simp
qed

text \<open>
  C26: When the source decoder fails, what it decoded so far is well formed and is exactly the
  text before the reported byte offset, and no longer beginning of the bytes is the encoding of a
  well-formed text: the offset is where the longest decodable beginning ends. The reported byte is
  the one at that offset and the reported line is one more than the number of line feeds before it.
\<close>

theorem decodeUtf8_error_position:
  assumes "decodeUtf8ToUtf16 bs = (s, Some e)"
  shows "wf16 s \<and> byteOffset e < length bs \<and>
    drop (skipBom bs) (take (byteOffset e) bs) = utf16ToUtf8 s \<and>
    (\<forall>k s'. byteOffset e < k \<and> k \<le> length bs \<and> wf16 s' \<longrightarrow> drop (skipBom bs) (take k bs) \<noteq> utf16ToUtf8 s') \<and>
    err_byte e = bs ! byteOffset e \<and>
    err_line e = 1 + count_list (take (byteOffset e) bs) 0x0A"
proof -
  have i: "skipBom bs \<le> length bs" by (simp add: skipBom_def)
  from decodeUtf8Loop_result [OF i, of "[]"] assms obtain n why
    where n: "e = decodeFail bs n why" "n < length bs" "decodedUpTo bs (skipBom bs) n s"
    by (auto simp: decodeUtf8ToUtf16_def)
  then have b: "byteOffset e = n" "skipBom bs \<le> n" by (simp_all add: decodeFail_def decodedUpTo_def)
  have "drop (skipBom bs) (take k bs) \<noteq> utf16ToUtf8 s'" if "n < k" "k \<le> length bs" "wf16 s'" for k s'
  proof
    assume "drop (skipBom bs) (take k bs) = utf16ToUtf8 s'"
    with that b(2) decodeUtf8Loop_at [of s' "skipBom bs" k bs "[]"] assms
    have "decodeUtf8Loop bs k s' = (s, Some e)" by (simp add: decodeUtf8ToUtf16_def)
    with decodeUtf8Loop_result [OF that(2), of s'] have "k \<le> byteOffset e"
      by (auto simp: decodeFail_def decodedUpTo_def)
    with that(1) b(1) show False by simp
  qed
  with n b(1) show ?thesis by (auto simp: decodeFail_def decodedUpTo_def drop_take)
qed

theorem decodeUtf8_error_position_witness:
  "snd (decodeUtf8ToUtf16 [0x41, 0x0A, 0xC3]) \<noteq> None \<and>
   err_line (the (snd (decodeUtf8ToUtf16 [0x41, 0x0A, 0xC3]))) = 2"
proof -
  have "decodeUtf8ToUtf16 [0x41, 0x0A, 0xC3] = ([0x41, 0x0A],
     Some (decodeFail [0x41, 0x0A, 0xC3] (Suc (Suc 0)) ''starts an incomplete character''))"
    by (simp add: decodeUtf8ToUtf16_def skipBom_def decodeUtf8Loop.simps isCont_def)
  from decodeUtf8_error_position [OF this] this show ?thesis by (simp add: decodeFail_def)
qed

text \<open>
  On well-formed text the server's own converter writes the same bytes as the front end's,
  and both decoders read those bytes back to the same text.
\<close>

theorem server_codec_agrees:
  assumes "wf16 s"
  shows "utf16To8 s = utf16ToUtf8 s \<and> utf8To16 (utf16To8 s) = s \<and>
    fst (decodeUtf8Loop (utf16To8 s) 0 []) = s"
  using assms wire_codec.decode_encode frontend_codec.decode_encode by (simp add: utf16To8_wf16)

theorem server_codec_agrees_witness:
  "utf8To16 (utf16To8 [0x61, 0xD83D, 0xDE00]) = [0x61, 0xD83D, 0xDE00]"
proof -
  have "wf16 [0x61, 0xD83D, 0xDE00]" by simp
  from server_codec_agrees [OF this] show ?thesis by blast
qed

text \<open>
  On a high surrogate that no low surrogate follows the two encoders differ: the front end
  writes the lone surrogate and keeps the next character, while the server consumes that character
  too and writes an overlong four-byte sequence.
\<close>

theorem utf16To8_unpaired_surrogate:
  "utf16To8 [0xD800, 0x41] = [0xF0, 0x82, 0x91, 0x81] \<and>
   utf16ToUtf8 [0xD800, 0x41] = [0xED, 0xA0, 0x80, 0x41]"
  by (simp add: utf16ToUtf8_def appendUtf8_def surrogatePair_def)

text \<open>
  C27: \<open>parseIntegerLiteralMagnitude\<close> gives a value exactly when the digits of the text (separators,
  suffix and base prefix removed) are there, all belong to the base the code reads off the text (16
  after \<open>0x\<close>, 2 after \<open>0b\<close>, 10 otherwise) and denote a value below 2^64, and then the result is that
  value: the overflow test before each multiplication is exact. The language's document also has
  octal literals and forbids leading zeros; the code knows neither.
\<close>

theorem parseIntegerLiteralMagnitude_spec:
  "parseIntegerLiteralMagnitude t =
     (case literalBase (strippedLiteral t) of (base, digits) \<Rightarrow>
        if digits \<noteq> [] \<and> digitsOk base digits \<and> digitsValue base 0 digits < 2 ^ 64
        then Some (of_nat (digitsValue base 0 digits)) else None)"
proof -
  obtain base ds where b: "literalBase (strippedLiteral t) = (base, ds)" by fastforce
  then have "0 < unat base" by (auto simp: literalBase_def split: if_splits)
  from literalDigitsLoop_spec [OF this, of 0 ds] show ?thesis
    by (simp add: parseIntegerLiteralMagnitude_def b)
qed
end
