(* ===== verification/Diagnostics.thy ===== *)
theory Diagnostics
  imports Literals
begin

text \<open>
  Source positions and diagnostics: \<open>diagnostics/SourceFile.cpp\<close> (the index of line starts, and the
  conversions between code-unit offsets and one-based line and column pairs),
  \<open>diagnostics/Diagnostic.cpp\<close> and \<open>DiagnosticSink.cpp\<close> (the reports every phase appends to) and
  \<open>server/DiagnosticBridge.cpp\<close>, which turns them into protocol diagnostics.

  A C++ \<open>int\<close> is an unbounded \<open>int\<close> here and an offset is a 32-bit word, as in the source; the
  theorems ask for sources shorter than 2^31 code units, where the casts between the two lose nothing.
\<close>

section \<open>Diagnostics\<close>

datatype DiagnosticLevel = LevelError | LevelWarning | LevelNote

record SourceSpan =
  span_line :: int
  span_column :: int
  span_length :: int

record Diagnostic =
  level :: DiagnosticLevel
  span :: SourceSpan
  message :: string

type_synonym DiagnosticSink = "Diagnostic list"

definition mkSpan :: "int \<Rightarrow> int \<Rightarrow> int \<Rightarrow> SourceSpan" where
  "mkSpan l c n = \<lparr>span_line = l, span_column = c, span_length = n\<rparr>"

definition report :: "DiagnosticSink \<Rightarrow> DiagnosticLevel \<Rightarrow> SourceSpan \<Rightarrow> string \<Rightarrow> DiagnosticSink" where
  "report ds lv sp msg = ds @ [\<lparr>level = lv, span = sp, message = msg\<rparr>]"

definition sinkError :: "DiagnosticSink \<Rightarrow> SourceSpan \<Rightarrow> string \<Rightarrow> DiagnosticSink" where
  "sinkError ds sp msg = report ds LevelError sp msg"

definition sinkWarning :: "DiagnosticSink \<Rightarrow> SourceSpan \<Rightarrow> string \<Rightarrow> DiagnosticSink" where
  "sinkWarning ds sp msg = report ds LevelWarning sp msg"

fun hasErrors :: "DiagnosticSink \<Rightarrow> bool" where
  "hasErrors [] = False"
| "hasErrors (d # ds) = (if level d = LevelError then True else hasErrors ds)"

section \<open>Source files\<close>

record SourceFile =
  filename :: string
  sf_source :: u16string
  lineStarts :: "int list"

fun lineStartsLoop :: "u16string \<Rightarrow> nat \<Rightarrow> int list \<Rightarrow> int list" where
  "lineStartsLoop [] i starts = starts"
| "lineStartsLoop (c # s) i starts =
     lineStartsLoop s (i + 1) (if c = chLF then starts @ [int i + 1] else starts)"

definition mkSourceFile :: "string \<Rightarrow> u16string \<Rightarrow> SourceFile" where
  "mkSourceFile fname src =
     \<lparr>filename = fname, sf_source = src, lineStarts = lineStartsLoop src 0 [0]\<rparr>"

function trimLineEnd :: "u16string \<Rightarrow> int \<Rightarrow> int \<Rightarrow> int" where
  "trimLineEnd src start e =
     (if e > start \<and> (src ! nat (e - 1) = chLF \<or> src ! nat (e - 1) = chCR)
      then trimLineEnd src start (e - 1) else e)"
  by pat_completeness auto
termination
  by (relation "measure (\<lambda>(src, start, e). nat (e - start))") auto

declare trimLineEnd.simps [simp del]

definition getLine :: "SourceFile \<Rightarrow> int \<Rightarrow> u16string" where
  "getLine sf n =
     (if n < 1 \<or> n > int (length (lineStarts sf)) then []
      else let start = lineStarts sf ! nat (n - 1);
               e0 = (if n < int (length (lineStarts sf)) then lineStarts sf ! nat n
                     else int (length (sf_source sf)));
               e = trimLineEnd (sf_source sf) start e0
           in take (nat (e - start)) (drop (nat start) (sf_source sf)))"

definition positionToOffset :: "SourceFile \<Rightarrow> int \<Rightarrow> int \<Rightarrow> u32" where
  "positionToOffset sf ln col =
     (if ln < 1 \<or> lineStarts sf = [] then 0
      else let idx = ln - 1 in
        if idx \<ge> int (length (lineStarts sf)) then of_nat (length (sf_source sf))
        else let start = lineStarts sf ! nat idx;
                 lineEnd = (if idx + 1 < int (length (lineStarts sf))
                            then lineStarts sf ! nat (idx + 1) else int (length (sf_source sf)));
                 col0 = (if col > 0 then col - 1 else 0);
                 off = start + col0
             in word_of_int (if off > lineEnd then lineEnd else off))"

text \<open>The binary search for the last line that starts at or before the offset.\<close>

function offsetLine :: "int list \<Rightarrow> u32 \<Rightarrow> int \<Rightarrow> int \<Rightarrow> int" where
  "offsetLine starts off lo hi =
     (if lo < hi then
        (let mid = (lo + hi + 1) div 2 in
         if (word_of_int (starts ! nat mid) :: u32) \<le> off then offsetLine starts off mid hi
         else offsetLine starts off lo (mid - 1))
      else lo)"
  by pat_completeness auto
termination
  by (relation "measure (\<lambda>(starts, off, lo, hi). nat (hi - lo))") auto

declare offsetLine.simps [simp del]

definition offsetToPosition :: "SourceFile \<Rightarrow> u32 \<Rightarrow> int \<times> int" where
  "offsetToPosition sf off =
     (let lo = offsetLine (lineStarts sf) off 0 (int (length (lineStarts sf)) - 1)
      in (lo + 1, sint off - lineStarts sf ! nat lo + 1))"

section \<open>Printing\<close>

definition levelName :: "DiagnosticLevel \<Rightarrow> string" where
  "levelName lv = (case lv of LevelError \<Rightarrow> ''error'' | LevelWarning \<Rightarrow> ''warning'' | LevelNote \<Rightarrow> ''note'')"

definition byteChars :: "bytes \<Rightarrow> string" where
  "byteChars bs = map (\<lambda>b. char_of (unat b)) bs"

definition newline :: string where
  "newline = [char_of (10::nat)]"

definition caretPadding :: "u16string \<Rightarrow> nat \<Rightarrow> string" where
  "caretPadding lineText n =
     map (\<lambda>i. if (if i < length lineText then lineText ! i else uc CHR '' '') = 0x09
              then char_of (9::nat) else CHR '' '') [0..<n]"

definition printDiagnostic :: "Diagnostic \<Rightarrow> SourceFile \<Rightarrow> string" where
  "printDiagnostic d sf =
     (let sp = span d;
          lineText = getLine sf (span_line sp);
          lineNumStr = to_string (span_line sp);
          pad = replicate (length lineNumStr) CHR '' '';
          len = (if span_length sp > 0 then span_length sp else 1)
      in levelName (level d) @ '': '' @ message d @ newline @
         ''  --> '' @ filename sf @ '':'' @ to_string (span_line sp) @ '':'' @
           to_string (span_column sp) @ newline @
         '' '' @ pad @ '' |'' @ newline @
         '' '' @ lineNumStr @ '' | '' @ byteChars (utf16ToUtf8 lineText) @ newline @
         '' '' @ pad @ '' | '' @ caretPadding lineText (nat (span_column sp - 1)) @
           replicate (nat len) CHR ''^'' @ newline)"

definition printAll :: "DiagnosticSink \<Rightarrow> SourceFile \<Rightarrow> string" where
  "printAll ds sf = concat (map (\<lambda>d. printDiagnostic d sf) ds)"

section \<open>Protocol diagnostics\<close>

datatype LspSeverity = SeverityError | SeverityWarning | SeverityInformation

record LspDiagnostic =
  start_line :: int
  start_character :: int
  end_line :: int
  end_character :: int
  lsp_severity :: LspSeverity
  lsp_message :: string
  lsp_source :: string

definition lspSeverity :: "DiagnosticLevel \<Rightarrow> LspSeverity" where
  "lspSeverity lv = (case lv of LevelError \<Rightarrow> SeverityError | LevelWarning \<Rightarrow> SeverityWarning
     | LevelNote \<Rightarrow> SeverityInformation)"

definition toLspDiagnostic :: "Diagnostic \<Rightarrow> LspDiagnostic" where
  "toLspDiagnostic d =
     (let sp = span d;
          startLine = max 0 (span_line sp - 1);
          startCh = max 0 (span_column sp - 1);
          endCh = startCh + max 1 (span_length sp)
      in \<lparr>start_line = startLine, start_character = startCh, end_line = startLine,
          end_character = endCh, lsp_severity = lspSeverity (level d), lsp_message = message d,
          lsp_source = ''ens''\<rparr>)"

definition toLspDiagnostics :: "DiagnosticSink \<Rightarrow> LspDiagnostic list" where
  "toLspDiagnostics ds = map toLspDiagnostic ds"

section \<open>The line index\<close>

text \<open>
  What the conversions rely on: the first \<open>length before\<close> starts are at or before the offset and the
  others after it. \<open>line_index\<close> states it for one offset of one file, and the search is proved
  against it.
\<close>

definition lineStartsUpTo :: "u16string \<Rightarrow> nat \<Rightarrow> int list" where
  "lineStartsUpTo src n = 0 # map (\<lambda>i. int i + 1) (filter (\<lambda>i. src ! i = chLF) [0..<n])"

definition lineStartsFrom :: "u16string \<Rightarrow> nat \<Rightarrow> int list" where
  "lineStartsFrom src n = map (\<lambda>i. int i + 1) (filter (\<lambda>i. src ! i = chLF) [n..<length src])"

lemma lineStartsLoop_append: "lineStartsLoop s i starts = starts @ lineStartsLoop s i []"
proof (induction s arbitrary: i starts)
  case (Cons c s)
  show ?case
    using Cons.IH [of "i + 1" "starts @ [int i + 1]"] Cons.IH [of "i + 1" starts]
      Cons.IH [of "i + 1" "[int i + 1]"] by simp
qed simp

lemma lineStartsLoop_filter:
  "lineStartsLoop s i [] = map (\<lambda>k. int (i + k) + 1) (filter (\<lambda>k. s ! k = chLF) [0..<length s])"
proof (induction s arbitrary: i)
  case (Cons c s)
  have "[0..<length (c # s)] = 0 # map Suc [0..<length s]"
    by (simp add: map_Suc_upt upt_conv_Cons del: upt_Suc)
  then have "filter (\<lambda>k. (c # s) ! k = chLF) [0..<length (c # s)] =
      (if c = chLF then [0] else []) @ map Suc (filter (\<lambda>k. s ! k = chLF) [0..<length s])"
    by (simp add: filter_map comp_def)
  then show ?case
    using lineStartsLoop_append [of s "Suc i" "[int i + 1]"]
    by (simp add: Cons.IH [of "Suc i"] comp_def ac_simps del: upt_Suc)
qed simp

lemma lineStarts_split:
  assumes "n \<le> length src"
  shows "lineStarts (mkSourceFile f src) = lineStartsUpTo src n @ lineStartsFrom src n"
proof -
  have "[0..<length src] = [0..<n] @ [n..<length src]"
    using assms by (metis le_add_diff_inverse upt_add_eq_append zero_le)
  then show ?thesis
    by (simp add: mkSourceFile_def lineStartsLoop_append [of src 0 "[0]"] lineStartsLoop_filter
      lineStartsUpTo_def lineStartsFrom_def)
qed

lemma lineStarts_bounds: "set (lineStarts (mkSourceFile f src)) \<subseteq> {0..int (length src)}"
  unfolding lineStarts_split [OF le_refl] by (auto simp: lineStartsUpTo_def lineStartsFrom_def)

definition line_index :: "int list \<Rightarrow> int list \<Rightarrow> u32 \<Rightarrow> bool" where
  "line_index before after off \<longleftrightarrow> before \<noteq> [] \<and>
     (\<forall>s \<in> set before. 0 \<le> s \<and> s \<le> uint off) \<and>
     (\<forall>s \<in> set after. uint off < s \<and> s < 2 ^ 32)"

lemma start_test:
  assumes idx: "line_index before after off" and i: "i < length (before @ after)"
  shows "(word_of_int ((before @ after) ! i) :: u32) \<le> off \<longleftrightarrow> i < length before"
proof (cases "i < length before")
  case True
  then have s: "0 \<le> (before @ after) ! i \<and> (before @ after) ! i \<le> uint off"
    using idx by (simp add: nth_append line_index_def)
  moreover have "uint off < 2 ^ LENGTH(32)" by (rule unsigned_less)
  ultimately show ?thesis using True by (simp add: word_le_def uint_word_of_int)
next
  case False
  then have "(before @ after) ! i \<in> set after" using i by (simp add: nth_append)
  then have s: "uint off < (before @ after) ! i \<and> (before @ after) ! i < 2 ^ 32" using idx by (simp add: line_index_def)
  then have "0 \<le> (before @ after) ! i" using unsigned_greater_eq [of off, where 'a = int] by linarith
  with s have "uint (word_of_int ((before @ after) ! i) :: u32) = (before @ after) ! i"
    by (simp add: uint_word_of_int)
  with s False show ?thesis by (simp add: word_le_def)
qed

lemma offsetLine_correct:
  assumes idx: "line_index before after off"
    and "0 \<le> lo" "lo < int (length before)" "int (length before) \<le> hi + 1"
    and "hi < int (length (before @ after))"
  shows "offsetLine (before @ after) off lo hi = int (length before) - 1"
  using assms(2-)
proof (induction "nat (hi - lo)" arbitrary: lo hi rule: less_induct)
  case less
  show ?case
  proof (cases "lo < hi")
    case False
    with less.prems show ?thesis by (subst offsetLine.simps) simp
  next
    case True
    define mid where "mid = (lo + hi + 1) div 2"
    have mid: "lo < mid" "mid \<le> hi" using True by (auto simp: mid_def)
    have test: "(word_of_int ((before @ after) ! nat mid) :: u32) \<le> off \<longleftrightarrow> mid < int (length before)"
      using start_test [OF idx, of "nat mid"] mid less.prems by auto
    show ?thesis
    proof (cases "mid < int (length before)")
      case True
      with \<open>lo < hi\<close> test have "offsetLine (before @ after) off lo hi = offsetLine (before @ after) off mid hi"
        by (subst offsetLine.simps) (simp add: mid_def Let_def)
      with less.hyps [of hi mid] less.prems mid True show ?thesis by simp
    next
      case False
      with \<open>lo < hi\<close> test have "offsetLine (before @ after) off lo hi = offsetLine (before @ after) off lo (mid - 1)"
        by (subst offsetLine.simps) (simp add: mid_def Let_def)
      with less.hyps [of "mid - 1" lo] less.prems mid False show ?thesis by simp
    qed
  qed
qed

lemma search_result:
  assumes "line_index before after off"
  shows "offsetLine (before @ after) off 0 (int (length (before @ after)) - 1) = int (length before) - 1"
  using assms by (intro offsetLine_correct) (auto simp: line_index_def)

text \<open>A file shorter than 2^31 units and an offset into it make an index.\<close>

lemma sourceFile_line_index:
  assumes "unat off \<le> length src" and "length src < 2 ^ 31"
  shows "line_index (lineStartsUpTo src (unat off)) (lineStartsFrom src (unat off)) off"
proof -
  obtain n where n: "unat off = n" "uint off = int n" by simp
  have "line_index (lineStartsUpTo src n) (lineStartsFrom src n) off"
    using assms n
    by (auto simp: line_index_def lineStartsUpTo_def lineStartsFrom_def simp del: of_nat_unat)
  then show ?thesis by (simp only: n)
qed

section \<open>The position of an offset, by scanning\<close>

text \<open>The reference: walk the text before the offset, a line feed starts a new line.\<close>

definition lfStep :: "int \<times> int \<Rightarrow> char16 \<Rightarrow> int \<times> int" where
  "lfStep p c = (case p of (l, k) \<Rightarrow> if c = chLF then (l + 1, 1) else (l, k + 1))"

definition lfPosition :: "u16string \<Rightarrow> int \<times> int" where
  "lfPosition s = foldl lfStep (1, 1) s"

lemma lfPosition_snoc: "lfPosition (s @ [c]) = lfStep (lfPosition s) c"
  by (simp add: lfPosition_def)

lemma lfPosition_starts:
  "n \<le> length src \<Longrightarrow> lfPosition (take n src) =
     (int (length (lineStartsUpTo src n)), int n - last (lineStartsUpTo src n) + 1)"
proof (induction n)
  case 0
  then show ?case by (simp add: lfPosition_def lineStartsUpTo_def)
next
  case (Suc n)
  then show ?case
    by (auto simp: take_Suc_nth lfPosition_snoc lfStep_def lineStartsUpTo_def)
qed

lemma sint_small: "unat (off :: u32) < 2 ^ 31 \<Longrightarrow> sint off = int (unat off)"
proof -
  assume a: "unat off < 2 ^ 31"
  obtain n where n: "unat off = n" "uint off = int n" by simp
  have "signed_take_bit 31 (int n) = int n"
    by (rule signed_take_bit_int_eq_self) (use a n in auto)
  then show ?thesis by (simp add: sint_uint n)
qed

lemma offsetToPosition_lfPosition:
  assumes "unat off \<le> length src" and "length src < 2 ^ 31"
  shows "offsetToPosition (mkSourceFile f src) off = lfPosition (take (unat off) src)"
proof -
  let ?b = "lineStartsUpTo src (unat off)"
  have ne: "?b \<noteq> []" by (simp add: lineStartsUpTo_def)
  have s: "lineStarts (mkSourceFile f src) = ?b @ lineStartsFrom src (unat off)"
    by (rule lineStarts_split [OF assms(1)])
  have k: "nat (int (length ?b) - 1) = length ?b - 1" by simp
  have "(?b @ lineStartsFrom src (unat off)) ! (length ?b - 1) = last ?b"
    using ne by (simp add: nth_append last_conv_nth)
  with assms show ?thesis
    unfolding offsetToPosition_def s Let_def
      search_result [OF sourceFile_line_index [OF assms]] k
    by (simp add: lfPosition_starts sint_small)
qed

section \<open>Clamping\<close>

lemma positionToOffset_in_line:
  fixes sf :: SourceFile
  assumes "sf = mkSourceFile f src" and "length src < 2 ^ 31"
    and "1 \<le> ln" and "ln \<le> int (length (lineStarts sf))"
  defines "start \<equiv> lineStarts sf ! nat (ln - 1)"
  defines "lineEnd \<equiv> (if ln < int (length (lineStarts sf)) then lineStarts sf ! nat ln
                      else int (length src))"
  shows "uint (positionToOffset sf ln col) = min (start + max 0 (col - 1)) lineEnd"
    and "0 \<le> start" and "lineEnd \<le> int (length src)"
proof -
  have in_range: "0 \<le> lineStarts sf ! i \<and> lineStarts sf ! i \<le> int (length src)"
    if "i < length (lineStarts sf)" for i
    using lineStarts_bounds [of f src] nth_mem [OF that] assms(1) by auto
  show s: "0 \<le> start" unfolding start_def using assms(3,4) by (intro in_range [THEN conjunct1]) auto
  have e: "0 \<le> lineEnd \<and> lineEnd \<le> int (length src)"
  proof (cases "ln < int (length (lineStarts sf))")
    case True
    then show ?thesis unfolding lineEnd_def using in_range [of "nat ln"] assms(3) by auto
  qed (simp add: lineEnd_def)
  then show "lineEnd \<le> int (length src)" ..
  let ?o = "min (start + max 0 (col - 1)) lineEnd"
  have o: "0 \<le> ?o" "?o < 2 ^ 32" using s e assms(2) by auto
  have src: "sf_source sf = src" by (simp add: assms(1) mkSourceFile_def)
  have "positionToOffset sf ln col = word_of_int ?o"
    using assms(3,4) by (auto simp: positionToOffset_def Let_def start_def lineEnd_def src min_def max_def)
  with o show "uint (positionToOffset sf ln col) = ?o" by (simp add: uint_word_of_int)
qed

lemma lineStarts_next:
  assumes "unat off \<le> length src"
  shows "int (unat off) \<le>
    (if length (lineStartsUpTo src (unat off)) < length (lineStarts (mkSourceFile f src))
     then lineStarts (mkSourceFile f src) ! length (lineStartsUpTo src (unat off))
     else int (length src))"
proof -
  let ?k = "length (lineStartsUpTo src (unat off))" and ?starts = "lineStarts (mkSourceFile f src)"
  have s: "?starts = lineStartsUpTo src (unat off) @ lineStartsFrom src (unat off)"
    by (rule lineStarts_split [OF assms])
  have "int (unat off) < ?starts ! ?k" if "?k < length ?starts"
  proof -
    have "?starts ! ?k \<in> set (lineStartsFrom src (unat off))"
      using that unfolding s by (simp add: nth_append)
    then show ?thesis by (auto simp: lineStartsFrom_def simp del: of_nat_unat)
  qed
  with assms show ?thesis by (auto simp del: of_nat_unat)
qed

text \<open>
  C25: Offsets and positions correspond: the position the front end reports for an offset is the one
  found by scanning the text before it line by line, and converting that position back gives the
  offset, for every offset up to the end of a source shorter than 2^31 units.
\<close>

theorem position_roundtrip:
  assumes "unat off \<le> length src" and "length src < 2 ^ 31"
  shows "offsetToPosition (mkSourceFile f src) off = lfPosition (take (unat off) src) \<and>
    (case offsetToPosition (mkSourceFile f src) off of
       (ln, col) \<Rightarrow> positionToOffset (mkSourceFile f src) ln col = off)"
proof -
  let ?sf = "mkSourceFile f src" and ?b = "lineStartsUpTo src (unat off)"
  let ?ln = "int (length ?b)" and ?col = "int (unat off) - last ?b + 1"
  have pos: "offsetToPosition ?sf off = lfPosition (take (unat off) src)"
    "lfPosition (take (unat off) src) = (?ln, ?col)"
    by (simp_all only: offsetToPosition_lfPosition [OF assms] lfPosition_starts [OF assms(1)])
  have s: "lineStarts ?sf = ?b @ lineStartsFrom src (unat off)" by (rule lineStarts_split [OF assms(1)])
  have ne: "?b \<noteq> []" by (simp add: lineStartsUpTo_def)
  then have ln: "1 \<le> ?ln" "?ln \<le> int (length (lineStarts ?sf))" by (simp_all add: s Suc_le_eq)
  have start: "lineStarts ?sf ! nat (?ln - 1) = last ?b"
  proof -
    have "nat (?ln - 1) = length ?b - 1" by simp
    with ne show ?thesis by (simp only: s) (simp add: nth_append last_conv_nth)
  qed
  have "last ?b \<le> int (unat off)"
    using sourceFile_line_index [OF assms] ne by (simp add: line_index_def)
  with lineStarts_next [OF assms(1), of f] start
    positionToOffset_in_line(1) [OF refl assms(2) ln, of ?col]
  have "uint (positionToOffset ?sf ?ln ?col) = uint off" by (auto simp: min_def split: if_splits)
  then show ?thesis by (simp only: pos split) (simp only: word_uint_eq_iff simp_thms)
qed

theorem position_roundtrip_witness:
  "offsetToPosition (mkSourceFile ''a.ens'' (u16 ''ab'' @ [0x0A] @ u16 ''cd'')) 4 = (2, 2)"
proof -
  let ?s = "u16 ''ab'' @ [0x0A] @ u16 ''cd''"
  have "unat (4::u32) \<le> length ?s" "length ?s < 2 ^ 31" by (simp_all add: u16_def)
  from position_roundtrip [OF this, of "''a.ens''"] show ?thesis
    by (simp add: u16_def lfPosition_def lfStep_def)
qed

text \<open>
  A requested position never leads outside the text: every line and column pair, negative,
  zero or far beyond the end, converts to an offset between 0 and the length of the source.
\<close>

theorem positionToOffset_clamped:
  assumes "length src < 2 ^ 31"
  shows "unat (positionToOffset (mkSourceFile f src) ln col) \<le> length src"
proof -
  let ?sf = "mkSourceFile f src"
  have src: "sf_source ?sf = src" by (simp add: mkSourceFile_def)
  consider "ln < 1" | "ln \<ge> 1" "ln > int (length (lineStarts ?sf))"
    | "1 \<le> ln" "ln \<le> int (length (lineStarts ?sf))" by linarith
  then show ?thesis
  proof cases
    case 1
    then show ?thesis by (simp add: positionToOffset_def)
  next
    case 2
    then show ?thesis
      using assms by (auto simp: positionToOffset_def Let_def src unat_of_nat)
  next
    case 3
    have "uint (positionToOffset ?sf ln col) \<le> int (length src)"
      unfolding positionToOffset_in_line(1) [OF refl assms 3]
      by (rule min.coboundedI2 [OF positionToOffset_in_line(3) [OF refl assms 3]])
    then show ?thesis by (metis of_nat_unat of_nat_le_iff)
  qed
qed

theorem positionToOffset_clamped_witness:
  "unat (positionToOffset (mkSourceFile ''a.ens'' (u16 ''ab'')) 1 999) \<le> 2"
  using positionToOffset_clamped [of "u16 ''ab''" "''a.ens''" 1 999] by (simp add: u16_def)

text \<open>
  Every diagnostic reaches the client, in order, as a non-empty range on one line with
  non-negative coordinates, whatever span the front end recorded; a proper span keeps its place and
  its length, and only an error-level diagnostic is shown as an error.
\<close>

theorem toLspDiagnostics_ranges:
  "length (toLspDiagnostics ds) = length ds \<and>
   (\<forall>i < length ds. let l = toLspDiagnostics ds ! i; sp = span (ds ! i) in
      0 \<le> start_line l \<and> 0 \<le> start_character l \<and> end_line l = start_line l \<and>
      start_character l < end_character l \<and> lsp_message l = message (ds ! i) \<and>
      (lsp_severity l = SeverityError \<longleftrightarrow> level (ds ! i) = LevelError) \<and>
      (1 \<le> span_line sp \<and> 1 \<le> span_column sp \<and> 1 \<le> span_length sp \<longrightarrow>
         start_line l = span_line sp - 1 \<and> start_character l = span_column sp - 1 \<and>
         end_character l - start_character l = span_length sp))"
  by (auto simp: toLspDiagnostics_def toLspDiagnostic_def Let_def lspSeverity_def
    split: DiagnosticLevel.splits)

theorem toLspDiagnostics_ranges_witness:
  "start_character (toLspDiagnostics (sinkError [] (mkSpan 0 0 0) ''x'') ! 0) <
   end_character (toLspDiagnostics (sinkError [] (mkSpan 0 0 0) ''x'') ! 0)"
  using toLspDiagnostics_ranges [of "sinkError [] (mkSpan 0 0 0) ''x''"]
  by (simp add: sinkError_def report_def Let_def)

lemma hasErrors_iff: "hasErrors ds \<longleftrightarrow> (\<exists>d \<in> set ds. level d = LevelError)"
  by (induction ds) auto

end
