(* ===== verification/SyntaxKinds.thy ===== *)
theory SyntaxKinds
  imports Prelude
begin

text \<open>
  The syntax kinds of \<open>cst/SyntaxKind.h\<close> and \<open>cst/SyntaxKind.cpp\<close>: the enumeration itself, the
  predicates that classify a kind, the table of kind names, the keyword table of the tokenizer and
  the operator a compound assignment stands for.

  \<open>enum class SyntaxKind : uint16_t\<close> is modelled by its underlying number: a kind wraps its ordinal,
  and each enumerator of the header is an abbreviation for its position. The relational operators
  of the enumeration, which \<open>isToken\<close>, \<open>isNode\<close> and \<open>isKeyword\<close> use, compare ordinals.
\<close>

datatype SyntaxKind = SyntaxKind (ordinal: int)

instantiation SyntaxKind :: linorder
begin

definition less_eq_SyntaxKind :: "SyntaxKind \<Rightarrow> SyntaxKind \<Rightarrow> bool" where
  "less_eq_SyntaxKind a b = (ordinal a \<le> ordinal b)"

definition less_SyntaxKind :: "SyntaxKind \<Rightarrow> SyntaxKind \<Rightarrow> bool" where
  "less_SyntaxKind a b = (ordinal a < ordinal b)"

instance
  by standard (auto simp: less_eq_SyntaxKind_def less_SyntaxKind_def intro: SyntaxKind.expand)

end

section \<open>The enumerators, in header order\<close>

abbreviation Whitespace :: SyntaxKind where "Whitespace \<equiv> SyntaxKind 0"
abbreviation Newline :: SyntaxKind where "Newline \<equiv> SyntaxKind 1"
abbreviation LineComment :: SyntaxKind where "LineComment \<equiv> SyntaxKind 2"
abbreviation BlockComment :: SyntaxKind where "BlockComment \<equiv> SyntaxKind 3"
abbreviation EndOfFile :: SyntaxKind where "EndOfFile \<equiv> SyntaxKind 4"
abbreviation Invalid :: SyntaxKind where "Invalid \<equiv> SyntaxKind 5"
abbreviation Missing :: SyntaxKind where "Missing \<equiv> SyntaxKind 6"
abbreviation IntLiteral :: SyntaxKind where "IntLiteral \<equiv> SyntaxKind 7"
abbreviation LongLiteral :: SyntaxKind where "LongLiteral \<equiv> SyntaxKind 8"
abbreviation FloatLiteral :: SyntaxKind where "FloatLiteral \<equiv> SyntaxKind 9"
abbreviation DoubleLiteral :: SyntaxKind where "DoubleLiteral \<equiv> SyntaxKind 10"
abbreviation StringLiteral :: SyntaxKind where "StringLiteral \<equiv> SyntaxKind 11"
abbreviation CharLiteral :: SyntaxKind where "CharLiteral \<equiv> SyntaxKind 12"
abbreviation InterpStringStart :: SyntaxKind where "InterpStringStart \<equiv> SyntaxKind 13"
abbreviation InterpStringMid :: SyntaxKind where "InterpStringMid \<equiv> SyntaxKind 14"
abbreviation InterpStringEnd :: SyntaxKind where "InterpStringEnd \<equiv> SyntaxKind 15"
abbreviation Identifier :: SyntaxKind where "Identifier \<equiv> SyntaxKind 16"
abbreviation LParen :: SyntaxKind where "LParen \<equiv> SyntaxKind 17"
abbreviation RParen :: SyntaxKind where "RParen \<equiv> SyntaxKind 18"
abbreviation LBrace :: SyntaxKind where "LBrace \<equiv> SyntaxKind 19"
abbreviation RBrace :: SyntaxKind where "RBrace \<equiv> SyntaxKind 20"
abbreviation LBracket :: SyntaxKind where "LBracket \<equiv> SyntaxKind 21"
abbreviation RBracket :: SyntaxKind where "RBracket \<equiv> SyntaxKind 22"
abbreviation Semi :: SyntaxKind where "Semi \<equiv> SyntaxKind 23"
abbreviation Comma :: SyntaxKind where "Comma \<equiv> SyntaxKind 24"
abbreviation Dot :: SyntaxKind where "Dot \<equiv> SyntaxKind 25"
abbreviation Ellipsis :: SyntaxKind where "Ellipsis \<equiv> SyntaxKind 26"
abbreviation Colon :: SyntaxKind where "Colon \<equiv> SyntaxKind 27"
abbreviation Arrow :: SyntaxKind where "Arrow \<equiv> SyntaxKind 28"
abbreviation At :: SyntaxKind where "At \<equiv> SyntaxKind 29"
abbreviation Plus :: SyntaxKind where "Plus \<equiv> SyntaxKind 30"
abbreviation Minus :: SyntaxKind where "Minus \<equiv> SyntaxKind 31"
abbreviation Star :: SyntaxKind where "Star \<equiv> SyntaxKind 32"
abbreviation Slash :: SyntaxKind where "Slash \<equiv> SyntaxKind 33"
abbreviation Percent :: SyntaxKind where "Percent \<equiv> SyntaxKind 34"
abbreviation Caret :: SyntaxKind where "Caret \<equiv> SyntaxKind 35"
abbreviation Eq :: SyntaxKind where "Eq \<equiv> SyntaxKind 36"
abbreviation Bang :: SyntaxKind where "Bang \<equiv> SyntaxKind 37"
abbreviation Tilde :: SyntaxKind where "Tilde \<equiv> SyntaxKind 38"
abbreviation Question :: SyntaxKind where "Question \<equiv> SyntaxKind 39"
abbreviation QuestionDot :: SyntaxKind where "QuestionDot \<equiv> SyntaxKind 40"
abbreviation EqEq :: SyntaxKind where "EqEq \<equiv> SyntaxKind 41"
abbreviation NotEq :: SyntaxKind where "NotEq \<equiv> SyntaxKind 42"
abbreviation Lt :: SyntaxKind where "Lt \<equiv> SyntaxKind 43"
abbreviation Gt :: SyntaxKind where "Gt \<equiv> SyntaxKind 44"
abbreviation LtEq :: SyntaxKind where "LtEq \<equiv> SyntaxKind 45"
abbreviation GtEq :: SyntaxKind where "GtEq \<equiv> SyntaxKind 46"
abbreviation AmpAmp :: SyntaxKind where "AmpAmp \<equiv> SyntaxKind 47"
abbreviation PipePipe :: SyntaxKind where "PipePipe \<equiv> SyntaxKind 48"
abbreviation Amp :: SyntaxKind where "Amp \<equiv> SyntaxKind 49"
abbreviation Pipe :: SyntaxKind where "Pipe \<equiv> SyntaxKind 50"
abbreviation PlusPlus :: SyntaxKind where "PlusPlus \<equiv> SyntaxKind 51"
abbreviation MinusMinus :: SyntaxKind where "MinusMinus \<equiv> SyntaxKind 52"
abbreviation LtLt :: SyntaxKind where "LtLt \<equiv> SyntaxKind 53"
abbreviation GtGt :: SyntaxKind where "GtGt \<equiv> SyntaxKind 54"
abbreviation GtGtGt :: SyntaxKind where "GtGtGt \<equiv> SyntaxKind 55"
abbreviation PlusEq :: SyntaxKind where "PlusEq \<equiv> SyntaxKind 56"
abbreviation MinusEq :: SyntaxKind where "MinusEq \<equiv> SyntaxKind 57"
abbreviation StarEq :: SyntaxKind where "StarEq \<equiv> SyntaxKind 58"
abbreviation SlashEq :: SyntaxKind where "SlashEq \<equiv> SyntaxKind 59"
abbreviation PercentEq :: SyntaxKind where "PercentEq \<equiv> SyntaxKind 60"
abbreviation AmpEq :: SyntaxKind where "AmpEq \<equiv> SyntaxKind 61"
abbreviation PipeEq :: SyntaxKind where "PipeEq \<equiv> SyntaxKind 62"
abbreviation CaretEq :: SyntaxKind where "CaretEq \<equiv> SyntaxKind 63"
abbreviation LtLtEq :: SyntaxKind where "LtLtEq \<equiv> SyntaxKind 64"
abbreviation GtGtEq :: SyntaxKind where "GtGtEq \<equiv> SyntaxKind 65"
abbreviation GtGtGtEq :: SyntaxKind where "GtGtGtEq \<equiv> SyntaxKind 66"
abbreviation KwBool :: SyntaxKind where "KwBool \<equiv> SyntaxKind 67"
abbreviation KwByte :: SyntaxKind where "KwByte \<equiv> SyntaxKind 68"
abbreviation KwShort :: SyntaxKind where "KwShort \<equiv> SyntaxKind 69"
abbreviation KwUShort :: SyntaxKind where "KwUShort \<equiv> SyntaxKind 70"
abbreviation KwInt :: SyntaxKind where "KwInt \<equiv> SyntaxKind 71"
abbreviation KwUInt :: SyntaxKind where "KwUInt \<equiv> SyntaxKind 72"
abbreviation KwLong :: SyntaxKind where "KwLong \<equiv> SyntaxKind 73"
abbreviation KwULong :: SyntaxKind where "KwULong \<equiv> SyntaxKind 74"
abbreviation KwFloat :: SyntaxKind where "KwFloat \<equiv> SyntaxKind 75"
abbreviation KwDouble :: SyntaxKind where "KwDouble \<equiv> SyntaxKind 76"
abbreviation KwDecimal :: SyntaxKind where "KwDecimal \<equiv> SyntaxKind 77"
abbreviation KwChar :: SyntaxKind where "KwChar \<equiv> SyntaxKind 78"
abbreviation KwString :: SyntaxKind where "KwString \<equiv> SyntaxKind 79"
abbreviation KwVoid :: SyntaxKind where "KwVoid \<equiv> SyntaxKind 80"
abbreviation KwAbstract :: SyntaxKind where "KwAbstract \<equiv> SyntaxKind 81"
abbreviation KwAs :: SyntaxKind where "KwAs \<equiv> SyntaxKind 82"
abbreviation KwAssert :: SyntaxKind where "KwAssert \<equiv> SyntaxKind 83"
abbreviation KwBreak :: SyntaxKind where "KwBreak \<equiv> SyntaxKind 84"
abbreviation KwCase :: SyntaxKind where "KwCase \<equiv> SyntaxKind 85"
abbreviation KwCatch :: SyntaxKind where "KwCatch \<equiv> SyntaxKind 86"
abbreviation KwClass :: SyntaxKind where "KwClass \<equiv> SyntaxKind 87"
abbreviation KwComputed :: SyntaxKind where "KwComputed \<equiv> SyntaxKind 88"
abbreviation KwConst :: SyntaxKind where "KwConst \<equiv> SyntaxKind 89"
abbreviation KwConstructor :: SyntaxKind where "KwConstructor \<equiv> SyntaxKind 90"
abbreviation KwContinue :: SyntaxKind where "KwContinue \<equiv> SyntaxKind 91"
abbreviation KwDefault :: SyntaxKind where "KwDefault \<equiv> SyntaxKind 92"
abbreviation KwDestructor :: SyntaxKind where "KwDestructor \<equiv> SyntaxKind 93"
abbreviation KwDo :: SyntaxKind where "KwDo \<equiv> SyntaxKind 94"
abbreviation KwElse :: SyntaxKind where "KwElse \<equiv> SyntaxKind 95"
abbreviation KwEnum :: SyntaxKind where "KwEnum \<equiv> SyntaxKind 96"
abbreviation KwExport :: SyntaxKind where "KwExport \<equiv> SyntaxKind 97"
abbreviation KwExtends :: SyntaxKind where "KwExtends \<equiv> SyntaxKind 98"
abbreviation KwExternal :: SyntaxKind where "KwExternal \<equiv> SyntaxKind 99"
abbreviation KwFalse :: SyntaxKind where "KwFalse \<equiv> SyntaxKind 100"
abbreviation KwFinal :: SyntaxKind where "KwFinal \<equiv> SyntaxKind 101"
abbreviation KwFinally :: SyntaxKind where "KwFinally \<equiv> SyntaxKind 102"
abbreviation KwFor :: SyntaxKind where "KwFor \<equiv> SyntaxKind 103"
abbreviation KwFrom :: SyntaxKind where "KwFrom \<equiv> SyntaxKind 104"
abbreviation KwGoto :: SyntaxKind where "KwGoto \<equiv> SyntaxKind 105"
abbreviation KwIf :: SyntaxKind where "KwIf \<equiv> SyntaxKind 106"
abbreviation KwImplements :: SyntaxKind where "KwImplements \<equiv> SyntaxKind 107"
abbreviation KwImport :: SyntaxKind where "KwImport \<equiv> SyntaxKind 108"
abbreviation KwIn :: SyntaxKind where "KwIn \<equiv> SyntaxKind 109"
abbreviation KwInterface :: SyntaxKind where "KwInterface \<equiv> SyntaxKind 110"
abbreviation KwIs :: SyntaxKind where "KwIs \<equiv> SyntaxKind 111"
abbreviation KwLazy :: SyntaxKind where "KwLazy \<equiv> SyntaxKind 112"
abbreviation KwLet :: SyntaxKind where "KwLet \<equiv> SyntaxKind 113"
abbreviation KwMutating :: SyntaxKind where "KwMutating \<equiv> SyntaxKind 114"
abbreviation KwNew :: SyntaxKind where "KwNew \<equiv> SyntaxKind 115"
abbreviation KwNoreturn :: SyntaxKind where "KwNoreturn \<equiv> SyntaxKind 116"
abbreviation KwNull :: SyntaxKind where "KwNull \<equiv> SyntaxKind 117"
abbreviation KwOut :: SyntaxKind where "KwOut \<equiv> SyntaxKind 118"
abbreviation KwOverride :: SyntaxKind where "KwOverride \<equiv> SyntaxKind 119"
abbreviation KwPackage :: SyntaxKind where "KwPackage \<equiv> SyntaxKind 120"
abbreviation KwPrimitive :: SyntaxKind where "KwPrimitive \<equiv> SyntaxKind 121"
abbreviation KwPrivate :: SyntaxKind where "KwPrivate \<equiv> SyntaxKind 122"
abbreviation KwProtected :: SyntaxKind where "KwProtected \<equiv> SyntaxKind 123"
abbreviation KwPublic :: SyntaxKind where "KwPublic \<equiv> SyntaxKind 124"
abbreviation KwRethrow :: SyntaxKind where "KwRethrow \<equiv> SyntaxKind 125"
abbreviation KwReturn :: SyntaxKind where "KwReturn \<equiv> SyntaxKind 126"
abbreviation KwSealed :: SyntaxKind where "KwSealed \<equiv> SyntaxKind 127"
abbreviation KwShared :: SyntaxKind where "KwShared \<equiv> SyntaxKind 128"
abbreviation KwStatic :: SyntaxKind where "KwStatic \<equiv> SyntaxKind 129"
abbreviation KwStruct :: SyntaxKind where "KwStruct \<equiv> SyntaxKind 130"
abbreviation KwSuper :: SyntaxKind where "KwSuper \<equiv> SyntaxKind 131"
abbreviation KwSwitch :: SyntaxKind where "KwSwitch \<equiv> SyntaxKind 132"
abbreviation KwTest :: SyntaxKind where "KwTest \<equiv> SyntaxKind 133"
abbreviation KwThis :: SyntaxKind where "KwThis \<equiv> SyntaxKind 134"
abbreviation KwThrow :: SyntaxKind where "KwThrow \<equiv> SyntaxKind 135"
abbreviation KwThrows :: SyntaxKind where "KwThrows \<equiv> SyntaxKind 136"
abbreviation KwTrue :: SyntaxKind where "KwTrue \<equiv> SyntaxKind 137"
abbreviation KwTry :: SyntaxKind where "KwTry \<equiv> SyntaxKind 138"
abbreviation KwType :: SyntaxKind where "KwType \<equiv> SyntaxKind 139"
abbreviation KwWeak :: SyntaxKind where "KwWeak \<equiv> SyntaxKind 140"
abbreviation KwWhile :: SyntaxKind where "KwWhile \<equiv> SyntaxKind 141"
abbreviation FIRST_NODE_KIND :: SyntaxKind where "FIRST_NODE_KIND \<equiv> SyntaxKind 142"
abbreviation SourceFile :: SyntaxKind where "SourceFile \<equiv> SyntaxKind 143"
abbreviation FuncDecl :: SyntaxKind where "FuncDecl \<equiv> SyntaxKind 144"
abbreviation ParamList :: SyntaxKind where "ParamList \<equiv> SyntaxKind 145"
abbreviation Parameter :: SyntaxKind where "Parameter \<equiv> SyntaxKind 146"
abbreviation DefaultValue :: SyntaxKind where "DefaultValue \<equiv> SyntaxKind 147"
abbreviation ReturnType :: SyntaxKind where "ReturnType \<equiv> SyntaxKind 148"
abbreviation ThrowsClause :: SyntaxKind where "ThrowsClause \<equiv> SyntaxKind 149"
abbreviation CatchClause :: SyntaxKind where "CatchClause \<equiv> SyntaxKind 150"
abbreviation StructDecl :: SyntaxKind where "StructDecl \<equiv> SyntaxKind 151"
abbreviation ClassDecl :: SyntaxKind where "ClassDecl \<equiv> SyntaxKind 152"
abbreviation InterfaceDecl :: SyntaxKind where "InterfaceDecl \<equiv> SyntaxKind 153"
abbreviation PrimitiveDecl :: SyntaxKind where "PrimitiveDecl \<equiv> SyntaxKind 154"
abbreviation ImplementsClause :: SyntaxKind where "ImplementsClause \<equiv> SyntaxKind 155"
abbreviation FieldDecl :: SyntaxKind where "FieldDecl \<equiv> SyntaxKind 156"
abbreviation MemberList :: SyntaxKind where "MemberList \<equiv> SyntaxKind 157"
abbreviation VisibilityModifier :: SyntaxKind where "VisibilityModifier \<equiv> SyntaxKind 158"
abbreviation ImportDecl :: SyntaxKind where "ImportDecl \<equiv> SyntaxKind 159"
abbreviation ImportPath :: SyntaxKind where "ImportPath \<equiv> SyntaxKind 160"
abbreviation ImportAlias :: SyntaxKind where "ImportAlias \<equiv> SyntaxKind 161"
abbreviation ExternalTypeDecl :: SyntaxKind where "ExternalTypeDecl \<equiv> SyntaxKind 162"
abbreviation ExternalBlock :: SyntaxKind where "ExternalBlock \<equiv> SyntaxKind 163"
abbreviation LibrarySpec :: SyntaxKind where "LibrarySpec \<equiv> SyntaxKind 164"
abbreviation ExternalFuncDecl :: SyntaxKind where "ExternalFuncDecl \<equiv> SyntaxKind 165"
abbreviation EnumDecl :: SyntaxKind where "EnumDecl \<equiv> SyntaxKind 166"
abbreviation EnumMember :: SyntaxKind where "EnumMember \<equiv> SyntaxKind 167"
abbreviation TypeParamList :: SyntaxKind where "TypeParamList \<equiv> SyntaxKind 168"
abbreviation TypeParam :: SyntaxKind where "TypeParam \<equiv> SyntaxKind 169"
abbreviation TestDecl :: SyntaxKind where "TestDecl \<equiv> SyntaxKind 170"
abbreviation TypeRef :: SyntaxKind where "TypeRef \<equiv> SyntaxKind 171"
abbreviation OptionalType :: SyntaxKind where "OptionalType \<equiv> SyntaxKind 172"
abbreviation TypeArgList :: SyntaxKind where "TypeArgList \<equiv> SyntaxKind 173"
abbreviation FuncType :: SyntaxKind where "FuncType \<equiv> SyntaxKind 174"
abbreviation ParenType :: SyntaxKind where "ParenType \<equiv> SyntaxKind 175"
abbreviation Block :: SyntaxKind where "Block \<equiv> SyntaxKind 176"
abbreviation LetStmt :: SyntaxKind where "LetStmt \<equiv> SyntaxKind 177"
abbreviation TypedVarDecl :: SyntaxKind where "TypedVarDecl \<equiv> SyntaxKind 178"
abbreviation IfStmt :: SyntaxKind where "IfStmt \<equiv> SyntaxKind 179"
abbreviation ElseClause :: SyntaxKind where "ElseClause \<equiv> SyntaxKind 180"
abbreviation WhileStmt :: SyntaxKind where "WhileStmt \<equiv> SyntaxKind 181"
abbreviation ForStmt :: SyntaxKind where "ForStmt \<equiv> SyntaxKind 182"
abbreviation ForEachStmt :: SyntaxKind where "ForEachStmt \<equiv> SyntaxKind 183"
abbreviation ForUpdate :: SyntaxKind where "ForUpdate \<equiv> SyntaxKind 184"
abbreviation BreakStmt :: SyntaxKind where "BreakStmt \<equiv> SyntaxKind 185"
abbreviation ContinueStmt :: SyntaxKind where "ContinueStmt \<equiv> SyntaxKind 186"
abbreviation ReturnStmt :: SyntaxKind where "ReturnStmt \<equiv> SyntaxKind 187"
abbreviation ExprStmt :: SyntaxKind where "ExprStmt \<equiv> SyntaxKind 188"
abbreviation ThrowStmt :: SyntaxKind where "ThrowStmt \<equiv> SyntaxKind 189"
abbreviation RethrowStmt :: SyntaxKind where "RethrowStmt \<equiv> SyntaxKind 190"
abbreviation SwitchStmt :: SyntaxKind where "SwitchStmt \<equiv> SyntaxKind 191"
abbreviation SwitchArm :: SyntaxKind where "SwitchArm \<equiv> SyntaxKind 192"
abbreviation LiteralExpr :: SyntaxKind where "LiteralExpr \<equiv> SyntaxKind 193"
abbreviation IdentExpr :: SyntaxKind where "IdentExpr \<equiv> SyntaxKind 194"
abbreviation GenericNameExpr :: SyntaxKind where "GenericNameExpr \<equiv> SyntaxKind 195"
abbreviation ThisExpr :: SyntaxKind where "ThisExpr \<equiv> SyntaxKind 196"
abbreviation SuperExpr :: SyntaxKind where "SuperExpr \<equiv> SyntaxKind 197"
abbreviation BinaryExpr :: SyntaxKind where "BinaryExpr \<equiv> SyntaxKind 198"
abbreviation UnaryExpr :: SyntaxKind where "UnaryExpr \<equiv> SyntaxKind 199"
abbreviation PrefixExpr :: SyntaxKind where "PrefixExpr \<equiv> SyntaxKind 200"
abbreviation PostfixExpr :: SyntaxKind where "PostfixExpr \<equiv> SyntaxKind 201"
abbreviation CallExpr :: SyntaxKind where "CallExpr \<equiv> SyntaxKind 202"
abbreviation ArgList :: SyntaxKind where "ArgList \<equiv> SyntaxKind 203"
abbreviation OutArgument :: SyntaxKind where "OutArgument \<equiv> SyntaxKind 204"
abbreviation NamedArgument :: SyntaxKind where "NamedArgument \<equiv> SyntaxKind 205"
abbreviation MemberExpr :: SyntaxKind where "MemberExpr \<equiv> SyntaxKind 206"
abbreviation SafeMemberExpr :: SyntaxKind where "SafeMemberExpr \<equiv> SyntaxKind 207"
abbreviation SubscriptExpr :: SyntaxKind where "SubscriptExpr \<equiv> SyntaxKind 208"
abbreviation SafeSubscriptExpr :: SyntaxKind where "SafeSubscriptExpr \<equiv> SyntaxKind 209"
abbreviation CastExpr :: SyntaxKind where "CastExpr \<equiv> SyntaxKind 210"
abbreviation CheckedCastExpr :: SyntaxKind where "CheckedCastExpr \<equiv> SyntaxKind 211"
abbreviation TypeTestExpr :: SyntaxKind where "TypeTestExpr \<equiv> SyntaxKind 212"
abbreviation AssignExpr :: SyntaxKind where "AssignExpr \<equiv> SyntaxKind 213"
abbreviation TernaryExpr :: SyntaxKind where "TernaryExpr \<equiv> SyntaxKind 214"
abbreviation NullCoalesceExpr :: SyntaxKind where "NullCoalesceExpr \<equiv> SyntaxKind 215"
abbreviation NewExpr :: SyntaxKind where "NewExpr \<equiv> SyntaxKind 216"
abbreviation ParenExpr :: SyntaxKind where "ParenExpr \<equiv> SyntaxKind 217"
abbreviation ArrayLiteralExpr :: SyntaxKind where "ArrayLiteralExpr \<equiv> SyntaxKind 218"
abbreviation StructLiteralExpr :: SyntaxKind where "StructLiteralExpr \<equiv> SyntaxKind 219"
abbreviation StructLiteralField :: SyntaxKind where "StructLiteralField \<equiv> SyntaxKind 220"
abbreviation InterpStringExpr :: SyntaxKind where "InterpStringExpr \<equiv> SyntaxKind 221"
abbreviation TryExpr :: SyntaxKind where "TryExpr \<equiv> SyntaxKind 222"
abbreviation SwitchExpr :: SyntaxKind where "SwitchExpr \<equiv> SyntaxKind 223"
abbreviation LambdaExpr :: SyntaxKind where "LambdaExpr \<equiv> SyntaxKind 224"
abbreviation LambdaParam :: SyntaxKind where "LambdaParam \<equiv> SyntaxKind 225"
abbreviation Error :: SyntaxKind where "Error \<equiv> SyntaxKind 226"
abbreviation LAST_KIND :: SyntaxKind where "LAST_KIND \<equiv> SyntaxKind 227"

section \<open>Predicates on kinds\<close>

definition isToken :: "SyntaxKind \<Rightarrow> bool" where
  "isToken k = (k < FIRST_NODE_KIND)"

definition isNode :: "SyntaxKind \<Rightarrow> bool" where
  "isNode k = (k > FIRST_NODE_KIND \<and> k < LAST_KIND)"

definition isTrivia :: "SyntaxKind \<Rightarrow> bool" where
  "isTrivia k = (k \<in> {Whitespace, Newline, LineComment, BlockComment})"

definition isKeyword :: "SyntaxKind \<Rightarrow> bool" where
  "isKeyword k = (k \<ge> KwBool \<and> k \<le> KwWhile)"

definition isLiteral :: "SyntaxKind \<Rightarrow> bool" where
  "isLiteral k = (k \<in> {IntLiteral, LongLiteral, FloatLiteral, DoubleLiteral, StringLiteral,
                       CharLiteral, KwTrue, KwFalse, KwNull})"

definition isTypeNode :: "SyntaxKind \<Rightarrow> bool" where
  "isTypeNode k = (k \<in> {TypeRef, FuncType, ParenType})"

section \<open>Kind names\<close>

definition KIND_NAMES :: "(SyntaxKind \<times> string) list" where
  "KIND_NAMES = [
    (Whitespace, ''Whitespace''),
    (Newline, ''Newline''),
    (LineComment, ''LineComment''),
    (BlockComment, ''BlockComment''),
    (EndOfFile, ''EndOfFile''),
    (Invalid, ''Invalid''),
    (Missing, ''Missing''),
    (IntLiteral, ''IntLiteral''),
    (LongLiteral, ''LongLiteral''),
    (FloatLiteral, ''FloatLiteral''),
    (DoubleLiteral, ''DoubleLiteral''),
    (StringLiteral, ''StringLiteral''),
    (CharLiteral, ''CharLiteral''),
    (InterpStringStart, ''InterpStringStart''),
    (InterpStringMid, ''InterpStringMid''),
    (InterpStringEnd, ''InterpStringEnd''),
    (Identifier, ''Identifier''),
    (LParen, ''LParen''),
    (RParen, ''RParen''),
    (LBrace, ''LBrace''),
    (RBrace, ''RBrace''),
    (LBracket, ''LBracket''),
    (RBracket, ''RBracket''),
    (Semi, ''Semi''),
    (Comma, ''Comma''),
    (Dot, ''Dot''),
    (Ellipsis, ''Ellipsis''),
    (Colon, ''Colon''),
    (Arrow, ''Arrow''),
    (At, ''At''),
    (Plus, ''Plus''),
    (Minus, ''Minus''),
    (Star, ''Star''),
    (Slash, ''Slash''),
    (Percent, ''Percent''),
    (Caret, ''Caret''),
    (Eq, ''Eq''),
    (Bang, ''Bang''),
    (Tilde, ''Tilde''),
    (Question, ''Question''),
    (QuestionDot, ''QuestionDot''),
    (EqEq, ''EqEq''),
    (NotEq, ''NotEq''),
    (Lt, ''Lt''),
    (Gt, ''Gt''),
    (LtEq, ''LtEq''),
    (GtEq, ''GtEq''),
    (AmpAmp, ''AmpAmp''),
    (PipePipe, ''PipePipe''),
    (Amp, ''Amp''),
    (Pipe, ''Pipe''),
    (PlusPlus, ''PlusPlus''),
    (MinusMinus, ''MinusMinus''),
    (LtLt, ''LtLt''),
    (GtGt, ''GtGt''),
    (GtGtGt, ''GtGtGt''),
    (PlusEq, ''PlusEq''),
    (MinusEq, ''MinusEq''),
    (StarEq, ''StarEq''),
    (SlashEq, ''SlashEq''),
    (PercentEq, ''PercentEq''),
    (AmpEq, ''AmpEq''),
    (PipeEq, ''PipeEq''),
    (CaretEq, ''CaretEq''),
    (LtLtEq, ''LtLtEq''),
    (GtGtEq, ''GtGtEq''),
    (GtGtGtEq, ''GtGtGtEq''),
    (KwBool, ''KwBool''),
    (KwByte, ''KwByte''),
    (KwShort, ''KwShort''),
    (KwUShort, ''KwUShort''),
    (KwInt, ''KwInt''),
    (KwUInt, ''KwUInt''),
    (KwLong, ''KwLong''),
    (KwULong, ''KwULong''),
    (KwFloat, ''KwFloat''),
    (KwDouble, ''KwDouble''),
    (KwDecimal, ''KwDecimal''),
    (KwChar, ''KwChar''),
    (KwString, ''KwString''),
    (KwVoid, ''KwVoid''),
    (KwAbstract, ''KwAbstract''),
    (KwAs, ''KwAs''),
    (KwAssert, ''KwAssert''),
    (KwBreak, ''KwBreak''),
    (KwCase, ''KwCase''),
    (KwCatch, ''KwCatch''),
    (KwClass, ''KwClass''),
    (KwComputed, ''KwComputed''),
    (KwConst, ''KwConst''),
    (KwConstructor, ''KwConstructor''),
    (KwContinue, ''KwContinue''),
    (KwDefault, ''KwDefault''),
    (KwDestructor, ''KwDestructor''),
    (KwDo, ''KwDo''),
    (KwElse, ''KwElse''),
    (KwEnum, ''KwEnum''),
    (KwExport, ''KwExport''),
    (KwExtends, ''KwExtends''),
    (KwExternal, ''KwExternal''),
    (KwFalse, ''KwFalse''),
    (KwFinal, ''KwFinal''),
    (KwFinally, ''KwFinally''),
    (KwFor, ''KwFor''),
    (KwFrom, ''KwFrom''),
    (KwGoto, ''KwGoto''),
    (KwIf, ''KwIf''),
    (KwImplements, ''KwImplements''),
    (KwImport, ''KwImport''),
    (KwIn, ''KwIn''),
    (KwInterface, ''KwInterface''),
    (KwIs, ''KwIs''),
    (KwLazy, ''KwLazy''),
    (KwLet, ''KwLet''),
    (KwMutating, ''KwMutating''),
    (KwNew, ''KwNew''),
    (KwNoreturn, ''KwNoreturn''),
    (KwNull, ''KwNull''),
    (KwOut, ''KwOut''),
    (KwOverride, ''KwOverride''),
    (KwPackage, ''KwPackage''),
    (KwPrimitive, ''KwPrimitive''),
    (KwPrivate, ''KwPrivate''),
    (KwProtected, ''KwProtected''),
    (KwPublic, ''KwPublic''),
    (KwRethrow, ''KwRethrow''),
    (KwReturn, ''KwReturn''),
    (KwSealed, ''KwSealed''),
    (KwShared, ''KwShared''),
    (KwStatic, ''KwStatic''),
    (KwStruct, ''KwStruct''),
    (KwSuper, ''KwSuper''),
    (KwSwitch, ''KwSwitch''),
    (KwTest, ''KwTest''),
    (KwThis, ''KwThis''),
    (KwThrow, ''KwThrow''),
    (KwThrows, ''KwThrows''),
    (KwTrue, ''KwTrue''),
    (KwTry, ''KwTry''),
    (KwType, ''KwType''),
    (KwWeak, ''KwWeak''),
    (KwWhile, ''KwWhile''),
    (SourceFile, ''SourceFile''),
    (FuncDecl, ''FuncDecl''),
    (ParamList, ''ParamList''),
    (Parameter, ''Parameter''),
    (DefaultValue, ''DefaultValue''),
    (ReturnType, ''ReturnType''),
    (ThrowsClause, ''ThrowsClause''),
    (CatchClause, ''CatchClause''),
    (StructDecl, ''StructDecl''),
    (ClassDecl, ''ClassDecl''),
    (InterfaceDecl, ''InterfaceDecl''),
    (PrimitiveDecl, ''PrimitiveDecl''),
    (ImplementsClause, ''ImplementsClause''),
    (FieldDecl, ''FieldDecl''),
    (MemberList, ''MemberList''),
    (VisibilityModifier, ''VisibilityModifier''),
    (ImportDecl, ''ImportDecl''),
    (ImportPath, ''ImportPath''),
    (ImportAlias, ''ImportAlias''),
    (ExternalTypeDecl, ''ExternalTypeDecl''),
    (ExternalBlock, ''ExternalBlock''),
    (LibrarySpec, ''LibrarySpec''),
    (ExternalFuncDecl, ''ExternalFuncDecl''),
    (EnumDecl, ''EnumDecl''),
    (EnumMember, ''EnumMember''),
    (TypeParamList, ''TypeParamList''),
    (TypeParam, ''TypeParam''),
    (TestDecl, ''TestDecl''),
    (TypeRef, ''TypeRef''),
    (OptionalType, ''OptionalType''),
    (TypeArgList, ''TypeArgList''),
    (FuncType, ''FuncType''),
    (ParenType, ''ParenType''),
    (Block, ''Block''),
    (LetStmt, ''LetStmt''),
    (TypedVarDecl, ''TypedVarDecl''),
    (IfStmt, ''IfStmt''),
    (ElseClause, ''ElseClause''),
    (WhileStmt, ''WhileStmt''),
    (ForStmt, ''ForStmt''),
    (ForEachStmt, ''ForEachStmt''),
    (ForUpdate, ''ForUpdate''),
    (BreakStmt, ''BreakStmt''),
    (ContinueStmt, ''ContinueStmt''),
    (ReturnStmt, ''ReturnStmt''),
    (ExprStmt, ''ExprStmt''),
    (ThrowStmt, ''ThrowStmt''),
    (RethrowStmt, ''RethrowStmt''),
    (SwitchStmt, ''SwitchStmt''),
    (SwitchArm, ''SwitchArm''),
    (LiteralExpr, ''LiteralExpr''),
    (IdentExpr, ''IdentExpr''),
    (GenericNameExpr, ''GenericNameExpr''),
    (ThisExpr, ''ThisExpr''),
    (SuperExpr, ''SuperExpr''),
    (BinaryExpr, ''BinaryExpr''),
    (UnaryExpr, ''UnaryExpr''),
    (PrefixExpr, ''PrefixExpr''),
    (PostfixExpr, ''PostfixExpr''),
    (CallExpr, ''CallExpr''),
    (ArgList, ''ArgList''),
    (OutArgument, ''OutArgument''),
    (NamedArgument, ''NamedArgument''),
    (MemberExpr, ''MemberExpr''),
    (SafeMemberExpr, ''SafeMemberExpr''),
    (SubscriptExpr, ''SubscriptExpr''),
    (SafeSubscriptExpr, ''SafeSubscriptExpr''),
    (CastExpr, ''CastExpr''),
    (CheckedCastExpr, ''CheckedCastExpr''),
    (TypeTestExpr, ''TypeTestExpr''),
    (AssignExpr, ''AssignExpr''),
    (TernaryExpr, ''TernaryExpr''),
    (NullCoalesceExpr, ''NullCoalesceExpr''),
    (NewExpr, ''NewExpr''),
    (ParenExpr, ''ParenExpr''),
    (ArrayLiteralExpr, ''ArrayLiteralExpr''),
    (StructLiteralExpr, ''StructLiteralExpr''),
    (StructLiteralField, ''StructLiteralField''),
    (InterpStringExpr, ''InterpStringExpr''),
    (TryExpr, ''TryExpr''),
    (SwitchExpr, ''SwitchExpr''),
    (LambdaExpr, ''LambdaExpr''),
    (LambdaParam, ''LambdaParam''),
    (Error, ''Error'')]"

definition kindName :: "SyntaxKind \<Rightarrow> string" where
  "kindName k = (case map_of KIND_NAMES k of Some name \<Rightarrow> name | None \<Rightarrow> ''<unknown>'')"

section \<open>Keywords\<close>

definition KEYWORD_TABLE :: "(string \<times> SyntaxKind) list" where
  "KEYWORD_TABLE = [
    (''bool'', KwBool),
    (''byte'', KwByte),
    (''short'', KwShort),
    (''ushort'', KwUShort),
    (''int'', KwInt),
    (''uint'', KwUInt),
    (''long'', KwLong),
    (''ulong'', KwULong),
    (''float'', KwFloat),
    (''double'', KwDouble),
    (''decimal'', KwDecimal),
    (''char'', KwChar),
    (''string'', KwString),
    (''void'', KwVoid),
    (''abstract'', KwAbstract),
    (''as'', KwAs),
    (''assert'', KwAssert),
    (''break'', KwBreak),
    (''case'', KwCase),
    (''catch'', KwCatch),
    (''class'', KwClass),
    (''computed'', KwComputed),
    (''const'', KwConst),
    (''constructor'', KwConstructor),
    (''continue'', KwContinue),
    (''default'', KwDefault),
    (''destructor'', KwDestructor),
    (''do'', KwDo),
    (''else'', KwElse),
    (''enum'', KwEnum),
    (''export'', KwExport),
    (''extends'', KwExtends),
    (''external'', KwExternal),
    (''false'', KwFalse),
    (''final'', KwFinal),
    (''finally'', KwFinally),
    (''for'', KwFor),
    (''goto'', KwGoto),
    (''if'', KwIf),
    (''implements'', KwImplements),
    (''import'', KwImport),
    (''interface'', KwInterface),
    (''is'', KwIs),
    (''lazy'', KwLazy),
    (''let'', KwLet),
    (''mutating'', KwMutating),
    (''new'', KwNew),
    (''noreturn'', KwNoreturn),
    (''null'', KwNull),
    (''override'', KwOverride),
    (''package'', KwPackage),
    (''private'', KwPrivate),
    (''protected'', KwProtected),
    (''public'', KwPublic),
    (''rethrow'', KwRethrow),
    (''return'', KwReturn),
    (''sealed'', KwSealed),
    (''static'', KwStatic),
    (''struct'', KwStruct),
    (''super'', KwSuper),
    (''switch'', KwSwitch),
    (''this'', KwThis),
    (''throw'', KwThrow),
    (''throws'', KwThrows),
    (''true'', KwTrue),
    (''try'', KwTry),
    (''weak'', KwWeak),
    (''while'', KwWhile)]"

definition keywordKindFromText :: "u16string \<Rightarrow> SyntaxKind" where
  "keywordKindFromText t =
     (case find (\<lambda>(kw, kind). u16 kw = t) KEYWORD_TABLE of
        Some (kw, kind) \<Rightarrow> kind
      | None \<Rightarrow> Identifier)"

section \<open>Compound assignment\<close>

definition compoundAssignmentOperator :: "SyntaxKind \<Rightarrow> SyntaxKind" where
  "compoundAssignmentOperator k =
     (if k = PlusEq then Plus else
      if k = MinusEq then Minus else
      if k = StarEq then Star else
      if k = SlashEq then Slash else
      if k = PercentEq then Percent else
      if k = AmpEq then Amp else
      if k = PipeEq then Pipe else
      if k = CaretEq then Caret else
      if k = LtLtEq then LtLt else
      if k = GtGtEq then GtGt else
      if k = GtGtGtEq then GtGtGt else
      Invalid)"

section \<open>Lemmas\<close>

lemmas kind_order_defs = less_eq_SyntaxKind_def less_SyntaxKind_def

lemma isToken_iff [kind_simps]: "isToken k \<longleftrightarrow> ordinal k < ordinal FIRST_NODE_KIND"
  by (simp add: isToken_def kind_order_defs)

lemma isNode_iff [kind_simps]:
  "isNode k \<longleftrightarrow> ordinal FIRST_NODE_KIND < ordinal k \<and> ordinal k < ordinal LAST_KIND"
  by (simp add: isNode_def kind_order_defs)

lemma isKeyword_iff [kind_simps]:
  "isKeyword k \<longleftrightarrow> ordinal KwBool \<le> ordinal k \<and> ordinal k \<le> ordinal KwWhile"
  by (simp add: isKeyword_def kind_order_defs)

declare isTrivia_def [kind_simps]

lemma isTrivia_isToken: "isTrivia k \<Longrightarrow> isToken k"
  by (auto simp: kind_simps)

lemma isKeyword_isToken: "isKeyword k \<Longrightarrow> isToken k"
  by (simp add: kind_simps)

lemma isKeyword_not_special: "isKeyword k \<Longrightarrow> k \<noteq> EndOfFile \<and> \<not> isTrivia k"
  by (auto simp: kind_simps)

text \<open>The kinds the name table lists are the header's, in order, less the two range markers.\<close>

lemma KIND_NAMES_kinds:
  "map fst KIND_NAMES =
     map SyntaxKind ([0..ordinal FIRST_NODE_KIND - 1] @ [ordinal FIRST_NODE_KIND + 1..ordinal LAST_KIND - 1])"
  by code_simp

lemma KIND_NAMES_keys: "distinct (map fst KIND_NAMES)"
  unfolding KIND_NAMES_kinds by (auto simp: distinct_map inj_on_def)

text \<open>Every kind below \<open>LAST_KIND\<close> but the marker between tokens and nodes has an entry.\<close>

lemma kind_in_ranges:
  "k \<in> set (map SyntaxKind ([a..b] @ [c..d])) \<longleftrightarrow>
     (a \<le> ordinal k \<and> ordinal k \<le> b) \<or> (c \<le> ordinal k \<and> ordinal k \<le> d)"
  by (cases k) auto

lemma KIND_NAMES_total:
  assumes "0 \<le> ordinal k" and "isToken k \<or> isNode k"
  shows "\<exists>name. map_of KIND_NAMES k = Some name"
proof -
  have "k \<in> fst ` set KIND_NAMES"
  proof -
    have "k \<in> set (map fst KIND_NAMES)"
      unfolding KIND_NAMES_kinds kind_in_ranges using assms by (auto simp: kind_simps)
    then show ?thesis by simp
  qed
  then show ?thesis by (simp add: map_of_eq_None_iff flip: not_None_eq)
qed

text \<open>No keyword text maps to a kind outside the keyword range.\<close>

lemma KEYWORD_TABLE_keywords: "list_all (\<lambda>(kw, kind). isKeyword kind) KEYWORD_TABLE"
  by code_simp

lemma find_SomeD: "find P xs = Some x \<Longrightarrow> x \<in> set xs \<and> P x"
  by (induction xs) (auto split: if_splits)

lemma keywordKindFromText_cases:
  "keywordKindFromText t = Identifier \<or> isKeyword (keywordKindFromText t)"
proof (cases "find (\<lambda>(kw, kind). u16 kw = t) KEYWORD_TABLE")
  case None
  then show ?thesis by (simp add: keywordKindFromText_def)
next
  case (Some e)
  then show ?thesis
    using find_SomeD [OF Some] KEYWORD_TABLE_keywords
    by (auto simp: keywordKindFromText_def list_all_iff split: prod.splits)
qed

lemma keywordKindFromText_kinds:
  "keywordKindFromText t \<in> insert Identifier (snd ` set KEYWORD_TABLE)"
proof (cases "find (\<lambda>(kw, kind). u16 kw = t) KEYWORD_TABLE")
  case (Some e)
  then show ?thesis
    using find_SomeD [OF Some] by (force simp: keywordKindFromText_def split: prod.splits)
qed (simp add: keywordKindFromText_def)

end
