(* ===== verification/Tokenizer.thy ===== *)
theory Tokenizer
  imports Diagnostics SyntaxKinds
begin

text \<open>
  The tokenizer, \<open>parser/Tokenizer.cpp\<close>: a state machine over the source's code units that hands
  out one token per call of \<open>next\<close>, trivia included.

  A member function that returns a token is a function from the tokenizer to the token and the
  tokenizer after the call. Offsets into the source are naturals: a source has fewer than 2^32 code
  units, so the 32-bit counters of the code never wrap. The stack of open interpolation holes is
  written with its back element first.
\<close>

section \<open>Character classes\<close>

definition isAsciiLetter :: "char16 \<Rightarrow> bool" where
  "isAsciiLetter c = ((c \<ge> uc CHR ''a'' \<and> c \<le> uc CHR ''z'') \<or> (c \<ge> uc CHR ''A'' \<and> c \<le> uc CHR ''Z''))"

definition isDigit :: "char16 \<Rightarrow> bool" where
  "isDigit c = (c \<ge> uc CHR ''0'' \<and> c \<le> uc CHR ''9'')"

definition isHexDigit :: "char16 \<Rightarrow> bool" where
  "isHexDigit c = (isDigit c \<or> (c \<ge> uc CHR ''a'' \<and> c \<le> uc CHR ''f'') \<or>
                   (c \<ge> uc CHR ''A'' \<and> c \<le> uc CHR ''F''))"

definition isIdentStart :: "char16 \<Rightarrow> bool" where
  "isIdentStart c = (isAsciiLetter c \<or> c = uc CHR ''_'' \<or> c = uc CHR ''$'')"

definition isIdentContinue :: "char16 \<Rightarrow> bool" where
  "isIdentContinue c = (isIdentStart c \<or> isDigit c)"

definition isSimpleEscape :: "char16 \<Rightarrow> bool" where
  "isSimpleEscape c = (c = uc CHR 0x5C \<or> c = uc CHR 0x22 \<or> c = uc CHR 0x27 \<or> c = uc CHR ''n'' \<or>
     c = uc CHR ''r'' \<or> c = uc CHR ''t'' \<or> c = uc CHR ''b'' \<or> c = uc CHR ''f'' \<or> c = uc CHR ''0'' \<or>
     c = uc CHR ''{'' \<or> c = uc CHR ''}'')"

section \<open>Characters of a character literal\<close>

text \<open>A byte of a \<open>std::string\<close>, whose element at \<open>size()\<close> is the terminating zero.\<close>

definition byteAt :: "bytes \<Rightarrow> nat \<Rightarrow> byte" where
  "byteAt t i = (if i < length t then t ! i else 0)"

definition isHexByte :: "byte \<Rightarrow> bool" where
  "isHexByte c = ((c \<ge> 0x30 \<and> c \<le> 0x39) \<or> (c \<ge> 0x61 \<and> c \<le> 0x66) \<or> (c \<ge> 0x41 \<and> c \<le> 0x46))"

definition isContinuationByte :: "byte \<Rightarrow> bool" where
  "isContinuationByte c = (c \<ge> 0x80 \<and> c \<le> 0xBF)"

definition utf8SequenceLength :: "byte \<Rightarrow> nat" where
  "utf8SequenceLength lead =
     (if lead < 0x80 then 1
      else if lead \<ge> 0xF0 \<and> lead \<le> 0xF7 then 4
      else if lead \<ge> 0xE0 \<and> lead \<le> 0xEF then 3
      else if lead \<ge> 0xC0 \<and> lead \<le> 0xDF then 2
      else 1)"

abbreviation byBackslash :: byte where "byBackslash \<equiv> 0x5C"

definition escapeLength :: "bytes \<Rightarrow> nat \<Rightarrow> nat" where
  "escapeLength t i =
     (if i + 5 < length t \<and> t ! (i + 1) = 0x75 \<and> isHexByte (t ! (i + 2)) \<and> isHexByte (t ! (i + 3)) \<and>
         isHexByte (t ! (i + 4)) \<and> isHexByte (t ! (i + 5))
      then 6 else 2)"

definition characterBytes :: "bytes \<Rightarrow> nat \<Rightarrow> nat" where
  "characterBytes t i =
     (let lead = byteAt t i in
      if lead = byBackslash then escapeLength t i
      else let len = utf8SequenceLength lead in
           if i + len > length t then length t - i else len)"

definition hexValue :: "byte \<Rightarrow> int" where
  "hexValue c =
     (if c \<ge> 0x30 \<and> c \<le> 0x39 then uint c - 0x30
      else if c \<ge> 0x61 \<and> c \<le> 0x66 then uint c - 0x61 + 10
      else uint c - 0x41 + 10)"

definition codePointAt :: "bytes \<Rightarrow> nat \<Rightarrow> nat \<Rightarrow> int" where
  "codePointAt t i len =
     (let lead = byteAt t i in
      if lead = byBackslash \<and> len = 6
      then foldl (\<lambda>v d. v * 16 + hexValue (byteAt t d)) 0 [i + 2..<i + 6]
      else if lead = byBackslash then uint (byteAt t (i + 1))
      else if len = 1 then uint lead
      else let leadBits = (if len = 2 then 0x1F else if len = 3 then 0x0F else 0x07) in
           foldl (\<lambda>v n. v * 64 + uint (byteAt t n AND 0x3F)) (uint (lead AND leadBits))
             [i + 1..<i + len])"

definition joinsPrevious :: "int \<Rightarrow> bool" where
  "joinsPrevious cp =
     ((cp \<ge> 0x0300 \<and> cp \<le> 0x036F) \<or> (cp \<ge> 0x1AB0 \<and> cp \<le> 0x1AFF) \<or> (cp \<ge> 0x1DC0 \<and> cp \<le> 0x1DFF) \<or>
      (cp \<ge> 0x20D0 \<and> cp \<le> 0x20FF) \<or> (cp \<ge> 0xFE20 \<and> cp \<le> 0xFE2F) \<or> cp = 0x200D \<or>
      (cp \<ge> 0xFE00 \<and> cp \<le> 0xFE0F))"

lemma escapeLength_pos: "escapeLength t i > 0"
  by (simp add: escapeLength_def)

lemma characterBytes_pos: "i < length t \<Longrightarrow> characterBytes t i > 0"
  by (simp add: characterBytes_def escapeLength_pos utf8SequenceLength_def Let_def)

function characterLiteralLengthLoop :: "bytes \<Rightarrow> int \<Rightarrow> nat \<Rightarrow> int" where
  "characterLiteralLengthLoop literal count i =
     (if i + 1 < length literal then
        let c = literal ! i in
        if c = byBackslash
        then characterLiteralLengthLoop literal (count + 1) (i + escapeLength literal i)
        else characterLiteralLengthLoop literal
               (if \<not> isContinuationByte c then count + 1 else count) (i + 1)
      else count)"
  by pat_completeness auto
termination
  by (relation "measure (\<lambda>(l, n, i). length l - i)")
     (auto intro!: diff_less_mono2 simp: escapeLength_pos)

definition characterLiteralLength :: "bytes \<Rightarrow> int" where
  "characterLiteralLength literal = characterLiteralLengthLoop literal 0 1"

function hasJoiningMarkLoop :: "bytes \<Rightarrow> nat \<Rightarrow> bool \<Rightarrow> bool" where
  "hasJoiningMarkLoop content i first =
     (if i < length content then
        if isContinuationByte (content ! i) then hasJoiningMarkLoop content (i + 1) first
        else let len = characterBytes content i in
             if \<not> first \<and> joinsPrevious (codePointAt content i len) then True
             else hasJoiningMarkLoop content (i + len) False
      else False)"
  by pat_completeness auto
termination
  by (relation "measure (\<lambda>(t, i, f). length t - i)")
     (auto intro!: diff_less_mono2 simp: characterBytes_pos)

definition hasJoiningMark :: "bytes \<Rightarrow> bool" where
  "hasJoiningMark content = hasJoiningMarkLoop content 0 True"

function stringContentLoop :: "bytes \<Rightarrow> bytes \<Rightarrow> nat \<Rightarrow> nat \<Rightarrow> bytes" where
  "stringContentLoop content written runStart i =
     (if i < length content then
        let c = content ! i in
        if c = byBackslash
        then stringContentLoop content written runStart (i + escapeLength content i)
        else if c = 0x22 \<or> c = 0x7B \<or> c = 0x7D
        then stringContentLoop content
               (written @ take (i - runStart) (drop runStart content) @ [byBackslash]) i (i + 1)
        else stringContentLoop content written runStart (i + 1)
      else written @ drop runStart content)"
  by pat_completeness auto
termination
  by (relation "measure (\<lambda>(t, w, r, i). length t - i)")
     (auto intro!: diff_less_mono2 simp: escapeLength_pos)

definition stringContent :: "bytes \<Rightarrow> bytes" where
  "stringContent content = stringContentLoop content [] 0 0"

declare characterLiteralLengthLoop.simps [simp del] hasJoiningMarkLoop.simps [simp del]
  stringContentLoop.simps [simp del]

definition characterLengthRefusal :: "bytes \<Rightarrow> string" where
  "characterLengthRefusal literal =
     (let count = characterLiteralLength literal;
          content = take (length literal - 2) (drop 1 literal);
          txt = [CHR 0x27, CHR 0x22] @ byteChars (stringContent content) @ [CHR 0x22, CHR 0x27]
      in if count = 0
         then [CHR 0x27, CHR 0x27] @ '' has no character between its quotes, but a character literal must have exactly '' @
              ''one. Write the character between the quotes, as in '' @ [CHR 0x27, CHR ''a'', CHR 0x27] @
              '', or write '' @ [CHR 0x27, CHR 0x22, CHR 0x22, CHR 0x27] @ '' for an '' @ ''empty string.''
         else if hasJoiningMark content
         then byteChars literal @ '' is made of '' @ to_string count @
              '' Unicode code points, but a character literal must have exactly one. A code '' @
              ''point is one numbered entry in Unicode, and some characters, such as a letter '' @
              ''with a separate accent mark, take more than one. Write '' @ txt @
              '' to make it a string.''
         else byteChars literal @ '' has '' @ to_string count @
              '' characters, but a character literal must have exactly one. Write '' @ txt @
              '' to make it a string, or keep one character, as in '' @ [CHR 0x27] @
              byteChars (take (characterBytes content 0) content) @ [CHR 0x27] @ ''.'')"

section \<open>The state\<close>

record LexedToken =
  tok_kind :: SyntaxKind
  tok_text :: u16string
  tok_offset :: nat
  tok_line :: int
  tok_column :: int

record Tokenizer =
  tz_source :: u16string
  tz_sink :: DiagnosticSink
  tz_pos :: nat
  tz_line :: int
  tz_column :: int
  tz_holes :: "int list"

definition mkTokenizer :: "u16string \<Rightarrow> DiagnosticSink \<Rightarrow> Tokenizer" where
  "mkTokenizer src s =
     \<lparr>tz_source = src, tz_sink = s, tz_pos = 0, tz_line = 1, tz_column = 1, tz_holes = []\<rparr>"

definition tz_atEnd :: "Tokenizer \<Rightarrow> bool" where
  "tz_atEnd tz = (tz_pos tz \<ge> length (tz_source tz))"

definition peek :: "Tokenizer \<Rightarrow> nat \<Rightarrow> char16" where
  "peek tz off =
     (let i = tz_pos tz + off in if i < length (tz_source tz) then tz_source tz ! i else 0)"

definition advance :: "Tokenizer \<Rightarrow> Tokenizer" where
  "advance tz =
     (if tz_pos tz \<ge> length (tz_source tz) then tz
      else let c = tz_source tz ! tz_pos tz;
               p = tz_pos tz + 1
           in if c = chLF
              then tz\<lparr>tz_pos := p, tz_line := tz_line tz + 1, tz_column := 1\<rparr>
              else if c = chCR
              then tz\<lparr>tz_pos := (if p < length (tz_source tz) \<and> tz_source tz ! p = chLF then p + 1 else p),
                      tz_line := tz_line tz + 1, tz_column := 1\<rparr>
              else tz\<lparr>tz_pos := p, tz_column := tz_column tz + 1\<rparr>)"

definition sliceFrom :: "Tokenizer \<Rightarrow> nat \<Rightarrow> u16string" where
  "sliceFrom tz startPos = take (tz_pos tz - startPos) (drop startPos (tz_source tz))"

definition makeToken :: "SyntaxKind \<Rightarrow> nat \<Rightarrow> int \<Rightarrow> int \<Rightarrow> Tokenizer \<Rightarrow> LexedToken" where
  "makeToken k startPos startLine startCol tz =
     \<lparr>tok_kind = k, tok_text = sliceFrom tz startPos, tok_offset = startPos,
      tok_line = startLine, tok_column = startCol\<rparr>"

definition tzError :: "int \<Rightarrow> int \<Rightarrow> nat \<Rightarrow> string \<Rightarrow> Tokenizer \<Rightarrow> Tokenizer" where
  "tzError l c startPos msg tz =
     tz\<lparr>tz_sink := sinkError (tz_sink tz) (mkSpan l c (int (tz_pos tz - startPos))) msg\<rparr>"

lemma advance_source [simp]: "tz_source (advance tz) = tz_source tz"
  and advance_sink [simp]: "tz_sink (advance tz) = tz_sink tz"
  and advance_holes [simp]: "tz_holes (advance tz) = tz_holes tz"
  by (simp_all add: advance_def Let_def)

lemma advance_pos:
  "\<not> tz_atEnd tz \<Longrightarrow> tz_pos tz < tz_pos (advance tz)"
  "tz_pos tz \<le> tz_pos (advance tz)"
  by (simp_all add: advance_def tz_atEnd_def Let_def)

text \<open>The loop \<open>while (!atEnd() && P) advance();\<close>.\<close>

function advanceWhile :: "(Tokenizer \<Rightarrow> bool) \<Rightarrow> Tokenizer \<Rightarrow> Tokenizer" where
  "advanceWhile P tz = (if \<not> tz_atEnd tz \<and> P tz then advanceWhile P (advance tz) else tz)"
  by pat_completeness auto
termination
  by (relation "measure (\<lambda>(P, tz). length (tz_source tz) - tz_pos tz)")
     (auto simp: tz_atEnd_def advance_pos intro!: diff_less_mono2)

declare advanceWhile.simps [simp del]

section \<open>Lexing functions\<close>

definition isBlank :: "char16 \<Rightarrow> bool" where
  "isBlank c = (c = uc CHR '' '' \<or> c = 0x09 \<or> c = 0x0C \<or> c = 0x0B)"

definition lexWhitespace :: "nat \<Rightarrow> int \<Rightarrow> int \<Rightarrow> Tokenizer \<Rightarrow> LexedToken \<times> Tokenizer" where
  "lexWhitespace startPos startLine startCol tz =
     (let tz1 = advanceWhile (\<lambda>t. isBlank (peek t 0)) tz
      in (makeToken Whitespace startPos startLine startCol tz1, tz1))"

definition lexNewline :: "nat \<Rightarrow> int \<Rightarrow> int \<Rightarrow> Tokenizer \<Rightarrow> LexedToken \<times> Tokenizer" where
  "lexNewline startPos startLine startCol tz =
     (let tz1 = advance tz in (makeToken Newline startPos startLine startCol tz1, tz1))"

definition lexLineComment :: "nat \<Rightarrow> int \<Rightarrow> int \<Rightarrow> Tokenizer \<Rightarrow> LexedToken \<times> Tokenizer" where
  "lexLineComment startPos startLine startCol tz =
     (let tz1 = advanceWhile (\<lambda>t. \<not> (peek t 0 = chLF \<or> peek t 0 = chCR)) (advance (advance tz))
      in (makeToken LineComment startPos startLine startCol tz1, tz1))"

text \<open>The loop of a block comment ends before the closing marker, which the two calls after it consume.\<close>

definition lexBlockComment :: "nat \<Rightarrow> int \<Rightarrow> int \<Rightarrow> Tokenizer \<Rightarrow> LexedToken \<times> Tokenizer" where
  "lexBlockComment startPos startLine startCol tz =
     (let tz1 = advanceWhile (\<lambda>t. \<not> (peek t 0 = uc CHR ''*'' \<and> peek t 1 = uc CHR ''/'')) (advance (advance tz));
          closed = (\<not> tz_atEnd tz1);
          tz2 = (if closed then advance (advance tz1) else tz1);
          tz3 = (if \<not> closed
                 then tzError startLine startCol startPos ''Unterminated block comment'' tz2 else tz2)
      in (makeToken BlockComment startPos startLine startCol tz3, tz3))"

definition lexIdentifierOrKeyword :: "nat \<Rightarrow> int \<Rightarrow> int \<Rightarrow> Tokenizer \<Rightarrow> LexedToken \<times> Tokenizer" where
  "lexIdentifierOrKeyword startPos startLine startCol tz =
     (let tz1 = advanceWhile (\<lambda>t. isIdentContinue (peek t 0)) tz
      in (makeToken (keywordKindFromText (sliceFrom tz1 startPos)) startPos startLine startCol tz1, tz1))"

text \<open>The digits of a number, up to its suffix: the flag says whether a fraction or an exponent was read.\<close>

definition lexDigits :: "nat \<Rightarrow> int \<Rightarrow> int \<Rightarrow> Tokenizer \<Rightarrow> bool \<times> Tokenizer" where
  "lexDigits startPos startLine startCol tz =
     (if peek tz 0 = uc CHR ''0'' \<and> (peek tz 1 = uc CHR ''x'' \<or> peek tz 1 = uc CHR ''X'') then
        let tz1 = advance (advance tz);
            tz2 = advanceWhile (\<lambda>t. isHexDigit (peek t 0) \<or> peek t 0 = uc CHR ''_'') tz1
        in (False, if tz_pos tz2 = tz_pos tz1
                   then tzError startLine startCol startPos ''Invalid hex number'' tz2 else tz2)
      else if peek tz 0 = uc CHR ''0'' \<and> (peek tz 1 = uc CHR ''b'' \<or> peek tz 1 = uc CHR ''B'') then
        let tz1 = advance (advance tz);
            tz2 = advanceWhile (\<lambda>t. peek t 0 = uc CHR ''0'' \<or> peek t 0 = uc CHR ''1'' \<or>
                                     peek t 0 = uc CHR ''_'') tz1
        in (False, if tz_pos tz2 = tz_pos tz1
                   then tzError startLine startCol startPos ''Invalid binary number'' tz2 else tz2)
      else
        let tz1 = advanceWhile (\<lambda>t. isDigit (peek t 0) \<or> peek t 0 = uc CHR ''_'') tz;
            (f1, tz2) = (if peek tz1 0 = uc CHR ''.'' \<and> isDigit (peek tz1 1)
                         then (True, advanceWhile (\<lambda>t. isDigit (peek t 0) \<or> peek t 0 = uc CHR ''_'') (advance tz1))
                         else (False, tz1))
        in if peek tz2 0 = uc CHR ''e'' \<or> peek tz2 0 = uc CHR ''E''
           then let tz3 = advance tz2;
                    tz4 = (if peek tz3 0 = uc CHR ''+'' \<or> peek tz3 0 = uc CHR ''-'' then advance tz3 else tz3)
                in (True, advanceWhile (\<lambda>t. isDigit (peek t 0)) tz4)
           else (f1, tz2))"

definition lexNumber :: "nat \<Rightarrow> int \<Rightarrow> int \<Rightarrow> Tokenizer \<Rightarrow> LexedToken \<times> Tokenizer" where
  "lexNumber startPos startLine startCol tz =
     (let (isFloat, tz1) = lexDigits startPos startLine startCol tz;
          (kind, tz2) =
            (if peek tz1 0 = uc CHR ''f'' \<or> peek tz1 0 = uc CHR ''F'' then (FloatLiteral, advance tz1)
             else if peek tz1 0 = uc CHR ''d'' \<or> peek tz1 0 = uc CHR ''D'' then (DoubleLiteral, advance tz1)
             else if peek tz1 0 = uc CHR ''l'' \<or> peek tz1 0 = uc CHR ''L''
             then (if isFloat then DoubleLiteral else LongLiteral, advance tz1)
             else (if isFloat then DoubleLiteral else IntLiteral, tz1))
      in (makeToken kind startPos startLine startCol tz2, tz2))"

definition consumeEscape :: "Tokenizer \<Rightarrow> Tokenizer" where
  "consumeEscape tz =
     (let startPos = tz_pos tz; startLine = tz_line tz; startCol = tz_column tz;
          tz1 = advance tz
      in if tz_atEnd tz1 then tz1
         else let escaped = peek tz1 0; tz2 = advance tz1 in
           if isSimpleEscape escaped then tz2
           else if escaped = uc CHR ''u'' then
             if isHexDigit (peek tz2 0) \<and> isHexDigit (peek tz2 1) \<and> isHexDigit (peek tz2 2) \<and>
                isHexDigit (peek tz2 3)
             then advance (advance (advance (advance tz2)))
             else tzError startLine startCol startPos
                    (''Invalid Unicode escape sequence '' @ [CHR 0x27] @
                     byteChars (utf16ToUtf8 (sliceFrom tz2 startPos)) @ [CHR 0x27] @
                     '': write four hex digits, for example '' @ [CHR 0x5C] @ ''u00E9'') tz2
           else tzError startLine startCol startPos
                  (''Invalid escape sequence '' @ [CHR 0x27] @
                   byteChars (utf16ToUtf8 (sliceFrom tz2 startPos)) @ [CHR 0x27] @
                   '': valid escapes include '' @ [CHR 0x5C] @ ''n, '' @ [CHR 0x5C] @ ''t, and '' @
                   [CHR 0x5C, CHR 0x5C]) tz2)"

lemma tzError_simps [simp]:
  "tz_source (tzError l c p m tz) = tz_source tz" "tz_pos (tzError l c p m tz) = tz_pos tz"
  "tz_line (tzError l c p m tz) = tz_line tz" "tz_column (tzError l c p m tz) = tz_column tz"
  "tz_holes (tzError l c p m tz) = tz_holes tz"
  by (simp_all add: tzError_def)

lemma consumeEscape_source [simp]: "tz_source (consumeEscape tz) = tz_source tz"
  by (simp add: consumeEscape_def Let_def)

lemma consumeEscape_pos: "\<not> tz_atEnd tz \<Longrightarrow> tz_pos tz < tz_pos (consumeEscape tz)"
proof -
  assume "\<not> tz_atEnd tz"
  then have 1: "tz_pos tz < tz_pos (advance tz)" by (rule advance_pos)
  have 2: "tz_pos u \<le> tz_pos (advance (advance (advance (advance u))))" for u
    by (meson advance_pos(2) order_trans)
  have 3: "tz_pos (advance tz) \<le> tz_pos (advance (advance tz))" by (rule advance_pos)
  show ?thesis using 1 3 2 [of "advance (advance tz)"] by (simp add: consumeEscape_def Let_def)
qed

text \<open>How the loop over a string segment ended.\<close>

datatype SegmentEnd = SegmentClosed | SegmentHole | SegmentOpen

function lexStringLoop :: "Tokenizer \<Rightarrow> SegmentEnd \<times> Tokenizer" where
  "lexStringLoop tz =
     (if tz_atEnd tz then (SegmentOpen, tz)
      else let c = peek tz 0 in
        if c = uc CHR 0x22 then (SegmentClosed, advance tz)
        else if c = uc CHR ''{'' then (SegmentHole, advance tz)
        else if c = chLF \<or> c = chCR then (SegmentOpen, tz)
        else if c = uc CHR 0x5C then lexStringLoop (consumeEscape tz)
        else lexStringLoop (advance tz))"
  by pat_completeness auto
termination
  by (relation "measure (\<lambda>tz. length (tz_source tz) - tz_pos tz)")
     (auto simp: tz_atEnd_def advance_pos consumeEscape_pos intro!: diff_less_mono2)

definition lexStringBody :: "nat \<Rightarrow> int \<Rightarrow> int \<Rightarrow> bool \<Rightarrow> Tokenizer \<Rightarrow> LexedToken \<times> Tokenizer" where
  "lexStringBody startPos startLine startCol atStart tz =
     (let (ended, tz1) = lexStringLoop tz;
          hole = (ended = SegmentHole);
          tz2 = (if ended = SegmentOpen
                 then tzError startLine startCol startPos ''Unterminated string literal'' tz1 else tz1)
      in if atStart \<and> \<not> hole then (makeToken StringLiteral startPos startLine startCol tz2, tz2)
         else if atStart then
           let tz3 = tz2\<lparr>tz_holes := 0 # tz_holes tz2\<rparr>
           in (makeToken InterpStringStart startPos startLine startCol tz3, tz3)
         else if hole then (makeToken InterpStringMid startPos startLine startCol tz2, tz2)
         else let tz3 = (if tz_holes tz2 \<noteq> [] then tz2\<lparr>tz_holes := tl (tz_holes tz2)\<rparr> else tz2)
              in (makeToken InterpStringEnd startPos startLine startCol tz3, tz3))"

definition lexString :: "nat \<Rightarrow> int \<Rightarrow> int \<Rightarrow> Tokenizer \<Rightarrow> LexedToken \<times> Tokenizer" where
  "lexString startPos startLine startCol tz =
     lexStringBody startPos startLine startCol True (advance tz)"

function lexCharLoop :: "Tokenizer \<Rightarrow> bool \<times> Tokenizer" where
  "lexCharLoop tz =
     (if tz_atEnd tz then (False, tz)
      else let c = peek tz 0 in
        if c = uc CHR 0x27 then (True, advance tz)
        else if c = chLF \<or> c = chCR then (False, tz)
        else if c = uc CHR 0x5C then lexCharLoop (consumeEscape tz)
        else lexCharLoop (advance tz))"
  by pat_completeness auto
termination
  by (relation "measure (\<lambda>tz. length (tz_source tz) - tz_pos tz)")
     (auto simp: tz_atEnd_def advance_pos consumeEscape_pos intro!: diff_less_mono2)

declare lexStringLoop.simps [simp del] lexCharLoop.simps [simp del]

definition lexChar :: "nat \<Rightarrow> int \<Rightarrow> int \<Rightarrow> Tokenizer \<Rightarrow> LexedToken \<times> Tokenizer" where
  "lexChar startPos startLine startCol tz =
     (let reportedBefore = length (tz_sink (advance tz));
          (closed, tz1) = lexCharLoop (advance tz);
          tz2 =
            (if \<not> closed then tzError startLine startCol startPos ''Unterminated character literal'' tz1
             else if length (tz_sink tz1) = reportedBefore then
               let literal = utf16ToUtf8 (sliceFrom tz1 startPos) in
               if characterLiteralLength literal \<noteq> 1
               then tzError startLine startCol startPos (characterLengthRefusal literal) tz1 else tz1
             else tz1)
      in (makeToken CharLiteral startPos startLine startCol tz2, tz2))"

definition consume :: "nat \<Rightarrow> int \<Rightarrow> int \<Rightarrow> Tokenizer \<Rightarrow> nat \<Rightarrow> SyntaxKind \<Rightarrow> LexedToken \<times> Tokenizer" where
  "consume startPos startLine startCol tz n k =
     (let tz1 = (advance ^^ n) tz in (makeToken k startPos startLine startCol tz1, tz1))"

definition lexOperator :: "nat \<Rightarrow> int \<Rightarrow> int \<Rightarrow> Tokenizer \<Rightarrow> LexedToken \<times> Tokenizer" where
  "lexOperator startPos startLine startCol tz =
     (let c0 = peek tz 0; c1 = peek tz 1; c2 = peek tz 2; c3 = peek tz 3;
          con = consume startPos startLine startCol tz
      in
      if c0 = uc CHR ''>'' \<and> c1 = uc CHR ''>'' \<and> c2 = uc CHR ''>'' \<and> c3 = uc CHR ''='' then con 4 GtGtGtEq else
      if c0 = uc CHR ''>'' \<and> c1 = uc CHR ''>'' \<and> c2 = uc CHR ''>'' then con 3 GtGtGt else
      if c0 = uc CHR ''>'' \<and> c1 = uc CHR ''>'' \<and> c2 = uc CHR ''='' then con 3 GtGtEq else
      if c0 = uc CHR ''<'' \<and> c1 = uc CHR ''<'' \<and> c2 = uc CHR ''='' then con 3 LtLtEq else
      if c0 = uc CHR ''.'' \<and> c1 = uc CHR ''.'' \<and> c2 = uc CHR ''.'' then con 3 Ellipsis else
      if c0 = uc CHR ''='' \<and> c1 = uc CHR ''='' then con 2 EqEq else
      if c0 = uc CHR ''!'' \<and> c1 = uc CHR ''='' then con 2 NotEq else
      if c0 = uc CHR ''<'' \<and> c1 = uc CHR ''='' then con 2 LtEq else
      if c0 = uc CHR ''>'' \<and> c1 = uc CHR ''='' then con 2 GtEq else
      if c0 = uc CHR ''-'' \<and> c1 = uc CHR ''>'' then con 2 Arrow else
      if c0 = uc CHR ''&'' \<and> c1 = uc CHR ''&'' then con 2 AmpAmp else
      if c0 = uc CHR ''|'' \<and> c1 = uc CHR ''|'' then con 2 PipePipe else
      if c0 = uc CHR ''+'' \<and> c1 = uc CHR ''+'' then con 2 PlusPlus else
      if c0 = uc CHR ''-'' \<and> c1 = uc CHR ''-'' then con 2 MinusMinus else
      if c0 = uc CHR ''<'' \<and> c1 = uc CHR ''<'' then con 2 LtLt else
      if c0 = uc CHR ''>'' \<and> c1 = uc CHR ''>'' then con 2 GtGt else
      if c0 = uc CHR ''+'' \<and> c1 = uc CHR ''='' then con 2 PlusEq else
      if c0 = uc CHR ''-'' \<and> c1 = uc CHR ''='' then con 2 MinusEq else
      if c0 = uc CHR ''*'' \<and> c1 = uc CHR ''='' then con 2 StarEq else
      if c0 = uc CHR ''/'' \<and> c1 = uc CHR ''='' then con 2 SlashEq else
      if c0 = uc CHR ''%'' \<and> c1 = uc CHR ''='' then con 2 PercentEq else
      if c0 = uc CHR ''&'' \<and> c1 = uc CHR ''='' then con 2 AmpEq else
      if c0 = uc CHR ''|'' \<and> c1 = uc CHR ''='' then con 2 PipeEq else
      if c0 = uc CHR ''^'' \<and> c1 = uc CHR ''='' then con 2 CaretEq else
      if c0 = uc CHR ''?'' \<and> c1 = uc CHR ''.'' then con 2 QuestionDot else
      if c0 = uc CHR ''('' then con 1 LParen else
      if c0 = uc CHR '')'' then con 1 RParen else
      if c0 = uc CHR ''{'' then con 1 LBrace else
      if c0 = uc CHR ''}'' then con 1 RBrace else
      if c0 = uc CHR ''['' then con 1 LBracket else
      if c0 = uc CHR '']'' then con 1 RBracket else
      if c0 = uc CHR '';'' then con 1 Semi else
      if c0 = uc CHR '','' then con 1 Comma else
      if c0 = uc CHR ''.'' then con 1 Dot else
      if c0 = uc CHR '':'' then con 1 Colon else
      if c0 = uc CHR ''+'' then con 1 Plus else
      if c0 = uc CHR ''-'' then con 1 Minus else
      if c0 = uc CHR ''*'' then con 1 Star else
      if c0 = uc CHR ''/'' then con 1 Slash else
      if c0 = uc CHR ''%'' then con 1 Percent else
      if c0 = uc CHR ''^'' then con 1 Caret else
      if c0 = uc CHR ''='' then con 1 Eq else
      if c0 = uc CHR ''!'' then con 1 Bang else
      if c0 = uc CHR ''~'' then con 1 Tilde else
      if c0 = uc CHR ''?'' then con 1 Question else
      if c0 = uc CHR ''<'' then con 1 Lt else
      if c0 = uc CHR ''>'' then con 1 Gt else
      if c0 = uc CHR ''&'' then con 1 Amp else
      if c0 = uc CHR ''|'' then con 1 Pipe else
      if c0 = uc CHR ''@'' then con 1 At else
      let tz1 = tz\<lparr>tz_sink := sinkError (tz_sink tz) (mkSpan startLine startCol 1)
                 (''Unexpected character '' @ [CHR 0x27] @
                  [if c0 < 128 then char_of (unat c0) else CHR ''?''] @ [CHR 0x27])\<rparr>;
          tz2 = advance tz1
      in (makeToken Invalid startPos startLine startCol tz2, tz2))"

section \<open>The next token\<close>

text \<open>Inside an interpolation hole, \<open>{\<close> and \<open>}\<close> adjust the brace nesting of the innermost hole.\<close>

definition trackBraces :: "char16 \<Rightarrow> Tokenizer \<Rightarrow> Tokenizer" where
  "trackBraces c tz =
     (case tz_holes tz of [] \<Rightarrow> tz
      | d # ds \<Rightarrow> if c = uc CHR ''{'' then tz\<lparr>tz_holes := (d + 1) # ds\<rparr>
                  else if c = uc CHR ''}'' then tz\<lparr>tz_holes := (d - 1) # ds\<rparr>
                  else tz)"

text \<open>The rule for the first character.\<close>

definition lexFrom :: "char16 \<Rightarrow> nat \<Rightarrow> int \<Rightarrow> int \<Rightarrow> Tokenizer \<Rightarrow> LexedToken \<times> Tokenizer" where
  "lexFrom c startPos startLine startCol tz =
     (if isBlank c then lexWhitespace startPos startLine startCol tz
      else if c = chLF \<or> c = chCR then lexNewline startPos startLine startCol tz
      else if c = uc CHR ''/'' then
        (if peek tz 1 = uc CHR ''/'' then lexLineComment startPos startLine startCol tz
         else if peek tz 1 = uc CHR ''*'' then lexBlockComment startPos startLine startCol tz
         else lexOperator startPos startLine startCol tz)
      else if isDigit c then lexNumber startPos startLine startCol tz
      else if isIdentStart c then lexIdentifierOrKeyword startPos startLine startCol tz
      else if c = uc CHR 0x22 then lexString startPos startLine startCol tz
      else if c = uc CHR 0x27 then lexChar startPos startLine startCol tz
      else lexOperator startPos startLine startCol tz)"

definition tz_next :: "Tokenizer \<Rightarrow> LexedToken \<times> Tokenizer" where
  "tz_next tz =
     (if tz_atEnd tz
      then (\<lparr>tok_kind = EndOfFile, tok_text = [], tok_offset = tz_pos tz, tok_line = tz_line tz,
             tok_column = tz_column tz\<rparr>, tz)
      else if tz_holes tz \<noteq> [] \<and> peek tz 0 = uc CHR ''}'' \<and> hd (tz_holes tz) = 0
      then lexStringBody (tz_pos tz) (tz_line tz) (tz_column tz) False (advance tz)
      else lexFrom (peek tz 0) (tz_pos tz) (tz_line tz) (tz_column tz) (trackBraces (peek tz 0) tz))"

section \<open>How a tokenizer moves\<close>

text \<open>
  Every lexing function moves the cursor only by \<open>advance\<close>, and otherwise only reports errors or
  tracks interpolation holes.
\<close>

inductive advances :: "Tokenizer \<Rightarrow> Tokenizer \<Rightarrow> bool" where
  advances_refl: "advances tz tz"
| advances_advance: "advances tz t \<Longrightarrow> advances tz (advance t)"
| advances_error: "advances tz t \<Longrightarrow> advances tz (t\<lparr>tz_sink := sinkError (tz_sink t) sp m\<rparr>)"
| advances_holes: "advances tz t \<Longrightarrow> advances tz (t\<lparr>tz_holes := hs\<rparr>)"

lemmas [tz_intros] = advances.intros

lemma advances_trans: "advances a b \<Longrightarrow> advances b c \<Longrightarrow> advances a c"
  by (rotate_tac, induction rule: advances.induct) (auto intro: advances.intros)

lemma advances_source: "advances tz t \<Longrightarrow> tz_source t = tz_source tz"
  by (induction rule: advances.induct) auto

lemma advances_pos: "advances tz t \<Longrightarrow> tz_pos tz \<le> tz_pos t"
  by (induction rule: advances.induct) (auto intro: order_trans advance_pos)

lemma advances_sink: "advances tz t \<Longrightarrow> \<exists>ds. tz_sink t = tz_sink tz @ ds \<and> (\<forall>d \<in> set ds. level d = LevelError)"
  by (induction rule: advances.induct) (auto simp: sinkError_def report_def)

lemma advances_tzError [tz_intros]: "advances tz t \<Longrightarrow> advances tz (tzError l c p m t)"
  by (simp add: tzError_def advances_error)

lemma advances_while [tz_intros]: "advances tz t \<Longrightarrow> advances tz (advanceWhile P t)"
proof (induction P t rule: advanceWhile.induct)
  case (1 P t)
  then show ?case
    by (cases "\<not> tz_atEnd t \<and> P t") (auto simp: advanceWhile.simps [of P t] advances_advance)
qed

lemma advances_funpow [tz_intros]: "advances tz t \<Longrightarrow> advances tz ((advance ^^ n) t)"
  by (induction n) (auto intro: tz_intros)

lemma advances_escape [tz_intros]: "advances tz t \<Longrightarrow> advances tz (consumeEscape t)"
  by (simp add: consumeEscape_def Let_def tz_intros)

lemma advances_stringLoop [tz_intros]: "advances tz t \<Longrightarrow> advances tz (snd (lexStringLoop t))"
proof (induction t rule: lexStringLoop.induct)
  case (1 t)
  then show ?case by (subst lexStringLoop.simps) (simp add: Let_def tz_intros)
qed

lemma advances_charLoop [tz_intros]: "advances tz t \<Longrightarrow> advances tz (snd (lexCharLoop t))"
proof (induction t rule: lexCharLoop.induct)
  case (1 t)
  then show ?case by (subst lexCharLoop.simps) (simp add: Let_def tz_intros)
qed

lemma advance_holes_update: "advance (t\<lparr>tz_holes := hs\<rparr>) = (advance t)\<lparr>tz_holes := hs\<rparr>"
  by (simp add: advance_def Let_def)

lemma advanceWhile_first:
  "\<not> tz_atEnd tz \<Longrightarrow> P tz \<Longrightarrow> advanceWhile P tz = advanceWhile P (advance tz)"
  by (subst advanceWhile.simps) simp

section \<open>What a lexing function returns\<close>

definition contextualKinds :: "SyntaxKind set" where
  "contextualKinds = {KwFrom, KwIn, KwOut, KwPrimitive, KwShared, KwTest, KwType}"

definition lexKind :: "SyntaxKind \<Rightarrow> bool" where
  "lexKind k \<longleftrightarrow> isToken k \<and> k \<noteq> EndOfFile \<and> k \<noteq> Missing \<and> k \<notin> contextualKinds"

definition OPERATOR_TABLE :: "(string \<times> SyntaxKind) list" where
  "OPERATOR_TABLE = [
    (''>>>='', GtGtGtEq),
    (''>>>'', GtGtGt),
    (''>>='', GtGtEq),
    (''<<='', LtLtEq),
    (''...'', Ellipsis),
    (''=='', EqEq),
    (''!='', NotEq),
    (''<='', LtEq),
    (''>='', GtEq),
    (''->'', Arrow),
    (''&&'', AmpAmp),
    (''||'', PipePipe),
    (''++'', PlusPlus),
    (''--'', MinusMinus),
    (''<<'', LtLt),
    (''>>'', GtGt),
    (''+='', PlusEq),
    (''-='', MinusEq),
    (''*='', StarEq),
    (''/='', SlashEq),
    (''%='', PercentEq),
    (''&='', AmpEq),
    (''|='', PipeEq),
    (''^='', CaretEq),
    (''?.'', QuestionDot),
    (''('', LParen),
    ('')'', RParen),
    (''{'', LBrace),
    (''}'', RBrace),
    (''['', LBracket),
    ('']'', RBracket),
    ('';'', Semi),
    ('','', Comma),
    (''.'', Dot),
    ('':'', Colon),
    (''+'', Plus),
    (''-'', Minus),
    (''*'', Star),
    (''/'', Slash),
    (''%'', Percent),
    (''^'', Caret),
    (''='', Eq),
    (''!'', Bang),
    (''~'', Tilde),
    (''?'', Question),
    (''<'', Lt),
    (''>'', Gt),
    (''&'', Amp),
    (''|'', Pipe),
    (''@'', At)]"

definition spelled :: "LexedToken \<Rightarrow> bool" where
  "spelled t \<longleftrightarrow> list_all (\<lambda>(s, k). tok_kind t = k \<longrightarrow> tok_text t = u16 s) OPERATOR_TABLE"

text \<open>The call started at \<open>tz\<close>, moved on by at least one \<open>advance\<close>, and returned the token between
  the two cursors.\<close>

definition lexed :: "Tokenizer \<Rightarrow> LexedToken \<times> Tokenizer \<Rightarrow> bool" where
  "lexed tz r \<longleftrightarrow> (case r of (t, tz') \<Rightarrow>
     advances (advance tz) tz' \<and> lexKind (tok_kind t) \<and> spelled t \<and>
     t = makeToken (tok_kind t) (tz_pos tz) (tz_line tz) (tz_column tz) tz')"

lemma tok_simps [simp]:
  "tok_kind (makeToken k p l c tz) = k" "tok_text (makeToken k p l c tz) = sliceFrom tz p"
  "tok_offset (makeToken k p l c tz) = p" "tok_line (makeToken k p l c tz) = l"
  "tok_column (makeToken k p l c tz) = c"
  by (simp_all add: makeToken_def)

text \<open>Kinds without a fixed spelling.\<close>

definition freeKind :: "SyntaxKind \<Rightarrow> bool" where
  "freeKind k \<longleftrightarrow> lexKind k \<and> list_all (\<lambda>(s, k'). k \<noteq> k') OPERATOR_TABLE"

lemma freeKind_spelled: "freeKind (tok_kind t) \<Longrightarrow> spelled t"
  by (auto simp: freeKind_def spelled_def list_all_iff)

lemma lexedI:
  "advances (advance tz) tz' \<Longrightarrow> freeKind k \<Longrightarrow>
     lexed tz (makeToken k (tz_pos tz) (tz_line tz) (tz_column tz) tz', tz')"
  by (simp add: lexed_def freeKind_spelled) (simp add: freeKind_def)

lemma freeKinds [simp]:
  "freeKind Whitespace" "freeKind Newline" "freeKind LineComment" "freeKind BlockComment"
  "freeKind IntLiteral" "freeKind LongLiteral" "freeKind FloatLiteral" "freeKind DoubleLiteral"
  "freeKind StringLiteral" "freeKind CharLiteral" "freeKind InterpStringStart"
  "freeKind InterpStringMid" "freeKind InterpStringEnd" "freeKind Invalid" "freeKind Identifier"
  by (code_simp)+

lemma freeKind_keywords: "list_all (\<lambda>(s, k). freeKind k) KEYWORD_TABLE"
  by code_simp

lemma freeKind_keyword: "freeKind (keywordKindFromText t)"
  using keywordKindFromText_kinds [of t] freeKind_keywords by (auto simp: list_all_iff)

lemma lexWhitespace_lexed:
  "\<not> tz_atEnd tz \<Longrightarrow> isBlank (peek tz 0) \<Longrightarrow>
     lexed tz (lexWhitespace (tz_pos tz) (tz_line tz) (tz_column tz) tz)"
  by (simp add: lexWhitespace_def Let_def advanceWhile_first lexedI tz_intros)

lemma lexNewline_lexed: "lexed tz (lexNewline (tz_pos tz) (tz_line tz) (tz_column tz) tz)"
  by (simp add: lexNewline_def Let_def lexedI tz_intros)

lemma lexLineComment_lexed: "lexed tz (lexLineComment (tz_pos tz) (tz_line tz) (tz_column tz) tz)"
  by (simp add: lexLineComment_def Let_def lexedI tz_intros)

lemma lexBlockComment_lexed: "lexed tz (lexBlockComment (tz_pos tz) (tz_line tz) (tz_column tz) tz)"
  by (simp add: lexBlockComment_def Let_def lexedI tz_intros)

lemma lexIdentifierOrKeyword_lexed:
  "\<not> tz_atEnd tz \<Longrightarrow> isIdentStart (peek tz 0) \<Longrightarrow>
     lexed tz (lexIdentifierOrKeyword (tz_pos tz) (tz_line tz) (tz_column tz) tz)"
  by (simp add: lexIdentifierOrKeyword_def Let_def advanceWhile_first isIdentContinue_def lexedI
      freeKind_keyword tz_intros)

lemma advances_digits:
  assumes "\<not> tz_atEnd tz" and "isDigit (peek tz 0)"
  shows "advances (advance tz) (snd (lexDigits p l c tz))"
  using assms
  by (auto simp: lexDigits_def Let_def advanceWhile_first tz_intros split: prod.splits if_splits)

lemma lexNumber_lexed:
  assumes "\<not> tz_atEnd tz" and "isDigit (peek tz 0)"
  shows "lexed tz (lexNumber (tz_pos tz) (tz_line tz) (tz_column tz) tz)"
  using advances_digits [OF assms, of "tz_pos tz" "tz_line tz" "tz_column tz"]
  by (auto simp: lexNumber_def Let_def lexedI tz_intros split: prod.splits if_splits)

lemma lexStringBody_lexed:
  "lexed tz (lexStringBody (tz_pos tz) (tz_line tz) (tz_column tz) b (advance tz))"
proof -
  obtain e t where L: "lexStringLoop (advance tz) = (e, t)" by force
  with advances_stringLoop [OF advances_refl, of "advance tz"] have "advances (advance tz) t" by simp
  with L show ?thesis
    by (auto simp: lexStringBody_def Let_def lexedI tz_intros split: prod.splits)
qed

lemma lexString_lexed: "lexed tz (lexString (tz_pos tz) (tz_line tz) (tz_column tz) tz)"
  by (simp add: lexString_def lexStringBody_lexed)

lemma lexChar_lexed: "lexed tz (lexChar (tz_pos tz) (tz_line tz) (tz_column tz) tz)"
proof -
  obtain e t where L: "lexCharLoop (advance tz) = (e, t)" by force
  with advances_charLoop [OF advances_refl, of "advance tz"] have "advances (advance tz) t" by simp
  with L show ?thesis
    by (auto simp: lexChar_def Let_def lexedI tz_intros split: prod.splits)
qed

section \<open>Operators\<close>

definition startsWith :: "Tokenizer \<Rightarrow> string \<Rightarrow> bool" where
  "startsWith tz s = (map (peek tz) [0..<length s] = u16 s)"

text \<open>The reference: the first entry of the table that the rest of the source starts with.\<close>

fun operatorLookup :: "(string \<times> SyntaxKind) list \<Rightarrow> Tokenizer \<Rightarrow> (string \<times> SyntaxKind) option" where
  "operatorLookup [] tz = None"
| "operatorLookup ((s, k) # table) tz =
     (if startsWith tz s then Some (s, k) else operatorLookup table tz)"

definition unexpectedCharacter :: "nat \<Rightarrow> int \<Rightarrow> int \<Rightarrow> Tokenizer \<Rightarrow> LexedToken \<times> Tokenizer" where
  "unexpectedCharacter p l c tz =
     (let tz1 = advance (tz\<lparr>tz_sink := sinkError (tz_sink tz) (mkSpan l c 1)
        (''Unexpected character '' @ [CHR 0x27] @
         [if peek tz 0 < 128 then char_of (unat (peek tz 0)) else CHR ''?''] @ [CHR 0x27])\<rparr>)
      in (makeToken Invalid p l c tz1, tz1))"

fun operatorChoice :: "(string \<times> SyntaxKind) list \<Rightarrow> nat \<Rightarrow> int \<Rightarrow> int \<Rightarrow> Tokenizer \<Rightarrow> LexedToken \<times> Tokenizer" where
  "operatorChoice [] p l c tz = unexpectedCharacter p l c tz"
| "operatorChoice ((s, k) # table) p l c tz =
     (if startsWith tz s then consume p l c tz (length s) k else operatorChoice table p l c tz)"

lemma operatorChoice_lookup:
  "operatorChoice table p l c tz =
     (case operatorLookup table tz of Some (s, k) \<Rightarrow> consume p l c tz (length s) k
      | None \<Rightarrow> unexpectedCharacter p l c tz)"
  by (induction table tz rule: operatorLookup.induct) auto

lemma startsWith_simps:
  "startsWith tz [a] \<longleftrightarrow> peek tz 0 = uc a"
  "startsWith tz [a, b] \<longleftrightarrow> peek tz 0 = uc a \<and> peek tz 1 = uc b"
  "startsWith tz [a, b, d] \<longleftrightarrow> peek tz 0 = uc a \<and> peek tz 1 = uc b \<and> peek tz 2 = uc d"
  "startsWith tz [a, b, d, e] \<longleftrightarrow>
     peek tz 0 = uc a \<and> peek tz 1 = uc b \<and> peek tz 2 = uc d \<and> peek tz 3 = uc e"
  by (auto simp: startsWith_def u16_def upt_rec numeral_2_eq_2 numeral_3_eq_3)

lemma short_lengths:
  "length [a] = 1" "length [a, b] = 2" "length [a, b, d] = 3" "length [a, b, d, e] = 4"
  by simp_all

lemma lexOperator_table: "lexOperator p l c tz = operatorChoice OPERATOR_TABLE p l c tz"
  unfolding lexOperator_def OPERATOR_TABLE_def Let_def operatorChoice.simps startsWith_simps
    unexpectedCharacter_def conj_assoc short_lengths by (rule refl)

text \<open>Spellings come longest first, and hold neither line ends nor the zero that \<open>peek\<close> answers past
  the end.\<close>

definition plainChar :: "char \<Rightarrow> bool" where
  "plainChar a \<longleftrightarrow> uc a \<noteq> chLF \<and> uc a \<noteq> chCR \<and> uc a \<noteq> 0"

lemma OPERATOR_TABLE_plain: "list_all (\<lambda>(s, k). s \<noteq> [] \<and> list_all plainChar s) OPERATOR_TABLE"
  by code_simp

lemma OPERATOR_TABLE_sorted: "sorted_wrt (\<lambda>(s, k) (s', k'). length s \<ge> length s') OPERATOR_TABLE"
  by code_simp

lemma OPERATOR_TABLE_kinds: "list_all (\<lambda>(s, k). lexKind k) OPERATOR_TABLE"
  by code_simp

lemma OPERATOR_TABLE_distinct: "distinct (map snd OPERATOR_TABLE)"
  by code_simp

lemma operatorLookup_Some:
  assumes "operatorLookup table tz = Some (s, k)"
    and "sorted_wrt (\<lambda>(s, k) (s', k'). length s \<ge> length s') table"
  shows "(s, k) \<in> set table \<and> startsWith tz s \<and>
    (\<forall>(s', k') \<in> set table. startsWith tz s' \<longrightarrow> length s' \<le> length s)"
  using assms by (induction table tz rule: operatorLookup.induct) (force split: if_splits)+

lemma operatorLookup_None:
  "operatorLookup table tz = None \<longleftrightarrow> (\<forall>(s, k) \<in> set table. \<not> startsWith tz s)"
  by (induction table tz rule: operatorLookup.induct) auto

lemma peek_nonzero: "peek tz i = c \<Longrightarrow> c \<noteq> 0 \<Longrightarrow> tz_pos tz + i < length (tz_source tz) \<and> tz_source tz ! (tz_pos tz + i) = c"
  by (simp add: peek_def Let_def split: if_splits)

lemma advance_plain:
  assumes "peek tz 0 = c" and "c \<noteq> 0" and "c \<noteq> chLF" and "c \<noteq> chCR"
  shows "tz_pos (advance tz) = tz_pos tz + 1"
  using assms peek_nonzero [OF assms(1,2)] by (simp add: advance_def Let_def)

lemma advance_plain_run:
  assumes "startsWith tz s" and "list_all plainChar s" and "n \<le> length s"
  shows "tz_pos ((advance ^^ n) tz) = tz_pos tz + n \<and> tz_source ((advance ^^ n) tz) = tz_source tz"
  using assms(3)
proof (induction n)
  case (Suc n)
  from assms(1) Suc.prems have "peek tz n = uc (s ! n)"
    by (metis (no_types, lifting) Suc_le_lessD add_0 length_map map_nth nth_map nth_upt startsWith_def u16_def)
  moreover have "plainChar (s ! n)" using assms(2) Suc.prems by (simp add: list_all_length)
  ultimately have "tz_pos (advance ((advance ^^ n) tz)) = tz_pos ((advance ^^ n) tz) + 1"
    using Suc by (intro advance_plain [where c = "uc (s ! n)"])
      (auto simp: peek_def Let_def plainChar_def split: if_splits)
  with Suc show ?case by simp
qed simp

lemma startsWith_prefix:
  assumes "list_all plainChar s"
  shows "startsWith tz s \<longleftrightarrow> take (length s) (drop (tz_pos tz) (tz_source tz)) = u16 s"
proof
  assume *: "startsWith tz s"
  have nth: "tz_pos tz + i < length (tz_source tz) \<and> tz_source tz ! (tz_pos tz + i) = uc (s ! i)"
    if "i < length s" for i
  proof -
    from * that have "peek tz i = uc (s ! i)"
      by (metis (no_types, lifting) add_0 length_map map_nth nth_map nth_upt startsWith_def u16_def)
    moreover have "uc (s ! i) \<noteq> 0" using assms that by (simp add: list_all_length plainChar_def)
    ultimately show ?thesis by (rule peek_nonzero)
  qed
  have "length s \<le> length (tz_source tz) - tz_pos tz" using nth [of "length s - 1"] by (cases s) auto
  then show "take (length s) (drop (tz_pos tz) (tz_source tz)) = u16 s"
    by (intro nth_equalityI) (auto simp: u16_def nth)
next
  assume *: "take (length s) (drop (tz_pos tz) (tz_source tz)) = u16 s"
  then have "length s \<le> length (tz_source tz) - tz_pos tz"
    by (metis length_drop length_map length_take min.cobounded1 min_def u16_def)
  moreover from this have "tz_source tz ! (tz_pos tz + i) = uc (s ! i)" if "i < length s" for i
    using arg_cong [OF *, of "\<lambda>xs. xs ! i"] that by (simp add: u16_def)
  ultimately show "startsWith tz s"
    by (auto simp: startsWith_def u16_def peek_def Let_def intro!: nth_equalityI)
qed

lemma consume_spelled:
  assumes "startsWith tz s" and "list_all plainChar s"
  shows "tok_text (fst (consume (tz_pos tz) l c tz (length s) k)) = u16 s"
  using advance_plain_run [OF assms le_refl] assms startsWith_prefix [OF assms(2), of tz]
  by (simp add: consume_def Let_def sliceFrom_def)

lemma advance_funpow_Suc: "(advance ^^ Suc n) tz = (advance ^^ n) (advance tz)"
  by (simp add: funpow_swap1)

lemma consume_lexed:
  assumes "(s, k) \<in> set OPERATOR_TABLE" and "startsWith tz s"
  shows "lexed tz (consume (tz_pos tz) (tz_line tz) (tz_column tz) tz (length s) k)"
proof -
  let ?r = "consume (tz_pos tz) (tz_line tz) (tz_column tz) tz (length s) k"
  from assms(1) OPERATOR_TABLE_plain have s: "s \<noteq> []" "list_all plainChar s"
    by (auto simp: list_all_iff)
  have "tok_text (fst ?r) = u16 s'" if "(s', k) \<in> set OPERATOR_TABLE" for s'
  proof -
    have "inj_on snd (set OPERATOR_TABLE)" using OPERATOR_TABLE_distinct by (simp add: distinct_map)
    from inj_onD [OF this _ that assms(1)] have "s' = s" by simp
    then show ?thesis using consume_spelled [OF assms(2) s(2)] by simp
  qed
  then have "spelled (fst ?r)"
    by (auto simp: spelled_def list_all_iff consume_def Let_def)
  moreover have "advances (advance tz) ((advance ^^ length s) tz)"
    using s(1) by (cases "length s") (simp_all del: funpow.simps add: advance_funpow_Suc tz_intros)
  moreover have "lexKind k" using assms(1) OPERATOR_TABLE_kinds by (auto simp: list_all_iff)
  ultimately show ?thesis by (simp add: lexed_def consume_def Let_def)
qed

lemma unexpectedCharacter_lexed:
  "lexed tz (unexpectedCharacter (tz_pos tz) (tz_line tz) (tz_column tz) tz)"
proof -
  have "advance (tz\<lparr>tz_sink := x\<rparr>) = (advance tz)\<lparr>tz_sink := x\<rparr>" for x
    by (simp add: advance_def Let_def)
  moreover have "advances (advance tz) ((advance tz)\<lparr>tz_sink := sinkError (tz_sink (advance tz)) sp m\<rparr>)" for sp m
    by (intro tz_intros)
  ultimately show ?thesis by (simp add: unexpectedCharacter_def Let_def lexedI)
qed

lemma lexOperator_lexed: "lexed tz (lexOperator (tz_pos tz) (tz_line tz) (tz_column tz) tz)"
proof (cases "operatorLookup OPERATOR_TABLE tz")
  case None
  then show ?thesis by (simp add: lexOperator_table operatorChoice_lookup unexpectedCharacter_lexed)
next
  case (Some e)
  moreover obtain s k where "e = (s, k)" by force
  ultimately show ?thesis using operatorLookup_Some [OF _ OPERATOR_TABLE_sorted]
    by (simp add: lexOperator_table operatorChoice_lookup consume_lexed)
qed

text \<open>At an operator or any other character no other rule takes, \<open>lexOperator\<close> returns the
  longest operator spelling the rest of the source starts with, under that operator's kind; when
  there is none it returns an \<open>Invalid\<close> token and reports exactly one error at its position.\<close>

theorem lexOperator_longest_match:
  assumes "lexOperator (tz_pos tz) l c tz = (t, tz')"
  shows "(\<exists>(s, k) \<in> set OPERATOR_TABLE. tok_kind t = k \<and> tok_text t = u16 s \<and> startsWith tz s \<and>
            (\<forall>(s', k') \<in> set OPERATOR_TABLE. startsWith tz s' \<longrightarrow> length s' \<le> length s) \<and>
            tz_sink tz' = tz_sink tz) \<or>
         ((\<forall>(s, k) \<in> set OPERATOR_TABLE. \<not> startsWith tz s) \<and> tok_kind t = Invalid \<and>
            (\<exists>msg. tz_sink tz' = sinkError (tz_sink tz) (mkSpan l c 1) msg))"
proof (cases "operatorLookup OPERATOR_TABLE tz")
  case None
  with assms show ?thesis
    by (auto simp: lexOperator_table operatorChoice_lookup unexpectedCharacter_def Let_def
        operatorLookup_None)
next
  case (Some e)
  obtain s k where e: "e = (s, k)" by force
  with operatorLookup_Some [OF _ OPERATOR_TABLE_sorted] Some
  have sk: "(s, k) \<in> set OPERATOR_TABLE" "startsWith tz s"
    "\<forall>(s', k') \<in> set OPERATOR_TABLE. startsWith tz s' \<longrightarrow> length s' \<le> length s" by blast+
  have t: "(t, tz') = consume (tz_pos tz) l c tz (length s) k"
    using assms Some e by (simp add: lexOperator_table operatorChoice_lookup)
  have "list_all plainChar s" using sk(1) OPERATOR_TABLE_plain by (auto simp: list_all_iff)
  with t sk(2) consume_spelled have "tok_text t = u16 s" by (metis fst_conv)
  moreover have "tz_sink ((advance ^^ n) tz) = tz_sink tz" for n by (induction n) auto
  with t have "tok_kind t = k" "tz_sink tz' = tz_sink tz" by (simp_all add: consume_def Let_def)
  ultimately show ?thesis using sk by blast
qed

theorem lexOperator_longest_match_witness:
  "\<exists>t tz'. lexOperator 0 1 1 (mkTokenizer (u16 ''>>=1'') []) = (t, tz') \<and> tok_kind t = GtGtEq \<and>
     tok_text t = u16 ''>>=''"
proof -
  obtain t tz' where r: "lexOperator 0 1 1 (mkTokenizer (u16 ''>>=1'') []) = (t, tz')" by force
  have k: "tok_kind t = GtGtEq"
    using r by (auto simp: lexOperator_def mkTokenizer_def peek_def Let_def u16_def consume_def)
  have *: "list_all (\<lambda>(s, k). k = GtGtEq \<longrightarrow> s = ''>>='') OPERATOR_TABLE"
    by code_simp
  show ?thesis
    using lexOperator_longest_match [of "mkTokenizer (u16 ''>>=1'') []" 1 1 t tz'] r k *
    by (auto simp: mkTokenizer_def list_all_iff)
qed

section \<open>The next token\<close>

lemma lexed_holes:
  assumes "lexed (tz\<lparr>tz_holes := hs\<rparr>) r"
  shows "lexed tz r"
proof -
  obtain t tz' where r: "r = (t, tz')" by force
  have "advances (advance tz) (advance (tz\<lparr>tz_holes := hs\<rparr>))"
    unfolding advance_holes_update by (intro tz_intros)
  with assms show ?thesis by (auto simp: lexed_def r intro: advances_trans)
qed

lemma lexFrom_lexed:
  assumes "\<not> tz_atEnd tz" and "c = peek tz 0"
  shows "lexed tz (lexFrom c (tz_pos tz) (tz_line tz) (tz_column tz) tz)"
  using assms lexWhitespace_lexed lexNewline_lexed lexLineComment_lexed lexBlockComment_lexed
    lexOperator_lexed lexNumber_lexed lexIdentifierOrKeyword_lexed lexString_lexed lexChar_lexed
  by (simp add: lexFrom_def)

lemma trackBraces_holes: "\<exists>hs. trackBraces c tz = tz\<lparr>tz_holes := hs\<rparr>"
proof -
  have "\<exists>hs. tz = tz\<lparr>tz_holes := hs\<rparr>" by (rule exI [of _ "tz_holes tz"]) simp
  then show ?thesis by (auto simp: trackBraces_def split: list.splits)
qed

lemma tz_next_lexed: "\<not> tz_atEnd tz \<Longrightarrow> lexed tz (tz_next tz)"
proof -
  assume e: "\<not> tz_atEnd tz"
  obtain hs where hs: "trackBraces (peek tz 0) tz = tz\<lparr>tz_holes := hs\<rparr>" (is "_ = ?tz'")
    using trackBraces_holes by blast
  have "\<not> tz_atEnd ?tz'" "peek tz 0 = peek ?tz' 0"
    using e by (simp_all add: tz_atEnd_def peek_def Let_def)
  from lexed_holes [OF lexFrom_lexed [OF this]] show ?thesis
    using e lexStringBody_lexed [of tz False] by (simp add: tz_next_def hs)
qed

lemma tz_next_end: "tz_atEnd tz \<Longrightarrow> tz_next tz = (\<lparr>tok_kind = EndOfFile, tok_text = [],
    tok_offset = tz_pos tz, tok_line = tz_line tz, tok_column = tz_column tz\<rparr>, tz)"
  by (simp add: tz_next_def)

lemma tz_next_progress:
  assumes "tz_next tz = (t, tz')" and "\<not> tz_atEnd tz"
  shows "tz_pos tz < tz_pos tz'" and "tz_source tz' = tz_source tz" and "tok_kind t \<noteq> EndOfFile"
proof -
  have l: "lexed tz (t, tz')" using tz_next_lexed [OF assms(2)] assms(1) by simp
  then have "advances (advance tz) tz'" by (simp add: lexed_def)
  from advances_pos [OF this] advance_pos(1) [OF assms(2)] advances_source [OF this] l
  show "tz_pos tz < tz_pos tz'" "tz_source tz' = tz_source tz" "tok_kind t \<noteq> EndOfFile"
    by (simp_all add: lexed_def lexKind_def)
qed

text \<open>The constructor of the parser calls \<open>next\<close> until the end of the file, keeping every token.\<close>

function tokenizeLoop :: "Tokenizer \<Rightarrow> LexedToken list \<times> DiagnosticSink" where
  "tokenizeLoop tz =
     (case tz_next tz of (t, tz') \<Rightarrow>
        if tok_kind t = EndOfFile then ([t], tz_sink tz')
        else case tokenizeLoop tz' of (ts, s) \<Rightarrow> (t # ts, s))"
  by pat_completeness auto
termination
proof (relation "measure (\<lambda>tz. length (tz_source tz) - tz_pos tz)", goal_cases)
  case (2 tz t tz')
  then have n: "tz_next tz = (t, tz')" by simp
  with 2 have e: "\<not> tz_atEnd tz" by (auto simp: tz_next_end)
  with tz_next_progress [OF n e] show ?case by (auto simp: tz_atEnd_def intro: diff_less_mono2)
qed simp

declare tokenizeLoop.simps [simp del]

definition tokenize :: "u16string \<Rightarrow> DiagnosticSink \<Rightarrow> LexedToken list \<times> DiagnosticSink" where
  "tokenize src s = tokenizeLoop (mkTokenizer src s)"

section \<open>A source of tokens\<close>

text \<open>
  What the parser relies on: \<open>next\<close> cuts a non-empty piece off the rest of the source, and answers
  the end of the file exactly when nothing is left.
\<close>

locale token_source =
  fixes nxt :: "'s \<Rightarrow> LexedToken \<times> 's"
    and rest :: "'s \<Rightarrow> u16string"
    and offset :: "'s \<Rightarrow> nat"
    and good :: "LexedToken \<Rightarrow> bool"
  assumes nxt_end: "nxt s = (t, s') \<Longrightarrow> rest s = [] \<Longrightarrow>
      tok_kind t = EndOfFile \<and> tok_text t = [] \<and> tok_offset t = offset s"
    and nxt_more: "nxt s = (t, s') \<Longrightarrow> rest s \<noteq> [] \<Longrightarrow>
      tok_kind t \<noteq> EndOfFile \<and> good t \<and> tok_text t \<noteq> [] \<and> tok_offset t = offset s \<and>
      rest s = tok_text t @ rest s' \<and> offset s' = offset s + length (tok_text t)"
begin

inductive delivers :: "'s \<Rightarrow> LexedToken list \<Rightarrow> bool" where
  delivers_last: "nxt s = (t, s') \<Longrightarrow> tok_kind t = EndOfFile \<Longrightarrow> delivers s [t]"
| delivers_more: "nxt s = (t, s') \<Longrightarrow> tok_kind t \<noteq> EndOfFile \<Longrightarrow> delivers s' ts \<Longrightarrow> delivers s (t # ts)"

lemma delivers_rest:
  "delivers s ts \<Longrightarrow> concat (map tok_text ts) = rest s"
proof (induction rule: delivers.induct)
  case (delivers_last s t s')
  then show ?case using nxt_end nxt_more by (cases "rest s = []") fastforce+
next
  case (delivers_more s t s' ts)
  then show ?case using nxt_end nxt_more by (cases "rest s = []") fastforce+
qed

lemma delivers_split:
  "delivers s ts \<Longrightarrow> \<exists>us e. ts = us @ [e] \<and> tok_kind e = EndOfFile \<and> tok_text e = [] \<and>
     list_all (\<lambda>t. tok_kind t \<noteq> EndOfFile \<and> good t \<and> tok_text t \<noteq> []) us"
proof (induction rule: delivers.induct)
  case (delivers_last s t s')
  then have "tok_text t = []" using nxt_end nxt_more by (cases "rest s = []") fastforce+
  with delivers_last show ?case by (intro exI [of _ "[]"]) simp
next
  case (delivers_more s t s' ts)
  then obtain us e where "ts = us @ [e]" "tok_kind e = EndOfFile" "tok_text e = []"
    "list_all (\<lambda>t. tok_kind t \<noteq> EndOfFile \<and> good t \<and> tok_text t \<noteq> []) us" by blast
  moreover have "good t \<and> tok_text t \<noteq> []"
    using delivers_more nxt_end nxt_more by (cases "rest s = []") fastforce+
  ultimately show ?case using delivers_more(2) by (intro exI [of _ "t # us"]) simp
qed

lemma delivers_offsets:
  "delivers s ts \<Longrightarrow> i < length ts \<Longrightarrow>
     tok_offset (ts ! i) = offset s + length (concat (map tok_text (take i ts)))"
proof (induction arbitrary: i rule: delivers.induct)
  case (delivers_last s t s')
  then show ?case using nxt_end nxt_more by (cases "rest s = []") fastforce+
next
  case (delivers_more s t s' ts)
  then have "tok_offset t = offset s \<and> offset s' = offset s + length (tok_text t)"
    using nxt_end nxt_more by (cases "rest s = []") fastforce+
  with delivers_more show ?case by (cases i) auto
qed

end

lemma lexed_slice:
  assumes "lexed tz (t, tz')" and "tz_pos tz' \<le> length (tz_source tz')"
  shows "drop (tz_pos tz) (tz_source tz) = tok_text t @ drop (tz_pos tz') (tz_source tz')"
proof -
  have a: "advances (advance tz) tz'" and t: "tok_text t = sliceFrom tz' (tz_pos tz)"
    using assms by (auto simp: lexed_def) (metis tok_simps(2))
  have "tz_pos tz \<le> tz_pos tz'" using advances_pos [OF a] advance_pos(2) [of tz] by simp
  then show ?thesis
    using advances_source [OF a] assms(2) by (simp add: t sliceFrom_def drop_slice_append)
qed

lemma advance_in_range: "tz_pos tz \<le> length (tz_source tz) \<Longrightarrow> tz_pos (advance tz) \<le> length (tz_source tz)"
  by (simp add: advance_def Let_def)

lemma advances_in_range:
  "advances tz t \<Longrightarrow> tz_pos tz \<le> length (tz_source tz) \<Longrightarrow> tz_pos t \<le> length (tz_source tz)"
proof (induction rule: advances.induct)
  case (advances_advance tz t)
  then show ?case using advance_in_range [of t] advances_source [of tz t] by simp
qed simp_all

definition tz_rest :: "Tokenizer \<Rightarrow> u16string" where
  "tz_rest tz = drop (tz_pos tz) (tz_source tz)"

definition goodToken :: "LexedToken \<Rightarrow> bool" where
  "goodToken t \<longleftrightarrow> lexKind (tok_kind t) \<and> spelled t"

interpretation lexer: token_source tz_next tz_rest tz_pos goodToken
proof
  fix s t s'
  assume n: "tz_next s = (t, s')"
  show "tok_kind t = EndOfFile \<and> tok_text t = [] \<and> tok_offset t = tz_pos s" if "tz_rest s = []"
    using that n tz_next_end [of s] by (auto simp: tz_rest_def tz_atEnd_def)
  assume "tz_rest s \<noteq> []"
  then have e: "\<not> tz_atEnd s" by (simp add: tz_rest_def tz_atEnd_def)
  then have l: "lexed s (t, s')" using tz_next_lexed [of s] n by simp
  then have a: "advances (advance s) s'" by (simp add: lexed_def)
  have r: "tz_pos s' \<le> length (tz_source s')"
    using advances_in_range [OF a] advance_in_range [of s] e advances_source [OF a]
    by (simp add: tz_atEnd_def)
  note p = tz_next_progress [OF n e]
  have s: "tz_rest s = tok_text t @ tz_rest s'" using lexed_slice [OF l r] by (simp add: tz_rest_def)
  from arg_cong [OF this, of length] p r have len: "length (tok_text t) = tz_pos s' - tz_pos s"
    by (simp add: tz_rest_def)
  with p(1) have "tok_text t \<noteq> []" by auto
  with l p s len show "tok_kind t \<noteq> EndOfFile \<and> goodToken t \<and> tok_text t \<noteq> [] \<and> tok_offset t = tz_pos s \<and>
      tz_rest s = tok_text t @ tz_rest s' \<and> tz_pos s' = tz_pos s + length (tok_text t)"
    by (auto simp: lexed_def goodToken_def) (metis tok_simps(3))
qed

lemma tokenizeLoop_delivers: "lexer.delivers tz (fst (tokenizeLoop tz))"
proof (induction tz rule: tokenizeLoop.induct)
  case (1 tz)
  obtain t tz' where n: "tz_next tz = (t, tz')" by force
  show ?case
    using "1.IH" [OF n [symmetric]] n
    by (subst tokenizeLoop.simps)
      (auto split: prod.splits intro: lexer.delivers_last lexer.delivers_more)
qed

lemma tokenize_delivers: "lexer.delivers (mkTokenizer src s) (fst (tokenize src s))"
  by (simp add: tokenize_def tokenizeLoop_delivers)

lemma mkTokenizer_rest: "tz_rest (mkTokenizer src s) = src" "tz_pos (mkTokenizer src s) = 0"
  by (simp_all add: tz_rest_def mkTokenizer_def)

text \<open>C19: tokenizing any source ends; the texts of the tokens concatenate to exactly the source,
  and every token's offset is where its text starts in it.\<close>

theorem tokenize_lossless:
  "concat (map tok_text (fst (tokenize src s))) = src \<and>
   list_all (\<lambda>i. tok_offset (fst (tokenize src s) ! i) =
       length (concat (map tok_text (take i (fst (tokenize src s))))))
     [0..<length (fst (tokenize src s))]"
  using lexer.delivers_rest [OF tokenize_delivers, of src s]
    lexer.delivers_offsets [OF tokenize_delivers, of _ src s]
  by (simp add: mkTokenizer_rest list_all_iff)

lemma tokenize_split:
  "\<exists>us e. fst (tokenize src s) = us @ [e] \<and> tok_kind e = EndOfFile \<and> tok_text e = [] \<and>
     list_all (\<lambda>t. tok_kind t \<noteq> EndOfFile \<and> goodToken t \<and> tok_text t \<noteq> []) us"
  by (rule lexer.delivers_split [OF tokenize_delivers])

text \<open>C20: the token list is never empty; exactly its last token is the end of the file; every
  other token is non-empty, has a token kind that is neither \<open>Missing\<close> nor a contextual keyword
  (those are identifiers until the parser says otherwise), and an operator token is spelled as
  its kind says.\<close>

theorem tokenize_shape:
  "\<exists>us e. fst (tokenize src s) = us @ [e] \<and> tok_kind e = EndOfFile \<and> tok_text e = [] \<and>
     list_all (\<lambda>t. tok_text t \<noteq> [] \<and> isToken (tok_kind t) \<and> tok_kind t \<noteq> EndOfFile \<and>
       tok_kind t \<noteq> Missing \<and>
       tok_kind t \<notin> {KwFrom, KwIn, KwOut, KwPrimitive, KwShared, KwTest, KwType} \<and> spelled t) us"
proof -
  from tokenize_split [of src s] obtain us e where "fst (tokenize src s) = us @ [e]"
    "tok_kind e = EndOfFile" "tok_text e = []"
    "list_all (\<lambda>t. tok_kind t \<noteq> EndOfFile \<and> goodToken t \<and> tok_text t \<noteq> []) us" by blast
  then show ?thesis
    by (intro exI [of _ us] exI [of _ e])
      (simp add: list_all_iff goodToken_def lexKind_def contextualKinds_def)
qed

section \<open>Line and column\<close>

text \<open>
  The reference for positions: one left-to-right scan in which a line feed, a carriage return, and a
  carriage return with the line feed after it each end one line.
\<close>

definition stepPosition :: "char16 \<Rightarrow> int \<times> int \<Rightarrow> int \<times> int" where
  "stepPosition c p = (if c = chLF \<or> c = chCR then (fst p + 1, 1) else (fst p, snd p + 1))"

fun scanPosition :: "u16string \<Rightarrow> int \<times> int \<Rightarrow> int \<times> int" where
  "scanPosition [] p = p"
| "scanPosition [c] p = stepPosition c p"
| "scanPosition (c # d # cs) p =
     (if c = chCR \<and> d = chLF then scanPosition cs (fst p + 1, 1)
      else scanPosition (d # cs) (stepPosition c p))"

definition midCrLf :: "u16string \<Rightarrow> nat \<Rightarrow> bool" where
  "midCrLf src n \<longleftrightarrow> 0 < n \<and> n < length src \<and> src ! (n - 1) = chCR \<and> src ! n = chLF"

definition positioned :: "Tokenizer \<Rightarrow> bool" where
  "positioned tz \<longleftrightarrow> tz_pos tz \<le> length (tz_source tz) \<and> \<not> midCrLf (tz_source tz) (tz_pos tz) \<and>
     (tz_line tz, tz_column tz) = scanPosition (take (tz_pos tz) (tz_source tz)) (1, 1)"

lemma scanPosition_append:
  "\<not> (a \<noteq> [] \<and> last a = chCR \<and> b \<noteq> [] \<and> hd b = chLF) \<Longrightarrow>
     scanPosition (a @ b) p = scanPosition b (scanPosition a p)"
proof (induction a p rule: scanPosition.induct)
  case (2 c p)
  then show ?case by (cases b) auto
next
  case (3 c d cs p)
  then show ?case by (cases cs) auto
qed simp

lemma advance_positioned:
  assumes "positioned tz"
  shows "positioned (advance tz)"
proof (cases "tz_pos tz < length (tz_source tz)")
  case False
  with assms show ?thesis by (simp add: advance_def)
next
  case True
  let ?s = "tz_source tz" and ?p = "tz_pos tz"
  let ?a = "take ?p ?s" and ?c = "?s ! ?p"
  have last: "?a \<noteq> [] \<Longrightarrow> last ?a = ?s ! (?p - 1)" using True by (simp add: last_conv_nth)
  with assms True have ok: "\<not> (?a \<noteq> [] \<and> last ?a = chCR \<and> ?c = chLF)"
    by (auto simp: positioned_def midCrLf_def)
  have one: "take (Suc ?p) ?s = ?a @ [?c]" using True by (rule take_Suc_nth)
  have p: "(tz_line tz, tz_column tz) = scanPosition ?a (1, 1)" using assms by (simp add: positioned_def)
  show ?thesis
  proof (cases "?c = chCR \<and> Suc ?p < length ?s \<and> ?s ! Suc ?p = chLF")
    case two: True
    have "take (Suc (Suc ?p)) ?s = ?a @ [chCR, chLF]"
      using two one take_Suc_nth [of "Suc ?p" ?s] by simp
    moreover have "scanPosition (?a @ [chCR, chLF]) (1, 1) = (tz_line tz + 1, 1)"
      using ok p by (subst scanPosition_append) (auto simp: stepPosition_def simp flip: p)
    ultimately show ?thesis using two True
      by (simp add: positioned_def advance_def midCrLf_def Let_def)
  next
    case False
    have "scanPosition (?a @ [?c]) (1, 1) =
        (if ?c = chLF \<or> ?c = chCR then (tz_line tz + 1, 1) else (tz_line tz, tz_column tz + 1))"
      using ok by (subst scanPosition_append) (auto simp: stepPosition_def simp flip: p)
    with one True False show ?thesis
      by (auto simp: positioned_def advance_def midCrLf_def Let_def)
  qed
qed

lemma advances_positioned: "advances tz t \<Longrightarrow> positioned tz \<Longrightarrow> positioned t"
proof (induction rule: advances.induct)
  case (advances_advance tz t)
  then show ?case by (simp add: advance_positioned)
qed (simp_all add: positioned_def)

lemma tz_next_positioned:
  assumes "positioned tz" and "tz_next tz = (t, tz')"
  shows "positioned tz'" and "\<not> midCrLf (tz_source tz) (tok_offset t)"
    and "(tok_line t, tok_column t) = scanPosition (take (tok_offset t) (tz_source tz)) (1, 1)"
    and "tz_source tz' = tz_source tz"
proof -
  have *: "positioned tz' \<and> tz_source tz' = tz_source tz \<and> tok_offset t = tz_pos tz \<and>
      tok_line t = tz_line tz \<and> tok_column t = tz_column tz"
  proof (cases "tz_atEnd tz")
    case True
    with assms show ?thesis by (auto simp: tz_next_end)
  next
    case False
    then have l: "lexed tz (t, tz')" using tz_next_lexed [of tz] assms(2) by simp
    then have a: "advances (advance tz) tz'" and t: "t = makeToken (tok_kind t) (tz_pos tz) (tz_line tz) (tz_column tz) tz'"
      by (simp_all add: lexed_def)
    from t have "tok_offset t = tz_pos tz" "tok_line t = tz_line tz" "tok_column t = tz_column tz"
      by (metis tok_simps(3), metis tok_simps(4), metis tok_simps(5))
    then show ?thesis
      using advances_positioned [OF a advance_positioned [OF assms(1)]] advances_source [OF a] by simp
  qed
  with assms(1) show "positioned tz'" "\<not> midCrLf (tz_source tz) (tok_offset t)"
    "(tok_line t, tok_column t) = scanPosition (take (tok_offset t) (tz_source tz)) (1, 1)"
    "tz_source tz' = tz_source tz"
    using positioned_def [of tz] by simp_all
qed

lemma tokenizeLoop_positions:
  "positioned tz \<Longrightarrow> list_all (\<lambda>t. \<not> midCrLf (tz_source tz) (tok_offset t) \<and>
     (tok_line t, tok_column t) = scanPosition (take (tok_offset t) (tz_source tz)) (1, 1))
     (fst (tokenizeLoop tz))"
proof (induction tz rule: tokenizeLoop.induct)
  case (1 tz)
  obtain t tz' where n: "tz_next tz = (t, tz')" by force
  note p = tz_next_positioned [OF 1(2) n]
  show ?case
    using "1.IH" [OF n [symmetric]] n p by (subst tokenizeLoop.simps) (auto split: prod.splits)
qed

lemma mkTokenizer_positioned: "positioned (mkTokenizer src s)"
  by (simp add: positioned_def mkTokenizer_def midCrLf_def)

text \<open>C21: every token, the end of the file included, carries the line and column that a single
  scan of the source before it yields, with the two units of a CRLF counted as one line end.\<close>

theorem tokenize_positions:
  "list_all (\<lambda>t. (tok_line t, tok_column t) = scanPosition (take (tok_offset t) src) (1, 1))
     (fst (tokenize src s))"
  using tokenizeLoop_positions [OF mkTokenizer_positioned [of src s]]
  by (auto simp: tokenize_def list_all_iff mkTokenizer_def)

text \<open>A carriage return always comes with a line feed.\<close>

fun pairedCr :: "u16string \<Rightarrow> bool" where
  "pairedCr [] = True"
| "pairedCr (c # cs) = ((c = chCR \<longrightarrow> cs \<noteq> [] \<and> hd cs = chLF) \<and> pairedCr cs)"

lemma scanPosition_lf: "pairedCr s \<Longrightarrow> scanPosition s p = foldl lfStep p s"
  by (induction s p rule: scanPosition.induct)
    (auto simp: lfStep_def stepPosition_def split: prod.splits)

lemma pairedCr_take: "pairedCr s \<Longrightarrow> \<not> midCrLf s n \<Longrightarrow> pairedCr (take n s)"
proof (induction s arbitrary: n)
  case (Cons c cs)
  show ?case
  proof (cases n)
    case (Suc m)
    have "\<not> midCrLf cs m" using Cons.prems(2) Suc by (cases m) (auto simp: midCrLf_def)
    moreover have "c = chCR \<Longrightarrow> m \<noteq> 0 \<and> cs \<noteq> [] \<and> hd cs = chLF"
      using Cons.prems Suc by (cases cs; cases m) (auto simp: midCrLf_def)
    ultimately show ?thesis using Cons Suc by (auto simp: take_Suc)
  qed simp
qed simp

text \<open>In a source without lone carriage returns (and short enough for the casts), the tokenizer
  and \<open>SourceFile::offsetToPosition\<close> agree on the position of every token.\<close>

theorem tokenize_positions_agree:
  assumes "pairedCr src" and "length src < 2 ^ 31"
  shows "list_all (\<lambda>t. offsetToPosition (mkSourceFile f src) (of_nat (tok_offset t)) =
      (tok_line t, tok_column t)) (fst (tokenize src s))"
  unfolding list_all_iff
proof
  fix t
  assume t: "t \<in> set (fst (tokenize src s))"
  then have "\<not> midCrLf src (tok_offset t)"
    and p: "(tok_line t, tok_column t) = scanPosition (take (tok_offset t) src) (1, 1)"
    using tokenizeLoop_positions [OF mkTokenizer_positioned [of src s]]
    by (auto simp: tokenize_def list_all_iff mkTokenizer_def)
  from t obtain i where i: "i < length (fst (tokenize src s))" "t = fst (tokenize src s) ! i"
    by (metis in_set_conv_nth)
  have "length (concat (map tok_text (take i ts))) \<le> length (concat (map tok_text ts))" for ts
    by (metis append_take_drop_id concat_append length_append le_add1 map_append)
  with lexer.delivers_offsets [OF tokenize_delivers i(1)] lexer.delivers_rest [OF tokenize_delivers, of src s]
  have o: "tok_offset t \<le> length src" by (metis i(2) add_0 mkTokenizer_rest)
  with assms(2) have u: "unat (of_nat (tok_offset t) :: u32) = tok_offset t"
    by (simp add: unat_of_nat)
  have "offsetToPosition (mkSourceFile f src) (of_nat (tok_offset t)) = lfPosition (take (tok_offset t) src)"
    using offsetToPosition_lfPosition [of "of_nat (tok_offset t)" src f] u o assms(2) by simp
  also have "\<dots> = scanPosition (take (tok_offset t) src) (1, 1)"
    using pairedCr_take [OF assms(1)] \<open>\<not> midCrLf src (tok_offset t)\<close>
    by (simp add: scanPosition_lf lfPosition_def)
  finally show "offsetToPosition (mkSourceFile f src) (of_nat (tok_offset t)) = (tok_line t, tok_column t)"
    using p by simp
qed

theorem tokenize_positions_agree_witness:
  "list_all (\<lambda>t. offsetToPosition (mkSourceFile ''m.ens'' (u16 ''a'' @ [chCR, chLF] @ u16 ''b'')) (of_nat (tok_offset t)) =
      (tok_line t, tok_column t)) (fst (tokenize (u16 ''a'' @ [chCR, chLF] @ u16 ''b'') []))"
  by (rule tokenize_positions_agree) (simp_all add: u16_def)

text \<open>the two position functions count lines differently when a carriage return stands alone:
  in \<open>a\<close> CR \<open>b\<close> the tokenizer puts \<open>b\<close> on line 2, column 1, and \<open>offsetToPosition\<close> puts its offset
  on line 1, column 3.\<close>

theorem lone_cr_positions_diverge:
  "map (\<lambda>t. (tok_offset t, tok_line t, tok_column t)) (fst (tokenize (u16 ''a'' @ [chCR] @ u16 ''b'') [])) =
     [(0, 1, 1), (1, 1, 2), (2, 2, 1), (3, 2, 2)] \<and>
   map (\<lambda>i. offsetToPosition (mkSourceFile ''m.ens'' (u16 ''a'' @ [chCR] @ u16 ''b'')) i) [0, 1, 2, 3] =
     [(1, 1), (1, 2), (1, 3), (1, 4)]"
  by code_simp

section \<open>Interpolation holes\<close>

lemma advanceWhile_holes [simp]: "tz_holes (advanceWhile P tz) = tz_holes tz"
  by (induction P tz rule: advanceWhile.induct) (subst advanceWhile.simps, simp)

lemma funpow_advance_holes [simp]: "tz_holes ((advance ^^ n) tz) = tz_holes tz"
  by (induction n) auto

lemma consumeEscape_holes [simp]: "tz_holes (consumeEscape tz) = tz_holes tz"
  by (simp add: consumeEscape_def Let_def)

lemma stringLoop_holes: "lexStringLoop tz = (e, t) \<Longrightarrow> tz_holes t = tz_holes tz"
proof (induction tz rule: lexStringLoop.induct)
  case (1 tz)
  then show ?case by (subst (asm) (3) lexStringLoop.simps) (auto simp: Let_def split: if_splits)
qed

lemma charLoop_holes: "lexCharLoop tz = (e, t) \<Longrightarrow> tz_holes t = tz_holes tz"
proof (induction tz rule: lexCharLoop.induct)
  case (1 tz)
  then show ?case by (subst (asm) (3) lexCharLoop.simps) (auto simp: Let_def split: if_splits)
qed

lemma digits_holes: "lexDigits p l c tz = (f, t) \<Longrightarrow> tz_holes t = tz_holes tz"
  by (auto simp: lexDigits_def Let_def split: if_splits prod.splits)

definition interpKinds :: "SyntaxKind set" where
  "interpKinds = {InterpStringStart, InterpStringMid, InterpStringEnd}"

definition holesKept :: "Tokenizer \<Rightarrow> LexedToken \<times> Tokenizer \<Rightarrow> bool" where
  "holesKept tz r \<longleftrightarrow> tz_holes (snd r) = tz_holes tz \<and> tok_kind (fst r) \<notin> interpKinds"

lemma table_not_interp: "(s, k) \<in> set OPERATOR_TABLE \<Longrightarrow> k \<notin> interpKinds"
proof -
  have "list_all (\<lambda>(s, k). k \<noteq> InterpStringStart \<and> k \<noteq> InterpStringMid \<and> k \<noteq> InterpStringEnd) OPERATOR_TABLE"
    by code_simp
  then show "(s, k) \<in> set OPERATOR_TABLE \<Longrightarrow> k \<notin> interpKinds" by (auto simp: list_all_iff interpKinds_def)
qed

lemma lexOperator_holes: "holesKept tz (lexOperator p l c tz)"
proof (cases "operatorLookup OPERATOR_TABLE tz")
  case None
  then show ?thesis
    by (simp add: lexOperator_table operatorChoice_lookup unexpectedCharacter_def Let_def
        holesKept_def interpKinds_def)
next
  case (Some e)
  obtain s k where "e = (s, k)" by force
  with Some operatorLookup_Some [OF _ OPERATOR_TABLE_sorted] have "(s, k) \<in> set OPERATOR_TABLE" by blast
  with Some \<open>e = (s, k)\<close> show ?thesis
    by (simp add: lexOperator_table operatorChoice_lookup consume_def Let_def holesKept_def table_not_interp)
qed

lemma keyword_not_interp: "keywordKindFromText t \<notin> interpKinds"
  using keywordKindFromText_cases [of t] by (auto simp: interpKinds_def kind_simps)

lemma scan_holes:
  "holesKept tz (lexWhitespace p l c tz)" "holesKept tz (lexNewline p l c tz)"
  "holesKept tz (lexLineComment p l c tz)" "holesKept tz (lexBlockComment p l c tz)"
  "holesKept tz (lexIdentifierOrKeyword p l c tz)"
  by (simp_all add: holesKept_def lexWhitespace_def lexNewline_def lexLineComment_def
      lexBlockComment_def lexIdentifierOrKeyword_def Let_def keyword_not_interp)
    (simp_all add: interpKinds_def)

lemma lexNumber_holes: "holesKept tz (lexNumber p l c tz)"
  using digits_holes [of p l c tz]
  by (cases "lexDigits p l c tz") (simp add: lexNumber_def holesKept_def interpKinds_def Let_def)

lemma lexChar_holes: "holesKept tz (lexChar p l c tz)"
  using charLoop_holes [of "advance tz"]
  by (cases "lexCharLoop (advance tz)") (simp add: lexChar_def holesKept_def interpKinds_def Let_def)

lemma lexFrom_holes: "c \<noteq> uc CHR 0x22 \<Longrightarrow> holesKept tz (lexFrom c p l col tz)"
  by (simp add: lexFrom_def scan_holes lexNumber_holes lexChar_holes lexOperator_holes)

text \<open>
  The bracket structure of interpolated strings, read off the token kinds: one entry per open hole,
  counting the braces opened inside it. A middle or end segment needs a hole whose braces are all
  closed, and inside a hole a closing brace needs an open one.
\<close>

definition holeStep :: "SyntaxKind \<Rightarrow> int list \<Rightarrow> int list option" where
  "holeStep k hs =
     (if k = InterpStringStart then Some (0 # hs)
      else if k = InterpStringMid then (if hs \<noteq> [] \<and> hd hs = 0 then Some hs else None)
      else if k = InterpStringEnd then (if hs \<noteq> [] \<and> hd hs = 0 then Some (tl hs) else None)
      else if hs \<noteq> [] \<and> k = LBrace then Some ((hd hs + 1) # tl hs)
      else if hs \<noteq> [] \<and> k = RBrace then (if hd hs > 0 then Some ((hd hs - 1) # tl hs) else None)
      else Some hs)"

lemma lexFrom_brace:
  assumes "peek tz 0 = c" and "lexed tz (lexFrom c p l col tz)" and "\<not> tz_atEnd tz"
  shows "tok_kind (fst (lexFrom c p l col tz)) = LBrace \<longleftrightarrow> c = uc CHR ''{''"
    and "tok_kind (fst (lexFrom c p l col tz)) = RBrace \<longleftrightarrow> c = uc CHR ''}''"
proof -
  obtain t tz' where r: "lexFrom c p l col tz = (t, tz')" by force
  have a: "advances (advance tz) tz'" "tok_text t = sliceFrom tz' (tz_pos tz)" "spelled t"
    using assms(2) by (auto simp: r lexed_def) (metis tok_simps(2))
  have "tz_pos tz < tz_pos tz'" using advances_pos [OF a(1)] advance_pos(1) [OF assms(3)] by simp
  then have hd: "tok_text t \<noteq> [] \<and> hd (tok_text t) = c"
    using a(2) advances_source [OF a(1)] assms(1,3)
    by (simp add: sliceFrom_def tz_atEnd_def peek_def Let_def hd_drop_conv_nth)
  have "tok_kind t = LBrace \<Longrightarrow> tok_text t = u16 ''{''" "tok_kind t = RBrace \<Longrightarrow> tok_text t = u16 ''}''"
    using a(3) by (simp_all add: spelled_def OPERATOR_TABLE_def)
  moreover have "c = uc CHR ''{'' \<Longrightarrow> tok_kind t = LBrace"
    using r assms(1) by (auto simp: lexFrom_def isBlank_def isDigit_def isIdentStart_def isAsciiLetter_def
        lexOperator_def consume_def Let_def)
  moreover have "c = uc CHR ''}'' \<Longrightarrow> tok_kind t = RBrace"
    using r assms(1) by (auto simp: lexFrom_def isBlank_def isDigit_def isIdentStart_def isAsciiLetter_def
        lexOperator_def consume_def Let_def)
  ultimately show "tok_kind (fst (lexFrom c p l col tz)) = LBrace \<longleftrightarrow> c = uc CHR ''{''"
    "tok_kind (fst (lexFrom c p l col tz)) = RBrace \<longleftrightarrow> c = uc CHR ''}''"
    using hd r by (auto simp: u16_def)
qed

lemma lexStringBody_holes:
  "tz_holes (snd (lexStringBody p l c True tz)) = tz_holes tz \<and>
     tok_kind (fst (lexStringBody p l c True tz)) = StringLiteral \<or>
   tz_holes (snd (lexStringBody p l c True tz)) = 0 # tz_holes tz \<and>
     tok_kind (fst (lexStringBody p l c True tz)) = InterpStringStart"
  "tz_holes tz \<noteq> [] \<Longrightarrow>
     tz_holes (snd (lexStringBody p l c False tz)) = tz_holes tz \<and>
       tok_kind (fst (lexStringBody p l c False tz)) = InterpStringMid \<or>
     tz_holes (snd (lexStringBody p l c False tz)) = tl (tz_holes tz) \<and>
       tok_kind (fst (lexStringBody p l c False tz)) = InterpStringEnd"
  using stringLoop_holes [of tz]
  by (cases "lexStringLoop tz"; simp add: lexStringBody_def Let_def)+

definition holesOk :: "Tokenizer \<Rightarrow> bool" where
  "holesOk tz \<longleftrightarrow> list_all (\<lambda>d. d \<ge> 0) (tz_holes tz)"

lemma holeStep_nonneg: "list_all (\<lambda>d. d \<ge> 0) hs \<Longrightarrow> holeStep k hs = Some hs' \<Longrightarrow> list_all (\<lambda>d. d \<ge> 0) hs'"
  by (cases hs) (auto simp: holeStep_def split: if_splits)

lemma tz_next_holes:
  assumes "tz_next tz = (t, tz')" and "\<not> tz_atEnd tz" and "holesOk tz"
  shows "holeStep (tok_kind t) (tz_holes tz) = Some (tz_holes tz')"
proof (cases "tz_holes tz \<noteq> [] \<and> peek tz 0 = uc CHR ''}'' \<and> hd (tz_holes tz) = 0")
  case True
  with assms(1,2) have "lexStringBody (tz_pos tz) (tz_line tz) (tz_column tz) False (advance tz) = (t, tz')"
    by (simp add: tz_next_def)
  with lexStringBody_holes(2) [of "advance tz" "tz_pos tz" "tz_line tz" "tz_column tz"] True
  show ?thesis by (auto simp: holeStep_def)
next
  case False
  let ?c = "peek tz 0" and ?u = "trackBraces (peek tz 0) tz"
  have r: "lexFrom ?c (tz_pos tz) (tz_line tz) (tz_column tz) ?u = (t, tz')"
    using assms(1,2) False by (auto simp: tz_next_def)
  obtain hs where hs: "?u = tz\<lparr>tz_holes := hs\<rparr>" using trackBraces_holes by blast
  have u: "peek ?u 0 = ?c" "\<not> tz_atEnd ?u" "tz_pos ?u = tz_pos tz" "tz_line ?u = tz_line tz"
      "tz_column ?u = tz_column tz"
    unfolding hs using assms(2) by (simp_all add: tz_atEnd_def peek_def Let_def)
  have l: "lexed ?u (lexFrom ?c (tz_pos tz) (tz_line tz) (tz_column tz) ?u)"
    using lexFrom_lexed [OF u(2) u(1) [symmetric]] by (simp add: u)
  note brace = lexFrom_brace [OF u(1) l u(2)]
  show ?thesis
  proof (cases "?c = uc CHR 0x22")
    case True
    then have "?u = tz" by (simp add: trackBraces_def split: list.splits)
    with r True have "lexStringBody (tz_pos tz) (tz_line tz) (tz_column tz) True (advance tz) = (t, tz')"
      by (simp add: lexFrom_def isBlank_def isDigit_def isIdentStart_def isAsciiLetter_def lexString_def)
    with lexStringBody_holes(1) [of "tz_pos tz" "tz_line tz" "tz_column tz" "advance tz"]
    show ?thesis by (auto simp: holeStep_def)
  next
    case c: False
    from lexFrom_holes [OF c, of ?u "tz_pos tz" "tz_line tz" "tz_column tz"] r
    have k: "tz_holes tz' = tz_holes ?u" "tok_kind t \<notin> interpKinds" by (simp_all add: holesKept_def)
    from assms(3) have "tz_holes tz \<noteq> [] \<Longrightarrow> hd (tz_holes tz) \<ge> 0"
      by (cases "tz_holes tz") (simp_all add: holesOk_def)
    with False brace k r show ?thesis
      by (cases "tz_holes tz") (auto simp: holeStep_def trackBraces_def interpKinds_def)
  qed
qed

lemma tokenizeLoop_holes:
  "holesOk tz \<Longrightarrow> \<exists>hs. foldl (\<lambda>h k. Option.bind h (holeStep k)) (Some (tz_holes tz))
     (map tok_kind (fst (tokenizeLoop tz))) = Some hs"
proof (induction tz rule: tokenizeLoop.induct)
  case (1 tz)
  obtain t tz' where n: "tz_next tz = (t, tz')" by force
  show ?case
  proof (cases "tz_atEnd tz")
    case True
    then show ?thesis by (subst tokenizeLoop.simps) (simp add: tz_next_end holeStep_def)
  next
    case False
    note k = tz_next_progress(3) [OF n False] and h = tz_next_holes [OF n False 1(2)]
    have "holesOk tz'" using holeStep_nonneg [OF _ h] 1(2) by (simp add: holesOk_def)
    from "1.IH" [OF n [symmetric] k this] h k show ?thesis
      by (subst tokenizeLoop.simps) (auto simp: n split: prod.splits)
  qed
qed

text \<open>C22: interpolated strings are well bracketed in the token list: every middle or end segment
  closes a hole opened by a start segment, with the braces inside that hole balanced, however
  deeply strings nest in holes.\<close>

theorem tokenize_holes_balanced:
  "foldl (\<lambda>h k. Option.bind h (holeStep k)) (Some []) (map tok_kind (fst (tokenize src s))) \<noteq> None"
  using tokenizeLoop_holes [of "mkTokenizer src s"] by (auto simp: tokenize_def mkTokenizer_def holesOk_def)


section \<open>Diagnostics of the tokenizer\<close>

lemma tokenizeLoop_sink:
  "\<exists>ds. snd (tokenizeLoop tz) = tz_sink tz @ ds \<and> (\<forall>d \<in> set ds. level d = LevelError)"
proof (induction tz rule: tokenizeLoop.induct)
  case (1 tz)
  obtain t tz' where n: "tz_next tz = (t, tz')" by force
  show ?case
  proof (cases "tz_atEnd tz")
    case True
    then show ?thesis by (subst tokenizeLoop.simps) (simp add: tz_next_end)
  next
    case False
    note k = tz_next_progress(3) [OF n False]
    have "advances (advance tz) tz'" using tz_next_lexed [OF False] n by (simp add: lexed_def)
    from advances_sink [OF this] obtain ds where "tz_sink tz' = tz_sink tz @ ds"
      "\<forall>d \<in> set ds. level d = LevelError" by auto
    with "1.IH" [OF n [symmetric] k] k show ?thesis
      by (subst tokenizeLoop.simps) (auto simp: n split: prod.splits)
  qed
qed

lemma tokenize_sink: "\<exists>ds. snd (tokenize src s) = s @ ds \<and> (\<forall>d \<in> set ds. level d = LevelError)"
  using tokenizeLoop_sink [of "mkTokenizer src s"] by (simp add: tokenize_def mkTokenizer_def)

end
