(* ===== verification/Green.thy ===== *)
theory Green
  imports SyntaxKinds
begin

text \<open>
  The lossless syntax tree: \<open>cst/Green.h\<close> (the immutable tree), \<open>cst/SyntaxBuilder.cpp\<close> (the stack
  machine the parser builds it with) and \<open>cst/SyntaxNode.cpp\<close> (positions and navigation over it).

  An assertion of the builder that fails is \<open>None\<close>. The builder's stack is written with its top
  first. Offsets and lengths are 32-bit words, as in the source.
\<close>

section \<open>Green elements\<close>

datatype GreenElement =
    GreenToken SyntaxKind u16string
  | GreenNode SyntaxKind "GreenElement list"

fun green_kind :: "GreenElement \<Rightarrow> SyntaxKind" where
  "green_kind (GreenToken k t) = k"
| "green_kind (GreenNode k cs) = k"

text \<open>The \<open>length\<close> field, computed by the two constructors.\<close>

fun green_length :: "GreenElement \<Rightarrow> u32" where
  "green_length (GreenToken k t) = of_nat (length t)"
| "green_length (GreenNode k cs) = sum_list (map green_length cs)"

definition green_isToken :: "GreenElement \<Rightarrow> bool" where
  "green_isToken g = (isToken (green_kind g) \<or> green_kind g = Missing)"

section \<open>The builder\<close>

record Frame =
  frame_kind :: SyntaxKind
  frame_children :: "GreenElement list"

type_synonym SyntaxBuilder = "Frame list"

definition mkFrame :: "SyntaxKind \<Rightarrow> GreenElement list \<Rightarrow> Frame" where
  "mkFrame k cs = \<lparr>frame_kind = k, frame_children = cs\<rparr>"

definition b_startNode :: "SyntaxKind \<Rightarrow> SyntaxBuilder \<Rightarrow> SyntaxBuilder" where
  "b_startNode k stack = mkFrame k [] # stack"

fun b_token :: "SyntaxKind \<Rightarrow> u16string \<Rightarrow> SyntaxBuilder \<Rightarrow> SyntaxBuilder option" where
  "b_token k t [] = None"
| "b_token k t (f # stack) =
     Some (mkFrame (frame_kind f) (frame_children f @ [GreenToken k t]) # stack)"

fun b_finishNode :: "SyntaxBuilder \<Rightarrow> SyntaxBuilder option" where
  "b_finishNode [] = None"
| "b_finishNode [f] = Some [mkFrame (frame_kind f) [GreenNode (frame_kind f) (frame_children f)]]"
| "b_finishNode (f # g # stack) =
     Some (mkFrame (frame_kind g) (frame_children g @ [GreenNode (frame_kind f) (frame_children f)])
           # stack)"

fun b_checkpoint :: "SyntaxBuilder \<Rightarrow> nat option" where
  "b_checkpoint [] = None"
| "b_checkpoint (f # stack) = Some (length (frame_children f))"

fun b_startNodeAt :: "nat \<Rightarrow> SyntaxKind \<Rightarrow> SyntaxBuilder \<Rightarrow> SyntaxBuilder option" where
  "b_startNodeAt cp k [] = None"
| "b_startNodeAt cp k (f # stack) =
     (if cp \<le> length (frame_children f)
      then Some (mkFrame k (drop cp (frame_children f)) #
                 mkFrame (frame_kind f) (take cp (frame_children f)) # stack)
      else None)"

definition b_build :: "SyntaxBuilder \<Rightarrow> GreenElement option" where
  "b_build stack =
     (case stack of
        [f] \<Rightarrow> (case frame_children f of [root] \<Rightarrow> Some root | _ \<Rightarrow> None)
      | _ \<Rightarrow> None)"

section \<open>Syntax nodes\<close>

datatype SyntaxNode =
  SyntaxNode (green: GreenElement) (getParent: "SyntaxNode option") (startOffset: u32)
    (indexInParent: u32)

definition makeRoot :: "GreenElement \<Rightarrow> SyntaxNode" where
  "makeRoot g = SyntaxNode g None 0 0"

definition node_kind :: "SyntaxNode \<Rightarrow> SyntaxKind" where
  "node_kind n = green_kind (green n)"

definition node_length :: "SyntaxNode \<Rightarrow> u32" where
  "node_length n = green_length (green n)"

definition endOffset :: "SyntaxNode \<Rightarrow> u32" where
  "endOffset n = startOffset n + green_length (green n)"

definition node_isToken :: "SyntaxNode \<Rightarrow> bool" where
  "node_isToken n = green_isToken (green n)"

definition tokenText :: "SyntaxNode \<Rightarrow> u16string" where
  "tokenText n = (case green n of GreenToken k t \<Rightarrow> t | GreenNode k cs \<Rightarrow> [])"

fun childrenLoop :: "SyntaxNode \<Rightarrow> u32 \<Rightarrow> u32 \<Rightarrow> GreenElement list \<Rightarrow> SyntaxNode list" where
  "childrenLoop parent childOffset i [] = []"
| "childrenLoop parent childOffset i (c # cs) =
     SyntaxNode c (Some parent) childOffset i #
     childrenLoop parent (childOffset + green_length c) (i + 1) cs"

definition children :: "SyntaxNode \<Rightarrow> SyntaxNode list" where
  "children n = (case green n of GreenToken k t \<Rightarrow> []
     | GreenNode k cs \<Rightarrow> childrenLoop n (startOffset n) 0 cs)"

definition nonTriviaChildren :: "SyntaxNode \<Rightarrow> SyntaxNode list" where
  "nonTriviaChildren n = filter (\<lambda>c. \<not> isTrivia (node_kind c)) (children n)"

definition firstChild :: "SyntaxNode \<Rightarrow> SyntaxKind \<Rightarrow> SyntaxNode option" where
  "firstChild n k = find (\<lambda>c. node_kind c = k) (children n)"

definition firstToken :: "SyntaxNode \<Rightarrow> SyntaxKind \<Rightarrow> SyntaxNode option" where
  "firstToken n k = find (\<lambda>c. node_isToken c \<and> node_kind c = k) (children n)"

lemma childrenLoop_green: "map green (childrenLoop p o' i cs) = cs"
  by (induction cs arbitrary: o' i) auto

lemma children_smaller: "c \<in> set (children n) \<Longrightarrow> size (green c) < size (green n)"
proof (cases "green n")
  case (GreenNode k cs)
  assume "c \<in> set (children n)"
  with GreenNode have "green c \<in> green ` set (childrenLoop n (startOffset n) 0 cs)"
    by (simp add: children_def)
  then have "green c \<in> set cs"
    using childrenLoop_green [of n "startOffset n" 0 cs] by (metis set_map)
  then show ?thesis using GreenNode by (simp add: size_list_estimation' less_Suc_eq_le)
qed (simp add: children_def)

lemma find_child_smaller: "find P (children n) = Some c \<Longrightarrow> size (green c) < size (green n)"
  by (drule find_SomeD) (simp add: children_smaller)

function fullText :: "SyntaxNode \<Rightarrow> u16string" where
  "fullText n = (case green n of GreenToken k t \<Rightarrow> t
     | GreenNode k cs \<Rightarrow> concat (map fullText (children n)))"
  by pat_completeness auto
termination
  by (relation "measure (\<lambda>n. size (green n))") (auto dest: children_smaller)

function tokenAtOffset :: "SyntaxNode \<Rightarrow> u32 \<Rightarrow> SyntaxNode option" where
  "tokenAtOffset n pos =
     (if pos < startOffset n \<or> pos > endOffset n then None
      else if node_isToken n then Some n
      else case find (\<lambda>c. pos \<ge> startOffset c \<and> pos < endOffset c) (children n) of
             Some c \<Rightarrow> tokenAtOffset c pos
           | None \<Rightarrow> None)"
  by pat_completeness auto
termination
  by (relation "measure (\<lambda>(n, pos). size (green n))") (auto dest: find_child_smaller)

function contentRange :: "SyntaxNode \<Rightarrow> u32 \<times> u32" where
  "contentRange n =
     (if node_isToken n then (startOffset n, node_length n)
      else let start = (case find (\<lambda>c. \<not> isTrivia (node_kind c)) (children n) of
                          Some c \<Rightarrow> fst (contentRange c)
                        | None \<Rightarrow> startOffset n);
               e = (case find (\<lambda>c. \<not> isTrivia (node_kind c)) (rev (children n)) of
                      Some c \<Rightarrow> (case contentRange c of (cs, cl) \<Rightarrow> cs + cl)
                    | None \<Rightarrow> endOffset n)
           in (start, if e \<ge> start then e - start else 0))"
  by pat_completeness auto
termination
  by (relation "measure (\<lambda>n. size (green n))") (auto dest!: find_SomeD simp: children_smaller)

function nodeCovering :: "SyntaxNode \<Rightarrow> u32 \<Rightarrow> u32 \<Rightarrow> SyntaxNode option" where
  "nodeCovering n start e =
     (if start < startOffset n \<or> e > endOffset n then None
      else case find (\<lambda>c. start \<ge> startOffset c \<and> e \<le> endOffset c) (children n) of
             Some c \<Rightarrow> (case nodeCovering c start e of Some inner \<Rightarrow> Some inner | None \<Rightarrow> Some c)
           | None \<Rightarrow> Some n)"
  by pat_completeness auto
termination
  by (relation "measure (\<lambda>(n, s, e). size (green n))") (auto dest: find_child_smaller)

declare fullText.simps [simp del] tokenAtOffset.simps [simp del] contentRange.simps [simp del]
  nodeCovering.simps [simp del]

section \<open>Dumping a tree\<close>

definition asciiOf :: "u16string \<Rightarrow> string" where
  "asciiOf s = concat (map (\<lambda>c.
     if c = chLF then [CHR 0x5C, CHR ''n''] else if c = chCR then [CHR 0x5C, CHR ''r'']
     else if c = 0x09 then [CHR 0x5C, CHR ''t'']
     else [if c < 128 then char_of (unat c) else CHR ''?'']) s)"

function dump :: "SyntaxNode \<Rightarrow> nat \<Rightarrow> string" where
  "dump n indent =
     concat (replicate indent ''  '') @ kindName (node_kind n) @ '' @'' @
     to_string (uint (startOffset n)) @ ''..'' @ to_string (uint (endOffset n)) @
     (case green n of GreenToken k t \<Rightarrow> [CHR '' '', CHR 0x22] @ asciiOf t @ [CHR 0x22]
      | GreenNode k cs \<Rightarrow> []) @ [char_of (10::nat)] @
     concat (map (\<lambda>c. dump c (indent + 1)) (children n))"
  by pat_completeness auto
termination
  by (relation "measure (\<lambda>(n, i). size (green n))") (auto dest: children_smaller)

declare dump.simps [simp del]

section \<open>Text of a tree\<close>

fun greenText :: "GreenElement \<Rightarrow> u16string" where
  "greenText (GreenToken k t) = t"
| "greenText (GreenNode k cs) = concat (map greenText cs)"

abbreviation greenTexts :: "GreenElement list \<Rightarrow> u16string" where
  "greenTexts cs \<equiv> concat (map greenText cs)"

text \<open>A tree whose kinds say what it is: tokens have token kinds and nodes have node kinds.\<close>

fun wfGreen :: "GreenElement \<Rightarrow> bool" where
  "wfGreen (GreenToken k t) = isToken k"
| "wfGreen (GreenNode k cs) = (isNode k \<and> list_all wfGreen cs)"

lemma green_length_text: "green_length g = of_nat (length (greenText g))"
proof (induction g)
  case (GreenNode k cs)
  then show ?case by (induction cs) auto
qed simp

lemma children_green: "green n = GreenNode k cs \<Longrightarrow> map green (children n) = cs"
  by (simp add: children_def childrenLoop_green)

lemma fullText_green: "fullText n = greenText (green n)"
proof (induction n rule: fullText.induct)
  case (1 n)
  show ?case
  proof (cases "green n")
    case (GreenToken k t)
    then show ?thesis by (simp add: fullText.simps)
  next
    case (GreenNode k cs)
    with 1 have "map fullText (children n) = map (greenText \<circ> green) (children n)" by simp
    also have "\<dots> = map greenText cs" using children_green [OF GreenNode] by (metis map_map)
    finally show ?thesis using GreenNode by (simp add: fullText.simps)
  qed
qed

lemma wfGreen_isToken: "wfGreen g \<Longrightarrow> green_isToken g \<longleftrightarrow> (\<exists>k t. g = GreenToken k t)"
  by (cases g) (auto simp: green_isToken_def kind_simps)

section \<open>Positions\<close>

text \<open>The node lies in the address range of a 32-bit offset.\<close>

definition node_fits :: "SyntaxNode \<Rightarrow> bool" where
  "node_fits n \<longleftrightarrow> unat (startOffset n) + length (greenText (green n)) < 2 ^ 32"

definition node_contains :: "SyntaxNode \<Rightarrow> nat \<Rightarrow> bool" where
  "node_contains n pos \<longleftrightarrow>
     unat (startOffset n) \<le> pos \<and> pos < unat (startOffset n) + length (greenText (green n))"

text \<open>The code unit of the source at an absolute position, read off the node.\<close>

definition unit_at :: "SyntaxNode \<Rightarrow> nat \<Rightarrow> char16" where
  "unit_at n pos = greenText (green n) ! (pos - unat (startOffset n))"

lemma unat_add_fits:
  "unat (a :: u32) + m < 2 ^ 32 \<Longrightarrow> unat (a + of_nat m) = unat a + m"
  by (simp add: unat_word_ariths unat_of_nat mod_add_right_eq)

lemma unat_endOffset: "node_fits n \<Longrightarrow> unat (endOffset n) = unat (startOffset n) + length (greenText (green n))"
  by (simp add: endOffset_def green_length_text node_fits_def unat_add_fits)

lemma node_contains_word:
  "node_fits n \<Longrightarrow> node_contains n (unat pos) \<longleftrightarrow> pos \<ge> startOffset n \<and> pos < endOffset n"
  by (simp add: node_contains_def unat_endOffset word_le_nat_alt word_less_nat_alt)

lemma childrenLoop_find:
  assumes "unat off + length (greenTexts cs) < 2 ^ 32"
    and "unat off \<le> unat pos" and "unat pos < unat off + length (greenTexts cs)"
  shows "\<exists>c. find (\<lambda>c. pos \<ge> startOffset c \<and> pos < endOffset c) (childrenLoop p off i cs) = Some c \<and>
    green c \<in> set cs \<and> node_fits c \<and> node_contains c (unat pos) \<and>
    unit_at c (unat pos) = greenTexts cs ! (unat pos - unat off)"
  using assms
proof (induction cs arbitrary: off i)
  case (Cons g cs)
  let ?c = "SyntaxNode g (Some p) off i" and ?m = "length (greenText g)"
  have fits: "node_fits ?c" using Cons.prems by (simp add: node_fits_def)
  show ?case
  proof (cases "unat pos < unat off + ?m")
    case True
    with Cons.prems have c: "node_contains ?c (unat pos)" by (simp add: node_contains_def)
    then have "pos \<ge> startOffset ?c \<and> pos < endOffset ?c" by (simp only: node_contains_word [OF fits])
    moreover have "unat pos - unat off < ?m" using True Cons.prems(2) by linarith
    then have "unit_at ?c (unat pos) = greenTexts (g # cs) ! (unat pos - unat off)"
      by (simp add: unit_at_def nth_append)
    ultimately show ?thesis using c fits by (intro exI [of _ ?c]) simp
  next
    case False
    then have "\<not> node_contains ?c (unat pos)" by (simp add: node_contains_def)
    with node_contains_word [OF fits, of pos]
    have no: "\<not> (pos \<ge> startOffset ?c \<and> pos < endOffset ?c)" by blast
    have o: "unat (off + green_length g) = unat off + ?m"
      using Cons.prems by (simp add: green_length_text unat_add_fits)
    have "unat pos - unat (off + green_length g) = unat pos - unat off - ?m" by (simp add: o)
    moreover have "\<not> unat pos - unat off < ?m" using False by simp
    ultimately have "greenTexts cs ! (unat pos - unat (off + green_length g)) =
        greenTexts (g # cs) ! (unat pos - unat off)"
      by (simp add: nth_append)
    with Cons.IH [of "off + green_length g" "i + 1"] Cons.prems False no o show ?thesis
      by (auto simp del: word_less_nat_alt)
  qed
qed simp

lemma tokenAtOffset_correct:
  assumes "wfGreen (green n)" and "node_fits n" and "node_contains n (unat pos)"
  shows "\<exists>t. tokenAtOffset n pos = Some t \<and> node_isToken t \<and> node_fits t \<and>
    node_contains t (unat pos) \<and> unit_at t (unat pos) = unit_at n (unat pos) \<and> wfGreen (green t)"
  using assms
proof (induction n pos rule: tokenAtOffset.induct)
  case (1 n pos)
  have inside: "\<not> (pos < startOffset n \<or> pos > endOffset n)"
    using "1.prems" node_contains_word [of n pos] by auto
  show ?case
  proof (cases "green n")
    case (GreenToken k t)
    then have tok: "node_isToken n"
      using "1.prems"(1) by (simp add: node_isToken_def wfGreen_isToken)
    with inside have "tokenAtOffset n pos = Some n" by (subst tokenAtOffset.simps) simp
    with "1.prems" tok show ?thesis by auto
  next
    case (GreenNode k cs)
    then have tok: "\<not> node_isToken n"
      using "1.prems"(1) by (simp add: node_isToken_def wfGreen_isToken del: wfGreen.simps)
    have "unat (startOffset n) + length (greenTexts cs) < 2 ^ 32"
      "unat (startOffset n) \<le> unat pos" "unat pos < unat (startOffset n) + length (greenTexts cs)"
      using "1.prems"(2,3) GreenNode by (simp_all add: node_fits_def node_contains_def)
    from childrenLoop_find [OF this, of n 0] GreenNode obtain c where
      c: "find (\<lambda>c. pos \<ge> startOffset c \<and> pos < endOffset c) (children n) = Some c"
        "green c \<in> set cs" "node_fits c" "node_contains c (unat pos)"
        "unit_at c (unat pos) = unit_at n (unat pos)"
      by (auto simp: children_def unit_at_def)
    have "wfGreen (green c)" using "1.prems"(1) c(2) GreenNode by (simp add: list_all_iff)
    with "1.IH" [OF inside tok c(1)] c inside tok show ?thesis
      by (subst tokenAtOffset.simps) simp
  qed
qed

lemma nodeCovering_smallest:
  assumes "start \<ge> startOffset n" and "e \<le> endOffset n"
  shows "\<exists>m. nodeCovering n start e = Some m \<and> start \<ge> startOffset m \<and> e \<le> endOffset m \<and>
    (\<forall>c \<in> set (children m). \<not> (start \<ge> startOffset c \<and> e \<le> endOffset c))"
  using assms
proof (induction n start e rule: nodeCovering.induct)
  case (1 n start e)
  have inside: "\<not> (start < startOffset n \<or> e > endOffset n)" using "1.prems" by auto
  show ?case
  proof (cases "find (\<lambda>c. start \<ge> startOffset c \<and> e \<le> endOffset c) (children n)")
    case None
    with inside have "nodeCovering n start e = Some n" by (subst nodeCovering.simps) simp
    with None "1.prems" show ?thesis by (auto simp: find_None_iff)
  next
    case (Some c)
    from find_SomeD [OF this] have "start \<ge> startOffset c" "e \<le> endOffset c" by simp_all
    with "1.IH" [OF inside Some] inside Some show ?thesis by (subst nodeCovering.simps) auto
  qed
qed

section \<open>What the builder has written\<close>

text \<open>
  A client drives the builder with a sequence of calls. The text the stack holds is the text of its
  frames, the bottom frame first; every call appends what it emits and moves nothing else.
\<close>

datatype BuilderEvent =
    StartNode SyntaxKind
  | Token SyntaxKind u16string
  | FinishNode
  | StartNodeAt nat SyntaxKind

fun b_event :: "BuilderEvent \<Rightarrow> SyntaxBuilder \<Rightarrow> SyntaxBuilder option" where
  "b_event (StartNode k) b = Some (b_startNode k b)"
| "b_event (Token k t) b = b_token k t b"
| "b_event FinishNode b = b_finishNode b"
| "b_event (StartNodeAt cp k) b = b_startNodeAt cp k b"

definition b_run :: "BuilderEvent list \<Rightarrow> SyntaxBuilder \<Rightarrow> SyntaxBuilder option" where
  "b_run es b = foldl (\<lambda>b e. Option.bind b (b_event e)) (Some b) es"

fun event_text :: "BuilderEvent \<Rightarrow> u16string" where
  "event_text (Token k t) = t"
| "event_text _ = []"

definition stackText :: "SyntaxBuilder \<Rightarrow> u16string" where
  "stackText b = concat (map (\<lambda>f. greenTexts (frame_children f)) (rev b))"

lemma frame_children_mkFrame [simp]: "frame_children (mkFrame k cs) = cs"
  and frame_kind_mkFrame [simp]: "frame_kind (mkFrame k cs) = k"
  by (simp_all add: mkFrame_def)

lemma stackText_simps [simp]:
  "stackText [] = []"
  "stackText (f # b) = stackText b @ greenTexts (frame_children f)"
  by (simp_all add: stackText_def)

locale text_machine =
  fixes call :: "'e \<Rightarrow> 's \<Rightarrow> 's option"
    and emitted :: "'e \<Rightarrow> u16string"
    and written :: "'s \<Rightarrow> u16string"
  assumes call_written: "call e s = Some s' \<Longrightarrow> written s' = written s @ emitted e"
begin

lemma run_none: "foldl (\<lambda>s e. Option.bind s (call e)) None es = None"
  by (induction es) auto

lemma run_written:
  "foldl (\<lambda>s e. Option.bind s (call e)) (Some s) es = Some s' \<Longrightarrow>
     written s' = written s @ concat (map emitted es)"
proof (induction es arbitrary: s)
  case (Cons e es)
  then show ?case by (cases "call e s") (auto simp: run_none dest: call_written)
qed simp

end

interpretation builder_machine: text_machine b_event event_text stackText
proof
  fix e s s'
  assume "b_event e s = Some s'"
  then show "stackText s' = stackText s @ event_text e"
  proof (cases e)
    case (StartNodeAt cp k)
    with \<open>b_event e s = Some s'\<close> show ?thesis
      by (cases s) (auto split: if_splits simp flip: concat_append map_append)
  next
    case FinishNode
    with \<open>b_event e s = Some s'\<close> show ?thesis by (cases s rule: b_finishNode.cases) auto
  next
    case (Token k t)
    with \<open>b_event e s = Some s'\<close> show ?thesis by (cases s) auto
  qed (auto simp: b_startNode_def)
qed

text \<open>C24: whatever sequence of calls a client makes, the tree \<open>build\<close> returns has exactly the
  texts handed to \<open>token\<close>, in the order they were handed over: nodes opened late
  (\<open>startNodeAt\<close>) and nodes closed never move, drop or repeat text.\<close>

theorem builder_lossless:
  assumes "b_run es [] = Some b" and "b_build b = Some g"
  shows "greenText g = concat (map event_text es)"
proof -
  have "stackText b = concat (map event_text es)"
    using builder_machine.run_written [of "[]" es b] assms(1) by (simp add: b_run_def)
  moreover have "stackText b = greenText g"
    using assms(2) by (auto simp: b_build_def split: list.splits)
  ultimately show ?thesis by simp
qed

theorem builder_lossless_witness:
  "b_run [StartNode SourceFile, Token Identifier (u16 ''a''), StartNodeAt 0 IdentExpr, FinishNode,
      Token Semi (u16 '';''), FinishNode] [] =
     Some [mkFrame SourceFile [GreenNode SourceFile
       [GreenNode IdentExpr [GreenToken Identifier (u16 ''a'')], GreenToken Semi (u16 '';'')]]] \<and>
   greenText (GreenNode SourceFile
       [GreenNode IdentExpr [GreenToken Identifier (u16 ''a'')], GreenToken Semi (u16 '';'')]) =
     concat (map event_text [StartNode SourceFile, Token Identifier (u16 ''a''),
       StartNodeAt 0 IdentExpr, FinishNode, Token Semi (u16 '';''), FinishNode])"
proof
  let ?es = "[StartNode SourceFile, Token Identifier (u16 ''a''), StartNodeAt 0 IdentExpr, FinishNode,
      Token Semi (u16 '';''), FinishNode]"
  show *: "b_run ?es [] = Some [mkFrame SourceFile [GreenNode SourceFile
       [GreenNode IdentExpr [GreenToken Identifier (u16 ''a'')], GreenToken Semi (u16 '';'')]]]"
    by (simp add: b_run_def b_startNode_def)
  show "greenText (GreenNode SourceFile
       [GreenNode IdentExpr [GreenToken Identifier (u16 ''a'')], GreenToken Semi (u16 '';'')]) =
     concat (map event_text ?es)"
    by (rule builder_lossless [OF *]) (simp add: b_build_def)
qed

lemma tokenAtOffset_lookup:
  assumes "wfGreen g" and "length (greenText g) < 2 ^ 32" and "i < length (greenText g)"
  shows "\<exists>t. tokenAtOffset (makeRoot g) (of_nat i) = Some t \<and> node_isToken t \<and>
    unat (startOffset t) \<le> i \<and> i < unat (startOffset t) + length (tokenText t) \<and>
    tokenText t ! (i - unat (startOffset t)) = greenText g ! i"
proof -
  have i: "unat (of_nat i :: u32) = i" using assms(2,3) by (simp add: unat_of_nat)
  from tokenAtOffset_correct [of "makeRoot g" "of_nat i"] assms i
  obtain t where t: "tokenAtOffset (makeRoot g) (of_nat i) = Some t" "node_isToken t" "node_fits t"
    "node_contains t i" "unit_at t i = greenText g ! i" "wfGreen (green t)"
    by (auto simp: makeRoot_def node_fits_def node_contains_def unit_at_def)
  then obtain k s where "green t = GreenToken k s" by (auto simp: node_isToken_def wfGreen_isToken)
  with t show ?thesis
    by (auto simp: node_contains_def unit_at_def tokenText_def)
qed

text \<open>In a well formed tree whose text is addressable, \<open>tokenAtOffset\<close> finds a token for
  every offset before the end of the text; that token's range contains the offset and its text
  has at that place the code unit the tree's text has at the offset.\<close>

theorem tokenAtOffset_finds:
  assumes "wfGreen g" and "length (greenText g) < 2 ^ 32" and "i < length (greenText g)"
  shows "\<exists>t. tokenAtOffset (makeRoot g) (of_nat i) = Some t \<and> node_isToken t \<and>
    unat (startOffset t) \<le> i \<and> i < unat (startOffset t) + length (tokenText t) \<and>
    tokenText t ! (i - unat (startOffset t)) = greenText g ! i"
  using assms by (rule tokenAtOffset_lookup)

theorem tokenAtOffset_finds_witness:
  "\<exists>t. tokenAtOffset (makeRoot (GreenNode SourceFile [GreenToken Identifier (u16 ''ab''),
       GreenNode Error [GreenToken Semi (u16 '';'')]])) (of_nat 2) = Some t \<and> node_isToken t \<and>
    unat (startOffset t) \<le> 2 \<and> 2 < unat (startOffset t) + length (tokenText t) \<and>
    tokenText t ! (2 - unat (startOffset t)) = u16 ''ab;'' ! 2"
  using tokenAtOffset_finds [of "GreenNode SourceFile [GreenToken Identifier (u16 ''ab''),
       GreenNode Error [GreenToken Semi (u16 '';'')]]" 2]
  by (simp add: kind_simps u16_def)

text \<open>When a node covers a range, \<open>nodeCovering\<close> answers with a node that covers the range
  and none of whose children does: the innermost one.\<close>

theorem nodeCovering_innermost:
  assumes "start \<ge> startOffset n" and "e \<le> endOffset n"
  shows "\<exists>m. nodeCovering n start e = Some m \<and> start \<ge> startOffset m \<and> e \<le> endOffset m \<and>
    list_all (\<lambda>c. \<not> (start \<ge> startOffset c \<and> e \<le> endOffset c)) (children m)"
  using nodeCovering_smallest [OF assms] by (auto simp: list_all_iff)

theorem nodeCovering_innermost_witness:
  "\<exists>m. nodeCovering (makeRoot (GreenToken Identifier (u16 ''ab''))) 0 1 = Some m \<and>
     0 \<ge> startOffset m \<and> 1 \<le> endOffset m \<and>
     list_all (\<lambda>c. \<not> (0 \<ge> startOffset c \<and> 1 \<le> endOffset c)) (children m)"
  by (rule nodeCovering_innermost) (simp_all add: makeRoot_def endOffset_def u16_def)

end
