(* ===== verification/ParserCore.thy ===== *)
theory ParserCore
  imports Tokenizer Green
begin

text \<open>
  The parser's state and the operations every parse function is built from (\<open>parser/Parser.cpp\<close>, the
  cursor and token functions): what the parser sees, how tokens move into the builder, and how errors
  are reported and skipped.

  A member function that changes the parser is an \<open>action\<close>, a function from the parser to the parser
  after the call; \<open>None\<close> is a failed assertion of the builder, or a call that does not return. A
  \<open>const\<close> member function is a function of the parser.
\<close>

section \<open>The state\<close>

record Parser =
  p_sink :: DiagnosticSink
  tokens :: "LexedToken list"
  nextToEmit :: nat
  current :: nat
  builder :: SyntaxBuilder
  inArmLabels :: bool

type_synonym action = "Parser \<Rightarrow> Parser option"

definition skipTriviaFrom :: "LexedToken list \<Rightarrow> nat \<Rightarrow> nat" where
  "skipTriviaFrom ts i = i + length (takeWhile (\<lambda>t. isTrivia (tok_kind t)) (drop i ts))"

definition mkParser :: "u16string \<Rightarrow> DiagnosticSink \<Rightarrow> Parser" where
  "mkParser src s =
     (case tokenize src s of (ts, s') \<Rightarrow>
        \<lparr>p_sink = s', tokens = ts, nextToEmit = 0, current = skipTriviaFrom ts 0, builder = [],
         inArmLabels = False\<rparr>)"

section \<open>Statements\<close>

text \<open>The control structures of the parse functions: a block of statements, a conditional, a loop, a
  local variable read from the parser, and a node opened before and finished after a block.\<close>

primrec run :: "action list \<Rightarrow> action" where
  "run [] p = Some p"
| "run (a # as) p = Option.bind (a p) (run as)"

definition ifA :: "(Parser \<Rightarrow> bool) \<Rightarrow> action list \<Rightarrow> action list \<Rightarrow> action" where
  "ifA c as bs p = (if c p then run as p else run bs p)"

definition whenA :: "(Parser \<Rightarrow> bool) \<Rightarrow> action list \<Rightarrow> action" where
  "whenA c as p = (if c p then run as p else Some p)"

definition whileA :: "(Parser \<Rightarrow> bool) \<Rightarrow> action list \<Rightarrow> action" where
  "whileA c as = whileP c (run as)"

definition letA :: "(Parser \<Rightarrow> 'a) \<Rightarrow> ('a \<Rightarrow> action) \<Rightarrow> action" where
  "letA q f p = f (q p) p"

definition startNode :: "SyntaxKind \<Rightarrow> action" where
  "startNode k p = Some (p\<lparr>builder := b_startNode k (builder p)\<rparr>)"

definition emitToken :: "SyntaxKind \<Rightarrow> u16string \<Rightarrow> action" where
  "emitToken k t p = map_option (\<lambda>b. p\<lparr>builder := b\<rparr>) (b_token k t (builder p))"

definition finishNode :: action where
  "finishNode p = map_option (\<lambda>b. p\<lparr>builder := b\<rparr>) (b_finishNode (builder p))"

definition startNodeAt :: "nat \<Rightarrow> SyntaxKind \<Rightarrow> action" where
  "startNodeAt cp k p = map_option (\<lambda>b. p\<lparr>builder := b\<rparr>) (b_startNodeAt cp k (builder p))"

definition withCheckpoint :: "(nat \<Rightarrow> action) \<Rightarrow> action" where
  "withCheckpoint f p = Option.bind (b_checkpoint (builder p)) (\<lambda>cp. f cp p)"

definition node :: "SyntaxKind \<Rightarrow> action list \<Rightarrow> action" where
  "node k as = run [startNode k, run as, finishNode]"

definition nodeAt :: "nat \<Rightarrow> SyntaxKind \<Rightarrow> action list \<Rightarrow> action" where
  "nodeAt cp k as = run [startNodeAt cp k, run as, finishNode]"

section \<open>What the parser sees\<close>

definition kindAt :: "Parser \<Rightarrow> SyntaxKind" where
  "kindAt p = (if current p < length (tokens p) then tok_kind (tokens p ! current p) else EndOfFile)"

definition atTok :: "SyntaxKind \<Rightarrow> Parser \<Rightarrow> bool" where
  "atTok k p = (kindAt p = k)"

definition atAny :: "SyntaxKind list \<Rightarrow> Parser \<Rightarrow> bool" where
  "atAny ks p = (kindAt p \<in> set ks)"

definition atEnd :: "Parser \<Rightarrow> bool" where
  "atEnd p = (kindAt p = EndOfFile)"

text \<open>The n-th token that is not trivia in a token list, and its index.\<close>

fun peekFrom :: "LexedToken list \<Rightarrow> nat \<Rightarrow> LexedToken option" where
  "peekFrom [] n = None"
| "peekFrom (t # ts) n =
     (if \<not> isTrivia (tok_kind t) then (if n = 0 then Some t else peekFrom ts (n - 1))
      else peekFrom ts n)"

definition peekToken :: "Parser \<Rightarrow> nat \<Rightarrow> LexedToken option" where
  "peekToken p n = peekFrom (drop (current p) (tokens p)) n"

definition peekKind :: "Parser \<Rightarrow> nat \<Rightarrow> SyntaxKind" where
  "peekKind p n = (case peekToken p n of Some t \<Rightarrow> tok_kind t | None \<Rightarrow> EndOfFile)"

fun rawFrom :: "LexedToken list \<Rightarrow> nat \<Rightarrow> nat \<Rightarrow> nat" where
  "rawFrom [] idx n = idx"
| "rawFrom (t # ts) idx n =
     (if \<not> isTrivia (tok_kind t) then (if n = 0 then idx else rawFrom ts (idx + 1) (n - 1))
      else rawFrom ts (idx + 1) n)"

definition rawIndexOf :: "Parser \<Rightarrow> nat \<Rightarrow> nat" where
  "rawIndexOf p n = rawFrom (drop (current p) (tokens p)) (current p) n"

definition nextIsAdjacent :: "Parser \<Rightarrow> bool" where
  "nextIsAdjacent p =
     (let next = skipTriviaFrom (tokens p) (current p + 1) in
      next < length (tokens p) \<and>
      tok_offset (tokens p ! next) =
        tok_offset (tokens p ! current p) + length (tok_text (tokens p ! current p)))"

definition atNullCoalesce :: "Parser \<Rightarrow> bool" where
  "atNullCoalesce p =
     (if kindAt p \<noteq> Question then False else if peekKind p 1 \<noteq> Question then False else nextIsAdjacent p)"

definition atSeparatedNullCoalesce :: "Parser \<Rightarrow> bool" where
  "atSeparatedNullCoalesce p =
     (if kindAt p \<noteq> Question then False else if peekKind p 1 \<noteq> Question then False else \<not> nextIsAdjacent p)"

definition atSafeSubscript :: "Parser \<Rightarrow> bool" where
  "atSafeSubscript p =
     (if kindAt p \<noteq> Question then False else if peekKind p 1 \<noteq> LBracket then False else nextIsAdjacent p)"

definition leavesQuestionToExpression :: "Parser \<Rightarrow> bool" where
  "leavesQuestionToExpression p =
     (if atNullCoalesce p then True else atSafeSubscript p \<and> peekKind p 2 \<noteq> RBracket)"

section \<open>Moving tokens into the tree\<close>

text \<open>The loop that emits everything before the cursor: \<open>while (nextToEmit < tokens.size() &&
  nextToEmit < current)\<close>.\<close>

definition flushTrivia :: action where
  "flushTrivia = whileA (\<lambda>p. nextToEmit p < length (tokens p) \<and> nextToEmit p < current p)
     [\<lambda>p. emitToken (tok_kind (tokens p ! nextToEmit p)) (tok_text (tokens p ! nextToEmit p)) p,
      \<lambda>p. Some (p\<lparr>nextToEmit := nextToEmit p + 1\<rparr>)]"

definition bumpAs :: "SyntaxKind \<Rightarrow> action" where
  "bumpAs k = run [flushTrivia,
     whenA (\<lambda>p. current p < length (tokens p) \<and> \<not> atEnd p)
       [\<lambda>p. emitToken k (tok_text (tokens p ! current p)) p,
        \<lambda>p. Some (p\<lparr>nextToEmit := current p + 1, current := skipTriviaFrom (tokens p) (current p + 1)\<rparr>)]]"

definition bump :: action where
  "bump = letA kindAt bumpAs"

text \<open>\<open>eat(k)\<close> where its answer is not used.\<close>

definition eat :: "SyntaxKind \<Rightarrow> action" where
  "eat k = whenA (atTok k) [bump]"

section \<open>Errors\<close>

abbreviation qt :: string where "qt \<equiv> [CHR 0x27]"
abbreviation dqt :: string where "dqt \<equiv> [CHR 0x22]"

definition asciiTokenText :: "Parser \<Rightarrow> string" where
  "asciiTokenText p = map (\<lambda>c. if c < 128 then char_of (unat c) else CHR ''?'') (tok_text (tokens p ! current p))"

definition reportSpan :: "SourceSpan \<Rightarrow> string \<Rightarrow> action" where
  "reportSpan sp msg p = Some (p\<lparr>p_sink := sinkError (p_sink p) sp msg\<rparr>)"

definition reportAtCurrent :: "string \<Rightarrow> action" where
  "reportAtCurrent msg p =
     (if current p < length (tokens p)
      then let t = tokens p ! current p in
           reportSpan (mkSpan (tok_line t) (tok_column t) (max 1 (int (length (tok_text t))))) msg p
      else reportSpan (mkSpan 1 1 1) msg p)"

definition reportOverQuestionPair :: "string \<Rightarrow> action" where
  "reportOverQuestionPair msg p =
     (let next = skipTriviaFrom (tokens p) (current p + 1) in
      if current p \<ge> length (tokens p) \<or> next \<ge> length (tokens p) \<or>
         tok_line (tokens p ! next) \<noteq> tok_line (tokens p ! current p)
      then reportAtCurrent msg p
      else let a = tokens p ! current p; b = tokens p ! next in
           reportSpan (mkSpan (tok_line a) (tok_column a)
             (max 1 (tok_column b + int (length (tok_text b)) - tok_column a))) msg p)"

text \<open>The expected kind is a parameter the source does not use.\<close>

definition emitMissing :: "SyntaxKind \<Rightarrow> string \<Rightarrow> action" where
  "emitMissing expectedKind what = run [flushTrivia, emitToken Missing [], reportAtCurrent (''Expected '' @ what)]"

definition expect :: "SyntaxKind \<Rightarrow> string \<Rightarrow> action" where
  "expect k what = ifA (atTok k) [bump] [emitMissing k what]"

definition recoverTo :: "SyntaxKind list \<Rightarrow> action" where
  "recoverTo syncSet = whenA (\<lambda>p. \<not> atEnd p)
     [node Error [whileA (\<lambda>p. \<not> atEnd p \<and> \<not> atAny syncSet p) [bump]]]"

text \<open>
  The loops over declarations, members, statements and arms all end their body the same way: when the
  body consumed nothing, report and skip, and force the cursor on if it still has not moved.
\<close>

definition ensureProgress :: "action list \<Rightarrow> action list \<Rightarrow> action" where
  "ensureProgress body recovery = letA current (\<lambda>start.
     run (body @ [whenA (\<lambda>p. current p = start)
       (recovery @ [whenA (\<lambda>p. current p = start \<and> \<not> atEnd p) [bump]])]))"

section \<open>Well-formed parser states\<close>

definition tokOk :: "LexedToken \<Rightarrow> bool" where
  "tokOk t \<longleftrightarrow> tok_kind t \<noteq> EndOfFile \<and> tok_text t \<noteq> [] \<and> isToken (tok_kind t) \<and> tok_kind t \<noteq> Missing \<and>
     (tok_kind t = GtGt \<longrightarrow> tok_text t = u16 ''>>'') \<and> (tok_kind t = GtGtGt \<longrightarrow> tok_text t = u16 ''>>>'')"

definition tokensOk :: "LexedToken list \<Rightarrow> bool" where
  "tokensOk ts \<longleftrightarrow> (\<exists>us e. ts = us @ [e] \<and> tok_kind e = EndOfFile \<and> tok_text e = [] \<and> list_all tokOk us)"

definition pinv :: "Parser \<Rightarrow> bool" where
  "pinv p \<longleftrightarrow> tokensOk (tokens p) \<and> current p < length (tokens p) \<and> \<not> isTrivia (kindAt p) \<and>
     nextToEmit p \<le> current p \<and> builder p \<noteq> []"

text \<open>The length of the text the cursor has not passed, and the text not yet in the tree.\<close>

definition rem :: "Parser \<Rightarrow> nat" where
  "rem p = length (concat (map tok_text (drop (current p) (tokens p))))"

definition pending :: "Parser \<Rightarrow> u16string" where
  "pending p = concat (map tok_text (drop (nextToEmit p) (tokens p)))"

text \<open>A tree without recovery: no missing token, no error node.\<close>

fun clean :: "GreenElement \<Rightarrow> bool" where
  "clean (GreenToken k t) = (k \<noteq> Missing)"
| "clean (GreenNode k cs) = (k \<noteq> Error \<and> list_all clean cs)"

definition grows :: "SyntaxBuilder \<Rightarrow> GreenElement list \<Rightarrow> SyntaxBuilder \<Rightarrow> bool" where
  "grows b new b' \<longleftrightarrow>
     (\<exists>f fs. b = f # fs \<and> b' = mkFrame (frame_kind f) (frame_children f @ new) # fs)"

text \<open>What an action did: it appended \<open>new\<close> to the node being built, reported \<open>ds\<close>, and passed the
  text it appended.\<close>

definition delta :: "Parser \<Rightarrow> Parser \<Rightarrow> GreenElement list \<Rightarrow> Diagnostic list \<Rightarrow> bool" where
  "delta p p' new ds \<longleftrightarrow> pinv p' \<and> current p \<le> current p' \<and> rem p' \<le> rem p \<and>
     (current p < current p' \<longrightarrow> rem p' < rem p) \<and>
     (current p' = current p \<longrightarrow> atEnd p' \<longrightarrow> atEnd p) \<and>
     grows (builder p) new (builder p') \<and> list_all wfGreen new \<and>
     pending p = greenTexts new @ pending p' \<and>
     p_sink p' = p_sink p @ ds \<and> (\<forall>x \<in> set ds. level x = LevelError)"

text \<open>\<open>dirty\<close> says that an error has already been reported, so recovery may leave its marks.\<close>

definition step :: "bool \<Rightarrow> Parser \<Rightarrow> Parser \<Rightarrow> bool" where
  "step dirty p p' \<longleftrightarrow> (\<exists>new ds. delta p p' new ds \<and> (dirty \<or> ds \<noteq> [] \<or> list_all clean new))"

lemma mkFrame_same [simp]: "mkFrame (frame_kind f) (frame_children f) = f"
  by (simp add: mkFrame_def)

lemma grows_refl: "b \<noteq> [] \<Longrightarrow> grows b [] b"
  by (cases b) (auto simp: grows_def)

lemma grows_trans: "grows a x b \<Longrightarrow> grows b y c \<Longrightarrow> grows a (x @ y) c"
  by (auto simp: grows_def)

lemma delta_refl: "pinv p \<Longrightarrow> delta p p [] []"
  by (simp add: delta_def grows_refl pinv_def)

lemma delta_trans:
  assumes "delta p q x ds" and "delta q r y es"
  shows "delta p r (x @ y) (ds @ es)"
proof -
  have "grows (builder p) (x @ y) (builder r)"
    using assms by (auto simp: delta_def intro: grows_trans)
  with assms show ?thesis unfolding delta_def by auto
qed

lemma step_refl: "pinv p \<Longrightarrow> step d p p"
  using delta_refl by (fastforce simp: step_def)

lemma step_trans: "step d p q \<Longrightarrow> step d q r \<Longrightarrow> step d p r"
  using delta_trans by (fastforce simp: step_def)

lemma step_mono: "step False p q \<Longrightarrow> step d p q"
  by (auto simp: step_def)

lemma step_pinv: "step d p q \<Longrightarrow> pinv q"
  and step_rem: "step d p q \<Longrightarrow> rem q \<le> rem p"
  and step_current: "step d p q \<Longrightarrow> current p < current q \<Longrightarrow> rem q < rem p"
  and step_current_le: "step d p q \<Longrightarrow> current p \<le> current q"
  and step_atEnd: "step d p q \<Longrightarrow> current p = current q \<Longrightarrow> atEnd q \<Longrightarrow> atEnd p"
  by (auto simp: step_def delta_def)

section \<open>Actions that return\<close>

text \<open>
  \<open>acts d S n a\<close>: from every well-formed parser whose current token's kind is in \<open>S\<close> and whose
  remaining text is shorter than \<open>n\<close>, the action returns and does what \<open>step\<close> says. \<open>eats\<close> also asks
  that it consume something.
\<close>

definition acts :: "bool \<Rightarrow> SyntaxKind set \<Rightarrow> nat \<Rightarrow> action \<Rightarrow> bool" where
  "acts d S n a \<longleftrightarrow> (\<forall>p. pinv p \<longrightarrow> kindAt p \<in> S \<longrightarrow> rem p < n \<longrightarrow> (\<exists>p'. a p = Some p' \<and> step d p p'))"

definition eats :: "bool \<Rightarrow> SyntaxKind set \<Rightarrow> nat \<Rightarrow> action \<Rightarrow> bool" where
  "eats d S n a \<longleftrightarrow> (\<forall>p. pinv p \<longrightarrow> kindAt p \<in> S \<longrightarrow> rem p < n \<longrightarrow>
     (\<exists>p'. a p = Some p' \<and> step d p p' \<and> rem p' < rem p))"

lemma actsI:
  "(\<And>p. pinv p \<Longrightarrow> kindAt p \<in> S \<Longrightarrow> rem p < n \<Longrightarrow> \<exists>p'. a p = Some p' \<and> step d p p') \<Longrightarrow> acts d S n a"
  by (auto simp: acts_def)

lemma actsE:
  assumes "acts d S n a" and "pinv p" and "kindAt p \<in> S" and "rem p < n"
  obtains p' where "a p = Some p'" and "step d p p'"
  using assms by (auto simp: acts_def)

lemma eatsI:
  "(\<And>p. pinv p \<Longrightarrow> kindAt p \<in> S \<Longrightarrow> rem p < n \<Longrightarrow> \<exists>p'. a p = Some p' \<and> step d p p' \<and> rem p' < rem p) \<Longrightarrow>
     eats d S n a"
  by (auto simp: eats_def)

lemma eatsE:
  assumes "eats d S n a" and "pinv p" and "kindAt p \<in> S" and "rem p < n"
  obtains p' where "a p = Some p'" and "step d p p'" and "rem p' < rem p"
  using assms by (auto simp: eats_def)

lemma actsD: "acts d S n a \<Longrightarrow> pinv p \<Longrightarrow> kindAt p \<in> S \<Longrightarrow> rem p < n \<Longrightarrow> \<exists>p'. a p = Some p' \<and> step d p p'"
  by (simp add: acts_def)

lemma eatsD:
  "eats d S n a \<Longrightarrow> pinv p \<Longrightarrow> kindAt p \<in> S \<Longrightarrow> rem p < n \<Longrightarrow>
     \<exists>p'. a p = Some p' \<and> step d p p' \<and> rem p' < rem p"
  by (simp add: eats_def)

lemma eats_acts: "eats d S n a \<Longrightarrow> acts d S n a"
  by (fastforce simp: acts_def eats_def)

lemma acts_weaken: "acts e S n a \<Longrightarrow> e \<le> d \<Longrightarrow> T \<subseteq> S \<Longrightarrow> m \<le> n \<Longrightarrow> acts d T m a"
  by (cases e; cases d) (fastforce simp: acts_def dest: step_mono)+

lemma eats_weaken: "eats e S n a \<Longrightarrow> e \<le> d \<Longrightarrow> T \<subseteq> S \<Longrightarrow> m \<le> n \<Longrightarrow> eats d T m a"
  by (cases e; cases d) (fastforce simp: eats_def dest: step_mono)+

lemma acts_run_Nil [act_intros]: "acts d S n (run [])"
  by (auto simp: acts_def intro: step_refl)

lemma acts_run_Cons [act_intros]:
  assumes "acts d S n a" and "acts d UNIV n (run as)"
  shows "acts d S n (run (a # as))"
proof (rule actsI)
  fix p
  assume p: "pinv p" "kindAt p \<in> S" "rem p < n"
  from actsE [OF assms(1) p] obtain q where q: "a p = Some q" "step d p q" .
  with p(3) have "rem q < n" using step_rem [OF q(2)] by simp
  from actsE [OF assms(2) step_pinv [OF q(2)] UNIV_I this] obtain r where "run as q = Some r" "step d q r" .
  with q show "\<exists>p'. run (a # as) p = Some p' \<and> step d p p'" by (auto intro: step_trans)
qed

text \<open>After an action that consumes something, less fuel is enough.\<close>

lemma eats_run_Suc:
  assumes "eats d S (Suc n) a" and "acts d UNIV n (run as)"
  shows "eats d S (Suc n) (run (a # as))"
proof (rule eatsI)
  fix p
  assume p: "pinv p" "kindAt p \<in> S" "rem p < Suc n"
  from eatsE [OF assms(1) p] obtain q where q: "a p = Some q" "step d p q" "rem q < rem p" .
  with p(3) have "rem q < n" by simp
  from actsE [OF assms(2) step_pinv [OF q(2)] UNIV_I this] obtain r where r: "run as q = Some r" "step d q r" .
  with q step_rem [OF r(2)] show "\<exists>p'. run (a # as) p = Some p' \<and> step d p p' \<and> rem p' < rem p"
    by (auto intro: step_trans)
qed

lemma eats_run_first:
  assumes "eats d S n a" and "acts d UNIV n (run as)"
  shows "eats d S n (run (a # as))"
proof (cases n)
  case 0
  then show ?thesis by (simp add: eats_def)
next
  case (Suc m)
  have "acts d UNIV m (run as)" using assms(2) by (rule acts_weaken) (simp_all add: Suc)
  with assms(1) show ?thesis unfolding Suc by (rule eats_run_Suc)
qed

lemma run_append: "run (as @ bs) p = Option.bind (run as p) (run bs)"
proof (induction as arbitrary: p)
  case (Cons a as)
  then show ?case by (cases "a p") simp_all
qed simp

lemma run_single: "run [a] = a"
proof
  fix p
  show "run [a] p = a p" by (cases "a p") simp_all
qed

lemma acts_run_append:
  assumes "acts d S n (run as)" and "acts d UNIV n (run bs)"
  shows "acts d S n (run (as @ bs))"
proof -
  have "run (as @ bs) p = run [run as, run bs] p" for p
    by (simp only: run_append run.simps(2) run_single)
  then have "run (as @ bs) = run [run as, run bs]" by (rule ext)
  with assms show ?thesis by (simp add: acts_run_Cons run_single del: run.simps)
qed

lemma acts_run_run [act_intros]: "acts d S n (run as) \<Longrightarrow> acts d S n (run [run as])"
  by (simp only: run_single)

lemma acts_ifA [act_intros]:
  "acts d S n (run as) \<Longrightarrow> acts d S n (run bs) \<Longrightarrow> acts d S n (ifA c as bs)"
  by (auto simp: acts_def ifA_def)

lemma acts_ifA_kind:
  "(\<And>p. c p \<Longrightarrow> kindAt p \<in> T) \<Longrightarrow> acts d T n (run as) \<Longrightarrow> acts d S n (run bs) \<Longrightarrow> acts d S n (ifA c as bs)"
  by (auto simp: acts_def ifA_def)

lemma acts_if_at: "acts d {k} n (run as) \<Longrightarrow> acts d S n (run bs) \<Longrightarrow> acts d S n (ifA (atTok k) as bs)"
  by (rule acts_ifA_kind) (auto simp: atTok_def)

lemma acts_whenA [act_intros]: "acts d S n (run as) \<Longrightarrow> acts d S n (whenA c as)"
  by (auto simp: acts_def whenA_def intro: step_refl)

lemma acts_whenA_kind:
  "(\<And>p. c p \<Longrightarrow> kindAt p \<in> T) \<Longrightarrow> acts d T n (run as) \<Longrightarrow> acts d S n (whenA c as)"
  by (auto simp: acts_def whenA_def intro: step_refl)

lemma acts_when_at: "acts d {k} n (run as) \<Longrightarrow> acts d S n (whenA (atTok k) as)"
  by (rule acts_whenA_kind) (auto simp: atTok_def)

lemma acts_letA [act_intros]: "(\<And>x. acts d S n (f x)) \<Longrightarrow> acts d S n (letA q f)"
  by (auto simp: acts_def letA_def)

lemma acts_whileA_inv:
  assumes "\<And>p. pinv p \<Longrightarrow> c p \<Longrightarrow> kindAt p \<in> T" and "eats d T n (run as)"
  shows "acts d S n (whileA c as)"
proof (rule actsI)
  fix p
  assume p: "pinv p" "kindAt p \<in> S" "rem p < n"
  have "\<exists>p'. whileP c (run as) p = Some p' \<and> (pinv p' \<and> rem p' < n) \<and> step d p p' \<and> \<not> c p'"
  proof (rule whileP_total [where m = rem])
    fix s
    assume s: "pinv s \<and> rem s < n" "c s"
    with eatsE [OF assms(2), of s] assms(1) obtain t where "run as s = Some t" "step d s t" "rem t < rem s"
      by blast
    with s show "\<exists>s'. run as s = Some s' \<and> (pinv s' \<and> rem s' < n) \<and> step d s s' \<and> rem s' < rem s"
      by (auto dest: step_pinv)
  qed (use p in \<open>auto intro: step_refl step_trans\<close>)
  then show "\<exists>p'. whileA c as p = Some p' \<and> step d p p'" by (auto simp: whileA_def)
qed

lemma acts_whileA:
  "(\<And>p. c p \<Longrightarrow> kindAt p \<in> T) \<Longrightarrow> eats d T n (run as) \<Longrightarrow> acts d S n (whileA c as)"
  by (rule acts_whileA_inv)

lemma acts_while_at: "eats d {k} n (run as) \<Longrightarrow> acts d S n (whileA (atTok k) as)"
  by (rule acts_whileA [where T = "{k}"]) (auto simp: atTok_def)

section \<open>The elementary actions\<close>

lemma tokensOk_nth:
  "tokensOk ts \<Longrightarrow> i < length ts \<Longrightarrow> tok_kind (ts ! i) \<noteq> EndOfFile \<Longrightarrow> tokOk (ts ! i) \<and> Suc i < length ts"
  by (auto simp: tokensOk_def nth_append list_all_length split: if_splits)

lemma tokensOk_before: "tokensOk ts \<Longrightarrow> Suc i < length ts \<Longrightarrow> tokOk (ts ! i)"
  by (auto simp: tokensOk_def nth_append list_all_length)

lemma tokOk_clean:
  "tokOk t \<Longrightarrow> wfGreen (GreenToken (tok_kind t) (tok_text t)) \<and> clean (GreenToken (tok_kind t) (tok_text t))"
  by (simp add: tokOk_def)

lemma update_simps [simp]:
  "kindAt (p\<lparr>builder := b\<rparr>) = kindAt p" "kindAt (p\<lparr>p_sink := s\<rparr>) = kindAt p"
  "kindAt (p\<lparr>nextToEmit := i\<rparr>) = kindAt p" "kindAt (p\<lparr>inArmLabels := l\<rparr>) = kindAt p"
  "rem (p\<lparr>builder := b\<rparr>) = rem p" "rem (p\<lparr>p_sink := s\<rparr>) = rem p"
  "rem (p\<lparr>nextToEmit := i\<rparr>) = rem p" "rem (p\<lparr>inArmLabels := l\<rparr>) = rem p"
  "pending (p\<lparr>builder := b\<rparr>) = pending p" "pending (p\<lparr>p_sink := s\<rparr>) = pending p"
  "pending (p\<lparr>inArmLabels := l\<rparr>) = pending p"
  by (simp_all add: kindAt_def rem_def pending_def)

lemma kindAt_cong: "tokens q = tokens p \<Longrightarrow> current q = current p \<Longrightarrow> kindAt q = kindAt p"
  by (simp add: kindAt_def)

lemma rem_cong: "tokens q = tokens p \<Longrightarrow> current q = current p \<Longrightarrow> rem q = rem p"
  by (simp add: rem_def)

lemma emitToken_grows:
  "builder p \<noteq> [] \<Longrightarrow> \<exists>b. emitToken k t p = Some (p\<lparr>builder := b\<rparr>) \<and> grows (builder p) [GreenToken k t] b"
  by (cases "builder p") (auto simp: emitToken_def grows_def)

text \<open>An action that emits one token's text and moves \<open>nextToEmit\<close> past it, the cursor staying.\<close>

definition flushed :: "Parser \<Rightarrow> Parser \<Rightarrow> bool" where
  "flushed p q \<longleftrightarrow> (\<exists>new. delta p q new [] \<and> list_all clean new) \<and> tokens q = tokens p \<and>
     current q = current p \<and> inArmLabels q = inArmLabels p"

lemma flushed_step: "flushed p q \<Longrightarrow> step d p q"
  by (auto simp: flushed_def step_def)

lemma flushed_trans: "flushed p q \<Longrightarrow> flushed q r \<Longrightarrow> flushed p r"
  using delta_trans by (fastforce simp: flushed_def)

lemma flush_one:
  assumes "pinv p" and "nextToEmit p < current p"
  defines "t \<equiv> tokens p ! nextToEmit p"
  shows "\<exists>q. run [emitToken (tok_kind t) (tok_text t), \<lambda>p. Some (p\<lparr>nextToEmit := nextToEmit p + 1\<rparr>)] p = Some q \<and>
    flushed p q \<and> nextToEmit q = nextToEmit p + 1"
proof -
  from assms(1) have b: "builder p \<noteq> []" by (simp add: pinv_def)
  from emitToken_grows [OF b] obtain b' where e: "emitToken (tok_kind t) (tok_text t) p = Some (p\<lparr>builder := b'\<rparr>)"
    and g: "grows (builder p) [GreenToken (tok_kind t) (tok_text t)] b'" by blast
  let ?q = "p\<lparr>builder := b', nextToEmit := nextToEmit p + 1\<rparr>"
  have t: "tokOk t" unfolding t_def
    using assms(1,2) by (intro tokensOk_before) (auto simp: pinv_def)
  have "pending p = tok_text t @ pending ?q"
    using assms by (simp add: pending_def pinv_def drop_nth_Cons t_def)
  moreover have "pinv ?q"
    using assms g by (auto simp: pinv_def grows_def)
  ultimately have "delta p ?q [GreenToken (tok_kind t) (tok_text t)] []"
    using g tokOk_clean [OF t] by (auto simp: delta_def atEnd_def)
  then have "flushed p ?q" using tokOk_clean [OF t] by (force simp: flushed_def)
  with e show ?thesis by (intro exI [of _ ?q]) simp
qed

lemma flushTrivia_flushed:
  assumes "pinv p"
  shows "\<exists>q. flushTrivia p = Some q \<and> flushed p q \<and> nextToEmit q = current q"
proof -
  let ?b = "run [\<lambda>p. emitToken (tok_kind (tokens p ! nextToEmit p)) (tok_text (tokens p ! nextToEmit p)) p,
      \<lambda>p. Some (p\<lparr>nextToEmit := nextToEmit p + 1\<rparr>)]"
  let ?c = "\<lambda>p. nextToEmit p < length (tokens p) \<and> nextToEmit p < current p"
  have "\<exists>q. whileP ?c ?b p = Some q \<and> pinv q \<and> flushed p q \<and> \<not> ?c q"
  proof (rule whileP_total [where m = "\<lambda>p. current p - nextToEmit p"])
    fix s
    assume s: "pinv s" "?c s"
    with flush_one [of s] obtain q where q: "?b s = Some q" "flushed s q" "nextToEmit q = nextToEmit s + 1"
      by auto
    then have "pinv q \<and> current q = current s" by (auto simp: flushed_def delta_def)
    with q s show "\<exists>s'. ?b s = Some s' \<and> pinv s' \<and> flushed s s' \<and> current s' - nextToEmit s' < current s - nextToEmit s"
      by auto
  next
    show "\<And>s. pinv s \<Longrightarrow> flushed s s" by (auto simp: flushed_def intro!: exI [of _ "[]"] delta_refl)
  qed (use assms in \<open>auto intro: flushed_trans\<close>)
  then show ?thesis by (auto simp: flushTrivia_def whileA_def pinv_def)
qed

lemma skipTriviaFrom_bounds:
  assumes "tokensOk ts" and "i < length ts"
  shows "i \<le> skipTriviaFrom ts i \<and> skipTriviaFrom ts i < length ts \<and>
    \<not> isTrivia (tok_kind (ts ! skipTriviaFrom ts i))"
proof -
  let ?n = "length (takeWhile (\<lambda>t. isTrivia (tok_kind t)) (drop i ts))"
  obtain us e where ts: "ts = us @ [e]" "tok_kind e = EndOfFile" using assms(1) by (auto simp: tokensOk_def)
  have "e \<in> set (drop i ts)" using assms(2) ts by simp
  moreover have "\<not> isTrivia (tok_kind e)" using ts by (simp add: kind_simps)
  ultimately have n: "?n < length (drop i ts)"
    by (metis length_takeWhile_le le_neq_implies_less set_takeWhileD takeWhile_eq_all_conv takeWhile_eq_take take_all_iff)
  then have "\<not> isTrivia (tok_kind (drop i ts ! ?n))" by (metis nth_length_takeWhile)
  with n assms(2) show ?thesis by (auto simp: skipTriviaFrom_def add.commute)
qed

lemma rem_after:
  assumes "tokensOk ts" and "Suc i \<le> j" and "j < length ts"
  shows "length (concat (map tok_text (drop j ts))) < length (concat (map tok_text (drop i ts)))"
proof -
  have "tokOk (ts ! i)" using assms by (intro tokensOk_before) auto
  then have "tok_text (ts ! i) \<noteq> []" by (simp add: tokOk_def)
  moreover have "drop (Suc i) ts = take (j - Suc i) (drop (Suc i) ts) @ drop j ts"
    using assms(2,3) by (simp add: drop_slice_append)
  then have "length (concat (map tok_text (drop (Suc i) ts))) \<ge> length (concat (map tok_text (drop j ts)))"
    by (metis concat_append le_add2 length_append map_append)
  moreover have "drop i ts = ts ! i # drop (Suc i) ts" using assms(2,3) by (simp add: drop_nth_Cons)
  ultimately show ?thesis by (cases "tok_text (ts ! i)") simp_all
qed

lemma bumpAs_eats_step:
  assumes "pinv p" and "\<not> atEnd p" and "isToken k" and "k \<noteq> Missing"
  shows "\<exists>q. bumpAs k p = Some q \<and> step d p q \<and> rem q < rem p"
proof -
  from flushTrivia_flushed [OF assms(1)] obtain f where f: "flushTrivia p = Some f" "flushed p f"
    "nextToEmit f = current f" by blast
  let ?t = "tokens f ! current f" and ?j = "skipTriviaFrom (tokens f) (current f + 1)"
  have inv: "pinv f" using f(2) by (auto simp: flushed_def delta_def)
  have e: "\<not> atEnd f" using assms(2) f(2) by (auto simp: atEnd_def flushed_def kindAt_cong [of f p])
  from inv have ok: "tokensOk (tokens f)" "current f < length (tokens f)" "builder f \<noteq> []" by (auto simp: pinv_def)
  from tokensOk_nth [OF ok(1,2)] e ok(2) have s: "Suc (current f) < length (tokens f)"
    by (simp add: atEnd_def kindAt_def)
  note j = skipTriviaFrom_bounds [OF ok(1) s]
  from emitToken_grows [OF ok(3)] obtain b where em: "emitToken k (tok_text ?t) f = Some (f\<lparr>builder := b\<rparr>)"
    and g: "grows (builder f) [GreenToken k (tok_text ?t)] b" by blast
  let ?q = "f\<lparr>builder := b, nextToEmit := current f + 1, current := ?j\<rparr>"
  have q: "bumpAs k p = Some ?q"
    using f(1) em e ok(2) by (simp add: bumpAs_def whenA_def)
  have rem: "rem ?q < rem f"
    using rem_after [OF ok(1), of "current f" ?j] j by (simp add: rem_def)
  have "pending f = tok_text ?t @ pending ?q"
    using ok(2) f(3) by (simp add: pending_def drop_nth_Cons)
  moreover have "pinv ?q" using inv g j by (auto simp: pinv_def grows_def kindAt_def)
  ultimately have "delta f ?q [GreenToken k (tok_text ?t)] []"
    using rem g j assms(3) by (auto simp: delta_def)
  then have "step d f ?q" using assms(4) by (force simp: step_def)
  with flushed_step [OF f(2)] have "step d p ?q" by (rule step_trans)
  moreover have "rem f = rem p" using f(2) by (simp add: flushed_def rem_def)
  ultimately show ?thesis using q rem by auto
qed

lemma bumpAs_step:
  assumes "pinv p" and "isToken k" and "k \<noteq> Missing"
  shows "\<exists>q. bumpAs k p = Some q \<and> step d p q"
proof (cases "atEnd p")
  case True
  from flushTrivia_flushed [OF assms(1)] obtain f where f: "flushTrivia p = Some f" "flushed p f" by blast
  then have "atEnd f" using True by (auto simp: atEnd_def flushed_def kindAt_cong [of f p])
  with f show ?thesis by (auto simp: bumpAs_def whenA_def intro: flushed_step)
next
  case False
  with bumpAs_eats_step [of p k d] assms show ?thesis by blast
qed

lemma kindAt_ok: "pinv p \<Longrightarrow> isToken (kindAt p) \<and> kindAt p \<noteq> Missing"
  using tokensOk_nth [of "tokens p" "current p"]
  by (cases "kindAt p = EndOfFile") (auto simp: pinv_def kindAt_def tokOk_def kind_simps)

lemma bumpAs_eats: "EndOfFile \<notin> S \<Longrightarrow> isToken k \<Longrightarrow> k \<noteq> Missing \<Longrightarrow> eats d S n (bumpAs k)"
  by (rule eatsI) (metis atEnd_def bumpAs_eats_step)

lemma bump_eats: "EndOfFile \<notin> S \<Longrightarrow> eats d S n bump"
  unfolding bump_def letA_def by (rule eatsI) (metis atEnd_def bumpAs_eats_step kindAt_ok)

lemma bump_acts [act_intros]: "acts d S n bump"
  using bumpAs_step kindAt_ok by (auto simp: acts_def bump_def letA_def)

lemma bumpAs_acts [act_intros]: "isToken k \<Longrightarrow> k \<noteq> Missing \<Longrightarrow> acts d S n (bumpAs k)"
  using bumpAs_step by (auto simp: acts_def)

lemma eat_acts [act_intros]: "acts d S n (eat k)"
  unfolding eat_def by (intro act_intros)

text \<open>Reports.\<close>

definition reports :: "action \<Rightarrow> bool" where
  "reports a \<longleftrightarrow> (\<forall>p. pinv p \<longrightarrow> (\<exists>q new ds. a p = Some q \<and> delta p q new ds \<and> ds \<noteq> []))"

lemma reports_acts: "reports a \<Longrightarrow> acts d S n a"
  by (fastforce simp: reports_def acts_def step_def)

lemma reportSpan_reports: "reports (reportSpan sp m)"
  unfolding reports_def
proof clarify
  fix p
  assume p: "pinv p"
  let ?q = "p\<lparr>p_sink := sinkError (p_sink p) sp m\<rparr>"
  let ?ds = "[\<lparr>level = LevelError, span = sp, message = m\<rparr>]"
  have "pinv ?q" using p by (simp add: pinv_def)
  then have "delta p ?q [] ?ds"
    using p by (simp add: delta_def sinkError_def report_def atEnd_def grows_refl pinv_def)
  then show "\<exists>q new ds. reportSpan sp m p = Some q \<and> delta p q new ds \<and> ds \<noteq> []"
    by (intro exI [of _ ?q] exI [of _ "[]"] exI [of _ ?ds]) (simp add: reportSpan_def)
qed

lemma reportAtCurrent_reports: "reports (reportAtCurrent m)"
  using reportSpan_reports by (auto simp: reports_def reportAtCurrent_def Let_def)

lemma reportOverQuestionPair_reports: "reports (reportOverQuestionPair m)"
  using reportSpan_reports reportAtCurrent_reports
  by (auto simp: reports_def reportOverQuestionPair_def Let_def)

lemma emitMissing_reports: "reports (emitMissing k m)"
  unfolding reports_def
proof clarify
  fix p
  assume "pinv p"
  from flushTrivia_flushed [OF this] obtain f new where f: "flushTrivia p = Some f" "delta p f new []"
    by (auto simp: flushed_def)
  then have inv: "pinv f" by (simp add: delta_def)
  then have b: "builder f \<noteq> []" by (simp add: pinv_def)
  from emitToken_grows [OF b] obtain b' where em: "emitToken Missing [] f = Some (f\<lparr>builder := b'\<rparr>)"
    and g: "grows (builder f) [GreenToken Missing []] b'" by blast
  let ?g = "f\<lparr>builder := b'\<rparr>"
  have "pinv ?g" using inv g by (auto simp: pinv_def grows_def)
  moreover from this have "delta f ?g [GreenToken Missing []] []"
    using g by (simp add: delta_def atEnd_def kind_simps)
  moreover obtain q x ds where "reportAtCurrent (''Expected '' @ m) ?g = Some q" "delta ?g q x ds" "ds \<noteq> []"
    using reportAtCurrent_reports \<open>pinv ?g\<close> unfolding reports_def by blast
  ultimately have "emitMissing k m p = Some q" "delta p q (new @ [GreenToken Missing []] @ x) ([] @ [] @ ds)"
    using f em by (simp add: emitMissing_def, blast intro: delta_trans)
  with \<open>ds \<noteq> []\<close> show "\<exists>q new ds. emitMissing k m p = Some q \<and> delta p q new ds \<and> ds \<noteq> []"
    by (metis append_Nil)
qed

lemmas report_acts [act_intros] =
  reports_acts [OF reportAtCurrent_reports] reports_acts [OF reportOverQuestionPair_reports]
  reports_acts [OF emitMissing_reports]

text \<open>After a report, recovery may leave its marks.\<close>

lemma acts_reports:
  assumes "reports a" and "acts True UNIV n (run as)"
  shows "acts d S n (run (a # as))"
proof (rule actsI)
  fix p
  assume p: "pinv p" "kindAt p \<in> S" "rem p < n"
  with assms(1) obtain q new ds where q: "a p = Some q" "delta p q new ds" "ds \<noteq> []" by (auto simp: reports_def)
  then have "pinv q" "rem q < n" using p(3) by (auto simp: delta_def)
  from actsE [OF assms(2) this(1) UNIV_I this(2)] obtain r where "run as q = Some r" "step True q r" .
  then obtain x es where r: "run as q = Some r" "delta q r x es" by (auto simp: step_def)
  from delta_trans [OF q(2) r(2)] q(3) have "step d p r" by (fastforce simp: step_def)
  with q r show "\<exists>p'. run (a # as) p = Some p' \<and> step d p p'" by auto
qed

lemmas acts_report_recover = acts_reports [OF reportAtCurrent_reports]
lemmas acts_missing_recover = acts_reports [OF emitMissing_reports]

lemma expect_acts [act_intros]: "acts d S n (expect k m)"
  unfolding expect_def by (intro act_intros)

lemma expect_eats: "k \<noteq> EndOfFile \<Longrightarrow> eats d {k} n (expect k m)"
  using bump_eats [of "{k}" d n] by (simp add: expect_def eats_def ifA_def atTok_def run_single del: run.simps)

lemma whenA_eats:
  assumes "eats d S n (run as)" and "\<And>p. kindAt p \<in> S \<Longrightarrow> c p"
  shows "eats d S n (whenA c as)"
  using assms by (auto simp: eats_def whenA_def)

section \<open>Nodes\<close>

text \<open>Closing a frame hands its children to the frame below as one node.\<close>

lemma close_frame:
  assumes "delta q0 q new ds" and "builder q0 = mkFrame k xs # f # fs" and "isNode k"
    and "list_all wfGreen xs"
  shows "\<exists>r. finishNode q = Some r \<and> tokens r = tokens q \<and> current r = current q \<and> nextToEmit r = nextToEmit q \<and>
    p_sink r = p_sink q \<and> pinv r \<and>
    builder r = mkFrame (frame_kind f) (frame_children f @ [GreenNode k (xs @ new)]) # fs \<and>
    wfGreen (GreenNode k (xs @ new))"
proof -
  have b: "builder q = mkFrame k (xs @ new) # f # fs"
    using assms(1,2) by (auto simp: delta_def grows_def)
  let ?r = "q\<lparr>builder := mkFrame (frame_kind f) (frame_children f @ [GreenNode k (xs @ new)]) # fs\<rparr>"
  have "finishNode q = Some ?r" by (simp add: finishNode_def b)
  moreover have "pinv ?r" using assms(1) by (simp add: delta_def pinv_def)
  moreover have "wfGreen (GreenNode k (xs @ new))" using assms(1,3,4) by (simp add: delta_def)
  ultimately show ?thesis by (intro exI [of _ ?r]) simp
qed

lemma rem_state: "tokens r = tokens q \<Longrightarrow> current r = current q \<Longrightarrow> nextToEmit r = nextToEmit q \<Longrightarrow>
    rem r = rem q \<and> pending r = pending q \<and> kindAt r = kindAt q"
  by (simp add: rem_def pending_def kindAt_def)

lemma node_step:
  assumes "pinv p" and "isNode k" and "k \<noteq> Error \<or> d"
    and "run as (p\<lparr>builder := b_startNode k (builder p)\<rparr>) = Some q"
    and "step d (p\<lparr>builder := b_startNode k (builder p)\<rparr>) q"
  shows "\<exists>r. node k as p = Some r \<and> step d p r \<and> rem r = rem q"
proof -
  let ?q0 = "p\<lparr>builder := b_startNode k (builder p)\<rparr>"
  obtain f fs where f: "builder p = f # fs" using assms(1) by (cases "builder p") (auto simp: pinv_def)
  from assms(5) obtain new ds where d: "delta ?q0 q new ds" "d \<or> ds \<noteq> [] \<or> list_all clean new"
    by (auto simp: step_def)
  from close_frame [OF d(1), of k "[]" f fs] assms(2) f obtain r where r: "finishNode q = Some r"
    "tokens r = tokens q" "current r = current q" "nextToEmit r = nextToEmit q" "p_sink r = p_sink q" "pinv r"
    "builder r = mkFrame (frame_kind f) (frame_children f @ [GreenNode k new]) # fs" "wfGreen (GreenNode k new)"
    by (auto simp: b_startNode_def)
  note rq = rem_state [OF r(2-4)]
  have "delta p r [GreenNode k new] ds"
    using d(1) r f rq by (auto simp: delta_def grows_def atEnd_def)
  then have "step d p r" using d(2) assms(3) by (fastforce simp: step_def)
  with assms(4) r rq show ?thesis by (intro exI [of _ r]) (simp add: node_def startNode_def)
qed

lemma startNode_pinv: "pinv p \<Longrightarrow> pinv (p\<lparr>builder := b_startNode k (builder p)\<rparr>)"
  by (simp add: pinv_def b_startNode_def)

lemma acts_node [act_intros]:
  assumes "acts d S n (run as)" and "isNode k" and "k \<noteq> Error \<or> d"
  shows "acts d S n (node k as)"
proof (rule actsI)
  fix p
  assume p: "pinv p" "kindAt p \<in> S" "rem p < n"
  from actsE [OF assms(1) startNode_pinv [OF p(1), of k]] p obtain q where
    "run as (p\<lparr>builder := b_startNode k (builder p)\<rparr>) = Some q"
    "step d (p\<lparr>builder := b_startNode k (builder p)\<rparr>) q" by auto
  from node_step [OF p(1) assms(2,3) this] show "\<exists>p'. node k as p = Some p' \<and> step d p p'" by blast
qed

lemma eats_node:
  assumes "eats d S n (run as)" and "isNode k" and "k \<noteq> Error \<or> d"
  shows "eats d S n (node k as)"
proof (rule eatsI)
  fix p
  assume p: "pinv p" "kindAt p \<in> S" "rem p < n"
  from eatsE [OF assms(1) startNode_pinv [OF p(1), of k]] p obtain q where
    "run as (p\<lparr>builder := b_startNode k (builder p)\<rparr>) = Some q"
    "step d (p\<lparr>builder := b_startNode k (builder p)\<rparr>) q" "rem q < rem p" by auto
  with node_step [OF p(1) assms(2,3) this(1,2)]
  show "\<exists>p'. node k as p = Some p' \<and> step d p p' \<and> rem p' < rem p" by auto
qed

section \<open>Nodes opened at a checkpoint\<close>

text \<open>
  \<open>reaches\<close> and \<open>extends\<close> are \<open>acts\<close> and \<open>eats\<close> for actions that may wrap what was built since \<open>p0\<close>.
\<close>

definition reaches :: "bool \<Rightarrow> Parser \<Rightarrow> SyntaxKind set \<Rightarrow> nat \<Rightarrow> action \<Rightarrow> bool" where
  "reaches d p0 S n a \<longleftrightarrow> (\<forall>p. step d p0 p \<longrightarrow> kindAt p \<in> S \<longrightarrow> rem p < n \<longrightarrow>
     (\<exists>q. a p = Some q \<and> step d p0 q \<and> rem q \<le> rem p))"

definition extends :: "bool \<Rightarrow> Parser \<Rightarrow> SyntaxKind set \<Rightarrow> nat \<Rightarrow> action \<Rightarrow> bool" where
  "extends d p0 S n a \<longleftrightarrow> (\<forall>p. step d p0 p \<longrightarrow> kindAt p \<in> S \<longrightarrow> rem p < n \<longrightarrow>
     (\<exists>q. a p = Some q \<and> step d p0 q \<and> rem q < rem p))"

lemma extends_reaches: "extends d p0 S n a \<Longrightarrow> reaches d p0 S n a"
  by (fastforce simp: extends_def reaches_def)

lemma acts_reaches: "acts d S n a \<Longrightarrow> reaches d p0 S n a"
  unfolding reaches_def acts_def by (meson step_pinv step_rem step_trans)

lemma nodeAt_step:
  assumes "b_checkpoint (builder p0) = Some cp" and "step d p0 p" and "isNode k" and "k \<noteq> Error"
  shows "\<exists>q0. startNodeAt cp k p = Some q0 \<and> pinv q0 \<and> kindAt q0 = kindAt p \<and> rem q0 = rem p \<and>
    (\<forall>as q. run as q0 = Some q \<longrightarrow> step d q0 q \<longrightarrow>
       (\<exists>r. nodeAt cp k as p = Some r \<and> step d p0 r \<and> rem r = rem q))"
proof -
  from assms(1) obtain f fs where f: "builder p0 = f # fs" "cp = length (frame_children f)"
    by (cases "builder p0") auto
  from assms(2) obtain new ds where d: "delta p0 p new ds" "d \<or> ds \<noteq> [] \<or> list_all clean new"
    by (auto simp: step_def)
  then have b: "builder p = mkFrame (frame_kind f) (frame_children f @ new) # fs"
    using f by (auto simp: delta_def grows_def)
  let ?q0 = "p\<lparr>builder := mkFrame k new # f # fs\<rparr>"
  have s: "startNodeAt cp k p = Some ?q0" by (simp add: startNodeAt_def b f(2))
  have inv: "pinv ?q0" using d(1) by (simp add: delta_def pinv_def)
  have "\<exists>r. nodeAt cp k as p = Some r \<and> step d p0 r \<and> rem r = rem q"
    if q: "run as ?q0 = Some q" "step d ?q0 q" for as q
  proof -
    from q(2) obtain x es where e: "delta ?q0 q x es" "d \<or> es \<noteq> [] \<or> list_all clean x" by (auto simp: step_def)
    have "list_all wfGreen new" using d(1) by (simp add: delta_def)
    from close_frame [OF e(1) _ assms(3) this, of f fs] obtain r where r: "finishNode q = Some r"
      "tokens r = tokens q" "current r = current q" "nextToEmit r = nextToEmit q" "p_sink r = p_sink q" "pinv r"
      "builder r = mkFrame (frame_kind f) (frame_children f @ [GreenNode k (new @ x)]) # fs"
      "wfGreen (GreenNode k (new @ x))" by auto
    note rq = rem_state [OF r(2-4)]
    have "delta p0 r [GreenNode k (new @ x)] (ds @ es)"
      using d(1) e(1) r f rq by (auto simp: delta_def grows_def atEnd_def)
    then have "step d p0 r" using d(2) e(2) assms(4) by (fastforce simp: step_def)
    with q r s rq show ?thesis by (intro exI [of _ r]) (simp add: nodeAt_def)
  qed
  with s inv show ?thesis by (intro exI [of _ ?q0]) auto
qed

lemma extends_nodeAt:
  assumes "b_checkpoint (builder p0) = Some cp" and "eats d S n (run as)" and "isNode k" and "k \<noteq> Error"
  shows "extends d p0 S n (nodeAt cp k as)"
  unfolding extends_def
proof clarify
  fix p
  assume p: "step d p0 p" "kindAt p \<in> S" "rem p < n"
  from nodeAt_step [OF assms(1) p(1) assms(3,4)] obtain q0 where q0: "pinv q0" "kindAt q0 = kindAt p" "rem q0 = rem p"
    "\<And>as q. run as q0 = Some q \<Longrightarrow> step d q0 q \<Longrightarrow> \<exists>r. nodeAt cp k as p = Some r \<and> step d p0 r \<and> rem r = rem q"
    by blast
  from eatsE [OF assms(2) q0(1)] p q0 obtain q where "run as q0 = Some q" "step d q0 q" "rem q < rem q0" by auto
  with q0(3) q0(4) [OF this(1,2)] show "\<exists>q. nodeAt cp k as p = Some q \<and> step d p0 q \<and> rem q < rem p" by auto
qed

lemma reaches_nodeAt:
  assumes "b_checkpoint (builder p0) = Some cp" and "acts d S n (run as)" and "isNode k" and "k \<noteq> Error"
  shows "reaches d p0 S n (nodeAt cp k as)"
  unfolding reaches_def
proof clarify
  fix p
  assume p: "step d p0 p" "kindAt p \<in> S" "rem p < n"
  from nodeAt_step [OF assms(1) p(1) assms(3,4)] obtain q0 where q0: "pinv q0" "kindAt q0 = kindAt p" "rem q0 = rem p"
    "\<And>as q. run as q0 = Some q \<Longrightarrow> step d q0 q \<Longrightarrow> \<exists>r. nodeAt cp k as p = Some r \<and> step d p0 r \<and> rem r = rem q"
    by blast
  from actsE [OF assms(2) q0(1)] p q0 obtain q where q: "run as q0 = Some q" "step d q0 q" by auto
  with q0(3) q0(4) [OF q] step_rem [OF q(2)]
  show "\<exists>q. nodeAt cp k as p = Some q \<and> step d p0 q \<and> rem q \<le> rem p" by auto
qed

lemma extends_ifA_kind:
  "(\<And>p. c p \<Longrightarrow> kindAt p \<in> S \<Longrightarrow> kindAt p \<in> T) \<Longrightarrow> extends d p0 T n (run as) \<Longrightarrow> extends d p0 S n (run bs) \<Longrightarrow>
     extends d p0 S n (ifA c as bs)"
  by (auto simp: extends_def ifA_def)

lemma extends_letA: "(\<And>x. extends d p0 S n (f x)) \<Longrightarrow> extends d p0 S n (letA q f)"
  by (auto simp: extends_def letA_def)

lemma reaches_ifA:
  "reaches d p0 S n (run as) \<Longrightarrow> reaches d p0 S n (run bs) \<Longrightarrow> reaches d p0 S n (ifA c as bs)"
  by (auto simp: reaches_def ifA_def)

lemma reaches_run_Cons:
  assumes "reaches d p0 S n a" and "reaches d p0 UNIV n (run as)"
  shows "reaches d p0 S n (run (a # as))"
  unfolding reaches_def
proof clarify
  fix p
  assume "step d p0 p" "kindAt p \<in> S" "rem p < n"
  with assms(1) obtain q where q: "a p = Some q" "step d p0 q" "rem q \<le> rem p" "rem q < n"
    unfolding reaches_def by fastforce
  with assms(2) obtain r where "run as q = Some r" "step d p0 r" "rem r \<le> rem q" unfolding reaches_def by blast
  with q show "\<exists>q. run (a # as) p = Some q \<and> step d p0 q \<and> rem q \<le> rem p" by auto
qed

lemma reaches_run_Nil: "reaches d p0 S n (run [])"
  by (auto simp: reaches_def)

lemma reaches_whileA:
  assumes "\<And>s. c s \<Longrightarrow> step d p0 s \<Longrightarrow> rem s < n \<Longrightarrow> \<exists>t. run as s = Some t \<and> step d p0 t \<and> rem t < rem s"
  shows "reaches d p0 S n (whileA c as)"
  unfolding reaches_def
proof clarify
  fix p
  assume p: "step d p0 p" "kindAt p \<in> S" "rem p < n"
  have "\<exists>q. whileP c (run as) p = Some q \<and> (step d p0 q \<and> rem q < n) \<and> rem q \<le> rem p \<and> \<not> c q"
  proof (rule whileP_total [where m = rem and R = "\<lambda>p q. rem q \<le> rem p"])
    fix s
    assume s: "step d p0 s \<and> rem s < n" "c s"
    with assms obtain t where "run as s = Some t" "step d p0 t" "rem t < rem s" by blast
    with s show "\<exists>s'. run as s = Some s' \<and> (step d p0 s' \<and> rem s' < n) \<and> rem s' \<le> rem s \<and> rem s' < rem s" by auto
  qed (use p in auto)
  then show "\<exists>q. whileA c as p = Some q \<and> step d p0 q \<and> rem q \<le> rem p" by (auto simp: whileA_def)
qed

lemma acts_withCheckpoint:
  assumes "\<And>p0 cp. b_checkpoint (builder p0) = Some cp \<Longrightarrow> reaches d p0 S n (f cp)"
  shows "acts d S n (withCheckpoint f)"
proof (rule actsI)
  fix p
  assume p: "pinv p" "kindAt p \<in> S" "rem p < n"
  then obtain cp where cp: "b_checkpoint (builder p) = Some cp" by (cases "builder p") (auto simp: pinv_def)
  from assms [OF this] step_refl [OF p(1)] p obtain q where "f cp p = Some q" "step d p q"
    unfolding reaches_def by blast
  with cp show "\<exists>p'. withCheckpoint f p = Some p' \<and> step d p p'" by (auto simp: withCheckpoint_def)
qed

section \<open>Recovery\<close>

lemma recoverTo_acts: "acts True S n (recoverTo ks)"
proof -
  have "eats True (- {EndOfFile}) n (run [bump])" by (simp add: run_single bump_eats del: run.simps)
  then have "acts True T n (whileA (\<lambda>p. \<not> atEnd p \<and> \<not> atAny ks p) [bump])" for T
    by (rule acts_whileA [rotated]) (auto simp: atEnd_def)
  then show ?thesis unfolding recoverTo_def
    by (intro act_intros) (simp_all add: kind_simps)
qed

lemma ensureProgress_eats:
  assumes "acts d S n (run body)" and "acts d UNIV n (run recovery)" and "EndOfFile \<notin> S"
  shows "eats d S n (ensureProgress body recovery)"
proof (rule eatsI)
  fix p
  assume p: "pinv p" "kindAt p \<in> S" "rem p < n"
  with assms(3) have e: "\<not> atEnd p" by (auto simp: atEnd_def)
  from actsE [OF assms(1) p] obtain q where q: "run body p = Some q" "step d p q" .
  let ?last = "whenA (\<lambda>p'. current p' = current p \<and> \<not> atEnd p') [bump]"
  let ?rest = "whenA (\<lambda>p'. current p' = current p) (recovery @ [?last])"
  have ep: "ensureProgress body recovery p = run [?rest] q"
    using q(1) by (simp add: ensureProgress_def letA_def run_append del: run.simps)
  show "\<exists>p'. ensureProgress body recovery p = Some p' \<and> step d p p' \<and> rem p' < rem p"
  proof (cases "current q = current p")
    case False
    with step_current_le [OF q(2)] step_current [OF q(2)] have "rem q < rem p" by simp
    with False q ep show ?thesis by (simp add: run_single whenA_def del: run.simps)
  next
    case True
    have "rem q < n" using step_rem [OF q(2)] p(3) by simp
    from actsE [OF assms(2) step_pinv [OF q(2)] UNIV_I this]
    obtain r where r: "run recovery q = Some r" "step d q r" .
    note pr = step_trans [OF q(2) r(2)]
    have run: "run [?rest] q = ?last r"
      using True r(1) by (simp add: run_single whenA_def run_append del: run.simps)
    show ?thesis
    proof (cases "current r = current p")
      case False
      with step_current_le [OF pr] step_current [OF pr] have "rem r < rem p" by simp
      with False ep run pr show ?thesis by (simp add: whenA_def)
    next
      case same: True
      with step_atEnd [OF pr] e have r_end: "\<not> atEnd r" by auto
      have "rem r < Suc (rem r)" by simp
      with r_end eatsE [OF bump_eats [of "- {EndOfFile}" d "Suc (rem r)"] step_pinv [OF pr]]
      obtain t where t: "bump r = Some t" "step d r t" "rem t < rem r" by (auto simp: atEnd_def)
      with same r_end run ep have "ensureProgress body recovery p = Some t"
        by (simp add: whenA_def run_single del: run.simps)
      with t step_trans [OF pr t(2)] step_rem [OF pr] show ?thesis by auto
    qed
  qed
qed

end
