(* ===== verification/ParserLookahead.thy ===== *)
theory ParserLookahead
  imports ParserCore
begin

text \<open>
  The lookahead functions of \<open>parser/Parser.cpp\<close>: contextual keywords, which are identifiers by
  spelling until the parser retags them, and the token-level scans that tell a declaration from an
  expression and a function type from a parenthesized one.

  A raw index into the token vector that a scan only moves forward is written as the suffix of the
  vector it stands for.
\<close>

section \<open>Contextual keywords\<close>

definition spellsIdentifier :: "string \<Rightarrow> LexedToken \<Rightarrow> bool" where
  "spellsIdentifier s t = (tok_kind t = Identifier \<and> tok_text t = u16 s)"

definition peekSpells :: "string \<Rightarrow> Parser \<Rightarrow> nat \<Rightarrow> bool" where
  "peekSpells s p n = (case peekToken p n of Some t \<Rightarrow> spellsIdentifier s t | None \<Rightarrow> False)"

definition atSpelled :: "string \<Rightarrow> Parser \<Rightarrow> bool" where
  "atSpelled s p = (kindAt p = Identifier \<and> tok_text (tokens p ! current p) = u16 s)"

definition atContextualOut :: "Parser \<Rightarrow> bool" where
  "atContextualOut p = atSpelled ''out'' p"

definition atContextualTest :: "Parser \<Rightarrow> bool" where
  "atContextualTest p = atSpelled ''test'' p"

definition peekIsContextualTest :: "Parser \<Rightarrow> nat \<Rightarrow> bool" where
  "peekIsContextualTest p n = peekSpells ''test'' p n"

definition atContextualIn :: "Parser \<Rightarrow> bool" where
  "atContextualIn p = atSpelled ''in'' p"

definition peekIsContextualIn :: "Parser \<Rightarrow> nat \<Rightarrow> bool" where
  "peekIsContextualIn p n = peekSpells ''in'' p n"

definition atContextualFrom :: "Parser \<Rightarrow> bool" where
  "atContextualFrom p = atSpelled ''from'' p"

definition peekIsContextualFrom :: "Parser \<Rightarrow> nat \<Rightarrow> bool" where
  "peekIsContextualFrom p n = peekSpells ''from'' p n"

definition atContextualType :: "Parser \<Rightarrow> bool" where
  "atContextualType p = atSpelled ''type'' p"

definition peekIsContextualType :: "Parser \<Rightarrow> nat \<Rightarrow> bool" where
  "peekIsContextualType p n = peekSpells ''type'' p n"

definition peekIsContextualShared :: "Parser \<Rightarrow> nat \<Rightarrow> bool" where
  "peekIsContextualShared p n =
     (let idx = rawIndexOf p n in idx < length (tokens p) \<and> spellsIdentifier ''shared'' (tokens p ! idx))"

definition atContextualShared :: "Parser \<Rightarrow> bool" where
  "atContextualShared p = peekIsContextualShared p 0"

definition atSharedModifier :: "Parser \<Rightarrow> nat \<Rightarrow> bool" where
  "atSharedModifier p n =
     (if \<not> peekIsContextualShared p n then False
      else let next = peekKind p (n + 1) in
           if isKeyword next then True
           else let after = peekKind p (n + 2) in next = Identifier \<and> after \<noteq> Semi \<and> after \<noteq> Eq)"

definition atContextualPrimitive :: "Parser \<Rightarrow> bool" where
  "atContextualPrimitive p = atSpelled ''primitive'' p"

definition peekIsContextualPrimitive :: "Parser \<Rightarrow> nat \<Rightarrow> bool" where
  "peekIsContextualPrimitive p n = peekSpells ''primitive'' p n"

section \<open>Kinds that start a type\<close>

definition PRIMITIVE_TYPES :: "SyntaxKind list" where
  "PRIMITIVE_TYPES = [KwBool, KwByte, KwShort, KwUShort, KwInt, KwUInt, KwLong, KwULong, KwFloat,
     KwDouble, KwDecimal, KwChar, KwString, KwVoid]"

definition isPrimitiveTypeKw :: "SyntaxKind \<Rightarrow> bool" where
  "isPrimitiveTypeKw k = (k \<in> set PRIMITIVE_TYPES)"

definition isTypeStart :: "SyntaxKind \<Rightarrow> bool" where
  "isTypeStart k = (k = Identifier \<or> isPrimitiveTypeKw k)"

definition isTypeOrGroupStart :: "SyntaxKind \<Rightarrow> bool" where
  "isTypeOrGroupStart k = (isTypeStart k \<or> k = LParen)"

definition atPrimitiveBinding :: "Parser \<Rightarrow> nat \<Rightarrow> bool" where
  "atPrimitiveBinding p ahead =
     (if \<not> peekIsContextualPrimitive p ahead then False
      else let named = peekKind p (ahead + 1) in
           if named \<noteq> Identifier \<and> \<not> isPrimitiveTypeKw named then False
           else let following = peekKind p (ahead + 2) in following = LBrace \<or> following = KwImplements)"

section \<open>An arrow after parentheses\<close>

definition skipTriviaList :: "LexedToken list \<Rightarrow> LexedToken list" where
  "skipTriviaList ts = dropWhile (\<lambda>t. isTrivia (tok_kind t)) ts"

definition headIs :: "SyntaxKind \<Rightarrow> LexedToken list \<Rightarrow> bool" where
  "headIs k ts = (case ts of [] \<Rightarrow> False | t # _ \<Rightarrow> tok_kind t = k)"

fun arrowScan :: "LexedToken list \<Rightarrow> int \<Rightarrow> bool" where
  "arrowScan [] depth = False"
| "arrowScan (t # ts) depth =
     (let k = tok_kind t in
      if isTrivia k then arrowScan ts depth
      else if k = EndOfFile then False
      else if k = LParen then arrowScan ts (depth + 1)
      else if k \<noteq> RParen then arrowScan ts depth
      else if depth - 1 > 0 then arrowScan ts (depth - 1)
      else headIs Arrow (skipTriviaList ts))"

definition arrowAfterParenthesesAt :: "Parser \<Rightarrow> nat \<Rightarrow> bool" where
  "arrowAfterParenthesesAt p start = arrowScan (drop start (tokens p)) 0"

definition atArrowAfterParentheses :: "Parser \<Rightarrow> bool" where
  "atArrowAfterParentheses p = (atTok LParen p \<and> arrowAfterParenthesesAt p (current p))"

definition atSharedFunctionType :: "Parser \<Rightarrow> bool" where
  "atSharedFunctionType p =
     (atContextualShared p \<and> peekKind p 1 = LParen \<and> arrowAfterParenthesesAt p (rawIndexOf p 1))"

text \<open>The two loops of \<open>atSharedFunctionTypedField\<close>: the first ends at the closing parenthesis, with
  the kind before it, or refuses (\<open>None\<close>); the second looks for the end of the field.\<close>

fun sharedParameters :: "LexedToken list \<Rightarrow> int \<Rightarrow> SyntaxKind \<Rightarrow> (LexedToken list \<times> SyntaxKind) option" where
  "sharedParameters [] depth previous = Some ([], previous)"
| "sharedParameters (t # ts) depth previous =
     (let k = tok_kind t in
      if isTrivia k then sharedParameters ts depth previous
      else if k = LParen then sharedParameters ts (depth + 1) k
      else if k = RParen then (if depth - 1 = 0 then Some (ts, previous) else sharedParameters ts (depth - 1) k)
      else if depth = 1 \<and> k = Identifier \<and>
              (previous = Identifier \<or> isPrimitiveTypeKw previous \<or> previous = Gt \<or> previous = RBracket \<or>
               previous = Question)
      then None
      else sharedParameters ts depth k)"

fun fieldEnd :: "LexedToken list \<Rightarrow> SyntaxKind \<Rightarrow> bool" where
  "fieldEnd [] previous = False"
| "fieldEnd (t # ts) previous =
     (let k = tok_kind t in
      if isTrivia k then fieldEnd ts previous
      else if k = LBrace \<or> k = EndOfFile then False
      else if k = Semi \<or> k = Eq then previous = Identifier
      else fieldEnd ts k)"

definition atSharedFunctionTypedField :: "Parser \<Rightarrow> bool" where
  "atSharedFunctionTypedField p =
     (if \<not> atSharedFunctionType p then False
      else case sharedParameters (drop (rawIndexOf p 1) (tokens p)) 0 LParen of
             None \<Rightarrow> False
           | Some (rest, previous) \<Rightarrow> fieldEnd rest previous)"

section \<open>Function declarations\<close>

definition VISIBILITY :: "SyntaxKind list" where
  "VISIBILITY = [KwPrivate, KwProtected, KwPublic, KwExport]"

definition METHOD_MODIFIERS :: "SyntaxKind list" where
  "METHOD_MODIFIERS = [KwOverride, KwFinal, KwAbstract, KwNoreturn, KwStatic, KwMutating]"

definition skipVisibility :: "LexedToken list \<Rightarrow> LexedToken list" where
  "skipVisibility ts =
     (case ts of [] \<Rightarrow> [] | t # r \<Rightarrow> if tok_kind t \<in> set VISIBILITY then skipTriviaList r else ts)"

lemma skipTriviaList_length: "length (skipTriviaList ts) \<le> length ts"
  by (simp add: skipTriviaList_def length_dropWhile_le)

function skipMethodModifiers :: "LexedToken list \<Rightarrow> LexedToken list" where
  "skipMethodModifiers [] = []"
| "skipMethodModifiers (t # r) =
     (if tok_kind t \<in> set METHOD_MODIFIERS then skipMethodModifiers (skipTriviaList r) else t # r)"
  by pat_completeness auto
termination
  by (relation "measure length") (auto simp: le_imp_less_Suc skipTriviaList_length)

fun skipAnglesLoop :: "nat \<Rightarrow> int \<Rightarrow> LexedToken list \<Rightarrow> LexedToken list option" where
  "skipAnglesLoop 0 depth ts = None"
| "skipAnglesLoop (Suc guard) depth [] = None"
| "skipAnglesLoop (Suc guard) depth (t # ts) =
     (let k = tok_kind t in
      if k \<in> {EndOfFile, LBrace, Semi, LParen, RParen} then None
      else let depth' = (if k = Lt then depth + 1 else if k = LtLt then depth + 2
                         else if k = Gt then depth - 1 else if k = GtGt then depth - 2
                         else if k = GtGtGt then depth - 3 else depth)
           in if depth' \<le> 0 then Some ts else skipAnglesLoop guard depth' ts)"

definition skipAnglesRaw :: "LexedToken list \<Rightarrow> LexedToken list" where
  "skipAnglesRaw ts =
     (if \<not> headIs Lt ts then ts else case skipAnglesLoop 256 0 ts of Some r \<Rightarrow> r | None \<Rightarrow> ts)"

fun walkParens :: "LexedToken list \<Rightarrow> int \<Rightarrow> LexedToken list option" where
  "walkParens [] depth = (if depth > 0 then None else Some [])"
| "walkParens (t # ts) depth =
     (if depth > 0 then
        (if tok_kind t = LParen then walkParens ts (depth + 1)
         else if tok_kind t = RParen then walkParens ts (depth - 1)
         else if tok_kind t = EndOfFile then None
         else walkParens ts depth)
      else Some (t # ts))"

definition looksLikeFuncDecl :: "bool \<Rightarrow> Parser \<Rightarrow> bool" where
  "looksLikeFuncDecl allowShorthand p =
     (let ts1 = skipMethodModifiers (skipVisibility (drop (current p) (tokens p))) in
      if \<not> headIs Identifier ts1 then False
      else let ts2 = skipTriviaList (skipAnglesRaw (skipTriviaList (tl ts1))) in
           if \<not> headIs LParen ts2 then False
           else case walkParens (tl ts2) 1 of
                  None \<Rightarrow> False
                | Some ts3 \<Rightarrow>
                    (case skipTriviaList ts3 of [] \<Rightarrow> False
                     | t # _ \<Rightarrow> tok_kind t = Arrow \<or> tok_kind t = LBrace \<or> tok_kind t = KwThrows \<or>
                                (allowShorthand \<and> tok_kind t = Semi)))"

definition looksLikeKeywordNamedMethod :: "Parser \<Rightarrow> bool" where
  "looksLikeKeywordNamedMethod p =
     (case skipMethodModifiers (skipVisibility (drop (current p) (tokens p))) of
        [] \<Rightarrow> False
      | t # r \<Rightarrow> isKeyword (tok_kind t) \<and>
                 headIs LParen (skipTriviaList (skipAnglesRaw (skipTriviaList r))))"

section \<open>Types\<close>

definition scanStep :: "SyntaxKind \<Rightarrow> int \<Rightarrow> int option" where
  "scanStep k depth =
     (if k = Lt then Some (depth + 1) else if k = LtLt then Some (depth + 2)
      else if k = Gt then Some (depth - 1) else if k = GtGt then Some (depth - 2)
      else if k = GtGtGt then Some (depth - 3)
      else if k \<in> {Identifier, Comma, Dot, Question, LBracket, RBracket, LParen, RParen, Arrow} \<or>
              isPrimitiveTypeKw k
      then Some depth else None)"

fun scanTypeArgsLoop :: "nat \<Rightarrow> Parser \<Rightarrow> int \<Rightarrow> nat \<Rightarrow> nat" where
  "scanTypeArgsLoop 0 p depth c = 0"
| "scanTypeArgsLoop (Suc guard) p depth c =
     (case scanStep (peekKind p c) depth of
        None \<Rightarrow> 0
      | Some depth' \<Rightarrow> if depth' \<le> 0 then c + 1 else scanTypeArgsLoop guard p depth' (c + 1))"

definition scanTypeArgs :: "Parser \<Rightarrow> nat \<Rightarrow> nat" where
  "scanTypeArgs p cursor = (if peekKind p cursor \<noteq> Lt then 0 else scanTypeArgsLoop 256 p 0 cursor)"

lemma peekFrom_bound: "peekFrom ts n = Some t \<Longrightarrow> n < length ts"
  by (induction ts n rule: peekFrom.induct) (auto split: if_splits)

lemma peekKind_bound: "peekKind p n \<noteq> EndOfFile \<Longrightarrow> n < length (tokens p)"
  using peekFrom_bound [of "drop (current p) (tokens p)" n]
  by (fastforce simp: peekKind_def peekToken_def split: option.splits)

function scanSuffixes :: "Parser \<Rightarrow> nat \<Rightarrow> nat" where
  "scanSuffixes p c =
     (if peekKind p c = Question then scanSuffixes p (c + 1)
      else if peekKind p c = LBracket \<and> peekKind p (c + 1) = RBracket then scanSuffixes p (c + 2)
      else c)"
  by pat_completeness auto
termination
proof (relation "measure (\<lambda>(p, c). length (tokens p) - c)", goal_cases)
  case (2 p c)
  then show ?case using peekKind_bound [of p c] by simp
next
  case (3 p c)
  then show ?case using peekKind_bound [of p c] by simp
qed simp

declare scanSuffixes.simps [simp del]

text \<open>The loop over a comma-separated list of types; a list of \<open>n\<close> tokens has fewer than \<open>n\<close> commas.\<close>

primrec scanTypeCommas :: "nat \<Rightarrow> (nat \<Rightarrow> nat) \<Rightarrow> Parser \<Rightarrow> nat \<Rightarrow> nat" where
  "scanTypeCommas 0 scan p c = 0"
| "scanTypeCommas (Suc fuel) scan p c =
     (if peekKind p c = Comma
      then let c' = scan (c + 1) in if c' = 0 then 0 else scanTypeCommas fuel scan p c'
      else c)"

text \<open>A named type, after its head is known to start one: an optional namespace, arguments, suffixes.\<close>

definition scanNamedType :: "Parser \<Rightarrow> nat \<Rightarrow> nat" where
  "scanNamedType p cursor =
     (let c = (if peekKind p cursor = Identifier \<and> peekKind p (cursor + 1) = Dot \<and>
                  peekKind p (cursor + 2) = Identifier
               then cursor + 3 else cursor + 1);
          a = scanTypeArgs p c
      in scanSuffixes p (if a \<noteq> 0 then a else c))"

text \<open>The two readings of a leading parenthesis: a function type, or one type in parentheses.\<close>

definition scanGroup :: "(nat \<Rightarrow> nat) \<Rightarrow> Parser \<Rightarrow> nat \<Rightarrow> nat" where
  "scanGroup scan p cursor =
     (let first = cursor + 1;
          c = (if peekKind p first \<noteq> RParen
               then (if scan first = 0 then 0
                     else scanTypeCommas (Suc (length (tokens p))) scan p (scan first))
               else first)
      in if c = 0 then 0
         else if peekKind p c \<noteq> RParen then 0
         else if peekKind p (c + 1) = Arrow then scan (c + 2)
         else scanSuffixes p (c + 1))"

text \<open>The first argument is how many levels of nesting are left of \<open>kMaxTypeScanDepth\<close>.\<close>

fun scanTypeDepth :: "nat \<Rightarrow> Parser \<Rightarrow> nat \<Rightarrow> nat" where
  "scanTypeDepth 0 p cursor = 0"
| "scanTypeDepth (Suc d) p cursor =
     (if peekIsContextualShared p cursor \<and> peekKind p (cursor + 1) = LParen \<and>
         arrowAfterParenthesesAt p (rawIndexOf p (cursor + 1))
      then scanTypeDepth d p (cursor + 1)
      else if peekKind p cursor = LParen then scanGroup (scanTypeDepth d p) p cursor
      else if \<not> isTypeStart (peekKind p cursor) then 0
      else scanNamedType p cursor)"

definition kMaxTypeScanDepth :: nat where
  "kMaxTypeScanDepth = 32"

definition scanType :: "Parser \<Rightarrow> nat \<Rightarrow> nat" where
  "scanType p cursor = scanTypeDepth (Suc kMaxTypeScanDepth) p cursor"

definition looksLikeTypedVarDeclFrom :: "Parser \<Rightarrow> nat \<Rightarrow> bool" where
  "looksLikeTypedVarDeclFrom p start =
     (let cursor = scanType p start in
      if cursor = 0 then False
      else if peekKind p cursor \<noteq> Identifier then False
      else peekKind p (cursor + 1) = Eq \<or> peekKind p (cursor + 1) = Semi)"

definition looksLikeTypedVarDecl :: "Parser \<Rightarrow> bool" where
  "looksLikeTypedVarDecl p = looksLikeTypedVarDeclFrom p 0"

definition looksLikeForeachHeader :: "Parser \<Rightarrow> bool" where
  "looksLikeForeachHeader p =
     (let k0 = peekKind p 0 in
      if k0 = KwLet \<or> k0 = KwConst then peekKind p 1 = Identifier \<and> peekIsContextualIn p 2
      else let cursor = scanType p 0 in
           if cursor = 0 then False
           else if peekKind p cursor \<noteq> Identifier then False
           else peekIsContextualIn p (cursor + 1))"

definition atStructLiteralStart :: "Parser \<Rightarrow> bool" where
  "atStructLiteralStart p = (atTok LBrace p \<and> peekKind p 1 = Identifier \<and> peekKind p 2 = Colon)"

definition atImportBinding :: "Parser \<Rightarrow> bool" where
  "atImportBinding p =
     (if peekKind p 0 \<noteq> Identifier then False
      else if peekIsContextualFrom p 1 then True
      else if peekKind p 1 \<noteq> KwAs then False
      else if peekKind p 2 \<noteq> Identifier \<and> \<not> isKeyword (peekKind p 2) then False
      else peekIsContextualFrom p 3)"

definition atClosingGt :: "Parser \<Rightarrow> bool" where
  "atClosingGt p = (kindAt p = Gt \<or> kindAt p = GtGt \<or> kindAt p = GtGtGt)"

section \<open>Leading declaration modifiers\<close>

definition isDeclModifierAt :: "Parser \<Rightarrow> nat \<Rightarrow> bool" where
  "isDeclModifierAt p n =
     (peekKind p n \<in> {KwPrivate, KwProtected, KwPublic, KwExport, KwAbstract, KwFinal, KwSealed, KwNoreturn} \<or>
      atSharedModifier p n)"

lemma rawFrom_bound: "rawFrom ts idx n < idx + length ts \<Longrightarrow> n < length ts"
proof (induction ts idx n rule: rawFrom.induct)
  case (2 t ts idx n)
  then show ?case by (cases "isTrivia (tok_kind t)"; cases n) auto
qed simp

lemma isDeclModifierAt_bound: "isDeclModifierAt p n \<Longrightarrow> n < length (tokens p)"
proof -
  assume "isDeclModifierAt p n"
  then consider "peekKind p n \<noteq> EndOfFile" | "atSharedModifier p n" by (auto simp: isDeclModifierAt_def)
  then show ?thesis
  proof cases
    case 1
    then show ?thesis by (rule peekKind_bound)
  next
    case 2
    then have "rawIndexOf p n < length (tokens p)"
      by (auto simp: atSharedModifier_def peekIsContextualShared_def Let_def split: if_splits)
    moreover have "rawIndexOf p n \<ge> current p"
    proof -
      have "rawFrom ts i m \<ge> i" for ts i m by (induction ts i m rule: rawFrom.induct) auto
      then show ?thesis by (simp add: rawIndexOf_def)
    qed
    ultimately have "rawFrom (drop (current p) (tokens p)) (current p) n < current p + length (drop (current p) (tokens p))"
      by (simp add: rawIndexOf_def)
    from rawFrom_bound [OF this] show ?thesis by simp
  qed
qed

function declModsFrom :: "Parser \<Rightarrow> nat \<Rightarrow> nat" where
  "declModsFrom p n = (if isDeclModifierAt p n then declModsFrom p (n + 1) else n)"
  by pat_completeness auto
termination
  by (relation "measure (\<lambda>(p, n). length (tokens p) - n)") (auto dest: isDeclModifierAt_bound)

declare declModsFrom.simps [simp del]

section \<open>Scans move forward\<close>

lemma scanTypeArgsLoop_grows: "scanTypeArgsLoop g p depth c = 0 \<or> c < scanTypeArgsLoop g p depth c"
proof (induction g p depth c rule: scanTypeArgsLoop.induct)
  case (2 guard p depth c)
  then show ?case by (cases "scanStep (peekKind p c) depth") (force split: if_splits)+
qed simp

lemma scanTypeArgs_grows: "scanTypeArgs p c = 0 \<or> c < scanTypeArgs p c"
  using scanTypeArgsLoop_grows by (simp add: scanTypeArgs_def)

lemma scanSuffixes_grows: "c \<le> scanSuffixes p c"
proof (induction p c rule: scanSuffixes.induct)
  case (1 p c)
  then show ?case by (subst scanSuffixes.simps) auto
qed

lemma scanTypeCommas_grows:
  "(\<And>c. scan c = 0 \<or> c < scan c) \<Longrightarrow> scanTypeCommas f scan p c = 0 \<or> c \<le> scanTypeCommas f scan p c"
proof (induction f arbitrary: c)
  case (Suc f)
  have "scan (c + 1) = 0 \<or> c + 1 < scan (c + 1)" by (rule Suc.prems)
  with Suc.IH [OF Suc.prems, of "scan (c + 1)"] show ?case by (auto simp: Let_def)
qed simp

lemma scanNamedType_grows: "c < scanNamedType p c"
proof -
  have *: "c < scanSuffixes p (if scanTypeArgs p x \<noteq> 0 then scanTypeArgs p x else x)" if "c < x" for x
    using scanTypeArgs_grows [of p x] that by (intro less_le_trans [OF _ scanSuffixes_grows]) auto
  show ?thesis unfolding scanNamedType_def Let_def by (rule *) simp
qed

lemma scanGroup_grows:
  assumes "\<And>c. scan c = 0 \<or> c < scan c"
  shows "scanGroup scan p c = 0 \<or> c < scanGroup scan p c"
proof -
  define after where "after x = (if x = 0 then 0 else if peekKind p x \<noteq> RParen then 0
      else if peekKind p (x + 1) = Arrow then scan (x + 2) else scanSuffixes p (x + 1))" for x
  have after: "after x = 0 \<or> c < after x" if "x = 0 \<or> c < x" for x
    using that assms [of "x + 2"] scanSuffixes_grows [of "x + 1" p] by (auto simp: after_def)
  have l: "scanTypeCommas f scan p x = 0 \<or> x \<le> scanTypeCommas f scan p x" for f x
    by (rule scanTypeCommas_grows) (rule assms)
  have "scanGroup scan p c = after (if peekKind p (c + 1) \<noteq> RParen
      then (if scan (c + 1) = 0 then 0 else scanTypeCommas (Suc (length (tokens p))) scan p (scan (c + 1)))
      else c + 1)"
    unfolding scanGroup_def after_def Let_def by (rule refl)
  moreover have "scan (c + 1) = 0 \<or> c < scanTypeCommas (Suc (length (tokens p))) scan p (scan (c + 1)) \<or>
      scanTypeCommas (Suc (length (tokens p))) scan p (scan (c + 1)) = 0"
    using l [of "Suc (length (tokens p))" "scan (c + 1)"] assms [of "c + 1"] by linarith
  ultimately show ?thesis by (auto simp del: scanTypeCommas.simps intro!: after)
qed

lemma scanTypeDepth_grows: "scanTypeDepth d p c = 0 \<or> c < scanTypeDepth d p c"
proof (induction d arbitrary: c)
  case (Suc d)
  show ?case
    using scanGroup_grows [OF Suc, of p c] Suc [of "c + 1"] scanNamedType_grows [of c p] by auto
qed simp

text \<open>The fuel of the comma loop is enough: any more gives the same answer.\<close>

lemma scanTypeCommas_fuel:
  assumes "\<And>c. scan c = 0 \<or> c < scan c" and "length (tokens p) - c < f" and "f \<le> g"
  shows "scanTypeCommas g scan p c = scanTypeCommas f scan p c"
  using assms(2,3)
proof (induction f arbitrary: c g)
  case (Suc f)
  obtain h where g: "g = Suc h" "f \<le> h" using Suc.prems(2) by (cases g) auto
  have grow: "scan (c + 1) = 0 \<or> c + 1 < scan (c + 1)" by (rule assms(1))
  show ?case
  proof (cases "peekKind p c = Comma \<and> scan (c + 1) \<noteq> 0")
    case True
    with peekKind_bound [of p c] grow Suc.prems(1) have "length (tokens p) - scan (c + 1) < f" by simp
    with Suc.IH [OF this g(2)] True g show ?thesis by (simp add: Let_def)
  qed (auto simp: g Let_def)
qed simp

lemma scanTypeCommas_enough:
  "Suc (length (tokens p)) \<le> g \<Longrightarrow>
     scanTypeCommas g (scanTypeDepth d p) p c = scanTypeCommas (Suc (length (tokens p))) (scanTypeDepth d p) p c"
  by (rule scanTypeCommas_fuel) (use scanTypeDepth_grows in auto)

text \<open>What the parser peeks at first is the current token.\<close>

lemma pinv_current:
  assumes "pinv p"
  shows "drop (current p) (tokens p) = tokens p ! current p # drop (Suc (current p)) (tokens p)"
    and "\<not> isTrivia (tok_kind (tokens p ! current p))" and "kindAt p = tok_kind (tokens p ! current p)"
    and "current p < length (tokens p)"
proof -
  show "current p < length (tokens p)" using assms by (simp add: pinv_def)
  then show "drop (current p) (tokens p) = tokens p ! current p # drop (Suc (current p)) (tokens p)"
    "kindAt p = tok_kind (tokens p ! current p)" by (simp_all add: drop_nth_Cons kindAt_def)
  then show "\<not> isTrivia (tok_kind (tokens p ! current p))" using assms by (simp add: pinv_def)
qed

lemma peekToken_0: "pinv p \<Longrightarrow> peekToken p 0 = Some (tokens p ! current p)"
  by (simp add: peekToken_def pinv_current)

lemma peekKind_0: "pinv p \<Longrightarrow> peekKind p 0 = kindAt p"
  by (simp add: peekKind_def peekToken_0 pinv_current)

lemma rawIndexOf_0: "pinv p \<Longrightarrow> rawIndexOf p 0 = current p"
  by (simp add: rawIndexOf_def pinv_current)

lemma atContextualShared_kind: "pinv p \<Longrightarrow> atContextualShared p \<Longrightarrow> kindAt p = Identifier"
  by (simp add: atContextualShared_def peekIsContextualShared_def rawIndexOf_0 spellsIdentifier_def pinv_current Let_def)

lemma atSharedModifier_kind: "pinv p \<Longrightarrow> atSharedModifier p 0 \<Longrightarrow> kindAt p = Identifier"
  using atContextualShared_kind by (auto simp: atSharedModifier_def atContextualShared_def split: if_splits)

end
