(* ===== verification/ParserTypes.thy ===== *)
theory ParserTypes
  imports ParserLookahead
begin

text \<open>
  Parsing types (\<open>parser/Parser.cpp\<close>, the section on types), and the contract between the parse
  functions and the recursive calls they make.

  The parse functions call each other in cycles through four entry points: \<open>parsePrecedence\<close>,
  \<open>parseBlock\<close>, \<open>parseType\<close> and \<open>parseIfStmt\<close>. Every parse function takes the recursive calls as an
  argument, and \<open>ParserMain\<close> ties the knot.
\<close>

datatype Call =
    CallPrecedence int
  | CallBlock
  | CallType bool
  | CallIf

type_synonym calls = "Call \<Rightarrow> action"

text \<open>\<open>while (eat(k)) { ... }\<close>. A body that leaves the loop early does so at a token other than \<open>k\<close>, where
  the loop ends by itself.\<close>

definition whileEat :: "SyntaxKind \<Rightarrow> action list \<Rightarrow> action" where
  "whileEat k as = whileA (atTok k) (bump # as)"

section \<open>Closing angle brackets\<close>

text \<open>A merged token keeps all but its first character.\<close>

definition splitGt :: "SyntaxKind \<Rightarrow> action" where
  "splitGt k p =
     (let tok = tokens p ! current p;
          tok' = tok\<lparr>tok_kind := (if k = GtGt then Gt else GtGt), tok_text := drop 1 (tok_text tok),
                     tok_offset := tok_offset tok + 1, tok_column := tok_column tok + 1\<rparr>
      in Some (p\<lparr>tokens := (tokens p)[current p := tok'], nextToEmit := current p\<rparr>))"

definition expectClosingGt :: "string \<Rightarrow> action" where
  "expectClosingGt what = letA kindAt (\<lambda>k.
     if k = Gt then bump
     else if k = GtGt \<or> k = GtGtGt then run [flushTrivia, emitToken Gt (u16 ''>''), splitGt k]
     else emitMissing Gt what)"

section \<open>Parse functions\<close>

definition parseExpression :: "calls \<Rightarrow> action" where
  "parseExpression self = self (CallPrecedence 1)"

definition parseTypeArgList :: "calls \<Rightarrow> action" where
  "parseTypeArgList self = node TypeArgList
     [expect Lt (qt @ ''<'' @ qt),
      whenA (\<lambda>p. \<not> atClosingGt p \<and> \<not> atEnd p)
        [self (CallType False),
         whileEat Comma [whenA (\<lambda>p. \<not> atClosingGt p) [self (CallType False)]]],
      expectClosingGt (qt @ ''>'' @ qt @ '' after type arguments'')]"

definition parseTypeSuffixes :: "bool \<Rightarrow> action" where
  "parseTypeSuffixes leaveCoalesceToExpression =
     whileA (\<lambda>p. (atTok Question p \<and> \<not> (leaveCoalesceToExpression \<and> leavesQuestionToExpression p)) \<or>
                 (atTok LBracket p \<and> peekKind p 1 = RBracket))
       [ifA (atTok Question) [bump] [bump, bump]]"

definition parseThrowsClause :: "calls \<Rightarrow> action" where
  "parseThrowsClause self = node ThrowsClause
     [expect KwThrows (qt @ ''throws'' @ qt),
      whenA (\<lambda>p. isTypeStart (kindAt p))
        [self (CallType False),
         whileEat Comma
           [ifA (\<lambda>p. isTypeStart (kindAt p)) [self (CallType False)]
              [emitMissing Identifier (''exception type after '' @ qt @ '','' @ qt)]]]]"

definition parseFunctionType :: "calls \<Rightarrow> action" where
  "parseFunctionType self = node FuncType
     [whenA atContextualShared [bumpAs KwShared],
      expect LParen (qt @ ''('' @ qt),
      whenA (\<lambda>p. \<not> atTok RParen p \<and> \<not> atEnd p)
        [self (CallType False),
         whileEat Comma [whenA (\<lambda>p. \<not> atTok RParen p) [self (CallType False)]]],
      expect RParen (qt @ '')'' @ qt @ '' to close the function type'' @ qt @ ''s parameter types''),
      expect Arrow (qt @ ''->'' @ qt @ '' after the parameter types, e.g. '' @ qt @ ''(int, int) -> int'' @ qt),
      self (CallType False),
      whenA (atTok KwThrows) [parseThrowsClause self]]"

definition parseParenthesizedType :: "calls \<Rightarrow> bool \<Rightarrow> action" where
  "parseParenthesizedType self leaveCoalesceToExpression = node ParenType
     [expect LParen (qt @ ''('' @ qt),
      self (CallType False),
      expect RParen (qt @ '')'' @ qt @ '' after the type in parentheses''),
      parseTypeSuffixes leaveCoalesceToExpression]"

text \<open>The head of a named type: its name, an optional namespace qualifier, and type arguments.\<close>

definition parseTypeName :: "calls \<Rightarrow> action" where
  "parseTypeName self = letA (atTok Identifier) (\<lambda>wasIdentifier. run
     [ifA (\<lambda>p. isTypeStart (kindAt p)) [bump] [emitMissing Identifier (''type name'')],
      whenA (\<lambda>p. wasIdentifier \<and> atTok Dot p \<and> peekKind p 1 = Identifier) [bump, bump],
      whenA (\<lambda>p. atTok Lt p \<and> scanTypeArgs p 0 \<noteq> 0) [parseTypeArgList self]])"

definition parseNamedType :: "calls \<Rightarrow> bool \<Rightarrow> action" where
  "parseNamedType self leaveCoalesceToExpression = node TypeRef
     [parseTypeName self, parseTypeSuffixes leaveCoalesceToExpression]"

definition parseType :: "calls \<Rightarrow> bool \<Rightarrow> action" where
  "parseType self leaveCoalesceToExpression =
     ifA atSharedFunctionType [parseFunctionType self]
       [ifA (atTok LParen)
          [ifA atArrowAfterParentheses [parseFunctionType self]
             [parseParenthesizedType self leaveCoalesceToExpression]]
          [parseNamedType self leaveCoalesceToExpression]]"

definition parseTypeHead :: "calls \<Rightarrow> action" where
  "parseTypeHead self = node TypeRef
     [parseTypeName self,
      whileA (\<lambda>p. atTok Question p \<or>
                 (atTok LBracket p \<and> peekKind p 1 = RBracket \<and>
                  (peekKind p 2 = Question \<or> peekKind p 2 = LBracket)))
        [ifA (atTok Question) [bump] [bump, bump]]]"

definition parseTypeParam :: "calls \<Rightarrow> action" where
  "parseTypeParam self = node TypeParam
     [whenA (\<lambda>p. atContextualShared p \<and> peekKind p 1 = Identifier) [bumpAs KwShared],
      expect Identifier (''type parameter name''),
      whenA (atTok Colon)
        [bump,
         ifA (\<lambda>p. isTypeStart (kindAt p)) [self (CallType False)]
           [emitMissing Identifier (''bound type after '' @ qt @ '':'' @ qt)],
         whileEat Plus
           [ifA (\<lambda>p. isTypeStart (kindAt p)) [self (CallType False)]
              [emitMissing Identifier (''bound type after '' @ qt @ ''+'' @ qt)]]]]"

definition parseTypeParamList :: "calls \<Rightarrow> action" where
  "parseTypeParamList self = node TypeParamList
     [expect Lt (qt @ ''<'' @ qt),
      ifA (\<lambda>p. atSharedFunctionType p \<or> atArrowAfterParentheses p) [parseFunctionType self]
        [whenA (\<lambda>p. \<not> atClosingGt p \<and> \<not> atEnd p)
           [parseTypeParam self,
            whileEat Comma [whenA (\<lambda>p. \<not> atClosingGt p) [parseTypeParam self]]]],
      expectClosingGt (qt @ ''>'' @ qt @ '' after type parameters'')]"

section \<open>Splitting a closing bracket\<close>

lemma splitGt_step:
  assumes "pinv p" and "kindAt p = k" and "k = GtGt \<or> k = GtGtGt"
  shows "\<exists>q. run [flushTrivia, emitToken Gt (u16 ''>''), splitGt k] p = Some q \<and> step d p q \<and> rem q < rem p"
proof -
  from flushTrivia_flushed [OF assms(1)] obtain f where f: "flushTrivia p = Some f" "flushed p f"
    "nextToEmit f = current f" by blast
  let ?i = "current f" and ?tok = "tokens f ! current f"
  have inv: "pinv f" using f(2) by (auto simp: flushed_def delta_def)
  have k: "tok_kind ?tok = k" using assms(2) pinv_current(3) [OF assms(1)] f(2) by (simp add: flushed_def)
  have ok: "tokensOk (tokens f)" "?i < length (tokens f)" "builder f \<noteq> []" using inv by (auto simp: pinv_def)
  have ne: "tok_kind ?tok \<noteq> EndOfFile" using k assms(3) by auto
  from tokensOk_nth [OF ok(1,2) ne] have t: "tokOk ?tok" "Suc ?i < length (tokens f)" by auto
  then obtain rest where spelled: "tok_text ?tok = uc CHR ''>'' # rest" "rest \<noteq> []" "k = GtGtGt \<Longrightarrow> rest = u16 ''>>''"
    using k assms(3) by (cases "tok_text ?tok") (auto simp: tokOk_def u16_def)
  define tok' where "tok' = ?tok\<lparr>tok_kind := (if k = GtGt then Gt else GtGt), tok_text := rest,
    tok_offset := tok_offset ?tok + 1, tok_column := tok_column ?tok + 1\<rparr>"
  have ok': "tokOk tok'" using spelled assms(3) by (auto simp: tokOk_def tok'_def kind_simps)
  let ?ts = "(tokens f)[?i := tok']"
  from emitToken_grows [OF ok(3)] obtain b where em: "emitToken Gt (u16 ''>'') f = Some (f\<lparr>builder := b\<rparr>)"
    and g: "grows (builder f) [GreenToken Gt (u16 ''>'')] b" by blast
  let ?q = "f\<lparr>builder := b, tokens := ?ts, nextToEmit := ?i\<rparr>"
  have run: "run [flushTrivia, emitToken Gt (u16 ''>''), splitGt k] p = Some ?q"
    using f(1) em by (simp add: splitGt_def Let_def tok'_def spelled(1))
  obtain us e where ts: "tokens f = us @ [e]" "tok_kind e = EndOfFile" "tok_text e = []" "list_all tokOk us"
    using ok(1) by (auto simp: tokensOk_def)
  have "?i < length us" using t(2) ts(1) by simp
  then have "?ts = us[?i := tok'] @ [e]" "list_all tokOk (us[?i := tok'])"
    using ts ok' by (auto simp: list_update_append list_all_iff dest: set_update_subset_insert [THEN subsetD])
  then have oks: "tokensOk ?ts" using ts by (auto simp: tokensOk_def)
  have drop_f: "drop ?i (tokens f) = ?tok # drop (Suc ?i) (tokens f)" using ok(2) by (simp add: drop_nth_Cons)
  have drop_q: "drop ?i ?ts = tok' # drop (Suc ?i) (tokens f)" using ok(2) by (simp add: drop_nth_Cons)
  have kq: "kindAt ?q = tok_kind tok'" using ok(2) by (simp add: kindAt_def)
  have pend: "pending f = u16 ''>'' @ pending ?q"
    using f(3) drop_f drop_q by (simp add: pending_def tok'_def u16_def spelled(1))
  have r: "rem ?q < rem f" using drop_f drop_q by (simp add: rem_def tok'_def spelled(1))
  have "pinv ?q"
    using inv g oks kq assms(3) by (auto simp: pinv_def grows_def tok'_def kind_simps)
  then have "delta f ?q [GreenToken Gt (u16 ''>'')] []"
    using g r pend kq ok' by (auto simp: delta_def atEnd_def tokOk_def kind_simps)
  then have "step d f ?q" by (force simp: step_def)
  with flushed_step [OF f(2)] have "step d p ?q" by (rule step_trans)
  moreover have "rem f = rem p" using f(2) by (simp add: flushed_def rem_def)
  ultimately show ?thesis using run r by (intro exI [of _ ?q]) simp
qed

lemma expectClosingGt_acts [act_intros]: "acts d S n (expectClosingGt m)"
proof (rule actsI)
  fix p
  assume p: "pinv p" "kindAt p \<in> S" "rem p < n"
  consider "kindAt p = Gt" | "kindAt p = GtGt \<or> kindAt p = GtGtGt"
    | "kindAt p \<noteq> Gt" "kindAt p \<noteq> GtGt" "kindAt p \<noteq> GtGtGt" by blast
  then show "\<exists>p'. expectClosingGt m p = Some p' \<and> step d p p'"
  proof cases
    case 1
    with actsD [OF bump_acts [of d] p] show ?thesis by (auto simp: expectClosingGt_def letA_def)
  next
    case 2
    with splitGt_step [OF p(1) refl, of d] show ?thesis by (auto simp: expectClosingGt_def letA_def)
  next
    case 3
    with actsD [OF reports_acts [OF emitMissing_reports [of Gt m], of d] p] show ?thesis
      by (auto simp: expectClosingGt_def letA_def)
  qed
qed

section \<open>The contract of the recursive calls\<close>

lemma acts_whileEat [act_intros]:
  assumes "k \<noteq> EndOfFile" and "acts d UNIV n (run as)"
  shows "acts d S n (whileEat k as)"
  unfolding whileEat_def
  by (intro acts_while_at eats_run_first bump_eats assms) (use assms in auto)

text \<open>Rules to try before the general ones: they keep what a condition says of the current token, and let
  recovery follow a report.\<close>

lemmas act_first = acts_missing_recover acts_report_recover acts_if_at acts_when_at

declare recoverTo_acts [act_intros]

text \<open>
  What a parse function relies on when it calls back: from a parser with less than \<open>n\<close> text left, the
  call returns and keeps to \<open>step\<close>. A block is only called at its brace and an if statement only at
  its keyword; a precedence is always positive.
\<close>

locale parse_calls =
  fixes self :: calls and n :: nat
  assumes call_precedence: "1 \<le> m \<Longrightarrow> acts False UNIV n (self (CallPrecedence m))"
    and call_block: "acts False {LBrace} n (self CallBlock)"
    and call_type: "acts False UNIV n (self (CallType b))"
    and call_if: "acts False {KwIf} n (self CallIf)"
begin

lemma self_precedence [act_intros]: "1 \<le> m \<Longrightarrow> acts d S n (self (CallPrecedence m))"
  by (rule acts_weaken [OF call_precedence]) auto

lemma self_block [act_intros]: "acts d {LBrace} n (self CallBlock)"
  by (rule acts_weaken [OF call_block]) auto

lemma self_type [act_intros]: "acts d S n (self (CallType b))"
  by (rule acts_weaken [OF call_type]) auto

lemma self_if [act_intros]: "acts d {KwIf} n (self CallIf)"
  by (rule acts_weaken [OF call_if]) auto

lemma parseExpression_acts [act_intros]: "acts d S n (parseExpression self)"
  unfolding parseExpression_def by (intro act_intros) simp

lemma parseTypeArgList_eats: "eats d {Lt} (Suc n) (parseTypeArgList self)"
  unfolding parseTypeArgList_def
  by (intro eats_node eats_run_Suc expect_eats act_intros; simp add: kind_simps)

lemma parseTypeArgList_acts [act_intros]: "acts d S n (parseTypeArgList self)"
  unfolding parseTypeArgList_def by (intro act_first act_intros; simp add: kind_simps)

lemma typeSuffixLoop_acts:
  assumes "\<And>p. c p \<Longrightarrow> atTok Question p \<or> atTok LBracket p"
  shows "acts d S m (whileA c [ifA (atTok Question) [bump] [bump, bump]])"
proof (rule acts_whileA [where T = "{Question, LBracket}"])
  have "eats d {Question, LBracket} m (run [bump])" "eats d {Question, LBracket} m (run [bump, bump])"
    by (intro eats_run_first bump_eats act_intros; simp)+
  then show "eats d {Question, LBracket} m (run [ifA (atTok Question) [bump] [bump, bump]])"
    by (auto simp: run_single eats_def ifA_def simp del: run.simps)
qed (use assms in \<open>auto simp: atTok_def\<close>)

lemma parseTypeSuffixes_acts [act_intros]: "acts d S m (parseTypeSuffixes b)"
  unfolding parseTypeSuffixes_def by (rule typeSuffixLoop_acts) auto

lemma parseThrowsClause_acts [act_intros]: "acts d S n (parseThrowsClause self)"
  unfolding parseThrowsClause_def by (intro act_first act_intros; simp add: kind_simps)

lemma parseFunctionType_acts [act_intros]: "acts d S n (parseFunctionType self)"
  unfolding parseFunctionType_def by (intro act_first act_intros; simp add: kind_simps)

lemma parseParenthesizedType_eats: "eats d {LParen} (Suc n) (parseParenthesizedType self b)"
  unfolding parseParenthesizedType_def
  by (intro eats_node eats_run_Suc expect_eats act_intros; simp add: kind_simps)

text \<open>A function type consumes its \<open>shared\<close> or its parenthesis, whichever it starts with.\<close>

lemma parseFunctionType_returns:
  assumes "pinv p" and "rem p < Suc n" and "atContextualShared p \<or> kindAt p = LParen"
  shows "\<exists>q. parseFunctionType self p = Some q \<and> step d p q"
proof -
  define as where "as = tl [bump,
      expect LParen (qt @ ''('' @ qt),
      whenA (\<lambda>p. \<not> atTok RParen p \<and> \<not> atEnd p)
        [self (CallType False),
         whileEat Comma [whenA (\<lambda>p. \<not> atTok RParen p) [self (CallType False)]]],
      expect RParen (qt @ '')'' @ qt @ '' to close the function type'' @ qt @ ''s parameter types''),
      expect Arrow (qt @ ''->'' @ qt @ '' after the parameter types, e.g. '' @ qt @ ''(int, int) -> int'' @ qt),
      self (CallType False),
      whenA (atTok KwThrows) [parseThrowsClause self]]"
  have def: "parseFunctionType self = node FuncType (whenA atContextualShared [bumpAs KwShared] # as)"
    unfolding parseFunctionType_def as_def by simp
  let ?q0 = "p\<lparr>builder := b_startNode FuncType (builder p)\<rparr>"
  have same: "atContextualShared ?q0 = atContextualShared p"
    by (simp add: atContextualShared_def peekIsContextualShared_def rawIndexOf_def)
  have "\<exists>q. run (whenA atContextualShared [bumpAs KwShared] # as) ?q0 = Some q \<and> step d ?q0 q"
  proof (cases "atContextualShared p")
    case True
    have "acts d UNIV n (run as)" unfolding as_def list.sel
      by (intro act_first act_intros; simp add: kind_simps)
    then have "eats d {Identifier} (Suc n) (run (bumpAs KwShared # as))"
      by (intro eats_run_Suc bumpAs_eats) (simp_all add: kind_simps)
    moreover have "kindAt ?q0 \<in> {Identifier}" using atContextualShared_kind [OF assms(1) True] by simp
    ultimately have "\<exists>q. run (bumpAs KwShared # as) ?q0 = Some q \<and> step d ?q0 q"
      using assms(2) startNode_pinv [OF assms(1)] eatsD [of d "{Identifier}" "Suc n" _ ?q0] by (auto simp del: run.simps)
    moreover have "run (whenA atContextualShared [bumpAs KwShared] # as) ?q0 = run (bumpAs KwShared # as) ?q0"
      using True same run_single [of "bumpAs KwShared"] by (simp add: whenA_def del: run.simps(1))
    ultimately show ?thesis by simp
  next
    case False
    have "eats d {LParen} (Suc n) (run as)" unfolding as_def list.sel
      by (intro eats_run_Suc expect_eats act_first act_intros; simp add: kind_simps)
    moreover have "kindAt ?q0 \<in> {LParen}" using assms(3) False by simp
    ultimately have "\<exists>q. run as ?q0 = Some q \<and> step d ?q0 q"
      using assms(2) startNode_pinv [OF assms(1)] eatsD [of d "{LParen}" "Suc n" "run as" ?q0] by auto
    with False same show ?thesis by (auto simp: whenA_def)
  qed
  then obtain q where "run (whenA atContextualShared [bumpAs KwShared] # as) ?q0 = Some q" "step d ?q0 q" by blast
  from node_step [OF assms(1) _ _ this] show ?thesis unfolding def by (auto simp: kind_simps)
qed

lemma parseTypeName_acts_Suc: "acts d S (Suc n) (parseTypeName self)"
proof -
  have "acts d T (Suc n) (whenA (\<lambda>p. atTok Lt p \<and> scanTypeArgs p 0 \<noteq> 0) [parseTypeArgList self])" for T
    by (rule acts_whenA_kind [where T = "{Lt}"])
      (auto simp: atTok_def run_single simp del: run.simps intro: eats_acts parseTypeArgList_eats)
  note args = this
  show ?thesis unfolding parseTypeName_def by (intro args act_intros)
qed

lemma parseTypeName_acts [act_intros]: "acts d S n (parseTypeName self)"
  by (rule acts_weaken [OF parseTypeName_acts_Suc]) auto

lemma parseNamedType_acts_Suc: "acts d S (Suc n) (parseNamedType self b)"
  unfolding parseNamedType_def by (intro parseTypeName_acts_Suc act_intros; simp add: kind_simps)

lemma parseType_acts_Suc: "acts d S (Suc n) (parseType self b)"
proof (rule actsI)
  fix p
  assume p: "pinv p" "kindAt p \<in> S" "rem p < Suc n"
  consider "atSharedFunctionType p \<or> atArrowAfterParentheses p" | "\<not> atSharedFunctionType p" "kindAt p = LParen" "\<not> atArrowAfterParentheses p"
    | "\<not> atSharedFunctionType p" "kindAt p \<noteq> LParen" by blast
  then show "\<exists>p'. parseType self b p = Some p' \<and> step d p p'"
  proof cases
    case 1
    then have "atContextualShared p \<or> kindAt p = LParen"
      by (auto simp: atSharedFunctionType_def atArrowAfterParentheses_def atTok_def)
    from parseFunctionType_returns [OF p(1,3) this] 1 show ?thesis
      by (auto simp: parseType_def ifA_def run_single atArrowAfterParentheses_def simp del: run.simps)
  next
    case 2
    from eatsD [OF parseParenthesizedType_eats [of d b] p(1) _ p(3)] 2 show ?thesis
      by (auto simp: parseType_def ifA_def run_single atTok_def simp del: run.simps)
  next
    case 3
    from actsD [OF parseNamedType_acts_Suc [of d _ b] p(1) UNIV_I p(3)] 3 show ?thesis
      by (auto simp: parseType_def ifA_def run_single atTok_def simp del: run.simps)
  qed
qed

lemma parseTypeHead_acts [act_intros]: "acts d S n (parseTypeHead self)"
  unfolding parseTypeHead_def by (intro act_intros typeSuffixLoop_acts; auto simp: kind_simps)

lemma parseTypeParam_acts [act_intros]: "acts d S n (parseTypeParam self)"
  unfolding parseTypeParam_def by (intro act_first act_intros; simp add: kind_simps)

lemma parseTypeParamList_acts [act_intros]: "acts d S n (parseTypeParamList self)"
  unfolding parseTypeParamList_def by (intro act_first act_intros; simp add: kind_simps)

end

end
