(* ===== verification/ParserExpressions.thy ===== *)
theory ParserExpressions
  imports ParserTypes
begin

text \<open>
  Parsing expressions (\<open>parser/Parser.cpp\<close>, the precedence climbing, prefixes, argument lists, struct
  literals, lambdas and switches).
\<close>

section \<open>Operators\<close>

definition ASSIGNMENT_OPS :: "SyntaxKind list" where
  "ASSIGNMENT_OPS = [Eq, PlusEq, MinusEq, StarEq, SlashEq, PercentEq, AmpEq, PipeEq, CaretEq, LtLtEq,
     GtGtEq, GtGtGtEq]"

definition isAssignmentOp :: "SyntaxKind \<Rightarrow> bool" where
  "isAssignmentOp k = (k \<in> set ASSIGNMENT_OPS)"

definition infixPrecedence :: "SyntaxKind \<Rightarrow> int" where
  "infixPrecedence k =
     (if isAssignmentOp k then 1
      else if k = Question then 2
      else if k = PipePipe then 3
      else if k = AmpAmp then 4
      else if k = Pipe then 5
      else if k = Caret then 6
      else if k = Amp then 7
      else if k \<in> {EqEq, NotEq} then 8
      else if k \<in> {Lt, Gt, LtEq, GtEq, KwIs} then 9
      else if k \<in> {LtLt, GtGt, GtGtGt} then 10
      else if k \<in> {Plus, Minus} then 11
      else if k \<in> {Star, Slash, Percent} then 12
      else if k = KwAs then 13
      else if k \<in> {Dot, QuestionDot, LParen, LBracket, PlusPlus, MinusMinus} then 14
      else 0)"

section \<open>Argument lists and literals\<close>

definition parseCallArgument :: "calls \<Rightarrow> action" where
  "parseCallArgument self =
     ifA (\<lambda>p. atContextualOut p \<and> peekKind p 1 = Identifier)
       [node OutArgument [bumpAs KwOut, bump]]
       [ifA (\<lambda>p. atTok Identifier p \<and> peekKind p 1 = Colon)
          [node NamedArgument [bump, bump, parseExpression self]]
          [parseExpression self]]"

definition parseArgList :: "calls \<Rightarrow> action" where
  "parseArgList self = node ArgList
     [expect LParen (qt @ ''('' @ qt),
      whenA (\<lambda>p. \<not> atTok RParen p \<and> \<not> atEnd p)
        [parseCallArgument self,
         whileEat Comma [whenA (\<lambda>p. \<not> atTok RParen p) [parseCallArgument self]]],
      expect RParen (qt @ '')'' @ qt)]"

definition parseStructLiteralField :: "calls \<Rightarrow> action" where
  "parseStructLiteralField self = node StructLiteralField
     [expect Identifier (''a field name, e.g. '' @ qt @ ''{x: 1, y: 2}'' @ qt),
      expect Colon (qt @ '':'' @ qt @ '' after the field name, e.g. '' @ qt @ ''{x: 1}'' @ qt),
      parseExpression self]"

definition parseStructLiteral :: "calls \<Rightarrow> action" where
  "parseStructLiteral self = node StructLiteralExpr
     [expect LBrace (qt @ ''{'' @ qt),
      whenA (\<lambda>p. \<not> atTok RBrace p \<and> \<not> atEnd p)
        [parseStructLiteralField self,
         whileEat Comma [whenA (\<lambda>p. \<not> atTok RBrace p) [parseStructLiteralField self]]],
      expect RBrace (qt @ ''}'' @ qt @ '' to close the struct literal'')]"

section \<open>Lambdas\<close>

text \<open>\<open>"'" + asciiTokenText() + "' ..."\<close>, reported at the current token.\<close>

definition reportToken :: "(string \<Rightarrow> string) \<Rightarrow> action" where
  "reportToken f = letA asciiTokenText (\<lambda>name. reportAtCurrent (f name))"

definition parseLambdaParameter :: "calls \<Rightarrow> action" where
  "parseLambdaParameter self = node LambdaParam
     [whenA (\<lambda>p. \<not> (atTok Identifier p \<and> (peekKind p 1 = Comma \<or> peekKind p 1 = RParen)) \<and>
                 isTypeOrGroupStart (kindAt p))
        [self (CallType False)],
      ifA (atTok Identifier) [bump]
        [ifA (\<lambda>p. atTok Comma p \<or> atTok RParen p)
           [emitMissing Identifier (''the parameter'' @ qt @ ''s name after its type, e.g. '' @ qt @ ''(int a, int b) -> a - b'' @ qt)]
           [ifA (\<lambda>p. isKeyword (kindAt p))
              [reportToken (\<lambda>name. qt @ name @ (qt @ '' is a keyword and cannot be used as a '') @
                 (''parameter name; choose a different name such as '' @ qt @ ''value'' @ qt)),
               bumpAs Identifier]
              [reportAtCurrent (''Expected the lambda parameter'' @ qt @ ''s name, e.g. '' @ qt @ ''(a, b) -> a - b'' @ qt),
               bumpAs Identifier]]]]"

definition parseLambdaParameters :: "calls \<Rightarrow> action" where
  "parseLambdaParameters self = ifA (\<lambda>p. atTok RParen p \<or> atEnd p) []
     [parseLambdaParameter self,
      whileEat Comma [whenA (\<lambda>p. \<not> atTok RParen p) [parseLambdaParameter self]]]"

definition parseLambdaBody :: "calls \<Rightarrow> action" where
  "parseLambdaBody self =
     ifA (\<lambda>p. atTok LBrace p \<and> \<not> atStructLiteralStart p) [self CallBlock] [parseExpression self]"

definition parseLambda :: "calls \<Rightarrow> action" where
  "parseLambda self = node LambdaExpr
     [expect LParen (qt @ ''('' @ qt),
      parseLambdaParameters self,
      expect RParen (qt @ '')'' @ qt @ '' to close the lambda'' @ qt @ ''s parameters''),
      expect Arrow (qt @ ''->'' @ qt @ '' after the lambda'' @ qt @ ''s parameters, e.g. '' @ qt @ ''(a, b) -> a - b'' @ qt),
      parseLambdaBody self]"

definition parseBareParameterLambda :: "calls \<Rightarrow> action" where
  "parseBareParameterLambda self = run
     [reportToken (\<lambda>name. (''A lambda'' @ qt @ ''s parameters are always written in parentheses: use '' @ qt @ ''('') @ name @
        ('') -> ...'' @ qt @ '' rather than '' @ qt) @ name @ ('' -> ...'' @ qt)),
      node LambdaExpr
        [node LambdaParam [bumpAs Identifier],
         bump,
         parseLambdaBody self]]"

section \<open>Switches\<close>

definition setArmLabels :: "bool \<Rightarrow> action" where
  "setArmLabels b p = Some (p\<lparr>inArmLabels := b\<rparr>)"

definition parseSwitchArm :: "calls \<Rightarrow> action" where
  "parseSwitchArm self = node SwitchArm
     [ifA (atTok KwDefault) [bump]
        [ifA (atTok KwIs)
           [bump,
            ifA (\<lambda>p. isTypeStart (kindAt p)) [self (CallType False)]
              [emitMissing Identifier (''type after '' @ qt @ ''is'' @ qt)],
            eat Identifier]
           [letA inArmLabels (\<lambda>outerLabels. run
              [setArmLabels True,
               parseExpression self,
               whileEat Comma
                 [whenA (\<lambda>p. \<not> (atTok Arrow p \<or> atTok RBrace p \<or> atEnd p)) [parseExpression self]],
               setArmLabels outerLabels])]],
      expect Arrow (qt @ ''->'' @ qt @ '' after the switch label''),
      ifA (\<lambda>p. atTok LBrace p \<and> \<not> atStructLiteralStart p) [self CallBlock] [parseExpression self],
      eat Comma]"

definition parseSwitchHeaderAndArms :: "calls \<Rightarrow> action" where
  "parseSwitchHeaderAndArms self = run
     [expect LParen (qt @ ''('' @ qt @ '' after '' @ qt @ ''switch'' @ qt),
      parseExpression self,
      expect RParen (qt @ '')'' @ qt @ '' after the switch value''),
      expect LBrace (qt @ ''{'' @ qt @ '' to begin the switch body''),
      whileA (\<lambda>p. \<not> atTok RBrace p \<and> \<not> atEnd p)
        [ensureProgress [parseSwitchArm self]
           [reportAtCurrent (''Unexpected token in switch body''),
            recoverTo [Comma, RBrace, EndOfFile],
            eat Comma]],
      expect RBrace (qt @ ''}'' @ qt @ '' to close the switch body'')]"

definition parseSwitchExpr :: "calls \<Rightarrow> action" where
  "parseSwitchExpr self = node SwitchExpr [expect KwSwitch (qt @ ''switch'' @ qt), parseSwitchHeaderAndArms self]"

section \<open>Prefixes\<close>

text \<open>The dimensions of an array allocation. The loop keeps whether an empty dimension has been seen.\<close>

definition newDimension :: "calls \<Rightarrow> bool \<times> Parser \<Rightarrow> (bool \<times> Parser) option" where
  "newDimension self s = (case s of (seenEmpty, p) \<Rightarrow>
     Option.bind (bump p) (\<lambda>q.
       if atTok RBracket q then map_option (Pair True) (bump q)
       else map_option (Pair seenEmpty)
         (run [whenA (\<lambda>_. seenEmpty) [reportAtCurrent (''Sized dimensions must come before any '' @ qt @ ''[]'' @ qt @ '' dimensions'')],
               parseExpression self,
               expect RBracket (qt @ '']'' @ qt @ '' after array size'')] q)))"

definition newDimensions :: "calls \<Rightarrow> action" where
  "newDimensions self p = map_option snd (whileP (\<lambda>s. atTok LBracket (snd s)) (newDimension self) (False, p))"

definition parseNewExpr :: "calls \<Rightarrow> action" where
  "parseNewExpr self = node NewExpr
     [bump,
      ifA (\<lambda>p. isTypeStart (kindAt p)) [parseTypeHead self]
        [emitMissing Identifier (''type name after '' @ qt @ ''new'' @ qt)],
      ifA (atTok LBracket) [newDimensions self]
        [ifA (atTok LParen) [parseArgList self]
           [emitMissing LParen (qt @ ''('' @ qt @ '' or '' @ qt @ ''['' @ qt @ '' after type in '' @ qt @ ''new'' @ qt)]]]"

definition parseInterpolatedString :: "calls \<Rightarrow> action" where
  "parseInterpolatedString self = node InterpStringExpr
     [bump,
      parseExpression self,
      whileEat InterpStringMid [parseExpression self],
      expect InterpStringEnd (''end of interpolated string'')]"

definition parseArrayLiteral :: "calls \<Rightarrow> action" where
  "parseArrayLiteral self = node ArrayLiteralExpr
     [bump,
      whenA (\<lambda>p. \<not> atTok RBracket p \<and> \<not> atEnd p)
        [parseExpression self,
         whileEat Comma [whenA (\<lambda>p. \<not> atTok RBracket p) [parseExpression self]]],
      expect RBracket (qt @ '']'' @ qt @ '' to close array literal'')]"

definition parsePrefix :: "calls \<Rightarrow> action" where
  "parsePrefix self =
     ifA (atTok KwTry) [node TryExpr [bump, self (CallPrecedence 14)]]
     [ifA (atTok KwSwitch) [parseSwitchExpr self]
     [ifA (atAny [IntLiteral, LongLiteral, FloatLiteral, DoubleLiteral, StringLiteral, CharLiteral, KwTrue,
                  KwFalse, KwNull]) [node LiteralExpr [bump]]
     [ifA (atTok InterpStringStart) [parseInterpolatedString self]
     [ifA (atTok Identifier)
        [ifA (\<lambda>p. \<not> inArmLabels p \<and> peekKind p 1 = Arrow) [parseBareParameterLambda self]
           [node IdentExpr [bump]]]
     [ifA (atAny PRIMITIVE_TYPES) [node IdentExpr [bump]]
     [ifA (atTok KwThis) [node ThisExpr [bump]]
     [ifA (atTok KwSuper) [node SuperExpr [bump]]
     [ifA (atTok KwNew) [parseNewExpr self]
     [ifA (atTok LParen)
        [ifA (\<lambda>p. \<not> inArmLabels p \<and> atArrowAfterParentheses p) [parseLambda self]
           [node ParenExpr [bump, parseExpression self, expect RParen (qt @ '')'' @ qt)]]]
     [ifA (atAny [Minus, Bang, Tilde, PlusPlus, MinusMinus]) [node PrefixExpr [bump, self (CallPrecedence 13)]]
     [ifA (atTok LBrace) [parseStructLiteral self]
     [ifA (atTok LBracket) [parseArrayLiteral self]
     [emitMissing Identifier (''expression'')]]]]]]]]]]]]]"

section \<open>Precedence climbing\<close>

text \<open>The generic call \<open>callee<T>(args)\<close> and the static member head \<open>Type<T>.member\<close>, told from a comparison
  by what follows a balanced angle list.\<close>

definition genericThen :: "SyntaxKind \<Rightarrow> Parser \<Rightarrow> bool" where
  "genericThen k p = (atTok Lt p \<and> scanTypeArgs p 0 \<noteq> 0 \<and> peekKind p (scanTypeArgs p 0) = k)"

definition precedenceHere :: "Parser \<Rightarrow> int" where
  "precedenceHere p =
     (if atSafeSubscript p then 14
      else if atNullCoalesce p \<or> (\<not> atNullCoalesce p \<and> atSeparatedNullCoalesce p) then 3
      else infixPrecedence (kindAt p))"

definition infixGoesOn :: "int \<Rightarrow> Parser \<Rightarrow> bool" where
  "infixGoesOn minPrec p =
     (genericThen LParen p \<or> genericThen Dot p \<or> \<not> precedenceHere p < minPrec)"

definition infixOperator :: "calls \<Rightarrow> nat \<Rightarrow> int \<Rightarrow> action" where
  "infixOperator self cp prec =
     ifA atSafeSubscript
       [nodeAt cp SafeSubscriptExpr
          [bump, bump, parseExpression self, expect RBracket (qt @ '']'' @ qt @ '' after safe subscript'')]]
     [ifA (\<lambda>p. atNullCoalesce p \<or> atSeparatedNullCoalesce p)
       [whenA (\<lambda>p. \<not> atNullCoalesce p)
          [reportOverQuestionPair ((''The two question marks of '' @ qt @ ''??'' @ qt @ '' must be written '') @
             (''together, with nothing between them''))],
        nodeAt cp NullCoalesceExpr [bump, bump, self (CallPrecedence prec)]]
     [ifA (atTok LParen) [nodeAt cp CallExpr [parseArgList self]]
     [ifA (atTok LBracket)
       [nodeAt cp SubscriptExpr [bump, parseExpression self, expect RBracket (qt @ '']'' @ qt @ '' after subscript'')]]
     [ifA (atAny [PlusPlus, MinusMinus]) [nodeAt cp PostfixExpr [bump]]
     [ifA (atTok Dot) [nodeAt cp MemberExpr [bump, expect Identifier (''identifier after '' @ qt @ ''.'' @ qt)]]
     [ifA (atTok QuestionDot) [nodeAt cp SafeMemberExpr [bump, expect Identifier (''identifier after '' @ qt @ ''?.'' @ qt)]]
     [ifA (atTok KwAs)
       [letA (\<lambda>p. peekKind p 1 = Question) (\<lambda>checked.
          nodeAt cp (if checked then CheckedCastExpr else CastExpr)
            [bump,
             whenA (\<lambda>_. checked) [bump],
             ifA (\<lambda>p. isTypeOrGroupStart (kindAt p)) [self (CallType True)]
               [emitMissing Identifier (if checked then (''type after '' @ qt @ ''as?'' @ qt) else (''type after '' @ qt @ ''as'' @ qt))]])]
     [ifA (atTok KwIs)
       [nodeAt cp TypeTestExpr
          [bump,
           ifA (\<lambda>p. isTypeStart (kindAt p)) [self (CallType False)]
             [emitMissing Identifier (''type after '' @ qt @ ''is'' @ qt)]]]
     [ifA (atTok Question)
       [nodeAt cp TernaryExpr
          [bump,
           letA (atTok LBracket) (\<lambda>branchOpensBracket. run
             [parseExpression self,
              expect Colon (if branchOpensBracket
                then (qt @ '':'' @ qt @ '' between the two results of the conditional; for a safe subscript write '') @
                     (qt @ ''?['' @ qt @ '' with no space before the bracket, as in '' @ qt @ ''rows?[0]'' @ qt)
                else (qt @ '':'' @ qt @ '' between the two results of the conditional, as in '') @
                     (qt @ ''condition ? whenTrue : whenFalse'' @ qt))]),
           self (CallPrecedence 1)]]
     [ifA (\<lambda>p. isAssignmentOp (kindAt p)) [nodeAt cp AssignExpr [bump, self (CallPrecedence prec)]]
     [nodeAt cp BinaryExpr [bump, self (CallPrecedence (prec + 1))]]]]]]]]]]]]"

definition infixStep :: "calls \<Rightarrow> nat \<Rightarrow> action" where
  "infixStep self cp =
     ifA (genericThen LParen) [nodeAt cp CallExpr [parseTypeArgList self, parseArgList self]]
     [ifA (genericThen Dot) [nodeAt cp GenericNameExpr [parseTypeArgList self]]
     [letA precedenceHere (infixOperator self cp)]]"

definition parsePrecedence :: "calls \<Rightarrow> int \<Rightarrow> action" where
  "parsePrecedence self minPrec = withCheckpoint (\<lambda>cp. run
     [parsePrefix self, whileA (infixGoesOn minPrec) [infixStep self cp]])"

section \<open>Every function returns\<close>

lemma setArmLabels_acts [act_intros]: "acts d S n (setArmLabels b)"
proof (rule actsI)
  fix p
  assume p: "pinv p"
  let ?q = "p\<lparr>inArmLabels := b\<rparr>"
  have "pinv ?q" using p by (simp add: pinv_def)
  then have "delta p ?q [] []" using p by (simp add: delta_def atEnd_def grows_refl pinv_def)
  then show "\<exists>p'. setArmLabels b p = Some p' \<and> step d p p'" by (force simp: setArmLabels_def step_def)
qed

lemma reportToken_acts [act_intros]: "acts d S n (reportToken f)"
  unfolding reportToken_def by (intro act_intros)

lemma acts_if_atAny: "acts d (set ks) n (run as) \<Longrightarrow> acts d S n (run bs) \<Longrightarrow> acts d S n (ifA (atAny ks) as bs)"
  by (rule acts_ifA_kind) (auto simp: atAny_def)

text \<open>A loop over the items of a braced list, each of which is made to consume something.\<close>

lemma acts_item_loop:
  assumes "acts d UNIV n (run body)" and "acts d UNIV n (run recovery)"
  shows "acts d S n (whileA (\<lambda>p. \<not> atTok k p \<and> \<not> atEnd p) [ensureProgress body recovery])"
proof (rule acts_whileA)
  show "kindAt p \<in> - {EndOfFile}" if "\<not> atTok k p \<and> \<not> atEnd p" for p using that by (simp add: atEnd_def)
  show "eats d (- {EndOfFile}) n (run [ensureProgress body recovery])"
    unfolding run_single
    by (rule ensureProgress_eats) (use assms in \<open>auto intro: acts_weaken\<close>)
qed

context parse_calls
begin

lemma parseCallArgument_acts [act_intros]: "acts d S n (parseCallArgument self)"
  unfolding parseCallArgument_def by (intro act_first act_intros; simp add: kind_simps)

lemma parseArgList_eats: "eats d {LParen} (Suc n) (parseArgList self)"
  unfolding parseArgList_def
  by (intro eats_node eats_run_Suc expect_eats act_intros; simp add: kind_simps)

lemma parseArgList_acts [act_intros]: "acts d S n (parseArgList self)"
  unfolding parseArgList_def by (intro act_first act_intros; simp add: kind_simps)

lemma parseStructLiteralField_acts [act_intros]: "acts d S n (parseStructLiteralField self)"
  unfolding parseStructLiteralField_def by (intro act_first act_intros; simp add: kind_simps)

lemma parseStructLiteral_eats: "eats d {LBrace} (Suc n) (parseStructLiteral self)"
  unfolding parseStructLiteral_def
  by (intro eats_node eats_run_Suc expect_eats act_intros; simp add: kind_simps)

lemma parseLambdaParameter_acts [act_intros]: "acts d S n (parseLambdaParameter self)"
  unfolding parseLambdaParameter_def by (intro act_first act_intros; simp add: kind_simps)

lemma parseLambdaParameters_acts [act_intros]: "acts d S n (parseLambdaParameters self)"
  unfolding parseLambdaParameters_def by (intro act_first act_intros; simp add: kind_simps)

lemma block_or_expression_acts:
  "acts d S n (ifA (\<lambda>p. atTok LBrace p \<and> \<not> atStructLiteralStart p) [self CallBlock] [parseExpression self])"
  by (rule acts_ifA_kind [where T = "{LBrace}"]; (intro act_intros)?) (auto simp: atTok_def)

lemma parseLambdaBody_acts [act_intros]: "acts d S n (parseLambdaBody self)"
  unfolding parseLambdaBody_def by (rule block_or_expression_acts)

lemma parseLambda_eats: "eats d {LParen} (Suc n) (parseLambda self)"
  unfolding parseLambda_def
  by (intro eats_node eats_run_Suc expect_eats act_intros; simp add: kind_simps)

lemma parseSwitchArm_acts [act_intros]: "acts d S n (parseSwitchArm self)"
  unfolding parseSwitchArm_def
  by (intro act_first block_or_expression_acts act_intros; simp add: kind_simps)

lemma parseSwitchHeaderAndArms_acts [act_intros]: "acts d S n (parseSwitchHeaderAndArms self)"
  unfolding parseSwitchHeaderAndArms_def
  by (intro act_first acts_item_loop act_intros; simp add: kind_simps)

lemma parseSwitchExpr_eats: "eats d {KwSwitch} (Suc n) (parseSwitchExpr self)"
  unfolding parseSwitchExpr_def
  by (intro eats_node eats_run_Suc expect_eats act_intros; simp add: kind_simps)

lemma parseInterpolatedString_eats: "eats d {InterpStringStart} (Suc n) (parseInterpolatedString self)"
  unfolding parseInterpolatedString_def
  by (intro eats_node eats_run_Suc bump_eats act_intros; simp add: kind_simps)

lemma parseArrayLiteral_eats: "eats d {LBracket} (Suc n) (parseArrayLiteral self)"
  unfolding parseArrayLiteral_def
  by (intro eats_node eats_run_Suc bump_eats act_intros; simp add: kind_simps)

lemma parseBareParameterLambda_acts: "acts d {Identifier} (Suc n) (parseBareParameterLambda self)"
proof (rule actsI)
  let ?lambda = "node LambdaExpr [node LambdaParam [bumpAs Identifier], bump, parseLambdaBody self]"
  fix p
  assume p: "pinv p" "kindAt p \<in> {Identifier}" "rem p < Suc n"
  obtain m where m: "parseBareParameterLambda self p = run [reportAtCurrent m, ?lambda] p"
    by (simp add: parseBareParameterLambda_def reportToken_def letA_def)
  obtain sp where r: "reportAtCurrent m p = Some (p\<lparr>p_sink := sinkError (p_sink p) sp m\<rparr>)" (is "_ = Some ?q")
    using pinv_current(4) [OF p(1)] by (auto simp: reportAtCurrent_def reportSpan_def Let_def)
  have "eats d {Identifier} (Suc n) ?lambda"
    by (intro eats_node eats_run_Suc bumpAs_eats act_intros; simp add: kind_simps run_single del: run.simps;
        intro bumpAs_eats; simp add: kind_simps)
  moreover have s: "step d p ?q"
    using actsD [OF reports_acts [OF reportAtCurrent_reports [of m], of d] p(1) _ p(3), of UNIV] r by auto
  moreover have "kindAt ?q \<in> {Identifier}" "rem ?q < Suc n" using p by simp_all
  ultimately have "\<exists>t. ?lambda ?q = Some t \<and> step d ?q t" using eatsD step_pinv [OF s] by blast
  then show "\<exists>p'. parseBareParameterLambda self p = Some p' \<and> step d p p'"
    using m r s run_single [of ?lambda] by (auto intro: step_trans)
qed

lemma newDimension_step:
  assumes "pinv p" and "kindAt p = LBracket" and "rem p < n"
  shows "\<exists>e q. newDimension self (b, p) = Some (e, q) \<and> step d p q \<and> rem q < rem p"
proof -
  from eatsD [OF bump_eats [of "{LBracket}" d n] assms(1) _ assms(3)] assms(2)
  obtain q where q: "bump p = Some q" "step d p q" "rem q < rem p" by auto
  note inv = step_pinv [OF q(2)]
  have n: "rem q < n" using q(3) assms(3) by simp
  show ?thesis
  proof (cases "atTok RBracket q")
    case True
    from actsD [OF bump_acts [of d] inv UNIV_I n] obtain r where r: "bump q = Some r" "step d q r" by auto
    with q True step_rem [OF r(2)] show ?thesis
      by (auto simp: newDimension_def intro: step_trans)
  next
    case False
    let ?as = "[whenA (\<lambda>_. b) [reportAtCurrent (''Sized dimensions must come before any '' @ qt @ ''[]'' @ qt @ '' dimensions'')],
      parseExpression self, expect RBracket (qt @ '']'' @ qt @ '' after array size'')]"
    have "acts d UNIV n (run ?as)" by (intro act_intros)
    from actsD [OF this inv UNIV_I n] obtain r where r: "run ?as q = Some r" "step d q r" by auto
    with q False step_rem [OF r(2)] show ?thesis
      by (auto simp: newDimension_def simp del: run.simps intro: step_trans)
  qed
qed

lemma newDimensions_acts [act_intros]: "acts d S n (newDimensions self)"
proof (rule actsI)
  fix p
  assume p: "pinv p" "rem p < n"
  let ?c = "\<lambda>s :: bool \<times> Parser. atTok LBracket (snd s)"
  have "\<exists>t. whileP ?c (newDimension self) (False, p) = Some t \<and> (step d p (snd t) \<and> rem (snd t) < n) \<and> True \<and> \<not> ?c t"
  proof (rule whileP_total [where m = "rem \<circ> snd" and R = "\<lambda>_ _. True"])
    fix s :: "bool \<times> Parser"
    assume s: "step d p (snd s) \<and> rem (snd s) < n" "?c s"
    with newDimension_step [of "snd s" "fst s" d] step_pinv [of d p "snd s"]
    obtain e q where "newDimension self s = Some (e, q)" "step d (snd s) q" "rem q < rem (snd s)"
      by (auto simp: atTok_def)
    with s show "\<exists>s'. newDimension self s = Some s' \<and> (step d p (snd s') \<and> rem (snd s') < n) \<and> True \<and>
        (rem \<circ> snd) s' < (rem \<circ> snd) s" by (auto intro: step_trans)
  qed (use p in \<open>auto intro: step_refl\<close>)
  then show "\<exists>p'. newDimensions self p = Some p' \<and> step d p p'" by (auto simp: newDimensions_def)
qed

lemma parseNewExpr_eats: "eats d {KwNew} (Suc n) (parseNewExpr self)"
  unfolding parseNewExpr_def
  by (intro eats_node eats_run_Suc bump_eats act_first act_intros; simp add: kind_simps)

text \<open>A node around one token, whatever the fuel.\<close>

lemma bump_node_acts: "isNode k \<Longrightarrow> k \<noteq> Error \<Longrightarrow> acts d S m (node k [bump])"
  by (intro act_intros) simp_all

lemma prefix_node_eats:
  "EndOfFile \<notin> S \<Longrightarrow> isNode k \<Longrightarrow> k \<noteq> Error \<Longrightarrow> acts d UNIV n (run as) \<Longrightarrow> eats d S (Suc n) (node k (bump # as))"
  by (intro eats_node eats_run_Suc bump_eats) simp_all

lemmas prefix_eats = parseSwitchExpr_eats parseInterpolatedString_eats parseArrayLiteral_eats
  parseNewExpr_eats parseLambda_eats parseStructLiteral_eats parseArgList_eats

lemma parsePrefix_acts: "acts d S (Suc n) (parsePrefix self)"
  unfolding parsePrefix_def
  by (intro acts_if_at acts_if_atAny acts_ifA acts_run_run bump_node_acts report_acts
        parseBareParameterLambda_acts prefix_eats [THEN eats_acts] prefix_node_eats [THEN eats_acts]
        acts_run_Cons acts_run_Nil self_precedence parseExpression_acts expect_acts;
      simp add: kind_simps PRIMITIVE_TYPES_def)

section \<open>The operator loop\<close>

lemma infixPrecedence_EndOfFile: "infixPrecedence EndOfFile = 0"
  by (simp add: infixPrecedence_def isAssignmentOp_def ASSIGNMENT_OPS_def)

lemma infixGoesOn_kind: "1 \<le> m \<Longrightarrow> infixGoesOn m p \<Longrightarrow> kindAt p \<in> - {EndOfFile}"
  using infixPrecedence_EndOfFile
  by (auto simp: infixGoesOn_def genericThen_def atTok_def precedenceHere_def atSafeSubscript_def
      atNullCoalesce_def atSeparatedNullCoalesce_def split: if_splits)

lemma extends_run_single: "extends d p0 S m a \<Longrightarrow> extends d p0 S m (run [a])"
  by (simp only: run_single)

lemma extends_operator:
  "b_checkpoint (builder p0) = Some cp \<Longrightarrow> EndOfFile \<notin> S \<Longrightarrow> isNode k \<Longrightarrow> k \<noteq> Error \<Longrightarrow>
     acts d UNIV n (run as) \<Longrightarrow> extends d p0 S (Suc n) (nodeAt cp k (bump # as))"
  by (intro extends_nodeAt eats_run_Suc bump_eats)

lemma coalesce_extends:
  assumes "b_checkpoint (builder p0) = Some cp" and "1 \<le> prec"
  shows "extends d p0 {Question} (Suc n) (run
    [whenA (\<lambda>p. \<not> atNullCoalesce p) [reportOverQuestionPair msg],
     nodeAt cp NullCoalesceExpr [bump, bump, self (CallPrecedence prec)]])"
  unfolding extends_def
proof (intro allI impI)
  let ?w = "whenA (\<lambda>p. \<not> atNullCoalesce p) [reportOverQuestionPair msg]"
  let ?n = "nodeAt cp NullCoalesceExpr [bump, bump, self (CallPrecedence prec)]"
  fix p
  assume p: "step d p0 p" "kindAt p \<in> {Question}" "rem p < Suc n"
  have keeps: "\<exists>s. reportOverQuestionPair msg p = Some (p\<lparr>p_sink := s\<rparr>)"
    using pinv_current(4) [OF step_pinv [OF p(1)]]
    by (auto simp: reportOverQuestionPair_def reportAtCurrent_def reportSpan_def Let_def)
  have "\<exists>q. ?w p = Some q \<and> step d p q \<and> kindAt q = Question \<and> rem q = rem p"
  proof (cases "atNullCoalesce p")
    case True
    with p step_refl [OF step_pinv [OF p(1)]] show ?thesis by (simp add: whenA_def)
  next
    case False
    from keeps obtain s where s: "reportOverQuestionPair msg p = Some (p\<lparr>p_sink := s\<rparr>)" by blast
    with actsD [OF reports_acts [OF reportOverQuestionPair_reports [of msg], of d] step_pinv [OF p(1)] UNIV_I p(3)]
    have "step d p (p\<lparr>p_sink := s\<rparr>)" by auto
    with False s p show ?thesis by (simp add: whenA_def)
  qed
  then obtain q where q: "?w p = Some q" "step d p q" "kindAt q = Question" "rem q = rem p" by blast
  have "extends d p0 {Question} (Suc n) ?n"
    by (intro extends_operator assms(1) act_intros assms(2)) (simp_all add: kind_simps)
  with step_trans [OF p(1) q(2)] q p(3) obtain r where "?n q = Some r" "step d p0 r" "rem r < rem q"
    unfolding extends_def by auto
  with q run_single [of ?n] show "\<exists>q. run [?w, ?n] p = Some q \<and> step d p0 q \<and> rem q < rem p" by auto
qed

lemma extends_branches:
  "extends d p0 {k} m (run as) \<Longrightarrow> extends d p0 S m (run bs) \<Longrightarrow> extends d p0 S m (ifA (atTok k) as bs)"
  "extends d p0 (set ks) m (run as) \<Longrightarrow> extends d p0 S m (run bs) \<Longrightarrow> extends d p0 S m (ifA (atAny ks) as bs)"
  "extends d p0 {Question} m (run as) \<Longrightarrow> extends d p0 S m (run bs) \<Longrightarrow>
     extends d p0 S m (ifA atSafeSubscript as bs)"
  "extends d p0 {Question} m (run as) \<Longrightarrow> extends d p0 S m (run bs) \<Longrightarrow>
     extends d p0 S m (ifA (\<lambda>p. atNullCoalesce p \<or> atSeparatedNullCoalesce p) as bs)"
  "extends d p0 S m (run as) \<Longrightarrow> extends d p0 S m (run bs) \<Longrightarrow>
     extends d p0 S m (ifA (\<lambda>p. isAssignmentOp (kindAt p)) as bs)"
  "extends d p0 {Lt} m (run as) \<Longrightarrow> extends d p0 S m (run bs) \<Longrightarrow> extends d p0 S m (ifA (genericThen k) as bs)"
  by (auto simp: extends_def ifA_def atTok_def atAny_def atSafeSubscript_def atNullCoalesce_def
      atSeparatedNullCoalesce_def genericThen_def split: if_splits)

lemma infixOperator_extends:
  assumes "b_checkpoint (builder p0) = Some cp" and "1 \<le> prec"
  shows "extends d p0 (- {EndOfFile}) (Suc n) (infixOperator self cp prec)"
proof -
  have args: "eats d {LParen} (Suc n) (run [parseArgList self])"
    by (simp only: run_single parseArgList_eats)
  show ?thesis unfolding infixOperator_def
    by (intro extends_branches coalesce_extends extends_run_single extends_letA extends_operator
          extends_nodeAt [OF _ args] assms act_intros;
        use assms(2) in \<open>simp add: kind_simps\<close>)
qed

lemma infixStep_extends:
  assumes "b_checkpoint (builder p0) = Some cp" and "1 \<le> m"
    and "infixGoesOn m p" and "step d p0 p" and "rem p < Suc n"
  shows "\<exists>q. run [infixStep self cp] p = Some q \<and> step d p0 q \<and> rem q < rem p"
proof -
  have k: "kindAt p \<in> - {EndOfFile}" using infixGoesOn_kind [OF assms(2,3)] .
  have call: "extends d p0 {Lt} (Suc n) (nodeAt cp CallExpr [parseTypeArgList self, parseArgList self])"
    and name: "extends d p0 {Lt} (Suc n) (nodeAt cp GenericNameExpr [parseTypeArgList self])"
    by (intro extends_nodeAt [OF assms(1)] eats_run_Suc parseTypeArgList_eats act_intros; simp add: kind_simps)+
  show ?thesis
  proof (cases "genericThen LParen p \<or> genericThen Dot p")
    case True
    then have "kindAt p \<in> {Lt}" by (auto simp: genericThen_def atTok_def)
    with call name assms(4,5) True show ?thesis
      unfolding extends_def infixStep_def by (auto simp: ifA_def run_single simp del: run.simps)
  next
    case False
    with assms(2,3) have "1 \<le> precedenceHere p" by (simp add: infixGoesOn_def)
    from infixOperator_extends [OF assms(1) this, of d] assms(4,5) k False show ?thesis
      unfolding extends_def infixStep_def by (auto simp: ifA_def letA_def run_single simp del: run.simps)
  qed
qed

lemma parsePrecedence_acts:
  assumes "1 \<le> m"
  shows "acts d S (Suc n) (parsePrecedence self m)"
  unfolding parsePrecedence_def
proof (rule acts_withCheckpoint)
  fix p0 :: Parser and cp
  assume cp: "b_checkpoint (builder p0) = Some cp"
  show "reaches d p0 S (Suc n) (run [parsePrefix self, whileA (infixGoesOn m) [infixStep self cp]])"
    by (intro reaches_run_Cons reaches_run_Nil acts_reaches [OF parsePrefix_acts] reaches_whileA
        infixStep_extends [OF cp assms])
qed

end

section \<open>Facts about the operator table\<close>

text \<open>an operator is an assignment for the parser exactly when it is \<open>=\<close> or one of the compound
  assignments whose binary operator \<open>compoundAssignmentOperator\<close> knows, and then that operator is one the
  parser reads as a binary operator that binds tighter than any assignment.\<close>

theorem assignment_operators_agree:
  "(\<not> isAssignmentOp k \<longleftrightarrow> k \<noteq> Eq \<and> compoundAssignmentOperator k = Invalid) \<and>
   list_all (\<lambda>a. infixPrecedence a = 1 \<and>
       (a = Eq \<or> 5 \<le> infixPrecedence (compoundAssignmentOperator a) \<and>
         infixPrecedence (compoundAssignmentOperator a) \<le> 12)) ASSIGNMENT_OPS"
proof
  show "\<not> isAssignmentOp k \<longleftrightarrow> k \<noteq> Eq \<and> compoundAssignmentOperator k = Invalid"
    by (simp add: isAssignmentOp_def ASSIGNMENT_OPS_def compoundAssignmentOperator_def split: if_split)
qed code_simp

end
