(* ===== verification/ParserStatements.thy ===== *)
theory ParserStatements
  imports ParserExpressions
begin

text \<open>Parsing statements (\<open>parser/Parser.cpp\<close>, the section on statements).\<close>

section \<open>Simple statements\<close>

definition parseLetStmt :: "calls \<Rightarrow> action" where
  "parseLetStmt self = node LetStmt
     [expect KwLet (qt @ ''let'' @ qt),
      expect Identifier (''identifier after '' @ qt @ ''let'' @ qt),
      whenA (atTok Eq) [bump, parseExpression self],
      expect Semi (qt @ '';'' @ qt @ '' after let declaration'')]"

definition parseTypedVarDeclStmt :: "calls \<Rightarrow> action" where
  "parseTypedVarDeclStmt self = node TypedVarDecl
     [self (CallType False),
      expect Identifier (''identifier after type''),
      whenA (atTok Eq) [bump, parseExpression self],
      expect Semi (qt @ '';'' @ qt @ '' after declaration'')]"

definition parseConstDecl :: "calls \<Rightarrow> action" where
  "parseConstDecl self = ifA (\<lambda>p. looksLikeTypedVarDeclFrom p 1)
     [node TypedVarDecl
        [expect KwConst (qt @ ''const'' @ qt),
         self (CallType False),
         expect Identifier (''identifier after type''),
         whenA (atTok Eq) [bump, parseExpression self],
         expect Semi (qt @ '';'' @ qt @ '' after declaration'')]]
     [node LetStmt
        [expect KwConst (qt @ ''const'' @ qt),
         expect Identifier (''identifier after '' @ qt @ ''const'' @ qt),
         whenA (atTok Eq) [bump, parseExpression self],
         expect Semi (qt @ '';'' @ qt @ '' after const declaration'')]]"

definition parseBreakStmt :: action where
  "parseBreakStmt = node BreakStmt [expect KwBreak (qt @ ''break'' @ qt), expect Semi (qt @ '';'' @ qt @ '' after break'')]"

definition parseContinueStmt :: action where
  "parseContinueStmt = node ContinueStmt [expect KwContinue (qt @ ''continue'' @ qt), expect Semi (qt @ '';'' @ qt @ '' after continue'')]"

definition parseReturnStmt :: "calls \<Rightarrow> action" where
  "parseReturnStmt self = node ReturnStmt
     [expect KwReturn (qt @ ''return'' @ qt),
      whenA (\<lambda>p. \<not> atTok Semi p \<and> \<not> atEnd p) [parseExpression self],
      expect Semi (qt @ '';'' @ qt @ '' after return'')]"

definition parseThrowStmt :: "calls \<Rightarrow> action" where
  "parseThrowStmt self = node ThrowStmt
     [expect KwThrow (qt @ ''throw'' @ qt),
      ifA (atTok Semi)
        [reportAtCurrent ((qt @ ''throw'' @ qt @ '' needs an exception value, e.g. '' @ qt @ ''throw new Error('' @ dqt @ ''...'' @ dqt @ '');'' @ qt @ ''. '') @
           (''To rethrow the current exception inside a catch block, use '' @ qt @ ''rethrow;'' @ qt))]
        [whenA (\<lambda>p. \<not> atEnd p) [parseExpression self]],
      expect Semi (qt @ '';'' @ qt @ '' after throw'')]"

definition parseRethrowStmt :: action where
  "parseRethrowStmt = node RethrowStmt [expect KwRethrow (qt @ ''rethrow'' @ qt), expect Semi (qt @ '';'' @ qt @ '' after rethrow'')]"

definition parseExprStmt :: "calls \<Rightarrow> action" where
  "parseExprStmt self = node ExprStmt [parseExpression self, expect Semi (qt @ '';'' @ qt @ '' after expression'')]"

section \<open>Statements with a body\<close>

text \<open>\<open>if (at(LBrace)) parseBlock(); else emitMissing(LBrace, what);\<close>\<close>

definition blockOrMissing :: "calls \<Rightarrow> string \<Rightarrow> action" where
  "blockOrMissing self what = ifA (atTok LBrace) [self CallBlock] [emitMissing LBrace what]"

definition parseIfStmt :: "calls \<Rightarrow> action" where
  "parseIfStmt self = node IfStmt
     [expect KwIf (qt @ ''if'' @ qt),
      expect LParen (qt @ ''('' @ qt @ '' around if condition''),
      parseExpression self,
      expect RParen (qt @ '')'' @ qt @ '' after if condition''),
      blockOrMissing self (qt @ ''{'' @ qt @ '' for if body''),
      whenA (atTok KwElse)
        [node ElseClause
           [bump,
            ifA (atTok KwIf) [self CallIf] [blockOrMissing self (qt @ ''{'' @ qt @ '' or '' @ qt @ ''if'' @ qt @ '' after '' @ qt @ ''else'' @ qt)]]]]"

definition parseWhileStmt :: "calls \<Rightarrow> action" where
  "parseWhileStmt self = node WhileStmt
     [expect KwWhile (qt @ ''while'' @ qt),
      expect LParen (qt @ ''('' @ qt @ '' around while condition''),
      parseExpression self,
      expect RParen (qt @ '')'' @ qt @ '' after while condition''),
      blockOrMissing self (qt @ ''{'' @ qt @ '' for while body'')]"

definition parseForStmt :: "calls \<Rightarrow> action" where
  "parseForStmt self = withCheckpoint (\<lambda>cp. run
     [expect KwFor (qt @ ''for'' @ qt),
      expect LParen (qt @ ''('' @ qt @ '' after '' @ qt @ ''for'' @ qt),
      ifA looksLikeForeachHeader
        [nodeAt cp ForEachStmt
           [ifA (\<lambda>p. atTok KwLet p \<or> atTok KwConst p) [bump] [self (CallType False)],
            expect Identifier (''loop variable name''),
            ifA atContextualIn [bumpAs KwIn] [emitMissing KwIn (qt @ ''in'' @ qt @ '' in for-each loop'')],
            parseExpression self,
            expect RParen (qt @ '')'' @ qt @ '' after for-each header''),
            blockOrMissing self (qt @ ''{'' @ qt @ '' for loop body'')]]
        [nodeAt cp ForStmt
           [ifA (atTok Semi) [bump]
              [ifA (atTok KwLet) [parseLetStmt self]
              [ifA (atTok KwConst) [parseConstDecl self]
              [ifA looksLikeTypedVarDecl [parseTypedVarDeclStmt self]
              [parseExprStmt self]]]],
            whenA (\<lambda>p. \<not> atTok Semi p) [parseExpression self],
            expect Semi (qt @ '';'' @ qt @ '' after for condition''),
            whenA (\<lambda>p. \<not> atTok RParen p) [node ForUpdate [parseExpression self]],
            expect RParen (qt @ '')'' @ qt @ '' after for clauses''),
            blockOrMissing self (qt @ ''{'' @ qt @ '' for loop body'')]]])"

definition parseSwitchStmt :: "calls \<Rightarrow> action" where
  "parseSwitchStmt self = node SwitchStmt [expect KwSwitch (qt @ ''switch'' @ qt), parseSwitchHeaderAndArms self]"

definition parseStatement :: "calls \<Rightarrow> action" where
  "parseStatement self =
     ifA (atTok LBrace) [self CallBlock]
     [ifA (atTok KwLet) [parseLetStmt self]
     [ifA (atTok KwConst) [parseConstDecl self]
     [ifA (atTok KwIf) [parseIfStmt self]
     [ifA (atTok KwWhile) [parseWhileStmt self]
     [ifA (atTok KwFor) [parseForStmt self]
     [ifA (atTok KwSwitch) [parseSwitchStmt self]
     [ifA (atTok KwBreak) [parseBreakStmt]
     [ifA (atTok KwContinue) [parseContinueStmt]
     [ifA (atTok KwReturn) [parseReturnStmt self]
     [ifA (atTok KwThrow) [parseThrowStmt self]
     [ifA (atTok KwRethrow) [parseRethrowStmt]
     [ifA (atTok KwCatch)
        [reportAtCurrent (qt @ ''catch'' @ qt @ '' can only appear after a function body'' @ qt @ ''s closing '' @ qt @ ''}'' @ qt),
         recoverTo [Semi, RBrace, EndOfFile],
         eat Semi]
     [ifA (atTok KwFinally)
        [reportAtCurrent (qt @ ''finally'' @ qt @ '' is not supported''),
         recoverTo [Semi, RBrace, EndOfFile],
         eat Semi]
     [ifA looksLikeTypedVarDecl [parseTypedVarDeclStmt self]
     [parseExprStmt self]]]]]]]]]]]]]]]"

definition parseBlock :: "calls \<Rightarrow> action" where
  "parseBlock self = node Block
     [expect LBrace (qt @ ''{'' @ qt),
      whileA (\<lambda>p. \<not> atTok RBrace p \<and> \<not> atEnd p)
        [ensureProgress [parseStatement self]
           [reportAtCurrent (''Unexpected token in block''),
            recoverTo [Semi, RBrace, EndOfFile],
            eat Semi]],
      expect RBrace (qt @ ''}'' @ qt)]"

section \<open>Every function returns\<close>

lemma parseBreakStmt_acts [act_intros]: "acts d S n parseBreakStmt"
  and parseContinueStmt_acts [act_intros]: "acts d S n parseContinueStmt"
  and parseRethrowStmt_acts [act_intros]: "acts d S n parseRethrowStmt"
  unfolding parseBreakStmt_def parseContinueStmt_def parseRethrowStmt_def
  by (intro act_intros; simp add: kind_simps)+

context parse_calls
begin

lemma parseLetStmt_acts [act_intros]: "acts d S n (parseLetStmt self)"
  and parseTypedVarDeclStmt_acts [act_intros]: "acts d S n (parseTypedVarDeclStmt self)"
  and parseConstDecl_acts [act_intros]: "acts d S n (parseConstDecl self)"
  and parseReturnStmt_acts [act_intros]: "acts d S n (parseReturnStmt self)"
  and parseThrowStmt_acts [act_intros]: "acts d S n (parseThrowStmt self)"
  and parseExprStmt_acts [act_intros]: "acts d S n (parseExprStmt self)"
  unfolding parseLetStmt_def parseTypedVarDeclStmt_def parseConstDecl_def parseReturnStmt_def parseThrowStmt_def
    parseExprStmt_def
  by (intro act_intros; simp add: kind_simps)+

lemma blockOrMissing_acts [act_intros]: "acts d S n (blockOrMissing self m)"
  unfolding blockOrMissing_def by (intro act_first act_intros)

lemma parseIfStmt_eats: "eats d {KwIf} (Suc n) (parseIfStmt self)"
  unfolding parseIfStmt_def
  by (intro eats_node eats_run_Suc expect_eats act_first act_intros; simp add: kind_simps)

lemma parseIfStmt_acts [act_intros]: "acts d {KwIf} n (parseIfStmt self)"
  by (rule acts_weaken [OF eats_acts [OF parseIfStmt_eats]]) auto

lemma parseWhileStmt_acts [act_intros]: "acts d S n (parseWhileStmt self)"
  and parseSwitchStmt_acts [act_intros]: "acts d S n (parseSwitchStmt self)"
  unfolding parseWhileStmt_def parseSwitchStmt_def by (intro act_intros; simp add: kind_simps)+

lemma parseForStmt_acts [act_intros]: "acts d S n (parseForStmt self)"
  unfolding parseForStmt_def
  by (intro acts_withCheckpoint reaches_run_Cons reaches_run_Nil reaches_ifA reaches_nodeAt
      acts_reaches [OF expect_acts] act_first act_intros; simp add: kind_simps)

lemma parseStatement_acts [act_intros]: "acts d S n (parseStatement self)"
  unfolding parseStatement_def by (intro act_first act_intros; simp add: kind_simps)

lemma parseBlock_eats: "eats d {LBrace} (Suc n) (parseBlock self)"
  unfolding parseBlock_def
  by (intro eats_node eats_run_Suc expect_eats acts_item_loop act_first act_intros; simp add: kind_simps)

end

end
