(* ===== verification/ParserDeclarations.thy ===== *)
theory ParserDeclarations
  imports ParserStatements
begin

text \<open>Parsing declarations (\<open>parser/Parser.cpp\<close>, the sections on imports, external declarations, functions,
  tests, structs, classes, interfaces and enums, and \<open>parseTopLevel\<close>).\<close>

section \<open>Imports\<close>

definition parseVisibilityModifier :: action where
  "parseVisibilityModifier = whenA (atAny [KwPrivate, KwProtected, KwPublic, KwExport])
     [node VisibilityModifier [bump]]"

definition parseImportAlias :: action where
  "parseImportAlias = node ImportAlias
     [bump,
      ifA (\<lambda>p. isKeyword (kindAt p))
        [reportToken (\<lambda>name. qt @ name @ (qt @ '' is a keyword and cannot be used as an import alias; choose a different name'')),
         bumpAs Identifier]
        [expect Identifier (''the alias name after '' @ qt @ ''as'' @ qt)]]"

definition parseImportPath :: action where
  "parseImportPath = node ImportPath
     [eat At,
      expect Identifier (''path segment''),
      whileA (\<lambda>p. atTok Dot p \<and> peekKind p 1 = Identifier) [bump, bump]]"

definition parseImportDecl :: action where
  "parseImportDecl = node ImportDecl
     [expect KwImport (qt @ ''import'' @ qt),
      letA atImportBinding (\<lambda>named. run
        [whenA (\<lambda>_. named) [bump, whenA (atTok KwAs) [parseImportAlias], bumpAs KwFrom],
         parseImportPath,
         whenA (atTok KwAs)
           [whenA (\<lambda>_. named)
              [reportAtCurrent ((''Write the alias right after the name it renames, as in '') @
                 (qt @ ''import Name as Alias from path;'' @ qt @ ''.''))],
            parseImportAlias],
         expect Semi (qt @ '';'' @ qt @ '' after import'')])]"

section \<open>Parameters and clauses\<close>

definition parseDefaultValue :: "calls \<Rightarrow> action" where
  "parseDefaultValue self = node DefaultValue [bump, parseExpression self]"

definition parseParameter :: "calls \<Rightarrow> action" where
  "parseParameter self = node Parameter
     [ifA (atTok KwThis)
        [bump,
         expect Dot (qt @ ''.'' @ qt @ '' after '' @ qt @ ''this'' @ qt @ '' in parameter''),
         expect Identifier (''field name after '' @ qt @ ''this.'' @ qt)]
        [whenA (\<lambda>p. atContextualOut p \<and> isTypeStart (peekKind p 1)) [bumpAs KwOut],
         ifA (\<lambda>p. isTypeOrGroupStart (kindAt p)) [self (CallType False)]
           [emitMissing Identifier (''parameter type'')],
         ifA (\<lambda>p. isKeyword (kindAt p))
           [reportToken (\<lambda>name. qt @ name @ (qt @ '' is a keyword and cannot be used as a '') @
              (''parameter name; choose a different name such as '' @ qt @ ''source'' @ qt)),
            bumpAs Identifier]
           [expect Identifier (''parameter name'')]],
      whenA (atTok Eq) [parseDefaultValue self]]"

definition parseParamList :: "calls \<Rightarrow> action" where
  "parseParamList self = node ParamList
     [whenA (\<lambda>p. \<not> atTok RParen p \<and> \<not> atEnd p)
        [parseParameter self, whileEat Comma [parseParameter self]]]"

definition parseReturnType :: "calls \<Rightarrow> action" where
  "parseReturnType self = node ReturnType
     [expect Arrow (qt @ ''->'' @ qt),
      ifA (\<lambda>p. isTypeOrGroupStart (kindAt p)) [self (CallType False)]
        [emitMissing Identifier (''return type'')]]"

definition parseCatchClause :: "calls \<Rightarrow> action" where
  "parseCatchClause self = node CatchClause
     [expect KwCatch (qt @ ''catch'' @ qt),
      expect LParen (qt @ ''('' @ qt @ '' after '' @ qt @ ''catch'' @ qt),
      ifA (\<lambda>p. isTypeStart (kindAt p)) [self (CallType False)]
        [emitMissing Identifier (''exception type in catch clause'')],
      expect Identifier (''exception variable name''),
      expect RParen (qt @ '')'' @ qt @ '' after catch variable''),
      ifA (atTok LBrace) [self CallBlock]
        [emitMissing LBrace (qt @ ''{'' @ qt @ '' for catch body''),
         recoverTo [KwCatch, KwFinally, RBrace, KwStruct, KwClass, KwPrivate, KwProtected, KwPublic, KwExport,
           EndOfFile]]]"

section \<open>External declarations\<close>

definition parseExternalTypeDecl :: action where
  "parseExternalTypeDecl = node ExternalTypeDecl
     [parseVisibilityModifier,
      whenA (\<lambda>p. atSharedModifier p 0) [bumpAs KwShared],
      expect KwExternal (qt @ ''external'' @ qt),
      ifA atContextualType [bumpAs KwType] [emitMissing KwType (qt @ ''type'' @ qt)],
      expect Identifier (''external type name''),
      expect Semi (qt @ '';'' @ qt @ '' after external type declaration'')]"

definition parseExternalFuncDecl :: "calls \<Rightarrow> action" where
  "parseExternalFuncDecl self = node ExternalFuncDecl
     [expect Identifier (''external function name''),
      expect LParen (qt @ ''('' @ qt @ '' after external function name''),
      parseParamList self,
      expect RParen (qt @ '')'' @ qt @ '' to close parameter list''),
      whenA (atTok Arrow) [parseReturnType self],
      expect Semi (qt @ '';'' @ qt @ '' after external function declaration'')]"

definition parseExternalBlock :: "calls \<Rightarrow> action" where
  "parseExternalBlock self = node ExternalBlock
     [parseVisibilityModifier,
      expect KwExternal (qt @ ''external'' @ qt),
      ifA atContextualFrom [bumpAs KwFrom] [emitMissing KwFrom (qt @ ''from'' @ qt @ '' after '' @ qt @ ''external'' @ qt)],
      node LibrarySpec [expect Identifier (''library name after '' @ qt @ ''from'' @ qt)],
      expect LBrace (qt @ ''{'' @ qt @ '' to begin external block''),
      whileA (\<lambda>p. \<not> atTok RBrace p \<and> \<not> atEnd p)
        [ensureProgress [parseExternalFuncDecl self]
           [reportAtCurrent (''Unexpected token in external block''),
            recoverTo [RBrace, Semi, EndOfFile],
            eat Semi]],
      expect RBrace (qt @ ''}'' @ qt @ '' to close external block'')]"

text \<open>Where \<open>external\<close> stands among the first three tokens: the loop over \<open>externalIdx\<close>.\<close>

definition externalIndex :: "Parser \<Rightarrow> nat" where
  "externalIndex p =
     (if peekKind p 0 = KwExternal \<or> atEnd p then 0 else if peekKind p 1 = KwExternal then 1 else 2)"

definition parseExternalDecl :: "calls \<Rightarrow> action" where
  "parseExternalDecl self = letA externalIndex (\<lambda>externalIdx.
     ifA (\<lambda>p. peekIsContextualType p (externalIdx + 1)) [parseExternalTypeDecl] [parseExternalBlock self])"

section \<open>Functions and tests\<close>

text \<open>The kinds a missing function or test body is recovered to.\<close>

definition BODY_SYNC :: "SyntaxKind list" where
  "BODY_SYNC = [RBrace, Semi, KwStruct, KwClass, KwPrivate, KwProtected, KwPublic, KwExport, EndOfFile]"

definition parseFuncName :: action where
  "parseFuncName = ifA (\<lambda>p. atTok KwConstructor p \<or> atTok KwDestructor p) [bump]
     [ifA (\<lambda>p. isKeyword (kindAt p))
        [reportToken (\<lambda>name. qt @ name @ (qt @ '' is a keyword and cannot be used as a method name'')), bumpAs Identifier]
        [expect Identifier (''function name'')]]"

definition parseFuncBody :: "calls \<Rightarrow> action" where
  "parseFuncBody self = ifA (atTok LBrace)
     [self CallBlock,
      whileA (atTok KwCatch) [parseCatchClause self],
      whenA (atTok KwFinally)
        [reportAtCurrent (qt @ ''finally'' @ qt @ '' is not supported''),
         node Error [bump, whenA (atTok LBrace) [self CallBlock]],
         whileA (atTok KwCatch) [parseCatchClause self]]]
     [ifA (atTok Semi) [bump]
        [emitMissing LBrace (qt @ ''{'' @ qt @ '' or '' @ qt @ '';'' @ qt @ '' for function body''), recoverTo BODY_SYNC, eat Semi]]"

definition parseFuncDecl :: "calls \<Rightarrow> action" where
  "parseFuncDecl self = node FuncDecl
     [parseVisibilityModifier,
      whileA (\<lambda>p. atTok KwOverride p \<or> atTok KwFinal p \<or> atTok KwAbstract p \<or> atTok KwNoreturn p \<or>
                  atTok KwStatic p \<or> atTok KwMutating p) [bump],
      parseFuncName,
      whenA (atTok Lt) [parseTypeParamList self],
      expect LParen (qt @ ''('' @ qt @ '' after function name''),
      parseParamList self,
      expect RParen (qt @ '')'' @ qt @ '' after parameters''),
      whenA (atTok Arrow) [parseReturnType self],
      whenA (atTok KwThrows) [parseThrowsClause self],
      parseFuncBody self]"

definition parseTestDecl :: "calls \<Rightarrow> action" where
  "parseTestDecl self = node TestDecl
     [bumpAs KwTest,
      ifA (atTok StringLiteral) [bump]
        [ifA (atTok InterpStringStart)
           [reportAtCurrent (''A test description must be a plain string without interpolation''),
            node Error [whileA (\<lambda>p. \<not> atTok LBrace p \<and> \<not> atEnd p) [bump]]]
           [emitMissing StringLiteral (''test description string'')]],
      ifA (atTok LBrace) [self CallBlock]
        [emitMissing LBrace (qt @ ''{'' @ qt @ '' for the test body''), recoverTo BODY_SYNC, eat Semi]]"

section \<open>Types with members\<close>

definition parseImplementsClause :: "calls \<Rightarrow> action" where
  "parseImplementsClause self = node ImplementsClause
     [expect KwImplements (qt @ ''implements'' @ qt),
      ifA (\<lambda>p. isTypeStart (kindAt p)) [self (CallType False)]
        [emitMissing Identifier (''interface name after '' @ qt @ ''implements'' @ qt)],
      whileEat Comma
        [ifA (\<lambda>p. isTypeStart (kindAt p)) [self (CallType False)]
           [emitMissing Identifier (''interface name after '' @ qt @ '','' @ qt)]]]"

definition parseFieldDecl :: "calls \<Rightarrow> action" where
  "parseFieldDecl self = node FieldDecl
     [parseVisibilityModifier,
      whileA (\<lambda>p. atTok KwWeak p \<or> atTok KwConst p \<or> atTok KwStatic p \<or> atTok KwLazy p) [bump],
      ifA (\<lambda>p. isTypeOrGroupStart (kindAt p)) [self (CallType False)]
        [emitMissing Identifier (''field type'')],
      expect Identifier (''field name''),
      whenA (atTok Eq) [parseDefaultValue self],
      expect Semi (qt @ '';'' @ qt @ '' after field declaration'')]"

definition parseStructOrClassMember :: "calls \<Rightarrow> action" where
  "parseStructOrClassMember self =
     ifA (\<lambda>p. \<not> atSharedFunctionTypedField p \<and> (looksLikeFuncDecl True p \<or> looksLikeKeywordNamedMethod p))
       [parseFuncDecl self] [parseFieldDecl self]"

text \<open>The member list of a struct, class, primitive binding or interface, with its own complaint about a
  token no member starts with.\<close>

definition parseMembers :: "calls \<Rightarrow> string \<Rightarrow> action" where
  "parseMembers self complaint = node MemberList
     [whileA (\<lambda>p. \<not> atTok RBrace p \<and> \<not> atEnd p)
        [ensureProgress [parseStructOrClassMember self]
           [reportAtCurrent complaint,
            recoverTo [RBrace, Semi, EndOfFile],
            eat Semi]]]"

definition parseStructOrClassDecl :: "calls \<Rightarrow> SyntaxKind \<Rightarrow> SyntaxKind \<Rightarrow> action" where
  "parseStructOrClassDecl self nodeKind keywordKind =
     (let isClass = (keywordKind = KwClass) in node nodeKind
        [parseVisibilityModifier,
         whileA (\<lambda>p. atTok KwAbstract p \<or> atTok KwFinal p \<or> atTok KwSealed p \<or> atSharedModifier p 0)
           [whenA (\<lambda>_. \<not> isClass)
              [reportAtCurrent (qt @ ''abstract'' @ qt @ '', '' @ qt @ ''final'' @ qt @ '', '' @ qt @ ''sealed'' @ qt @ '', and '' @ qt @ ''shared'' @ qt @ '' are only allowed on classes'')],
            ifA atContextualShared [bumpAs KwShared] [bump]],
         expect keywordKind (if keywordKind = KwStruct then (qt @ ''struct'' @ qt) else (qt @ ''class'' @ qt)),
         expect Identifier (''name''),
         whenA (atTok Lt) [parseTypeParamList self],
         whenA (atTok KwExtends)
           [whenA (\<lambda>_. \<not> isClass)
              [reportAtCurrent (''Only classes can use '' @ qt @ ''extends'' @ qt @ ''; structs do not support inheritance'')],
            bump,
            expect Identifier (''base class name after '' @ qt @ ''extends'' @ qt),
            whenA (atTok Lt) [parseTypeArgList self]],
         whenA (atTok KwImplements) [parseImplementsClause self],
         expect LBrace (qt @ ''{'' @ qt),
         parseMembers self (''Unexpected token in member list''),
         expect RBrace (qt @ ''}'' @ qt)])"

definition parsePrimitiveDecl :: "calls \<Rightarrow> action" where
  "parsePrimitiveDecl self = node PrimitiveDecl
     [bumpAs KwPrimitive,
      bump,
      whenA (atTok KwImplements) [parseImplementsClause self],
      expect LBrace (qt @ ''{'' @ qt),
      parseMembers self (''Unexpected token in the primitive binding'' @ qt @ ''s body''),
      expect RBrace (qt @ ''}'' @ qt)]"

definition parseInterfaceDecl :: "calls \<Rightarrow> action" where
  "parseInterfaceDecl self = node InterfaceDecl
     [parseVisibilityModifier,
      whenA (\<lambda>p. atSharedModifier p 0) [bumpAs KwShared],
      whileA (\<lambda>p. atTok KwAbstract p \<or> atTok KwFinal p \<or> atTok KwSealed p)
        [reportAtCurrent (qt @ ''abstract'' @ qt @ '', '' @ qt @ ''final'' @ qt @ '', and '' @ qt @ ''sealed'' @ qt @ '' are not allowed on an interface''), bump],
      expect KwInterface (qt @ ''interface'' @ qt),
      expect Identifier (''interface name''),
      whenA (atTok Lt) [parseTypeParamList self],
      whenA (atTok KwExtends)
        [bump,
         expect Identifier (''interface name after '' @ qt @ ''extends'' @ qt),
         whenA (atTok Lt) [parseTypeArgList self]],
      whenA (atTok KwImplements)
        [reportAtCurrent ((''An interface cannot use '' @ qt @ ''implements'' @ qt @ ''; an interface builds on another '') @
           (''one with '' @ qt @ ''extends'' @ qt @ '', and classes implement interfaces'')),
         node Error [whileA (\<lambda>p. \<not> atTok LBrace p \<and> \<not> atEnd p) [bump]]],
      expect LBrace (qt @ ''{'' @ qt),
      parseMembers self (''Unexpected token in interface body''),
      expect RBrace (qt @ ''}'' @ qt)]"

text \<open>The loop over enum members forces the cursor on without a complaint of its own.\<close>

definition parseEnumDecl :: "calls \<Rightarrow> action" where
  "parseEnumDecl self = node EnumDecl
     [parseVisibilityModifier,
      expect KwEnum (qt @ ''enum'' @ qt),
      expect Identifier (''enum name''),
      expect LBrace (qt @ ''{'' @ qt),
      whileA (\<lambda>p. \<not> atTok RBrace p \<and> \<not> atEnd p)
        [ensureProgress
           [ifA (atTok Identifier)
              [node EnumMember [bump, whenA (atTok Eq) [parseDefaultValue self]], eat Comma]
              [reportAtCurrent (''Expected an enum member name''),
               recoverTo [Comma, RBrace, EndOfFile],
               eat Comma]]
           []],
      expect RBrace (qt @ ''}'' @ qt)]"

section \<open>The top level\<close>

text \<open>\<open>'external'\<close> stands first, or after a visibility and a \<open>shared\<close> modifier.\<close>

definition atExternal :: "Parser \<Rightarrow> bool" where
  "atExternal p =
     (let v = (if atAny [KwPrivate, KwProtected, KwPublic, KwExport] p then 1 else 0);
          beforeExternal = (if atSharedModifier p v then v + 1 else v)
      in atTok KwExternal p \<or> peekKind p beforeExternal = KwExternal)"

text \<open>What \<open>parseTopLevel\<close> tries once no keyword has named the declaration.\<close>

definition parseUnnamedTopLevel :: "calls \<Rightarrow> nat \<Rightarrow> action" where
  "parseUnnamedTopLevel self declMods =
     ifA (\<lambda>p. atContextualTest p \<and> (peekKind p 1 = StringLiteral \<or> peekKind p 1 = InterpStringStart))
       [parseTestDecl self]
     [ifA (\<lambda>p. atPrimitiveBinding p 0) [parsePrimitiveDecl self]
     [ifA (\<lambda>p. declMods > 0 \<and> atPrimitiveBinding p declMods)
       [reportAtCurrent ((''A primitive binding takes no modifiers; write '' @ qt @ ''primitive string '') @
          (''{ ... }'' @ qt @ '' and let each member'' @ qt @ ''s own modifier decide how far it reaches'')),
        run (replicate declMods bump),
        parsePrimitiveDecl self]
     [ifA (\<lambda>p. declMods > 0 \<and> peekIsContextualTest p declMods \<and>
               (peekKind p (declMods + 1) = StringLiteral \<or> peekKind p (declMods + 1) = InterpStringStart))
       [reportAtCurrent ((''A test cannot have modifiers such as '' @ qt @ ''noreturn'' @ qt @ ''; write '' @ qt @ ''test'' @ qt @ '' at the '') @
          (''start of the line'')),
        run (replicate declMods bump),
        parseTestDecl self]
     [ifA (looksLikeFuncDecl False) [parseFuncDecl self]
     [ifA looksLikeTypedVarDecl [parseTypedVarDeclStmt self]
     [whenA (\<lambda>p. \<not> atEnd p) [parseStatement self]]]]]]]"

definition parseTopLevel :: "calls \<Rightarrow> action" where
  "parseTopLevel self = ifA (atTok KwImport) [parseImportDecl]
     [ifA atExternal [parseExternalDecl self]
     [letA (\<lambda>p. declModsFrom p 0) (\<lambda>declMods.
       ifA (\<lambda>p. peekKind p declMods = KwStruct) [parseStructOrClassDecl self StructDecl KwStruct]
      [ifA (\<lambda>p. peekKind p declMods = KwClass) [parseStructOrClassDecl self ClassDecl KwClass]
      [ifA (\<lambda>p. peekKind p declMods = KwInterface) [parseInterfaceDecl self]
      [ifA (\<lambda>p. peekKind p declMods = KwEnum) [parseEnumDecl self]
      [parseUnnamedTopLevel self declMods]]]])]]"

section \<open>Every function returns\<close>

text \<open>A report in front of an action that consumes something.\<close>

lemma report_keeps: "pinv p \<Longrightarrow> \<exists>q. reportAtCurrent m p = Some q \<and> step d p q \<and> kindAt q = kindAt p \<and> rem q = rem p"
proof -
  assume p: "pinv p"
  then obtain sp where r: "reportAtCurrent m p = Some (p\<lparr>p_sink := sinkError (p_sink p) sp m\<rparr>)"
    using pinv_current(4) [of p] by (auto simp: reportAtCurrent_def reportSpan_def Let_def)
  with actsD [OF reports_acts [OF reportAtCurrent_reports [of m], of d UNIV "Suc (rem p)"] p] show ?thesis by auto
qed

lemma eats_report_first:
  assumes "eats d S n (run as)"
  shows "eats d S n (run (reportAtCurrent m # as))"
proof (rule eatsI)
  fix p
  assume p: "pinv p" "kindAt p \<in> S" "rem p < n"
  from report_keeps [OF p(1), of m d] obtain q where
    q: "reportAtCurrent m p = Some q" "step d p q" "kindAt q = kindAt p" "rem q = rem p" by blast
  with p have "kindAt q \<in> S" "rem q < n" by simp_all
  from eatsE [OF assms step_pinv [OF q(2)] this] obtain r where "run as q = Some r" "step d q r" "rem r < rem q" .
  with q show "\<exists>p'. run (reportAtCurrent m # as) p = Some p' \<and> step d p p' \<and> rem p' < rem p"
    by (auto intro: step_trans)
qed

lemma eats_report_when:
  assumes "eats d S n (run as)"
  shows "eats d S n (run (whenA (\<lambda>_. b) [reportAtCurrent m] # as))"
  using assms eats_report_first [OF assms, of m]
  by (cases b) (simp_all add: whenA_def run_single eats_def del: run.simps(1))

lemma eats_ifA: "eats d S n (run as) \<Longrightarrow> eats d S n (run bs) \<Longrightarrow> eats d S n (ifA c as bs)"
  by (auto simp: eats_def ifA_def)

lemma eats_run_single: "eats d S n a \<Longrightarrow> eats d S n (run [a])"
  by (simp only: run_single)

lemma bump_while_acts:
  assumes "\<And>p. c p \<Longrightarrow> \<not> atEnd p"
  shows "acts d S n (whileA c [bump])"
  by (rule acts_whileA [where T = "- {EndOfFile}"])
    (use assms in \<open>auto simp: atEnd_def intro: eats_run_single bump_eats\<close>)

lemma bumps_acts [act_intros]: "acts d S n (run (replicate k bump))"
proof (induction k arbitrary: S)
  case 0
  then show ?case by (simp add: acts_run_Nil del: run.simps)
next
  case (Suc k)
  then show ?case unfolding replicate_Suc by (intro act_intros)
qed

lemma parseVisibilityModifier_acts [act_intros]: "acts d S n parseVisibilityModifier"
  and parseImportAlias_acts [act_intros]: "acts d S n parseImportAlias"
  and parseExternalTypeDecl_acts [act_intros]: "acts d S n parseExternalTypeDecl"
  and parseFuncName_acts [act_intros]: "acts d S n parseFuncName"
proof -
  show vis: "acts d S n parseVisibilityModifier" for S
    unfolding parseVisibilityModifier_def by (intro act_intros; simp add: kind_simps)
  show "acts d S n parseImportAlias" "acts d S n parseFuncName"
    unfolding parseImportAlias_def parseFuncName_def by (intro act_intros; simp add: kind_simps)+
  show "acts d S n parseExternalTypeDecl"
    unfolding parseExternalTypeDecl_def by (intro vis act_intros; simp add: kind_simps)
qed

lemma parseImportPath_acts [act_intros]: "acts d S n parseImportPath"
proof -
  have "acts d T n (whileA (\<lambda>p. atTok Dot p \<and> peekKind p 1 = Identifier) [bump, bump])" for T
    by (rule acts_whileA [where T = "{Dot}"])
      (auto simp: atTok_def simp del: run.simps intro!: eats_run_first bump_eats act_intros)
  then show ?thesis unfolding parseImportPath_def by (intro act_intros; simp add: kind_simps)
qed

lemma parseImportDecl_acts [act_intros]: "acts d S n parseImportDecl"
  unfolding parseImportDecl_def by (intro act_intros; simp add: kind_simps)

context parse_calls
begin

lemma parseDefaultValue_acts [act_intros]: "acts d S n (parseDefaultValue self)"
  and parseReturnType_acts [act_intros]: "acts d S n (parseReturnType self)"
  unfolding parseDefaultValue_def parseReturnType_def by (intro act_intros; simp add: kind_simps)+

lemma parseParameter_acts [act_intros]: "acts d S n (parseParameter self)"
  unfolding parseParameter_def by (intro act_intros; simp add: kind_simps)

lemma parseParamList_acts [act_intros]: "acts d S n (parseParamList self)"
  unfolding parseParamList_def by (intro act_intros; simp add: kind_simps)

lemma parseCatchClause_eats: "eats d {KwCatch} n (parseCatchClause self)"
  unfolding parseCatchClause_def
  by (intro eats_node eats_run_first expect_eats act_first act_intros; simp add: kind_simps)

lemma parseExternalFuncDecl_acts [act_intros]: "acts d S n (parseExternalFuncDecl self)"
  unfolding parseExternalFuncDecl_def by (intro act_intros; simp add: kind_simps)

lemma parseExternalBlock_acts [act_intros]: "acts d S n (parseExternalBlock self)"
  unfolding parseExternalBlock_def by (intro acts_item_loop act_first act_intros; simp add: kind_simps)

lemma parseExternalDecl_acts [act_intros]: "acts d S n (parseExternalDecl self)"
  unfolding parseExternalDecl_def by (intro act_intros)

lemma catch_clauses_acts: "acts d S n (whileA (atTok KwCatch) [parseCatchClause self])"
  by (intro acts_while_at eats_run_single parseCatchClause_eats)

lemma parseFuncBody_acts [act_intros]: "acts d S n (parseFuncBody self)"
  unfolding parseFuncBody_def by (intro catch_clauses_acts act_first act_intros; simp add: kind_simps)

lemma parseFuncDecl_acts [act_intros]: "acts d S n (parseFuncDecl self)"
  unfolding parseFuncDecl_def
  by (intro bump_while_acts act_intros; auto simp: kind_simps atTok_def atEnd_def)

lemma parseTestDecl_acts [act_intros]: "acts d S n (parseTestDecl self)"
  unfolding parseTestDecl_def by (intro bump_while_acts act_first act_intros; simp add: kind_simps)

lemma parseImplementsClause_acts [act_intros]: "acts d S n (parseImplementsClause self)"
  unfolding parseImplementsClause_def by (intro act_intros; simp add: kind_simps)

lemma parseFieldDecl_acts [act_intros]: "acts d S n (parseFieldDecl self)"
  unfolding parseFieldDecl_def
  by (intro bump_while_acts act_intros; auto simp: kind_simps atTok_def atEnd_def)

lemma parseStructOrClassMember_acts [act_intros]: "acts d S n (parseStructOrClassMember self)"
  unfolding parseStructOrClassMember_def by (intro act_intros)

lemma parseMembers_acts [act_intros]: "acts d S n (parseMembers self m)"
  unfolding parseMembers_def by (intro acts_item_loop act_first act_intros; simp add: kind_simps)

lemma class_modifiers_acts:
  "acts d S n (whileA (\<lambda>p. atTok KwAbstract p \<or> atTok KwFinal p \<or> atTok KwSealed p \<or> atSharedModifier p 0)
     [whenA (\<lambda>_. b) [reportAtCurrent m], ifA atContextualShared [bumpAs KwShared] [bump]])"
proof (rule acts_whileA_inv [where T = "- {EndOfFile}"])
  show "kindAt p \<in> - {EndOfFile}"
    if "pinv p" "atTok KwAbstract p \<or> atTok KwFinal p \<or> atTok KwSealed p \<or> atSharedModifier p 0" for p
    using that atSharedModifier_kind [of p] by (auto simp: atTok_def)
qed (intro eats_report_when eats_run_single eats_ifA bumpAs_eats bump_eats; simp add: kind_simps)

lemma parseStructOrClassDecl_acts:
  "isNode k \<Longrightarrow> k \<noteq> Error \<Longrightarrow> acts d S n (parseStructOrClassDecl self k w)"
  unfolding parseStructOrClassDecl_def Let_def by (intro class_modifiers_acts act_intros; simp)

lemma parsePrimitiveDecl_acts [act_intros]: "acts d S n (parsePrimitiveDecl self)"
  unfolding parsePrimitiveDecl_def by (intro act_intros; simp add: kind_simps)

lemma interface_modifiers_acts:
  "acts d S n (whileA (\<lambda>p. atTok KwAbstract p \<or> atTok KwFinal p \<or> atTok KwSealed p) [reportAtCurrent m, bump])"
  by (rule acts_whileA [where T = "{KwAbstract, KwFinal, KwSealed}"])
    (auto simp: atTok_def simp del: run.simps intro!: eats_report_first eats_run_single bump_eats)

lemma parseInterfaceDecl_acts [act_intros]: "acts d S n (parseInterfaceDecl self)"
  unfolding parseInterfaceDecl_def
  by (intro interface_modifiers_acts bump_while_acts act_first act_intros; simp add: kind_simps)

lemma parseEnumDecl_acts [act_intros]: "acts d S n (parseEnumDecl self)"
  unfolding parseEnumDecl_def by (intro acts_item_loop act_first act_intros; simp add: kind_simps)

lemma parseUnnamedTopLevel_acts [act_intros]: "acts d S n (parseUnnamedTopLevel self m)"
  unfolding parseUnnamedTopLevel_def by (intro act_intros)

lemma parseTopLevel_acts [act_intros]: "acts d S n (parseTopLevel self)"
  unfolding parseTopLevel_def by (intro parseStructOrClassDecl_acts act_intros; simp add: kind_simps)

end

end
