(* ===== verification/ParserMain.thy ===== *)
theory ParserMain
  imports ParserDeclarations
begin

text \<open>
  The parser as a whole: the recursion of the parse functions, \<open>parseSourceFile\<close>, and what a parse of any
  source text gives.

  The recursive calls are tied with fuel. Each of the four recursive entry points consumes text before it
  calls back, so a fuel that exceeds the length of the text left is never exhausted
  (\<open>parse_fuel_calls\<close>), and more fuel gives the same result (\<open>ParserFuel\<close>).
\<close>

primrec parse_fuel :: "nat \<Rightarrow> calls" where
  "parse_fuel 0 c p = None"
| "parse_fuel (Suc n) c p =
     (case c of
        CallPrecedence minPrec \<Rightarrow> parsePrecedence (parse_fuel n) minPrec p
      | CallBlock \<Rightarrow> parseBlock (parse_fuel n) p
      | CallType leave \<Rightarrow> parseType (parse_fuel n) leave p
      | CallIf \<Rightarrow> parseIfStmt (parse_fuel n) p)"

text \<open>The loop that emits what is left before the end of the file.\<close>

definition flushRest :: action where
  "flushRest = whileA (\<lambda>p. nextToEmit p < length (tokens p) \<and> tok_kind (tokens p ! nextToEmit p) \<noteq> EndOfFile)
     [\<lambda>p. emitToken (tok_kind (tokens p ! nextToEmit p)) (tok_text (tokens p ! nextToEmit p)) p,
      \<lambda>p. Some (p\<lparr>nextToEmit := nextToEmit p + 1\<rparr>)]"

definition parseTopLevels :: "calls \<Rightarrow> action" where
  "parseTopLevels self = whileA (\<lambda>p. \<not> atEnd p)
     [ensureProgress [parseTopLevel self]
        [reportAtCurrent (''Unexpected token at top level''),
         recoverTo [KwImport, KwStruct, KwClass, KwInterface, KwPrivate, KwProtected, KwPublic, KwExport,
           Identifier, Semi, EndOfFile]]]"

definition parseSourceFile :: "calls \<Rightarrow> Parser \<Rightarrow> (GreenElement \<times> DiagnosticSink) option" where
  "parseSourceFile self p = Option.bind
     (run [startNode SourceFile, parseTopLevels self, flushRest, finishNode] p)
     (\<lambda>q. map_option (\<lambda>root. (root, p_sink q)) (b_build (builder q)))"

definition parseWith :: "nat \<Rightarrow> u16string \<Rightarrow> DiagnosticSink \<Rightarrow> (GreenElement \<times> DiagnosticSink) option" where
  "parseWith fuel src s = parseSourceFile (parse_fuel fuel) (mkParser src s)"

definition parse :: "u16string \<Rightarrow> DiagnosticSink \<Rightarrow> (GreenElement \<times> DiagnosticSink) option" where
  "parse src s = parseWith (length src + 1) src s"

section \<open>Tying the recursion\<close>

lemma parse_fuel_Suc [simp]:
  "parse_fuel (Suc n) (CallPrecedence m) = parsePrecedence (parse_fuel n) m"
  "parse_fuel (Suc n) CallBlock = parseBlock (parse_fuel n)"
  "parse_fuel (Suc n) (CallType b) = parseType (parse_fuel n) b"
  "parse_fuel (Suc n) CallIf = parseIfStmt (parse_fuel n)"
  by (simp_all add: fun_eq_iff)

lemma parse_fuel_calls: "parse_calls (parse_fuel n) n"
proof (induction n)
  case 0
  show ?case by unfold_locales (auto simp: acts_def)
next
  case (Suc n)
  show ?case
  proof unfold_locales
    show "acts False UNIV (Suc n) (parse_fuel (Suc n) (CallPrecedence m))" if "1 \<le> m" for m
      using parse_calls.parsePrecedence_acts [OF Suc that] by simp
    show "acts False {LBrace} (Suc n) (parse_fuel (Suc n) CallBlock)"
      using eats_acts [OF parse_calls.parseBlock_eats [OF Suc]] by simp
    show "acts False UNIV (Suc n) (parse_fuel (Suc n) (CallType b))" for b
      using parse_calls.parseType_acts_Suc [OF Suc] by simp
    show "acts False {KwIf} (Suc n) (parse_fuel (Suc n) CallIf)"
      using eats_acts [OF parse_calls.parseIfStmt_eats [OF Suc]] by simp
  qed
qed

interpretation knot: parse_calls "parse_fuel n" n for n
  by (rule parse_fuel_calls)

section \<open>From the source text to the tree\<close>

lemma goodToken_tokOk: "goodToken t \<Longrightarrow> tok_kind t \<noteq> EndOfFile \<Longrightarrow> tok_text t \<noteq> [] \<Longrightarrow> tokOk t"
  by (auto simp: tokOk_def goodToken_def lexKind_def spelled_def OPERATOR_TABLE_def)

lemma tokenize_tokensOk: "tokensOk (fst (tokenize src s))"
proof -
  from tokenize_split [of src s] obtain us e where "fst (tokenize src s) = us @ [e]" "tok_kind e = EndOfFile"
    "tok_text e = []" "list_all (\<lambda>t. tok_kind t \<noteq> EndOfFile \<and> goodToken t \<and> tok_text t \<noteq> []) us" by blast
  then show ?thesis unfolding tokensOk_def
    by (intro exI [of _ us] exI [of _ e]) (auto simp: list_all_iff goodToken_tokOk)
qed

text \<open>The parser right after its constructor, with the root node opened.\<close>

lemma started_parser:
  fixes src :: u16string and s :: DiagnosticSink
  defines "p \<equiv> (mkParser src s)\<lparr>builder := b_startNode SourceFile []\<rparr>"
  shows "startNode SourceFile (mkParser src s) = Some p" and "pinv p" and "pending p = src"
    and "rem p \<le> length src" and "builder p = [mkFrame SourceFile []]" and "p_sink p = snd (tokenize src s)"
proof -
  let ?ts = "fst (tokenize src s)"
  have ok: "tokensOk ?ts" by (rule tokenize_tokensOk)
  then have l: "0 < length ?ts" by (auto simp: tokensOk_def)
  have p: "p = \<lparr>p_sink = snd (tokenize src s), tokens = ?ts, nextToEmit = 0, current = skipTriviaFrom ?ts 0,
      builder = [mkFrame SourceFile []], inArmLabels = False\<rparr>"
    by (simp add: p_def mkParser_def b_startNode_def split: prod.split)
  from skipTriviaFrom_bounds [OF ok l] ok show "pinv p" by (simp add: p pinv_def kindAt_def)
  have src: "concat (map tok_text ?ts) = src"
    using lexer.delivers_rest [OF tokenize_delivers, of src s] by (simp add: mkTokenizer_rest)
  then show "pending p = src" by (simp add: p pending_def)
  have "concat (map tok_text ?ts) = concat (map tok_text (take (current p) ?ts)) @ concat (map tok_text (drop (current p) ?ts))"
    by (metis append_take_drop_id concat_append map_append)
  then show "rem p \<le> length src" using src by (simp add: rem_def p) (metis le_add2 length_append)
  show "startNode SourceFile (mkParser src s) = Some p" "builder p = [mkFrame SourceFile []]"
    "p_sink p = snd (tokenize src s)"
    by (simp_all add: p_def startNode_def mkParser_def b_startNode_def split: prod.split)
qed

lemma parseTopLevels_step:
  assumes "pinv p" and "rem p < n"
  shows "\<exists>q. parseTopLevels (parse_fuel n) p = Some q \<and> step False p q \<and> atEnd q"
proof -
  let ?body = "run [ensureProgress [parseTopLevel (parse_fuel n)]
    [reportAtCurrent (''Unexpected token at top level''),
     recoverTo [KwImport, KwStruct, KwClass, KwInterface, KwPrivate, KwProtected, KwPublic, KwExport,
       Identifier, Semi, EndOfFile]]]"
  have e: "eats False (- {EndOfFile}) n ?body"
    by (intro eats_run_single ensureProgress_eats knot.parseTopLevel_acts act_first act_intros) simp
  have "\<exists>q. whileP (\<lambda>p. \<not> atEnd p) ?body p = Some q \<and> (pinv q \<and> rem q < n) \<and> step False p q \<and> \<not> \<not> atEnd q"
  proof (rule whileP_total [where m = rem])
    fix t
    assume t: "pinv t \<and> rem t < n" "\<not> atEnd t"
    with eatsE [OF e, of t] obtain u where "?body t = Some u" "step False t u" "rem u < rem t"
      by (auto simp: atEnd_def)
    with t show "\<exists>u. ?body t = Some u \<and> (pinv u \<and> rem u < n) \<and> step False t u \<and> rem u < rem t"
      by (auto dest: step_pinv)
  qed (use assms in \<open>auto intro: step_refl step_trans\<close>)
  then show ?thesis by (auto simp: parseTopLevels_def whileA_def)
qed

text \<open>At the end of the file, flushing what is left is flushing what is before the cursor.\<close>

lemma flushRest_at_end:
  assumes "pinv p" and "atEnd p"
  shows "\<exists>q. flushRest p = Some q \<and> step False p q \<and> pending q = []"
proof -
  let ?c = "\<lambda>p. nextToEmit p < length (tokens p) \<and> tok_kind (tokens p ! nextToEmit p) \<noteq> EndOfFile"
  let ?b = "run [\<lambda>p. emitToken (tok_kind (tokens p ! nextToEmit p)) (tok_text (tokens p ! nextToEmit p)) p,
      \<lambda>p. Some (p\<lparr>nextToEmit := nextToEmit p + 1\<rparr>)]"
  have "\<exists>q. whileP ?c ?b p = Some q \<and> (pinv q \<and> atEnd q) \<and> flushed p q \<and> \<not> ?c q"
  proof (rule whileP_total [where m = "\<lambda>p. current p - nextToEmit p"])
    fix t
    assume t: "pinv t \<and> atEnd t" "?c t"
    have "nextToEmit t \<noteq> current t" using t by (auto simp: atEnd_def kindAt_def)
    with t have "nextToEmit t < current t" by (simp add: pinv_def)
    with flush_one [of t] t obtain q where q: "?b t = Some q" "flushed t q" "nextToEmit q = nextToEmit t + 1" by auto
    then have "pinv q \<and> current q = current t \<and> atEnd q"
      using t kindAt_cong [of q t] by (auto simp: flushed_def delta_def atEnd_def)
    with q t \<open>nextToEmit t < current t\<close>
    show "\<exists>s'. ?b t = Some s' \<and> (pinv s' \<and> atEnd s') \<and> flushed t s' \<and> current s' - nextToEmit s' < current t - nextToEmit t"
      by auto
  next
    show "\<And>s. pinv s \<and> atEnd s \<Longrightarrow> flushed s s" by (auto simp: flushed_def intro!: exI [of _ "[]"] delta_refl)
  qed (use assms in \<open>auto intro: flushed_trans\<close>)
  then obtain q where q: "whileP ?c ?b p = Some q" "pinv q" "flushed p q" "\<not> ?c q" by blast
  have "nextToEmit q < length (tokens q)" using q(2) by (simp add: pinv_def)
  with q(4) have eof: "tok_kind (tokens q ! nextToEmit q) = EndOfFile" by simp
  obtain us e where ts: "tokens q = us @ [e]" "tok_text e = []" "list_all tokOk us"
    using q(2) by (auto simp: pinv_def tokensOk_def)
  have "nextToEmit q = length us"
    using eof ts(3) \<open>nextToEmit q < length (tokens q)\<close> ts(1)
    by (auto simp: nth_append list_all_length tokOk_def split: if_splits)
  with ts have "pending q = []" by (simp add: pending_def)
  with q show ?thesis by (auto simp: flushRest_def whileA_def intro: flushed_step)
qed

text \<open>A parse with more fuel than text: it returns a tree that spells the source, it only adds errors to
  the sink, and without a new error the tree has no mark of recovery.\<close>

definition parses :: "u16string \<Rightarrow> DiagnosticSink \<Rightarrow> GreenElement \<Rightarrow> DiagnosticSink \<Rightarrow> bool" where
  "parses src s g s' \<longleftrightarrow> greenText g = src \<and> green_kind g = SourceFile \<and> wfGreen g \<and>
     (\<exists>ds. s' = snd (tokenize src s) @ ds \<and> (\<forall>d \<in> set ds. level d = LevelError) \<and> (ds = [] \<longrightarrow> clean g))"

lemma parseWith_parses:
  assumes "length src < n"
  shows "\<exists>g s'. parseWith n src s = Some (g, s') \<and> parses src s g s'"
proof -
  define p where "p = (mkParser src s)\<lparr>builder := b_startNode SourceFile []\<rparr>"
  note p = started_parser [of src s, folded p_def]
  from parseTopLevels_step [OF p(2), of n] p(4) assms obtain q where
    q: "parseTopLevels (parse_fuel n) p = Some q" "step False p q" "atEnd q" by auto
  from flushRest_at_end [OF step_pinv [OF q(2)] q(3)] obtain r where
    r: "flushRest q = Some r" "step False q r" "pending r = []" by blast
  from step_trans [OF q(2) r(2)] obtain new ds where d: "delta p r new ds" "ds \<noteq> [] \<or> list_all clean new"
    by (auto simp: step_def)
  then have b: "builder r = [mkFrame SourceFile new]" using p(5) by (auto simp: delta_def grows_def mkFrame_def)
  let ?g = "GreenNode SourceFile new"
  have "parseWith n src s = Some (?g, p_sink r)"
    using p(1) q(1) r(1) b by (simp add: parseWith_def parseSourceFile_def finishNode_def b_build_def mkFrame_def)
  moreover have "parses src s ?g (p_sink r)"
    unfolding parses_def using d p(3,6) r(3) by (auto simp: delta_def kind_simps)
  ultimately show ?thesis by blast
qed
text \<open>C1: parsing any source text ends and returns a tree whose text is exactly the source: nothing is
  dropped, duplicated or reordered, whatever errors the source has.\<close>

theorem parse_lossless: "\<exists>g s'. parse src s = Some (g, s') \<and> greenText g = src"
  using parseWith_parses [of src "length src + 1" s] by (auto simp: parse_def parses_def)

text \<open>C3: the tree of a parse is a \<open>SourceFile\<close> node in which every leaf has a token kind and every inner
  node a node kind.\<close>

theorem parse_tree_typed:
  "case parse src s of None \<Rightarrow> False | Some (g, s') \<Rightarrow> green_kind g = SourceFile \<and> wfGreen g"
  using parseWith_parses [of src "length src + 1" s] by (auto simp: parse_def parses_def)

text \<open>C2: a parse only appends errors to the sink, and it never recovers silently: a tree with a missing
  token or an error node comes with at least one reported error.\<close>

theorem parse_reports_recovery:
  "\<exists>g ds. parse src s = Some (g, s @ ds) \<and> list_all (\<lambda>d. level d = LevelError) ds \<and> (clean g \<or> 0 < length ds)"
proof -
  from parseWith_parses [of src "length src + 1" s] obtain g s' where g: "parse src s = Some (g, s')"
    "parses src s g s'" by (auto simp: parse_def)
  from tokenize_sink [of src s] obtain es where es: "snd (tokenize src s) = s @ es" "\<forall>d \<in> set es. level d = LevelError"
    by blast
  from g(2) obtain ds where ds: "s' = snd (tokenize src s) @ ds" "\<forall>d \<in> set ds. level d = LevelError"
    "ds = [] \<longrightarrow> clean g" by (auto simp: parses_def)
  show ?thesis
    by (rule exI [of _ g], rule exI [of _ "es @ ds"]) (use g es ds in \<open>auto simp: list_all_iff\<close>)
qed

end
