(* ===== verification/ParserFuel.thy ===== *)
theory ParserFuel
  imports ParserMain
begin

text \<open>
  More fuel never changes what a parse function returns. Together with \<open>ParserMain\<close>, where a fuel above the
  length of the text is shown to be enough, this makes the fuel of the model immaterial: \<open>parse\<close> is what the
  recursion of the source computes.
\<close>

named_theorems below_intros \<open>actions that return whatever another one returns\<close>

definition below :: "action \<Rightarrow> action \<Rightarrow> bool" where
  "below a b \<longleftrightarrow> (\<forall>p q. a p = Some q \<longrightarrow> b p = Some q)"

lemma below_refl [below_intros]: "below a a"
  by (simp add: below_def)

lemma whileP_below:
  assumes "\<And>s t. b s = Some t \<Longrightarrow> b' s = Some t" and "whileP c b s = Some t"
  shows "whileP c b' s = Some t"
proof -
  have "(\<forall>s t. b s = Some t \<longrightarrow> b' s = Some t) \<longrightarrow> whileP c b' s = Some t" for b'
  proof (rule whileP.raw_induct [where P = "\<lambda>c b s t. (\<forall>s t. b s = Some t \<longrightarrow> b' s = Some t) \<longrightarrow> whileP c b' s = Some t",
      OF _ assms(2)])
    fix w c s t and b :: "'a \<Rightarrow> 'a option"
    assume "\<And>c b s t. w c b s = Some t \<Longrightarrow> (\<forall>s t. b s = Some t \<longrightarrow> b' s = Some t) \<longrightarrow> whileP c b' s = Some t"
      and "(if c s then Option.bind (b s) (w c b) else Some s) = Some t"
    then show "(\<forall>s t. b s = Some t \<longrightarrow> b' s = Some t) \<longrightarrow> whileP c b' s = Some t"
      by (subst whileP.simps) (auto simp: bind_eq_Some_conv split: if_splits)
  qed
  with assms(1) show ?thesis by blast
qed

lemma below_run_Cons [below_intros]: "below a b \<Longrightarrow> below (run as) (run bs) \<Longrightarrow> below (run (a # as)) (run (b # bs))"
  by (auto simp: below_def bind_eq_Some_conv)

lemma below_ifA [below_intros]:
  "below (run as) (run as') \<Longrightarrow> below (run bs) (run bs') \<Longrightarrow> below (ifA c as bs) (ifA c as' bs')"
  by (simp add: below_def ifA_def)

lemma below_whenA [below_intros]: "below (run as) (run as') \<Longrightarrow> below (whenA c as) (whenA c as')"
  by (simp add: below_def whenA_def)

lemma below_whileA [below_intros]: "below (run as) (run as') \<Longrightarrow> below (whileA c as) (whileA c as')"
  unfolding below_def whileA_def by (auto intro: whileP_below)

lemma below_whileEat [below_intros]: "below (run as) (run as') \<Longrightarrow> below (whileEat k as) (whileEat k as')"
  unfolding whileEat_def by (intro below_intros)

lemma below_letA [below_intros]: "(\<And>x. below (f x) (g x)) \<Longrightarrow> below (letA q f) (letA q g)"
  by (simp add: below_def letA_def)

lemma below_node [below_intros]: "below (run as) (run as') \<Longrightarrow> below (node k as) (node k as')"
  unfolding node_def by (intro below_intros)

lemma below_nodeAt [below_intros]: "below (run as) (run as') \<Longrightarrow> below (nodeAt cp k as) (nodeAt cp k as')"
  unfolding nodeAt_def by (intro below_intros)

lemma below_withCheckpoint [below_intros]: "(\<And>cp. below (f cp) (g cp)) \<Longrightarrow> below (withCheckpoint f) (withCheckpoint g)"
  by (auto simp: below_def withCheckpoint_def bind_eq_Some_conv)

lemma below_run_append:
  "below (run as) (run as') \<Longrightarrow> below (run bs) (run bs') \<Longrightarrow> below (run (as @ bs)) (run (as' @ bs'))"
  by (auto simp: below_def run_append bind_eq_Some_conv)

lemma below_ensureProgress [below_intros]:
  "below (run as) (run as') \<Longrightarrow> below (run bs) (run bs') \<Longrightarrow> below (ensureProgress as bs) (ensureProgress as' bs')"
  unfolding ensureProgress_def by (intro below_intros below_run_append)

section \<open>Parse functions are monotone in their recursive calls\<close>

locale more_calls =
  fixes self self' :: calls
  assumes self_below [below_intros]: "below (self c) (self' c)"
begin

text \<open>Types.\<close>

lemma parseExpression_below [below_intros]: "below (parseExpression self) (parseExpression self')"
  unfolding parseExpression_def by (intro below_intros)

lemma parseTypeArgList_below [below_intros]: "below (parseTypeArgList self) (parseTypeArgList self')"
  unfolding parseTypeArgList_def by (intro below_intros)

lemma parseThrowsClause_below [below_intros]: "below (parseThrowsClause self) (parseThrowsClause self')"
  unfolding parseThrowsClause_def by (intro below_intros)

lemma parseFunctionType_below [below_intros]: "below (parseFunctionType self) (parseFunctionType self')"
  unfolding parseFunctionType_def by (intro below_intros)

lemma parseParenthesizedType_below [below_intros]: "below (parseParenthesizedType self a) (parseParenthesizedType self' a)"
  unfolding parseParenthesizedType_def by (intro below_intros)

lemma parseTypeName_below [below_intros]: "below (parseTypeName self) (parseTypeName self')"
  unfolding parseTypeName_def by (intro below_intros)

lemma parseNamedType_below [below_intros]: "below (parseNamedType self a) (parseNamedType self' a)"
  unfolding parseNamedType_def by (intro below_intros)

lemma parseType_below [below_intros]: "below (parseType self a) (parseType self' a)"
  unfolding parseType_def by (intro below_intros)

lemma parseTypeHead_below [below_intros]: "below (parseTypeHead self) (parseTypeHead self')"
  unfolding parseTypeHead_def by (intro below_intros)

lemma parseTypeParam_below [below_intros]: "below (parseTypeParam self) (parseTypeParam self')"
  unfolding parseTypeParam_def by (intro below_intros)

lemma parseTypeParamList_below [below_intros]: "below (parseTypeParamList self) (parseTypeParamList self')"
  unfolding parseTypeParamList_def by (intro below_intros)

text \<open>Expressions.\<close>

lemma parseCallArgument_below [below_intros]: "below (parseCallArgument self) (parseCallArgument self')"
  unfolding parseCallArgument_def by (intro below_intros)

lemma parseArgList_below [below_intros]: "below (parseArgList self) (parseArgList self')"
  unfolding parseArgList_def by (intro below_intros)

lemma parseStructLiteralField_below [below_intros]: "below (parseStructLiteralField self) (parseStructLiteralField self')"
  unfolding parseStructLiteralField_def by (intro below_intros)

lemma parseStructLiteral_below [below_intros]: "below (parseStructLiteral self) (parseStructLiteral self')"
  unfolding parseStructLiteral_def by (intro below_intros)

lemma parseLambdaParameter_below [below_intros]: "below (parseLambdaParameter self) (parseLambdaParameter self')"
  unfolding parseLambdaParameter_def by (intro below_intros)

lemma parseLambdaParameters_below [below_intros]: "below (parseLambdaParameters self) (parseLambdaParameters self')"
  unfolding parseLambdaParameters_def by (intro below_intros)

lemma parseLambdaBody_below [below_intros]: "below (parseLambdaBody self) (parseLambdaBody self')"
  unfolding parseLambdaBody_def by (intro below_intros)

lemma parseLambda_below [below_intros]: "below (parseLambda self) (parseLambda self')"
  unfolding parseLambda_def by (intro below_intros)

lemma parseBareParameterLambda_below [below_intros]: "below (parseBareParameterLambda self) (parseBareParameterLambda self')"
  unfolding parseBareParameterLambda_def by (intro below_intros)

lemma parseSwitchArm_below [below_intros]: "below (parseSwitchArm self) (parseSwitchArm self')"
  unfolding parseSwitchArm_def by (intro below_intros)

lemma parseSwitchHeaderAndArms_below [below_intros]: "below (parseSwitchHeaderAndArms self) (parseSwitchHeaderAndArms self')"
  unfolding parseSwitchHeaderAndArms_def by (intro below_intros)

lemma parseSwitchExpr_below [below_intros]: "below (parseSwitchExpr self) (parseSwitchExpr self')"
  unfolding parseSwitchExpr_def by (intro below_intros)

lemma newDimension_below: "newDimension self s = Some t \<Longrightarrow> newDimension self' s = Some t"
proof -
  let ?as = "\<lambda>self b. run [whenA (\<lambda>_. b) [reportAtCurrent (''Sized dimensions must come before any '' @ qt @ ''[]'' @ qt @ '' dimensions'')],
    parseExpression self, expect RBracket (qt @ '']'' @ qt @ '' after array size'')]"
  have "below (?as self b) (?as self' b)" for b by (intro below_intros)
  moreover assume "newDimension self s = Some t"
  ultimately show ?thesis
    by (auto simp: newDimension_def below_def bind_eq_Some_conv simp del: run.simps split: if_splits prod.splits)
qed

lemma newDimensions_below [below_intros]: "below (newDimensions self) (newDimensions self')"
  unfolding below_def newDimensions_def by (auto intro: whileP_below [OF newDimension_below])

lemma parseNewExpr_below [below_intros]: "below (parseNewExpr self) (parseNewExpr self')"
  unfolding parseNewExpr_def by (intro below_intros)

lemma parseInterpolatedString_below [below_intros]: "below (parseInterpolatedString self) (parseInterpolatedString self')"
  unfolding parseInterpolatedString_def by (intro below_intros)

lemma parseArrayLiteral_below [below_intros]: "below (parseArrayLiteral self) (parseArrayLiteral self')"
  unfolding parseArrayLiteral_def by (intro below_intros)

lemma parsePrefix_below [below_intros]: "below (parsePrefix self) (parsePrefix self')"
  unfolding parsePrefix_def by (intro below_intros)

lemma infixOperator_below [below_intros]: "below (infixOperator self a b) (infixOperator self' a b)"
  unfolding infixOperator_def by (intro below_intros)

lemma infixStep_below [below_intros]: "below (infixStep self a) (infixStep self' a)"
  unfolding infixStep_def by (intro below_intros)

lemma parsePrecedence_below [below_intros]: "below (parsePrecedence self a) (parsePrecedence self' a)"
  unfolding parsePrecedence_def by (intro below_intros)

text \<open>Statements.\<close>

lemma parseLetStmt_below [below_intros]: "below (parseLetStmt self) (parseLetStmt self')"
  unfolding parseLetStmt_def by (intro below_intros)

lemma parseTypedVarDeclStmt_below [below_intros]: "below (parseTypedVarDeclStmt self) (parseTypedVarDeclStmt self')"
  unfolding parseTypedVarDeclStmt_def by (intro below_intros)

lemma parseConstDecl_below [below_intros]: "below (parseConstDecl self) (parseConstDecl self')"
  unfolding parseConstDecl_def by (intro below_intros)

lemma parseReturnStmt_below [below_intros]: "below (parseReturnStmt self) (parseReturnStmt self')"
  unfolding parseReturnStmt_def by (intro below_intros)

lemma parseThrowStmt_below [below_intros]: "below (parseThrowStmt self) (parseThrowStmt self')"
  unfolding parseThrowStmt_def by (intro below_intros)

lemma parseExprStmt_below [below_intros]: "below (parseExprStmt self) (parseExprStmt self')"
  unfolding parseExprStmt_def by (intro below_intros)

lemma blockOrMissing_below [below_intros]: "below (blockOrMissing self a) (blockOrMissing self' a)"
  unfolding blockOrMissing_def by (intro below_intros)

lemma parseIfStmt_below [below_intros]: "below (parseIfStmt self) (parseIfStmt self')"
  unfolding parseIfStmt_def by (intro below_intros)

lemma parseWhileStmt_below [below_intros]: "below (parseWhileStmt self) (parseWhileStmt self')"
  unfolding parseWhileStmt_def by (intro below_intros)

lemma parseForStmt_below [below_intros]: "below (parseForStmt self) (parseForStmt self')"
  unfolding parseForStmt_def by (intro below_intros)

lemma parseSwitchStmt_below [below_intros]: "below (parseSwitchStmt self) (parseSwitchStmt self')"
  unfolding parseSwitchStmt_def by (intro below_intros)

lemma parseStatement_below [below_intros]: "below (parseStatement self) (parseStatement self')"
  unfolding parseStatement_def by (intro below_intros)

lemma parseBlock_below [below_intros]: "below (parseBlock self) (parseBlock self')"
  unfolding parseBlock_def by (intro below_intros)

text \<open>Declarations.\<close>

lemma parseDefaultValue_below [below_intros]: "below (parseDefaultValue self) (parseDefaultValue self')"
  unfolding parseDefaultValue_def by (intro below_intros)

lemma parseParameter_below [below_intros]: "below (parseParameter self) (parseParameter self')"
  unfolding parseParameter_def by (intro below_intros)

lemma parseParamList_below [below_intros]: "below (parseParamList self) (parseParamList self')"
  unfolding parseParamList_def by (intro below_intros)

lemma parseReturnType_below [below_intros]: "below (parseReturnType self) (parseReturnType self')"
  unfolding parseReturnType_def by (intro below_intros)

lemma parseCatchClause_below [below_intros]: "below (parseCatchClause self) (parseCatchClause self')"
  unfolding parseCatchClause_def by (intro below_intros)

lemma parseExternalFuncDecl_below [below_intros]: "below (parseExternalFuncDecl self) (parseExternalFuncDecl self')"
  unfolding parseExternalFuncDecl_def by (intro below_intros)

lemma parseExternalBlock_below [below_intros]: "below (parseExternalBlock self) (parseExternalBlock self')"
  unfolding parseExternalBlock_def by (intro below_intros)

lemma parseExternalDecl_below [below_intros]: "below (parseExternalDecl self) (parseExternalDecl self')"
  unfolding parseExternalDecl_def by (intro below_intros)

lemma parseFuncBody_below [below_intros]: "below (parseFuncBody self) (parseFuncBody self')"
  unfolding parseFuncBody_def by (intro below_intros)

lemma parseFuncDecl_below [below_intros]: "below (parseFuncDecl self) (parseFuncDecl self')"
  unfolding parseFuncDecl_def by (intro below_intros)

lemma parseTestDecl_below [below_intros]: "below (parseTestDecl self) (parseTestDecl self')"
  unfolding parseTestDecl_def by (intro below_intros)

lemma parseImplementsClause_below [below_intros]: "below (parseImplementsClause self) (parseImplementsClause self')"
  unfolding parseImplementsClause_def by (intro below_intros)

lemma parseFieldDecl_below [below_intros]: "below (parseFieldDecl self) (parseFieldDecl self')"
  unfolding parseFieldDecl_def by (intro below_intros)

lemma parseStructOrClassMember_below [below_intros]: "below (parseStructOrClassMember self) (parseStructOrClassMember self')"
  unfolding parseStructOrClassMember_def by (intro below_intros)

lemma parseMembers_below [below_intros]: "below (parseMembers self a) (parseMembers self' a)"
  unfolding parseMembers_def by (intro below_intros)

lemma parseStructOrClassDecl_below [below_intros]: "below (parseStructOrClassDecl self a b) (parseStructOrClassDecl self' a b)"
  unfolding parseStructOrClassDecl_def Let_def by (intro below_intros)

lemma parsePrimitiveDecl_below [below_intros]: "below (parsePrimitiveDecl self) (parsePrimitiveDecl self')"
  unfolding parsePrimitiveDecl_def by (intro below_intros)

lemma parseInterfaceDecl_below [below_intros]: "below (parseInterfaceDecl self) (parseInterfaceDecl self')"
  unfolding parseInterfaceDecl_def by (intro below_intros)

lemma parseEnumDecl_below [below_intros]: "below (parseEnumDecl self) (parseEnumDecl self')"
  unfolding parseEnumDecl_def by (intro below_intros)

lemma parseUnnamedTopLevel_below [below_intros]: "below (parseUnnamedTopLevel self a) (parseUnnamedTopLevel self' a)"
  unfolding parseUnnamedTopLevel_def by (intro below_intros)

lemma parseTopLevel_below [below_intros]: "below (parseTopLevel self) (parseTopLevel self')"
  unfolding parseTopLevel_def by (intro below_intros)

lemma parseTopLevels_below [below_intros]: "below (parseTopLevels self) (parseTopLevels self')"
  unfolding parseTopLevels_def by (intro below_intros)

lemma parseSourceFile_below: "parseSourceFile self p = Some r \<Longrightarrow> parseSourceFile self' p = Some r"
proof -
  have "below (run [startNode SourceFile, parseTopLevels self, flushRest, finishNode])
      (run [startNode SourceFile, parseTopLevels self', flushRest, finishNode])"
    by (intro below_intros)
  then show "parseSourceFile self p = Some r \<Longrightarrow> parseSourceFile self' p = Some r"
    by (auto simp: parseSourceFile_def below_def bind_eq_Some_conv simp del: run.simps)
qed

end

lemma parse_fuel_more: "more_calls (parse_fuel n) (parse_fuel (n + m))"
proof (induction n)
  case 0
  show ?case by unfold_locales (simp add: below_def)
next
  case (Suc n)
  note below = more_calls.parsePrecedence_below [OF Suc] more_calls.parseBlock_below [OF Suc]
    more_calls.parseType_below [OF Suc] more_calls.parseIfStmt_below [OF Suc]
  show ?case
  proof unfold_locales
    show "below (parse_fuel (Suc n) c) (parse_fuel (Suc n + m) c)" for c
      by (cases c) (simp_all add: below del: parse_fuel.simps)
  qed
qed

interpretation more_fuel: more_calls "parse_fuel n" "parse_fuel (n + m)" for n m
  by (rule parse_fuel_more)
text \<open>The fuel of the model is immaterial: with any fuel above the length of the source, the parse is
  the same.\<close>

theorem parse_fuel_irrelevant: "parseWith (length src + 1 + m) src s = parse src s"
proof -
  from parseWith_parses [of src "length src + 1" s] obtain r where "parse src s = Some r" by (auto simp: parse_def)
  with more_fuel.parseSourceFile_below [of "length src + 1" "mkParser src s" r m] show ?thesis
    by (simp add: parse_def parseWith_def)
qed

end
