(* ===== verification/Types.thy ===== *)
theory Types
  imports Prelude
begin

text \<open>
  The semantic types of the front end: \<open>semantic/Type.h\<close>, \<open>semantic/Type.cpp\<close> and what they read of
  \<open>semantic/Symbol.h\<close>.

  A pointer to a \<open>Type\<close>, a \<open>StructInfo\<close> or a \<open>Symbol\<close> is an index into the vector that owns the
  object (the owning vectors only grow), and \<open>nullptr\<close> is \<open>None\<close>. The functions read the owning
  vectors from a \<open>Heap\<close>, which \<open>TypeContext\<close> extends with its caches.
\<close>

section \<open>Data\<close>

datatype TypeKind =
    TyBool | TyByte | TyShort | TyUShort | TyInt | TyUInt | TyLong | TyULong
  | TyFloat | TyDouble | TyDecimal | TyChar | TyString | TyVoid
  | TyNull | TyOptional | TyArray | TyFunction | TyStruct | TyClass | TyEnum | TyExternal
  | TyTypeParam | TyError

datatype Visibility = Private | Protected | Public | Export

datatype DeclKind = DkClass | DkStruct | DkInterface | DkEnum | DkExternal | DkPrimitive

type_synonym tid = nat
type_synonym sid = nat
type_synonym symid = nat

text \<open>The owner of a type parameter (a \<open>const void*\<close>): a generic type or a generic function.\<close>

datatype ParamOwner = OwnerStruct sid | OwnerSymbol symid

record FieldInfo =
  fi_name :: u16string
  fi_type :: "tid option"
  fi_visibility :: Visibility
  fi_isWeak :: bool
  fi_isLazyConst :: bool
  fi_line :: int
  fi_column :: int
  fi_definingClass :: "sid option"

record MethodInfo =
  mi_name :: u16string
  mi_symbol :: "symid option"
  mi_visibility :: Visibility
  mi_isConstructor :: bool
  mi_isDestructor :: bool
  mi_isOverride :: bool
  mi_isFinal :: bool
  mi_isAbstract :: bool
  mi_isNoreturn :: bool
  mi_vtableSlot :: int
  mi_itableSlot :: int
  mi_definingClass :: "sid option"

record StructInfo =
  si_name :: u16string
  si_modulePath :: u16string
  si_packagePrefix :: u16string
  si_declKind :: DeclKind
  si_visibility :: Visibility
  si_fields :: "FieldInfo list"
  si_methods :: "MethodInfo list"
  si_enumMembers :: "(u16string \<times> 64 word) list"
  si_enumIsNumeric :: bool
  si_line :: int
  si_column :: int
  si_baseInfo :: "sid option"
  si_baseFieldCount :: int
  si_vtableSize :: int
  si_typeId :: u32
  si_isAbstract :: bool
  si_isFinal :: bool
  si_isSealed :: bool
  si_directSubclasses :: "sid list"
  si_isInterface :: bool
  si_implementedInterfaces :: "tid option list"
  si_isTemplate :: bool
  si_membersCollected :: bool
  si_typeParamNames :: "u16string list"
  si_typeParamBounds :: "sid option list list"
  si_templateOf :: "sid option"
  si_typeArgs :: "tid option list"

text \<open>The part of \<open>Symbol\<close> that types and their instantiation read and write.\<close>

record Symbol =
  sy_name :: u16string
  sy_paramTypes :: "tid option list"
  sy_returnType :: "tid option"
  sy_methodOwner :: "sid option"
  sy_abiThrows :: bool

record Type =
  t_kind :: TypeKind
  t_inner :: "tid option"
  t_structInfo :: "sid option"
  t_paramOwner :: "ParamOwner option"
  t_paramIndex :: int
  t_paramName :: u16string
  t_paramBounds :: "sid option list"
  t_functionParams :: "tid option list"
  t_functionReturn :: "tid option"
  t_hasThrowsClause :: bool

record Heap =
  h_types :: "Type list"
  h_structs :: "StructInfo list"
  h_symbols :: "Symbol list"

text \<open>Newly constructed objects, with the initializers of their members.\<close>

definition newType :: "TypeKind \<Rightarrow> tid option \<Rightarrow> Type" where
  "newType k inner = \<lparr>t_kind = k, t_inner = inner, t_structInfo = None, t_paramOwner = None, t_paramIndex = -1,
     t_paramName = [], t_paramBounds = [], t_functionParams = [], t_functionReturn = None,
     t_hasThrowsClause = False\<rparr>"

definition newStructInfo :: StructInfo where
  "newStructInfo = \<lparr>si_name = [], si_modulePath = [], si_packagePrefix = [], si_declKind = DkClass,
     si_visibility = Private, si_fields = [], si_methods = [], si_enumMembers = [], si_enumIsNumeric = False,
     si_line = 0, si_column = 0, si_baseInfo = None, si_baseFieldCount = 0, si_vtableSize = 0, si_typeId = 0,
     si_isAbstract = False, si_isFinal = False, si_isSealed = False, si_directSubclasses = [],
     si_isInterface = False, si_implementedInterfaces = [], si_isTemplate = False, si_membersCollected = False,
     si_typeParamNames = [], si_typeParamBounds = [], si_templateOf = None, si_typeArgs = []\<rparr>"

text \<open>Dereferencing.\<close>

definition ty :: "('x) Heap_scheme \<Rightarrow> tid \<Rightarrow> Type" where
  "ty h t = h_types h ! t"

definition si :: "('x) Heap_scheme \<Rightarrow> sid \<Rightarrow> StructInfo" where
  "si h s = h_structs h ! s"

definition sym :: "('x) Heap_scheme \<Rightarrow> symid \<Rightarrow> Symbol" where
  "sym h y = h_symbols h ! y"

abbreviation kind :: "('x) Heap_scheme \<Rightarrow> tid \<Rightarrow> TypeKind" where
  "kind h t \<equiv> t_kind (ty h t)"

section \<open>Words and tiers\<close>

definition visibilityTier :: "Visibility \<Rightarrow> int" where
  "visibilityTier v = (case v of Private \<Rightarrow> 0 | Protected \<Rightarrow> 0 | Public \<Rightarrow> 1 | Export \<Rightarrow> 2)"

definition declKindWord :: "DeclKind \<Rightarrow> string" where
  "declKindWord k =
     (case k of DkStruct \<Rightarrow> ''struct'' | DkInterface \<Rightarrow> ''interface'' | DkEnum \<Rightarrow> ''enum''
      | DkExternal \<Rightarrow> ''external type'' | DkPrimitive \<Rightarrow> ''primitive'' | DkClass \<Rightarrow> ''class'')"

definition declKindPhrase :: "DeclKind \<Rightarrow> string" where
  "declKindPhrase k =
     (case k of DkStruct \<Rightarrow> ''a struct'' | DkInterface \<Rightarrow> ''an interface'' | DkEnum \<Rightarrow> ''an enum''
      | DkExternal \<Rightarrow> ''an external type'' | DkPrimitive \<Rightarrow> ''a primitive'' | DkClass \<Rightarrow> ''a class'')"

section \<open>Classification\<close>

definition isInteger :: "TypeKind \<Rightarrow> bool" where
  "isInteger k = (k \<in> {TyByte, TyShort, TyUShort, TyInt, TyUInt, TyLong, TyULong, TyChar})"

definition isFloat :: "TypeKind \<Rightarrow> bool" where
  "isFloat k = (k \<in> {TyFloat, TyDouble, TyDecimal})"

definition isNumeric :: "TypeKind \<Rightarrow> bool" where
  "isNumeric k = (isInteger k \<or> isFloat k)"

definition isPrimitive :: "TypeKind \<Rightarrow> bool" where
  "isPrimitive k =
     (k \<in> {TyBool, TyByte, TyShort, TyUShort, TyInt, TyUInt, TyLong, TyULong, TyFloat, TyDouble, TyChar})"

definition isSignedInteger :: "TypeKind \<Rightarrow> bool" where
  "isSignedInteger k = (k \<in> {TyShort, TyInt, TyLong})"

definition isUnsignedInteger :: "TypeKind \<Rightarrow> bool" where
  "isUnsignedInteger k = (k \<in> {TyByte, TyUShort, TyUInt, TyULong, TyChar})"

definition integerBitWidth :: "TypeKind \<Rightarrow> nat" where
  "integerBitWidth k =
     (if k = TyByte then 8 else if k \<in> {TyShort, TyUShort} then 16
      else if k \<in> {TyInt, TyUInt, TyChar} then 32 else if k \<in> {TyLong, TyULong} then 64 else 0)"

definition floatBitWidth :: "TypeKind \<Rightarrow> nat" where
  "floatBitWidth k = (if k = TyFloat then 32 else if k = TyDouble then 64 else 0)"

section \<open>Members and inheritance\<close>

text \<open>The first index whose element satisfies a test, and -1 without one; the loop that counts down
  answers with the last.\<close>

definition firstIndex :: "('a \<Rightarrow> bool) \<Rightarrow> 'a list \<Rightarrow> int" where
  "firstIndex P xs =
     (let n = length (takeWhile (\<lambda>x. \<not> P x) xs) in if n < length xs then int n else -1)"

definition lastIndex :: "('a \<Rightarrow> bool) \<Rightarrow> 'a list \<Rightarrow> int" where
  "lastIndex P xs =
     (let n = length (takeWhile (\<lambda>x. \<not> P x) (rev xs)) in if n < length xs then int (length xs - 1 - n) else -1)"

definition findFieldIndex :: "StructInfo \<Rightarrow> u16string \<Rightarrow> int" where
  "findFieldIndex s fieldName = lastIndex (\<lambda>f. fi_name f = fieldName) (si_fields s)"

definition findMethodIndex :: "StructInfo \<Rightarrow> u16string \<Rightarrow> int" where
  "findMethodIndex s methodName = firstIndex (\<lambda>m. mi_name m = methodName) (si_methods s)"

definition hasOwnConstructor :: "StructInfo \<Rightarrow> bool" where
  "hasOwnConstructor s = list_ex mi_isConstructor (si_methods s)"

definition findConstructorIndex :: "StructInfo \<Rightarrow> int" where
  "findConstructorIndex s = firstIndex mi_isConstructor (si_methods s)"

definition findDestructorIndex :: "StructInfo \<Rightarrow> int" where
  "findDestructorIndex s = firstIndex mi_isDestructor (si_methods s)"

text \<open>The structs a walk along \<open>baseInfo\<close> visits: \<open>for (s = this; s; s = s->baseInfo)\<close>. Inheritance
  without a cycle has no chain longer than the number of structs.\<close>

primrec baseChainF :: "nat \<Rightarrow> ('x) Heap_scheme \<Rightarrow> sid option \<Rightarrow> sid list" where
  "baseChainF 0 h s = []"
| "baseChainF (Suc n) h s = (case s of None \<Rightarrow> [] | Some b \<Rightarrow> b # baseChainF n h (si_baseInfo (si h b)))"

definition baseChain :: "('x) Heap_scheme \<Rightarrow> sid option \<Rightarrow> sid list" where
  "baseChain h s = baseChainF (length (h_structs h)) h s"

definition isSubclassOf :: "('x) Heap_scheme \<Rightarrow> sid \<Rightarrow> sid option \<Rightarrow> bool" where
  "isSubclassOf h this other = list_ex (\<lambda>s. Some s = other) (baseChain h (Some this))"

definition structOf :: "('x) Heap_scheme \<Rightarrow> tid option \<Rightarrow> sid option" where
  "structOf h t = (case t of None \<Rightarrow> None | Some t \<Rightarrow> t_structInfo (ty h t))"

definition conformsToInterface :: "('x) Heap_scheme \<Rightarrow> sid \<Rightarrow> sid option \<Rightarrow> bool" where
  "conformsToInterface h this iface =
     list_ex (\<lambda>s. Some s = iface \<or>
       list_ex (\<lambda>t. list_ex (\<lambda>i. Some i = iface) (baseChain h (structOf h t))) (si_implementedInterfaces (si h s)))
       (baseChain h (Some this))"

definition isSubclassOrConforms :: "('x) Heap_scheme \<Rightarrow> sid \<Rightarrow> sid option \<Rightarrow> bool" where
  "isSubclassOrConforms h this other =
     (case other of None \<Rightarrow> False
      | Some s \<Rightarrow> if si_isInterface (si h s) then conformsToInterface h this other else isSubclassOf h this other)"

definition classDeclaringMethod :: "('x) Heap_scheme \<Rightarrow> sid \<Rightarrow> u16string \<Rightarrow> sid option" where
  "classDeclaringMethod h this methodName =
     find (\<lambda>s. findMethodIndex (si h s) methodName \<ge> 0) (baseChain h (Some this))"

definition declaredToString :: "('x) Heap_scheme \<Rightarrow> sid option \<Rightarrow> MethodInfo option" where
  "declaredToString h info =
     (case info of None \<Rightarrow> None
      | Some s \<Rightarrow> find (\<lambda>m. mi_name m = u16 ''toString'' \<and>
          (case mi_symbol m of None \<Rightarrow> False | Some y \<Rightarrow> sy_paramTypes (sym h y) = [])) (si_methods (si h s)))"

definition findZeroArgMethodIndex :: "('x) Heap_scheme \<Rightarrow> sid \<Rightarrow> u16string \<Rightarrow> int" where
  "findZeroArgMethodIndex h this methodName =
     firstIndex (\<lambda>m. mi_name m = methodName \<and>
       (case mi_symbol m of None \<Rightarrow> False | Some y \<Rightarrow> sy_paramTypes (sym h y) = [])) (si_methods (si h this))"

definition classDeclaringZeroArgMethod :: "('x) Heap_scheme \<Rightarrow> sid \<Rightarrow> u16string \<Rightarrow> sid option" where
  "classDeclaringZeroArgMethod h this methodName =
     find (\<lambda>s. findZeroArgMethodIndex h s methodName \<ge> 0) (baseChain h (Some this))"

section \<open>Equality\<close>

text \<open>The recursion follows \<open>inner\<close>, \<open>functionParams\<close> and \<open>functionReturn\<close>, which are allocated before the
  type that points to them: a type's index bounds the depth.\<close>

text \<open>Both pointers are there and the test holds of what they point to.\<close>

fun bothPointers :: "('a \<Rightarrow> 'b \<Rightarrow> bool) \<Rightarrow> 'a option \<Rightarrow> 'b option \<Rightarrow> bool" where
  "bothPointers P (Some a) (Some b) = P a b"
| "bothPointers P a b = False"

primrec equalsF :: "nat \<Rightarrow> ('x) Heap_scheme \<Rightarrow> tid \<Rightarrow> tid \<Rightarrow> bool" where
  "equalsF 0 h a b = (a = b)"
| "equalsF (Suc n) h a b =
     (let x = ty h a; y = ty h b in
      if a = b then True
      else if t_kind x \<noteq> t_kind y then False
      else if t_kind x = TyOptional \<or> t_kind x = TyArray then bothPointers (equalsF n h) (t_inner x) (t_inner y)
      else if t_kind x \<in> {TyStruct, TyClass, TyEnum, TyExternal} then t_structInfo x = t_structInfo y
      else if t_kind x = TyTypeParam then t_paramOwner x = t_paramOwner y \<and> t_paramIndex x = t_paramIndex y
      else if t_kind x = TyFunction then
        length (t_functionParams x) = length (t_functionParams y) \<and>
        list_all (\<lambda>(p, q). bothPointers (equalsF n h) p q) (zip (t_functionParams x) (t_functionParams y)) \<and>
        bothPointers (equalsF n h) (t_functionReturn x) (t_functionReturn y)
      else True)"

definition equals :: "('x) Heap_scheme \<Rightarrow> tid \<Rightarrow> tid option \<Rightarrow> bool" where
  "equals h this other = (case other of None \<Rightarrow> False | Some b \<Rightarrow> equalsF (Suc (length (h_types h))) h this b)"

definition sameParameterTypes :: "('x) Heap_scheme \<Rightarrow> symid option \<Rightarrow> symid option \<Rightarrow> bool" where
  "sameParameterTypes h a b =
     bothPointers (\<lambda>x y.
       length (sy_paramTypes (sym h x)) = length (sy_paramTypes (sym h y)) \<and>
       list_all (\<lambda>(p, q). bothPointers (\<lambda>s t. equals h s (Some t)) p q)
         (zip (sy_paramTypes (sym h x)) (sy_paramTypes (sym h y)))) a b"

definition findMethodIndexBySignature :: "('x) Heap_scheme \<Rightarrow> sid \<Rightarrow> u16string \<Rightarrow> symid option \<Rightarrow> int" where
  "findMethodIndexBySignature h this methodName like =
     firstIndex (\<lambda>m. mi_name m = methodName \<and> sameParameterTypes h (mi_symbol m) like) (si_methods (si h this))"

definition classDeclaringMethodBySignature :: "('x) Heap_scheme \<Rightarrow> sid \<Rightarrow> u16string \<Rightarrow> symid option \<Rightarrow> sid option" where
  "classDeclaringMethodBySignature h this methodName like =
     find (\<lambda>s. findMethodIndexBySignature h s methodName like \<ge> 0) (baseChain h (Some this))"

section \<open>Conversions\<close>

definition isSelfInstantiationOf :: "('x) Heap_scheme \<Rightarrow> tid \<Rightarrow> tid option \<Rightarrow> bool" where
  "isSelfInstantiationOf h this declared =
     (case (t_structInfo (ty h this), declared) of
        (Some s, Some d) \<Rightarrow>
          (case t_structInfo (ty h d) of
             None \<Rightarrow> False
           | Some ds \<Rightarrow>
               kind h this = kind h d \<and> si_templateOf (si h s) = Some ds \<and>
               length (si_typeArgs (si h s)) = length (si_typeParamNames (si h ds)) \<and>
               list_all (\<lambda>i. case si_typeArgs (si h s) ! i of None \<Rightarrow> False
                   | Some a \<Rightarrow> kind h a = TyTypeParam \<and> t_paramOwner (ty h a) = Some (OwnerStruct ds) \<and>
                              t_paramIndex (ty h a) = int i)
                 [0..<length (si_typeArgs (si h s))])
      | _ \<Rightarrow> False)"

definition widensKind :: "TypeKind \<Rightarrow> TypeKind \<Rightarrow> bool" where
  "widensKind s t =
     (if isInteger s \<and> isInteger t then
        (let srcW = integerBitWidth s; dstW = integerBitWidth t in
         if isSignedInteger s \<and> isSignedInteger t then dstW > srcW
         else if isUnsignedInteger s \<and> isUnsignedInteger t then dstW > srcW
         else if isUnsignedInteger s \<and> isSignedInteger t then dstW > srcW
         else False)
      else if isInteger s \<and> isFloat t then
        (if s = TyChar then False
         else integerBitWidth s \<le> (if floatBitWidth t = 32 then 24 else 53))
      else if isFloat s \<and> isFloat t then floatBitWidth s < floatBitWidth t
      else False)"

definition widensTo :: "('x) Heap_scheme \<Rightarrow> tid \<Rightarrow> tid option \<Rightarrow> bool" where
  "widensTo h this target =
     (case target of None \<Rightarrow> False
      | Some t \<Rightarrow>
          if kind h t = TyError \<or> kind h this = TyError then False
          else if equals h this target then False
          else widensKind (kind h this) (kind h t))"

text \<open>A class that is, or descends from, or conforms to another.\<close>

definition upcasts :: "('x) Heap_scheme \<Rightarrow> tid \<Rightarrow> tid \<Rightarrow> bool" where
  "upcasts h target source =
     (kind h target = TyClass \<and> kind h source = TyClass \<and>
      (case (t_structInfo (ty h target), t_structInfo (ty h source)) of
         (Some b, Some d) \<Rightarrow> isSubclassOrConforms h d (Some b) | _ \<Rightarrow> False))"

text \<open>The recursion goes to \<open>inner\<close> of the target.\<close>

primrec assignableFromF :: "nat \<Rightarrow> ('x) Heap_scheme \<Rightarrow> tid \<Rightarrow> tid option \<Rightarrow> bool" where
  "assignableFromF 0 h this source = False"
| "assignableFromF (Suc n) h this source =
     (case source of
        None \<Rightarrow> True
      | Some s \<Rightarrow>
          if kind h s = TyError \<or> kind h this = TyError then True
          else if equals h this source \<or> isSelfInstantiationOf h this source then True
          else if widensTo h s (Some this) then True
          else if upcasts h this s then True
          else if kind h this = TyOptional then
            (if kind h s = TyNull then True
             else if (case t_inner (ty h this) of None \<Rightarrow> False
                      | Some i \<Rightarrow> (case (if kind h s = TyOptional then t_inner (ty h s) else source) of
                                    None \<Rightarrow> False | Some src \<Rightarrow> upcasts h i src)) then True
             else if kind h s = TyOptional then
               (case t_inner (ty h this) of None \<Rightarrow> False
                | Some i \<Rightarrow> kind h i = TyOptional \<and> assignableFromF n h i source)
             else (case t_inner (ty h this) of None \<Rightarrow> False | Some i \<Rightarrow> assignableFromF n h i source))
          else False)"

definition assignableFrom :: "('x) Heap_scheme \<Rightarrow> tid \<Rightarrow> tid option \<Rightarrow> bool" where
  "assignableFrom h this source = assignableFromF (Suc (length (h_types h))) h this source"

section \<open>Display\<close>

definition asciiName :: "u16string \<Rightarrow> string" where
  "asciiName s = map (\<lambda>c. if c < 128 then char_of (unat c) else CHR ''?'') s"

definition joinComma :: "string list \<Rightarrow> string" where
  "joinComma xs = concat (case xs of [] \<Rightarrow> [] | y # ys \<Rightarrow> y # map (\<lambda>s. '', '' @ s) ys)"

fun primitiveName :: "TypeKind \<Rightarrow> string" where
  "primitiveName TyBool = ''bool''" | "primitiveName TyByte = ''byte''" | "primitiveName TyShort = ''short''"
| "primitiveName TyUShort = ''ushort''" | "primitiveName TyInt = ''int''" | "primitiveName TyUInt = ''uint''"
| "primitiveName TyLong = ''long''" | "primitiveName TyULong = ''ulong''" | "primitiveName TyFloat = ''float''"
| "primitiveName TyDouble = ''double''" | "primitiveName TyDecimal = ''decimal''" | "primitiveName TyChar = ''char''"
| "primitiveName TyString = ''string''" | "primitiveName TyVoid = ''void''" | "primitiveName TyNull = ''null''"
| "primitiveName TyError = ''<error>''" | "primitiveName k = []"

text \<open>\<open>suffixedForm\<close>, with the recursive call to \<open>toString\<close> as an argument.\<close>

definition suffixedForm :: "('x) Heap_scheme \<Rightarrow> (tid \<Rightarrow> string) \<Rightarrow> tid option \<Rightarrow> string" where
  "suffixedForm h str t =
     (case t of None \<Rightarrow> ''?'' | Some i \<Rightarrow> if kind h i = TyFunction then ''('' @ str i @ '')'' else str i)"

primrec typeToStringF :: "nat \<Rightarrow> ('x) Heap_scheme \<Rightarrow> tid \<Rightarrow> string" where
  "typeToStringF 0 h t = []"
| "typeToStringF (Suc n) h t =
     (let x = ty h t; str = typeToStringF n h; orMark = (\<lambda>p. case p of None \<Rightarrow> ''?'' | Some q \<Rightarrow> str q) in
      case t_kind x of
        TyOptional \<Rightarrow> suffixedForm h str (t_inner x) @ ''?''
      | TyArray \<Rightarrow> suffixedForm h str (t_inner x) @ ''[]''
      | TyFunction \<Rightarrow> ''('' @ joinComma (map orMark (t_functionParams x)) @ '') -> '' @ orMark (t_functionReturn x)
      | TyStruct \<Rightarrow>
          (case t_structInfo x of None \<Rightarrow> ''<struct>''
           | Some s \<Rightarrow> asciiName (si_name (si h s)) @
               (if si_templateOf (si h s) \<noteq> None \<and> si_typeArgs (si h s) \<noteq> []
                then ''<'' @ joinComma (map orMark (si_typeArgs (si h s))) @ ''>'' else []))
      | TyClass \<Rightarrow>
          (case t_structInfo x of None \<Rightarrow> ''<class>''
           | Some s \<Rightarrow> asciiName (si_name (si h s)) @
               (if si_templateOf (si h s) \<noteq> None \<and> si_typeArgs (si h s) \<noteq> []
                then ''<'' @ joinComma (map orMark (si_typeArgs (si h s))) @ ''>'' else []))
      | TyEnum \<Rightarrow> (case t_structInfo x of None \<Rightarrow> ''<enum>'' | Some s \<Rightarrow> asciiName (si_name (si h s)))
      | TyExternal \<Rightarrow> (case t_structInfo x of None \<Rightarrow> ''<external>'' | Some s \<Rightarrow> asciiName (si_name (si h s)))
      | TyTypeParam \<Rightarrow> (let r = asciiName (t_paramName x) in if r = [] then ''<typeparam>'' else r)
      | k \<Rightarrow> primitiveName k)"

definition typeToString :: "('x) Heap_scheme \<Rightarrow> tid \<Rightarrow> string" where
  "typeToString h t = typeToStringF (Suc (length (h_types h))) h t"

section \<open>Well-formed heaps\<close>

text \<open>Every compound type points to types allocated before it, and never to an error type; an optional
  or array type has no members of its own.\<close>

definition pointsBelow :: "('x) Heap_scheme \<Rightarrow> tid \<Rightarrow> tid option \<Rightarrow> bool" where
  "pointsBelow h t p = (case p of None \<Rightarrow> False | Some i \<Rightarrow> i < t \<and> kind h i \<noteq> TyError)"

definition typeOk :: "('x) Heap_scheme \<Rightarrow> tid \<Rightarrow> bool" where
  "typeOk h t =
     (if kind h t = TyOptional \<or> kind h t = TyArray
      then pointsBelow h t (t_inner (ty h t)) \<and> t_structInfo (ty h t) = None
      else if kind h t = TyFunction
      then list_all (pointsBelow h t) (t_functionParams (ty h t)) \<and> pointsBelow h t (t_functionReturn (ty h t))
      else True)"

definition typesOk :: "('x) Heap_scheme \<Rightarrow> bool" where
  "typesOk h = list_all (typeOk h) [0..<length (h_types h)]"

lemma typesOk_D: "typesOk h \<Longrightarrow> t < length (h_types h) \<Longrightarrow> typeOk h t"
  by (simp add: typesOk_def list_all_iff)

lemma bothPointers_cong:
  "(\<And>i j. p = Some i \<Longrightarrow> q = Some j \<Longrightarrow> P i j = Q i j) \<Longrightarrow> bothPointers P p q = bothPointers Q p q"
  by (cases p; cases q) auto

text \<open>Any fuel above the index of the type gives the same answer.\<close>

lemma equalsF_fuel:
  assumes "typesOk h" and "a < length (h_types h)" and "a < n" and "a < m"
  shows "equalsF n h a b = equalsF m h a b"
  using assms(2-4)
proof (induction n arbitrary: a b m)
  case (Suc n)
  obtain m' where m: "m = Suc m'" using Suc.prems by (cases m) auto
  note ok = typesOk_D [OF assms(1) Suc.prems(1)]
  have IH: "equalsF n h i j = equalsF m' h i j" if "i < a" for i j
    using Suc.IH [of i m' j] Suc.prems that m by simp
  have eq: "bothPointers (equalsF n h) p q = bothPointers (equalsF m' h) p q" if "pointsBelow h a p" for p q
    using that IH by (intro bothPointers_cong) (auto simp: pointsBelow_def)
  have list: "list_all (\<lambda>(p, q). bothPointers (equalsF n h) p q) (zip ps qs) =
      list_all (\<lambda>(p, q). bothPointers (equalsF m' h) p q) (zip ps qs)" if "list_all (pointsBelow h a) ps" for ps qs
    using that eq by (fastforce simp: list_all_iff dest: set_zip_leftD)
  show ?case using ok eq list unfolding m equalsF.simps(2) typeOk_def Let_def
    by (cases "kind h a = TyFunction") (auto split: if_splits)
qed simp

section \<open>Inheritance\<close>

text \<open>The specification: the reflexive transitive closure of the base relation.\<close>

definition baseRel :: "('x) Heap_scheme \<Rightarrow> (sid \<times> sid) set" where
  "baseRel h = {(s, b). s < length (h_structs h) \<and> si_baseInfo (si h s) = Some b}"

definition basesOk :: "('x) Heap_scheme \<Rightarrow> bool" where
  "basesOk h \<longleftrightarrow> acyclic (baseRel h) \<and> Range (baseRel h) \<subseteq> {..<length (h_structs h)}"

lemma baseRel_ancestors:
  assumes "s < length (h_structs h)"
  shows "(baseRel h)\<^sup>* `` {s} =
    insert s (case si_baseInfo (si h s) of None \<Rightarrow> {} | Some b \<Rightarrow> (baseRel h)\<^sup>* `` {b})"
proof (cases "si_baseInfo (si h s)")
  case None
  then have "s \<notin> Domain (baseRel h)" by (auto simp: baseRel_def)
  then show ?thesis using None by (auto simp: Not_Domain_rtrancl)
next
  case (Some b)
  have step: "(s, b) \<in> baseRel h" using assms Some by (simp add: baseRel_def)
  have "(baseRel h)\<^sup>* `` {s} \<subseteq> insert s ((baseRel h)\<^sup>* `` {b})"
  proof
    fix c
    assume "c \<in> (baseRel h)\<^sup>* `` {s}"
    then have "(s, c) \<in> (baseRel h)\<^sup>*" by simp
    then show "c \<in> insert s ((baseRel h)\<^sup>* `` {b})"
    proof (cases rule: converse_rtranclE)
      case (step d)
      then have "d = b" using Some by (simp add: baseRel_def)
      with step show ?thesis by simp
    qed simp
  qed
  moreover have "(baseRel h)\<^sup>* `` {b} \<subseteq> (baseRel h)\<^sup>* `` {s}"
    using step by (auto intro: converse_rtrancl_into_rtrancl)
  ultimately show ?thesis using Some by auto
qed

lemma ancestors_bounded:
  "basesOk h \<Longrightarrow> s < length (h_structs h) \<Longrightarrow> (baseRel h)\<^sup>* `` {s} \<subseteq> {..<length (h_structs h)}"
  unfolding basesOk_def by (auto elim: rtranclE)

text \<open>Each step up the chain leaves one ancestor fewer, so the number of structs is fuel enough.\<close>

lemma baseChainF_ancestors:
  assumes "basesOk h" and "s < length (h_structs h)" and "card ((baseRel h)\<^sup>* `` {s}) \<le> n"
  shows "set (baseChainF n h (Some s)) = (baseRel h)\<^sup>* `` {s}"
  using assms(2,3)
proof (induction n arbitrary: s)
  case 0
  have "finite ((baseRel h)\<^sup>* `` {s})"
    using ancestors_bounded [OF assms(1) "0.prems"(1)] by (rule finite_subset) simp
  then show ?case using 0 by (auto simp: card_eq_0_iff)
next
  case (Suc n)
  note anc = baseRel_ancestors [OF Suc.prems(1)]
  show ?case
  proof (cases "si_baseInfo (si h s)")
    case None
    then have "baseChainF n h (si_baseInfo (si h s)) = []" by (cases n) simp_all
    then show ?thesis using anc None by simp
  next
    case (Some b)
    have step: "(s, b) \<in> baseRel h" using Suc.prems(1) Some by (simp add: baseRel_def)
    then have b: "b < length (h_structs h)" using assms(1) by (auto simp: basesOk_def)
    let ?B = "(baseRel h)\<^sup>* `` {b}"
    have fin: "finite ?B" using ancestors_bounded [OF assms(1) b] by (rule finite_subset) simp
    have "s \<notin> ?B"
    proof
      assume "s \<in> ?B"
      then have "(s, s) \<in> (baseRel h)\<^sup>+" using step by (auto intro: rtrancl_into_trancl2)
      then show False using assms(1) by (simp add: basesOk_def acyclic_def)
    qed
    then have "card ?B \<le> n" using Suc.prems(2) anc Some fin by simp
    from Suc.IH [OF b this] show ?thesis using anc Some by simp
  qed
qed

lemma baseChain_ancestors:
  assumes "basesOk h" and "s < length (h_structs h)"
  shows "set (baseChain h (Some s)) = (baseRel h)\<^sup>* `` {s}"
  unfolding baseChain_def
proof (rule baseChainF_ancestors [OF assms])
  have "card ((baseRel h)\<^sup>* `` {s}) \<le> card {..<length (h_structs h)}"
    by (rule card_mono [OF _ ancestors_bounded [OF assms]]) simp
  then show "card ((baseRel h)\<^sup>* `` {s}) \<le> length (h_structs h)" by simp
qed

lemma baseChain_None: "baseChain h None = []"
  by (cases "length (h_structs h)") (simp_all add: baseChain_def)

text \<open>The structs a type's \<open>implements\<close> clause names.\<close>

definition interfacesOf :: "('x) Heap_scheme \<Rightarrow> sid \<Rightarrow> sid set" where
  "interfacesOf h c = {i. Some i \<in> structOf h ` set (si_implementedInterfaces (si h c))}"

definition interfacesOk :: "('x) Heap_scheme \<Rightarrow> bool" where
  "interfacesOk h \<longleftrightarrow> (\<Union>c \<in> {..<length (h_structs h)}. interfacesOf h c) \<subseteq> {..<length (h_structs h)}"

lemma subclass_ancestors:
  "basesOk h \<Longrightarrow> s < length (h_structs h) \<Longrightarrow> isSubclassOf h s (Some b) \<longleftrightarrow> (s, b) \<in> (baseRel h)\<^sup>*"
  using baseChain_ancestors [of h s] by (auto simp: isSubclassOf_def list_ex_iff)

lemma conforms_ancestors:
  assumes "basesOk h" and "interfacesOk h" and "s < length (h_structs h)"
  shows "conformsToInterface h s (Some b) \<longleftrightarrow>
    (\<exists>c. (s, c) \<in> (baseRel h)\<^sup>* \<and> (c = b \<or> (\<exists>i \<in> interfacesOf h c. (i, b) \<in> (baseRel h)\<^sup>*)))"
proof -
  have iface: "list_ex (\<lambda>t. list_ex (\<lambda>i. Some i = Some b) (baseChain h (structOf h t))) (si_implementedInterfaces (si h c)) \<longleftrightarrow>
      (\<exists>i \<in> interfacesOf h c. (i, b) \<in> (baseRel h)\<^sup>*)" if c: "(s, c) \<in> (baseRel h)\<^sup>*" for c
  proof -
    have "c < length (h_structs h)" using ancestors_bounded [OF assms(1,3)] c by auto
    then have bound: "i < length (h_structs h)" if "i \<in> interfacesOf h c" for i
      using assms(2) that unfolding interfacesOk_def by blast
    have chain: "b \<in> set (baseChain h (structOf h t)) \<longleftrightarrow> (\<exists>i. structOf h t = Some i \<and> (i, b) \<in> (baseRel h)\<^sup>*)"
      if "t \<in> set (si_implementedInterfaces (si h c))" for t
    proof (cases "structOf h t")
      case (Some i)
      then have "i \<in> interfacesOf h c" using that by (force simp: interfacesOf_def)
      from baseChain_ancestors [OF assms(1) bound [OF this]] Some show ?thesis by auto
    qed (simp add: baseChain_None)
    then show ?thesis by (auto simp: list_ex_iff interfacesOf_def image_iff) (metis, metis)
  qed
  show ?thesis
    using baseChain_ancestors [OF assms(1,3)] iface by (auto simp: conformsToInterface_def list_ex_iff)
qed

section \<open>Optional levels\<close>

text \<open>How many \<open>?\<close> levels a type has.\<close>

primrec optionalDepthF :: "nat \<Rightarrow> ('x) Heap_scheme \<Rightarrow> tid \<Rightarrow> nat" where
  "optionalDepthF 0 h t = 0"
| "optionalDepthF (Suc n) h t =
     (if kind h t = TyOptional then (case t_inner (ty h t) of None \<Rightarrow> 1 | Some i \<Rightarrow> Suc (optionalDepthF n h i)) else 0)"

definition optionalDepth :: "('x) Heap_scheme \<Rightarrow> tid \<Rightarrow> nat" where
  "optionalDepth h t = optionalDepthF (Suc t) h t"

lemma optionalDepthF_fuel:
  "typesOk h \<Longrightarrow> t < length (h_types h) \<Longrightarrow> t < n \<Longrightarrow> t < m \<Longrightarrow> optionalDepthF n h t = optionalDepthF m h t"
proof (induction n arbitrary: t m)
  case (Suc n)
  obtain m' where m: "m = Suc m'" using Suc.prems by (cases m) auto
  have "optionalDepthF n h i = optionalDepthF m' h i" if "i < t" for i
    using Suc.IH [of i m'] Suc.prems that m by simp
  then show ?case using typesOk_D [OF Suc.prems(1,2)] m
    by (auto simp: typeOk_def pointsBelow_def split: option.splits)
qed simp

lemma optionalDepth_inner:
  assumes "typesOk h" and "t < length (h_types h)" and "kind h t = TyOptional"
  obtains i where "t_inner (ty h t) = Some i" and "i < t" and "kind h i \<noteq> TyError"
    and "optionalDepth h t = Suc (optionalDepth h i)"
proof -
  from typesOk_D [OF assms(1,2)] assms(3) obtain i where i: "t_inner (ty h t) = Some i" "i < t" "kind h i \<noteq> TyError"
    by (auto simp: typeOk_def pointsBelow_def split: option.splits)
  have "optionalDepthF t h i = optionalDepthF (Suc i) h i"
    using optionalDepthF_fuel [OF assms(1), of i t "Suc i"] assms(2) i(2) by simp
  with i assms(3) that show thesis by (simp add: optionalDepth_def)
qed

lemma optionalDepth_0: "kind h t \<noteq> TyOptional \<Longrightarrow> optionalDepth h t = 0"
  by (simp add: optionalDepth_def)

lemma equalsF_depth:
  assumes "typesOk h" and "a < length (h_types h)" and "b < length (h_types h)" and "equalsF n h a b"
  shows "optionalDepth h a = optionalDepth h b"
  using assms(2-4)
proof (induction n arbitrary: a b)
  case (Suc n)
  show ?case
  proof (cases "a = b \<or> kind h a \<noteq> TyOptional")
    case True
    with Suc.prems show ?thesis by (auto simp: optionalDepth_0 Let_def split: if_splits)
  next
    case False
    with Suc.prems(3) have k: "kind h a = TyOptional" "kind h b = TyOptional"
      and e: "bothPointers (equalsF n h) (t_inner (ty h a)) (t_inner (ty h b))"
      by (auto simp: Let_def split: if_splits)
    from optionalDepth_inner [OF assms(1) Suc.prems(1) k(1)] obtain i where
      i: "t_inner (ty h a) = Some i" "i < a" "optionalDepth h a = Suc (optionalDepth h i)" .
    from optionalDepth_inner [OF assms(1) Suc.prems(2) k(2)] obtain j where
      j: "t_inner (ty h b) = Some j" "j < b" "optionalDepth h b = Suc (optionalDepth h j)" .
    with Suc.IH [of i j] Suc.prems e i show ?thesis by simp
  qed
qed simp

lemma equals_depth:
  "typesOk h \<Longrightarrow> a < length (h_types h) \<Longrightarrow> b < length (h_types h) \<Longrightarrow> equals h a (Some b) \<Longrightarrow>
     optionalDepth h a = optionalDepth h b"
  by (simp add: equals_def del: equalsF.simps) (rule equalsF_depth)

lemma selfInstantiation_depth:
  assumes "typesOk h" and "a < length (h_types h)" and "isSelfInstantiationOf h a (Some b)"
  shows "kind h a \<noteq> TyOptional" and "kind h b = kind h a"
  using typesOk_D [OF assms(1,2)] assms(3)
  by (auto simp: isSelfInstantiationOf_def typeOk_def split: option.splits)

lemma widens_depth: "widensTo h a (Some b) \<Longrightarrow> kind h a \<noteq> TyOptional \<and> kind h b \<noteq> TyOptional"
  by (auto simp: widensTo_def widensKind_def isInteger_def isFloat_def split: if_splits)

lemma assignable_depth:
  assumes "typesOk h" and "t < length (h_types h)" and "s < length (h_types h)"
    and "kind h t \<noteq> TyError" and "kind h s \<noteq> TyError" and "assignableFromF n h t (Some s)"
  shows "optionalDepth h s \<le> optionalDepth h t"
  using assms(2,4,6)
proof (induction n arbitrary: t)
  case (Suc n)
  consider "equals h t (Some s)" | "isSelfInstantiationOf h t (Some s)" | "widensTo h s (Some t)" | "upcasts h t s"
    | "kind h t = TyOptional" "kind h s \<noteq> TyOptional"
    | "kind h t = TyOptional" "kind h s = TyOptional"
      "\<not> equals h t (Some s)" "\<not> isSelfInstantiationOf h t (Some s)" "\<not> widensTo h s (Some t)" "\<not> upcasts h t s"
    using Suc.prems assms(5) by (auto split: if_splits)
  then show ?case
  proof cases
    case 1
    then show ?thesis using equals_depth [OF assms(1) Suc.prems(1) assms(3)] by simp
  next
    case 2
    then show ?thesis using selfInstantiation_depth [OF assms(1) Suc.prems(1) 2] by (simp add: optionalDepth_0)
  next
    case 3
    then show ?thesis using widens_depth [OF 3] by (simp add: optionalDepth_0)
  next
    case 4
    then show ?thesis by (simp add: upcasts_def optionalDepth_0)
  next
    case 5
    then show ?thesis by (simp add: optionalDepth_0)
  next
    case 6
    from optionalDepth_inner [OF assms(1) Suc.prems(1) 6(1)] obtain i where
      i: "t_inner (ty h t) = Some i" "i < t" "kind h i \<noteq> TyError" "optionalDepth h t = Suc (optionalDepth h i)" .
    from optionalDepth_inner [OF assms(1,3) 6(2)] obtain j where
      j: "t_inner (ty h s) = Some j" "j < s" "optionalDepth h s = Suc (optionalDepth h j)" by metis
    have "upcasts h i j \<or> assignableFromF n h i (Some s)"
      using Suc.prems assms(5) 6 i j by (auto split: if_splits)
    then show ?thesis
    proof
      assume "upcasts h i j"
      then show ?thesis using i j by (simp add: upcasts_def optionalDepth_0)
    next
      assume "assignableFromF n h i (Some s)"
      with Suc.IH [of i] Suc.prems i show ?thesis by simp
    qed
  qed
qed simp

section \<open>What the conversions keep\<close>

text \<open>The values of an integer type.\<close>

definition lowest :: "TypeKind \<Rightarrow> int" where
  "lowest k = (if isSignedInteger k then - (2 ^ (integerBitWidth k - 1)) else 0)"

definition highest :: "TypeKind \<Rightarrow> int" where
  "highest k = (if isSignedInteger k then 2 ^ (integerBitWidth k - 1) - 1 else 2 ^ integerBitWidth k - 1)"

text \<open>The integers a binary floating point type represents without gaps: those of at most this many bits.\<close>

definition mantissaBits :: "TypeKind \<Rightarrow> nat" where
  "mantissaBits k = (if k = TyFloat then 24 else 53)"

lemma integer_cases:
  assumes "isInteger k"
  obtains "k = TyByte" | "k = TyShort" | "k = TyUShort" | "k = TyInt" | "k = TyUInt" | "k = TyLong"
    | "k = TyULong" | "k = TyChar"
  using assms by (auto simp: isInteger_def)

lemmas integer_defs = isInteger_def isFloat_def isSignedInteger_def isUnsignedInteger_def integerBitWidth_def
  floatBitWidth_def lowest_def highest_def mantissaBits_def widensKind_def

text \<open>Between integer types the implicit widening is exactly strict inclusion of value ranges: it never
  changes a value, and every conversion that could not lose one is allowed.\<close>

theorem integer_widening_exact:
  assumes "isInteger s" and "isInteger t"
  shows "widensKind s t \<longleftrightarrow> {lowest s..highest s} \<subset> {lowest t..highest t}"
  using assms(1)
  by (rule integer_cases; (use assms(2) in \<open>rule integer_cases\<close>);
      simp add: integer_defs psubset_eq atLeastatMost_subset_iff)

theorem integer_widening_exact_witness:
  "widensKind TyUShort TyInt \<longleftrightarrow> {lowest TyUShort..highest TyUShort} \<subset> {lowest TyInt..highest TyInt}"
  by (rule integer_widening_exact) (simp_all add: isInteger_def)

text \<open>An integer type widens to \<open>float\<close> or \<open>double\<close> only when all its values are integers the
  floating point type represents exactly, and \<open>char\<close> never does.\<close>

theorem float_widening_exact:
  assumes "isInteger s" and "t = TyFloat \<or> t = TyDouble" and "widensKind s t"
  shows "s \<noteq> TyChar \<and> {lowest s..highest s} \<subseteq> {- (2 ^ mantissaBits t)..2 ^ mantissaBits t}"
  using assms(1)
  by (rule integer_cases; use assms(2,3) in \<open>auto simp: integer_defs\<close>)

theorem float_widening_exact_witness:
  "TyInt \<noteq> TyChar \<and> {lowest TyInt..highest TyInt} \<subseteq> {- (2 ^ mantissaBits TyDouble)..2 ^ mantissaBits TyDouble}"
  by (rule float_widening_exact) (simp_all add: integer_defs)

text \<open>\<open>decimal\<close> widens to \<open>float\<close>, although it is wider than it: its width counts as 0 bits. So a
  widening is not lossless as soon as \<open>decimal\<close> is involved: \<open>int\<close> widens to \<open>decimal\<close>, \<open>decimal\<close> to
  \<open>float\<close>, but \<open>int\<close> does not widen to \<open>float\<close>.\<close>

theorem decimal_widening_not_transitive:
  "widensKind TyInt TyDecimal \<and> widensKind TyDecimal TyFloat \<and> \<not> widensKind TyInt TyFloat"
  by (simp add: integer_defs)

text \<open>C29: an assignment between proper types never loses an optional level: a value of a type with more
  \<open>?\<close> levels is never accepted where fewer are expected.\<close>

theorem assignable_keeps_levels:
  assumes "typesOk h" and "t < length (h_types h)" and "s < length (h_types h)"
    and "kind h t \<noteq> TyError" and "kind h s \<noteq> TyError" and "assignableFrom h t (Some s)"
  shows "optionalDepth h s \<le> optionalDepth h t"
  using assms(6) unfolding assignableFrom_def by (rule assignable_depth [OF assms(1-5)])

text \<open>\<open>int\<close>, \<open>int?\<close> and \<open>int??\<close>.\<close>

definition intHeap :: Heap where
  "intHeap = \<lparr>h_types = [newType TyInt None, newType TyOptional (Some 0), newType TyOptional (Some 1)],
     h_structs = [], h_symbols = []\<rparr>"

theorem assignable_keeps_levels_witness:
  "assignableFrom intHeap 2 (Some 0) \<and> optionalDepth intHeap 0 \<le> optionalDepth intHeap 2"
proof
  show a: "assignableFrom intHeap 2 (Some 0)" by code_simp
  have "typesOk intHeap" "2 < length (h_types intHeap)" "0 < length (h_types intHeap)"
    "kind intHeap 2 \<noteq> TyError" "kind intHeap 0 \<noteq> TyError" by code_simp+
  from assignable_keeps_levels [OF this a] show "optionalDepth intHeap 0 \<le> optionalDepth intHeap 2" .
qed

text \<open>C28: on inheritance without cycles, the subtyping test behind implicit reference conversions is the
  specification: the reflexive transitive closure of \<open>extends\<close> for a class, and for an interface also
  what an ancestor implements, or what that interface extends.\<close>

theorem subtyping_is_closure:
  assumes "basesOk h" and "interfacesOk h" and "s < length (h_structs h)"
  shows "isSubclassOrConforms h s (Some b) \<longleftrightarrow>
    (if si_isInterface (si h b)
     then \<exists>c. (s, c) \<in> (baseRel h)\<^sup>* \<and> (c = b \<or> (\<exists>i \<in> interfacesOf h c. (i, b) \<in> (baseRel h)\<^sup>*))
     else (s, b) \<in> (baseRel h)\<^sup>*)"
  using subclass_ancestors [OF assms(1,3)] conforms_ancestors [OF assms] by (simp add: isSubclassOrConforms_def)

text \<open>A class 0 that extends class 1, which implements interface 2.\<close>

definition animalHeap :: Heap where
  "animalHeap = \<lparr>h_types = [(newType TyClass None)\<lparr>t_structInfo := Some 2\<rparr>],
     h_structs = [newStructInfo\<lparr>si_baseInfo := Some 1\<rparr>, newStructInfo\<lparr>si_implementedInterfaces := [Some 0]\<rparr>,
       newStructInfo\<lparr>si_isInterface := True\<rparr>],
     h_symbols = []\<rparr>"

lemma animalHeap_baseRel: "baseRel animalHeap = {(0, 1)}"
  by (auto simp: baseRel_def animalHeap_def si_def newStructInfo_def less_Suc_eq)

theorem subtyping_is_closure_witness:
  "isSubclassOrConforms animalHeap 0 (Some 2) \<and>
   (\<exists>c. (0, c) \<in> (baseRel animalHeap)\<^sup>* \<and>
      (c = 2 \<or> (\<exists>i \<in> interfacesOf animalHeap c. (i, 2) \<in> (baseRel animalHeap)\<^sup>*)))"
proof -
  have 1: "basesOk animalHeap"
    unfolding basesOk_def animalHeap_baseRel by (auto simp: acyclic_def trancl_insert animalHeap_def)
  have 2: "interfacesOk animalHeap"
    by (auto simp: interfacesOk_def interfacesOf_def structOf_def animalHeap_def si_def ty_def newStructInfo_def
        newType_def less_Suc_eq numeral_3_eq_3)
  have 3: "isSubclassOrConforms animalHeap 0 (Some 2)" and 4: "si_isInterface (si animalHeap 2)"
    and 5: "0 < length (h_structs animalHeap)" by code_simp+
  from subtyping_is_closure [OF 1 2 5, of 2] 3 4 show ?thesis by simp
qed

end
