(* ===== verification/TypeContext.thy ===== *)
theory TypeContext
  imports Types
begin

text \<open>
  The type context: \<open>semantic/TypeContext.h\<close> and \<open>semantic/TypeContext.cpp\<close>. It owns every type and struct
  of a program, interns types so that equal types are one object, and instantiates generic types.

  A member function that changes the context takes it as its last argument and returns it. The caches are
  maps; the vectors that own objects are the lists of the \<open>Heap\<close>.
\<close>

section \<open>The state\<close>

record InstantiationOverflow =
  io_templ :: "sid option"
  io_message :: string
  io_line :: int
  io_column :: int
  io_length :: int

record TypeContext = Heap +
  primitiveCache :: "TypeKind \<rightharpoonup> tid"
  optionalCache :: "tid \<rightharpoonup> tid"
  arrayCache :: "tid \<rightharpoonup> tid"
  functionCache :: "tid option list \<times> tid \<rightharpoonup> tid"
  structCache :: "u16string \<times> u16string \<rightharpoonup> tid"
  classCache :: "u16string \<times> u16string \<rightharpoonup> tid"
  externalCache :: "u16string \<times> u16string \<rightharpoonup> tid"
  enumCache :: "u16string \<times> u16string \<rightharpoonup> tid"
  typeParamCache :: "ParamOwner \<times> int \<rightharpoonup> tid"
  instantiationCache :: "sid \<times> tid option list \<rightharpoonup> tid"
  instantiationList :: "tid list"
  instanceTypes :: "sid \<rightharpoonup> tid"
  functionInstantiations :: "(symid \<times> tid option list) list"
  pendingInstantiations :: "(sid \<times> sid \<times> tid option list) list"
  instantiationChain :: "tid option list"
  instantiationOverflows :: "InstantiationOverflow list"
  errorType :: tid
  nullType :: tid

definition allocate :: "TypeKind \<Rightarrow> tid option \<Rightarrow> TypeContext \<Rightarrow> tid \<times> TypeContext" where
  "allocate k inner c = (length (h_types c), c\<lparr>h_types := h_types c @ [newType k inner]\<rparr>)"

definition emptyContext :: TypeContext where
  "emptyContext = \<lparr>h_types = [], h_structs = [], h_symbols = [], primitiveCache = Map.empty,
     optionalCache = Map.empty, arrayCache = Map.empty, functionCache = Map.empty, structCache = Map.empty,
     classCache = Map.empty, externalCache = Map.empty, enumCache = Map.empty, typeParamCache = Map.empty,
     instantiationCache = Map.empty, instantiationList = [], instanceTypes = Map.empty,
     functionInstantiations = [], pendingInstantiations = [], instantiationChain = [],
     instantiationOverflows = [], errorType = 0, nullType = 0\<rparr>"

definition mkTypeContext :: TypeContext where
  "mkTypeContext =
     (let (e, c1) = allocate TyError None emptyContext; (n, c2) = allocate TyNull None c1
      in c2\<lparr>errorType := e, nullType := n\<rparr>)"

definition updType :: "tid \<Rightarrow> (Type \<Rightarrow> Type) \<Rightarrow> TypeContext \<Rightarrow> TypeContext" where
  "updType t f c = c\<lparr>h_types := (h_types c)[t := f (ty c t)]\<rparr>"

definition updStruct :: "sid \<Rightarrow> (StructInfo \<Rightarrow> StructInfo) \<Rightarrow> TypeContext \<Rightarrow> TypeContext" where
  "updStruct s f c = c\<lparr>h_structs := (h_structs c)[s := f (si c s)]\<rparr>"

section \<open>Interned types\<close>

definition getPrimitive :: "TypeKind \<Rightarrow> TypeContext \<Rightarrow> tid \<times> TypeContext" where
  "getPrimitive k c =
     (case primitiveCache c k of
        Some t \<Rightarrow> (t, c)
      | None \<Rightarrow> let (t, c1) = allocate k None c in (t, c1\<lparr>primitiveCache := (primitiveCache c1)(k \<mapsto> t)\<rparr>))"

definition getOptional :: "tid option \<Rightarrow> TypeContext \<Rightarrow> tid \<times> TypeContext" where
  "getOptional inner c =
     (case inner of
        None \<Rightarrow> (errorType c, c)
      | Some i \<Rightarrow>
          if kind c i = TyError then (errorType c, c)
          else case optionalCache c i of
                 Some t \<Rightarrow> (t, c)
               | None \<Rightarrow> let (t, c1) = allocate TyOptional (Some i) c
                         in (t, c1\<lparr>optionalCache := (optionalCache c1)(i \<mapsto> t)\<rparr>))"

definition getArray :: "tid option \<Rightarrow> TypeContext \<Rightarrow> tid \<times> TypeContext" where
  "getArray element c =
     (case element of
        None \<Rightarrow> (errorType c, c)
      | Some e \<Rightarrow>
          if kind c e = TyError then (errorType c, c)
          else if kind c e = TyVoid then (errorType c, c)
          else case arrayCache c e of
                 Some t \<Rightarrow> (t, c)
               | None \<Rightarrow> let (t, c1) = allocate TyArray (Some e) c
                         in (t, c1\<lparr>arrayCache := (arrayCache c1)(e \<mapsto> t)\<rparr>))"

text \<open>\<open>!p || p->isError()\<close>\<close>

definition nullOrError :: "TypeContext \<Rightarrow> tid option \<Rightarrow> bool" where
  "nullOrError c p = (case p of None \<Rightarrow> True | Some t \<Rightarrow> kind c t = TyError)"

definition getFunction :: "tid option list \<Rightarrow> tid option \<Rightarrow> TypeContext \<Rightarrow> tid \<times> TypeContext" where
  "getFunction params returnType c =
     (case returnType of
        None \<Rightarrow> (errorType c, c)
      | Some r \<Rightarrow>
          if kind c r = TyError then (errorType c, c)
          else if list_ex (nullOrError c) params then (errorType c, c)
          else case functionCache c (params, r) of
                 Some t \<Rightarrow> (t, c)
               | None \<Rightarrow>
                   let (t, c1) = allocate TyFunction None c;
                       c2 = updType t (\<lambda>x. x\<lparr>t_functionParams := params, t_functionReturn := Some r\<rparr>) c1
                   in (t, c2\<lparr>functionCache := (functionCache c2)((params, r) \<mapsto> t)\<rparr>))"

definition PRIMITIVE_NAMES :: "(string \<times> TypeKind) list" where
  "PRIMITIVE_NAMES = [(''bool'', TyBool), (''byte'', TyByte), (''short'', TyShort), (''ushort'', TyUShort),
     (''int'', TyInt), (''uint'', TyUInt), (''long'', TyLong), (''ulong'', TyULong), (''float'', TyFloat),
     (''double'', TyDouble), (''decimal'', TyDecimal), (''char'', TyChar), (''string'', TyString),
     (''void'', TyVoid)]"

definition primitiveFromName :: "u16string \<Rightarrow> TypeContext \<Rightarrow> tid option \<times> TypeContext" where
  "primitiveFromName name c =
     (case map_of (map (\<lambda>(s, k). (u16 s, k)) PRIMITIVE_NAMES) name of
        None \<Rightarrow> (None, c)
      | Some k \<Rightarrow> let (t, c1) = getPrimitive k c in (Some t, c1))"

definition getTypeParam :: "ParamOwner \<Rightarrow> int \<Rightarrow> u16string \<Rightarrow> sid option list \<Rightarrow> TypeContext \<Rightarrow> tid \<times> TypeContext" where
  "getTypeParam owner index name bounds c =
     (let primary = (case find (\<lambda>b. case b of None \<Rightarrow> False | Some s \<Rightarrow> \<not> si_isInterface (si c s)) bounds of
                       Some b \<Rightarrow> b
                     | None \<Rightarrow> (case bounds of [] \<Rightarrow> None | b # _ \<Rightarrow> b))
      in case typeParamCache c (owner, index) of
           Some t \<Rightarrow>
             (t, updType t (\<lambda>x. x\<lparr>t_structInfo := (if primary \<noteq> None \<and> t_structInfo x = None then primary else t_structInfo x),
                                 t_paramBounds := (if bounds \<noteq> [] \<and> t_paramBounds x = [] then bounds else t_paramBounds x)\<rparr>) c)
         | None \<Rightarrow>
             let (t, c1) = allocate TyTypeParam None c;
                 c2 = updType t (\<lambda>x. x\<lparr>t_paramOwner := Some owner, t_paramIndex := index, t_paramName := name,
                                      t_structInfo := primary, t_paramBounds := bounds\<rparr>) c1
             in (t, c2\<lparr>typeParamCache := (typeParamCache c2)((owner, index) \<mapsto> t)\<rparr>))"

section \<open>Declared types\<close>

text \<open>A new struct, and a new type of the given kind that points to it.\<close>

definition addNominal :: "TypeKind \<Rightarrow> StructInfo \<Rightarrow> TypeContext \<Rightarrow> tid \<times> sid \<times> TypeContext" where
  "addNominal k info c =
     (let s = length (h_structs c);
          (t, c1) = allocate k None (c\<lparr>h_structs := h_structs c @ [info]\<rparr>)
      in (t, s, updType t (\<lambda>x. x\<lparr>t_structInfo := Some s\<rparr>) c1))"

definition registerStruct :: "u16string \<Rightarrow> u16string \<Rightarrow> TypeContext \<Rightarrow> tid \<times> TypeContext" where
  "registerStruct modulePath name c =
     (let (t, s, c1) = addNominal TyStruct
            (newStructInfo\<lparr>si_name := name, si_modulePath := modulePath, si_declKind := DkStruct\<rparr>) c
      in (t, c1\<lparr>structCache := (structCache c1)((modulePath, name) \<mapsto> t)\<rparr>))"

definition lookupStruct :: "TypeContext \<Rightarrow> u16string \<Rightarrow> u16string \<Rightarrow> tid option" where
  "lookupStruct c modulePath name = structCache c (modulePath, name)"

definition registerClass :: "u16string \<Rightarrow> u16string \<Rightarrow> TypeContext \<Rightarrow> tid \<times> TypeContext" where
  "registerClass modulePath name c =
     (let (t, s, c1) = addNominal TyClass (newStructInfo\<lparr>si_name := name, si_modulePath := modulePath\<rparr>) c
      in (t, c1\<lparr>classCache := (classCache c1)((modulePath, name) \<mapsto> t)\<rparr>))"

definition lookupClass :: "TypeContext \<Rightarrow> u16string \<Rightarrow> u16string \<Rightarrow> tid option" where
  "lookupClass c modulePath name = classCache c (modulePath, name)"

definition registerInterface :: "u16string \<Rightarrow> u16string \<Rightarrow> TypeContext \<Rightarrow> tid \<times> TypeContext" where
  "registerInterface modulePath name c =
     (let (t, c1) = registerClass modulePath name c
      in (t, case t_structInfo (ty c1 t) of None \<Rightarrow> c1
             | Some s \<Rightarrow> updStruct s (\<lambda>x. x\<lparr>si_declKind := DkInterface, si_isInterface := True, si_isAbstract := True\<rparr>) c1))"

definition bindPrimitive :: "tid option \<Rightarrow> u16string \<Rightarrow> u16string \<Rightarrow> TypeContext \<Rightarrow> sid option \<times> TypeContext" where
  "bindPrimitive primitive modulePath name c =
     (case primitive of
        None \<Rightarrow> (None, c)
      | Some t \<Rightarrow>
          if t_structInfo (ty c t) \<noteq> None then (None, c)
          else let s = length (h_structs c);
                   info = newStructInfo\<lparr>si_name := name, si_modulePath := modulePath, si_declKind := DkPrimitive\<rparr>
               in (Some s, updType t (\<lambda>x. x\<lparr>t_structInfo := Some s\<rparr>) (c\<lparr>h_structs := h_structs c @ [info]\<rparr>)))"

definition registerExternalType :: "u16string \<Rightarrow> u16string \<Rightarrow> TypeContext \<Rightarrow> tid \<times> TypeContext" where
  "registerExternalType modulePath name c =
     (let (t, s, c1) = addNominal TyExternal
            (newStructInfo\<lparr>si_name := name, si_modulePath := modulePath, si_declKind := DkExternal\<rparr>) c
      in (t, c1\<lparr>externalCache := (externalCache c1)((modulePath, name) \<mapsto> t)\<rparr>))"

definition lookupExternalType :: "TypeContext \<Rightarrow> u16string \<Rightarrow> u16string \<Rightarrow> tid option" where
  "lookupExternalType c modulePath name = externalCache c (modulePath, name)"

definition registerEnum :: "u16string \<Rightarrow> u16string \<Rightarrow> TypeContext \<Rightarrow> tid \<times> TypeContext" where
  "registerEnum modulePath name c =
     (let (t, s, c1) = addNominal TyEnum
            (newStructInfo\<lparr>si_name := name, si_modulePath := modulePath, si_declKind := DkEnum\<rparr>) c
      in (t, c1\<lparr>enumCache := (enumCache c1)((modulePath, name) \<mapsto> t)\<rparr>))"

definition lookupEnum :: "TypeContext \<Rightarrow> u16string \<Rightarrow> u16string \<Rightarrow> tid option" where
  "lookupEnum c modulePath name = enumCache c (modulePath, name)"

definition registeredClasses :: "TypeContext \<Rightarrow> sid list" where
  "registeredClasses c =
     filter (\<lambda>s. si_declKind (si c s) = DkClass \<and> \<not> si_isInterface (si c s)) [0..<length (h_structs c)]"

definition lookupNamedType :: "TypeContext \<Rightarrow> u16string \<Rightarrow> u16string \<Rightarrow> tid option" where
  "lookupNamedType c modulePath name =
     (case lookupStruct c modulePath name of Some t \<Rightarrow> Some t
      | None \<Rightarrow> (case lookupClass c modulePath name of Some t \<Rightarrow> Some t
      | None \<Rightarrow> (case lookupEnum c modulePath name of Some t \<Rightarrow> Some t
      | None \<Rightarrow> lookupExternalType c modulePath name)))"

definition typeForInstance :: "TypeContext \<Rightarrow> sid \<Rightarrow> tid option" where
  "typeForInstance c inst = instanceTypes c inst"

definition classTypeFor :: "TypeContext \<Rightarrow> sid option \<Rightarrow> tid option" where
  "classTypeFor c info =
     (case info of None \<Rightarrow> None
      | Some s \<Rightarrow> (case typeForInstance c s of Some t \<Rightarrow> Some t
                   | None \<Rightarrow> lookupClass c (si_modulePath (si c s)) (si_name (si c s))))"

text \<open>Moving a vector out leaves it empty.\<close>

definition takeInstantiationOverflows :: "TypeContext \<Rightarrow> InstantiationOverflow list \<times> TypeContext" where
  "takeInstantiationOverflows c = (instantiationOverflows c, c\<lparr>instantiationOverflows := []\<rparr>)"

definition recordFunctionInstantiation :: "symid \<Rightarrow> tid option list \<Rightarrow> TypeContext \<Rightarrow> TypeContext" where
  "recordFunctionInstantiation fn args c =
     (if list_ex (\<lambda>(f, as). f = fn \<and> as = args) (functionInstantiations c) then c
      else c\<lparr>functionInstantiations := functionInstantiations c @ [(fn, args)]\<rparr>)"

section \<open>Instantiation\<close>

definition kMaxInstantiationDepth :: nat where
  "kMaxInstantiationDepth = 200"

text \<open>A loop that threads the context and collects its results.\<close>

primrec mapS :: "('a \<Rightarrow> 's \<Rightarrow> 'b \<times> 's) \<Rightarrow> 'a list \<Rightarrow> 's \<Rightarrow> 'b list \<times> 's" where
  "mapS f [] c = ([], c)"
| "mapS f (x # xs) c = (let (y, c1) = f x c; (ys, c2) = mapS f xs c1 in (y # ys, c2))"

type_synonym instantiator = "sid \<Rightarrow> TypeKind \<Rightarrow> tid option list \<Rightarrow> TypeContext \<Rightarrow> tid \<times> TypeContext"

text \<open>\<open>substitute\<close>, with the call to \<open>instantiateInternal\<close> as an argument. Its own recursion goes to types
  allocated before \<open>t\<close>.\<close>

primrec substituteF :: "nat \<Rightarrow> instantiator \<Rightarrow> ParamOwner \<Rightarrow> tid option list \<Rightarrow> tid option \<Rightarrow> TypeContext \<Rightarrow>
    tid option \<times> TypeContext" where
  "substituteF 0 inst owner args t c = (t, c)"
| "substituteF (Suc n) inst owner args t c =
     (case t of
        None \<Rightarrow> (None, c)
      | Some i \<Rightarrow>
          (let x = ty c i; sub = substituteF n inst owner args in
           case t_kind x of
             TyTypeParam \<Rightarrow>
               (if t_paramOwner x = Some owner \<and> t_paramIndex x \<ge> 0 \<and> t_paramIndex x < int (length args)
                then (args ! nat (t_paramIndex x), c) else (t, c))
           | TyArray \<Rightarrow> (let (e, c1) = sub (t_inner x) c; (r, c2) = getArray e c1 in (Some r, c2))
           | TyOptional \<Rightarrow> (let (e, c1) = sub (t_inner x) c; (r, c2) = getOptional e c1 in (Some r, c2))
           | TyFunction \<Rightarrow>
               (let (params, c1) = mapS sub (t_functionParams x) c;
                    (ret, c2) = sub (t_functionReturn x) c1;
                    (r, c3) = getFunction params ret c2
                in (Some r, c3))
           | k \<Rightarrow>
               if k \<in> {TyStruct, TyClass} then
                 (case t_structInfo x of
                    None \<Rightarrow> (t, c)
                  | Some s \<Rightarrow>
                      (case si_templateOf (si c s) of
                         None \<Rightarrow> (t, c)
                       | Some templ \<Rightarrow>
                           (let typeArgs = si_typeArgs (si c s); (newArgs, c1) = mapS sub typeArgs c in
                            if newArgs = typeArgs then (t, c1)
                            else let (r, c2) = inst templ k newArgs c1 in (Some r, c2))))
               else (t, c)))"

definition substituteWith :: "instantiator \<Rightarrow> ParamOwner \<Rightarrow> tid option list \<Rightarrow> tid option \<Rightarrow> TypeContext \<Rightarrow>
    tid option \<times> TypeContext" where
  "substituteWith inst owner args t c = substituteF (Suc (length (h_types c))) inst owner args t c"

text \<open>\<open>fillInstantiation\<close>: the base, the interfaces, the fields and the methods, each with the template's
  parameters substituted.\<close>

definition fillBase :: "instantiator \<Rightarrow> sid \<Rightarrow> StructInfo \<Rightarrow> ParamOwner \<Rightarrow> tid option list \<Rightarrow> TypeContext \<Rightarrow> TypeContext" where
  "fillBase inst s templ owner args c =
     (let c1 = updStruct s (\<lambda>x. x\<lparr>si_baseInfo := si_baseInfo templ, si_baseFieldCount := si_baseFieldCount templ,
                                 si_vtableSize := si_vtableSize templ\<rparr>) c
      in case si_baseInfo templ of
           None \<Rightarrow> c1
         | Some b \<Rightarrow>
             (case si_templateOf (si c1 b) of
                None \<Rightarrow> c1
              | Some bt \<Rightarrow>
                  (let (baseArgs, c2) = mapS (substituteWith inst owner args) (si_typeArgs (si c1 b)) c1;
                       (concreteBase, c3) = inst bt TyClass baseArgs c2
                   in case t_structInfo (ty c3 concreteBase) of
                        None \<Rightarrow> c3
                      | Some cb \<Rightarrow> updStruct s (\<lambda>x. x\<lparr>si_baseInfo := Some cb\<rparr>) c3)))"

definition fillInterface :: "instantiator \<Rightarrow> sid \<Rightarrow> ParamOwner \<Rightarrow> tid option list \<Rightarrow> tid option \<Rightarrow> TypeContext \<Rightarrow> TypeContext" where
  "fillInterface inst s owner args ifaceT c =
     (let (r, c1) = substituteWith inst owner args ifaceT c
      in updStruct s (\<lambda>x. x\<lparr>si_implementedInterfaces := si_implementedInterfaces x @ [r]\<rparr>) c1)"

definition fillField :: "instantiator \<Rightarrow> sid \<Rightarrow> ParamOwner \<Rightarrow> tid option list \<Rightarrow> FieldInfo \<Rightarrow> TypeContext \<Rightarrow> TypeContext" where
  "fillField inst s owner args f c =
     (let (r, c1) = substituteWith inst owner args (fi_type f) c
      in updStruct s (\<lambda>x. x\<lparr>si_fields := si_fields x @ [f\<lparr>fi_type := r, fi_definingClass := Some s\<rparr>]\<rparr>) c1)"

definition fillMethod :: "instantiator \<Rightarrow> sid \<Rightarrow> ParamOwner \<Rightarrow> tid option list \<Rightarrow> MethodInfo \<Rightarrow> TypeContext \<Rightarrow> TypeContext" where
  "fillMethod inst s owner args m c =
     (let push = (\<lambda>nm. updStruct s (\<lambda>x. x\<lparr>si_methods := si_methods x @ [nm]\<rparr>)) in
      case mi_symbol m of
        None \<Rightarrow> push (m\<lparr>mi_definingClass := Some s\<rparr>) c
      | Some y \<Rightarrow>
          (let copied = (sym c y)\<lparr>sy_methodOwner := Some s\<rparr>;
               (pts, c1) = mapS (substituteWith inst owner args) (sy_paramTypes copied) c;
               (rt, c2) = substituteWith inst owner args (sy_returnType copied) c1;
               y' = length (h_symbols c2);
               c3 = c2\<lparr>h_symbols := h_symbols c2 @ [copied\<lparr>sy_paramTypes := pts, sy_returnType := rt\<rparr>]\<rparr>
           in push (m\<lparr>mi_definingClass := Some s, mi_symbol := Some y'\<rparr>) c3))"

definition fillInstantiation :: "instantiator \<Rightarrow> sid \<Rightarrow> sid \<Rightarrow> tid option list \<Rightarrow> TypeContext \<Rightarrow> TypeContext" where
  "fillInstantiation inst s templ args c =
     (let owner = OwnerStruct templ; T = si c templ;
          c1 = c\<lparr>instantiationChain := instantiationChain c @ [instanceTypes c s]\<rparr>;
          c2 = fillBase inst s T owner args c1;
          c3 = updStruct s (\<lambda>x. x\<lparr>si_implementedInterfaces := []\<rparr>) c2;
          c4 = fold (fillInterface inst s owner args) (si_implementedInterfaces T) c3;
          c5 = fold (fillField inst s owner args) (si_fields T) c4;
          c6 = fold (fillMethod inst s owner args) (si_methods T) c5
      in c6\<lparr>instantiationChain := butlast (instantiationChain c6)\<rparr>)"

text \<open>Reporting a chain that does not end.\<close>

primrec fieldReferencesTemplateF :: "nat \<Rightarrow> TypeContext \<Rightarrow> tid option \<Rightarrow> sid \<Rightarrow> bool" where
  "fieldReferencesTemplateF 0 c t templ = False"
| "fieldReferencesTemplateF (Suc n) c t templ =
     (case t of
        None \<Rightarrow> False
      | Some i \<Rightarrow>
          (case kind c i of
             TyOptional \<Rightarrow> fieldReferencesTemplateF n c (t_inner (ty c i)) templ
           | TyArray \<Rightarrow> fieldReferencesTemplateF n c (t_inner (ty c i)) templ
           | k \<Rightarrow> k \<in> {TyStruct, TyClass} \<and>
               (case t_structInfo (ty c i) of
                  None \<Rightarrow> False
                | Some s \<Rightarrow> si_templateOf (si c s) = Some templ \<or>
                    list_ex (\<lambda>a. fieldReferencesTemplateF n c a templ) (si_typeArgs (si c s)))))"

definition fieldReferencesTemplate :: "TypeContext \<Rightarrow> tid option \<Rightarrow> sid \<Rightarrow> bool" where
  "fieldReferencesTemplate c t templ = fieldReferencesTemplateF (Suc (length (h_types c))) c t templ"

definition recordInstantiationOverflow :: "TypeContext \<Rightarrow> TypeContext" where
  "recordInstantiationOverflow c =
     (let root = instantiationChain c ! 0; first = instantiationChain c ! 1; second = instantiationChain c ! 2;
          show = (\<lambda>t. case t of None \<Rightarrow> ''?'' | Some i \<Rightarrow> typeToString c i);
          templ = (case structOf c root of None \<Rightarrow> None | Some s \<Rightarrow> si_templateOf (si c s))
      in if list_ex (\<lambda>ov. io_templ ov = templ) (instantiationOverflows c) then c
         else
           let q = [CHR 0x27];
               message = ''Instantiating '' @ q @ show root @ q @ '' never finishes: each instantiation requires another ('' @
                 q @ show root @ q @ '' needs '' @ q @ show first @ q @ '', which needs '' @ q @ show second @ q @
                 '', ...). Break the recursive type argument.'';
               (l, col, len) =
                 (case templ of
                    None \<Rightarrow> (0, 0, 1)
                  | Some m \<Rightarrow>
                      (case find (\<lambda>f. fieldReferencesTemplate c (fi_type f) m) (si_fields (si c m)) of
                         None \<Rightarrow> (si_line (si c m), si_column (si c m), 1)
                       | Some f \<Rightarrow> (fi_line f, fi_column f, int (length (fi_name f)))))
           in c\<lparr>instantiationOverflows := instantiationOverflows c @
                  [\<lparr>io_templ = templ, io_message = message, io_line = l, io_column = col, io_length = len\<rparr>]\<rparr>)"

text \<open>The shell of an instantiation, registered before it is filled.\<close>

definition instanceShell :: "StructInfo \<Rightarrow> sid \<Rightarrow> tid option list \<Rightarrow> StructInfo" where
  "instanceShell T templ args = newStructInfo\<lparr>si_name := si_name T, si_modulePath := si_modulePath T,
     si_packagePrefix := si_packagePrefix T, si_declKind := si_declKind T, si_visibility := si_visibility T,
     si_isAbstract := si_isAbstract T, si_isFinal := si_isFinal T, si_isSealed := si_isSealed T,
     si_isInterface := si_isInterface T, si_templateOf := Some templ, si_typeArgs := args,
     si_baseInfo := si_baseInfo T, si_baseFieldCount := si_baseFieldCount T\<rparr>"

text \<open>The first argument is how many levels of instantiation may still nest; the length of the chain, which
  the source tests, cuts off before it runs out.\<close>

primrec instantiateD :: "nat \<Rightarrow> instantiator" where
  "instantiateD 0 templ k args c =
     (case instantiationCache c (templ, args) of
        Some t \<Rightarrow> (t, c)
      | None \<Rightarrow> (errorType c, recordInstantiationOverflow c))"
| "instantiateD (Suc d) templ k args c =
     (case instantiationCache c (templ, args) of
        Some t \<Rightarrow> (t, c)
      | None \<Rightarrow>
          if length (instantiationChain c) \<ge> kMaxInstantiationDepth then (errorType c, recordInstantiationOverflow c)
          else
            let (t, s, c1) = addNominal k (instanceShell (si c templ) templ args) c;
                c2 = c1\<lparr>instantiationCache := (instantiationCache c1)((templ, args) \<mapsto> t),
                        instantiationList := instantiationList c1 @ [t],
                        instanceTypes := (instanceTypes c1)(s \<mapsto> t)\<rparr>
            in (t, if si_membersCollected (si c2 templ)
                   then fillInstantiation (instantiateD d) s templ args c2
                   else c2\<lparr>pendingInstantiations := pendingInstantiations c2 @ [(s, templ, args)]\<rparr>))"

definition instantiateInternal :: instantiator where
  "instantiateInternal templ k args c =
     instantiateD (Suc kMaxInstantiationDepth - length (instantiationChain c)) templ k args c"

definition instantiate :: "tid option \<Rightarrow> tid option list \<Rightarrow> TypeContext \<Rightarrow> tid \<times> TypeContext" where
  "instantiate templateType args c =
     (case templateType of
        None \<Rightarrow> (errorType c, c)
      | Some t \<Rightarrow> (case t_structInfo (ty c t) of None \<Rightarrow> (errorType c, c)
                   | Some s \<Rightarrow> instantiateInternal s (kind c t) args c))"

definition substitute :: "tid option \<Rightarrow> ParamOwner \<Rightarrow> tid option list \<Rightarrow> TypeContext \<Rightarrow> tid option \<times> TypeContext" where
  "substitute t owner args c = substituteWith instantiateInternal owner args t c"

definition materializeStep :: "TypeContext \<Rightarrow> TypeContext" where
  "materializeStep c =
     (let (s, templ, args) = last (pendingInstantiations c)
      in fillInstantiation instantiateInternal s templ args (c\<lparr>pendingInstantiations := butlast (pendingInstantiations c)\<rparr>))"

definition materializeInstantiations :: "TypeContext \<Rightarrow> (bool \<times> TypeContext) option" where
  "materializeInstantiations c =
     map_option (Pair (pendingInstantiations c \<noteq> []))
       (whileP (\<lambda>c. pendingInstantiations c \<noteq> []) (\<lambda>c. Some (materializeStep c)) c)"

definition refreshMethod :: "sid \<Rightarrow> sid \<Rightarrow> nat \<Rightarrow> TypeContext \<Rightarrow> TypeContext" where
  "refreshMethod s templ i c =
     (let tm = si_methods (si c templ) ! i;
          c1 = updStruct s (\<lambda>x. x\<lparr>si_methods := (si_methods x)[i := (si_methods x ! i)\<lparr>mi_vtableSlot := mi_vtableSlot tm\<rparr>]\<rparr>) c
      in case (mi_symbol (si_methods (si c1 s) ! i), mi_symbol tm) of
           (Some y, Some y') \<Rightarrow>
             c1\<lparr>h_symbols := (h_symbols c1)[y := (sym c1 y)\<lparr>sy_abiThrows := sy_abiThrows (sym c1 y')\<rparr>]\<rparr>
         | _ \<Rightarrow> c1)"

definition refreshInstance :: "tid \<Rightarrow> TypeContext \<Rightarrow> TypeContext" where
  "refreshInstance t c =
     (case t_structInfo (ty c t) of
        None \<Rightarrow> c
      | Some s \<Rightarrow>
          (case si_templateOf (si c s) of
             None \<Rightarrow> c
           | Some templ \<Rightarrow>
               let c1 = updStruct s (\<lambda>x. x\<lparr>si_vtableSize := si_vtableSize (si c templ)\<rparr>) c;
                   n = min (length (si_methods (si c1 s))) (length (si_methods (si c1 templ)))
               in fold (refreshMethod s templ) [0..<n] c1))"

definition refreshInstantiationInheritance :: "TypeContext \<Rightarrow> TypeContext" where
  "refreshInstantiationInheritance c = fold refreshInstance (instantiationList c) c"

definition ensureFilled :: "sid \<Rightarrow> TypeContext \<Rightarrow> TypeContext" where
  "ensureFilled s c =
     (let earlier = takeWhile (\<lambda>(i, _). i \<noteq> s) (pendingInstantiations c);
          rest = dropWhile (\<lambda>(i, _). i \<noteq> s) (pendingInstantiations c)
      in case rest of
           [] \<Rightarrow> c
         | (i, templ, args) # later \<Rightarrow>
             if \<not> si_membersCollected (si c templ) then c
             else fillInstantiation instantiateInternal i templ args (c\<lparr>pendingInstantiations := earlier @ later\<rparr>))"

primrec containsTypeParamF :: "nat \<Rightarrow> ('x) Heap_scheme \<Rightarrow> tid option \<Rightarrow> bool" where
  "containsTypeParamF 0 c t = False"
| "containsTypeParamF (Suc n) c t =
     (case t of
        None \<Rightarrow> False
      | Some i \<Rightarrow>
          (case kind c i of
             TyTypeParam \<Rightarrow> True
           | TyArray \<Rightarrow> containsTypeParamF n c (t_inner (ty c i))
           | TyOptional \<Rightarrow> containsTypeParamF n c (t_inner (ty c i))
           | TyFunction \<Rightarrow> list_ex (containsTypeParamF n c) (t_functionParams (ty c i)) \<or>
                           containsTypeParamF n c (t_functionReturn (ty c i))
           | k \<Rightarrow> k \<in> {TyStruct, TyClass} \<and>
               (case t_structInfo (ty c i) of
                  None \<Rightarrow> False
                | Some s \<Rightarrow> si_templateOf (si c s) \<noteq> None \<and>
                    list_ex (containsTypeParamF n c) (si_typeArgs (si c s)))))"

definition containsTypeParam :: "('x) Heap_scheme \<Rightarrow> tid option \<Rightarrow> bool" where
  "containsTypeParam c t = containsTypeParamF (Suc (length (h_types c))) c t"

end
