(* ===== verification/TypeInterning.thy ===== *)
theory TypeInterning
  imports TypeContext
begin

text \<open>
  The type context is a table of unique objects: whatever sequence of operations built it, two types that
  are equal by \<open>Type::equals\<close> are the same object. The shape of a type is what makes it unique; the invariant
  says that the caches hold exactly one type for every shape in use.
\<close>

section \<open>Shapes\<close>

datatype Shape =
    ShPlain TypeKind
  | ShOptional "tid option"
  | ShArray "tid option"
  | ShFunction "tid option list" "tid option"
  | ShParam "ParamOwner option" int
  | ShNominal TypeKind "sid option"

definition nominalKinds :: "TypeKind set" where
  "nominalKinds = {TyStruct, TyClass, TyEnum, TyExternal}"

definition shapeOf :: "Type \<Rightarrow> Shape" where
  "shapeOf x =
     (if t_kind x = TyOptional then ShOptional (t_inner x)
      else if t_kind x = TyArray then ShArray (t_inner x)
      else if t_kind x = TyFunction then ShFunction (t_functionParams x) (t_functionReturn x)
      else if t_kind x = TyTypeParam then ShParam (t_paramOwner x) (t_paramIndex x)
      else if t_kind x \<in> nominalKinds then ShNominal (t_kind x) (t_structInfo x)
      else ShPlain (t_kind x))"

fun shapeKind :: "Shape \<Rightarrow> TypeKind" where
  "shapeKind (ShPlain k) = k"
| "shapeKind (ShOptional i) = TyOptional"
| "shapeKind (ShArray i) = TyArray"
| "shapeKind (ShFunction ps r) = TyFunction"
| "shapeKind (ShParam ow i) = TyTypeParam"
| "shapeKind (ShNominal k s) = k"

lemma shapeKind_shapeOf [simp]: "shapeKind (shapeOf x) = t_kind x"
  by (simp add: shapeOf_def)

lemma shape_kind: "shapeOf x = shapeOf y \<Longrightarrow> t_kind x = t_kind y"
  by (metis shapeKind_shapeOf)

text \<open>The type the caches have for a shape. A declared type has no such entry: it is unique because its struct
  is new.\<close>

fun lookupShape :: "TypeContext \<Rightarrow> Shape \<Rightarrow> tid option" where
  "lookupShape c (ShPlain k) =
     (if k = TyError then Some (errorType c) else if k = TyNull then Some (nullType c) else primitiveCache c k)"
| "lookupShape c (ShOptional p) = (case p of None \<Rightarrow> None | Some i \<Rightarrow> optionalCache c i)"
| "lookupShape c (ShArray p) = (case p of None \<Rightarrow> None | Some i \<Rightarrow> arrayCache c i)"
| "lookupShape c (ShFunction ps p) = (case p of None \<Rightarrow> None | Some r \<Rightarrow> functionCache c (ps, r))"
| "lookupShape c (ShParam p i) = (case p of None \<Rightarrow> None | Some ow \<Rightarrow> typeParamCache c (ow, i))"
| "lookupShape c (ShNominal k s) = None"

definition nominalType :: "Type \<Rightarrow> bool" where
  "nominalType x \<longleftrightarrow> t_kind x \<in> nominalKinds"

definition interned :: "TypeContext \<Rightarrow> bool" where
  "interned c \<longleftrightarrow> typesOk c \<and>
     (\<forall>t < length (h_types c). if nominalType (ty c t)
        then \<exists>s < length (h_structs c). t_structInfo (ty c t) = Some s
        else lookupShape c (shapeOf (ty c t)) = Some t) \<and>
     (\<forall>sh t. lookupShape c sh = Some t \<longrightarrow> t < length (h_types c) \<and> shapeOf (ty c t) = sh) \<and>
     (\<forall>t < length (h_types c). \<forall>u < length (h_types c). nominalType (ty c t) \<longrightarrow>
        shapeOf (ty c t) = shapeOf (ty c u) \<longrightarrow> t = u)"

lemma interned_D:
  assumes "interned c"
  shows "typesOk c"
    and "\<And>t. t < length (h_types c) \<Longrightarrow> \<not> nominalType (ty c t) \<Longrightarrow> lookupShape c (shapeOf (ty c t)) = Some t"
    and "\<And>t. t < length (h_types c) \<Longrightarrow> nominalType (ty c t) \<Longrightarrow>
      \<exists>s < length (h_structs c). t_structInfo (ty c t) = Some s"
    and "\<And>sh t. lookupShape c sh = Some t \<Longrightarrow> t < length (h_types c) \<and> shapeOf (ty c t) = sh"
    and "\<And>t u. t < length (h_types c) \<Longrightarrow> u < length (h_types c) \<Longrightarrow> nominalType (ty c t) \<Longrightarrow>
      shapeOf (ty c t) = shapeOf (ty c u) \<Longrightarrow> t = u"
proof -
  note a = assms [unfolded interned_def]
  note b = a [THEN conjunct2, THEN conjunct1] and d = a [THEN conjunct2, THEN conjunct2]
  show "typesOk c" using a by (rule conjunct1)
  show "lookupShape c (shapeOf (ty c t)) = Some t" if "t < length (h_types c)" "\<not> nominalType (ty c t)" for t
    using b that by presburger
  show "\<exists>s < length (h_structs c). t_structInfo (ty c t) = Some s"
    if "t < length (h_types c)" "nominalType (ty c t)" for t using b that by presburger
  show "t < length (h_types c) \<and> shapeOf (ty c t) = sh" if "lookupShape c sh = Some t" for sh t
    using d [THEN conjunct1] that by blast
  show "t = u" if "t < length (h_types c)" "u < length (h_types c)" "nominalType (ty c t)"
      "shapeOf (ty c t) = shapeOf (ty c u)" for t u
    using that by (rule d [THEN conjunct2, rule_format])
qed

text \<open>One object per shape.\<close>

lemma interned_unique:
  assumes "interned c" and "t < length (h_types c)" and "u < length (h_types c)"
    and "shapeOf (ty c t) = shapeOf (ty c u)"
  shows "t = u"
proof (cases "nominalType (ty c t)")
  case True
  with interned_D(5) [OF assms(1-3)] assms(4) show ?thesis by simp
next
  case False
  then have "\<not> nominalType (ty c u)" using shape_kind [OF assms(4)] by (simp add: nominalType_def)
  from interned_D(2) [OF assms(1,3) this] interned_D(2) [OF assms(1,2) False] assms(4) show ?thesis by simp
qed

lemma bothPointers_eq:
  "bothPointers P p q \<Longrightarrow> (\<And>i j. p = Some i \<Longrightarrow> q = Some j \<Longrightarrow> P i j \<Longrightarrow> i = j) \<Longrightarrow> p = q"
  by (cases p; cases q) auto

lemma pointers_eq:
  assumes "length ps = length qs" and "list_all (\<lambda>(p, q). bothPointers P p q) (zip ps qs)"
    and "\<And>i j. Some i \<in> set ps \<Longrightarrow> Some j \<in> set qs \<Longrightarrow> P i j \<Longrightarrow> i = j"
  shows "ps = qs"
  using assms by (induction ps qs rule: list_induct2) (auto dest: bothPointers_eq)

lemma equalsF_identity:
  assumes "interned c"
  shows "a < length (h_types c) \<Longrightarrow> b < length (h_types c) \<Longrightarrow> equalsF n c a b \<Longrightarrow> a = b"
proof (induction n arbitrary: a b)
  case (Suc n)
  show ?case
  proof (rule ccontr)
    assume ne: "a \<noteq> b"
    with Suc.prems have k: "kind c a = kind c b" by (auto simp: Let_def split: if_splits)
    note ok = typesOk_D [OF interned_D(1) [OF assms] Suc.prems(1)] typesOk_D [OF interned_D(1) [OF assms] Suc.prems(2)]
    have below: "bothPointers (equalsF n c) p q \<Longrightarrow> p = q" if "pointsBelow c a p" "pointsBelow c b q" for p q
      using that Suc.prems Suc.IH by (auto simp: pointsBelow_def elim!: bothPointers_eq split: option.splits)
    have "shapeOf (ty c a) = shapeOf (ty c b)"
    proof (cases "kind c a = TyFunction")
      case True
      with Suc.prems(3) ne k have f: "length (t_functionParams (ty c a)) = length (t_functionParams (ty c b))"
        "list_all (\<lambda>(p, q). bothPointers (equalsF n c) p q) (zip (t_functionParams (ty c a)) (t_functionParams (ty c b)))"
        "bothPointers (equalsF n c) (t_functionReturn (ty c a)) (t_functionReturn (ty c b))"
        by (auto simp: Let_def)
      have valid: "i < length (h_types c)" if "Some i \<in> set (t_functionParams (ty c x))" "x = a \<or> x = b" for i x
        using that ok True k Suc.prems(1,2) by (auto simp: typeOk_def list_all_iff pointsBelow_def)
      have "t_functionParams (ty c a) = t_functionParams (ty c b)"
        by (rule pointers_eq [OF f(1,2)]) (use valid Suc.IH in blast)
      moreover have "t_functionReturn (ty c a) = t_functionReturn (ty c b)"
        using below [OF _ _ f(3)] ok True k by (auto simp: typeOk_def)
      ultimately show ?thesis using True k by (simp add: shapeOf_def)
    next
      case False
      with Suc.prems(3) ne k below ok show ?thesis
        by (auto simp: shapeOf_def Let_def nominalKinds_def typeOk_def split: if_splits)
    qed
    with interned_unique [OF assms Suc.prems(1,2)] ne show False by simp
  qed
qed simp

lemma equalsF_refl: "equalsF n h a a"
  by (cases n) simp_all

lemma equals_identity:
  "interned c \<Longrightarrow> a < length (h_types c) \<Longrightarrow> b < length (h_types c) \<Longrightarrow> equals c a (Some b) \<longleftrightarrow> a = b"
  using equalsF_identity equalsF_refl by (auto simp: equals_def simp del: equalsF.simps)

section \<open>Adding and changing types\<close>

lemma typesOk_append:
  assumes "typesOk c" and "h_types c' = h_types c @ [x]" and "typeOk c' (length (h_types c))"
  shows "typesOk c'"
proof -
  have "typeOk c' t" if t: "t < length (h_types c)" for t
  proof -
    have "ty c' i = ty c i" if "i < length (h_types c)" for i using that assms(2) by (simp add: ty_def nth_append)
    moreover have "pointsBelow c' t p = pointsBelow c t p" for p
      using calculation t by (auto simp: pointsBelow_def split: option.splits)
    then have "pointsBelow c' t = pointsBelow c t" by (rule ext)
    ultimately show ?thesis using typesOk_D [OF assms(1) t] t by (simp add: typeOk_def)
  qed
  with assms(2,3) show ?thesis by (auto simp: typesOk_def list_all_iff less_Suc_eq)
qed

lemma interned_insert:
  assumes c: "interned c" and types: "h_types c' = h_types c @ [x]"
    and structs: "length (h_structs c) \<le> length (h_structs c')"
    and sh: "\<not> nominalType x" and new: "lookupShape c (shapeOf x) = None"
    and lookup: "lookupShape c' = (lookupShape c)(shapeOf x \<mapsto> length (h_types c))"
    and ok: "typeOk c' (length (h_types c))"
  shows "interned c'"
proof -
  let ?n = "length (h_types c)"
  have old: "ty c' t = ty c t" if "t < ?n" for t using that types by (simp add: ty_def nth_append)
  have x: "ty c' ?n = x" using types by (simp add: ty_def)
  have other: "shapeOf (ty c t) \<noteq> shapeOf x" if t: "t < ?n" for t
  proof
    assume e: "shapeOf (ty c t) = shapeOf x"
    then have "\<not> nominalType (ty c t)" using sh shape_kind [OF e] by (simp add: nominalType_def)
    with interned_D(2) [OF c t] e new show False by simp
  qed
  have len: "length (h_types c') = Suc ?n" using types by simp
  show ?thesis unfolding interned_def
  proof (intro conjI allI impI)
    show "typesOk c'" by (rule typesOk_append [OF interned_D(1) [OF c] types ok])
  next
    fix t
    assume "t < length (h_types c')"
    then consider "t < ?n" | "t = ?n" using len by linarith
    then show "if nominalType (ty c' t) then \<exists>s<length (h_structs c'). t_structInfo (ty c' t) = Some s
        else lookupShape c' (shapeOf (ty c' t)) = Some t"
    proof cases
      case 1
      then show ?thesis using old other interned_D(2,3) [OF c 1] structs lookup by (auto intro: less_le_trans)
    next
      case 2
      then show ?thesis using x sh lookup by simp
    qed
  next
    fix sh' t
    assume l: "lookupShape c' sh' = Some t"
    have "t < length (h_types c') \<and> shapeOf (ty c' t) = sh'"
    proof (cases "sh' = shapeOf x")
      case True
      then show ?thesis using l lookup x len by simp
    next
      case False
      then have "lookupShape c sh' = Some t" using l lookup by simp
      from interned_D(4) [OF c this] show ?thesis using old len by simp
    qed
    then show "t < length (h_types c')" "shapeOf (ty c' t) = sh'" by simp_all
  next
    fix t u
    assume t: "t < length (h_types c')" and u: "u < length (h_types c')" and nom: "nominalType (ty c' t)"
      and e: "shapeOf (ty c' t) = shapeOf (ty c' u)"
    have "t < ?n" using t nom len x sh by (metis less_SucE)
    moreover have "u < ?n"
    proof (rule ccontr)
      assume "\<not> u < ?n"
      then have "u = ?n" using u len by simp
      with e nom sh x shape_kind [OF e] show False by (simp add: nominalType_def)
    qed
    ultimately show "t = u" using interned_D(5) [OF c] old nom e by simp
  qed
qed

lemma interned_update:
  assumes c: "interned c" and len: "length (h_types c') = length (h_types c)"
    and structs: "length (h_structs c) \<le> length (h_structs c')"
    and shapes: "\<And>t. t < length (h_types c) \<Longrightarrow> shapeOf (ty c' t) = shapeOf (ty c t)"
    and info: "\<And>t. t < length (h_types c) \<Longrightarrow> kind c t \<in> {TyOptional, TyArray} \<Longrightarrow>
      t_structInfo (ty c' t) = t_structInfo (ty c t)"
    and lookup: "lookupShape c' = lookupShape c"
  shows "interned c'"
proof -
  have k: "kind c' t = kind c t" if "t < length (h_types c)" for t using shape_kind [OF shapes [OF that]] .
  have nom: "nominalType (ty c' t) = nominalType (ty c t)" if "t < length (h_types c)" for t
    using k [OF that] by (simp add: nominalType_def)
  have below: "pointsBelow c' t = pointsBelow c t" if "t < length (h_types c)" for t
    using that k by (auto simp: pointsBelow_def fun_eq_iff split: option.splits)
  have "typeOk c' t" if t: "t < length (h_types c)" for t
    using typesOk_D [OF interned_D(1) [OF c] t] shapes [OF t] k [OF t] below [OF t] info [OF t]
    by (auto simp: typeOk_def shapeOf_def split: if_splits)
  then have "typesOk c'" using len by (simp add: typesOk_def list_all_iff)
  moreover have "\<exists>s<length (h_structs c'). t_structInfo (ty c' t) = Some s"
    if "t < length (h_types c)" "nominalType (ty c t)" for t
  proof -
    from interned_D(3) [OF c that] obtain s where "s < length (h_structs c)" "t_structInfo (ty c t) = Some s" by blast
    with shapes [OF that(1)] k [OF that(1)] that(2) structs show ?thesis
      by (auto simp: shapeOf_def nominalType_def nominalKinds_def split: if_splits)
  qed
  ultimately show ?thesis
    using interned_D(2,4,5) [OF c] shapes nom lookup unfolding interned_def len by auto
qed

lemma interned_nominal:
  assumes c: "interned c" and k: "k \<in> nominalKinds"
    and types: "h_types c' = h_types c @ [(newType k None)\<lparr>t_structInfo := Some (length (h_structs c))\<rparr>]"
    and structs: "length (h_structs c') = Suc (length (h_structs c))" and lookup: "lookupShape c' = lookupShape c"
  shows "interned c'"
proof -
  let ?n = "length (h_types c)" and ?x = "(newType k None)\<lparr>t_structInfo := Some (length (h_structs c))\<rparr>"
  have old: "ty c' t = ty c t" if "t < ?n" for t using that types by (simp add: ty_def nth_append)
  have x: "ty c' ?n = ?x" using types by (simp add: ty_def)
  have nom: "nominalType ?x" "shapeOf ?x = ShNominal k (Some (length (h_structs c)))"
    using k by (auto simp: nominalType_def newType_def shapeOf_def nominalKinds_def)
  have ok: "typeOk c' ?n" using x k by (auto simp: typeOk_def newType_def nominalKinds_def)
  have other: "shapeOf (ty c t) \<noteq> shapeOf ?x" if t: "t < ?n" for t
  proof
    assume e: "shapeOf (ty c t) = shapeOf ?x"
    then have n: "nominalType (ty c t)" using nom shape_kind [OF e] by (simp add: nominalType_def)
    from interned_D(3) [OF c t n] e nom n show False
      by (auto simp: shapeOf_def nominalType_def nominalKinds_def split: if_splits)
  qed
  have len: "length (h_types c') = Suc ?n" using types by simp
  show ?thesis unfolding interned_def
  proof (intro conjI allI impI)
    show "typesOk c'" by (rule typesOk_append [OF interned_D(1) [OF c] types ok])
  next
    fix t
    assume "t < length (h_types c')"
    then consider "t < ?n" | "t = ?n" using len by linarith
    then show "if nominalType (ty c' t) then \<exists>s<length (h_structs c'). t_structInfo (ty c' t) = Some s
        else lookupShape c' (shapeOf (ty c' t)) = Some t"
    proof cases
      case 1
      then show ?thesis using old interned_D(2,3) [OF c 1] structs lookup by (auto intro: less_SucI)
    next
      case 2
      then show ?thesis using x nom structs by simp
    qed
  next
    fix sh t
    assume "lookupShape c' sh = Some t"
    then have "lookupShape c sh = Some t" using lookup by simp
    from interned_D(4) [OF c this] old len show "t < length (h_types c')" "shapeOf (ty c' t) = sh" by simp_all
  next
    fix t u
    assume tu: "t < length (h_types c')" "u < length (h_types c')" "nominalType (ty c' t)"
      "shapeOf (ty c' t) = shapeOf (ty c' u)"
    consider "t < ?n" "u < ?n" | "t = ?n" "u = ?n" | "t = ?n" "u < ?n" | "t < ?n" "u = ?n"
      using tu(1,2) len by linarith
    then show "t = u"
    proof cases
      case 1
      with interned_D(5) [OF c 1] old tu show ?thesis by simp
    qed (use tu x old other in \<open>auto dest: sym\<close>)
  qed
qed

section \<open>Valid pointers\<close>

definition validT :: "('x) Heap_scheme \<Rightarrow> tid option \<Rightarrow> bool" where
  "validT c p = (case p of None \<Rightarrow> True | Some t \<Rightarrow> t < length (h_types c))"

definition validS :: "('x) Heap_scheme \<Rightarrow> sid option \<Rightarrow> bool" where
  "validS c p = (case p of None \<Rightarrow> True | Some s \<Rightarrow> s < length (h_structs c))"

definition validY :: "('x) Heap_scheme \<Rightarrow> symid option \<Rightarrow> bool" where
  "validY c p = (case p of None \<Rightarrow> True | Some y \<Rightarrow> y < length (h_symbols c))"

definition structOk :: "('x) Heap_scheme \<Rightarrow> StructInfo \<Rightarrow> bool" where
  "structOk c x \<longleftrightarrow> list_all (\<lambda>f. validT c (fi_type f)) (si_fields x) \<and>
     list_all (\<lambda>m. validY c (mi_symbol m)) (si_methods x) \<and> list_all (validT c) (si_implementedInterfaces x) \<and>
     list_all (validT c) (si_typeArgs x) \<and> validS c (si_baseInfo x) \<and> validS c (si_templateOf x)"

definition symbolOk :: "('x) Heap_scheme \<Rightarrow> Symbol \<Rightarrow> bool" where
  "symbolOk c y \<longleftrightarrow> list_all (validT c) (sy_paramTypes y) \<and> validT c (sy_returnType y)"

definition heapOk :: "('x) Heap_scheme \<Rightarrow> bool" where
  "heapOk c \<longleftrightarrow> list_all (structOk c) (h_structs c) \<and> list_all (symbolOk c) (h_symbols c)"

definition instancesOk :: "TypeContext \<Rightarrow> bool" where
  "instancesOk c \<longleftrightarrow> (\<forall>k t. instantiationCache c k = Some t \<longrightarrow> t < length (h_types c)) \<and>
     list_all (\<lambda>t. t < length (h_types c)) (instantiationList c) \<and>
     list_all (\<lambda>(s, templ, args). s < length (h_structs c) \<and> templ < length (h_structs c) \<and> list_all (validT c) args)
       (pendingInstantiations c)"

definition infosOk :: "('x) Heap_scheme \<Rightarrow> bool" where
  "infosOk c \<longleftrightarrow> list_all (\<lambda>x. validS c (t_structInfo x)) (h_types c)"

text \<open>The type arguments of an instantiation are older than the instantiation.\<close>

definition argsBelow :: "('x) Heap_scheme \<Rightarrow> bool" where
  "argsBelow c \<longleftrightarrow> (\<forall>t < length (h_types c). nominalType (ty c t) \<longrightarrow>
     (\<forall>s a. t_structInfo (ty c t) = Some s \<longrightarrow> Some a \<in> set (si_typeArgs (si c s)) \<longrightarrow> a < t))"

lemma argsBelow_D:
  "argsBelow c \<Longrightarrow> t < length (h_types c) \<Longrightarrow> nominalType (ty c t) \<Longrightarrow> t_structInfo (ty c t) = Some s \<Longrightarrow>
     Some a \<in> set (si_typeArgs (si c s)) \<Longrightarrow> a < t"
  by (simp add: argsBelow_def)

text \<open>The instantiation cache holds exactly the instantiations there are.\<close>

definition isInstance :: "('x) Heap_scheme \<Rightarrow> tid \<Rightarrow> sid \<Rightarrow> tid option list \<Rightarrow> bool" where
  "isInstance c t templ args \<longleftrightarrow> kind c t \<in> {TyStruct, TyClass} \<and>
     (\<exists>s. t_structInfo (ty c t) = Some s \<and> si_templateOf (si c s) = Some templ \<and> si_typeArgs (si c s) = args)"

definition cacheOk :: "TypeContext \<Rightarrow> bool" where
  "cacheOk c \<longleftrightarrow> (\<forall>templ args t.
     instantiationCache c (templ, args) = Some t \<longleftrightarrow> t < length (h_types c) \<and> isInstance c t templ args)"

text \<open>The invariant of a type context.\<close>

definition contextOk :: "TypeContext \<Rightarrow> bool" where
  "contextOk c \<longleftrightarrow> interned c \<and> heapOk c \<and> instancesOk c \<and> infosOk c \<and> argsBelow c \<and> cacheOk c"

definition bigger :: "('x) Heap_scheme \<Rightarrow> ('y) Heap_scheme \<Rightarrow> bool" where
  "bigger c c' \<longleftrightarrow> length (h_types c) \<le> length (h_types c') \<and> length (h_structs c) \<le> length (h_structs c') \<and>
     length (h_symbols c) \<le> length (h_symbols c')"

lemma bigger_refl: "bigger c c"
  by (simp add: bigger_def)

lemma bigger_trans: "bigger a b \<Longrightarrow> bigger b c \<Longrightarrow> bigger a c"
  by (simp add: bigger_def)

lemma valid_mono:
  "bigger c c' \<Longrightarrow> validT c p \<Longrightarrow> validT c' p"
  "bigger c c' \<Longrightarrow> validS c q \<Longrightarrow> validS c' q"
  "bigger c c' \<Longrightarrow> validY c r \<Longrightarrow> validY c' r"
  by (auto simp: bigger_def validT_def validS_def validY_def split: option.splits)

lemma list_valid_mono: "bigger c c' \<Longrightarrow> list_all (validT c) ps \<Longrightarrow> list_all (validT c') ps"
  by (auto simp: list_all_iff intro: valid_mono)

lemma structOk_mono: "bigger c c' \<Longrightarrow> structOk c x \<Longrightarrow> structOk c' x"
  by (auto simp: structOk_def list_all_iff intro: valid_mono)

lemma symbolOk_mono: "bigger c c' \<Longrightarrow> symbolOk c y \<Longrightarrow> symbolOk c' y"
  by (auto simp: symbolOk_def list_all_iff intro: valid_mono)

text \<open>A step that keeps the invariant and removes nothing.\<close>

definition kept :: "TypeContext \<Rightarrow> TypeContext \<Rightarrow> bool" where
  "kept c c' \<longleftrightarrow> contextOk c' \<and> bigger c c'"

lemma kept_refl: "contextOk c \<Longrightarrow> kept c c"
  by (simp add: kept_def bigger_refl)

lemma kept_trans: "kept a b \<Longrightarrow> kept b c \<Longrightarrow> kept a c"
  by (auto simp: kept_def intro: bigger_trans)

lemma kept_ok: "kept c c' \<Longrightarrow> contextOk c'" and kept_bigger: "kept c c' \<Longrightarrow> bigger c c'"
  by (simp_all add: kept_def)

lemma heapOk_same:
  assumes "heapOk c" and "bigger c c'" and "h_structs c' = h_structs c" and "h_symbols c' = h_symbols c"
  shows "heapOk c'"
  using assms by (auto simp: heapOk_def list_all_iff intro: structOk_mono symbolOk_mono)

lemma instancesOk_same:
  assumes "instancesOk c" and "bigger c c'" and "instantiationCache c' = instantiationCache c"
    and "pendingInstantiations c' = pendingInstantiations c" and "instantiationList c' = instantiationList c"
  shows "instancesOk c'"
  using assms unfolding instancesOk_def
  by (fastforce simp: list_all_iff bigger_def intro: valid_mono less_le_trans)

lemma structInfo_valid:
  "contextOk c \<Longrightarrow> t < length (h_types c) \<Longrightarrow> t_structInfo (ty c t) = Some s \<Longrightarrow> s < length (h_structs c)"
  by (force simp: contextOk_def infosOk_def list_all_length ty_def validS_def)

lemma shape_info: "shapeOf x = shapeOf y \<Longrightarrow> nominalType x \<Longrightarrow> nominalType y \<and> t_structInfo x = t_structInfo y"
  by (auto simp: shapeOf_def nominalType_def nominalKinds_def split: if_splits)

lemma argsBelow_grow:
  assumes c: "contextOk c" and shapes: "\<And>t. t < length (h_types c) \<Longrightarrow> shapeOf (ty c' t) = shapeOf (ty c t)"
    and args: "\<And>s. s < length (h_structs c) \<Longrightarrow> si_typeArgs (si c' s) = si_typeArgs (si c s)"
    and new: "\<And>t s a. length (h_types c) \<le> t \<Longrightarrow> t < length (h_types c') \<Longrightarrow> nominalType (ty c' t) \<Longrightarrow>
      t_structInfo (ty c' t) = Some s \<Longrightarrow> Some a \<in> set (si_typeArgs (si c' s)) \<Longrightarrow> a < t"
  shows "argsBelow c'"
  unfolding argsBelow_def
proof (intro allI impI)
  fix t s a
  assume t: "t < length (h_types c')" "nominalType (ty c' t)" "t_structInfo (ty c' t) = Some s"
    "Some a \<in> set (si_typeArgs (si c' s))"
  show "a < t"
  proof (cases "t < length (h_types c)")
    case True
    note i = shape_info [OF shapes [OF True] t(2)]
    with structInfo_valid [OF c True] args t(3,4) have "Some a \<in> set (si_typeArgs (si c s))" by simp
    with argsBelow_D [of c t s a] c True i t(3) show ?thesis by (simp add: contextOk_def)
  qed (use new t in simp)
qed

lemma isInstance_nominal:
  "isInstance c t templ args \<longleftrightarrow> nominalType (ty c t) \<and> kind c t \<in> {TyStruct, TyClass} \<and>
     (\<exists>s. t_structInfo (ty c t) = Some s \<and> si_templateOf (si c s) = Some templ \<and> si_typeArgs (si c s) = args)"
  by (auto simp: isInstance_def nominalType_def nominalKinds_def)

lemma isInstance_cong:
  assumes c: "contextOk c" and t: "t < length (h_types c)" and shapes: "shapeOf (ty c' t) = shapeOf (ty c t)"
    and same: "\<And>s. s < length (h_structs c) \<Longrightarrow> si_typeArgs (si c' s) = si_typeArgs (si c s) \<and>
      si_templateOf (si c' s) = si_templateOf (si c s)"
  shows "isInstance c' t templ args \<longleftrightarrow> isInstance c t templ args"
proof (cases "kind c t \<in> {TyStruct, TyClass}")
  case True
  then have "nominalType (ty c t)" by (auto simp: nominalType_def nominalKinds_def)
  note i = shape_info [OF shapes [symmetric] this]
  with same structInfo_valid [OF c t] True shape_kind [OF shapes] show ?thesis by (auto simp: isInstance_def)
next
  case False
  with shape_kind [OF shapes] show ?thesis by (auto simp: isInstance_def)
qed

lemma cacheOk_grow:
  assumes c: "contextOk c" and shapes: "\<And>t. t < length (h_types c) \<Longrightarrow> shapeOf (ty c' t) = shapeOf (ty c t)"
    and same: "\<And>s. s < length (h_structs c) \<Longrightarrow> si_typeArgs (si c' s) = si_typeArgs (si c s) \<and>
      si_templateOf (si c' s) = si_templateOf (si c s)"
    and len: "length (h_types c) \<le> length (h_types c')" and cache: "instantiationCache c' = instantiationCache c"
    and new: "\<And>t templ args. length (h_types c) \<le> t \<Longrightarrow> t < length (h_types c') \<Longrightarrow> \<not> isInstance c' t templ args"
  shows "cacheOk c'"
  unfolding cacheOk_def
proof (intro allI)
  fix templ args t
  have "instantiationCache c (templ, args) = Some t \<longleftrightarrow> t < length (h_types c) \<and> isInstance c t templ args"
    using c by (simp add: contextOk_def cacheOk_def)
  also have "\<dots> \<longleftrightarrow> t < length (h_types c') \<and> isInstance c' t templ args"
    using isInstance_cong [OF c _ shapes same] new [of t] len by (cases "t < length (h_types c)") auto
  finally show "instantiationCache c' (templ, args) = Some t \<longleftrightarrow> t < length (h_types c') \<and> isInstance c' t templ args"
    by (simp add: cache)
qed

text \<open>A new type of a shape not in use yet, entered in its cache.\<close>

lemma kept_insert:
  assumes "contextOk c" and "h_types c' = h_types c @ [x]" and "h_structs c' = h_structs c"
    and "h_symbols c' = h_symbols c" and "instantiationCache c' = instantiationCache c"
    and "pendingInstantiations c' = pendingInstantiations c" and "instantiationList c' = instantiationList c"
    and "\<not> nominalType x" and "lookupShape c (shapeOf x) = None"
    and "lookupShape c' = (lookupShape c)(shapeOf x \<mapsto> length (h_types c))"
    and "typeOk c' (length (h_types c))" and "validS c (t_structInfo x)"
  shows "kept c c'"
proof -
  have b: "bigger c c'" using assms(2-4) by (simp add: bigger_def)
  have "interned c'"
    by (rule interned_insert [where c = c and x = x]) (use assms in \<open>auto simp: contextOk_def\<close>)
  moreover have "infosOk c'" using assms(1,2,12) valid_mono(2) [OF b] by (auto simp: contextOk_def infosOk_def list_all_iff)
  moreover have "argsBelow c'"
    by (rule argsBelow_grow [OF assms(1)]) (use assms(2,3,8) in \<open>auto simp: ty_def si_def nth_append split: if_splits\<close>)
  moreover have "cacheOk c'"
    by (rule cacheOk_grow [OF assms(1)])
      (use assms(2,3,5,8) in \<open>auto simp: ty_def si_def nth_append isInstance_nominal split: if_splits\<close>)
  ultimately show ?thesis using b assms heapOk_same [of c c'] instancesOk_same [of c c']
    by (simp add: kept_def contextOk_def)
qed

lemma newType_info: "validS c (t_structInfo (newType k i))"
  by (simp add: newType_def validS_def)

lemma typeOk_appended:
  assumes "h_types c' = h_types c @ [x]"
  shows "typeOk c' (length (h_types c)) \<longleftrightarrow>
    (if t_kind x = TyOptional \<or> t_kind x = TyArray
     then pointsBelow c (length (h_types c)) (t_inner x) \<and> t_structInfo x = None
     else if t_kind x = TyFunction
     then list_all (pointsBelow c (length (h_types c))) (t_functionParams x) \<and>
       pointsBelow c (length (h_types c)) (t_functionReturn x)
     else True)"
proof -
  have "pointsBelow c' (length (h_types c)) = pointsBelow c (length (h_types c))"
    using assms by (auto simp: pointsBelow_def fun_eq_iff ty_def nth_append split: option.splits)
  then show ?thesis using assms by (simp add: typeOk_def ty_def)
qed

lemma errorType_valid: "contextOk c \<Longrightarrow> errorType c < length (h_types c)"
  using interned_D(4) [of c "ShPlain TyError" "errorType c"] by (simp add: contextOk_def)

lemma lookup_valid: "contextOk c \<Longrightarrow> lookupShape c sh = Some t \<Longrightarrow> t < length (h_types c)"
  using interned_D(4) [of c sh t] by (simp add: contextOk_def)

section \<open>The operations keep the invariant\<close>

definition gives :: "TypeContext \<Rightarrow> tid \<times> TypeContext \<Rightarrow> bool" where
  "gives c r \<longleftrightarrow> kept c (snd r) \<and> fst r < length (h_types (snd r))"

definition givesPointer :: "TypeContext \<Rightarrow> tid option \<times> TypeContext \<Rightarrow> bool" where
  "givesPointer c r \<longleftrightarrow> kept c (snd r) \<and> validT (snd r) (fst r)"

lemma gives_error: "contextOk c \<Longrightarrow> gives c (errorType c, c)"
  by (simp add: gives_def kept_refl errorType_valid)

lemma gives_cached: "contextOk c \<Longrightarrow> lookupShape c sh = Some t \<Longrightarrow> gives c (t, c)"
  by (simp add: gives_def kept_refl lookup_valid)

definition plainKinds :: "TypeKind list" where
  "plainKinds = map snd PRIMITIVE_NAMES"

lemma plainKinds_simps:
  "k \<in> set plainKinds \<Longrightarrow> k \<noteq> TyError \<and> k \<noteq> TyNull \<and> k \<notin> nominalKinds \<and> k \<noteq> TyOptional \<and> k \<noteq> TyArray \<and>
     k \<noteq> TyFunction \<and> k \<noteq> TyTypeParam"
  by (auto simp: plainKinds_def PRIMITIVE_NAMES_def nominalKinds_def)

text \<open>The caches after an entry is added.\<close>

lemma lookup_insert:
  "k \<noteq> TyError \<Longrightarrow> k \<noteq> TyNull \<Longrightarrow>
     lookupShape (c\<lparr>h_types := ts, primitiveCache := (primitiveCache c)(k \<mapsto> t)\<rparr>) = (lookupShape c)(ShPlain k \<mapsto> t)"
  "lookupShape (c\<lparr>h_types := ts, optionalCache := (optionalCache c)(i \<mapsto> t)\<rparr>) = (lookupShape c)(ShOptional (Some i) \<mapsto> t)"
  "lookupShape (c\<lparr>h_types := ts, arrayCache := (arrayCache c)(i \<mapsto> t)\<rparr>) = (lookupShape c)(ShArray (Some i) \<mapsto> t)"
  "lookupShape (c\<lparr>h_types := ts, functionCache := (functionCache c)((ps, r) \<mapsto> t)\<rparr>) =
     (lookupShape c)(ShFunction ps (Some r) \<mapsto> t)"
  "lookupShape (c\<lparr>h_types := ts, typeParamCache := (typeParamCache c)((ow, j) \<mapsto> t)\<rparr>) =
     (lookupShape c)(ShParam (Some ow) j \<mapsto> t)"
  by (rule ext; rename_tac sh; case_tac sh; auto split: option.split)+

lemma gives_insert:
  assumes "kept c c'" and "h_types c' = h_types c @ [x]"
  shows "gives c (length (h_types c), c')"
  using assms by (simp add: gives_def)

lemma getPrimitive_gives:
  assumes c: "contextOk c" and k: "k \<in> set plainKinds"
  shows "gives c (getPrimitive k c)"
proof (cases "primitiveCache c k")
  case (Some t)
  then show ?thesis using gives_cached [OF c, of "ShPlain k" t] plainKinds_simps [OF k]
    by (simp add: getPrimitive_def)
next
  case None
  let ?x = "newType k None"
  let ?c = "c\<lparr>h_types := h_types c @ [?x], primitiveCache := (primitiveCache c)(k \<mapsto> length (h_types c))\<rparr>"
  have x: "shapeOf ?x = ShPlain k" "\<not> nominalType ?x" "t_kind ?x = k"
    using plainKinds_simps [OF k] by (auto simp: shapeOf_def nominalType_def newType_def)
  have "kept c ?c"
    by (rule kept_insert [OF c]) (use x plainKinds_simps [OF k] None in \<open>auto simp: lookup_insert typeOk_appended newType_info\<close>)
  from gives_insert [OF this] None show ?thesis by (simp add: getPrimitive_def allocate_def)
qed

lemma getOptional_gives:
  assumes c: "contextOk c" and v: "validT c p"
  shows "gives c (getOptional p c)"
proof (cases "\<exists>i. p = Some i \<and> kind c i \<noteq> TyError")
  case False
  then show ?thesis using gives_error [OF c] by (auto simp: getOptional_def split: option.splits)
next
  case True
  then obtain i where i: "p = Some i" "kind c i \<noteq> TyError" by blast
  show ?thesis
  proof (cases "optionalCache c i")
    case (Some t)
    then show ?thesis using gives_cached [OF c, of "ShOptional (Some i)" t] i by (simp add: getOptional_def)
  next
    case None
    let ?x = "newType TyOptional (Some i)"
    let ?c = "c\<lparr>h_types := h_types c @ [?x], optionalCache := (optionalCache c)(i \<mapsto> length (h_types c))\<rparr>"
    have x: "shapeOf ?x = ShOptional (Some i)" "\<not> nominalType ?x" "t_kind ?x = TyOptional" "t_inner ?x = Some i"
      "t_structInfo ?x = None"
      by (auto simp: shapeOf_def nominalType_def newType_def nominalKinds_def)
    have "kept c ?c"
      by (rule kept_insert [OF c])
        (use x i v None in \<open>auto simp: lookup_insert typeOk_appended pointsBelow_def validT_def validS_def\<close>)
    from gives_insert [OF this] None i show ?thesis by (simp add: getOptional_def allocate_def)
  qed
qed

lemma getArray_gives:
  assumes c: "contextOk c" and v: "validT c p"
  shows "gives c (getArray p c)"
proof (cases "\<exists>i. p = Some i \<and> kind c i \<noteq> TyError \<and> kind c i \<noteq> TyVoid")
  case False
  then show ?thesis using gives_error [OF c] by (auto simp: getArray_def split: option.splits)
next
  case True
  then obtain i where i: "p = Some i" "kind c i \<noteq> TyError" "kind c i \<noteq> TyVoid" by blast
  show ?thesis
  proof (cases "arrayCache c i")
    case (Some t)
    then show ?thesis using gives_cached [OF c, of "ShArray (Some i)" t] i by (simp add: getArray_def)
  next
    case None
    let ?x = "newType TyArray (Some i)"
    let ?c = "c\<lparr>h_types := h_types c @ [?x], arrayCache := (arrayCache c)(i \<mapsto> length (h_types c))\<rparr>"
    have x: "shapeOf ?x = ShArray (Some i)" "\<not> nominalType ?x" "t_kind ?x = TyArray" "t_inner ?x = Some i"
      "t_structInfo ?x = None"
      by (auto simp: shapeOf_def nominalType_def newType_def nominalKinds_def)
    have "kept c ?c"
      by (rule kept_insert [OF c])
        (use x i v None in \<open>auto simp: lookup_insert typeOk_appended pointsBelow_def validT_def validS_def\<close>)
    from gives_insert [OF this] None i show ?thesis by (simp add: getArray_def allocate_def)
  qed
qed

lemma getFunction_gives:
  assumes c: "contextOk c" and v: "list_all (validT c) ps" "validT c p"
  shows "gives c (getFunction ps p c)"
proof (cases "\<exists>r. p = Some r \<and> kind c r \<noteq> TyError \<and> \<not> list_ex (nullOrError c) ps")
  case False
  then show ?thesis using gives_error [OF c] by (auto simp: getFunction_def split: option.splits)
next
  case True
  then obtain r where r: "p = Some r" "kind c r \<noteq> TyError" "\<not> list_ex (nullOrError c) ps" by blast
  show ?thesis
  proof (cases "functionCache c (ps, r)")
    case (Some t)
    then show ?thesis using gives_cached [OF c, of "ShFunction ps (Some r)" t] r by (simp add: getFunction_def)
  next
    case None
    let ?x = "(newType TyFunction None)\<lparr>t_functionParams := ps, t_functionReturn := Some r\<rparr>"
    let ?c = "c\<lparr>h_types := h_types c @ [?x], functionCache := (functionCache c)((ps, r) \<mapsto> length (h_types c))\<rparr>"
    have x: "shapeOf ?x = ShFunction ps (Some r)" "\<not> nominalType ?x" "t_kind ?x = TyFunction"
      by (auto simp: shapeOf_def nominalType_def newType_def nominalKinds_def)
    have below: "list_all (pointsBelow c (length (h_types c))) ps"
      using r(3) v(1) by (auto simp: list_all_iff list_ex_iff nullOrError_def pointsBelow_def validT_def split: option.splits)
    have "kept c ?c"
      by (rule kept_insert [OF c])
        (use x r v(2) None below in \<open>auto simp: lookup_insert typeOk_appended pointsBelow_def validT_def newType_info\<close>)
    from gives_insert [OF this] None r show ?thesis
      by (simp add: getFunction_def allocate_def updType_def ty_def)
  qed
qed

text \<open>Changes that touch no shape.\<close>

lemma kept_update:
  assumes "contextOk c" and "length (h_types c') = length (h_types c)" and "bigger c c'"
    and "\<And>t. t < length (h_types c) \<Longrightarrow> shapeOf (ty c' t) = shapeOf (ty c t)"
    and "\<And>t. t < length (h_types c) \<Longrightarrow> kind c t \<in> {TyOptional, TyArray} \<Longrightarrow>
      t_structInfo (ty c' t) = t_structInfo (ty c t)"
    and "lookupShape c' = lookupShape c" and "heapOk c'" and "instancesOk c'" and "infosOk c'"
    and "\<And>s. s < length (h_structs c) \<Longrightarrow> si_typeArgs (si c' s) = si_typeArgs (si c s) \<and>
      si_templateOf (si c' s) = si_templateOf (si c s)"
    and "instantiationCache c' = instantiationCache c"
  shows "kept c c'"
  using assms interned_update [of c c'] argsBelow_grow [of c c'] cacheOk_grow [of c c'] by (simp add: kept_def contextOk_def bigger_def)

lemma infosOk_same: "infosOk c \<Longrightarrow> bigger c c' \<Longrightarrow> h_types c' = h_types c \<Longrightarrow> infosOk c'"
  by (auto simp: infosOk_def list_all_iff intro: valid_mono)

lemma lookupShape_cong:
  assumes "primitiveCache c' = primitiveCache c" and "optionalCache c' = optionalCache c" and "arrayCache c' = arrayCache c"
    and "functionCache c' = functionCache c" and "typeParamCache c' = typeParamCache c" and "errorType c' = errorType c"
    and "nullType c' = nullType c"
  shows "lookupShape c' = lookupShape c"
  by (rule ext, rename_tac sh, case_tac sh) (auto simp: assms split: option.split)

lemma si_updType: "si (updType t f c) = si c"
  by (simp add: updType_def si_def fun_eq_iff)

lemma ty_updType: "u < length (h_types c) \<Longrightarrow> ty (updType t f c) u = (if u = t then f (ty c u) else ty c u)"
  by (cases "u = t") (auto simp: updType_def ty_def)

lemma length_updType: "length (h_types (updType t f c)) = length (h_types c)"
  by (simp add: updType_def)

lemma updType_kept:
  assumes c: "contextOk c" and "\<And>x. shapeOf (f x) = shapeOf x" and "\<not> kind c t \<in> {TyOptional, TyArray}"
    and "validS c (t_structInfo (f (ty c t)))"
  shows "kept c (updType t f c)"
proof (rule kept_update [OF c])
  let ?c = "updType t f c"
  have b: "bigger c ?c" by (simp add: bigger_def updType_def)
  then show "bigger c ?c" .
  show "lookupShape ?c = lookupShape c" by (rule lookupShape_cong) (simp_all add: updType_def)
  show "heapOk ?c" using heapOk_same [OF _ b] c by (simp add: contextOk_def updType_def)
  show "instancesOk ?c" using instancesOk_same [OF _ b] c by (simp add: contextOk_def updType_def)
  show "infosOk ?c" using c assms(4) valid_mono(2) [OF b]
    by (auto simp: contextOk_def infosOk_def updType_def list_all_iff dest!: set_update_subset_insert [THEN subsetD])
  show "length (h_types ?c) = length (h_types c)" by (simp add: updType_def)
  show "instantiationCache ?c = instantiationCache c" by (simp add: updType_def)
qed (use assms in \<open>auto simp: ty_updType si_updType\<close>)

definition primaryBound :: "TypeContext \<Rightarrow> sid option list \<Rightarrow> sid option" where
  "primaryBound c bounds =
     (case find (\<lambda>b. case b of None \<Rightarrow> False | Some s \<Rightarrow> \<not> si_isInterface (si c s)) bounds of
        Some b \<Rightarrow> b | None \<Rightarrow> (case bounds of [] \<Rightarrow> None | b # _ \<Rightarrow> b))"

lemma primaryBound_valid: "list_all (validS c) bounds \<Longrightarrow> validS c (primaryBound c bounds)"
  by (auto simp: primaryBound_def find_Some_iff list_all_length validS_def split: option.split list.split)

lemma getTypeParam_gives:
  assumes c: "contextOk c" and bounds: "list_all (validS c) bounds"
  shows "gives c (getTypeParam owner index name bounds c)"
proof (cases "typeParamCache c (owner, index)")
  case (Some t)
  then have l: "lookupShape c (ShParam (Some owner) index) = Some t" by simp
  have t: "t < length (h_types c)" "shapeOf (ty c t) = ShParam (Some owner) index"
    using interned_D(4) [OF _ l] c by (simp_all add: contextOk_def)
  then have "kind c t = TyTypeParam" using shapeKind_shapeOf [of "ty c t"] by simp
  then have upd: "kept c (updType t (\<lambda>x. x\<lparr>t_structInfo := g x, t_paramBounds := h x\<rparr>) c)"
    if g: "validS c (g (ty c t))" for g h
  proof -
    let ?f = "\<lambda>x. if t_kind x = TyTypeParam then x\<lparr>t_structInfo := g x, t_paramBounds := h x\<rparr> else x"
    have "kept c (updType t ?f c)"
      by (rule updType_kept [OF c])
        (use \<open>kind c t = TyTypeParam\<close> g in \<open>auto simp: shapeOf_def nominalKinds_def\<close>)
    then show ?thesis using \<open>kind c t = TyTypeParam\<close> by (simp add: updType_def)
  qed
  have "validS c (if primaryBound c bounds \<noteq> None \<and> t_structInfo (ty c t) = None then primaryBound c bounds
      else t_structInfo (ty c t))"
    using primaryBound_valid [OF bounds] structInfo_valid [OF c t(1)] by (auto simp: validS_def split: option.split)
  from upd [of "\<lambda>x. if primaryBound c bounds \<noteq> None \<and> t_structInfo x = None then primaryBound c bounds else t_structInfo x", OF this]
  show ?thesis
    by (simp only: getTypeParam_def Let_def Some option.case gives_def fst_conv snd_conv primaryBound_def length_updType t simp_thms)
next
  case None
  let ?x = "(newType TyTypeParam None)\<lparr>t_paramOwner := Some owner, t_paramIndex := index, t_paramName := name,
    t_structInfo := primaryBound c bounds, t_paramBounds := bounds\<rparr>"
  let ?c = "c\<lparr>h_types := h_types c @ [?x], typeParamCache := (typeParamCache c)((owner, index) \<mapsto> length (h_types c))\<rparr>"
  have x: "shapeOf ?x = ShParam (Some owner) index" "\<not> nominalType ?x" "t_kind ?x = TyTypeParam"
    by (auto simp: shapeOf_def nominalType_def newType_def nominalKinds_def)
  have "kept c ?c"
    by (rule kept_insert [OF c])
      (use x None primaryBound_valid [OF bounds] in \<open>auto simp: lookup_insert typeOk_appended\<close>)
  from gives_insert [OF this] None show ?thesis
    by (simp add: getTypeParam_def allocate_def updType_def ty_def Let_def primaryBound_def)
qed

lemma newStructInfo_template: "si_templateOf newStructInfo = None"
  by (simp add: newStructInfo_def)

lemma newStructInfo_ok: "structOk c newStructInfo"
  by (simp add: structOk_def newStructInfo_def validS_def)

text \<open>A new declared type and its struct. The context they end up in may have a new cache entry for them.\<close>

lemma addNominal_forms:
  assumes "addNominal k info c = (t, s, c')"
  shows "t = length (h_types c)" and "s = length (h_structs c)"
    and "c' = c\<lparr>h_structs := h_structs c @ [info], h_types := h_types c @ [(newType k None)\<lparr>t_structInfo := Some s\<rparr>]\<rparr>"
  using assms by (auto simp: addNominal_def allocate_def updType_def ty_def Let_def)

lemma nominal_kept:
  assumes c: "contextOk c" and k: "k \<in> nominalKinds" and info: "structOk c info"
    and types: "h_types c' = h_types c @ [(newType k None)\<lparr>t_structInfo := Some (length (h_structs c))\<rparr>]"
    and structs: "h_structs c' = h_structs c @ [info]" and symbols: "h_symbols c' = h_symbols c"
    and "lookupShape c' = lookupShape c" and "instancesOk c'" and "cacheOk c'"
  shows "kept c c'"
proof -
  have b: "bigger c c'" by (simp add: bigger_def types structs symbols)
  have "interned c'" by (rule interned_nominal [OF _ k types]) (use assms in \<open>auto simp: contextOk_def\<close>)
  moreover have "heapOk c'"
    using c b info unfolding contextOk_def heapOk_def structs symbols
    by (auto simp: list_all_iff intro: structOk_mono symbolOk_mono)
  moreover have "infosOk c'"
    using c valid_mono(2) [OF b] by (auto simp: contextOk_def infosOk_def types structs list_all_iff validS_def)
  moreover have "argsBelow c'"
    by (rule argsBelow_grow [OF c])
      (use info in \<open>auto simp: types structs ty_def si_def nth_append structOk_def list_all_iff validT_def split: if_splits\<close>)
  ultimately show ?thesis using b assms(8,9) by (simp add: kept_def contextOk_def)
qed

lemma addNominal_kept:
  assumes c: "contextOk c" and k: "k \<in> nominalKinds" and info: "structOk c info" "si_templateOf info = None"
    and a: "addNominal k info c = (t, s, c')"
  shows "kept c c'" and "t < length (h_types c')" and "s < length (h_structs c')" and "t_structInfo (ty c' t) = Some s"
proof -
  note f = addNominal_forms [OF a]
  have b: "bigger c c'" by (simp add: bigger_def f)
  show "kept c c'"
  proof (rule nominal_kept [OF c k info(1)])
    show "instancesOk c'" using instancesOk_same [OF _ b] c by (simp add: contextOk_def f)
    show "cacheOk c'"
      by (rule cacheOk_grow [OF c])
        (use info in \<open>auto simp: f ty_def si_def nth_append isInstance_def split: if_splits\<close>)
  qed (auto simp: f intro: lookupShape_cong)
  show "t < length (h_types c')" "s < length (h_structs c')" "t_structInfo (ty c' t) = Some s"
    by (simp_all add: f ty_def)
qed

lemma updStruct_kept:
  assumes c: "contextOk c" and ok: "structOk c (f (si c s))" and args: "si_typeArgs (f (si c s)) = si_typeArgs (si c s)"
    and templ: "si_templateOf (f (si c s)) = si_templateOf (si c s)"
  shows "kept c (updStruct s f c)"
proof (rule kept_update [OF c])
  let ?c = "updStruct s f c"
  have b: "bigger c ?c" by (simp add: bigger_def updStruct_def)
  then show "bigger c ?c" .
  show "lookupShape ?c = lookupShape c" by (rule lookupShape_cong) (simp_all add: updStruct_def)
  show "heapOk ?c"
    using c b ok unfolding contextOk_def heapOk_def updStruct_def
    by (auto simp: list_all_iff dest!: set_update_subset_insert [THEN subsetD] intro: structOk_mono symbolOk_mono)
  show "instancesOk ?c" using instancesOk_same [OF _ b] c by (simp add: contextOk_def updStruct_def)
  show "infosOk ?c" using infosOk_same [OF _ b] c by (simp add: contextOk_def updStruct_def)
  show "si_typeArgs (si ?c u) = si_typeArgs (si c u) \<and> si_templateOf (si ?c u) = si_templateOf (si c u)"
    if "u < length (h_structs c)" for u
    using that args templ by (cases "u = s") (auto simp: updStruct_def si_def)
qed (simp_all add: updStruct_def ty_def)

text \<open>A change to a field of the context that the invariant does not read.\<close>

lemma kept_same:
  assumes c: "contextOk c" and "h_types c' = h_types c" and "h_structs c' = h_structs c" and "h_symbols c' = h_symbols c"
    and "primitiveCache c' = primitiveCache c" and "optionalCache c' = optionalCache c" and "arrayCache c' = arrayCache c"
    and "functionCache c' = functionCache c" and "typeParamCache c' = typeParamCache c" and "errorType c' = errorType c"
    and "nullType c' = nullType c" and "instancesOk c'" and "instantiationCache c' = instantiationCache c"
  shows "kept c c'"
proof (rule kept_update [OF c])
  have b: "bigger c c'" using assms by (simp add: bigger_def)
  then show "bigger c c'" .
  show "lookupShape c' = lookupShape c" by (rule lookupShape_cong) (use assms in simp_all)
  show "heapOk c'" using heapOk_same [OF _ b] assms by (simp add: contextOk_def)
  show "infosOk c'" using infosOk_same [OF _ b] assms by (simp add: contextOk_def)
qed (use assms in \<open>simp_all add: ty_def si_def\<close>)

text \<open>\<open>instancesOk\<close> reads the context only through the lengths of its tables.\<close>

lemma instancesOk_alt:
  "instancesOk c \<longleftrightarrow> (\<forall>k t. instantiationCache c k = Some t \<longrightarrow> t < length (h_types c)) \<and>
     (\<forall>t \<in> set (instantiationList c). t < length (h_types c)) \<and>
     (\<forall>(s, templ, args) \<in> set (pendingInstantiations c). s < length (h_structs c) \<and> templ < length (h_structs c) \<and>
        (\<forall>a. Some a \<in> set args \<longrightarrow> a < length (h_types c)))"
  unfolding instancesOk_def list_all_iff validT_def by (fastforce split: option.splits)

lemma list_valid_alt: "list_all (validT c) ps \<longleftrightarrow> (\<forall>a. Some a \<in> set ps \<longrightarrow> a < length (h_types c))"
  unfolding list_all_iff validT_def by (fastforce split: option.splits)

lemma structOk_at: "contextOk c \<Longrightarrow> s < length (h_structs c) \<Longrightarrow> structOk c (si c s)"
  by (simp add: contextOk_def heapOk_def list_all_iff si_def)

lemma symbolOk_at: "contextOk c \<Longrightarrow> y < length (h_symbols c) \<Longrightarrow> symbolOk c (sym c y)"
  by (simp add: contextOk_def heapOk_def list_all_iff sym_def)

lemma register_gives:
  assumes "addNominal k info c = (t, s, c1)" and "contextOk c" and "k \<in> nominalKinds" and "structOk c info"
    and "si_templateOf info = None"
    and same: "h_types c' = h_types c1" "h_structs c' = h_structs c1" "h_symbols c' = h_symbols c1"
      "primitiveCache c' = primitiveCache c1" "optionalCache c' = optionalCache c1" "arrayCache c' = arrayCache c1"
      "functionCache c' = functionCache c1" "typeParamCache c' = typeParamCache c1" "errorType c' = errorType c1"
      "nullType c' = nullType c1" "instantiationCache c' = instantiationCache c1"
      "pendingInstantiations c' = pendingInstantiations c1" "instantiationList c' = instantiationList c1"
  shows "gives c (t, c')"
proof -
  note k = addNominal_kept [OF assms(2-5,1)]
  have "instancesOk c'"
    using kept_ok [OF k(1)] same instancesOk_same [of c1 c'] by (simp add: contextOk_def bigger_def)
  with kept_same [OF kept_ok [OF k(1)], of c'] same have "kept c1 c'" by simp
  with k(1,2) same(1) show ?thesis by (auto simp: gives_def intro: kept_trans)
qed

lemma structOk_named:
  "structOk c (newStructInfo\<lparr>si_name := n, si_modulePath := m, si_declKind := d\<rparr>)"
  "structOk c (newStructInfo\<lparr>si_name := n, si_modulePath := m\<rparr>)"
  using newStructInfo_ok [of c] by (simp_all add: structOk_def)

lemma registerStruct_gives: "contextOk c \<Longrightarrow> gives c (registerStruct m n c)"
  and registerClass_gives: "contextOk c \<Longrightarrow> gives c (registerClass m n c)"
  and registerExternalType_gives: "contextOk c \<Longrightarrow> gives c (registerExternalType m n c)"
  and registerEnum_gives: "contextOk c \<Longrightarrow> gives c (registerEnum m n c)"
  unfolding registerStruct_def registerClass_def registerExternalType_def registerEnum_def
  by (auto split: prod.split elim!: register_gives intro: structOk_named simp: nominalKinds_def newStructInfo_template)

lemma registerInterface_gives:
  assumes "contextOk c"
  shows "gives c (registerInterface m n c)"
proof -
  obtain t c1 where r: "registerClass m n c = (t, c1)" by force
  with registerClass_gives [OF assms, of m n] have k: "kept c c1" and t: "t < length (h_types c1)"
    by (auto simp: gives_def)
  show ?thesis
  proof (cases "t_structInfo (ty c1 t)")
    case None
    with r k t show ?thesis by (simp add: registerInterface_def gives_def)
  next
    case (Some s)
    obtain s' c0 where a: "addNominal TyClass (newStructInfo\<lparr>si_name := n, si_modulePath := m\<rparr>) c = (t, s', c0)"
      "c1 = c0\<lparr>classCache := (classCache c0)((m, n) \<mapsto> t)\<rparr>"
      using r by (auto simp: registerClass_def split: prod.splits)
    from addNominal_kept(3,4) [OF assms _ structOk_named(2) _ a(1)] a(2) Some
    have "s < length (h_structs c1)" by (auto simp: nominalKinds_def ty_def newStructInfo_template)
    then have "structOk c1 (si c1 s)" by (rule structOk_at [OF kept_ok [OF k]])
    then have "kept c1 (updStruct s (\<lambda>x. x\<lparr>si_declKind := DkInterface, si_isInterface := True, si_isAbstract := True\<rparr>) c1)"
      by (intro updStruct_kept kept_ok [OF k]) (simp_all add: structOk_def)
    with r Some k t show ?thesis
      by (auto simp: registerInterface_def gives_def updStruct_def intro: kept_trans)
  qed
qed

lemma bindPrimitive_kept:
  assumes c: "contextOk c" and k: "validT c p" "structOf c p = None \<Longrightarrow> \<forall>t. p = Some t \<longrightarrow> kind c t \<in> set plainKinds"
  shows "kept c (snd (bindPrimitive p m n c))"
proof (cases "\<exists>t. p = Some t \<and> t_structInfo (ty c t) = None")
  case False
  then have "snd (bindPrimitive p m n c) = c" by (auto simp: bindPrimitive_def split: option.splits)
  with kept_refl [OF c] show ?thesis by simp
next
  case True
  then obtain t where t: "p = Some t" "t_structInfo (ty c t) = None" by blast
  let ?info = "newStructInfo\<lparr>si_name := n, si_modulePath := m, si_declKind := DkPrimitive\<rparr>"
  let ?s = "length (h_structs c)" and ?c1 = "c\<lparr>h_structs := h_structs c @ [?info]\<rparr>"
  have plain: "kind c t \<in> set plainKinds" using k(2) t by (simp add: structOf_def)
  have b: "bigger c ?c1" by (simp add: bigger_def)
  have "heapOk ?c1"
    using c b structOk_named(1) [where c = ?c1 and n = n and m = m and d = DkPrimitive] unfolding contextOk_def heapOk_def
    by (auto simp: list_all_iff intro: structOk_mono symbolOk_mono)
  then have k1: "kept c ?c1"
    using c b instancesOk_same [OF _ b] infosOk_same [OF _ b]
    by (intro kept_update [OF c]) (auto simp: contextOk_def ty_def si_def nth_append intro: lookupShape_cong)
  let ?f = "\<lambda>x. if t_kind x \<in> set plainKinds then x\<lparr>t_structInfo := Some ?s\<rparr> else x"
  have "kept ?c1 (updType t ?f ?c1)"
  proof (rule updType_kept [OF kept_ok [OF k1]])
    show "shapeOf (?f x) = shapeOf x" for x using plainKinds_simps [of "t_kind x"] by (simp add: shapeOf_def)
    show "validS ?c1 (t_structInfo (?f (ty ?c1 t)))" using plain t by (simp add: validS_def ty_def)
    show "kind ?c1 t \<notin> {TyOptional, TyArray}" using plain plainKinds_simps [of "kind c t"] by (auto simp: ty_def)
  qed
  moreover have "updType t ?f ?c1 = updType t (\<lambda>x. x\<lparr>t_structInfo := Some ?s\<rparr>) ?c1"
    using plain by (simp add: updType_def ty_def)
  ultimately show ?thesis using t kept_trans [OF k1] by (simp add: bindPrimitive_def Let_def)
qed

section \<open>Instantiation keeps the invariant\<close>

text \<open>What \<open>substitute\<close> and \<open>fillInstantiation\<close> rely on when they call \<open>instantiateInternal\<close>.\<close>

locale instantiate_calls =
  fixes inst :: instantiator
  assumes inst_gives: "contextOk c \<Longrightarrow> templ < length (h_structs c) \<Longrightarrow> k \<in> {TyStruct, TyClass} \<Longrightarrow>
    list_all (validT c) args \<Longrightarrow> gives c (inst templ k args c)"
begin

lemma mapS_gives:
  assumes "contextOk c" and "list_all (validT c) ps"
    and "\<And>c' p. contextOk c' \<Longrightarrow> bigger c c' \<Longrightarrow> validT c' p \<Longrightarrow> givesPointer c' (f p c')"
  shows "kept c (snd (mapS f ps c)) \<and> list_all (validT (snd (mapS f ps c))) (fst (mapS f ps c))"
  using assms
proof (induction ps arbitrary: c)
  case Nil
  then show ?case by (simp add: kept_refl)
next
  case (Cons p ps)
  obtain q c1 where q: "f p c = (q, c1)" by force
  have k: "kept c c1" "validT c1 q"
    using Cons.prems(3) [OF Cons.prems(1) bigger_refl, of p] Cons.prems(2) q by (auto simp: givesPointer_def)
  obtain qs c2 where qs: "mapS f ps c1 = (qs, c2)" by force
  have "list_all (validT c1) ps" using Cons.prems(2) list_valid_mono [OF kept_bigger [OF k(1)]] by simp
  moreover have "givesPointer c' (f r c')" if "contextOk c'" "bigger c1 c'" "validT c' r" for c' r
    using Cons.prems(3) [OF that(1) bigger_trans [OF kept_bigger [OF k(1)] that(2)] that(3)] .
  ultimately have "kept c1 c2 \<and> list_all (validT c2) qs" using Cons.IH [OF kept_ok [OF k(1)]] qs by simp
  with k q qs show ?case by (auto intro: kept_trans valid_mono kept_bigger)
qed

lemma gives_pointer: "kept c c1 \<Longrightarrow> gives c1 (r, c2) \<Longrightarrow> givesPointer c (Some r, c2)"
  by (auto simp: gives_def givesPointer_def validT_def intro: kept_trans)

lemma inner_valid:
  assumes "contextOk c" and "i < length (h_types c)"
  shows "kind c i \<in> {TyOptional, TyArray} \<Longrightarrow> validT c (t_inner (ty c i))"
    and "kind c i = TyFunction \<Longrightarrow> list_all (validT c) (t_functionParams (ty c i)) \<and> validT c (t_functionReturn (ty c i))"
proof -
  have v: "validT c p" if "pointsBelow c i p" for p
    using that assms(2) by (auto simp: pointsBelow_def validT_def split: option.splits)
  have "typeOk c i" by (intro typesOk_D interned_D(1)) (use assms in \<open>auto simp: contextOk_def\<close>)
  then show "kind c i \<in> {TyOptional, TyArray} \<Longrightarrow> validT c (t_inner (ty c i))"
    and "kind c i = TyFunction \<Longrightarrow> list_all (validT c) (t_functionParams (ty c i)) \<and> validT c (t_functionReturn (ty c i))"
    by (auto simp: typeOk_def list_all_iff intro: v)
qed

lemma substituteF_gives:
  "contextOk c \<Longrightarrow> validT c t \<Longrightarrow> list_all (validT c) args \<Longrightarrow> givesPointer c (substituteF n inst owner args t c)"
proof (induction n arbitrary: t c)
  case 0
  then show ?case by (simp add: givesPointer_def kept_refl)
next
  case (Suc n)
  note c = Suc.prems(1)
  have same: "givesPointer c (t, c)" using Suc.prems by (simp add: givesPointer_def kept_refl)
  let ?sub = "substituteF n inst owner args"
  have sub: "givesPointer c' (?sub p c')" if "contextOk c'" "bigger c c'" "validT c' p" for c' p
    using Suc.IH [OF that(1,3)] Suc.prems(3) that(2) by (blast intro: list_valid_mono)
  show ?case
  proof (cases t)
    case None
    with same show ?thesis by simp
  next
    case (Some i)
    then have i: "i < length (h_types c)" using Suc.prems(2) by (simp add: validT_def)
    consider "kind c i = TyTypeParam" | "kind c i = TyArray" | "kind c i = TyOptional" | "kind c i = TyFunction"
      | "kind c i \<in> {TyStruct, TyClass}" | "kind c i \<notin> {TyTypeParam, TyArray, TyOptional, TyFunction, TyStruct, TyClass}"
      by blast
    then show ?thesis
    proof cases
      case 1
      then show ?thesis using Some Suc.prems(3) same c
        by (auto simp: Let_def givesPointer_def kept_refl list_all_length)
    next
      case 2
      obtain e c1 where e: "?sub (t_inner (ty c i)) c = (e, c1)" by force
      with sub [OF c bigger_refl inner_valid(1) [OF c i]] 2 have k: "kept c c1" "validT c1 e"
        by (simp_all add: givesPointer_def)
      from gives_pointer [OF k(1)] getArray_gives [OF kept_ok [OF k(1)] k(2)] Some 2 e show ?thesis
        by (auto simp: Let_def split: prod.split)
    next
      case 3
      obtain e c1 where e: "?sub (t_inner (ty c i)) c = (e, c1)" by force
      with sub [OF c bigger_refl inner_valid(1) [OF c i]] 3 have k: "kept c c1" "validT c1 e"
        by (simp_all add: givesPointer_def)
      from gives_pointer [OF k(1)] getOptional_gives [OF kept_ok [OF k(1)] k(2)] Some 3 e show ?thesis
        by (auto simp: Let_def split: prod.split)
    next
      case 4
      obtain ps c1 where ps: "mapS ?sub (t_functionParams (ty c i)) c = (ps, c1)" by force
      have k1: "kept c c1" "list_all (validT c1) ps"
        using mapS_gives [where f = ?sub, OF c inner_valid(2) [OF c i 4, THEN conjunct1] sub] ps by simp_all
      obtain r c2 where r: "?sub (t_functionReturn (ty c i)) c1 = (r, c2)" by force
      have "givesPointer c1 (r, c2)"
        using sub [OF kept_ok [OF k1(1)] kept_bigger [OF k1(1)]] inner_valid(2) [OF c i 4] r
          valid_mono(1) [OF kept_bigger [OF k1(1)]] by metis
      then have k2: "kept c1 c2" "validT c2 r" by (auto simp: givesPointer_def)
      have "gives c2 (getFunction ps r c2)"
        using getFunction_gives [OF kept_ok [OF k2(1)]] k1 k2 list_valid_mono [OF kept_bigger [OF k2(1)]] by blast
      from gives_pointer [OF kept_trans [OF k1(1) k2(1)]] this Some 4 ps r show ?thesis
        by (auto simp: Let_def split: prod.split)
    next
      case 5
      show ?thesis
      proof (cases "\<exists>s templ. t_structInfo (ty c i) = Some s \<and> si_templateOf (si c s) = Some templ")
        case False
        with Some 5 same show ?thesis by (auto simp: Let_def split: option.splits)
      next
        case True
        then obtain s templ where s: "t_structInfo (ty c i) = Some s" "si_templateOf (si c s) = Some templ" by blast
        have "nominalType (ty c i)" using 5 by (auto simp: nominalType_def nominalKinds_def)
        then have "s < length (h_structs c)" using interned_D(3) [of c i] c i s(1) by (auto simp: contextOk_def)
        from structOk_at [OF c this] s(2) have st: "list_all (validT c) (si_typeArgs (si c s))" "templ < length (h_structs c)"
          by (auto simp: structOk_def validS_def)
        obtain as c1 where as: "mapS ?sub (si_typeArgs (si c s)) c = (as, c1)" by force
        have k1: "kept c c1" "list_all (validT c1) as" using mapS_gives [where f = ?sub, OF c st(1) sub] as by simp_all
        have "gives c1 (inst templ (kind c i) as c1)"
          using inst_gives [OF kept_ok [OF k1(1)]] st(2) 5 k1 kept_bigger [OF k1(1)] by (auto simp: bigger_def)
        from gives_pointer [OF k1(1)] this have "givesPointer c (Some (fst (inst templ (kind c i) as c1)), snd (inst templ (kind c i) as c1))"
          by (cases "inst templ (kind c i) as c1") auto
        moreover have "givesPointer c (t, c1)"
          using k1(1) Suc.prems(2) by (auto simp: givesPointer_def intro: valid_mono kept_bigger)
        ultimately show ?thesis using Some 5 s as by (auto simp: Let_def split: prod.split)
      qed
    next
      case 6
      then show ?thesis using Some same by (cases "kind c i") (auto simp: Let_def)
    qed
  qed
qed

lemma substituteWith_gives:
  "contextOk c \<Longrightarrow> validT c t \<Longrightarrow> list_all (validT c) args \<Longrightarrow> givesPointer c (substituteWith inst owner args t c)"
  unfolding substituteWith_def by (rule substituteF_gives)

text \<open>Filling pushes valid pointers into one struct.\<close>

lemma push_kept:
  assumes "kept c c1" and "s < length (h_structs c)" and "structOk c1 (si c1 s) \<Longrightarrow> structOk c1 (f (si c1 s))"
    and "si_typeArgs (f (si c1 s)) = si_typeArgs (si c1 s)" and "si_templateOf (f (si c1 s)) = si_templateOf (si c1 s)"
  shows "kept c (updStruct s f c1)"
proof -
  have "s < length (h_structs c1)" using assms(1,2) by (simp add: kept_def bigger_def)
  from assms(3) [OF structOk_at [OF kept_ok [OF assms(1)] this]] updStruct_kept [OF kept_ok [OF assms(1)]] assms(4,5)
  have "kept c1 (updStruct s f c1)" by blast
  with assms(1) show ?thesis by (rule kept_trans)
qed

lemma fold_kept:
  assumes "contextOk c" and "\<And>x c'. x \<in> set xs \<Longrightarrow> contextOk c' \<Longrightarrow> bigger c c' \<Longrightarrow> kept c' (f x c')"
  shows "kept c (fold f xs c)"
  using assms
proof (induction xs arbitrary: c)
  case Nil
  then show ?case by (simp add: kept_refl)
next
  case (Cons x xs)
  have k: "kept c (f x c)" using Cons.prems(2) [OF _ Cons.prems(1) bigger_refl] by simp
  have "kept (f x c) (fold f xs (f x c))"
  proof (rule Cons.IH [OF kept_ok [OF k]])
    show "kept d (f y d)" if "y \<in> set xs" "contextOk d" "bigger (f x c) d" for y d
      using Cons.prems(2) [OF _ that(2) bigger_trans [OF kept_bigger [OF k] that(3)]] that(1) by simp
  qed
  with k show ?case by (auto intro: kept_trans)
qed

lemma fillInterface_kept:
  assumes "contextOk c" and "s < length (h_structs c)" and "list_all (validT c) args" and "validT c p"
  shows "kept c (fillInterface inst s owner args p c)"
proof -
  obtain r c1 where r: "substituteWith inst owner args p c = (r, c1)" by force
  with substituteWith_gives [OF assms(1,4,3), of owner] have "kept c c1" "validT c1 r" by (auto simp: givesPointer_def)
  with push_kept [OF this(1) assms(2)] r show ?thesis by (simp add: fillInterface_def structOk_def)
qed

lemma fillField_kept:
  assumes "contextOk c" and "s < length (h_structs c)" and "list_all (validT c) args" and "validT c (fi_type f)"
  shows "kept c (fillField inst s owner args f c)"
proof -
  obtain r c1 where r: "substituteWith inst owner args (fi_type f) c = (r, c1)" by force
  with substituteWith_gives [OF assms(1,4,3), of owner] have "kept c c1" "validT c1 r" by (auto simp: givesPointer_def)
  with push_kept [OF this(1) assms(2)] r show ?thesis by (simp add: fillField_def structOk_def)
qed

lemma mapS_substitute:
  assumes "contextOk c" and "list_all (validT c) args" and "list_all (validT c) ps"
    and "mapS (substituteWith inst owner args) ps c = (qs, c')"
  shows "kept c c'" and "list_all (validT c') qs"
proof -
  have "givesPointer d (substituteWith inst owner args p d)" if "contextOk d" "bigger c d" "validT d p" for d p
    using substituteWith_gives [OF that(1,3) list_valid_mono [OF that(2) assms(2)]] .
  from mapS_gives [where f = "substituteWith inst owner args", OF assms(1,3) this] assms(4)
  show "kept c c'" "list_all (validT c') qs" by simp_all
qed

lemma addSymbol_kept:
  assumes c: "contextOk c" and "symbolOk c y"
  shows "kept c (c\<lparr>h_symbols := h_symbols c @ [y]\<rparr>)"
proof (rule kept_update [OF c])
  let ?c = "c\<lparr>h_symbols := h_symbols c @ [y]\<rparr>"
  have b: "bigger c ?c" by (simp add: bigger_def)
  then show "bigger c ?c" .
  show "heapOk ?c" using c assms(2) b unfolding contextOk_def heapOk_def
    by (auto simp: list_all_iff intro: structOk_mono symbolOk_mono)
  show "instancesOk ?c" using instancesOk_same [OF _ b] c by (simp add: contextOk_def)
  show "infosOk ?c" using infosOk_same [OF _ b] c by (simp add: contextOk_def)
  show "lookupShape ?c = lookupShape c" by (rule lookupShape_cong) simp_all
qed (simp_all add: ty_def si_def)

lemma fillMethod_kept:
  assumes c: "contextOk c" and s: "s < length (h_structs c)" and args: "list_all (validT c) args"
    and m: "validY c (mi_symbol m)"
  shows "kept c (fillMethod inst s owner args m c)"
proof (cases "mi_symbol m")
  case None
  then show ?thesis using push_kept [OF kept_refl [OF c] s]
    by (simp add: fillMethod_def structOk_def validY_def)
next
  case (Some y)
  define copied where "copied = (sym c y)\<lparr>sy_methodOwner := Some s\<rparr>"
  have y: "symbolOk c copied"
    using symbolOk_at [OF c, of y] m Some by (simp add: copied_def symbolOk_def validY_def)
  obtain pts c1 where pts: "mapS (substituteWith inst owner args) (sy_paramTypes copied) c = (pts, c1)" by force
  from mapS_substitute [OF c args _ pts] y have k1: "kept c c1" "list_all (validT c1) pts" by (auto simp: symbolOk_def)
  obtain rt c2 where rt: "substituteWith inst owner args (sy_returnType copied) c1 = (rt, c2)" by force
  have "givesPointer c1 (rt, c2)"
    using substituteWith_gives [OF kept_ok [OF k1(1)], of "sy_returnType copied" args owner] rt y
      valid_mono(1) [OF kept_bigger [OF k1(1)]] list_valid_mono [OF kept_bigger [OF k1(1)] args]
    by (simp add: symbolOk_def)
  then have k2: "kept c1 c2" "validT c2 rt" by (auto simp: givesPointer_def)
  let ?c3 = "c2\<lparr>h_symbols := h_symbols c2 @ [copied\<lparr>sy_paramTypes := pts, sy_returnType := rt\<rparr>]\<rparr>"
  have "kept c2 ?c3"
    using addSymbol_kept [OF kept_ok [OF k2(1)]] k1(2) k2 list_valid_mono [OF kept_bigger [OF k2(1)]]
    by (simp add: symbolOk_def)
  with k1(1) k2(1) have k3: "kept c ?c3" by (blast intro: kept_trans)
  show ?thesis
    using push_kept [OF k3 s] Some pts rt by (simp add: fillMethod_def copied_def Let_def structOk_def validY_def)
qed

lemma fillBase_kept:
  assumes c: "contextOk c" and s: "s < length (h_structs c)" and args: "list_all (validT c) args" and T: "structOk c T"
  shows "kept c (fillBase inst s T owner args c)"
proof -
  let ?c1 = "updStruct s (\<lambda>x. x\<lparr>si_baseInfo := si_baseInfo T, si_baseFieldCount := si_baseFieldCount T,
    si_vtableSize := si_vtableSize T\<rparr>) c"
  have k1: "kept c ?c1" using push_kept [OF kept_refl [OF c] s] T by (simp add: structOk_def)
  show ?thesis
  proof (cases "\<exists>b bt. si_baseInfo T = Some b \<and> si_templateOf (si ?c1 b) = Some bt")
    case False
    with k1 show ?thesis by (auto simp: fillBase_def Let_def split: option.split)
  next
    case True
    then obtain b bt where b: "si_baseInfo T = Some b" "si_templateOf (si ?c1 b) = Some bt" by blast
    have "b < length (h_structs c)" using T b(1) by (simp add: structOk_def validS_def)
    then have "b < length (h_structs ?c1)" using kept_bigger [OF k1] by (simp add: bigger_def)
    from structOk_at [OF kept_ok [OF k1] this] b(2)
    have bt: "list_all (validT ?c1) (si_typeArgs (si ?c1 b))" "bt < length (h_structs ?c1)"
      by (auto simp: structOk_def validS_def)
    obtain as c2 where as: "mapS (substituteWith inst owner args) (si_typeArgs (si ?c1 b)) ?c1 = (as, c2)" by force
    note k2 = mapS_substitute [OF kept_ok [OF k1] list_valid_mono [OF kept_bigger [OF k1] args] bt(1) as]
    obtain cb c3 where cb: "inst bt TyClass as c2 = (cb, c3)" by force
    have "gives c2 (inst bt TyClass as c2)"
      using inst_gives [OF kept_ok [OF k2(1)], of bt TyClass as] bt(2) k2 by (auto simp: kept_def bigger_def)
    with cb have k3: "kept c2 c3" "cb < length (h_types c3)" by (auto simp: gives_def)
    have k: "kept c c3" using k1 k2(1) k3(1) by (blast intro: kept_trans)
    have "validS c3 (Some x)" if "t_structInfo (ty c3 cb) = Some x" for x
      using structInfo_valid [OF kept_ok [OF k3(1)] k3(2) that] by (simp add: validS_def)
    then have "kept c (updStruct s (\<lambda>x. x\<lparr>si_baseInfo := Some z\<rparr>) c3)" if "t_structInfo (ty c3 cb) = Some z" for z
      using push_kept [OF k s] that by (simp add: structOk_def)
    with k b as cb show ?thesis by (auto simp: fillBase_def Let_def split: option.split)
  qed
qed

lemma chain_kept: "contextOk c \<Longrightarrow> kept c (c\<lparr>instantiationChain := ch\<rparr>)"
  by (rule kept_same) (simp_all add: contextOk_def instancesOk_alt)

lemma fillInstantiation_kept:
  assumes c: "contextOk c" and s: "s < length (h_structs c)" and templ: "templ < length (h_structs c)"
    and args: "list_all (validT c) args"
  shows "kept c (fillInstantiation inst s templ args c)"
proof -
  let ?T = "si c templ" and ?owner = "OwnerStruct templ"
  let ?c1 = "c\<lparr>instantiationChain := instantiationChain c @ [instanceTypes c s]\<rparr>"
  note T = structOk_at [OF c templ]
  have later: "s < length (h_structs d)" "list_all (validT d) args" if "kept c d" for d
    using s args that list_valid_mono [OF kept_bigger [OF that]] by (auto simp: kept_def bigger_def)
  note k1 = chain_kept [OF c, of "instantiationChain c @ [instanceTypes c s]"]
  let ?c2 = "fillBase inst s ?T ?owner args ?c1"
  have k2: "kept c ?c2"
    using kept_trans [OF k1 fillBase_kept [OF kept_ok [OF k1] later [OF k1] structOk_mono [OF kept_bigger [OF k1] T]]] .
  let ?c3 = "updStruct s (\<lambda>x. x\<lparr>si_implementedInterfaces := []\<rparr>) ?c2"
  have k3: "kept c ?c3" using push_kept [OF k2 s] by (simp add: structOk_def)
  let ?c4 = "fold (fillInterface inst s ?owner args) (si_implementedInterfaces ?T) ?c3"
  have "kept ?c3 ?c4"
  proof (rule fold_kept [OF kept_ok [OF k3]])
    fix x d
    assume x: "x \<in> set (si_implementedInterfaces ?T)" and d: "contextOk d" "bigger ?c3 d"
    have kd: "kept c d" using d bigger_trans [OF kept_bigger [OF k3]] by (simp add: kept_def)
    show "kept d (fillInterface inst s ?owner args x d)"
      using fillInterface_kept [OF d(1) later [OF kd]] T x valid_mono(1) [OF kept_bigger [OF kd]]
      by (auto simp: structOk_def list_all_iff)
  qed
  then have k4: "kept c ?c4" by (rule kept_trans [OF k3])
  let ?c5 = "fold (fillField inst s ?owner args) (si_fields ?T) ?c4"
  have "kept ?c4 ?c5"
  proof (rule fold_kept [OF kept_ok [OF k4]])
    fix x d
    assume x: "x \<in> set (si_fields ?T)" and d: "contextOk d" "bigger ?c4 d"
    have kd: "kept c d" using d bigger_trans [OF kept_bigger [OF k4]] by (simp add: kept_def)
    show "kept d (fillField inst s ?owner args x d)"
      using fillField_kept [OF d(1) later [OF kd]] T x valid_mono(1) [OF kept_bigger [OF kd]]
      by (auto simp: structOk_def list_all_iff)
  qed
  then have k5: "kept c ?c5" by (rule kept_trans [OF k4])
  let ?c6 = "fold (fillMethod inst s ?owner args) (si_methods ?T) ?c5"
  have "kept ?c5 ?c6"
  proof (rule fold_kept [OF kept_ok [OF k5]])
    fix x d
    assume x: "x \<in> set (si_methods ?T)" and d: "contextOk d" "bigger ?c5 d"
    have kd: "kept c d" using d bigger_trans [OF kept_bigger [OF k5]] by (simp add: kept_def)
    show "kept d (fillMethod inst s ?owner args x d)"
      using fillMethod_kept [OF d(1) later [OF kd]] T x valid_mono(3) [OF kept_bigger [OF kd]]
      by (auto simp: structOk_def list_all_iff)
  qed
  then have k6: "kept c ?c6" by (rule kept_trans [OF k5])
  show ?thesis
    using kept_trans [OF k6 chain_kept [OF kept_ok [OF k6]]] unfolding fillInstantiation_def Let_def .
qed

end

lemma overflow_kept: "contextOk c \<Longrightarrow> kept c (recordInstantiationOverflow c)"
  unfolding recordInstantiationOverflow_def Let_def
  by (auto split: prod.split intro!: kept_refl kept_same simp: contextOk_def instancesOk_alt)

lemma instanceShell_ok:
  assumes "structOk c T" and "templ < length (h_structs c)" and "list_all (validT c) args"
  shows "structOk c (instanceShell T templ args)"
  using assms newStructInfo_ok [of c] by (simp add: instanceShell_def structOk_def validS_def)

lemma cached_instance: "contextOk c \<Longrightarrow> instantiationCache c key = Some t \<Longrightarrow> gives c (t, c)"
  by (cases key) (simp add: gives_def kept_refl contextOk_def instancesOk_def)

lemma addInstance_kept:
  assumes c: "contextOk c" and k: "k \<in> {TyStruct, TyClass}" and templ: "templ < length (h_structs c)"
    and args: "list_all (validT c) args" and fresh: "instantiationCache c (templ, args) = None"
    and a: "addNominal k (instanceShell (si c templ) templ args) c = (t, s, c1)"
    and c2: "c2 = c1\<lparr>instantiationCache := (instantiationCache c1)((templ, args) \<mapsto> t),
      instantiationList := instantiationList c1 @ [t], instanceTypes := (instanceTypes c1)(s \<mapsto> t)\<rparr>"
  shows "kept c c2" and "t < length (h_types c2)" and "s < length (h_structs c2)"
proof -
  note f = addNominal_forms [OF a]
  let ?shell = "instanceShell (si c templ) templ args"
  have len: "length (h_types c2) = Suc (length (h_types c))" by (simp add: c2 f)
  have shapes: "ty c2 u = ty c u" if "u < length (h_types c)" for u using that by (simp add: c2 f ty_def nth_append)
  have same: "si c2 u = si c u" if "u < length (h_structs c)" for u using that by (simp add: c2 f si_def nth_append)
  have new: "isInstance c2 t m as \<longleftrightarrow> m = templ \<and> as = args" for m as
    using k by (auto simp: isInstance_def c2 f ty_def si_def nth_append nominalType_def nominalKinds_def newType_def
        instanceShell_def)
  have "cacheOk c2" unfolding cacheOk_def
  proof (intro allI)
    fix m as u
    have cache: "instantiationCache c (m, as) = Some u \<longleftrightarrow> u < length (h_types c) \<and> isInstance c u m as"
      using c by (simp add: contextOk_def cacheOk_def)
    have old: "isInstance c2 u m as \<longleftrightarrow> isInstance c u m as" if "u < length (h_types c)"
      by (rule isInstance_cong [OF c that]) (simp_all add: shapes [OF that] same)
    have "\<not> isInstance c u templ args" if "u < length (h_types c)"
      using fresh c that unfolding contextOk_def cacheOk_def by (metis option.distinct(1))
    then show "instantiationCache c2 (m, as) = Some u \<longleftrightarrow> u < length (h_types c2) \<and> isInstance c2 u m as"
      using cache old new f(1) len by (cases "u < length (h_types c)") (auto simp: c2 f less_Suc_eq)
  qed
  moreover have "instancesOk c2"
  proof -
    have i: "instancesOk c" using c by (simp add: contextOk_def)
    have "instancesOk (c2\<lparr>instantiationCache := instantiationCache c, instantiationList := instantiationList c\<rparr>)"
      by (rule instancesOk_same [OF i]) (simp_all add: bigger_def c2 f)
    then show ?thesis unfolding instancesOk_alt by (auto simp: c2 f)
  qed
  moreover have "k \<in> nominalKinds" using k by (auto simp: nominalKinds_def)
  ultimately show "kept c c2"
    by (intro nominal_kept [OF c _ instanceShell_ok [OF structOk_at [OF c templ] templ args]])
      (auto simp: c2 f intro: lookupShape_cong)
  show "t < length (h_types c2)" "s < length (h_structs c2)" by (simp_all add: c2 f)
qed

lemma pending_kept:
  assumes "contextOk c" and "s < length (h_structs c)" and "templ < length (h_structs c)" and "list_all (validT c) args"
  shows "kept c (c\<lparr>pendingInstantiations := pendingInstantiations c @ [(s, templ, args)]\<rparr>)"
  by (rule kept_same) (use assms in \<open>auto simp: contextOk_def instancesOk_alt list_valid_alt\<close>)

lemma instantiateD_calls: "instantiate_calls (instantiateD d)"
proof (induction d)
  case 0
  show ?case
  proof
    fix c templ k args
    assume "contextOk c"
    then show "gives c (instantiateD 0 templ k args c)"
      using cached_instance [of c "(templ, args)"] overflow_kept [of c] errorType_valid kept_ok [of c]
      by (auto simp: gives_def kept_def bigger_def split: option.split dest: less_le_trans)
  qed
next
  case (Suc d)
  show ?case
  proof
    fix c templ k args
    assume c: "contextOk c" and templ: "templ < length (h_structs c)" and k: "k \<in> {TyStruct, TyClass}"
      and args: "list_all (validT c) args"
    show "gives c (instantiateD (Suc d) templ k args c)"
    proof (cases "instantiationCache c (templ, args) = None \<and> length (instantiationChain c) < kMaxInstantiationDepth")
      case False
      have "gives c (errorType c, recordInstantiationOverflow c)"
        using overflow_kept [OF c] errorType_valid [OF c] by (auto simp: gives_def kept_def bigger_def)
      with False cached_instance [OF c] show ?thesis by (auto simp: Let_def split: option.split)
    next
      case True
      then have fresh: "instantiationCache c (templ, args) = None" ..
      obtain t s c1 where a: "addNominal k (instanceShell (si c templ) templ args) c = (t, s, c1)"
        by (metis prod_cases3)
      define c2 where "c2 = c1\<lparr>instantiationCache := (instantiationCache c1)((templ, args) \<mapsto> t),
        instantiationList := instantiationList c1 @ [t], instanceTypes := (instanceTypes c1)(s \<mapsto> t)\<rparr>"
      note n = addInstance_kept [OF c k templ args fresh a c2_def]
      have templ2: "templ < length (h_structs c2)" and args2: "list_all (validT c2) args"
        using templ kept_bigger [OF n(1)] list_valid_mono [OF kept_bigger [OF n(1)] args] by (auto simp: bigger_def)
      have "kept c2 (if si_membersCollected (si c2 templ) then fillInstantiation (instantiateD d) s templ args c2
          else c2\<lparr>pendingInstantiations := pendingInstantiations c2 @ [(s, templ, args)]\<rparr>)" (is "kept c2 ?c3")
        using instantiate_calls.fillInstantiation_kept [OF Suc kept_ok [OF n(1)] n(3) templ2 args2]
          pending_kept [OF kept_ok [OF n(1)] n(3) templ2 args2] by simp
      then have "gives c (t, ?c3)" using n(1,2) by (auto simp: gives_def kept_def bigger_def)
      with True a show ?thesis unfolding c2_def by (auto simp: Let_def)
    qed
  qed
qed

interpretation at_depth: instantiate_calls "instantiateD d" for d
  by (rule instantiateD_calls)

interpretation internal: instantiate_calls instantiateInternal
  by unfold_locales (unfold instantiateInternal_def, rule at_depth.inst_gives)

lemma instantiate_gives:
  assumes "contextOk c" and "validT c p" and "list_all (validT c) args"
    and "\<And>t. p = Some t \<Longrightarrow> t_structInfo (ty c t) \<noteq> None \<Longrightarrow> kind c t \<in> {TyStruct, TyClass}"
  shows "gives c (instantiate p args c)"
proof (cases "\<exists>t s. p = Some t \<and> t_structInfo (ty c t) = Some s")
  case False
  with gives_error [OF assms(1)] show ?thesis by (auto simp: instantiate_def split: option.split)
next
  case True
  then obtain t s where t: "p = Some t" "t_structInfo (ty c t) = Some s" by blast
  with assms(2) structInfo_valid [OF assms(1)] have "s < length (h_structs c)" by (simp add: validT_def)
  from internal.inst_gives [OF assms(1) this _ assms(3)] assms(4) t show ?thesis by (simp add: instantiate_def)
qed

lemma substitute_gives:
  "contextOk c \<Longrightarrow> validT c t \<Longrightarrow> list_all (validT c) args \<Longrightarrow> givesPointer c (substitute t owner args c)"
  unfolding substitute_def by (rule internal.substituteWith_gives)

lemma pending_subset:
  assumes c: "contextOk c" and "set ps \<subseteq> set (pendingInstantiations c)"
  shows "kept c (c\<lparr>pendingInstantiations := ps\<rparr>)"
proof (rule kept_same [OF c])
  have "instancesOk c" using c by (simp add: contextOk_def)
  with assms(2) show "instancesOk (c\<lparr>pendingInstantiations := ps\<rparr>)" unfolding instancesOk_alt
    by (simp, blast)
qed simp_all

text \<open>Filling an instantiation that was put off.\<close>

lemma fill_pending:
  assumes c: "contextOk c" and p: "(s, templ, args) \<in> set (pendingInstantiations c)"
    and ps: "set ps \<subseteq> set (pendingInstantiations c)"
  shows "kept c (fillInstantiation instantiateInternal s templ args (c\<lparr>pendingInstantiations := ps\<rparr>))"
proof -
  let ?c = "c\<lparr>pendingInstantiations := ps\<rparr>"
  note k = pending_subset [OF c ps]
  have v: "s < length (h_structs c)" "templ < length (h_structs c)" "list_all (validT c) args"
    using c p by (auto simp: contextOk_def instancesOk_def list_all_iff)
  have "kept ?c (fillInstantiation instantiateInternal s templ args ?c)"
    using internal.fillInstantiation_kept [OF kept_ok [OF k]] v list_valid_mono [OF kept_bigger [OF k] v(3)] by simp
  with k show ?thesis by (rule kept_trans)
qed

lemma materializeStep_kept:
  assumes "contextOk c" and "pendingInstantiations c \<noteq> []"
  shows "kept c (materializeStep c)"
proof -
  obtain s templ args where l: "last (pendingInstantiations c) = (s, templ, args)" by (metis prod_cases3)
  have "kept c (fillInstantiation instantiateInternal s templ args
      (c\<lparr>pendingInstantiations := butlast (pendingInstantiations c)\<rparr>))"
    by (rule fill_pending [OF assms(1)]) (use last_in_set [OF assms(2)] l in \<open>auto dest: in_set_butlastD\<close>)
  then show ?thesis by (simp add: materializeStep_def l)
qed

lemma ensureFilled_kept:
  assumes "contextOk c"
  shows "kept c (ensureFilled s c)"
proof (cases "dropWhile (\<lambda>(i, _). i \<noteq> s) (pendingInstantiations c)")
  case Nil
  then have "ensureFilled s c = c" unfolding ensureFilled_def Let_def Nil by simp
  with kept_refl [OF assms] show ?thesis by simp
next
  case (Cons x later)
  obtain i templ args where x: "x = (i, templ, args)" by (metis prod_cases3)
  let ?earlier = "takeWhile (\<lambda>(i, _). i \<noteq> s) (pendingInstantiations c)"
  have p: "set (pendingInstantiations c) = set ?earlier \<union> insert x (set later)"
    using takeWhile_dropWhile_id [of "\<lambda>(i, _). i \<noteq> s" "pendingInstantiations c"] unfolding Cons
    by (metis list.simps(15) set_append)
  have "kept c (fillInstantiation instantiateInternal i templ args (c\<lparr>pendingInstantiations := ?earlier @ later\<rparr>))"
    by (rule fill_pending [OF assms]) (use p x in auto)
  with kept_refl [OF assms] Cons x show ?thesis by (simp add: ensureFilled_def)
qed

lemma recordFunctionInstantiation_kept: "contextOk c \<Longrightarrow> kept c (recordFunctionInstantiation fn args c)"
  unfolding recordFunctionInstantiation_def
  by (auto intro!: kept_refl kept_same simp: contextOk_def instancesOk_alt)

lemma primitiveFromName_kept:
  assumes "contextOk c"
  shows "kept c (snd (primitiveFromName name c))"
proof (cases "map_of (map (\<lambda>(s, k). (u16 s, k)) PRIMITIVE_NAMES) name")
  case None
  with kept_refl [OF assms] show ?thesis by (simp add: primitiveFromName_def)
next
  case (Some k)
  then have "k \<in> set plainKinds" by (force simp: plainKinds_def dest!: map_of_SomeD)
  from getPrimitive_gives [OF assms this] Some show ?thesis
    by (cases "getPrimitive k c") (simp add: primitiveFromName_def gives_def)
qed

text \<open>Clients edit structs and symbols in place, and add symbols.\<close>

lemma editSymbol_kept:
  assumes c: "contextOk c" and y: "symbolOk c y"
  shows "kept c (c\<lparr>h_symbols := (h_symbols c)[i := y]\<rparr>)"
proof (rule kept_update [OF c])
  let ?c = "c\<lparr>h_symbols := (h_symbols c)[i := y]\<rparr>"
  have b: "bigger c ?c" by (simp add: bigger_def)
  then show "bigger c ?c" .
  show "heapOk ?c" using c y b unfolding contextOk_def heapOk_def
    by (auto simp: list_all_iff dest!: set_update_subset_insert [THEN subsetD] intro: structOk_mono symbolOk_mono)
  show "instancesOk ?c" using instancesOk_same [OF _ b] c by (simp add: contextOk_def)
  show "infosOk ?c" using infosOk_same [OF _ b] c by (simp add: contextOk_def)
  show "lookupShape ?c = lookupShape c" by (rule lookupShape_cong) simp_all
qed (simp_all add: ty_def si_def)

lemma refreshMethod_kept:
  assumes c: "contextOk c" and s: "s < length (h_structs c)" "templ < length (h_structs c)"
    and i: "i < length (si_methods (si c s))" "i < length (si_methods (si c templ))"
  shows "kept c (refreshMethod s templ i c)"
proof -
  let ?tm = "si_methods (si c templ) ! i"
  let ?c1 = "updStruct s (\<lambda>x. x\<lparr>si_methods := (si_methods x)[i := (si_methods x ! i)\<lparr>mi_vtableSlot := mi_vtableSlot ?tm\<rparr>]\<rparr>) c"
  have "structOk c (si c s)" by (rule structOk_at [OF c s(1)])
  then have k1: "kept c ?c1" using i
    by (intro internal.push_kept [OF kept_refl [OF c] s(1)])
      (auto simp: structOk_def list_all_length nth_list_update)
  have sym: "sym ?c1 = sym c" by (simp add: updStruct_def sym_def fun_eq_iff)
  have m: "mi_symbol (si_methods (si ?c1 s) ! i) = mi_symbol (si_methods (si c s) ! i)"
    using s i by (simp add: updStruct_def si_def)
  have "kept ?c1 (?c1\<lparr>h_symbols := (h_symbols ?c1)[y := (sym ?c1 y)\<lparr>sy_abiThrows := b\<rparr>]\<rparr>)"
    if "mi_symbol (si_methods (si c s) ! i) = Some y" for y b
  proof (rule editSymbol_kept [OF kept_ok [OF k1]])
    have "y < length (h_symbols c)"
      using structOk_at [OF c s(1)] i that by (force simp: structOk_def list_all_length validY_def)
    then have "symbolOk ?c1 (sym ?c1 y)" using symbolOk_at [OF kept_ok [OF k1]] by (simp add: updStruct_def)
    then show "symbolOk ?c1 ((sym ?c1 y)\<lparr>sy_abiThrows := b\<rparr>)" by (simp add: symbolOk_def)
  qed
  with k1 show ?thesis by (auto simp: refreshMethod_def Let_def m intro: kept_trans split: option.split)
qed

lemma refreshMethod_lengths:
  "length (h_structs (refreshMethod s templ i c)) = length (h_structs c)"
  "length (h_types (refreshMethod s templ i c)) = length (h_types c)"
  "length (si_methods (si (refreshMethod s templ i c) u)) = length (si_methods (si c u))"
proof -
  show "length (h_structs (refreshMethod s templ i c)) = length (h_structs c)"
    and "length (h_types (refreshMethod s templ i c)) = length (h_types c)"
    by (simp_all add: refreshMethod_def Let_def updStruct_def split: option.split)
  have "length (si_methods (si (updStruct s (\<lambda>x. x\<lparr>si_methods := (si_methods x)[i := g x]\<rparr>) c) u)) = length (si_methods (si c u))" for g
    by (cases "u = s"; cases "s < length (h_structs c)") (auto simp: updStruct_def si_def list_update_beyond)
  then show "length (si_methods (si (refreshMethod s templ i c) u)) = length (si_methods (si c u))"
    by (auto simp: refreshMethod_def Let_def updStruct_def si_def split: option.split)
qed

lemma refreshMethods_kept:
  assumes "contextOk c" and "s < length (h_structs c)" and "templ < length (h_structs c)"
    and "\<forall>i \<in> set is. i < length (si_methods (si c s)) \<and> i < length (si_methods (si c templ))"
  shows "kept c (fold (refreshMethod s templ) is c)"
  using assms
proof (induction "is" arbitrary: c)
  case Nil
  then show ?case by (simp add: kept_refl)
next
  case (Cons i "is")
  have k: "kept c (refreshMethod s templ i c)" using refreshMethod_kept [OF Cons.prems(1-3)] Cons.prems(4) by simp
  have "kept (refreshMethod s templ i c) (fold (refreshMethod s templ) is (refreshMethod s templ i c))"
    by (rule Cons.IH [OF kept_ok [OF k]]) (use Cons.prems in \<open>simp_all add: refreshMethod_lengths\<close>)
  with k show ?case by (auto intro: kept_trans)
qed

lemma refreshInstance_kept:
  assumes c: "contextOk c" and t: "t < length (h_types c)"
  shows "kept c (refreshInstance t c)"
proof (cases "\<exists>s templ. t_structInfo (ty c t) = Some s \<and> si_templateOf (si c s) = Some templ")
  case False
  with kept_refl [OF c] show ?thesis by (auto simp: refreshInstance_def split: option.split)
next
  case True
  then obtain s templ where s: "t_structInfo (ty c t) = Some s" "si_templateOf (si c s) = Some templ" by blast
  have v: "s < length (h_structs c)" by (rule structInfo_valid [OF c t s(1)])
  have w: "templ < length (h_structs c)" using structOk_at [OF c v] s(2) by (simp add: structOk_def validS_def)
  let ?c1 = "updStruct s (\<lambda>x. x\<lparr>si_vtableSize := si_vtableSize (si c templ)\<rparr>) c"
  have k: "kept c ?c1" by (rule internal.push_kept [OF kept_refl [OF c] v]) (simp_all add: structOk_def)
  have "kept ?c1 (fold (refreshMethod s templ) [0..<min (length (si_methods (si ?c1 s))) (length (si_methods (si ?c1 templ)))] ?c1)"
    by (rule refreshMethods_kept [OF kept_ok [OF k]]) (use v w in \<open>auto simp: updStruct_def\<close>)
  with k s show ?thesis by (auto simp: refreshInstance_def Let_def intro: kept_trans)
qed

lemma refreshInstantiationInheritance_kept:
  assumes c: "contextOk c"
  shows "kept c (refreshInstantiationInheritance c)"
  unfolding refreshInstantiationInheritance_def
proof (rule internal.fold_kept [OF c])
  fix t d
  assume t: "t \<in> set (instantiationList c)" and d: "contextOk d" "bigger c d"
  from t c d(2) have "t < length (h_types d)" by (auto simp: contextOk_def instancesOk_def list_all_iff bigger_def)
  with d(1) show "kept d (refreshInstance t d)" by (rule refreshInstance_kept)
qed

section \<open>Contexts a program builds\<close>

lemma mkTypeContext_ok: "contextOk mkTypeContext"
proof -
  have types: "h_types mkTypeContext = [newType TyError None, newType TyNull None]"
    and fields: "h_structs mkTypeContext = []" "h_symbols mkTypeContext = []" "errorType mkTypeContext = 0"
      "nullType mkTypeContext = 1" "instantiationCache mkTypeContext = Map.empty" "instantiationList mkTypeContext = []"
      "pendingInstantiations mkTypeContext = []"
    by (simp_all add: mkTypeContext_def allocate_def emptyContext_def)
  have ty: "ty mkTypeContext 0 = newType TyError None" "ty mkTypeContext 1 = newType TyNull None"
    by (simp_all add: ty_def types)
  have lookup: "lookupShape mkTypeContext sh =
      (if sh = ShPlain TyError then Some 0 else if sh = ShPlain TyNull then Some 1 else None)" for sh
    by (cases sh) (auto simp: mkTypeContext_def allocate_def emptyContext_def split: option.split)
  have kinds: "shapeOf (newType TyError None) = ShPlain TyError" "shapeOf (newType TyNull None) = ShPlain TyNull"
      "\<not> nominalType (newType TyError None)" "\<not> nominalType (newType TyNull None)"
    by (auto simp: shapeOf_def nominalType_def nominalKinds_def newType_def)
  have two: "t < length (h_types mkTypeContext) \<longleftrightarrow> t = 0 \<or> t = 1" for t by (auto simp: types)
  have "typesOk mkTypeContext"
    by (simp add: typesOk_def types typeOk_def ty [simplified] newType_def upt_rec)
  then have "interned mkTypeContext"
    unfolding interned_def two using lookup kinds ty fields by (auto split: if_splits)
  moreover have plain: "\<not> nominalType (ty mkTypeContext t)" if "t < length (h_types mkTypeContext)" for t
    using that [unfolded two] kinds ty by (elim disjE) simp_all
  then have "argsBelow mkTypeContext" "cacheOk mkTypeContext"
    using fields by (auto simp: argsBelow_def cacheOk_def isInstance_nominal)
  ultimately show ?thesis
    by (simp add: contextOk_def heapOk_def instancesOk_def infosOk_def fields types newType_info)
qed

text \<open>
  What a client does with a context: the operations, on pointers into the context, and its own edits of the
  structs and symbols it declares. An edit leaves alone what makes a struct an instantiation.
\<close>

inductive built :: "TypeContext \<Rightarrow> bool" where
  start: "built mkTypeContext"
| primitive: "built c \<Longrightarrow> k \<in> set plainKinds \<Longrightarrow> built (snd (getPrimitive k c))"
| primitive_name: "built c \<Longrightarrow> built (snd (primitiveFromName n c))"
| optional: "built c \<Longrightarrow> validT c p \<Longrightarrow> built (snd (getOptional p c))"
| array: "built c \<Longrightarrow> validT c p \<Longrightarrow> built (snd (getArray p c))"
| func: "built c \<Longrightarrow> list_all (validT c) ps \<Longrightarrow> validT c p \<Longrightarrow> built (snd (getFunction ps p c))"
| type_param: "built c \<Longrightarrow> list_all (validS c) bounds \<Longrightarrow> built (snd (getTypeParam owner i n bounds c))"
| struct: "built c \<Longrightarrow> built (snd (registerStruct m n c))"
| class_type: "built c \<Longrightarrow> built (snd (registerClass m n c))"
| interface_type: "built c \<Longrightarrow> built (snd (registerInterface m n c))"
| external: "built c \<Longrightarrow> built (snd (registerExternalType m n c))"
| enum: "built c \<Longrightarrow> built (snd (registerEnum m n c))"
| bind: "built c \<Longrightarrow> p < length (h_types c) \<Longrightarrow> kind c p \<in> set plainKinds \<Longrightarrow> built (snd (bindPrimitive (Some p) m n c))"
| instance_of: "built c \<Longrightarrow> t < length (h_types c) \<Longrightarrow> kind c t \<in> {TyStruct, TyClass} \<Longrightarrow> list_all (validT c) args \<Longrightarrow>
    built (snd (instantiate (Some t) args c))"
| substituted: "built c \<Longrightarrow> validT c p \<Longrightarrow> list_all (validT c) args \<Longrightarrow> built (snd (substitute p owner args c))"
| function_instance: "built c \<Longrightarrow> built (recordFunctionInstantiation fn args c)"
| materialize: "built c \<Longrightarrow> pendingInstantiations c \<noteq> [] \<Longrightarrow> built (materializeStep c)"
| filled: "built c \<Longrightarrow> built (ensureFilled s c)"
| refreshed: "built c \<Longrightarrow> built (refreshInstantiationInheritance c)"
| overflows_taken: "built c \<Longrightarrow> built (snd (takeInstantiationOverflows c))"
| throws_clause: "built c \<Longrightarrow> t < length (h_types c) \<Longrightarrow> kind c t = TyFunction \<Longrightarrow>
    built (updType t (\<lambda>x. x\<lparr>t_hasThrowsClause := True\<rparr>) c)"
| edit_struct: "built c \<Longrightarrow> structOk c x \<Longrightarrow> si_typeArgs x = si_typeArgs (si c s) \<Longrightarrow>
    si_templateOf x = si_templateOf (si c s) \<Longrightarrow> built (updStruct s (\<lambda>_. x) c)"
| add_symbol: "built c \<Longrightarrow> symbolOk c y \<Longrightarrow> built (c\<lparr>h_symbols := h_symbols c @ [y]\<rparr>)"
| edit_symbol: "built c \<Longrightarrow> symbolOk c y \<Longrightarrow> built (c\<lparr>h_symbols := (h_symbols c)[i := y]\<rparr>)"

lemma takeInstantiationOverflows_kept: "contextOk c \<Longrightarrow> kept c (snd (takeInstantiationOverflows c))"
  unfolding takeInstantiationOverflows_def by (auto intro!: kept_same simp: contextOk_def instancesOk_alt)

lemma throws_clause_kept:
  assumes "contextOk c" and "t < length (h_types c)" and "kind c t = TyFunction"
  shows "kept c (updType t (\<lambda>x. x\<lparr>t_hasThrowsClause := True\<rparr>) c)"
  by (rule updType_kept [OF assms(1)])
    (use assms structInfo_valid [OF assms(1,2)] in \<open>auto simp: shapeOf_def validS_def split: option.split\<close>)

lemma gives_ok: "gives c r \<Longrightarrow> contextOk (snd r)" and givesPointer_ok: "givesPointer c q \<Longrightarrow> contextOk (snd q)"
  by (simp_all add: gives_def givesPointer_def kept_def)

lemma built_ok: "built c \<Longrightarrow> contextOk c"
proof (induction rule: built.induct)
  case start
  show ?case by (rule mkTypeContext_ok)
next
  case (bind c p m n)
  then show ?case by (intro kept_ok [OF bindPrimitive_kept]) (auto simp: validT_def)
next
  case (instance_of c t args)
  then show ?case by (intro gives_ok [OF instantiate_gives]) (auto simp: validT_def)
next
  case (edit_struct c x s)
  then show ?case by (intro kept_ok [OF updStruct_kept]) auto
qed (blast intro: gives_ok givesPointer_ok kept_ok getPrimitive_gives primitiveFromName_kept getOptional_gives
      getArray_gives getFunction_gives getTypeParam_gives registerStruct_gives registerClass_gives
      registerInterface_gives registerExternalType_gives registerEnum_gives substitute_gives
      recordFunctionInstantiation_kept materializeStep_kept ensureFilled_kept refreshInstantiationInheritance_kept
      takeInstantiationOverflows_kept throws_clause_kept internal.addSymbol_kept editSymbol_kept)+

section \<open>Properties\<close>

text \<open>C15: in every context a program can build, \<open>Type::equals\<close> is pointer identity: two types that are equal
  by structure are the same object, so that the code may compare type pointers.\<close>

theorem equal_types_are_identical:
  assumes "built c" and "a < length (h_types c)" and "b < length (h_types c)"
  shows "equals c a (Some b) \<longleftrightarrow> a = b"
  using equals_identity [of c a b] built_ok [OF assms(1)] assms(2,3) by (simp add: contextOk_def)

text \<open>A context with \<open>int\<close>, \<open>int[]\<close> and \<open>int[]?\<close>, which were asked for twice.\<close>

definition arrayContext :: TypeContext where
  "arrayContext =
     (let (i, c1) = getPrimitive TyInt mkTypeContext; (a, c2) = getArray (Some i) c1; (o1, c3) = getOptional (Some a) c2;
          (i', c4) = getPrimitive TyInt c3; (a', c5) = getArray (Some i') c4; (o2, c6) = getOptional (Some a') c5
      in c6)"

lemma arrayContext_types:
  "h_types arrayContext = [newType TyError None, newType TyNull None, newType TyInt None, newType TyArray (Some 2),
     newType TyOptional (Some 3)]"
  by code_simp

lemma arrayContext_built: "built arrayContext"
proof -
  let ?c1 = "snd (getPrimitive TyInt mkTypeContext)"
  let ?c2 = "snd (getArray (Some 2) ?c1)"
  let ?c3 = "snd (getOptional (Some 3) ?c2)"
  have "built ?c1" by (intro built.intros) (simp add: plainKinds_def PRIMITIVE_NAMES_def)
  moreover have "validT ?c1 (Some 2)" "validT ?c2 (Some 3)" by code_simp+
  ultimately have "built ?c3" by (blast intro: built.intros)
  moreover have "arrayContext = ?c3"
    by (simp add: arrayContext_def mkTypeContext_def allocate_def emptyContext_def getPrimitive_def getArray_def
        getOptional_def ty_def newType_def eval_nat_numeral)
  ultimately show ?thesis by simp
qed

theorem equal_types_are_identical_witness:
  "equals arrayContext 4 (Some 4) \<and> \<not> equals arrayContext 3 (Some 4)"
  using equal_types_are_identical [OF arrayContext_built, of 4 4] equal_types_are_identical [OF arrayContext_built, of 3 4]
  by (simp add: arrayContext_types)

end
