(* ===== verification/TypeInstantiation.thy ===== *)
theory TypeInstantiation
  imports TypeInterning "HOL-Library.Sublist"
begin

text \<open>
  What instantiating a generic type does: nothing that exists changes, the recursion of \<open>instantiateInternal\<close>
  and \<open>fillInstantiation\<close> is cut off by the length of the chain and not by the bound the model adds, \<open>substitute\<close>
  is substitution on the trees that types stand for.
\<close>

section \<open>What instantiation leaves alone\<close>

definition sameInstance :: "StructInfo \<Rightarrow> StructInfo \<Rightarrow> bool" where
  "sameInstance x y \<longleftrightarrow> si_typeArgs x = si_typeArgs y \<and> si_templateOf x = si_templateOf y \<and>
     si_membersCollected x = si_membersCollected y"

lemma sameInstance_refl: "sameInstance x x"
  by (simp add: sameInstance_def)

definition framed :: "TypeContext \<Rightarrow> TypeContext \<Rightarrow> bool" where
  "framed c c' \<longleftrightarrow> instantiationChain c' = instantiationChain c \<and> instantiationCache c \<subseteq>\<^sub>m instantiationCache c' \<and>
     prefix (h_types c) (h_types c') \<and> length (h_structs c) \<le> length (h_structs c') \<and>
     (\<forall>s < length (h_structs c). sameInstance (si c' s) (si c s))"

lemma framed_refl: "framed c c"
  by (simp add: framed_def sameInstance_refl)

lemma framed_trans: "framed a b \<Longrightarrow> framed b c \<Longrightarrow> framed a c"
  by (auto simp: framed_def sameInstance_def intro: map_le_trans prefix_order.trans)

lemma framed_cache: "framed c c' \<Longrightarrow> instantiationCache c key = Some t \<Longrightarrow> instantiationCache c' key = Some t"
  unfolding framed_def map_le_def by (metis domI)

lemma framed_same:
  assumes "instantiationChain c' = instantiationChain c" and "instantiationCache c' = instantiationCache c"
    and "h_types c' = h_types c @ ts" and "h_structs c' = h_structs c"
  shows "framed c c'"
  using assms by (simp add: framed_def si_def sameInstance_refl)

lemma getArray_framed: "framed c (snd (getArray p c))"
  unfolding getArray_def allocate_def
  by (auto split: option.split intro: framed_refl framed_same)

lemma getOptional_framed: "framed c (snd (getOptional p c))"
  unfolding getOptional_def allocate_def
  by (auto split: option.split intro: framed_refl framed_same)

lemma getFunction_framed: "framed c (snd (getFunction ps p c))"
  unfolding getFunction_def allocate_def updType_def Let_def
  by (auto split: option.split intro: framed_refl framed_same)

lemma updStruct_framed:
  assumes "\<And>x. sameInstance (f x) x"
  shows "framed c (updStruct s f c)"
proof -
  have "sameInstance (si (updStruct s f c) u) (si c u)" if "u < length (h_structs c)" for u
    using that assms by (cases "u = s") (simp_all add: updStruct_def si_def sameInstance_refl)
  then show ?thesis by (simp add: framed_def updStruct_def)
qed

lemma overflow_framed: "framed c (recordInstantiationOverflow c)"
  unfolding recordInstantiationOverflow_def Let_def
  by (auto split: prod.split intro: framed_refl framed_same)

lemma addInstance_framed:
  assumes "addNominal k info c = (t, s, c1)" and "instantiationCache c key = None"
  shows "framed c (c1\<lparr>instantiationCache := (instantiationCache c1)(key \<mapsto> t), instantiationList := l, instanceTypes := m\<rparr>)"
  using assms(2) addNominal_forms [OF assms(1)]
  by (auto simp: framed_def si_def nth_append sameInstance_refl map_le_def)

locale framed_calls =
  fixes inst :: instantiator
  assumes inst_framed: "framed c (snd (inst templ k args c))"
begin

lemma mapS_framed: "(\<And>p c. framed c (snd (f p c))) \<Longrightarrow> framed c (snd (mapS f ps c))"
proof (induction ps arbitrary: c)
  case (Cons p ps)
  obtain q c1 where q: "f p c = (q, c1)" by force
  obtain qs c2 where qs: "mapS f ps c1 = (qs, c2)" by force
  from Cons.prems [of c p] Cons.IH [OF Cons.prems, of c1] q qs show ?case by (auto intro: framed_trans)
qed (simp add: framed_refl)

lemma substituteF_framed: "framed c (snd (substituteF n inst owner args t c))"
proof (induction n arbitrary: t c)
  case (Suc n)
  note steps = Suc mapS_framed [of "substituteF n inst owner args", OF Suc]
  have get: "framed c (snd (let (e, c1) = substituteF n inst owner args p c; (r, c2) = g e c1 in (Some r, c2)))"
    if "\<And>e c. framed c (snd (g e c))" for p and g :: "tid option \<Rightarrow> TypeContext \<Rightarrow> tid \<times> TypeContext"
    using steps(1) [of c p] that by (auto simp: split_beta intro: framed_trans)
  show ?case
  proof (cases t)
    case (Some i)
    have "framed c (snd (let (ps, c1) = mapS (substituteF n inst owner args) qs c;
        (r, c2) = substituteF n inst owner args q c1; (f, c3) = getFunction ps r c2 in (Some f, c3)))" for qs q
      using framed_trans [OF framed_trans [OF steps(2) steps(1)] getFunction_framed] by (simp add: split_beta)
    moreover have "framed c (snd (let (as, c1) = mapS (substituteF n inst owner args) ts c in
        if as = ts then (Some i, c1) else let (r, c2) = inst m k as c1 in (Some r, c2)))" for ts m k
      using steps(2) [of c ts] inst_framed by (auto simp: split_beta intro: framed_trans)
    ultimately show ?thesis using get [of getArray] get [of getOptional] getArray_framed getOptional_framed
      by (cases "kind c i") (auto simp: Some Let_def framed_refl split: option.split)
  qed (simp add: framed_refl)
qed (simp add: framed_refl)

lemma substituteWith_framed: "framed c (snd (substituteWith inst owner args t c))"
  unfolding substituteWith_def by (rule substituteF_framed)

lemma fillBase_framed: "framed c (fillBase inst s T owner args c)"
proof -
  let ?c1 = "updStruct s (\<lambda>x. x\<lparr>si_baseInfo := si_baseInfo T, si_baseFieldCount := si_baseFieldCount T,
    si_vtableSize := si_vtableSize T\<rparr>) c"
  have one: "framed c ?c1" by (rule updStruct_framed) (simp add: sameInstance_def)
  have two: "framed c (snd (inst bt TyClass (fst (mapS (substituteWith inst owner args) as ?c1))
      (snd (mapS (substituteWith inst owner args) as ?c1))))" for bt as
    using framed_trans [OF framed_trans [OF one mapS_framed [OF substituteWith_framed]] inst_framed] .
  have three: "framed c d \<Longrightarrow> framed c (updStruct s (\<lambda>x. x\<lparr>si_baseInfo := b\<rparr>) d)" for b d
    by (erule framed_trans, rule updStruct_framed) (simp add: sameInstance_def)
  show ?thesis
    by (simp only: fillBase_def Let_def split_beta split: option.split) (blast intro: one two three)
qed

lemma fillInterface_framed: "framed c (fillInterface inst s owner args t c)"
  and fillField_framed: "framed c (fillField inst s owner args f c)"
  unfolding fillInterface_def fillField_def split_beta Let_def
  by (rule framed_trans [OF substituteWith_framed], rule updStruct_framed, simp add: sameInstance_def)+

lemma fillMethod_framed: "framed c (fillMethod inst s owner args m c)"
proof -
  have push: "framed c (updStruct s (\<lambda>x. x\<lparr>si_methods := si_methods x @ [nm]\<rparr>) c)" for nm c
    by (rule updStruct_framed) (simp add: sameInstance_def)
  have sym: "framed c (c\<lparr>h_symbols := ys\<rparr>)" for c ys by (rule framed_same [where ts = "[]"]) simp_all
  have "framed c (snd (substituteWith inst owner args q (snd (mapS (substituteWith inst owner args) ps c))))" for q ps
    by (rule framed_trans [OF mapS_framed [OF substituteWith_framed] substituteWith_framed])
  from framed_trans [OF framed_trans [OF this sym] push] push show ?thesis
    by (auto simp: fillMethod_def Let_def split_beta split: option.split)
qed

lemma fold_framed: "(\<And>x c. framed c (f x c)) \<Longrightarrow> framed c (fold f xs c)"
  by (induction xs arbitrary: c) (auto intro: framed_refl framed_trans)

text \<open>\<open>fillInstantiation\<close> pushes its own entry on the chain and pops it.\<close>

lemma fillInstantiation_framed: "framed c (fillInstantiation inst s templ args c)"
proof -
  let ?c1 = "c\<lparr>instantiationChain := instantiationChain c @ [instanceTypes c s]\<rparr>" and ?o = "OwnerStruct templ"
  let ?T = "si c templ"
  have reset: "framed d (updStruct s (\<lambda>x. x\<lparr>si_implementedInterfaces := []\<rparr>) d)" for d
    by (rule updStruct_framed) (simp add: sameInstance_def)
  note f = fillBase_framed [THEN framed_trans, OF reset, THEN framed_trans, OF fold_framed [OF fillInterface_framed],
      THEN framed_trans, OF fold_framed [OF fillField_framed], THEN framed_trans, OF fold_framed [OF fillMethod_framed]]
  let ?c6 = "fold (fillMethod inst s ?o args) (si_methods ?T) (fold (fillField inst s ?o args) (si_fields ?T)
    (fold (fillInterface inst s ?o args) (si_implementedInterfaces ?T)
      (updStruct s (\<lambda>x. x\<lparr>si_implementedInterfaces := []\<rparr>) (fillBase inst s ?T ?o args ?c1))))"
  have "framed ?c1 ?c6" by (rule f)
  then have "framed c (?c6\<lparr>instantiationChain := butlast (instantiationChain ?c6)\<rparr>)"
    by (simp add: framed_def si_def)
  then show ?thesis by (simp add: fillInstantiation_def Let_def)
qed

end

lemma instantiateD_framed: "framed_calls (instantiateD d)"
proof (induction d)
  case 0
  show ?case by unfold_locales (auto intro: framed_refl overflow_framed split: option.split)
next
  case (Suc d)
  show ?case
  proof
    fix c templ k args
    have fill: "framed c e \<Longrightarrow> framed c (fillInstantiation (instantiateD d) s templ args e)" for s e
      by (erule framed_trans) (rule framed_calls.fillInstantiation_framed [OF Suc])
    have pend: "framed c e \<Longrightarrow> framed c (e\<lparr>pendingInstantiations := ps\<rparr>)" for e ps
      by (erule framed_trans, rule framed_same [where ts = "[]"]) simp_all
    show "framed c (snd (instantiateD (Suc d) templ k args c))"
      using fill [OF addInstance_framed] pend [OF addInstance_framed]
      by (auto simp: Let_def framed_refl overflow_framed split: option.split prod.split)
  qed
qed

interpretation depth_frame: framed_calls "instantiateD d" for d
  by (rule instantiateD_framed)

interpretation internal_frame: framed_calls instantiateInternal
  by unfold_locales (unfold instantiateInternal_def, rule depth_frame.inst_framed)

section \<open>The bound on the depth is never what stops\<close>

definition agreesFrom :: "nat \<Rightarrow> ('a \<Rightarrow> TypeContext \<Rightarrow> 'b) \<Rightarrow> ('a \<Rightarrow> TypeContext \<Rightarrow> 'b) \<Rightarrow> bool" where
  "agreesFrom b f g \<longleftrightarrow> (\<forall>x c. b \<le> length (instantiationChain c) \<longrightarrow> f x c = g x c)"

text \<open>Two versions of \<open>instantiateInternal\<close> that agree when the chain is at least \<open>bound\<close> long.\<close>

locale agreeing_calls = framed_calls +
  fixes other :: instantiator and bound :: nat
  assumes agree: "bound \<le> length (instantiationChain c) \<Longrightarrow> inst templ k args c = other templ k args c"
begin

lemma framed_deep: "framed c d \<Longrightarrow> bound \<le> length (instantiationChain c) \<Longrightarrow> bound \<le> length (instantiationChain d)"
  by (simp add: framed_def)

lemma deep_snd: "framed c (snd r) \<Longrightarrow> bound \<le> length (instantiationChain c) \<Longrightarrow> r = (x, d) \<Longrightarrow>
    bound \<le> length (instantiationChain d)"
  by (simp add: framed_def)

lemma mapS_agree:
  assumes "\<And>p c. framed c (snd (f p c))" and "agreesFrom bound f g"
  shows "bound \<le> length (instantiationChain c) \<Longrightarrow> mapS f ps c = mapS g ps c"
proof (induction ps arbitrary: c)
  case (Cons p ps)
  obtain q c1 where q: "f p c = (q, c1)" by force
  have "bound \<le> length (instantiationChain c1)" by (rule deep_snd [OF assms(1) Cons.prems q])
  from Cons.IH [OF this] q assms(2) Cons.prems show ?case by (simp add: agreesFrom_def)
qed simp

lemma substituteF_agree_at:
  "bound \<le> length (instantiationChain c) \<Longrightarrow> substituteF n inst owner args t c = substituteF n other owner args t c"
proof (induction n arbitrary: t c)
  case (Suc n)
  have ag: "agreesFrom bound (substituteF n inst owner args) (substituteF n other owner args)"
    using Suc.IH by (simp add: agreesFrom_def)
  note sub = Suc.IH and map = mapS_agree [OF substituteF_framed ag]
  have deep: "bound \<le> length (instantiationChain (snd (mapS (substituteF n inst owner args) ps c)))" for ps
    by (rule framed_deep [OF mapS_framed [OF substituteF_framed] Suc.prems])
  have fn: "(let (ps, c1) = mapS (substituteF n inst owner args) qs c;
        (r, c2) = substituteF n inst owner args q c1; (f, c3) = getFunction ps r c2 in (Some f, c3)) =
      (let (ps, c1) = mapS (substituteF n other owner args) qs c;
        (r, c2) = substituteF n other owner args q c1; (f, c3) = getFunction ps r c2 in (Some f, c3))" for qs q
    using map [OF Suc.prems, of qs] sub [OF deep [of qs], of q] by (simp add: split_beta)
  have st: "(let (as, c1) = mapS (substituteF n inst owner args) ts c in
        if as = ts then (Some i, c1) else let (r, c2) = inst m k as c1 in (Some r, c2)) =
      (let (as, c1) = mapS (substituteF n other owner args) ts c in
        if as = ts then (Some i, c1) else let (r, c2) = other m k as c1 in (Some r, c2))" for ts m k i
    using map [OF Suc.prems, of ts] agree [OF deep [of ts]] by (simp add: split_beta)
  show ?case
  proof (cases t)
    case (Some i)
    then show ?thesis using fn st sub [OF Suc.prems] by (cases "kind c i") (simp_all add: Let_def split: option.split)
  qed simp
qed simp

lemma substituteF_agree: "agreesFrom bound (substituteF n inst owner args) (substituteF n other owner args)"
  using substituteF_agree_at by (simp add: agreesFrom_def)

lemma substituteWith_agree:
  "agreesFrom bound (substituteWith inst owner args) (substituteWith other owner args)"
  using substituteF_agree by (simp add: agreesFrom_def substituteWith_def del: substituteF.simps)

lemma mapS_substitute_agree:
  "bound \<le> length (instantiationChain c) \<Longrightarrow>
     mapS (substituteWith inst owner args) ps c = mapS (substituteWith other owner args) ps c"
  by (rule mapS_agree [OF substituteWith_framed substituteWith_agree])

lemma fillBase_agree:
  assumes "bound \<le> length (instantiationChain c)"
  shows "fillBase inst s T owner args c = fillBase other s T owner args c"
proof -
  let ?c1 = "updStruct s (\<lambda>x. x\<lparr>si_baseInfo := si_baseInfo T, si_baseFieldCount := si_baseFieldCount T,
    si_vtableSize := si_vtableSize T\<rparr>) c"
  have one: "bound \<le> length (instantiationChain ?c1)" using assms by (simp add: updStruct_def)
  have two: "bound \<le> length (instantiationChain (snd (mapS (substituteWith inst owner args) ps ?c1)))" for ps
    by (rule framed_deep [OF mapS_framed [OF substituteWith_framed] one])
  have "inst bt TyClass (fst (mapS (substituteWith inst owner args) ps ?c1)) (snd (mapS (substituteWith inst owner args) ps ?c1)) =
     other bt TyClass (fst (mapS (substituteWith other owner args) ps ?c1)) (snd (mapS (substituteWith other owner args) ps ?c1))"
    for bt ps
    using agree [OF two] mapS_substitute_agree [OF one] by metis
  then show ?thesis by (simp only: fillBase_def Let_def split_beta split: option.split)
qed

lemma fillInterface_agree:
  "agreesFrom bound (fillInterface inst s owner args) (fillInterface other s owner args)"
  and fillField_agree: "agreesFrom bound (fillField inst s owner args) (fillField other s owner args)"
  using substituteWith_agree by (simp_all add: agreesFrom_def fillInterface_def fillField_def)

lemma fillMethod_agree:
  "agreesFrom bound (fillMethod inst s owner args) (fillMethod other s owner args)"
  unfolding agreesFrom_def
proof (intro allI impI)
  fix m and c :: TypeContext
  assume assms: "bound \<le> length (instantiationChain c)"
  have "bound \<le> length (instantiationChain (snd (mapS (substituteWith inst owner args) ps c)))" for ps
    by (rule framed_deep [OF mapS_framed [OF substituteWith_framed] assms])
  then have "substituteWith inst owner args q (snd (mapS (substituteWith inst owner args) ps c)) =
      substituteWith other owner args q (snd (mapS (substituteWith other owner args) ps c))" for q ps
    using substituteWith_agree [unfolded agreesFrom_def] mapS_substitute_agree [OF assms] by metis
  with mapS_substitute_agree [OF assms] show "fillMethod inst s owner args m c = fillMethod other s owner args m c"
    by (simp add: fillMethod_def Let_def split_beta split: option.split)
qed

lemma fold_agree:
  assumes "\<And>x c. framed c (f x c)" and "agreesFrom bound f g"
  shows "bound \<le> length (instantiationChain c) \<Longrightarrow> fold f xs c = fold g xs c"
proof (induction xs arbitrary: c)
  case (Cons x xs)
  from Cons.IH [OF framed_deep [OF assms(1) Cons.prems]] assms(2) Cons.prems show ?case by (simp add: agreesFrom_def)
qed simp

lemma fillInstantiation_agree:
  assumes "bound \<le> Suc (length (instantiationChain c))"
  shows "fillInstantiation inst s templ args c = fillInstantiation other s templ args c"
proof -
  let ?c1 = "c\<lparr>instantiationChain := instantiationChain c @ [instanceTypes c s]\<rparr>" and ?o = "OwnerStruct templ"
  let ?T = "si c templ"
  let ?c3 = "updStruct s (\<lambda>x. x\<lparr>si_implementedInterfaces := []\<rparr>) (fillBase inst s ?T ?o args ?c1)"
  let ?c4 = "fold (fillInterface inst s ?o args) (si_implementedInterfaces ?T) ?c3"
  let ?c5 = "fold (fillField inst s ?o args) (si_fields ?T) ?c4"
  have d1: "bound \<le> length (instantiationChain ?c1)" using assms by simp
  then have d3: "bound \<le> length (instantiationChain ?c3)"
    using framed_deep [OF fillBase_framed] by (simp add: updStruct_def)
  have d4: "bound \<le> length (instantiationChain ?c4)"
    by (rule framed_deep [OF fold_framed [OF fillInterface_framed] d3])
  have d5: "bound \<le> length (instantiationChain ?c5)"
    by (rule framed_deep [OF fold_framed [OF fillField_framed] d4])
  show ?thesis
    unfolding fillInstantiation_def Let_def
    unfolding fold_agree [OF fillMethod_framed fillMethod_agree d5]
    unfolding fold_agree [OF fillField_framed fillField_agree d4]
    unfolding fold_agree [OF fillInterface_framed fillInterface_agree d3]
    unfolding fillBase_agree [OF d1] ..
qed

end

lemma addNominal_chain: "addNominal k info c = (t, s, c1) \<Longrightarrow> length (instantiationChain c1) = length (instantiationChain c)"
  using addNominal_forms(3) [of k info c t s c1] by simp

lemma instantiateD_agree:
  "Suc kMaxInstantiationDepth - length (instantiationChain c) \<le> d \<Longrightarrow>
   Suc kMaxInstantiationDepth - length (instantiationChain c) \<le> e \<Longrightarrow>
   instantiateD d templ k args c = instantiateD e templ k args c"
proof (induction d arbitrary: e templ k args c)
  case 0
  then show ?case by (cases e) (auto split: option.split)
next
  case (Suc d)
  show ?case
  proof (cases e)
    case 0
    with Suc.prems show ?thesis by (auto split: option.split)
  next
    case (Suc e')
    show ?thesis
    proof (cases "length (instantiationChain c) < kMaxInstantiationDepth")
      case False
      then show ?thesis by (simp add: Suc split: option.split)
    next
      case True
      let ?b = "Suc (length (instantiationChain c))"
      have "agreeing_calls (instantiateD d) (instantiateD e') ?b"
        by unfold_locales (use Suc.IH Suc.prems \<open>e = Suc e'\<close> in simp)
      from agreeing_calls.fillInstantiation_agree [OF this]
      show ?thesis using True addNominal_chain by (auto simp: Suc Let_def split: option.split prod.split)
    qed
  qed
qed

lemma internal_agrees:
  "agreeing_calls (instantiateD d) instantiateInternal (Suc kMaxInstantiationDepth - d)"
  by unfold_locales (unfold instantiateInternal_def, rule instantiateD_agree; simp)

text \<open>The recursion between \<open>instantiateInternal\<close> and \<open>fillInstantiation\<close> always returns, and the model's
  bound on it is not observable: \<open>instantiateInternal\<close> satisfies the equation the source states, where the only
  test that stops the recursion is the length of the instantiation chain.\<close>

theorem instantiateInternal_unfold:
  "instantiateInternal templ k args c =
     (case instantiationCache c (templ, args) of
        Some t \<Rightarrow> (t, c)
      | None \<Rightarrow>
          if length (instantiationChain c) \<ge> kMaxInstantiationDepth then (errorType c, recordInstantiationOverflow c)
          else
            let (t, s, c1) = addNominal k (instanceShell (si c templ) templ args) c;
                c2 = c1\<lparr>instantiationCache := (instantiationCache c1)((templ, args) \<mapsto> t),
                        instantiationList := instantiationList c1 @ [t],
                        instanceTypes := (instanceTypes c1)(s \<mapsto> t)\<rparr>
            in (t, if si_membersCollected (si c2 templ)
                   then fillInstantiation instantiateInternal s templ args c2
                   else c2\<lparr>pendingInstantiations := pendingInstantiations c2 @ [(s, templ, args)]\<rparr>))"
proof (cases "length (instantiationChain c) < kMaxInstantiationDepth")
  case False
  have "instantiateInternal templ k args c = instantiateD 1 templ k args c"
    unfolding instantiateInternal_def by (rule instantiateD_agree) (use False in simp_all)
  with False show ?thesis by (simp split: option.split)
next
  case True
  define d where "d = kMaxInstantiationDepth - length (instantiationChain c)"
  have d: "Suc kMaxInstantiationDepth - length (instantiationChain c) = Suc d" "Suc kMaxInstantiationDepth - d = Suc (length (instantiationChain c))"
    using True by (simp_all add: d_def)
  have fill: "fillInstantiation (instantiateD d) s templ args e = fillInstantiation instantiateInternal s templ args e"
    if "length (instantiationChain e) = length (instantiationChain c)" for s e
    by (rule agreeing_calls.fillInstantiation_agree [OF internal_agrees]) (simp add: d that)
  show ?thesis unfolding instantiateInternal_def [of templ k args c] d(1) instantiateD.simps
    using fill addNominal_chain by (auto simp: Let_def split: option.split prod.split)
qed

section \<open>The tree a type stands for\<close>

datatype Tree =
    TMissing
  | TPlain TypeKind
  | TOptional Tree
  | TArray Tree
  | TFunction "Tree list" Tree
  | TParam "ParamOwner option" int
  | TInstance sid "Tree list"
  | TDeclared TypeKind "sid option"

definition denoteWith :: "(tid option \<Rightarrow> Tree) \<Rightarrow> ('x) Heap_scheme \<Rightarrow> tid \<Rightarrow> Tree" where
  "denoteWith f c i =
     (let x = ty c i in
      if t_kind x = TyOptional then TOptional (f (t_inner x))
      else if t_kind x = TyArray then TArray (f (t_inner x))
      else if t_kind x = TyFunction then TFunction (map f (t_functionParams x)) (f (t_functionReturn x))
      else if t_kind x = TyTypeParam then TParam (t_paramOwner x) (t_paramIndex x)
      else if t_kind x \<in> nominalKinds then
        (case t_structInfo x of
           None \<Rightarrow> TDeclared (t_kind x) None
         | Some s \<Rightarrow>
             (case si_templateOf (si c s) of
                None \<Rightarrow> TDeclared (t_kind x) (Some s)
              | Some m \<Rightarrow>
                  if t_kind x \<in> {TyStruct, TyClass} then TInstance m (map f (si_typeArgs (si c s)))
                  else TDeclared (t_kind x) (Some s)))
      else TPlain (t_kind x))"

primrec denoteF :: "nat \<Rightarrow> ('x) Heap_scheme \<Rightarrow> tid option \<Rightarrow> Tree" where
  "denoteF 0 c p = TMissing"
| "denoteF (Suc n) c p = (case p of None \<Rightarrow> TMissing | Some i \<Rightarrow> denoteWith (denoteF n c) c i)"

text \<open>Types only point to types that were allocated before them.\<close>

definition denote :: "('x) Heap_scheme \<Rightarrow> tid option \<Rightarrow> Tree" where
  "denote c p = denoteF (Suc (length (h_types c))) c p"

definition belowP :: "nat \<Rightarrow> tid option \<Rightarrow> bool" where
  "belowP n p = (case p of None \<Rightarrow> True | Some i \<Rightarrow> i < n)"

lemma belowP_simps [simp]: "belowP n None" "belowP n (Some i) \<longleftrightarrow> i < n"
  by (simp_all add: belowP_def)

text \<open>What a type points to: the type it wraps, the types of a function, the arguments of an instantiation.\<close>

definition pointees :: "('x) Heap_scheme \<Rightarrow> tid \<Rightarrow> tid option set" where
  "pointees c i =
     (if kind c i \<in> {TyOptional, TyArray} then {t_inner (ty c i)}
      else if kind c i = TyFunction then insert (t_functionReturn (ty c i)) (set (t_functionParams (ty c i)))
      else if kind c i \<in> {TyStruct, TyClass} then
        (case t_structInfo (ty c i) of None \<Rightarrow> {} | Some s \<Rightarrow> set (si_typeArgs (si c s)))
      else {})"

lemma denoteWith_cong:
  assumes "\<And>p. p \<in> pointees c i \<Longrightarrow> f p = g p"
  shows "denoteWith f c i = denoteWith g c i"
  using assms by (auto simp: denoteWith_def pointees_def Let_def split: option.splits if_splits)

lemma pointees_below:
  assumes c: "contextOk c" and i: "i < length (h_types c)" and p: "p \<in> pointees c i"
  shows "belowP i p" and "validT c p"
proof -
  have below: "belowP i q" if "pointsBelow c i q" for q using that by (auto simp: pointsBelow_def split: option.splits)
  have ok: "typeOk c i" by (intro typesOk_D interned_D(1)) (use c i in \<open>auto simp: contextOk_def\<close>)
  have args: "belowP i q" if "kind c i \<in> {TyStruct, TyClass}" "t_structInfo (ty c i) = Some s" "q \<in> set (si_typeArgs (si c s))" for s q
    using argsBelow_D [of c i s] c i that by (cases q) (auto simp: contextOk_def nominalType_def nominalKinds_def)
  show b: "belowP i p"
    using p ok below args by (auto simp: pointees_def typeOk_def list_all_iff split: if_splits option.splits)
  then show "validT c p" using i by (cases p) (auto simp: validT_def)
qed

lemma denoteF_enough:
  assumes "contextOk c"
  shows "validT c p \<Longrightarrow> belowP n p \<Longrightarrow> belowP m p \<Longrightarrow> denoteF n c p = denoteF m c p"
proof (induction n arbitrary: m p)
  case 0
  then show ?case by (cases p; cases m) auto
next
  case (Suc n)
  show ?case
  proof (cases p)
    case (Some i)
    with Suc.prems obtain m' where m: "m = Suc m'" "i \<le> m'" by (cases m) auto
    have i: "i < length (h_types c)" using Suc.prems(1) Some by (simp add: validT_def)
    have "denoteF n c q = denoteF m' c q" if q: "q \<in> pointees c i" for q
    proof (rule Suc.IH [OF pointees_below(2) [OF assms i q]])
      show "belowP n q" "belowP m' q" using pointees_below(1) [OF assms i q] Suc.prems(2) Some m by (cases q; simp)+
    qed
    from denoteWith_cong [OF this] Some m show ?thesis by simp
  qed (cases m; simp)
qed

lemma denote_None [simp]: "denote c None = TMissing"
  by (simp add: denote_def)

lemma denote_unfold:
  assumes "contextOk c" and "i < length (h_types c)"
  shows "denote c (Some i) = denoteWith (denote c) c i"
proof -
  have "denoteF (length (h_types c)) c p = denote c p" if "p \<in> pointees c i" for p
    unfolding denote_def
    by (rule denoteF_enough [OF assms(1)]) (use pointees_below [OF assms that] assms(2) in \<open>cases p; auto\<close>)+
  then show ?thesis unfolding denote_def [of c "Some i"] denoteF.simps option.case by (rule denoteWith_cong)
qed

lemma framed_ty: "framed c c' \<Longrightarrow> t < length (h_types c) \<Longrightarrow> ty c' t = ty c t"
  by (auto simp: framed_def ty_def nth_append elim!: prefixE)

lemma denoteWith_framed:
  assumes c: "contextOk c" and f: "framed c c'" and i: "i < length (h_types c)"
  shows "denoteWith g c' i = denoteWith g c i"
proof -
  have "si_templateOf (si c' s) = si_templateOf (si c s) \<and> si_typeArgs (si c' s) = si_typeArgs (si c s)"
    if "t_structInfo (ty c i) = Some s" for s
    using structInfo_valid [OF c i that] f by (simp add: framed_def sameInstance_def)
  then show ?thesis using framed_ty [OF f i] by (auto simp: denoteWith_def Let_def split: option.split)
qed

lemma denoteF_framed:
  assumes c: "contextOk c" and f: "framed c c'"
  shows "validT c p \<Longrightarrow> denoteF n c' p = denoteF n c p"
proof (induction n arbitrary: p)
  case (Suc n)
  show ?case
  proof (cases p)
    case (Some i)
    then have i: "i < length (h_types c)" using Suc.prems by (simp add: validT_def)
    have "denoteF n c' q = denoteF n c q" if "q \<in> pointees c i" for q
      using Suc.IH pointees_below(2) [OF c i that] .
    from denoteWith_cong [OF this] denoteWith_framed [OF c f i] Some show ?thesis by simp
  qed simp
qed simp

text \<open>A type stands for the same tree however the context grows.\<close>

lemma denote_framed:
  assumes "contextOk c" and "framed c c'" and "validT c p"
  shows "denote c' p = denote c p"
proof -
  have "length (h_types c) \<le> length (h_types c')" using assms(2) by (auto simp: framed_def dest: prefix_length_le)
  then have "denoteF (Suc (length (h_types c'))) c p = denoteF (Suc (length (h_types c))) c p"
    by (intro denoteF_enough [OF assms(1,3)]) (use assms(3) in \<open>cases p; auto simp: validT_def\<close>)+
  with denoteF_framed [OF assms] show ?thesis by (simp add: denote_def del: denoteF.simps)
qed

lemma denoteWith_kinds:
  "denoteWith f c i = TPlain TyError \<longleftrightarrow> kind c i = TyError"
  "denoteWith f c i = TPlain TyVoid \<longleftrightarrow> kind c i = TyVoid"
  "denoteWith f c i \<noteq> TMissing"
  by (auto simp: denoteWith_def nominalKinds_def Let_def split: option.splits)

section \<open>Substitution\<close>

text \<open>Substitution on trees. A wrapper around an error or a missing type is the error type, as in the source.\<close>

definition badTree :: "Tree \<Rightarrow> bool" where
  "badTree x \<longleftrightarrow> x = TMissing \<or> x = TPlain TyError"

definition mkOptional :: "Tree \<Rightarrow> Tree" where
  "mkOptional x = (if badTree x then TPlain TyError else TOptional x)"

definition mkArray :: "Tree \<Rightarrow> Tree" where
  "mkArray x = (if badTree x \<or> x = TPlain TyVoid then TPlain TyError else TArray x)"

definition mkFunction :: "Tree list \<Rightarrow> Tree \<Rightarrow> Tree" where
  "mkFunction ps r = (if badTree r \<or> list_ex badTree ps then TPlain TyError else TFunction ps r)"

primrec substT :: "ParamOwner \<Rightarrow> Tree list \<Rightarrow> Tree \<Rightarrow> Tree" where
  "substT owner args TMissing = TMissing"
| "substT owner args (TPlain k) = TPlain k"
| "substT owner args (TOptional x) = mkOptional (substT owner args x)"
| "substT owner args (TArray x) = mkArray (substT owner args x)"
| "substT owner args (TFunction ps r) = mkFunction (map (substT owner args) ps) (substT owner args r)"
| "substT owner args (TParam ow i) =
     (if ow = Some owner \<and> 0 \<le> i \<and> i < int (length args) then args ! nat i else TParam ow i)"
| "substT owner args (TInstance m ts) = TInstance m (map (substT owner args) ts)"
| "substT owner args (TDeclared k s) = TDeclared k s"

lemma denote_error: "contextOk c \<Longrightarrow> denote c (Some (errorType c)) = TPlain TyError"
  using interned_D(4) [of c "ShPlain TyError" "errorType c"] denote_unfold [of c "errorType c"] shapeKind_shapeOf
  by (metis contextOk_def denoteWith_kinds(1) lookupShape.simps(1) shapeKind.simps(1))

lemma denote_bad:
  assumes "contextOk c" and "validT c p"
  shows "badTree (denote c p) \<longleftrightarrow> nullOrError c p" and "denote c p = TPlain TyVoid \<longleftrightarrow> (\<exists>i. p = Some i \<and> kind c i = TyVoid)"
  using assms
  by (auto simp: denote_unfold denoteWith_kinds badTree_def nullOrError_def validT_def split: option.splits)

lemma shape_forms:
  "shapeOf x = ShOptional p \<longleftrightarrow> t_kind x = TyOptional \<and> t_inner x = p"
  "shapeOf x = ShArray p \<longleftrightarrow> t_kind x = TyArray \<and> t_inner x = p"
  "shapeOf x = ShFunction ps p \<longleftrightarrow> t_kind x = TyFunction \<and> t_functionParams x = ps \<and> t_functionReturn x = p"
  by (auto simp: shapeOf_def)

lemma cached_shape: "contextOk c \<Longrightarrow> lookupShape c sh = Some t \<Longrightarrow> shapeOf (ty c t) = sh"
  using interned_D(4) [of c sh t] by (simp add: contextOk_def)

lemma getOptional_denote:
  assumes c: "contextOk c" and p: "validT c p" and get: "getOptional p c = (r, c')"
  shows "denote c' (Some r) = mkOptional (denote c p)"
proof (cases "nullOrError c p")
  case True
  then have "r = errorType c" "c' = c" using get by (auto simp: getOptional_def nullOrError_def split: option.splits)
  with True denote_error [OF c] denote_bad(1) [OF c p] show ?thesis by (simp add: mkOptional_def)
next
  case False
  then obtain i where i: "p = Some i" "kind c i \<noteq> TyError" by (auto simp: nullOrError_def split: option.splits)
  have r: "kind c' r = TyOptional" "t_inner (ty c' r) = p"
    using get i cached_shape [OF c, of "ShOptional (Some i)" r]
    by (auto simp: getOptional_def allocate_def ty_def newType_def shape_forms split: option.splits)
  have g: "contextOk c'" "r < length (h_types c')" using getOptional_gives [OF c p] get by (auto simp: gives_def kept_def)
  have "denote c' p = denote c p" using denote_framed [OF c _ p] getOptional_framed [of c p] get by simp
  with r denote_unfold [OF g] False denote_bad(1) [OF c p] show ?thesis by (simp add: denoteWith_def mkOptional_def)
qed

lemma getArray_denote:
  assumes c: "contextOk c" and p: "validT c p" and get: "getArray p c = (r, c')"
  shows "denote c' (Some r) = mkArray (denote c p)"
proof (cases "nullOrError c p \<or> (\<exists>i. p = Some i \<and> kind c i = TyVoid)")
  case True
  then have "r = errorType c" "c' = c" using get by (auto simp: getArray_def nullOrError_def split: option.splits)
  with True denote_error [OF c] denote_bad [OF c p] show ?thesis by (auto simp: mkArray_def)
next
  case False
  then obtain i where i: "p = Some i" "kind c i \<noteq> TyError" "kind c i \<noteq> TyVoid"
    by (auto simp: nullOrError_def split: option.splits)
  have r: "kind c' r = TyArray" "t_inner (ty c' r) = p"
    using get i cached_shape [OF c, of "ShArray (Some i)" r]
    by (auto simp: getArray_def allocate_def ty_def newType_def shape_forms split: option.splits)
  have g: "contextOk c'" "r < length (h_types c')" using getArray_gives [OF c p] get by (auto simp: gives_def kept_def)
  have "denote c' p = denote c p" using denote_framed [OF c _ p] getArray_framed [of c p] get by simp
  with r denote_unfold [OF g] False denote_bad [OF c p] show ?thesis by (auto simp: denoteWith_def mkArray_def)
qed

lemma getFunction_denote:
  assumes c: "contextOk c" and ps: "list_all (validT c) ps" and p: "validT c p" and get: "getFunction ps p c = (r, c')"
  shows "denote c' (Some r) = mkFunction (map (denote c) ps) (denote c p)"
proof -
  have bad: "list_ex badTree (map (denote c) ps) \<longleftrightarrow> list_ex (nullOrError c) ps"
    using ps denote_bad(1) [OF c] by (auto simp: list_ex_iff list_all_iff)
  show ?thesis
  proof (cases "nullOrError c p \<or> list_ex (nullOrError c) ps")
    case True
    then have "r = errorType c" "c' = c" using get by (auto simp: getFunction_def nullOrError_def [of c p] split: option.splits if_splits)
    with True denote_error [OF c] denote_bad [OF c p] bad show ?thesis by (auto simp: mkFunction_def)
  next
    case False
    then obtain i where i: "p = Some i" "kind c i \<noteq> TyError" "\<not> list_ex (nullOrError c) ps"
      by (auto simp: nullOrError_def [of c p] split: option.splits)
    have r: "kind c' r = TyFunction" "t_functionParams (ty c' r) = ps" "t_functionReturn (ty c' r) = p"
      using get i cached_shape [OF c, of "ShFunction ps (Some i)" r]
      by (auto simp: getFunction_def allocate_def updType_def ty_def newType_def shape_forms Let_def split: option.splits)
    have g: "contextOk c'" "r < length (h_types c')"
      using getFunction_gives [OF c ps p] get by (auto simp: gives_def kept_def)
    have same: "denote c' q = denote c q" if "validT c q" for q
      using denote_framed [OF c _ that] getFunction_framed [of c ps p] get by simp
    have "map (denote c') ps = map (denote c) ps" using ps same by (simp add: list_all_iff)
    with r denote_unfold [OF g] False denote_bad(1) [OF c p] bad same [OF p] show ?thesis
      by (simp add: denoteWith_def mkFunction_def)
  qed
qed

text \<open>What \<open>substitute\<close> relies on: below the limit of the chain, \<open>instantiateInternal\<close> returns an instantiation of
  the template with these arguments.\<close>

locale faithful_calls = instantiate_calls inst + framed_calls inst for inst +
  assumes inst_instance: "contextOk c \<Longrightarrow> templ < length (h_structs c) \<Longrightarrow> k \<in> {TyStruct, TyClass} \<Longrightarrow>
    list_all (validT c) args \<Longrightarrow> length (instantiationChain c) < kMaxInstantiationDepth \<Longrightarrow>
    isInstance (snd (inst templ k args c)) (fst (inst templ k args c)) templ args"
begin

lemma mapS_denote:
  assumes "contextOk c" and "list_all (validT c) ps" and "mapS f ps c = (qs, c')"
    and "\<And>p d. p \<in> set ps \<Longrightarrow> contextOk d \<Longrightarrow> bigger c d \<Longrightarrow> framed c d \<Longrightarrow> validT d p \<Longrightarrow>
      givesPointer d (f p d) \<and> framed d (snd (f p d)) \<and> denote (snd (f p d)) (fst (f p d)) = g (denote d p)"
  shows "framed c c' \<and> map (denote c') qs = map g (map (denote c) ps)"
  using assms
proof (induction ps arbitrary: c qs)
  case Nil
  then show ?case by (simp add: framed_refl)
next
  case (Cons p ps)
  obtain q c1 where q: "f p c = (q, c1)" by force
  obtain qs' where qs: "mapS f ps c1 = (qs', c')" "qs = q # qs'" using Cons.prems(3) q by (auto split: prod.splits)
  have p: "kept c c1" "validT c1 q" "framed c c1" "denote c1 q = g (denote c p)"
    using Cons.prems(4) [OF _ Cons.prems(1) bigger_refl framed_refl, of p] Cons.prems(2) q by (auto simp: givesPointer_def)
  have "list_all (validT c1) ps" using Cons.prems(2) list_valid_mono [OF kept_bigger [OF p(1)]] by simp
  from Cons.IH [OF kept_ok [OF p(1)] this qs(1)] Cons.prems(4) bigger_trans [OF kept_bigger [OF p(1)]] framed_trans [OF p(3)]
  have rest: "framed c1 c'" "map (denote c') qs' = map g (map (denote c1) ps)" by auto
  have "denote c1 r = denote c r" if "r \<in> set ps" for r
    using denote_framed [OF Cons.prems(1) p(3)] Cons.prems(2) that by (simp add: list_all_iff)
  with rest qs p framed_trans [OF p(3) rest(1)] denote_framed [OF kept_ok [OF p(1)] rest(1) p(2)] show ?case by auto
qed

lemma instance_denote:
  assumes "contextOk c" and "isInstance c t templ args" and "t < length (h_types c)"
  shows "denote c (Some t) = TInstance templ (map (denote c) args)"
  using assms(2) denote_unfold [OF assms(1,3)]
  by (auto simp: isInstance_def denoteWith_def nominalKinds_def)

lemma substituteF_denote:
  "contextOk c \<Longrightarrow> validT c t \<Longrightarrow> belowP n t \<Longrightarrow> list_all (validT c) args \<Longrightarrow>
   length (instantiationChain c) < kMaxInstantiationDepth \<Longrightarrow>
   denote (snd (substituteF n inst owner args t c)) (fst (substituteF n inst owner args t c)) =
     substT owner (map (denote c) args) (denote c t)"
proof (induction n arbitrary: t c)
  case 0
  then show ?case by (cases t) simp_all
next
  case (Suc n)
  note c = Suc.prems(1)
  let ?sub = "substituteF n inst owner args" and ?g = "substT owner (map (denote c) args)"
  show ?case
  proof (cases t)
    case None
    then show ?thesis by simp
  next
    case (Some i)
    then have i: "i < length (h_types c)" "i \<le> n" using Suc.prems(2,3) by (auto simp: validT_def)
    note unf = denote_unfold [OF c i(1)]
    have sub: "givesPointer d (?sub p d) \<and> framed d (snd (?sub p d)) \<and> denote (snd (?sub p d)) (fst (?sub p d)) = ?g (denote d p)"
      if "p \<in> pointees c i" "contextOk d" "bigger c d" "framed c d" "validT d p" for p d
    proof -
      have args: "list_all (validT d) args" by (rule list_valid_mono [OF that(3) Suc.prems(4)])
      have "map (denote d) args = map (denote c) args"
        using denote_framed [OF c that(4)] Suc.prems(4) by (simp add: list_all_iff)
      moreover have "belowP n p" using pointees_below(1) [OF c i(1) that(1)] i(2) by (cases p) auto
      moreover have "length (instantiationChain d) < kMaxInstantiationDepth" using that(4) Suc.prems(5) by (simp add: framed_def)
      ultimately show ?thesis
        using Suc.IH [OF that(2,5) _ args] substituteF_gives [OF that(2,5) args] substituteF_framed by metis
    qed
    have map: "kept c c1 \<and> list_all (validT c1) qs \<and> framed c c1 \<and> map (denote c1) qs = map ?g (map (denote c) ps)"
      if "set ps \<subseteq> pointees c i" "mapS ?sub ps c = (qs, c1)" for ps qs c1
    proof -
      have v: "list_all (validT c) ps" using pointees_below(2) [OF c i(1)] that(1) by (auto simp: list_all_iff)
      have s: "givesPointer d (?sub p d)" if "contextOk d" "bigger c d" "validT d p" for d p
        by (rule substituteF_gives [OF that(1,3) list_valid_mono [OF that(2) Suc.prems(4)]])
      show ?thesis using mapS_gives [where f = ?sub, OF c v s] mapS_denote [OF c v that(2), of ?g] sub that by auto
    qed
    consider "kind c i = TyTypeParam" | "kind c i = TyArray" | "kind c i = TyOptional" | "kind c i = TyFunction"
      | "kind c i \<in> {TyStruct, TyClass}" | "kind c i \<notin> {TyTypeParam, TyArray, TyOptional, TyFunction, TyStruct, TyClass}"
      by blast
    then show ?thesis
    proof cases
      case 1
      with Some unf show ?thesis by (auto simp: denoteWith_def Let_def)
    next
      case 2
      obtain e c1 where e: "?sub (t_inner (ty c i)) c = (e, c1)" by force
      have "t_inner (ty c i) \<in> pointees c i" using 2 by (simp add: pointees_def)
      from sub [OF this c bigger_refl framed_refl pointees_below(2) [OF c i(1) this]] e
      have k: "contextOk c1" "validT c1 e" "denote c1 e = ?g (denote c (t_inner (ty c i)))"
        by (auto simp: givesPointer_def kept_def)
      obtain r c2 where r: "getArray e c1 = (r, c2)" by force
      from getArray_denote [OF k(1,2) r] k(3) Some 2 e r unf show ?thesis by (simp add: Let_def denoteWith_def)
    next
      case 3
      obtain e c1 where e: "?sub (t_inner (ty c i)) c = (e, c1)" by force
      have "t_inner (ty c i) \<in> pointees c i" using 3 by (simp add: pointees_def)
      from sub [OF this c bigger_refl framed_refl pointees_below(2) [OF c i(1) this]] e
      have k: "contextOk c1" "validT c1 e" "denote c1 e = ?g (denote c (t_inner (ty c i)))"
        by (auto simp: givesPointer_def kept_def)
      obtain r c2 where r: "getOptional e c1 = (r, c2)" by force
      from getOptional_denote [OF k(1,2) r] k(3) Some 3 e r unf show ?thesis by (simp add: Let_def denoteWith_def)
    next
      case 4
      let ?x = "ty c i"
      obtain ps c1 where ps: "mapS ?sub (t_functionParams ?x) c = (ps, c1)" by force
      have m: "kept c c1" "list_all (validT c1) ps" "framed c c1"
          "map (denote c1) ps = map ?g (map (denote c) (t_functionParams ?x))"
        using map [OF _ ps] 4 by (auto simp: pointees_def)
      obtain q c2 where q: "?sub (t_functionReturn ?x) c1 = (q, c2)" by force
      have ret: "t_functionReturn ?x \<in> pointees c i" using 4 by (simp add: pointees_def)
      have v: "validT c (t_functionReturn ?x)" by (rule pointees_below(2) [OF c i(1) ret])
      from sub [OF ret kept_ok [OF m(1)] kept_bigger [OF m(1)] m(3) valid_mono(1) [OF kept_bigger [OF m(1)] v]] q
        denote_framed [OF c m(3) v]
      have k: "kept c1 c2" "validT c2 q" "framed c1 c2" "denote c2 q = ?g (denote c (t_functionReturn ?x))"
        by (auto simp: givesPointer_def)
      have "map (denote c2) ps = map (denote c1) ps"
        using denote_framed [OF kept_ok [OF m(1)] k(3)] m(2) by (simp add: list_all_iff)
      moreover obtain r c3 where r: "getFunction ps q c2 = (r, c3)" by force
      ultimately show ?thesis
        using getFunction_denote [OF kept_ok [OF k(1)] list_valid_mono [OF kept_bigger [OF k(1)] m(2)] k(2) r]
          k(4) m(4) Some 4 ps q r unf by (simp add: Let_def denoteWith_def)
    next
      case 5
      show ?thesis
      proof (cases "\<exists>s templ. t_structInfo (ty c i) = Some s \<and> si_templateOf (si c s) = Some templ")
        case False
        with Some 5 unf show ?thesis by (auto simp: Let_def denoteWith_def nominalKinds_def split: option.splits)
      next
        case True
        then obtain s templ where s: "t_structInfo (ty c i) = Some s" "si_templateOf (si c s) = Some templ" by blast
        let ?ts = "si_typeArgs (si c s)"
        have den: "denote c t = TInstance templ (map (denote c) ?ts)"
          by (simp only: Some, rule instance_denote [OF c _ i(1)]) (use 5 s in \<open>simp add: isInstance_def\<close>)
        obtain as c1 where as: "mapS ?sub ?ts c = (as, c1)" by force
        have m: "kept c c1" "list_all (validT c1) as" "framed c c1" "map (denote c1) as = map ?g (map (denote c) ?ts)"
          using map [OF _ as] 5 s by (auto simp: pointees_def)
        obtain r c2 where r: "inst templ (kind c i) as c1 = (r, c2)" by force
        have "templ < length (h_structs c1)"
          using structOk_at [OF c structInfo_valid [OF c i(1) s(1)]] s(2) m(3) by (auto simp: structOk_def validS_def framed_def)
        note pre = kept_ok [OF m(1)] this 5 m(2)
        have k: "kept c1 c2" "r < length (h_types c2)" using inst_gives [OF pre] r by (auto simp: gives_def)
        have "isInstance c2 r templ as" using inst_instance [OF pre] r m(3) Suc.prems(5) by (simp add: framed_def)
        note di = instance_denote [OF kept_ok [OF k(1)] this k(2)]
        have f2: "framed c1 c2" using inst_framed [of c1 templ "kind c i" as] r by simp
        have "map (denote c2) as = map (denote c1) as"
          using denote_framed [OF kept_ok [OF m(1)] f2] m(2) by (simp add: list_all_iff)
        with di m(4) den have new: "denote c2 (Some r) = ?g (denote c t)" by simp
        have "map (denote c1) ?ts = map (denote c) ?ts"
          using denote_framed [OF c m(3)] pointees_below(2) [OF c i(1)] 5 s(1) by (auto simp: pointees_def)
        with m(4) den denote_framed [OF c m(3) Suc.prems(2)] have old: "as = ?ts \<Longrightarrow> denote c1 t = ?g (denote c t)" by simp
        from Some 5 s as r new old show ?thesis by (auto simp: Let_def)
      qed
    next
      case 6
      with Some unf show ?thesis
        by (cases "kind c i") (auto simp: Let_def denoteWith_def nominalKinds_def split: option.split)
    qed
  qed
qed

end

lemma internal_instance:
  assumes "contextOk c" and "templ < length (h_structs c)" and "k \<in> {TyStruct, TyClass}" and "list_all (validT c) args"
    and "length (instantiationChain c) < kMaxInstantiationDepth"
  shows "isInstance (snd (instantiateInternal templ k args c)) (fst (instantiateInternal templ k args c)) templ args"
proof -
  let ?r = "instantiateInternal templ k args c"
  have ok: "contextOk (snd ?r)" using internal.inst_gives [OF assms(1-4)] by (simp add: gives_def kept_def)
  have "instantiationCache (snd ?r) (templ, args) = Some (fst ?r)"
  proof (cases "instantiationCache c (templ, args)")
    case (Some t)
    then show ?thesis by (subst (1 2) instantiateInternal_unfold) simp
  next
    case None
    have "instantiationCache (fillInstantiation instantiateInternal s templ args e) key = Some t"
      if "instantiationCache e key = Some t" for s e t key
      using framed_cache [OF internal_frame.fillInstantiation_framed that] .
    with None assms(5) show ?thesis
      by (subst (1 2) instantiateInternal_unfold) (auto simp: Let_def split: prod.split)
  qed
  with ok show ?thesis by (simp add: contextOk_def cacheOk_def)
qed

interpretation faithful: faithful_calls instantiateInternal
  by unfold_locales (rule internal_instance)

section \<open>Contexts a program builds\<close>

text \<open>Between two operations nothing is being instantiated.\<close>

lemma instantiate_framed: "framed c (snd (instantiate t args c))"
  by (auto simp: instantiate_def internal_frame.inst_framed intro: framed_refl split: option.split)

lemma substitute_framed: "framed c (snd (substitute t owner args c))"
  unfolding substitute_def by (rule internal_frame.substituteWith_framed)

lemma chain_updates [simp]:
  "instantiationChain (updStruct s f c) = instantiationChain c"
  "instantiationChain (updType t g c) = instantiationChain c"
  by (simp_all add: updStruct_def updType_def)

lemma chain_fillInstantiation: "instantiationChain (fillInstantiation instantiateInternal s templ args c) = instantiationChain c"
  using internal_frame.fillInstantiation_framed [of c s templ args] by (simp add: framed_def)

lemma chain_addNominal: "addNominal k info c = (t, s, c1) \<Longrightarrow> instantiationChain c1 = instantiationChain c"
  using addNominal_forms(3) [of k info c t s c1] by simp

lemma chain_fold: "(\<And>x c. instantiationChain (f x c) = instantiationChain c) \<Longrightarrow> instantiationChain (fold f xs c) = instantiationChain c"
  by (induction xs arbitrary: c) simp_all

lemma chain_refreshInstance: "instantiationChain (refreshInstance t c) = instantiationChain c"
proof -
  have "instantiationChain (refreshMethod s templ i c) = instantiationChain c" for s templ i c
    by (simp add: refreshMethod_def Let_def split: option.split)
  then show ?thesis by (simp add: refreshInstance_def Let_def chain_fold split: option.split)
qed

lemma chain_getPrimitive: "instantiationChain (snd (getPrimitive k c)) = instantiationChain c"
  by (simp add: getPrimitive_def allocate_def split: option.split)

lemma chain_register:
  "instantiationChain (snd (registerStruct m n c)) = instantiationChain c"
  "instantiationChain (snd (registerClass m n c)) = instantiationChain c"
  "instantiationChain (snd (registerExternalType m n c)) = instantiationChain c"
  "instantiationChain (snd (registerEnum m n c)) = instantiationChain c"
  "instantiationChain (snd (registerInterface m n c)) = instantiationChain c"
proof -
  show cl: "instantiationChain (snd (registerClass m n c)) = instantiationChain c"
    using chain_addNominal by (auto simp: registerClass_def split: prod.split)
  show "instantiationChain (snd (registerInterface m n c)) = instantiationChain c"
    using cl by (cases "registerClass m n c") (auto simp: registerInterface_def split: option.split)
qed (use chain_addNominal in \<open>auto simp: registerStruct_def registerExternalType_def registerEnum_def split: prod.split\<close>)

lemma chain_framed: "framed c (snd r) \<Longrightarrow> instantiationChain (snd r) = instantiationChain c"
  by (simp add: framed_def)

lemmas chain_framed_ops = getOptional_framed [THEN chain_framed] getArray_framed [THEN chain_framed]
  getFunction_framed [THEN chain_framed] instantiate_framed [THEN chain_framed] substitute_framed [THEN chain_framed]

lemma built_chain: "built c \<Longrightarrow> instantiationChain c = []"
proof (induction rule: built.induct)
  case start
  show ?case by (simp add: mkTypeContext_def allocate_def emptyContext_def)
next
  case (primitive_name c n)
  then show ?case using chain_getPrimitive by (auto simp: primitiveFromName_def split_beta Let_def split: option.split)
next
  case (type_param c bounds owner i n)
  then show ?case by (simp add: getTypeParam_def Let_def allocate_def split: option.split)
next
  case (bind c p m n)
  then show ?case by (simp add: bindPrimitive_def Let_def)
next
  case (function_instance c fn args)
  then show ?case by (simp add: recordFunctionInstantiation_def)
next
  case (materialize c)
  then show ?case by (simp add: materializeStep_def chain_fillInstantiation split_beta)
next
  case (filled c s)
  then show ?case by (simp add: ensureFilled_def Let_def chain_fillInstantiation split: list.split)
next
  case (overflows_taken c)
  then show ?case by (simp add: takeInstantiationOverflows_def)
next
  case (refreshed c)
  then show ?case by (simp add: refreshInstantiationInheritance_def chain_fold chain_refreshInstance)
qed (simp_all add: chain_getPrimitive chain_register chain_framed_ops)

section \<open>Properties of substitution and instantiation\<close>

text \<open>C16: \<open>TypeContext::substitute\<close> is substitution: in every context a program can build, the type it returns
  stands for the tree of the given type with the owner's parameters replaced by the trees of the arguments. A
  wrapper that would hold the error type collapses to the error type; nested instantiations are instantiated again.\<close>

theorem substitute_refines:
  assumes "built c" and "validT c t" and "list_all (validT c) args" and "substitute t owner args c = (r, c')"
  shows "denote c' r = substT owner (map (denote c) args) (denote c t)"
proof -
  have "belowP (Suc (length (h_types c))) t" using assms(2) by (cases t) (auto simp: validT_def)
  from faithful.substituteF_denote [OF built_ok [OF assms(1)] assms(2) this assms(3), of owner] built_chain [OF assms(1)]
  show ?thesis using assms(4) by (simp add: substitute_def substituteWith_def kMaxInstantiationDepth_def del: substituteF.simps)
qed

text \<open>\<open>class Box<T> { T[] items; }\<close>, collected, and the type \<open>int\<close>: 2 is \<open>Box\<close>, 3 is \<open>T\<close>, 4 is \<open>int\<close>, 5 is
  \<open>T[]\<close>.\<close>

definition boxTypes :: TypeContext where
  "boxTypes = snd (getArray (Some 3) (snd (getPrimitive TyInt (snd (getTypeParam (OwnerStruct 0) 0 (u16 ''T'') []
     (snd (registerClass [] (u16 ''Box'') mkTypeContext)))))))"

text \<open>Collecting the members of \<open>Box\<close>.\<close>

definition boxMembers :: "TypeContext \<Rightarrow> StructInfo" where
  "boxMembers c = (si c 0)\<lparr>si_membersCollected := True,
     si_fields := [\<lparr>fi_name = u16 ''items'', fi_type = Some 5, fi_visibility = Private, fi_isWeak = False,
       fi_isLazyConst = False, fi_line = 1, fi_column = 1, fi_definingClass = Some 0\<rparr>]\<rparr>"

definition boxContext :: TypeContext where
  "boxContext = updStruct 0 (\<lambda>_. boxMembers boxTypes) boxTypes"

lemma boxTypes_built: "built boxTypes"
proof -
  have "list_all (validS (snd (registerClass [] (u16 ''Box'') mkTypeContext))) []" by simp
  moreover have "TyInt \<in> set plainKinds" by (simp add: plainKinds_def PRIMITIVE_NAMES_def)
  moreover have "validT (snd (getPrimitive TyInt (snd (getTypeParam (OwnerStruct 0) 0 (u16 ''T'') []
     (snd (registerClass [] (u16 ''Box'') mkTypeContext)))))) (Some 3)" by code_simp
  ultimately show ?thesis unfolding boxTypes_def by (intro built.intros)
qed

lemma boxMembers_built: "built c \<Longrightarrow> structOk c (boxMembers c) \<Longrightarrow> built (updStruct 0 (\<lambda>_. boxMembers c) c)"
  by (erule built.edit_struct) (simp_all add: boxMembers_def)

lemma boxContext_built: "built boxContext"
proof -
  have "structOk boxTypes (boxMembers boxTypes)" by code_simp
  with boxMembers_built [OF boxTypes_built] show ?thesis by (simp add: boxContext_def)
qed

theorem substitute_refines_witness:
  "denote (snd (substitute (Some 5) (OwnerStruct 0) [Some 4] boxContext))
     (fst (substitute (Some 5) (OwnerStruct 0) [Some 4] boxContext)) = TArray (TPlain TyInt)"
proof -
  have valid: "validT boxContext (Some 5)" "list_all (validT boxContext) [Some 4]" by code_simp+
  have "substT (OwnerStruct 0) (map (denote boxContext) [Some 4]) (denote boxContext (Some 5)) = TArray (TPlain TyInt)"
    by code_simp
  with substitute_refines [OF boxContext_built valid prod.collapse [symmetric]] show ?thesis by simp
qed

text \<open>C18: instantiating a generic type with given arguments yields the one type of the context that is this
  instantiation, and asking again returns the same type and changes nothing.\<close>

theorem instantiate_unique:
  assumes "built c" and "t < length (h_types c)" and "kind c t \<in> {TyStruct, TyClass}" and "t_structInfo (ty c t) = Some s"
    and "list_all (validT c) args" and "instantiate (Some t) args c = (r, c')"
  shows "isInstance c' r s args \<and> (\<forall>u < length (h_types c'). isInstance c' u s args \<longrightarrow> u = r) \<and>
    instantiate (Some t) args c' = (r, c')"
proof -
  note c = built_ok [OF assms(1)]
  have r: "instantiateInternal s (kind c t) args c = (r, c')" using assms(4,6) by (simp add: instantiate_def)
  have s: "s < length (h_structs c)" by (rule structInfo_valid [OF c assms(2,4)])
  have c': "contextOk c'" "r < length (h_types c')" using internal.inst_gives [OF c s assms(3,5)] r by (auto simp: gives_def kept_def)
  have inst: "isInstance c' r s args"
    using internal_instance [OF c s assms(3,5)] r built_chain [OF assms(1)] by (simp add: kMaxInstantiationDepth_def)
  have cache: "instantiationCache c' (s, args) = Some u \<longleftrightarrow> u < length (h_types c') \<and> isInstance c' u s args" for u
    using c'(1) by (simp add: contextOk_def cacheOk_def)
  have "ty c' t = ty c t" using framed_ty [OF _ assms(2)] instantiate_framed [of c "Some t" args] assms(6) by simp
  then have "instantiate (Some t) args c' = (r, c')"
    using assms(4) cache [of r] inst c'(2) by (simp add: instantiate_def instantiateInternal_unfold [of s])
  moreover have "u = r" if "u < length (h_types c')" "isInstance c' u s args" for u
    using cache [of u] cache [of r] inst c'(2) that by simp
  ultimately show ?thesis using inst by blast
qed

theorem instantiate_unique_witness:
  "isInstance (snd (instantiate (Some 2) [Some 4] boxContext)) (fst (instantiate (Some 2) [Some 4] boxContext)) 0 [Some 4] \<and>
   instantiate (Some 2) [Some 4] (snd (instantiate (Some 2) [Some 4] boxContext)) = instantiate (Some 2) [Some 4] boxContext"
proof -
  have "2 < length (h_types boxContext)" "kind boxContext 2 \<in> {TyStruct, TyClass}"
    "t_structInfo (ty boxContext 2) = Some 0" "list_all (validT boxContext) [Some 4]" by code_simp+
  from instantiate_unique [OF boxContext_built this prod.collapse [symmetric]] show ?thesis by simp
qed

end
