(* ===== verification/TypeMaterialization.thy ===== *)
theory TypeMaterialization
  imports TypeInstantiation
begin

text \<open>
  The instantiations that \<open>instantiateInternal\<close> puts off while declarations are collected:
  \<open>materializeInstantiations\<close> fills them all, and returns, once the members of every template in use are
  collected.
\<close>

section \<open>Steps that put nothing off\<close>

definition collected :: "('x) Heap_scheme \<Rightarrow> bool" where
  "collected c \<longleftrightarrow> (\<forall>s < length (h_structs c). \<forall>m. si_templateOf (si c s) = Some m \<longrightarrow> si_membersCollected (si c m))"

text \<open>A step that keeps the invariant, changes nothing that exists, puts nothing off and uses only templates whose
  members are collected.\<close>

definition settles :: "TypeContext \<Rightarrow> TypeContext \<Rightarrow> bool" where
  "settles c c' \<longleftrightarrow> kept c c' \<and> framed c c' \<and> collected c' \<and> pendingInstantiations c' = pendingInstantiations c"

definition ready :: "TypeContext \<Rightarrow> bool" where
  "ready c \<longleftrightarrow> contextOk c \<and> collected c"

lemma settles_refl: "ready c \<Longrightarrow> settles c c"
  by (simp add: settles_def ready_def kept_refl framed_refl)

lemma settles_trans: "settles a b \<Longrightarrow> settles b c \<Longrightarrow> settles a c"
  by (auto simp: settles_def intro: kept_trans framed_trans)

lemma settles_D:
  assumes "settles c d"
  shows "ready d" and "kept c d" and "bigger c d" and "framed c d" and "contextOk d"
  using assms by (simp_all add: settles_def ready_def kept_def)

lemma settles_same:
  "ready c \<Longrightarrow> kept c c' \<Longrightarrow> framed c c' \<Longrightarrow> h_structs c' = h_structs c \<Longrightarrow>
     pendingInstantiations c' = pendingInstantiations c \<Longrightarrow> settles c c'"
  by (simp add: settles_def ready_def collected_def si_def)

lemma template_collected:
  assumes "ready c" and "s < length (h_structs c)" and "si_templateOf (si c s) = Some m" and "framed c d"
  shows "si_membersCollected (si d m)" and "m < length (h_structs d)"
proof -
  have "m < length (h_structs c)"
    using structOk_at [of c s] assms(1-3) by (simp add: ready_def structOk_def validS_def)
  with assms show "si_membersCollected (si d m)" "m < length (h_structs d)"
    by (auto simp: framed_def sameInstance_def ready_def collected_def)
qed

lemma settles_getArray: "ready c \<Longrightarrow> validT c p \<Longrightarrow> settles c (snd (getArray p c))"
  using getArray_gives [of c p] getArray_framed [of c p]
  by (auto intro!: settles_same simp: gives_def ready_def)
    (simp_all add: getArray_def allocate_def split: option.split)

lemma settles_getOptional: "ready c \<Longrightarrow> validT c p \<Longrightarrow> settles c (snd (getOptional p c))"
  using getOptional_gives [of c p] getOptional_framed [of c p]
  by (auto intro!: settles_same simp: gives_def ready_def)
    (simp_all add: getOptional_def allocate_def split: option.split)

lemma settles_getFunction:
  "ready c \<Longrightarrow> list_all (validT c) ps \<Longrightarrow> validT c p \<Longrightarrow> settles c (snd (getFunction ps p c))"
  using getFunction_gives [of c ps p] getFunction_framed [of c ps p]
  by (auto intro!: settles_same simp: gives_def ready_def)
    (simp_all add: getFunction_def allocate_def updType_def Let_def split: option.split)

lemma settles_updStruct:
  assumes "ready c" and "kept c (updStruct s f c)" and "\<And>x. sameInstance (f x) x"
  shows "settles c (updStruct s f c)"
proof -
  note f = updStruct_framed [where f = f and c = c and s = s, OF assms(3)]
  have "si_membersCollected (si (updStruct s f c) m)"
    if u: "u < length (h_structs c)" and "si_templateOf (si (updStruct s f c) u) = Some m" for u m
    using template_collected(1) [OF assms(1) u _ f] that f by (auto simp: framed_def sameInstance_def)
  with assms(2) f show ?thesis by (simp add: settles_def collected_def updStruct_def)
qed

section \<open>Filling\<close>

locale settled_calls = instantiate_calls inst for inst +
  assumes inst_settles: "ready c \<Longrightarrow> templ < length (h_structs c) \<Longrightarrow> k \<in> {TyStruct, TyClass} \<Longrightarrow>
    list_all (validT c) args \<Longrightarrow> si_membersCollected (si c templ) \<Longrightarrow> settles c (snd (inst templ k args c))"
begin

lemma mapS_settles:
  assumes "ready c" and "list_all (validT c) ps"
    and "\<And>d p. settles c d \<Longrightarrow> validT d p \<Longrightarrow> settles d (snd (f p d)) \<and> validT (snd (f p d)) (fst (f p d))"
    and "mapS f ps c = (qs, c')"
  shows "settles c c' \<and> list_all (validT c') qs"
  using assms
proof (induction ps arbitrary: c qs)
  case Nil
  then show ?case by (simp add: settles_refl)
next
  case (Cons p ps)
  obtain q c1 where q: "f p c = (q, c1)" by force
  have k: "settles c c1" "validT c1 q" using Cons.prems(3) [OF settles_refl [OF Cons.prems(1)], of p] Cons.prems(2) q by auto
  obtain qs' where qs: "mapS f ps c1 = (qs', c')" "qs = q # qs'" using Cons.prems(4) q by (auto split: prod.splits)
  have "settles c1 c' \<and> list_all (validT c') qs'"
    by (rule Cons.IH [OF settles_D(1) [OF k(1)] _ _ qs(1)])
      (use Cons.prems(2,3) list_valid_mono [OF settles_D(3) [OF k(1)]] settles_trans [OF k(1)] in auto)
  with k qs show ?case by (auto intro: settles_trans valid_mono settles_D)
qed

lemma substituteF_settles:
  "ready c \<Longrightarrow> validT c t \<Longrightarrow> list_all (validT c) args \<Longrightarrow> settles c (snd (substituteF n inst owner args t c))"
proof (induction n arbitrary: t c)
  case 0
  then show ?case by (simp add: settles_refl)
next
  case (Suc n)
  have c: "contextOk c" using Suc.prems(1) by (simp add: ready_def)
  let ?sub = "substituteF n inst owner args"
  have sub: "settles d (snd (?sub p d)) \<and> validT (snd (?sub p d)) (fst (?sub p d))" if "settles c d" "validT d p" for d p
    using Suc.IH [OF settles_D(1) [OF that(1)] that(2)] list_valid_mono [OF settles_D(3) [OF that(1)] Suc.prems(3)]
      substituteF_gives [OF settles_D(5) [OF that(1)] that(2)] by (auto simp: givesPointer_def)
  have map: "settles c c1 \<and> list_all (validT c1) qs" if "list_all (validT c) ps" "mapS ?sub ps c = (qs, c1)" for ps qs c1
    using mapS_settles [where f = ?sub, OF Suc.prems(1) that(1) _ that(2)] sub by blast
  show ?case
  proof (cases t)
    case None
    with Suc.prems show ?thesis by (simp add: settles_refl)
  next
    case (Some i)
    then have i: "i < length (h_types c)" using Suc.prems(2) by (simp add: validT_def)
    note vp = pointees_below(2) [OF c i]
    have get: "settles c (snd (let (e, c1) = ?sub p c; (r, c2) = g e c1 in (Some r, c2)))"
      if "validT c p" "\<And>e d. ready d \<Longrightarrow> validT d e \<Longrightarrow> settles d (snd (g e d))"
      for p and g :: "tid option \<Rightarrow> TypeContext \<Rightarrow> tid \<times> TypeContext"
      using sub [OF settles_refl [OF Suc.prems(1)] that(1)] that(2) settles_D(1) settles_trans by (simp add: split_beta) blast
    have fn: "settles c (snd (let (ps, c1) = mapS ?sub qs c; (r, c2) = ?sub q c1; (f, c3) = getFunction ps r c2 in (Some f, c3)))"
      if "list_all (validT c) qs" "validT c q" for qs q
    proof -
      obtain ps c1 where ps: "mapS ?sub qs c = (ps, c1)" by force
      have m: "settles c c1" "list_all (validT c1) ps" using map [OF that(1) ps] by auto
      obtain r c2 where r: "?sub q c1 = (r, c2)" by force
      with sub [OF m(1) valid_mono(1) [OF settles_D(3) [OF m(1)] that(2)]] have k: "settles c1 c2" "validT c2 r" by auto
      from settles_getFunction [OF settles_D(1) [OF k(1)] list_valid_mono [OF settles_D(3) [OF k(1)] m(2)] k(2)] m(1) k(1) ps r
      show ?thesis by (auto simp: split_beta intro: settles_trans)
    qed
    have st: "settles c (snd (let (as, c1) = mapS ?sub (si_typeArgs (si c s)) c in
        if as = si_typeArgs (si c s) then (Some i, c1) else let (r, c2) = inst m k as c1 in (Some r, c2)))"
      if "t_structInfo (ty c i) = Some s" "si_templateOf (si c s) = Some m" "kind c i = k" "k \<in> {TyStruct, TyClass}" for s m k
    proof -
      have s: "s < length (h_structs c)" by (rule structInfo_valid [OF c i that(1)])
      have v: "list_all (validT c) (si_typeArgs (si c s))" using structOk_at [OF c s] by (simp add: structOk_def)
      obtain as c1 where as: "mapS ?sub (si_typeArgs (si c s)) c = (as, c1)" by force
      have m: "settles c c1" "list_all (validT c1) as" using map [OF v as] by auto
      note t = template_collected [OF Suc.prems(1) s that(2) settles_D(4) [OF m(1)]]
      from inst_settles [OF settles_D(1) [OF m(1)] t(2) that(4) m(2) t(1)] m(1) as show ?thesis
        by (auto simp: split_beta intro: settles_trans)
    qed
    show ?thesis
      using get [of "t_inner (ty c i)" getArray] get [of "t_inner (ty c i)" getOptional] settles_getArray settles_getOptional
        fn [of "t_functionParams (ty c i)" "t_functionReturn (ty c i)"] st vp settles_refl [OF Suc.prems(1)]
      by (cases "kind c i") (auto simp: Some Let_def pointees_def list_all_iff split: option.split)
  qed
qed

lemma substituteWith_settles:
  assumes "ready c" and "validT c t" and "list_all (validT c) args" and "substituteWith inst owner args t c = (r, d)"
  shows "settles c d" and "validT d r"
  using substituteF_settles [OF assms(1-3), of "Suc (length (h_types c))" owner] substituteWith_gives [OF _ assms(2,3), of owner] assms(1,4)
  by (auto simp: substituteWith_def givesPointer_def ready_def simp del: substituteF.simps)

lemma mapS_substitute_settles:
  assumes "ready c" and "list_all (validT c) ps" and "list_all (validT c) args"
    and "mapS (substituteWith inst owner args) ps c = (qs, d)"
  shows "settles c d" and "list_all (validT d) qs"
proof -
  have "settles e (snd (substituteWith inst owner args p e)) \<and>
      validT (snd (substituteWith inst owner args p e)) (fst (substituteWith inst owner args p e))"
    if "settles c e" "validT e p" for e p
    using substituteWith_settles [OF settles_D(1) [OF that(1)] that(2) list_valid_mono [OF settles_D(3) [OF that(1)] assms(3)]
        prod.collapse [symmetric], of owner] by simp
  from mapS_settles [where f = "substituteWith inst owner args", OF assms(1,2) this assms(4)]
  show "settles c d" "list_all (validT d) qs" by simp_all
qed

text \<open>Pushing into the struct being filled.\<close>

lemma push_settles:
  assumes "settles c d" and "s < length (h_structs c)" and "structOk d (si d s) \<Longrightarrow> structOk d (f (si d s))"
    and "\<And>x. sameInstance (f x) x"
  shows "settles c (updStruct s f d)"
proof -
  have "kept d (updStruct s f d)"
    using push_kept [OF kept_refl [OF settles_D(5) [OF assms(1)]], of s f] assms settles_D(4) [OF assms(1)]
    by (simp add: framed_def sameInstance_def)
  from settles_trans [OF assms(1) settles_updStruct [OF settles_D(1) [OF assms(1)] this assms(4)]] show ?thesis .
qed

lemma fillInterface_settles:
  assumes "ready c" and "s < length (h_structs c)" and "list_all (validT c) args" and "validT c p"
  shows "settles c (fillInterface inst s owner args p c)"
proof -
  obtain r d where r: "substituteWith inst owner args p c = (r, d)" by force
  note k = substituteWith_settles [OF assms(1,4,3) r]
  from push_settles [OF k(1) assms(2)] k(2) r show ?thesis by (simp add: fillInterface_def structOk_def sameInstance_def)
qed

lemma fillField_settles:
  assumes "ready c" and "s < length (h_structs c)" and "list_all (validT c) args" and "validT c (fi_type f)"
  shows "settles c (fillField inst s owner args f c)"
proof -
  obtain r d where r: "substituteWith inst owner args (fi_type f) c = (r, d)" by force
  note k = substituteWith_settles [OF assms(1,4,3) r]
  from push_settles [OF k(1) assms(2)] k(2) r show ?thesis by (simp add: fillField_def structOk_def sameInstance_def)
qed

lemma fillMethod_settles:
  assumes c: "ready c" and s: "s < length (h_structs c)" and args: "list_all (validT c) args" and m: "validY c (mi_symbol m)"
  shows "settles c (fillMethod inst s owner args m c)"
proof (cases "mi_symbol m")
  case None
  with push_settles [OF settles_refl [OF c] s] show ?thesis
    by (simp add: fillMethod_def structOk_def validY_def sameInstance_def)
next
  case (Some y)
  define copied where "copied = (sym c y)\<lparr>sy_methodOwner := Some s\<rparr>"
  have y: "list_all (validT c) (sy_paramTypes copied)" "validT c (sy_returnType copied)"
    using symbolOk_at [of c y] c m Some by (simp_all add: copied_def symbolOk_def validY_def ready_def)
  obtain pts c1 where pts: "mapS (substituteWith inst owner args) (sy_paramTypes copied) c = (pts, c1)" by force
  note k1 = mapS_substitute_settles [OF c y(1) args pts]
  obtain rt c2 where rt: "substituteWith inst owner args (sy_returnType copied) c1 = (rt, c2)" by force
  note k2 = substituteWith_settles [OF settles_D(1) [OF k1(1)] valid_mono(1) [OF settles_D(3) [OF k1(1)] y(2)]
      list_valid_mono [OF settles_D(3) [OF k1(1)] args] rt]
  let ?c3 = "c2\<lparr>h_symbols := h_symbols c2 @ [copied\<lparr>sy_paramTypes := pts, sy_returnType := rt\<rparr>]\<rparr>"
  have "kept c2 ?c3"
    using addSymbol_kept [OF settles_D(5) [OF k2(1)]] k2(2) list_valid_mono [OF settles_D(3) [OF k2(1)] k1(2)]
    by (simp add: symbolOk_def)
  then have "settles c2 ?c3"
    using settles_same [OF settles_D(1) [OF k2(1)], of ?c3] framed_same [of ?c3 c2 "[]"] by simp
  then have k3: "settles c ?c3" using k1(1) k2(1) by (blast intro: settles_trans)
  show ?thesis
    using push_settles [OF k3 s] Some pts rt
    by (simp add: fillMethod_def copied_def Let_def structOk_def validY_def sameInstance_def)
qed

lemma fillBase_settles:
  assumes c: "ready c" and s: "s < length (h_structs c)" and args: "list_all (validT c) args" and T: "structOk c T"
  shows "settles c (fillBase inst s T owner args c)"
proof -
  let ?c1 = "updStruct s (\<lambda>x. x\<lparr>si_baseInfo := si_baseInfo T, si_baseFieldCount := si_baseFieldCount T,
    si_vtableSize := si_vtableSize T\<rparr>) c"
  have k1: "settles c ?c1" using push_settles [OF settles_refl [OF c] s] T by (simp add: structOk_def sameInstance_def)
  show ?thesis
  proof (cases "\<exists>b bt. si_baseInfo T = Some b \<and> si_templateOf (si ?c1 b) = Some bt")
    case False
    with k1 show ?thesis by (auto simp: fillBase_def Let_def split: option.split)
  next
    case True
    then obtain b bt where b: "si_baseInfo T = Some b" "si_templateOf (si ?c1 b) = Some bt" by blast
    have v: "b < length (h_structs ?c1)" using T b(1) by (simp add: structOk_def validS_def updStruct_def)
    have ba: "list_all (validT ?c1) (si_typeArgs (si ?c1 b))"
      using structOk_at [OF settles_D(5) [OF k1] v] by (simp add: structOk_def)
    obtain as c2 where as: "mapS (substituteWith inst owner args) (si_typeArgs (si ?c1 b)) ?c1 = (as, c2)" by force
    note k2 = mapS_substitute_settles [OF settles_D(1) [OF k1] ba list_valid_mono [OF settles_D(3) [OF k1] args] as]
    note bt = template_collected [OF settles_D(1) [OF k1] v b(2) settles_D(4) [OF k2(1)]]
    obtain cb c3 where cb: "inst bt TyClass as c2 = (cb, c3)" by force
    have "TyClass \<in> {TyStruct, TyClass}" by simp
    note pre = bt(2) this k2(2)
    have k3: "settles c2 c3" "cb < length (h_types c3)"
      using inst_settles [OF settles_D(1) [OF k2(1)] pre bt(1)] inst_gives [OF settles_D(5) [OF k2(1)] pre] cb
      by (auto simp: gives_def)
    have k: "settles c c3" using k1 k2(1) k3(1) by (blast intro: settles_trans)
    have "settles c (updStruct s (\<lambda>x. x\<lparr>si_baseInfo := Some z\<rparr>) c3)" if "t_structInfo (ty c3 cb) = Some z" for z
      using push_settles [OF k s] structInfo_valid [OF settles_D(5) [OF k] k3(2) that]
      by (simp add: structOk_def validS_def sameInstance_def)
    with k b as cb show ?thesis by (auto simp: fillBase_def Let_def split: option.split)
  qed
qed

lemma fold_settles:
  assumes "settles c d" and "\<And>x e. x \<in> set xs \<Longrightarrow> settles c e \<Longrightarrow> settles e (f x e)"
  shows "settles c (fold f xs d)"
  using assms
proof (induction xs arbitrary: d)
  case (Cons x xs)
  have "settles c (f x d)" using settles_trans [OF Cons.prems(1) Cons.prems(2) [OF _ Cons.prems(1)]] by simp
  from Cons.IH [OF this] Cons.prems(2) show ?case by simp
qed simp

text \<open>The chain of instantiations in progress is not part of what the steps above may change; filling pushes on it
  and pops it.\<close>

lemma ready_chain: "ready c \<Longrightarrow> ready (c\<lparr>instantiationChain := ch\<rparr>)"
  using chain_kept [of c ch] by (simp add: ready_def kept_def collected_def si_def)

lemma fillInstantiation_settles:
  assumes c: "ready c" and s: "s < length (h_structs c)" and templ: "templ < length (h_structs c)"
    and args: "list_all (validT c) args" and framed: "framed c (fillInstantiation inst s templ args c)"
  shows "settles c (fillInstantiation inst s templ args c)"
proof -
  let ?T = "si c templ" and ?o = "OwnerStruct templ"
  let ?c1 = "c\<lparr>instantiationChain := instantiationChain c @ [instanceTypes c s]\<rparr>"
  have c1: "ready ?c1" by (rule ready_chain [OF c])
  have b: "bigger c ?c1" by (simp add: bigger_def)
  have ok: "contextOk c" using c by (simp add: ready_def)
  have T: "structOk ?c1 ?T" by (rule structOk_mono [OF b structOk_at [OF ok templ]])
  have s1: "s < length (h_structs ?c1)" and args1: "list_all (validT ?c1) args"
    using s list_valid_mono [OF b args] by simp_all
  have later: "ready d" "s < length (h_structs d)" "list_all (validT d) args" if "settles ?c1 d" for d
    using settles_D(1,4) [OF that] s1 list_valid_mono [OF settles_D(3) [OF that] args1] by (auto simp: framed_def)
  let ?c2 = "fillBase inst s ?T ?o args ?c1"
  have "settles ?c1 ?c2" by (rule fillBase_settles [OF c1 s1 args1 T])
  then have "settles ?c1 (updStruct s (\<lambda>x. x\<lparr>si_implementedInterfaces := []\<rparr>) ?c2)" (is "settles _ ?c3")
    by (rule push_settles [OF _ s1]) (simp_all add: structOk_def sameInstance_def)
  then have "settles ?c1 (fold (fillInterface inst s ?o args) (si_implementedInterfaces ?T) ?c3)" (is "settles _ ?c4")
    by (rule fold_settles)
      (use T valid_mono(1) [OF settles_D(3)] later in \<open>auto intro!: fillInterface_settles simp: structOk_def list_all_iff\<close>)
  then have "settles ?c1 (fold (fillField inst s ?o args) (si_fields ?T) ?c4)" (is "settles _ ?c5")
    by (rule fold_settles)
      (use T valid_mono(1) [OF settles_D(3)] later in \<open>auto intro!: fillField_settles simp: structOk_def list_all_iff\<close>)
  then have k6: "settles ?c1 (fold (fillMethod inst s ?o args) (si_methods ?T) ?c5)" (is "settles _ ?c6")
    by (rule fold_settles)
      (use T valid_mono(3) [OF settles_D(3)] later in \<open>auto intro!: fillMethod_settles simp: structOk_def list_all_iff\<close>)
  let ?c7 = "?c6\<lparr>instantiationChain := butlast (instantiationChain ?c6)\<rparr>"
  have e: "fillInstantiation inst s templ args c = ?c7" by (simp add: fillInstantiation_def Let_def)
  have "ready ?c7" by (rule ready_chain [OF settles_D(1) [OF k6]])
  moreover have "bigger c ?c7" using settles_D(3) [OF k6] by (simp add: bigger_def)
  moreover have "pendingInstantiations ?c7 = pendingInstantiations c" using k6 by (simp add: settles_def)
  ultimately show ?thesis using framed unfolding e by (simp add: settles_def ready_def kept_def)
qed

end

lemma overflow_settles:
  assumes "ready c"
  shows "settles c (recordInstantiationOverflow c)"
proof (rule settles_same [OF assms])
  show "kept c (recordInstantiationOverflow c)" using overflow_kept assms by (simp add: ready_def)
  show "framed c (recordInstantiationOverflow c)" by (rule overflow_framed)
qed (simp_all add: recordInstantiationOverflow_def Let_def split: prod.split)

lemma addInstance_settles:
  assumes c: "ready c" and k: "k \<in> {TyStruct, TyClass}" and templ: "templ < length (h_structs c)"
    and args: "list_all (validT c) args" and fresh: "instantiationCache c (templ, args) = None"
    and collected: "si_membersCollected (si c templ)"
    and a: "addNominal k (instanceShell (si c templ) templ args) c = (t, s, c1)"
    and c2: "c2 = c1\<lparr>instantiationCache := (instantiationCache c1)((templ, args) \<mapsto> t),
      instantiationList := instantiationList c1 @ [t], instanceTypes := (instanceTypes c1)(s \<mapsto> t)\<rparr>"
  shows "settles c c2" and "s < length (h_structs c2)"
proof -
  have ok: "contextOk c" using c by (simp add: ready_def)
  note n = addInstance_kept [OF ok k templ args fresh a c2]
  have f: "framed c c2" unfolding c2 by (rule addInstance_framed [OF a fresh])
  note forms = addNominal_forms [OF a]
  have same: "sameInstance (si c2 u) (si c u)" if "u < length (h_structs c)" for u using f that by (simp add: framed_def)
  have "si_membersCollected (si c2 m)" if u: "u < length (h_structs c2)" "si_templateOf (si c2 u) = Some m" for u m
  proof (cases "u < length (h_structs c)")
    case True
    with template_collected(1) [OF c True _ f] same [OF True] u(2) show ?thesis by (simp add: sameInstance_def)
  next
    case False
    then have "u = length (h_structs c)" using u(1) by (simp add: c2 forms)
    then have "m = templ" using u(2) by (simp add: c2 forms si_def instanceShell_def)
    with same [OF templ] collected show ?thesis by (simp add: sameInstance_def)
  qed
  then have "collected c2" by (simp add: collected_def)
  then show "settles c c2" using n(1) f by (simp add: settles_def c2 forms)
  show "s < length (h_structs c2)" by (rule n(3))
qed

lemma instantiateD_settles: "settled_calls (instantiateD d)"
proof (induction d)
  case 0
  show ?case by unfold_locales (auto intro: settles_refl overflow_settles split: option.split)
next
  case (Suc d)
  show ?case
  proof
    fix c templ k args
    assume c: "ready c" and templ: "templ < length (h_structs c)" and k: "k \<in> {TyStruct, TyClass}"
      and args: "list_all (validT c) args" and collected: "si_membersCollected (si c templ)"
    have fill: "settles c (fillInstantiation (instantiateD d) s templ args c2) \<and> si_membersCollected (si c2 templ)"
      if fresh: "instantiationCache c (templ, args) = None"
        and a: "addNominal k (instanceShell (si c templ) templ args) c = (t, s, c1)"
        and c2: "c2 = c1\<lparr>instantiationCache := (instantiationCache c1)((templ, args) \<mapsto> t),
          instantiationList := instantiationList c1 @ [t], instanceTypes := (instanceTypes c1)(s \<mapsto> t)\<rparr>" for t s c1 c2
    proof -
      note n = addInstance_settles [OF c k templ args fresh collected a c2]
      have t2: "templ < length (h_structs c2)" "si_membersCollected (si c2 templ)"
        using settles_D(4) [OF n(1)] templ collected by (auto simp: framed_def sameInstance_def)
      have "settles c2 (fillInstantiation (instantiateD d) s templ args c2)"
        by (rule settled_calls.fillInstantiation_settles [OF Suc settles_D(1) [OF n(1)] n(2) t2(1)
              list_valid_mono [OF settles_D(3) [OF n(1)] args] depth_frame.fillInstantiation_framed])
      with n(1) t2(2) show ?thesis by (blast intro: settles_trans)
    qed
    show "settles c (snd (instantiateD (Suc d) templ k args c))"
      using fill overflow_settles [OF c] settles_refl [OF c] by (simp add: Let_def split: option.split prod.split)
  qed
qed

interpretation settled: settled_calls instantiateInternal
  by unfold_locales (unfold instantiateInternal_def, rule settled_calls.inst_settles [OF instantiateD_settles])

lemma materializeStep_settles:
  assumes c: "ready c" and p: "pendingInstantiations c \<noteq> []"
  shows "ready (materializeStep c)" and "pendingInstantiations (materializeStep c) = butlast (pendingInstantiations c)"
proof -
  obtain s templ args where l: "last (pendingInstantiations c) = (s, templ, args)" by (metis prod_cases3)
  let ?c = "c\<lparr>pendingInstantiations := butlast (pendingInstantiations c)\<rparr>"
  have ok: "contextOk c" using c by (simp add: ready_def)
  have v: "s < length (h_structs c)" "templ < length (h_structs c)" "list_all (validT c) args"
    using ok last_in_set [OF p] l by (auto simp: contextOk_def instancesOk_def list_all_iff)
  have k: "kept c ?c" by (rule pending_subset [OF ok]) (auto dest: in_set_butlastD)
  then have r: "ready ?c" using c by (simp add: ready_def kept_def collected_def si_def)
  have "settles ?c (fillInstantiation instantiateInternal s templ args ?c)"
    by (rule settled.fillInstantiation_settles [OF r])
      (use v list_valid_mono [OF kept_bigger [OF k] v(3)] internal_frame.fillInstantiation_framed in simp_all)
  then show "ready (materializeStep c)" "pendingInstantiations (materializeStep c) = butlast (pendingInstantiations c)"
    by (auto simp: materializeStep_def l settles_def ready_def kept_def)
qed

section \<open>Termination\<close>

text \<open>C17: \<open>materializeInstantiations\<close> returns and leaves nothing put off, in every context a program can build in
  which the members of the templates in use are collected. Generic types that refer to themselves with ever larger
  arguments do not keep it from returning: the chain of instantiations is cut off.\<close>

theorem materialize_terminates:
  assumes "built c" and "collected c"
  shows "\<exists>c'. materializeInstantiations c = Some (pendingInstantiations c \<noteq> [], c') \<and> built c' \<and> pendingInstantiations c' = []"
proof -
  have "\<exists>c'. whileP (\<lambda>c. pendingInstantiations c \<noteq> []) (\<lambda>c. Some (materializeStep c)) c = Some c' \<and>
      (built c' \<and> collected c') \<and> True \<and> \<not> pendingInstantiations c' \<noteq> []"
  proof (rule whileP_total [where m = "\<lambda>c. length (pendingInstantiations c)" and R = "\<lambda>_ _. True"])
    fix d
    assume d: "built d \<and> collected d" "pendingInstantiations d \<noteq> []"
    then have "ready d" using built_ok by (simp add: ready_def)
    from materializeStep_settles [OF this d(2)] d built.materialize
    show "\<exists>s'. Some (materializeStep d) = Some s' \<and> (built s' \<and> collected s') \<and> True \<and>
        length (pendingInstantiations s') < length (pendingInstantiations d)"
      by (auto simp: ready_def)
  qed (use assms in auto)
  then show ?thesis by (auto simp: materializeInstantiations_def)
qed

text \<open>\<open>Box<int>\<close> is used before the members of \<open>Box\<close> are collected.\<close>

definition usedEarly :: TypeContext where
  "usedEarly = snd (instantiate (Some 2) [Some 4] boxTypes)"

definition pendingContext :: TypeContext where
  "pendingContext = updStruct 0 (\<lambda>_. boxMembers usedEarly) usedEarly"

theorem materialize_terminates_witness:
  "pendingInstantiations pendingContext \<noteq> [] \<and>
   (\<exists>c'. materializeInstantiations pendingContext = Some (True, c') \<and> pendingInstantiations c' = [])"
proof -
  have "2 < length (h_types boxTypes)" "kind boxTypes 2 \<in> {TyStruct, TyClass}" "list_all (validT boxTypes) [Some 4]"
    by code_simp+
  from built.instance_of [OF boxTypes_built this] have "built usedEarly" unfolding usedEarly_def .
  moreover have "structOk usedEarly (boxMembers usedEarly)" by code_simp
  ultimately have b: "built pendingContext" using boxMembers_built by (simp add: pendingContext_def)
  have "\<forall>s < length (h_structs pendingContext). si_templateOf (si pendingContext s) = None \<or>
      si_templateOf (si pendingContext s) = Some 0" "si_membersCollected (si pendingContext 0)" by code_simp+
  then have "collected pendingContext" by (auto simp: collected_def)
  moreover have "pendingInstantiations pendingContext \<noteq> []" by code_simp
  ultimately show ?thesis using materialize_terminates [OF b] by auto
qed

end
