(* ===== verification/Scopes.thy ===== *)
theory Scopes
  imports Types "HOL-Library.Sublist"
begin

text \<open>
  Scopes and flow-sensitive narrowing: \<open>semantic/Scope.h\<close> and \<open>semantic/Scope.cpp\<close>. A scope holds names and the
  narrowed types of paths such as \<open>a.f[0]\<close>; a write to storage must clear every narrowing it may invalidate.

  Scopes are objects that their children share, so a scope is an index into a list, and an operation on a scope
  changes its ancestors too.
\<close>

section \<open>Paths\<close>

datatype PathSegment =
    Field u16string
  | IntIndex "64 word"
  | IdentIndex "symid option"
  | AnyIndex

record NarrowingPath =
  np_root :: "symid option"
  np_chain :: "PathSegment list"

record Scope =
  sc_parent :: "nat option"
  sc_symbols :: "u16string \<rightharpoonup> symid"
  sc_narrowedTypes :: "NarrowingPath \<rightharpoonup> tid option"

definition newScope :: "nat option \<Rightarrow> Scope" where
  "newScope p = \<lparr>sc_parent = p, sc_symbols = Map.empty, sc_narrowedTypes = Map.empty\<rparr>"

section \<open>Names\<close>

text \<open>The scopes \<open>for (s = this; s; s = s->parent)\<close> visits. A parent is created before its children.\<close>

primrec scopeChainF :: "nat \<Rightarrow> Scope list \<Rightarrow> nat option \<Rightarrow> nat list" where
  "scopeChainF 0 h p = []"
| "scopeChainF (Suc n) h p = (case p of None \<Rightarrow> [] | Some s \<Rightarrow> s # scopeChainF n h (sc_parent (h ! s)))"

definition scopeChain :: "Scope list \<Rightarrow> nat \<Rightarrow> nat list" where
  "scopeChain h s = scopeChainF (length h) h (Some s)"

definition define_symbol :: "('x) Heap_scheme \<Rightarrow> symid \<Rightarrow> nat \<Rightarrow> Scope list \<Rightarrow> bool \<times> Scope list" where
  "define_symbol th y s h =
     (let name = sy_name (sym th y) in
      case sc_symbols (h ! s) name of
        None \<Rightarrow> (True, h[s := (h ! s)\<lparr>sc_symbols := (sc_symbols (h ! s))(name \<mapsto> y)\<rparr>])
      | Some _ \<Rightarrow> (False, h))"

definition lookupLocal :: "Scope list \<Rightarrow> nat \<Rightarrow> u16string \<Rightarrow> symid option" where
  "lookupLocal h s name = sc_symbols (h ! s) name"

definition lookup :: "Scope list \<Rightarrow> nat \<Rightarrow> u16string \<Rightarrow> symid option" where
  "lookup h s name = firstFound (\<lambda>i. sc_symbols (h ! i) name) (scopeChain h s)"

section \<open>Narrowings\<close>

definition narrowing :: "Scope list \<Rightarrow> nat \<Rightarrow> NarrowingPath \<Rightarrow> tid option option" where
  "narrowing h s key = firstFound (\<lambda>i. sc_narrowedTypes (h ! i) key) (scopeChain h s)"

definition lookupNarrowedType :: "Scope list \<Rightarrow> nat \<Rightarrow> NarrowingPath \<Rightarrow> tid option" where
  "lookupNarrowedType h s key = (case narrowing h s key of None \<Rightarrow> None | Some t \<Rightarrow> t)"

text \<open>\<open>s->narrowedTypes[key] = t\<close>\<close>

definition narrow :: "NarrowingPath \<Rightarrow> tid option \<Rightarrow> nat \<Rightarrow> Scope list \<Rightarrow> Scope list" where
  "narrow key t s h = h[s := (h ! s)\<lparr>sc_narrowedTypes := (sc_narrowedTypes (h ! s))(key \<mapsto> t)\<rparr>]"

text \<open>Erasing the entries that satisfy a predicate, in one scope and in a scope and its ancestors.\<close>

definition eraseIf :: "(NarrowingPath \<Rightarrow> bool) \<Rightarrow> Scope \<Rightarrow> Scope" where
  "eraseIf P x = x\<lparr>sc_narrowedTypes := (\<lambda>k. if P k then None else sc_narrowedTypes x k)\<rparr>"

definition clearNarrowings :: "(NarrowingPath \<Rightarrow> bool) \<Rightarrow> nat \<Rightarrow> Scope list \<Rightarrow> Scope list" where
  "clearNarrowings P s h = fold (\<lambda>i h. h[i := eraseIf P (h ! i)]) (scopeChain h s) h"

definition clearNarrowingsForRoot :: "symid option \<Rightarrow> nat \<Rightarrow> Scope list \<Rightarrow> Scope list" where
  "clearNarrowingsForRoot root = clearNarrowings (\<lambda>k. np_root k = root)"

definition clearNarrowingsForRootMembers :: "symid option \<Rightarrow> nat \<Rightarrow> Scope list \<Rightarrow> Scope list" where
  "clearNarrowingsForRootMembers root = clearNarrowings (\<lambda>k. np_root k = root \<and> np_chain k \<noteq> [])"

fun segmentsMayAlias :: "PathSegment \<Rightarrow> PathSegment \<Rightarrow> bool" where
  "segmentsMayAlias (Field f) (Field g) = (f = g)"
| "segmentsMayAlias (Field f) w = False"
| "segmentsMayAlias n (Field g) = False"
| "segmentsMayAlias (IntIndex i) (IntIndex j) = (i = j)"
| "segmentsMayAlias n w = True"

definition mayAliasPrefix :: "PathSegment list \<Rightarrow> PathSegment list \<Rightarrow> bool" where
  "mayAliasPrefix chain written =
     (length chain \<ge> length written \<and> list_all2 segmentsMayAlias (take (length written) chain) written)"

definition clearNarrowingsThatMayAlias :: "NarrowingPath \<Rightarrow> nat \<Rightarrow> Scope list \<Rightarrow> Scope list" where
  "clearNarrowingsThatMayAlias written =
     clearNarrowings (\<lambda>k. np_root k = np_root written \<and> mayAliasPrefix (np_chain k) (np_chain written))"

definition clearNarrowingsForIndexSymbol :: "symid option \<Rightarrow> nat \<Rightarrow> Scope list \<Rightarrow> Scope list" where
  "clearNarrowingsForIndexSymbol y s h =
     (case y of None \<Rightarrow> h
      | Some _ \<Rightarrow> clearNarrowings (\<lambda>k. list_ex (\<lambda>seg. seg = IdentIndex y) (np_chain k)) s h)"

section \<open>Scope chains\<close>

text \<open>A parent is an older scope.\<close>

definition scopesOk :: "Scope list \<Rightarrow> bool" where
  "scopesOk h \<longleftrightarrow> (\<forall>s < length h. \<forall>p. sc_parent (h ! s) = Some p \<longrightarrow> p < s)"

lemma scopesOk_D: "scopesOk h \<Longrightarrow> s < length h \<Longrightarrow> sc_parent (h ! s) = Some p \<Longrightarrow> p < s"
  by (simp add: scopesOk_def)

lemma scopeChainF_enough:
  assumes "scopesOk h"
  shows "s < length h \<Longrightarrow> s < n \<Longrightarrow> s < m \<Longrightarrow> scopeChainF n h (Some s) = scopeChainF m h (Some s)"
proof (induction n arbitrary: m s)
  case (Suc n)
  then obtain m' where m: "m = Suc m'" by (cases m) auto
  show ?case
  proof (cases "sc_parent (h ! s)")
    case None
    then show ?thesis using m by (cases n; cases m') auto
  next
    case (Some p)
    with Suc.prems m scopesOk_D [OF assms Suc.prems(1) Some] Suc.IH [of p m'] show ?thesis by simp
  qed
qed simp

lemma scopeChain_unfold:
  assumes "scopesOk h" and "s < length h"
  shows "scopeChain h s = s # (case sc_parent (h ! s) of None \<Rightarrow> [] | Some p \<Rightarrow> scopeChain h p)"
proof -
  obtain n where n: "length h = Suc n" using assms(2) by (cases "length h") auto
  show ?thesis
  proof (cases "sc_parent (h ! s)")
    case None
    then show ?thesis by (cases n) (simp_all add: scopeChain_def n)
  next
    case (Some p)
    with scopesOk_D [OF assms Some] assms(2) n scopeChainF_enough [OF assms(1), of p n "length h"]
    show ?thesis by (simp add: scopeChain_def)
  qed
qed

lemma scopeChain_bounds:
  assumes "scopesOk h"
  shows "s < length h \<Longrightarrow> i \<in> set (scopeChain h s) \<Longrightarrow> i \<le> s"
proof (induction s rule: less_induct)
  case (less s)
  show ?case
  proof (cases "sc_parent (h ! s)")
    case None
    with less.prems scopeChain_unfold [OF assms less.prems(1)] show ?thesis by simp
  next
    case (Some p)
    have p: "p < s" by (rule scopesOk_D [OF assms less.prems(1) Some])
    then have "i \<in> set (scopeChain h p) \<Longrightarrow> i \<le> p" using less.IH [OF p] less.prems(1) by simp
    moreover have "i \<in> set (s # scopeChain h p)"
      using less.prems(2) unfolding scopeChain_unfold [OF assms less.prems(1)] Some option.case .
    ultimately show ?thesis using p by (metis less_imp_le order.trans order_refl set_ConsD)
  qed
qed

lemma scopeChainF_parents:
  "(\<And>s. sc_parent (h' ! s) = sc_parent (h ! s)) \<Longrightarrow> scopeChainF n h' p = scopeChainF n h p"
  by (induction n arbitrary: p) (auto split: option.split)

lemma scopeChain_parents:
  assumes "length h' = length h" and "\<And>s. sc_parent (h' ! s) = sc_parent (h ! s)"
  shows "scopeChain h' s = scopeChain h s"
  unfolding scopeChain_def assms(1) by (rule scopeChainF_parents [OF assms(2)])

section \<open>What clearing erases\<close>

lemma fold_update:
  "length (fold (\<lambda>i h. h[i := f (h ! i)]) is h) = length h"
  "(\<And>x. f (f x) = f x) \<Longrightarrow> \<forall>i \<in> set is. i < length h \<Longrightarrow>
     fold (\<lambda>i h. h[i := f (h ! i)]) is h ! j = (if j \<in> set is then f (h ! j) else h ! j)"
proof -
  show "length (fold (\<lambda>i h. h[i := f (h ! i)]) is h) = length h" by (induction "is" arbitrary: h) simp_all
  show "fold (\<lambda>i h. h[i := f (h ! i)]) is h ! j = (if j \<in> set is then f (h ! j) else h ! j)"
    if "\<And>x. f (f x) = f x" "\<forall>i \<in> set is. i < length h"
    using that(2)
  proof (induction "is" arbitrary: h)
    case (Cons i "is")
    from Cons.IH [of "h[i := f (h ! i)]"] Cons.prems show ?case by (auto simp: nth_list_update that(1))
  qed simp
qed

lemma eraseIf_idem: "eraseIf P (eraseIf P x) = eraseIf P x"
  by (simp add: eraseIf_def fun_eq_iff)

lemma clearNarrowings_at:
  assumes "scopesOk h" and "s < length h"
  shows "clearNarrowings P s h ! j = (if j \<in> set (scopeChain h s) then eraseIf P (h ! j) else h ! j)"
proof -
  have "\<forall>i \<in> set (scopeChain h s). i < length h" using scopeChain_bounds [OF assms(1)] assms(2) by fastforce
  then show ?thesis unfolding clearNarrowings_def by (rule fold_update(2) [OF eraseIf_idem])
qed

lemma length_clearNarrowings [simp]: "length (clearNarrowings P s h) = length h"
  by (simp add: clearNarrowings_def fold_update(1))

lemma clearNarrowings_parents:
  "scopesOk h \<Longrightarrow> s < length h \<Longrightarrow> sc_parent (clearNarrowings P s h ! j) = sc_parent (h ! j)"
  by (simp add: clearNarrowings_at eraseIf_def)

lemma firstFound_cong: "(\<And>i. i \<in> set ss \<Longrightarrow> f i = g i) \<Longrightarrow> firstFound f ss = firstFound g ss"
  by (induction ss) (auto split: option.split)

lemma firstFound_None: "(\<And>i. i \<in> set ss \<Longrightarrow> f i = None) \<Longrightarrow> firstFound f ss = None"
  by (induction ss) auto

text \<open>Seen from the scope, the entries that satisfy the predicate are gone, at every level, and all others are as
  they were.\<close>

lemma narrowing_clear:
  assumes "scopesOk h" and "s < length h"
  shows "narrowing (clearNarrowings P s h) s key = (if P key then None else narrowing h s key)"
proof -
  have "scopeChain (clearNarrowings P s h) s = scopeChain h s"
    by (rule scopeChain_parents) (simp_all add: clearNarrowings_parents [OF assms])
  then show ?thesis
    by (auto simp: narrowing_def clearNarrowings_at [OF assms] eraseIf_def intro: firstFound_cong firstFound_None)
qed

lemma lookupNarrowedType_clear:
  "scopesOk h \<Longrightarrow> s < length h \<Longrightarrow>
     lookupNarrowedType (clearNarrowings P s h) s key = (if P key then None else lookupNarrowedType h s key)"
  by (simp add: lookupNarrowedType_def narrowing_clear)

section \<open>The storage a path names\<close>

text \<open>At run time a path names a location: its root, then a field or an element per segment. A subscript by a
  variable depends on the value of the variable, any other subscript may be anything.\<close>

datatype Step = StepField u16string | StepIndex int

fun segmentStep :: "(symid option \<Rightarrow> int) \<Rightarrow> PathSegment \<Rightarrow> Step \<Rightarrow> bool" where
  "segmentStep v (Field f) st = (st = StepField f)"
| "segmentStep v (IntIndex i) st = (st = StepIndex (sint i))"
| "segmentStep v (IdentIndex y) st = (st = StepIndex (v y))"
| "segmentStep v AnyIndex st = (case st of StepIndex _ \<Rightarrow> True | StepField _ \<Rightarrow> False)"

definition namesLocation :: "(symid option \<Rightarrow> int) \<Rightarrow> PathSegment list \<Rightarrow> Step list \<Rightarrow> bool" where
  "namesLocation v chain loc = list_all2 (segmentStep v) chain loc"

lemma segments_alias: "segmentStep v n st \<Longrightarrow> segmentStep v w st \<Longrightarrow> segmentsMayAlias n w"
  by (cases n; cases w) (auto split: Step.splits intro: signed_word_eqI)

text \<open>Aliasing is not missed: if the narrowed location lies in the written one, the paths may alias.\<close>

lemma mayAliasPrefix_complete:
  assumes "namesLocation v chain loc" and "namesLocation v written wloc" and "prefix wloc loc"
  shows "mayAliasPrefix chain written"
proof -
  obtain rest where loc: "loc = wloc @ rest" using assms(3) by (auto elim: prefixE)
  with assms(1) obtain c1 c2 where c: "chain = c1 @ c2" "list_all2 (segmentStep v) c1 wloc"
    by (auto simp: namesLocation_def list_all2_append2)
  have len: "length c1 = length written" using c(2) assms(2) unfolding namesLocation_def by (metis list_all2_lengthD)
  have "list_all2 segmentsMayAlias c1 written"
    using c(2) assms(2) len unfolding namesLocation_def list_all2_conv_all_nth by (metis segments_alias)
  with c(1) len show ?thesis by (simp add: mayAliasPrefix_def)
qed

section \<open>Properties\<close>

text \<open>C32: narrowing is sound under writes through the same variable. After \<open>clearNarrowingsThatMayAlias(written)\<close>, a
  path from the root variable of the written path that is still narrowed kept its narrowed type, and whatever values the
  index variables have, the steps it takes from the root do not lead into the place the written path names. Storage that
  is reached through another variable is no part of this: the operation looks at one root.\<close>

theorem narrowing_survives_write:
  assumes "scopesOk h" and "s < length h"
    and "lookupNarrowedType (clearNarrowingsThatMayAlias written s h) s key = Some t"
    and "np_root key = np_root written" and "namesLocation v (np_chain key) loc"
    and "namesLocation v (np_chain written) wloc"
  shows "lookupNarrowedType h s key = Some t \<and> \<not> prefix wloc loc"
  using assms(3,4) mayAliasPrefix_complete [OF assms(5,6)] lookupNarrowedType_clear [OF assms(1,2)]
  by (auto simp: clearNarrowingsThatMayAlias_def split: if_splits)

text \<open>\<open>xs[0]\<close> and \<open>xs[i]\<close> are narrowed in an outer scope; a write to \<open>xs[1]\<close> in an inner scope keeps the first and
  clears the second.\<close>

definition pathXs :: "PathSegment \<Rightarrow> NarrowingPath" where
  "pathXs seg = \<lparr>np_root = Some 0, np_chain = [seg]\<rparr>"

definition narrowedScopes :: "Scope list" where
  "narrowedScopes = narrow (pathXs (IdentIndex (Some 1))) (Some 8) 0
     (narrow (pathXs (IntIndex 0)) (Some 7) 0 [newScope None, newScope (Some 0)])"

theorem narrowing_survives_write_witness:
  "lookupNarrowedType narrowedScopes 1 (pathXs (IntIndex 0)) = Some 7 \<and>
   \<not> prefix [StepIndex 1] [StepIndex 0] \<and>
   lookupNarrowedType (clearNarrowingsThatMayAlias (pathXs (IntIndex 1)) 1 narrowedScopes) 1 (pathXs (IdentIndex (Some 1))) = None"
proof -
  have "scopesOk narrowedScopes"
    by (auto simp: scopesOk_def narrowedScopes_def narrow_def newScope_def less_Suc_eq nth_list_update)
  moreover have "1 < length narrowedScopes" by (simp add: narrowedScopes_def narrow_def)
  moreover have "lookupNarrowedType (clearNarrowingsThatMayAlias (pathXs (IntIndex 1)) 1 narrowedScopes) 1 (pathXs (IntIndex 0)) = Some 7"
    by code_simp
  moreover have "lookupNarrowedType (clearNarrowingsThatMayAlias (pathXs (IntIndex 1)) 1 narrowedScopes) 1
      (pathXs (IdentIndex (Some 1))) = None" by code_simp
  moreover have "namesLocation v (np_chain (pathXs (IntIndex 0))) [StepIndex 0]"
    "namesLocation v (np_chain (pathXs (IntIndex 1))) [StepIndex 1]" for v
    by (simp_all add: namesLocation_def pathXs_def)
  ultimately show ?thesis
    using narrowing_survives_write [of narrowedScopes 1 "pathXs (IntIndex 1)" "pathXs (IntIndex 0)" 7 "\<lambda>_. 0" "[StepIndex 0]" "[StepIndex 1]"]
    by (simp add: pathXs_def)
qed

text \<open>Narrowing is sound under assignments to index variables. After \<open>clearNarrowingsForIndexSymbol(sym)\<close>, a
  path that is still narrowed kept its narrowed type and names the same storage whatever value the variable gets.\<close>

theorem narrowing_survives_index_write:
  assumes "scopesOk h" and "s < length h"
    and "lookupNarrowedType (clearNarrowingsForIndexSymbol (Some y) s h) s key = Some t"
  shows "lookupNarrowedType h s key = Some t \<and>
    namesLocation (v(Some y := n)) (np_chain key) loc = namesLocation v (np_chain key) loc"
proof -
  have k: "\<not> list_ex (\<lambda>seg. seg = IdentIndex (Some y)) (np_chain key)" "lookupNarrowedType h s key = Some t"
    using assms(3) lookupNarrowedType_clear [OF assms(1,2)]
    by (auto simp: clearNarrowingsForIndexSymbol_def split: if_splits)
  have "segmentStep (v(Some y := n)) seg = segmentStep v seg" if "seg \<in> set (np_chain key)" for seg
  proof -
    have "seg \<noteq> IdentIndex (Some y)" using that k(1) by (auto simp: list_ex_iff)
    then show ?thesis by (cases seg) (simp_all add: fun_eq_iff)
  qed
  then have "list_all2 (segmentStep (v(Some y := n))) (np_chain key) loc = list_all2 (segmentStep v) (np_chain key) loc"
    by (intro list.rel_cong) auto
  with k(2) show ?thesis by (simp add: namesLocation_def)
qed

theorem narrowing_survives_index_write_witness:
  "lookupNarrowedType narrowedScopes 1 (pathXs (IntIndex 0)) = Some 7 \<and>
   namesLocation ((\<lambda>_. 0)(Some 1 := 5)) [IntIndex 0] [StepIndex 0] = namesLocation (\<lambda>_. 0) [IntIndex 0] [StepIndex 0]"
proof -
  have "scopesOk narrowedScopes"
    by (auto simp: scopesOk_def narrowedScopes_def narrow_def newScope_def less_Suc_eq nth_list_update)
  moreover have "1 < length narrowedScopes" by (simp add: narrowedScopes_def narrow_def)
  moreover have "lookupNarrowedType (clearNarrowingsForIndexSymbol (Some 1) 1 narrowedScopes) 1 (pathXs (IntIndex 0)) = Some 7"
    by code_simp
  ultimately show ?thesis using narrowing_survives_index_write [of narrowedScopes 1 1 "pathXs (IntIndex 0)" 7 "\<lambda>_. 0" 5 "[StepIndex 0]"]
    by (simp add: pathXs_def)
qed

text \<open>\<open>define\<close> succeeds exactly when the scope itself does not have the name yet, and changes nothing
  otherwise. Afterwards the name resolves to the new symbol, whatever the enclosing scopes declare, and every other
  name resolves as before.\<close>

theorem define_then_lookup:
  assumes "scopesOk h" and "s < length h" and "define_symbol th y s h = (b, h')"
  shows "(b \<longleftrightarrow> lookupLocal h s (sy_name (sym th y)) = None) \<and> (\<not> b \<longrightarrow> h' = h) \<and>
    lookup h' s name = (if b \<and> name = sy_name (sym th y) then Some y else lookup h s name)"
proof (cases "sc_symbols (h ! s) (sy_name (sym th y))")
  case (Some z)
  with assms(3) show ?thesis by (auto simp: define_symbol_def lookupLocal_def)
next
  case None
  then have h': "b" "h' = h[s := (h ! s)\<lparr>sc_symbols := (sc_symbols (h ! s))(sy_name (sym th y) \<mapsto> y)\<rparr>]"
    using assms(3) by (auto simp: define_symbol_def)
  have "sc_parent (h' ! i) = sc_parent (h ! i)" for i
    using assms(2) by (cases "i = s") (simp_all add: h'(2))
  then have chain: "scopeChain h' s = scopeChain h s" by (intro scopeChain_parents) (simp_all add: h'(2))
  obtain rest where rest: "scopeChain h s = s # rest" using scopeChain_unfold [OF assms(1,2)] by blast
  have other: "sc_symbols (h' ! i) name = sc_symbols (h ! i) name" if "i \<noteq> s \<or> name \<noteq> sy_name (sym th y)" for i
    using that assms(2) by (cases "i = s") (auto simp: h'(2))
  have "lookup h' s name = lookup h s name" if "name \<noteq> sy_name (sym th y)"
    unfolding lookup_def chain by (rule firstFound_cong) (rule other, use that in simp)
  moreover have "lookup h' s (sy_name (sym th y)) = Some y"
    using assms(2) unfolding lookup_def chain rest by (simp add: h'(2))
  ultimately show ?thesis using None h'(1) by (simp add: lookupLocal_def)
qed

definition oneSymbol :: Heap where
  "oneSymbol = \<lparr>h_types = [], h_structs = [], h_symbols = [\<lparr>sy_name = u16 ''x'', sy_paramTypes = [], sy_returnType = None,
     sy_methodOwner = None, sy_abiThrows = False\<rparr>]\<rparr>"

theorem define_then_lookup_witness:
  "fst (define_symbol oneSymbol 0 1 [newScope None, newScope (Some 0)]) \<and>
   lookup (snd (define_symbol oneSymbol 0 1 [newScope None, newScope (Some 0)])) 1 (u16 ''x'') = Some 0"
proof -
  have "scopesOk [newScope None, newScope (Some 0)]" by (auto simp: scopesOk_def newScope_def less_Suc_eq)
  moreover have "lookupLocal [newScope None, newScope (Some 0)] 1 (sy_name (sym oneSymbol 0)) = None"
    "sy_name (sym oneSymbol 0) = u16 ''x''"
    by (simp_all add: lookupLocal_def newScope_def oneSymbol_def sym_def)
  ultimately show ?thesis
    using define_then_lookup [OF _ _ prod.collapse [symmetric], of "[newScope None, newScope (Some 0)]" 1 oneSymbol 0 "u16 ''x''"]
    by simp
qed

end
