(* ===== verification/Manifests.thy ===== *)
theory Manifests
  imports Tokenizer
begin

text \<open>
  Package manifests: \<open>module/Manifest.h\<close> and \<open>module/Manifest.cpp\<close>. The text of an \<open>ens.package\<close> or
  \<open>ens.overrides\<close> file is tokenized, parsed by recursive descent with recovery, and checked.

  \<open>ManifestParser\<close> is a record; a member function takes it as its last argument and returns it. A
  \<open>std::string\<close> is the list of its bytes, read as characters.
\<close>

section \<open>The model of a manifest\<close>

record ManifestNativeBinding =
  nb_platform :: string
  nb_baseNames :: "string list"
  nb_isArtifact :: bool
  nb_artifactUrl :: string
  nb_artifactChecksum :: string
  nb_line :: int
  nb_column :: int

record ManifestNative =
  na_name :: string
  na_isSystem :: bool
  na_hasBindingBlock :: bool
  na_bindings :: "ManifestNativeBinding list"
  na_line :: int
  na_column :: int

record ManifestDependency =
  de_name :: string
  de_hasVersion :: bool
  de_version :: string
  de_hasSource :: bool
  de_sourceUrl :: string
  de_line :: int
  de_column :: int

record ManifestMember =
  me_folder :: string
  me_line :: int
  me_column :: int

record ManifestOverride =
  ov_name :: string
  ov_folder :: string
  ov_line :: int
  ov_column :: int
  ov_startOffset :: u32
  ov_endOffset :: u32

datatype ManifestForm = FormNone | FormPackage | FormWorkspace | FormOverrides

record Manifest =
  form :: ManifestForm
  packageName :: string
  packageNameLine :: int
  packageNameColumn :: int
  hasVersion :: bool
  version :: string
  hasEnsVersion :: bool
  ensVersion :: string
  dependencies :: "ManifestDependency list"
  natives :: "ManifestNative list"
  members :: "ManifestMember list"
  overrides :: "ManifestOverride list"
  hasOverridesClose :: bool
  overridesCloseOffset :: u32

definition emptyManifest :: Manifest where
  "emptyManifest = \<lparr>form = FormNone, packageName = [], packageNameLine = 0, packageNameColumn = 0, hasVersion = False,
     version = [], hasEnsVersion = False, ensVersion = [], dependencies = [], natives = [], members = [],
     overrides = [], hasOverridesClose = False, overridesCloseOffset = 0\<rparr>"

section \<open>The cursor\<close>

record ManifestParser =
  mp_path :: string
  mp_tokens :: "LexedToken list"
  mp_errors :: "string list"
  mp_index :: nat

text \<open>\<open>utf16ToUtf8\<close> as a \<open>std::string\<close>, and the value of a string token.\<close>

definition utf8Text :: "u16string \<Rightarrow> string" where
  "utf8Text s = byteChars (utf16ToUtf8 s)"

definition stringValue :: "LexedToken \<Rightarrow> string" where
  "stringValue t =
     (let raw = tok_text t in
      utf8Text (if length raw \<ge> 2 \<and> hd raw = 0x22 \<and> last raw = 0x22 then butlast (tl raw) else raw))"

text \<open>The list ends in an end-of-file token, which \<open>advance\<close> never passes; a read past the list, which does not
  happen, would be such a token.\<close>

definition current :: "ManifestParser \<Rightarrow> LexedToken" where
  "current p = (if mp_index p < length (mp_tokens p) then mp_tokens p ! mp_index p
     else \<lparr>tok_kind = EndOfFile, tok_text = [], tok_offset = 0, tok_line = 0, tok_column = 0\<rparr>)"

definition mkind :: "ManifestParser \<Rightarrow> SyntaxKind" where
  "mkind p = tok_kind (current p)"

definition matEnd :: "ManifestParser \<Rightarrow> bool" where
  "matEnd p \<longleftrightarrow> mkind p = EndOfFile"

definition mat :: "SyntaxKind \<Rightarrow> ManifestParser \<Rightarrow> bool" where
  "mat k p \<longleftrightarrow> mkind p = k"

definition atWord :: "string \<Rightarrow> ManifestParser \<Rightarrow> bool" where
  "atWord w p \<longleftrightarrow> mkind p = Identifier \<and> tok_text (current p) = u16 w"

definition peekIsWord :: "string \<Rightarrow> ManifestParser \<Rightarrow> bool" where
  "peekIsWord w p \<longleftrightarrow> mp_index p + 1 < length (mp_tokens p) \<and>
     (let nxt = mp_tokens p ! (mp_index p + 1) in tok_kind nxt = Identifier \<and> tok_text nxt = u16 w)"

definition mpeekKind :: "ManifestParser \<Rightarrow> SyntaxKind" where
  "mpeekKind p = (if mp_index p + 1 \<ge> length (mp_tokens p) then EndOfFile
     else tok_kind (mp_tokens p ! (mp_index p + 1)))"

definition madvance :: "ManifestParser \<Rightarrow> ManifestParser" where
  "madvance p = (if matEnd p then p else p\<lparr>mp_index := mp_index p + 1\<rparr>)"

definition located :: "string \<Rightarrow> int \<Rightarrow> int \<Rightarrow> string \<Rightarrow> string" where
  "located path l c msg = path @ '':'' @ to_string l @ '':'' @ to_string c @ '': '' @ msg"

definition errorHere :: "string \<Rightarrow> ManifestParser \<Rightarrow> ManifestParser" where
  "errorHere msg p = p\<lparr>mp_errors := mp_errors p @
     [located (mp_path p) (tok_line (current p)) (tok_column (current p)) msg]\<rparr>"

definition atDeclarationStart :: "ManifestParser \<Rightarrow> bool" where
  "atDeclarationStart p \<longleftrightarrow> mat KwPackage p \<or> atWord ''workspace'' p \<or> atWord ''overrides'' p"

definition remaining :: "ManifestParser \<Rightarrow> nat" where
  "remaining p = length (mp_tokens p) - mp_index p"

lemma not_atEnd: "\<not> matEnd p \<Longrightarrow> mp_index p < length (mp_tokens p)"
  by (auto simp: matEnd_def mkind_def current_def split: if_splits)

lemma advance_remaining: "\<not> matEnd p \<Longrightarrow> remaining (madvance p) < remaining p"
  using not_atEnd [of p] by (simp add: madvance_def remaining_def)

lemma advance_le: "remaining (madvance p) \<le> remaining p"
  by (simp add: madvance_def remaining_def diff_le_mono2)

lemma errorHere_remaining [simp]: "remaining (errorHere m p) = remaining p"
  by (simp add: errorHere_def remaining_def)

section \<open>Recovery\<close>

text \<open>The body of \<open>skipBalancedBraces\<close> from a given depth.\<close>

function skipBraces :: "int \<Rightarrow> ManifestParser \<Rightarrow> ManifestParser" where
  "skipBraces depth p =
     (if matEnd p then p
      else let d1 = (if mat LBrace p then depth + 1 else depth);
               d2 = (if mat RBrace p then d1 - 1 else d1);
               p1 = madvance p
           in if d2 = 0 then p1 else skipBraces d2 p1)"
  by pat_completeness auto
termination by (relation "measure (\<lambda>(d, p). remaining p)") (auto intro: advance_remaining)

declare skipBraces.simps [simp del]

definition skipBalancedBraces :: "ManifestParser \<Rightarrow> ManifestParser" where
  "skipBalancedBraces p = skipBraces 0 p"

function skipItem :: "ManifestParser \<Rightarrow> ManifestParser" where
  "skipItem p =
     (if matEnd p then p
      else if mat RBrace p then p
      else if mat Semi p then madvance p
      else if mat LBrace p then skipBalancedBraces p
      else skipItem (madvance p))"
  by pat_completeness auto
termination by (relation "measure remaining") (auto intro: advance_remaining)

declare skipItem.simps [simp del]

function skipDeclarationLoop :: "bool \<Rightarrow> ManifestParser \<Rightarrow> ManifestParser" where
  "skipDeclarationLoop first p =
     (if matEnd p then p
      else if \<not> first \<and> atDeclarationStart p then p
      else if mat LBrace p then skipBalancedBraces p
      else skipDeclarationLoop False (madvance p))"
  by pat_completeness auto
termination by (relation "measure (\<lambda>(f, p). remaining p)") (auto intro: advance_remaining)

declare skipDeclarationLoop.simps [simp del]

definition skipDeclaration :: "ManifestParser \<Rightarrow> ManifestParser" where
  "skipDeclaration p = skipDeclarationLoop True p"

definition expectSemicolon :: "ManifestParser \<Rightarrow> ManifestParser" where
  "expectSemicolon p = (if mat Semi p then madvance p else errorHere ''Expected ';' after the declaration.'' p)"

section \<open>Items\<close>

text \<open>\<open>while (at(Dot) && peekKind() == Identifier)\<close>, with the name read so far.\<close>

function pathRest :: "string \<Rightarrow> ManifestParser \<Rightarrow> string \<times> ManifestParser" where
  "pathRest name p =
     (if mat Dot p \<and> mpeekKind p = Identifier then
        let p1 = madvance p in pathRest (name @ ''.'' @ utf8Text (tok_text (current p1))) (madvance p1)
      else (name, p))"
  by pat_completeness auto
termination
  by (relation "measure (\<lambda>(n, p). remaining p)")
    (auto simp: mat_def matEnd_def intro: le_less_trans [OF advance_le advance_remaining])

declare pathRest.simps [simp del]

definition parsePackagePath :: "string \<Rightarrow> ManifestParser \<Rightarrow> string option \<times> ManifestParser" where
  "parsePackagePath missing p =
     (if \<not> mat Identifier p then (None, errorHere missing p)
      else let (name, p1) = pathRest (utf8Text (tok_text (current p))) (madvance p) in (Some name, p1))"

text \<open>\<open>parseValueItem\<close>: the value when there is one; the caller's reference keeps its old value otherwise.\<close>

definition parseValueItem :: "string \<Rightarrow> string \<Rightarrow> ManifestParser \<Rightarrow> string \<times> ManifestParser" where
  "parseValueItem old msg p =
     (let p1 = madvance p in
      if mat StringLiteral p1 then (stringValue (current p1), expectSemicolon (madvance p1))
      else (old, skipItem (errorHere msg p1)))"

definition parseDependency :: "ManifestParser \<Rightarrow> Manifest \<Rightarrow> ManifestParser \<times> Manifest" where
  "parseDependency p m =
     (let l = tok_line (current p); c = tok_column (current p) in
      case parsePackagePath
          ''Expected the dependency's package name, for example 'dependency acme.json;'.'' (madvance p) of
        (None, p1) \<Rightarrow> (skipItem p1, m)
      | (Some name, p1) \<Rightarrow>
          let d = \<lparr>de_name = name, de_hasVersion = False, de_version = [], de_hasSource = False, de_sourceUrl = [],
                de_line = l, de_column = c\<rparr>;
              (d, p2) = (if mat StringLiteral p1
                then (d\<lparr>de_hasVersion := True, de_version := stringValue (current p1)\<rparr>, madvance p1) else (d, p1));
              push = (\<lambda>d. m\<lparr>dependencies := dependencies m @ [d]\<rparr>)
          in if atWord ''from'' p2 then
               let p3 = madvance p2 in
               if mat StringLiteral p3 then
                 (expectSemicolon (madvance p3), push (d\<lparr>de_hasSource := True, de_sourceUrl := stringValue (current p3)\<rparr>))
               else
                 (skipItem (errorHere (''Expected the package's git URL as a string after 'from', for example 'dependency ''
                    @ name @ '' \"2.0\" from \"https://github.com/acme/json.git\";'.'') p3), push d)
             else (expectSemicolon p2, push d))"

text \<open>\<open>while (at(StringLiteral))\<close>\<close>

function baseNamesLoop :: "ManifestParser \<Rightarrow> string list \<times> ManifestParser" where
  "baseNamesLoop p =
     (if mat StringLiteral p
      then let (ns, p1) = baseNamesLoop (madvance p) in (stringValue (current p) # ns, p1)
      else ([], p))"
  by pat_completeness auto
termination by (relation "measure remaining") (auto simp: mat_def matEnd_def intro: advance_remaining)

declare baseNamesLoop.simps [simp del]

definition parseNativeBinding :: "ManifestParser \<Rightarrow> ManifestNative \<Rightarrow> ManifestParser \<times> ManifestNative" where
  "parseNativeBinding p n =
     (if \<not> mat Identifier p then
        (skipItem (errorHere ''Expected a platform binding, for example 'windows \"LLVM-C\";'.'' p), n)
      else
        let b = \<lparr>nb_platform = utf8Text (tok_text (current p)), nb_baseNames = [], nb_isArtifact = False,
              nb_artifactUrl = [], nb_artifactChecksum = [], nb_line = tok_line (current p),
              nb_column = tok_column (current p)\<rparr>;
            push = (\<lambda>b. n\<lparr>na_bindings := na_bindings n @ [b]\<rparr>)
        in if peekIsWord ''artifact'' p then
             let p1 = madvance (madvance p) in
             if \<not> mat StringLiteral p1 then (skipItem (errorHere ''Expected the artifact URL as a string.'' p1), n)
             else
               let b = b\<lparr>nb_isArtifact := True, nb_artifactUrl := stringValue (current p1)\<rparr>;
                   p2 = madvance p1;
                   p3 = (if atWord ''hash'' p2 then madvance p2
                     else errorHere ''Expected 'hash' and the artifact's checksum after the URL.'' p2)
               in if mat StringLiteral p3 then
                    (expectSemicolon (madvance p3), push (b\<lparr>nb_artifactChecksum := stringValue (current p3)\<rparr>))
                  else
                    (skipItem (errorHere
                       ''Expected the artifact's checksum as a string, for example 'hash \"sha256:...\"'.'' p3), push b)
           else
             let p1 = madvance p in
             if \<not> mat StringLiteral p1 then
               (skipItem (errorHere
                  ''Expected at least one library base name as a string, for example 'windows \"LLVM-C\";'.'' p1), n)
             else
               let (ns, p2) = baseNamesLoop p1
               in (expectSemicolon p2, push (b\<lparr>nb_baseNames := ns\<rparr>)))"

section \<open>Every item consumes a token\<close>

lemma skipBraces_le: "remaining (skipBraces d p) \<le> remaining p"
proof (induction "remaining p" arbitrary: d p rule: less_induct)
  case less
  have "remaining (skipBraces e (madvance p)) \<le> remaining p" if "\<not> matEnd p" for e
    using less [OF advance_remaining [OF that]] advance_le [of p] by (rule order_trans)
  then show ?case by (subst skipBraces.simps) (auto simp: Let_def intro: advance_le)
qed

lemma skipBalancedBraces_less: "\<not> matEnd p \<Longrightarrow> remaining (skipBalancedBraces p) < remaining p"
  unfolding skipBalancedBraces_def
  by (subst skipBraces.simps)
    (auto simp: Let_def intro: advance_remaining le_less_trans [OF skipBraces_le advance_remaining])

lemma skipItem_le: "remaining (skipItem p) \<le> remaining p"
proof (induction p rule: skipItem.induct)
  case (1 p)
  show ?case
    by (subst skipItem.simps)
      (use 1 advance_le [of p] skipBalancedBraces_less [of p] in \<open>auto intro: order_trans less_imp_le\<close>)
qed

lemma skipItem_less: "\<not> matEnd p \<Longrightarrow> \<not> mat RBrace p \<Longrightarrow> remaining (skipItem p) < remaining p"
  by (subst skipItem.simps)
    (auto intro: advance_remaining skipBalancedBraces_less le_less_trans [OF skipItem_le advance_remaining])

lemma skipDeclaration_less: "\<not> matEnd p \<Longrightarrow> remaining (skipDeclaration p) < remaining p"
proof -
  have le: "remaining (skipDeclarationLoop f p) \<le> remaining p" for f p
  proof (induction f p rule: skipDeclarationLoop.induct)
    case (1 f p)
    show ?case
      by (subst skipDeclarationLoop.simps)
        (use 1 advance_le [of p] skipBalancedBraces_less [of p] in \<open>auto intro: order_trans less_imp_le\<close>)
  qed
  assume "\<not> matEnd p"
  then show ?thesis unfolding skipDeclaration_def
    by (subst skipDeclarationLoop.simps)
      (auto intro: skipBalancedBraces_less le_less_trans [OF le advance_remaining])
qed

lemma expectSemicolon_le: "remaining (expectSemicolon p) \<le> remaining p"
  by (simp add: expectSemicolon_def advance_le)

lemma pathRest_le: "remaining (snd (pathRest n p)) \<le> remaining p"
proof (induction n p rule: pathRest.induct)
  case (1 n p)
  show ?case
    by (subst pathRest.simps) (use 1 advance_le [of p] advance_le [of "madvance p"] in \<open>auto simp: Let_def\<close>)
qed

lemma baseNamesLoop_le: "remaining (snd (baseNamesLoop p)) \<le> remaining p"
proof (induction p rule: baseNamesLoop.induct)
  case (1 p)
  show ?case by (subst baseNamesLoop.simps) (use 1 advance_le [of p] in \<open>auto simp: split_beta\<close>)
qed

lemma parsePackagePath_le: "remaining (snd (parsePackagePath msg p)) \<le> remaining p"
  using pathRest_le advance_le order_trans by (fastforce simp: parsePackagePath_def split_beta)

text \<open>The cursor never moves back: a bound on what remains is kept by every step.\<close>

named_theorems manifest_le \<open>steps that keep a bound on the tokens that remain\<close>

lemmas [manifest_le] = skipItem_le [THEN order_trans] expectSemicolon_le [THEN order_trans] pathRest_le [THEN order_trans]
  baseNamesLoop_le [THEN order_trans] parsePackagePath_le [THEN order_trans] advance_le [THEN order_trans] order_refl

lemma errorHere_reads [simp]:
  "current (errorHere m p) = current p" "mkind (errorHere m p) = mkind p" "matEnd (errorHere m p) = matEnd p"
  "mat k (errorHere m p) = mat k p" "atWord w (errorHere m p) = atWord w p"
  by (simp_all add: errorHere_def current_def mkind_def matEnd_def mat_def atWord_def)

section \<open>Blocks\<close>

lemma parseNativeBinding_less:
  assumes "\<not> matEnd p" and "\<not> mat RBrace p"
  shows "remaining (fst (parseNativeBinding p n)) < remaining p"
proof -
  have "remaining (fst (parseNativeBinding p n)) \<le> remaining (madvance p)" if "mat Identifier p"
    using that unfolding parseNativeBinding_def Let_def split_beta by (auto intro!: manifest_le)
  moreover have "remaining (skipItem (errorHere m p)) < remaining p" for m
    using skipItem_less [of "errorHere m p"] assms by simp
  ultimately show ?thesis using advance_remaining [OF assms(1)] by (fastforce simp: parseNativeBinding_def)
qed

function bindingsLoop :: "ManifestParser \<Rightarrow> ManifestNative \<Rightarrow> ManifestParser \<times> ManifestNative" where
  "bindingsLoop p n =
     (if \<not> mat RBrace p \<and> \<not> matEnd p
      then let (p1, n1) = parseNativeBinding p n in bindingsLoop p1 n1
      else (p, n))"
  by pat_completeness auto
termination
proof (relation "measure (\<lambda>(p, n). remaining p)", goal_cases)
  case (2 p n x p1 n1)
  then show ?case using parseNativeBinding_less [of p n] by (cases "parseNativeBinding p n") auto
qed simp

declare bindingsLoop.simps [simp del]

definition parseNative :: "ManifestParser \<Rightarrow> Manifest \<Rightarrow> ManifestParser \<times> Manifest" where
  "parseNative p m =
     (let p1 = madvance p in
      if \<not> mat Identifier p1 then
        (skipItem (errorHere ''Expected the native library's name, for example 'native zlib;'.'' p1), m)
      else
        let n0 = \<lparr>na_name = utf8Text (tok_text (current p1)), na_isSystem = False, na_hasBindingBlock = False,
              na_bindings = [], na_line = tok_line (current p), na_column = tok_column (current p)\<rparr>;
            p2 = madvance p1;
            (n, p3) = (if atWord ''system'' p2 then (n0\<lparr>na_isSystem := True\<rparr>, madvance p2) else (n0, p2));
            push = (\<lambda>n. m\<lparr>natives := natives m @ [n]\<rparr>)
        in if mat LBrace p3 then
             let (p4, n1) = bindingsLoop (madvance p3) (n\<lparr>na_hasBindingBlock := True\<rparr>)
             in (if mat RBrace p4 then madvance p4 else errorHere ''Expected '}' to close the binding block.'' p4, push n1)
           else (expectSemicolon p3, push n))"

definition parsePackageItem :: "ManifestParser \<Rightarrow> Manifest \<Rightarrow> ManifestParser \<times> Manifest" where
  "parsePackageItem p m =
     (if atWord ''version'' p then
        let p1 = (if hasVersion m
              then errorHere ''The package already declares 'version'; remove the duplicate.'' p else p);
            (v, p2) = parseValueItem (version m)
              ''Expected the package version as a string, for example 'version \"1.3.0\";'.'' p1
        in (p2, m\<lparr>hasVersion := True, version := v\<rparr>)
      else if atWord ''ens'' p then
        let p1 = (if hasEnsVersion m
              then errorHere ''The package already declares 'ens'; remove the duplicate.'' p else p);
            (v, p2) = parseValueItem (ensVersion m)
              ''Expected the language version as a string, for example 'ens \"1.2\";'.'' p1
        in (p2, m\<lparr>hasEnsVersion := True, ensVersion := v\<rparr>)
      else if atWord ''dependency'' p then parseDependency p m
      else if atWord ''native'' p then parseNative p m
      else (skipItem (errorHere ''Expected a package item: 'version', 'ens', 'dependency', or 'native'.'' p), m))"

definition parseWorkspaceItem :: "ManifestParser \<Rightarrow> Manifest \<Rightarrow> ManifestParser \<times> Manifest" where
  "parseWorkspaceItem p m =
     (if \<not> atWord ''member'' p then
        (skipItem (errorHere ''Expected a member declaration, for example 'member \"frontend\";'.'' p), m)
      else
        let p1 = madvance p in
        if mat StringLiteral p1 then
          (expectSemicolon (madvance p1),
           m\<lparr>members := members m @ [\<lparr>me_folder = stringValue (current p1), me_line = tok_line (current p),
             me_column = tok_column (current p)\<rparr>]\<rparr>)
        else
          (skipItem (errorHere ''Expected the member's folder as a string, for example 'member \"frontend\";'.'' p1), m))"

definition parseOverridesItem :: "ManifestParser \<Rightarrow> Manifest \<Rightarrow> ManifestParser \<times> Manifest" where
  "parseOverridesItem p m =
     (if \<not> mat KwOverride p then
        (skipItem (errorHere ''Expected an override declaration, for example 'override alex.library \"../library\";'.'' p), m)
      else
        case parsePackagePath ''Expected the overridden package's name after 'override'.'' (madvance p) of
          (None, p1) \<Rightarrow> (skipItem p1, m)
        | (Some name, p1) \<Rightarrow>
            if \<not> mat StringLiteral p1 then
              (skipItem (errorHere
                 ''Expected the replacement folder as a string, for example 'override alex.library \"../library\";'.'' p1), m)
            else
              let p2 = madvance p1;
                  e = (of_nat (tok_offset (current p2)) :: u32);
                  (e, p3) = (if mat Semi p2 then (e + of_nat (length (tok_text (current p2))), madvance p2)
                    else (e, errorHere ''Expected ';' after the declaration.'' p2))
              in (p3, m\<lparr>overrides := overrides m @ [\<lparr>ov_name = name, ov_folder = stringValue (current p1),
                   ov_line = tok_line (current p), ov_column = tok_column (current p),
                   ov_startOffset = of_nat (tok_offset (current p)), ov_endOffset = e\<rparr>]\<rparr>))"

lemma bindingsLoop_le: "remaining (fst (bindingsLoop p n)) \<le> remaining p"
proof (induction "remaining p" arbitrary: p n rule: less_induct)
  case less
  have "remaining (fst (bindingsLoop q y)) \<le> remaining p" if "parseNativeBinding p n = (q, y)" "\<not> matEnd p" "\<not> mat RBrace p" for q y
    using less [of q y] parseNativeBinding_less [OF that(2,3), of n] that(1) by simp
  then show ?case by (subst bindingsLoop.simps) (auto split: prod.split)
qed

lemmas [manifest_le] = bindingsLoop_le [THEN order_trans]

lemma parseValueItem_le: "remaining (snd (parseValueItem old msg p)) \<le> remaining (madvance p)"
  unfolding parseValueItem_def Let_def by (auto intro!: manifest_le)

lemma parseDependency_le: "remaining (fst (parseDependency p m)) \<le> remaining (madvance p)"
proof -
  obtain r p1 where r: "parsePackagePath ''Expected the dependency's package name, for example 'dependency acme.json;'.''
      (madvance p) = (r, p1)" by force
  then have "remaining p1 \<le> remaining (madvance p)" using parsePackagePath_le by (metis snd_conv)
  then show ?thesis unfolding parseDependency_def Let_def r
    by (auto intro!: manifest_le split: option.split)
qed

lemma parseNative_le: "remaining (fst (parseNative p m)) \<le> remaining (madvance p)"
  unfolding parseNative_def Let_def split_beta by (auto intro!: manifest_le)

text \<open>Inside a block, away from its end, every item consumes a token.\<close>

lemma atWord_inside: "atWord w p \<Longrightarrow> \<not> matEnd p"
  by (auto simp: atWord_def matEnd_def)

lemma mat_inside: "mat k p \<Longrightarrow> k \<noteq> EndOfFile \<Longrightarrow> \<not> matEnd p"
  by (auto simp: mat_def matEnd_def)

lemma parsePackageItem_less:
  assumes "\<not> matEnd p" and "\<not> mat RBrace p"
  shows "remaining (fst (parsePackageItem p m)) < remaining p"
proof -
  have adv: "remaining (madvance (errorHere e p)) < remaining p" for e
    using advance_remaining [of "errorHere e p"] assms(1) by simp
  have "remaining (snd (parseValueItem old msg p)) < remaining p"
    and "remaining (snd (parseValueItem old msg (errorHere e p))) < remaining p" for old msg e
    using le_less_trans [OF parseValueItem_le advance_remaining [OF assms(1)]] le_less_trans [OF parseValueItem_le adv] by auto
  moreover have "remaining (fst (parseDependency p m)) < remaining p" "remaining (fst (parseNative p m)) < remaining p"
    using parseDependency_le parseNative_le advance_remaining [OF assms(1)] le_less_trans by blast+
  moreover have "remaining (skipItem (errorHere e p)) < remaining p" for e
    using skipItem_less [of "errorHere e p"] assms by simp
  ultimately show ?thesis by (simp add: parsePackageItem_def Let_def split_beta)
qed

lemma parseWorkspaceItem_less:
  assumes "\<not> matEnd p" and "\<not> mat RBrace p"
  shows "remaining (fst (parseWorkspaceItem p m)) < remaining p"
proof -
  have "remaining (skipItem (errorHere e p)) < remaining p" for e
    using skipItem_less [of "errorHere e p"] assms by simp
  moreover have "remaining (fst (parseWorkspaceItem p m)) \<le> remaining (madvance p)" if "atWord ''member'' p"
    using that unfolding parseWorkspaceItem_def Let_def by (auto intro!: manifest_le)
  ultimately show ?thesis using advance_remaining [OF assms(1)] by (fastforce simp: parseWorkspaceItem_def)
qed

lemma parseOverridesItem_less:
  assumes "\<not> matEnd p" and "\<not> mat RBrace p"
  shows "remaining (fst (parseOverridesItem p m)) < remaining p"
proof (cases "mat KwOverride p")
  case False
  then show ?thesis using skipItem_less [of "errorHere e p" for e] assms by (simp add: parseOverridesItem_def)
next
  case True
  obtain r p1 where r: "parsePackagePath ''Expected the overridden package's name after 'override'.'' (madvance p) = (r, p1)"
    by force
  then have "remaining p1 \<le> remaining (madvance p)" using parsePackagePath_le by (metis snd_conv)
  then have "remaining (fst (parseOverridesItem p m)) \<le> remaining (madvance p)"
    using True unfolding parseOverridesItem_def Let_def r by (auto intro!: manifest_le split: option.split)
  with advance_remaining [OF assms(1)] show ?thesis by simp
qed

function packageItems :: "ManifestParser \<Rightarrow> Manifest \<Rightarrow> ManifestParser \<times> Manifest" where
  "packageItems p m =
     (if \<not> mat RBrace p \<and> \<not> matEnd p then let (p1, m1) = parsePackageItem p m in packageItems p1 m1 else (p, m))"
  by pat_completeness auto
termination
proof (relation "measure (\<lambda>(p, n). remaining p)", goal_cases)
  case (2 p m x p1 m1)
  then show ?case using parsePackageItem_less [of p m] by (cases "parsePackageItem p m") auto
qed simp

function workspaceItems :: "ManifestParser \<Rightarrow> Manifest \<Rightarrow> ManifestParser \<times> Manifest" where
  "workspaceItems p m =
     (if \<not> mat RBrace p \<and> \<not> matEnd p then let (p1, m1) = parseWorkspaceItem p m in workspaceItems p1 m1 else (p, m))"
  by pat_completeness auto
termination
proof (relation "measure (\<lambda>(p, n). remaining p)", goal_cases)
  case (2 p m x p1 m1)
  then show ?case using parseWorkspaceItem_less [of p m] by (cases "parseWorkspaceItem p m") auto
qed simp

function overridesItems :: "ManifestParser \<Rightarrow> Manifest \<Rightarrow> ManifestParser \<times> Manifest" where
  "overridesItems p m =
     (if \<not> mat RBrace p \<and> \<not> matEnd p then let (p1, m1) = parseOverridesItem p m in overridesItems p1 m1 else (p, m))"
  by pat_completeness auto
termination
proof (relation "measure (\<lambda>(p, n). remaining p)", goal_cases)
  case (2 p m x p1 m1)
  then show ?case using parseOverridesItem_less [of p m] by (cases "parseOverridesItem p m") auto
qed simp

declare packageItems.simps [simp del] workspaceItems.simps [simp del] overridesItems.simps [simp del]

lemma packageItems_le: "remaining (fst (packageItems p m)) \<le> remaining p"
proof (induction "remaining p" arbitrary: p m rule: less_induct)
  case less
  have "remaining (fst (packageItems q y)) \<le> remaining p" if "parsePackageItem p m = (q, y)" "\<not> matEnd p" "\<not> mat RBrace p" for q y
    using less [of q y] parsePackageItem_less [OF that(2,3), of m] that(1) by simp
  then show ?case by (subst packageItems.simps) (auto split: prod.split)
qed

lemma workspaceItems_le: "remaining (fst (workspaceItems p m)) \<le> remaining p"
proof (induction "remaining p" arbitrary: p m rule: less_induct)
  case less
  have "remaining (fst (workspaceItems q y)) \<le> remaining p" if "parseWorkspaceItem p m = (q, y)" "\<not> matEnd p" "\<not> mat RBrace p" for q y
    using less [of q y] parseWorkspaceItem_less [OF that(2,3), of m] that(1) by simp
  then show ?case by (subst workspaceItems.simps) (auto split: prod.split)
qed

lemma overridesItems_le: "remaining (fst (overridesItems p m)) \<le> remaining p"
proof (induction "remaining p" arbitrary: p m rule: less_induct)
  case less
  have "remaining (fst (overridesItems q y)) \<le> remaining p" if "parseOverridesItem p m = (q, y)" "\<not> matEnd p" "\<not> mat RBrace p" for q y
    using less [of q y] parseOverridesItem_less [OF that(2,3), of m] that(1) by simp
  then show ?case by (subst overridesItems.simps) (auto split: prod.split)
qed

lemmas [manifest_le] = packageItems_le [THEN order_trans] workspaceItems_le [THEN order_trans] overridesItems_le [THEN order_trans]

text \<open>The two ends of \<open>parseBlock\<close>, around its items.\<close>

definition openBlock :: "ManifestParser \<Rightarrow> ManifestParser" where
  "openBlock p = (if mat LBrace p then madvance p else errorHere ''Expected '{' to begin the declaration's body.'' p)"

definition closeBlock :: "ManifestParser \<Rightarrow> u32 option \<times> ManifestParser" where
  "closeBlock p =
     (if mat RBrace p then (Some (of_nat (tok_offset (current p))), madvance p)
      else (None, errorHere ''Expected '}' to close the declaration.'' p))"

section \<open>Declarations\<close>

definition parseDeclaration :: "ManifestParser \<Rightarrow> Manifest \<Rightarrow> ManifestParser \<times> Manifest" where
  "parseDeclaration p m =
     (if mat KwPackage p then
        let p1 = madvance p;
            m1 = m\<lparr>form := FormPackage, packageNameLine := tok_line (current p1),
              packageNameColumn := tok_column (current p1)\<rparr>;
            (name, p2) = parsePackagePath
              ''Expected the package name after 'package', for example 'package acme.tools'.'' p1;
            m2 = (case name of None \<Rightarrow> m1 | Some n \<Rightarrow> m1\<lparr>packageName := n\<rparr>);
            (p3, m3) = packageItems (openBlock p2) m2
        in (snd (closeBlock p3), m3)
      else if atWord ''workspace'' p then
        let (p1, m1) = workspaceItems (openBlock (madvance p)) (m\<lparr>form := FormWorkspace\<rparr>)
        in (snd (closeBlock p1), m1)
      else
        let (p1, m1) = overridesItems (openBlock (madvance p)) (m\<lparr>form := FormOverrides\<rparr>);
            (close, p2) = closeBlock p1
        in (p2, case close of None \<Rightarrow> m1 | Some c \<Rightarrow> m1\<lparr>hasOverridesClose := True, overridesCloseOffset := c\<rparr>))"

lemma openBlock_le: "remaining (openBlock p) \<le> remaining p" and closeBlock_le: "remaining (snd (closeBlock p)) \<le> remaining p"
  by (simp_all add: openBlock_def closeBlock_def advance_le)

lemmas [manifest_le] = openBlock_le [THEN order_trans] closeBlock_le [THEN order_trans]

lemma parseDeclaration_less: "\<not> matEnd p \<Longrightarrow> remaining (fst (parseDeclaration p m)) < remaining p"
proof -
  have "remaining (fst (parseDeclaration p m)) \<le> remaining (madvance p)"
    unfolding parseDeclaration_def Let_def split_beta by (auto intro!: manifest_le)
  then show "\<not> matEnd p \<Longrightarrow> ?thesis" using advance_remaining [of p] by simp
qed

function parseDeclarations :: "ManifestParser \<Rightarrow> Manifest \<Rightarrow> ManifestParser \<times> Manifest" where
  "parseDeclarations p m =
     (if matEnd p then (p, m)
      else if atDeclarationStart p then
        if form m = FormNone then let (p1, m1) = parseDeclaration p m in parseDeclarations p1 m1
        else parseDeclarations (fst (parseDeclaration
               (errorHere (''A manifest file holds exactly one declaration; remove the extra '' @ [CHR 0x27] @
                  utf8Text (tok_text (current p)) @ [CHR 0x27] @ '' declaration.'') p) emptyManifest)) m
      else parseDeclarations (skipDeclaration (errorHere
             ''Expected 'package', 'workspace', or 'overrides' to begin the manifest declaration.'' p)) m)"
  by pat_completeness auto
termination
proof (relation "measure (\<lambda>(p, n). remaining p)", goal_cases)
  case (2 p m x p1 m1)
  then show ?case using parseDeclaration_less [of p m] by (cases "parseDeclaration p m") auto
next
  case (3 p m)
  then show ?case using parseDeclaration_less [of "errorHere e p" emptyManifest for e] by simp
next
  case (4 p m)
  then show ?case using skipDeclaration_less [of "errorHere e p" for e] by simp
qed simp

declare parseDeclarations.simps [simp del]

definition parseManifestTokens :: "string \<Rightarrow> LexedToken list \<Rightarrow> string list \<Rightarrow> ManifestParser \<times> Manifest" where
  "parseManifestTokens path toks errors =
     parseDeclarations \<lparr>mp_path = path, mp_tokens = toks, mp_errors = errors, mp_index = 0\<rparr> emptyManifest"

definition diagnosticText :: "string \<Rightarrow> Diagnostic \<Rightarrow> string" where
  "diagnosticText path d = located path (span_line (span d)) (span_column (span d)) (message d)"

definition parseManifestText :: "string \<Rightarrow> u16string \<Rightarrow> string list \<Rightarrow> Manifest \<times> string list" where
  "parseManifestText path src errors =
     (let (all, sink) = tokenize src [];
          toks = filter (\<lambda>t. \<not> isTrivia (tok_kind t)) all;
          (p, m) = parseManifestTokens path toks (errors @ map (diagnosticText path) sink)
      in (m, mp_errors p))"

section \<open>Checks\<close>

definition isDigitChar :: "char \<Rightarrow> bool" where
  "isDigitChar c \<longleftrightarrow> c \<in> set ''0123456789''"

definition isHexChar :: "char \<Rightarrow> bool" where
  "isHexChar c \<longleftrightarrow> c \<in> set ''0123456789abcdefABCDEF''"

text \<open>The loop of \<open>isDottedNumerals\<close>, with \<open>digitInSegment\<close>.\<close>

fun dottedLoop :: "bool \<Rightarrow> string \<Rightarrow> bool" where
  "dottedLoop digit [] = digit"
| "dottedLoop digit (c # cs) =
     (if c = CHR ''.'' then (if \<not> digit then False else dottedLoop False cs)
      else if isDigitChar c then dottedLoop True cs
      else False)"

definition isDottedNumerals :: "string \<Rightarrow> bool" where
  "isDottedNumerals t = (if t = [] then False else dottedLoop False t)"

definition isKnownPlatform :: "string \<Rightarrow> bool" where
  "isKnownPlatform s \<longleftrightarrow> s = ''windows'' \<or> s = ''linux'' \<or> s = ''macos''"

definition isValidChecksum :: "string \<Rightarrow> bool" where
  "isValidChecksum t =
     (let pre = ''sha256:'' in
      if length t \<noteq> length pre + 64 then False
      else if take (length pre) t \<noteq> pre then False
      else list_all isHexChar (drop (length pre) t))"

definition isValidVersionText :: "string \<Rightarrow> bool" where
  "isValidVersionText t = isDottedNumerals t"

definition isValidEnsVersionText :: "string \<Rightarrow> bool" where
  "isValidEnsVersionText t = (if \<not> isDottedNumerals t then False else count_list t (CHR ''.'') = 1)"

text \<open>One check: the message to append, if any. The checks only append.\<close>

definition problem :: "bool \<Rightarrow> string \<Rightarrow> string list" where
  "problem b msg = (if b then [msg] else [])"

definition quoted :: "string \<Rightarrow> string" where
  "quoted s = CHR 0x27 # s @ [CHR 0x27]"

fun bindingProblems :: "string \<Rightarrow> ManifestNative \<Rightarrow> string list \<Rightarrow> ManifestNativeBinding list \<Rightarrow> string list" where
  "bindingProblems path n seen [] = []"
| "bindingProblems path n seen (b # bs) =
     (let at = located path (nb_line b) (nb_column b) in
      problem (\<not> isKnownPlatform (nb_platform b))
        (at (''Unknown platform '' @ quoted (nb_platform b) @ '' in native library '' @ quoted (na_name n) @
           ''; bindings use 'windows', 'linux', or 'macos'.'')) @
      problem (nb_platform b \<in> set seen)
        (at (''Platform '' @ quoted (nb_platform b) @ '' is bound twice for native library '' @ quoted (na_name n) @
           ''; remove the duplicate.'')) @
      problem (nb_isArtifact b \<and> \<not> isValidChecksum (nb_artifactChecksum b))
        (at (''The artifact checksum for native library '' @ quoted (na_name n) @
           '' must look like \"sha256:\" followed by 64 hex digits.'')) @
      concat (map (\<lambda>base. problem (base = [])
        (at (''A library base name for native library '' @ quoted (na_name n) @ '' cannot be empty.''))) (nb_baseNames b)) @
      bindingProblems path n (seen @ [nb_platform b]) bs)"

definition validateNative :: "string \<Rightarrow> ManifestNative \<Rightarrow> string list" where
  "validateNative path n =
     problem (na_isSystem n \<and> na_hasBindingBlock n)
       (located path (na_line n) (na_column n) (''Native library '' @ quoted (na_name n) @ '' is marked '' @
          quoted ''system'' @ '', so it is linked by platform defaults and cannot carry a binding block.'')) @
     bindingProblems path n [] (na_bindings n)"

definition kToolchainVersion :: string where
  "kToolchainVersion = ''0.1''"

text \<open>What an element adds, given the elements before it.\<close>

definition dependencyProblems :: "string \<Rightarrow> ManifestDependency list \<Rightarrow> nat \<Rightarrow> string list" where
  "dependencyProblems path ds i =
     (let d = ds ! i; at = located path (de_line d) (de_column d) in
      problem (de_hasVersion d \<and> \<not> isValidVersionText (de_version d))
        (at (''The version '' @ quoted (de_version d) @ '' of dependency '' @ quoted (de_name d) @
           '' is not a valid version; use dotted numerals such as \"2.0\".'')) @
      problem (de_hasSource d \<and> \<not> de_hasVersion d)
        (at (''Dependency '' @ quoted (de_name d) @ '' declares a git source but no version; a git source fetches a tagged '' @
           ''version, for example 'dependency '' @ de_name d @ '' \"1.0\" from \"'' @ de_sourceUrl d @ ''\";'.'')) @
      problem (de_hasSource d \<and> de_sourceUrl d = [])
        (at (''The git URL of dependency '' @ quoted (de_name d) @ '' cannot be empty.'')) @
      problem (de_name d \<in> set (map de_name (take i ds)))
        (at (''Package '' @ quoted (de_name d) @ '' is already declared as a dependency; remove the duplicate.'')))"

definition nativeProblems :: "string \<Rightarrow> ManifestNative list \<Rightarrow> nat \<Rightarrow> string list" where
  "nativeProblems path ns i =
     (let n = ns ! i in
      validateNative path n @
      problem (na_name n \<in> set (map na_name (take i ns)))
        (located path (na_line n) (na_column n)
           (''Native library '' @ quoted (na_name n) @ '' is already declared; remove the duplicate.'')))"

definition memberProblems :: "string \<Rightarrow> ManifestMember list \<Rightarrow> nat \<Rightarrow> string list" where
  "memberProblems path ms i =
     (let m = ms ! i; at = located path (me_line m) (me_column m) in
      problem (me_folder m = []) (at ''A member folder cannot be empty.'') @
      problem (me_folder m \<in> set (map me_folder (take i ms)))
        (at (''Member '' @ quoted (me_folder m) @ '' is already listed; remove the duplicate.'')))"

definition overrideProblems :: "string \<Rightarrow> ManifestOverride list \<Rightarrow> nat \<Rightarrow> string list" where
  "overrideProblems path vs i =
     (let v = vs ! i; at = located path (ov_line v) (ov_column v) in
      problem (ov_folder v = []) (at ''An override folder cannot be empty.'') @
      problem (ov_name v \<in> set (map ov_name (take i vs)))
        (at (''Package '' @ quoted (ov_name v) @ '' is already overridden; remove the duplicate.'')))"

definition eachIndex :: "('a list \<Rightarrow> nat \<Rightarrow> string list) \<Rightarrow> 'a list \<Rightarrow> string list" where
  "eachIndex f xs = concat (map (f xs) [0..<length xs])"

definition validateManifest :: "Manifest \<Rightarrow> string \<Rightarrow> string list \<Rightarrow> string list" where
  "validateManifest m path errors =
     errors @
     problem (hasVersion m \<and> \<not> isValidVersionText (version m))
       (path @ '': The version '' @ quoted (version m) @ '' is not a valid version; use dotted numerals such as \"1.3.0\".'') @
     problem (form m = FormPackage \<and> \<not> hasEnsVersion m \<and> packageName m \<noteq> [])
       (path @ '': Package '' @ quoted (packageName m) @ '' does not declare the language version it is written for; '' @
          ''add 'ens \"'' @ kToolchainVersion @ ''\";' to the package declaration.'') @
     problem (hasEnsVersion m \<and> \<not> isValidEnsVersionText (ensVersion m))
       (path @ '': The language version '' @ quoted (ensVersion m) @ '' is not valid; use major.minor, such as \"1.2\".'') @
     eachIndex (dependencyProblems path) (dependencies m) @
     eachIndex (nativeProblems path) (natives m) @
     eachIndex (memberProblems path) (members m) @
     eachIndex (overrideProblems path) (overrides m)"

text \<open>Reading the file is a parameter: its bytes, or nothing when it cannot be opened.\<close>

definition loadManifestFile :: "(string \<Rightarrow> bytes option) \<Rightarrow> string \<Rightarrow> string list \<Rightarrow> Manifest \<times> string list" where
  "loadManifestFile readBytes file errors =
     (case readBytes file of
        None \<Rightarrow> (emptyManifest, errors @ [''Could not read '' @ file @ ''.''])
      | Some bs \<Rightarrow>
          (case decodeUtf8ToUtf16 bs of
             (src, Some err) \<Rightarrow> (emptyManifest, errors @ [file @ '': '' @ describeUtf8DecodeError err])
           | (src, None) \<Rightarrow>
               let (m, errors1) = parseManifestText file src errors
               in (m, validateManifest m file errors1)))"

section \<open>What the checks accept\<close>

fun joinDots :: "string list \<Rightarrow> string" where
  "joinDots [] = []"
| "joinDots [s] = s"
| "joinDots (s # ss) = s @ CHR ''.'' # joinDots ss"

lemma joinDots_Cons: "ss \<noteq> [] \<Longrightarrow> joinDots (s # ss) = s @ CHR ''.'' # joinDots ss"
  by (cases ss) simp_all

definition digits :: "string \<Rightarrow> bool" where
  "digits s \<longleftrightarrow> list_all isDigitChar s"

lemma dot_no_digit: "\<not> isDigitChar (CHR ''.'')"
  by (simp add: isDigitChar_def)

text \<open>Numerals separated by dots.\<close>

definition numerals :: "string list \<Rightarrow> string \<Rightarrow> bool" where
  "numerals segs t \<longleftrightarrow> segs \<noteq> [] \<and> t = joinDots segs \<and> list_all (\<lambda>s. s \<noteq> [] \<and> digits s) segs"

lemma dottedLoop_segments:
  "dottedLoop d t \<longleftrightarrow> (\<exists>s segs. t = joinDots (s # segs) \<and> digits s \<and> (d \<or> s \<noteq> []) \<and> list_all (\<lambda>s. s \<noteq> [] \<and> digits s) segs)"
    (is "_ \<longleftrightarrow> (\<exists>s segs. ?P d t s segs)")
proof (induction t arbitrary: d)
  case Nil
  have "?P d [] s segs \<longleftrightarrow> d \<and> s = [] \<and> segs = []" for s segs by (cases segs) (auto simp: digits_def)
  then show ?case by auto
next
  case (Cons c cs)
  show ?case
  proof (cases "c = CHR ''.''")
    case True
    have "?P d (c # cs) s segs \<longleftrightarrow> d \<and> s = [] \<and> (\<exists>s' segs'. segs = s' # segs' \<and> ?P False cs s' segs')" for s segs
    proof (cases segs)
      case (Cons s' segs')
      then show ?thesis using True dot_no_digit by (cases s) (auto simp: digits_def joinDots_Cons)
    qed (use True dot_no_digit in \<open>auto simp: digits_def\<close>)
    then show ?thesis using Cons.IH [of False] True by auto
  next
    case False
    have "?P d (c # cs) s segs \<longleftrightarrow> (\<exists>s'. s = c # s' \<and> isDigitChar c \<and> ?P True cs s' segs)" for s segs
      using False by (cases s; cases segs) (auto simp: digits_def)
    then show ?thesis using Cons.IH [of True] False by auto
  qed
qed

lemma isDottedNumerals_iff: "isDottedNumerals t \<longleftrightarrow> (\<exists>segs. numerals segs t)"
proof -
  have "(\<exists>segs. numerals segs t) \<longleftrightarrow> dottedLoop False t"
  proof
    assume "\<exists>segs. numerals segs t"
    then obtain s segs where "numerals (s # segs) t" by (auto simp: numerals_def neq_Nil_conv)
    then show "dottedLoop False t" unfolding dottedLoop_segments
      by (intro exI [of _ s] exI [of _ segs]) (simp add: numerals_def)
  next
    assume "dottedLoop False t"
    then obtain s segs where "numerals (s # segs) t" unfolding dottedLoop_segments by (auto simp: numerals_def)
    then show "\<exists>segs. numerals segs t" by blast
  qed
  moreover have "\<not> dottedLoop False []" by simp
  ultimately show ?thesis by (metis isDottedNumerals_def)
qed

lemma count_dots: "segs \<noteq> [] \<Longrightarrow> list_all (\<lambda>s. s \<noteq> [] \<and> digits s) segs \<Longrightarrow> count_list (joinDots segs) (CHR ''.'') = length segs - 1"
proof (induction segs rule: joinDots.induct)
  have none: "count_list s (CHR ''.'') = 0" if "digits s" for s
    using that dot_no_digit by (auto simp: digits_def list_all_iff count_list_0_iff)
  case (2 s)
  then show ?case using none by simp
next
  have none: "count_list s (CHR ''.'') = 0" if "digits s" for s
    using that dot_no_digit by (auto simp: digits_def list_all_iff count_list_0_iff)
  case (3 s v va)
  then show ?case using none by simp
qed simp

lemma isValidEnsVersionText_iff: "isValidEnsVersionText t \<longleftrightarrow> (\<exists>a b. numerals [a, b] t)"
proof
  assume "isValidEnsVersionText t"
  then obtain segs where s: "numerals segs t" "count_list t (CHR ''.'') = 1"
    by (auto simp: isValidEnsVersionText_def isDottedNumerals_iff split: if_splits)
  with count_dots [of segs] have "length segs = Suc (Suc 0)" by (auto simp: numerals_def)
  then obtain a b where "segs = [a, b]" by (auto simp: length_Suc_conv)
  with s show "\<exists>a b. numerals [a, b] t" by blast
next
  assume "\<exists>a b. numerals [a, b] t"
  then obtain a b where n: "numerals [a, b] t" by blast
  with count_dots [of "[a, b]"] have "count_list t (CHR ''.'') = 1" by (simp add: numerals_def)
  with n show "isValidEnsVersionText t" by (auto simp: isValidEnsVersionText_def isDottedNumerals_iff)
qed

definition bindingOk :: "ManifestNativeBinding \<Rightarrow> bool" where
  "bindingOk b \<longleftrightarrow> nb_platform b \<in> {''windows'', ''linux'', ''macos''} \<and> [] \<notin> set (nb_baseNames b) \<and>
     (nb_isArtifact b \<longrightarrow> (\<exists>hex. nb_artifactChecksum b = ''sha256:'' @ hex \<and> length hex = 64 \<and> list_all isHexChar hex))"

definition nativeOk :: "ManifestNative \<Rightarrow> bool" where
  "nativeOk n \<longleftrightarrow> \<not> (na_isSystem n \<and> na_hasBindingBlock n) \<and> list_all bindingOk (na_bindings n) \<and>
     distinct (map nb_platform (na_bindings n))"

definition dependencyOk :: "ManifestDependency \<Rightarrow> bool" where
  "dependencyOk d \<longleftrightarrow> (de_hasVersion d \<longrightarrow> (\<exists>segs. numerals segs (de_version d))) \<and>
     (de_hasSource d \<longrightarrow> de_hasVersion d \<and> de_sourceUrl d \<noteq> [])"

definition manifestOk :: "Manifest \<Rightarrow> bool" where
  "manifestOk m \<longleftrightarrow>
     (hasVersion m \<longrightarrow> (\<exists>segs. numerals segs (version m))) \<and>
     (if hasEnsVersion m then \<exists>major minor. numerals [major, minor] (ensVersion m)
      else form m = FormPackage \<longrightarrow> packageName m = []) \<and>
     list_all dependencyOk (dependencies m) \<and> distinct (map de_name (dependencies m)) \<and>
     list_all nativeOk (natives m) \<and> distinct (map na_name (natives m)) \<and>
     list_all (\<lambda>x. me_folder x \<noteq> []) (members m) \<and> distinct (map me_folder (members m)) \<and>
     list_all (\<lambda>x. ov_folder x \<noteq> []) (overrides m) \<and> distinct (map ov_name (overrides m))"

lemma problem_Nil [simp]: "problem b msg = [] \<longleftrightarrow> \<not> b"
  by (simp add: problem_def)

lemma checksum_iff:
  "isValidChecksum t \<longleftrightarrow> (\<exists>hex. t = ''sha256:'' @ hex \<and> length hex = 64 \<and> list_all isHexChar hex)"
proof
  assume c: "isValidChecksum t"
  have "length ''sha256:'' = 7" by simp
  with c have "take 7 t = ''sha256:''" "length t = 7 + 64" "list_all isHexChar (drop 7 t)"
    unfolding isValidChecksum_def Let_def by (simp_all only: split: if_splits)
  then have "t = ''sha256:'' @ drop 7 t" "length (drop 7 t) = 64" "list_all isHexChar (drop 7 t)"
    using append_take_drop_id [of 7 t] by simp_all
  then show "\<exists>hex. t = ''sha256:'' @ hex \<and> length hex = 64 \<and> list_all isHexChar hex" by blast
qed (auto simp: isValidChecksum_def)

lemma distinct_indices: "distinct xs \<longleftrightarrow> (\<forall>i < length xs. xs ! i \<notin> set (take i xs))"
  by (auto simp: distinct_conv_nth in_set_conv_nth) (metis nat_neq_iff)+

lemma eachIndex_Nil:
  assumes "\<And>i. i < length xs \<Longrightarrow> f xs i = [] \<longleftrightarrow> P (xs ! i) \<and> g (xs ! i) \<notin> set (map g (take i xs))"
  shows "eachIndex f xs = [] \<longleftrightarrow> list_all P xs \<and> distinct (map g xs)"
  using assms unfolding distinct_indices by (auto simp: eachIndex_def list_all_length take_map)

lemma bindingProblems_Nil:
  "bindingProblems path n seen bs = [] \<longleftrightarrow>
     list_all bindingOk bs \<and> distinct (map nb_platform bs) \<and> set (map nb_platform bs) \<inter> set seen = {}"
  by (induction bs arbitrary: seen)
    (auto simp: Let_def bindingOk_def isKnownPlatform_def checksum_iff)

lemma validateNative_Nil: "validateNative path n = [] \<longleftrightarrow> nativeOk n"
  by (simp add: validateNative_def nativeOk_def bindingProblems_Nil)

text \<open>C31: \<open>validateManifest\<close> only appends to the errors, and appends nothing exactly when the manifest meets the
  rules of \<open>manifestOk\<close>, those the source checks: dotted version numerals, a major.minor language version that a named package must declare, git
  sources with a version, no \<open>system\<close> library with a binding block, known platforms bound once, well-formed checksums,
  non-empty folders and names, and no duplicates.\<close>

theorem validate_exactly:
  "\<exists>es. validateManifest m path errors = errors @ es \<and> (es = [] \<longleftrightarrow> manifestOk m)"
proof -
  have d: "eachIndex (dependencyProblems path) (dependencies m) = [] \<longleftrightarrow>
      list_all dependencyOk (dependencies m) \<and> distinct (map de_name (dependencies m))"
    by (rule eachIndex_Nil)
      (auto simp: dependencyProblems_def Let_def dependencyOk_def isValidVersionText_def isDottedNumerals_iff)
  have n: "eachIndex (nativeProblems path) (natives m) = [] \<longleftrightarrow>
      list_all nativeOk (natives m) \<and> distinct (map na_name (natives m))"
    by (rule eachIndex_Nil) (simp add: nativeProblems_def Let_def validateNative_Nil)
  have e: "eachIndex (memberProblems path) (members m) = [] \<longleftrightarrow>
      list_all (\<lambda>x. me_folder x \<noteq> []) (members m) \<and> distinct (map me_folder (members m))"
    by (rule eachIndex_Nil) (simp add: memberProblems_def Let_def)
  have v: "eachIndex (overrideProblems path) (overrides m) = [] \<longleftrightarrow>
      list_all (\<lambda>x. ov_folder x \<noteq> []) (overrides m) \<and> distinct (map ov_name (overrides m))"
    by (rule eachIndex_Nil) (simp add: overrideProblems_def Let_def)
  show ?thesis
    unfolding validateManifest_def
    by (rule exI, rule conjI, rule refl)
      (auto simp: d n e v manifestOk_def isValidVersionText_def isDottedNumerals_iff isValidEnsVersionText_iff)
qed

end
