(* ===== verification/ManifestGrammar.thy ===== *)
theory ManifestGrammar
  imports Manifests
begin

text \<open>
  The language of manifests: an abstract syntax of declarations, how it is written as tokens, and what it means.
  The manifest parser reads back exactly what was written, without an error.
\<close>

section \<open>Abstract syntax\<close>

datatype NativeBinding =
    Names u16string "u16string list"
  | Artifact u16string u16string u16string

datatype PackageItem =
    ItemVersion u16string
  | ItemEns u16string
  | ItemDependency "u16string list" "u16string option" "u16string option"
  | ItemNative u16string bool "NativeBinding list option"

datatype Declaration =
    Package "u16string list" "PackageItem list"
  | Workspace "u16string list"
  | Overrides "(u16string list \<times> u16string) list"

section \<open>Written form\<close>

type_synonym sig = "SyntaxKind \<times> u16string"

definition identT :: "u16string \<Rightarrow> sig" where
  "identT s = (Identifier, s)"

definition wordT :: "string \<Rightarrow> sig" where
  "wordT w = (Identifier, u16 w)"

definition strT :: "u16string \<Rightarrow> sig" where
  "strT s = (StringLiteral, 0x22 # s @ [0x22])"

definition semiT :: sig where "semiT = (Semi, u16 '';'')"
definition lbraceT :: sig where "lbraceT = (LBrace, u16 ''{'')"
definition rbraceT :: sig where "rbraceT = (RBrace, u16 ''}'')"
definition dotT :: sig where "dotT = (Dot, u16 ''.'')"

lemmas sigs = identT_def wordT_def strT_def semiT_def lbraceT_def rbraceT_def dotT_def

fun pathT :: "u16string list \<Rightarrow> sig list" where
  "pathT [] = []"
| "pathT (s # ss) = identT s # concat (map (\<lambda>x. [dotT, identT x]) ss)"

fun bindingT :: "NativeBinding \<Rightarrow> sig list" where
  "bindingT (Names platform names) = identT platform # map strT names @ [semiT]"
| "bindingT (Artifact platform url checksum) =
     [identT platform, wordT ''artifact'', strT url, wordT ''hash'', strT checksum, semiT]"

fun optT :: "string list \<Rightarrow> u16string option \<Rightarrow> sig list" where
  "optT ws None = []"
| "optT ws (Some s) = map wordT ws @ [strT s]"

fun itemT :: "PackageItem \<Rightarrow> sig list" where
  "itemT (ItemVersion s) = [wordT ''version'', strT s, semiT]"
| "itemT (ItemEns s) = [wordT ''ens'', strT s, semiT]"
| "itemT (ItemDependency path v s) =
     wordT ''dependency'' # pathT path @ optT [] v @ optT [''from''] s @ [semiT]"
| "itemT (ItemNative name system bindings) =
     wordT ''native'' # identT name # (if system then [wordT ''system''] else []) @
     (case bindings of None \<Rightarrow> [semiT] | Some bs \<Rightarrow> lbraceT # concat (map bindingT bs) @ [rbraceT])"

fun declarationT :: "Declaration \<Rightarrow> sig list" where
  "declarationT (Package path items) =
     (KwPackage, u16 ''package'') # pathT path @ lbraceT # concat (map itemT items) @ [rbraceT]"
| "declarationT (Workspace folders) =
     wordT ''workspace'' # lbraceT # concat (map (\<lambda>f. [wordT ''member'', strT f, semiT]) folders) @ [rbraceT]"
| "declarationT (Overrides os) =
     wordT ''overrides'' # lbraceT #
     concat (map (\<lambda>(p, f). (KwOverride, u16 ''override'') # pathT p @ [strT f, semiT]) os) @ [rbraceT]"

section \<open>Meaning\<close>

text \<open>Manifests are compared up to the positions of their parts.\<close>

definition anonBinding :: "ManifestNativeBinding \<Rightarrow> ManifestNativeBinding" where
  "anonBinding b = b\<lparr>nb_line := 0, nb_column := 0\<rparr>"

definition anonNative :: "ManifestNative \<Rightarrow> ManifestNative" where
  "anonNative n = n\<lparr>na_bindings := map anonBinding (na_bindings n), na_line := 0, na_column := 0\<rparr>"

definition anonDependency :: "ManifestDependency \<Rightarrow> ManifestDependency" where
  "anonDependency d = d\<lparr>de_line := 0, de_column := 0\<rparr>"

definition anonMember :: "ManifestMember \<Rightarrow> ManifestMember" where
  "anonMember m = m\<lparr>me_line := 0, me_column := 0\<rparr>"

definition anonOverride :: "ManifestOverride \<Rightarrow> ManifestOverride" where
  "anonOverride v = v\<lparr>ov_line := 0, ov_column := 0, ov_startOffset := 0, ov_endOffset := 0\<rparr>"

definition anon :: "Manifest \<Rightarrow> Manifest" where
  "anon m = m\<lparr>packageNameLine := 0, packageNameColumn := 0, dependencies := map anonDependency (dependencies m),
     natives := map anonNative (natives m), members := map anonMember (members m),
     overrides := map anonOverride (overrides m), overridesCloseOffset := 0\<rparr>"

definition pathName :: "u16string list \<Rightarrow> string" where
  "pathName path = joinDots (map utf8Text path)"

fun bindingM :: "NativeBinding \<Rightarrow> ManifestNativeBinding" where
  "bindingM (Names platform names) = \<lparr>nb_platform = utf8Text platform, nb_baseNames = map utf8Text names,
     nb_isArtifact = False, nb_artifactUrl = [], nb_artifactChecksum = [], nb_line = 0, nb_column = 0\<rparr>"
| "bindingM (Artifact platform url checksum) = \<lparr>nb_platform = utf8Text platform, nb_baseNames = [],
     nb_isArtifact = True, nb_artifactUrl = utf8Text url, nb_artifactChecksum = utf8Text checksum, nb_line = 0,
     nb_column = 0\<rparr>"

definition textOf :: "u16string option \<Rightarrow> string" where
  "textOf s = (case s of None \<Rightarrow> [] | Some t \<Rightarrow> utf8Text t)"

fun itemM :: "PackageItem \<Rightarrow> Manifest \<Rightarrow> Manifest" where
  "itemM (ItemVersion s) m = m\<lparr>hasVersion := True, version := utf8Text s\<rparr>"
| "itemM (ItemEns s) m = m\<lparr>hasEnsVersion := True, ensVersion := utf8Text s\<rparr>"
| "itemM (ItemDependency path v s) m = m\<lparr>dependencies := dependencies m @
     [\<lparr>de_name = pathName path, de_hasVersion = v \<noteq> None, de_version = textOf v, de_hasSource = s \<noteq> None,
       de_sourceUrl = textOf s, de_line = 0, de_column = 0\<rparr>]\<rparr>"
| "itemM (ItemNative name system bs) m = m\<lparr>natives := natives m @
     [\<lparr>na_name = utf8Text name, na_isSystem = system, na_hasBindingBlock = bs \<noteq> None,
       na_bindings = (case bs of None \<Rightarrow> [] | Some xs \<Rightarrow> map bindingM xs), na_line = 0, na_column = 0\<rparr>]\<rparr>"

fun declarationM :: "Declaration \<Rightarrow> Manifest" where
  "declarationM (Package path items) =
     fold itemM items (emptyManifest\<lparr>form := FormPackage, packageName := pathName path\<rparr>)"
| "declarationM (Workspace folders) = emptyManifest\<lparr>form := FormWorkspace,
     members := map (\<lambda>f. \<lparr>me_folder = utf8Text f, me_line = 0, me_column = 0\<rparr>) folders\<rparr>"
| "declarationM (Overrides os) = emptyManifest\<lparr>form := FormOverrides, hasOverridesClose := True,
     overrides := map (\<lambda>(p, f). \<lparr>ov_name = pathName p, ov_folder = utf8Text f, ov_line = 0, ov_column = 0,
       ov_startOffset = 0, ov_endOffset = 0\<rparr>) os\<rparr>"

text \<open>Paths and lists of library names are not empty, and a package has one version and one language version.\<close>

fun bindingWf :: "NativeBinding \<Rightarrow> bool" where
  "bindingWf (Names platform names) = (names \<noteq> [])"
| "bindingWf (Artifact platform url checksum) = True"

fun itemWf :: "PackageItem \<Rightarrow> bool" where
  "itemWf (ItemDependency path v s) = (path \<noteq> [])"
| "itemWf (ItemNative name system bs) = (case bs of None \<Rightarrow> True | Some xs \<Rightarrow> list_all bindingWf xs)"
| "itemWf it = True"

definition onceAtMost :: "('a \<Rightarrow> bool) \<Rightarrow> 'a list \<Rightarrow> bool" where
  "onceAtMost P xs \<longleftrightarrow> length (filter P xs) \<le> 1"

fun declarationWf :: "Declaration \<Rightarrow> bool" where
  "declarationWf (Package path items) \<longleftrightarrow> path \<noteq> [] \<and> list_all itemWf items \<and>
     onceAtMost (\<lambda>it. \<exists>s. it = ItemVersion s) items \<and> onceAtMost (\<lambda>it. \<exists>s. it = ItemEns s) items"
| "declarationWf (Workspace folders) = True"
| "declarationWf (Overrides os) \<longleftrightarrow> list_all (\<lambda>(p, f). p \<noteq> []) os"

section \<open>The tokens ahead\<close>

definition tokenSig :: "LexedToken \<Rightarrow> sig" where
  "tokenSig t = (tok_kind t, tok_text t)"

definition ahead :: "ManifestParser \<Rightarrow> sig list" where
  "ahead p = map tokenSig (drop (mp_index p) (mp_tokens p))"

lemma ahead_current:
  assumes "ahead p = (k, x) # r"
  shows "mkind p = k" and "tok_text (current p) = x"
proof -
  have i: "mp_index p < length (mp_tokens p)" using assms by (auto simp: ahead_def intro: ccontr)
  then have "tokenSig (current p) = (k, x)"
    using assms by (simp add: ahead_def current_def Cons_nth_drop_Suc [symmetric])
  then show "mkind p = k" "tok_text (current p) = x" by (simp_all add: tokenSig_def mkind_def)
qed

lemma ahead_advance:
  assumes "ahead p = (k, x) # r" and "k \<noteq> EndOfFile"
  shows "ahead (madvance p) = r"
proof -
  have "\<not> matEnd p" using ahead_current(1) [OF assms(1)] assms(2) by (simp add: matEnd_def)
  with not_atEnd [OF this] assms(1) show ?thesis
    by (simp add: ahead_def madvance_def Cons_nth_drop_Suc [symmetric])
qed

lemma ahead_peek:
  assumes "ahead p = a # (k, x) # r"
  shows "mpeekKind p = k" and "peekIsWord w p \<longleftrightarrow> k = Identifier \<and> x = u16 w"
proof -
  have i: "Suc (mp_index p) < length (mp_tokens p)"
    using assms by (auto simp: ahead_def dest!: arg_cong [of _ _ length])
  then have "tokenSig (mp_tokens p ! Suc (mp_index p)) = (k, x)"
    using assms by (simp add: ahead_def Cons_nth_drop_Suc [symmetric])
  with i show "mpeekKind p = k" "peekIsWord w p \<longleftrightarrow> k = Identifier \<and> x = u16 w"
    by (simp_all add: mpeekKind_def peekIsWord_def tokenSig_def Let_def)
qed

lemma advance_errors [simp]: "mp_errors (madvance p) = mp_errors p"
  by (simp add: madvance_def)

text \<open>What the tests say when the next token is known.\<close>

lemma ahead_tests:
  assumes "ahead p = (k, x) # r"
  shows "mat j p \<longleftrightarrow> k = j" and "atWord w p \<longleftrightarrow> k = Identifier \<and> x = u16 w" and "matEnd p \<longleftrightarrow> k = EndOfFile"
  using ahead_current [OF assms] by (simp_all add: mat_def atWord_def matEnd_def)

lemma stringValue_strT:
  assumes "ahead p = strT s # r"
  shows "stringValue (current p) = utf8Text s"
  using ahead_current(2) [of p StringLiteral "0x22 # s @ [0x22]" r] assms
  by (simp add: strT_def stringValue_def Let_def)

lemma expectSemicolon_semi:
  assumes "ahead p = semiT # r"
  shows "ahead (expectSemicolon p) = r \<and> mp_errors (expectSemicolon p) = mp_errors p"
  using assms ahead_tests [of p Semi "u16 '';''" r] ahead_advance [of p Semi "u16 '';''" r]
  by (simp add: semiT_def expectSemicolon_def)

section \<open>Reading back what was written\<close>

text \<open>A step that reads exactly what was written and reports nothing.\<close>

definition consumes :: "ManifestParser \<Rightarrow> sig list \<Rightarrow> ManifestParser \<Rightarrow> bool" where
  "consumes p rest q \<longleftrightarrow> ahead q = rest \<and> mp_errors q = mp_errors p"

lemma consumes_advance: "ahead p = (k, x) # r \<Longrightarrow> k \<noteq> EndOfFile \<Longrightarrow> consumes p r (madvance p)"
  by (simp add: consumes_def ahead_advance)

lemma consumes_trans: "consumes p xs q \<Longrightarrow> consumes q ys r \<Longrightarrow> consumes p ys r"
  by (simp add: consumes_def)

lemma consumes_semi: "ahead p = semiT # r \<Longrightarrow> consumes p r (expectSemicolon p)"
  using expectSemicolon_semi by (simp add: consumes_def)

lemma pathRest_concat:
  assumes "ahead p = concat (map (\<lambda>x. [dotT, identT x]) ss) @ rest" and "rest \<noteq> []" and "fst (hd rest) \<noteq> Dot"
  shows "\<exists>q. pathRest name p = (concat (name # map (\<lambda>s. ''.'' @ utf8Text s) ss), q) \<and> consumes p rest q"
  using assms(1)
proof (induction ss arbitrary: name p)
  case Nil
  obtain k x r where r: "rest = (k, x) # r" using assms(2) by (cases rest) auto
  then have "\<not> mat Dot p" using ahead_tests(1) [of p k x r Dot] Nil assms(3) by simp
  with Nil show ?case by (simp add: pathRest.simps consumes_def)
next
  case (Cons s ss)
  let ?r = "concat (map (\<lambda>x. [dotT, identT x]) ss) @ rest"
  have a: "ahead p = (Dot, u16 ''.'') # (Identifier, s) # ?r" using Cons.prems by (simp add: sigs)
  have dot: "mat Dot p" "mpeekKind p = Identifier" using ahead_tests(1) [OF a] ahead_peek(1) [OF a] by simp_all
  have a1: "ahead (madvance p) = (Identifier, s) # ?r" by (rule ahead_advance [OF a]) simp
  have a2: "ahead (madvance (madvance p)) = ?r" by (rule ahead_advance [OF a1]) simp
  from Cons.IH [OF a2, of "name @ ''.'' @ utf8Text s"] obtain q where
    "pathRest (name @ ''.'' @ utf8Text s) (madvance (madvance p)) = (concat ((name @ ''.'' @ utf8Text s) # map (\<lambda>s. ''.'' @ utf8Text s) ss), q)"
    "consumes (madvance (madvance p)) rest q" by blast
  then show ?case using dot ahead_current(2) [OF a1] by (subst pathRest.simps) (simp add: Let_def consumes_def)
qed

lemma pathName_concat: "pathName (s # ss) = concat (utf8Text s # map (\<lambda>s. ''.'' @ utf8Text s) ss)"
proof (induction ss arbitrary: s)
  case (Cons t ss)
  then show ?case by (simp add: pathName_def)
qed (simp add: pathName_def)

lemma parsePackagePath_reads:
  assumes "ahead p = pathT path @ rest" and "path \<noteq> []" and "rest \<noteq> []" and "fst (hd rest) \<noteq> Dot"
  shows "\<exists>q. parsePackagePath msg p = (Some (pathName path), q) \<and> consumes p rest q"
proof -
  obtain s ss where path: "path = s # ss" using assms(2) by (cases path) auto
  let ?r = "concat (map (\<lambda>x. [dotT, identT x]) ss) @ rest"
  have a: "ahead p = (Identifier, s) # ?r" using assms(1) by (simp add: path sigs)
  have a1: "ahead (madvance p) = ?r" by (rule ahead_advance [OF a]) simp
  from pathRest_concat [OF a1 assms(3,4), of "utf8Text s"] obtain q where
    "pathRest (utf8Text s) (madvance p) = (pathName path, q)" "consumes (madvance p) rest q"
    unfolding path pathName_concat by blast
  then show ?thesis using ahead_tests(1) [OF a] ahead_current(2) [OF a]
    by (simp add: parsePackagePath_def consumes_def)
qed

lemma parseValueItem_reads:
  assumes "ahead p = wordT w # strT s # semiT # rest"
  shows "\<exists>q. (\<forall>old msg. parseValueItem old msg p = (utf8Text s, q)) \<and> consumes p rest q"
proof -
  have a1: "ahead (madvance p) = strT s # semiT # rest"
    using ahead_advance [of p Identifier "u16 w" "strT s # semiT # rest"] assms by (simp add: wordT_def)
  have a2: "ahead (madvance (madvance p)) = semiT # rest"
    using ahead_advance [of "madvance p" StringLiteral "0x22 # s @ [0x22]" "semiT # rest"] a1 by (simp add: strT_def)
  have "mat StringLiteral (madvance p)" using ahead_tests(1) a1 by (simp add: strT_def)
  then show ?thesis using stringValue_strT [OF a1] consumes_semi [OF a2]
    by (simp add: parseValueItem_def Let_def consumes_def)
qed

lemma baseNamesLoop_reads:
  assumes "ahead p = map strT names @ semiT # rest"
  shows "\<exists>q. baseNamesLoop p = (map utf8Text names, q) \<and> consumes p (semiT # rest) q"
  using assms
proof (induction names arbitrary: p)
  case Nil
  then show ?case using ahead_tests(1) [of p Semi "u16 '';''" rest StringLiteral]
    by (simp add: semiT_def baseNamesLoop.simps consumes_def)
next
  case (Cons s names)
  let ?r = "map strT names @ semiT # rest"
  have a: "ahead p = strT s # ?r" using Cons.prems by simp
  have a1: "ahead (madvance p) = ?r"
    using ahead_advance [of p StringLiteral "0x22 # s @ [0x22]" ?r] a by (simp add: strT_def)
  from Cons.IH [OF a1] obtain q where "baseNamesLoop (madvance p) = (map utf8Text names, q)"
    "consumes (madvance p) (semiT # rest) q" by blast
  moreover have "mat StringLiteral p" using ahead_tests(1) a by (simp add: strT_def)
  ultimately show ?case using stringValue_strT [OF a] by (subst baseNamesLoop.simps) (simp add: consumes_def)
qed

lemma parseNativeBinding_reads:
  assumes "ahead p = bindingT b @ rest" and "bindingWf b"
  shows "\<exists>q x. parseNativeBinding p n = (q, n\<lparr>na_bindings := na_bindings n @ [x]\<rparr>) \<and> anonBinding x = bindingM b \<and>
    consumes p rest q"
proof (cases b)
  case (Names platform names)
  then obtain s ns where names: "names = s # ns" using assms(2) by (cases names) auto
  have a: "ahead p = (Identifier, platform) # strT s # map strT ns @ semiT # rest"
    using assms(1) by (simp add: Names names identT_def)
  have no: "\<not> peekIsWord ''artifact'' p" using ahead_peek(2) a by (simp add: strT_def)
  have a1: "ahead (madvance p) = map strT names @ semiT # rest"
    using ahead_advance [OF a] by (simp add: names)
  from baseNamesLoop_reads [OF a1] obtain q where q: "baseNamesLoop (madvance p) = (map utf8Text names, q)"
    "consumes (madvance p) (semiT # rest) q" by blast
  have "mat StringLiteral (madvance p)" using ahead_tests(1) a1 by (simp add: names strT_def)
  then show ?thesis using no q ahead_tests(1) [OF a] ahead_current(2) [OF a] consumes_semi [of q rest]
    by (auto simp: parseNativeBinding_def Let_def Names anonBinding_def consumes_def)
next
  case (Artifact platform url checksum)
  let ?r3 = "strT checksum # semiT # rest"
  have a: "ahead p = (Identifier, platform) # (Identifier, u16 ''artifact'') # strT url # wordT ''hash'' # ?r3"
    using assms(1) by (simp add: Artifact identT_def wordT_def)
  have yes: "peekIsWord ''artifact'' p" using ahead_peek(2) [OF a] by simp
  have a1: "ahead (madvance p) = (Identifier, u16 ''artifact'') # strT url # wordT ''hash'' # ?r3"
    by (rule ahead_advance [OF a]) simp
  have a2: "ahead (madvance (madvance p)) = strT url # wordT ''hash'' # ?r3" by (rule ahead_advance [OF a1]) simp
  have a3: "ahead (madvance (madvance (madvance p))) = wordT ''hash'' # ?r3"
    using ahead_advance [of "madvance (madvance p)"] a2 by (simp add: strT_def)
  have a4: "ahead (madvance (madvance (madvance (madvance p)))) = ?r3"
    using ahead_advance [of "madvance (madvance (madvance p))"] a3 by (simp add: wordT_def)
  have a5: "ahead (madvance (madvance (madvance (madvance (madvance p))))) = semiT # rest"
    using ahead_advance [of "madvance (madvance (madvance (madvance p)))"] a4 by (simp add: strT_def)
  have "mat StringLiteral (madvance (madvance p))" "atWord ''hash'' (madvance (madvance (madvance p)))"
    "mat StringLiteral (madvance (madvance (madvance (madvance p))))"
    using ahead_tests(1) a2 ahead_tests(2) a3 ahead_tests(1) a4 by (simp_all add: strT_def wordT_def)
  then show ?thesis
    using yes ahead_tests(1) [OF a] ahead_current(2) [OF a] stringValue_strT [OF a2] stringValue_strT [OF a4] consumes_semi [OF a5]
    by (auto simp: parseNativeBinding_def Let_def Artifact anonBinding_def consumes_def)
qed

lemma reads_strT:
  assumes "ahead p = strT s # r"
  shows "ahead (madvance p) = r" and "mat k p \<longleftrightarrow> k = StringLiteral" and "\<not> atWord w p" and "\<not> matEnd p"
    and "stringValue (current p) = utf8Text s"
  using ahead_advance [of p StringLiteral "0x22 # s @ [0x22]" r] ahead_tests [of p StringLiteral "0x22 # s @ [0x22]" r]
    stringValue_strT [OF assms] assms by (auto simp: strT_def)

lemma reads_wordT:
  assumes "ahead p = wordT w # r"
  shows "ahead (madvance p) = r" and "mat k p \<longleftrightarrow> k = Identifier" and "atWord v p \<longleftrightarrow> u16 v = u16 w" and "\<not> matEnd p"
  using ahead_advance [of p Identifier "u16 w" r] ahead_tests [of p Identifier "u16 w" r] assms by (auto simp: wordT_def)

lemma reads_mark:
  assumes "ahead p = (k, x) # r" and "k \<noteq> Identifier" and "k \<noteq> EndOfFile"
  shows "ahead (madvance p) = r" and "mat j p \<longleftrightarrow> j = k" and "\<not> atWord w p" and "\<not> matEnd p"
  using ahead_advance [OF assms(1,3)] ahead_tests [OF assms(1)] assms(2,3) by auto

lemmas reads_semi = reads_mark [of _ Semi "u16 '';''", folded semiT_def, simplified]
  and reads_lbrace = reads_mark [of _ LBrace "u16 ''{''", folded lbraceT_def, simplified]
  and reads_rbrace = reads_mark [of _ RBrace "u16 ''}''", folded rbraceT_def, simplified]

lemma bindingsLoop_reads:
  assumes "ahead p = concat (map bindingT bs) @ rbraceT # rest" and "list_all bindingWf bs"
  shows "\<exists>q xs. bindingsLoop p n = (q, n\<lparr>na_bindings := na_bindings n @ xs\<rparr>) \<and> map anonBinding xs = map bindingM bs \<and>
    consumes p (rbraceT # rest) q"
  using assms
proof (induction bs arbitrary: p n)
  case Nil
  then show ?case using reads_rbrace [of p rest]
    by (intro exI [of _ p] exI [of _ "[]"]) (simp add: bindingsLoop.simps consumes_def)
next
  case (Cons b bs)
  have a: "ahead p = bindingT b @ concat (map bindingT bs) @ rbraceT # rest" using Cons.prems(1) by simp
  from parseNativeBinding_reads [OF a, of n] Cons.prems(2) obtain q x where
    q: "parseNativeBinding p n = (q, n\<lparr>na_bindings := na_bindings n @ [x]\<rparr>)" "anonBinding x = bindingM b"
      "ahead q = concat (map bindingT bs) @ rbraceT # rest" "mp_errors q = mp_errors p" by (auto simp: consumes_def)
  from Cons.IH [OF q(3), of "n\<lparr>na_bindings := na_bindings n @ [x]\<rparr>"] Cons.prems(2) obtain q' xs where
    q': "bindingsLoop q (n\<lparr>na_bindings := na_bindings n @ [x]\<rparr>) = (q', n\<lparr>na_bindings := na_bindings n @ x # xs\<rparr>)"
      "map anonBinding xs = map bindingM bs" "consumes q (rbraceT # rest) q'" by auto
  obtain y where "bindingT b = (Identifier, y) # tl (bindingT b)" by (cases b) (auto simp: identT_def)
  then have "ahead p = (Identifier, y) # tl (bindingT b) @ concat (map bindingT bs) @ rbraceT # rest" using a by simp
  from ahead_tests(1) [OF this, of RBrace] ahead_tests(3) [OF this] have "\<not> mat RBrace p" "\<not> matEnd p" by simp_all
  then have "bindingsLoop p n = (q', n\<lparr>na_bindings := na_bindings n @ x # xs\<rparr>)"
    using q(1) q'(1) by (subst bindingsLoop.simps) simp
  with q q' show ?case
    by (intro exI [of _ q'] exI [of _ "x # xs"]) (simp add: consumes_def)
qed

lemma parseDependency_reads:
  assumes "ahead p = wordT ''dependency'' # pathT path @ optT [] v @ optT [''from''] s @ semiT # rest" and "path \<noteq> []"
  shows "\<exists>q m'. parseDependency p m = (q, m') \<and> anon m' = itemM (ItemDependency path v s) (anon m) \<and>
    hasVersion m' = hasVersion m \<and> hasEnsVersion m' = hasEnsVersion m \<and> consumes p rest q"
proof -
  let ?after = "optT [''from''] s @ semiT # rest"
  note a1 = reads_wordT(1) [OF assms(1)]
  have hd: "optT [] v @ ?after \<noteq> []" "fst (hd (optT [] v @ ?after)) \<noteq> Dot"
    by (cases v; cases s; simp add: sigs)+
  from parsePackagePath_reads [OF a1 assms(2) hd] obtain q1 where q1:
    "parsePackagePath ''Expected the dependency's package name, for example 'dependency acme.json;'.'' (madvance p) =
      (Some (pathName path), q1)" "ahead q1 = optT [] v @ ?after" "mp_errors q1 = mp_errors p"
    by (auto simp: consumes_def)
  define q2 where "q2 = (if v = None then q1 else madvance q1)"
  have q2: "ahead q2 = ?after" "mp_errors q2 = mp_errors p" using q1(2,3) reads_strT(1) by (cases v; auto simp: q2_def)+
  have str: "mat StringLiteral q1 \<longleftrightarrow> v \<noteq> None" "v = Some t \<Longrightarrow> stringValue (current q1) = utf8Text t" for t
    using q1(2) reads_strT(2,5) [of q1] reads_semi(2) [of q1] reads_wordT(2) [of q1] by (cases v; cases s; force)+
  show ?thesis
  proof (cases s)
    case None
    then have a: "ahead q2 = semiT # rest" using q2 by simp
    show ?thesis using q1(1) str reads_semi(3) [OF a] consumes_semi [OF a] q2(2)
      by (cases v) (auto simp: parseDependency_def Let_def q2_def anon_def anonDependency_def textOf_def consumes_def None)
  next
    case (Some u)
    then have a: "ahead q2 = wordT ''from'' # strT u # semiT # rest" using q2 by simp
    note b = reads_wordT(1) [OF a]
    note c = reads_strT(1) [OF b]
    show ?thesis using q1(1) str reads_wordT(3) [OF a] reads_strT(2,5) [OF b] consumes_semi [OF c] q2(2)
      by (cases v) (auto simp: parseDependency_def Let_def q2_def anon_def anonDependency_def textOf_def consumes_def Some)
  qed
qed

lemma parseNative_reads:
  assumes "ahead p = itemT (ItemNative name system bs) @ rest" and "itemWf (ItemNative name system bs)"
  shows "\<exists>q m'. parseNative p m = (q, m') \<and> anon m' = itemM (ItemNative name system bs) (anon m) \<and>
    hasVersion m' = hasVersion m \<and> hasEnsVersion m' = hasEnsVersion m \<and> consumes p rest q"
proof -
  let ?tail = "(case bs of None \<Rightarrow> [semiT] | Some xs \<Rightarrow> lbraceT # concat (map bindingT xs) @ [rbraceT]) @ rest"
  have a: "ahead p = wordT ''native'' # (Identifier, name) # (if system then [wordT ''system''] else []) @ ?tail"
    using assms(1) by (simp add: identT_def)
  note a1 = reads_wordT(1) [OF a]
  note a2 = ahead_advance [OF a1, simplified]
  let ?p2 = "madvance (madvance p)"
  have no: "\<not> atWord ''system'' q" if "ahead q = ?tail" for q
    using that reads_semi(3) [of q] reads_lbrace(3) [of q] by (cases bs) auto
  define p3 where "p3 = (if system then madvance ?p2 else ?p2)"
  have p3: "ahead p3 = ?tail" "mp_errors p3 = mp_errors p" using a2 reads_wordT(1) [of ?p2] by (auto simp: p3_def)
  have sys: "atWord ''system'' ?p2 \<longleftrightarrow> system"
  proof (cases system)
    case True
    then have "ahead ?p2 = wordT ''system'' # ?tail" using a2 by simp
    from reads_wordT(3) [OF this] True show ?thesis by simp
  next
    case False
    then show ?thesis using a2 no [of ?p2] by simp
  qed
  have name: "mat Identifier (madvance p)" "tok_text (current (madvance p)) = name"
    using ahead_tests(1) [OF a1] ahead_current(2) [OF a1] by simp_all
  show ?thesis
  proof (cases bs)
    case None
    then have b: "ahead p3 = semiT # rest" using p3 by simp
    show ?thesis using name sys reads_semi(2) [OF b] consumes_semi [OF b] p3(2) None
      by (cases system) (auto simp: parseNative_def Let_def p3_def anon_def anonNative_def consumes_def)
  next
    case (Some xs)
    then have b: "ahead p3 = lbraceT # concat (map bindingT xs) @ rbraceT # rest" using p3 by simp
    note c = reads_lbrace(1) [OF b]
    define n1 where "n1 = \<lparr>na_name = utf8Text name, na_isSystem = system, na_hasBindingBlock = True, na_bindings = [],
      na_line = tok_line (current p), na_column = tok_column (current p)\<rparr>"
    from bindingsLoop_reads [OF c, of n1] assms(2) Some obtain q ys where
      q: "bindingsLoop (madvance p3) n1 = (q, n1\<lparr>na_bindings := ys\<rparr>)" "map anonBinding ys = map bindingM xs"
        "ahead q = rbraceT # rest" "mp_errors q = mp_errors p3" by (auto simp: consumes_def n1_def)
    show ?thesis using name sys reads_lbrace(2) [OF b] q reads_rbrace(1,2) [OF q(3)] p3(2) Some
      by (cases system) (auto simp: parseNative_def Let_def p3_def n1_def anon_def anonNative_def consumes_def)
  qed
qed

text \<open>Items of a package: which word an item starts with decides how it is read.\<close>

lemma parsePackageItem_reads:
  assumes a: "ahead p = itemT it @ rest" and wf: "itemWf it"
    and once: "\<And>s. it = ItemVersion s \<Longrightarrow> \<not> hasVersion m" "\<And>s. it = ItemEns s \<Longrightarrow> \<not> hasEnsVersion m"
  shows "\<exists>q m'. parsePackageItem p m = (q, m') \<and> anon m' = itemM it (anon m) \<and>
    (hasVersion m' \<longleftrightarrow> hasVersion m \<or> (\<exists>s. it = ItemVersion s)) \<and>
    (hasEnsVersion m' \<longleftrightarrow> hasEnsVersion m \<or> (\<exists>s. it = ItemEns s)) \<and> consumes p rest q"
proof (cases it)
  case (ItemVersion s)
  then have b: "ahead p = wordT ''version'' # strT s # semiT # rest" using a by simp
  from parseValueItem_reads [OF b] obtain q where q:
    "\<And>old msg. parseValueItem old msg p = (utf8Text s, q)" "consumes p rest q"
    by blast
  show ?thesis using reads_wordT(3) [OF b] once(1) [OF ItemVersion] ItemVersion q
    by (simp add: parsePackageItem_def Let_def anon_def)
next
  case (ItemEns s)
  then have b: "ahead p = wordT ''ens'' # strT s # semiT # rest" using a by simp
  from parseValueItem_reads [OF b] obtain q where q:
    "\<And>old msg. parseValueItem old msg p = (utf8Text s, q)" "consumes p rest q" by blast
  show ?thesis using reads_wordT(3) [OF b] once(2) [OF ItemEns] ItemEns q
    by (simp add: parsePackageItem_def Let_def anon_def u16_def)
next
  case (ItemDependency path v s)
  then have b: "ahead p = wordT ''dependency'' # pathT path @ optT [] v @ optT [''from''] s @ semiT # rest" using a by simp
  from parseDependency_reads [OF b] wf ItemDependency show ?thesis using reads_wordT(3) [OF b]
    by (auto simp: parsePackageItem_def u16_def)
next
  case (ItemNative name system bs)
  then obtain r where b: "ahead p = wordT ''native'' # r" using a by simp
  from parseNative_reads [of p name system bs rest] a wf ItemNative show ?thesis using reads_wordT(3) [OF b]
    by (auto simp: parsePackageItem_def u16_def)
qed

lemma itemT_starts: "\<exists>w r. itemT it = wordT w # r"
  by (cases it) auto

lemma packageItems_reads:
  assumes "ahead p = concat (map itemT items) @ rbraceT # rest" and "list_all itemWf items"
    and "length (filter (\<lambda>it. \<exists>s. it = ItemVersion s) items) + (if hasVersion m then 1 else 0) \<le> 1"
    and "length (filter (\<lambda>it. \<exists>s. it = ItemEns s) items) + (if hasEnsVersion m then 1 else 0) \<le> 1"
  shows "\<exists>q m'. packageItems p m = (q, m') \<and> anon m' = fold itemM items (anon m) \<and> consumes p (rbraceT # rest) q"
  using assms
proof (induction items arbitrary: p m)
  case Nil
  then show ?case using reads_rbrace(2) [of p rest] by (simp add: packageItems.simps consumes_def)
next
  case (Cons it items)
  let ?r = "concat (map itemT items) @ rbraceT # rest"
  have a: "ahead p = itemT it @ ?r" using Cons.prems(1) by simp
  obtain w r where w: "itemT it = wordT w # r" using itemT_starts by blast
  have in_block: "\<not> mat RBrace p" "\<not> matEnd p" using reads_wordT(2,4) [of p w "r @ ?r"] a w by simp_all
  have "\<not> hasVersion m" if "it = ItemVersion s" for s using Cons.prems(3) that by (auto split: if_splits)
  moreover have "\<not> hasEnsVersion m" if "it = ItemEns s" for s using Cons.prems(4) that by (auto split: if_splits)
  ultimately obtain q m' where q: "parsePackageItem p m = (q, m')" "anon m' = itemM it (anon m)"
      "hasVersion m' \<longleftrightarrow> hasVersion m \<or> (\<exists>s. it = ItemVersion s)"
      "hasEnsVersion m' \<longleftrightarrow> hasEnsVersion m \<or> (\<exists>s. it = ItemEns s)" "consumes p ?r q"
    using parsePackageItem_reads [OF a, of m] Cons.prems(2) by auto
  have "\<exists>q' m''. packageItems q m' = (q', m'') \<and> anon m'' = fold itemM items (anon m') \<and> consumes q (rbraceT # rest) q'"
    by (rule Cons.IH) (use Cons.prems q in \<open>auto simp: consumes_def split: if_splits\<close>)
  then show ?case using q(1,2,5) in_block by (subst packageItems.simps) (auto simp: consumes_def)
qed

lemma workspaceItems_reads:
  assumes "ahead p = concat (map (\<lambda>f. [wordT ''member'', strT f, semiT]) folders) @ rbraceT # rest"
  shows "\<exists>q ms. workspaceItems p m = (q, m\<lparr>members := members m @ ms\<rparr>) \<and>
    map anonMember ms = map (\<lambda>f. \<lparr>me_folder = utf8Text f, me_line = 0, me_column = 0\<rparr>) folders \<and>
    consumes p (rbraceT # rest) q"
  using assms
proof (induction folders arbitrary: p m)
  case Nil
  then show ?case using reads_rbrace(2) [of p rest]
    by (intro exI [of _ p] exI [of _ "[]"]) (simp add: workspaceItems.simps consumes_def)
next
  case (Cons f folders)
  let ?r = "concat (map (\<lambda>f. [wordT ''member'', strT f, semiT]) folders) @ rbraceT # rest"
  have a: "ahead p = wordT ''member'' # strT f # semiT # ?r" using Cons.prems by simp
  note b = reads_wordT(1) [OF a]
  note c = reads_strT(1) [OF b]
  define x where "x = \<lparr>me_folder = utf8Text f, me_line = tok_line (current p), me_column = tok_column (current p)\<rparr>"
  have anon_x: "anonMember x = \<lparr>me_folder = utf8Text f, me_line = 0, me_column = 0\<rparr>"
    by (simp add: x_def anonMember_def)
  let ?q = "expectSemicolon (madvance (madvance p))"
  have item: "parseWorkspaceItem p m = (?q, m\<lparr>members := members m @ [x]\<rparr>)"
    using reads_wordT(3) [OF a] reads_strT(2,5) [OF b] by (simp add: parseWorkspaceItem_def Let_def x_def)
  have q: "ahead ?q = ?r" "mp_errors ?q = mp_errors p" using consumes_semi [OF c] by (simp_all add: consumes_def)
  from Cons.IH [OF q(1), of "m\<lparr>members := members m @ [x]\<rparr>"] obtain q' ms where
    q': "workspaceItems ?q (m\<lparr>members := members m @ [x]\<rparr>) = (q', m\<lparr>members := members m @ x # ms\<rparr>)"
      "map anonMember ms = map (\<lambda>f. \<lparr>me_folder = utf8Text f, me_line = 0, me_column = 0\<rparr>) folders"
      "consumes ?q (rbraceT # rest) q'" by auto
  have "workspaceItems p m = (q', m\<lparr>members := members m @ x # ms\<rparr>)"
    using item q'(1) reads_wordT(2,4) [OF a] by (subst workspaceItems.simps) simp
  with q' q(2) show ?case
    by (intro exI [of _ q'] exI [of _ "x # ms"]) (simp add: consumes_def anon_x)
qed

lemma overridesItems_reads:
  assumes "ahead p = concat (map (\<lambda>(p, f). (KwOverride, u16 ''override'') # pathT p @ [strT f, semiT]) os) @ rbraceT # rest"
    and "list_all (\<lambda>(p, f). p \<noteq> []) os"
  shows "\<exists>q vs. overridesItems p m = (q, m\<lparr>overrides := overrides m @ vs\<rparr>) \<and>
    map anonOverride vs = map (\<lambda>(p, f). \<lparr>ov_name = pathName p, ov_folder = utf8Text f, ov_line = 0, ov_column = 0,
      ov_startOffset = 0, ov_endOffset = 0\<rparr>) os \<and> consumes p (rbraceT # rest) q"
  using assms
proof (induction os arbitrary: p m)
  case Nil
  then show ?case using reads_rbrace(2) [of p rest]
    by (intro exI [of _ p] exI [of _ "[]"]) (simp add: overridesItems.simps consumes_def)
next
  case (Cons o1 os)
  obtain path f where o1: "o1 = (path, f)" by force
  let ?r = "concat (map (\<lambda>(p, f). (KwOverride, u16 ''override'') # pathT p @ [strT f, semiT]) os) @ rbraceT # rest"
  have a: "ahead p = (KwOverride, u16 ''override'') # pathT path @ strT f # semiT # ?r" using Cons.prems(1) o1 by simp
  note a1 = ahead_advance [OF a, simplified]
  have "strT f # semiT # ?r \<noteq> []" "fst (hd (strT f # semiT # ?r)) \<noteq> Dot" "path \<noteq> []"
    using Cons.prems(2) o1 by (simp_all add: strT_def)
  from parsePackagePath_reads [OF a1 this(3,1,2)] obtain q1 where q1:
    "parsePackagePath ''Expected the overridden package's name after 'override'.'' (madvance p) = (Some (pathName path), q1)"
    "ahead q1 = strT f # semiT # ?r" "mp_errors q1 = mp_errors p" by (auto simp: consumes_def)
  note b = reads_strT [OF q1(2)]
  note c = reads_semi [OF b(1)]
  let ?q = "madvance (madvance q1)"
  obtain x where item: "parseOverridesItem p m = (?q, m\<lparr>overrides := overrides m @ [x]\<rparr>)"
    and x: "anonOverride x = \<lparr>ov_name = pathName path, ov_folder = utf8Text f, ov_line = 0, ov_column = 0,
      ov_startOffset = 0, ov_endOffset = 0\<rparr>"
    using ahead_tests(1) [OF a, of KwOverride] q1(1) b(2,5) c(2)
    by (auto simp: parseOverridesItem_def Let_def anonOverride_def)
  from Cons.IH [OF c(1), of "m\<lparr>overrides := overrides m @ [x]\<rparr>"] Cons.prems(2) obtain q' vs where
    q': "overridesItems ?q (m\<lparr>overrides := overrides m @ [x]\<rparr>) = (q', m\<lparr>overrides := overrides m @ x # vs\<rparr>)"
      "map anonOverride vs = map (\<lambda>(p, f). \<lparr>ov_name = pathName p, ov_folder = utf8Text f, ov_line = 0, ov_column = 0,
        ov_startOffset = 0, ov_endOffset = 0\<rparr>) os"
      "consumes ?q (rbraceT # rest) q'" by auto
  have "\<not> mat RBrace p" "\<not> matEnd p" using ahead_tests(1) [OF a, of RBrace] ahead_tests(3) [OF a] by simp_all
  then have "overridesItems p m = (q', m\<lparr>overrides := overrides m @ x # vs\<rparr>)"
    using item q'(1) by (subst overridesItems.simps) simp
  with q' q1(3) x o1 show ?case
    by (intro exI [of _ q'] exI [of _ "x # vs"]) (simp add: consumes_def)
qed

section \<open>Declarations\<close>

lemma openBlock_reads: "ahead p = lbraceT # rest \<Longrightarrow> consumes p rest (openBlock p)"
  using reads_lbrace by (simp add: openBlock_def consumes_def)

lemma closeBlock_reads:
  assumes "ahead p = rbraceT # rest"
  shows "\<exists>c. closeBlock p = (Some c, madvance p)" and "consumes p rest (madvance p)"
  using reads_rbrace [OF assms] by (simp_all add: closeBlock_def consumes_def)

lemma form_kept [simp]: "form (itemM it m) = form m"
  by (cases it) simp_all

lemma form_fold [simp]: "form (fold itemM its m) = form m"
  by (induction its arbitrary: m) simp_all

lemma anon_form [simp]: "form (anon m) = form m"
  by (simp add: anon_def)

lemma package_reads:
  assumes "ahead p = declarationT (Package path items) @ rest" and "declarationWf (Package path items)"
  shows "\<exists>q m. parseDeclaration p emptyManifest = (q, m) \<and> anon m = declarationM (Package path items) \<and> consumes p rest q"
proof -
  let ?body = "concat (map itemT items) @ rbraceT # rest"
  have a: "ahead p = (KwPackage, u16 ''package'') # pathT path @ lbraceT # ?body" using assms(1) by simp
  note a1 = ahead_advance [OF a, simplified]
  have hd: "lbraceT # ?body \<noteq> []" "fst (hd (lbraceT # ?body)) \<noteq> Dot" "path \<noteq> []"
    using assms(2) by (simp_all add: sigs)
  from parsePackagePath_reads [OF a1 hd(3,1,2)] obtain q1 where q1:
    "parsePackagePath ''Expected the package name after 'package', for example 'package acme.tools'.'' (madvance p) =
      (Some (pathName path), q1)" "ahead q1 = lbraceT # ?body" "mp_errors q1 = mp_errors p" by (auto simp: consumes_def)
  have o: "ahead (openBlock q1) = ?body" "mp_errors (openBlock q1) = mp_errors p"
    using openBlock_reads [OF q1(2)] q1(3) by (simp_all add: consumes_def)
  define m2 where "m2 = emptyManifest\<lparr>form := FormPackage, packageNameLine := tok_line (current (madvance p)),
    packageNameColumn := tok_column (current (madvance p)), packageName := pathName path\<rparr>"
  have m2: "\<not> hasVersion m2" "\<not> hasEnsVersion m2"
      "anon m2 = emptyManifest\<lparr>form := FormPackage, packageName := pathName path\<rparr>"
    by (simp_all add: m2_def emptyManifest_def anon_def)
  from packageItems_reads [OF o(1), of m2] assms(2) m2(1,2) obtain q m where
    q: "packageItems (openBlock q1) m2 = (q, m)" "anon m = fold itemM items (anon m2)" "ahead q = rbraceT # rest"
      "mp_errors q = mp_errors p" using o(2) by (auto simp: consumes_def onceAtMost_def)
  have "parseDeclaration p emptyManifest = (madvance q, m)"
    using ahead_tests(1) [OF a, of KwPackage] q1(1) q(1) closeBlock_reads(1) [OF q(3)]
    by (auto simp: parseDeclaration_def Let_def m2_def)
  then show ?thesis using closeBlock_reads(2) [OF q(3)] q(2,4) m2(3) by (simp add: consumes_def)
qed

lemma workspace_reads:
  assumes "ahead p = declarationT (Workspace folders) @ rest"
  shows "\<exists>q m. parseDeclaration p emptyManifest = (q, m) \<and> anon m = declarationM (Workspace folders) \<and> consumes p rest q"
proof -
  let ?body = "concat (map (\<lambda>f. [wordT ''member'', strT f, semiT]) folders) @ rbraceT # rest"
  have a: "ahead p = wordT ''workspace'' # lbraceT # ?body" using assms by simp
  note b = reads_wordT [OF a]
  have o: "ahead (openBlock (madvance p)) = ?body" "mp_errors (openBlock (madvance p)) = mp_errors p"
    using openBlock_reads [OF b(1)] by (simp_all add: consumes_def)
  let ?m = "emptyManifest\<lparr>form := FormWorkspace\<rparr>"
  from workspaceItems_reads [OF o(1), of ?m] o(2) obtain q ms where
    q: "workspaceItems (openBlock (madvance p)) ?m = (q, ?m\<lparr>members := members ?m @ ms\<rparr>)"
      "map anonMember ms = map (\<lambda>f. \<lparr>me_folder = utf8Text f, me_line = 0, me_column = 0\<rparr>) folders"
      "ahead q = rbraceT # rest" "mp_errors q = mp_errors p" by (auto simp: consumes_def)
  have "\<not> mat KwPackage p" using ahead_tests(1) [of p Identifier "u16 ''workspace''"] a by (simp add: wordT_def)
  then have "parseDeclaration p emptyManifest = (madvance q, ?m\<lparr>members := members ?m @ ms\<rparr>)"
    using b(3) [of "''workspace''"] q(1) closeBlock_reads(1) [OF q(3)] by (auto simp: parseDeclaration_def Let_def)
  then show ?thesis using closeBlock_reads(2) [OF q(3)] q(2,4)
    by (simp add: consumes_def anon_def emptyManifest_def)
qed

lemma overrides_reads:
  assumes "ahead p = declarationT (Overrides os) @ rest" and "declarationWf (Overrides os)"
  shows "\<exists>q m. parseDeclaration p emptyManifest = (q, m) \<and> anon m = declarationM (Overrides os) \<and> consumes p rest q"
proof -
  let ?body = "concat (map (\<lambda>(p, f). (KwOverride, u16 ''override'') # pathT p @ [strT f, semiT]) os) @ rbraceT # rest"
  have a: "ahead p = wordT ''overrides'' # lbraceT # ?body" using assms(1) by simp
  note b = reads_wordT [OF a]
  have o: "ahead (openBlock (madvance p)) = ?body" "mp_errors (openBlock (madvance p)) = mp_errors p"
    using openBlock_reads [OF b(1)] by (simp_all add: consumes_def)
  let ?m = "emptyManifest\<lparr>form := FormOverrides\<rparr>"
  from overridesItems_reads [OF o(1), of ?m] assms(2) o(2) obtain q vs where
    q: "overridesItems (openBlock (madvance p)) ?m = (q, ?m\<lparr>overrides := overrides ?m @ vs\<rparr>)"
      "map anonOverride vs = map (\<lambda>(p, f). \<lparr>ov_name = pathName p, ov_folder = utf8Text f, ov_line = 0, ov_column = 0,
        ov_startOffset = 0, ov_endOffset = 0\<rparr>) os"
      "ahead q = rbraceT # rest" "mp_errors q = mp_errors p" by (auto simp: consumes_def)
  have "\<not> mat KwPackage p" using ahead_tests(1) [of p Identifier "u16 ''overrides''"] a by (simp add: wordT_def)
  then obtain c where "parseDeclaration p emptyManifest =
      (madvance q, ?m\<lparr>overrides := overrides ?m @ vs, hasOverridesClose := True, overridesCloseOffset := c\<rparr>)"
    using b(3) [of "''workspace''"] q(1) closeBlock_reads(1) [OF q(3)]
    by (auto simp: parseDeclaration_def Let_def u16_def)
  then show ?thesis using closeBlock_reads(2) [OF q(3)] q(2,4)
    by (simp add: consumes_def anon_def emptyManifest_def)
qed

lemma parseDeclaration_reads:
  assumes "ahead p = declarationT d @ rest" and "declarationWf d"
  shows "\<exists>q m. parseDeclaration p emptyManifest = (q, m) \<and> anon m = declarationM d \<and> consumes p rest q"
  using assms package_reads workspace_reads overrides_reads by (cases d) blast+

lemma declaration_starts:
  assumes "ahead p = declarationT d @ rest"
  shows "atDeclarationStart p" and "\<not> matEnd p"
proof -
  have "atDeclarationStart p \<and> \<not> matEnd p"
  proof (cases d)
    case (Package path items)
    then obtain r where "ahead p = (KwPackage, u16 ''package'') # r" using assms by simp
    from ahead_tests [OF this] show ?thesis by (simp add: atDeclarationStart_def)
  next
    case (Workspace folders)
    then obtain r where "ahead p = wordT ''workspace'' # r" using assms by simp
    from reads_wordT [OF this] show ?thesis by (simp add: atDeclarationStart_def)
  next
    case (Overrides os)
    then obtain r where "ahead p = wordT ''overrides'' # r" using assms by simp
    from reads_wordT [OF this] show ?thesis by (simp add: atDeclarationStart_def)
  qed
  then show "atDeclarationStart p" "\<not> matEnd p" by simp_all
qed

lemma declarationM_form: "form (declarationM d) \<noteq> FormNone"
  by (cases d) simp_all

text \<open>C30: every declaration of the grammar of this theory (a package with versions, dependencies and native libraries, a
  workspace, or overrides: the items the parser knows), written as tokens with an end-of-file token behind it, is read
  back by the manifest parser as the manifest it means, up to source positions, and without an error.\<close>

theorem manifest_roundtrip:
  assumes "map tokenSig toks = declarationT d @ [(EndOfFile, [])]" and "declarationWf d"
  shows "\<exists>p m. parseManifestTokens path toks errors = (p, m) \<and> mp_errors p = errors \<and> anon m = declarationM d"
proof -
  let ?p = "\<lparr>mp_path = path, mp_tokens = toks, mp_errors = errors, mp_index = 0\<rparr>"
  have a: "ahead ?p = declarationT d @ [(EndOfFile, [])]" using assms(1) by (simp add: ahead_def)
  from parseDeclaration_reads [OF a assms(2)] obtain q m where
    q: "parseDeclaration ?p emptyManifest = (q, m)" "anon m = declarationM d" "ahead q = [(EndOfFile, [])]"
      "mp_errors q = errors" by (auto simp: consumes_def)
  have e: "matEnd q" using ahead_tests(3) [OF q(3)] by simp
  have f: "form emptyManifest = FormNone" by (simp add: emptyManifest_def)
  have "parseDeclarations ?p emptyManifest = parseDeclarations q m"
    by (subst parseDeclarations.simps) (simp add: declaration_starts [OF a] f q(1))
  also have "\<dots> = (q, m)" using e by (subst parseDeclarations.simps) simp
  finally show ?thesis using q(2,4) by (simp add: parseManifestTokens_def)
qed

definition sampleDeclaration :: Declaration where
  "sampleDeclaration = Package [u16 ''acme'', u16 ''tools'']
     [ItemVersion (u16 ''1.3''), ItemEns (u16 ''0.1''),
      ItemDependency [u16 ''acme'', u16 ''json''] (Some (u16 ''2.0'')) (Some (u16 ''https://x'')),
      ItemNative (u16 ''zlib'') False (Some [Names (u16 ''linux'') [u16 ''z'']])]"

definition sampleTokens :: "LexedToken list" where
  "sampleTokens = map (\<lambda>(k, x). \<lparr>tok_kind = k, tok_text = x, tok_offset = 0, tok_line = 1, tok_column = 1\<rparr>)
     (declarationT sampleDeclaration @ [(EndOfFile, [])])"

theorem manifest_roundtrip_witness:
  "\<exists>p m. parseManifestTokens ''ens.package'' sampleTokens [] = (p, m) \<and> mp_errors p = [] \<and>
     anon m = declarationM sampleDeclaration"
proof (rule manifest_roundtrip)
  have "map (tokenSig \<circ> (\<lambda>(k, x). \<lparr>tok_kind = k, tok_text = x, tok_offset = 0, tok_line = 1, tok_column = 1\<rparr>)) xs = xs" for xs
    by (induction xs) (auto simp: tokenSig_def)
  then show "map tokenSig sampleTokens = declarationT sampleDeclaration @ [(EndOfFile, [])]"
    by (simp only: sampleTokens_def map_map)
  show "declarationWf sampleDeclaration" by (simp add: sampleDeclaration_def onceAtMost_def)
qed

end
