(* ===== verification/ManifestErrors.thy ===== *)
theory ManifestErrors
  imports Manifests
begin

text \<open>
  Reading a manifest only appends problems, and what it reads does not depend on the problems found before:
  the parser of \<open>Manifests\<close> commutes with putting earlier messages in front of its own.
\<close>

text \<open>The parser with earlier errors put before its own.\<close>

definition withErrors :: "string list \<Rightarrow> ManifestParser \<Rightarrow> ManifestParser" where
  "withErrors es p = p\<lparr>mp_errors := es @ mp_errors p\<rparr>"

lemma withErrors_reads [simp]:
  "mp_index (withErrors es p) = mp_index p" "mp_tokens (withErrors es p) = mp_tokens p" "mp_path (withErrors es p) = mp_path p"
  "mp_errors (withErrors es p) = es @ mp_errors p"
  by (simp_all add: withErrors_def)

lemma withErrors_current [simp]:
  "current (withErrors es p) = current p" "mkind (withErrors es p) = mkind p" "matEnd (withErrors es p) = matEnd p"
  "mat k (withErrors es p) = mat k p" "atWord w (withErrors es p) = atWord w p" "peekIsWord w (withErrors es p) = peekIsWord w p"
  "mpeekKind (withErrors es p) = mpeekKind p" "atDeclarationStart (withErrors es p) = atDeclarationStart p"
  by (simp_all add: current_def mkind_def matEnd_def mat_def atWord_def peekIsWord_def mpeekKind_def atDeclarationStart_def)

lemma withErrors_steps [simp]:
  "madvance (withErrors es p) = withErrors es (madvance p)"
  "errorHere msg (withErrors es p) = withErrors es (errorHere msg p)"
  by (simp_all add: madvance_def) (simp_all add: withErrors_def errorHere_def current_def)

lemma withErrors_expectSemicolon [simp]: "expectSemicolon (withErrors es p) = withErrors es (expectSemicolon p)"
  by (simp add: expectSemicolon_def)

lemma withErrors_skipBraces [simp]: "skipBraces d (withErrors es p) = withErrors es (skipBraces d p)"
proof (induction d p rule: skipBraces.induct)
  case (1 d p)
  then show ?case by (subst (1 2) skipBraces.simps) (simp add: Let_def)
qed

lemma withErrors_skipItem [simp]: "skipItem (withErrors es p) = withErrors es (skipItem p)"
proof (induction p rule: skipItem.induct)
  case (1 p)
  then show ?case by (subst (1 2) skipItem.simps) (simp add: skipBalancedBraces_def)
qed

lemma withErrors_skipDeclarationLoop [simp]: "skipDeclarationLoop b (withErrors es p) = withErrors es (skipDeclarationLoop b p)"
proof (induction b p rule: skipDeclarationLoop.induct)
  case (1 b p)
  then show ?case by (subst (1 2) skipDeclarationLoop.simps) (simp add: skipBalancedBraces_def)
qed

lemma withErrors_pathRest [simp]: "pathRest n (withErrors es p) = apsnd (withErrors es) (pathRest n p)"
proof (induction n p rule: pathRest.induct)
  case (1 n p)
  then show ?case by (subst (1 2) pathRest.simps) (simp add: Let_def)
qed

lemma withErrors_parsePackagePath [simp]: "parsePackagePath msg (withErrors es p) = apsnd (withErrors es) (parsePackagePath msg p)"
  by (simp add: parsePackagePath_def split: prod.split)

lemma withErrors_parseValueItem [simp]: "parseValueItem v msg (withErrors es p) = apsnd (withErrors es) (parseValueItem v msg p)"
  by (simp add: parseValueItem_def Let_def)

lemma withErrors_parseDependency [simp]: "parseDependency (withErrors es p) m = apfst (withErrors es) (parseDependency p m)"
  by (auto simp: parseDependency_def Let_def split: prod.split option.split)

lemma withErrors_baseNamesLoop [simp]: "baseNamesLoop (withErrors es p) = apsnd (withErrors es) (baseNamesLoop p)"
proof (induction p rule: baseNamesLoop.induct)
  case (1 p)
  then show ?case by (subst (1 2) baseNamesLoop.simps) (simp split: prod.split)
qed

lemma withErrors_parseNativeBinding [simp]: "parseNativeBinding (withErrors es p) n = apfst (withErrors es) (parseNativeBinding p n)"
  by (simp add: parseNativeBinding_def Let_def split: prod.split)

lemma withErrors_bindingsLoop [simp]: "bindingsLoop (withErrors es p) n = apfst (withErrors es) (bindingsLoop p n)"
proof (induction p n rule: bindingsLoop.induct)
  case (1 p n)
  then show ?case by (subst (1 2) bindingsLoop.simps) (simp split: prod.split)
qed

lemma withErrors_parseNative [simp]: "parseNative (withErrors es p) m = apfst (withErrors es) (parseNative p m)"
  unfolding parseNative_def Let_def split_beta by simp

lemma withErrors_parsePackageItem [simp]: "parsePackageItem (withErrors es p) m = apfst (withErrors es) (parsePackageItem p m)"
  by (simp add: parsePackageItem_def Let_def split: prod.split)

lemma withErrors_parseWorkspaceItem [simp]: "parseWorkspaceItem (withErrors es p) m = apfst (withErrors es) (parseWorkspaceItem p m)"
  by (simp add: parseWorkspaceItem_def Let_def)

lemma withErrors_parseOverridesItem [simp]: "parseOverridesItem (withErrors es p) m = apfst (withErrors es) (parseOverridesItem p m)"
  by (auto simp: parseOverridesItem_def Let_def split: prod.split option.split)

lemma withErrors_packageItems [simp]: "packageItems (withErrors es p) m = apfst (withErrors es) (packageItems p m)"
proof (induction p m rule: packageItems.induct)
  case (1 p m)
  then show ?case by (subst (1 2) packageItems.simps) (simp split: prod.split)
qed

lemma withErrors_workspaceItems [simp]: "workspaceItems (withErrors es p) m = apfst (withErrors es) (workspaceItems p m)"
proof (induction p m rule: workspaceItems.induct)
  case (1 p m)
  then show ?case by (subst (1 2) workspaceItems.simps) (simp split: prod.split)
qed

lemma withErrors_overridesItems [simp]: "overridesItems (withErrors es p) m = apfst (withErrors es) (overridesItems p m)"
proof (induction p m rule: overridesItems.induct)
  case (1 p m)
  then show ?case by (subst (1 2) overridesItems.simps) (simp split: prod.split)
qed

lemma withErrors_block [simp]:
  "openBlock (withErrors es p) = withErrors es (openBlock p)" "closeBlock (withErrors es p) = apsnd (withErrors es) (closeBlock p)"
  by (simp_all add: openBlock_def closeBlock_def)

lemma withErrors_parseDeclaration [simp]: "parseDeclaration (withErrors es p) m = apfst (withErrors es) (parseDeclaration p m)"
  by (auto simp: parseDeclaration_def Let_def split: prod.split option.split)

lemma withErrors_parseDeclarations: "parseDeclarations (withErrors es p) m = apfst (withErrors es) (parseDeclarations p m)"
proof (induction p m rule: parseDeclarations.induct)
  case (1 p m)
  then show ?case by (subst (1 2) parseDeclarations.simps) (simp add: skipDeclaration_def split: prod.split)
qed

lemma parseManifestTokens_errors:
  "parseManifestTokens path toks (es @ errors) = apfst (withErrors es) (parseManifestTokens path toks errors)"
proof -
  have "\<lparr>mp_path = path, mp_tokens = toks, mp_errors = es @ errors, mp_index = 0\<rparr> =
    withErrors es \<lparr>mp_path = path, mp_tokens = toks, mp_errors = errors, mp_index = 0\<rparr>" by (simp add: withErrors_def)
  then show ?thesis unfolding parseManifestTokens_def by (simp only: withErrors_parseDeclarations)
qed

theorem loadManifestFile_errors:
  "loadManifestFile rd file errors = (fst (loadManifestFile rd file []), errors @ snd (loadManifestFile rd file []))"
proof -
  have "parseManifestText file src errors = apsnd ((@) errors) (parseManifestText file src [])" for src
    using parseManifestTokens_errors [where es = errors and errors = "map (diagnosticText file) (snd (tokenize src []))"]
    by (simp add: parseManifestText_def split_beta Let_def)
  then show ?thesis
    by (auto simp: loadManifestFile_def validateManifest_def split_beta split: option.split)
qed

end
