(* ===== verification/Paths.thy ===== *)
theory Paths
  imports Prelude
begin

text \<open>
  What the module graph and the workspaces use of \<open>std::filesystem\<close>, for POSIX paths: a path is its text. The
  disk and the environment of the process are a parameter, a \<open>FileSystem\<close>, which does not change during a build.
\<close>

type_synonym path = string

record FileSystem =
  fs_exists :: "path \<Rightarrow> bool"
  fs_read :: "path \<Rightarrow> bytes option"
  fs_canonical :: "path \<Rightarrow> path option"
  fs_absolute :: "path \<Rightarrow> path option"
  fs_currentPath :: "path option"
  fs_getenv :: "string \<Rightarrow> string option"

section \<open>Operations on paths\<close>

definition isAbsolute :: "path \<Rightarrow> bool" where
  "isAbsolute p = (p \<noteq> [] \<and> hd p = CHR ''/'')"

text \<open>\<open>operator/\<close>\<close>

definition pathAppend :: "path \<Rightarrow> path \<Rightarrow> path" where
  "pathAppend a b = (if isAbsolute b then b else if a = [] \<or> last a = CHR ''/'' then a @ b else a @ CHR ''/'' # b)"

definition dropEnd :: "('a \<Rightarrow> bool) \<Rightarrow> 'a list \<Rightarrow> 'a list" where
  "dropEnd P xs = rev (dropWhile P (rev xs))"

definition parentPath :: "path \<Rightarrow> path" where
  "parentPath p = (let q = dropEnd (\<lambda>c. c \<noteq> CHR ''/'') p; r = dropEnd (\<lambda>c. c = CHR ''/'') q in
     if r = [] \<and> q \<noteq> [] then ''/'' else r)"

fun splitSlash :: "path \<Rightarrow> string list" where
  "splitSlash [] = [[]]"
| "splitSlash (c # s) = (if c = CHR ''/'' then [] # splitSlash s
     else case splitSlash s of x # xs \<Rightarrow> (c # x) # xs | [] \<Rightarrow> [[c]])"

definition pathNames :: "path \<Rightarrow> string list" where
  "pathNames p = filter (\<lambda>n. n \<noteq> []) (splitSlash p)"

text \<open>The elements a path iterates over.\<close>

definition pathParts :: "path \<Rightarrow> string list" where
  "pathParts p = (if isAbsolute p then [''/''] else []) @ pathNames p @
     (if pathNames p \<noteq> [] \<and> last p = CHR ''/'' then [[]] else [])"

definition pathEq :: "path \<Rightarrow> path \<Rightarrow> bool" where
  "pathEq p q = (pathParts p = pathParts q)"

text \<open>\<open>lexically_normal\<close>: the names kept so far are a stack; the flag is set when the last name was dropped.\<close>

fun normLoop :: "bool \<Rightarrow> string list \<Rightarrow> string list \<Rightarrow> bool \<Rightarrow> string list \<times> bool" where
  "normLoop root [] st trailing = (rev st, trailing)"
| "normLoop root (n # ns) st trailing =
     (if n = ''.'' then normLoop root ns st True
      else if n = ''..'' then
        (case st of
           t # st' \<Rightarrow> if t \<noteq> ''..'' then normLoop root ns st' True else normLoop root ns (n # st) False
         | [] \<Rightarrow> if root then normLoop root ns [] True else normLoop root ns [n] False)
      else normLoop root ns (n # st) False)"

fun joinSlash :: "string list \<Rightarrow> path" where
  "joinSlash [] = []"
| "joinSlash [n] = n"
| "joinSlash (n # ns) = n @ CHR ''/'' # joinSlash ns"

definition lexicallyNormal :: "path \<Rightarrow> path" where
  "lexicallyNormal p =
     (if p = [] then []
      else case normLoop (isAbsolute p) (pathNames p) [] False of (names, trailing) \<Rightarrow>
        if names = [] then (if isAbsolute p then ''/'' else ''.'')
        else (if isAbsolute p then ''/'' else []) @ joinSlash names @
          (if (trailing \<or> last p = CHR ''/'') \<and> last names \<noteq> ''..'' then ''/'' else []))"

definition filenameOf :: "path \<Rightarrow> string" where
  "filenameOf p = rev (takeWhile (\<lambda>c. c \<noteq> CHR ''/'') (rev p))"

text \<open>The part of the filename from its last dot, if that is not its first character.\<close>

definition extensionLength :: "string \<Rightarrow> nat" where
  "extensionLength n =
     (if n = ''.'' \<or> n = ''..'' \<or> CHR ''.'' \<notin> set n then 0
      else let k = Suc (length (takeWhile (\<lambda>c. c \<noteq> CHR ''.'') (rev n))) in if k = length n then 0 else k)"

definition replaceExtension :: "path \<Rightarrow> string \<Rightarrow> path" where
  "replaceExtension p ext =
     take (length p - extensionLength (filenameOf p)) p @ (if ext = [] \<or> hd ext = CHR ''.'' then ext else CHR ''.'' # ext)"

section \<open>Walking up\<close>

lemma dropEnd_length: "length (dropEnd P xs) \<le> length xs"
  using length_dropWhile_le [of P "rev xs"] by (simp add: dropEnd_def)

lemma dropEnd_same:
  assumes "length (dropEnd P xs) = length xs"
  shows "dropEnd P xs = xs"
proof -
  have "takeWhile P (rev xs) @ dropWhile P (rev xs) = rev xs" by simp
  moreover from this have "length (takeWhile P (rev xs)) + length (dropWhile P (rev xs)) = length xs"
    by (metis length_append length_rev)
  ultimately have "dropWhile P (rev xs) = rev xs" using assms unfolding dropEnd_def by (metis add_cancel_left_left append_Nil length_0_conv length_rev)
  then show ?thesis by (simp add: dropEnd_def)
qed

lemma parentPath_shorter:
  assumes "\<not> pathEq d (parentPath d)"
  shows "length (parentPath d) < length d"
proof -
  let ?q = "dropEnd (\<lambda>c. c \<noteq> CHR ''/'') d"
  let ?r = "dropEnd (\<lambda>c. c = CHR ''/'') ?q"
  have len: "length ?q \<le> length d" "length ?r \<le> length ?q" by (simp_all add: dropEnd_length)
  have "parentPath d \<noteq> d" using assms by (auto simp: pathEq_def)
  show ?thesis
  proof (cases "?r = [] \<and> ?q \<noteq> []")
    case True
    then have p: "parentPath d = ''/''" by (simp add: parentPath_def)
    have "length d \<noteq> 0" using len(1) True by auto
    moreover have "length d \<noteq> 1"
    proof
      assume "length d = 1"
      then obtain c where "d = [c]" by (auto simp: length_Suc_conv)
      with True \<open>parentPath d \<noteq> d\<close> p show False by (auto simp: dropEnd_def split: if_splits)
    qed
    ultimately show ?thesis using p by (cases "length d") auto
  next
    case False
    then have p: "parentPath d = ?r" by (simp add: parentPath_def Let_def)
    have "length ?r \<noteq> length d"
    proof
      assume "length ?r = length d"
      with len have "length ?q = length d" "length ?r = length ?q" by simp_all
      then have "?q = d" "?r = ?q" by (simp_all add: dropEnd_same)
      with p \<open>parentPath d \<noteq> d\<close> show False by simp
    qed
    with len p show ?thesis by simp
  qed
qed

text \<open>The folders the loop \<open>for (d = dir;; d = d.parent_path())\<close> visits: it ends where a path is its own parent.\<close>

function ancestorsOf :: "path \<Rightarrow> path list" where
  "ancestorsOf d = d # (if pathEq d (parentPath d) then [] else ancestorsOf (parentPath d))"
  by pat_completeness auto
termination
  by (relation "measure length") (simp_all add: parentPath_shorter)

declare ancestorsOf.simps [simp del]

section \<open>Names without separators\<close>

lemma splitSlash_append: "CHR ''/'' \<notin> set n \<Longrightarrow> splitSlash (n @ CHR ''/'' # s) = n # splitSlash s"
  by (induction n) auto

lemma splitSlash_plain: "CHR ''/'' \<notin> set n \<Longrightarrow> splitSlash n = [n]"
  by (induction n) auto

definition plainName :: "string \<Rightarrow> bool" where
  "plainName n \<longleftrightarrow> n \<noteq> [] \<and> CHR ''/'' \<notin> set n"

lemma joinSlash_Cons: "ns \<noteq> [] \<Longrightarrow> joinSlash (n # ns) = n @ CHR ''/'' # joinSlash ns"
  by (cases ns) simp_all

lemma pathNames_joinSlash: "\<forall>n \<in> set ns. plainName n \<Longrightarrow> pathNames (joinSlash ns) = ns"
proof (induction ns)
  case (Cons n ns)
  then show ?case
    by (cases ns) (simp_all add: pathNames_def plainName_def splitSlash_append splitSlash_plain)
qed (simp add: pathNames_def)

lemma joinSlash_ends:
  assumes "ns \<noteq> []" and "\<forall>n \<in> set ns. plainName n"
  shows "joinSlash ns \<noteq> []" and "hd (joinSlash ns) \<noteq> CHR ''/''" and "last (joinSlash ns) \<noteq> CHR ''/''"
proof -
  have "joinSlash ns \<noteq> [] \<and> hd (joinSlash ns) \<noteq> CHR ''/'' \<and> last (joinSlash ns) \<noteq> CHR ''/''"
    using assms
  proof (induction ns)
    case (Cons n ns)
    have n: "n \<noteq> []" "CHR ''/'' \<notin> set n" using Cons.prems by (simp_all add: plainName_def)
    then have "hd n \<noteq> CHR ''/''" "last n \<noteq> CHR ''/''" by (metis hd_in_set, metis last_in_set)
    with n Cons show ?case by (cases ns) (simp_all add: joinSlash_Cons)
  qed simp
  then show "joinSlash ns \<noteq> []" and "hd (joinSlash ns) \<noteq> CHR ''/''" and "last (joinSlash ns) \<noteq> CHR ''/''" by simp_all
qed

lemma pathAppend_plain:
  assumes "p = joinSlash ns" and "\<forall>m \<in> set ns. plainName m" and "plainName n"
  shows "pathAppend p n = joinSlash (ns @ [n])"
proof -
  have h: "hd n \<noteq> CHR ''/''" using assms(3) by (metis hd_in_set plainName_def)
  have join: "joinSlash (ms @ [n]) = (if ms = [] then n else joinSlash ms @ CHR ''/'' # n)" for ms
    by (induction ms rule: joinSlash.induct) auto
  show ?thesis using assms joinSlash_ends [of ns] h by (auto simp: pathAppend_def isAbsolute_def join)
qed

end
