(* ===== verification/AstViews.thy ===== *)
theory AstViews
  imports Green
begin

text \<open>
  The typed views of the syntax tree, first part: \<open>ast/Common.h\<close>, \<open>ast/TypeReference.h\<close> and
  \<open>ast/TypeReference.cpp\<close>.

  A view is a class with one member, the node it looks at, so a view is that node. \<open>X::cast\<close> tests the kind;
  a member function \<open>X::f\<close> is \<open>X_f\<close>. The views hold no state: every answer is read off the children.
\<close>

section \<open>Looking at children\<close>

definition castTo :: "SyntaxKind \<Rightarrow> SyntaxNode \<Rightarrow> SyntaxNode option" where
  "castTo k n = (if node_kind n \<noteq> k then None else Some n)"

lemma castTo_None: "castTo k n = None \<longleftrightarrow> node_kind n \<noteq> k"
  by (simp add: castTo_def)

text \<open>\<open>std::u16string(t->tokenText())\<close> of the token that is there.\<close>

definition textOfToken :: "SyntaxNode option \<Rightarrow> u16string option" where
  "textOfToken t = map_option tokenText t"

definition firstChildNode :: "SyntaxNode \<Rightarrow> SyntaxKind \<Rightarrow> SyntaxNode option" where
  "firstChildNode parent k = find (\<lambda>c. \<not> isTrivia (node_kind c) \<and> node_kind c = k) (children parent)"

definition firstTypeChild :: "SyntaxNode \<Rightarrow> SyntaxNode option" where
  "firstTypeChild parent = find (\<lambda>c. isTypeNode (node_kind c)) (children parent)"

definition firstNonTriviaToken :: "SyntaxNode \<Rightarrow> SyntaxNode option" where
  "firstNonTriviaToken parent = find (\<lambda>c. \<not> isTrivia (node_kind c) \<and> node_isToken c) (children parent)"

definition firstNonTriviaTokenIn :: "SyntaxNode \<Rightarrow> SyntaxKind list \<Rightarrow> SyntaxNode option" where
  "firstNonTriviaTokenIn parent kinds =
     find (\<lambda>c. \<not> isTrivia (node_kind c) \<and> node_isToken c \<and> node_kind c \<in> set kinds) (children parent)"

definition childrenOfKind :: "SyntaxNode \<Rightarrow> SyntaxKind \<Rightarrow> SyntaxNode list" where
  "childrenOfKind parent k = filter (\<lambda>c. node_kind c = k) (children parent)"

function hasMissingOrError :: "SyntaxNode \<Rightarrow> bool" where
  "hasMissingOrError n =
     (node_kind n = Missing \<or> node_kind n = Error \<or> list_ex hasMissingOrError (children n))"
  by pat_completeness auto
termination
  by (relation "measure (\<lambda>n. size (green n))") (auto dest: children_smaller)

declare hasMissingOrError.simps [simp del]

text \<open>Loops the member functions share. The first child that is no trivia:\<close>

definition firstNonTrivia :: "SyntaxNode \<Rightarrow> SyntaxNode option" where
  "firstNonTrivia n = find (\<lambda>c. \<not> isTrivia (node_kind c)) (children n)"

text \<open>The first child that answers to \<open>Q\<close> after one that answers to \<open>S\<close>, with the loop's flag.\<close>

fun findAfter :: "(SyntaxNode \<Rightarrow> bool) \<Rightarrow> (SyntaxNode \<Rightarrow> bool) \<Rightarrow> bool \<Rightarrow> SyntaxNode list \<Rightarrow> SyntaxNode option" where
  "findAfter S Q seen [] = None"
| "findAfter S Q seen (c # cs) =
     (if isTrivia (node_kind c) then findAfter S Q seen cs
      else if S c then findAfter S Q True cs
      else if seen \<and> Q c then Some c
      else findAfter S Q seen cs)"

text \<open>The children before the first \<open>->\<close>, and those after it.\<close>

definition beforeArrow :: "SyntaxNode \<Rightarrow> SyntaxNode list" where
  "beforeArrow n = takeWhile (\<lambda>c. node_kind c \<noteq> Arrow) (children n)"

definition afterArrow :: "SyntaxNode \<Rightarrow> SyntaxNode list" where
  "afterArrow n = filter (\<lambda>c. node_kind c \<noteq> Arrow) (dropWhile (\<lambda>c. node_kind c \<noteq> Arrow) (children n))"

section \<open>Every answer lies below the node\<close>

text \<open>A view never answers with a node outside the subtree it looks at; the walks over views end by this.\<close>

definition below :: "SyntaxNode \<Rightarrow> SyntaxNode \<Rightarrow> bool" where
  "below c n \<longleftrightarrow> size (green c) < size (green n)"

named_theorems below_intros \<open>nodes below a node\<close>
named_theorems below_dests \<open>what a member function answers with is below its node\<close>

lemma below_trans: "below a b \<Longrightarrow> below b c \<Longrightarrow> below a c"
  by (simp add: below_def)

lemma children_below [below_intros]: "c \<in> set (children n) \<Longrightarrow> below c n"
  by (simp add: below_def children_smaller)

lemma find_below: "find P cs = Some c \<Longrightarrow> c \<in> set cs"
  by (drule find_SomeD) simp

lemma findAfter_below: "findAfter S Q seen cs = Some c \<Longrightarrow> c \<in> set cs"
  by (induction S Q seen cs rule: findAfter.induct) (auto split: if_splits)

lemma firstFound_below: "firstFound f cs = Some x \<Longrightarrow> \<exists>c \<in> set cs. f c = Some x"
  by (induction cs) (auto split: option.splits)

lemma castTo_Some [simp]: "castTo k n = Some m \<longleftrightarrow> m = n \<and> node_kind n = k"
  by (auto simp: castTo_def)

lemma map_filter_cast: "x \<in> set (List.map_filter f cs) \<Longrightarrow> \<exists>c \<in> set cs. f c = Some x"
  by (auto simp: List.map_filter_def)

lemma beforeArrow_below: "c \<in> set (beforeArrow n) \<Longrightarrow> below c n"
  by (auto simp: beforeArrow_def dest: set_takeWhileD intro: children_below)

lemma afterArrow_below: "c \<in> set (afterArrow n) \<Longrightarrow> below c n"
  by (auto simp: afterArrow_def dest: set_dropWhileD intro: children_below)

lemma firstChildNode_below [below_dests]: "firstChildNode n k = Some c \<Longrightarrow> below c n"
  by (auto simp: firstChildNode_def dest: find_below intro: children_below)

lemma firstTypeChild_below [below_dests]: "firstTypeChild n = Some c \<Longrightarrow> below c n"
  by (auto simp: firstTypeChild_def dest: find_below intro: children_below)

section \<open>Type references\<close>

type_synonym TypeReference = SyntaxNode

definition TypeReference_cast :: "SyntaxNode \<Rightarrow> TypeReference option" where
  "TypeReference_cast n = (if \<not> isTypeNode (node_kind n) then None else Some n)"

datatype Suffix = Optional | Array

definition TypeReference_isFunctionType :: "TypeReference \<Rightarrow> bool" where
  "TypeReference_isFunctionType n = (node_kind n = FuncType)"

definition TypeReference_isParenthesized :: "TypeReference \<Rightarrow> bool" where
  "TypeReference_isParenthesized n = (node_kind n = ParenType)"

definition TypeReference_segmentTokens :: "TypeReference \<Rightarrow> SyntaxNode list" where
  "TypeReference_segmentTokens n = (if node_kind n \<noteq> TypeRef then []
     else filter (\<lambda>c. \<not> isTrivia (node_kind c) \<and> node_isToken c \<and>
       (node_kind c = Identifier \<or> isKeyword (node_kind c))) (children n))"

definition TypeReference_pathSegments :: "TypeReference \<Rightarrow> u16string list" where
  "TypeReference_pathSegments n = map tokenText (TypeReference_segmentTokens n)"

definition TypeReference_qualifierToken :: "TypeReference \<Rightarrow> SyntaxNode option" where
  "TypeReference_qualifierToken n = (let tokens = TypeReference_segmentTokens n in
     if length tokens < 2 then None else Some (hd tokens))"

definition TypeReference_qualifierText :: "TypeReference \<Rightarrow> u16string option" where
  "TypeReference_qualifierText n = textOfToken (TypeReference_qualifierToken n)"

definition TypeReference_nameToken :: "TypeReference \<Rightarrow> SyntaxNode option" where
  "TypeReference_nameToken n = (let tokens = TypeReference_segmentTokens n in
     if tokens = [] then None else Some (last tokens))"

definition TypeReference_nameText :: "TypeReference \<Rightarrow> u16string option" where
  "TypeReference_nameText n = textOfToken (TypeReference_nameToken n)"

text \<open>The type arguments in the first \<open>TypeArgList\<close> of a list of children.\<close>

definition typeArgumentsIn :: "SyntaxNode list \<Rightarrow> TypeReference list" where
  "typeArgumentsIn cs = (case find (\<lambda>c. node_kind c = TypeArgList) cs of None \<Rightarrow> []
     | Some c \<Rightarrow> List.map_filter TypeReference_cast (children c))"

definition TypeReference_typeArguments :: "TypeReference \<Rightarrow> TypeReference list" where
  "TypeReference_typeArguments n = typeArgumentsIn (children n)"

definition TypeReference_parameterTypes :: "TypeReference \<Rightarrow> TypeReference list" where
  "TypeReference_parameterTypes n = (if \<not> TypeReference_isFunctionType n then []
     else List.map_filter TypeReference_cast (beforeArrow n))"

definition TypeReference_returnedType :: "TypeReference \<Rightarrow> TypeReference option" where
  "TypeReference_returnedType n = (if \<not> TypeReference_isFunctionType n then None
     else firstFound TypeReference_cast (afterArrow n))"

definition TypeReference_hasThrowsClause :: "TypeReference \<Rightarrow> bool" where
  "TypeReference_hasThrowsClause n = (if \<not> TypeReference_isFunctionType n then False
     else firstChildNode n ThrowsClause \<noteq> None)"

definition TypeReference_innerType :: "TypeReference \<Rightarrow> TypeReference option" where
  "TypeReference_innerType n = (if \<not> TypeReference_isParenthesized n then None
     else firstFound TypeReference_cast (children n))"

definition TypeReference_isOptional :: "TypeReference \<Rightarrow> bool" where
  "TypeReference_isOptional n = list_ex (\<lambda>c. node_kind c = Question) (children n)"

definition TypeReference_arrayDepth :: "TypeReference \<Rightarrow> nat" where
  "TypeReference_arrayDepth n = length (filter (\<lambda>c. node_kind c = LBracket) (children n))"

definition TypeReference_isArray :: "TypeReference \<Rightarrow> bool" where
  "TypeReference_isArray n = (TypeReference_arrayDepth n > 0)"

definition TypeReference_suffixChain :: "TypeReference \<Rightarrow> Suffix list" where
  "TypeReference_suffixChain n = List.map_filter (\<lambda>c.
     if isTrivia (node_kind c) then None
     else if node_kind c = Question then Some Optional
     else if node_kind c = LBracket then Some Array else None) (children n)"

lemma TypeReference_cast_Some [simp]: "TypeReference_cast n = Some t \<longleftrightarrow> t = n \<and> isTypeNode (node_kind n)"
  by (auto simp: TypeReference_cast_def)

text \<open>The suffix chain tells both the array depth and whether the type is optional.\<close>

lemma suffixChain_counts:
  "TypeReference_isOptional n \<longleftrightarrow> Optional \<in> set (TypeReference_suffixChain n)"
  "TypeReference_arrayDepth n = count_list (TypeReference_suffixChain n) Array"
proof -
  let ?f = "\<lambda>c. if isTrivia (node_kind c) then None else if node_kind c = Question then Some Optional
    else if node_kind c = LBracket then Some Array else None"
  have "list_ex (\<lambda>c. node_kind c = Question) cs \<longleftrightarrow> Optional \<in> set (List.map_filter ?f cs)"
    and "length (filter (\<lambda>c. node_kind c = LBracket) cs) = count_list (List.map_filter ?f cs) Array" for cs
    by (induction cs) (auto simp: map_filter_simps isTrivia_def)
  then show "TypeReference_isOptional n \<longleftrightarrow> Optional \<in> set (TypeReference_suffixChain n)"
    and "TypeReference_arrayDepth n = count_list (TypeReference_suffixChain n) Array"
    by (simp_all add: TypeReference_isOptional_def TypeReference_arrayDepth_def TypeReference_suffixChain_def)
qed

end
