(* ===== verification/AstExpressions.thy ===== *)
theory AstExpressions
  imports AstViews
begin

text \<open>
  The typed views of expressions: \<open>ast/Expression.h\<close> and \<open>ast/Expression.cpp\<close>.
\<close>

section \<open>The views and their casts\<close>

type_synonym Expression = SyntaxNode
type_synonym LiteralExpression = SyntaxNode
type_synonym IdentExpression = SyntaxNode
type_synonym ThisExpression = SyntaxNode
type_synonym SuperExpression = SyntaxNode
type_synonym BinaryExpression = SyntaxNode
type_synonym PrefixExpression = SyntaxNode
type_synonym PostfixExpression = SyntaxNode
type_synonym CallExpression = SyntaxNode
type_synonym MemberExpression = SyntaxNode
type_synonym SafeMemberExpression = SyntaxNode
type_synonym SubscriptExpression = SyntaxNode
type_synonym SafeSubscriptExpression = SyntaxNode
type_synonym CastExpression = SyntaxNode
type_synonym CheckedCastExpression = SyntaxNode
type_synonym TypeTestExpression = SyntaxNode
type_synonym OutArgument = SyntaxNode
type_synonym NamedArgument = SyntaxNode
type_synonym AssignExpression = SyntaxNode
type_synonym TernaryExpression = SyntaxNode
type_synonym NullCoalesceExpression = SyntaxNode
type_synonym NewExpression = SyntaxNode
type_synonym ParenExpression = SyntaxNode
type_synonym ArrayLiteralExpression = SyntaxNode
type_synonym StructLiteralExpression = SyntaxNode
type_synonym InterpStringExpression = SyntaxNode
type_synonym TryExpression = SyntaxNode
type_synonym SwitchExpression = SyntaxNode
type_synonym LambdaExpression = SyntaxNode
type_synonym ArgumentList = SyntaxNode
type_synonym StructLiteralField = SyntaxNode
type_synonym SwitchArm = SyntaxNode
type_synonym LambdaParameter = SyntaxNode

definition isExpressionKind :: "SyntaxKind \<Rightarrow> bool" where
  "isExpressionKind k = (k \<in> {LiteralExpr, IdentExpr, GenericNameExpr, ThisExpr, SuperExpr, BinaryExpr, UnaryExpr,
      PrefixExpr, PostfixExpr, CallExpr, MemberExpr, SafeMemberExpr, OutArgument, NamedArgument,
      SubscriptExpr, SafeSubscriptExpr, CastExpr, CheckedCastExpr, TypeTestExpr, AssignExpr, TernaryExpr,
      NullCoalesceExpr, NewExpr, ParenExpr, ArrayLiteralExpr, StructLiteralExpr, InterpStringExpr, TryExpr,
      SwitchExpr, LambdaExpr})"

definition Expression_cast :: "SyntaxNode \<Rightarrow> Expression option" where
  "Expression_cast n = (if \<not> isExpressionKind (node_kind n) then None else Some n)"

definition Expression_kind :: "Expression \<Rightarrow> SyntaxKind" where
  "Expression_kind e = node_kind e"

definition LiteralExpression_cast :: "SyntaxNode \<Rightarrow> LiteralExpression option" where
  "LiteralExpression_cast n = castTo LiteralExpr n"

definition IdentExpression_cast :: "SyntaxNode \<Rightarrow> IdentExpression option" where
  "IdentExpression_cast n = castTo IdentExpr n"

definition ThisExpression_cast :: "SyntaxNode \<Rightarrow> ThisExpression option" where
  "ThisExpression_cast n = castTo ThisExpr n"

definition SuperExpression_cast :: "SyntaxNode \<Rightarrow> SuperExpression option" where
  "SuperExpression_cast n = castTo SuperExpr n"

definition BinaryExpression_cast :: "SyntaxNode \<Rightarrow> BinaryExpression option" where
  "BinaryExpression_cast n = castTo BinaryExpr n"

definition PrefixExpression_cast :: "SyntaxNode \<Rightarrow> PrefixExpression option" where
  "PrefixExpression_cast n = castTo PrefixExpr n"

definition PostfixExpression_cast :: "SyntaxNode \<Rightarrow> PostfixExpression option" where
  "PostfixExpression_cast n = castTo PostfixExpr n"

definition CallExpression_cast :: "SyntaxNode \<Rightarrow> CallExpression option" where
  "CallExpression_cast n = castTo CallExpr n"

definition MemberExpression_cast :: "SyntaxNode \<Rightarrow> MemberExpression option" where
  "MemberExpression_cast n = castTo MemberExpr n"

definition SafeMemberExpression_cast :: "SyntaxNode \<Rightarrow> SafeMemberExpression option" where
  "SafeMemberExpression_cast n = castTo SafeMemberExpr n"

definition SubscriptExpression_cast :: "SyntaxNode \<Rightarrow> SubscriptExpression option" where
  "SubscriptExpression_cast n = castTo SubscriptExpr n"

definition SafeSubscriptExpression_cast :: "SyntaxNode \<Rightarrow> SafeSubscriptExpression option" where
  "SafeSubscriptExpression_cast n = castTo SafeSubscriptExpr n"

definition CastExpression_cast :: "SyntaxNode \<Rightarrow> CastExpression option" where
  "CastExpression_cast n = castTo CastExpr n"

definition CheckedCastExpression_cast :: "SyntaxNode \<Rightarrow> CheckedCastExpression option" where
  "CheckedCastExpression_cast n = castTo CheckedCastExpr n"

definition TypeTestExpression_cast :: "SyntaxNode \<Rightarrow> TypeTestExpression option" where
  "TypeTestExpression_cast n = castTo TypeTestExpr n"

definition OutArgument_cast :: "SyntaxNode \<Rightarrow> OutArgument option" where
  "OutArgument_cast n = castTo OutArgument n"

definition NamedArgument_cast :: "SyntaxNode \<Rightarrow> NamedArgument option" where
  "NamedArgument_cast n = castTo NamedArgument n"

definition AssignExpression_cast :: "SyntaxNode \<Rightarrow> AssignExpression option" where
  "AssignExpression_cast n = castTo AssignExpr n"

definition TernaryExpression_cast :: "SyntaxNode \<Rightarrow> TernaryExpression option" where
  "TernaryExpression_cast n = castTo TernaryExpr n"

definition NullCoalesceExpression_cast :: "SyntaxNode \<Rightarrow> NullCoalesceExpression option" where
  "NullCoalesceExpression_cast n = castTo NullCoalesceExpr n"

definition NewExpression_cast :: "SyntaxNode \<Rightarrow> NewExpression option" where
  "NewExpression_cast n = castTo NewExpr n"

definition ParenExpression_cast :: "SyntaxNode \<Rightarrow> ParenExpression option" where
  "ParenExpression_cast n = castTo ParenExpr n"

definition ArrayLiteralExpression_cast :: "SyntaxNode \<Rightarrow> ArrayLiteralExpression option" where
  "ArrayLiteralExpression_cast n = castTo ArrayLiteralExpr n"

definition StructLiteralExpression_cast :: "SyntaxNode \<Rightarrow> StructLiteralExpression option" where
  "StructLiteralExpression_cast n = castTo StructLiteralExpr n"

definition InterpStringExpression_cast :: "SyntaxNode \<Rightarrow> InterpStringExpression option" where
  "InterpStringExpression_cast n = castTo InterpStringExpr n"

definition TryExpression_cast :: "SyntaxNode \<Rightarrow> TryExpression option" where
  "TryExpression_cast n = castTo TryExpr n"

definition SwitchExpression_cast :: "SyntaxNode \<Rightarrow> SwitchExpression option" where
  "SwitchExpression_cast n = castTo SwitchExpr n"

definition LambdaExpression_cast :: "SyntaxNode \<Rightarrow> LambdaExpression option" where
  "LambdaExpression_cast n = castTo LambdaExpr n"

definition ArgumentList_cast :: "SyntaxNode \<Rightarrow> ArgumentList option" where
  "ArgumentList_cast n = castTo ArgList n"

definition StructLiteralField_cast :: "SyntaxNode \<Rightarrow> StructLiteralField option" where
  "StructLiteralField_cast n = castTo StructLiteralField n"

definition SwitchArm_cast :: "SyntaxNode \<Rightarrow> SwitchArm option" where
  "SwitchArm_cast n = castTo SwitchArm n"

definition LambdaParameter_cast :: "SyntaxNode \<Rightarrow> LambdaParameter option" where
  "LambdaParameter_cast n = castTo LambdaParam n"

definition Expression_asLiteral :: "Expression \<Rightarrow> LiteralExpression option" where
  "Expression_asLiteral e = LiteralExpression_cast e"

definition Expression_asIdent :: "Expression \<Rightarrow> IdentExpression option" where
  "Expression_asIdent e = IdentExpression_cast e"

definition Expression_asThis :: "Expression \<Rightarrow> ThisExpression option" where
  "Expression_asThis e = ThisExpression_cast e"

definition Expression_asSuper :: "Expression \<Rightarrow> SuperExpression option" where
  "Expression_asSuper e = SuperExpression_cast e"

definition Expression_asBinary :: "Expression \<Rightarrow> BinaryExpression option" where
  "Expression_asBinary e = BinaryExpression_cast e"

definition Expression_asPrefix :: "Expression \<Rightarrow> PrefixExpression option" where
  "Expression_asPrefix e = PrefixExpression_cast e"

definition Expression_asPostfix :: "Expression \<Rightarrow> PostfixExpression option" where
  "Expression_asPostfix e = PostfixExpression_cast e"

definition Expression_asCall :: "Expression \<Rightarrow> CallExpression option" where
  "Expression_asCall e = CallExpression_cast e"

definition Expression_asMember :: "Expression \<Rightarrow> MemberExpression option" where
  "Expression_asMember e = MemberExpression_cast e"

definition Expression_asSafeMember :: "Expression \<Rightarrow> SafeMemberExpression option" where
  "Expression_asSafeMember e = SafeMemberExpression_cast e"

definition Expression_asSubscript :: "Expression \<Rightarrow> SubscriptExpression option" where
  "Expression_asSubscript e = SubscriptExpression_cast e"

definition Expression_asSafeSubscript :: "Expression \<Rightarrow> SafeSubscriptExpression option" where
  "Expression_asSafeSubscript e = SafeSubscriptExpression_cast e"

definition Expression_asCast :: "Expression \<Rightarrow> CastExpression option" where
  "Expression_asCast e = CastExpression_cast e"

definition Expression_asCheckedCast :: "Expression \<Rightarrow> CheckedCastExpression option" where
  "Expression_asCheckedCast e = CheckedCastExpression_cast e"

definition Expression_asTypeTest :: "Expression \<Rightarrow> TypeTestExpression option" where
  "Expression_asTypeTest e = TypeTestExpression_cast e"

definition Expression_asOutArgument :: "Expression \<Rightarrow> OutArgument option" where
  "Expression_asOutArgument e = OutArgument_cast e"

definition Expression_asNamedArgument :: "Expression \<Rightarrow> NamedArgument option" where
  "Expression_asNamedArgument e = NamedArgument_cast e"

definition Expression_asAssign :: "Expression \<Rightarrow> AssignExpression option" where
  "Expression_asAssign e = AssignExpression_cast e"

definition Expression_asTernary :: "Expression \<Rightarrow> TernaryExpression option" where
  "Expression_asTernary e = TernaryExpression_cast e"

definition Expression_asNullCoalesce :: "Expression \<Rightarrow> NullCoalesceExpression option" where
  "Expression_asNullCoalesce e = NullCoalesceExpression_cast e"

definition Expression_asNew :: "Expression \<Rightarrow> NewExpression option" where
  "Expression_asNew e = NewExpression_cast e"

definition Expression_asParen :: "Expression \<Rightarrow> ParenExpression option" where
  "Expression_asParen e = ParenExpression_cast e"

definition Expression_asArrayLiteral :: "Expression \<Rightarrow> ArrayLiteralExpression option" where
  "Expression_asArrayLiteral e = ArrayLiteralExpression_cast e"

definition Expression_asStructLiteral :: "Expression \<Rightarrow> StructLiteralExpression option" where
  "Expression_asStructLiteral e = StructLiteralExpression_cast e"

definition Expression_asInterpString :: "Expression \<Rightarrow> InterpStringExpression option" where
  "Expression_asInterpString e = InterpStringExpression_cast e"

definition Expression_asTry :: "Expression \<Rightarrow> TryExpression option" where
  "Expression_asTry e = TryExpression_cast e"

definition Expression_asSwitch :: "Expression \<Rightarrow> SwitchExpression option" where
  "Expression_asSwitch e = SwitchExpression_cast e"

definition Expression_asLambda :: "Expression \<Rightarrow> LambdaExpression option" where
  "Expression_asLambda e = LambdaExpression_cast e"

section \<open>Children that are expressions\<close>

definition firstExpressionChild :: "SyntaxNode \<Rightarrow> Expression option" where
  "firstExpressionChild parent = firstFound Expression_cast (children parent)"

definition expressionChildren :: "SyntaxNode \<Rightarrow> Expression list" where
  "expressionChildren parent = List.map_filter Expression_cast (children parent)"

text \<open>\<open>exprs.size() > i ? exprs[i] : nullopt\<close>\<close>

definition expressionAt :: "nat \<Rightarrow> SyntaxNode \<Rightarrow> Expression option" where
  "expressionAt i n = (let exprs = expressionChildren n in if length exprs \<ge> Suc i then Some (exprs ! i) else None)"

text \<open>The operator between two operands: the first token between the first and the second expression.\<close>

fun operatorBetween :: "bool \<Rightarrow> SyntaxNode list \<Rightarrow> SyntaxNode option" where
  "operatorBetween seen [] = None"
| "operatorBetween seen (c # cs) =
     (if isTrivia (node_kind c) then operatorBetween seen cs
      else if isExpressionKind (node_kind c) then (if \<not> seen then operatorBetween True cs else None)
      else if seen \<and> node_isToken c then Some c
      else operatorBetween seen cs)"

section \<open>Member functions\<close>

definition LiteralExpression_token :: "LiteralExpression \<Rightarrow> SyntaxNode option" where
  "LiteralExpression_token n = find (\<lambda>c. \<not> isTrivia (node_kind c) \<and> node_isToken c \<and> isLiteral (node_kind c)) (children n)"

definition LiteralExpression_literalKind :: "LiteralExpression \<Rightarrow> SyntaxKind" where
  "LiteralExpression_literalKind n = (case LiteralExpression_token n of Some t \<Rightarrow> node_kind t | None \<Rightarrow> Invalid)"

definition IdentExpression_identifier :: "IdentExpression \<Rightarrow> SyntaxNode option" where
  "IdentExpression_identifier n = find (\<lambda>c. \<not> isTrivia (node_kind c) \<and> node_kind c = Identifier) (children n)"

definition IdentExpression_nameText :: "IdentExpression \<Rightarrow> u16string option" where
  "IdentExpression_nameText n = textOfToken (IdentExpression_identifier n)"

definition BinaryExpression_left :: "BinaryExpression \<Rightarrow> Expression option" where
  "BinaryExpression_left n = firstExpressionChild n"

definition BinaryExpression_right :: "BinaryExpression \<Rightarrow> Expression option" where
  "BinaryExpression_right n = expressionAt 1 n"

definition BinaryExpression_operatorToken :: "BinaryExpression \<Rightarrow> SyntaxNode option" where
  "BinaryExpression_operatorToken n = operatorBetween False (children n)"

definition NullCoalesceExpression_left :: "NullCoalesceExpression \<Rightarrow> Expression option" where
  "NullCoalesceExpression_left n = firstExpressionChild n"

definition NullCoalesceExpression_right :: "NullCoalesceExpression \<Rightarrow> Expression option" where
  "NullCoalesceExpression_right n = expressionAt 1 n"

definition PrefixExpression_operand :: "PrefixExpression \<Rightarrow> Expression option" where
  "PrefixExpression_operand n = firstExpressionChild n"

definition PrefixExpression_operatorToken :: "PrefixExpression \<Rightarrow> SyntaxNode option" where
  "PrefixExpression_operatorToken n = firstNonTriviaToken n"

definition PostfixExpression_operand :: "PostfixExpression \<Rightarrow> Expression option" where
  "PostfixExpression_operand n = firstExpressionChild n"

definition PostfixExpression_operatorToken :: "PostfixExpression \<Rightarrow> SyntaxNode option" where
  "PostfixExpression_operatorToken n = findAfter (\<lambda>c. isExpressionKind (node_kind c)) node_isToken False (children n)"

definition ArgumentList_arguments :: "ArgumentList \<Rightarrow> Expression list" where
  "ArgumentList_arguments n = expressionChildren n"

definition CallExpression_callee :: "CallExpression \<Rightarrow> Expression option" where
  "CallExpression_callee n = firstExpressionChild n"

definition CallExpression_typeArguments :: "CallExpression \<Rightarrow> TypeReference list" where
  "CallExpression_typeArguments n = typeArgumentsIn (children n)"

definition CallExpression_argumentList :: "CallExpression \<Rightarrow> ArgumentList option" where
  "CallExpression_argumentList n = (case firstChildNode n ArgList of None \<Rightarrow> None | Some a \<Rightarrow> ArgumentList_cast a)"

definition CallExpression_arguments :: "CallExpression \<Rightarrow> Expression list" where
  "CallExpression_arguments n = (case CallExpression_argumentList n of Some al \<Rightarrow> ArgumentList_arguments al | None \<Rightarrow> [])"

definition MemberExpression_object :: "MemberExpression \<Rightarrow> Expression option" where
  "MemberExpression_object n = firstExpressionChild n"

definition MemberExpression_memberName :: "MemberExpression \<Rightarrow> SyntaxNode option" where
  "MemberExpression_memberName n = findAfter (\<lambda>c. node_kind c = Dot) (\<lambda>c. node_kind c = Identifier) False (children n)"

definition MemberExpression_memberText :: "MemberExpression \<Rightarrow> u16string option" where
  "MemberExpression_memberText n = textOfToken (MemberExpression_memberName n)"

definition SafeMemberExpression_object :: "SafeMemberExpression \<Rightarrow> Expression option" where
  "SafeMemberExpression_object n = firstExpressionChild n"

definition SafeMemberExpression_memberName :: "SafeMemberExpression \<Rightarrow> SyntaxNode option" where
  "SafeMemberExpression_memberName n = findAfter (\<lambda>c. node_kind c = QuestionDot) (\<lambda>c. node_kind c = Identifier) False (children n)"

definition SafeMemberExpression_memberText :: "SafeMemberExpression \<Rightarrow> u16string option" where
  "SafeMemberExpression_memberText n = textOfToken (SafeMemberExpression_memberName n)"

definition SubscriptExpression_object :: "SubscriptExpression \<Rightarrow> Expression option" where
  "SubscriptExpression_object n = firstExpressionChild n"

definition SubscriptExpression_index :: "SubscriptExpression \<Rightarrow> Expression option" where
  "SubscriptExpression_index n = expressionAt 1 n"

definition SafeSubscriptExpression_object :: "SafeSubscriptExpression \<Rightarrow> Expression option" where
  "SafeSubscriptExpression_object n = firstExpressionChild n"

definition SafeSubscriptExpression_index :: "SafeSubscriptExpression \<Rightarrow> Expression option" where
  "SafeSubscriptExpression_index n = expressionAt 1 n"

definition CastExpression_source :: "CastExpression \<Rightarrow> Expression option" where
  "CastExpression_source n = firstExpressionChild n"

definition CastExpression_targetType :: "CastExpression \<Rightarrow> TypeReference option" where
  "CastExpression_targetType n = firstFound TypeReference_cast (children n)"

definition CheckedCastExpression_source :: "CheckedCastExpression \<Rightarrow> Expression option" where
  "CheckedCastExpression_source n = firstExpressionChild n"

definition CheckedCastExpression_targetType :: "CheckedCastExpression \<Rightarrow> TypeReference option" where
  "CheckedCastExpression_targetType n = firstFound TypeReference_cast (children n)"

definition TypeTestExpression_operand :: "TypeTestExpression \<Rightarrow> Expression option" where
  "TypeTestExpression_operand n = firstExpressionChild n"

definition TypeTestExpression_targetType :: "TypeTestExpression \<Rightarrow> TypeReference option" where
  "TypeTestExpression_targetType n = firstFound TypeReference_cast (children n)"

definition AssignExpression_target :: "AssignExpression \<Rightarrow> Expression option" where
  "AssignExpression_target n = firstExpressionChild n"

definition AssignExpression_value :: "AssignExpression \<Rightarrow> Expression option" where
  "AssignExpression_value n = expressionAt 1 n"

definition AssignExpression_operatorToken :: "AssignExpression \<Rightarrow> SyntaxNode option" where
  "AssignExpression_operatorToken n = operatorBetween False (children n)"

definition TernaryExpression_condition :: "TernaryExpression \<Rightarrow> Expression option" where
  "TernaryExpression_condition n = firstExpressionChild n"

definition TernaryExpression_thenBranch :: "TernaryExpression \<Rightarrow> Expression option" where
  "TernaryExpression_thenBranch n = expressionAt 1 n"

definition TernaryExpression_elseBranch :: "TernaryExpression \<Rightarrow> Expression option" where
  "TernaryExpression_elseBranch n = expressionAt 2 n"

definition NewExpression_typeReference :: "NewExpression \<Rightarrow> TypeReference option" where
  "NewExpression_typeReference n = (case firstTypeChild n of Some tr \<Rightarrow> TypeReference_cast tr | None \<Rightarrow> None)"

definition NewExpression_typeName :: "NewExpression \<Rightarrow> SyntaxNode option" where
  "NewExpression_typeName n = (case NewExpression_typeReference n of Some tr \<Rightarrow> TypeReference_nameToken tr | None \<Rightarrow> None)"

definition NewExpression_typeNameText :: "NewExpression \<Rightarrow> u16string option" where
  "NewExpression_typeNameText n = (case NewExpression_typeReference n of Some tr \<Rightarrow> TypeReference_nameText tr | None \<Rightarrow> None)"

definition NewExpression_argumentList :: "NewExpression \<Rightarrow> ArgumentList option" where
  "NewExpression_argumentList n = (case firstChildNode n ArgList of None \<Rightarrow> None | Some a \<Rightarrow> ArgumentList_cast a)"

definition NewExpression_arguments :: "NewExpression \<Rightarrow> Expression list" where
  "NewExpression_arguments n = (case NewExpression_argumentList n of Some al \<Rightarrow> ArgumentList_arguments al | None \<Rightarrow> [])"

definition NewExpression_isArrayNew :: "NewExpression \<Rightarrow> bool" where
  "NewExpression_isArrayNew n = (case find (\<lambda>c. \<not> isTrivia (node_kind c) \<and> node_kind c \<in> {LBracket, ArgList}) (children n) of
     Some c \<Rightarrow> node_kind c = LBracket | None \<Rightarrow> False)"

text \<open>The loops of \<open>arraySizeExpressions\<close>, with \<open>expectingSize\<close>, and \<open>arrayUnsizedTrailingCount\<close>, with \<open>prev\<close>.\<close>

fun sizesLoop :: "bool \<Rightarrow> SyntaxNode list \<Rightarrow> Expression list" where
  "sizesLoop expecting [] = []"
| "sizesLoop expecting (c # cs) =
     (if isTrivia (node_kind c) then sizesLoop expecting cs
      else if node_kind c = LBracket then sizesLoop True cs
      else if node_kind c = RBracket then sizesLoop False cs
      else if expecting then
        (case Expression_cast c of Some e \<Rightarrow> e # sizesLoop False cs | None \<Rightarrow> sizesLoop expecting cs)
      else sizesLoop expecting cs)"

fun unsizedLoop :: "SyntaxKind \<Rightarrow> SyntaxNode list \<Rightarrow> nat" where
  "unsizedLoop prev [] = 0"
| "unsizedLoop prev (c # cs) =
     (if isTrivia (node_kind c) then unsizedLoop prev cs
      else (if prev = LBracket \<and> node_kind c = RBracket then 1 else 0) + unsizedLoop (node_kind c) cs)"

definition NewExpression_arraySizeExpressions :: "NewExpression \<Rightarrow> Expression list" where
  "NewExpression_arraySizeExpressions n = (if \<not> NewExpression_isArrayNew n then [] else sizesLoop False (children n))"

definition NewExpression_arrayUnsizedTrailingCount :: "NewExpression \<Rightarrow> nat" where
  "NewExpression_arrayUnsizedTrailingCount n = (if \<not> NewExpression_isArrayNew n then 0 else unsizedLoop Invalid (children n))"

definition ParenExpression_inner :: "ParenExpression \<Rightarrow> Expression option" where
  "ParenExpression_inner n = firstExpressionChild n"

definition ArrayLiteralExpression_elements :: "ArrayLiteralExpression \<Rightarrow> Expression list" where
  "ArrayLiteralExpression_elements n = expressionChildren n"

definition StructLiteralField_nameToken :: "StructLiteralField \<Rightarrow> SyntaxNode option" where
  "StructLiteralField_nameToken n = find (\<lambda>c. \<not> isTrivia (node_kind c) \<and> node_kind c = Identifier) (children n)"

definition StructLiteralField_nameText :: "StructLiteralField \<Rightarrow> u16string option" where
  "StructLiteralField_nameText n = textOfToken (StructLiteralField_nameToken n)"

definition StructLiteralField_value :: "StructLiteralField \<Rightarrow> Expression option" where
  "StructLiteralField_value n = firstExpressionChild n"

definition StructLiteralExpression_fields :: "StructLiteralExpression \<Rightarrow> StructLiteralField list" where
  "StructLiteralExpression_fields n = List.map_filter StructLiteralField_cast (children n)"

definition InterpStringExpression_parts :: "InterpStringExpression \<Rightarrow> SyntaxNode list" where
  "InterpStringExpression_parts n = filter (\<lambda>c. node_kind c \<in> {InterpStringStart, InterpStringMid, InterpStringEnd}) (children n)"

definition InterpStringExpression_holes :: "InterpStringExpression \<Rightarrow> Expression list" where
  "InterpStringExpression_holes n = expressionChildren n"

definition OutArgument_identifier :: "OutArgument \<Rightarrow> SyntaxNode option" where
  "OutArgument_identifier n = find (\<lambda>c. \<not> isTrivia (node_kind c) \<and> node_kind c = Identifier) (children n)"

definition OutArgument_nameText :: "OutArgument \<Rightarrow> u16string option" where
  "OutArgument_nameText n = textOfToken (OutArgument_identifier n)"

definition NamedArgument_identifier :: "NamedArgument \<Rightarrow> SyntaxNode option" where
  "NamedArgument_identifier n = find (\<lambda>c. \<not> isTrivia (node_kind c) \<and> node_kind c = Identifier) (children n)"

definition NamedArgument_nameText :: "NamedArgument \<Rightarrow> u16string option" where
  "NamedArgument_nameText n = textOfToken (NamedArgument_identifier n)"

definition NamedArgument_value :: "NamedArgument \<Rightarrow> Expression option" where
  "NamedArgument_value n = firstExpressionChild n"

definition TryExpression_operand :: "TryExpression \<Rightarrow> Expression option" where
  "TryExpression_operand n = firstExpressionChild n"

definition SwitchArm_isDefault :: "SwitchArm \<Rightarrow> bool" where
  "SwitchArm_isDefault n = (firstChildNode n KwDefault \<noteq> None)"

definition SwitchArm_isTypeArm :: "SwitchArm \<Rightarrow> bool" where
  "SwitchArm_isTypeArm n = list_ex (\<lambda>c. node_kind c = KwIs) (beforeArrow n)"

definition SwitchArm_typeReference :: "SwitchArm \<Rightarrow> TypeReference option" where
  "SwitchArm_typeReference n = firstFound TypeReference_cast (beforeArrow n)"

definition SwitchArm_bindingNameToken :: "SwitchArm \<Rightarrow> SyntaxNode option" where
  "SwitchArm_bindingNameToken n = find (\<lambda>c. node_kind c = Identifier) (beforeArrow n)"

definition SwitchArm_bindingNameText :: "SwitchArm \<Rightarrow> u16string option" where
  "SwitchArm_bindingNameText n = textOfToken (SwitchArm_bindingNameToken n)"

definition SwitchArm_labels :: "SwitchArm \<Rightarrow> Expression list" where
  "SwitchArm_labels n = List.map_filter Expression_cast (beforeArrow n)"

definition SwitchArm_bodyExpr :: "SwitchArm \<Rightarrow> Expression option" where
  "SwitchArm_bodyExpr n = firstFound Expression_cast (afterArrow n)"

definition SwitchArm_bodyBlockNode :: "SwitchArm \<Rightarrow> SyntaxNode option" where
  "SwitchArm_bodyBlockNode n = find (\<lambda>c. node_kind c = Block) (afterArrow n)"

definition SwitchExpression_scrutinee :: "SwitchExpression \<Rightarrow> Expression option" where
  "SwitchExpression_scrutinee n = firstExpressionChild n"

definition SwitchExpression_arms :: "SwitchExpression \<Rightarrow> SwitchArm list" where
  "SwitchExpression_arms n = List.map_filter SwitchArm_cast (children n)"

definition LambdaParameter_typeReference :: "LambdaParameter \<Rightarrow> TypeReference option" where
  "LambdaParameter_typeReference n = (case firstTypeChild n of Some tr \<Rightarrow> TypeReference_cast tr | None \<Rightarrow> None)"

definition LambdaParameter_nameToken :: "LambdaParameter \<Rightarrow> SyntaxNode option" where
  "LambdaParameter_nameToken n = find (\<lambda>c. node_kind c = Identifier) (children n)"

definition LambdaParameter_nameText :: "LambdaParameter \<Rightarrow> u16string option" where
  "LambdaParameter_nameText n = textOfToken (LambdaParameter_nameToken n)"

definition LambdaExpression_parameters :: "LambdaExpression \<Rightarrow> LambdaParameter list" where
  "LambdaExpression_parameters n = List.map_filter LambdaParameter_cast (children n)"

definition LambdaExpression_bodyExpr :: "LambdaExpression \<Rightarrow> Expression option" where
  "LambdaExpression_bodyExpr n = firstExpressionChild n"

definition LambdaExpression_bodyBlockNode :: "LambdaExpression \<Rightarrow> SyntaxNode option" where
  "LambdaExpression_bodyBlockNode n = firstChildNode n Block"

section \<open>Answers lie below\<close>

lemma Expression_cast_Some [simp]: "Expression_cast n = Some e \<longleftrightarrow> e = n \<and> isExpressionKind (node_kind n)"
  by (auto simp: Expression_cast_def)

lemma firstExpressionChild_below [below_dests]: "firstExpressionChild n = Some e \<Longrightarrow> below e n"
  by (auto simp: firstExpressionChild_def dest!: firstFound_below intro: children_below)

lemma expressionChildren_below [below_dests]: "e \<in> set (expressionChildren n) \<Longrightarrow> below e n"
  by (auto simp: expressionChildren_def dest!: map_filter_cast intro: children_below)

lemma expressionAt_below [below_dests]: "expressionAt i n = Some e \<Longrightarrow> below e n"
  by (auto simp: expressionAt_def Let_def split: if_splits intro: expressionChildren_below)

lemma sizesLoop_below: "e \<in> set (sizesLoop b cs) \<Longrightarrow> e \<in> set cs"
  by (induction b cs rule: sizesLoop.induct) (auto split: if_splits option.splits)

lemma arraySizes_below [below_dests]: "e \<in> set (NewExpression_arraySizeExpressions n) \<Longrightarrow> below e n"
  by (auto simp: NewExpression_arraySizeExpressions_def split: if_splits dest!: sizesLoop_below intro: children_below)

lemma argumentList_below:
  "CallExpression_argumentList n = Some a \<Longrightarrow> below a n" "NewExpression_argumentList n = Some a \<Longrightarrow> below a n"
  by (auto simp: CallExpression_argumentList_def NewExpression_argumentList_def ArgumentList_cast_def
      split: option.splits dest: firstChildNode_below)

lemma arguments_below [below_dests]:
  "e \<in> set (CallExpression_arguments n) \<Longrightarrow> below e n" "e \<in> set (NewExpression_arguments n) \<Longrightarrow> below e n"
  by (cases "CallExpression_argumentList n"; cases "NewExpression_argumentList n";
      auto simp: CallExpression_arguments_def NewExpression_arguments_def ArgumentList_arguments_def
        dest!: argumentList_below expressionChildren_below intro: below_trans)+

lemma fields_below [below_dests]: "f \<in> set (StructLiteralExpression_fields n) \<Longrightarrow> below f n"
  by (auto simp: StructLiteralExpression_fields_def StructLiteralField_cast_def dest!: map_filter_cast intro: children_below)

lemma arms_below [below_dests]: "a \<in> set (SwitchExpression_arms n) \<Longrightarrow> below a n"
  by (auto simp: SwitchExpression_arms_def SwitchArm_cast_def dest!: map_filter_cast intro: children_below)

lemma arm_below [below_dests]:
  "SwitchArm_bodyExpr n = Some e \<Longrightarrow> below e n" "SwitchArm_bodyBlockNode n = Some b \<Longrightarrow> below b n"
  by (auto simp: SwitchArm_bodyExpr_def SwitchArm_bodyBlockNode_def dest!: firstFound_below find_below
      intro: afterArrow_below)

end
