(* ===== verification/AstStatements.thy ===== *)
theory AstStatements
  imports AstExpressions
begin

text \<open>
  The typed views of statements: \<open>ast/Statement.h\<close> and \<open>ast/Statement.cpp\<close>.
\<close>

section \<open>The views and their casts\<close>

type_synonym Statement = SyntaxNode
type_synonym ElseClause = SyntaxNode
type_synonym Block = SyntaxNode
type_synonym LetStatement = SyntaxNode
type_synonym TypedVarDeclStatement = SyntaxNode
type_synonym IfStatement = SyntaxNode
type_synonym WhileStatement = SyntaxNode
type_synonym ForStatement = SyntaxNode
type_synonym ForEachStatement = SyntaxNode
type_synonym BreakStatement = SyntaxNode
type_synonym ContinueStatement = SyntaxNode
type_synonym ReturnStatement = SyntaxNode
type_synonym ExpressionStatement = SyntaxNode
type_synonym ThrowStatement = SyntaxNode
type_synonym RethrowStatement = SyntaxNode
type_synonym SwitchStatement = SyntaxNode

definition isStatementKind :: "SyntaxKind \<Rightarrow> bool" where
  "isStatementKind k = (k \<in> {Block, LetStmt, TypedVarDecl, IfStmt, WhileStmt, ForStmt, ForEachStmt,
      BreakStmt, ContinueStmt, ReturnStmt, ExprStmt, ThrowStmt, RethrowStmt, SwitchStmt})"

definition Statement_cast :: "SyntaxNode \<Rightarrow> Statement option" where
  "Statement_cast n = (if \<not> isStatementKind (node_kind n) then None else Some n)"

definition Statement_kind :: "Statement \<Rightarrow> SyntaxKind" where
  "Statement_kind s = node_kind s"

definition Block_cast :: "SyntaxNode \<Rightarrow> Block option" where
  "Block_cast n = castTo Block n"

definition LetStatement_cast :: "SyntaxNode \<Rightarrow> LetStatement option" where
  "LetStatement_cast n = castTo LetStmt n"

definition TypedVarDeclStatement_cast :: "SyntaxNode \<Rightarrow> TypedVarDeclStatement option" where
  "TypedVarDeclStatement_cast n = castTo TypedVarDecl n"

definition IfStatement_cast :: "SyntaxNode \<Rightarrow> IfStatement option" where
  "IfStatement_cast n = castTo IfStmt n"

definition WhileStatement_cast :: "SyntaxNode \<Rightarrow> WhileStatement option" where
  "WhileStatement_cast n = castTo WhileStmt n"

definition ForStatement_cast :: "SyntaxNode \<Rightarrow> ForStatement option" where
  "ForStatement_cast n = castTo ForStmt n"

definition ForEachStatement_cast :: "SyntaxNode \<Rightarrow> ForEachStatement option" where
  "ForEachStatement_cast n = castTo ForEachStmt n"

definition BreakStatement_cast :: "SyntaxNode \<Rightarrow> BreakStatement option" where
  "BreakStatement_cast n = castTo BreakStmt n"

definition ContinueStatement_cast :: "SyntaxNode \<Rightarrow> ContinueStatement option" where
  "ContinueStatement_cast n = castTo ContinueStmt n"

definition ReturnStatement_cast :: "SyntaxNode \<Rightarrow> ReturnStatement option" where
  "ReturnStatement_cast n = castTo ReturnStmt n"

definition ExpressionStatement_cast :: "SyntaxNode \<Rightarrow> ExpressionStatement option" where
  "ExpressionStatement_cast n = castTo ExprStmt n"

definition ThrowStatement_cast :: "SyntaxNode \<Rightarrow> ThrowStatement option" where
  "ThrowStatement_cast n = castTo ThrowStmt n"

definition RethrowStatement_cast :: "SyntaxNode \<Rightarrow> RethrowStatement option" where
  "RethrowStatement_cast n = castTo RethrowStmt n"

definition SwitchStatement_cast :: "SyntaxNode \<Rightarrow> SwitchStatement option" where
  "SwitchStatement_cast n = castTo SwitchStmt n"

definition ElseClause_cast :: "SyntaxNode \<Rightarrow> ElseClause option" where
  "ElseClause_cast n = castTo ElseClause n"

definition Statement_asBlock :: "Statement \<Rightarrow> Block option" where
  "Statement_asBlock s = Block_cast s"

definition Statement_asLet :: "Statement \<Rightarrow> LetStatement option" where
  "Statement_asLet s = LetStatement_cast s"

definition Statement_asTypedVarDecl :: "Statement \<Rightarrow> TypedVarDeclStatement option" where
  "Statement_asTypedVarDecl s = TypedVarDeclStatement_cast s"

definition Statement_asIf :: "Statement \<Rightarrow> IfStatement option" where
  "Statement_asIf s = IfStatement_cast s"

definition Statement_asWhile :: "Statement \<Rightarrow> WhileStatement option" where
  "Statement_asWhile s = WhileStatement_cast s"

definition Statement_asFor :: "Statement \<Rightarrow> ForStatement option" where
  "Statement_asFor s = ForStatement_cast s"

definition Statement_asForEach :: "Statement \<Rightarrow> ForEachStatement option" where
  "Statement_asForEach s = ForEachStatement_cast s"

definition Statement_asBreak :: "Statement \<Rightarrow> BreakStatement option" where
  "Statement_asBreak s = BreakStatement_cast s"

definition Statement_asContinue :: "Statement \<Rightarrow> ContinueStatement option" where
  "Statement_asContinue s = ContinueStatement_cast s"

definition Statement_asReturn :: "Statement \<Rightarrow> ReturnStatement option" where
  "Statement_asReturn s = ReturnStatement_cast s"

definition Statement_asExpressionStmt :: "Statement \<Rightarrow> ExpressionStatement option" where
  "Statement_asExpressionStmt s = ExpressionStatement_cast s"

definition Statement_asThrow :: "Statement \<Rightarrow> ThrowStatement option" where
  "Statement_asThrow s = ThrowStatement_cast s"

definition Statement_asRethrow :: "Statement \<Rightarrow> RethrowStatement option" where
  "Statement_asRethrow s = RethrowStatement_cast s"

definition Statement_asSwitch :: "Statement \<Rightarrow> SwitchStatement option" where
  "Statement_asSwitch s = SwitchStatement_cast s"

section \<open>Member functions\<close>

definition Block_statements :: "Block \<Rightarrow> Statement list" where
  "Block_statements n = List.map_filter Statement_cast (children n)"

definition LetStatement_nameToken :: "LetStatement \<Rightarrow> SyntaxNode option" where
  "LetStatement_nameToken n = firstChildNode n Identifier"

definition LetStatement_nameText :: "LetStatement \<Rightarrow> u16string option" where
  "LetStatement_nameText n = textOfToken (LetStatement_nameToken n)"

definition LetStatement_initializer :: "LetStatement \<Rightarrow> Expression option" where
  "LetStatement_initializer n = firstFound Expression_cast (children n)"

definition LetStatement_isConst :: "LetStatement \<Rightarrow> bool" where
  "LetStatement_isConst n = (firstChildNode n KwConst \<noteq> None)"

definition TypedVarDeclStatement_typeReference :: "TypedVarDeclStatement \<Rightarrow> TypeReference option" where
  "TypedVarDeclStatement_typeReference n = (case firstTypeChild n of Some tr \<Rightarrow> TypeReference_cast tr | None \<Rightarrow> None)"

definition TypedVarDeclStatement_nameToken :: "TypedVarDeclStatement \<Rightarrow> SyntaxNode option" where
  "TypedVarDeclStatement_nameToken n = findAfter (\<lambda>c. isTypeNode (node_kind c)) (\<lambda>c. node_kind c = Identifier) False (children n)"

definition TypedVarDeclStatement_nameText :: "TypedVarDeclStatement \<Rightarrow> u16string option" where
  "TypedVarDeclStatement_nameText n = textOfToken (TypedVarDeclStatement_nameToken n)"

definition TypedVarDeclStatement_initializer :: "TypedVarDeclStatement \<Rightarrow> Expression option" where
  "TypedVarDeclStatement_initializer n = firstFound Expression_cast (children n)"

definition TypedVarDeclStatement_isConst :: "TypedVarDeclStatement \<Rightarrow> bool" where
  "TypedVarDeclStatement_isConst n = (firstChildNode n KwConst \<noteq> None)"

definition IfStatement_condition :: "IfStatement \<Rightarrow> Expression option" where
  "IfStatement_condition n = firstFound Expression_cast (children n)"

definition IfStatement_thenBlock :: "IfStatement \<Rightarrow> Block option" where
  "IfStatement_thenBlock n = (case firstChildNode n Block of Some b \<Rightarrow> Block_cast b | None \<Rightarrow> None)"

definition IfStatement_elseClause :: "IfStatement \<Rightarrow> ElseClause option" where
  "IfStatement_elseClause n = (case firstChildNode n ElseClause of Some b \<Rightarrow> ElseClause_cast b | None \<Rightarrow> None)"

definition ElseClause_block :: "ElseClause \<Rightarrow> Block option" where
  "ElseClause_block n = (case firstChildNode n Block of Some b \<Rightarrow> Block_cast b | None \<Rightarrow> None)"

definition ElseClause_ifStatement :: "ElseClause \<Rightarrow> IfStatement option" where
  "ElseClause_ifStatement n = (case firstChildNode n IfStmt of Some b \<Rightarrow> IfStatement_cast b | None \<Rightarrow> None)"

definition WhileStatement_condition :: "WhileStatement \<Rightarrow> Expression option" where
  "WhileStatement_condition n = firstFound Expression_cast (children n)"

definition WhileStatement_body :: "WhileStatement \<Rightarrow> Block option" where
  "WhileStatement_body n = (case firstChildNode n Block of Some b \<Rightarrow> Block_cast b | None \<Rightarrow> None)"

definition ForStatement_init :: "ForStatement \<Rightarrow> Statement option" where
  "ForStatement_init n = (case find (\<lambda>c. node_kind c \<in> {LetStmt, TypedVarDecl, ExprStmt}) (children n) of
     Some c \<Rightarrow> Statement_cast c | None \<Rightarrow> None)"

definition ForStatement_condition :: "ForStatement \<Rightarrow> Expression option" where
  "ForStatement_condition n = firstFound Expression_cast (children n)"

definition ForStatement_update :: "ForStatement \<Rightarrow> Expression option" where
  "ForStatement_update n = (case firstChildNode n ForUpdate of Some fu \<Rightarrow> firstFound Expression_cast (children fu) | None \<Rightarrow> None)"

definition ForStatement_body :: "ForStatement \<Rightarrow> Block option" where
  "ForStatement_body n = (case firstChildNode n Block of Some b \<Rightarrow> Block_cast b | None \<Rightarrow> None)"

definition ForEachStatement_elementTypeRef :: "ForEachStatement \<Rightarrow> TypeReference option" where
  "ForEachStatement_elementTypeRef n = (case firstTypeChild n of Some tr \<Rightarrow> TypeReference_cast tr | None \<Rightarrow> None)"

definition ForEachStatement_isLet :: "ForEachStatement \<Rightarrow> bool" where
  "ForEachStatement_isLet n = (firstChildNode n KwLet \<noteq> None)"

definition ForEachStatement_isConst :: "ForEachStatement \<Rightarrow> bool" where
  "ForEachStatement_isConst n = (firstChildNode n KwConst \<noteq> None)"

definition ForEachStatement_elementNameToken :: "ForEachStatement \<Rightarrow> SyntaxNode option" where
  "ForEachStatement_elementNameToken n = firstChildNode n Identifier"

definition ForEachStatement_elementNameText :: "ForEachStatement \<Rightarrow> u16string option" where
  "ForEachStatement_elementNameText n = textOfToken (ForEachStatement_elementNameToken n)"

definition ForEachStatement_iterable :: "ForEachStatement \<Rightarrow> Expression option" where
  "ForEachStatement_iterable n = firstFound Expression_cast (children n)"

definition ForEachStatement_body :: "ForEachStatement \<Rightarrow> Block option" where
  "ForEachStatement_body n = (case firstChildNode n Block of Some b \<Rightarrow> Block_cast b | None \<Rightarrow> None)"

definition ReturnStatement_value :: "ReturnStatement \<Rightarrow> Expression option" where
  "ReturnStatement_value n = firstFound Expression_cast (children n)"

definition ExpressionStatement_expression :: "ExpressionStatement \<Rightarrow> Expression option" where
  "ExpressionStatement_expression n = firstFound Expression_cast (children n)"

definition ThrowStatement_value :: "ThrowStatement \<Rightarrow> Expression option" where
  "ThrowStatement_value n = firstFound Expression_cast (children n)"

definition SwitchStatement_scrutinee :: "SwitchStatement \<Rightarrow> Expression option" where
  "SwitchStatement_scrutinee n = firstFound Expression_cast (children n)"

definition SwitchStatement_arms :: "SwitchStatement \<Rightarrow> SwitchArm list" where
  "SwitchStatement_arms n = List.map_filter SwitchArm_cast (children n)"

section \<open>Answers lie below\<close>

lemma Statement_cast_Some [simp]: "Statement_cast n = Some s \<longleftrightarrow> s = n \<and> isStatementKind (node_kind n)"
  by (auto simp: Statement_cast_def)

lemmas optional_child_defs = LetStatement_initializer_def TypedVarDeclStatement_initializer_def IfStatement_condition_def
  WhileStatement_condition_def ForStatement_condition_def ForEachStatement_iterable_def ReturnStatement_value_def
  ExpressionStatement_expression_def ThrowStatement_value_def SwitchStatement_scrutinee_def

lemma optional_expression_below [below_dests]:
  "LetStatement_initializer n = Some e \<Longrightarrow> below e n" "TypedVarDeclStatement_initializer n = Some e \<Longrightarrow> below e n"
  "IfStatement_condition n = Some e \<Longrightarrow> below e n" "WhileStatement_condition n = Some e \<Longrightarrow> below e n"
  "ForStatement_condition n = Some e \<Longrightarrow> below e n" "ForEachStatement_iterable n = Some e \<Longrightarrow> below e n"
  "ReturnStatement_value n = Some e \<Longrightarrow> below e n" "ExpressionStatement_expression n = Some e \<Longrightarrow> below e n"
  "ThrowStatement_value n = Some e \<Longrightarrow> below e n" "SwitchStatement_scrutinee n = Some e \<Longrightarrow> below e n"
  by (auto simp: optional_child_defs dest!: firstFound_below intro: children_below)

lemma ForStatement_update_below [below_dests]: "ForStatement_update n = Some e \<Longrightarrow> below e n"
  by (auto simp: ForStatement_update_def dest!: firstFound_below firstChildNode_below children_below
      split: option.split_asm intro: below_trans)

lemma ForStatement_init_below [below_dests]: "ForStatement_init n = Some s \<Longrightarrow> below s n"
  by (auto simp: ForStatement_init_def dest!: find_below intro: children_below split: option.split_asm)

lemma block_below [below_dests]:
  "IfStatement_thenBlock n = Some b \<Longrightarrow> below b n" "IfStatement_elseClause n = Some ec \<Longrightarrow> below ec n"
  "ElseClause_block n = Some b \<Longrightarrow> below b n" "ElseClause_ifStatement n = Some i \<Longrightarrow> below i n"
  "WhileStatement_body n = Some b \<Longrightarrow> below b n" "ForStatement_body n = Some b \<Longrightarrow> below b n"
  "ForEachStatement_body n = Some b \<Longrightarrow> below b n"
  by (auto simp: IfStatement_thenBlock_def IfStatement_elseClause_def ElseClause_block_def ElseClause_ifStatement_def
      WhileStatement_body_def ForStatement_body_def ForEachStatement_body_def Block_cast_def ElseClause_cast_def
      IfStatement_cast_def split: option.split_asm intro: firstChildNode_below)

lemma statements_below [below_dests]: "s \<in> set (Block_statements n) \<Longrightarrow> below s n"
  by (auto simp: Block_statements_def dest!: map_filter_cast intro: children_below)

lemma switch_arms_below [below_dests]: "a \<in> set (SwitchStatement_arms n) \<Longrightarrow> below a n"
  by (auto simp: SwitchStatement_arms_def SwitchArm_cast_def dest!: map_filter_cast intro: children_below)

section \<open>Parts of expressions\<close>

lemma expression_parts_below [below_dests]:
  "ParenExpression_inner n = Some e \<Longrightarrow> below e n" "CheckedCastExpression_source n = Some e \<Longrightarrow> below e n"
  "CastExpression_source n = Some e \<Longrightarrow> below e n" "TypeTestExpression_operand n = Some e \<Longrightarrow> below e n"
  "MemberExpression_object n = Some e \<Longrightarrow> below e n" "SafeMemberExpression_object n = Some e \<Longrightarrow> below e n"
  "SubscriptExpression_object n = Some e \<Longrightarrow> below e n" "SafeSubscriptExpression_object n = Some e \<Longrightarrow> below e n"
  "BinaryExpression_left n = Some e \<Longrightarrow> below e n" "TernaryExpression_condition n = Some e \<Longrightarrow> below e n"
  "NullCoalesceExpression_left n = Some e \<Longrightarrow> below e n" "AssignExpression_target n = Some e \<Longrightarrow> below e n"
  "PrefixExpression_operand n = Some e \<Longrightarrow> below e n" "PostfixExpression_operand n = Some e \<Longrightarrow> below e n"
  "NamedArgument_value n = Some e \<Longrightarrow> below e n" "TryExpression_operand n = Some e \<Longrightarrow> below e n"
  "SwitchExpression_scrutinee n = Some e \<Longrightarrow> below e n" "StructLiteralField_value n = Some e \<Longrightarrow> below e n"
  "CallExpression_callee n = Some e \<Longrightarrow> below e n" "SubscriptExpression_index n = Some e \<Longrightarrow> below e n"
  "SafeSubscriptExpression_index n = Some e \<Longrightarrow> below e n" "BinaryExpression_right n = Some e \<Longrightarrow> below e n"
  "TernaryExpression_thenBranch n = Some e \<Longrightarrow> below e n" "TernaryExpression_elseBranch n = Some e \<Longrightarrow> below e n"
  "NullCoalesceExpression_right n = Some e \<Longrightarrow> below e n" "AssignExpression_value n = Some e \<Longrightarrow> below e n"
  "e \<in> set (ArrayLiteralExpression_elements n) \<Longrightarrow> below e n" "e \<in> set (InterpStringExpression_holes n) \<Longrightarrow> below e n"
  by (simp_all add: below_dests ParenExpression_inner_def CheckedCastExpression_source_def CastExpression_source_def 
      TypeTestExpression_operand_def MemberExpression_object_def SafeMemberExpression_object_def 
      SubscriptExpression_object_def SafeSubscriptExpression_object_def BinaryExpression_left_def 
      TernaryExpression_condition_def NullCoalesceExpression_left_def AssignExpression_target_def 
      PrefixExpression_operand_def PostfixExpression_operand_def NamedArgument_value_def 
      TryExpression_operand_def SwitchExpression_scrutinee_def StructLiteralField_value_def 
      CallExpression_callee_def SubscriptExpression_index_def SafeSubscriptExpression_index_def 
      BinaryExpression_right_def TernaryExpression_thenBranch_def TernaryExpression_elseBranch_def 
      NullCoalesceExpression_right_def AssignExpression_value_def ArrayLiteralExpression_elements_def 
      InterpStringExpression_holes_def)

lemma enumerate_member: "x \<in> set (enumerate n xs) \<Longrightarrow> (i, y) = x \<Longrightarrow> y \<in> set xs"
  by (auto simp: enumerate_eq_zip dest: set_zip_rightD)

lemma arm_body_below: "arm \<in> set (SwitchExpression_arms e) \<Longrightarrow> SwitchArm_bodyExpr arm = Some x \<Longrightarrow> below x e"
  by (blast dest: below_dests intro: below_trans)

text \<open>The walks count twice, so that a node may be visited first as one thing and then as another.\<close>

lemma scanned_below:
  "below x y \<Longrightarrow> 2 * size (green x) < 2 * size (green y) + 1" "below x y \<Longrightarrow> 2 * size (green x) < 2 * size (green y)"
  "below x y \<Longrightarrow> 2 * size (green x) + 1 < 2 * size (green y)"
  "below x y \<Longrightarrow> 2 * size (green x) + 1 < 2 * size (green y) + 1"
  by (simp_all add: below_def)

end
