(* ===== verification/AstDeclarations.thy ===== *)
theory AstDeclarations
  imports AstStatements Literals
begin

text \<open>
  The typed views of declarations: \<open>ast/Declaration.h\<close> and \<open>ast/Declaration.cpp\<close>. The class \<open>SourceFile\<close> of
  namespace \<open>ast\<close> is \<open>SourceFileView\<close> here, and its enumeration \<open>Visibility\<close> is \<open>DeclVisibility\<close>.
\<close>

section \<open>The views and their casts\<close>

type_synonym VisibilityModifier = SyntaxNode
type_synonym TypeParam = SyntaxNode
type_synonym TypeParamList = SyntaxNode
type_synonym ReturnType = SyntaxNode
type_synonym ThrowsClause = SyntaxNode
type_synonym CatchClause = SyntaxNode
type_synonym DefaultValue = SyntaxNode
type_synonym Parameter = SyntaxNode
type_synonym ParameterList = SyntaxNode
type_synonym FuncDecl = SyntaxNode
type_synonym FieldDecl = SyntaxNode
type_synonym MemberList = SyntaxNode
type_synonym StructDecl = SyntaxNode
type_synonym ImplementsClause = SyntaxNode
type_synonym ClassDecl = SyntaxNode
type_synonym InterfaceDecl = SyntaxNode
type_synonym PrimitiveDecl = SyntaxNode
type_synonym ImportPath = SyntaxNode
type_synonym ImportDecl = SyntaxNode
type_synonym ExternalTypeDecl = SyntaxNode
type_synonym ExternalFuncDecl = SyntaxNode
type_synonym ExternalBlock = SyntaxNode
type_synonym EnumMember = SyntaxNode
type_synonym EnumDecl = SyntaxNode
type_synonym TestDecl = SyntaxNode
type_synonym SourceFileView = SyntaxNode

definition VisibilityModifier_cast :: "SyntaxNode \<Rightarrow> VisibilityModifier option" where
  "VisibilityModifier_cast n = castTo VisibilityModifier n"

definition TypeParam_cast :: "SyntaxNode \<Rightarrow> TypeParam option" where
  "TypeParam_cast n = castTo TypeParam n"

definition TypeParamList_cast :: "SyntaxNode \<Rightarrow> TypeParamList option" where
  "TypeParamList_cast n = castTo TypeParamList n"

definition ReturnType_cast :: "SyntaxNode \<Rightarrow> ReturnType option" where
  "ReturnType_cast n = castTo ReturnType n"

definition ThrowsClause_cast :: "SyntaxNode \<Rightarrow> ThrowsClause option" where
  "ThrowsClause_cast n = castTo ThrowsClause n"

definition CatchClause_cast :: "SyntaxNode \<Rightarrow> CatchClause option" where
  "CatchClause_cast n = castTo CatchClause n"

definition DefaultValue_cast :: "SyntaxNode \<Rightarrow> DefaultValue option" where
  "DefaultValue_cast n = castTo DefaultValue n"

definition Parameter_cast :: "SyntaxNode \<Rightarrow> Parameter option" where
  "Parameter_cast n = castTo Parameter n"

definition ParameterList_cast :: "SyntaxNode \<Rightarrow> ParameterList option" where
  "ParameterList_cast n = castTo ParamList n"

definition FuncDecl_cast :: "SyntaxNode \<Rightarrow> FuncDecl option" where
  "FuncDecl_cast n = castTo FuncDecl n"

definition FieldDecl_cast :: "SyntaxNode \<Rightarrow> FieldDecl option" where
  "FieldDecl_cast n = castTo FieldDecl n"

definition MemberList_cast :: "SyntaxNode \<Rightarrow> MemberList option" where
  "MemberList_cast n = castTo MemberList n"

definition StructDecl_cast :: "SyntaxNode \<Rightarrow> StructDecl option" where
  "StructDecl_cast n = castTo StructDecl n"

definition ImplementsClause_cast :: "SyntaxNode \<Rightarrow> ImplementsClause option" where
  "ImplementsClause_cast n = castTo ImplementsClause n"

definition ClassDecl_cast :: "SyntaxNode \<Rightarrow> ClassDecl option" where
  "ClassDecl_cast n = castTo ClassDecl n"

definition InterfaceDecl_cast :: "SyntaxNode \<Rightarrow> InterfaceDecl option" where
  "InterfaceDecl_cast n = castTo InterfaceDecl n"

definition PrimitiveDecl_cast :: "SyntaxNode \<Rightarrow> PrimitiveDecl option" where
  "PrimitiveDecl_cast n = castTo PrimitiveDecl n"

definition ImportPath_cast :: "SyntaxNode \<Rightarrow> ImportPath option" where
  "ImportPath_cast n = castTo ImportPath n"

definition ImportDecl_cast :: "SyntaxNode \<Rightarrow> ImportDecl option" where
  "ImportDecl_cast n = castTo ImportDecl n"

definition ExternalTypeDecl_cast :: "SyntaxNode \<Rightarrow> ExternalTypeDecl option" where
  "ExternalTypeDecl_cast n = castTo ExternalTypeDecl n"

definition ExternalFuncDecl_cast :: "SyntaxNode \<Rightarrow> ExternalFuncDecl option" where
  "ExternalFuncDecl_cast n = castTo ExternalFuncDecl n"

definition ExternalBlock_cast :: "SyntaxNode \<Rightarrow> ExternalBlock option" where
  "ExternalBlock_cast n = castTo ExternalBlock n"

definition EnumMember_cast :: "SyntaxNode \<Rightarrow> EnumMember option" where
  "EnumMember_cast n = castTo EnumMember n"

definition EnumDecl_cast :: "SyntaxNode \<Rightarrow> EnumDecl option" where
  "EnumDecl_cast n = castTo EnumDecl n"

definition TestDecl_cast :: "SyntaxNode \<Rightarrow> TestDecl option" where
  "TestDecl_cast n = castTo TestDecl n"

definition SourceFileView_cast :: "SyntaxNode \<Rightarrow> SourceFileView option" where
  "SourceFileView_cast n = castTo SyntaxKinds.SourceFile n"

datatype DeclVisibility = VisPublic | VisPrivate | VisProtected | VisExport

section \<open>What declarations share\<close>

definition VisibilityModifier_visibility :: "VisibilityModifier \<Rightarrow> DeclVisibility" where
  "VisibilityModifier_visibility n = (case firstFound (\<lambda>c.
       if isTrivia (node_kind c) \<or> \<not> node_isToken c then None
       else if node_kind c = KwPrivate then Some VisPrivate
       else if node_kind c = KwProtected then Some VisProtected
       else if node_kind c = KwPublic then Some VisPublic
       else if node_kind c = KwExport then Some VisExport
       else None) (children n) of Some v \<Rightarrow> v | None \<Rightarrow> VisPublic)"

definition visibilityOfDecl :: "SyntaxNode \<Rightarrow> DeclVisibility" where
  "visibilityOfDecl decl = (case firstFound VisibilityModifier_cast (children decl) of
     Some v \<Rightarrow> VisibilityModifier_visibility v | None \<Rightarrow> VisPublic)"

definition visibilityOfDeclNode :: "SyntaxNode \<Rightarrow> VisibilityModifier option" where
  "visibilityOfDeclNode decl = (case firstChildNode decl VisibilityModifier of
     Some v \<Rightarrow> VisibilityModifier_cast v | None \<Rightarrow> None)"

definition firstIdentAfterKeyword :: "SyntaxNode \<Rightarrow> SyntaxKind \<Rightarrow> SyntaxNode option" where
  "firstIdentAfterKeyword decl keyword =
     findAfter (\<lambda>c. node_kind c = keyword) (\<lambda>c. node_kind c = Identifier) False (children decl)"

definition hasDirectToken :: "SyntaxNode \<Rightarrow> SyntaxKind \<Rightarrow> bool" where
  "hasDirectToken decl k = list_ex (\<lambda>c. node_isToken c \<and> node_kind c = k) (children decl)"

definition typeParamListOf :: "SyntaxNode \<Rightarrow> TypeParamList option" where
  "typeParamListOf decl = (case firstChildNode decl TypeParamList of Some n \<Rightarrow> TypeParamList_cast n | None \<Rightarrow> None)"

definition TypeParam_nameToken :: "TypeParam \<Rightarrow> SyntaxNode option" where
  "TypeParam_nameToken n = find (\<lambda>c. \<not> isTrivia (node_kind c) \<and> node_kind c = Identifier) (children n)"

definition TypeParam_nameText :: "TypeParam \<Rightarrow> u16string option" where
  "TypeParam_nameText n = textOfToken (TypeParam_nameToken n)"

definition TypeParam_bound :: "TypeParam \<Rightarrow> TypeReference option" where
  "TypeParam_bound n = (case firstTypeChild n of Some tr \<Rightarrow> TypeReference_cast tr | None \<Rightarrow> None)"

definition TypeParam_bounds :: "TypeParam \<Rightarrow> TypeReference list" where
  "TypeParam_bounds n = List.map_filter TypeReference_cast (children n)"

definition TypeParamList_params :: "TypeParamList \<Rightarrow> TypeParam list" where
  "TypeParamList_params n = List.map_filter TypeParam_cast (children n)"

definition ReturnType_typeReference :: "ReturnType \<Rightarrow> TypeReference option" where
  "ReturnType_typeReference n = (case firstTypeChild n of Some tr \<Rightarrow> TypeReference_cast tr | None \<Rightarrow> None)"

definition DefaultValue_expression :: "DefaultValue \<Rightarrow> Expression option" where
  "DefaultValue_expression n = firstFound Expression_cast (children n)"

section \<open>Parameters\<close>

definition Parameter_isThisField :: "Parameter \<Rightarrow> bool" where
  "Parameter_isThisField n = (case firstNonTrivia n of Some c \<Rightarrow> node_kind c = KwThis | None \<Rightarrow> False)"

definition Parameter_isOut :: "Parameter \<Rightarrow> bool" where
  "Parameter_isOut n = (case firstNonTrivia n of Some c \<Rightarrow> node_kind c = KwOut | None \<Rightarrow> False)"

definition Parameter_nameToken :: "Parameter \<Rightarrow> SyntaxNode option" where
  "Parameter_nameToken n = (if Parameter_isThisField n
     then findAfter (\<lambda>c. node_kind c = Dot) (\<lambda>c. node_kind c = Identifier) False (children n)
     else findAfter (\<lambda>c. isTypeNode (node_kind c)) (\<lambda>c. node_kind c = Identifier) False
       (filter (\<lambda>c. node_kind c \<noteq> KwOut) (children n)))"

definition Parameter_nameText :: "Parameter \<Rightarrow> u16string option" where
  "Parameter_nameText n = textOfToken (Parameter_nameToken n)"

definition Parameter_typeReference :: "Parameter \<Rightarrow> TypeReference option" where
  "Parameter_typeReference n = (case firstTypeChild n of Some tr \<Rightarrow> TypeReference_cast tr | None \<Rightarrow> None)"

definition Parameter_defaultValue :: "Parameter \<Rightarrow> DefaultValue option" where
  "Parameter_defaultValue n = (case firstChildNode n DefaultValue of Some b \<Rightarrow> DefaultValue_cast b | None \<Rightarrow> None)"

definition ParameterList_parameters :: "ParameterList \<Rightarrow> Parameter list" where
  "ParameterList_parameters n = List.map_filter Parameter_cast (children n)"

section \<open>Functions\<close>

definition FuncDecl_visibilityModifier :: "FuncDecl \<Rightarrow> VisibilityModifier option" where
  "FuncDecl_visibilityModifier n = visibilityOfDeclNode n"

definition FuncDecl_visibility :: "FuncDecl \<Rightarrow> DeclVisibility" where
  "FuncDecl_visibility n = visibilityOfDecl n"

definition FuncDecl_nameToken :: "FuncDecl \<Rightarrow> SyntaxNode option" where
  "FuncDecl_nameToken n = (case find (\<lambda>c. \<not> (isTrivia (node_kind c) \<or> node_kind c \<in> {VisibilityModifier, KwOverride, KwFinal,
       KwAbstract, KwNoreturn, KwStatic, KwMutating})) (children n) of
     Some c \<Rightarrow> if node_kind c = Identifier then Some c else None
   | None \<Rightarrow> None)"

definition FuncDecl_nameText :: "FuncDecl \<Rightarrow> u16string option" where
  "FuncDecl_nameText n = textOfToken (FuncDecl_nameToken n)"

definition FuncDecl_typeParamList :: "FuncDecl \<Rightarrow> TypeParamList option" where
  "FuncDecl_typeParamList n = typeParamListOf n"

definition FuncDecl_typeParams :: "FuncDecl \<Rightarrow> TypeParam list" where
  "FuncDecl_typeParams n = (case FuncDecl_typeParamList n of Some l \<Rightarrow> TypeParamList_params l | None \<Rightarrow> [])"

definition FuncDecl_parameterList :: "FuncDecl \<Rightarrow> ParameterList option" where
  "FuncDecl_parameterList n = (case firstChildNode n ParamList of Some b \<Rightarrow> ParameterList_cast b | None \<Rightarrow> None)"

definition FuncDecl_parameters :: "FuncDecl \<Rightarrow> Parameter list" where
  "FuncDecl_parameters n = (case FuncDecl_parameterList n of Some l \<Rightarrow> ParameterList_parameters l | None \<Rightarrow> [])"

definition FuncDecl_returnType :: "FuncDecl \<Rightarrow> ReturnType option" where
  "FuncDecl_returnType n = (case firstChildNode n ReturnType of Some b \<Rightarrow> ReturnType_cast b | None \<Rightarrow> None)"

definition FuncDecl_body :: "FuncDecl \<Rightarrow> Block option" where
  "FuncDecl_body n = (case firstChildNode n Block of Some b \<Rightarrow> Block_cast b | None \<Rightarrow> None)"

definition FuncDecl_isShorthand :: "FuncDecl \<Rightarrow> bool" where
  "FuncDecl_isShorthand n = (if FuncDecl_body n \<noteq> None then False else list_ex (\<lambda>c. node_kind c = Semi) (children n))"

definition FuncDecl_isConstructor :: "FuncDecl \<Rightarrow> bool" where
  "FuncDecl_isConstructor n = hasDirectToken n KwConstructor"

definition FuncDecl_isDestructor :: "FuncDecl \<Rightarrow> bool" where
  "FuncDecl_isDestructor n = hasDirectToken n KwDestructor"

definition FuncDecl_isOverride :: "FuncDecl \<Rightarrow> bool" where
  "FuncDecl_isOverride n = hasDirectToken n KwOverride"

definition FuncDecl_isFinal :: "FuncDecl \<Rightarrow> bool" where
  "FuncDecl_isFinal n = hasDirectToken n KwFinal"

definition FuncDecl_isAbstract :: "FuncDecl \<Rightarrow> bool" where
  "FuncDecl_isAbstract n = hasDirectToken n KwAbstract"

definition FuncDecl_isNoreturn :: "FuncDecl \<Rightarrow> bool" where
  "FuncDecl_isNoreturn n = hasDirectToken n KwNoreturn"

definition FuncDecl_throwsClause :: "FuncDecl \<Rightarrow> ThrowsClause option" where
  "FuncDecl_throwsClause n = (case firstChildNode n ThrowsClause of Some b \<Rightarrow> ThrowsClause_cast b | None \<Rightarrow> None)"

definition FuncDecl_isThrows :: "FuncDecl \<Rightarrow> bool" where
  "FuncDecl_isThrows n = (FuncDecl_throwsClause n \<noteq> None)"

definition FuncDecl_throwsToken :: "FuncDecl \<Rightarrow> SyntaxNode option" where
  "FuncDecl_throwsToken n = (case FuncDecl_throwsClause n of None \<Rightarrow> None
     | Some tc \<Rightarrow> find (\<lambda>c. node_isToken c \<and> node_kind c = KwThrows) (children tc))"

definition ThrowsClause_types :: "ThrowsClause \<Rightarrow> TypeReference list" where
  "ThrowsClause_types n = List.map_filter TypeReference_cast (children n)"

definition FuncDecl_declaredThrowsTypes :: "FuncDecl \<Rightarrow> TypeReference list" where
  "FuncDecl_declaredThrowsTypes n = (case FuncDecl_throwsClause n of Some l \<Rightarrow> ThrowsClause_types l | None \<Rightarrow> [])"

definition FuncDecl_catchClauses :: "FuncDecl \<Rightarrow> CatchClause list" where
  "FuncDecl_catchClauses n = List.map_filter CatchClause_cast (children n)"

definition CatchClause_typeReference :: "CatchClause \<Rightarrow> TypeReference option" where
  "CatchClause_typeReference n = (case firstTypeChild n of Some tr \<Rightarrow> TypeReference_cast tr | None \<Rightarrow> None)"

definition CatchClause_nameToken :: "CatchClause \<Rightarrow> SyntaxNode option" where
  "CatchClause_nameToken n = findAfter (\<lambda>c. isTypeNode (node_kind c)) (\<lambda>c. node_kind c = Identifier) False (children n)"

definition CatchClause_nameText :: "CatchClause \<Rightarrow> u16string option" where
  "CatchClause_nameText n = textOfToken (CatchClause_nameToken n)"

definition CatchClause_body :: "CatchClause \<Rightarrow> Block option" where
  "CatchClause_body n = (case firstChildNode n Block of Some b \<Rightarrow> Block_cast b | None \<Rightarrow> None)"

section \<open>Fields and members\<close>

definition FieldDecl_visibilityModifier :: "FieldDecl \<Rightarrow> VisibilityModifier option" where
  "FieldDecl_visibilityModifier n = visibilityOfDeclNode n"

definition FieldDecl_visibility :: "FieldDecl \<Rightarrow> DeclVisibility" where
  "FieldDecl_visibility n = visibilityOfDecl n"

definition FieldDecl_isWeak :: "FieldDecl \<Rightarrow> bool" where
  "FieldDecl_isWeak n = list_ex (\<lambda>c. node_kind c = KwWeak) (takeWhile (\<lambda>c. \<not> isTypeNode (node_kind c)) (children n))"

definition FieldDecl_isLazy :: "FieldDecl \<Rightarrow> bool" where
  "FieldDecl_isLazy n = list_ex (\<lambda>c. node_kind c = KwLazy) (takeWhile (\<lambda>c. \<not> isTypeNode (node_kind c)) (children n))"

definition FieldDecl_typeReference :: "FieldDecl \<Rightarrow> TypeReference option" where
  "FieldDecl_typeReference n = (case firstTypeChild n of Some tr \<Rightarrow> TypeReference_cast tr | None \<Rightarrow> None)"

definition FieldDecl_nameToken :: "FieldDecl \<Rightarrow> SyntaxNode option" where
  "FieldDecl_nameToken n = findAfter (\<lambda>c. isTypeNode (node_kind c)) (\<lambda>c. node_kind c = Identifier) False (children n)"

definition FieldDecl_nameText :: "FieldDecl \<Rightarrow> u16string option" where
  "FieldDecl_nameText n = textOfToken (FieldDecl_nameToken n)"

definition FieldDecl_defaultValue :: "FieldDecl \<Rightarrow> DefaultValue option" where
  "FieldDecl_defaultValue n = (case firstChildNode n DefaultValue of Some b \<Rightarrow> DefaultValue_cast b | None \<Rightarrow> None)"

definition MemberList_fields :: "MemberList \<Rightarrow> FieldDecl list" where
  "MemberList_fields n = List.map_filter FieldDecl_cast (children n)"

definition MemberList_methods :: "MemberList \<Rightarrow> FuncDecl list" where
  "MemberList_methods n = List.map_filter FuncDecl_cast (children n)"

section \<open>Structs, classes, interfaces and primitives\<close>

definition ImplementsClause_types :: "ImplementsClause \<Rightarrow> TypeReference list" where
  "ImplementsClause_types n = List.map_filter TypeReference_cast (children n)"

definition StructDecl_visibilityModifier :: "StructDecl \<Rightarrow> VisibilityModifier option" where
  "StructDecl_visibilityModifier n = visibilityOfDeclNode n"

definition StructDecl_visibility :: "StructDecl \<Rightarrow> DeclVisibility" where
  "StructDecl_visibility n = visibilityOfDecl n"

definition StructDecl_nameToken :: "StructDecl \<Rightarrow> SyntaxNode option" where
  "StructDecl_nameToken n = firstIdentAfterKeyword n KwStruct"

definition StructDecl_nameText :: "StructDecl \<Rightarrow> u16string option" where
  "StructDecl_nameText n = textOfToken (StructDecl_nameToken n)"

definition StructDecl_typeParamList :: "StructDecl \<Rightarrow> TypeParamList option" where
  "StructDecl_typeParamList n = typeParamListOf n"

definition StructDecl_typeParams :: "StructDecl \<Rightarrow> TypeParam list" where
  "StructDecl_typeParams n = (case StructDecl_typeParamList n of Some l \<Rightarrow> TypeParamList_params l | None \<Rightarrow> [])"

definition StructDecl_implementsClause :: "StructDecl \<Rightarrow> ImplementsClause option" where
  "StructDecl_implementsClause n = (case firstChildNode n ImplementsClause of Some b \<Rightarrow> ImplementsClause_cast b | None \<Rightarrow> None)"

definition StructDecl_implementedInterfaceRefs :: "StructDecl \<Rightarrow> TypeReference list" where
  "StructDecl_implementedInterfaceRefs n = (case StructDecl_implementsClause n of Some l \<Rightarrow> ImplementsClause_types l | None \<Rightarrow> [])"

definition StructDecl_memberList :: "StructDecl \<Rightarrow> MemberList option" where
  "StructDecl_memberList n = (case firstChildNode n MemberList of Some b \<Rightarrow> MemberList_cast b | None \<Rightarrow> None)"

definition StructDecl_fields :: "StructDecl \<Rightarrow> FieldDecl list" where
  "StructDecl_fields n = (case StructDecl_memberList n of Some l \<Rightarrow> MemberList_fields l | None \<Rightarrow> [])"

definition StructDecl_methods :: "StructDecl \<Rightarrow> FuncDecl list" where
  "StructDecl_methods n = (case StructDecl_memberList n of Some l \<Rightarrow> MemberList_methods l | None \<Rightarrow> [])"

definition ClassDecl_visibilityModifier :: "ClassDecl \<Rightarrow> VisibilityModifier option" where
  "ClassDecl_visibilityModifier n = visibilityOfDeclNode n"

definition ClassDecl_visibility :: "ClassDecl \<Rightarrow> DeclVisibility" where
  "ClassDecl_visibility n = visibilityOfDecl n"

definition ClassDecl_nameToken :: "ClassDecl \<Rightarrow> SyntaxNode option" where
  "ClassDecl_nameToken n = firstIdentAfterKeyword n KwClass"

definition ClassDecl_nameText :: "ClassDecl \<Rightarrow> u16string option" where
  "ClassDecl_nameText n = textOfToken (ClassDecl_nameToken n)"

definition ClassDecl_typeParamList :: "ClassDecl \<Rightarrow> TypeParamList option" where
  "ClassDecl_typeParamList n = typeParamListOf n"

definition ClassDecl_typeParams :: "ClassDecl \<Rightarrow> TypeParam list" where
  "ClassDecl_typeParams n = (case ClassDecl_typeParamList n of Some l \<Rightarrow> TypeParamList_params l | None \<Rightarrow> [])"

definition ClassDecl_baseClassToken :: "ClassDecl \<Rightarrow> SyntaxNode option" where
  "ClassDecl_baseClassToken n = firstIdentAfterKeyword n KwExtends"

definition ClassDecl_baseClassName :: "ClassDecl \<Rightarrow> u16string option" where
  "ClassDecl_baseClassName n = textOfToken (ClassDecl_baseClassToken n)"

definition ClassDecl_baseTypeArguments :: "ClassDecl \<Rightarrow> TypeReference list" where
  "ClassDecl_baseTypeArguments n = typeArgumentsIn (dropWhile (\<lambda>c. node_kind c \<noteq> KwExtends) (children n))"

definition ClassDecl_implementsClause :: "ClassDecl \<Rightarrow> ImplementsClause option" where
  "ClassDecl_implementsClause n = (case firstChildNode n ImplementsClause of Some b \<Rightarrow> ImplementsClause_cast b | None \<Rightarrow> None)"

definition ClassDecl_implementedInterfaceRefs :: "ClassDecl \<Rightarrow> TypeReference list" where
  "ClassDecl_implementedInterfaceRefs n = (case ClassDecl_implementsClause n of Some l \<Rightarrow> ImplementsClause_types l | None \<Rightarrow> [])"

definition ClassDecl_isAbstract :: "ClassDecl \<Rightarrow> bool" where
  "ClassDecl_isAbstract n = hasDirectToken n KwAbstract"

definition ClassDecl_isFinal :: "ClassDecl \<Rightarrow> bool" where
  "ClassDecl_isFinal n = hasDirectToken n KwFinal"

definition ClassDecl_isSealed :: "ClassDecl \<Rightarrow> bool" where
  "ClassDecl_isSealed n = hasDirectToken n KwSealed"

definition ClassDecl_memberList :: "ClassDecl \<Rightarrow> MemberList option" where
  "ClassDecl_memberList n = (case firstChildNode n MemberList of Some b \<Rightarrow> MemberList_cast b | None \<Rightarrow> None)"

definition ClassDecl_fields :: "ClassDecl \<Rightarrow> FieldDecl list" where
  "ClassDecl_fields n = (case ClassDecl_memberList n of Some l \<Rightarrow> MemberList_fields l | None \<Rightarrow> [])"

definition ClassDecl_methods :: "ClassDecl \<Rightarrow> FuncDecl list" where
  "ClassDecl_methods n = (case ClassDecl_memberList n of Some l \<Rightarrow> MemberList_methods l | None \<Rightarrow> [])"

definition InterfaceDecl_visibilityModifier :: "InterfaceDecl \<Rightarrow> VisibilityModifier option" where
  "InterfaceDecl_visibilityModifier n = visibilityOfDeclNode n"

definition InterfaceDecl_visibility :: "InterfaceDecl \<Rightarrow> DeclVisibility" where
  "InterfaceDecl_visibility n = visibilityOfDecl n"

definition InterfaceDecl_nameToken :: "InterfaceDecl \<Rightarrow> SyntaxNode option" where
  "InterfaceDecl_nameToken n = firstIdentAfterKeyword n KwInterface"

definition InterfaceDecl_nameText :: "InterfaceDecl \<Rightarrow> u16string option" where
  "InterfaceDecl_nameText n = textOfToken (InterfaceDecl_nameToken n)"

definition InterfaceDecl_typeParamList :: "InterfaceDecl \<Rightarrow> TypeParamList option" where
  "InterfaceDecl_typeParamList n = typeParamListOf n"

definition InterfaceDecl_typeParams :: "InterfaceDecl \<Rightarrow> TypeParam list" where
  "InterfaceDecl_typeParams n = (case InterfaceDecl_typeParamList n of Some l \<Rightarrow> TypeParamList_params l | None \<Rightarrow> [])"

definition InterfaceDecl_baseInterfaceToken :: "InterfaceDecl \<Rightarrow> SyntaxNode option" where
  "InterfaceDecl_baseInterfaceToken n = firstIdentAfterKeyword n KwExtends"

definition InterfaceDecl_baseInterfaceName :: "InterfaceDecl \<Rightarrow> u16string option" where
  "InterfaceDecl_baseInterfaceName n = textOfToken (InterfaceDecl_baseInterfaceToken n)"

definition InterfaceDecl_baseTypeArguments :: "InterfaceDecl \<Rightarrow> TypeReference list" where
  "InterfaceDecl_baseTypeArguments n = typeArgumentsIn (dropWhile (\<lambda>c. node_kind c \<noteq> KwExtends) (children n))"

definition InterfaceDecl_memberList :: "InterfaceDecl \<Rightarrow> MemberList option" where
  "InterfaceDecl_memberList n = (case firstChildNode n MemberList of Some b \<Rightarrow> MemberList_cast b | None \<Rightarrow> None)"

definition InterfaceDecl_fields :: "InterfaceDecl \<Rightarrow> FieldDecl list" where
  "InterfaceDecl_fields n = (case InterfaceDecl_memberList n of Some l \<Rightarrow> MemberList_fields l | None \<Rightarrow> [])"

definition InterfaceDecl_methods :: "InterfaceDecl \<Rightarrow> FuncDecl list" where
  "InterfaceDecl_methods n = (case InterfaceDecl_memberList n of Some l \<Rightarrow> MemberList_methods l | None \<Rightarrow> [])"

definition PrimitiveDecl_nameToken :: "PrimitiveDecl \<Rightarrow> SyntaxNode option" where
  "PrimitiveDecl_nameToken n = findAfter (\<lambda>c. node_kind c = KwPrimitive) node_isToken False (children n)"

definition PrimitiveDecl_nameText :: "PrimitiveDecl \<Rightarrow> u16string option" where
  "PrimitiveDecl_nameText n = textOfToken (PrimitiveDecl_nameToken n)"

definition PrimitiveDecl_implementedInterfaces :: "PrimitiveDecl \<Rightarrow> TypeReference list" where
  "PrimitiveDecl_implementedInterfaces n = (case firstFound ImplementsClause_cast (children n) of
     Some ic \<Rightarrow> ImplementsClause_types ic | None \<Rightarrow> [])"

definition PrimitiveDecl_memberList :: "PrimitiveDecl \<Rightarrow> MemberList option" where
  "PrimitiveDecl_memberList n = (case firstChildNode n MemberList of Some b \<Rightarrow> MemberList_cast b | None \<Rightarrow> None)"

definition PrimitiveDecl_fields :: "PrimitiveDecl \<Rightarrow> FieldDecl list" where
  "PrimitiveDecl_fields n = (case PrimitiveDecl_memberList n of Some l \<Rightarrow> MemberList_fields l | None \<Rightarrow> [])"

definition PrimitiveDecl_methods :: "PrimitiveDecl \<Rightarrow> FuncDecl list" where
  "PrimitiveDecl_methods n = (case PrimitiveDecl_memberList n of Some l \<Rightarrow> MemberList_methods l | None \<Rightarrow> [])"

section \<open>Imports\<close>

definition ImportPath_isPackage :: "ImportPath \<Rightarrow> bool" where
  "ImportPath_isPackage n = (case firstNonTrivia n of Some c \<Rightarrow> node_kind c = At | None \<Rightarrow> False)"

definition ImportPath_segmentTokens :: "ImportPath \<Rightarrow> SyntaxNode list" where
  "ImportPath_segmentTokens n = filter (\<lambda>c. \<not> isTrivia (node_kind c) \<and> node_isToken c \<and> node_kind c = Identifier) (children n)"

definition ImportPath_segments :: "ImportPath \<Rightarrow> u16string list" where
  "ImportPath_segments n = map tokenText (ImportPath_segmentTokens n)"

definition ImportDecl_importPath :: "ImportDecl \<Rightarrow> ImportPath option" where
  "ImportDecl_importPath n = (case firstChildNode n ImportPath of Some b \<Rightarrow> ImportPath_cast b | None \<Rightarrow> None)"

definition ImportDecl_isPackage :: "ImportDecl \<Rightarrow> bool" where
  "ImportDecl_isPackage n = (case ImportDecl_importPath n of Some p \<Rightarrow> ImportPath_isPackage p | None \<Rightarrow> False)"

definition ImportDecl_importedNameToken :: "ImportDecl \<Rightarrow> SyntaxNode option" where
  "ImportDecl_importedNameToken n = (case find (\<lambda>c. \<not> isTrivia (node_kind c) \<and> node_kind c \<noteq> KwImport)
       (dropWhile (\<lambda>c. node_kind c \<noteq> KwImport) (children n)) of
     Some c \<Rightarrow> if node_kind c = Identifier then Some c else None
   | None \<Rightarrow> None)"

definition ImportDecl_importedNameText :: "ImportDecl \<Rightarrow> u16string option" where
  "ImportDecl_importedNameText n = textOfToken (ImportDecl_importedNameToken n)"

definition ImportDecl_aliasToken :: "ImportDecl \<Rightarrow> SyntaxNode option" where
  "ImportDecl_aliasToken n = (case find (\<lambda>c. node_kind c = ImportAlias) (children n) of None \<Rightarrow> None
     | Some a \<Rightarrow> find (\<lambda>i. node_isToken i \<and> node_kind i = Identifier) (children a))"

definition ImportDecl_aliasText :: "ImportDecl \<Rightarrow> u16string option" where
  "ImportDecl_aliasText n = textOfToken (ImportDecl_aliasToken n)"

definition ImportDecl_boundNameToken :: "ImportDecl \<Rightarrow> SyntaxNode option" where
  "ImportDecl_boundNameToken n = (case ImportDecl_aliasToken n of Some a \<Rightarrow> Some a
     | None \<Rightarrow> (case ImportDecl_importedNameToken n of Some t \<Rightarrow> Some t
       | None \<Rightarrow> (case ImportDecl_importPath n of None \<Rightarrow> None
         | Some p \<Rightarrow> (let tokens = ImportPath_segmentTokens p in if tokens \<noteq> [] then Some (last tokens) else None))))"

definition ImportDecl_boundName :: "ImportDecl \<Rightarrow> u16string option" where
  "ImportDecl_boundName n = textOfToken (ImportDecl_boundNameToken n)"

definition ImportDecl_pathSegments :: "ImportDecl \<Rightarrow> u16string list" where
  "ImportDecl_pathSegments n = (case ImportDecl_importPath n of Some p \<Rightarrow> ImportPath_segments p | None \<Rightarrow> [])"

definition ImportDecl_namespaceName :: "ImportDecl \<Rightarrow> u16string option" where
  "ImportDecl_namespaceName n = (let segs = ImportDecl_pathSegments n in if segs = [] then None else Some (last segs))"

text \<open>Segments joined by dots: the loop \<open>for (i = from; i < to; ++i)\<close> that writes a dot before every segment but the first.\<close>

fun joinSegments :: "u16string list \<Rightarrow> u16string" where
  "joinSegments [] = []"
| "joinSegments [s] = s"
| "joinSegments (s # segs) = s @ 0x2E # joinSegments segs"

definition ImportDecl_modulePath :: "ImportDecl \<Rightarrow> u16string" where
  "ImportDecl_modulePath n = joinSegments (ImportDecl_pathSegments n)"

section \<open>Enums, tests and external declarations\<close>

definition EnumMember_nameToken :: "EnumMember \<Rightarrow> SyntaxNode option" where
  "EnumMember_nameToken n = firstChildNode n Identifier"

definition EnumMember_nameText :: "EnumMember \<Rightarrow> u16string option" where
  "EnumMember_nameText n = textOfToken (EnumMember_nameToken n)"

definition EnumMember_value :: "EnumMember \<Rightarrow> DefaultValue option" where
  "EnumMember_value n = (case firstChildNode n DefaultValue of Some b \<Rightarrow> DefaultValue_cast b | None \<Rightarrow> None)"

definition EnumDecl_visibilityModifier :: "EnumDecl \<Rightarrow> VisibilityModifier option" where
  "EnumDecl_visibilityModifier n = visibilityOfDeclNode n"

definition EnumDecl_visibility :: "EnumDecl \<Rightarrow> DeclVisibility" where
  "EnumDecl_visibility n = visibilityOfDecl n"

definition EnumDecl_nameToken :: "EnumDecl \<Rightarrow> SyntaxNode option" where
  "EnumDecl_nameToken n = firstIdentAfterKeyword n KwEnum"

definition EnumDecl_nameText :: "EnumDecl \<Rightarrow> u16string option" where
  "EnumDecl_nameText n = textOfToken (EnumDecl_nameToken n)"

definition EnumDecl_members :: "EnumDecl \<Rightarrow> EnumMember list" where
  "EnumDecl_members n = List.map_filter EnumMember_cast (children n)"

definition TestDecl_descriptionToken :: "TestDecl \<Rightarrow> SyntaxNode option" where
  "TestDecl_descriptionToken n = find (\<lambda>c. \<not> isTrivia (node_kind c) \<and> node_kind c = StringLiteral) (children n)"

definition TestDecl_rawDescriptionLiteral :: "TestDecl \<Rightarrow> u16string option" where
  "TestDecl_rawDescriptionLiteral n = textOfToken (TestDecl_descriptionToken n)"

text \<open>The loop of \<open>descriptionText\<close>.\<close>

definition scalarUnits :: "u32 \<Rightarrow> u16string" where
  "scalarUnits scalar =
     (if \<not> scalar > 0xFFFF then [ucast scalar]
      else let v = scalar - 0x10000
           in [ucast (0xD800 + drop_bit 10 v), ucast (0xDC00 + (v AND 0x3FF))])"

function descriptionLoop :: "u16string \<Rightarrow> nat \<Rightarrow> nat \<Rightarrow> u16string \<Rightarrow> u16string" where
  "descriptionLoop raw i hi out =
     (if i < hi then
        (let c = raw ! i in
         if c = 0x5C \<and> i + 1 < hi
         then (case decodeEscapeSequence raw i hi of
                 (scalar, nxt) \<Rightarrow> descriptionLoop raw nxt hi (out @ scalarUnits scalar))
         else descriptionLoop raw (i + 1) hi (out @ scalarUnits (ucast c)))
      else out)"
  by pat_completeness auto

termination
proof (relation "measure (\<lambda>(t, i, e, out). e - i)", goal_cases)
  case (2 t i e out c scalar nxt)
  then have "nxt \<in> {i + 2, i + 6}"
    using decodeEscapeSequence_next [of t i e] by (metis snd_conv)
  with 2 show ?case by auto
qed auto

declare descriptionLoop.simps [simp del]

definition TestDecl_descriptionText :: "TestDecl \<Rightarrow> u16string option" where
  "TestDecl_descriptionText n = (case TestDecl_rawDescriptionLiteral n of None \<Rightarrow> None
     | Some raw \<Rightarrow>
         (let lo = (if raw \<noteq> [] \<and> hd raw = 0x22 then 1 else 0);
              hi = (if length raw > lo \<and> last raw = 0x22 then length raw - 1 else length raw)
          in Some (descriptionLoop raw lo hi [])))"

definition TestDecl_body :: "TestDecl \<Rightarrow> Block option" where
  "TestDecl_body n = (case firstChildNode n Block of Some b \<Rightarrow> Block_cast b | None \<Rightarrow> None)"

definition ExternalTypeDecl_visibilityModifier :: "ExternalTypeDecl \<Rightarrow> VisibilityModifier option" where
  "ExternalTypeDecl_visibilityModifier n = visibilityOfDeclNode n"

definition ExternalTypeDecl_visibility :: "ExternalTypeDecl \<Rightarrow> DeclVisibility" where
  "ExternalTypeDecl_visibility n = visibilityOfDecl n"

definition ExternalTypeDecl_nameToken :: "ExternalTypeDecl \<Rightarrow> SyntaxNode option" where
  "ExternalTypeDecl_nameToken n = firstIdentAfterKeyword n KwType"

definition ExternalTypeDecl_nameText :: "ExternalTypeDecl \<Rightarrow> u16string option" where
  "ExternalTypeDecl_nameText n = textOfToken (ExternalTypeDecl_nameToken n)"

definition ExternalFuncDecl_nameToken :: "ExternalFuncDecl \<Rightarrow> SyntaxNode option" where
  "ExternalFuncDecl_nameToken n = (case firstNonTrivia n of Some c \<Rightarrow> if node_kind c = Identifier then Some c else None | None \<Rightarrow> None)"

definition ExternalFuncDecl_nameText :: "ExternalFuncDecl \<Rightarrow> u16string option" where
  "ExternalFuncDecl_nameText n = textOfToken (ExternalFuncDecl_nameToken n)"

definition ExternalFuncDecl_parameterList :: "ExternalFuncDecl \<Rightarrow> ParameterList option" where
  "ExternalFuncDecl_parameterList n = (case firstChildNode n ParamList of Some b \<Rightarrow> ParameterList_cast b | None \<Rightarrow> None)"

definition ExternalFuncDecl_parameters :: "ExternalFuncDecl \<Rightarrow> Parameter list" where
  "ExternalFuncDecl_parameters n = (case ExternalFuncDecl_parameterList n of Some l \<Rightarrow> ParameterList_parameters l | None \<Rightarrow> [])"

definition ExternalFuncDecl_returnType :: "ExternalFuncDecl \<Rightarrow> ReturnType option" where
  "ExternalFuncDecl_returnType n = (case firstChildNode n ReturnType of Some b \<Rightarrow> ReturnType_cast b | None \<Rightarrow> None)"

definition ExternalBlock_visibilityModifier :: "ExternalBlock \<Rightarrow> VisibilityModifier option" where
  "ExternalBlock_visibilityModifier n = visibilityOfDeclNode n"

definition ExternalBlock_visibility :: "ExternalBlock \<Rightarrow> DeclVisibility" where
  "ExternalBlock_visibility n = visibilityOfDecl n"

definition ExternalBlock_libraryName :: "ExternalBlock \<Rightarrow> u16string option" where
  "ExternalBlock_libraryName n = (case firstChildNode n LibrarySpec of None \<Rightarrow> None
     | Some spec \<Rightarrow> textOfToken (find (\<lambda>c. node_kind c = Identifier) (children spec)))"

definition ExternalBlock_declarations :: "ExternalBlock \<Rightarrow> ExternalFuncDecl list" where
  "ExternalBlock_declarations n = List.map_filter ExternalFuncDecl_cast (children n)"

section \<open>Source files\<close>

definition SourceFileView_imports :: "SourceFileView \<Rightarrow> ImportDecl list" where
  "SourceFileView_imports n = List.map_filter ImportDecl_cast (children n)"

definition SourceFileView_functions :: "SourceFileView \<Rightarrow> FuncDecl list" where
  "SourceFileView_functions n = List.map_filter FuncDecl_cast (children n)"

definition SourceFileView_tests :: "SourceFileView \<Rightarrow> TestDecl list" where
  "SourceFileView_tests n = List.map_filter TestDecl_cast (children n)"

definition SourceFileView_structs :: "SourceFileView \<Rightarrow> StructDecl list" where
  "SourceFileView_structs n = List.map_filter StructDecl_cast (children n)"

definition SourceFileView_classes :: "SourceFileView \<Rightarrow> ClassDecl list" where
  "SourceFileView_classes n = List.map_filter ClassDecl_cast (children n)"

definition SourceFileView_interfaces :: "SourceFileView \<Rightarrow> InterfaceDecl list" where
  "SourceFileView_interfaces n = List.map_filter InterfaceDecl_cast (children n)"

definition SourceFileView_primitiveBindings :: "SourceFileView \<Rightarrow> PrimitiveDecl list" where
  "SourceFileView_primitiveBindings n = List.map_filter PrimitiveDecl_cast (children n)"

definition SourceFileView_enums :: "SourceFileView \<Rightarrow> EnumDecl list" where
  "SourceFileView_enums n = List.map_filter EnumDecl_cast (children n)"

definition SourceFileView_topLevelVarDecls :: "SourceFileView \<Rightarrow> TypedVarDeclStatement list" where
  "SourceFileView_topLevelVarDecls n = List.map_filter TypedVarDeclStatement_cast (children n)"

definition SourceFileView_externalTypes :: "SourceFileView \<Rightarrow> ExternalTypeDecl list" where
  "SourceFileView_externalTypes n = List.map_filter ExternalTypeDecl_cast (children n)"

definition SourceFileView_externalBlocks :: "SourceFileView \<Rightarrow> ExternalBlock list" where
  "SourceFileView_externalBlocks n = List.map_filter ExternalBlock_cast (children n)"

section \<open>Answers lie below\<close>

lemma declaration_parts_below [below_dests]:
  "FuncDecl_body n = Some b \<Longrightarrow> below b n" "CatchClause_body n = Some b \<Longrightarrow> below b n" "TestDecl_body n = Some b \<Longrightarrow> below b n"
  "StructDecl_memberList n = Some m \<Longrightarrow> below m n" "ClassDecl_memberList n = Some m \<Longrightarrow> below m n"
  "FuncDecl_parameterList n = Some p \<Longrightarrow> below p n" "Parameter_defaultValue n = Some v \<Longrightarrow> below v n"
  "FieldDecl_defaultValue n = Some v \<Longrightarrow> below v n" "ImportDecl_importPath n = Some p \<Longrightarrow> below p n"
  by (auto simp: FuncDecl_body_def CatchClause_body_def TestDecl_body_def StructDecl_memberList_def ClassDecl_memberList_def
      FuncDecl_parameterList_def Parameter_defaultValue_def FieldDecl_defaultValue_def ImportDecl_importPath_def
      Block_cast_def MemberList_cast_def ParameterList_cast_def DefaultValue_cast_def ImportPath_cast_def
      split: option.split_asm intro: firstChildNode_below)

lemma declaration_lists_below [below_dests]:
  "f \<in> set (SourceFileView_functions n) \<Longrightarrow> below f n" "t \<in> set (SourceFileView_tests n) \<Longrightarrow> below t n"
  "s \<in> set (SourceFileView_structs n) \<Longrightarrow> below s n" "c \<in> set (SourceFileView_classes n) \<Longrightarrow> below c n"
  "i \<in> set (SourceFileView_imports n) \<Longrightarrow> below i n" "m \<in> set (MemberList_methods n) \<Longrightarrow> below m n"
  "fd \<in> set (MemberList_fields n) \<Longrightarrow> below fd n" "cc \<in> set (FuncDecl_catchClauses n) \<Longrightarrow> below cc n"
  by (auto simp: SourceFileView_functions_def SourceFileView_tests_def SourceFileView_structs_def SourceFileView_classes_def
      SourceFileView_imports_def MemberList_methods_def MemberList_fields_def FuncDecl_catchClauses_def
      FuncDecl_cast_def TestDecl_cast_def StructDecl_cast_def ClassDecl_cast_def ImportDecl_cast_def FieldDecl_cast_def
      CatchClause_cast_def dest!: map_filter_cast intro: children_below)

section \<open>The description of a test\<close>

lemma hexDigitValue_bounds: "hexDigitValue c < 16"
  by (auto simp: hexDigitValue_def word_le_def)

lemma hex_or_bound:
  assumes "0 \<le> a" "a < 16" "0 \<le> b" "b < 16" "0 \<le> c" "c < 16" "0 \<le> d" "d < (16::int)"
  shows "push_bit 12 a OR push_bit 8 b OR push_bit 4 c OR d < 65536"
    and "0 \<le> push_bit 12 a OR push_bit 8 b OR push_bit 4 c OR d"
proof -
  have "push_bit 12 a < 2 ^ 16" "push_bit 8 b < 2 ^ 16" "push_bit 4 c < 2 ^ 16" "d < 2 ^ 16"
    and nonneg: "0 \<le> push_bit 12 a" "0 \<le> push_bit 8 b" "0 \<le> push_bit 4 c"
    using assms by (simp_all add: push_bit_eq_mult)
  then show "push_bit 12 a OR push_bit 8 b OR push_bit 4 c OR d < 65536"
    using assms OR_upper [of _ 16] by (simp add: OR_lower)
  show "0 \<le> push_bit 12 a OR push_bit 8 b OR push_bit 4 c OR d"
    using nonneg assms by simp
qed

lemma unit_bound: "(ucast (c :: char16) :: u32) \<le> 0xFFFF"
  using unat_char16_less [of c] by (simp add: word_le_nat_alt del: unat_char16_less)

lemma decodeEscapeSequence_bound: "fst (decodeEscapeSequence t i e) \<le> 0xFFFF"
proof -
  have "(word_of_int (push_bit 12 a OR push_bit 8 b OR push_bit 4 c OR d) :: u32) \<le> 0xFFFF"
    if "0 \<le> a" "a < 16" "0 \<le> b" "b < 16" "0 \<le> c" "c < 16" "0 \<le> d" "d < 16" for a b c d :: int
    using hex_or_bound [OF that] unfolding word_le_def uint_word_of_int
    by (simp add: take_bit_int_eq_self zmod_trivial_iff del: or_nonnegative_int_iff)
  then show ?thesis using unit_bound hexDigitValue_bounds by (simp add: decodeEscapeSequence_def Let_def)
qed

lemma scalarUnits_utf16Units: "scalar \<le> 0xFFFF \<Longrightarrow> scalarUnits scalar = utf16Units scalar"
  by (simp add: scalarUnits_def utf16Units_def)

lemma descriptionLoop_decodes: "descriptionLoop raw i hi out = decodeStringLoop raw i hi out"
proof (induction raw i hi out rule: decodeStringLoop.induct)
  case (1 t i e out)
  have "utf16Units (fst (decodeEscapeSequence t i e)) = scalarUnits (fst (decodeEscapeSequence t i e))"
    using scalarUnits_utf16Units [OF decodeEscapeSequence_bound] by simp
  moreover have "scalarUnits (ucast (t ! i)) = [t ! i]"
    using utf16Units_unit [of "t ! i"] scalarUnits_utf16Units [OF unit_bound] by simp
  ultimately show ?case
    using 1 by (subst descriptionLoop.simps, subst decodeStringLoop.simps)
      (cases "decodeEscapeSequence t i e"; simp add: Let_def)
qed

text \<open>C35: the description of a test is decoded exactly as the string literal it is: the loop of its own that
  \<open>TestDecl::descriptionText\<close> has agrees with \<open>decodeStringLiteral\<close> on every literal between quotes, so a
  description of any text, written with escapes, is read back.\<close>

theorem test_description_decoded:
  assumes "TestDecl_rawDescriptionLiteral n = Some (0x22 # s @ [0x22])"
  shows "TestDecl_descriptionText n = Some (decodeStringLiteral (0x22 # s @ [0x22]))"
  using assms
  by (simp add: TestDecl_descriptionText_def descriptionLoop_decodes decodeStringLiteral_def quotedRange_quoted)

theorem test_description_decoded_witness:
  "TestDecl_descriptionText (makeRoot (GreenNode TestDecl [GreenToken KwTest (u16 ''test''),
     GreenToken StringLiteral (0x22 # concat (map unicodeEscape (u16 ''a'')) @ [0x22])])) = Some (u16 ''a'')"
proof -
  have "TestDecl_rawDescriptionLiteral (makeRoot (GreenNode TestDecl [GreenToken KwTest (u16 ''test''),
     GreenToken StringLiteral (0x22 # concat (map unicodeEscape (u16 ''a'')) @ [0x22])])) =
     Some (0x22 # concat (map unicodeEscape (u16 ''a'')) @ [0x22])"
    by (simp add: TestDecl_rawDescriptionLiteral_def TestDecl_descriptionToken_def textOfToken_def makeRoot_def
        children_def node_kind_def tokenText_def isTrivia_def)
  from test_description_decoded [OF this] show ?thesis by (simp add: decodeStringLiteral_roundtrip)
qed

end
