(* ===== verification/Workspaces.thy ===== *)
theory Workspaces
  imports ManifestErrors Paths AstDeclarations
begin

text \<open>
  Workspaces and their registry: \<open>module/Workspace.h\<close>, \<open>module/Workspace.cpp\<close>.

  A \<open>Workspace*\<close> is an index into the vector that owns the workspaces, which only grows. A hash table whose
  entries are added with \<open>emplace\<close> is an association list in the order of insertion. The disk is the
  \<open>FileSystem\<close> of \<open>Paths\<close>.
\<close>

section \<open>Data\<close>

record Workspace =
  ws_root :: path
  ws_srcRoot :: path
  ws_testsRoot :: path
  ws_packagePrefix :: u16string
  ws_deps :: "(u16string \<times> path) list"
  ws_hasPackageManifest :: bool
  ws_isWorkspaceRoot :: bool
  ws_manifestPath :: string
  ws_packageName :: u16string
  ws_natives :: "ManifestNative list"
  ws_nativeNames :: "u16string list"

record PackageMatch =
  pm_segmentCount :: nat
  pm_folder :: path

record WorkspaceMember =
  wm_packageName :: string
  wm_folder :: path
  wm_dependencies :: "string list"

record CollectedNative =
  cn_native :: ManifestNative
  cn_declaredIn :: string

record MemberIndex =
  mx_isWorkspace :: bool
  mx_foldersByName :: "(string \<times> path) list"
  mx_memberFolderKeys :: "string list"

type_synonym wsid = nat

record WorkspaceRegistry =
  rg_owned :: "Workspace list"
  rg_byFolder :: "string \<rightharpoonup> wsid"
  rg_manifests :: "string \<rightharpoonup> Manifest"
  rg_memberIndexes :: "string \<rightharpoonup> MemberIndex"
  rg_overrides :: "(string \<times> path) list"
  rg_gitPackages :: "string \<rightharpoonup> path"
  rg_noticedOverrides :: "string list"
  rg_errors :: "string list"
  rg_notices :: "string list"
  rg_standardLibraryKey :: string

definition emplace :: "'k \<Rightarrow> 'v \<Rightarrow> ('k \<times> 'v) list \<Rightarrow> ('k \<times> 'v) list" where
  "emplace k v xs = (if map_of xs k = None then xs @ [(k, v)] else xs)"

section \<open>Helpers\<close>

definition canonicalFolderKey :: "FileSystem \<Rightarrow> path \<Rightarrow> string" where
  "canonicalFolderKey fs folder = (case fs_canonical fs folder of Some p \<Rightarrow> p | None \<Rightarrow> lexicallyNormal folder)"

definition toU16 :: "string \<Rightarrow> u16string" where
  "toU16 s = map of_char s"

definition positionOf :: "string \<Rightarrow> int \<Rightarrow> int \<Rightarrow> string" where
  "positionOf manifestPath ln col = manifestPath @ '':'' @ to_string ln @ '':'' @ to_string col @ '': ''"

definition holdsPrelude :: "FileSystem \<Rightarrow> path \<Rightarrow> bool" where
  "holdsPrelude fs sources =
     (fs_exists fs (pathAppend sources ''core.ens'') \<and> fs_exists fs (pathAppend (pathAppend sources ''io'') ''print.ens''))"

section \<open>Finding packages and roots\<close>

text \<open>\<open>for (count = segments.size(); count >= 1; --count)\<close>\<close>

primrec matchFrom :: "(u16string \<times> path) list \<Rightarrow> u16string list \<Rightarrow> nat \<Rightarrow> PackageMatch option" where
  "matchFrom deps segments 0 = None"
| "matchFrom deps segments (Suc n) =
     (case map_of deps (joinSegments (take (Suc n) segments)) of
        Some folder \<Rightarrow> Some \<lparr>pm_segmentCount = Suc n, pm_folder = folder\<rparr>
      | None \<Rightarrow> matchFrom deps segments n)"

definition matchPackage :: "(u16string \<times> path) list \<Rightarrow> u16string list \<Rightarrow> PackageMatch option" where
  "matchPackage deps segments = (if deps = [] \<or> segments = [] then None else matchFrom deps segments (length segments))"

text \<open>The folder the walks start from: absolute where the system can tell, and normal.\<close>

definition startFolder :: "FileSystem \<Rightarrow> path \<Rightarrow> path" where
  "startFolder fs dir = lexicallyNormal (case fs_absolute fs dir of Some p \<Rightarrow> p | None \<Rightarrow> dir)"

definition packageFile :: "path \<Rightarrow> path" where
  "packageFile d = pathAppend d ''ens.package''"

definition orEmptyPath :: "path option \<Rightarrow> path" where
  "orEmptyPath p = (case p of Some d \<Rightarrow> d | None \<Rightarrow> [])"

definition discoverWorkspaceRoot :: "FileSystem \<Rightarrow> path \<Rightarrow> path" where
  "discoverWorkspaceRoot fs dir = orEmptyPath (find (\<lambda>d. fs_exists fs (packageFile d)) (ancestorsOf (startFolder fs dir)))"

definition discoverGoverningRoot :: "FileSystem \<Rightarrow> path \<Rightarrow> path" where
  "discoverGoverningRoot fs dir = orEmptyPath (find (\<lambda>d. fs_exists fs (packageFile d) \<and>
     form (fst (loadManifestFile (fs_read fs) (packageFile d) [])) \<noteq> FormWorkspace) (ancestorsOf (startFolder fs dir)))"

text \<open>The problems with a member that both places that read members report.\<close>

definition doubleQuoted :: "string \<Rightarrow> string" where
  "doubleQuoted s = CHR 0x22 # s @ [CHR 0x22]"

definition apostrophed :: "string \<Rightarrow> string" where
  "apostrophed s = CHR 0x27 # s @ [CHR 0x27]"

definition memberMissing :: "ManifestMember \<Rightarrow> string" where
  "memberMissing member = ''Workspace member '' @ doubleQuoted (me_folder member) @
     '' has no ens.package manifest; every member folder declares a package.''"

definition memberNoPackage :: "ManifestMember \<Rightarrow> string" where
  "memberNoPackage member = ''Workspace member '' @ doubleQuoted (me_folder member) @ '' must declare a package.''"

definition memberTwice :: "path \<Rightarrow> path \<Rightarrow> string \<Rightarrow> string" where
  "memberTwice existing folder name = ''Members '' @ doubleQuoted existing @ '' and '' @ doubleQuoted folder @
     '' both declare package '' @ apostrophed name @ ''; package names must be unique within a workspace.''"

definition memberFolder :: "path \<Rightarrow> ManifestMember \<Rightarrow> path" where
  "memberFolder root member = lexicallyNormal (pathAppend root (me_folder member))"

definition listMember ::
    "FileSystem \<Rightarrow> path \<Rightarrow> ManifestMember \<Rightarrow> WorkspaceMember list \<times> string list \<Rightarrow> WorkspaceMember list \<times> string list" where
  "listMember fs root member s =
     (case s of (ms, errors) \<Rightarrow>
        let at = positionOf (packageFile root) (me_line member) (me_column member);
            folder = memberFolder root member in
        if \<not> fs_exists fs (packageFile folder) then (ms, errors @ [at @ memberMissing member])
        else let declaration = fst (loadManifestFile (fs_read fs) (packageFile folder) []) in
          if form declaration \<noteq> FormPackage then (ms, errors @ [at @ memberNoPackage member])
          else case find (\<lambda>e. wm_packageName e = packageName declaration) ms of
            Some existing \<Rightarrow> (ms, errors @ [at @ memberTwice (wm_folder existing) folder (packageName declaration)])
          | None \<Rightarrow> (ms @ [\<lparr>wm_packageName = packageName declaration, wm_folder = folder,
              wm_dependencies = map de_name (dependencies declaration)\<rparr>], errors))"

definition listWorkspaceMembers :: "FileSystem \<Rightarrow> path \<Rightarrow> string list \<Rightarrow> WorkspaceMember list \<times> string list" where
  "listWorkspaceMembers fs root errors =
     (case loadManifestFile (fs_read fs) (packageFile root) errors of (manifest, errors) \<Rightarrow>
        if form manifest \<noteq> FormWorkspace then ([], errors @ [packageFile root @ '': Expected a workspace declaration.''])
        else fold (listMember fs root) (members manifest) ([], errors))"

section \<open>The registry\<close>

definition mkRegistry :: "FileSystem \<Rightarrow> path \<Rightarrow> WorkspaceRegistry" where
  "mkRegistry fs standardLibrary = \<lparr>rg_owned = [], rg_byFolder = Map.empty, rg_manifests = Map.empty,
     rg_memberIndexes = Map.empty, rg_overrides = [], rg_gitPackages = Map.empty, rg_noticedOverrides = [],
     rg_errors = [], rg_notices = [],
     rg_standardLibraryKey = (if standardLibrary = [] then [] else canonicalFolderKey fs standardLibrary)\<rparr>"

definition rg_error :: "string \<Rightarrow> WorkspaceRegistry \<Rightarrow> WorkspaceRegistry" where
  "rg_error msg r = r\<lparr>rg_errors := rg_errors r @ [msg]\<rparr>"

text \<open>\<open>create\<close>: the new workspace is the last one owned.\<close>

definition newWorkspace :: "path \<Rightarrow> path \<Rightarrow> path \<Rightarrow> u16string \<Rightarrow> Workspace" where
  "newWorkspace folder srcRoot testsRoot prefix = \<lparr>ws_root = folder, ws_srcRoot = srcRoot, ws_testsRoot = testsRoot,
     ws_packagePrefix = prefix, ws_deps = [], ws_hasPackageManifest = False, ws_isWorkspaceRoot = False,
     ws_manifestPath = [], ws_packageName = [], ws_natives = [], ws_nativeNames = []\<rparr>"

definition rg_create :: "path \<Rightarrow> path \<Rightarrow> path \<Rightarrow> u16string \<Rightarrow> WorkspaceRegistry \<Rightarrow> wsid \<times> WorkspaceRegistry" where
  "rg_create folder srcRoot testsRoot prefix r =
     (length (rg_owned r), r\<lparr>rg_owned := rg_owned r @ [newWorkspace folder srcRoot testsRoot prefix]\<rparr>)"

text \<open>A \<open>Workspace&\<close> that is written to: its entry is replaced.\<close>

definition rg_update :: "wsid \<Rightarrow> Workspace \<Rightarrow> WorkspaceRegistry \<Rightarrow> WorkspaceRegistry" where
  "rg_update w ws r = r\<lparr>rg_owned := (rg_owned r)[w := ws]\<rparr>"

definition manifestFor :: "FileSystem \<Rightarrow> path \<Rightarrow> WorkspaceRegistry \<Rightarrow> Manifest \<times> WorkspaceRegistry" where
  "manifestFor fs manifestFile r =
     (let key = canonicalFolderKey fs manifestFile in
      case rg_manifests r key of Some m \<Rightarrow> (m, r)
      | None \<Rightarrow> (case loadManifestFile (fs_read fs) manifestFile (rg_errors r) of
           (m, errors) \<Rightarrow> (m, r\<lparr>rg_errors := errors, rg_manifests := (rg_manifests r)(key \<mapsto> m)\<rparr>)))"

definition indexMember ::
    "FileSystem \<Rightarrow> path \<Rightarrow> ManifestMember \<Rightarrow> MemberIndex \<times> WorkspaceRegistry \<Rightarrow> MemberIndex \<times> WorkspaceRegistry" where
  "indexMember fs folder member s =
     (case s of (index, r) \<Rightarrow>
        let at = positionOf (packageFile folder) (me_line member) (me_column member);
            mf = memberFolder folder member in
        if \<not> fs_exists fs (packageFile mf) then (index, rg_error (at @ memberMissing member) r)
        else case manifestFor fs (packageFile mf) r of (declaration, r) \<Rightarrow>
          if form declaration \<noteq> FormPackage then (index, rg_error (at @ memberNoPackage member) r)
          else case map_of (mx_foldersByName index) (packageName declaration) of
            Some existing \<Rightarrow> (index, rg_error (at @ memberTwice existing mf (packageName declaration)) r)
          | None \<Rightarrow> (index\<lparr>mx_foldersByName := emplace (packageName declaration) mf (mx_foldersByName index),
              mx_memberFolderKeys := List.insert (canonicalFolderKey fs mf) (mx_memberFolderKeys index)\<rparr>, r))"

definition memberIndexFor :: "FileSystem \<Rightarrow> path \<Rightarrow> WorkspaceRegistry \<Rightarrow> MemberIndex \<times> WorkspaceRegistry" where
  "memberIndexFor fs folder r =
     (let key = canonicalFolderKey fs folder; empty = \<lparr>mx_isWorkspace = False, mx_foldersByName = [], mx_memberFolderKeys = []\<rparr> in
      case rg_memberIndexes r key of Some index \<Rightarrow> (index, r)
      | None \<Rightarrow>
          (case (if fs_exists fs (packageFile folder)
                 then (case manifestFor fs (packageFile folder) r of (manifest, r) \<Rightarrow>
                   if form manifest = FormWorkspace
                   then fold (indexMember fs folder) (members manifest) (empty\<lparr>mx_isWorkspace := True\<rparr>, r)
                   else (empty, r))
                 else (empty, r)) of
             (index, r) \<Rightarrow> (index, r\<lparr>rg_memberIndexes := (rg_memberIndexes r)(key \<mapsto> index)\<rparr>)))"

fun enclosingFrom :: "FileSystem \<Rightarrow> string \<Rightarrow> path list \<Rightarrow> WorkspaceRegistry \<Rightarrow> MemberIndex option \<times> WorkspaceRegistry" where
  "enclosingFrom fs packageKey [] r = (None, r)"
| "enclosingFrom fs packageKey (d # ds) r =
     (if d = [] then (None, r)
      else if fs_exists fs (packageFile d) then
        (case memberIndexFor fs d r of (index, r) \<Rightarrow>
           if mx_isWorkspace index then (if packageKey \<in> set (mx_memberFolderKeys index) then Some index else None, r)
           else enclosingFrom fs packageKey ds r)
      else enclosingFrom fs packageKey ds r)"

definition enclosingMemberIndex :: "FileSystem \<Rightarrow> path \<Rightarrow> WorkspaceRegistry \<Rightarrow> MemberIndex option \<times> WorkspaceRegistry" where
  "enclosingMemberIndex fs packageFolder r =
     (let folder = startFolder fs packageFolder in
      enclosingFrom fs (canonicalFolderKey fs folder) (ancestorsOf (parentPath folder)) r)"

section \<open>Dependencies\<close>

definition reservedPackageNameMessage :: string where
  "reservedPackageNameMessage = ''The package name 'std' is reserved for the standard library, which programs import as '@std'. Rename this package, as in 'package acme.tools'.''"

definition versionlessMessage :: "ManifestDependency \<Rightarrow> string" where
  "versionlessMessage d = ''Dependency '' @ apostrophed (de_name d) @
     '' declares no version; a dependency is versionless only when it resolves to a workspace member. Add the version this package requires, for example 'dependency '' @
     de_name d @ '' '' @ doubleQuoted ''1.0'' @ '';'.''"

definition memberUseMessage :: "ManifestDependency \<Rightarrow> path \<Rightarrow> string \<Rightarrow> string" where
  "memberUseMessage d folder what = ''Dependency '' @ apostrophed (de_name d) @ '' resolves to the workspace member at '' @ folder @
     ''; a member is used as-is, so remove the '' @ what @ ''.''"

definition unfetchedMessage :: "ManifestDependency \<Rightarrow> string" where
  "unfetchedMessage d = ''Dependency '' @ apostrophed (de_name d) @
     '' names a git source that was not fetched for this build; git sources are fetched by the ens build, check, run, and test commands. To use a local copy instead, point an override at a checkout with 'ens override add '' @
     de_name d @ '' <folder>'.''"

definition noSourceMessage :: "ManifestDependency \<Rightarrow> string" where
  "noSourceMessage d = ''No source for package '' @ apostrophed (de_name d) @
     '': it is not a member of the enclosing workspace, no override redirects it, and it names no git source. Add a from clause with the package's git URL, for example 'dependency '' @
     de_name d @ '' '' @ doubleQuoted ''1.0'' @ '' from '' @ doubleQuoted ''https://github.com/owner/repo.git'' @ '';', or point an override at a local folder.''"

text \<open>The state of the loop: the enclosing index, computed when it is first needed, the workspace and the registry.\<close>

definition addDep :: "ManifestDependency \<Rightarrow> path \<Rightarrow> Workspace \<Rightarrow> Workspace" where
  "addDep d folder ws = ws\<lparr>ws_deps := emplace (toU16 (de_name d)) folder (ws_deps ws)\<rparr>"

definition rg_errorIf :: "bool \<Rightarrow> string \<Rightarrow> WorkspaceRegistry \<Rightarrow> WorkspaceRegistry" where
  "rg_errorIf b msg r = (if b then rg_error msg r else r)"

definition resolveDependency ::
    "FileSystem \<Rightarrow> ManifestDependency \<Rightarrow> MemberIndex option option \<times> Workspace \<times> WorkspaceRegistry \<Rightarrow>
     MemberIndex option option \<times> Workspace \<times> WorkspaceRegistry" where
  "resolveDependency fs d s =
     (case s of (enclosing, ws, r) \<Rightarrow>
        let at = positionOf (ws_manifestPath ws) (de_line d) (de_column d) in
        case map_of (rg_overrides r) (de_name d) of
          Some folder \<Rightarrow> (enclosing, addDep d folder ws, rg_errorIf (\<not> de_hasVersion d) (at @ versionlessMessage d) r)
        | None \<Rightarrow>
          (case (case enclosing of Some e \<Rightarrow> (e, r) | None \<Rightarrow> enclosingMemberIndex fs (ws_root ws) r) of (e, r) \<Rightarrow>
             case (case e of None \<Rightarrow> None | Some index \<Rightarrow> map_of (mx_foldersByName index) (de_name d)) of
               Some folder \<Rightarrow> (Some e, addDep d folder ws,
                 rg_errorIf (de_hasSource d) (at @ memberUseMessage d folder ''from clause'')
                   (rg_errorIf (de_hasVersion d) (at @ memberUseMessage d folder (''version '' @ doubleQuoted (de_version d))) r))
             | None \<Rightarrow>
                 (case rg_gitPackages r (de_name d) of
                    Some folder \<Rightarrow> (Some e, addDep d folder ws, rg_errorIf (\<not> de_hasVersion d) (at @ versionlessMessage d) r)
                  | None \<Rightarrow> (Some e, ws, rg_error (at @ (if de_hasSource d then unfetchedMessage d else noSourceMessage d)) r))))"

definition resolveDependencies :: "FileSystem \<Rightarrow> Manifest \<Rightarrow> Workspace \<Rightarrow> WorkspaceRegistry \<Rightarrow> Workspace \<times> WorkspaceRegistry" where
  "resolveDependencies fs manifest ws r = snd (fold (resolveDependency fs) (dependencies manifest) (None, ws, r))"

definition applyPackageManifest ::
    "FileSystem \<Rightarrow> Manifest \<Rightarrow> bool \<Rightarrow> Workspace \<Rightarrow> WorkspaceRegistry \<Rightarrow> Workspace \<times> WorkspaceRegistry" where
  "applyPackageManifest fs manifest isRoot ws r =
     (let isLibrary = canonicalFolderKey fs (ws_root ws) = rg_standardLibraryKey r \<or> (isRoot \<and> holdsPrelude fs (ws_srcRoot ws));
          r1 = rg_errorIf (packageName manifest = ''std'' \<and> \<not> isLibrary)
            (positionOf (ws_manifestPath ws) (packageNameLine manifest) (packageNameColumn manifest) @ reservedPackageNameMessage) r
      in resolveDependencies fs manifest
           (ws\<lparr>ws_hasPackageManifest := True, ws_packageName := toU16 (packageName manifest), ws_natives := natives manifest,
               ws_nativeNames := ws_nativeNames ws @ map (\<lambda>n. toU16 (na_name n)) (natives manifest)\<rparr>) r1)"

definition setResolvedGitPackages :: "(string \<rightharpoonup> path) \<Rightarrow> WorkspaceRegistry \<Rightarrow> WorkspaceRegistry" where
  "setResolvedGitPackages folders r = r\<lparr>rg_gitPackages := folders\<rparr>"

section \<open>Overrides\<close>

definition loadOverride :: "FileSystem \<Rightarrow> path \<Rightarrow> string \<Rightarrow> ManifestOverride \<Rightarrow> WorkspaceRegistry \<Rightarrow> WorkspaceRegistry" where
  "loadOverride fs rootFolder filePath ov r =
     (let at = positionOf filePath (ov_line ov) (ov_column ov);
          target = lexicallyNormal (pathAppend rootFolder (ov_folder ov));
          start = at @ ''The override for package '' @ apostrophed (ov_name ov) @ '' points at '' @ target in
      if \<not> fs_exists fs (packageFile target) then rg_error (start @ '', which has no ens.package manifest.'') r
      else case manifestFor fs (packageFile target) r of (declaration, r) \<Rightarrow>
        if form declaration \<noteq> FormPackage then rg_error (start @ '', which does not declare a package.'') r
        else if packageName declaration \<noteq> ov_name ov then
          rg_error (start @ '', which declares package '' @ apostrophed (packageName declaration) @ '' instead; the names must match exactly.'') r
        else r\<lparr>rg_overrides := emplace (ov_name ov) target (rg_overrides r)\<rparr>)"

definition loadRootOverrides :: "FileSystem \<Rightarrow> path \<Rightarrow> WorkspaceRegistry \<Rightarrow> WorkspaceRegistry" where
  "loadRootOverrides fs rootFolder r =
     (let file = pathAppend rootFolder ''ens.overrides'' in
      if \<not> fs_exists fs file then r
      else case manifestFor fs file r of (manifest, r) \<Rightarrow>
        if form manifest \<noteq> FormOverrides \<and> form manifest \<noteq> FormNone then
          rg_error (file @ '': An ens.overrides file holds a single overrides declaration; packages and workspaces are declared in ens.package.'') r
        else fold (loadOverride fs rootFolder file) (overrides manifest) r)"

definition noticeOverrideUse :: "string \<Rightarrow> path \<Rightarrow> WorkspaceRegistry \<Rightarrow> WorkspaceRegistry" where
  "noticeOverrideUse name folder r =
     (if name \<in> set (rg_noticedOverrides r) then r
      else r\<lparr>rg_noticedOverrides := rg_noticedOverrides r @ [name],
             rg_notices := rg_notices r @ [''Using the override for package '' @ apostrophed name @ '' at '' @ folder @ ''.'']\<rparr>)"

section \<open>Workspaces of a build\<close>

text \<open>\<open>byFolder_.emplace\<close>\<close>

definition registerFolder :: "string \<Rightarrow> wsid \<Rightarrow> WorkspaceRegistry \<Rightarrow> WorkspaceRegistry" where
  "registerFolder key w r = (if rg_byFolder r key = None then r\<lparr>rg_byFolder := (rg_byFolder r)(key \<mapsto> w)\<rparr> else r)"

definition defineRoot ::
    "FileSystem \<Rightarrow> path \<Rightarrow> path \<Rightarrow> path \<Rightarrow> bool \<Rightarrow> path \<Rightarrow> WorkspaceRegistry \<Rightarrow> wsid \<times> WorkspaceRegistry" where
  "defineRoot fs folder srcRoot testsRoot withManifest overridesFolder r =
     (case rg_create folder srcRoot testsRoot [] r of (w, r) \<Rightarrow>
        let r = registerFolder (canonicalFolderKey fs folder) w r in
        if \<not> withManifest then (w, r)
        else
          let ws = (rg_owned r ! w)\<lparr>ws_manifestPath := packageFile folder\<rparr> in
          case manifestFor fs (packageFile folder) r of (manifest, r) \<Rightarrow>
            let r = loadRootOverrides fs (if overridesFolder = [] then folder else overridesFolder) r in
            (case form manifest of
               FormPackage \<Rightarrow> (case applyPackageManifest fs manifest True ws r of (ws, r) \<Rightarrow> (w, rg_update w ws r))
             | FormWorkspace \<Rightarrow> (w, snd (memberIndexFor fs folder (rg_update w (ws\<lparr>ws_isWorkspaceRoot := True\<rparr>) r)))
             | FormOverrides \<Rightarrow> (w, rg_error (ws_manifestPath ws @
                 '': An ens.package file holds a package or workspace declaration; overrides live in the ens.overrides file next to it.'') (rg_update w ws r))
             | FormNone \<Rightarrow> (w, rg_error (ws_manifestPath ws @ '': Expected a 'package' or 'workspace' declaration.'') (rg_update w ws r))))"

definition getOrLoad :: "FileSystem \<Rightarrow> path \<Rightarrow> u16string \<Rightarrow> WorkspaceRegistry \<Rightarrow> wsid \<times> WorkspaceRegistry" where
  "getOrLoad fs folder prefix r =
     (let key = canonicalFolderKey fs folder;
          r = (case find (\<lambda>(name, f). canonicalFolderKey fs f = key) (rg_overrides r) of
                 Some (name, f) \<Rightarrow> noticeOverrideUse name f r | None \<Rightarrow> r) in
      case rg_byFolder r key of Some w \<Rightarrow> (w, r)
      | None \<Rightarrow>
          (case rg_create folder (pathAppend folder ''src'') [] prefix r of (w, r) \<Rightarrow>
             let r = registerFolder key w r; ws = (rg_owned r ! w)\<lparr>ws_manifestPath := packageFile folder\<rparr> in
             if \<not> fs_exists fs (packageFile folder) then
               (w, rg_error (''Package folder '' @ folder @ '' has no ens.package manifest.'') (rg_update w ws r))
             else case manifestFor fs (packageFile folder) r of (manifest, r) \<Rightarrow>
               if form manifest = FormPackage then
                 (case applyPackageManifest fs manifest False ws r of (ws, r) \<Rightarrow> (w, rg_update w ws r))
               else (w, rg_error (ws_manifestPath ws @
                 '': Expected a package declaration; a package consumed as a dependency cannot hold a workspace or overrides declaration.'') (rg_update w ws r))))"

definition collectNatives :: "WorkspaceRegistry \<Rightarrow> CollectedNative list" where
  "collectNatives r = concat (map (\<lambda>ws. map (\<lambda>n. \<lparr>cn_native = n, cn_declaredIn = ws_manifestPath ws\<rparr>) (ws_natives ws)) (rg_owned r))"

end
