(* ===== verification/ModuleGraphs.thy ===== *)
theory ModuleGraphs
  imports Workspaces ParserMain
begin

text \<open>
  Building the graph of modules: \<open>module/ModuleGraph.h\<close>, \<open>module/ModuleGraph.cpp\<close> up to the analysis, and the
  paths of \<open>semantic/ImplicitImports.h\<close>.

  The modules are the vector that is filled; a \<open>Module*\<close> is an index into it. What goes to \<open>std::cerr\<close> is kept as a list of
  lines. The overrides are a map from keys to text, the empty map when there are none.
\<close>

section \<open>Data\<close>

record Module =
  mo_modulePath :: u16string
  mo_absolutePath :: path
  mo_relativePath :: path
  mo_packagePrefix :: u16string
  mo_restrictNatives :: bool
  mo_declaredNatives :: "u16string list"
  mo_manifestPath :: string
  mo_source :: SourceFile
  mo_sink :: DiagnosticSink
  mo_cstRoot :: GreenElement
  mo_rootNode :: SyntaxNode

type_synonym SourceOverrides = "string \<rightharpoonup> u16string"

definition kImplicitImportPaths :: "u16string list" where
  "kImplicitImportPaths = [u16 ''std.core'']"

definition kBindingModulePaths :: "u16string list" where
  "kBindingModulePaths = [u16 ''std.text.string'', u16 ''std.text.numbers'']"

section \<open>Paths and module paths\<close>

definition charOf16 :: "char16 \<Rightarrow> char" where
  "charOf16 c = (if c < 128 then char_of (unat c) else CHR ''?'')"

definition moduleAscii :: "u16string \<Rightarrow> string" where
  "moduleAscii s = map charOf16 s"

definition modulePathOfRelative :: "path \<Rightarrow> u16string" where
  "modulePathOfRelative relative =
     joinSegments (map toU16 (filter (\<lambda>s. s \<noteq> [] \<and> s \<noteq> ''.'') (pathParts (replaceExtension relative []))))"

fun relativeLoop :: "u16string \<Rightarrow> path \<Rightarrow> string \<Rightarrow> path" where
  "relativeLoop [] rel segment = (if segment \<noteq> [] then pathAppend rel segment else rel)"
| "relativeLoop (c # cs) rel segment =
     (if c = 0x2E then (if segment \<noteq> [] then relativeLoop cs (pathAppend rel segment) [] else relativeLoop cs rel segment)
      else relativeLoop cs rel (segment @ [charOf16 c]))"

definition relativeFromModulePath :: "u16string \<Rightarrow> path" where
  "relativeFromModulePath modulePath =
     (let rel = relativeLoop modulePath [] [] in if rel \<noteq> [] then replaceExtension rel ''.ens'' else rel)"

definition filenameChar :: "char16 \<Rightarrow> bool" where
  "filenameChar c = ((0x61 \<le> c \<and> c \<le> 0x7A) \<or> (0x41 \<le> c \<and> c \<le> 0x5A) \<or> (0x30 \<le> c \<and> c \<le> 0x39) \<or> c = 0x5F \<or> c = 0x2E)"

definition sanitizeForFilename :: "u16string \<Rightarrow> string" where
  "sanitizeForFilename s =
     (let out = map (\<lambda>c. if filenameChar c then char_of (unat c) else CHR ''_'') s in if out = [] then ''module'' else out)"

definition overrideKey :: "FileSystem \<Rightarrow> path \<Rightarrow> string" where
  "overrideKey fs absolute = (case fs_canonical fs absolute of Some p \<Rightarrow> p | None \<Rightarrow> lexicallyNormal absolute)"

definition isStdlibPath :: "u16string \<Rightarrow> bool" where
  "isStdlibPath modulePath = (modulePath = u16 ''std'' \<or> take 4 modulePath = u16 ''std.'')"

definition canonicalModulePath :: "Workspace \<Rightarrow> path \<Rightarrow> u16string" where
  "canonicalModulePath ws rel =
     (let mp = modulePathOfRelative rel in if ws_packagePrefix ws = [] then mp else ws_packagePrefix ws @ 0x2E # mp)"

definition stdlibRelativePath :: "u16string \<Rightarrow> path" where
  "stdlibRelativePath modulePath = relativeFromModulePath (drop 4 modulePath)"

definition findStdlibRoot :: "FileSystem \<Rightarrow> path" where
  "findStdlibRoot fs =
     (case (case fs_getenv fs ''ENS_STDLIB'' of Some root \<Rightarrow> if root \<noteq> [] \<and> fs_exists fs root then Some root else None | None \<Rightarrow> None) of
        Some root \<Rightarrow> root
      | None \<Rightarrow> (case fs_currentPath fs of None \<Rightarrow> []
         | Some dir \<Rightarrow> (case find (\<lambda>d. fs_exists fs (pathAppend (pathAppend (pathAppend d ''libs'') ''std'') ''ens.package'')) (ancestorsOf dir) of
             Some d \<Rightarrow> pathAppend d ''libs'' | None \<Rightarrow> [])))"

definition standardLibraryFolder :: "path \<Rightarrow> path" where
  "standardLibraryFolder stdlibRoot = (if stdlibRoot = [] then [] else pathAppend stdlibRoot ''std'')"

section \<open>Loading a module\<close>

definition readFileToU16 :: "FileSystem \<Rightarrow> path \<Rightarrow> string + u16string" where
  "readFileToU16 fs p =
     (case fs_read fs p of None \<Rightarrow> Inl []
      | Some code \<Rightarrow> (case decodeUtf8ToUtf16 code of (s, None) \<Rightarrow> Inr s | (s, Some e) \<Rightarrow> Inl (describeUtf8DecodeError e)))"

text \<open>Parsing returns on every source (\<open>parse_lossless\<close>).\<close>

definition parsedModule :: "u16string \<Rightarrow> path \<Rightarrow> path \<Rightarrow> u16string \<Rightarrow> Module" where
  "parsedModule modulePath absolute relative code =
     (case the (parse code []) of (root, sink) \<Rightarrow>
        \<lparr>mo_modulePath = modulePath, mo_absolutePath = absolute, mo_relativePath = relative, mo_packagePrefix = [],
         mo_restrictNatives = False, mo_declaredNatives = [], mo_manifestPath = [],
         mo_source = mkSourceFile absolute code, mo_sink = sink, mo_cstRoot = root, mo_rootNode = makeRoot root\<rparr>)"

definition loadModule :: "FileSystem \<Rightarrow> path \<Rightarrow> path \<Rightarrow> u16string \<Rightarrow> string + Module" where
  "loadModule fs sourceRoot relativePath modulePath =
     (let absolute = pathAppend sourceRoot relativePath in
      case readFileToU16 fs absolute of
        Inl readError \<Rightarrow> Inl (if readError = [] then ''ERROR: Couldn't read '' @ absolute else ''ERROR: '' @ absolute @ '': '' @ readError)
      | Inr code \<Rightarrow> Inr (parsedModule modulePath absolute relativePath code))"

definition makeInMemoryModule :: "u16string \<Rightarrow> string \<Rightarrow> u16string \<Rightarrow> Module" where
  "makeInMemoryModule modulePath fname code = parsedModule modulePath fname fname code"

definition loadOrOverride :: "FileSystem \<Rightarrow> path \<Rightarrow> path \<Rightarrow> u16string \<Rightarrow> SourceOverrides \<Rightarrow> string + Module" where
  "loadOrOverride fs base rel mp ov =
     (case ov (overrideKey fs (pathAppend base rel)) of
        Some code \<Rightarrow> Inr ((makeInMemoryModule mp (pathAppend base rel) code)
          \<lparr>mo_absolutePath := pathAppend base rel, mo_relativePath := rel\<rparr>)
      | None \<Rightarrow> loadModule fs base rel mp)"

section \<open>The work list\<close>

record WorkItem =
  wi_ws :: wsid
  wi_base :: path
  wi_rel :: path
  wi_canonical :: u16string

record GraphState =
  gs_registry :: WorkspaceRegistry
  gs_queued :: "u16string list"
  gs_work :: "WorkItem list"
  gs_modules :: "Module list"
  gs_byPath :: "u16string \<rightharpoonup> nat"
  gs_cerr :: "string list"

definition enqueue :: "wsid \<Rightarrow> path \<Rightarrow> path \<Rightarrow> u16string \<Rightarrow> GraphState \<Rightarrow> GraphState" where
  "enqueue w base rel canonical g =
     (if canonical = [] \<or> canonical \<in> set (gs_queued g) then g
      else g\<lparr>gs_queued := canonical # gs_queued g,
             gs_work := gs_work g @ [\<lparr>wi_ws = w, wi_base = base, wi_rel = rel, wi_canonical = canonical\<rparr>]\<rparr>)"

definition moduleReport :: "nat \<Rightarrow> ImportDecl \<Rightarrow> string \<Rightarrow> GraphState \<Rightarrow> GraphState" where
  "moduleReport i imp msg g =
     (let m = gs_modules g ! i in
      case offsetToPosition (mo_source m) (startOffset imp) of (ln, col) \<Rightarrow>
        g\<lparr>gs_modules := (gs_modules g)[i := m\<lparr>mo_sink := sinkError (mo_sink m) (mkSpan ln col 1) msg\<rparr>]\<rparr>)"

definition sourcePresent :: "FileSystem \<Rightarrow> SourceOverrides \<Rightarrow> path \<Rightarrow> bool" where
  "sourcePresent fs ov candidate = (fs_exists fs candidate \<or> ov (overrideKey fs candidate) \<noteq> None)"

section \<open>Resolving an import\<close>

text \<open>What an import names: nothing to load, a message for its place, or a file of a workspace.\<close>

datatype ImportTarget =
    Ignored
  | Rejected string
  | Target wsid path path u16string

definition noPackageMessage :: "Workspace \<Rightarrow> u16string \<Rightarrow> string" where
  "noPackageMessage ws modPath =
     (if ws_hasPackageManifest ws then ''Package '' @ apostrophed (moduleAscii modPath) @ '' is not declared as a dependency in '' @ ws_manifestPath ws @ ''.''
      else if ws_isWorkspaceRoot ws then ''Package '' @ apostrophed (moduleAscii modPath) @
        '' is not available here: these sources sit under the workspace at '' @ ws_manifestPath ws @
        '' but not inside a member package, so only '@std' is importable.''
      else ''External package '' @ apostrophed (moduleAscii modPath) @
        '' is not available; these sources have no ens.package manifest (only '@std' is built in).'')"

text \<open>A bare path stays in the workspace; the root's tests fall back to the tests folder.\<close>

definition localTarget :: "FileSystem \<Rightarrow> SourceOverrides \<Rightarrow> wsid \<Rightarrow> Workspace \<Rightarrow> u16string \<Rightarrow> ImportTarget" where
  "localTarget fs ov w ws modPath =
     (let rel = relativeFromModulePath modPath; canonical = canonicalModulePath ws rel;
          underSource = sourcePresent fs ov (pathAppend (ws_srcRoot ws) rel);
          underTests = sourcePresent fs ov (pathAppend (ws_testsRoot ws) rel) in
      if ws_testsRoot ws = [] then Target w (ws_srcRoot ws) rel canonical
      else if underSource \<and> underTests then
        Rejected (''Module '' @ apostrophed (moduleAscii modPath) @ '' exists under both the source folder and the tests folder; rename one of the files.'')
      else Target w (if underTests then ws_testsRoot ws else ws_srcRoot ws) rel canonical)"

definition resolveImport ::
    "FileSystem \<Rightarrow> SourceOverrides \<Rightarrow> path \<Rightarrow> wsid \<Rightarrow> bool \<Rightarrow> u16string list \<Rightarrow> WorkspaceRegistry \<Rightarrow> ImportTarget \<times> WorkspaceRegistry" where
  "resolveImport fs ov stdlibRoot w isPackage segs r =
     (let ws = rg_owned r ! w; modPath = joinSegments segs in
      if segs = [] then (Ignored, r)
      else if isPackage then
        (if hd segs = u16 ''std'' then
           (if stdlibRoot = [] then (Rejected ''Cannot find the standard library. Set ENS_STDLIB to the directory containing 'std/' (normally <repo>/libs).'', r)
            else if length segs = 1 then (Rejected ''Import a module within package 'std', not the package itself.'', r)
            else case getOrLoad fs (pathAppend stdlibRoot ''std'') (u16 ''std'') r of (t, r) \<Rightarrow>
              (Target t (ws_srcRoot (rg_owned r ! t)) (relativeFromModulePath (joinSegments (drop 1 segs))) modPath, r))
         else case matchPackage (ws_deps ws) segs of
           None \<Rightarrow> (Rejected (noPackageMessage ws modPath), r)
         | Some match \<Rightarrow>
             if pm_segmentCount match = length segs then
               (Rejected (''Import a module within package '' @ apostrophed (moduleAscii modPath) @ '', not the package itself.''), r)
             else case getOrLoad fs (pm_folder match) (joinSegments (take (pm_segmentCount match) segs)) r of (t, r) \<Rightarrow>
               (Target t (ws_srcRoot (rg_owned r ! t)) (relativeFromModulePath (joinSegments (drop (pm_segmentCount match) segs))) modPath, r))
      else if isStdlibPath modPath then
        (Rejected (''Import the standard library as a package: write '' @ apostrophed (CHR ''@'' # moduleAscii modPath) @ ''.''), r)
      else (localTarget fs ov w ws modPath, r))"

definition notFoundMessage :: "WorkspaceRegistry \<Rightarrow> wsid \<Rightarrow> wsid \<Rightarrow> u16string \<Rightarrow> path \<Rightarrow> path \<Rightarrow> string" where
  "notFoundMessage r w target modPath absolute rel =
     (if ws_packagePrefix (rg_owned r ! target) = u16 ''std'' then ''Cannot find standard library module '' @ apostrophed (moduleAscii modPath) @
        ''. Set ENS_STDLIB to the directory containing 'std/' (normally <repo>/libs).''
      else ''Cannot find module '' @ apostrophed (moduleAscii modPath) @ '' (looked for '' @ absolute @
        (if target = w \<and> ws_testsRoot (rg_owned r ! w) \<noteq> [] then '' and '' @ pathAppend (ws_testsRoot (rg_owned r ! w)) rel else []) @ '')'')"

text \<open>One import of the module \<open>i\<close>, which belongs to the workspace \<open>w\<close>.\<close>

definition processImport ::
    "FileSystem \<Rightarrow> SourceOverrides \<Rightarrow> path \<Rightarrow> nat \<Rightarrow> wsid \<Rightarrow> ImportDecl \<Rightarrow> GraphState \<Rightarrow> GraphState" where
  "processImport fs ov stdlibRoot i w imp g =
     (case resolveImport fs ov stdlibRoot w (ImportDecl_isPackage imp) (ImportDecl_pathSegments imp) (gs_registry g) of (target, r) \<Rightarrow>
        let g = g\<lparr>gs_registry := r\<rparr> in
        case target of Ignored \<Rightarrow> g
        | Rejected msg \<Rightarrow> moduleReport i imp msg g
        | Target t base rel canonical \<Rightarrow>
            if canonical = [] \<or> canonical \<in> set (gs_queued g) then g
            else let absolute = (if base = [] then [] else pathAppend base rel);
                     haveOverride = (absolute \<noteq> [] \<and> ov (overrideKey fs absolute) \<noteq> None) in
              if base = [] \<or> (\<not> haveOverride \<and> \<not> fs_exists fs absolute)
              then moduleReport i imp (notFoundMessage r w t (ImportDecl_modulePath imp) absolute rel) g
              else enqueue t base rel canonical g)"

section \<open>Building the graph\<close>

definition missingStdlib :: "u16string \<Rightarrow> string" where
  "missingStdlib canonical = ''ERROR: Cannot find the standard library. Every program needs it for the names module '' @
     apostrophed (moduleAscii canonical) @
     '' provides without an import. Set ENS_STDLIB to the directory containing 'std/' (normally <repo>/libs).''"

definition missingImplicit :: "u16string \<Rightarrow> path \<Rightarrow> string" where
  "missingImplicit canonical absolute = ''ERROR: Cannot find standard library module '' @ apostrophed (moduleAscii canonical) @
     '', which every program needs for the names it provides without an import (looked for '' @ absolute @
     ''). Set ENS_STDLIB to the directory containing 'std/' (normally <repo>/libs).''"

text \<open>The implicitly imported modules; \<open>False\<close> when one is missing.\<close>

fun enqueueImplicit :: "FileSystem \<Rightarrow> SourceOverrides \<Rightarrow> path \<Rightarrow> u16string list \<Rightarrow> GraphState \<Rightarrow> bool \<times> GraphState" where
  "enqueueImplicit fs ov stdlibRoot [] g = (True, g)"
| "enqueueImplicit fs ov stdlibRoot (canonical # cs) g =
     (if stdlibRoot = [] then (False, g\<lparr>gs_cerr := gs_cerr g @ [missingStdlib canonical]\<rparr>)
      else case getOrLoad fs (pathAppend stdlibRoot ''std'') (u16 ''std'') (gs_registry g) of (t, r) \<Rightarrow>
        let g = g\<lparr>gs_registry := r\<rparr>; base = ws_srcRoot (rg_owned r ! t); rel = stdlibRelativePath canonical;
            absolute = pathAppend base rel in
        if ov (overrideKey fs absolute) = None \<and> \<not> fs_exists fs absolute
        then (False, g\<lparr>gs_cerr := gs_cerr g @ [missingImplicit canonical absolute]\<rparr>)
        else enqueueImplicit fs ov stdlibRoot cs (enqueue t base rel canonical g))"

definition enqueueBinding :: "FileSystem \<Rightarrow> SourceOverrides \<Rightarrow> wsid \<Rightarrow> u16string \<Rightarrow> GraphState \<Rightarrow> GraphState" where
  "enqueueBinding fs ov t canonical g =
     (let base = ws_srcRoot (rg_owned (gs_registry g) ! t); rel = stdlibRelativePath canonical in
      if sourcePresent fs ov (pathAppend base rel) then enqueue t base rel canonical g else g)"

definition enqueueBindings :: "FileSystem \<Rightarrow> SourceOverrides \<Rightarrow> path \<Rightarrow> GraphState \<Rightarrow> GraphState" where
  "enqueueBindings fs ov stdlibRoot g =
     (if stdlibRoot = [] then g
      else case getOrLoad fs (pathAppend stdlibRoot ''std'') (u16 ''std'') (gs_registry g) of (t, r) \<Rightarrow>
        fold (enqueueBinding fs ov t) kBindingModulePaths (g\<lparr>gs_registry := r\<rparr>))"

text \<open>The seeds belong to the root workspace.\<close>

definition enqueueSeed :: "wsid \<Rightarrow> path \<times> path \<Rightarrow> GraphState \<Rightarrow> GraphState" where
  "enqueueSeed root seed g =
     enqueue root (fst seed) (snd seed) (canonicalModulePath (rg_owned (gs_registry g) ! root) (snd seed)) g"

definition ownedModule :: "Workspace \<Rightarrow> Module \<Rightarrow> Module" where
  "ownedModule ws m = m\<lparr>mo_packagePrefix := ws_packagePrefix ws, mo_restrictNatives := ws_hasPackageManifest ws,
     mo_declaredNatives := ws_nativeNames ws, mo_manifestPath := ws_manifestPath ws\<rparr>"

text \<open>One turn of the loop; \<open>False\<close> when the module cannot be read.\<close>

definition buildStep :: "FileSystem \<Rightarrow> SourceOverrides \<Rightarrow> path \<Rightarrow> WorkItem \<Rightarrow> GraphState \<Rightarrow> bool \<times> GraphState" where
  "buildStep fs ov stdlibRoot item g =
     (case loadOrOverride fs (wi_base item) (wi_rel item) (wi_canonical item) ov of
        Inl msg \<Rightarrow> (False, g\<lparr>gs_cerr := gs_cerr g @ [msg]\<rparr>)
      | Inr m \<Rightarrow>
          let i = length (gs_modules g);
              m = ownedModule (rg_owned (gs_registry g) ! wi_ws item) m;
              g = g\<lparr>gs_modules := gs_modules g @ [m],
                gs_byPath := (if gs_byPath g (wi_canonical item) = None then (gs_byPath g)(wi_canonical item \<mapsto> i) else gs_byPath g)\<rparr> in
          (True, case SourceFileView_cast (mo_rootNode m) of None \<Rightarrow> g
             | Some sf \<Rightarrow> fold (processImport fs ov stdlibRoot i (wi_ws item)) (SourceFileView_imports sf) g))"

partial_function (option) buildLoop :: "FileSystem \<Rightarrow> SourceOverrides \<Rightarrow> path \<Rightarrow> GraphState \<Rightarrow> (bool \<times> GraphState) option" where
  [code]: "buildLoop fs ov stdlibRoot g =
     (case gs_work g of [] \<Rightarrow> Some (True, g)
      | item # rest \<Rightarrow>
          (case buildStep fs ov stdlibRoot item (g\<lparr>gs_work := rest\<rparr>) of
             (ok, g) \<Rightarrow> if ok then buildLoop fs ov stdlibRoot g else Some (False, g)))"

definition startGraph :: "WorkspaceRegistry \<Rightarrow> Module list \<Rightarrow> (u16string \<rightharpoonup> nat) \<Rightarrow> GraphState" where
  "startGraph r modules byPath = \<lparr>gs_registry = r, gs_queued = [], gs_work = [], gs_modules = modules, gs_byPath = byPath, gs_cerr = []\<rparr>"

definition buildModuleGraphFromSeeds ::
    "FileSystem \<Rightarrow> SourceOverrides \<Rightarrow> path \<Rightarrow> wsid \<Rightarrow> (path \<times> path) list \<Rightarrow> GraphState \<Rightarrow> (bool \<times> GraphState) option" where
  "buildModuleGraphFromSeeds fs ov stdlibRoot root seeds g =
     (case enqueueImplicit fs ov stdlibRoot kImplicitImportPaths g of
        (False, g) \<Rightarrow> Some (False, g)
      | (True, g) \<Rightarrow> buildLoop fs ov stdlibRoot (fold (enqueueSeed root) seeds (enqueueBindings fs ov stdlibRoot g)))"

text \<open>\<open>buildModuleGraph\<close> with a list of relative seeds, and with no manifest at all.\<close>

definition buildModuleGraph :: "FileSystem \<Rightarrow> SourceOverrides \<Rightarrow> path \<Rightarrow> wsid \<Rightarrow> path list \<Rightarrow> GraphState \<Rightarrow> (bool \<times> GraphState) option" where
  "buildModuleGraph fs ov stdlibRoot root seedRelatives g =
     (let ws = rg_owned (gs_registry g) ! root; seedBase = (if ws_testsRoot ws = [] then ws_srcRoot ws else ws_testsRoot ws) in
      buildModuleGraphFromSeeds fs ov stdlibRoot root (map (\<lambda>r. (seedBase, r)) seedRelatives) g)"

definition buildStandaloneGraph ::
    "FileSystem \<Rightarrow> SourceOverrides \<Rightarrow> path \<Rightarrow> path \<Rightarrow> path \<Rightarrow> path list \<Rightarrow> (bool \<times> GraphState) option" where
  "buildStandaloneGraph fs ov stdlibRoot sourceRoot testsRoot seedRelatives =
     (case defineRoot fs sourceRoot sourceRoot testsRoot False [] (mkRegistry fs (standardLibraryFolder stdlibRoot)) of (root, r) \<Rightarrow>
        buildModuleGraph fs ov stdlibRoot root seedRelatives (startGraph r [] Map.empty))"

text \<open>The modules \<open>analyzeStandaloneSource\<close> hands to the analysis; the last one is the buffer. What goes to \<open>std::cerr\<close> is left out.\<close>

definition loadBest :: "FileSystem \<Rightarrow> Workspace \<Rightarrow> u16string \<Rightarrow> Module list \<Rightarrow> Module list" where
  "loadBest fs stdlib canonical modules =
     (let rel = stdlibRelativePath canonical in
      if \<not> fs_exists fs (pathAppend (ws_srcRoot stdlib) rel) then modules
      else case loadModule fs (ws_srcRoot stdlib) rel canonical of Inl _ \<Rightarrow> modules
        | Inr m \<Rightarrow> modules @ [ownedModule stdlib m])"

definition standaloneModules :: "FileSystem \<Rightarrow> path \<Rightarrow> u16string \<Rightarrow> string \<Rightarrow> u16string \<Rightarrow> Module list" where
  "standaloneModules fs stdlibRoot modulePath fname code =
     (if stdlibRoot = [] then []
      else case getOrLoad fs (pathAppend stdlibRoot ''std'') (u16 ''std'') (mkRegistry fs (standardLibraryFolder stdlibRoot)) of (t, r) \<Rightarrow>
        fold (loadBest fs (rg_owned r ! t)) (kImplicitImportPaths @ kBindingModulePaths) []) @
     [makeInMemoryModule modulePath fname code]"

end
