(* ===== verification/WorkspaceResolution.thy ===== *)
theory WorkspaceResolution
  imports Workspaces "HOL-Library.Sublist"
begin

text \<open>
  What \<open>Workspaces\<close> guarantees. A dotted name matches the longest prefix that names a dependency; reading
  manifests only appends problems; the folder of every dependency is the one its source gives (an override, then a
  member of the enclosing workspace, then a fetched git source); and the registry holds one workspace for each folder,
  which later loads leave as it is.
\<close>

section \<open>Names and packages\<close>

lemma matchFrom_iff:
  "matchFrom deps segments n = Some m \<longleftrightarrow>
     1 \<le> pm_segmentCount m \<and> pm_segmentCount m \<le> n \<and>
     map_of deps (joinSegments (take (pm_segmentCount m) segments)) = Some (pm_folder m) \<and>
     (\<forall>k. pm_segmentCount m < k \<and> k \<le> n \<longrightarrow> map_of deps (joinSegments (take k segments)) = None)"
proof (induction n)
  case (Suc n)
  show ?case
  proof (cases "map_of deps (joinSegments (take (Suc n) segments))")
    case None
    moreover have "pm_segmentCount m \<noteq> Suc n" if "map_of deps (joinSegments (take (pm_segmentCount m) segments)) = Some (pm_folder m)"
      using that None by auto
    ultimately show ?thesis using Suc by (auto simp: le_Suc_eq)
  next
    case (Some folder)
    have "pm_segmentCount m = Suc n" if "pm_segmentCount m \<le> Suc n"
      and "\<forall>k. pm_segmentCount m < k \<and> k \<le> Suc n \<longrightarrow> map_of deps (joinSegments (take k segments)) = None"
      using that Some by (metis le_neq_implies_less le_refl option.distinct(1))
    with Some show ?thesis by (cases m) auto
  qed
qed simp

lemma matchPackage_bound: "matchPackage deps segments = Some m \<Longrightarrow> pm_segmentCount m \<le> length segments"
  by (auto simp: matchPackage_def matchFrom_iff split: if_splits)

section \<open>What reading manifests keeps\<close>

text \<open>Reading appends problems and fills the caches of manifests and of members.\<close>

definition reads :: "WorkspaceRegistry \<Rightarrow> WorkspaceRegistry \<Rightarrow> bool" where
  "reads r r' \<longleftrightarrow> rg_owned r' = rg_owned r \<and> rg_byFolder r' = rg_byFolder r \<and> rg_overrides r' = rg_overrides r \<and>
     rg_gitPackages r' = rg_gitPackages r \<and> rg_standardLibraryKey r' = rg_standardLibraryKey r \<and> prefix (rg_errors r) (rg_errors r')"

interpretation reading: preorder_ops reads
  by unfold_locales (auto simp: reads_def)

lemma reads_error [simp]: "reads r (rg_error msg r)" "reads r (rg_errorIf b msg r)" "reads r r"
  by (simp_all add: reads_def rg_error_def rg_errorIf_def)

lemma reads_errors [simp]: "reads r (rg_errorIf b msg (rg_errorIf b' msg' r))" "rg_errors (rg_error msg r) = rg_errors r @ [msg]"
  by (simp_all add: reads_def rg_error_def rg_errorIf_def)

lemma manifestFor_reads: "reads r (snd (manifestFor fs file r))"
  using loadManifestFile_errors [where errors = "rg_errors r"]
  by (auto simp: manifestFor_def reads_def Let_def split: option.split prod.split)

lemma indexMember_reads: "reads (snd s) (snd (indexMember fs folder member s))"
proof -
  obtain index r where s: "s = (index, r)" by force
  let ?file = "packageFile (memberFolder folder member)"
  obtain d r' where m: "manifestFor fs ?file r = (d, r')" by force
  with manifestFor_reads have r: "reads r r'" by (metis snd_conv)
  have "reads r (rg_error e r')" for e using r by (rule reading.le_trans) simp
  with r show ?thesis by (simp add: s m indexMember_def Let_def split: option.split)
qed

text \<open>The same for the second component of a state, as the folds over members and dependencies carry it.\<close>

interpretation reading_snd: preorder_ops "\<lambda>s t. reads (snd s) (snd t)"
  by unfold_locales (auto intro: reading.le_trans)

lemma memberIndexFor_reads: "reads r (snd (memberIndexFor fs folder r))"
proof -
  obtain m r1 where m: "manifestFor fs (packageFile folder) r = (m, r1)" by force
  with manifestFor_reads have r1: "reads r r1" by (metis snd_conv)
  have r2: "reads r1 (snd (fold (indexMember fs folder) ms (ix, r1)))" for ms ix
    using reading_snd.fold_le [of ms "indexMember fs folder" "(ix, r1)"] by (simp add: indexMember_reads)
  have filled: "reads r (q\<lparr>rg_memberIndexes := f\<rparr>)" if "reads r q" for q f using that by (simp add: reads_def)
  show ?thesis
    using r1 reading.le_trans [OF r1 r2]
    by (auto simp: memberIndexFor_def Let_def m split_beta intro: filled split: option.split)
qed

lemma enclosingFrom_reads: "reads r (snd (enclosingFrom fs key ds r))"
proof (induction ds arbitrary: r)
  case (Cons d ds)
  obtain ix r1 where m: "memberIndexFor fs d r = (ix, r1)" by force
  with memberIndexFor_reads have "reads r r1" by (metis snd_conv)
  with Cons show ?case by (auto simp: m intro: reading.le_trans)
qed simp

lemma enclosingMemberIndex_reads: "reads r (snd (enclosingMemberIndex fs folder r))"
  by (simp add: enclosingMemberIndex_def Let_def enclosingFrom_reads)

section \<open>Problems found before make no difference\<close>

definition upToErrors :: "'a \<times> WorkspaceRegistry \<Rightarrow> 'a \<times> WorkspaceRegistry \<Rightarrow> bool" where
  "upToErrors s t \<longleftrightarrow> fst t = fst s \<and> (snd t)\<lparr>rg_errors := []\<rparr> = (snd s)\<lparr>rg_errors := []\<rparr>"

lemma upToErrors_intro: "upToErrors (a, r) (a, r\<lparr>rg_errors := es\<rparr>)"
  by (auto simp: upToErrors_def)

lemma upToErrors_cases:
  assumes "upToErrors (a, r) t"
  obtains es where "t = (a, r\<lparr>rg_errors := es\<rparr>)"
proof -
  obtain b q where t: "t = (b, q)" by force
  have "q = r\<lparr>rg_errors := rg_errors q\<rparr>" if "q\<lparr>rg_errors := []\<rparr> = r\<lparr>rg_errors := []\<rparr>"
    using that by (cases q; cases r) simp
  with assms t show ?thesis by (intro that [of "rg_errors q"]) (simp add: upToErrors_def)
qed

lemma rg_error_errors: "rg_error msg (r\<lparr>rg_errors := es\<rparr>) = (rg_error msg r)\<lparr>rg_errors := es @ [msg]\<rparr>"
  by (simp add: rg_error_def)

lemma manifestFor_upTo: "upToErrors (manifestFor fs file r) (manifestFor fs file (r\<lparr>rg_errors := es\<rparr>))"
proof (cases "rg_manifests r (canonicalFolderKey fs file)")
  case None
  obtain m new where "loadManifestFile (fs_read fs) file [] = (m, new)" by force
  then have "loadManifestFile (fs_read fs) file errors = (m, errors @ new)" for errors
    using loadManifestFile_errors [where errors = errors] by simp
  with None show ?thesis by (auto simp: manifestFor_def upToErrors_def)
qed (auto simp: manifestFor_def upToErrors_def)

lemma indexMember_upTo:
  assumes "upToErrors s t"
  shows "upToErrors (indexMember fs folder member s) (indexMember fs folder member t)"
proof -
  obtain ix r where s: "s = (ix, r)" by force
  with assms obtain es where t: "t = (ix, r\<lparr>rg_errors := es\<rparr>)" by (auto elim: upToErrors_cases)
  let ?file = "packageFile (memberFolder folder member)"
  obtain d q where m: "manifestFor fs ?file r = (d, q)" by force
  with manifestFor_upTo [of fs ?file r es] obtain es' where m': "manifestFor fs ?file (r\<lparr>rg_errors := es\<rparr>) = (d, q\<lparr>rg_errors := es'\<rparr>)"
    by (auto elim: upToErrors_cases)
  show ?thesis
    by (simp add: s t m m' indexMember_def Let_def rg_error_errors upToErrors_intro split: option.split)
qed

lemma fold_upTo:
  assumes "\<And>x s t. upToErrors s t \<Longrightarrow> upToErrors (f x s) (f x t)" and "upToErrors s t"
  shows "upToErrors (fold f xs s) (fold f xs t)"
  using assms(2) by (induction xs arbitrary: s t) (simp_all add: assms(1))

lemma memberIndexFor_upTo: "upToErrors (memberIndexFor fs folder r) (memberIndexFor fs folder (r\<lparr>rg_errors := es\<rparr>))"
proof -
  let ?file = "packageFile folder"
  obtain d q where m: "manifestFor fs ?file r = (d, q)" by force
  with manifestFor_upTo [of fs ?file r es] obtain es' where m': "manifestFor fs ?file (r\<lparr>rg_errors := es\<rparr>) = (d, q\<lparr>rg_errors := es'\<rparr>)"
    by (auto elim: upToErrors_cases)
  have f: "upToErrors (fold (indexMember fs folder) ms (ix, q)) (fold (indexMember fs folder) ms (ix, q\<lparr>rg_errors := es'\<rparr>))" for ms ix
    by (rule fold_upTo) (simp_all add: indexMember_upTo upToErrors_intro)
  have filled: "(snd t)\<lparr>rg_memberIndexes := (rg_memberIndexes (snd t))(k \<mapsto> ix), rg_errors := []\<rparr> =
      (snd s)\<lparr>rg_memberIndexes := (rg_memberIndexes (snd s))(k \<mapsto> ix), rg_errors := []\<rparr>"
    if "upToErrors s t" for s t :: "MemberIndex \<times> WorkspaceRegistry" and k ix
    using that by (cases s) (auto elim!: upToErrors_cases)
  show ?thesis
    using f f [THEN filled] by (auto simp: memberIndexFor_def Let_def m m' split_beta upToErrors_def split: option.split)
qed

lemma enclosingFrom_upTo: "upToErrors (enclosingFrom fs key ds r) (enclosingFrom fs key ds (r\<lparr>rg_errors := es\<rparr>))"
proof (induction ds arbitrary: r es)
  case (Cons d ds)
  obtain ix q where m: "memberIndexFor fs d r = (ix, q)" by force
  with memberIndexFor_upTo [of fs d r es] obtain es' where m': "memberIndexFor fs d (r\<lparr>rg_errors := es\<rparr>) = (ix, q\<lparr>rg_errors := es'\<rparr>)"
    by (auto elim: upToErrors_cases)
  show ?case using Cons by (simp add: m m' upToErrors_intro)
qed (simp add: upToErrors_intro)

lemma enclosingMemberIndex_upTo:
  "fst (enclosingMemberIndex fs folder (r\<lparr>rg_errors := es\<rparr>)) = fst (enclosingMemberIndex fs folder r)"
  using enclosingFrom_upTo [of fs _ _ r es] by (simp add: enclosingMemberIndex_def Let_def upToErrors_def)

section \<open>Where a package comes from\<close>

text \<open>An override, then a member of the enclosing workspace, then a fetched git source.\<close>

definition packageSource :: "FileSystem \<Rightarrow> path \<Rightarrow> WorkspaceRegistry \<Rightarrow> string \<Rightarrow> path option" where
  "packageSource fs folder r name =
     (case map_of (rg_overrides r) name of Some f \<Rightarrow> Some f
      | None \<Rightarrow> (case Option.bind (fst (enclosingMemberIndex fs folder r)) (\<lambda>ix. map_of (mx_foldersByName ix) name) of
          Some f \<Rightarrow> Some f
        | None \<Rightarrow> rg_gitPackages r name))"

text \<open>The state of the loop after some of the dependencies.\<close>

definition resolving ::
    "FileSystem \<Rightarrow> Workspace \<Rightarrow> WorkspaceRegistry \<Rightarrow> string set \<Rightarrow> MemberIndex option option \<times> Workspace \<times> WorkspaceRegistry \<Rightarrow> bool" where
  "resolving fs ws0 r0 names s \<longleftrightarrow>
     (case s of (e, ws, r) \<Rightarrow>
        reads r0 r \<and> (case e of None \<Rightarrow> \<exists>es. r = r0\<lparr>rg_errors := es\<rparr> | Some e \<Rightarrow> e = fst (enclosingMemberIndex fs (ws_root ws0) r0)) \<and>
        ws\<lparr>ws_deps := []\<rparr> = ws0\<lparr>ws_deps := []\<rparr> \<and>
        (\<forall>n. map_of (ws_deps ws) (toU16 n) = (if n \<in> names then packageSource fs (ws_root ws0) r0 n else None)) \<and>
        (\<forall>n \<in> names. packageSource fs (ws_root ws0) r0 n = None \<longrightarrow> rg_errors r \<noteq> rg_errors r0))"

lemma map_of_emplace: "map_of (emplace k v xs) k' = (if k' = k \<and> map_of xs k = None then Some v else map_of xs k')"
  by (auto simp: emplace_def map_add_def split: option.split)

lemma toU16_inj: "toU16 a = toU16 b \<longleftrightarrow> a = b"
proof -
  have "c = d" if "(of_char c :: char16) = of_char d" for c d
  proof -
    have "word_of_nat (of_char c) = (word_of_nat (of_char d) :: char16)" using that by (simp only: of_nat_of_char)
    then have "(of_char c :: nat) = of_char d"
      using nat_of_char_less_256 [of c] nat_of_char_less_256 [of d] by (simp add: word_of_nat_eq_iff take_bit_nat_eq_self)
    then show ?thesis by simp
  qed
  then have "inj (of_char :: char \<Rightarrow> char16)" by (rule injI)
  then show ?thesis by (simp add: toU16_def inj_map_eq_map)
qed

lemma addDep_keeps: "(addDep d f ws)\<lparr>ws_deps := []\<rparr> = ws\<lparr>ws_deps := []\<rparr>" "ws_deps (addDep d f ws) = emplace (toU16 (de_name d)) f (ws_deps ws)"
  by (simp_all add: addDep_def)

lemma errorIf_parts: "rg_overrides (rg_errorIf b m r) = rg_overrides r" "rg_gitPackages (rg_errorIf b m r) = rg_gitPackages r"
  "\<exists>es. rg_errorIf b m r = r\<lparr>rg_errors := es\<rparr>"
proof -
  show "\<exists>es. rg_errorIf b m r = r\<lparr>rg_errors := es\<rparr>"
    by (rule exI [of _ "rg_errors (rg_errorIf b m r)"]) (simp add: rg_errorIf_def rg_error_def)
qed (simp_all add: rg_errorIf_def rg_error_def)

lemma reads_keeps_problem: "reads r r' \<Longrightarrow> reads r' r'' \<Longrightarrow> rg_errors r' \<noteq> rg_errors r \<Longrightarrow> rg_errors r'' \<noteq> rg_errors r"
  by (auto simp: reads_def dest: prefix_order.antisym)

text \<open>One more name: the folder its source gives, or a new problem.\<close>

lemma resolving_insert:
  assumes s: "resolving fs ws0 r0 names (e, ws, r)" and r': "reads r r'"
    and e': "case e' of None \<Rightarrow> \<exists>es. r' = r0\<lparr>rg_errors := es\<rparr> | Some e \<Rightarrow> e = fst (enclosingMemberIndex fs (ws_root ws0) r0)"
    and ws': "case packageSource fs (ws_root ws0) r0 (de_name d) of Some f \<Rightarrow> ws' = addDep d f ws
      | None \<Rightarrow> ws' = ws \<and> rg_errors r' \<noteq> rg_errors r"
  shows "resolving fs ws0 r0 (insert (de_name d) names) (e', ws', r')"
proof -
  have old: "reads r0 r" "ws\<lparr>ws_deps := []\<rparr> = ws0\<lparr>ws_deps := []\<rparr>"
    "\<And>n. map_of (ws_deps ws) (toU16 n) = (if n \<in> names then packageSource fs (ws_root ws0) r0 n else None)"
    "\<And>n. n \<in> names \<Longrightarrow> packageSource fs (ws_root ws0) r0 n = None \<Longrightarrow> rg_errors r \<noteq> rg_errors r0"
    using s by (auto simp: resolving_def)
  have "rg_errors r' \<noteq> rg_errors r0" if "packageSource fs (ws_root ws0) r0 n = None" "n = de_name d \<or> n \<in> names" for n
  proof (cases "n \<in> names")
    case True
    with old(4) that(1) show ?thesis using reads_keeps_problem [OF old(1) r'] by blast
  next
    case False
    with that ws' have "rg_errors r' \<noteq> rg_errors r" by auto
    with old(1) r' show ?thesis by (auto simp: reads_def dest: prefix_order.antisym)
  qed
  moreover have "map_of (ws_deps ws') (toU16 n) =
    (if n \<in> insert (de_name d) names then packageSource fs (ws_root ws0) r0 n else None)" for n
    using ws' old(3) [of n] old(3) [of "de_name d"]
    by (auto simp: addDep_keeps map_of_emplace toU16_inj split: option.splits if_splits)
  moreover have "ws'\<lparr>ws_deps := []\<rparr> = ws0\<lparr>ws_deps := []\<rparr>"
    using ws' old(2) by (auto simp: addDep_keeps split: option.splits)
  ultimately show ?thesis using reading.le_trans [OF old(1) r'] e' by (auto simp: resolving_def)
qed

lemma resolveDependency_resolving:
  assumes "resolving fs ws0 r0 names s"
  shows "resolving fs ws0 r0 (insert (de_name d) names) (resolveDependency fs d s)"
proof -
  obtain e ws r where s: "s = (e, ws, r)" by (cases s) force
  let ?E = "fst (enclosingMemberIndex fs (ws_root ws0) r0)"
  from assms s have old: "reads r0 r" "ws\<lparr>ws_deps := []\<rparr> = ws0\<lparr>ws_deps := []\<rparr>"
    "case e of None \<Rightarrow> \<exists>es. r = r0\<lparr>rg_errors := es\<rparr> | Some e \<Rightarrow> e = ?E" by (auto simp: resolving_def)
  have root: "ws_root ws = ws_root ws0" using arg_cong [OF old(2), of ws_root] by simp
  have same: "rg_overrides r = rg_overrides r0" "rg_gitPackages r = rg_gitPackages r0" using old(1) by (simp_all add: reads_def)
  show ?thesis
  proof (cases "map_of (rg_overrides r) (de_name d)")
    case (Some f)
    obtain b m where step: "resolveDependency fs d s = (e, addDep d f ws, rg_errorIf b m r)"
      by (simp add: resolveDependency_def s Some Let_def)
    have "case e of None \<Rightarrow> \<exists>es. rg_errorIf b m r = r0\<lparr>rg_errors := es\<rparr> | Some e \<Rightarrow> e = ?E"
      using old(3) errorIf_parts(3) [of b m r] by (auto split: option.splits)
    with Some same show ?thesis unfolding step
      by (intro resolving_insert [OF assms [unfolded s]]) (simp_all add: packageSource_def)
  next
    case None
    define q where "q = (case e of Some e \<Rightarrow> (e, r) | None \<Rightarrow> enclosingMemberIndex fs (ws_root ws) r)"
    have q1: "fst q = ?E" using old(3) enclosingMemberIndex_upTo [where r = r0] by (auto simp: q_def root split: option.splits)
    have q2: "reads r (snd q)" by (simp add: q_def enclosingMemberIndex_reads split: option.split)
    have git: "rg_gitPackages (snd q) = rg_gitPackages r0" using q2 same by (simp add: reads_def)
    have source: "packageSource fs (ws_root ws0) r0 (de_name d) =
      (case Option.bind ?E (\<lambda>ix. map_of (mx_foldersByName ix) (de_name d)) of Some f \<Rightarrow> Some f | None \<Rightarrow> rg_gitPackages r0 (de_name d))"
      using None same by (simp add: packageSource_def)
    have q: "q = (?E, snd q)" using q1 by (metis prod.collapse)
    have member: "(case ?E of None \<Rightarrow> None | Some index \<Rightarrow> map_of (mx_foldersByName index) (de_name d)) =
      Option.bind ?E (\<lambda>ix. map_of (mx_foldersByName ix) (de_name d))" by (cases ?E) simp_all
    note ins = resolving_insert [OF assms [unfolded s], where e' = "Some ?E" and d = d]
    have "\<exists>ws' r'. resolveDependency fs d s = (Some ?E, ws', r') \<and> reads (snd q) r' \<and>
      (case packageSource fs (ws_root ws0) r0 (de_name d) of Some f \<Rightarrow> ws' = addDep d f ws
       | None \<Rightarrow> ws' = ws \<and> rg_errors r' = rg_errors (snd q) @ [last (rg_errors r')])"
      unfolding s resolveDependency_def split Let_def None option.case q_def [symmetric]
      by (subst q) (simp add: member source git split: option.split)
    then obtain ws' r' where step: "resolveDependency fs d s = (Some ?E, ws', r')" "reads (snd q) r'"
      "case packageSource fs (ws_root ws0) r0 (de_name d) of Some f \<Rightarrow> ws' = addDep d f ws
       | None \<Rightarrow> ws' = ws \<and> rg_errors r' = rg_errors (snd q) @ [last (rg_errors r')]" by blast
    have "rg_errors r' \<noteq> rg_errors r" if "rg_errors r' = rg_errors (snd q) @ [last (rg_errors r')]"
      using that q2 by (metis append_Nil2 append_assoc append_same_eq not_Cons_self2 prefixE reads_def self_append_conv snoc_eq_iff_butlast)
    with step(3) show ?thesis unfolding step(1)
      by (intro ins reading.le_trans [OF q2 step(2)]) (auto split: option.splits)
  qed
qed

lemma resolveDependencies_sources:
  assumes "ws_deps ws = []" and "resolveDependencies fs m ws r = (ws', r')"
  shows "\<forall>n. map_of (ws_deps ws') (toU16 n) =
      (if n \<in> de_name ` set (dependencies m) then packageSource fs (ws_root ws) r n else None)"
    and "ws'\<lparr>ws_deps := []\<rparr> = ws" and "reads r r'"
    and "(\<exists>d \<in> set (dependencies m). packageSource fs (ws_root ws) r (de_name d) = None) \<Longrightarrow> rg_errors r' \<noteq> rg_errors r"
proof -
  have fold: "resolving fs ws r (names \<union> de_name ` set ds) (fold (resolveDependency fs) ds s)" if "resolving fs ws r names s" for ds s names
    using that
  proof (induction ds arbitrary: s names)
    case (Cons d ds)
    from Cons.IH [OF resolveDependency_resolving [OF Cons.prems]] show ?case by simp
  qed simp
  have clean: "ws\<lparr>ws_deps := []\<rparr> = ws" using assms(1) by (cases ws) simp
  have start: "resolving fs ws r {} (None, ws, r)"
    using assms(1) by (auto simp: resolving_def intro: exI [of _ "rg_errors r"])
  obtain e where "fold (resolveDependency fs) (dependencies m) (None, ws, r) = (e, ws', r')"
    using assms(2) by (metis prod.collapse resolveDependencies_def snd_conv)
  with fold [OF start, of "dependencies m"] have *: "resolving fs ws r (de_name ` set (dependencies m)) (e, ws', r')" by simp
  then show "\<forall>n. map_of (ws_deps ws') (toU16 n) =
      (if n \<in> de_name ` set (dependencies m) then packageSource fs (ws_root ws) r n else None)"
    and "reads r r'" unfolding resolving_def by blast+
  from * clean show "ws'\<lparr>ws_deps := []\<rparr> = ws" by (simp add: resolving_def)
  from * show "(\<exists>d \<in> set (dependencies m). packageSource fs (ws_root ws) r (de_name d) = None) \<Longrightarrow> rg_errors r' \<noteq> rg_errors r"
    unfolding resolving_def by blast
qed

section \<open>One workspace for each folder\<close>

definition folderKeys :: "FileSystem \<Rightarrow> WorkspaceRegistry \<Rightarrow> string list" where
  "folderKeys fs r = map (\<lambda>ws. canonicalFolderKey fs (ws_root ws)) (rg_owned r)"

definition registryOk :: "FileSystem \<Rightarrow> WorkspaceRegistry \<Rightarrow> bool" where
  "registryOk fs r \<longleftrightarrow> (\<forall>k w. rg_byFolder r k = Some w \<longleftrightarrow> w < length (rg_owned r) \<and> folderKeys fs r ! w = k)"

text \<open>Where a workspace is, which later steps leave as it was created.\<close>

definition place :: "Workspace \<Rightarrow> path \<times> path \<times> path \<times> u16string" where
  "place ws = (ws_root ws, ws_srcRoot ws, ws_testsRoot ws, ws_packagePrefix ws)"

text \<open>The registry \<open>r'\<close> is \<open>r\<close> with one more workspace, at the place of \<open>ws\<close>.\<close>

definition grown :: "FileSystem \<Rightarrow> Workspace \<Rightarrow> WorkspaceRegistry \<Rightarrow> WorkspaceRegistry \<Rightarrow> bool" where
  "grown fs ws r r' \<longleftrightarrow> (\<exists>ws'. place ws' = place ws \<and> rg_owned r' = rg_owned r @ [ws'] \<and>
     rg_byFolder r' = (rg_byFolder r)(canonicalFolderKey fs (ws_root ws) \<mapsto> length (rg_owned r)))"

lemma registryOk_distinct: "registryOk fs r \<Longrightarrow> distinct (folderKeys fs r)"
  unfolding registryOk_def distinct_conv_nth by (metis folderKeys_def length_map option.inject)

lemma grown_ok:
  assumes "registryOk fs r" and "rg_byFolder r (canonicalFolderKey fs (ws_root ws)) = None" and "grown fs ws r r'"
  shows "registryOk fs r'"
proof -
  from assms(3) obtain ws' where r': "ws_root ws' = ws_root ws" "rg_owned r' = rg_owned r @ [ws']"
    "rg_byFolder r' = (rg_byFolder r)(canonicalFolderKey fs (ws_root ws) \<mapsto> length (rg_owned r))"
    by (auto simp: grown_def place_def)
  have keys: "folderKeys fs r' = folderKeys fs r @ [canonicalFolderKey fs (ws_root ws)]" by (simp add: folderKeys_def r')
  have len: "length (folderKeys fs r) = length (rg_owned r)" by (simp add: folderKeys_def)
  have new: "\<not> (w < length (rg_owned r) \<and> folderKeys fs r ! w = canonicalFolderKey fs (ws_root ws))" for w
    using assms(1,2) unfolding registryOk_def by (metis option.distinct(1))
  have old: "rg_byFolder r k = Some w \<longleftrightarrow> w < length (rg_owned r) \<and> folderKeys fs r ! w = k" for k w
    using assms(1) by (simp add: registryOk_def)
  show ?thesis unfolding registryOk_def
  proof (intro allI)
    fix k w
    show "rg_byFolder r' k = Some w \<longleftrightarrow> w < length (rg_owned r') \<and> folderKeys fs r' ! w = k"
    proof (cases "w = length (rg_owned r)")
      case True
      then show ?thesis using old [of k w] by (auto simp: r' keys nth_append len)
    next
      case False
      then show ?thesis using old [of k w] new [of w] by (auto simp: r' keys nth_append len)
    qed
  qed
qed

lemma applyPackageManifest_keeps:
  assumes "applyPackageManifest fs m isRoot ws r = (ws', r')" and "ws_deps ws = []"
  shows "place ws' = place ws" and "reads r r'"
proof -
  obtain b msg ws1 where step: "resolveDependencies fs m ws1 (rg_errorIf b msg r) = (ws', r')"
    and ws1: "ws_deps ws1 = []" "place ws1 = place ws"
    using assms by (auto simp: applyPackageManifest_def Let_def place_def)
  note kept = resolveDependencies_sources [OF ws1(1) step]
  show "reads r r'" using reading.le_trans [OF _ kept(3)] by simp
  from kept(2) have "place ws' = place ws1" unfolding place_def by (metis Workspace.select_convs Workspace.update_convs Workspace.surjective)
  with ws1(2) show "place ws' = place ws" by simp
qed

lemma noticed_reads: "reads r (noticeOverrideUse name f r)"
  by (simp add: noticeOverrideUse_def reads_def)

text \<open>A workspace that was appended, whatever is then read for it.\<close>

lemma grown_update:
  assumes "rg_owned q = rg_owned r @ [new]" and "rg_byFolder q = (rg_byFolder r)(canonicalFolderKey fs (ws_root new) \<mapsto> length (rg_owned r))"
    and "reads q q'" and "place ws = place new"
  shows "grown fs new r (rg_update (length (rg_owned r)) ws q')"
  using assms by (auto simp: grown_def reads_def rg_update_def)

lemma grown_reads: "grown fs ws r q \<Longrightarrow> reads q r' \<Longrightarrow> grown fs ws r r'"
  by (simp add: grown_def reads_def)

lemma getOrLoad_cases:
  assumes "getOrLoad fs folder p r = (w, r')"
  shows "case rg_byFolder r (canonicalFolderKey fs folder) of
      Some v \<Rightarrow> w = v \<and> reads r r'
    | None \<Rightarrow> w = length (rg_owned r) \<and> grown fs (newWorkspace folder (pathAppend folder ''src'') [] p) r r'"
proof -
  let ?key = "canonicalFolderKey fs folder" and ?new = "newWorkspace folder (pathAppend folder ''src'') [] p"
  define r1 where "r1 = (case find (\<lambda>(name, f). canonicalFolderKey fs f = ?key) (rg_overrides r) of
    Some (name, f) \<Rightarrow> noticeOverrideUse name f r | None \<Rightarrow> r)"
  have r1: "reads r r1" by (simp add: r1_def noticed_reads split: option.split)
  then have same: "rg_byFolder r1 = rg_byFolder r" "rg_owned r1 = rg_owned r" by (simp_all add: reads_def)
  show ?thesis
  proof (cases "rg_byFolder r ?key")
    case (Some v)
    with assms same r1 show ?thesis by (simp add: getOrLoad_def Let_def r1_def [symmetric])
  next
    case None
    let ?w = "length (rg_owned r)"
    define q where "q = registerFolder ?key ?w (r1\<lparr>rg_owned := rg_owned r @ [?new]\<rparr>)"
    have q: "rg_owned q = rg_owned r @ [?new]" "rg_byFolder q = (rg_byFolder r)(canonicalFolderKey fs (ws_root ?new) \<mapsto> ?w)"
      using None same by (simp_all add: q_def registerFolder_def newWorkspace_def)
    define ws where "ws = ?new\<lparr>ws_manifestPath := packageFile folder\<rparr>"
    have ws: "place ws = place ?new" "ws_deps ws = []" by (simp_all add: ws_def place_def newWorkspace_def)
    obtain m q' where m: "manifestFor fs (packageFile folder) q = (m, q')" by force
    with manifestFor_reads have q': "reads q q'" by (metis snd_conv)
    obtain ws' q'' where ap: "applyPackageManifest fs m False ws q' = (ws', q'')" by force
    note kept = applyPackageManifest_keeps [OF ap ws(2)]
    note up = grown_update [OF q]
    have loaded: "grown fs ?new r (rg_update ?w ws q)" "grown fs ?new r (rg_update ?w ws q')" "grown fs ?new r (rg_update ?w ws' q'')"
      using up [OF reads_error(3) ws(1)] up [OF q' ws(1)] up [OF reading.le_trans [OF q' kept(2)]] kept(1) ws(1) by simp_all
    have "w = ?w \<and> (\<exists>q. grown fs ?new r q \<and> reads q r')"
      using assms None same loaded
      by (fastforce simp: getOrLoad_def Let_def r1_def [symmetric] rg_create_def q_def [symmetric] q ws_def [symmetric] m ap
          split: if_splits intro: reads_error)
    with None show ?thesis by (auto intro: grown_reads)
  qed
qed

text \<open>The registry as the list of the folders that have a workspace: a lookup, or one more at the end.\<close>

lemma getOrLoad_steps:
  assumes "registryOk fs r" and "getOrLoad fs folder p r = (w, r')"
  shows "registryOk fs r'"
    and "folderKeys fs r' = (if canonicalFolderKey fs folder \<in> set (folderKeys fs r) then folderKeys fs r
      else folderKeys fs r @ [canonicalFolderKey fs folder])"
    and "w < length (folderKeys fs r')" and "folderKeys fs r' ! w = canonicalFolderKey fs folder"
    and "prefix (rg_owned r) (rg_owned r')" and "distinct (folderKeys fs r')"
proof -
  let ?k = "canonicalFolderKey fs folder"
  have len: "length (folderKeys fs q) = length (rg_owned q)" for q by (simp add: folderKeys_def)
  have mem: "?k \<in> set (folderKeys fs r) \<longleftrightarrow> rg_byFolder r ?k \<noteq> None"
    using assms(1) by (auto simp: registryOk_def in_set_conv_nth len)
  have "registryOk fs r' \<and> folderKeys fs r' = (if ?k \<in> set (folderKeys fs r) then folderKeys fs r else folderKeys fs r @ [?k]) \<and>
    w < length (folderKeys fs r') \<and> folderKeys fs r' ! w = ?k \<and> prefix (rg_owned r) (rg_owned r')"
  proof (cases "rg_byFolder r ?k")
    case (Some v)
    with getOrLoad_cases [OF assms(2)] have "w = v" "rg_owned r' = rg_owned r" "rg_byFolder r' = rg_byFolder r" by (simp_all add: reads_def)
    moreover from this have keys: "folderKeys fs r' = folderKeys fs r" by (simp add: folderKeys_def)
    moreover have "v < length (rg_owned r)" "folderKeys fs r ! v = ?k" using assms(1) Some by (simp_all add: registryOk_def)
    moreover from calculation have "registryOk fs r'" using assms(1) by (simp add: registryOk_def)
    ultimately show ?thesis using Some mem len [of r] by simp
  next
    case None
    let ?new = "newWorkspace folder (pathAppend folder ''src'') [] p"
    from None getOrLoad_cases [OF assms(2)] have w: "w = length (rg_owned r)" "grown fs ?new r r'" by simp_all
    have root: "ws_root ?new = folder" by (simp add: newWorkspace_def)
    from w(2) root obtain ws' where "ws_root ws' = folder" "rg_owned r' = rg_owned r @ [ws']" by (auto simp: grown_def place_def)
    then have "folderKeys fs r' = folderKeys fs r @ [?k]" "prefix (rg_owned r) (rg_owned r')" by (simp_all add: folderKeys_def)
    moreover have "registryOk fs r'" using grown_ok [OF assms(1) _ w(2)] None root by simp
    ultimately show ?thesis using None mem w(1) len [of r] by (simp add: nth_append)
  qed
  then show "registryOk fs r'" "folderKeys fs r' = (if ?k \<in> set (folderKeys fs r) then folderKeys fs r else folderKeys fs r @ [?k])"
    "w < length (folderKeys fs r')" "folderKeys fs r' ! w = ?k" "prefix (rg_owned r) (rg_owned r')" by blast+
  then show "distinct (folderKeys fs r')" by (intro registryOk_distinct)
qed

lemma mkRegistry_ok: "registryOk fs (mkRegistry fs std)"
  by (simp add: registryOk_def mkRegistry_def)


lemma loadOverride_parts: "rg_owned (loadOverride fs root file ov r) = rg_owned r" "rg_byFolder (loadOverride fs root file ov r) = rg_byFolder r"
proof -
  let ?file = "packageFile (lexicallyNormal (pathAppend root (ov_folder ov)))"
  obtain d q where m: "manifestFor fs ?file r = (d, q)" by force
  then have "reads r q" using manifestFor_reads by (metis snd_conv)
  with m show "rg_owned (loadOverride fs root file ov r) = rg_owned r" "rg_byFolder (loadOverride fs root file ov r) = rg_byFolder r"
    by (simp_all add: loadOverride_def Let_def rg_error_def reads_def)
qed

lemma loadRootOverrides_parts:
  "rg_owned (loadRootOverrides fs root r) = rg_owned r \<and> rg_byFolder (loadRootOverrides fs root r) = rg_byFolder r"
proof -
  let ?file = "pathAppend root ''ens.overrides''"
  obtain d q where m: "manifestFor fs ?file r = (d, q)" by force
  then have "reads r q" using manifestFor_reads by (metis snd_conv)
  moreover have "rg_owned (fold (loadOverride fs root ?file) os s) = rg_owned s \<and> rg_byFolder (fold (loadOverride fs root ?file) os s) = rg_byFolder s"
    for os s by (induction os arbitrary: s) (simp_all add: loadOverride_parts)
  ultimately show ?thesis using m by (simp add: loadRootOverrides_def Let_def rg_error_def reads_def)
qed

lemma defineRoot_grown:
  assumes "defineRoot fs folder src tests withManifest ovf r = (w, r')" and "rg_byFolder r (canonicalFolderKey fs folder) = None"
  shows "w = length (rg_owned r) \<and> grown fs (newWorkspace folder src tests []) r r'"
proof -
  let ?key = "canonicalFolderKey fs folder" and ?new = "newWorkspace folder src tests []" and ?w = "length (rg_owned r)"
  define q where "q = registerFolder ?key ?w (r\<lparr>rg_owned := rg_owned r @ [?new]\<rparr>)"
  have q: "rg_owned q = rg_owned r @ [?new]" "rg_byFolder q = (rg_byFolder r)(canonicalFolderKey fs (ws_root ?new) \<mapsto> ?w)"
    using assms(2) by (simp_all add: q_def registerFolder_def newWorkspace_def)
  define ws where "ws = ?new\<lparr>ws_manifestPath := packageFile folder\<rparr>"
  have ws: "place ws = place ?new" "ws_deps ws = []" by (simp_all add: ws_def place_def newWorkspace_def)
  obtain m q0 where m: "manifestFor fs (packageFile folder) q = (m, q0)" by force
  define q' where "q' = loadRootOverrides fs (if ovf = [] then folder else ovf) q0"
  have "reads q q0" using m manifestFor_reads by (metis snd_conv)
  then have q': "rg_owned q' = rg_owned r @ [?new]" "rg_byFolder q' = (rg_byFolder r)(canonicalFolderKey fs (ws_root ?new) \<mapsto> ?w)"
    using loadRootOverrides_parts q by (simp_all add: q'_def reads_def)
  obtain ws' q'' where ap: "applyPackageManifest fs m True ws q' = (ws', q'')" by force
  note kept = applyPackageManifest_keeps [OF ap ws(2)]
  have root: "place (ws\<lparr>ws_isWorkspaceRoot := True\<rparr>) = place ?new" using ws(1) by (simp add: place_def)
  note up = grown_update [OF q']
  have "grown fs ?new r q" using q by (auto simp: grown_def)
  moreover have "grown fs ?new r (rg_update ?w ws q')" "grown fs ?new r (rg_update ?w ws' q'')"
    "grown fs ?new r (rg_update ?w (ws\<lparr>ws_isWorkspaceRoot := True\<rparr>) q')"
    using up [OF reads_error(3) ws(1)] up [OF kept(2)] up [OF reads_error(3) root] kept(1) ws(1) by simp_all
  moreover have at: "rg_owned q ! ?w = ?new" by (simp add: q)
  have "(w, r') = (if \<not> withManifest then (?w, q) else case form m of
      FormPackage \<Rightarrow> (?w, rg_update ?w ws' q'')
    | FormWorkspace \<Rightarrow> (?w, snd (memberIndexFor fs folder (rg_update ?w (ws\<lparr>ws_isWorkspaceRoot := True\<rparr>) q')))
    | FormOverrides \<Rightarrow> (?w, rg_error (ws_manifestPath ws @
        '': An ens.package file holds a package or workspace declaration; overrides live in the ens.overrides file next to it.'') (rg_update ?w ws q'))
    | FormNone \<Rightarrow> (?w, rg_error (ws_manifestPath ws @ '': Expected a 'package' or 'workspace' declaration.'') (rg_update ?w ws q')))"
    by (simp only: assms(1) [symmetric] defineRoot_def rg_create_def prod.case Let_def q_def [symmetric] at ws_def [symmetric] m q'_def [symmetric] ap)
  ultimately have "w = ?w \<and> (\<exists>q. grown fs ?new r q \<and> reads q r')"
    by (cases "form m"; cases withManifest) (auto intro: reads_error memberIndexFor_reads)
  then show ?thesis by (auto intro: grown_reads)
qed

section \<open>The contract of the registry\<close>

text \<open>What the module graph relies on: a load answers with an entry of its folder, and what was loaded stays.\<close>

locale folder_store =
  fixes ok :: "'r \<Rightarrow> bool" and key :: "'f \<Rightarrow> 'k" and keys :: "'r \<Rightarrow> 'k list" and load :: "'f \<Rightarrow> 'r \<Rightarrow> nat \<times> 'r"
  assumes load_ok: "ok r \<Longrightarrow> load f r = (w, r') \<Longrightarrow> ok r'"
    and load_entry: "ok r \<Longrightarrow> load f r = (w, r') \<Longrightarrow> w < length (keys r') \<and> keys r' ! w = key f"
    and load_keeps: "ok r \<Longrightarrow> load f r = (w, r') \<Longrightarrow> prefix (keys r) (keys r')"
    and keys_distinct: "ok r \<Longrightarrow> distinct (keys r)"
begin

definition loads :: "'f list \<Rightarrow> 'r \<Rightarrow> 'r" where
  "loads = fold (\<lambda>f r. snd (load f r))"

lemma loads_keep: "ok r \<Longrightarrow> ok (loads fs r) \<and> prefix (keys r) (keys (loads fs r))"
proof (induction fs arbitrary: r)
  case (Cons f fs)
  have "load f r = (fst (load f r), snd (load f r))" by simp
  with Cons.prems have "ok (snd (load f r))" "prefix (keys r) (keys (snd (load f r)))" by (blast intro: load_ok load_keeps)+
  with Cons.IH [of "snd (load f r)"] show ?case by (auto simp: loads_def intro: prefix_order.trans)
qed (simp add: loads_def)

text \<open>Two loads, with any others between them, answer with the same entry exactly when their folders are the same.\<close>

lemma same_entry:
  assumes "ok r" and "load f r = (v, r1)" and "load g (loads fs r1) = (w, r2)"
  shows "v = w \<longleftrightarrow> key f = key g"
proof -
  have r1: "ok r1" using assms(1,2) by (rule load_ok)
  then have mid: "ok (loads fs r1)" "prefix (keys r1) (keys (loads fs r1))" using loads_keep by blast+
  have r2: "ok r2" "prefix (keys r1) (keys r2)"
    using mid load_ok [OF mid(1) assms(3)] load_keeps [OF mid(1) assms(3)] by (auto intro: prefix_order.trans)
  have "v < length (keys r1)" "keys r1 ! v = key f" using load_entry [OF assms(1,2)] by simp_all
  with r2(2) have v: "v < length (keys r2)" "keys r2 ! v = key f" by (auto simp: prefix_def nth_append)
  have w: "w < length (keys r2)" "keys r2 ! w = key g" using load_entry [OF mid(1) assms(3)] by simp_all
  from v w keys_distinct [OF r2(1)] show ?thesis by (metis nth_eq_iff_index_eq)
qed

end

interpretation registry: folder_store "registryOk fs" "\<lambda>f. canonicalFolderKey fs (fst f)" "folderKeys fs" "\<lambda>f. getOrLoad fs (fst f) (snd f)"
proof (unfold_locales, goal_cases)
  case (1 r f w r')
  then show ?case by (rule getOrLoad_steps(1))
next
  case (2 r f w r')
  then show ?case using getOrLoad_steps(3,4) by blast
next
  case (3 r f w r')
  then show ?case using getOrLoad_steps(5) by (auto simp: folderKeys_def map_mono_prefix)
next
  case (4 r)
  then show ?case by (rule registryOk_distinct)
qed

section \<open>Properties\<close>

definition loadFolders :: "FileSystem \<Rightarrow> (path \<times> u16string) list \<Rightarrow> WorkspaceRegistry \<Rightarrow> WorkspaceRegistry" where
  "loadFolders fs = fold (\<lambda>f r. snd (getOrLoad fs (fst f) (snd f) r))"

lemma defineRoot_ok:
  assumes "rg_owned r = []" and "registryOk fs r"
  shows "registryOk fs (snd (defineRoot fs folder src tests withManifest ovf r))"
    and "0 < length (rg_owned (snd (defineRoot fs folder src tests withManifest ovf r)))"
proof -
  obtain w r0 where root: "defineRoot fs folder src tests withManifest ovf r = (w, r0)" by force
  have none: "rg_byFolder r k = None" for k using assms by (cases "rg_byFolder r k") (auto simp: registryOk_def)
  note g = conjunct2 [OF defineRoot_grown [OF root none]]
  show "registryOk fs (snd (defineRoot fs folder src tests withManifest ovf r))" using grown_ok [OF assms(2) none g] root by simp
  show "0 < length (rg_owned (snd (defineRoot fs folder src tests withManifest ovf r)))" using g root by (auto simp: grown_def)
qed

text \<open>C11: however a build defines its root and loads folders, the registry holds exactly one workspace for each
  folder: its table answers with the workspace of a folder's key, and no two workspaces have the same key.\<close>

theorem registry_one_workspace_per_folder:
  "let r = loadFolders fs loads (snd (defineRoot fs folder src tests withManifest ovf (mkRegistry fs std))) in
     registryOk fs r \<and> distinct (folderKeys fs r)"
proof -
  have "registryOk fs (snd (defineRoot fs folder src tests withManifest ovf (mkRegistry fs std)))"
    by (rule defineRoot_ok) (simp_all add: mkRegistry_ok, simp add: mkRegistry_def)
  from registry.loads_keep [OF this, of loads] show ?thesis
    by (simp add: loadFolders_def registry.loads_def registryOk_distinct Let_def)
qed

text \<open>A disk with nothing on it.\<close>

definition emptyDisk :: FileSystem where
  "emptyDisk = \<lparr>fs_exists = (\<lambda>_. False), fs_read = (\<lambda>_. None), fs_canonical = (\<lambda>_. None), fs_absolute = Some,
     fs_currentPath = None, fs_getenv = (\<lambda>_. None)\<rparr>"

text \<open>C12: two loads of folders, whatever is loaded between them, answer with the same workspace exactly when the
  folders are the same one, however they are written; a load leaves the workspaces that were there as they are.\<close>

theorem loads_share_workspaces:
  assumes "registryOk fs r" and "getOrLoad fs f p r = (v, r1)" and "getOrLoad fs g q (loadFolders fs others r1) = (w, r2)"
  shows "(v = w \<longleftrightarrow> canonicalFolderKey fs f = canonicalFolderKey fs g) \<and> prefix (rg_owned r) (rg_owned r1)"
  using registry.same_entry [of fs r "(f, p)" v r1 "(g, q)" others w r2] getOrLoad_steps(5) [OF assms(1,2)] assms
  by (simp add: loadFolders_def registry.loads_def)

theorem loads_share_workspaces_witness:
  "fst (getOrLoad emptyDisk ''x/../lib'' [] (loadFolders emptyDisk [(''other'', [])] (snd (getOrLoad emptyDisk ''lib'' [] (mkRegistry emptyDisk [])))))
     = fst (getOrLoad emptyDisk ''lib'' [] (mkRegistry emptyDisk []))"
proof -
  let ?r = "mkRegistry emptyDisk []"
  have key: "canonicalFolderKey emptyDisk ''lib'' = canonicalFolderKey emptyDisk ''x/../lib''" by code_simp
  have "getOrLoad emptyDisk ''lib'' [] ?r = (fst (getOrLoad emptyDisk ''lib'' [] ?r), snd (getOrLoad emptyDisk ''lib'' [] ?r))" by simp
  from loads_share_workspaces [where f = "''lib''" and g = "''x/../lib''" and others = "[(''other'', [])]", OF mkRegistry_ok this surjective_pairing] key
  show ?thesis by simp
qed

text \<open>A dotted name resolves to the dependency of its longest prefix that names one.\<close>

theorem matchPackage_longest:
  "matchPackage deps segments = Some m \<longleftrightarrow>
     1 \<le> pm_segmentCount m \<and> pm_segmentCount m \<le> length segments \<and>
     map_of deps (joinSegments (take (pm_segmentCount m) segments)) = Some (pm_folder m) \<and>
     \<not> (\<exists>k. pm_segmentCount m < k \<and> k \<le> length segments \<and> map_of deps (joinSegments (take k segments)) \<noteq> None)"
  by (auto simp: matchPackage_def matchFrom_iff)

text \<open>C10: the folder of every declared dependency is the one its source gives (an override, else a member of the
  enclosing workspace, else a fetched git source), whatever the order and the problems of the others; a dependency without a
  source is always reported, and no report is lost.\<close>

theorem dependencies_take_their_source:
  assumes "ws_deps ws = []" and "resolveDependencies fs m ws r = (ws', r')"
  shows "(\<forall>n. map_of (ws_deps ws') (toU16 n) =
      (if n \<in> de_name ` set (dependencies m) then packageSource fs (ws_root ws) r n else None)) \<and>
    ((\<exists>d \<in> set (dependencies m). packageSource fs (ws_root ws) r (de_name d) = None) \<longrightarrow> rg_errors r' \<noteq> rg_errors r) \<and>
    prefix (rg_errors r) (rg_errors r')"
  using resolveDependencies_sources [OF assms] by (simp add: reads_def)

definition demoDependency :: "string \<Rightarrow> ManifestDependency" where
  "demoDependency n = \<lparr>de_name = n, de_hasVersion = True, de_version = ''1.0'', de_hasSource = True, de_sourceUrl = ''u'', de_line = 1, de_column = 1\<rparr>"

theorem dependencies_take_their_source_witness:
  "let r = setResolvedGitPackages [''a'' \<mapsto> ''git/a''] (mkRegistry emptyDisk []);
       (ws, r') = resolveDependencies emptyDisk (emptyManifest\<lparr>dependencies := [demoDependency ''a'', demoDependency ''b'']\<rparr>)
         (newWorkspace ''app'' ''app/src'' [] []) r
   in map_of (ws_deps ws) (toU16 ''a'') = Some ''git/a'' \<and> rg_errors r' \<noteq> rg_errors r"
proof -
  let ?r = "setResolvedGitPackages [''a'' \<mapsto> ''git/a''] (mkRegistry emptyDisk [])"
  let ?m = "emptyManifest\<lparr>dependencies := [demoDependency ''a'', demoDependency ''b'']\<rparr>"
  let ?ws = "newWorkspace ''app'' ''app/src'' [] []"
  have src: "packageSource emptyDisk (ws_root ?ws) ?r ''a'' = Some ''git/a''" "packageSource emptyDisk (ws_root ?ws) ?r ''b'' = None"
    by code_simp+
  have "ws_deps ?ws = []" by (simp add: newWorkspace_def)
  from src dependencies_take_their_source [OF this surjective_pairing, of emptyDisk ?m ?r] show ?thesis by (simp add: Let_def split_beta demoDependency_def)
qed

end
