(* ===== verification/ModuleGraphClosure.thy ===== *)
theory ModuleGraphClosure
  imports ModuleGraphs WorkspaceResolution
begin

text \<open>
  What building a module graph guarantees. Every step keeps the queue, the modules and the table of \<open>ModuleGraphs\<close> in
  agreement (\<open>graphOk\<close>); every import of a loaded module is settled (\<open>closed\<close>); and the names that can be queued are
  finitely many, which bounds the loop.
\<close>

section \<open>The name an import stands for\<close>

text \<open>Of a module whose package has the prefix \<open>p\<close>.\<close>

definition importName :: "u16string \<Rightarrow> bool \<Rightarrow> u16string list \<Rightarrow> u16string" where
  "importName p isPackage segs =
     (if isPackage then joinSegments segs
      else let mp = modulePathOfRelative (relativeFromModulePath (joinSegments segs)) in if p = [] then mp else p @ 0x2E # mp)"

definition packagePrefixes :: "WorkspaceRegistry \<Rightarrow> u16string set" where
  "packagePrefixes r = ws_packagePrefix ` set (rg_owned r)"

definition segmentPrefixes :: "u16string list \<Rightarrow> u16string set" where
  "segmentPrefixes segs = (\<lambda>k. joinSegments (take k segs)) ` {..length segs}"

text \<open>A registry that only loaded more workspaces, with prefixes among \<open>P\<close>.\<close>

definition loaded :: "FileSystem \<Rightarrow> u16string set \<Rightarrow> WorkspaceRegistry \<Rightarrow> WorkspaceRegistry \<Rightarrow> bool" where
  "loaded fs P r r' \<longleftrightarrow> registryOk fs r' \<and> prefix (rg_owned r) (rg_owned r') \<and> packagePrefixes r' \<subseteq> packagePrefixes r \<union> P"

lemma loaded_refl: "registryOk fs r \<Longrightarrow> loaded fs P r r"
  by (simp add: loaded_def)

lemma getOrLoad_loaded:
  assumes "registryOk fs r" and "getOrLoad fs folder p r = (w, r')"
  shows "loaded fs {p} r r'" and "w < length (rg_owned r')"
proof -
  note steps = getOrLoad_steps [OF assms]
  from steps(3) show "w < length (rg_owned r')" by (simp add: folderKeys_def)
  have "packagePrefixes r' \<subseteq> packagePrefixes r \<union> {p}"
    using getOrLoad_cases [OF assms(2)]
    by (auto simp: packagePrefixes_def reads_def grown_def place_def newWorkspace_def split: option.splits)
  with steps(1,5) show "loaded fs {p} r r'" by (simp add: loaded_def)
qed

lemma prefix_nth: "prefix xs ys \<Longrightarrow> i < length xs \<Longrightarrow> ys ! i = xs ! i"
  by (auto simp: prefix_def nth_append)

lemma resolveImport_loaded:
  assumes "registryOk fs r" and "w < length (rg_owned r)" and "resolveImport fs ov std w isPackage segs r = (target, r')"
  shows "loaded fs (insert (u16 ''std'') (segmentPrefixes segs)) r r'"
    and "case target of Ignored \<Rightarrow> segs = [] | Rejected msg \<Rightarrow> True
      | Target t base rel c \<Rightarrow> t < length (rg_owned r') \<and> c = importName (ws_packagePrefix (rg_owned r ! w)) isPackage segs"
proof -
  let ?P = "insert (u16 ''std'') (segmentPrefixes segs)"
  have keep: "loaded fs ?P r r" using assms(1) by (rule loaded_refl)
  have load: "loaded fs ?P r (snd (getOrLoad fs f p r))" if "p \<in> ?P" for f p
    using getOrLoad_loaded(1) [OF assms(1) surjective_pairing] that by (auto simp: loaded_def)
  have valid: "fst (getOrLoad fs f p r) < length (rg_owned (snd (getOrLoad fs f p r)))" for f p
    using getOrLoad_loaded(2) [OF assms(1) surjective_pairing] .
  have seg: "joinSegments (take k segs) \<in> segmentPrefixes segs" if "k \<le> length segs" for k using that by (auto simp: segmentPrefixes_def)
  have match: "pm_segmentCount m \<le> length segs" if "matchPackage deps segs = Some m" for deps m
    using that by (rule matchPackage_bound)
  have "loaded fs ?P r r' \<and> (case target of Ignored \<Rightarrow> segs = [] | Rejected msg \<Rightarrow> True
      | Target t base rel c \<Rightarrow> t < length (rg_owned r') \<and> c = importName (ws_packagePrefix (rg_owned r ! w)) isPackage segs)"
    using assms(2,3) keep
    by (auto simp: resolveImport_def Let_def importName_def localTarget_def canonicalModulePath_def split_beta
        split: if_splits option.splits dest!: match intro: load simp: seg valid)
  then show "loaded fs ?P r r'" and "case target of Ignored \<Rightarrow> segs = [] | Rejected msg \<Rightarrow> True
      | Target t base rel c \<Rightarrow> t < length (rg_owned r') \<and> c = importName (ws_packagePrefix (rg_owned r ! w)) isPackage segs"
    by blast+
qed

section \<open>The state of the build\<close>

definition modulePaths :: "GraphState \<Rightarrow> u16string list" where
  "modulePaths g = map mo_modulePath (gs_modules g)"

text \<open>What was ever queued is loaded or waits, in that order and without repetition, and the table holds exactly the loaded modules.\<close>

definition graphOk :: "FileSystem \<Rightarrow> GraphState \<Rightarrow> bool" where
  "graphOk fs g \<longleftrightarrow> registryOk fs (gs_registry g) \<and> (\<forall>item \<in> set (gs_work g). wi_ws item < length (rg_owned (gs_registry g))) \<and>
     distinct (modulePaths g @ map wi_canonical (gs_work g)) \<and> gs_queued g = rev (modulePaths g @ map wi_canonical (gs_work g)) \<and>
     (\<forall>c i. gs_byPath g c = Some i \<longleftrightarrow> i < length (gs_modules g) \<and> mo_modulePath (gs_modules g ! i) = c)"

lemma graphOk_distinct: "graphOk fs g \<Longrightarrow> distinct (gs_queued g)"
  unfolding graphOk_def by (metis distinct_rev)

definition importsOf :: "Module \<Rightarrow> ImportDecl list" where
  "importsOf m = (case SourceFileView_cast (mo_rootNode m) of None \<Rightarrow> [] | Some sf \<Rightarrow> SourceFileView_imports sf)"

definition importPosition :: "Module \<Rightarrow> ImportDecl \<Rightarrow> SourceSpan" where
  "importPosition m imp = (case offsetToPosition (mo_source m) (startOffset imp) of (ln, col) \<Rightarrow> mkSpan ln col 1)"

text \<open>An import that names nothing, or whose module was queued, or that has an error at its place.\<close>

definition settled :: "u16string set \<Rightarrow> Module \<Rightarrow> ImportDecl \<Rightarrow> bool" where
  "settled names m imp \<longleftrightarrow>
     (let name = importName (mo_packagePrefix m) (ImportDecl_isPackage imp) (ImportDecl_pathSegments imp) in
      ImportDecl_pathSegments imp = [] \<or> name = [] \<or> name \<in> names \<or>
      (\<exists>d \<in> set (mo_sink m). level d = LevelError \<and> span d = importPosition m imp))"

text \<open>A module only gains messages.\<close>

definition moreMessages :: "Module \<Rightarrow> Module \<Rightarrow> bool" where
  "moreMessages m m' \<longleftrightarrow> m'\<lparr>mo_sink := []\<rparr> = m\<lparr>mo_sink := []\<rparr> \<and> prefix (mo_sink m) (mo_sink m')"

definition later :: "GraphState \<Rightarrow> GraphState \<Rightarrow> bool" where
  "later g g' \<longleftrightarrow> prefix (rg_owned (gs_registry g)) (rg_owned (gs_registry g')) \<and> suffix (gs_queued g) (gs_queued g') \<and>
     list_all2 moreMessages (gs_modules g) (gs_modules g')"

lemma moreMessages_refl [simp]: "moreMessages m m"
  by (simp add: moreMessages_def)

lemma moreMessages_trans: "moreMessages m n \<Longrightarrow> moreMessages n k \<Longrightarrow> moreMessages m k"
  by (auto simp: moreMessages_def)

interpretation build: preorder_ops later
  by unfold_locales
    (auto simp: later_def list_all2_refl intro: prefix_order.trans suffix_order.trans list_all2_trans [OF moreMessages_trans])

lemma moreMessages_parts:
  assumes "moreMessages m m'"
  shows "mo_modulePath m' = mo_modulePath m" "mo_packagePrefix m' = mo_packagePrefix m" "mo_source m' = mo_source m"
    "mo_rootNode m' = mo_rootNode m" "importsOf m' = importsOf m" "importPosition m' imp = importPosition m imp"
    "set (mo_sink m) \<subseteq> set (mo_sink m')"
proof -
  from assms have e: "m'\<lparr>mo_sink := []\<rparr> = m\<lparr>mo_sink := []\<rparr>" by (simp add: moreMessages_def)
  show p: "mo_modulePath m' = mo_modulePath m" "mo_packagePrefix m' = mo_packagePrefix m" "mo_source m' = mo_source m"
    "mo_rootNode m' = mo_rootNode m"
    using arg_cong [OF e, of mo_modulePath] arg_cong [OF e, of mo_packagePrefix] arg_cong [OF e, of mo_source] arg_cong [OF e, of mo_rootNode]
    by simp_all
  then show "importsOf m' = importsOf m" "importPosition m' imp = importPosition m imp" by (simp_all add: importsOf_def importPosition_def)
  show "set (mo_sink m) \<subseteq> set (mo_sink m')" using assms by (simp add: moreMessages_def set_mono_prefix)
qed

lemma settled_mono:
  assumes "settled names m imp" and "names \<subseteq> names'" and "moreMessages m m'"
  shows "settled names' m' imp"
  using assms moreMessages_parts [OF assms(3)] by (auto simp: settled_def Let_def)

lemma later_paths: "later g g' \<Longrightarrow> modulePaths g' = modulePaths g"
  unfolding modulePaths_def later_def
  by (auto simp: list_all2_conv_all_nth moreMessages_parts intro!: nth_equalityI)

lemma later_queued: "later g g' \<Longrightarrow> set (gs_queued g) \<subseteq> set (gs_queued g')"
  by (simp add: later_def set_mono_suffix)

section \<open>One import\<close>

text \<open>The registry of the state is replaced by a later one.\<close>

lemma graphOk_registry:
  assumes "graphOk fs g" and "loaded fs P (gs_registry g) r"
  shows "graphOk fs (g\<lparr>gs_registry := r\<rparr>)" and "later g (g\<lparr>gs_registry := r\<rparr>)"
proof -
  from assms(2) have "length (rg_owned (gs_registry g)) \<le> length (rg_owned r)" by (simp add: loaded_def prefix_length_le)
  moreover have "\<forall>item \<in> set (gs_work g). wi_ws item < length (rg_owned (gs_registry g))" using assms(1) by (simp add: graphOk_def)
  ultimately have "\<forall>item \<in> set (gs_work g). wi_ws item < length (rg_owned r)" by (blast intro: less_le_trans)
  with assms show "graphOk fs (g\<lparr>gs_registry := r\<rparr>)" by (simp add: graphOk_def loaded_def modulePaths_def)
  from assms(2) show "later g (g\<lparr>gs_registry := r\<rparr>)" by (simp add: later_def loaded_def list_all2_refl)
qed

lemma enqueue_ok:
  assumes "graphOk fs g" and "t < length (rg_owned (gs_registry g))"
  shows "graphOk fs (enqueue t base rel c g)" and "later g (enqueue t base rel c g)"
    and "c = [] \<or> c \<in> set (gs_queued (enqueue t base rel c g))"
proof -
  let ?fresh = "c \<noteq> [] \<and> c \<notin> set (gs_queued g)"
  have skip: "\<not> ?fresh \<Longrightarrow> enqueue t base rel c g = g" by (auto simp: enqueue_def)
  show "graphOk fs (enqueue t base rel c g)"
  proof (cases ?fresh)
    case True
    with assms show ?thesis unfolding graphOk_def by (simp add: enqueue_def modulePaths_def)
  qed (use assms skip in simp)
  show "later g (enqueue t base rel c g)" by (simp add: enqueue_def later_def list_all2_refl suffix_def)
  show "c = [] \<or> c \<in> set (gs_queued (enqueue t base rel c g))" by (simp add: enqueue_def)
qed

lemma moduleReport_ok:
  assumes "graphOk fs g" and "i < length (gs_modules g)"
  shows "graphOk fs (moduleReport i imp msg g)" and "later g (moduleReport i imp msg g)"
    and "\<exists>d \<in> set (mo_sink (gs_modules (moduleReport i imp msg g) ! i)). level d = LevelError \<and> span d = importPosition (gs_modules g ! i) imp"
proof -
  define d where "d = \<lparr>level = LevelError, span = importPosition (gs_modules g ! i) imp, message = msg\<rparr>"
  define m where "m = (gs_modules g ! i)\<lparr>mo_sink := mo_sink (gs_modules g ! i) @ [d]\<rparr>"
  have step: "moduleReport i imp msg g = g\<lparr>gs_modules := (gs_modules g)[i := m]\<rparr>"
    by (simp add: moduleReport_def Let_def sinkError_def report_def m_def d_def importPosition_def split: prod.split)
  have more: "list_all2 moreMessages (gs_modules g) ((gs_modules g)[i := m])"
    unfolding list_all2_conv_all_nth
  proof (intro conjI allI impI)
    fix j
    show "moreMessages (gs_modules g ! j) ((gs_modules g)[i := m] ! j)" if "j < length (gs_modules g)"
      using that by (cases "j = i") (simp_all add: m_def moreMessages_def)
  qed simp
  then show lat: "later g (moduleReport i imp msg g)" by (simp add: later_def step)
  have "mo_modulePath ((gs_modules g)[i := m] ! j) = mo_modulePath (gs_modules g ! j)" if "j < length (gs_modules g)" for j
    using that by (cases "j = i") (simp_all add: m_def)
  with assms later_paths [OF lat] show "graphOk fs (moduleReport i imp msg g)"
    unfolding graphOk_def by (auto simp: step)
  show "\<exists>d \<in> set (mo_sink (gs_modules (moduleReport i imp msg g) ! i)). level d = LevelError \<and> span d = importPosition (gs_modules g ! i) imp"
    using assms(2) by (simp add: step m_def d_def)
qed

text \<open>The workspace that owns the module at an index.\<close>

definition owns :: "wsid \<Rightarrow> nat \<Rightarrow> GraphState \<Rightarrow> bool" where
  "owns w i g \<longleftrightarrow> w < length (rg_owned (gs_registry g)) \<and> i < length (gs_modules g) \<and>
     mo_packagePrefix (gs_modules g ! i) = ws_packagePrefix (rg_owned (gs_registry g) ! w)"

lemma later_module: "later g g' \<Longrightarrow> i < length (gs_modules g) \<Longrightarrow> i < length (gs_modules g') \<and> moreMessages (gs_modules g ! i) (gs_modules g' ! i)"
  by (auto simp: later_def list_all2_conv_all_nth)

lemma owns_later:
  assumes "owns w i g" and "later g g'"
  shows "owns w i g'"
proof -
  have "prefix (rg_owned (gs_registry g)) (rg_owned (gs_registry g'))" using assms(2) by (simp add: later_def)
  with assms(1) have "w < length (rg_owned (gs_registry g'))" "rg_owned (gs_registry g') ! w = rg_owned (gs_registry g) ! w"
    by (auto simp: owns_def prefix_nth dest: prefix_length_le)
  with assms later_module [OF assms(2), of i] show ?thesis by (auto simp: owns_def moreMessages_parts)
qed

text \<open>The prefixes that workspaces can get while the imports \<open>J\<close> are processed.\<close>

definition prefixesFrom :: "ImportDecl set \<Rightarrow> u16string set" where
  "prefixesFrom J = insert (u16 ''std'') (\<Union>imp \<in> J. segmentPrefixes (ImportDecl_pathSegments imp))"

text \<open>And the names that can be queued.\<close>

definition namesFrom :: "u16string set \<Rightarrow> ImportDecl set \<Rightarrow> u16string set" where
  "namesFrom P J = (\<Union>imp \<in> J. (\<lambda>p. importName p (ImportDecl_isPackage imp) (ImportDecl_pathSegments imp)) ` P)"

lemma processImport_step:
  assumes ok: "graphOk fs g" and own: "owns w i g" and imp: "imp \<in> J"
    and P: "packagePrefixes (gs_registry g) \<subseteq> P" and J: "prefixesFrom J \<subseteq> P"
    and g'_def: "g' = processImport fs ov std i w imp g"
  shows "graphOk fs g'" and "later g g'" and "settled (set (gs_queued g')) (gs_modules g' ! i) imp"
    and "packagePrefixes (gs_registry g') \<subseteq> P" and "set (gs_queued g') \<subseteq> set (gs_queued g) \<union> namesFrom P J"
    and "length (gs_queued g') + length (gs_work g) = length (gs_queued g) + length (gs_work g')"
proof -
  obtain target r where res: "resolveImport fs ov std w (ImportDecl_isPackage imp) (ImportDecl_pathSegments imp) (gs_registry g) = (target, r)"
    by force
  have "registryOk fs (gs_registry g)" "w < length (rg_owned (gs_registry g))" using ok own by (simp_all add: graphOk_def owns_def)
  note spec = resolveImport_loaded [OF this res]
  define h where "h = g\<lparr>gs_registry := r\<rparr>"
  have h: "graphOk fs h" "later g h" "gs_modules h = gs_modules g" "gs_queued h = gs_queued g" "gs_work h = gs_work g" "gs_registry h = r"
    using graphOk_registry [OF ok spec(1)] by (simp_all add: h_def)
  have i: "i < length (gs_modules h)" using own by (simp add: owns_def h)
  have "insert (u16 ''std'') (segmentPrefixes (ImportDecl_pathSegments imp)) \<subseteq> prefixesFrom J" using imp by (auto simp: prefixesFrom_def)
  with J have "insert (u16 ''std'') (segmentPrefixes (ImportDecl_pathSegments imp)) \<subseteq> P" by (rule subset_trans [rotated])
  moreover have "packagePrefixes r \<subseteq> packagePrefixes (gs_registry g) \<union> insert (u16 ''std'') (segmentPrefixes (ImportDecl_pathSegments imp))"
    using spec(1) by (simp add: loaded_def)
  ultimately have Ph: "packagePrefixes r \<subseteq> P" using P by blast
  let ?name = "importName (ws_packagePrefix (rg_owned (gs_registry g) ! w)) (ImportDecl_isPackage imp) (ImportDecl_pathSegments imp)"
  have p: "mo_packagePrefix (gs_modules g ! i) = ws_packagePrefix (rg_owned (gs_registry g) ! w)" using own by (simp add: owns_def)
  have "ws_packagePrefix (rg_owned (gs_registry g) ! w) \<in> P" using own P by (auto simp: owns_def packagePrefixes_def)
  then have name: "?name \<in> namesFrom P J" using imp by (auto simp: namesFrom_def)
  have rep: "graphOk fs (moduleReport i imp msg h)" "later h (moduleReport i imp msg h)"
    "settled (set (gs_queued (moduleReport i imp msg h))) (gs_modules (moduleReport i imp msg h) ! i) imp"
    "gs_registry (moduleReport i imp msg h) = r" "gs_queued (moduleReport i imp msg h) = gs_queued h"
    "gs_work (moduleReport i imp msg h) = gs_work h" for msg
  proof -
    note m = moduleReport_ok [OF h(1) i, of imp msg]
    show "graphOk fs (moduleReport i imp msg h)" "later h (moduleReport i imp msg h)" by (fact m)+
    have "importPosition (gs_modules (moduleReport i imp msg h) ! i) imp = importPosition (gs_modules h ! i) imp"
      using later_module [OF m(2) i] by (simp add: moreMessages_parts)
    with m(3) show "settled (set (gs_queued (moduleReport i imp msg h))) (gs_modules (moduleReport i imp msg h) ! i) imp"
      by (simp add: settled_def Let_def)
  qed (simp_all add: moduleReport_def Let_def h split: prod.split)
  have enq: "graphOk fs (enqueue t base rel c h)" "later h (enqueue t base rel c h)"
    "settled (set (gs_queued (enqueue t base rel c h))) (gs_modules (enqueue t base rel c h) ! i) imp"
    "gs_registry (enqueue t base rel c h) = r" "set (gs_queued (enqueue t base rel c h)) \<subseteq> insert c (set (gs_queued h))"
    "length (gs_queued (enqueue t base rel c h)) + length (gs_work h) = length (gs_queued h) + length (gs_work (enqueue t base rel c h))"
    if "t < length (rg_owned r)" "c = ?name" for t base rel c
  proof -
    have "t < length (rg_owned (gs_registry h))" using that(1) by (simp add: h)
    note e = enqueue_ok [OF h(1) this, where base = base and rel = rel and c = c]
    show "graphOk fs (enqueue t base rel c h)" "later h (enqueue t base rel c h)" by (fact e)+
    have "gs_modules (enqueue t base rel c h) = gs_modules g" by (simp add: enqueue_def h)
    with e(3) that(2) p show "settled (set (gs_queued (enqueue t base rel c h))) (gs_modules (enqueue t base rel c h) ! i) imp"
      by (auto simp: settled_def Let_def)
  qed (auto simp: enqueue_def h)
  have skip: "settled (set (gs_queued h)) (gs_modules h ! i) imp"
    if "ImportDecl_pathSegments imp = [] \<or> ?name = [] \<or> ?name \<in> set (gs_queued g)"
    using that p by (auto simp: settled_def Let_def h)
  have run: "g' = (case target of Ignored \<Rightarrow> h | Rejected msg \<Rightarrow> moduleReport i imp msg h
    | Target t base rel c \<Rightarrow> if c = [] \<or> c \<in> set (gs_queued h) then h
        else if base = [] \<or> (\<not> (base \<noteq> [] \<and> pathAppend base rel \<noteq> [] \<and> ov (overrideKey fs (pathAppend base rel)) \<noteq> None) \<and>
            \<not> fs_exists fs (if base = [] then [] else pathAppend base rel))
          then moduleReport i imp (notFoundMessage r w t (ImportDecl_modulePath imp) (if base = [] then [] else pathAppend base rel) rel) h
          else enqueue t base rel c h)"
    unfolding g'_def processImport_def res by (simp add: Let_def h_def split: ImportTarget.split)
  have "graphOk fs g' \<and> later h g' \<and> settled (set (gs_queued g')) (gs_modules g' ! i) imp \<and> gs_registry g' = r \<and>
    set (gs_queued g') \<subseteq> set (gs_queued h) \<union> namesFrom P J \<and>
    length (gs_queued g') + length (gs_work h) = length (gs_queued h) + length (gs_work g')"
  proof (cases target)
    case Ignored
    with spec(2) skip h show ?thesis by (simp add: run build.le_refl)
  next
    case (Rejected msg)
    with rep h show ?thesis by (simp add: run)
  next
    case (Target t base rel c)
    with spec(2) have c: "t < length (rg_owned r)" "c = ?name" by simp_all
    from enq(5) [OF c] name c(2) have "set (gs_queued (enqueue t base rel c h)) \<subseteq> set (gs_queued h) \<union> namesFrom P J" by blast
    then show ?thesis unfolding run Target ImportTarget.case
      using rep enq(1-4,6) [OF c] skip h(1,4,5,6) c(2) build.le_refl [of h]
      by (simp split: if_split)
  qed
  with h Ph build.le_trans [OF h(2)] show "graphOk fs g'" "later g g'" "settled (set (gs_queued g')) (gs_modules g' ! i) imp"
    "packagePrefixes (gs_registry g') \<subseteq> P" "set (gs_queued g') \<subseteq> set (gs_queued g) \<union> namesFrom P J"
    "length (gs_queued g') + length (gs_work g) = length (gs_queued g) + length (gs_work g')"
    by simp_all
qed

section \<open>The imports of a module\<close>

lemma processImports_steps:
  assumes "graphOk fs g" and "owns w i g" and "set imps \<subseteq> J"
    and "packagePrefixes (gs_registry g) \<subseteq> P" and J: "prefixesFrom J \<subseteq> P"
  shows "let g' = fold (processImport fs ov std i w) imps g in
    graphOk fs g' \<and> later g g' \<and> (\<forall>imp \<in> set imps. settled (set (gs_queued g')) (gs_modules g' ! i) imp) \<and>
    packagePrefixes (gs_registry g') \<subseteq> P \<and> set (gs_queued g') \<subseteq> set (gs_queued g) \<union> namesFrom P J \<and>
    length (gs_queued g') + length (gs_work g) = length (gs_queued g) + length (gs_work g')"
  using assms(1-4)
proof (induction imps arbitrary: g)
  case Nil
  then show ?case by (simp add: Let_def build.le_refl)
next
  case (Cons imp imps)
  define h where "h = processImport fs ov std i w imp g"
  define g' where "g' = fold (processImport fs ov std i w) imps h"
  from Cons.prems have "imp \<in> J" by simp
  note step = processImport_step [OF Cons.prems(1,2) this Cons.prems(4) J h_def]
  have own: "owns w i h" using owns_later [OF Cons.prems(2) step(2)] .
  have ih: "graphOk fs g'" "later h g'" "\<forall>imp \<in> set imps. settled (set (gs_queued g')) (gs_modules g' ! i) imp"
    "packagePrefixes (gs_registry g') \<subseteq> P" "set (gs_queued g') \<subseteq> set (gs_queued h) \<union> namesFrom P J"
    "length (gs_queued g') + length (gs_work h) = length (gs_queued h) + length (gs_work g')"
    using Cons.IH [OF step(1) own _ step(4)] Cons.prems(3) by (simp_all add: Let_def g'_def)
  have "i < length (gs_modules h)" using own by (simp add: owns_def)
  then have "settled (set (gs_queued g')) (gs_modules g' ! i) imp"
    using settled_mono [OF step(3) later_queued [OF ih(2)]] later_module [OF ih(2)] by blast
  with ih step build.le_trans [OF step(2) ih(2)] show ?case
    by (auto simp: Let_def h_def [symmetric] g'_def [symmetric])
qed

section \<open>One turn of the loop\<close>

text \<open>The sources that can be read, and the imports written in them.\<close>

definition sourceTexts :: "FileSystem \<Rightarrow> SourceOverrides \<Rightarrow> u16string set" where
  "sourceTexts fs ov = {code. \<exists>p. readFileToU16 fs p = Inr code} \<union> ran ov"

definition importable :: "FileSystem \<Rightarrow> SourceOverrides \<Rightarrow> ImportDecl set" where
  "importable fs ov = (\<Union>code \<in> sourceTexts fs ov. \<Union>mp absolute rel. set (importsOf (parsedModule mp absolute rel code)))"

definition closed :: "GraphState \<Rightarrow> bool" where
  "closed g \<longleftrightarrow> (\<forall>m \<in> set (gs_modules g). \<forall>imp \<in> set (importsOf m). settled (set (gs_queued g)) m imp)"

lemma closed_later:
  assumes "later g g'" and "\<forall>m \<in> set (take n (gs_modules g)). \<forall>imp \<in> set (importsOf m). settled (set (gs_queued g)) m imp"
  shows "\<forall>m \<in> set (take n (gs_modules g')). \<forall>imp \<in> set (importsOf m). settled (set (gs_queued g')) m imp"
proof (intro ballI)
  fix m imp assume "m \<in> set (take n (gs_modules g'))" and imp: "imp \<in> set (importsOf m)"
  then obtain j where j: "j < n" "j < length (gs_modules g')" "m = gs_modules g' ! j" by (auto simp: in_set_conv_nth)
  then have "j < length (gs_modules g)" using assms(1) by (auto simp: later_def dest: list_all2_lengthD)
  note more = later_module [OF assms(1) this]
  have "gs_modules g ! j \<in> set (take n (gs_modules g))" using j(1) \<open>j < length (gs_modules g)\<close> by (auto simp: in_set_conv_nth)
  moreover have "imp \<in> set (importsOf (gs_modules g ! j))" using imp j(3) moreMessages_parts(5) [OF conjunct2 [OF more]] by simp
  ultimately show "settled (set (gs_queued g')) m imp"
    using assms(2) settled_mono [OF _ later_queued [OF assms(1)]] more j(3) by blast
qed

lemma parsedModule_path [simp]: "mo_modulePath (parsedModule mp absolute rel code) = mp"
  by (simp add: parsedModule_def split: prod.split)

lemma loadOrOverride_module:
  assumes "loadOrOverride fs base rel mp ov = Inr m"
  shows "mo_modulePath m = mp" and "set (importsOf m) \<subseteq> importable fs ov"
proof -
  have "\<exists>code \<in> sourceTexts fs ov. \<exists>a r. mo_rootNode m = mo_rootNode (parsedModule mp a r code) \<and> mo_modulePath m = mp"
  proof (cases "ov (overrideKey fs (pathAppend base rel))")
    case None
    with assms obtain code where "readFileToU16 fs (pathAppend base rel) = Inr code" "m = parsedModule mp (pathAppend base rel) rel code"
      by (auto simp: loadOrOverride_def loadModule_def Let_def split: sum.splits)
    then show ?thesis by (auto simp: sourceTexts_def)
  next
    case (Some code)
    then have "code \<in> sourceTexts fs ov" by (auto simp: sourceTexts_def ran_def)
    with assms Some show ?thesis by (auto simp: loadOrOverride_def makeInMemoryModule_def intro!: bexI [of _ code] exI [of _ "pathAppend base rel"])
  qed
  then obtain code absolute rel' where code: "code \<in> sourceTexts fs ov" and path: "mo_modulePath m = mp"
    and m: "mo_rootNode m = mo_rootNode (parsedModule mp absolute rel' code)" by blast
  from path show "mo_modulePath m = mp" .
  have "importsOf m = importsOf (parsedModule mp absolute rel' code)" by (simp add: importsOf_def m)
  then show "set (importsOf m) \<subseteq> importable fs ov" unfolding importable_def
    by (intro subsetI UN_I [OF code] UN_I [of mp] UN_I [of absolute] UN_I [of rel'] UNIV_I) simp
qed


text \<open>The state once the module of the item has been added.\<close>

lemma added_ok:
  assumes ok: "graphOk fs g" and work: "gs_work g = item # rest" and m: "mo_modulePath m = wi_canonical item"
  defines "h \<equiv> g\<lparr>gs_work := rest, gs_modules := gs_modules g @ [m],
    gs_byPath := (if gs_byPath g (wi_canonical item) = None then (gs_byPath g)(wi_canonical item \<mapsto> length (gs_modules g)) else gs_byPath g)\<rparr>"
  shows "graphOk fs h"
proof -
  let ?c = "wi_canonical item"
  have new: "?c \<notin> set (modulePaths g)" using ok work by (auto simp: graphOk_def)
  have tbl: "gs_byPath g c = Some i \<longleftrightarrow> i < length (gs_modules g) \<and> mo_modulePath (gs_modules g ! i) = c" for c i
    using ok by (simp add: graphOk_def)
  have "gs_byPath g ?c = None"
  proof (rule ccontr)
    assume "gs_byPath g ?c \<noteq> None"
    then obtain i where "i < length (gs_modules g)" "mo_modulePath (gs_modules g ! i) = ?c" using tbl by auto
    with new show False by (auto simp: modulePaths_def) (metis image_eqI nth_mem)
  qed
  then have tab: "gs_byPath h = (gs_byPath g)(?c \<mapsto> length (gs_modules g))" by (simp add: h_def)
  have "gs_byPath h c = Some i \<longleftrightarrow> i < length (gs_modules h) \<and> mo_modulePath (gs_modules h ! i) = c" for c i
  proof (cases "i < length (gs_modules g)")
    case True
    then have "mo_modulePath (gs_modules g ! i) \<noteq> ?c" using new by (auto simp: modulePaths_def) (metis image_eqI nth_mem)
    with True tbl [of c i] show ?thesis unfolding tab by (auto simp: h_def nth_append)
  next
    case False
    with tbl [of c i] m show ?thesis unfolding tab by (auto simp: h_def nth_append)
  qed
  then show ?thesis using ok work m unfolding graphOk_def by (simp add: h_def modulePaths_def)
qed

lemma buildStep_ok:
  assumes ok: "graphOk fs g" and work: "gs_work g = item # rest" and closed: "closed g"
    and P: "packagePrefixes (gs_registry g) \<subseteq> P" and J: "prefixesFrom (importable fs ov) \<subseteq> P"
    and step: "buildStep fs ov std item (g\<lparr>gs_work := rest\<rparr>) = (True, g')"
  shows "graphOk fs g'" and "closed g'" and "packagePrefixes (gs_registry g') \<subseteq> P"
    and "set (gs_queued g') \<subseteq> set (gs_queued g) \<union> namesFrom P (importable fs ov)"
    and "length (gs_queued g') + length (gs_work g) = length (gs_queued g) + length (gs_work g') + 1"
    and "set (gs_queued g) \<subseteq> set (gs_queued g')"
proof -
  obtain m0 where load: "loadOrOverride fs (wi_base item) (wi_rel item) (wi_canonical item) ov = Inr m0"
    using step by (auto simp: buildStep_def split: sum.splits)
  note loaded = loadOrOverride_module [OF load]
  define m where "m = ownedModule (rg_owned (gs_registry g) ! wi_ws item) m0"
  have m: "mo_modulePath m = wi_canonical item" "importsOf m = importsOf m0"
    using loaded(1) by (simp_all add: m_def ownedModule_def importsOf_def)
  define h where "h = g\<lparr>gs_work := rest, gs_modules := gs_modules g @ [m],
    gs_byPath := (if gs_byPath g (wi_canonical item) = None then (gs_byPath g)(wi_canonical item \<mapsto> length (gs_modules g)) else gs_byPath g)\<rparr>"
  have hok: "graphOk fs h" unfolding h_def using ok work m(1) by (rule added_ok)
  let ?i = "length (gs_modules g)"
  have same: "gs_registry h = gs_registry g" "gs_queued h = gs_queued g" "gs_work h = rest" "gs_modules h = gs_modules g @ [m]"
    by (simp_all add: h_def)
  have own: "owns (wi_ws item) ?i h" using ok work by (auto simp: owns_def same graphOk_def m_def ownedModule_def)
  have run: "g' = fold (processImport fs ov std ?i (wi_ws item)) (importsOf m) h"
    using step by (cases "gs_byPath g (wi_canonical item)")
      (simp_all add: buildStep_def load Let_def m_def [symmetric] h_def importsOf_def split: option.splits)
  have "set (importsOf m) \<subseteq> importable fs ov" using loaded(2) m(2) by simp
  from processImports_steps [OF hok own this _ J, of ov std] P
  have g': "graphOk fs g'" "later h g'" "\<forall>imp \<in> set (importsOf m). settled (set (gs_queued g')) (gs_modules g' ! ?i) imp"
    "packagePrefixes (gs_registry g') \<subseteq> P" "set (gs_queued g') \<subseteq> set (gs_queued g) \<union> namesFrom P (importable fs ov)"
    "length (gs_queued g') + length rest = length (gs_queued g) + length (gs_work g')"
    by (simp_all add: run Let_def same)
  then show "graphOk fs g'" "packagePrefixes (gs_registry g') \<subseteq> P"
    "set (gs_queued g') \<subseteq> set (gs_queued g) \<union> namesFrom P (importable fs ov)"
    "length (gs_queued g') + length (gs_work g) = length (gs_queued g) + length (gs_work g') + 1" by (simp_all add: work)
  show "set (gs_queued g) \<subseteq> set (gs_queued g')" using later_queued [OF g'(2)] by (simp add: same)
  have len: "length (gs_modules g') = Suc ?i" using g'(2) by (auto simp: later_def same dest: list_all2_lengthD)
  have last: "importsOf (gs_modules g' ! ?i) = importsOf m"
    using moreMessages_parts(5) [OF conjunct2 [OF later_module [OF g'(2), of ?i]]] by (simp add: same)
  have "\<forall>m \<in> set (take ?i (gs_modules g')). \<forall>imp \<in> set (importsOf m). settled (set (gs_queued g')) m imp"
    using closed by (intro closed_later [OF g'(2)]) (simp add: same closed_def)
  moreover have "gs_modules g' = take ?i (gs_modules g') @ [gs_modules g' ! ?i]"
    using len by (metis lessI take_Suc_conv_app_nth take_all_iff le_refl)
  then have "set (gs_modules g') = set (take ?i (gs_modules g')) \<union> {gs_modules g' ! ?i}"
    by (metis set_append list.simps(15) list.set(1))
  ultimately show "closed g'" using g'(3) last by (auto simp: closed_def)
qed

section \<open>The loop\<close>

definition graphInv :: "FileSystem \<Rightarrow> u16string set \<Rightarrow> GraphState \<Rightarrow> bool" where
  "graphInv fs P g \<longleftrightarrow> graphOk fs g \<and> closed g \<and> packagePrefixes (gs_registry g) \<subseteq> P"

lemma buildStep_inv:
  assumes "graphInv fs P g" and "gs_work g = item # rest" and "prefixesFrom (importable fs ov) \<subseteq> P"
    and "buildStep fs ov std item (g\<lparr>gs_work := rest\<rparr>) = (True, g')"
  shows "graphInv fs P g'"
  using buildStep_ok [of fs g item rest P ov std g'] assms by (simp add: graphInv_def)

lemma buildLoop_inv:
  assumes "buildLoop fs ov std g = Some (ok, g')" and "graphInv fs P g" and "prefixesFrom (importable fs ov) \<subseteq> P"
  shows "ok \<longrightarrow> graphInv fs P g' \<and> gs_work g' = [] \<and> set (gs_queued g) \<subseteq> set (gs_queued g')"
proof -
  have "graphInv fs P g \<longrightarrow> prefixesFrom (importable fs ov) \<subseteq> P \<longrightarrow> fst r \<longrightarrow>
      graphInv fs P (snd r) \<and> gs_work (snd r) = [] \<and> set (gs_queued g) \<subseteq> set (gs_queued (snd r))"
    if "buildLoop fs ov std g = Some r" for r
  proof (rule buildLoop.raw_induct [where P = "\<lambda>fs ov std g r. graphInv fs P g \<longrightarrow> prefixesFrom (importable fs ov) \<subseteq> P \<longrightarrow> fst r \<longrightarrow>
      graphInv fs P (snd r) \<and> gs_work (snd r) = [] \<and> set (gs_queued g) \<subseteq> set (gs_queued (snd r))", OF _ that], goal_cases)
    case (1 loop fs ov std g r)
    show ?case
    proof (intro impI)
      assume inv: "graphInv fs P g" and P: "prefixesFrom (importable fs ov) \<subseteq> P" and ok: "fst r"
      show "graphInv fs P (snd r) \<and> gs_work (snd r) = [] \<and> set (gs_queued g) \<subseteq> set (gs_queued (snd r))"
      proof (cases "gs_work g")
        case Nil
        with 1(2) inv show ?thesis by auto
      next
        case (Cons item rest)
        obtain b h where step: "buildStep fs ov std item (g\<lparr>gs_work := rest\<rparr>) = (b, h)" by force
        with 1(2) Cons ok have b: "b" by (cases b) auto
        with 1(2) Cons step have run: "loop fs ov std h = Some r" by simp
        have step: "buildStep fs ov std item (g\<lparr>gs_work := rest\<rparr>) = (True, h)" using step b by simp
        have "set (gs_queued g) \<subseteq> set (gs_queued h)"
          using buildStep_ok(6) [of fs g item rest P ov std h] inv Cons P step by (simp add: graphInv_def)
        with 1(1) [OF run] buildStep_inv [OF inv Cons P step] P ok show ?thesis by blast
      qed
    qed
  qed
  from this [OF assms(1)] assms(2,3) show ?thesis by simp
qed

text \<open>Every name that is queued is one of finitely many, so the loop ends.\<close>

lemma buildLoop_returns:
  assumes "graphInv fs P g" and P: "prefixesFrom (importable fs ov) \<subseteq> P"
    and "set (gs_queued g) \<subseteq> C" and C: "finite C" "namesFrom P (importable fs ov) \<subseteq> C"
  shows "\<exists>r. buildLoop fs ov std g = Some r"
  using assms(1,3)
proof (induction "2 * (card C - length (gs_queued g)) + length (gs_work g)" arbitrary: g rule: less_induct)
  case less
  show ?case
  proof (cases "gs_work g")
    case Nil
    then show ?thesis by (subst buildLoop.simps) auto
  next
    case (Cons item rest)
    obtain b h where step: "buildStep fs ov std item (g\<lparr>gs_work := rest\<rparr>) = (b, h)" by force
    show ?thesis
    proof (cases b)
      case False
      with Cons step show ?thesis by (subst buildLoop.simps) auto
    next
      case True
      with step have step': "buildStep fs ov std item (g\<lparr>gs_work := rest\<rparr>) = (True, h)" by simp
      note inv = buildStep_inv [OF less.prems(1) Cons P step']
      have h: "set (gs_queued h) \<subseteq> set (gs_queued g) \<union> namesFrom P (importable fs ov)"
        "length (gs_queued h) + length (gs_work g) = length (gs_queued g) + length (gs_work h) + 1"
        using buildStep_ok(4,5) [of fs g item rest P ov std h] less.prems(1) Cons P step' by (simp_all add: graphInv_def)
      have sub: "set (gs_queued h) \<subseteq> C" using h(1) less.prems(2) C(2) by blast
      have "distinct (gs_queued h)" "distinct (gs_queued g)" using inv less.prems(1) graphOk_distinct unfolding graphInv_def by blast+
      have "length (gs_queued h) \<le> card C" using sub C(1) \<open>distinct (gs_queued h)\<close> by (metis card_mono distinct_card)
      moreover have "length (gs_queued g) \<le> length (gs_queued h)"
        using buildStep_ok(6) [of fs g item rest P ov std h] less.prems(1) Cons P step' calculation
          card_mono [of "set (gs_queued h)" "set (gs_queued g)"] \<open>distinct (gs_queued h)\<close> \<open>distinct (gs_queued g)\<close>
        by (simp add: graphInv_def distinct_card)
      ultimately have "2 * (card C - length (gs_queued h)) + length (gs_work h) < 2 * (card C - length (gs_queued g)) + length (gs_work g)"
        using h(2) by linarith
      from less.hyps [OF this inv sub] show ?thesis using Cons step' by (subst buildLoop.simps) simp
    qed
  qed
qed

section \<open>From the seeds to the graph\<close>

text \<open>Before the first module is loaded.\<close>

definition seeding :: "FileSystem \<Rightarrow> GraphState \<Rightarrow> GraphState \<Rightarrow> bool" where
  "seeding fs g g' \<longleftrightarrow> (graphOk fs g \<longrightarrow> graphOk fs g' \<and> later g g') \<and> gs_modules g' = gs_modules g"

interpretation seeding: preorder_ops "seeding fs"
  by unfold_locales (auto simp: seeding_def build.le_refl intro: build.le_trans)

lemma enqueue_seeding:
  assumes "graphOk fs g \<Longrightarrow> t < length (rg_owned (gs_registry g))"
  shows "seeding fs g (enqueue t base rel c g)"
proof -
  have "gs_modules (enqueue t base rel c g) = gs_modules g" by (simp add: enqueue_def)
  with enqueue_ok(1,2) [OF _ assms] show ?thesis by (auto simp: seeding_def)
qed

lemma load_seeding:
  assumes "getOrLoad fs folder p (gs_registry g) = (t, r)"
  shows "seeding fs g (g\<lparr>gs_registry := r\<rparr>)" and "seeding fs g (enqueue t base rel c (g\<lparr>gs_registry := r\<rparr>))"
proof -
  have reg: "graphOk fs (g\<lparr>gs_registry := r\<rparr>) \<and> later g (g\<lparr>gs_registry := r\<rparr>) \<and> t < length (rg_owned r)" if "graphOk fs g"
  proof -
    from that have "registryOk fs (gs_registry g)" by (simp add: graphOk_def)
    note l = getOrLoad_loaded [OF this assms]
    with graphOk_registry [OF that l(1)] show ?thesis by blast
  qed
  then show s: "seeding fs g (g\<lparr>gs_registry := r\<rparr>)" by (simp add: seeding_def)
  let ?e = "enqueue t base rel c (g\<lparr>gs_registry := r\<rparr>)"
  have "gs_modules ?e = gs_modules g" by (simp add: enqueue_def)
  moreover have "graphOk fs ?e \<and> later g ?e" if "graphOk fs g"
    using enqueue_ok(1,2) [of fs "g\<lparr>gs_registry := r\<rparr>" t base rel c] reg [OF that] by (auto intro: build.le_trans)
  ultimately show "seeding fs g ?e" by (simp add: seeding_def)
qed

lemma enqueueImplicit_seeding:
  "seeding fs g (snd (enqueueImplicit fs ov std cs g)) \<and>
   (graphOk fs g \<longrightarrow> fst (enqueueImplicit fs ov std cs g) \<longrightarrow> set cs - {[]} \<subseteq> set (gs_queued (snd (enqueueImplicit fs ov std cs g))))"
proof (induction cs arbitrary: g)
  case Nil
  then show ?case by (simp add: seeding.le_refl)
next
  case (Cons c cs)
  obtain t r where load: "getOrLoad fs (pathAppend std ''std'') (u16 ''std'') (gs_registry g) = (t, r)" by force
  define h where "h = enqueue t (ws_srcRoot (rg_owned r ! t)) (stdlibRelativePath c) c (g\<lparr>gs_registry := r\<rparr>)"
  note reg = load_seeding [OF load]
  have gh: "seeding fs g h" unfolding h_def by (rule reg(2))
  have c: "c = [] \<or> c \<in> set (gs_queued h)" by (simp add: h_def enqueue_def)
  have tail: "seeding fs h (snd (enqueueImplicit fs ov std cs h))"
    "graphOk fs h \<longrightarrow> fst (enqueueImplicit fs ov std cs h) \<longrightarrow> set cs - {[]} \<subseteq> set (gs_queued (snd (enqueueImplicit fs ov std cs h)))"
    using Cons.IH [of h] by blast+
  have kept: "graphOk fs g \<longrightarrow> set (gs_queued h) \<subseteq> set (gs_queued (snd (enqueueImplicit fs ov std cs h)))"
    using gh tail(1) later_queued unfolding seeding_def by blast
  have cerr: "seeding fs g (q\<lparr>gs_cerr := e\<rparr>)" if "seeding fs g q" for e q
  proof -
    have "graphOk fs (q\<lparr>gs_cerr := e\<rparr>) = graphOk fs q" "later g (q\<lparr>gs_cerr := e\<rparr>) = later g q"
      by (simp_all add: graphOk_def modulePaths_def later_def)
    with that show ?thesis by (simp add: seeding_def)
  qed
  show ?case
  proof (cases "std = [] \<or> (ov (overrideKey fs (pathAppend (ws_srcRoot (rg_owned r ! t)) (stdlibRelativePath c))) = None \<and>
      \<not> fs_exists fs (pathAppend (ws_srcRoot (rg_owned r ! t)) (stdlibRelativePath c)))")
    case True
    then show ?thesis using cerr [OF seeding.le_refl] cerr [OF reg(1)] by (auto simp: load Let_def)
  next
    case False
    then have "enqueueImplicit fs ov std (c # cs) g = enqueueImplicit fs ov std cs h" by (auto simp: load Let_def h_def)
    with seeding.le_trans [OF gh tail(1)] tail(2) kept c gh show ?thesis by (auto simp: seeding_def)
  qed
qed

lemma enqueueBindings_seeding: "seeding fs g (enqueueBindings fs ov std g)"
proof -
  obtain t r where load: "getOrLoad fs (pathAppend std ''std'') (u16 ''std'') (gs_registry g) = (t, r)" by force
  let ?h = "g\<lparr>gs_registry := r\<rparr>"
  define inv where "inv q \<longleftrightarrow> seeding fs g q \<and> (graphOk fs g \<longrightarrow> t < length (rg_owned (gs_registry q)))" for q
  have step: "inv (enqueueBinding fs ov t c q)" if "inv q" for c q
  proof -
    have ok: "graphOk fs q \<Longrightarrow> seeding fs q (enqueueBinding fs ov t c q)" if "t < length (rg_owned (gs_registry q))"
      using that by (auto simp: enqueueBinding_def Let_def seeding.le_refl intro: enqueue_seeding)
    have reg: "gs_registry (enqueueBinding fs ov t c q) = gs_registry q" "gs_modules (enqueueBinding fs ov t c q) = gs_modules q"
      by (simp_all add: enqueueBinding_def Let_def enqueue_def)
    show ?thesis using that ok reg unfolding inv_def seeding_def by (auto intro: build.le_trans)
  qed
  have "inv (fold (enqueueBinding fs ov t) cs q)" if "inv q" for cs q
    using that by (induction cs arbitrary: q) (simp_all add: step)
  moreover have "inv ?h"
    using load_seeding(1) [OF load] getOrLoad_loaded(2) [OF _ load] by (auto simp: inv_def graphOk_def)
  ultimately have "inv (fold (enqueueBinding fs ov t) cs ?h)" for cs by blast
  then show ?thesis by (auto simp: enqueueBindings_def load inv_def seeding.le_refl)
qed

lemma enqueueSeeds_seeding:
  assumes "graphOk fs g" and "root < length (rg_owned (gs_registry g))"
  shows "seeding fs g (fold (enqueueSeed root) seeds g) \<and>
    (\<forall>seed \<in> set seeds. let c = canonicalModulePath (rg_owned (gs_registry g) ! root) (snd seed) in
      c = [] \<or> c \<in> set (gs_queued (fold (enqueueSeed root) seeds g)))"
  using assms
proof (induction seeds arbitrary: g)
  case (Cons seed seeds)
  let ?h = "enqueueSeed root seed g"
  let ?c = "canonicalModulePath (rg_owned (gs_registry g) ! root) (snd seed)"
  have s: "seeding fs g ?h" unfolding enqueueSeed_def using Cons.prems(2) by (intro enqueue_seeding)
  have reg: "gs_registry ?h = gs_registry g" and c: "?c = [] \<or> ?c \<in> set (gs_queued ?h)"
    by (simp_all add: enqueueSeed_def enqueue_def)
  have "graphOk fs ?h" using s Cons.prems(1) by (simp add: seeding_def)
  from Cons.IH [OF this] Cons.prems(2) have ih: "seeding fs ?h (fold (enqueueSeed root) seeds ?h)"
    "\<forall>seed \<in> set seeds. let c = canonicalModulePath (rg_owned (gs_registry g) ! root) (snd seed) in
      c = [] \<or> c \<in> set (gs_queued (fold (enqueueSeed root) seeds ?h))" by (simp_all add: reg)
  have "set (gs_queued ?h) \<subseteq> set (gs_queued (fold (enqueueSeed root) seeds ?h))"
    using ih(1) \<open>graphOk fs ?h\<close> later_queued by (auto simp: seeding_def)
  with c ih seeding.le_trans [OF s ih(1)] show ?case by (auto simp: Let_def)
qed (simp add: seeding.le_refl)

lemma startGraph_ok: "registryOk fs r \<Longrightarrow> graphOk fs (startGraph r [] Map.empty)"
  by (simp add: graphOk_def startGraph_def modulePaths_def)

text \<open>The state in which the loop starts.\<close>

lemma start_of_loop:
  assumes "registryOk fs r" and "root < length (rg_owned r)"
    and "enqueueImplicit fs ov std kImplicitImportPaths (startGraph r [] Map.empty) = (True, g1)"
    and g0: "g0 = fold (enqueueSeed root) seeds (enqueueBindings fs ov std g1)"
  shows "graphOk fs g0" and "closed g0" and "set kImplicitImportPaths \<subseteq> set (gs_queued g0)"
    and "\<forall>seed \<in> set seeds. let c = canonicalModulePath (rg_owned r ! root) (snd seed) in c = [] \<or> c \<in> set (gs_queued g0)"
proof -
  let ?g = "startGraph r [] Map.empty"
  let ?g2 = "enqueueBindings fs ov std g1"
  have start: "graphOk fs ?g" using assms(1) by (rule startGraph_ok)
  have g1: "graphOk fs g1" "later ?g g1" "set kImplicitImportPaths - {[]} \<subseteq> set (gs_queued g1)" "gs_modules g1 = []"
    using enqueueImplicit_seeding [of fs ?g ov std kImplicitImportPaths] assms(3) start by (simp_all add: seeding_def startGraph_def)
  have g2: "graphOk fs ?g2" "later g1 ?g2" "gs_modules ?g2 = []"
    using enqueueBindings_seeding [of fs g1 ov std] g1 by (simp_all add: seeding_def)
  have lat: "later ?g ?g2" using build.le_trans [OF g1(2) g2(2)] .
  then have "prefix (rg_owned r) (rg_owned (gs_registry ?g2))" by (simp add: later_def startGraph_def)
  then have root: "root < length (rg_owned (gs_registry ?g2))" "rg_owned (gs_registry ?g2) ! root = rg_owned r ! root"
    using assms(2) by (auto simp: prefix_nth dest: prefix_length_le)
  note seeds = enqueueSeeds_seeding [OF g2(1) root(1), of seeds, folded g0]
  show "graphOk fs g0" "closed g0" using seeds g2 by (simp_all add: seeding_def closed_def)
  have "later ?g2 g0" using seeds g2(1) by (simp add: seeding_def)
  then have "set (gs_queued g1) \<subseteq> set (gs_queued g0)" using later_queued [OF g2(2)] later_queued by blast
  with g1(3) show "set kImplicitImportPaths \<subseteq> set (gs_queued g0)" by (auto simp: kImplicitImportPaths_def u16_def)
  from seeds root(2) show "\<forall>seed \<in> set seeds. let c = canonicalModulePath (rg_owned r ! root) (snd seed) in c = [] \<or> c \<in> set (gs_queued g0)"
    by simp
qed

text \<open>C8: a graph that was built holds each module once, its table finds exactly the modules, and it is closed: the
  module an import names is one of them, or the import has an error at its place. The implicitly imported modules and the
  seeds are among them.\<close>

theorem module_graph_closed:
  assumes "registryOk fs r" and "root < length (rg_owned r)"
    and "buildModuleGraphFromSeeds fs ov std root seeds (startGraph r [] Map.empty) = Some (True, g)"
  shows "distinct (modulePaths g) \<and>
    (\<forall>c i. gs_byPath g c = Some i \<longleftrightarrow> i < length (gs_modules g) \<and> modulePaths g ! i = c) \<and>
    (\<forall>m \<in> set (gs_modules g). \<forall>imp \<in> set (importsOf m). settled (set (modulePaths g)) m imp) \<and>
    set kImplicitImportPaths \<subseteq> set (modulePaths g) \<and>
    (\<forall>seed \<in> set seeds. let c = canonicalModulePath (rg_owned r ! root) (snd seed) in c = [] \<or> c \<in> set (modulePaths g))"
proof -
  obtain g1 where imp: "enqueueImplicit fs ov std kImplicitImportPaths (startGraph r [] Map.empty) = (True, g1)"
    and run: "buildLoop fs ov std (fold (enqueueSeed root) seeds (enqueueBindings fs ov std g1)) = Some (True, g)"
    using assms(3) by (auto simp: buildModuleGraphFromSeeds_def split: prod.splits bool.splits)
  note start = start_of_loop [OF assms(1,2) imp refl, of seeds]
  have "graphInv fs UNIV (fold (enqueueSeed root) seeds (enqueueBindings fs ov std g1))" using start by (simp add: graphInv_def)
  from buildLoop_inv [OF run this] have g: "graphOk fs g" "closed g" "gs_work g = []"
    "set (gs_queued (fold (enqueueSeed root) seeds (enqueueBindings fs ov std g1))) \<subseteq> set (gs_queued g)" by (simp_all add: graphInv_def)
  then have q: "set (gs_queued g) = set (modulePaths g)" by (simp add: graphOk_def)
  have "gs_byPath g c = Some i \<longleftrightarrow> i < length (gs_modules g) \<and> modulePaths g ! i = c" for c i
    using g(1) by (auto simp: graphOk_def modulePaths_def)
  moreover have "distinct (modulePaths g)" using g(1) by (simp add: graphOk_def)
  ultimately show ?thesis using g(2,4) start(3,4) unfolding closed_def q Let_def by blast
qed

section \<open>A small program\<close>

text \<open>A library held in the editor: \<open>core\<close> imports the module \<open>b\<close> and one that is not there.\<close>

definition demoOverrides :: SourceOverrides where
  "demoOverrides = [''libs/std/src/core.ens'' \<mapsto> u16 ''import b; import c;'', ''libs/std/src/b.ens'' \<mapsto> []]"

definition demoRegistry :: WorkspaceRegistry where
  "demoRegistry = snd (defineRoot emptyDisk ''app'' ''app/src'' [] False [] (mkRegistry emptyDisk ''libs/std''))"

definition demoBuild :: "(bool \<times> GraphState) option" where
  "demoBuild = buildModuleGraphFromSeeds emptyDisk demoOverrides ''libs'' 0 [] (startGraph demoRegistry [] Map.empty)"

lemma demoRegistry_ok: "registryOk emptyDisk demoRegistry" "0 < length (rg_owned demoRegistry)"
proof -
  have "rg_owned (mkRegistry emptyDisk ''libs/std'') = []" by (simp add: mkRegistry_def)
  from defineRoot_ok [OF this mkRegistry_ok] show "registryOk emptyDisk demoRegistry" "0 < length (rg_owned demoRegistry)"
    unfolding demoRegistry_def by blast+
qed

lemma demoBuild_modules: "map_option (\<lambda>r. (fst r, modulePaths (snd r))) demoBuild = Some (True, [u16 ''std.core'', u16 ''std.b''])"
  by code_simp

theorem module_graph_closed_witness:
  "\<exists>g. demoBuild = Some (True, g) \<and> modulePaths g = [u16 ''std.core'', u16 ''std.b''] \<and>
     (\<forall>m \<in> set (gs_modules g). \<forall>imp \<in> set (importsOf m). settled {u16 ''std.core'', u16 ''std.b''} m imp)"
proof -
  from demoBuild_modules obtain g where g: "demoBuild = Some (True, g)" "modulePaths g = [u16 ''std.core'', u16 ''std.b'']" by auto
  from module_graph_closed [OF demoRegistry_ok g(1) [unfolded demoBuild_def]] g show ?thesis by auto
qed

section \<open>Building ends\<close>

lemma importsOf_parsed: "importsOf (parsedModule mp absolute rel code) = importsOf (parsedModule [] [] [] code)"
  by (simp add: importsOf_def parsedModule_def split: prod.split)

lemma importable_finite:
  assumes "finite {p. fs_read fs p \<noteq> None}" and "finite (dom ov)"
  shows "finite (importable fs ov)"
proof -
  have "code \<in> (\<lambda>p. fst (decodeUtf8ToUtf16 (the (fs_read fs p)))) ` {p. fs_read fs p \<noteq> None}" if "readFileToU16 fs p = Inr code" for p code
    using that by (auto simp: readFileToU16_def split: option.splits prod.splits intro!: image_eqI [of _ _ p])
  then have "sourceTexts fs ov \<subseteq> (\<lambda>p. fst (decodeUtf8ToUtf16 (the (fs_read fs p)))) ` {p. fs_read fs p \<noteq> None} \<union> ran ov"
    by (auto simp: sourceTexts_def)
  moreover have "finite (ran ov)" using assms(2) by (rule finite_ran)
  ultimately have "finite (sourceTexts fs ov)" using assms(1) by (meson finite_UnI finite_imageI finite_subset)
  then have "finite (\<Union>code \<in> sourceTexts fs ov. set (importsOf (parsedModule [] [] [] code)))" by simp
  moreover have "importable fs ov = (\<Union>code \<in> sourceTexts fs ov. set (importsOf (parsedModule [] [] [] code)))"
    unfolding importable_def by (subst importsOf_parsed) simp
  ultimately show ?thesis by simp
qed

text \<open>C9: building the graph ends, whatever the sources import and however they import each other, as long as there are
  finitely many sources to read.\<close>

theorem module_graph_returns:
  assumes "finite {p. fs_read fs p \<noteq> None}" and "finite (dom ov)" and "registryOk fs r" and "root < length (rg_owned r)"
  shows "\<exists>ok g. buildModuleGraphFromSeeds fs ov std root seeds (startGraph r [] Map.empty) = Some (ok, g)"
proof -
  obtain b g1 where imp: "enqueueImplicit fs ov std kImplicitImportPaths (startGraph r [] Map.empty) = (b, g1)" by force
  let ?g0 = "fold (enqueueSeed root) seeds (enqueueBindings fs ov std g1)"
  let ?J = "importable fs ov"
  define P where "P = packagePrefixes (gs_registry ?g0) \<union> prefixesFrom ?J"
  have fin: "finite ?J" using assms(1,2) by (rule importable_finite)
  then have "finite P" by (simp add: P_def packagePrefixes_def prefixesFrom_def segmentPrefixes_def)
  with fin have names: "finite (set (gs_queued ?g0) \<union> namesFrom P ?J)" by (simp add: namesFrom_def)
  show ?thesis
  proof (cases b)
    case True
    with imp have imp: "enqueueImplicit fs ov std kImplicitImportPaths (startGraph r [] Map.empty) = (True, g1)" by simp
    have "graphInv fs P ?g0" using start_of_loop(1,2) [OF assms(3,4) imp refl, of seeds] by (simp add: graphInv_def P_def)
    moreover have "prefixesFrom ?J \<subseteq> P" by (simp add: P_def)
    ultimately obtain res where "buildLoop fs ov std ?g0 = Some res"
      using buildLoop_returns [OF _ _ _ names] by blast
    with imp show ?thesis by (cases res) (simp add: buildModuleGraphFromSeeds_def)
  next
    case False
    with imp show ?thesis by (auto simp: buildModuleGraphFromSeeds_def)
  qed
qed

theorem module_graph_returns_witness:
  "\<exists>ok g. buildModuleGraphFromSeeds emptyDisk demoOverrides ''libs'' 0 [(''app/src'', ''main.ens'')] (startGraph demoRegistry [] Map.empty) = Some (ok, g)"
  by (rule module_graph_returns [OF _ _ demoRegistry_ok]) (simp_all add: emptyDisk_def demoOverrides_def)

end
