(* ===== verification/ModulePaths.thy ===== *)
theory ModulePaths
  imports ModuleGraphs
begin

text \<open>
  The correspondence of module paths and files: a module path of plain segments is written as a relative path, and the
  relative path is read back as the module path.
\<close>

section \<open>Module paths and files\<close>

text \<open>A segment that a file name can stand for: ASCII, no dot and no slash.\<close>

definition plainSegment :: "u16string \<Rightarrow> bool" where
  "plainSegment s \<longleftrightarrow> s \<noteq> [] \<and> (\<forall>c \<in> set s. c < 128 \<and> c \<noteq> 0x2E \<and> c \<noteq> 0x2F)"

lemma charOf16_back: "c < 128 \<Longrightarrow> (of_char (charOf16 c) :: char16) = c"
proof -
  assume c: "c < 128"
  then have n: "unat c < 128" by (simp add: word_less_nat_alt)
  then have "(of_char (char_of (unat c)) :: nat) = unat c" by simp
  then have "(of_nat (of_char (char_of (unat c))) :: char16) = c" by simp
  with c show ?thesis by (simp only: of_nat_of_char charOf16_def if_True)
qed

lemma charOf16_eq: "c < 128 \<Longrightarrow> charOf16 c = d \<Longrightarrow> c = of_char d"
  using charOf16_back by auto

lemma plainSegment_ascii:
  assumes "plainSegment s"
  shows "toU16 (moduleAscii s) = s" and "plainName (moduleAscii s)" and "CHR ''.'' \<notin> set (moduleAscii s)"
proof -
  show "toU16 (moduleAscii s) = s" using assms by (auto simp: plainSegment_def toU16_def moduleAscii_def charOf16_back map_idI)
  have "charOf16 c \<noteq> CHR ''.'' \<and> charOf16 c \<noteq> CHR ''/''" if "c \<in> set s" for c
    using assms that charOf16_eq [of c "CHR ''.''"] charOf16_eq [of c "CHR ''/''"] by (auto simp: plainSegment_def)
  with assms show "plainName (moduleAscii s)" "CHR ''.'' \<notin> set (moduleAscii s)"
    unfolding plainName_def moduleAscii_def plainSegment_def set_map by (fastforce simp: image_iff)+
qed

lemma relativeLoop_segment:
  "\<forall>c \<in> set s. c \<noteq> 0x2E \<Longrightarrow> relativeLoop (s @ t) rel acc = relativeLoop t rel (acc @ moduleAscii s)"
  by (induction s arbitrary: acc) (simp_all add: moduleAscii_def)

lemma relativeLoop_segments:
  assumes "\<forall>s \<in> set segs. plainSegment s" and "\<forall>n \<in> set ns. plainName n"
  shows "relativeLoop (joinSegments segs) (joinSlash ns) [] = joinSlash (ns @ map moduleAscii segs)"
  using assms
proof (induction segs arbitrary: ns rule: joinSegments.induct)
  case 1
  then show ?case by simp
next
  case (2 s)
  then have "plainName (moduleAscii s)" by (simp add: plainSegment_ascii)
  moreover have "relativeLoop s (joinSlash ns) [] = relativeLoop [] (joinSlash ns) (moduleAscii s)"
    using relativeLoop_segment [of s "[]" "joinSlash ns" "[]"] 2 by (simp add: plainSegment_def)
  ultimately show ?case using 2 pathAppend_plain [OF refl, of ns] by (simp add: plainName_def)
next
  case (3 s t segs)
  then have n: "plainName (moduleAscii s)" by (simp add: plainSegment_ascii)
  have "relativeLoop (joinSegments (s # t # segs)) (joinSlash ns) [] = relativeLoop (0x2E # joinSegments (t # segs)) (joinSlash ns) (moduleAscii s)"
    using relativeLoop_segment [of s _ "joinSlash ns" "[]"] 3 by (simp add: plainSegment_def)
  also have "\<dots> = relativeLoop (joinSegments (t # segs)) (joinSlash (ns @ [moduleAscii s])) []"
    using n pathAppend_plain [OF refl, of ns] 3 by (simp add: plainName_def)
  also have "\<dots> = joinSlash (ns @ map moduleAscii (s # t # segs))" using 3 n by simp
  finally show ?case .
qed

lemma takeWhile_all: "(\<And>c. c \<in> set xs \<Longrightarrow> P c) \<Longrightarrow> takeWhile P (xs @ ys) = xs @ takeWhile P ys"
  by (induction xs) simp_all

lemma filenameOf_slash:
  assumes "CHR ''/'' \<notin> set n"
  shows "filenameOf (p @ CHR ''/'' # n) = n" and "filenameOf n = n"
proof -
  have stop: "takeWhile (\<lambda>c. c \<noteq> CHR ''/'') (rev n @ ys) = rev n @ takeWhile (\<lambda>c. c \<noteq> CHR ''/'') ys" for ys
    by (rule takeWhile_all) (use assms in auto)
  from stop [of "CHR ''/'' # rev p"] show "filenameOf (p @ CHR ''/'' # n) = n" by (simp add: filenameOf_def)
  have "takeWhile (\<lambda>c. c \<noteq> CHR ''/'') (rev n) = rev n" using stop [of "[]"] by (simp only: append_Nil2 takeWhile.simps(1))
  then show "filenameOf n = n" by (simp only: filenameOf_def rev_rev_ident)
qed

lemma joinSlash_snoc: "joinSlash (ms @ [n]) = (if ms = [] then n else joinSlash ms @ CHR ''/'' # n)"
  by (induction ms rule: joinSlash.induct) auto

lemma replaceExtension_roundtrip:
  assumes "\<forall>n \<in> set (ns @ [n]). plainName n" and "CHR ''.'' \<notin> set n"
  shows "replaceExtension (replaceExtension (joinSlash (ns @ [n])) ''.ens'') [] = joinSlash (ns @ [n])"
proof -
  let ?p = "joinSlash (ns @ [n])"
  have n: "n \<noteq> []" "CHR ''/'' \<notin> set n" using assms(1) by (simp_all add: plainName_def)
  have "filenameOf ?p = n" using n(2) by (simp add: joinSlash_snoc filenameOf_slash)
  then have one: "replaceExtension ?p ''.ens'' = ?p @ ''.ens''" using assms(2) by (simp add: replaceExtension_def extensionLength_def)
  have "filenameOf (?p @ ''.ens'') = n @ ''.ens''"
    using filenameOf_slash [of "n @ ''.ens''"] n(2) by (simp add: joinSlash_snoc)
  moreover have "extensionLength (n @ ''.ens'') = 4" using n(1) by (cases n) (auto simp: extensionLength_def)
  ultimately show ?thesis by (simp add: one) (simp add: replaceExtension_def)
qed

text \<open>C36: the relative file of a module path is read back as the module path, so different module paths never share a
  file.\<close>

theorem module_path_roundtrip:
  assumes "segs \<noteq> []" and "\<forall>s \<in> set segs. plainSegment s"
  shows "modulePathOfRelative (relativeFromModulePath (joinSegments segs)) = joinSegments segs"
proof -
  let ?ns = "map moduleAscii segs"
  let ?p = "joinSlash ?ns"
  have plain: "\<forall>n \<in> set ?ns. plainName n" using assms(2) by (simp add: plainSegment_ascii)
  have loop: "relativeLoop (joinSegments segs) [] [] = ?p" using relativeLoop_segments [OF assms(2), of "[]"] by simp
  note ends = joinSlash_ends [of ?ns, OF _ plain]
  obtain ms s where segs: "segs = ms @ [s]" using assms(1) by (cases segs rule: rev_cases) auto
  have "replaceExtension (replaceExtension ?p ''.ens'') [] = ?p"
    using replaceExtension_roundtrip [of "map moduleAscii ms" "moduleAscii s"] plain assms(2) by (simp add: segs plainSegment_ascii)
  moreover have "relativeFromModulePath (joinSegments segs) = replaceExtension ?p ''.ens''"
    using ends(1) assms(1) by (simp add: relativeFromModulePath_def loop)
  ultimately have "modulePathOfRelative (relativeFromModulePath (joinSegments segs)) =
      joinSegments (map toU16 (filter (\<lambda>s. s \<noteq> [] \<and> s \<noteq> ''.'') (pathParts ?p)))" by (simp add: modulePathOfRelative_def)
  also have "pathParts ?p = ?ns"
    using ends assms(1) pathNames_joinSlash [OF plain] by (simp add: pathParts_def isAbsolute_def)
  also have "filter (\<lambda>s. s \<noteq> [] \<and> s \<noteq> ''.'') ?ns = ?ns"
    using assms(2) by (auto simp: filter_id_conv plainName_def dest!: bspec dest: plainSegment_ascii(2,3))
  also have "map toU16 ?ns = segs" using assms(2) by (simp add: plainSegment_ascii map_idI)
  finally show ?thesis .
qed

theorem module_path_roundtrip_witness:
  "modulePathOfRelative (relativeFromModulePath (u16 ''net.http'')) = u16 ''net.http''"
proof -
  have segs: "joinSegments [u16 ''net'', u16 ''http''] = u16 ''net.http''" by (simp add: u16_def)
  have plain: "\<forall>s \<in> set [u16 ''net'', u16 ''http'']. plainSegment s" by (simp add: plainSegment_def u16_def)
  show ?thesis using module_path_roundtrip [OF _ plain] segs by simp
qed

end
