(* ===== verification/AnalysisResults.thy ===== *)
theory AnalysisResults
  imports AstDeclarations Types
begin

text \<open>
  What analysis records about a tree: \<open>semantic/AnalysisResult.h\<close>. The tables are keyed by the address of a green
  element. A tree has one object per place, so an address is the place, which the node itself is: it holds its
  parents and its index in them.
\<close>

record ResolutionInfo =
  resolvedType :: "tid option"
  resolvedSymbol :: "symid option"
  resolvedMethodSymbol :: "symid option"

record AnalysisResult =
  ar_info :: "SyntaxNode \<rightharpoonup> ResolutionInfo"
  ar_methodReceivers :: "SyntaxNode \<rightharpoonup> tid option"
  ar_thisSymbols :: "SyntaxNode \<rightharpoonup> symid option"
  ar_enumConstants :: "SyntaxNode \<rightharpoonup> 64 word"
  ar_callTypeArgs :: "SyntaxNode \<rightharpoonup> tid option list"
  ar_callArgOrder :: "SyntaxNode \<rightharpoonup> int list"

definition noInfo :: ResolutionInfo where
  "noInfo = \<lparr>resolvedType = None, resolvedSymbol = None, resolvedMethodSymbol = None\<rparr>"

definition emptyAnalysis :: AnalysisResult where
  "emptyAnalysis = \<lparr>ar_info = Map.empty, ar_methodReceivers = Map.empty, ar_thisSymbols = Map.empty,
     ar_enumConstants = Map.empty, ar_callTypeArgs = Map.empty, ar_callArgOrder = Map.empty\<rparr>"

definition ar_find :: "AnalysisResult \<Rightarrow> SyntaxNode \<Rightarrow> ResolutionInfo option" where
  "ar_find a g = ar_info a g"

text \<open>\<open>info[g]\<close> creates an entry; an assignment through the reference is an update of it.\<close>

definition ar_slot :: "SyntaxNode \<Rightarrow> (ResolutionInfo \<Rightarrow> ResolutionInfo) \<Rightarrow> AnalysisResult \<Rightarrow> AnalysisResult" where
  "ar_slot g f a = a\<lparr>ar_info := (ar_info a)(g \<mapsto> f (case ar_info a g of None \<Rightarrow> noInfo | Some i \<Rightarrow> i))\<rparr>"

definition ar_typeOf :: "AnalysisResult \<Rightarrow> SyntaxNode \<Rightarrow> tid option" where
  "ar_typeOf a g = (case ar_info a g of None \<Rightarrow> None | Some i \<Rightarrow> resolvedType i)"

definition ar_setType :: "SyntaxNode \<Rightarrow> tid option \<Rightarrow> AnalysisResult \<Rightarrow> AnalysisResult" where
  "ar_setType g t = ar_slot g (\<lambda>i. i\<lparr>resolvedType := t\<rparr>)"

definition ar_setSymbol :: "SyntaxNode \<Rightarrow> symid option \<Rightarrow> AnalysisResult \<Rightarrow> AnalysisResult" where
  "ar_setSymbol g y = ar_slot g (\<lambda>i. i\<lparr>resolvedSymbol := y\<rparr>)"

definition ar_setMethodSymbol :: "SyntaxNode \<Rightarrow> symid option \<Rightarrow> AnalysisResult \<Rightarrow> AnalysisResult" where
  "ar_setMethodSymbol g y = ar_slot g (\<lambda>i. i\<lparr>resolvedMethodSymbol := y\<rparr>)"

definition ar_receiverOf :: "AnalysisResult \<Rightarrow> SyntaxNode \<Rightarrow> tid option" where
  "ar_receiverOf a g = (case ar_methodReceivers a g of None \<Rightarrow> None | Some t \<Rightarrow> t)"

definition ar_setReceiver :: "SyntaxNode \<Rightarrow> tid option \<Rightarrow> AnalysisResult \<Rightarrow> AnalysisResult" where
  "ar_setReceiver g t a = a\<lparr>ar_methodReceivers := (ar_methodReceivers a)(g \<mapsto> t)\<rparr>"

definition ar_thisSymbolOf :: "AnalysisResult \<Rightarrow> SyntaxNode \<Rightarrow> symid option" where
  "ar_thisSymbolOf a g = (case ar_thisSymbols a g of None \<Rightarrow> None | Some y \<Rightarrow> y)"

definition ar_setThisSymbol :: "SyntaxNode \<Rightarrow> symid option \<Rightarrow> AnalysisResult \<Rightarrow> AnalysisResult" where
  "ar_setThisSymbol g y a = a\<lparr>ar_thisSymbols := (ar_thisSymbols a)(g \<mapsto> y)\<rparr>"

definition ar_enumConstantOf :: "AnalysisResult \<Rightarrow> SyntaxNode \<Rightarrow> 64 word option" where
  "ar_enumConstantOf a g = ar_enumConstants a g"

definition ar_setEnumConstant :: "SyntaxNode \<Rightarrow> 64 word \<Rightarrow> AnalysisResult \<Rightarrow> AnalysisResult" where
  "ar_setEnumConstant g v a = a\<lparr>ar_enumConstants := (ar_enumConstants a)(g \<mapsto> v)\<rparr>"

definition ar_callTypeArgsOf :: "AnalysisResult \<Rightarrow> SyntaxNode \<Rightarrow> tid option list option" where
  "ar_callTypeArgsOf a g = ar_callTypeArgs a g"

definition ar_setCallTypeArgs :: "SyntaxNode \<Rightarrow> tid option list \<Rightarrow> AnalysisResult \<Rightarrow> AnalysisResult" where
  "ar_setCallTypeArgs g args a = a\<lparr>ar_callTypeArgs := (ar_callTypeArgs a)(g \<mapsto> args)\<rparr>"

definition ar_callArgOrderOf :: "AnalysisResult \<Rightarrow> SyntaxNode \<Rightarrow> int list option" where
  "ar_callArgOrderOf a g = ar_callArgOrder a g"

definition ar_setCallArgOrder :: "SyntaxNode \<Rightarrow> int list \<Rightarrow> AnalysisResult \<Rightarrow> AnalysisResult" where
  "ar_setCallArgOrder g order a = a\<lparr>ar_callArgOrder := (ar_callArgOrder a)(g \<mapsto> order)\<rparr>"

text \<open>The symbol a node resolves to: \<open>info ? info->resolvedSymbol : nullptr\<close>.\<close>

definition symbolAt :: "AnalysisResult \<Rightarrow> SyntaxNode \<Rightarrow> symid option" where
  "symbolAt a n = (case ar_find a n of None \<Rightarrow> None | Some info \<Rightarrow> resolvedSymbol info)"

end
