(* ===== verification/Throws.thy ===== *)
theory Throws
  imports AnalysisResults Diagnostics "HOL-Library.Sublist" "HOL-Library.List_Lexorder" "HOL-Library.Char_ord"
begin

text \<open>
  The checked-exception analysis: \<open>semantic/ThrowsAnalyzer.h\<close>, \<open>semantic/ThrowsAnalyzer.cpp\<close> and the fixpoint
  loop of \<open>module/ModuleGraph.cpp\<close> that drives it.

  The fields of \<open>Symbol\<close> the analysis reads and writes are a \<open>SymbolThrows\<close>, kept by symbol in a \<open>ThrowsState\<close>; the
  type heap does not change. A set of exception classes is a sorted vector of pointers, and pointers are ordered as
  the indices that stand for them.
\<close>

section \<open>State\<close>

record SymbolThrows =
  th_declaredThrows :: bool
  th_declaredThrowsTypes :: "sid list"
  th_throwsOpaquely :: bool
  th_throwsSet :: "sid list"
  th_isConstructor :: bool
  th_isDestructor :: bool

type_synonym ThrowsState = "symid \<Rightarrow> SymbolThrows"

record ThrowsAnalyzer =
  ta_sf :: SourceFileView
  ta_analysis :: AnalysisResult
  ta_errorClass :: "sid option"

type_synonym TypeSet = "sid list"

definition noThrows :: SymbolThrows where
  "noThrows = \<lparr>th_declaredThrows = False, th_declaredThrowsTypes = [], th_throwsOpaquely = False, th_throwsSet = [],
     th_isConstructor = False, th_isDestructor = False\<rparr>"

section \<open>Helpers\<close>

definition asAscii :: "u16string \<Rightarrow> string" where
  "asAscii s = map (\<lambda>c. if c < 128 then char_of (unat c) else CHR ''?'') s"

definition structOfType :: "('x) Heap_scheme \<Rightarrow> tid option \<Rightarrow> sid option" where
  "structOfType h t = (case t of None \<Rightarrow> None | Some t \<Rightarrow> if kind h t = TyClass then t_structInfo (ty h t) else None)"

definition orEmpty :: "u16string option \<Rightarrow> string" where
  "orEmpty s = asAscii (case s of None \<Rightarrow> [] | Some x \<Rightarrow> x)"

definition callDisplayName :: "CallExpression \<Rightarrow> string" where
  "callDisplayName call =
     (case CallExpression_callee call of None \<Rightarrow> ''<call>''
      | Some callee \<Rightarrow>
          (case Expression_asIdent callee of Some i \<Rightarrow> orEmpty (IdentExpression_nameText i) | None \<Rightarrow>
          (case Expression_asMember callee of Some m \<Rightarrow> orEmpty (MemberExpression_memberText m) | None \<Rightarrow>
          (case Expression_asSafeMember callee of Some s \<Rightarrow> orEmpty (SafeMemberExpression_memberText s) | None \<Rightarrow>
          if Expression_asSuper callee \<noteq> None then ''super'' else ''<call>''))))"

function subtreeHasRethrow :: "SyntaxNode \<Rightarrow> bool" where
  "subtreeHasRethrow n = (node_kind n = RethrowStmt \<or> list_ex subtreeHasRethrow (children n))"
  by pat_completeness auto
termination
  by (relation "measure (\<lambda>n. size (green n))") (auto dest: children_smaller)

declare subtreeHasRethrow.simps [simp del]

section \<open>Sorted sets\<close>

text \<open>\<open>lower_bound\<close> finds the first element that is not smaller.\<close>

definition addType :: "TypeSet \<Rightarrow> sid option \<Rightarrow> TypeSet \<times> bool" where
  "addType xs t =
     (case t of None \<Rightarrow> (xs, False)
      | Some t \<Rightarrow>
          let before = takeWhile (\<lambda>x. x < t) xs; rest = dropWhile (\<lambda>x. x < t) xs in
          if rest \<noteq> [] \<and> hd rest = t then (xs, False) else (before @ t # rest, True))"

definition contains :: "TypeSet \<Rightarrow> sid \<Rightarrow> bool" where
  "contains xs t = (let rest = dropWhile (\<lambda>x. x < t) xs in rest \<noteq> [] \<and> hd rest = t)"

definition covers :: "('x) Heap_scheme \<Rightarrow> TypeSet \<Rightarrow> sid option \<Rightarrow> bool" where
  "covers h xs m = (case m of None \<Rightarrow> True | Some m \<Rightarrow> list_ex (\<lambda>d. isSubclassOf h m (Some d)) xs)"

section \<open>Calls\<close>

text \<open>\<open>info->resolvedMethodSymbol ? info->resolvedMethodSymbol : info->resolvedSymbol\<close>\<close>

definition methodOrSymbol :: "AnalysisResult \<Rightarrow> SyntaxNode \<Rightarrow> symid option" where
  "methodOrSymbol a n = (case ar_find a n of None \<Rightarrow> None
     | Some info \<Rightarrow> (case resolvedMethodSymbol info of Some y \<Rightarrow> Some y | None \<Rightarrow> resolvedSymbol info))"

definition calleeSymbolOf :: "AnalysisResult \<Rightarrow> CallExpression \<Rightarrow> symid option" where
  "calleeSymbolOf a call =
     (case CallExpression_callee call of None \<Rightarrow> None
      | Some callee \<Rightarrow>
          (case Expression_asIdent callee of Some i \<Rightarrow> symbolAt a i | None \<Rightarrow>
          (case Expression_asMember callee of Some m \<Rightarrow> methodOrSymbol a m | None \<Rightarrow>
          (case Expression_asSafeMember callee of Some s \<Rightarrow> methodOrSymbol a s | None \<Rightarrow> None))))"

text \<open>\<open>while (t && t->isOptional()) t = t->inner\<close>: an optional type points to a type allocated before it.\<close>

primrec stripOptionalF :: "nat \<Rightarrow> ('x) Heap_scheme \<Rightarrow> tid option \<Rightarrow> tid option" where
  "stripOptionalF 0 h t = t"
| "stripOptionalF (Suc n) h t = (case t of None \<Rightarrow> None
     | Some x \<Rightarrow> if kind h x = TyOptional then stripOptionalF n h (t_inner (ty h x)) else t)"

definition isOpaqueCall :: "('x) Heap_scheme \<Rightarrow> AnalysisResult \<Rightarrow> ThrowsState \<Rightarrow> CallExpression \<Rightarrow> bool" where
  "isOpaqueCall h a st call =
     (if (case calleeSymbolOf a call of None \<Rightarrow> False | Some y \<Rightarrow> th_throwsOpaquely (st y)) then True
      else case CallExpression_callee call of None \<Rightarrow> False
        | Some callee \<Rightarrow>
            (case stripOptionalF (Suc (length (h_types h))) h (ar_typeOf a callee) of None \<Rightarrow> False
             | Some t \<Rightarrow> kind h t = TyFunction \<and> t_hasThrowsClause (ty h t)))"

function hasOpaqueTriedCall ::
    "('x) Heap_scheme \<Rightarrow> AnalysisResult \<Rightarrow> ThrowsState \<Rightarrow> SyntaxNode \<Rightarrow> bool \<Rightarrow> bool" where
  "hasOpaqueTriedCall h a st n tried =
     (let k = node_kind n in
      if k = LambdaExpr then False
      else if k = TryExpr then
        list_ex (\<lambda>c. Expression_cast c \<noteq> None \<and> hasOpaqueTriedCall h a st c True) (children n)
      else if k = CallExpr then
        (tried \<and> isOpaqueCall h a st n) \<or> list_ex (\<lambda>c. hasOpaqueTriedCall h a st c False) (children n)
      else list_ex (\<lambda>c. hasOpaqueTriedCall h a st c tried) (children n))"
  by pat_completeness auto
termination
  by (relation "measure (\<lambda>(h, a, st, n, b). size (green n))") (auto dest: children_smaller)

declare hasOpaqueTriedCall.simps [simp del]

text \<open>The method of the template that a method of an instance was cloned from, and its declared list.\<close>

definition templateMethod :: "('x) Heap_scheme \<Rightarrow> symid \<Rightarrow> symid option" where
  "templateMethod h y =
     (case sy_methodOwner (sym h y) of None \<Rightarrow> None
      | Some owner \<Rightarrow>
          (case si_templateOf (si h owner) of None \<Rightarrow> None
           | Some templ \<Rightarrow>
               (case find (\<lambda>(m, tm). mi_symbol m = Some y) (zip (si_methods (si h owner)) (si_methods (si h templ))) of
                  None \<Rightarrow> None
                | Some (m, tm) \<Rightarrow> mi_symbol tm)))"

definition templateContract :: "('x) Heap_scheme \<Rightarrow> ThrowsState \<Rightarrow> symid \<Rightarrow> TypeSet option" where
  "templateContract h st y =
     (case templateMethod h y of None \<Rightarrow> None
      | Some ts \<Rightarrow> if th_declaredThrowsTypes (st ts) \<noteq> [] then Some (th_declaredThrowsTypes (st ts)) else None)"

definition contractOf :: "('x) Heap_scheme \<Rightarrow> ThrowsState \<Rightarrow> symid option \<Rightarrow> TypeSet" where
  "contractOf h st y =
     (case y of None \<Rightarrow> []
      | Some y \<Rightarrow>
          if th_declaredThrowsTypes (st y) \<noteq> [] then th_declaredThrowsTypes (st y)
          else case (if th_declaredThrows (st y) then templateContract h st y else None) of
            Some ts \<Rightarrow> ts
          | None \<Rightarrow> th_throwsSet (st y))"

section \<open>What a body throws\<close>

definition addAll :: "TypeSet \<Rightarrow> TypeSet \<Rightarrow> TypeSet" where
  "addAll ms out = fold (\<lambda>m out. fst (addType out (Some m))) ms out"

text \<open>What the node itself adds.\<close>

definition nodeThrows :: "('x) Heap_scheme \<Rightarrow> AnalysisResult \<Rightarrow> ThrowsState \<Rightarrow> SyntaxNode \<Rightarrow> TypeSet \<Rightarrow> TypeSet" where
  "nodeThrows h a st n out =
     (if node_kind n = ThrowStmt then
        (case ThrowStatement_value n of None \<Rightarrow> out
         | Some v \<Rightarrow> fst (addType out (structOfType h (ar_typeOf a v))))
      else if node_kind n = CallExpr then addAll (contractOf h st (calleeSymbolOf a n)) out
      else out)"

function collectBlockThrows ::
    "('x) Heap_scheme \<Rightarrow> AnalysisResult \<Rightarrow> ThrowsState \<Rightarrow> SyntaxNode \<Rightarrow> TypeSet \<Rightarrow> TypeSet" where
  "collectBlockThrows h a st n out =
     (if node_kind n = LambdaExpr then out
      else fold (\<lambda>c out. collectBlockThrows h a st c out) (children n) (nodeThrows h a st n out))"
  by pat_completeness auto
termination
  by (relation "measure (\<lambda>(h, a, st, n, out). size (green n))") (auto dest: children_smaller)

declare collectBlockThrows.simps [simp del]

definition bodySetOf :: "('x) Heap_scheme \<Rightarrow> AnalysisResult \<Rightarrow> ThrowsState \<Rightarrow> FuncDecl \<Rightarrow> TypeSet" where
  "bodySetOf h a st fn = (case FuncDecl_body fn of None \<Rightarrow> [] | Some b \<Rightarrow> collectBlockThrows h a st b [])"

definition clauseTypesOf :: "('x) Heap_scheme \<Rightarrow> AnalysisResult \<Rightarrow> CatchClause list \<Rightarrow> sid option list" where
  "clauseTypesOf h a clauses = map (\<lambda>cc. case CatchClause_typeReference cc of None \<Rightarrow> None
     | Some tr \<Rightarrow> structOfType h (ar_typeOf a tr)) clauses"

text \<open>\<open>clauseTypes[j] && m->isSubclassOf(clauseTypes[j])\<close> for some \<open>j < n\<close>.\<close>

definition caughtByEarlier :: "('x) Heap_scheme \<Rightarrow> sid option list \<Rightarrow> sid \<Rightarrow> nat \<Rightarrow> bool" where
  "caughtByEarlier h clauseTypes m n = list_ex (\<lambda>c. c \<noteq> None \<and> isSubclassOf h m c) (take n clauseTypes)"

text \<open>What a clause lets out: what it rethrows, and what its own body throws.\<close>

definition clauseOutward ::
    "('x) Heap_scheme \<Rightarrow> AnalysisResult \<Rightarrow> ThrowsState \<Rightarrow> TypeSet \<Rightarrow> sid option list \<Rightarrow> nat \<Rightarrow> CatchClause \<Rightarrow> TypeSet \<Rightarrow> TypeSet" where
  "clauseOutward h a st body clauseTypes i cc outward =
     (case CatchClause_body cc of None \<Rightarrow> outward
      | Some cb \<Rightarrow>
          let rethrown =
            (case clauseTypes ! i of None \<Rightarrow> outward
             | Some c \<Rightarrow>
                 if subtreeHasRethrow cb then
                   let live = filter (\<lambda>m. \<not> caughtByEarlier h clauseTypes m i) body;
                       out1 = addAll (filter (\<lambda>m. isSubclassOf h m (Some c)) live) outward;
                       partly = list_ex (\<lambda>m. \<not> isSubclassOf h m (Some c) \<and> isSubclassOf h c (Some m)) live
                   in if partly then fst (addType out1 (Some c)) else out1
                 else outward)
          in collectBlockThrows h a st cb rethrown)"

definition computeOutward :: "('x) Heap_scheme \<Rightarrow> AnalysisResult \<Rightarrow> ThrowsState \<Rightarrow> FuncDecl \<Rightarrow> TypeSet" where
  "computeOutward h a st fn =
     (let body = bodySetOf h a st fn;
          clauses = FuncDecl_catchClauses fn;
          clauseTypes = clauseTypesOf h a clauses;
          uncaught = addAll (filter (\<lambda>m. \<not> caughtByEarlier h clauseTypes m (length clauseTypes)) body) []
      in fold (\<lambda>(i, cc). clauseOutward h a st body clauseTypes i cc) (enumerate 0 clauses) uncaught)"

section \<open>One pass\<close>

text \<open>\<open>if (addType(sym->throwsSet, m)) changed = true\<close> for every \<open>m\<close>.\<close>

definition growThrowsSet :: "symid \<Rightarrow> TypeSet \<Rightarrow> ThrowsState \<times> bool \<Rightarrow> ThrowsState \<times> bool" where
  "growThrowsSet y outward = fold (\<lambda>m (st, changed).
     case addType (th_throwsSet (st y)) (Some m) of
       (s', added) \<Rightarrow> (st(y := (st y)\<lparr>th_throwsSet := s'\<rparr>), changed \<or> added)) outward"

definition runOnceForFunction ::
    "('x) Heap_scheme \<Rightarrow> AnalysisResult \<Rightarrow> symid \<Rightarrow> FuncDecl \<Rightarrow> ThrowsState \<times> bool \<Rightarrow> ThrowsState \<times> bool" where
  "runOnceForFunction h a y fn s =
     (let (st, changed) = growThrowsSet y (computeOutward h a (fst s) fn) s in
      if \<not> th_throwsOpaquely (st y) then
        (case FuncDecl_body fn of None \<Rightarrow> (st, changed)
         | Some b \<Rightarrow>
             if hasOpaqueTriedCall h a st b False then (st(y := (st y)\<lparr>th_throwsOpaquely := True\<rparr>), True)
             else (st, changed))
      else (st, changed))"

definition runOnceForTest ::
    "('x) Heap_scheme \<Rightarrow> AnalysisResult \<Rightarrow> symid \<Rightarrow> TestDecl \<Rightarrow> ThrowsState \<times> bool \<Rightarrow> ThrowsState \<times> bool" where
  "runOnceForTest h a y td s =
     growThrowsSet y (case TestDecl_body td of None \<Rightarrow> [] | Some b \<Rightarrow> collectBlockThrows h a (fst s) b []) s"

text \<open>\<open>if (info && info->resolvedSymbol)\<close>\<close>

definition whenResolved :: "AnalysisResult \<Rightarrow> (symid \<Rightarrow> SyntaxNode \<Rightarrow> 's \<Rightarrow> 's) \<Rightarrow> SyntaxNode \<Rightarrow> 's \<Rightarrow> 's" where
  "whenResolved a f n s = (case symbolAt a n of None \<Rightarrow> s | Some y \<Rightarrow> f y n s)"

text \<open>The methods of all structs, and of all classes.\<close>

definition structMethods :: "SourceFileView \<Rightarrow> FuncDecl list" where
  "structMethods sf = concat (map StructDecl_methods (SourceFileView_structs sf))"

definition classMethods :: "SourceFileView \<Rightarrow> FuncDecl list" where
  "classMethods sf = concat (map ClassDecl_methods (SourceFileView_classes sf))"

definition functionsOf :: "SourceFileView \<Rightarrow> FuncDecl list" where
  "functionsOf sf = SourceFileView_functions sf @ structMethods sf @ classMethods sf"

definition runOnce :: "('x) Heap_scheme \<Rightarrow> ThrowsAnalyzer \<Rightarrow> ThrowsState \<Rightarrow> ThrowsState \<times> bool" where
  "runOnce h ta st0 =
     (let a = ta_analysis ta; sf = ta_sf ta;
          s1 = fold (whenResolved a (runOnceForFunction h a)) (SourceFileView_functions sf) (st0, False);
          s2 = fold (whenResolved a (runOnceForTest h a)) (SourceFileView_tests sf) s1;
          s3 = fold (whenResolved a (runOnceForFunction h a)) (structMethods sf) s2
      in fold (whenResolved a (runOnceForFunction h a)) (classMethods sf) s3)"

text \<open>The driver in \<open>analyzeModuleGraph\<close>: passes over all modules until nothing changes.\<close>

definition runAll :: "('x) Heap_scheme \<Rightarrow> ThrowsAnalyzer list \<Rightarrow> ThrowsState \<Rightarrow> ThrowsState \<times> bool" where
  "runAll h tas st =
     fold (\<lambda>ta (st, changed). case runOnce h ta st of (st', c) \<Rightarrow> (st', changed \<or> c)) tas (st, False)"

partial_function (option) throwsLoop :: "('x) Heap_scheme \<Rightarrow> ThrowsAnalyzer list \<Rightarrow> ThrowsState \<Rightarrow> ThrowsState option" where
  [code]: "throwsLoop h tas st =
     (case runAll h tas st of (st', changed) \<Rightarrow> if changed then throwsLoop h tas st' else Some st')"

section \<open>Validation\<close>

definition errorAt :: "SourceFile \<Rightarrow> SyntaxNode \<Rightarrow> string \<Rightarrow> DiagnosticSink \<Rightarrow> DiagnosticSink" where
  "errorAt source n msg sink =
     (case contentRange n of (off, len) \<Rightarrow>
        case offsetToPosition source off of (ln, col) \<Rightarrow>
          sinkError sink (mkSpan ln col (if len > 0 then sint len else 1)) msg)"

named_theorems report_intros \<open>functions that only append to the sink\<close>

lemma errorAt_report [report_intros]: "prefix sink (errorAt source n msg sink)"
  by (simp add: errorAt_def sinkError_def report_def split: prod.split)

lemma errorAt_reports [simp]: "errorAt source n msg sink \<noteq> sink"
  by (simp add: errorAt_def sinkError_def report_def split: prod.split)

lemma fold_report [report_intros]: "(\<And>x s. x \<in> set xs \<Longrightarrow> prefix s (f x s)) \<Longrightarrow> prefix (s :: DiagnosticSink) (fold f xs s)"
proof (induction xs arbitrary: s)
  case (Cons x xs)
  have "prefix s (f x s)" "prefix (f x s) (fold f xs (f x s))" using Cons by simp_all
  then show ?case by (auto intro: prefix_order.order_trans)
qed simp

definition apos :: "string \<Rightarrow> string" where
  "apos s = CHR 0x27 # s @ [CHR 0x27]"

fun joinNames :: "string list \<Rightarrow> string" where
  "joinNames [] = []"
| "joinNames [n] = apos n"
| "joinNames (n # ns) = apos n @ '', '' @ joinNames ns"

definition nameList :: "('x) Heap_scheme \<Rightarrow> TypeSet \<Rightarrow> string" where
  "nameList h ts = joinNames (sort (map (\<lambda>s. asAscii (si_name (si h s))) ts))"

text \<open>The report about one call, given whether it is the operand of a \<open>try\<close>.\<close>

definition callReport ::
    "('x) Heap_scheme \<Rightarrow> AnalysisResult \<Rightarrow> ThrowsState \<Rightarrow> SourceFile \<Rightarrow> bool \<Rightarrow> CallExpression \<Rightarrow> DiagnosticSink \<Rightarrow> DiagnosticSink" where
  "callReport h a st source tried call sink =
     (let contract = contractOf h st (calleeSymbolOf a call); name = callDisplayName call in
      if contract \<noteq> [] \<and> \<not> tried then
        errorAt source call (''Call to '' @ apos name @ '' can throw '' @ nameList h contract @
          ''; prefix it with 'try' (and handle it with a 'catch' clause or mark the function 'throws').'') sink
      else if contract = [] \<and> tried \<and> \<not> isOpaqueCall h a st call then
        errorAt source call ('''try' is not needed here: '' @ apos name @ '' cannot throw. Remove 'try'.'') sink
      else sink)"

function validateTryUsage ::
    "('x) Heap_scheme \<Rightarrow> AnalysisResult \<Rightarrow> ThrowsState \<Rightarrow> SourceFile \<Rightarrow> SyntaxNode \<Rightarrow> bool \<Rightarrow> DiagnosticSink \<Rightarrow> DiagnosticSink" where
  "validateTryUsage h a st source n tried sink =
     (if node_kind n = TryExpr then
        fold (\<lambda>c sink. if Expression_cast c \<noteq> None then validateTryUsage h a st source c True sink else sink) (children n) sink
      else
        fold (\<lambda>c sink. validateTryUsage h a st source c False sink) (children n)
          (if node_kind n = CallExpr then callReport h a st source tried n sink else sink))"
  by pat_completeness auto
termination
  by (relation "measure (\<lambda>(h, a, st, src, n, b, sink). size (green n))") (auto dest: children_smaller)

function validateNoThrowingCalls ::
    "('x) Heap_scheme \<Rightarrow> AnalysisResult \<Rightarrow> ThrowsState \<Rightarrow> SourceFile \<Rightarrow> string \<Rightarrow> SyntaxNode \<Rightarrow> DiagnosticSink \<Rightarrow> DiagnosticSink" where
  "validateNoThrowingCalls h a st source ctxt n sink =
     (let contract = contractOf h st (calleeSymbolOf a n) in
      fold (\<lambda>c sink. validateNoThrowingCalls h a st source ctxt c sink) (children n)
        (if node_kind n = CallExpr \<and> contract \<noteq> [] then
           errorAt source n (ctxt @ '' cannot call '' @ apos (callDisplayName n) @ '' because it can throw '' @
             nameList h contract @ ''; it must not throw.'') sink
         else sink))"
  by pat_completeness auto
termination
  by (relation "measure (\<lambda>(h, a, st, src, d, n, sink). size (green n))") (auto dest: children_smaller)

declare validateTryUsage.simps [simp del] validateNoThrowingCalls.simps [simp del]

text \<open>\<open>fn.nameToken().value_or(fn.node)\<close>\<close>

definition nameOrNode :: "FuncDecl \<Rightarrow> SyntaxNode" where
  "nameOrNode fn = (case FuncDecl_nameToken fn of Some t \<Rightarrow> t | None \<Rightarrow> fn)"

definition symName :: "('x) Heap_scheme \<Rightarrow> symid \<Rightarrow> string" where
  "symName h y = asAscii (sy_name (sym h y))"

text \<open>The members of \<open>mine\<close> that no member of \<open>allowed\<close> covers.\<close>

definition strayOf :: "('x) Heap_scheme \<Rightarrow> TypeSet \<Rightarrow> TypeSet \<Rightarrow> TypeSet" where
  "strayOf h mine allowed = addAll (filter (\<lambda>m. \<not> covers h allowed (Some m)) mine) []"

text \<open>The computed set against the declaration.\<close>

definition validateOutward ::
    "('x) Heap_scheme \<Rightarrow> ThrowsState \<Rightarrow> SourceFile \<Rightarrow> symid \<Rightarrow> FuncDecl \<Rightarrow> bool \<Rightarrow> sid option \<Rightarrow> DiagnosticSink \<Rightarrow> DiagnosticSink" where
  "validateOutward h st source y fn isConstructor receiver sink =
     (let outward = th_throwsSet (st y); declared = th_declaredThrowsTypes (st y) in
      if isConstructor then
        (if outward \<noteq> [] then errorAt source (nameOrNode fn) (''Constructor '' @ apos (symName h y) @
           '' cannot let exceptions escape, but it can throw '' @ nameList h outward @
           ''. Catch it with a 'catch' clause after the constructor body.'') sink else sink)
      else if th_isDestructor (st y) then
        (if outward \<noteq> [] then errorAt source (nameOrNode fn) (''Destructor'' @
           (case receiver of None \<Rightarrow> [] | Some r \<Rightarrow> '' of '' @ apos (asAscii (si_name (si h r)))) @
           '' cannot let exceptions escape, but it can throw '' @ nameList h outward @
           ''. Catch the exceptions with 'catch' clauses after the destructor body.'') sink else sink)
      else if th_declaredThrows (st y) then
        (if declared \<noteq> [] then
           let stray = strayOf h outward declared in
           if stray \<noteq> [] then errorAt source (nameOrNode fn) (apos (symName h y) @ '' can throw '' @ nameList h stray @
             '', which is not in its declared throws list. Add it to the list, or handle it with 'catch' clauses.'') sink
           else sink
         else if outward = [] \<and> \<not> FuncDecl_isAbstract fn \<and> \<not> th_throwsOpaquely (st y) then
           errorAt source (case FuncDecl_throwsToken fn of Some t \<Rightarrow> t | None \<Rightarrow> fn)
             (apos (symName h y) @ '' is marked 'throws' but cannot throw; remove 'throws'.'') sink
         else sink)
      else if outward \<noteq> [] then
        errorAt source (nameOrNode fn) (apos (symName h y) @ '' can throw '' @ nameList h outward @
          '' but is not marked 'throws'. Add 'throws' after the signature, or handle the exceptions with 'catch' clauses after the body.'') sink
      else sink)"

text \<open>\<open>decl->methods[idx].symbol\<close> of the nearest class, from \<open>start\<close> upwards, that declares the method.\<close>

definition declaredMethod :: "('x) Heap_scheme \<Rightarrow> sid \<Rightarrow> u16string \<Rightarrow> symid option \<Rightarrow> (sid \<times> symid option) option" where
  "declaredMethod h start name like =
     (case classDeclaringMethodBySignature h start name like of None \<Rightarrow> None
      | Some decl \<Rightarrow>
          let i = findMethodIndexBySignature h decl name like in
          Some (decl, if i \<ge> 0 then mi_symbol (si_methods (si h decl) ! nat i) else None))"

text \<open>The method a method of \<open>receiver\<close> overrides.\<close>

definition overridden :: "('x) Heap_scheme \<Rightarrow> symid \<Rightarrow> bool \<Rightarrow> sid option \<Rightarrow> (sid \<times> symid) option" where
  "overridden h y isConstructor receiver =
     (case receiver of None \<Rightarrow> None
      | Some r \<Rightarrow>
          (case si_baseInfo (si h r) of None \<Rightarrow> None
           | Some b \<Rightarrow>
               if isConstructor then None
               else (case declaredMethod h b (sy_name (sym h y)) (Some y) of
                   Some (decl, Some baseSym) \<Rightarrow> Some (decl, baseSym)
                 | _ \<Rightarrow> None)))"

definition validateOverride ::
    "('x) Heap_scheme \<Rightarrow> ThrowsState \<Rightarrow> SourceFile \<Rightarrow> symid \<Rightarrow> FuncDecl \<Rightarrow> bool \<Rightarrow> sid option \<Rightarrow> DiagnosticSink \<Rightarrow> DiagnosticSink" where
  "validateOverride h st source y fn isConstructor receiver sink =
     (case overridden h y isConstructor receiver of None \<Rightarrow> sink
      | Some (baseDecl, baseSym) \<Rightarrow>
          let stray = strayOf h (contractOf h st (Some y)) (contractOf h st (Some baseSym)) in
          if stray \<noteq> [] then errorAt source (nameOrNode fn) (''Override '' @ apos (symName h y) @ '' can throw '' @
            nameList h stray @ '', which '' @ apos (asAscii (si_name (si h baseDecl))) @
            '' does not allow. An override may only throw types already allowed by the method it overrides.'') sink
          else sink)"

text \<open>The reachability of each catch clause.\<close>

definition validateClause ::
    "('x) Heap_scheme \<Rightarrow> ThrowsState \<Rightarrow> SourceFile \<Rightarrow> symid \<Rightarrow> TypeSet \<Rightarrow> sid option list \<Rightarrow> nat \<Rightarrow> CatchClause \<Rightarrow> DiagnosticSink \<Rightarrow> DiagnosticSink" where
  "validateClause h st source y body clauseTypes i cc sink =
     (case clauseTypes ! i of None \<Rightarrow> sink
      | Some ci \<Rightarrow>
          if caughtByEarlier h clauseTypes ci i then
            errorAt source cc (''This 'catch ('' @ asAscii (si_name (si h ci)) @
              '' ...)' is unreachable: an earlier clause already handles it. Move it before the broader clause, or remove it.'') sink
          else if body = [] \<or> th_throwsOpaquely (st y) then sink
          else if \<not> list_ex (\<lambda>m. isSubclassOf h m (Some ci) \<or> isSubclassOf h ci (Some m)) body then
            errorAt source cc (''This 'catch ('' @ asAscii (si_name (si h ci)) @ '' ...)' is dead: the body of '' @
              apos (symName h y) @ '' cannot throw '' @ asAscii (si_name (si h ci)) @
              '' or a subclass. Remove the clause.'') sink
          else sink)"

definition validateClauses ::
    "('x) Heap_scheme \<Rightarrow> AnalysisResult \<Rightarrow> ThrowsState \<Rightarrow> SourceFile \<Rightarrow> symid \<Rightarrow> TypeSet \<Rightarrow> CatchClause list \<Rightarrow> DiagnosticSink \<Rightarrow> DiagnosticSink" where
  "validateClauses h a st source y body clauses sink =
     (if clauses = [] then sink
      else let clauseTypes = clauseTypesOf h a clauses;
               sink1 = (if body = [] \<and> \<not> th_throwsOpaquely (st y)
                 then errorAt source (hd clauses) (apos (symName h y) @
                   '' has 'catch' clauses but its body cannot throw; remove them.'') sink else sink)
           in fold (\<lambda>(i, cc). validateClause h st source y body clauseTypes i cc) (enumerate 0 clauses) sink1)"

definition whenSome :: "('v \<Rightarrow> 's \<Rightarrow> 's) \<Rightarrow> 'v option \<Rightarrow> 's \<Rightarrow> 's" where
  "whenSome f v s = (case v of None \<Rightarrow> s | Some x \<Rightarrow> f x s)"

definition validateDefault ::
    "('x) Heap_scheme \<Rightarrow> AnalysisResult \<Rightarrow> ThrowsState \<Rightarrow> SourceFile \<Rightarrow> string \<Rightarrow> DefaultValue option \<Rightarrow> DiagnosticSink \<Rightarrow> DiagnosticSink" where
  "validateDefault h a st source ctxt = whenSome (\<lambda>dv. whenSome (validateNoThrowingCalls h a st source ctxt) (DefaultValue_expression dv))"

definition validateFunction ::
    "('x) Heap_scheme \<Rightarrow> AnalysisResult \<Rightarrow> ThrowsState \<Rightarrow> SourceFile \<Rightarrow> symid \<Rightarrow> FuncDecl \<Rightarrow> bool \<Rightarrow> sid option \<Rightarrow> DiagnosticSink \<Rightarrow> DiagnosticSink" where
  "validateFunction h a st source y fn isConstructor receiver sink =
     (let body = bodySetOf h a st fn; clauses = FuncDecl_catchClauses fn;
          tryUsage = (\<lambda>b. validateTryUsage h a st source b False);
          s1 = whenSome tryUsage (FuncDecl_body fn) sink;
          s2 = fold (\<lambda>cc. whenSome tryUsage (CatchClause_body cc)) clauses s1;
          s3 = fold (\<lambda>p. validateDefault h a st source ''A default value'' (Parameter_defaultValue p)) (FuncDecl_parameters fn) s2;
          s4 = validateOutward h st source y fn isConstructor receiver s3;
          s5 = validateOverride h st source y fn isConstructor receiver s4
      in validateClauses h a st source y body clauses s5)"

text \<open>\<open>eachMethod\<close>: the receiver is the struct of the receiver type.\<close>

definition receiverStruct :: "('x) Heap_scheme \<Rightarrow> AnalysisResult \<Rightarrow> FuncDecl \<Rightarrow> sid option" where
  "receiverStruct h a m = (case ar_receiverOf a m of None \<Rightarrow> None | Some t \<Rightarrow> t_structInfo (ty h t))"

definition validateMethod ::
    "('x) Heap_scheme \<Rightarrow> AnalysisResult \<Rightarrow> ThrowsState \<Rightarrow> SourceFile \<Rightarrow> symid \<Rightarrow> FuncDecl \<Rightarrow> DiagnosticSink \<Rightarrow> DiagnosticSink" where
  "validateMethod h a st source y m = validateFunction h a st source y m (th_isConstructor (st y)) (receiverStruct h a m)"

text \<open>The method of an interface and the method of the class that implements it, when both are there.\<close>

definition implementation :: "('x) Heap_scheme \<Rightarrow> sid \<Rightarrow> MethodInfo \<Rightarrow> (symid \<times> symid) option" where
  "implementation h s im =
     (case mi_symbol im of None \<Rightarrow> None
      | Some isym \<Rightarrow>
          (case declaredMethod h s (mi_name im) (Some isym) of
             Some (decl, Some impl) \<Rightarrow> if impl = isym then None else Some (isym, impl)
           | _ \<Rightarrow> None))"

definition validateInterfaceMethod ::
    "('x) Heap_scheme \<Rightarrow> ThrowsState \<Rightarrow> SourceFile \<Rightarrow> ClassDecl \<Rightarrow> sid \<Rightarrow> tid \<Rightarrow> MethodInfo \<Rightarrow> DiagnosticSink \<Rightarrow> DiagnosticSink" where
  "validateInterfaceMethod h st source cd s ifaceT im sink =
     (case implementation h s im of None \<Rightarrow> sink
      | Some (isym, impl) \<Rightarrow>
          let stray = strayOf h (contractOf h st (Some impl)) (contractOf h st (Some isym)) in
          if stray \<noteq> [] then errorAt source cd (''Method '' @ apos (asAscii (mi_name im)) @ '' of '' @
            apos (asAscii (si_name (si h s))) @ '' can throw '' @ nameList h stray @ '', which interface '' @
            apos (typeToString h ifaceT) @ '' does not allow. An implementing method may only throw types the interface method declares.'') sink
          else sink)"

definition validateInterfaces ::
    "('x) Heap_scheme \<Rightarrow> AnalysisResult \<Rightarrow> ThrowsState \<Rightarrow> SourceFile \<Rightarrow> ClassDecl \<Rightarrow> DiagnosticSink \<Rightarrow> DiagnosticSink" where
  "validateInterfaces h a st source cd =
     whenSome (\<lambda>s sink. fold (\<lambda>ifaceT sink.
         whenSome (\<lambda>iface. fold (validateInterfaceMethod h st source cd s (the ifaceT)) (si_methods (si h iface)))
           (structOfType h ifaceT) sink) (si_implementedInterfaces (si h s)) sink)
       (structOfType h (ar_typeOf a cd))"

definition validate :: "('x) Heap_scheme \<Rightarrow> ThrowsAnalyzer \<Rightarrow> ThrowsState \<Rightarrow> SourceFile \<Rightarrow> DiagnosticSink \<Rightarrow> DiagnosticSink" where
  "validate h ta st source sink =
     (let a = ta_analysis ta; sf = ta_sf ta;
          s1 = fold (whenResolved a (\<lambda>y fn. validateFunction h a st source y fn False None)) (SourceFileView_functions sf) sink;
          s2 = fold (whenResolved a (\<lambda>y td. whenSome (\<lambda>b. validateTryUsage h a st source b False) (TestDecl_body td)))
                 (SourceFileView_tests sf) s1;
          s3 = fold (whenResolved a (validateMethod h a st source)) (structMethods sf) s2;
          s4 = fold (whenResolved a (validateMethod h a st source)) (classMethods sf) s3;
          s5 = fold (validateInterfaces h a st source) (SourceFileView_classes sf) s4;
          fieldDefault = (\<lambda>f. validateDefault h a st source ''A field default'' (FieldDecl_defaultValue f));
          s6 = fold fieldDefault (concat (map StructDecl_fields (SourceFileView_structs sf))) s5
      in fold fieldDefault (concat (map ClassDecl_fields (SourceFileView_classes sf))) s6)"

end
