(* ===== verification/ThrowsFixpoint.thy ===== *)
theory ThrowsFixpoint
  imports Throws
begin

text \<open>
  The fixpoint loop of the checked-exception analysis. A pass only adds to the sets of symbols, the flag it returns
  is down exactly when it changed nothing, and the loop ends in the least state that is closed under what the functions
  let out, whatever the order of the modules.
\<close>

section \<open>Sets\<close>

lemma addType_simps [simp]:
  "addType xs None = (xs, False)"
  by (simp add: addType_def)

lemma set_addType [simp]: "set (fst (addType xs (Some t))) = insert t (set xs)"
proof -
  have s: "set (takeWhile (\<lambda>x. x < t) xs) \<union> set (dropWhile (\<lambda>x. x < t) xs) = set xs"
    by (metis set_append takeWhile_dropWhile_id)
  show ?thesis
  proof (cases "dropWhile (\<lambda>x. x < t) xs \<noteq> [] \<and> hd (dropWhile (\<lambda>x. x < t) xs) = t")
    case True
    then have "t \<in> set (dropWhile (\<lambda>x. x < t) xs)" by (metis hd_in_set)
    with s have "t \<in> set xs" by blast
    with True show ?thesis by (auto simp: addType_def Let_def)
  next
    case False
    with s show ?thesis by (auto simp: addType_def Let_def)
  qed
qed

lemma addType_subseq: "subseq xs (fst (addType xs t))"
proof (cases t)
  case (Some t)
  let ?b = "takeWhile (\<lambda>x. x < t) xs" and ?r = "dropWhile (\<lambda>x. x < t) xs"
  have "subseq (?b @ ?r) (?b @ t # ?r)" by (intro list_emb_append_mono list_emb_Cons) simp_all
  then have "subseq xs (?b @ t # ?r)" by simp
  with Some show ?thesis by (simp add: addType_def Let_def)
qed simp

lemma addType_same: "\<not> snd (addType xs t) \<Longrightarrow> fst (addType xs t) = xs"
  by (auto simp: addType_def Let_def split: option.splits)

lemma addType_contains:
  "snd (addType xs (Some t)) \<longleftrightarrow> \<not> contains xs t"
  by (auto simp: addType_def contains_def Let_def)

lemma contains_after:
  assumes "contains xs u"
  shows "contains (fst (addType xs (Some t))) u"
proof -
  let ?b = "takeWhile (\<lambda>x. x < t) xs" and ?r = "dropWhile (\<lambda>x. x < t) xs"
  have split: "xs = ?b @ ?r" by simp
  have "contains (?b @ t # ?r) u"
  proof (cases "t < u")
    case True
    then have "\<forall>x \<in> set ?b. x < u" by (auto dest: set_takeWhileD)
    then have "dropWhile (\<lambda>x. x < u) (?b @ zs) = dropWhile (\<lambda>x. x < u) zs" for zs
      by (simp add: dropWhile_append2)
    then have "dropWhile (\<lambda>x. x < u) (?b @ t # ?r) = dropWhile (\<lambda>x. x < u) ?r"
      and "dropWhile (\<lambda>x. x < u) xs = dropWhile (\<lambda>x. x < u) ?r"
      using True by (simp, metis split)
    with assms show ?thesis by (simp add: contains_def)
  next
    case False
    show ?thesis
    proof (cases "\<exists>x \<in> set ?b. \<not> x < u")
      case True
      then obtain x where x: "x \<in> set ?b" "\<not> x < u" by blast
      have "dropWhile (\<lambda>x. x < u) (?b @ zs) = dropWhile (\<lambda>x. x < u) ?b @ zs" for zs
        using x by (rule dropWhile_append1)
      moreover have "dropWhile (\<lambda>x. x < u) ?b \<noteq> []" unfolding dropWhile_eq_Nil_conv using x by blast
      ultimately have "dropWhile (\<lambda>x. x < u) (?b @ t # ?r) \<noteq> []"
        "hd (dropWhile (\<lambda>x. x < u) (?b @ t # ?r)) = hd (dropWhile (\<lambda>x. x < u) ?b)"
        "hd (dropWhile (\<lambda>x. x < u) xs) = hd (dropWhile (\<lambda>x. x < u) ?b)"
        by (simp_all, metis hd_append2 split)
      with assms show ?thesis by (simp add: contains_def Let_def)
    next
      case None: False
      then have d: "dropWhile (\<lambda>x. x < u) (?b @ zs) = dropWhile (\<lambda>x. x < u) zs" for zs
        by (simp add: dropWhile_append2)
      have "dropWhile (\<lambda>x. x < u) xs = dropWhile (\<lambda>x. x < u) ?r" by (metis d split)
      with assms have h: "dropWhile (\<lambda>x. x < u) ?r \<noteq> []" "hd (dropWhile (\<lambda>x. x < u) ?r) = u"
        by (simp_all add: contains_def Let_def)
      have "u = t"
      proof (rule ccontr)
        assume "u \<noteq> t"
        with False have ut: "u < t" by simp
        from h(1) have "?r \<noteq> []" by (metis dropWhile.simps(1))
        then have "\<not> hd ?r < t" using hd_dropWhile [of "\<lambda>x. x < t" xs] by blast
        with ut have "dropWhile (\<lambda>x. x < u) ?r = ?r"
          by (metis dropWhile.simps(2) dropWhile_eq_Nil_conv less_trans list.collapse order_less_trans dropWhile.simps(1))
        with h(2) \<open>\<not> hd ?r < t\<close> ut show False by simp
      qed
      with d [of "t # ?r"] show ?thesis by (simp add: contains_def)
    qed
  qed
  with assms show ?thesis by (auto simp: addType_def Let_def)
qed

lemma contains_added: "contains (fst (addType xs (Some t))) t"
proof -
  have d: "dropWhile (\<lambda>x. x < t) (takeWhile (\<lambda>x. x < t) xs @ zs) = dropWhile (\<lambda>x. x < t) zs" for zs
    by (rule dropWhile_append2) (auto dest: set_takeWhileD)
  show ?thesis by (auto simp: addType_def contains_def Let_def d)
qed

lemma set_addAll [simp]: "set (addAll ms out) = set out \<union> set ms"
  by (induction ms arbitrary: out) (auto simp: addAll_def)

lemma nodeThrows_set: "set (nodeThrows h a st n out) = set out \<union> set (nodeThrows h a st n [])"
  by (auto simp: nodeThrows_def split: option.splits; case_tac "structOfType h (ar_typeOf a x2)"; auto)

text \<open>The nodes of a body: its descendants, but not those inside a lambda.\<close>

function bodyNodes :: "SyntaxNode \<Rightarrow> SyntaxNode list" where
  "bodyNodes n = (if node_kind n = LambdaExpr then [] else n # concat (map bodyNodes (children n)))"
  by pat_completeness auto
termination
  by (relation "measure (\<lambda>n. size (green n))") (auto dest: children_smaller)

declare bodyNodes.simps [simp del]

definition thrownIn :: "('x) Heap_scheme \<Rightarrow> AnalysisResult \<Rightarrow> ThrowsState \<Rightarrow> SyntaxNode \<Rightarrow> sid set" where
  "thrownIn h a st b = (\<Union>n \<in> set (bodyNodes b). set (nodeThrows h a st n []))"

lemma set_fold_union:
  "(\<And>x out. x \<in> set xs \<Longrightarrow> set (f x out) = set out \<union> A x) \<Longrightarrow> set (fold f xs out) = set out \<union> (\<Union>x \<in> set xs. A x)"
  by (induction xs arbitrary: out) auto

lemma set_collectBlockThrows: "set (collectBlockThrows h a st n out) = set out \<union> thrownIn h a st n"
proof (induction n arbitrary: out rule: bodyNodes.induct)
  case (1 n)
  show ?case
  proof (cases "node_kind n = LambdaExpr")
    case True
    then show ?thesis
      by (simp add: collectBlockThrows.simps [of h a st n] bodyNodes.simps [of n] thrownIn_def)
  next
    case False
    have "set (fold (\<lambda>c out. collectBlockThrows h a st c out) (children n) out') =
        set out' \<union> (\<Union>c \<in> set (children n). thrownIn h a st c)" for out'
      using 1 [OF False] by (intro set_fold_union) blast
    moreover have "thrownIn h a st n = set (nodeThrows h a st n []) \<union> (\<Union>c \<in> set (children n). thrownIn h a st c)"
      using False by (auto simp: thrownIn_def bodyNodes.simps [of n])
    ultimately show ?thesis
      using False nodeThrows_set [of h a st n out]
      by (simp add: collectBlockThrows.simps [of h a st n] Un_assoc)
  qed
qed

section \<open>Passes only grow the state\<close>

definition contractPart :: "SymbolThrows \<Rightarrow> SymbolThrows" where
  "contractPart t = t\<lparr>th_throwsSet := [], th_throwsOpaquely := False\<rparr>"

definition leThrows :: "SymbolThrows \<Rightarrow> SymbolThrows \<Rightarrow> bool" where
  "leThrows t u \<longleftrightarrow> subseq (th_throwsSet t) (th_throwsSet u) \<and> (th_throwsOpaquely t \<longrightarrow> th_throwsOpaquely u) \<and>
     contractPart t = contractPart u"

definition grows :: "ThrowsState \<times> bool \<Rightarrow> ThrowsState \<times> bool \<Rightarrow> bool" where
  "grows s s' \<longleftrightarrow> (\<forall>y. leThrows (fst s y) (fst s' y)) \<and> (snd s \<longrightarrow> snd s') \<and> (\<not> snd s' \<longrightarrow> s' = s)"

lemma leThrows_refl [simp]: "leThrows t t"
  by (simp add: leThrows_def)

lemma leThrows_trans: "leThrows t u \<Longrightarrow> leThrows u v \<Longrightarrow> leThrows t v"
  by (auto simp: leThrows_def intro: subseq_order.order_trans)

lemma contractPart_fields:
  "th_declaredThrows (contractPart t) = th_declaredThrows t"
  "th_declaredThrowsTypes (contractPart t) = th_declaredThrowsTypes t"
  "th_isConstructor (contractPart t) = th_isConstructor t"
  "th_isDestructor (contractPart t) = th_isDestructor t"
  by (simp_all add: contractPart_def)

lemma leThrows_contract:
  assumes "leThrows t u"
  shows "th_declaredThrows u = th_declaredThrows t" and "th_declaredThrowsTypes u = th_declaredThrowsTypes t"
    and "th_isConstructor u = th_isConstructor t" and "th_isDestructor u = th_isDestructor t"
  using assms unfolding leThrows_def by (metis contractPart_fields)+

lemma leThrows_antisym:
  assumes "leThrows t u" and "leThrows u t"
  shows "t = u"
proof (rule SymbolThrows.equality)
  show "th_throwsSet t = th_throwsSet u"
    by (rule subseq_order.antisym) (use assms in \<open>simp_all only: leThrows_def\<close>)
  show "th_throwsOpaquely t = th_throwsOpaquely u"
    using assms by (simp only: leThrows_def) blast
qed (simp_all add: leThrows_contract [OF assms(1)])

lemma growsD:
  assumes "grows s s'"
  shows grows_le: "leThrows (fst s y) (fst s' y)" and grows_flag: "snd s \<Longrightarrow> snd s'" and grows_quiet: "\<not> snd s' \<Longrightarrow> s' = s"
  using assms unfolding grows_def by blast+

interpretation passes: growing_ops grows
proof
  show "grows s s" for s by (simp add: grows_def)
  show "grows s u" if "grows s t" "grows t u" for s t u
    unfolding grows_def
  proof (intro conjI allI impI)
    show "leThrows (fst s y) (fst u y)" for y
      by (rule leThrows_trans [OF grows_le [OF that(1)] grows_le [OF that(2)]])
    show "snd u" if "snd s" by (rule grows_flag [OF \<open>grows t u\<close> grows_flag [OF \<open>grows s t\<close> that]])
    show "u = s" if u: "\<not> snd u"
    proof -
      have t: "u = t" by (rule grows_quiet [OF \<open>grows t u\<close> u])
      with u have "\<not> snd t" by simp
      from grows_quiet [OF \<open>grows s t\<close> this] t show ?thesis by simp
    qed
  qed
  show "s = t" if "grows s t" "grows t s" for s t
  proof (rule prod_eqI)
    show "fst s = fst t" by (intro ext leThrows_antisym grows_le that)
    show "snd s = snd t" using grows_flag [OF that(1)] grows_flag [OF that(2)] by blast
  qed
qed

lemma grows_addType:
  assumes "addType (th_throwsSet (st y)) (Some m) = (s', added)"
  shows "grows (st, c) (st(y := (st y)\<lparr>th_throwsSet := s'\<rparr>), c \<or> added)"
proof -
  have "subseq (th_throwsSet (st y)) s'" using addType_subseq [of "th_throwsSet (st y)" "Some m"] assms by simp
  moreover have "s' = th_throwsSet (st y)" if "\<not> added" using addType_same [of "th_throwsSet (st y)" "Some m"] assms that by simp
  ultimately show ?thesis by (auto simp: grows_def leThrows_def contractPart_def)
qed

lemma growThrowsSet_Cons:
  "growThrowsSet y (m # ms) (st, c) =
     growThrowsSet y ms (st(y := (st y)\<lparr>th_throwsSet := fst (addType (th_throwsSet (st y)) (Some m))\<rparr>),
       c \<or> snd (addType (th_throwsSet (st y)) (Some m)))"
  by (simp add: growThrowsSet_def split: prod.splits)

lemma growThrowsSet_Nil [simp]: "growThrowsSet y [] s = s"
  by (simp add: growThrowsSet_def)

lemma growThrowsSet_grows: "grows s (growThrowsSet y outward s)"
  unfolding growThrowsSet_def
  by (rule passes.fold_le) (auto split: prod.splits intro: grows_addType)

lemma growThrowsSet_set:
  "growThrowsSet y ms s = (st', c') \<Longrightarrow> set (th_throwsSet (st' y)) = set (th_throwsSet (fst s y)) \<union> set ms"
  by (induction ms arbitrary: s) (fastforce simp: growThrowsSet_Cons)+

lemma growThrowsSet_other: "z \<noteq> y \<Longrightarrow> fst (growThrowsSet y ms s) z = fst s z"
  by (induction ms arbitrary: s) (auto simp: growThrowsSet_Cons)

lemma grows_opaque: "\<not> th_throwsOpaquely (st y) \<Longrightarrow> grows (st, c) (st(y := (st y)\<lparr>th_throwsOpaquely := True\<rparr>), True)"
  by (auto simp: grows_def leThrows_def contractPart_def)

lemma runOnceForFunction_split:
  obtains st c where "growThrowsSet y (computeOutward h a (fst s) fn) s = (st, c)"
    and "runOnceForFunction h a y fn s = (st, c) \<or>
      (\<not> th_throwsOpaquely (st y) \<and> runOnceForFunction h a y fn s = (st(y := (st y)\<lparr>th_throwsOpaquely := True\<rparr>), True))"
  by (cases "growThrowsSet y (computeOutward h a (fst s) fn) s")
    (auto simp: runOnceForFunction_def Let_def split: option.splits if_splits)

lemma runOnceForFunction_grows: "grows s (runOnceForFunction h a y fn s)"
proof -
  obtain st c where g: "growThrowsSet y (computeOutward h a (fst s) fn) s = (st, c)"
    and r: "runOnceForFunction h a y fn s = (st, c) \<or>
      (\<not> th_throwsOpaquely (st y) \<and> runOnceForFunction h a y fn s = (st(y := (st y)\<lparr>th_throwsOpaquely := True\<rparr>), True))"
    by (rule runOnceForFunction_split)
  from growThrowsSet_grows [of s y] g have "grows s (st, c)" by metis
  from r show ?thesis
  proof (elim disjE conjE)
    assume "\<not> th_throwsOpaquely (st y)"
      and r: "runOnceForFunction h a y fn s = (st(y := (st y)\<lparr>th_throwsOpaquely := True\<rparr>), True)"
    from passes.le_trans [OF \<open>grows s (st, c)\<close> grows_opaque [of st y c]] this show ?thesis by simp
  qed (use \<open>grows s (st, c)\<close> in simp)
qed

lemma runOnceForTest_grows: "grows s (runOnceForTest h a y td s)"
  by (simp add: runOnceForTest_def growThrowsSet_grows)

lemma whenResolved_le:
  "(\<And>y. grows s (f y n s)) \<Longrightarrow> grows s (whenResolved a f n s)"
  by (auto simp: whenResolved_def passes.le_refl split: option.splits)

lemmas pass_grows = whenResolved_le runOnceForFunction_grows runOnceForTest_grows

text \<open>A pass is one sequence of steps over the declarations.\<close>

definition passSteps :: "('x) Heap_scheme \<Rightarrow> ThrowsAnalyzer \<Rightarrow> (ThrowsState \<times> bool \<Rightarrow> ThrowsState \<times> bool) list" where
  "passSteps h ta = (let a = ta_analysis ta; sf = ta_sf ta in
     map (whenResolved a (runOnceForFunction h a)) (SourceFileView_functions sf) @
     map (whenResolved a (runOnceForTest h a)) (SourceFileView_tests sf) @
     map (whenResolved a (runOnceForFunction h a)) (structMethods sf @ classMethods sf))"

lemma fold_id_map: "fold id (map f xs) = fold f xs"
  by (induction xs) auto

lemma runOnce_steps: "runOnce h ta st = fold id (passSteps h ta) (st, False)"
  by (simp add: runOnce_def passSteps_def Let_def fold_id_map)

lemma passSteps_grow: "f \<in> set (passSteps h ta) \<Longrightarrow> grows s (id f s)"
  by (auto simp: passSteps_def Let_def intro!: pass_grows)

lemma runOnce_grows: "grows (st, False) (runOnce h ta st)"
  unfolding runOnce_steps by (rule passes.fold_le) (rule passSteps_grow)

text \<open>The flag tells the truth: when it stays down, the pass changed nothing, and neither did any step of it.\<close>

lemma runOnce_quiet:
  assumes "\<not> snd (runOnce h ta st)"
  shows "runOnce h ta st = (st, False)" and "f \<in> set (passSteps h ta) \<Longrightarrow> f (st, False) = (st, False)"
proof -
  show q: "runOnce h ta st = (st, False)"
    using runOnce_grows [of st h ta] assms by (auto simp: grows_def)
  show "f (st, False) = (st, False)" if "f \<in> set (passSteps h ta)"
    using passes.fold_fixed [of "passSteps h ta" id "(st, False)" f, OF passSteps_grow] q that
    by (simp add: runOnce_steps)
qed

lemma runAll_step_grows: "grows s (case s of (st, changed) \<Rightarrow> (case runOnce h ta st of (st', c) \<Rightarrow> (st', changed \<or> c)))"
proof (cases s)
  case (Pair st changed)
  obtain st' c where r: "runOnce h ta st = (st', c)" by fastforce
  from runOnce_grows [of st h ta] r have "grows (st, False) (st', c)" by simp
  with Pair r show ?thesis by (auto simp: grows_def)
qed

lemma runAll_quiet:
  assumes "\<not> snd (runAll h tas st)"
  shows "runAll h tas st = (st, False)" and "ta \<in> set tas \<Longrightarrow> runOnce h ta st = (st, False)"
proof -
  let ?f = "\<lambda>ta (st, changed). case runOnce h ta st of (st', c) \<Rightarrow> (st', changed \<or> c)"
  have g: "grows s (?f ta s)" for ta s using runAll_step_grows [of s h ta] by (simp add: case_prod_beta)
  from passes.fold_le [of tas ?f "(st, False)"] g assms show q: "runAll h tas st = (st, False)"
    by (auto simp: grows_def runAll_def)
  assume t: "ta \<in> set tas"
  have "?f ta (st, False) = (st, False)"
    using passes.fold_fixed [of tas ?f "(st, False)" ta] g q t by (simp add: runAll_def)
  then show "runOnce h ta st = (st, False)" by (auto split: prod.splits)
qed

lemma throwsLoop_result: "throwsLoop h tas st = Some r \<Longrightarrow> \<not> snd (runAll h tas r)"
proof (rule throwsLoop.raw_induct [where P = "\<lambda>h tas st r. \<not> snd (runAll h tas r)"], goal_cases)
  case (1 f h tas st r)
  obtain st' c where "runAll h tas st = (st', c)" by fastforce
  with 1 show ?case using runAll_quiet [of h tas st] by (cases c) auto
qed simp

text \<open>The functions and methods of a module that the analysis looks at, with their symbols.\<close>

definition analysed :: "ThrowsAnalyzer \<Rightarrow> (symid \<times> FuncDecl) set" where
  "analysed ta = {(y, fn). fn \<in> set (SourceFileView_functions (ta_sf ta) @ structMethods (ta_sf ta) @ classMethods (ta_sf ta)) \<and>
     symbolAt (ta_analysis ta) fn = Some y}"

text \<open>The state the loop returns is closed: what a function lets out is in its set.\<close>

lemma throwsLoop_closed:
  assumes "throwsLoop h tas st0 = Some st" and "ta \<in> set tas" and "(y, fn) \<in> analysed ta"
  shows "set (computeOutward h (ta_analysis ta) st fn) \<subseteq> set (th_throwsSet (st y))"
proof -
  let ?a = "ta_analysis ta"
  have q: "\<not> snd (runOnce h ta st)"
    using runAll_quiet(2) [OF throwsLoop_result [OF assms(1)] assms(2)] by simp
  have "whenResolved ?a (runOnceForFunction h ?a) fn \<in> set (passSteps h ta)"
    using assms(3) by (auto simp: analysed_def passSteps_def Let_def)
  from runOnce_quiet(2) [OF q this] have f: "runOnceForFunction h ?a y fn (st, False) = (st, False)"
    using assms(3) by (simp add: analysed_def whenResolved_def)
  obtain st' c where g: "growThrowsSet y (computeOutward h ?a st fn) (st, False) = (st', c)"
    and r: "runOnceForFunction h ?a y fn (st, False) = (st', c) \<or>
      runOnceForFunction h ?a y fn (st, False) = (st'(y := (st' y)\<lparr>th_throwsOpaquely := True\<rparr>), True)"
    by (rule runOnceForFunction_split [where s = "(st, False)"]) auto
  from r f have "st' = st" by auto
  with growThrowsSet_set [OF g] show ?thesis by auto
qed

section \<open>The loop ends\<close>

text \<open>What a function can let out: what its blocks throw, and the types of its clauses.\<close>

definition blocksOf :: "FuncDecl \<Rightarrow> SyntaxNode set" where
  "blocksOf fn = set_option (FuncDecl_body fn) \<union> (\<Union>cc \<in> set (FuncDecl_catchClauses fn). set_option (CatchClause_body cc))"

definition throwable :: "('x) Heap_scheme \<Rightarrow> AnalysisResult \<Rightarrow> ThrowsState \<Rightarrow> FuncDecl \<Rightarrow> sid set" where
  "throwable h a st fn = (\<Union>b \<in> blocksOf fn. thrownIn h a st b) \<union> {c. Some c \<in> set (clauseTypesOf h a (FuncDecl_catchClauses fn))}"

lemma finite_clauseTypes [simp]: "finite {c. Some c \<in> set ts}"
  by (rule finite_subset [of _ "the ` set ts"]) (force intro: image_eqI)+

lemma finite_throwable [simp]: "finite (throwable h a st fn)"
  by (auto simp: throwable_def blocksOf_def thrownIn_def)

lemma bodySetOf_set: "set (bodySetOf h a st fn) = (\<Union>b \<in> set_option (FuncDecl_body fn). thrownIn h a st b)"
  by (cases "FuncDecl_body fn") (simp_all add: bodySetOf_def set_collectBlockThrows)

lemma fold_subset:
  "(\<And>x out. x \<in> set xs \<Longrightarrow> set (f x out) \<subseteq> set out \<union> B) \<Longrightarrow> set (fold f xs out) \<subseteq> set out \<union> B"
proof (induction xs arbitrary: out)
  case (Cons x xs)
  have "set (f x out) \<subseteq> set out \<union> B" by (rule Cons.prems) simp
  moreover have "set (fold f xs (f x out)) \<subseteq> set (f x out) \<union> B" by (rule Cons.IH) (simp add: Cons.prems)
  ultimately show ?case by auto
qed simp

lemma enumerate_nth: "(i, x) \<in> set (enumerate 0 xs) \<longleftrightarrow> i < length xs \<and> xs ! i = x"
  by (auto simp: in_set_enumerate_eq)

lemma clauseOutward_subset:
  assumes "i < length (FuncDecl_catchClauses fn)" and "cc = FuncDecl_catchClauses fn ! i"
  shows "set (clauseOutward h a st (bodySetOf h a st fn) (clauseTypesOf h a (FuncDecl_catchClauses fn)) i cc out)
    \<subseteq> set out \<union> throwable h a st fn"
proof -
  have cc: "cc \<in> set (FuncDecl_catchClauses fn)" using assms by simp
  have i: "clauseTypesOf h a (FuncDecl_catchClauses fn) ! i \<in> set (clauseTypesOf h a (FuncDecl_catchClauses fn))"
    using assms(1) by (intro nth_mem) (simp add: clauseTypesOf_def)
  have body: "set (bodySetOf h a st fn) \<subseteq> throwable h a st fn"
    unfolding bodySetOf_set by (auto simp: throwable_def blocksOf_def)
  have block: "thrownIn h a st cb \<subseteq> throwable h a st fn" if "CatchClause_body cc = Some cb" for cb
    using that cc by (force simp: throwable_def blocksOf_def)
  show ?thesis
    using i body block
    by (auto simp: clauseOutward_def Let_def set_collectBlockThrows throwable_def split: option.splits if_splits)
qed

lemma computeOutward_subset: "set (computeOutward h a st fn) \<subseteq> throwable h a st fn"
proof -
  have "set (bodySetOf h a st fn) \<subseteq> throwable h a st fn"
    unfolding bodySetOf_set by (auto simp: throwable_def blocksOf_def)
  moreover have "set (fold (\<lambda>(i, cc). clauseOutward h a st (bodySetOf h a st fn) (clauseTypesOf h a (FuncDecl_catchClauses fn)) i cc)
      (enumerate 0 (FuncDecl_catchClauses fn)) out) \<subseteq> set out \<union> throwable h a st fn" for out
    by (rule fold_subset) (use clauseOutward_subset in \<open>force simp: enumerate_nth\<close>)
  ultimately show ?thesis by (fastforce simp: computeOutward_def Let_def)
qed

lemma outward_step:
  "set (fold (\<lambda>(i, cc). clauseOutward h a st body types i cc) (enumerate 0 ccs) out) =
     set out \<union> (\<Union>i \<in> {..<length ccs}. set (clauseOutward h a st body types i (ccs ! i) []))"
proof -
  have c: "set (clauseOutward h a st body types i cc out) = set out \<union> set (clauseOutward h a st body types i cc [])" for i cc out
    by (cases "CatchClause_body cc"; cases "types ! i") (simp_all add: clauseOutward_def Let_def set_collectBlockThrows Un_assoc)
  have "set (fold (\<lambda>(i, cc). clauseOutward h a st body types i cc) xs out) =
      set out \<union> (\<Union>x \<in> set xs. case x of (i, cc) \<Rightarrow> set (clauseOutward h a st body types i cc []))" for xs out
  proof (rule set_fold_union)
    show "set ((case x of (i, cc) \<Rightarrow> clauseOutward h a st body types i cc) out) =
        set out \<union> (case x of (i, cc) \<Rightarrow> set (clauseOutward h a st body types i cc []))" for x out
      by (cases x) (simp add: c [of _ _ out])
  qed
  moreover have "(\<Union>x \<in> set (enumerate 0 ccs). case x of (i, cc) \<Rightarrow> set (clauseOutward h a st body types i cc [])) =
      (\<Union>i \<in> {..<length ccs}. set (clauseOutward h a st body types i (ccs ! i) []))"
  proof -
    have "set (enumerate 0 ccs) = (\<lambda>i. (i, ccs ! i)) ` {..<length ccs}" by (auto simp: enumerate_nth)
    then show ?thesis by simp
  qed
  ultimately show ?thesis by (simp only:)
qed

lemma computeOutward_set:
  fixes fn a and h :: "('x) Heap_scheme"
  defines "types \<equiv> clauseTypesOf h a (FuncDecl_catchClauses fn)"
  shows "set (computeOutward h a st fn) =
    {m \<in> set (bodySetOf h a st fn). \<not> caughtByEarlier h types m (length types)} \<union>
    (\<Union>i \<in> {..<length (FuncDecl_catchClauses fn)}.
       set (clauseOutward h a st (bodySetOf h a st fn) types i (FuncDecl_catchClauses fn ! i) []))"
  by (auto simp: computeOutward_def Let_def outward_step types_def)

lemma length_clauseTypesOf [simp]: "length (clauseTypesOf h a ccs) = length ccs"
  by (simp add: clauseTypesOf_def)

text \<open>When the sets grow within \<open>S\<close>, so does what a block throws.\<close>

definition grownWithin :: "ThrowsState \<Rightarrow> sid set \<Rightarrow> ThrowsState \<Rightarrow> bool" where
  "grownWithin st0 S st \<longleftrightarrow> (\<forall>y. contractPart (st y) = contractPart (st0 y) \<and>
     set (th_throwsSet (st y)) \<subseteq> set (th_throwsSet (st0 y)) \<union> S)"

lemma contractPart_declared:
  assumes "contractPart t = contractPart u"
  shows "th_declaredThrows t = th_declaredThrows u" and "th_declaredThrowsTypes t = th_declaredThrowsTypes u"
  using assms by (metis contractPart_fields)+

lemma templateContract_cong:
  "(\<And>y. th_declaredThrowsTypes (st y) = th_declaredThrowsTypes (st0 y)) \<Longrightarrow> templateContract h st y = templateContract h st0 y"
  by (auto simp: templateContract_def split: option.splits)

lemma contractOf_within:
  assumes "grownWithin st0 S st"
  shows "set (contractOf h st y) \<subseteq> set (contractOf h st0 y) \<union> S"
proof -
  have d: "th_declaredThrows (st y) = th_declaredThrows (st0 y)" "th_declaredThrowsTypes (st y) = th_declaredThrowsTypes (st0 y)" for y
    by (rule contractPart_declared, use assms in \<open>simp add: grownWithin_def\<close>)+
  have t: "templateContract h st y = templateContract h st0 y" for y
    by (rule templateContract_cong) (rule d(2))
  have g: "set (th_throwsSet (st y)) \<subseteq> set (th_throwsSet (st0 y)) \<union> S" for y
    using assms by (simp add: grownWithin_def)
  show ?thesis
    using g by (cases y) (simp_all add: contractOf_def d t subset_insertI2 Un_upper1 split: option.split)
qed

lemma thrownIn_within:
  assumes "grownWithin st0 S st"
  shows "thrownIn h a st b \<subseteq> thrownIn h a st0 b \<union> S"
proof -
  have "set (nodeThrows h a st n []) \<subseteq> set (nodeThrows h a st0 n []) \<union> S" for n
    using contractOf_within [OF assms] by (auto simp: nodeThrows_def)
  then show ?thesis by (fastforce simp: thrownIn_def)
qed

text \<open>All types the analysis can add to a set, and all symbols whose sets it adds to.\<close>

definition addable :: "('x) Heap_scheme \<Rightarrow> ThrowsAnalyzer list \<Rightarrow> ThrowsState \<Rightarrow> sid set" where
  "addable h tas st = (\<Union>ta \<in> set tas.
     (\<Union>fn \<in> set (functionsOf (ta_sf ta)). throwable h (ta_analysis ta) st fn) \<union>
     (\<Union>td \<in> set (SourceFileView_tests (ta_sf ta)). \<Union>b \<in> set_option (TestDecl_body td). thrownIn h (ta_analysis ta) st b))"

definition analysedSymbols :: "ThrowsAnalyzer list \<Rightarrow> symid set" where
  "analysedSymbols tas = (\<Union>ta \<in> set tas. \<Union>n \<in> set (functionsOf (ta_sf ta) @ SourceFileView_tests (ta_sf ta)).
     set_option (symbolAt (ta_analysis ta) n))"

lemma finite_addable [simp]: "finite (addable h tas st)"
  by (auto simp: addable_def thrownIn_def)

lemma finite_analysedSymbols [simp]: "finite (analysedSymbols tas)"
  by (simp add: analysedSymbols_def)

text \<open>How much can still be added.\<close>

definition missing :: "sid set \<Rightarrow> SymbolThrows \<Rightarrow> nat" where
  "missing S t = card {x \<in> S. \<not> contains (th_throwsSet t) x} + (if th_throwsOpaquely t then 0 else 1)"

definition remaining :: "symid set \<Rightarrow> sid set \<Rightarrow> ThrowsState \<Rightarrow> nat" where
  "remaining Y S st = (\<Sum>y \<in> Y. missing S (st y))"

lemma remaining_update:
  assumes "finite Y" and "y \<in> Y"
  shows "remaining Y S (st(y := t)) + missing S (st y) = remaining Y S st + missing S t"
proof -
  have "(\<Sum>z \<in> Y - {y}. missing S ((st(y := t)) z)) = (\<Sum>z \<in> Y - {y}. missing S (st z))"
    by (rule sum.cong) auto
  with assms show ?thesis by (simp add: remaining_def sum.remove [OF assms])
qed

definition descends :: "symid set \<Rightarrow> sid set \<Rightarrow> ThrowsState \<Rightarrow> ThrowsState \<times> bool \<Rightarrow> ThrowsState \<times> bool \<Rightarrow> bool" where
  "descends Y S st0 s s' \<longleftrightarrow> (grownWithin st0 S (fst s) \<longrightarrow>
     grownWithin st0 S (fst s') \<and> remaining Y S (fst s') \<le> remaining Y S (fst s) \<and>
     (snd s' \<and> \<not> snd s \<longrightarrow> remaining Y S (fst s') < remaining Y S (fst s)))"

interpretation descent: preorder_ops "descends Y S st0" for Y S st0
proof
  show "descends Y S st0 s s" for s by (simp add: descends_def)
  show "descends Y S st0 s u" if "descends Y S st0 s t" "descends Y S st0 t u" for s t u
    using that unfolding descends_def by (meson le_less_trans less_le_trans le_trans)
qed

lemma missing_addType:
  assumes "finite S" and "m \<in> S" and "addType (th_throwsSet t) (Some m) = (s', added)"
  shows "missing S (t\<lparr>th_throwsSet := s'\<rparr>) \<le> missing S t"
    and "added \<Longrightarrow> missing S (t\<lparr>th_throwsSet := s'\<rparr>) < missing S t"
proof -
  let ?A = "{x \<in> S. \<not> contains s' x}" and ?B = "{x \<in> S. \<not> contains (th_throwsSet t) x}"
  have s': "s' = fst (addType (th_throwsSet t) (Some m))" using assms(3) by simp
  have sub: "?A \<subseteq> ?B" unfolding s' using contains_after by blast
  then show "missing S (t\<lparr>th_throwsSet := s'\<rparr>) \<le> missing S t"
    using assms(1) by (simp add: missing_def card_mono)
  show "missing S (t\<lparr>th_throwsSet := s'\<rparr>) < missing S t" if added
  proof -
    from that assms(3) addType_contains [of "th_throwsSet t" m] have "m \<in> ?B" using assms(2) by simp
    moreover have "m \<notin> ?A" unfolding s' using contains_added by simp
    ultimately have "?A \<subset> ?B" using sub by blast
    then show ?thesis using assms(1) by (simp add: missing_def psubset_card_mono)
  qed
qed

lemma descends_addType:
  assumes "finite Y" and "finite S" and "y \<in> Y" and "m \<in> S"
    and "addType (th_throwsSet (st y)) (Some m) = (s', added)"
  shows "descends Y S st0 (st, c) (st(y := (st y)\<lparr>th_throwsSet := s'\<rparr>), c \<or> added)"
proof -
  have "set s' = insert m (set (th_throwsSet (st y)))"
    using set_addType [of "th_throwsSet (st y)" m] assms(5) by simp
  then have "grownWithin st0 S (st(y := (st y)\<lparr>th_throwsSet := s'\<rparr>))" if "grownWithin st0 S st"
    using that assms(4) by (auto simp: grownWithin_def contractPart_def)
  then show ?thesis
    using remaining_update [OF assms(1,3), of S st "(st y)\<lparr>th_throwsSet := s'\<rparr>"] missing_addType [OF assms(2,4,5)]
    by (auto simp: descends_def)
qed

lemma descends_opaque:
  assumes "finite Y" and "y \<in> Y" and "\<not> th_throwsOpaquely (st y)"
  shows "descends Y S st0 (st, c) (st(y := (st y)\<lparr>th_throwsOpaquely := True\<rparr>), True)"
  using remaining_update [OF assms(1,2), of S st "(st y)\<lparr>th_throwsOpaquely := True\<rparr>"] assms(3)
  by (auto simp: descends_def missing_def grownWithin_def contractPart_def)

lemma descends_growThrowsSet:
  assumes "finite Y" and "finite S" and "y \<in> Y" and "set outward \<subseteq> S"
  shows "descends Y S st0 s (growThrowsSet y outward s)"
  unfolding growThrowsSet_def
  by (rule descent.fold_le) (use assms in \<open>auto split: prod.splits intro: descends_addType\<close>)

lemma descends_function:
  assumes "ta \<in> set tas" and "fn \<in> set (functionsOf (ta_sf ta))" and "symbolAt (ta_analysis ta) fn = Some y"
  shows "descends (analysedSymbols tas) (addable h tas st0) st0 s (runOnceForFunction h (ta_analysis ta) y fn s)"
    (is "descends ?Y ?S st0 s _")
proof (cases "grownWithin st0 ?S (fst s)")
  case True
  let ?a = "ta_analysis ta"
  have y: "y \<in> ?Y" using assms by (force simp: analysedSymbols_def)
  have "throwable h ?a (fst s) fn \<subseteq> throwable h ?a st0 fn \<union> ?S"
    using thrownIn_within [OF True, of h ?a] by (fastforce simp: throwable_def)
  moreover have "throwable h ?a st0 fn \<subseteq> ?S" using assms by (force simp: addable_def)
  ultimately have o: "set (computeOutward h ?a (fst s) fn) \<subseteq> ?S" using computeOutward_subset by blast
  obtain st c where g: "growThrowsSet y (computeOutward h ?a (fst s) fn) s = (st, c)"
    and r: "runOnceForFunction h ?a y fn s = (st, c) \<or>
      (\<not> th_throwsOpaquely (st y) \<and> runOnceForFunction h ?a y fn s = (st(y := (st y)\<lparr>th_throwsOpaquely := True\<rparr>), True))"
    by (rule runOnceForFunction_split)
  from descends_growThrowsSet [OF _ _ y o, of st0 s] g have d: "descends ?Y ?S st0 s (st, c)" by simp
  from r show ?thesis
  proof (elim disjE conjE)
    assume n: "\<not> th_throwsOpaquely (st y)"
      and "runOnceForFunction h ?a y fn s = (st(y := (st y)\<lparr>th_throwsOpaquely := True\<rparr>), True)"
    with descent.le_trans [OF d descends_opaque [of ?Y y st, OF _ y n]] show ?thesis by simp
  qed (use d in simp)
qed (simp add: descends_def)

lemma descends_test:
  assumes "ta \<in> set tas" and "td \<in> set (SourceFileView_tests (ta_sf ta))" and "symbolAt (ta_analysis ta) td = Some y"
  shows "descends (analysedSymbols tas) (addable h tas st0) st0 s (runOnceForTest h (ta_analysis ta) y td s)"
    (is "descends ?Y ?S st0 s _")
proof (cases "grownWithin st0 ?S (fst s)")
  case True
  let ?a = "ta_analysis ta"
  have y: "y \<in> ?Y" using assms by (force simp: analysedSymbols_def)
  have "thrownIn h ?a (fst s) b \<subseteq> ?S" if "TestDecl_body td = Some b" for b
  proof -
    have "thrownIn h ?a st0 b \<subseteq> ?S" using assms that by (force simp: addable_def)
    with thrownIn_within [OF True, of h ?a b] show ?thesis by blast
  qed
  then have "set (case TestDecl_body td of None \<Rightarrow> [] | Some b \<Rightarrow> collectBlockThrows h ?a (fst s) b []) \<subseteq> ?S"
    by (cases "TestDecl_body td") (simp_all add: set_collectBlockThrows)
  from descends_growThrowsSet [OF _ _ y this, of st0 s] show ?thesis by (simp add: runOnceForTest_def)
qed (simp add: descends_def)

lemma descends_whenResolved:
  "(\<And>y. symbolAt a n = Some y \<Longrightarrow> descends Y S st0 s (f y n s)) \<Longrightarrow> descends Y S st0 s (whenResolved a f n s)"
  by (auto simp: whenResolved_def descent.le_refl split: option.splits)

lemma descends_runOnce:
  assumes "ta \<in> set tas"
  shows "descends (analysedSymbols tas) (addable h tas st0) st0 (st, False) (runOnce h ta st)"
  unfolding runOnce_steps
proof (rule descent.fold_le)
  fix f s assume "f \<in> set (passSteps h ta)"
  then show "descends (analysedSymbols tas) (addable h tas st0) st0 s (id f s)"
    using assms by (auto simp: passSteps_def Let_def functionsOf_def
      intro!: descends_whenResolved descends_function descends_test)
qed

lemma descends_runAll: "descends (analysedSymbols tas) (addable h tas st0) st0 (st, False) (runAll h tas st)"
  unfolding runAll_def
proof (rule descent.fold_le)
  fix ta and s :: "ThrowsState \<times> bool" assume ta: "ta \<in> set tas"
  obtain st c where s: "s = (st, c)" by fastforce
  obtain st' c' where r: "runOnce h ta st = (st', c')" by fastforce
  from descends_runOnce [OF ta, of h st0 st] r s
  show "descends (analysedSymbols tas) (addable h tas st0) st0 s
      (case s of (st, changed) \<Rightarrow> (case runOnce h ta st of (st', c) \<Rightarrow> (st', changed \<or> c)))"
    by (auto simp: descends_def)
qed



lemma throwsLoop_returns: "\<exists>st'. throwsLoop h tas st = Some st'"
proof -
  let ?Y = "analysedSymbols tas" and ?S = "addable h tas st"
  have "\<exists>st'. throwsLoop h tas cur = Some st'" if "grownWithin st ?S cur" for cur
    using that
  proof (induction "remaining ?Y ?S cur" arbitrary: cur rule: less_induct)
    case less
    obtain nxt c where r: "runAll h tas cur = (nxt, c)" by fastforce
    from descends_runAll [of tas h st cur] less.prems r
    have "grownWithin st ?S nxt" and "c \<Longrightarrow> remaining ?Y ?S nxt < remaining ?Y ?S cur"
      by (simp_all add: descends_def)
    with less.hyps [of nxt] r show ?case by (subst throwsLoop.simps) (cases c; simp)
  qed
  from this [of st] show ?thesis by (simp add: grownWithin_def)
qed

section \<open>The least closed state\<close>

definition leSets :: "ThrowsState \<Rightarrow> ThrowsState \<Rightarrow> bool" where
  "leSets st u \<longleftrightarrow> (\<forall>y. contractPart (st y) = contractPart (u y) \<and> set (th_throwsSet (st y)) \<subseteq> set (th_throwsSet (u y)) \<and>
     (th_throwsOpaquely (st y) \<longrightarrow> th_throwsOpaquely (u y)))"

lemma contractOf_mono:
  assumes "leSets st u"
  shows "set (contractOf h st y) \<subseteq> set (contractOf h u y)"
proof -
  have "grownWithin u {} st" using assms by (simp add: leSets_def grownWithin_def)
  from contractOf_within [OF this] show ?thesis by simp
qed

lemma thrownIn_mono: "leSets st u \<Longrightarrow> thrownIn h a st b \<subseteq> thrownIn h a u b"
  using thrownIn_within [of u "{}" st h a b] by (simp add: leSets_def grownWithin_def)

lemma bodySetOf_mono: "leSets st u \<Longrightarrow> set (bodySetOf h a st fn) \<subseteq> set (bodySetOf h a u fn)"
  using thrownIn_mono by (fastforce simp: bodySetOf_set)

lemma clauseOutward_mono:
  assumes "leSets st u" and "set body \<subseteq> set body'"
  shows "set (clauseOutward h a st body types i cc []) \<subseteq> set (clauseOutward h a u body' types i cc [])"
  using assms(2) thrownIn_mono [OF assms(1), of h a]
  by (cases "CatchClause_body cc"; cases "types ! i") (auto simp: clauseOutward_def Let_def set_collectBlockThrows list_ex_iff)

lemma computeOutward_mono:
  assumes "leSets st u"
  shows "set (computeOutward h a st fn) \<subseteq> set (computeOutward h a u fn)"
proof -
  note b = bodySetOf_mono [OF assms, of h a fn]
  have "(\<Union>i \<in> I. set (clauseOutward h a st (bodySetOf h a st fn) types i (f i) [])) \<subseteq>
      (\<Union>i \<in> I. set (clauseOutward h a u (bodySetOf h a u fn) types i (f i) []))" for I types f
    by (rule UN_mono) (simp_all add: clauseOutward_mono [OF assms b])
  with b show ?thesis unfolding computeOutward_set by (intro Un_mono) auto
qed

lemma isOpaqueCall_mono: "leSets st u \<Longrightarrow> isOpaqueCall h a st n \<Longrightarrow> isOpaqueCall h a u n"
  by (auto simp: isOpaqueCall_def leSets_def split: option.splits if_splits)

lemma hasOpaqueTriedCall_mono:
  "leSets st u \<Longrightarrow> hasOpaqueTriedCall h a st n tried \<Longrightarrow> hasOpaqueTriedCall h a u n tried"
proof (induction h a st n tried rule: hasOpaqueTriedCall.induct)
  case (1 h a st n tried)
  note le = 1(4) and o = 1(5)
  show ?case
    using o 1(1-3) [OF refl] le isOpaqueCall_mono [OF le]
    unfolding hasOpaqueTriedCall.simps [of h a st n tried] hasOpaqueTriedCall.simps [of h a u n tried]
    by (auto simp: Let_def list_ex_iff split: if_splits) blast+
qed

text \<open>A state that lets out nothing that is not in it.\<close>

definition closedFor :: "('x) Heap_scheme \<Rightarrow> ThrowsState \<Rightarrow> ThrowsAnalyzer \<Rightarrow> bool" where
  "closedFor h u ta \<longleftrightarrow>
     (\<forall>(y, fn) \<in> analysed ta. set (computeOutward h (ta_analysis ta) u fn) \<subseteq> set (th_throwsSet (u y)) \<and>
        (\<forall>b \<in> set_option (FuncDecl_body fn). hasOpaqueTriedCall h (ta_analysis ta) u b False \<longrightarrow> th_throwsOpaquely (u y))) \<and>
     (\<forall>td \<in> set (SourceFileView_tests (ta_sf ta)). \<forall>y \<in> set_option (symbolAt (ta_analysis ta) td).
        \<forall>b \<in> set_option (TestDecl_body td). thrownIn h (ta_analysis ta) u b \<subseteq> set (th_throwsSet (u y)))"

definition staysBelow :: "ThrowsState \<Rightarrow> ThrowsState \<times> bool \<Rightarrow> ThrowsState \<times> bool \<Rightarrow> bool" where
  "staysBelow u s s' \<longleftrightarrow> (leSets (fst s) u \<longrightarrow> leSets (fst s') u)"

interpretation below: preorder_ops "staysBelow u" for u
  by unfold_locales (simp_all add: staysBelow_def)

lemma below_growThrowsSet:
  assumes "leSets (fst s) u" and "set outward \<subseteq> set (th_throwsSet (u y))"
  shows "leSets (fst (growThrowsSet y outward s)) u"
proof -
  have "staysBelow u s (growThrowsSet y outward s)"
    unfolding growThrowsSet_def
  proof (rule below.fold_le)
    fix m and s :: "ThrowsState \<times> bool" assume m: "m \<in> set outward"
    obtain st c where s: "s = (st, c)" by fastforce
    obtain s' added where a: "addType (th_throwsSet (st y)) (Some m) = (s', added)" by fastforce
    have "set s' = insert m (set (th_throwsSet (st y)))" using set_addType [of "th_throwsSet (st y)" m] a by simp
    with s a m assms(2) show "staysBelow u s (case s of (st, changed) \<Rightarrow> (case addType (th_throwsSet (st y)) (Some m) of
        (s', added) \<Rightarrow> (st(y := (st y)\<lparr>th_throwsSet := s'\<rparr>), changed \<or> added)))"
      by (auto simp: staysBelow_def leSets_def contractPart_def)
  qed
  with assms(1) show ?thesis by (simp add: staysBelow_def)
qed

lemma below_function:
  assumes "closedFor h u ta" and "(y, fn) \<in> analysed ta"
  shows "staysBelow u s (runOnceForFunction h (ta_analysis ta) y fn s)"
  unfolding staysBelow_def
proof
  let ?a = "ta_analysis ta"
  assume le: "leSets (fst s) u"
  from assms have out: "set (computeOutward h ?a u fn) \<subseteq> set (th_throwsSet (u y))"
    and opaque: "\<And>b. FuncDecl_body fn = Some b \<Longrightarrow> hasOpaqueTriedCall h ?a u b False \<Longrightarrow> th_throwsOpaquely (u y)"
    by (auto simp: closedFor_def)
  obtain st c where g: "growThrowsSet y (computeOutward h ?a (fst s) fn) s = (st, c)" by fastforce
  have "leSets st u"
    using below_growThrowsSet [OF le subset_trans [OF computeOutward_mono [OF le] out]] g by (metis fst_conv)
  moreover have "leSets (st(y := (st y)\<lparr>th_throwsOpaquely := True\<rparr>)) u"
    if "FuncDecl_body fn = Some b" "hasOpaqueTriedCall h ?a st b False" for b
    using \<open>leSets st u\<close> opaque [OF that(1) hasOpaqueTriedCall_mono [OF \<open>leSets st u\<close> that(2)]]
    by (auto simp: leSets_def contractPart_def)
  ultimately show "leSets (fst (runOnceForFunction h ?a y fn s)) u"
    using g by (auto simp: runOnceForFunction_def Let_def split: option.splits)
qed

lemma below_test:
  assumes "closedFor h u ta" and "td \<in> set (SourceFileView_tests (ta_sf ta))" and "symbolAt (ta_analysis ta) td = Some y"
  shows "staysBelow u s (runOnceForTest h (ta_analysis ta) y td s)"
  unfolding staysBelow_def
proof
  assume le: "leSets (fst s) u"
  let ?o = "case TestDecl_body td of None \<Rightarrow> [] | Some b \<Rightarrow> collectBlockThrows h (ta_analysis ta) (fst s) b []"
  have "thrownIn h (ta_analysis ta) (fst s) b \<subseteq> set (th_throwsSet (u y))" if "TestDecl_body td = Some b" for b
    using thrownIn_mono [OF le, of h "ta_analysis ta" b] assms that by (fastforce simp: closedFor_def)
  then have "set ?o \<subseteq> set (th_throwsSet (u y))" by (cases "TestDecl_body td") (simp_all add: set_collectBlockThrows)
  from below_growThrowsSet [OF le this] show "leSets (fst (runOnceForTest h (ta_analysis ta) y td s)) u"
    by (simp add: runOnceForTest_def)
qed

lemma below_whenResolved:
  "(\<And>y. symbolAt a n = Some y \<Longrightarrow> staysBelow u s (f y n s)) \<Longrightarrow> staysBelow u s (whenResolved a f n s)"
  by (cases "symbolAt a n") (simp_all add: whenResolved_def below.le_refl)

lemma below_runOnce:
  assumes "closedFor h u ta" and "leSets st u"
  shows "leSets (fst (runOnce h ta st)) u"
proof -
  have "staysBelow u s (id f s)" if "f \<in> set (passSteps h ta)" for f s
    using that by (auto simp: passSteps_def Let_def analysed_def
      intro!: below_whenResolved below_function [OF assms(1)] below_test [OF assms(1)])
  from below.fold_le [of "passSteps h ta" u id "(st, False)", OF this] assms(2) show ?thesis
    by (simp add: runOnce_steps staysBelow_def)
qed

lemma below_runAll:
  assumes "\<And>ta. ta \<in> set tas \<Longrightarrow> closedFor h u ta" and "leSets st u"
  shows "leSets (fst (runAll h tas st)) u"
proof -
  let ?f = "\<lambda>ta (st, changed). case runOnce h ta st of (st', c) \<Rightarrow> (st', changed \<or> c)"
  have "staysBelow u s (?f ta s)" if "ta \<in> set tas" for ta s
    using below_runOnce [OF assms(1) [OF that], of "fst s"] by (auto simp: staysBelow_def split: prod.split)
  from below.fold_le [of tas u ?f "(st, False)", OF this] assms(2) show ?thesis by (simp add: runAll_def staysBelow_def)
qed

lemma throwsLoop_least:
  assumes "throwsLoop h tas st = Some r" and "\<And>ta. ta \<in> set tas \<Longrightarrow> closedFor h u ta" and "leSets st u"
  shows "leSets r u"
proof -
  have "(\<forall>ta \<in> set tas. closedFor h u ta) \<longrightarrow> leSets st u \<longrightarrow> leSets r u"
  proof (rule throwsLoop.raw_induct [where P = "\<lambda>h tas st r. (\<forall>ta \<in> set tas. closedFor h u ta) \<longrightarrow> leSets st u \<longrightarrow> leSets r u",
      OF _ assms(1)], goal_cases)
    case (1 loop h tas st r)
    obtain st' c where a: "runAll h tas st = (st', c)" by fastforce
    with below_runAll [of tas h u st] have "(\<forall>ta \<in> set tas. closedFor h u ta) \<longrightarrow> leSets st u \<longrightarrow> leSets st' u" by auto
    with 1(1) [of h tas st' r] 1(2) a show ?case by (cases c) auto
  qed
  with assms(2,3) show ?thesis by blast
qed

lemma throwsLoop_closedFor:
  assumes "throwsLoop h tas st0 = Some st" and "ta \<in> set tas"
  shows "closedFor h st ta"
proof -
  let ?a = "ta_analysis ta"
  have q: "\<not> snd (runOnce h ta st)"
    using runAll_quiet(2) [OF throwsLoop_result [OF assms(1)] assms(2)] by simp
  have "hasOpaqueTriedCall h ?a st b False \<longrightarrow> th_throwsOpaquely (st y)"
    if "(y, fn) \<in> analysed ta" "FuncDecl_body fn = Some b" for y fn b
  proof
    assume o: "hasOpaqueTriedCall h ?a st b False"
    have "whenResolved ?a (runOnceForFunction h ?a) fn \<in> set (passSteps h ta)"
      using that(1) by (auto simp: analysed_def passSteps_def Let_def)
    from runOnce_quiet(2) [OF q this] have f: "runOnceForFunction h ?a y fn (st, False) = (st, False)"
      using that(1) by (simp add: analysed_def whenResolved_def)
    obtain st' c where g: "growThrowsSet y (computeOutward h ?a st fn) (st, False) = (st', c)" by fastforce
    with f o that(2) show "th_throwsOpaquely (st y)"
      by (auto simp: runOnceForFunction_def Let_def split: if_splits)
  qed
  moreover have "thrownIn h ?a st b \<subseteq> set (th_throwsSet (st y))"
    if "td \<in> set (SourceFileView_tests (ta_sf ta))" "symbolAt ?a td = Some y" "TestDecl_body td = Some b" for td y b
  proof -
    have "whenResolved ?a (runOnceForTest h ?a) td \<in> set (passSteps h ta)"
      using that(1) by (auto simp: passSteps_def Let_def)
    from runOnce_quiet(2) [OF q this] have "runOnceForTest h ?a y td (st, False) = (st, False)"
      using that(2) by (simp add: whenResolved_def)
    then have "growThrowsSet y (collectBlockThrows h ?a st b []) (st, False) = (st, False)"
      using that(3) by (simp add: runOnceForTest_def)
    from growThrowsSet_set [OF this] show ?thesis by (auto simp: set_collectBlockThrows)
  qed
  ultimately show ?thesis using throwsLoop_closed [OF assms] by (fastforce simp: closedFor_def)
qed

text \<open>
  Property: the order of the modules, and which of them is analysed twice, makes no difference to what is found.
\<close>

lemma leSets_refl: "leSets st st"
  by (simp add: leSets_def)

lemma leSets_trans: "leSets st u \<Longrightarrow> leSets u v \<Longrightarrow> leSets st v"
  unfolding leSets_def by (metis subset_trans)

lemma leThrows_leSets:
  assumes "\<And>y. leThrows (st y) (u y)"
  shows "leSets st u"
  unfolding leSets_def
proof (intro allI conjI impI)
  fix y
  have "subseq (th_throwsSet (st y)) (th_throwsSet (u y))" using assms [of y] by (simp add: leThrows_def)
  then show "set (th_throwsSet (st y)) \<subseteq> set (th_throwsSet (u y))" by (auto elim!: list_emb_set [of "(=)"])
  show "th_throwsOpaquely (u y)" if "th_throwsOpaquely (st y)"
    using assms [of y] that unfolding leThrows_def by blast
  show "contractPart (st y) = contractPart (u y)" using assms [of y] unfolding leThrows_def by blast
qed

lemma runAll_above: "leSets st (fst (runAll h tas st))"
proof -
  have "grows s ((\<lambda>(st, changed). case runOnce h ta st of (st', c) \<Rightarrow> (st', changed \<or> c)) s)" for ta s
    using runAll_step_grows [of s h ta] by (simp add: case_prod_beta)
  from passes.fold_le [of tas _ "(st, False)", OF this] have "grows (st, False) (runAll h tas st)" by (simp add: runAll_def)
  from grows_le [OF this] show ?thesis by (intro leThrows_leSets) simp
qed

lemma throwsLoop_above:
  assumes "throwsLoop h tas st = Some r"
  shows "leSets st r"
proof (rule throwsLoop.raw_induct [where P = "\<lambda>h tas st r. leSets st r", OF _ assms], goal_cases)
  case (1 loop h tas st r)
  obtain st' c where a: "runAll h tas st = (st', c)" by fastforce
  with runAll_above [of st h tas] have "leSets st st'" by simp
  with 1(1) [of h tas st' r] 1(2) a show ?case by (cases c) (auto intro: leSets_trans)
qed

section \<open>A program\<close>

text \<open>
  \<open>function f() throws { throw e; }\<close> and \<open>function g() throws { try f(); }\<close>, where \<open>e\<close> is of the class 0.
\<close>

definition throwsTree :: SyntaxNode where
  "throwsTree = makeRoot (GreenNode SourceFile
     [GreenNode FuncDecl [GreenToken Identifier (u16 ''f''),
        GreenNode Block [GreenNode ThrowStmt [GreenToken KwThrow (u16 ''throw''), GreenNode IdentExpr [GreenToken Identifier (u16 ''e'')]]]],
      GreenNode FuncDecl [GreenToken Identifier (u16 ''g''),
        GreenNode Block [GreenNode ExprStmt [GreenNode TryExpr [GreenToken KwTry (u16 ''try''),
          GreenNode CallExpr [GreenNode IdentExpr [GreenToken Identifier (u16 ''f'')]]]]]]])"

definition nodeAt :: "nat list \<Rightarrow> SyntaxNode" where
  "nodeAt path = fold (\<lambda>i n. children n ! i) path throwsTree"

definition throwsHeap :: Heap where
  "throwsHeap = \<lparr>h_types = [(newType TyClass None)\<lparr>t_structInfo := Some 0\<rparr>], h_structs = [newStructInfo],
     h_symbols = replicate 2 \<lparr>sy_name = [], sy_paramTypes = [], sy_returnType = None, sy_methodOwner = None, sy_abiThrows = True\<rparr>\<rparr>"

definition throwsModule :: ThrowsAnalyzer where
  "throwsModule = \<lparr>ta_sf = throwsTree,
     ta_analysis = ar_setSymbol (nodeAt [0]) (Some 0) (ar_setSymbol (nodeAt [1]) (Some 1)
       (ar_setSymbol (nodeAt [1, 1, 0, 0, 1, 0]) (Some 0) (ar_setType (nodeAt [0, 1, 0, 1]) (Some 0) emptyAnalysis))),
     ta_errorClass = Some 0\<rparr>"

definition throwsStart :: ThrowsState where
  "throwsStart = (\<lambda>y. noThrows\<lparr>th_declaredThrows := True\<rparr>)"

definition throwsEnd :: ThrowsState where
  "throwsEnd = the (throwsLoop throwsHeap [throwsModule] throwsStart)"

lemma throwsEnd: "throwsLoop throwsHeap [throwsModule] throwsStart = Some throwsEnd"
  using throwsLoop_returns [of throwsHeap "[throwsModule]" throwsStart] by (auto simp: throwsEnd_def)

section \<open>Properties of the loop\<close>

text \<open>C7: the loop over all modules ends, whatever the modules, the symbols and the start state: a pass either
  changes nothing or adds one of finitely many types to the set of one of finitely many symbols.\<close>

theorem throws_analysis_terminates: "\<exists>st'. throwsLoop h tas st = Some st' \<and> runAll h tas st' = (st', False)"
  using throwsLoop_returns [of h tas st] throwsLoop_result runAll_quiet(1) by blast

text \<open>C34: the order in which the modules are analysed, and analysing one of them twice, make no difference to which
  exceptions each function is found to throw.\<close>

theorem throws_order_irrelevant:
  assumes "set tas = set tas'" and "throwsLoop h tas st0 = Some st" and "throwsLoop h tas' st0 = Some st'"
  shows "set (th_throwsSet (st y)) = set (th_throwsSet (st' y)) \<and> th_throwsOpaquely (st y) = th_throwsOpaquely (st' y)"
proof -
  have "leSets st st'"
    using throwsLoop_closedFor [OF assms(3)] throwsLoop_above [OF assms(3)] assms(1)
    by (intro throwsLoop_least [OF assms(2)]) simp_all
  moreover have "leSets st' st"
    using throwsLoop_closedFor [OF assms(2)] throwsLoop_above [OF assms(2)] assms(1)
    by (intro throwsLoop_least [OF assms(3)]) simp_all
  ultimately show ?thesis unfolding leSets_def by blast
qed

theorem throws_order_irrelevant_witness:
  "\<exists>st st'. throwsLoop throwsHeap [throwsModule, throwsModule\<lparr>ta_analysis := emptyAnalysis\<rparr>] throwsStart = Some st \<and>
     throwsLoop throwsHeap [throwsModule\<lparr>ta_analysis := emptyAnalysis\<rparr>, throwsModule, throwsModule] throwsStart = Some st' \<and>
     (\<forall>y. set (th_throwsSet (st y)) = set (th_throwsSet (st' y)) \<and> th_throwsOpaquely (st y) = th_throwsOpaquely (st' y))"
proof -
  let ?m = throwsModule and ?e = "throwsModule\<lparr>ta_analysis := emptyAnalysis\<rparr>"
  obtain st st' where l: "throwsLoop throwsHeap [?m, ?e] throwsStart = Some st" "throwsLoop throwsHeap [?e, ?m, ?m] throwsStart = Some st'"
    using throwsLoop_returns by meson
  have "set [?m, ?e] = set [?e, ?m, ?m]" by auto
  from throws_order_irrelevant [OF this l] l show ?thesis by blast
qed

end
