(* ===== verification/ThrowsSoundness.thy ===== *)
theory ThrowsSoundness
  imports ThrowsFixpoint
begin

text \<open>
  The checked-exception analysis is sound. \<open>escapes\<close> says which exceptions can leave a function when the program runs;
  when the analysis has reached its fixpoint and no module has a diagnostic, every such exception is declared, and
  every call that can raise one is the operand of a \<open>try\<close>. Exceptions raised through values of function type
  (opaque calls) are outside \<open>escapes\<close>, as they are outside the analysis.
\<close>

section \<open>Validation only reports\<close>

interpretation reports: growing_ops "prefix :: DiagnosticSink \<Rightarrow> DiagnosticSink \<Rightarrow> bool"
  by unfold_locales (auto intro: prefix_order.order_trans prefix_order.antisym)

lemma whenSome_simps [simp]: "whenSome f None s = s" "whenSome f (Some x) s = f x s"
  by (simp_all add: whenSome_def)

lemma whenSome_report [report_intros]: "(\<And>x. v = Some x \<Longrightarrow> prefix sink (f x sink)) \<Longrightarrow> prefix sink (whenSome f v sink)"
  by (cases v) (simp_all add: whenSome_def)

lemma whenResolved_report [report_intros]:
  "(\<And>y. symbolAt a n = Some y \<Longrightarrow> prefix sink (f y n sink)) \<Longrightarrow> prefix sink (whenResolved a f n sink)"
  by (cases "symbolAt a n") (simp_all add: whenResolved_def)

lemma callReport_report [report_intros]: "prefix sink (callReport h a st source tried call sink)"
  by (simp add: callReport_def Let_def errorAt_report)

lemma validateTryUsage_report [report_intros]: "prefix sink (validateTryUsage h a st source n tried sink)"
proof (induction h a st source n tried sink rule: validateTryUsage.induct)
  case (1 h a st source n tried sink)
  show ?case
  proof (cases "node_kind n = TryExpr")
    case True
    with 1(1) show ?thesis
      by (subst validateTryUsage.simps) (auto intro!: fold_report)
  next
    case False
    have "prefix s (fold (\<lambda>c sink. validateTryUsage h a st source c False sink) (children n) s)" for s
      using 1(2) [OF False] by (intro fold_report)
    with False show ?thesis
      by (subst validateTryUsage.simps) (auto intro: prefix_order.order_trans callReport_report)
  qed
qed

lemma validateNoThrowingCalls_report [report_intros]: "prefix sink (validateNoThrowingCalls h a st source ctxt n sink)"
proof (induction h a st source ctxt n sink rule: validateNoThrowingCalls.induct)
  case (1 h a st source ctxt n sink)
  have "prefix s (fold (\<lambda>c sink. validateNoThrowingCalls h a st source ctxt c sink) (children n) s)" for s
    using 1 by (intro fold_report) blast
  then show ?case
    by (subst validateNoThrowingCalls.simps) (auto simp: Let_def intro: prefix_order.order_trans errorAt_report)
qed

lemma validate_parts_report [report_intros]:
  "prefix sink (validateOutward h st source y fn c r sink)"
  "prefix sink (validateOverride h st source y fn c r sink)"
  "prefix sink (validateClause h st source y body types i cc sink)"
  "prefix sink (validateInterfaceMethod h st source cd s ifaceT im sink)"
  by (auto simp: validateOutward_def validateOverride_def validateClause_def validateInterfaceMethod_def Let_def
      errorAt_report split: option.split)

lemma validateClauses_report [report_intros]: "prefix sink (validateClauses h a st source y body clauses sink)"
proof -
  have "prefix s (fold (\<lambda>(i, cc). validateClause h st source y bd types i cc) xs s)" for s xs types bd
    by (rule fold_report) (auto intro: report_intros)
  from prefix_order.order_trans [OF errorAt_report this] this show ?thesis by (simp add: validateClauses_def Let_def)
qed

lemma validateDefault_report [report_intros]: "prefix sink (validateDefault h a st source ctxt dv sink)"
  by (auto simp: validateDefault_def intro!: report_intros)

lemma quiet_between: "prefix s (t :: DiagnosticSink) \<Longrightarrow> prefix t u \<Longrightarrow> u = s \<Longrightarrow> t = s"
  by (rule reports.between)

text \<open>The steps of \<open>validateFunction\<close>, in order.\<close>

definition functionSteps ::
    "('x) Heap_scheme \<Rightarrow> AnalysisResult \<Rightarrow> ThrowsState \<Rightarrow> SourceFile \<Rightarrow> symid \<Rightarrow> FuncDecl \<Rightarrow> bool \<Rightarrow> sid option \<Rightarrow>
     (DiagnosticSink \<Rightarrow> DiagnosticSink) list" where
  "functionSteps h a st source y fn c r =
     (let tryUsage = (\<lambda>b. validateTryUsage h a st source b False) in
      whenSome tryUsage (FuncDecl_body fn) #
      map (\<lambda>cc. whenSome tryUsage (CatchClause_body cc)) (FuncDecl_catchClauses fn) @
      map (\<lambda>p. validateDefault h a st source ''A default value'' (Parameter_defaultValue p)) (FuncDecl_parameters fn) @
      [validateOutward h st source y fn c r, validateOverride h st source y fn c r,
       validateClauses h a st source y (bodySetOf h a st fn) (FuncDecl_catchClauses fn)])"

lemma validateFunction_steps: "validateFunction h a st source y fn c r sink = fold id (functionSteps h a st source y fn c r) sink"
  by (simp add: validateFunction_def functionSteps_def Let_def fold_id_map)

lemma functionSteps_report: "f \<in> set (functionSteps h a st source y fn c r) \<Longrightarrow> prefix s (id f s)"
  by (auto simp: functionSteps_def Let_def intro!: report_intros)

lemma validateFunction_report [report_intros]: "prefix sink (validateFunction h a st source y fn c r sink)"
  unfolding validateFunction_steps by (rule fold_report) (rule functionSteps_report)

lemma validateFunction_quiet:
  assumes "validateFunction h a st source y fn c r sink = sink" and "f \<in> set (functionSteps h a st source y fn c r)"
  shows "f sink = sink"
  using reports.fold_fixed [of "functionSteps h a st source y fn c r" id sink f, OF functionSteps_report] assms
  by (simp add: validateFunction_steps)

definition validateSteps :: "('x) Heap_scheme \<Rightarrow> ThrowsAnalyzer \<Rightarrow> ThrowsState \<Rightarrow> SourceFile \<Rightarrow> (DiagnosticSink \<Rightarrow> DiagnosticSink) list" where
  "validateSteps h ta st source =
     (let a = ta_analysis ta; sf = ta_sf ta;
          fieldDefault = (\<lambda>f. validateDefault h a st source ''A field default'' (FieldDecl_defaultValue f)) in
      map (whenResolved a (\<lambda>y fn. validateFunction h a st source y fn False None)) (SourceFileView_functions sf) @
      map (whenResolved a (\<lambda>y td. whenSome (\<lambda>b. validateTryUsage h a st source b False) (TestDecl_body td))) (SourceFileView_tests sf) @
      map (whenResolved a (validateMethod h a st source)) (structMethods sf @ classMethods sf) @
      map (validateInterfaces h a st source) (SourceFileView_classes sf) @
      map fieldDefault (concat (map StructDecl_fields (SourceFileView_structs sf)) @ concat (map ClassDecl_fields (SourceFileView_classes sf))))"

lemma validate_steps: "validate h ta st source sink = fold id (validateSteps h ta st source) sink"
  by (simp add: validate_def validateSteps_def Let_def fold_id_map)

lemma validateInterfaces_report [report_intros]: "prefix sink (validateInterfaces h a st source cd sink)"
  by (auto simp: validateInterfaces_def intro!: report_intros)

lemma validateSteps_report: "f \<in> set (validateSteps h ta st source) \<Longrightarrow> prefix s (id f s)"
  by (auto simp: validateSteps_def Let_def validateMethod_def intro!: report_intros)

text \<open>The module adds no diagnostic.\<close>

definition quiet :: "('x) Heap_scheme \<Rightarrow> ThrowsState \<Rightarrow> ThrowsAnalyzer \<Rightarrow> bool" where
  "quiet h st ta \<longleftrightarrow> (\<exists>source. validate h ta st source [] = [])"

lemma quiet_step:
  assumes "quiet h st ta"
  obtains source where "\<And>f. f \<in> set (validateSteps h ta st source) \<Longrightarrow> f [] = []"
proof -
  from assms obtain source where q: "fold id (validateSteps h ta st source) [] = []" by (auto simp: quiet_def validate_steps)
  have "f [] = []" if "f \<in> set (validateSteps h ta st source)" for f
    using reports.fold_fixed [OF validateSteps_report q that] by simp
  then show thesis by (rule that)
qed

section \<open>Which exceptions a program can raise\<close>

text \<open>
  A call runs the method it names, a method that overrides it, the implementation of an interface method, or the
  template's method when it names a method of an instance.
\<close>

definition dispatch :: "('x) Heap_scheme \<Rightarrow> ThrowsState \<Rightarrow> ThrowsAnalyzer list \<Rightarrow> (symid \<times> symid) set" where
  "dispatch h st tas =
     {(base, y). \<exists>ta \<in> set tas. \<exists>m \<in> set (structMethods (ta_sf ta) @ classMethods (ta_sf ta)). \<exists>d.
        symbolAt (ta_analysis ta) m = Some y \<and>
        overridden h y (th_isConstructor (st y)) (receiverStruct h (ta_analysis ta) m) = Some (d, base)} \<union>
     {(isym, impl). \<exists>ta \<in> set tas. \<exists>cd \<in> set (SourceFileView_classes (ta_sf ta)). \<exists>s ifaceT iface im.
        structOfType h (ar_typeOf (ta_analysis ta) cd) = Some s \<and> ifaceT \<in> set (si_implementedInterfaces (si h s)) \<and>
        structOfType h ifaceT = Some iface \<and> im \<in> set (si_methods (si h iface)) \<and> implementation h s im = Some (isym, impl)} \<union>
     {(y, ts). y < length (h_symbols h) \<and> templateMethod h y = Some ts}"

text \<open>
  \<open>raisedIn a b D\<close>: running the block \<open>b\<close> can raise an exception of class \<open>D\<close>. \<open>escapes y D\<close>: it can leave
  the function \<open>y\<close>. The operand of a \<open>throw\<close> may be of any subclass of its static type; the first clause whose
  type is a superclass catches.
\<close>

inductive raisedIn :: "('x) Heap_scheme \<Rightarrow> ThrowsState \<Rightarrow> ThrowsAnalyzer list \<Rightarrow> AnalysisResult \<Rightarrow> SyntaxNode \<Rightarrow> sid \<Rightarrow> bool"
  and escapes :: "('x) Heap_scheme \<Rightarrow> ThrowsState \<Rightarrow> ThrowsAnalyzer list \<Rightarrow> symid \<Rightarrow> sid \<Rightarrow> bool"
  for h st tas where
  raise_throw: "raisedIn h st tas a b D"
    if "n \<in> set (bodyNodes b)" "node_kind n = ThrowStmt" "ThrowStatement_value n = Some v"
      "structOfType h (ar_typeOf a v) = Some m" "D < length (h_structs h)" "isSubclassOf h D (Some m)"
| raise_call: "raisedIn h st tas a b D"
    if "n \<in> set (bodyNodes b)" "node_kind n = CallExpr" "calleeSymbolOf a n = Some y"
      "(y, y') \<in> (dispatch h st tas)\<^sup>*" "escapes h st tas y' D"
| escape_uncaught: "escapes h st tas y D"
    if "ta \<in> set tas" "(y, fn) \<in> analysed ta" "FuncDecl_body fn = Some b" "raisedIn h st tas (ta_analysis ta) b D"
      "\<not> caughtByEarlier h (clauseTypesOf h (ta_analysis ta) (FuncDecl_catchClauses fn)) D (length (FuncDecl_catchClauses fn))"
| escape_rethrown: "escapes h st tas y D"
    if "ta \<in> set tas" "(y, fn) \<in> analysed ta" "FuncDecl_body fn = Some b" "raisedIn h st tas (ta_analysis ta) b D"
      "i < length (FuncDecl_catchClauses fn)"
      "clauseTypesOf h (ta_analysis ta) (FuncDecl_catchClauses fn) ! i = Some c" "isSubclassOf h D (Some c)"
      "\<not> caughtByEarlier h (clauseTypesOf h (ta_analysis ta) (FuncDecl_catchClauses fn)) D i"
      "CatchClause_body (FuncDecl_catchClauses fn ! i) = Some cb" "subtreeHasRethrow cb"
| escape_handler: "escapes h st tas y D"
    if "ta \<in> set tas" "(y, fn) \<in> analysed ta" "cc \<in> set (FuncDecl_catchClauses fn)" "CatchClause_body cc = Some cb"
      "raisedIn h st tas (ta_analysis ta) cb D"

text \<open>
  A method of an instance is a copy of the template's method and declared as it: marked \<open>throws\<close> when that is, with
  the same list, or with no list when it was copied before the list was resolved. Only a method marked \<open>throws\<close> has a
  list, and only one that is analysed has a computed set.
\<close>

definition copiesMade :: "('x) Heap_scheme \<Rightarrow> ThrowsState \<Rightarrow> ThrowsAnalyzer list \<Rightarrow> bool" where
  "copiesMade h st tas \<longleftrightarrow> (\<forall>y ts. y < length (h_symbols h) \<and> templateMethod h y = Some ts \<longrightarrow>
     th_declaredThrows (st y) = th_declaredThrows (st ts) \<and>
     th_declaredThrowsTypes (st y) \<in> {[], th_declaredThrowsTypes (st ts)} \<and>
     (th_declaredThrowsTypes (st ts) \<noteq> [] \<longrightarrow> th_declaredThrows (st ts)) \<and>
     (th_throwsSet (st ts) = [] \<or> (\<exists>ta \<in> set tas. \<exists>fn. (ts, fn) \<in> analysed ta)))"

text \<open>
  No instance copies a method that is marked \<open>throws\<close> without a list. Such methods are legal, but the analyzer loses
  their exceptions (\<open>generic_bare_throws_missed\<close> below), so soundness has to leave them out.
\<close>

definition copiesListed :: "('x) Heap_scheme \<Rightarrow> ThrowsState \<Rightarrow> bool" where
  "copiesListed h st \<longleftrightarrow> (\<forall>y ts. y < length (h_symbols h) \<and> templateMethod h y = Some ts \<and> th_declaredThrows (st ts) \<longrightarrow>
     th_declaredThrowsTypes (st ts) \<noteq> [])"

text \<open>The functions analysed are written in the source, not copied.\<close>

definition writtenOnly :: "('x) Heap_scheme \<Rightarrow> ThrowsAnalyzer list \<Rightarrow> bool" where
  "writtenOnly h tas \<longleftrightarrow> (\<forall>ta \<in> set tas. \<forall>(y, fn) \<in> analysed ta. templateMethod h y = None)"

section \<open>Subclasses\<close>

definition coveredBy :: "('x) Heap_scheme \<Rightarrow> sid \<Rightarrow> TypeSet \<Rightarrow> bool" where
  "coveredBy h D ts \<longleftrightarrow> D < length (h_structs h) \<and> (\<exists>m \<in> set ts. (D, m) \<in> (baseRel h)\<^sup>*)"

lemma single_valued_baseRel: "single_valued (baseRel h)"
  by (auto simp: single_valued_def baseRel_def)

lemma ancestors_linear:
  assumes "(D, m) \<in> (baseRel h)\<^sup>*" and "(D, c) \<in> (baseRel h)\<^sup>*"
  shows "(m, c) \<in> (baseRel h)\<^sup>* \<or> (c, m) \<in> (baseRel h)\<^sup>*"
  using single_valued_confluent [OF single_valued_baseRel assms(1,2)] .

lemma ancestor_valid: "basesOk h \<Longrightarrow> D < length (h_structs h) \<Longrightarrow> (D, m) \<in> (baseRel h)\<^sup>* \<Longrightarrow> m < length (h_structs h)"
  using ancestors_bounded [of h D] by blast

lemma caughtByEarlier_iff:
  assumes "basesOk h" and "m < length (h_structs h)"
  shows "caughtByEarlier h types m n \<longleftrightarrow> (\<exists>c. Some c \<in> set (take n types) \<and> (m, c) \<in> (baseRel h)\<^sup>*)"
  using subclass_ancestors [OF assms] by (fastforce simp: caughtByEarlier_def list_ex_iff)

lemma caught_below:
  assumes "basesOk h" and "D < length (h_structs h)" and "(D, m) \<in> (baseRel h)\<^sup>*" and "caughtByEarlier h types m n"
  shows "caughtByEarlier h types D n"
  using assms(3,4) caughtByEarlier_iff [OF assms(1) ancestor_valid [OF assms(1-3)]] caughtByEarlier_iff [OF assms(1,2)]
  by (meson rtrancl_trans)

lemma covers_iff:
  assumes "basesOk h" and "m < length (h_structs h)"
  shows "covers h ts (Some m) \<longleftrightarrow> coveredBy h m ts"
  using assms subclass_ancestors [OF assms] by (auto simp: covers_def list_ex_iff coveredBy_def)

lemma coveredBy_trans:
  assumes "basesOk h" and "coveredBy h D ts" and "\<And>m. m \<in> set ts \<Longrightarrow> covers h us (Some m)"
  shows "coveredBy h D us"
proof -
  from assms(2) obtain m where m: "m \<in> set ts" "(D, m) \<in> (baseRel h)\<^sup>*" "D < length (h_structs h)" by (auto simp: coveredBy_def)
  with covers_iff [OF assms(1) ancestor_valid [OF assms(1) m(3,2)]] assms(3) have "coveredBy h m us" by blast
  with m show ?thesis by (meson coveredBy_def rtrancl_trans)
qed

lemma strayOf_Nil: "strayOf h mine allowed = [] \<longleftrightarrow> (\<forall>m \<in> set mine. covers h allowed (Some m))"
proof -
  have "set (strayOf h mine allowed) = {m \<in> set mine. \<not> covers h allowed (Some m)}" by (simp add: strayOf_def)
  then show ?thesis by (metis (no_types, lifting) empty_Collect_eq set_empty2)
qed

section \<open>What a quiet module promises\<close>

lemma quiet_function:
  assumes "quiet h st ta" and "(y, fn) \<in> analysed ta"
  obtains source c r where "validateFunction h (ta_analysis ta) st source y fn c r [] = []"
proof -
  from quiet_step [OF assms(1)] obtain source where q: "\<And>f. f \<in> set (validateSteps h ta st source) \<Longrightarrow> f [] = []" by blast
  let ?a = "ta_analysis ta"
  from assms(2) have y: "symbolAt ?a fn = Some y"
    and "fn \<in> set (SourceFileView_functions (ta_sf ta)) \<or> fn \<in> set (structMethods (ta_sf ta) @ classMethods (ta_sf ta))"
    by (auto simp: analysed_def)
  then have "whenResolved ?a (\<lambda>y fn. validateFunction h ?a st source y fn False None) fn \<in> set (validateSteps h ta st source) \<or>
      whenResolved ?a (validateMethod h ?a st source) fn \<in> set (validateSteps h ta st source)"
    by (auto simp: validateSteps_def Let_def)
  with q have "whenResolved ?a (\<lambda>y fn. validateFunction h ?a st source y fn False None) fn [] = [] \<or>
      whenResolved ?a (validateMethod h ?a st source) fn [] = []" by blast
  with y that show thesis by (auto simp: whenResolved_def validateMethod_def)
qed

lemma quiet_method:
  assumes "quiet h st ta" and "m \<in> set (structMethods (ta_sf ta) @ classMethods (ta_sf ta))" and "symbolAt (ta_analysis ta) m = Some y"
  obtains source where "validateMethod h (ta_analysis ta) st source y m [] = []"
proof -
  from quiet_step [OF assms(1)] obtain source where q: "\<And>f. f \<in> set (validateSteps h ta st source) \<Longrightarrow> f [] = []" by blast
  have "whenResolved (ta_analysis ta) (validateMethod h (ta_analysis ta) st source) m \<in> set (validateSteps h ta st source)"
    using assms(2) by (auto simp: validateSteps_def Let_def)
  from q [OF this] assms(3) that show thesis by (simp add: whenResolved_def)
qed

lemma quiet_outward:
  assumes "quiet h st ta" and "(y, fn) \<in> analysed ta" and "th_throwsSet (st y) \<noteq> []"
  shows "th_declaredThrows (st y)" and "\<not> th_isDestructor (st y)"
    and "th_declaredThrowsTypes (st y) \<noteq> [] \<Longrightarrow> m \<in> set (th_throwsSet (st y)) \<Longrightarrow> covers h (th_declaredThrowsTypes (st y)) (Some m)"
proof -
  obtain source c r where v: "validateFunction h (ta_analysis ta) st source y fn c r [] = []"
    by (rule quiet_function [OF assms(1,2)])
  have "validateOutward h st source y fn c r [] = []"
    by (rule validateFunction_quiet [OF v]) (simp add: functionSteps_def Let_def)
  with assms(3) show "th_declaredThrows (st y)" and "\<not> th_isDestructor (st y)"
    and "th_declaredThrowsTypes (st y) \<noteq> [] \<Longrightarrow> m \<in> set (th_throwsSet (st y)) \<Longrightarrow> covers h (th_declaredThrowsTypes (st y)) (Some m)"
    by (auto simp: validateOutward_def Let_def strayOf_Nil split: if_splits)
qed

lemma quiet_override:
  assumes "quiet h st ta" and "m \<in> set (structMethods (ta_sf ta) @ classMethods (ta_sf ta))" and "symbolAt (ta_analysis ta) m = Some y"
    and "overridden h y (th_isConstructor (st y)) (receiverStruct h (ta_analysis ta) m) = Some (d, base)"
    and "x \<in> set (contractOf h st (Some y))"
  shows "covers h (contractOf h st (Some base)) (Some x)"
proof -
  obtain source where "validateMethod h (ta_analysis ta) st source y m [] = []" by (rule quiet_method [OF assms(1-3)])
  then have v: "validateFunction h (ta_analysis ta) st source y m (th_isConstructor (st y)) (receiverStruct h (ta_analysis ta) m) [] = []"
    by (simp add: validateMethod_def)
  have "validateOverride h st source y m (th_isConstructor (st y)) (receiverStruct h (ta_analysis ta) m) [] = []"
    by (rule validateFunction_quiet [OF v]) (simp add: functionSteps_def Let_def)
  with assms(4,5) show ?thesis by (auto simp: validateOverride_def Let_def strayOf_Nil split: if_splits)
qed

lemma quiet_interface:
  assumes "quiet h st ta" and "cd \<in> set (SourceFileView_classes (ta_sf ta))"
    and "structOfType h (ar_typeOf (ta_analysis ta) cd) = Some s" and "ifaceT \<in> set (si_implementedInterfaces (si h s))"
    and "structOfType h ifaceT = Some iface" and "im \<in> set (si_methods (si h iface))"
    and "implementation h s im = Some (isym, impl)" and "x \<in> set (contractOf h st (Some impl))"
  shows "covers h (contractOf h st (Some isym)) (Some x)"
proof -
  from quiet_step [OF assms(1)] obtain source where q: "\<And>f. f \<in> set (validateSteps h ta st source) \<Longrightarrow> f [] = []" by blast
  let ?M = "\<lambda>t. validateInterfaceMethod h st source cd s (the t)"
  let ?T = "\<lambda>t. whenSome (\<lambda>iface. fold (?M t) (si_methods (si h iface))) (structOfType h t)"
  have "validateInterfaces h (ta_analysis ta) st source cd \<in> set (validateSteps h ta st source)"
    using assms(2) by (auto simp: validateSteps_def Let_def)
  from q [OF this] assms(3) have "fold ?T (si_implementedInterfaces (si h s)) [] = []"
    by (simp add: validateInterfaces_def)
  from reports.fold_fixed [OF _ this assms(4)] have "?T ifaceT [] = []"
    by (auto intro!: report_intros)
  with assms(5) have "fold (?M ifaceT) (si_methods (si h iface)) [] = []" by simp
  from reports.fold_fixed [OF _ this assms(6)] have "?M ifaceT im [] = []" by (auto intro!: report_intros)
  with assms(7,8) show ?thesis by (auto simp: validateInterfaceMethod_def Let_def strayOf_Nil split: if_splits)
qed

section \<open>Soundness\<close>

text \<open>
  What the phases before the analysis leave: classes without cyclic bases, copies made as above, and functions to
  analyse that are written in the source. With it, no diagnostics and no copy that lost its list, a program is checked.
\<close>

definition wellMade :: "('x) Heap_scheme \<Rightarrow> ThrowsState \<Rightarrow> ThrowsAnalyzer list \<Rightarrow> bool" where
  "wellMade h st tas \<longleftrightarrow> basesOk h \<and> copiesMade h st tas \<and> writtenOnly h tas"

definition checkedProgram :: "('x) Heap_scheme \<Rightarrow> ThrowsState \<Rightarrow> ThrowsAnalyzer list \<Rightarrow> bool" where
  "checkedProgram h st tas \<longleftrightarrow>
     basesOk h \<and> (\<forall>ta \<in> set tas. quiet h st ta) \<and> copiesMade h st tas \<and> copiesListed h st \<and> writtenOnly h tas"

lemma checkedProgram_parts:
  "wellMade h st tas \<Longrightarrow> (\<And>ta. ta \<in> set tas \<Longrightarrow> quiet h st ta) \<Longrightarrow> copiesListed h st \<Longrightarrow> checkedProgram h st tas"
  by (simp add: wellMade_def checkedProgram_def)

lemma contractOf_written:
  assumes "templateMethod h y = None"
  shows "contractOf h st (Some y) = (if th_declaredThrowsTypes (st y) \<noteq> [] then th_declaredThrowsTypes (st y) else th_throwsSet (st y))"
  using assms by (simp add: contractOf_def templateContract_def)

lemma throwsSet_contract:
  assumes "checkedProgram h st tas" and "ta \<in> set tas" and "(y, fn) \<in> analysed ta" and "coveredBy h D (th_throwsSet (st y))"
  shows "coveredBy h D (contractOf h st (Some y))"
proof -
  have t: "templateMethod h y = None" using assms by (fastforce simp: checkedProgram_def writtenOnly_def)
  show ?thesis
  proof (cases "th_declaredThrowsTypes (st y) = []")
    case True
    then show ?thesis using assms(4) by (simp add: contractOf_written [OF t])
  next
    case False
    have q: "quiet h st ta" using assms by (simp add: checkedProgram_def)
    have ne: "th_throwsSet (st y) \<noteq> []" using assms(4) by (auto simp: coveredBy_def)
    have "coveredBy h D (th_declaredThrowsTypes (st y))"
      using assms(1) by (intro coveredBy_trans [OF _ assms(4)] quiet_outward(3) [OF q assms(3) ne False])
        (simp_all add: checkedProgram_def)
    with False show ?thesis by (simp add: contractOf_written [OF t])
  qed
qed

text \<open>What a method that a call can run lets out is covered by the contract of the method the call names.\<close>

lemma clone_contract:
  assumes p: "checkedProgram h st tas" and r: "y < length (h_symbols h)" "templateMethod h y = Some ts" and c: "coveredBy h D (contractOf h st (Some ts))"
  shows "coveredBy h D (contractOf h st (Some y))"
proof -
  from p r have k: "th_declaredThrows (st y) = th_declaredThrows (st ts)"
    "th_declaredThrowsTypes (st y) \<in> {[], th_declaredThrowsTypes (st ts)}"
    "th_declaredThrows (st ts) = (th_declaredThrowsTypes (st ts) \<noteq> [])"
    "th_throwsSet (st ts) = [] \<or> (\<exists>ta \<in> set tas. \<exists>fn. (ts, fn) \<in> analysed ta)"
    by (auto simp: checkedProgram_def copiesMade_def copiesListed_def)
  show ?thesis
  proof (cases "th_declaredThrows (st ts)")
    case True
    with k r have "contractOf h st (Some y) = contractOf h st (Some ts)"
      by (auto simp: contractOf_def templateContract_def)
    with c show ?thesis by simp
  next
    case False
    with k(4) p have "th_throwsSet (st ts) = []" using quiet_outward(1) by (fastforce simp: checkedProgram_def)
    with False k(3) have "contractOf h st (Some ts) = []" by (simp add: contractOf_def)
    with c show ?thesis by (simp add: coveredBy_def)
  qed
qed

lemma dispatch_cases:
  assumes "(y, y') \<in> dispatch h st tas"
  obtains (override) ta m d where "ta \<in> set tas" "m \<in> set (structMethods (ta_sf ta) @ classMethods (ta_sf ta))"
      "symbolAt (ta_analysis ta) m = Some y'"
      "overridden h y' (th_isConstructor (st y')) (receiverStruct h (ta_analysis ta) m) = Some (d, y)"
  | (interface) ta cd s ifaceT iface im where "ta \<in> set tas" "cd \<in> set (SourceFileView_classes (ta_sf ta))"
      "structOfType h (ar_typeOf (ta_analysis ta) cd) = Some s" "ifaceT \<in> set (si_implementedInterfaces (si h s))"
      "structOfType h ifaceT = Some iface" "im \<in> set (si_methods (si h iface))" "implementation h s im = Some (y, y')"
  | (clone) "y < length (h_symbols h)" "templateMethod h y = Some y'"
  using assms unfolding dispatch_def by blast

lemma dispatch_contract:
  assumes p: "checkedProgram h st tas" and r: "(y, y') \<in> dispatch h st tas" and c: "coveredBy h D (contractOf h st (Some y'))"
  shows "coveredBy h D (contractOf h st (Some y))"
proof -
  have b: "basesOk h" and q: "\<And>ta. ta \<in> set tas \<Longrightarrow> quiet h st ta" using p by (simp_all add: checkedProgram_def)
  from r show ?thesis
  proof (cases rule: dispatch_cases)
    case override
    show ?thesis by (rule coveredBy_trans [OF b c quiet_override [OF q [OF override(1)] override(2-4)]])
  next
    case interface
    show ?thesis by (rule coveredBy_trans [OF b c quiet_interface [OF q [OF interface(1)] interface(2-7)]])
  qed (rule clone_contract [OF p _ _ c])
qed

lemma dispatched_contract:
  assumes p: "checkedProgram h st tas" and r: "(y, y') \<in> (dispatch h st tas)\<^sup>*" and c: "coveredBy h D (contractOf h st (Some y'))"
  shows "coveredBy h D (contractOf h st (Some y))"
  using r c by (induction rule: converse_rtrancl_induct) (auto intro: dispatch_contract [OF p])

text \<open>What a block raises is covered by what the analysis collects for it, what leaves a function by its set.\<close>

definition soundFor :: "('x) Heap_scheme \<Rightarrow> sid set \<Rightarrow> sid \<Rightarrow> bool" where
  "soundFor h S D \<longleftrightarrow> D < length (h_structs h) \<and> (\<exists>m \<in> S. (D, m) \<in> (baseRel h)\<^sup>*)"

lemma soundFor_set: "soundFor h (set ts) D \<longleftrightarrow> coveredBy h D ts"
  by (simp add: soundFor_def coveredBy_def)

lemma soundFor_mono: "soundFor h S D \<Longrightarrow> S \<subseteq> T \<Longrightarrow> soundFor h T D"
  by (auto simp: soundFor_def)

lemma thrown_node: "n \<in> set (bodyNodes b) \<Longrightarrow> set (nodeThrows h a st n []) \<subseteq> thrownIn h a st b"
  by (auto simp: thrownIn_def)

text \<open>The three ways an exception leaves a function.\<close>

lemma outward_uncaught:
  assumes b: "basesOk h" and body: "FuncDecl_body fn = Some b" and s: "soundFor h (thrownIn h a st b) D"
    and u: "\<not> caughtByEarlier h (clauseTypesOf h a (FuncDecl_catchClauses fn)) D (length (FuncDecl_catchClauses fn))"
  shows "soundFor h (set (computeOutward h a st fn)) D"
proof -
  from s obtain m where m: "m \<in> thrownIn h a st b" "(D, m) \<in> (baseRel h)\<^sup>*" and D: "D < length (h_structs h)"
    by (auto simp: soundFor_def)
  from u caught_below [OF b D m(2)] have "\<not> caughtByEarlier h (clauseTypesOf h a (FuncDecl_catchClauses fn)) m (length (FuncDecl_catchClauses fn))"
    by blast
  with m(1) body have "m \<in> set (computeOutward h a st fn)" by (simp add: computeOutward_set bodySetOf_set)
  with m(2) D show ?thesis by (auto simp: soundFor_def)
qed

lemma outward_handler:
  assumes "cc \<in> set (FuncDecl_catchClauses fn)" and "CatchClause_body cc = Some cb"
  shows "thrownIn h a st cb \<subseteq> set (computeOutward h a st fn)"
proof -
  from assms(1) obtain i where i: "i < length (FuncDecl_catchClauses fn)" "cc = FuncDecl_catchClauses fn ! i" by (metis in_set_conv_nth)
  have "thrownIn h a st cb \<subseteq> set (clauseOutward h a st body types i cc [])" for body types
    using assms(2) by (simp add: clauseOutward_def Let_def set_collectBlockThrows)
  with i show ?thesis by (fastforce simp: computeOutward_set)
qed

lemma outward_rethrown:
  fixes fn a and h :: "('x) Heap_scheme"
  defines "types \<equiv> clauseTypesOf h a (FuncDecl_catchClauses fn)"
  assumes b: "basesOk h" and body: "FuncDecl_body fn = Some b" and s: "soundFor h (thrownIn h a st b) D"
    and i: "i < length (FuncDecl_catchClauses fn)" "types ! i = Some c" "isSubclassOf h D (Some c)" "\<not> caughtByEarlier h types D i"
    and cb: "CatchClause_body (FuncDecl_catchClauses fn ! i) = Some cb" "subtreeHasRethrow cb"
  shows "soundFor h (set (computeOutward h a st fn)) D"
proof -
  from s obtain m where m: "m \<in> thrownIn h a st b" "(D, m) \<in> (baseRel h)\<^sup>*" and D: "D < length (h_structs h)"
    by (auto simp: soundFor_def)
  have c: "(D, c) \<in> (baseRel h)\<^sup>*" using subclass_ancestors [OF b D] i(3) by simp
  have mv: "m < length (h_structs h)" and cv: "c < length (h_structs h)"
    using ancestor_valid [OF b D m(2)] ancestor_valid [OF b D c] by simp_all
  have live: "\<not> caughtByEarlier h types m i" using caught_below [OF b D m(2)] i(4) by blast
  have mb: "m \<in> set (bodySetOf h a st fn)" using m(1) body by (simp add: bodySetOf_set)
  let ?out = "set (clauseOutward h a st (bodySetOf h a st fn) types i (FuncDecl_catchClauses fn ! i) [])"
  have sub: "?out \<subseteq> set (computeOutward h a st fn)" using i(1) by (auto simp: computeOutward_set types_def)
  have "m \<in> ?out \<or> c \<in> ?out"
  proof (cases "(m, c) \<in> (baseRel h)\<^sup>*")
    case True
    then have "isSubclassOf h m (Some c)" using subclass_ancestors [OF b mv] by simp
    with mb live i(2) cb have "m \<in> ?out" by (auto simp: clauseOutward_def Let_def set_collectBlockThrows)
    then show ?thesis ..
  next
    case False
    with ancestors_linear [OF m(2) c] have "isSubclassOf h c (Some m)" using subclass_ancestors [OF b cv] by simp
    moreover have "\<not> isSubclassOf h m (Some c)" using False subclass_ancestors [OF b mv] by simp
    ultimately have "list_ex (\<lambda>m. \<not> isSubclassOf h m (Some c) \<and> isSubclassOf h c (Some m))
        (filter (\<lambda>m. \<not> caughtByEarlier h types m i) (bodySetOf h a st fn))"
      using mb live by (auto simp: list_ex_iff)
    with i(2) cb have "c \<in> ?out" by (simp add: clauseOutward_def Let_def set_collectBlockThrows)
    then show ?thesis ..
  qed
  with sub m(2) c D show ?thesis by (auto simp: soundFor_def)
qed

lemma analysis_sound:
  assumes p: "checkedProgram h st tas" and l: "throwsLoop h tas st0 = Some st"
  shows "raisedIn h st tas a b D \<Longrightarrow> soundFor h (thrownIn h a st b) D"
    and "escapes h st tas y D \<Longrightarrow> coveredBy h D (th_throwsSet (st y)) \<and> (\<exists>ta \<in> set tas. \<exists>fn. (y, fn) \<in> analysed ta)"
proof (induction rule: raisedIn_escapes.inducts)
  case (raise_throw n b v a m D)
  have "soundFor h (set (nodeThrows h a st n [])) D"
    using p subclass_ancestors [of h D m] raise_throw by (auto simp: checkedProgram_def nodeThrows_def soundFor_def)
  then show ?case by (rule soundFor_mono) (rule thrown_node, fact)
next
  case (raise_call n b a y y' D)
  from raise_call.IH obtain ta fn where t: "ta \<in> set tas" "(y', fn) \<in> analysed ta" and c: "coveredBy h D (th_throwsSet (st y'))" by blast
  have d: "(y, y') \<in> (dispatch h st tas)\<^sup>*" by fact
  from dispatched_contract [OF p d throwsSet_contract [OF p t c]] have "coveredBy h D (contractOf h st (Some y))" .
  with raise_call.hyps have "soundFor h (set (nodeThrows h a st n [])) D"
    by (simp add: nodeThrows_def soundFor_set [symmetric])
  then show ?case by (rule soundFor_mono) (rule thrown_node, fact)
next
  case (escape_uncaught ta y fn b D)
  have t: "ta \<in> set tas" "(y, fn) \<in> analysed ta" by fact+
  have "soundFor h (set (computeOutward h (ta_analysis ta) st fn)) D"
    by (rule outward_uncaught) (use p escape_uncaught in \<open>simp_all add: checkedProgram_def\<close>)
  from soundFor_mono [OF this throwsLoop_closed [OF l t]] t show ?case by (auto simp: soundFor_set)
next
  case (escape_rethrown ta y fn b D i c cb)
  have t: "ta \<in> set tas" "(y, fn) \<in> analysed ta" by fact+
  have "soundFor h (set (computeOutward h (ta_analysis ta) st fn)) D"
    by (rule outward_rethrown [where i = i and c = c and cb = cb]) (use p escape_rethrown in \<open>simp_all add: checkedProgram_def\<close>)
  from soundFor_mono [OF this throwsLoop_closed [OF l t]] t show ?case by (auto simp: soundFor_set)
next
  case (escape_handler ta y fn cc cb D)
  have t: "ta \<in> set tas" "(y, fn) \<in> analysed ta" by fact+
  have "soundFor h (thrownIn h (ta_analysis ta) st cb) D" and "cc \<in> set (FuncDecl_catchClauses fn)"
    and "CatchClause_body cc = Some cb" by fact+
  from soundFor_mono [OF soundFor_mono [OF this(1) outward_handler [OF this(2,3)]] throwsLoop_closed [OF l t]] t
  show ?case by (auto simp: soundFor_set)
qed

section \<open>Calls that can throw are tried\<close>

definition triesOk :: "SyntaxNode \<Rightarrow> bool" where
  "triesOk b \<longleftrightarrow> (\<forall>p \<in> set (bodyNodes b). node_kind p = TryExpr \<longrightarrow> (\<forall>c \<in> set (children p). Expression_cast c \<noteq> None \<or> children c = []))"

lemma bodyNodes_root: "node_kind b \<noteq> LambdaExpr \<Longrightarrow> b \<in> set (bodyNodes b)"
  by (simp add: bodyNodes.simps [of b])

lemma bodyNodes_cases:
  "n \<in> set (bodyNodes b) \<Longrightarrow> n = b \<or> (\<exists>c \<in> set (children b). n \<in> set (bodyNodes c))"
  by (auto simp: bodyNodes.simps [of b] split: if_splits)

lemma triesOk_child:
  assumes "triesOk b" and "n \<in> set (bodyNodes b)" and "c \<in> set (children b)"
  shows "triesOk c"
  using assms by (auto simp: triesOk_def bodyNodes.simps [of b] split: if_splits)

lemma tryUsage_quiet:
  "validateTryUsage h a st source b tried sink = sink \<Longrightarrow> triesOk b \<Longrightarrow> n \<in> set (bodyNodes b) \<Longrightarrow> node_kind n = CallExpr \<Longrightarrow>
   contractOf h st (calleeSymbolOf a n) \<noteq> [] \<Longrightarrow>
   (n = b \<and> tried) \<or> (\<exists>p. node_kind p = TryExpr \<and> n \<in> set (children p))"
proof (induction h a st source b tried sink rule: validateTryUsage.induct)
  case (1 h a st source b tried sink)
  note q = 1(3) and ok = 1(4) and n = 1(5) and call = 1(6) and contract = 1(7)
  show ?case
  proof (cases "node_kind b = TryExpr")
    case True
    let ?f = "\<lambda>c sink. if Expression_cast c \<noteq> None then validateTryUsage h a st source c True sink else sink"
    from n True call obtain c where c: "c \<in> set (children b)" "n \<in> set (bodyNodes c)"
      using bodyNodes_cases [OF n] by auto
    have "Expression_cast c \<noteq> None"
    proof (rule ccontr)
      assume no: "\<not> Expression_cast c \<noteq> None"
      have "b \<in> set (bodyNodes b)" using True by (intro bodyNodes_root) simp
      with ok True c(1) no have "children c = []" by (auto simp: triesOk_def)
      with c(2) have "n = c" using bodyNodes_cases [OF c(2)] by simp
      with call no show False by (simp add: Expression_cast_def isExpressionKind_def)
    qed
    moreover from q True have g: "fold ?f (children b) sink = sink" by (simp add: validateTryUsage.simps [of h a st source b])
    have f: "prefix s (?f c s)" for c s by (simp add: validateTryUsage_report)
    from reports.fold_fixed [OF f g c(1)] have "?f c sink = sink" .
    ultimately have v: "validateTryUsage h a st source c True sink = sink" and e: "Expression_cast c \<noteq> None" by (simp, blast)
    from 1(1) [OF True c(1) e v triesOk_child [OF ok n c(1)] c(2) call contract] True c(1) show ?thesis by blast
  next
    case False
    let ?s = "if node_kind b = CallExpr then callReport h a st source tried b sink else sink"
    let ?f = "\<lambda>c sink. validateTryUsage h a st source c False sink"
    have f: "prefix s (?f c s)" for c s by (rule validateTryUsage_report)
    from q False have g: "fold ?f (children b) ?s = sink" by (simp add: validateTryUsage.simps [of h a st source b])
    have "prefix sink ?s" by (simp add: callReport_report)
    moreover have "prefix ?s (fold ?f (children b) ?s)" by (rule fold_report) (rule f)
    ultimately have s: "?s = sink" using g quiet_between by blast
    from bodyNodes_cases [OF n] show ?thesis
    proof
      assume "n = b"
      with s call contract show ?thesis by (auto simp: callReport_def Let_def split: if_splits)
    next
      assume "\<exists>c \<in> set (children b). n \<in> set (bodyNodes c)"
      then obtain c where c: "c \<in> set (children b)" "n \<in> set (bodyNodes c)" by blast
      from g s have "fold ?f (children b) sink = sink" by simp
      from reports.fold_fixed [OF _ this c(1)] f have "validateTryUsage h a st source c False sink = sink" by blast
      from 1(2) [OF False c(1) _ triesOk_child [OF ok n c(1)] c(2) call contract] s this show ?thesis by auto
    qed
  qed
qed

lemma quiet_block:
  assumes "quiet h st ta" and "(y, fn) \<in> analysed ta" and "b \<in> blocksOf fn"
  obtains source where "validateTryUsage h (ta_analysis ta) st source b False [] = []"
proof -
  obtain source c r where v: "validateFunction h (ta_analysis ta) st source y fn c r [] = []"
    by (rule quiet_function [OF assms(1,2)])
  let ?t = "\<lambda>b. validateTryUsage h (ta_analysis ta) st source b False"
  have "whenSome ?t (Some b) \<in> set (functionSteps h (ta_analysis ta) st source y fn c r)"
  proof (cases "FuncDecl_body fn = Some b")
    case True
    then show ?thesis by (simp only: functionSteps_def Let_def list.set) simp
  next
    case False
    with assms(3) obtain cc where cc: "cc \<in> set (FuncDecl_catchClauses fn)" "CatchClause_body cc = Some b"
      by (auto simp: blocksOf_def)
    then have "whenSome ?t (Some b) \<in> (\<lambda>cc. whenSome ?t (CatchClause_body cc)) ` set (FuncDecl_catchClauses fn)"
      by (metis (no_types, lifting) image_eqI)
    then show ?thesis by (simp only: functionSteps_def Let_def list.set set_append set_map) blast
  qed
  from validateFunction_quiet [OF v this] that show thesis by simp
qed

section \<open>Methods of generic instances\<close>

definition sameAt :: "symid \<Rightarrow> ThrowsState \<times> bool \<Rightarrow> ThrowsState \<times> bool \<Rightarrow> bool" where
  "sameAt y s s' \<longleftrightarrow> fst s' y = fst s y"

interpretation untouched: preorder_ops "sameAt y" for y
  by unfold_locales (simp_all add: sameAt_def)

lemma sameAt_function: "z \<noteq> y \<Longrightarrow> sameAt y s (runOnceForFunction h a z fn s)"
proof -
  assume z: "z \<noteq> y"
  obtain st c where g: "growThrowsSet z (computeOutward h a (fst s) fn) s = (st, c)"
    and r: "runOnceForFunction h a z fn s = (st, c) \<or>
      (\<not> th_throwsOpaquely (st z) \<and> runOnceForFunction h a z fn s = (st(z := (st z)\<lparr>th_throwsOpaquely := True\<rparr>), True))"
    by (rule runOnceForFunction_split)
  from growThrowsSet_other [OF z [symmetric], of "computeOutward h a (fst s) fn" s] g have "st y = fst s y" by simp
  with r z show ?thesis by (auto simp: sameAt_def)
qed

lemma sameAt_test: "z \<noteq> y \<Longrightarrow> sameAt y s (runOnceForTest h a z td s)"
  by (simp add: sameAt_def runOnceForTest_def growThrowsSet_other)

lemma sameAt_whenResolved:
  "(\<And>z. symbolAt a n = Some z \<Longrightarrow> sameAt y s (f z n s)) \<Longrightarrow> sameAt y s (whenResolved a f n s)"
  by (cases "symbolAt a n") (simp_all add: whenResolved_def untouched.le_refl)

text \<open>The analysis leaves the symbols alone whose declarations it does not look at.\<close>

lemma sameAt_runOnce:
  assumes "ta \<in> set tas" and "y \<notin> analysedSymbols tas"
  shows "fst (runOnce h ta st) y = st y"
proof -
  have "sameAt y s (id f s)" if "f \<in> set (passSteps h ta)" for f s
  proof -
    have "z \<noteq> y" if "n \<in> set (functionsOf (ta_sf ta) @ SourceFileView_tests (ta_sf ta))" "symbolAt (ta_analysis ta) n = Some z" for n z
      using assms that by (auto simp: analysedSymbols_def)
    then show ?thesis using \<open>f \<in> set (passSteps h ta)\<close>
      by (auto simp: passSteps_def Let_def functionsOf_def intro!: sameAt_whenResolved sameAt_function sameAt_test)
  qed
  from untouched.fold_le [of "passSteps h ta" y id "(st, False)", OF this] show ?thesis
    by (simp add: runOnce_steps sameAt_def)
qed

lemma sameAt_runAll:
  assumes "y \<notin> analysedSymbols tas"
  shows "fst (runAll h tas st) y = st y"
proof -
  let ?f = "\<lambda>ta (st, changed). case runOnce h ta st of (st', c) \<Rightarrow> (st', changed \<or> c)"
  have "sameAt y s (?f ta s)" if "ta \<in> set tas" for ta s
    using sameAt_runOnce [OF that assms, of h "fst s"] by (auto simp: sameAt_def split: prod.split)
  from untouched.fold_le [of tas y ?f "(st, False)", OF this] show ?thesis by (simp add: runAll_def sameAt_def)
qed

lemma throwsLoop_untouched:
  assumes "throwsLoop h tas st = Some r" and "y \<notin> analysedSymbols tas"
  shows "r y = st y"
proof -
  have "y \<notin> analysedSymbols tas \<longrightarrow> r y = st y"
  proof (rule throwsLoop.raw_induct [where P = "\<lambda>h tas st r. y \<notin> analysedSymbols tas \<longrightarrow> r y = st y", OF _ assms(1)], goal_cases)
    case (1 loop h tas st r)
    obtain st' c where a: "runAll h tas st = (st', c)" by fastforce
    with sameAt_runAll [of y tas h st] have "y \<notin> analysedSymbols tas \<longrightarrow> st' y = st y" by auto
    with 1(1) [of h tas st' r] 1(2) a show ?case by (cases c) auto
  qed
  with assms show ?thesis by blast
qed

section \<open>The program of the example\<close>

lemma throwsHeap_method: "y < 2 \<Longrightarrow> templateMethod throwsHeap y = None"
  by (simp add: templateMethod_def throwsHeap_def sym_def)

lemma throwsModule_symbol: "symbolAt (ta_analysis throwsModule) n = Some y \<Longrightarrow> y < 2"
  by (auto simp: symbolAt_def ar_find_def throwsModule_def ar_setSymbol_def ar_setType_def ar_slot_def emptyAnalysis_def
      noInfo_def split: if_splits option.splits)

lemma throwsModule_parts:
  "wellMade throwsHeap throwsEnd [throwsModule]" "ta \<in> set [throwsModule] \<Longrightarrow> quiet throwsHeap throwsEnd ta"
  "copiesListed throwsHeap throwsEnd"
proof -
  have l: "length (h_symbols throwsHeap) = 2" by (simp add: throwsHeap_def)
  have "baseRel throwsHeap = {}" by (auto simp: baseRel_def throwsHeap_def si_def newStructInfo_def nth_Cons' split: if_splits)
  then have "basesOk throwsHeap" by (simp add: basesOk_def acyclic_def)
  moreover have "copiesMade throwsHeap throwsEnd [throwsModule]" using l by (auto simp: copiesMade_def throwsHeap_method)
  moreover have "writtenOnly throwsHeap [throwsModule]"
    by (auto simp: writtenOnly_def analysed_def intro!: throwsHeap_method dest: throwsModule_symbol)
  ultimately show "wellMade throwsHeap throwsEnd [throwsModule]" by (simp add: wellMade_def)
  show "copiesListed throwsHeap throwsEnd" using l by (auto simp: copiesListed_def throwsHeap_method)
  have "validate throwsHeap throwsModule throwsEnd (mkSourceFile [] []) [] = []" by code_simp
  then show "quiet throwsHeap throwsEnd ta" if "ta \<in> set [throwsModule]" using that by (auto simp: quiet_def)
qed

lemma throwsModule_analysed:
  "(0, nodeAt [0]) \<in> analysed throwsModule" "(1, nodeAt [1]) \<in> analysed throwsModule"
proof -
  have "nodeAt [0] \<in> set (SourceFileView_functions (ta_sf throwsModule))" "symbolAt (ta_analysis throwsModule) (nodeAt [0]) = Some 0"
    "nodeAt [1] \<in> set (SourceFileView_functions (ta_sf throwsModule))" "symbolAt (ta_analysis throwsModule) (nodeAt [1]) = Some 1"
    by code_simp+
  then show "(0, nodeAt [0]) \<in> analysed throwsModule" "(1, nodeAt [1]) \<in> analysed throwsModule"
    by (simp_all add: analysed_def)
qed

lemma throwsModule_escapes:
  "escapes throwsHeap throwsEnd [throwsModule] 0 0" "escapes throwsHeap throwsEnd [throwsModule] 1 0"
proof -
  let ?a = "ta_analysis throwsModule"
  have throw: "nodeAt [0, 1, 0] \<in> set (bodyNodes (nodeAt [0, 1]))" "node_kind (nodeAt [0, 1, 0]) = ThrowStmt"
    "ThrowStatement_value (nodeAt [0, 1, 0]) = Some (nodeAt [0, 1, 0, 1])"
    "structOfType throwsHeap (ar_typeOf ?a (nodeAt [0, 1, 0, 1])) = Some 0" "0 < length (h_structs throwsHeap)"
    "isSubclassOf throwsHeap 0 (Some 0)" by code_simp+
  have f: "FuncDecl_body (nodeAt [0]) = Some (nodeAt [0, 1])"
    "\<not> caughtByEarlier throwsHeap (clauseTypesOf throwsHeap ?a (FuncDecl_catchClauses (nodeAt [0]))) 0
       (length (FuncDecl_catchClauses (nodeAt [0])))" by code_simp+
  show e: "escapes throwsHeap throwsEnd [throwsModule] 0 0"
    by (rule escape_uncaught [OF _ throwsModule_analysed(1) f(1) raise_throw [OF throw] f(2)]) simp
  have call: "nodeAt [1, 1, 0, 0, 1] \<in> set (bodyNodes (nodeAt [1, 1]))" "node_kind (nodeAt [1, 1, 0, 0, 1]) = CallExpr"
    "calleeSymbolOf ?a (nodeAt [1, 1, 0, 0, 1]) = Some 0" by code_simp+
  have g: "FuncDecl_body (nodeAt [1]) = Some (nodeAt [1, 1])"
    "\<not> caughtByEarlier throwsHeap (clauseTypesOf throwsHeap ?a (FuncDecl_catchClauses (nodeAt [1]))) 0
       (length (FuncDecl_catchClauses (nodeAt [1])))" by code_simp+
  show "escapes throwsHeap throwsEnd [throwsModule] 1 0"
    by (rule escape_uncaught [OF _ throwsModule_analysed(2) g(1) raise_call [OF call rtrancl.rtrancl_refl e] g(2)]) simp
qed

section \<open>Properties of checked programs\<close>





section \<open>Methods of generic instances without a list\<close>

text \<open>\<open>class Box<T> { function get() throws { throw e; } }\<close>: symbol 0 is the method of the template, struct 1,
  and symbol 1 its copy in the instance, struct 2.\<close>

definition boxTree :: SyntaxNode where
  "boxTree = makeRoot (GreenNode SourceFile
     [GreenNode ClassDecl [GreenToken KwClass (u16 ''class''), GreenToken Identifier (u16 ''Box''),
        GreenNode MemberList [GreenNode FuncDecl [GreenToken Identifier (u16 ''get''),
          GreenNode Block [GreenNode ThrowStmt [GreenToken KwThrow (u16 ''throw''), GreenNode IdentExpr [GreenToken Identifier (u16 ''e'')]]]]]]])"

definition boxHeap :: Heap where
  "boxHeap = (let m = (\<lambda>y. \<lparr>mi_name = u16 ''get'', mi_symbol = Some y, mi_visibility = Public, mi_isConstructor = False,
       mi_isDestructor = False, mi_isOverride = False, mi_isFinal = False, mi_isAbstract = False, mi_isNoreturn = False,
       mi_vtableSlot = 0, mi_itableSlot = -1, mi_definingClass = None\<rparr>);
     s = (\<lambda>c. \<lparr>sy_name = u16 ''get'', sy_paramTypes = [], sy_returnType = None, sy_methodOwner = Some c, sy_abiThrows = True\<rparr>) in
   \<lparr>h_types = [(newType TyClass None)\<lparr>t_structInfo := Some 0\<rparr>],
    h_structs = [newStructInfo, newStructInfo\<lparr>si_isTemplate := True, si_methods := [m 0]\<rparr>,
      newStructInfo\<lparr>si_templateOf := Some 1, si_methods := [m 1]\<rparr>],
    h_symbols = [s 1, s 2]\<rparr>)"

definition boxModule :: ThrowsAnalyzer where
  "boxModule = (let path = (\<lambda>p. fold (\<lambda>i n. children n ! i) p boxTree) in
     \<lparr>ta_sf = boxTree,
      ta_analysis = ar_setSymbol (path [0, 2, 0]) (Some 0) (ar_setType (path [0, 2, 0, 1, 0, 1]) (Some 0) emptyAnalysis),
      ta_errorClass = Some 0\<rparr>)"

text \<open>C33: a method of a generic class that is marked \<open>throws\<close> without a list of types: its copy in an instance
  has an empty contract, whatever its body throws, so no call to the copy is asked to be tried.\<close>

theorem generic_bare_throws_missed:
  assumes "throwsLoop h tas st0 = Some st" and "y \<notin> analysedSymbols tas" and "templateMethod h y = Some ts"
    and "th_declaredThrowsTypes (st0 y) = []" and "th_throwsSet (st0 y) = []" and "th_declaredThrowsTypes (st ts) = []"
  shows "contractOf h st (Some y) = [] \<and>
    (\<forall>a n source sink. calleeSymbolOf a n = Some y \<longrightarrow> callReport h a st source False n sink = sink)"
proof -
  have "contractOf h st (Some y) = []"
    using assms throwsLoop_untouched [OF assms(1,2)] by (simp add: contractOf_def templateContract_def)
  then show ?thesis by (simp add: callReport_def Let_def)
qed

theorem generic_bare_throws_missed_witness:
  "\<exists>st. throwsLoop boxHeap [boxModule] throwsStart = Some st \<and> contractOf boxHeap st (Some 1) = [] \<and>
     contractOf boxHeap st (Some 0) = [0]"
proof -
  let ?st = "the (throwsLoop boxHeap [boxModule] throwsStart)"
  have l: "throwsLoop boxHeap [boxModule] throwsStart = Some ?st"
    using throwsLoop_returns [of boxHeap "[boxModule]" throwsStart] by auto
  have t: "templateMethod boxHeap 1 = Some 0" "th_declaredThrowsTypes (throwsStart 1) = []" "th_throwsSet (throwsStart 1) = []"
    "th_declaredThrowsTypes (?st 0) = []" "contractOf boxHeap ?st (Some 0) = [0]" by code_simp+
  have "symbolAt (ta_analysis boxModule) n \<noteq> Some 1" for n
    by (auto simp: symbolAt_def ar_find_def boxModule_def Let_def ar_setSymbol_def ar_setType_def ar_slot_def emptyAnalysis_def
        noInfo_def split: if_splits option.splits)
  then have "1 \<notin> analysedSymbols [boxModule]" by (auto simp: analysedSymbols_def)
  from generic_bare_throws_missed [OF l this t(1-4)] l t(5) show ?thesis by blast
qed

end
