(* ===== verification/EscapeAnalysis.thy ===== *)
theory EscapeAnalysis
  imports Throws
begin

text \<open>
  The escape analysis: \<open>semantic/EscapeAnalyzer.h\<close>, \<open>semantic/EscapeAnalyzer.cpp\<close>.

  The fields of \<open>Symbol\<close> the analysis reads and writes are a \<open>SymbolEscape\<close>, kept by symbol in an \<open>EscapeState\<close> together with
  the members of the analyzer that change. The type heap \<open>h\<close> and the tables \<open>a\<close> do not change. A loop along \<open>aliasOf\<close>
  that does not end sets \<open>en_hangs\<close>: the analysis then does not return.
\<close>

section \<open>State\<close>

datatype SymbolKind = KVariable | KParameter | KFunction | KNamespace | KSiblingField

datatype EscapeKind = Unknown | NoEscape | Escape

record ParamEscapeInfo =
  ei_params :: "EscapeKind list"
  ei_paramMutated :: "bool list"
  ei_analyzed :: bool

record SymbolEscape =
  ey_kind :: SymbolKind
  ey_type :: "tid option"
  ey_escapeInfo :: ParamEscapeInfo
  ey_localEscape :: EscapeKind
  ey_reassigned :: bool
  ey_aliasOf :: "symid option"
  ey_allAssignsFromParam :: bool
  ey_lastUseRef :: "SyntaxNode option"
  ey_lastUseInLoop :: bool
  ey_structFieldsMutated :: bool
  ey_stackPromoted :: bool

record EscapeState =
  en_symbols :: "symid \<Rightarrow> SymbolEscape"
  en_currentFn :: "symid option"
  en_currentParams :: "symid option list"
  en_changed :: bool
  en_loopDepth :: int
  en_hangs :: bool

definition newSymbol :: "SymbolKind \<Rightarrow> tid option \<Rightarrow> SymbolEscape" where
  "newSymbol k t = \<lparr>ey_kind = k, ey_type = t, ey_escapeInfo = \<lparr>ei_params = [], ei_paramMutated = [], ei_analyzed = False\<rparr>,
     ey_localEscape = NoEscape, ey_reassigned = False, ey_aliasOf = None, ey_allAssignsFromParam = True, ey_lastUseRef = None,
     ey_lastUseInLoop = False, ey_structFieldsMutated = False, ey_stackPromoted = False\<rparr>"

definition mkEscape :: "(symid \<Rightarrow> SymbolEscape) \<Rightarrow> EscapeState" where
  "mkEscape symbols = \<lparr>en_symbols = symbols, en_currentFn = None, en_currentParams = [], en_changed = False, en_loopDepth = 0,
     en_hangs = False\<rparr>"

text \<open>A write to a symbol; and \<open>if (auto x = e.part()) f(*x)\<close>.\<close>

definition onSymbol :: "symid \<Rightarrow> (SymbolEscape \<Rightarrow> SymbolEscape) \<Rightarrow> EscapeState \<Rightarrow> EscapeState" where
  "onSymbol y f st = st\<lparr>en_symbols := (en_symbols st)(y := f (en_symbols st y))\<rparr>"

definition setChanged :: "EscapeState \<Rightarrow> EscapeState" where
  "setChanged st = st\<lparr>en_changed := True\<rparr>"

definition hang :: "EscapeState \<Rightarrow> EscapeState" where
  "hang st = st\<lparr>en_hangs := True\<rparr>"

text \<open>The state after a loop that may not end.\<close>

definition afterLoop :: "(EscapeState \<Rightarrow> EscapeState option) \<Rightarrow> EscapeState \<Rightarrow> EscapeState" where
  "afterLoop loop st = (case loop st of None \<Rightarrow> hang st | Some st' \<Rightarrow> st')"

definition visit :: "('v \<Rightarrow> 's \<Rightarrow> 's) \<Rightarrow> 'v option \<Rightarrow> 's \<Rightarrow> 's" where
  "visit f v s = (case v of None \<Rightarrow> s | Some x \<Rightarrow> f x s)"

lemma visit_cong [fundef_cong]:
  "v = w \<Longrightarrow> (\<And>x. w = Some x \<Longrightarrow> f x = g x) \<Longrightarrow> visit f v = visit g w"
  by (cases w) (auto simp: visit_def fun_eq_iff)

definition eachStatement :: "(Statement \<Rightarrow> 's \<Rightarrow> 's) \<Rightarrow> Block \<Rightarrow> 's \<Rightarrow> 's" where
  "eachStatement f b = fold f (Block_statements b)"

lemma eachStatement_cong [fundef_cong]:
  "b = c \<Longrightarrow> (\<And>s. s \<in> set (Block_statements c) \<Longrightarrow> f s = g s) \<Longrightarrow> eachStatement f b = eachStatement g c"
  by (auto simp: eachStatement_def fun_eq_iff intro: fold_cong)

section \<open>Symbols\<close>

primrec paramIndexFrom :: "nat \<Rightarrow> symid option list \<Rightarrow> symid \<Rightarrow> nat option" where
  "paramIndexFrom i [] y = None"
| "paramIndexFrom i (p # ps) y = (if p = Some y then Some i else paramIndexFrom (Suc i) ps y)"

definition paramIndexOfSymbol :: "EscapeState \<Rightarrow> symid option \<Rightarrow> nat option" where
  "paramIndexOfSymbol st y = (case y of None \<Rightarrow> None | Some y \<Rightarrow> paramIndexFrom 0 (en_currentParams st) y)"

partial_function (option) aliasRootOf :: "EscapeState \<Rightarrow> symid \<Rightarrow> symid option" where
  [code]: "aliasRootOf st y = (case ey_aliasOf (en_symbols st y) of None \<Rightarrow> Some y | Some z \<Rightarrow> aliasRootOf st z)"

text \<open>\<open>None\<close> when the loop does not end, which is when the aliases of the symbol go round in a circle.\<close>

definition aliasRoot :: "EscapeState \<Rightarrow> symid option \<Rightarrow> symid option option" where
  "aliasRoot st y = (case y of None \<Rightarrow> Some None | Some y \<Rightarrow> map_option Some (aliasRootOf st y))"

text \<open>Mirrors the escape of a parameter of the current function.\<close>

definition mirrorEscape :: "symid \<Rightarrow> EscapeState \<Rightarrow> EscapeState" where
  "mirrorEscape y st =
     (case (paramIndexOfSymbol st (Some y), en_currentFn st) of
        (Some i, Some f) \<Rightarrow>
          let ps = ei_params (ey_escapeInfo (en_symbols st f)) in
          if i < length ps \<and> ps ! i \<noteq> Escape
          then onSymbol f (\<lambda>s. s\<lparr>ey_escapeInfo := (ey_escapeInfo s)\<lparr>ei_params := ps[i := Escape]\<rparr>\<rparr>) st
          else st
      | _ \<Rightarrow> st)"

partial_function (option) markEscapeLoop :: "symid option \<Rightarrow> EscapeState \<Rightarrow> EscapeState option" where
  [code]: "markEscapeLoop y st =
     (case y of None \<Rightarrow> Some st
      | Some y \<Rightarrow>
          if ey_localEscape (en_symbols st y) \<noteq> Escape then
            let st = mirrorEscape y (setChanged (onSymbol y (\<lambda>s. s\<lparr>ey_localEscape := Escape\<rparr>) st)) in
            markEscapeLoop (ey_aliasOf (en_symbols st y)) st
          else Some st)"

definition markSymbolEscape :: "symid option \<Rightarrow> EscapeState \<Rightarrow> EscapeState" where
  "markSymbolEscape y = afterLoop (markEscapeLoop y)"

definition markSymbolReassigned :: "symid \<Rightarrow> EscapeState \<Rightarrow> EscapeState" where
  "markSymbolReassigned y st =
     (if \<not> ey_reassigned (en_symbols st y) then setChanged (onSymbol y (\<lambda>s. s\<lparr>ey_reassigned := True\<rparr>) st) else st)"

definition markParamMutated :: "nat option \<Rightarrow> EscapeState \<Rightarrow> EscapeState" where
  "markParamMutated idx st =
     (case (en_currentFn st, idx) of
        (Some f, Some i) \<Rightarrow>
          let ms = ei_paramMutated (ey_escapeInfo (en_symbols st f)) in
          if i < length ms \<and> \<not> ms ! i
          then setChanged (onSymbol f (\<lambda>s. s\<lparr>ey_escapeInfo := (ey_escapeInfo s)\<lparr>ei_paramMutated := ms[i := True]\<rparr>\<rparr>) st)
          else st
      | _ \<Rightarrow> st)"

text \<open>\<open>for (cur = s; cur && cur->kind == SymbolKind::Variable; cur = cur->aliasOf)\<close>\<close>

partial_function (option) markFieldsLoop :: "symid option \<Rightarrow> EscapeState \<Rightarrow> EscapeState option" where
  [code]: "markFieldsLoop y st =
     (case y of None \<Rightarrow> Some st
      | Some y \<Rightarrow>
          if ey_kind (en_symbols st y) = KVariable then
            markFieldsLoop (ey_aliasOf (en_symbols st y))
              (if \<not> ey_structFieldsMutated (en_symbols st y)
               then setChanged (onSymbol y (\<lambda>s. s\<lparr>ey_structFieldsMutated := True\<rparr>) st) else st)
          else Some st)"

section \<open>Borrows\<close>

text \<open>A class type, or an optional one.\<close>

definition classOrOptional :: "('x) Heap_scheme \<Rightarrow> tid option \<Rightarrow> bool" where
  "classOrOptional h t = (case t of None \<Rightarrow> False
     | Some t \<Rightarrow> kind h t = TyClass \<or>
         (kind h t = TyOptional \<and> (case t_inner (ty h t) of None \<Rightarrow> False | Some i \<Rightarrow> kind h i = TyClass)))"

function bindingAliasSource :: "AnalysisResult \<Rightarrow> Expression \<Rightarrow> symid option" where
  "bindingAliasSource a e =
     (if Expression_asIdent e \<noteq> None then symbolAt a e
      else if Expression_asParen e \<noteq> None then
        (case ParenExpression_inner e of None \<Rightarrow> None | Some inner \<Rightarrow> bindingAliasSource a inner)
      else None)"
  by pat_completeness auto
termination
  by (relation "measure (\<lambda>(a, e). size (green e))") (auto simp: below_def [symmetric] dest: below_dests)

declare bindingAliasSource.simps [simp del]

function isParameterBorrowSource :: "('x) Heap_scheme \<Rightarrow> AnalysisResult \<Rightarrow> EscapeState \<Rightarrow> Expression \<Rightarrow> bool" where
  "isParameterBorrowSource h a st e =
     (if Expression_asIdent e \<noteq> None then
        (case symbolAt a e of None \<Rightarrow> False
         | Some y \<Rightarrow> ey_kind (en_symbols st y) = KParameter \<and> classOrOptional h (ey_type (en_symbols st y)) \<and>
             \<not> ey_reassigned (en_symbols st y))
      else if Expression_asThis e \<noteq> None then True
      else if Expression_asParen e \<noteq> None then
        (case ParenExpression_inner e of None \<Rightarrow> False | Some inner \<Rightarrow> isParameterBorrowSource h a st inner)
      else False)"
  by pat_completeness auto
termination
  by (relation "measure (\<lambda>(h, a, st, e). size (green e))") (auto simp: below_def [symmetric] dest: below_dests)

declare isParameterBorrowSource.simps [simp del]

definition updateBorrowMode ::
    "('x) Heap_scheme \<Rightarrow> AnalysisResult \<Rightarrow> symid \<Rightarrow> Expression \<Rightarrow> EscapeState \<Rightarrow> EscapeState" where
  "updateBorrowMode h a y rhs st =
     (if \<not> ey_allAssignsFromParam (en_symbols st y) then st
      else if \<not> isParameterBorrowSource h a st rhs
      then setChanged (onSymbol y (\<lambda>s. s\<lparr>ey_allAssignsFromParam := False\<rparr>) st) else st)"

definition isBorrowModeSymbol :: "('x) Heap_scheme \<Rightarrow> EscapeState \<Rightarrow> symid option \<Rightarrow> bool" where
  "isBorrowModeSymbol h st y = (case y of None \<Rightarrow> False
     | Some y \<Rightarrow> ey_kind (en_symbols st y) = KVariable \<and> classOrOptional h (ey_type (en_symbols st y)) \<and>
         ey_localEscape (en_symbols st y) = NoEscape \<and> ey_allAssignsFromParam (en_symbols st y))"

text \<open>Marks the symbol the expression refers to.\<close>

function markEscapeIfRef :: "AnalysisResult \<Rightarrow> Expression \<Rightarrow> EscapeState \<Rightarrow> EscapeState" where
  "markEscapeIfRef a e st =
     (if Expression_asIdent e \<noteq> None then markSymbolEscape (symbolAt a e) st
      else if Expression_asParen e \<noteq> None then visit (\<lambda>i st. markEscapeIfRef a i st) (ParenExpression_inner e) st
      else if Expression_asCheckedCast e \<noteq> None then visit (\<lambda>i st. markEscapeIfRef a i st) (CheckedCastExpression_source e) st
      else if Expression_asTernary e \<noteq> None then
        visit (\<lambda>i st. markEscapeIfRef a i st) (TernaryExpression_elseBranch e)
          (visit (\<lambda>i st. markEscapeIfRef a i st) (TernaryExpression_thenBranch e) st)
      else if Expression_asSwitch e \<noteq> None then
        fold (\<lambda>arm st. visit (\<lambda>i st. markEscapeIfRef a i st) (SwitchArm_bodyExpr arm) st) (SwitchExpression_arms e) st
      else st)"
  by pat_completeness auto
termination
  by (relation "measure (\<lambda>(a, e, st). size (green e))") (auto simp: below_def [symmetric] dest: below_dests intro: arm_body_below)

declare markEscapeIfRef.simps [simp del]

section \<open>Scanning\<close>

text \<open>What a binding does to its symbol.\<close>

definition bindSymbol :: "('x) Heap_scheme \<Rightarrow> AnalysisResult \<Rightarrow> symid \<Rightarrow> Expression \<Rightarrow> EscapeState \<Rightarrow> EscapeState" where
  "bindSymbol h a y init st =
     updateBorrowMode h a y init
       (case bindingAliasSource a init of
          Some src \<Rightarrow> onSymbol y (\<lambda>s. s\<lparr>ey_aliasOf := Some src\<rparr>) st
        | None \<Rightarrow> markEscapeIfRef a init st)"

definition bindDefault :: "symid \<Rightarrow> EscapeState \<Rightarrow> EscapeState" where
  "bindDefault y st =
     (if ey_allAssignsFromParam (en_symbols st y)
      then setChanged (onSymbol y (\<lambda>s. s\<lparr>ey_allAssignsFromParam := False\<rparr>) st) else st)"

text \<open>The root of a member chain.\<close>

function memberRoot :: "Expression \<Rightarrow> Expression option" where
  "memberRoot e =
     (if Expression_asMember e \<noteq> None then
        (case MemberExpression_object e of None \<Rightarrow> None | Some object \<Rightarrow> memberRoot object)
      else Some e)"
  by pat_completeness auto
termination
  by (relation "measure (\<lambda>e. size (green e))") (auto simp: below_def [symmetric] dest: below_dests)

declare memberRoot.simps [simp del]

text \<open>What an assignment does before its two sides are scanned.\<close>

definition assignMember :: "AnalysisResult \<Rightarrow> Expression \<Rightarrow> Expression \<Rightarrow> EscapeState \<Rightarrow> EscapeState" where
  "assignMember a target value st =
     markEscapeIfRef a value
       (case memberRoot target of None \<Rightarrow> st
        | Some root \<Rightarrow>
            if Expression_asIdent root \<noteq> None then
              let s = symbolAt a root in
              (case aliasRoot st s of None \<Rightarrow> hang st
               | Some r \<Rightarrow> afterLoop (markFieldsLoop s) (markParamMutated (paramIndexOfSymbol st r) st))
            else st)"

definition assignIdent :: "('x) Heap_scheme \<Rightarrow> AnalysisResult \<Rightarrow> Expression \<Rightarrow> Expression \<Rightarrow> EscapeState \<Rightarrow> EscapeState" where
  "assignIdent h a target value st =
     (let y = symbolAt a target;
          st = (case y of None \<Rightarrow> st
            | Some y \<Rightarrow>
                let st = markSymbolReassigned y st;
                    st = markParamMutated (paramIndexOfSymbol st (Some y)) st
                in updateBorrowMode h a y value (onSymbol y (\<lambda>s. s\<lparr>ey_aliasOf := None\<rparr>) st))
      in if \<not> isBorrowModeSymbol h st y then markEscapeIfRef a value st else st)"

definition assignEffects :: "('x) Heap_scheme \<Rightarrow> AnalysisResult \<Rightarrow> Expression \<Rightarrow> Expression \<Rightarrow> EscapeState \<Rightarrow> EscapeState" where
  "assignEffects h a target value st =
     (if Expression_asMember target \<noteq> None then assignMember a target value st
      else if Expression_asIdent target \<noteq> None then assignIdent h a target value st
      else if Expression_asSubscript target \<noteq> None then markEscapeIfRef a value st
      else st)"

text \<open>The function a call names.\<close>

definition calleeSymbol :: "AnalysisResult \<Rightarrow> CallExpression \<Rightarrow> symid option" where
  "calleeSymbol a call =
     (case CallExpression_callee call of None \<Rightarrow> None
      | Some callee \<Rightarrow>
          if Expression_asMember callee \<noteq> None then methodOrSymbol a callee
          else if Expression_asIdent callee \<noteq> None then symbolAt a callee
          else None)"

definition constructorSymbol :: "AnalysisResult \<Rightarrow> NewExpression \<Rightarrow> symid option" where
  "constructorSymbol a e = (case ar_find a e of None \<Rightarrow> None | Some info \<Rightarrow> resolvedMethodSymbol info)"

text \<open>The parameter an argument goes to, and whether the callee lets it escape.\<close>

definition argumentParam :: "AnalysisResult \<Rightarrow> SyntaxNode \<Rightarrow> nat \<Rightarrow> nat" where
  "argumentParam a call i =
     (case ar_callArgOrderOf a call of None \<Rightarrow> i
      | Some order \<Rightarrow> if i < length order \<and> order ! i \<ge> 0 then nat (order ! i) else i)"

definition calleeEscapes :: "EscapeState \<Rightarrow> symid option \<Rightarrow> nat \<Rightarrow> bool" where
  "calleeEscapes st callee p =
     (case callee of None \<Rightarrow> True
      | Some f \<Rightarrow> let ps = ei_params (ey_escapeInfo (en_symbols st f)) in if p < length ps then ps ! p = Escape else True)"

text \<open>An argument, without the name it may carry.\<close>

definition argumentValue :: "Expression \<Rightarrow> Expression option" where
  "argumentValue arg = (if Expression_asNamedArgument arg \<noteq> None then NamedArgument_value arg else Some arg)"

lemma argumentValue_size: "argumentValue arg = Some x \<Longrightarrow> size (green x) \<le> size (green arg)"
  by (auto simp: argumentValue_def below_def dest: below_dests split: if_splits)

definition escapeArgument ::
    "AnalysisResult \<Rightarrow> symid option \<Rightarrow> SyntaxNode \<Rightarrow> nat \<Rightarrow> Expression \<Rightarrow> EscapeState \<Rightarrow> EscapeState" where
  "escapeArgument a callee call i arg st =
     (if calleeEscapes st callee (argumentParam a call i) then markSymbolEscape (symbolAt a arg) st else st)"

text \<open>The recursive walk. The second component of the measure lets a statement be scanned as what it is, and an argument as
  an expression.\<close>

function scanStatement :: "('x) Heap_scheme \<Rightarrow> AnalysisResult \<Rightarrow> Statement \<Rightarrow> EscapeState \<Rightarrow> EscapeState"
  and scanBlock :: "('x) Heap_scheme \<Rightarrow> AnalysisResult \<Rightarrow> Block \<Rightarrow> EscapeState \<Rightarrow> EscapeState"
  and scanIf :: "('x) Heap_scheme \<Rightarrow> AnalysisResult \<Rightarrow> IfStatement \<Rightarrow> EscapeState \<Rightarrow> EscapeState"
  and scanArm :: "('x) Heap_scheme \<Rightarrow> AnalysisResult \<Rightarrow> SwitchArm \<Rightarrow> EscapeState \<Rightarrow> EscapeState"
  and scanArgument :: "('x) Heap_scheme \<Rightarrow> AnalysisResult \<Rightarrow> symid option \<Rightarrow> SyntaxNode \<Rightarrow> nat \<Rightarrow> Expression \<Rightarrow> EscapeState \<Rightarrow> EscapeState"
  and scanExpression :: "('x) Heap_scheme \<Rightarrow> AnalysisResult \<Rightarrow> Expression \<Rightarrow> EscapeState \<Rightarrow> EscapeState"
where
  "scanStatement h a s st =
     (if Statement_asBlock s \<noteq> None then scanBlock h a s st
      else if Statement_asLet s \<noteq> None then
        visit (\<lambda>init st. scanExpression h a init (visit (\<lambda>y. bindSymbol h a y init) (symbolAt a s) st)) (LetStatement_initializer s) st
      else if Statement_asTypedVarDecl s \<noteq> None then
        (if TypedVarDeclStatement_initializer s \<noteq> None then
           visit (\<lambda>init st. scanExpression h a init (visit (\<lambda>y. bindSymbol h a y init) (symbolAt a s) st)) (TypedVarDeclStatement_initializer s) st
         else visit bindDefault (symbolAt a s) st)
      else if Statement_asIf s \<noteq> None then scanIf h a s st
      else if Statement_asWhile s \<noteq> None then
        visit (\<lambda>b st. scanBlock h a b st) (WhileStatement_body s) (visit (\<lambda>c st. scanExpression h a c st) (WhileStatement_condition s) st)
      else if Statement_asFor s \<noteq> None then
        visit (\<lambda>b st. scanBlock h a b st) (ForStatement_body s)
          (visit (\<lambda>u st. scanExpression h a u st) (ForStatement_update s)
            (visit (\<lambda>c st. scanExpression h a c st) (ForStatement_condition s)
              (visit (\<lambda>i st. scanStatement h a i st) (ForStatement_init s) st)))
      else if Statement_asForEach s \<noteq> None then
        visit (\<lambda>b st. scanBlock h a b st) (ForEachStatement_body s) (visit (\<lambda>i st. scanExpression h a i st) (ForEachStatement_iterable s) st)
      else if Statement_asBreak s \<noteq> None \<or> Statement_asContinue s \<noteq> None then st
      else if Statement_asReturn s \<noteq> None then
        visit (\<lambda>v st. scanExpression h a v (markEscapeIfRef a v st)) (ReturnStatement_value s) st
      else if Statement_asExpressionStmt s \<noteq> None then
        visit (\<lambda>e st. scanExpression h a e st) (ExpressionStatement_expression s) st
      else if Statement_asThrow s \<noteq> None then
        visit (\<lambda>v st. scanExpression h a v (markEscapeIfRef a v st)) (ThrowStatement_value s) st
      else if Statement_asRethrow s \<noteq> None then st
      else if Statement_asSwitch s \<noteq> None then
        fold (\<lambda>arm st. scanArm h a arm st) (SwitchStatement_arms s) (visit (\<lambda>c st. scanExpression h a c st) (SwitchStatement_scrutinee s) st)
      else st)"
| "scanBlock h a b st = eachStatement (\<lambda>s st. scanStatement h a s st) b st"
| "scanIf h a s st =
     visit (\<lambda>ec st. if ElseClause_ifStatement ec \<noteq> None then visit (\<lambda>i st. scanIf h a i st) (ElseClause_ifStatement ec) st
         else visit (\<lambda>b st. scanBlock h a b st) (ElseClause_block ec) st) (IfStatement_elseClause s)
       (visit (\<lambda>b st. scanBlock h a b st) (IfStatement_thenBlock s)
         (visit (\<lambda>c st. scanExpression h a c st) (IfStatement_condition s) st))"
| "scanArm h a arm st =
     (if SwitchArm_bodyBlockNode arm \<noteq> None then
        visit (\<lambda>n st. if Block_cast n \<noteq> None then scanBlock h a n st else st) (SwitchArm_bodyBlockNode arm) st
      else visit (\<lambda>e st. scanExpression h a e st) (SwitchArm_bodyExpr arm) st)"
| "scanArgument h a callee call i arg st =
     visit (\<lambda>v st. if Expression_asIdent v \<noteq> None then escapeArgument a callee call i v st else scanExpression h a v st)
       (argumentValue arg) st"
| "scanExpression h a e st =
     (if Expression_asAssign e \<noteq> None then
        visit (\<lambda>target st. visit (\<lambda>value st.
            scanExpression h a value (scanExpression h a target (assignEffects h a target value st))) (AssignExpression_value e) st)
          (AssignExpression_target e) st
      else if Expression_asCall e \<noteq> None then
        fold (\<lambda>(i, arg) st. scanArgument h a (calleeSymbol a e) e i arg st) (enumerate 0 (CallExpression_arguments e))
          (visit (\<lambda>callee st. if Expression_asMember callee \<noteq> None
             then visit (\<lambda>object st. scanExpression h a object st) (MemberExpression_object callee) st else st) (CallExpression_callee e) st)
      else if Expression_asMember e \<noteq> None then visit (\<lambda>x st. scanExpression h a x st) (MemberExpression_object e) st
      else if Expression_asSafeMember e \<noteq> None then visit (\<lambda>x st. scanExpression h a x st) (SafeMemberExpression_object e) st
      else if Expression_asSubscript e \<noteq> None then
        visit (\<lambda>x st. scanExpression h a x st) (SubscriptExpression_index e) (visit (\<lambda>x st. scanExpression h a x st) (SubscriptExpression_object e) st)
      else if Expression_asSafeSubscript e \<noteq> None then
        visit (\<lambda>x st. scanExpression h a x st) (SafeSubscriptExpression_index e)
          (visit (\<lambda>x st. scanExpression h a x st) (SafeSubscriptExpression_object e) st)
      else if Expression_asCast e \<noteq> None then visit (\<lambda>x st. scanExpression h a x st) (CastExpression_source e) st
      else if Expression_asCheckedCast e \<noteq> None then visit (\<lambda>x st. scanExpression h a x st) (CheckedCastExpression_source e) st
      else if Expression_asTypeTest e \<noteq> None then visit (\<lambda>x st. scanExpression h a x st) (TypeTestExpression_operand e) st
      else if Expression_asOutArgument e \<noteq> None then st
      else if Expression_asBinary e \<noteq> None then
        visit (\<lambda>x st. scanExpression h a x st) (BinaryExpression_right e) (visit (\<lambda>x st. scanExpression h a x st) (BinaryExpression_left e) st)
      else if Expression_asTernary e \<noteq> None then
        visit (\<lambda>x st. scanExpression h a x st) (TernaryExpression_elseBranch e)
          (visit (\<lambda>x st. scanExpression h a x st) (TernaryExpression_thenBranch e)
            (visit (\<lambda>x st. scanExpression h a x st) (TernaryExpression_condition e) st))
      else if Expression_asNullCoalesce e \<noteq> None then
        visit (\<lambda>x st. scanExpression h a x st) (NullCoalesceExpression_right e)
          (visit (\<lambda>x st. scanExpression h a x st) (NullCoalesceExpression_left e) st)
      else if Expression_asParen e \<noteq> None then visit (\<lambda>x st. scanExpression h a x st) (ParenExpression_inner e) st
      else if Expression_asNew e \<noteq> None then
        fold (\<lambda>(i, arg) st. scanArgument h a (constructorSymbol a e) e i arg st) (enumerate 0 (NewExpression_arguments e))
          (fold (\<lambda>x st. scanExpression h a x st) (NewExpression_arraySizeExpressions e) st)
      else if Expression_asArrayLiteral e \<noteq> None then
        fold (\<lambda>x st. scanExpression h a x (markEscapeIfRef a x st)) (ArrayLiteralExpression_elements e) st
      else if Expression_asStructLiteral e \<noteq> None then
        fold (\<lambda>f st. visit (\<lambda>v st. scanExpression h a v (markEscapeIfRef a v st)) (StructLiteralField_value f) st)
          (StructLiteralExpression_fields e) st
      else if Expression_asTry e \<noteq> None then visit (\<lambda>x st. scanExpression h a x st) (TryExpression_operand e) st
      else if Expression_asSwitch e \<noteq> None then
        fold (\<lambda>arm st. scanArm h a arm st) (SwitchExpression_arms e) (visit (\<lambda>x st. scanExpression h a x st) (SwitchExpression_scrutinee e) st)
      else if Expression_asPrefix e \<noteq> None then visit (\<lambda>x st. scanExpression h a x st) (PrefixExpression_operand e) st
      else if Expression_asPostfix e \<noteq> None then visit (\<lambda>x st. scanExpression h a x st) (PostfixExpression_operand e) st
      else if Expression_asInterpString e \<noteq> None then fold (\<lambda>x st. scanExpression h a x st) (InterpStringExpression_holes e) st
      else st)"
  by pat_completeness (simp_all only: sum.inject sum.distinct prod.inject simp_thms)
termination
  apply (relation "measure (\<lambda>x. case x of
        Inl (Inl (h, a, s, st)) \<Rightarrow> 2 * size (green s) + 1
      | Inl (Inr (Inl (h, a, b, st))) \<Rightarrow> 2 * size (green b)
      | Inl (Inr (Inr (h, a, s, st))) \<Rightarrow> 2 * size (green s)
      | Inr (Inl (h, a, arm, st)) \<Rightarrow> 2 * size (green arm)
      | Inr (Inr (Inl (h, a, f, n, i, arg, st))) \<Rightarrow> 2 * size (green arg) + 1
      | Inr (Inr (Inr (h, a, e, st))) \<Rightarrow> 2 * size (green e))")
  apply (simp_all only: in_measure sum.case split_conv wf_measure)
  apply ((simp; fail) | (rule scanned_below, rule below_dests, assumption) |
     (rule scanned_below, rule below_trans, rule below_dests, assumption, rule below_dests, assumption) |
     (drule (1) enumerate_member, rule scanned_below, rule below_dests, assumption) |
     (drule argumentValue_size, simp))+
  done


declare scanStatement.simps [simp del] scanBlock.simps [simp del] scanIf.simps [simp del] scanArm.simps [simp del]
  scanArgument.simps [simp del] scanExpression.simps [simp del]

section \<open>One pass\<close>

definition enterFunction :: "symid \<Rightarrow> symid option list \<Rightarrow> EscapeState \<Rightarrow> EscapeState" where
  "enterFunction f params st = st\<lparr>en_currentFn := Some f, en_currentParams := params\<rparr>"

definition leaveFunction :: "symid \<Rightarrow> EscapeState \<Rightarrow> EscapeState" where
  "leaveFunction f st =
     (onSymbol f (\<lambda>s. s\<lparr>ey_escapeInfo := (ey_escapeInfo s)\<lparr>ei_analyzed := True\<rparr>\<rparr>) st)\<lparr>en_currentFn := None, en_currentParams := []\<rparr>"

definition sizeParams :: "symid \<Rightarrow> nat \<Rightarrow> EscapeState \<Rightarrow> EscapeState" where
  "sizeParams f n st =
     (if length (ei_params (ey_escapeInfo (en_symbols st f))) \<noteq> n
      then onSymbol f (\<lambda>s. s\<lparr>ey_escapeInfo := (ey_escapeInfo s)\<lparr>ei_params := replicate n NoEscape,
             ei_paramMutated := replicate n False\<rparr>\<rparr>) st
      else st)"

definition clearParams :: "symid \<Rightarrow> EscapeState \<Rightarrow> EscapeState" where
  "clearParams f = onSymbol f (\<lambda>s. s\<lparr>ey_escapeInfo := (ey_escapeInfo s)\<lparr>ei_params := [], ei_paramMutated := []\<rparr>\<rparr>)"

definition analyzeTest :: "('x) Heap_scheme \<Rightarrow> AnalysisResult \<Rightarrow> symid \<Rightarrow> TestDecl \<Rightarrow> EscapeState \<Rightarrow> EscapeState" where
  "analyzeTest h a f td st =
     leaveFunction f (visit (scanBlock h a) (TestDecl_body td) (clearParams f (enterFunction f [] st)))"

definition escapeThisFields :: "AnalysisResult \<Rightarrow> FuncDecl \<Rightarrow> EscapeState \<Rightarrow> EscapeState" where
  "escapeThisFields a fn =
     fold (\<lambda>p st. if Parameter_isThisField p then markSymbolEscape (symbolAt a p) st else st) (FuncDecl_parameters fn)"

definition scanFunction :: "('x) Heap_scheme \<Rightarrow> AnalysisResult \<Rightarrow> FuncDecl \<Rightarrow> EscapeState \<Rightarrow> EscapeState" where
  "scanFunction h a fn st =
     fold (\<lambda>cc. visit (scanBlock h a) (CatchClause_body cc)) (FuncDecl_catchClauses fn) (visit (scanBlock h a) (FuncDecl_body fn) st)"

definition analyzeFunction :: "('x) Heap_scheme \<Rightarrow> AnalysisResult \<Rightarrow> symid \<Rightarrow> FuncDecl \<Rightarrow> EscapeState \<Rightarrow> EscapeState" where
  "analyzeFunction h a f fn st =
     (let params = map (symbolAt a) (FuncDecl_parameters fn) in
      leaveFunction f (scanFunction h a fn (escapeThisFields a fn
        (sizeParams f (length params) (enterFunction f params st)))))"

definition escapeRunOnce :: "('x) Heap_scheme \<Rightarrow> SourceFileView \<Rightarrow> AnalysisResult \<Rightarrow> EscapeState \<Rightarrow> EscapeState" where
  "escapeRunOnce h sf a st =
     fold (whenResolved a (analyzeTest h a)) (SourceFileView_tests sf)
       (fold (whenResolved a (analyzeFunction h a)) (functionsOf sf) (st\<lparr>en_changed := False\<rparr>))"

partial_function (option) escapeLoop ::
    "('x) Heap_scheme \<Rightarrow> SourceFileView \<Rightarrow> AnalysisResult \<Rightarrow> EscapeState \<Rightarrow> EscapeState option" where
  [code]: "escapeLoop h sf a st =
     (let st' = escapeRunOnce h sf a st in
      if en_hangs st' then None else if en_changed st' then escapeLoop h sf a st' else Some st')"

section \<open>Last uses\<close>

definition recordRead :: "('x) Heap_scheme \<Rightarrow> AnalysisResult \<Rightarrow> IdentExpression \<Rightarrow> EscapeState \<Rightarrow> EscapeState" where
  "recordRead h a e st =
     (case symbolAt a e of None \<Rightarrow> st
      | Some y \<Rightarrow>
          if ey_kind (en_symbols st y) = KVariable \<and> classOrOptional h (ey_type (en_symbols st y))
          then onSymbol y (\<lambda>s. s\<lparr>ey_lastUseRef := Some e, ey_lastUseInLoop := en_loopDepth st > 0\<rparr>) st else st)"

text \<open>\<open>loopDepth++; \<dots> loopDepth--;\<close>\<close>

definition inLoop :: "(EscapeState \<Rightarrow> EscapeState) \<Rightarrow> EscapeState \<Rightarrow> EscapeState" where
  "inLoop f st = (let st = f (st\<lparr>en_loopDepth := en_loopDepth st + 1\<rparr>) in st\<lparr>en_loopDepth := en_loopDepth st - 1\<rparr>)"

lemma inLoop_cong [fundef_cong]: "(\<And>s. f s = g s) \<Longrightarrow> inLoop f = inLoop g"
  by (simp add: inLoop_def fun_eq_iff)

function walkExprForLastUses :: "('x) Heap_scheme \<Rightarrow> AnalysisResult \<Rightarrow> Expression \<Rightarrow> EscapeState \<Rightarrow> EscapeState" where
  "walkExprForLastUses h a e st =
     (if Expression_asAssign e \<noteq> None then
        visit (\<lambda>x st. walkExprForLastUses h a x st) (AssignExpression_value e)
          (visit (\<lambda>t st. if Expression_asMember t \<noteq> None
             then visit (\<lambda>x st. walkExprForLastUses h a x st) (MemberExpression_object t) st else st) (AssignExpression_target e) st)
      else if Expression_asCall e \<noteq> None then
        fold (\<lambda>x st. walkExprForLastUses h a x st) (CallExpression_arguments e)
          (visit (\<lambda>c st.
             if Expression_asMember c \<noteq> None then visit (\<lambda>x st. walkExprForLastUses h a x st) (MemberExpression_object c) st
             else if Expression_asSafeMember c \<noteq> None
             then visit (\<lambda>x st. walkExprForLastUses h a x st) (SafeMemberExpression_object c) st
             else st) (CallExpression_callee e) st)
      else if Expression_asMember e \<noteq> None then visit (\<lambda>x st. walkExprForLastUses h a x st) (MemberExpression_object e) st
      else if Expression_asSafeMember e \<noteq> None then visit (\<lambda>x st. walkExprForLastUses h a x st) (SafeMemberExpression_object e) st
      else if Expression_asSubscript e \<noteq> None then
        visit (\<lambda>x st. walkExprForLastUses h a x st) (SubscriptExpression_index e)
          (visit (\<lambda>x st. walkExprForLastUses h a x st) (SubscriptExpression_object e) st)
      else if Expression_asSafeSubscript e \<noteq> None then
        visit (\<lambda>x st. walkExprForLastUses h a x st) (SafeSubscriptExpression_index e)
          (visit (\<lambda>x st. walkExprForLastUses h a x st) (SafeSubscriptExpression_object e) st)
      else if Expression_asCast e \<noteq> None then visit (\<lambda>x st. walkExprForLastUses h a x st) (CastExpression_source e) st
      else if Expression_asCheckedCast e \<noteq> None then visit (\<lambda>x st. walkExprForLastUses h a x st) (CheckedCastExpression_source e) st
      else if Expression_asTypeTest e \<noteq> None then visit (\<lambda>x st. walkExprForLastUses h a x st) (TypeTestExpression_operand e) st
      else if Expression_asBinary e \<noteq> None then
        visit (\<lambda>x st. walkExprForLastUses h a x st) (BinaryExpression_right e)
          (visit (\<lambda>x st. walkExprForLastUses h a x st) (BinaryExpression_left e) st)
      else if Expression_asTernary e \<noteq> None then
        visit (\<lambda>x st. walkExprForLastUses h a x st) (TernaryExpression_elseBranch e)
          (visit (\<lambda>x st. walkExprForLastUses h a x st) (TernaryExpression_thenBranch e)
            (visit (\<lambda>x st. walkExprForLastUses h a x st) (TernaryExpression_condition e) st))
      else if Expression_asNullCoalesce e \<noteq> None then
        visit (\<lambda>x st. walkExprForLastUses h a x st) (NullCoalesceExpression_right e)
          (visit (\<lambda>x st. walkExprForLastUses h a x st) (NullCoalesceExpression_left e) st)
      else if Expression_asParen e \<noteq> None then visit (\<lambda>x st. walkExprForLastUses h a x st) (ParenExpression_inner e) st
      else if Expression_asNew e \<noteq> None then fold (\<lambda>x st. walkExprForLastUses h a x st) (NewExpression_arguments e) st
      else if Expression_asArrayLiteral e \<noteq> None then fold (\<lambda>x st. walkExprForLastUses h a x st) (ArrayLiteralExpression_elements e) st
      else if Expression_asTry e \<noteq> None then visit (\<lambda>x st. walkExprForLastUses h a x st) (TryExpression_operand e) st
      else if Expression_asSwitch e \<noteq> None then
        fold (\<lambda>arm st. visit (\<lambda>x st. walkExprForLastUses h a x st) (SwitchArm_bodyExpr arm) st) (SwitchExpression_arms e)
          (visit (\<lambda>x st. walkExprForLastUses h a x st) (SwitchExpression_scrutinee e) st)
      else if Expression_asPrefix e \<noteq> None then visit (\<lambda>x st. walkExprForLastUses h a x st) (PrefixExpression_operand e) st
      else if Expression_asPostfix e \<noteq> None then visit (\<lambda>x st. walkExprForLastUses h a x st) (PostfixExpression_operand e) st
      else if Expression_asInterpString e \<noteq> None then fold (\<lambda>x st. walkExprForLastUses h a x st) (InterpStringExpression_holes e) st
      else if Expression_asIdent e \<noteq> None then recordRead h a e st
      else st)"
  by pat_completeness (simp_all only: prod.inject simp_thms)
termination
  apply (relation "measure (\<lambda>(h, a, e, st). size (green e))")
  apply (simp_all only: in_measure split_conv wf_measure below_def [symmetric])
  apply ((rule below_dests, assumption) | (rule below_trans, rule below_dests, assumption, rule below_dests, assumption))+
  done

declare walkExprForLastUses.simps [simp del]

function walkStmtForLastUses :: "('x) Heap_scheme \<Rightarrow> AnalysisResult \<Rightarrow> Statement \<Rightarrow> EscapeState \<Rightarrow> EscapeState" where
  "walkStmtForLastUses h a s st =
     (if Statement_asBlock s \<noteq> None then eachStatement (\<lambda>c st. walkStmtForLastUses h a c st) s st
      else if Statement_asLet s \<noteq> None then visit (walkExprForLastUses h a) (LetStatement_initializer s) st
      else if Statement_asTypedVarDecl s \<noteq> None then visit (walkExprForLastUses h a) (TypedVarDeclStatement_initializer s) st
      else if Statement_asIf s \<noteq> None then
        visit (\<lambda>ec st.
            if ElseClause_ifStatement ec \<noteq> None then visit (\<lambda>i st. walkStmtForLastUses h a i st) (ElseClause_ifStatement ec) st
            else visit (\<lambda>b st. eachStatement (\<lambda>c st. walkStmtForLastUses h a c st) b st) (ElseClause_block ec) st)
          (IfStatement_elseClause s)
          (visit (\<lambda>b st. eachStatement (\<lambda>c st. walkStmtForLastUses h a c st) b st) (IfStatement_thenBlock s)
            (visit (walkExprForLastUses h a) (IfStatement_condition s) st))
      else if Statement_asWhile s \<noteq> None then
        inLoop (\<lambda>st. visit (\<lambda>b st. eachStatement (\<lambda>c st. walkStmtForLastUses h a c st) b st) (WhileStatement_body s) st)
          (visit (walkExprForLastUses h a) (WhileStatement_condition s) st)
      else if Statement_asFor s \<noteq> None then
        inLoop (\<lambda>st. visit (\<lambda>b st. eachStatement (\<lambda>c st. walkStmtForLastUses h a c st) b st) (ForStatement_body s)
            (visit (walkExprForLastUses h a) (ForStatement_update s) st))
          (visit (walkExprForLastUses h a) (ForStatement_condition s)
            (visit (\<lambda>i st. walkStmtForLastUses h a i st) (ForStatement_init s) st))
      else if Statement_asForEach s \<noteq> None then
        inLoop (\<lambda>st. visit (\<lambda>b st. eachStatement (\<lambda>c st. walkStmtForLastUses h a c st) b st) (ForEachStatement_body s) st)
          (visit (walkExprForLastUses h a) (ForEachStatement_iterable s) st)
      else if Statement_asBreak s \<noteq> None \<or> Statement_asContinue s \<noteq> None then st
      else if Statement_asReturn s \<noteq> None then visit (walkExprForLastUses h a) (ReturnStatement_value s) st
      else if Statement_asExpressionStmt s \<noteq> None then visit (walkExprForLastUses h a) (ExpressionStatement_expression s) st
      else if Statement_asThrow s \<noteq> None then visit (walkExprForLastUses h a) (ThrowStatement_value s) st
      else if Statement_asSwitch s \<noteq> None then
        fold (\<lambda>arm st.
            if SwitchArm_bodyBlockNode arm \<noteq> None then
              visit (\<lambda>n st. if Block_cast n \<noteq> None then eachStatement (\<lambda>c st. walkStmtForLastUses h a c st) n st else st)
                (SwitchArm_bodyBlockNode arm) st
            else visit (walkExprForLastUses h a) (SwitchArm_bodyExpr arm) st)
          (SwitchStatement_arms s) (visit (walkExprForLastUses h a) (SwitchStatement_scrutinee s) st)
      else st)"
  by pat_completeness (simp_all only: prod.inject simp_thms)
termination
  apply (relation "measure (\<lambda>(h, a, e, st). size (green e))")
  apply (simp_all only: in_measure split_conv wf_measure below_def [symmetric])
  apply ((rule below_dests, assumption) | (rule below_trans, rule below_dests, assumption, rule below_dests, assumption) |
    (rule below_trans, rule below_dests, assumption, rule below_trans, rule below_dests, assumption, rule below_dests, assumption))+
  done

declare walkStmtForLastUses.simps [simp del]

definition walkBlockForLastUses :: "('x) Heap_scheme \<Rightarrow> AnalysisResult \<Rightarrow> Block \<Rightarrow> EscapeState \<Rightarrow> EscapeState" where
  "walkBlockForLastUses h a b = eachStatement (walkStmtForLastUses h a) b"

definition walkBodyForLastUses :: "('x) Heap_scheme \<Rightarrow> AnalysisResult \<Rightarrow> FuncDecl \<Rightarrow> EscapeState \<Rightarrow> EscapeState" where
  "walkBodyForLastUses h a fn st =
     fold (\<lambda>cc. visit (walkBlockForLastUses h a) (CatchClause_body cc)) (FuncDecl_catchClauses fn)
       (visit (walkBlockForLastUses h a) (FuncDecl_body fn) st)"

definition finalize :: "('x) Heap_scheme \<Rightarrow> SourceFileView \<Rightarrow> AnalysisResult \<Rightarrow> EscapeState \<Rightarrow> EscapeState" where
  "finalize h sf a st =
     (let handle = (\<lambda>fn st. walkBodyForLastUses h a fn (st\<lparr>en_loopDepth := 0\<rparr>)) in
      fold (\<lambda>td st. visit (walkBlockForLastUses h a) (TestDecl_body td) (st\<lparr>en_loopDepth := 0\<rparr>)) (SourceFileView_tests sf)
        (fold handle (functionsOf sf) st))"

section \<open>Stack promotion\<close>

function initIsStackPromotable :: "Expression \<Rightarrow> bool" where
  "initIsStackPromotable init =
     (if Expression_asNew init \<noteq> None then
        NewExpression_isArrayNew init \<and>
        (case NewExpression_arraySizeExpressions init of
           [n] \<Rightarrow> Expression_asLiteral n \<noteq> None \<and> LiteralExpression_literalKind n \<in> {IntLiteral, LongLiteral}
         | _ \<Rightarrow> False)
      else if Expression_asArrayLiteral init \<noteq> None then True
      else if Expression_asParen init \<noteq> None then
        (case ParenExpression_inner init of None \<Rightarrow> False | Some inner \<Rightarrow> initIsStackPromotable inner)
      else False)"
  by pat_completeness auto
termination
  by (relation "measure (\<lambda>e. size (green e))") (auto simp: below_def [symmetric] dest: below_dests)

declare initIsStackPromotable.simps [simp del]

definition considerLocalForPromotion ::
    "('x) Heap_scheme \<Rightarrow> symid option \<Rightarrow> Expression option \<Rightarrow> EscapeState \<Rightarrow> EscapeState" where
  "considerLocalForPromotion h y init st =
     (case y of None \<Rightarrow> st
      | Some y \<Rightarrow>
          let s = en_symbols st y in
          if ey_kind s \<noteq> KVariable then st
          else if (case ey_type s of None \<Rightarrow> True | Some t \<Rightarrow> kind h t \<noteq> TyArray \<or> t_inner (ty h t) = None) then st
          else if ey_localEscape s \<noteq> NoEscape then st
          else if ey_reassigned s then st
          else if (case init of None \<Rightarrow> True | Some i \<Rightarrow> \<not> initIsStackPromotable i) then st
          else onSymbol y (\<lambda>s. s\<lparr>ey_stackPromoted := True\<rparr>) st)"

function walkStmtForPromotion :: "('x) Heap_scheme \<Rightarrow> AnalysisResult \<Rightarrow> Statement \<Rightarrow> EscapeState \<Rightarrow> EscapeState" where
  "walkStmtForPromotion h a s st =
     (if Statement_asBlock s \<noteq> None then eachStatement (\<lambda>c st. walkStmtForPromotion h a c st) s st
      else if Statement_asLet s \<noteq> None then considerLocalForPromotion h (symbolAt a s) (LetStatement_initializer s) st
      else if Statement_asTypedVarDecl s \<noteq> None then considerLocalForPromotion h (symbolAt a s) (TypedVarDeclStatement_initializer s) st
      else if Statement_asIf s \<noteq> None then
        visit (\<lambda>ec st.
            if ElseClause_ifStatement ec \<noteq> None then visit (\<lambda>i st. walkStmtForPromotion h a i st) (ElseClause_ifStatement ec) st
            else visit (\<lambda>b st. eachStatement (\<lambda>c st. walkStmtForPromotion h a c st) b st) (ElseClause_block ec) st)
          (IfStatement_elseClause s)
          (visit (\<lambda>b st. eachStatement (\<lambda>c st. walkStmtForPromotion h a c st) b st) (IfStatement_thenBlock s) st)
      else if Statement_asWhile s \<noteq> None then
        visit (\<lambda>b st. eachStatement (\<lambda>c st. walkStmtForPromotion h a c st) b st) (WhileStatement_body s) st
      else if Statement_asFor s \<noteq> None then
        visit (\<lambda>b st. eachStatement (\<lambda>c st. walkStmtForPromotion h a c st) b st) (ForStatement_body s)
          (visit (\<lambda>i st. walkStmtForPromotion h a i st) (ForStatement_init s) st)
      else if Statement_asForEach s \<noteq> None then
        visit (\<lambda>b st. eachStatement (\<lambda>c st. walkStmtForPromotion h a c st) b st) (ForEachStatement_body s) st
      else if Statement_asSwitch s \<noteq> None then
        fold (\<lambda>arm st.
            visit (\<lambda>n st. if Block_cast n \<noteq> None then eachStatement (\<lambda>c st. walkStmtForPromotion h a c st) n st else st)
              (SwitchArm_bodyBlockNode arm) st)
          (SwitchStatement_arms s) st
      else st)"
  by pat_completeness (simp_all only: prod.inject simp_thms)
termination
  apply (relation "measure (\<lambda>(h, a, e, st). size (green e))")
  apply (simp_all only: in_measure split_conv wf_measure below_def [symmetric])
  apply ((rule below_dests, assumption) | (rule below_trans, rule below_dests, assumption, rule below_dests, assumption) |
    (rule below_trans, rule below_dests, assumption, rule below_trans, rule below_dests, assumption, rule below_dests, assumption))+
  done

declare walkStmtForPromotion.simps [simp del]

definition walkBlockForPromotion :: "('x) Heap_scheme \<Rightarrow> AnalysisResult \<Rightarrow> Block \<Rightarrow> EscapeState \<Rightarrow> EscapeState" where
  "walkBlockForPromotion h a b = eachStatement (walkStmtForPromotion h a) b"

definition walkBodyForPromotion :: "('x) Heap_scheme \<Rightarrow> AnalysisResult \<Rightarrow> FuncDecl \<Rightarrow> EscapeState \<Rightarrow> EscapeState" where
  "walkBodyForPromotion h a fn st =
     fold (\<lambda>cc. visit (walkBlockForPromotion h a) (CatchClause_body cc)) (FuncDecl_catchClauses fn)
       (visit (walkBlockForPromotion h a) (FuncDecl_body fn) st)"

definition decideStackPromotions :: "('x) Heap_scheme \<Rightarrow> SourceFileView \<Rightarrow> AnalysisResult \<Rightarrow> EscapeState \<Rightarrow> EscapeState" where
  "decideStackPromotions h sf a st =
     fold (\<lambda>td. visit (walkBlockForPromotion h a) (TestDecl_body td)) (SourceFileView_tests sf)
       (fold (walkBodyForPromotion h a) (functionsOf sf) st)"

definition analyzeEscapes :: "('x) Heap_scheme \<Rightarrow> SourceFileView \<Rightarrow> AnalysisResult \<Rightarrow> EscapeState \<Rightarrow> EscapeState option" where
  "analyzeEscapes h sf a st =
     map_option (\<lambda>st. decideStackPromotions h sf a (finalize h sf a st)) (escapeLoop h sf a st)"

end
