(* ===== verification/EscapeFacts.thy ===== *)
theory EscapeFacts
  imports EscapeAnalysis
begin

text \<open>
  What a pass of the escape analysis does to the facts it keeps. A pass is a sequence of a few kinds of writes, so a
  relation between states that these writes keep is kept by the walk over a whole file: the locales \<open>escape_writes\<close>
  and \<open>escape_passes\<close>. Facts only grow, and a pass that reports no change has grown none.
\<close>

context preorder_ops begin

lemma le_if: "(c \<Longrightarrow> le s t) \<Longrightarrow> (\<not> c \<Longrightarrow> le s u) \<Longrightarrow> le s (if c then t else u)"
  by simp

lemma le_visit: "(\<And>x t. v = Some x \<Longrightarrow> le t (f x t)) \<Longrightarrow> le s t \<Longrightarrow> le s (visit f v t)"
  by (cases v) (auto simp: visit_def intro: le_trans)

lemma le_fold:
  assumes "\<And>x t. x \<in> set xs \<Longrightarrow> le t (f x t)" and "le s t"
  shows "le s (fold f xs t)"
  by (rule le_trans [OF assms(2) fold_le [OF assms(1)]])

lemma le_each: "(\<And>x t. x \<in> set (Block_statements b) \<Longrightarrow> le t (f x t)) \<Longrightarrow> le s t \<Longrightarrow> le s (eachStatement f b t)"
  unfolding eachStatement_def by (rule le_fold)

lemma le_pairs:
  "(\<And>i x t. (i, x) \<in> set ps \<Longrightarrow> le t (f i x t)) \<Longrightarrow> le s t \<Longrightarrow> le s (fold (\<lambda>(i, x). f i x) ps t)"
  by (rule le_fold) auto

text \<open>A run passes through each of its steps.\<close>

lemma fold_passes:
  assumes "\<And>x s. x \<in> set xs \<Longrightarrow> le s (f x s)" and "x \<in> set xs"
  shows "\<exists>t. le (f x t) (fold f xs s)"
  using assms
proof (induction xs arbitrary: s)
  case (Cons y ys)
  show ?case
  proof (cases "x = y")
    case True
    have "le (f y s) (fold f ys (f y s))" by (rule fold_le) (simp add: Cons.prems(1))
    with True show ?thesis by auto
  next
    case False
    with Cons show ?thesis by simp
  qed
qed simp

end

section \<open>The writes of the walk\<close>

abbreviation recordEscape :: "symid \<Rightarrow> EscapeState \<Rightarrow> EscapeState" where
  "recordEscape y st \<equiv> mirrorEscape y (setChanged (onSymbol y (\<lambda>s. s\<lparr>ey_localEscape := Escape\<rparr>) st))"

abbreviation recordReassigned :: "symid \<Rightarrow> EscapeState \<Rightarrow> EscapeState" where
  "recordReassigned y st \<equiv> setChanged (onSymbol y (\<lambda>s. s\<lparr>ey_reassigned := True\<rparr>) st)"

abbreviation recordFields :: "symid \<Rightarrow> EscapeState \<Rightarrow> EscapeState" where
  "recordFields y st \<equiv> setChanged (onSymbol y (\<lambda>s. s\<lparr>ey_structFieldsMutated := True\<rparr>) st)"

abbreviation recordOwned :: "symid \<Rightarrow> EscapeState \<Rightarrow> EscapeState" where
  "recordOwned y st \<equiv> setChanged (onSymbol y (\<lambda>s. s\<lparr>ey_allAssignsFromParam := False\<rparr>) st)"

abbreviation recordAlias :: "symid \<Rightarrow> symid option \<Rightarrow> EscapeState \<Rightarrow> EscapeState" where
  "recordAlias y z st \<equiv> onSymbol y (\<lambda>s. s\<lparr>ey_aliasOf := z\<rparr>) st"

abbreviation recordMutated :: "symid \<Rightarrow> nat \<Rightarrow> EscapeState \<Rightarrow> EscapeState" where
  "recordMutated f i st \<equiv> setChanged (onSymbol f (\<lambda>s. s\<lparr>ey_escapeInfo :=
     (ey_escapeInfo s)\<lparr>ei_paramMutated := (ei_paramMutated (ey_escapeInfo (en_symbols st f)))[i := True]\<rparr>\<rparr>) st)"

section \<open>Aliases\<close>

text \<open>Marking does not change what aliases what, and ends where the aliases end.\<close>

definition sameAlias :: "EscapeState \<Rightarrow> EscapeState \<Rightarrow> bool" where
  "sameAlias s t \<longleftrightarrow> (\<forall>y. ey_aliasOf (en_symbols t y) = ey_aliasOf (en_symbols s y))"

interpretation aliasing: preorder_ops sameAlias
  by standard (simp_all add: sameAlias_def)

lemma recordEscape_alias: "sameAlias s (recordEscape y s)"
  by (auto simp: sameAlias_def mirrorEscape_def setChanged_def onSymbol_def Let_def split: option.split)

lemma recordFields_alias: "sameAlias s (recordFields y s)"
  by (simp add: sameAlias_def setChanged_def onSymbol_def)

lemma alias_loops_end:
  assumes "aliasRootOf s y = Some r" and "sameAlias s t"
  shows "(\<exists>u. markEscapeLoop (Some y) t = Some u) \<and> (\<exists>u. markFieldsLoop (Some y) t = Some u)"
proof -
  let ?P = "\<lambda>s y r. \<forall>t. sameAlias s t \<longrightarrow> (\<exists>u. markEscapeLoop (Some y) t = Some u) \<and> (\<exists>u. markFieldsLoop (Some y) t = Some u)"
  have none: "markEscapeLoop None u = Some u" "markFieldsLoop None u = Some u" for u
    by (simp_all add: markEscapeLoop.simps markFieldsLoop.simps)
  have "?P s y r"
  proof (rule aliasRootOf.raw_induct [where P = ?P, OF _ assms(1)], goal_cases)
    case (1 root s y r)
    show ?case
    proof (intro allI impI)
      fix t assume t: "sameAlias s t"
      have e: "sameAlias s (recordEscape y t)" and f: "sameAlias s (if c then recordFields y t else t)" for c
        using t aliasing.le_trans recordEscape_alias recordFields_alias by auto
      have same: "ey_aliasOf (en_symbols (recordEscape y t) y) = ey_aliasOf (en_symbols s y)" "ey_aliasOf (en_symbols t y) = ey_aliasOf (en_symbols s y)"
        using e t by (simp_all add: sameAlias_def)
      show "(\<exists>u. markEscapeLoop (Some y) t = Some u) \<and> (\<exists>u. markFieldsLoop (Some y) t = Some u)"
      proof (cases "ey_aliasOf (en_symbols s y)")
        case None
        then show ?thesis by (simp add: markEscapeLoop.simps [of "Some y"] markFieldsLoop.simps [of "Some y"] none same Let_def)
      next
        case (Some z)
        with 1(2) have "root s z = Some r" by simp
        from 1(1) [OF this] e f Some show ?thesis
          by (simp add: markEscapeLoop.simps [of "Some y"] markFieldsLoop.simps [of "Some y"] same Let_def)
      qed
    qed
  qed
  with assms(2) show ?thesis by blast
qed

lemma loop_hangs:
  "markEscapeLoop y s = None \<Longrightarrow> \<exists>x. y = Some x \<and> aliasRootOf s x = None"
  "markFieldsLoop y s = None \<Longrightarrow> \<exists>x. y = Some x \<and> aliasRootOf s x = None"
proof -
  have none: "markEscapeLoop None s = Some s" "markFieldsLoop None s = Some s"
    by (simp_all add: markEscapeLoop.simps markFieldsLoop.simps)
  show "markEscapeLoop y s = None \<Longrightarrow> \<exists>x. y = Some x \<and> aliasRootOf s x = None"
    "markFieldsLoop y s = None \<Longrightarrow> \<exists>x. y = Some x \<and> aliasRootOf s x = None"
    using alias_loops_end [OF _ aliasing.le_refl, of s] none by (cases y; fastforce)+
qed

text \<open>Aliases that go down in some order do not go round in a circle.\<close>

lemma ranked_root: "(\<And>y z. ey_aliasOf (en_symbols s y) = Some z \<Longrightarrow> r z < (r y :: nat)) \<Longrightarrow> \<exists>x. aliasRootOf s y = Some x"
proof (induction "r y" arbitrary: y rule: less_induct)
  case less
  then show ?case by (cases "ey_aliasOf (en_symbols s y)") (auto simp: aliasRootOf.simps [of s y])
qed

text \<open>The symbols that occur are those that satisfy \<open>ok\<close>, a binding may make \<open>y\<close> an alias of \<open>z\<close> when \<open>bound y z\<close>; \<open>inv\<close> holds of the states the walk runs in.\<close>

locale escape_writes = preorder_ops le for le :: "EscapeState \<Rightarrow> EscapeState \<Rightarrow> bool" +
  fixes inv :: "EscapeState \<Rightarrow> bool" and ok :: "symid \<Rightarrow> bool" and bound :: "symid \<Rightarrow> symid \<Rightarrow> bool" and a :: AnalysisResult
  assumes le_inv: "le s t \<Longrightarrow> inv s \<Longrightarrow> inv t" and no_inv: "\<not> inv s \<Longrightarrow> le s t"
    and ok_symbol: "symbolAt a n = Some y \<Longrightarrow> ok y"
    and ok_alias: "inv s \<Longrightarrow> ok y \<Longrightarrow> ey_aliasOf (en_symbols s y) = Some z \<Longrightarrow> ok z"
    and w_escape: "inv s \<Longrightarrow> ok y \<Longrightarrow> ey_localEscape (en_symbols s y) \<noteq> Escape \<Longrightarrow> le s (recordEscape y s)"
    and w_reassigned: "inv s \<Longrightarrow> ok y \<Longrightarrow> \<not> ey_reassigned (en_symbols s y) \<Longrightarrow> le s (recordReassigned y s)"
    and w_fields: "inv s \<Longrightarrow> ok y \<Longrightarrow> \<not> ey_structFieldsMutated (en_symbols s y) \<Longrightarrow> le s (recordFields y s)"
    and w_owned: "inv s \<Longrightarrow> ok y \<Longrightarrow> ey_allAssignsFromParam (en_symbols s y) \<Longrightarrow> le s (recordOwned y s)"
    and ok_binding: "inv s \<Longrightarrow> symbolAt a n = Some y \<Longrightarrow> LetStatement_initializer n = Some e \<or> TypedVarDeclStatement_initializer n = Some e \<Longrightarrow>
      bindingAliasSource a e = Some z \<Longrightarrow> bound y z"
    and w_alias: "inv s \<Longrightarrow> ok y \<Longrightarrow> (\<And>x. v = Some x \<Longrightarrow> ok x \<and> bound y x) \<Longrightarrow> le s (recordAlias y v s)"
    and w_hang: "inv s \<Longrightarrow> ok y \<Longrightarrow> aliasRootOf s y = None \<Longrightarrow> le s (hang s)"
    and w_mutated: "inv s \<Longrightarrow> en_currentFn s = Some f \<Longrightarrow> i < length (ei_paramMutated (ey_escapeInfo (en_symbols s f))) \<Longrightarrow>
      \<not> ei_paramMutated (ey_escapeInfo (en_symbols s f)) ! i \<Longrightarrow> le s (recordMutated f i s)"
begin

lemma le_if_inv: "(inv s \<Longrightarrow> le s t) \<Longrightarrow> le s t"
  by (cases "inv s") (simp_all add: no_inv)

lemma le_step:
  assumes "le s t" and "inv t \<Longrightarrow> le t u"
  shows "le s u"
proof (rule le_trans [OF assms(1)])
  show "le t u" using assms(2) by (rule le_if_inv)
qed

lemmas walk_intros = le_if le_refl le_visit le_fold

lemma markEscapeLoop_le:
  assumes "markEscapeLoop y s = Some t" and "\<And>x. y = Some x \<Longrightarrow> ok x"
  shows "le s t"
proof -
  let ?P = "\<lambda>y s t. (\<forall>x. y = Some x \<longrightarrow> ok x) \<longrightarrow> le s t"
  have "?P y s t"
  proof (rule markEscapeLoop.raw_induct [where P = ?P, OF _ assms(1)], goal_cases)
    case (1 loop y s t)
    show ?case
    proof (rule impI, rule le_if_inv)
      assume oks: "\<forall>x. y = Some x \<longrightarrow> ok x"
      assume i: "inv s"
      show "le s t"
      proof (cases y)
        case (Some x)
        have x: "ok x" using oks Some by simp
        show ?thesis
        proof (cases "ey_localEscape (en_symbols s x) = Escape")
          case False
          let ?u = "recordEscape x s"
          have "loop (ey_aliasOf (en_symbols ?u x)) ?u = Some t" using 1(2) Some False by (simp add: Let_def)
          with 1(1) have "inv ?u \<Longrightarrow> le ?u t" using ok_alias [OF _ x] by blast
          then show ?thesis by (rule le_step [OF w_escape [OF i x False]])
        qed (use 1(2) Some in \<open>simp add: le_refl\<close>)
      qed (use 1(2) in \<open>simp add: le_refl\<close>)
    qed
  qed
  with assms(2) show ?thesis by blast
qed

lemma markSymbolEscape_le:
  assumes "\<And>x. y = Some x \<Longrightarrow> ok x"
  shows "le s (markSymbolEscape y s)"
proof (rule le_if_inv)
  assume i: "inv s"
  show "le s (markSymbolEscape y s)"
    unfolding markSymbolEscape_def afterLoop_def
    using markEscapeLoop_le [OF _ assms] loop_hangs(1) [of y s] w_hang [OF i] assms by (auto split: option.split)
qed

lemma symbol_escape_le: "le s (markSymbolEscape (symbolAt a n) s)"
  by (rule markSymbolEscape_le) (rule ok_symbol)

lemma markSymbolReassigned_le: "ok y \<Longrightarrow> le s (markSymbolReassigned y s)"
  by (rule le_if_inv) (simp add: markSymbolReassigned_def le_refl w_reassigned)

lemma markParamMutated_le: "le s (markParamMutated i s)"
  by (rule le_if_inv) (auto simp: markParamMutated_def le_refl w_mutated Let_def split: option.split)

lemma markFieldsLoop_le:
  assumes "markFieldsLoop y s = Some t" and "\<And>x. y = Some x \<Longrightarrow> ok x"
  shows "le s t"
proof -
  let ?P = "\<lambda>y s t. (\<forall>x. y = Some x \<longrightarrow> ok x) \<longrightarrow> le s t"
  have "?P y s t"
  proof (rule markFieldsLoop.raw_induct [where P = ?P, OF _ assms(1)], goal_cases)
    case (1 loop y s t)
    show ?case
    proof (rule impI, rule le_if_inv)
      assume oks: "\<forall>x. y = Some x \<longrightarrow> ok x"
      assume i: "inv s"
      show "le s t"
      proof (cases y)
        case (Some x)
        have x: "ok x" using oks Some by simp
        show ?thesis
        proof (cases "ey_kind (en_symbols s x) = KVariable")
          case True
          let ?u = "if \<not> ey_structFieldsMutated (en_symbols s x) then recordFields x s else s"
          have "loop (ey_aliasOf (en_symbols s x)) ?u = Some t" using 1(2) Some True by simp
          with 1(1) have "le ?u t" using ok_alias [OF i x] by blast
          moreover have "le s ?u" using w_fields [OF i x] by (simp add: le_refl)
          ultimately show ?thesis by (blast intro: le_trans)
        qed (use 1(2) Some in \<open>simp add: le_refl\<close>)
      qed (use 1(2) in \<open>simp add: le_refl\<close>)
    qed
  qed
  with assms(2) show ?thesis by blast
qed

lemma markFields_le:
  assumes "\<And>x. y = Some x \<Longrightarrow> ok x"
  shows "le s (afterLoop (markFieldsLoop y) s)"
proof (rule le_if_inv)
  assume i: "inv s"
  show "le s (afterLoop (markFieldsLoop y) s)"
    unfolding afterLoop_def
    using markFieldsLoop_le [OF _ assms] loop_hangs(2) [of y s] w_hang [OF i] assms by (auto split: option.split)
qed

lemma updateBorrowMode_le: "ok y \<Longrightarrow> le s (updateBorrowMode h a y e s)"
  by (rule le_if_inv) (simp add: updateBorrowMode_def le_refl w_owned)

lemma markEscapeIfRef_le: "le s (markEscapeIfRef a e s)"
proof (induction "size (green e)" arbitrary: e s rule: less_induct)
  case less
  note IH = le_trans [OF _ less [unfolded below_def [symmetric]]]
  show ?case
    by (subst markEscapeIfRef.simps) (intro walk_intros symbol_escape_le; (rule IH [OF le_refl], ((rule below_dests, assumption) | (rule arm_body_below, assumption, assumption))))
qed

lemma bindingAliasSource_ok: "bindingAliasSource a e = Some z \<Longrightarrow> ok z"
proof (induction "size (green e)" arbitrary: e rule: less_induct)
  case less
  note IH = less(1) [unfolded below_def [symmetric]]
  from less(2) show ?case
    by (subst (asm) bindingAliasSource.simps) (auto split: if_splits option.splits dest: ok_symbol below_dests IH)
qed

lemma bindSymbol_le:
  assumes "ok y" and "\<And>z s. inv s \<Longrightarrow> bindingAliasSource a e = Some z \<Longrightarrow> bound y z"
  shows "le s (bindSymbol h a y e s)"
proof -
  have "inv s \<Longrightarrow> le s (recordAlias y (Some z) s)" if "bindingAliasSource a e = Some z" for z
    using w_alias [OF _ assms(1)] assms(2) bindingAliasSource_ok [OF that] that by blast
  then show ?thesis
    unfolding bindSymbol_def
    by (intro le_trans [OF _ updateBorrowMode_le [OF assms(1)]]) (auto intro: le_if_inv markEscapeIfRef_le split: option.split)
qed

lemma bindDefault_le: "ok y \<Longrightarrow> le s (bindDefault y s)"
  by (rule le_if_inv) (simp add: bindDefault_def le_refl w_owned)

lemmas walk_steps = walk_intros markSymbolReassigned_le [THEN le_trans]

lemma hanging_root_le:
  assumes "aliasRoot s (symbolAt a n) = None"
  shows "le s (hang s)"
proof -
  obtain y where "symbolAt a n = Some y" "aliasRootOf s y = None" using assms by (auto simp: aliasRoot_def split: option.splits)
  then show ?thesis using w_hang ok_symbol le_if_inv by blast
qed

lemma assignMember_le: "le s (assignMember a target value s)"
  unfolding assignMember_def Let_def
  by (rule le_trans [OF _ markEscapeIfRef_le])
    (auto intro: le_refl hanging_root_le le_trans [OF markParamMutated_le markFields_le] dest: ok_symbol split: option.split)

lemma assignIdent_le: "le s (assignIdent h a target value s)"
proof -
  have mark: "le s t \<Longrightarrow> le s (if c then markEscapeIfRef a value t else t)" for c t
    by (simp add: le_trans [OF _ markEscapeIfRef_le])
  have sym: "le s (updateBorrowMode h a y value (recordAlias y None (markParamMutated i (markSymbolReassigned y s))))"
    (is "le s (updateBorrowMode h a y value (recordAlias y None ?t))")
    if "symbolAt a target = Some y" for y i
  proof -
    have y: "ok y" by (rule ok_symbol [OF that])
    have "le s ?t" by (rule le_trans [OF markSymbolReassigned_le [OF y] markParamMutated_le])
    moreover have "le ?t (recordAlias y None ?t)" by (rule le_if_inv) (auto intro: w_alias y)
    ultimately show ?thesis by (blast intro: le_trans updateBorrowMode_le y)
  qed
  show ?thesis
    unfolding assignIdent_def Let_def by (rule mark) (auto intro: sym le_refl split: option.split)
qed

lemma assignEffects_le: "le s (assignEffects h a target value s)"
  by (simp add: assignEffects_def assignMember_le assignIdent_le markEscapeIfRef_le le_refl)

lemma escapeArgument_le: "le s (escapeArgument a callee call i arg s)"
  by (simp add: escapeArgument_def symbol_escape_le le_refl)

lemma bind_visit_le:
  "LetStatement_initializer n = Some e \<or> TypedVarDeclStatement_initializer n = Some e \<Longrightarrow>
     le s (visit (\<lambda>y. bindSymbol h a y e) (symbolAt a n) s)"
  by (rule le_visit [OF bindSymbol_le le_refl]) (auto intro: ok_symbol ok_binding)

lemmas scan_walk = le_if le_each le_visit le_pairs le_fold le_refl

lemma scan_leaf:
  "le s s" "b = a \<Longrightarrow> le s (assignEffects h b target value s)" "b = a \<Longrightarrow> le s (escapeArgument b callee call i e s)"
  "b = a \<Longrightarrow> LetStatement_initializer n = Some e \<Longrightarrow> le s (visit (\<lambda>y. bindSymbol h b y e) (symbolAt b n) s)"
  "b = a \<Longrightarrow> TypedVarDeclStatement_initializer n = Some e \<Longrightarrow> le s (visit (\<lambda>y. bindSymbol h b y e) (symbolAt b n) s)" "b = a \<Longrightarrow> symbolAt b n = Some y \<Longrightarrow> le s (bindDefault y s)"
  "b = a \<Longrightarrow> le s (markEscapeIfRef b e s)"
  by (simp_all add: le_refl assignEffects_le escapeArgument_le bind_visit_le bindDefault_le ok_symbol markEscapeIfRef_le)

lemma scan_le:
  "b = a \<Longrightarrow> le u t \<Longrightarrow> le u (scanStatement h b s t)" "b = a \<Longrightarrow> le u t \<Longrightarrow> le u (scanBlock h b s t)"
  "b = a \<Longrightarrow> le u t \<Longrightarrow> le u (scanIf h b s t)" "b = a \<Longrightarrow> le u t \<Longrightarrow> le u (scanArm h b s t)"
  "b = a \<Longrightarrow> le u t \<Longrightarrow> le u (scanArgument h b callee call i s t)" "b = a \<Longrightarrow> le u t \<Longrightarrow> le u (scanExpression h b s t)"
proof (induction h b s t and h b s t and h b s t and h b s t and h b callee call i s t and h b s t
    arbitrary: u and u and u and u and u and u
    rule: scanStatement_scanBlock_scanIf_scanArm_scanArgument_scanExpression.induct)
  case (1 h b s t)
  show ?case
    by (subst scanStatement.simps, rule le_trans [OF "1.prems"(2)])
      (intro scan_walk; ((rule "1.IH" scan_leaf, ((assumption | rule "1.prems"(1) "1.IH" scan_leaf)+)?); fail))
next
  case (2 h b s t)
  show ?case
    by (subst scanBlock.simps, rule le_trans [OF "2.prems"(2)])
      (intro scan_walk; ((rule "2.IH" scan_leaf, ((assumption | rule "2.prems"(1) "2.IH" scan_leaf)+)?); fail))
next
  case (3 h b s t)
  show ?case
    by (subst scanIf.simps, rule le_trans [OF "3.prems"(2)])
      (intro scan_walk; ((rule "3.IH" scan_leaf, ((assumption | rule "3.prems"(1) "3.IH" scan_leaf)+)?); fail))
next
  case (4 h b s t)
  show ?case
    by (subst scanArm.simps, rule le_trans [OF "4.prems"(2)])
      (intro scan_walk; ((rule "4.IH" scan_leaf, ((assumption | rule "4.prems"(1) "4.IH" scan_leaf)+)?); fail))
next
  case (5 h b callee call i s t)
  show ?case
    by (subst scanArgument.simps, rule le_trans [OF "5.prems"(2)])
      (intro scan_walk; ((rule "5.IH" scan_leaf, ((assumption | rule "5.prems"(1) "5.IH" scan_leaf)+)?); fail))
next
  case (6 h b s t)
  show ?case
    by (subst scanExpression.simps, rule le_trans [OF "6.prems"(2)])
      (intro scan_walk; ((rule "6.IH" scan_leaf, ((assumption | rule refl "6.prems"(1) "6.IH" scan_leaf)+)?); fail))
qed

end

section \<open>A pass over a file\<close>

text \<open>\<open>okParams f n\<close> holds of the function symbols that occur and the number of their parameters.\<close>

locale escape_passes = escape_writes le inv ok bound a for le inv ok bound a +
  fixes okParams :: "symid \<Rightarrow> nat \<Rightarrow> bool"
  assumes w_enter: "okParams f (length ps) \<Longrightarrow> le s (sizeParams f (length ps) (enterFunction f ps s))"
    and w_enterTest: "okParams f 0 \<Longrightarrow> le s (clearParams f (enterFunction f [] s))"
    and w_leave: "le s (leaveFunction f s)"
begin

lemma scanFunction_le: "le s (scanFunction h a fn s)"
  unfolding scanFunction_def by (intro le_fold le_visit scan_le(2) le_refl refl)

lemma escapeThisFields_le: "le s (escapeThisFields a fn s)"
  unfolding escapeThisFields_def by (rule le_fold [OF _ le_refl]) (simp add: symbol_escape_le le_refl)

lemma analyzeFunction_le: "okParams f (length (FuncDecl_parameters fn)) \<Longrightarrow> le s (analyzeFunction h a f fn s)"
  unfolding analyzeFunction_def Let_def
  using w_enter [of f "map (symbolAt a) (FuncDecl_parameters fn)" s]
  by (auto intro!: le_trans [OF _ w_leave] le_trans [OF _ scanFunction_le] le_trans [OF _ escapeThisFields_le])

lemma analyzeTest_le: "okParams f 0 \<Longrightarrow> le s (analyzeTest h a f td s)"
  unfolding analyzeTest_def
  by (rule le_trans [OF _ w_leave], rule le_visit [OF scan_le(2)]) (auto intro: le_refl w_enterTest)

lemma resolved_le: "(\<And>f. symbolAt a n = Some f \<Longrightarrow> le s (op f n s)) \<Longrightarrow> le s (whenResolved a op n s)"
  by (simp add: whenResolved_def le_refl split: option.split)

lemma functions_le:
  assumes "\<And>fn f. fn \<in> set fns \<Longrightarrow> symbolAt a fn = Some f \<Longrightarrow> okParams f (length (FuncDecl_parameters fn))"
  shows "le s (fold (whenResolved a (analyzeFunction h a)) fns s)"
  by (rule le_fold [OF _ le_refl]) (auto intro: resolved_le analyzeFunction_le assms)

lemma tests_le:
  assumes "\<And>td f. td \<in> set tds \<Longrightarrow> symbolAt a td = Some f \<Longrightarrow> okParams f 0"
  shows "le s (fold (whenResolved a (analyzeTest h a)) tds s)"
  by (rule le_fold [OF _ le_refl]) (auto intro: resolved_le analyzeTest_le assms)

end

section \<open>Facts only grow\<close>

abbreviation paramEscapes :: "EscapeState \<Rightarrow> symid \<Rightarrow> nat \<Rightarrow> bool" where
  "paramEscapes st f i \<equiv> (let ps = ei_params (ey_escapeInfo (en_symbols st f)) in i < length ps \<and> ps ! i = Escape)"

definition symbolGrows :: "SymbolEscape \<Rightarrow> SymbolEscape \<Rightarrow> bool" where
  "symbolGrows s t \<longleftrightarrow> ey_kind t = ey_kind s \<and> ey_type t = ey_type s \<and> ey_stackPromoted t = ey_stackPromoted s \<and>
     ey_lastUseRef t = ey_lastUseRef s \<and> (ey_localEscape s = Escape \<longrightarrow> ey_localEscape t = Escape) \<and>
     (ey_reassigned s \<longrightarrow> ey_reassigned t) \<and> (ey_structFieldsMutated s \<longrightarrow> ey_structFieldsMutated t) \<and>
     (ey_allAssignsFromParam t \<longrightarrow> ey_allAssignsFromParam s)"

text \<open>The second part is about a pass that reports no change.\<close>

definition grows :: "EscapeState \<Rightarrow> EscapeState \<Rightarrow> bool" where
  "grows s t \<longleftrightarrow> (\<forall>y. symbolGrows (en_symbols s y) (en_symbols t y)) \<and> (en_changed s \<longrightarrow> en_changed t) \<and>
     (en_hangs s \<longrightarrow> en_hangs t) \<and> (\<not> en_changed t \<longrightarrow> (\<forall>f i. paramEscapes t f i \<longrightarrow> paramEscapes s f i))"

lemma mirrorEscape_symbols:
  "\<And>z. symbolGrows (en_symbols s z) (en_symbols (mirrorEscape y s) z)" "en_changed (mirrorEscape y s) = en_changed s"
  "en_hangs (mirrorEscape y s) = en_hangs s"
  by (auto simp: mirrorEscape_def onSymbol_def symbolGrows_def Let_def split: option.split)

lemma grows_write:
  "(\<And>x. symbolGrows x (f x)) \<Longrightarrow> grows s (setChanged (onSymbol y f s))"
  by (simp add: grows_def setChanged_def onSymbol_def) (simp add: symbolGrows_def)

lemma symbolGrows_trans: "symbolGrows r s \<Longrightarrow> symbolGrows s t \<Longrightarrow> symbolGrows r t"
  by (simp add: symbolGrows_def)

interpretation growing: escape_passes grows "\<lambda>_. True" "\<lambda>_. True" "\<lambda>_ _. True" a "\<lambda>_ _. True" for a
proof unfold_locales
  show "grows s s" for s by (simp add: grows_def symbolGrows_def)
  show "grows s u" if "grows s t" "grows t u" for s t u using that unfolding grows_def by (blast intro: symbolGrows_trans)
  show "grows s (recordEscape y s)" for s y
  proof -
    let ?t = "setChanged (onSymbol y (\<lambda>s. s\<lparr>ey_localEscape := Escape\<rparr>) s)"
    have "grows s ?t" by (rule grows_write) (simp add: symbolGrows_def)
    then show ?thesis
      using mirrorEscape_symbols [where s = ?t and y = y] by (auto simp: grows_def setChanged_def intro: symbolGrows_trans)
  qed
  show "grows s (sizeParams f (length ps) (enterFunction f ps s))" for s f and ps :: "symid option list"
    by (auto simp: sizeParams_def enterFunction_def onSymbol_def grows_def symbolGrows_def Let_def)
  show "grows s (clearParams f (enterFunction f [] s))" "grows s (leaveFunction f s)" for s f
    by (auto simp: clearParams_def enterFunction_def leaveFunction_def onSymbol_def grows_def symbolGrows_def Let_def)
  show "grows s (recordAlias y v s)" for s y v by (simp add: grows_def symbolGrows_def onSymbol_def Let_def)
  show "grows s (hang s)" for s by (simp add: grows_def symbolGrows_def hang_def)
qed (simp_all add: grows_write symbolGrows_def)

section \<open>A pass that changes something leaves fewer facts to change\<close>

definition symbolsOf :: "AnalysisResult \<Rightarrow> symid set" where
  "symbolsOf a = {y. \<exists>n. symbolAt a n = Some y}"

definition factsLeft :: "nat \<Rightarrow> SymbolEscape \<Rightarrow> nat" where
  "factsLeft n s = of_bool (ey_localEscape s \<noteq> Escape) + of_bool (\<not> ey_reassigned s) + of_bool (\<not> ey_structFieldsMutated s) +
     of_bool (ey_allAssignsFromParam s) +
     (let ms = ei_paramMutated (ey_escapeInfo s) in if length ms = n then length (filter Not ms) else n)"

definition factsToGo :: "AnalysisResult \<Rightarrow> (symid \<Rightarrow> nat) \<Rightarrow> EscapeState \<Rightarrow> nat" where
  "factsToGo a n s = (\<Sum>y \<in> symbolsOf a. factsLeft (n y) (en_symbols s y))"

text \<open>\<open>n\<close> gives the number of parameters of each function, \<open>r\<close> an order of the symbols in which a variable comes after the one
  its initializer names.\<close>

definition boundEarlier :: "AnalysisResult \<Rightarrow> (symid \<Rightarrow> nat) \<Rightarrow> bool" where
  "boundEarlier a r \<longleftrightarrow> (\<forall>n y e z. symbolAt a n = Some y \<longrightarrow> LetStatement_initializer n = Some e \<or> TypedVarDeclStatement_initializer n = Some e \<longrightarrow>
     bindingAliasSource a e = Some z \<longrightarrow> r z < r y)"

definition runInv :: "AnalysisResult \<Rightarrow> (symid \<Rightarrow> nat) \<Rightarrow> (symid \<Rightarrow> nat) \<Rightarrow> EscapeState \<Rightarrow> bool" where
  "runInv a n r s \<longleftrightarrow> finite (symbolsOf a) \<and> boundEarlier a r \<and> \<not> en_hangs s \<and>
     (\<forall>y z. ey_aliasOf (en_symbols s y) = Some z \<longrightarrow> z \<in> symbolsOf a \<and> r z < r y) \<and>
     (\<forall>f. let ei = ey_escapeInfo (en_symbols s f) in length (ei_paramMutated ei) = length (ei_params ei)) \<and>
     (\<forall>f. en_currentFn s = Some f \<longrightarrow> f \<in> symbolsOf a \<and> length (ei_paramMutated (ey_escapeInfo (en_symbols s f))) = n f)"

definition descends :: "AnalysisResult \<Rightarrow> (symid \<Rightarrow> nat) \<Rightarrow> (symid \<Rightarrow> nat) \<Rightarrow> EscapeState \<Rightarrow> EscapeState \<Rightarrow> bool" where
  "descends a n r s t \<longleftrightarrow> (runInv a n r s \<longrightarrow> runInv a n r t \<and> (en_changed s \<longrightarrow> en_changed t) \<and>
     factsToGo a n t + of_bool (en_changed t \<and> \<not> en_changed s) \<le> factsToGo a n s)"

lemma factsToGo_upd:
  assumes "runInv a n r s" and "y \<in> symbolsOf a"
  shows "factsToGo a n (onSymbol y f s) + factsLeft (n y) (en_symbols s y) = factsToGo a n s + factsLeft (n y) (f (en_symbols s y))"
proof -
  have f: "finite (symbolsOf a)" using assms(1) by (simp add: runInv_def)
  show ?thesis
    unfolding factsToGo_def sum.remove [OF f assms(2)] by (simp add: onSymbol_def)
qed

lemma factsToGo_more [simp]: "factsToGo a n (setChanged s) = factsToGo a n s"
  "factsToGo a n (s\<lparr>en_changed := c\<rparr>) = factsToGo a n s"
  "factsToGo a n (s\<lparr>en_currentFn := f\<rparr>) = factsToGo a n s" "factsToGo a n (s\<lparr>en_currentParams := ps\<rparr>) = factsToGo a n s"
  by (simp_all add: factsToGo_def setChanged_def)

lemma factsToGo_same:
  "(\<And>y. factsLeft (n y) (en_symbols t y) = factsLeft (n y) (en_symbols s y)) \<Longrightarrow> factsToGo a n t = factsToGo a n s"
  by (simp add: factsToGo_def)

text \<open>A write that turns one fact of a symbol over.\<close>

lemma descends_write:
  assumes "runInv a n r s \<Longrightarrow> y \<in> symbolsOf a \<and> factsLeft (n y) (f (en_symbols s y)) < factsLeft (n y) (en_symbols s y)"
    and "\<And>x. ey_aliasOf (f x) = ey_aliasOf x"
    and "length (ei_params (ey_escapeInfo (f (en_symbols s y)))) = length (ei_params (ey_escapeInfo (en_symbols s y)))"
    and "length (ei_paramMutated (ey_escapeInfo (f (en_symbols s y)))) = length (ei_paramMutated (ey_escapeInfo (en_symbols s y)))"
  shows "descends a n r s (setChanged (onSymbol y f s))"
proof -
  have "runInv a n r s \<Longrightarrow> runInv a n r (setChanged (onSymbol y f s))"
    using assms(2-4) by (auto simp: runInv_def setChanged_def onSymbol_def Let_def)
  then show ?thesis
    using factsToGo_upd [where a = a and n = n and r = r and s = s and y = y and f = f] assms(1) by (auto simp: descends_def setChanged_def)
qed

lemma filter_Not_update: "i < length xs \<Longrightarrow> \<not> xs ! i \<Longrightarrow> length (filter Not (xs[i := True])) < length (filter Not xs)"
proof (induction xs arbitrary: i)
  case (Cons x xs)
  then show ?case by (cases i) auto
qed simp

lemma descends_silent:
  assumes "runInv a n r s \<Longrightarrow> runInv a n r t \<and> factsToGo a n t \<le> factsToGo a n s" and "en_changed t = en_changed s"
  shows "descends a n r s t"
  using assms by (auto simp: descends_def)

lemma descends_trans: "descends a n r s t \<Longrightarrow> descends a n r t u \<Longrightarrow> descends a n r s u"
  by (auto simp: descends_def of_bool_def split: if_splits)

lemma descends_mirror: "descends a n r s (mirrorEscape y s)"
proof (rule descends_silent [OF _ mirrorEscape_symbols(2)])
  assume i: "runInv a n r s"
  have "factsToGo a n (onSymbol f (\<lambda>s. s\<lparr>ey_escapeInfo := (ey_escapeInfo s)\<lparr>ei_params := ps\<rparr>\<rparr>) s) = factsToGo a n s" for f ps
    by (rule factsToGo_same) (simp add: factsLeft_def onSymbol_def)
  with i show "runInv a n r (mirrorEscape y s) \<and> factsToGo a n (mirrorEscape y s) \<le> factsToGo a n s"
    by (auto simp: mirrorEscape_def runInv_def onSymbol_def Let_def split: option.split)
qed

interpretation descending: escape_passes "descends a n r" "runInv a n r" "\<lambda>y. y \<in> symbolsOf a" "\<lambda>y z. r z < r y" a
  "\<lambda>f k. f \<in> symbolsOf a \<and> n f = k" for a n r
proof unfold_locales
  show "descends a n r s s" for s by (simp add: descends_def)
  show "descends a n r s u" if "descends a n r s t" "descends a n r t u" for s t u by (rule descends_trans [OF that])
  show "descends a n r s (recordEscape y s)" if "y \<in> symbolsOf a" "ey_localEscape (en_symbols s y) \<noteq> Escape" for s y
    by (rule descends_trans [OF descends_write descends_mirror]) (use that in \<open>simp_all add: factsLeft_def\<close>)
  show "descends a n r s (recordAlias y v s)" if "runInv a n r s" "y \<in> symbolsOf a" "\<And>x. v = Some x \<Longrightarrow> x \<in> symbolsOf a \<and> r x < r y" for s y v
  proof (rule descends_silent)
    have "factsToGo a n (recordAlias y v s) = factsToGo a n s"
      using factsToGo_upd [OF that(1,2), where f = "\<lambda>s. s\<lparr>ey_aliasOf := v\<rparr>"] by (simp add: factsLeft_def)
    then show "runInv a n r (recordAlias y v s) \<and> factsToGo a n (recordAlias y v s) \<le> factsToGo a n s"
      using that(1,3) by (auto simp: runInv_def onSymbol_def)
  qed (simp add: onSymbol_def)
  show "descends a n r s (recordMutated f i s)"
    if "runInv a n r s" "en_currentFn s = Some f" "i < length (ei_paramMutated (ey_escapeInfo (en_symbols s f)))"
      "\<not> ei_paramMutated (ey_escapeInfo (en_symbols s f)) ! i" for s f i
    by (rule descends_write) (use that filter_Not_update [OF that(3,4)] in \<open>auto simp: factsLeft_def runInv_def\<close>)
  show "descends a n r s (sizeParams f (length ps) (enterFunction f ps s))" if f: "f \<in> symbolsOf a \<and> n f = length ps" for s f ps
  proof (rule descends_silent)
    assume i: "runInv a n r s"
    then have "factsToGo a n (sizeParams f (length ps) (enterFunction f ps s)) = factsToGo a n s"
      using f by (intro factsToGo_same) (auto simp: factsLeft_def sizeParams_def enterFunction_def onSymbol_def runInv_def Let_def)
    with i f show "runInv a n r (sizeParams f (length ps) (enterFunction f ps s)) \<and>
        factsToGo a n (sizeParams f (length ps) (enterFunction f ps s)) \<le> factsToGo a n s"
      by (auto simp: sizeParams_def enterFunction_def onSymbol_def runInv_def Let_def)
  qed (simp add: sizeParams_def enterFunction_def onSymbol_def)
  show "descends a n r s (clearParams f (enterFunction f [] s))" if f: "f \<in> symbolsOf a \<and> n f = 0" for s f
  proof (rule descends_silent)
    assume i: "runInv a n r s"
    have "factsToGo a n (clearParams f (enterFunction f [] s)) = factsToGo a n s"
      using f by (intro factsToGo_same) (auto simp: factsLeft_def clearParams_def enterFunction_def onSymbol_def Let_def)
    with i f show "runInv a n r (clearParams f (enterFunction f [] s)) \<and>
        factsToGo a n (clearParams f (enterFunction f [] s)) \<le> factsToGo a n s"
      by (auto simp: clearParams_def enterFunction_def onSymbol_def runInv_def Let_def)
  qed (simp add: clearParams_def enterFunction_def onSymbol_def)
  show "descends a n r s (leaveFunction f s)" for s f
  proof (rule descends_silent)
    have "factsToGo a n (leaveFunction f s) = factsToGo a n s"
      by (rule factsToGo_same) (simp add: factsLeft_def leaveFunction_def onSymbol_def)
    then show "runInv a n r (leaveFunction f s) \<and> factsToGo a n (leaveFunction f s) \<le> factsToGo a n s" if "runInv a n r s"
      using that by (auto simp: leaveFunction_def onSymbol_def runInv_def Let_def)
  qed (simp add: leaveFunction_def onSymbol_def)
  show "runInv a n r t" if "descends a n r s t" "runInv a n r s" for s t using that by (simp add: descends_def)
  show "descends a n r s t" if "\<not> runInv a n r s" for s t using that by (simp add: descends_def)
  show "y \<in> symbolsOf a" if "symbolAt a m = Some y" for m y using that by (auto simp: symbolsOf_def)
  show "z \<in> symbolsOf a" if "runInv a n r s" "y \<in> symbolsOf a" "ey_aliasOf (en_symbols s y) = Some z" for s y z
    using that by (simp add: runInv_def)
  show "r z < r y" if "runInv a n r s" "symbolAt a m = Some y" "LetStatement_initializer m = Some e \<or> TypedVarDeclStatement_initializer m = Some e"
      "bindingAliasSource a e = Some z" for s m y e z
    using that unfolding runInv_def boundEarlier_def by blast
  show "descends a n r s (hang s)" if "runInv a n r s" "aliasRootOf s y = None" for s y
    using that ranked_root [where s = s and r = r and y = y] by (auto simp: runInv_def)
  show "descends a n r s (recordReassigned y s)" if "y \<in> symbolsOf a" "\<not> ey_reassigned (en_symbols s y)" for s y
    by (rule descends_write) (use that in \<open>simp_all add: factsLeft_def\<close>)
  show "descends a n r s (recordFields y s)" if "y \<in> symbolsOf a" "\<not> ey_structFieldsMutated (en_symbols s y)" for s y
    by (rule descends_write) (use that in \<open>simp_all add: factsLeft_def\<close>)
  show "descends a n r s (recordOwned y s)" if "y \<in> symbolsOf a" "ey_allAssignsFromParam (en_symbols s y)" for s y
    by (rule descends_write) (use that in \<open>simp_all add: factsLeft_def\<close>)
qed

text \<open>The declarations of a file agree on the number of parameters of each function symbol; a test has none.\<close>

definition countsAgree :: "SourceFileView \<Rightarrow> AnalysisResult \<Rightarrow> (symid \<Rightarrow> nat) \<Rightarrow> bool" where
  "countsAgree sf a n \<longleftrightarrow>
     (\<forall>fn \<in> set (functionsOf sf). \<forall>f. symbolAt a fn = Some f \<longrightarrow> n f = length (FuncDecl_parameters fn)) \<and>
     (\<forall>td \<in> set (SourceFileView_tests sf). \<forall>f. symbolAt a td = Some f \<longrightarrow> n f = 0)"

lemma pass_descends:
  assumes "countsAgree sf a n" and "runInv a n r st"
  shows "runInv a n r (escapeRunOnce h sf a st)"
    and "en_changed (escapeRunOnce h sf a st) \<Longrightarrow> factsToGo a n (escapeRunOnce h sf a st) < factsToGo a n st"
proof -
  let ?s = "st\<lparr>en_changed := False\<rparr>" and ?t = "escapeRunOnce h sf a st"
  have "descends a n r ?s ?t"
    unfolding escapeRunOnce_def
    by (rule descends_trans [OF descending.functions_le descending.tests_le])
      (use assms(1) in \<open>auto simp: countsAgree_def symbolsOf_def\<close>)
  moreover have "runInv a n r ?s" using assms(2) by (simp add: runInv_def)
  ultimately show "runInv a n r ?t" "en_changed ?t \<Longrightarrow> factsToGo a n ?t < factsToGo a n st"
    by (auto simp: descends_def)
qed

lemma escapeLoop_returns:
  assumes "countsAgree sf a n" and "runInv a n r st"
  shows "\<exists>st'. escapeLoop h sf a st = Some st'"
  using assms(2)
proof (induction "factsToGo a n st" arbitrary: st rule: less_induct)
  case less
  have quiet: "\<not> en_hangs (escapeRunOnce h sf a st)"
    using pass_descends(1) [OF assms(1) less.prems, of h] by (simp add: runInv_def)
  show ?case
  proof (cases "en_changed (escapeRunOnce h sf a st)")
    case True
    with less.hyps [OF pass_descends(2) [OF assms(1) less.prems True] pass_descends(1) [OF assms(1) less.prems]] show ?thesis
      by (simp add: escapeLoop.simps [of h sf a st] quiet)
  next
    case False
    then show ?thesis by (simp add: escapeLoop.simps [of h sf a st] quiet)
  qed
qed

text \<open>The state the analyzer starts in: no symbol has been written to.\<close>

definition freshSymbols :: "EscapeState \<Rightarrow> bool" where
  "freshSymbols st \<longleftrightarrow> (\<exists>symbols. st = mkEscape symbols \<and> (\<forall>y. \<exists>k t. symbols y = newSymbol k t))"

lemma fresh_runInv: "freshSymbols st \<Longrightarrow> finite (symbolsOf a) \<Longrightarrow> boundEarlier a r \<Longrightarrow> runInv a n r st"
proof -
  assume "freshSymbols st" "finite (symbolsOf a)" "boundEarlier a r"
  then obtain symbols where s: "st = mkEscape symbols" "\<And>y. \<exists>k t. symbols y = newSymbol k t" by (auto simp: freshSymbols_def)
  have "ey_aliasOf (symbols y) = None \<and> ei_params (ey_escapeInfo (symbols y)) = [] \<and> ei_paramMutated (ey_escapeInfo (symbols y)) = []" for y
    using s(2) [of y] by (auto simp: newSymbol_def)
  with \<open>finite (symbolsOf a)\<close> \<open>boundEarlier a r\<close> show ?thesis by (simp add: runInv_def s(1) mkEscape_def Let_def)
qed

end
