(* ===== verification/EscapeSoundness.thy ===== *)
theory EscapeSoundness
  imports EscapeFacts
begin

text \<open>
  What the facts of the escape analysis mean: the marks are closed under the rules of the scan, and what is promoted to
  the stack is a local array without a mark.
\<close>

section \<open>What a walk comes to\<close>

text \<open>The places a walk comes to, as what each is visited, and the places one leads to.\<close>

datatype Part = PStatement Statement | PBlock Block | PIf IfStatement | PArm SwitchArm | PExpression Expression

primrec scanPart :: "('x) Heap_scheme \<Rightarrow> AnalysisResult \<Rightarrow> Part \<Rightarrow> EscapeState \<Rightarrow> EscapeState" where
  "scanPart h a (PStatement s) = scanStatement h a s"
| "scanPart h a (PBlock b) = scanBlock h a b"
| "scanPart h a (PIf s) = scanIf h a s"
| "scanPart h a (PArm arm) = scanArm h a arm"
| "scanPart h a (PExpression e) = scanExpression h a e"

definition statementParts :: "Statement \<Rightarrow> Part set" where
  "statementParts s =
     (if Statement_asBlock s \<noteq> None then {PBlock s}
      else if Statement_asLet s \<noteq> None then PExpression ` set_option (LetStatement_initializer s)
      else if Statement_asTypedVarDecl s \<noteq> None then
        (if TypedVarDeclStatement_initializer s \<noteq> None then PExpression ` set_option (TypedVarDeclStatement_initializer s) else {})
      else if Statement_asIf s \<noteq> None then {PIf s}
      else if Statement_asWhile s \<noteq> None then
        PExpression ` set_option (WhileStatement_condition s) \<union> PBlock ` set_option (WhileStatement_body s)
      else if Statement_asFor s \<noteq> None then
        PStatement ` set_option (ForStatement_init s) \<union> PExpression ` set_option (ForStatement_condition s) \<union>
        PExpression ` set_option (ForStatement_update s) \<union> PBlock ` set_option (ForStatement_body s)
      else if Statement_asForEach s \<noteq> None then
        PExpression ` set_option (ForEachStatement_iterable s) \<union> PBlock ` set_option (ForEachStatement_body s)
      else if Statement_asBreak s \<noteq> None \<or> Statement_asContinue s \<noteq> None then {}
      else if Statement_asReturn s \<noteq> None then PExpression ` set_option (ReturnStatement_value s)
      else if Statement_asExpressionStmt s \<noteq> None then PExpression ` set_option (ExpressionStatement_expression s)
      else if Statement_asThrow s \<noteq> None then PExpression ` set_option (ThrowStatement_value s)
      else if Statement_asRethrow s \<noteq> None then {}
      else if Statement_asSwitch s \<noteq> None then
        PExpression ` set_option (SwitchStatement_scrutinee s) \<union> PArm ` set (SwitchStatement_arms s)
      else {})"

definition ifParts :: "IfStatement \<Rightarrow> Part set" where
  "ifParts s = PExpression ` set_option (IfStatement_condition s) \<union> PBlock ` set_option (IfStatement_thenBlock s) \<union>
     (case IfStatement_elseClause s of None \<Rightarrow> {}
      | Some ec \<Rightarrow> (case ElseClause_ifStatement ec of Some i \<Rightarrow> {PIf i} | None \<Rightarrow> PBlock ` set_option (ElseClause_block ec)))"

definition armParts :: "SwitchArm \<Rightarrow> Part set" where
  "armParts arm = (case SwitchArm_bodyBlockNode arm of Some n \<Rightarrow> PBlock ` set_option (Block_cast n)
     | None \<Rightarrow> PExpression ` set_option (SwitchArm_bodyExpr arm))"

text \<open>An argument that is no identifier is visited; one that is an identifier goes to a parameter.\<close>

definition argumentParts :: "Expression list \<Rightarrow> Part set" where
  "argumentParts args = PExpression ` {x \<in> \<Union> (set_option ` argumentValue ` set args). Expression_asIdent x = None}"

definition expressionParts :: "Expression \<Rightarrow> Part set" where
  "expressionParts e =
     (if Expression_asAssign e \<noteq> None then
        (case (AssignExpression_target e, AssignExpression_value e) of
           (Some target, Some value) \<Rightarrow> {PExpression target, PExpression value} | _ \<Rightarrow> {})
      else if Expression_asCall e \<noteq> None then
        (case CallExpression_callee e of None \<Rightarrow> {}
         | Some callee \<Rightarrow> if Expression_asMember callee \<noteq> None then PExpression ` set_option (MemberExpression_object callee) else {}) \<union>
        argumentParts (CallExpression_arguments e)
      else if Expression_asMember e \<noteq> None then PExpression ` set_option (MemberExpression_object e)
      else if Expression_asSafeMember e \<noteq> None then PExpression ` set_option (SafeMemberExpression_object e)
      else if Expression_asSubscript e \<noteq> None then
        PExpression ` (set_option (SubscriptExpression_object e) \<union> set_option (SubscriptExpression_index e))
      else if Expression_asSafeSubscript e \<noteq> None then
        PExpression ` (set_option (SafeSubscriptExpression_object e) \<union> set_option (SafeSubscriptExpression_index e))
      else if Expression_asCast e \<noteq> None then PExpression ` set_option (CastExpression_source e)
      else if Expression_asCheckedCast e \<noteq> None then PExpression ` set_option (CheckedCastExpression_source e)
      else if Expression_asTypeTest e \<noteq> None then PExpression ` set_option (TypeTestExpression_operand e)
      else if Expression_asOutArgument e \<noteq> None then {}
      else if Expression_asBinary e \<noteq> None then
        PExpression ` (set_option (BinaryExpression_left e) \<union> set_option (BinaryExpression_right e))
      else if Expression_asTernary e \<noteq> None then
        PExpression ` (set_option (TernaryExpression_condition e) \<union> set_option (TernaryExpression_thenBranch e) \<union>
          set_option (TernaryExpression_elseBranch e))
      else if Expression_asNullCoalesce e \<noteq> None then
        PExpression ` (set_option (NullCoalesceExpression_left e) \<union> set_option (NullCoalesceExpression_right e))
      else if Expression_asParen e \<noteq> None then PExpression ` set_option (ParenExpression_inner e)
      else if Expression_asNew e \<noteq> None then
        PExpression ` set (NewExpression_arraySizeExpressions e) \<union> argumentParts (NewExpression_arguments e)
      else if Expression_asArrayLiteral e \<noteq> None then PExpression ` set (ArrayLiteralExpression_elements e)
      else if Expression_asStructLiteral e \<noteq> None then
        PExpression ` \<Union> (set_option ` StructLiteralField_value ` set (StructLiteralExpression_fields e))
      else if Expression_asTry e \<noteq> None then PExpression ` set_option (TryExpression_operand e)
      else if Expression_asSwitch e \<noteq> None then
        PExpression ` set_option (SwitchExpression_scrutinee e) \<union> PArm ` set (SwitchExpression_arms e)
      else if Expression_asPrefix e \<noteq> None then PExpression ` set_option (PrefixExpression_operand e)
      else if Expression_asPostfix e \<noteq> None then PExpression ` set_option (PostfixExpression_operand e)
      else if Expression_asInterpString e \<noteq> None then PExpression ` set (InterpStringExpression_holes e)
      else {})"

primrec partsOf :: "Part \<Rightarrow> Part set" where
  "partsOf (PStatement s) = statementParts s"
| "partsOf (PBlock b) = PStatement ` set (Block_statements b)"
| "partsOf (PIf s) = ifParts s"
| "partsOf (PArm arm) = armParts arm"
| "partsOf (PExpression e) = expressionParts e"

text \<open>All places within a place.\<close>

definition within :: "(Part \<times> Part) set" where
  "within = {(q, p). q \<in> partsOf p}\<^sup>*"

text \<open>The walk visits \<open>q\<close> on the way to \<open>s\<close>.\<close>

definition passes :: "('x) Heap_scheme \<Rightarrow> AnalysisResult \<Rightarrow> Part \<Rightarrow> EscapeState \<Rightarrow> bool" where
  "passes h a q s \<longleftrightarrow> (\<exists>t. grows (scanPart h a q t) s)"

lemma passes_grows: "passes h a q s \<Longrightarrow> grows s t \<Longrightarrow> passes h a q t"
  unfolding passes_def using growing.le_trans by blast

lemma passes_part: "passes h a q (scanPart h a q s)"
  unfolding passes_def using growing.le_refl by blast

lemma passes_now:
  "passes h a (PStatement s) (scanStatement h a s st)" "passes h a (PBlock b) (scanBlock h a b st)"
  "passes h a (PIf s) (scanIf h a s st)" "passes h a (PArm arm) (scanArm h a arm st)"
  "passes h a (PExpression e) (scanExpression h a e st)"
  using passes_part [of h a "PStatement s"] passes_part [of h a "PBlock b"] passes_part [of h a "PIf s"]
    passes_part [of h a "PArm arm"] passes_part [of h a "PExpression e"] by simp_all

lemma scan_grows: "grows st (scanStatement h a s st)" "grows st (scanBlock h a b st)" "grows st (scanIf h a s st)"
  "grows st (scanArm h a arm st)" "grows st (scanArgument h a callee call i e st)" "grows st (scanExpression h a e st)"
  by (rule growing.scan_le [OF refl growing.le_refl])+

lemma passes_visit: "passes h a q s \<Longrightarrow> (\<And>x t. grows t (f x t)) \<Longrightarrow> passes h a q (visit f v s)"
  by (cases v) (auto simp: visit_def intro: passes_grows)

lemma passes_fold: "passes h a q s \<Longrightarrow> (\<And>x t. x \<in> set xs \<Longrightarrow> grows t (f x t)) \<Longrightarrow> passes h a q (fold f xs s)"
  by (blast intro: passes_grows growing.fold_le)

lemma passes_member:
  assumes "x \<in> set xs" and "\<And>t. passes h a q (f x t)" and "\<And>y t. y \<in> set xs \<Longrightarrow> grows t (f y t)"
  shows "passes h a q (fold f xs s)"
proof -
  obtain t where "grows (f x t) (fold f xs s)" using growing.fold_passes [of xs f x s] assms(1,3) by blast
  then show ?thesis using assms(2) passes_grows by blast
qed

lemma visit_simps [simp]: "visit f None s = s" "visit f (Some x) s = f x s"
  by (simp_all add: visit_def)

lemma in_if_passes:
  "q \<in> (if c then A else B) \<Longrightarrow> (c \<Longrightarrow> q \<in> A \<Longrightarrow> passes h a q s) \<Longrightarrow> (\<not> c \<Longrightarrow> q \<in> B \<Longrightarrow> passes h a q t) \<Longrightarrow>
   passes h a q (if c then s else t)"
  by (cases c) simp_all

lemma passes_arm: "arm \<in> set arms \<Longrightarrow> passes h a (PArm arm) (fold (scanArm h a) arms st)"
  by (rule passes_member) (auto intro: passes_now scan_grows)

lemma marked_grows: "grows s t \<Longrightarrow> grows s (scanExpression h a x (markEscapeIfRef a x t))"
  by (rule growing.le_trans [OF _ growing.le_trans [OF growing.markEscapeIfRef_le scan_grows(6)]])

lemma passes_element:
  "x \<in> set xs \<Longrightarrow> passes h a (PExpression x) (fold (scanExpression h a) xs st)"
  "x \<in> set xs \<Longrightarrow> passes h a (PExpression x) (fold (\<lambda>x st. scanExpression h a x (markEscapeIfRef a x st)) xs st)"
  by (rule passes_member; blast intro: passes_now scan_grows marked_grows growing.le_refl)+

lemma passes_field:
  assumes "f \<in> set fs" and "StructLiteralField_value f = Some x"
  shows "passes h a (PExpression x)
    (fold (\<lambda>f. visit (\<lambda>v st. scanExpression h a v (markEscapeIfRef a v st)) (StructLiteralField_value f)) fs st)"
  by (rule passes_member [OF assms(1)])
    (auto simp: assms(2) intro: passes_now growing.le_visit [OF marked_grows] growing.le_refl)

lemmas passes_here = passes_now passes_arm passes_element passes_field

text \<open>What the walk has visited stays visited.\<close>

lemma passes_after:
  assumes "passes h a q s"
  shows "passes h a q (scanStatement h a x s)" "passes h a q (scanBlock h a x s)" "passes h a q (scanIf h a x s)"
    "passes h a q (scanExpression h a x s)" "passes h a q (visit (scanStatement h a) v s)" "passes h a q (visit (scanBlock h a) v s)"
    "passes h a q (visit (scanExpression h a) v s)" "passes h a q (fold (scanArm h a) arms s)"
    "passes h a q (fold (\<lambda>(i, arg). scanArgument h a callee call i arg) args s)"
  using assms by (auto intro!: passes_visit passes_fold scan_grows intro: passes_grows [OF _ scan_grows(1)]
      passes_grows [OF _ scan_grows(2)] passes_grows [OF _ scan_grows(3)] passes_grows [OF _ scan_grows(6)])

lemma passes_set:
  "q \<in> PStatement ` set_option v \<Longrightarrow> passes h a q (visit (scanStatement h a) v s)"
  "q \<in> PBlock ` set_option w \<Longrightarrow> passes h a q (visit (scanBlock h a) w s)"
  "q \<in> PExpression ` set_option u \<Longrightarrow> passes h a q (visit (scanExpression h a) u s)"
  "q \<in> PArm ` set arms \<Longrightarrow> passes h a q (fold (scanArm h a) arms s)"
  "q \<in> PExpression ` set xs \<Longrightarrow> passes h a q (fold (scanExpression h a) xs s)"
  by (auto intro: passes_here)

lemma statement_passes: "q \<in> statementParts s \<Longrightarrow> passes h a q (scanStatement h a s st)"
  unfolding statementParts_def
  by (subst scanStatement.simps, elim in_if_passes; clarsimp; blast intro: passes_here passes_set passes_after)

lemma block_passes: "q \<in> PStatement ` set (Block_statements b) \<Longrightarrow> passes h a q (scanBlock h a b st)"
  unfolding scanBlock.simps eachStatement_def by (auto intro!: passes_member passes_now scan_grows)

lemma if_passes: "q \<in> ifParts s \<Longrightarrow> passes h a q (scanIf h a s st)"
  unfolding ifParts_def
  by (subst scanIf.simps) (clarsimp split: option.splits; blast intro: passes_here passes_set passes_after)

lemma arm_passes: "q \<in> armParts arm \<Longrightarrow> passes h a q (scanArm h a arm st)"
  unfolding armParts_def
  by (subst scanArm.simps) (auto simp: Block_cast_def castTo_def intro!: passes_now split: option.splits if_splits)

lemma argument_passes:
  assumes "q \<in> argumentParts args"
  shows "passes h a q (fold (\<lambda>(i, arg). scanArgument h a callee call i arg) (enumerate 0 args) st)"
proof -
  from assms obtain arg x where x: "arg \<in> set args" "argumentValue arg = Some x" "Expression_asIdent x = None" "q = PExpression x"
    by (auto simp: argumentParts_def)
  then obtain i where i: "(i, arg) \<in> set (enumerate 0 args)"
    by (auto simp: in_set_conv_nth enumerate_eq_zip set_zip)
  show ?thesis
    by (rule passes_member [OF i]) (auto simp: x scanArgument.simps intro: passes_now scan_grows)
qed

lemma expression_passes: "q \<in> expressionParts e \<Longrightarrow> passes h a q (scanExpression h a e st)"
  unfolding expressionParts_def
  by (subst scanExpression.simps, elim in_if_passes; clarsimp simp: image_Un split: option.splits if_splits; blast intro: passes_here passes_set passes_after argument_passes)

lemma part_passes: "q \<in> partsOf p \<Longrightarrow> passes h a q (scanPart h a p st)"
  by (cases p) (auto simp: statement_passes block_passes if_passes arm_passes expression_passes)

lemma passes_through: "passes h a p s \<Longrightarrow> (\<And>st. passes h a q (scanPart h a p st)) \<Longrightarrow> passes h a q s"
  unfolding passes_def [of h a p] by (blast intro: passes_grows)

lemma within_passes: "(q, p) \<in> within \<Longrightarrow> passes h a q (scanPart h a p st)"
  unfolding within_def
proof (induction arbitrary: st rule: converse_rtrancl_induct)
  case base
  show ?case by (rule passes_part)
next
  case (step r q)
  then show ?case by (blast intro: passes_through part_passes)
qed

section \<open>What a pass comes to\<close>

text \<open>The bodies of the declarations that resolve to a symbol.\<close>

definition scannedBlocks :: "SourceFileView \<Rightarrow> AnalysisResult \<Rightarrow> Block set" where
  "scannedBlocks sf a =
     (\<Union>fn \<in> {fn \<in> set (functionsOf sf). symbolAt a fn \<noteq> None}.
        set_option (FuncDecl_body fn) \<union> (\<Union>cc \<in> set (FuncDecl_catchClauses fn). set_option (CatchClause_body cc))) \<union>
     (\<Union>td \<in> {td \<in> set (SourceFileView_tests sf). symbolAt a td \<noteq> None}. set_option (TestDecl_body td))"

lemma scanFunction_passes:
  "FuncDecl_body fn = Some b \<or> (\<exists>cc \<in> set (FuncDecl_catchClauses fn). CatchClause_body cc = Some b) \<Longrightarrow>
   passes h a (PBlock b) (scanFunction h a fn st)"
proof -
  have step: "grows t (visit (scanBlock h a) (CatchClause_body cc) t)" for cc t
    by (rule growing.le_visit [OF scan_grows(2) growing.le_refl])
  assume "FuncDecl_body fn = Some b \<or> (\<exists>cc \<in> set (FuncDecl_catchClauses fn). CatchClause_body cc = Some b)"
  then show ?thesis
  proof (elim disjE bexE)
    assume "FuncDecl_body fn = Some b"
    then show ?thesis unfolding scanFunction_def by (simp add: passes_fold [OF passes_now(2) step])
  next
    fix cc assume cc: "cc \<in> set (FuncDecl_catchClauses fn)" "CatchClause_body cc = Some b"
    show ?thesis unfolding scanFunction_def by (rule passes_member [OF cc(1) _ step]) (simp add: cc(2) passes_now)
  qed
qed

lemma whenResolved_passes:
  assumes "n \<in> set ns" and "symbolAt a n = Some f" and "\<And>f n t. grows t (op f n t)" and "\<And>t. passes h a q (op f n t)"
  shows "passes h a q (fold (whenResolved a op) ns st)"
  by (rule passes_member [OF assms(1)])
    (use assms(2-4) in \<open>auto simp: whenResolved_def growing.le_refl split: option.split\<close>)

lemma pass_passes:
  assumes "b \<in> scannedBlocks sf a"
  shows "passes h a (PBlock b) (escapeRunOnce h sf a st)"
proof -
  have fs: "grows t (analyzeFunction h a f n t)" and ts: "grows t (analyzeTest h a f n t)" for f n t
    by (simp_all add: growing.analyzeFunction_le growing.analyzeTest_le)
  have leave: "passes h a q t \<Longrightarrow> passes h a q (leaveFunction f t)" for q f t
    by (rule passes_grows [OF _ growing.w_leave])
  from assms consider fn f where "fn \<in> set (functionsOf sf)" "symbolAt a fn = Some f"
      "FuncDecl_body fn = Some b \<or> (\<exists>cc \<in> set (FuncDecl_catchClauses fn). CatchClause_body cc = Some b)"
    | td f where "td \<in> set (SourceFileView_tests sf)" "symbolAt a td = Some f" "TestDecl_body td = Some b"
    by (fastforce simp: scannedBlocks_def)
  then show ?thesis
  proof cases
    case 1
    have "passes h a (PBlock b) (analyzeFunction h a f fn t)" for t
      unfolding analyzeFunction_def Let_def by (rule leave [OF scanFunction_passes [OF 1(3)]])
    from whenResolved_passes [OF 1(1,2), where op = "analyzeFunction h a", OF fs this] show ?thesis
      unfolding escapeRunOnce_def by (blast intro: passes_grows growing.tests_le)
  next
    case 2
    have "passes h a (PBlock b) (analyzeTest h a f td t)" for t
      unfolding analyzeTest_def by (rule leave) (simp add: 2(3) passes_now)
    from whenResolved_passes [OF 2(1,2), where op = "analyzeTest h a", OF ts this] show ?thesis unfolding escapeRunOnce_def by blast
  qed
qed

section \<open>Values that leave\<close>

text \<open>The symbols an expression may have the value of.\<close>

inductive refers :: "AnalysisResult \<Rightarrow> symid \<Rightarrow> Expression \<Rightarrow> bool" for a y where
  refers_ident: "Expression_asIdent e \<noteq> None \<Longrightarrow> symbolAt a e = Some y \<Longrightarrow> refers a y e"
| refers_paren: "Expression_asParen e \<noteq> None \<Longrightarrow> ParenExpression_inner e = Some i \<Longrightarrow> refers a y i \<Longrightarrow> refers a y e"
| refers_cast: "Expression_asCheckedCast e \<noteq> None \<Longrightarrow> CheckedCastExpression_source e = Some i \<Longrightarrow> refers a y i \<Longrightarrow> refers a y e"
| refers_then: "Expression_asTernary e \<noteq> None \<Longrightarrow> TernaryExpression_thenBranch e = Some i \<Longrightarrow> refers a y i \<Longrightarrow> refers a y e"
| refers_else: "Expression_asTernary e \<noteq> None \<Longrightarrow> TernaryExpression_elseBranch e = Some i \<Longrightarrow> refers a y i \<Longrightarrow> refers a y e"
| refers_arm: "Expression_asSwitch e \<noteq> None \<Longrightarrow> arm \<in> set (SwitchExpression_arms e) \<Longrightarrow> SwitchArm_bodyExpr arm = Some i \<Longrightarrow>
    refers a y i \<Longrightarrow> refers a y e"

lemmas expression_kinds = Expression_asIdent_def Expression_asParen_def Expression_asCheckedCast_def Expression_asTernary_def
  Expression_asSwitch_def castTo_def IdentExpression_cast_def ParenExpression_cast_def CheckedCastExpression_cast_def
  TernaryExpression_cast_def SwitchExpression_cast_def

text \<open>A state in which a loop did not end is no result, so nothing is asked of it.\<close>

definition escaped :: "EscapeState \<Rightarrow> symid \<Rightarrow> bool" where
  "escaped st y \<longleftrightarrow> en_hangs st \<or> ey_localEscape (en_symbols st y) = Escape"

lemma escaped_grows: "escaped s y \<Longrightarrow> grows s t \<Longrightarrow> escaped t y"
  by (auto simp: escaped_def grows_def symbolGrows_def)

lemma markSymbolEscape_escaped: "escaped (markSymbolEscape (Some y) st) y"
proof (cases "markEscapeLoop (Some y) st")
  case None
  then show ?thesis by (simp add: escaped_def markSymbolEscape_def afterLoop_def hang_def)
next
  case (Some t)
  show ?thesis
  proof (cases "ey_localEscape (en_symbols st y) = Escape")
    case True
    with Some show ?thesis by (auto simp: escaped_def markSymbolEscape_def afterLoop_def markEscapeLoop.simps [of "Some y"])
  next
    case False
    let ?u = "recordEscape y st"
    have "escaped ?u y"
      using mirrorEscape_symbols(1) [where s = "setChanged (onSymbol y (\<lambda>s. s\<lparr>ey_localEscape := Escape\<rparr>) st)" and y = y and z = y]
      by (simp add: escaped_def symbolGrows_def setChanged_def onSymbol_def)
    moreover have "markEscapeLoop (ey_aliasOf (en_symbols ?u y)) ?u = Some t"
      using Some False by (simp add: markEscapeLoop.simps [of "Some y"] Let_def)
    then have "grows ?u t" by (rule growing.markEscapeLoop_le) simp
    ultimately show ?thesis using Some escaped_grows [of ?u y t] by (simp add: markSymbolEscape_def afterLoop_def)
  qed
qed

lemma mark_kinds:
  "Expression_asParen e \<noteq> None \<Longrightarrow> markEscapeIfRef a e st = visit (markEscapeIfRef a) (ParenExpression_inner e) st"
  "Expression_asCheckedCast e \<noteq> None \<Longrightarrow> markEscapeIfRef a e st = visit (markEscapeIfRef a) (CheckedCastExpression_source e) st"
  "Expression_asTernary e \<noteq> None \<Longrightarrow> markEscapeIfRef a e st =
     visit (markEscapeIfRef a) (TernaryExpression_elseBranch e) (visit (markEscapeIfRef a) (TernaryExpression_thenBranch e) st)"
  "Expression_asSwitch e \<noteq> None \<Longrightarrow> markEscapeIfRef a e st =
     fold (\<lambda>arm. visit (markEscapeIfRef a) (SwitchArm_bodyExpr arm)) (SwitchExpression_arms e) st"
  by (subst markEscapeIfRef.simps, simp add: expression_kinds split: if_splits)+

lemma mark_visit_grows: "grows s (visit (markEscapeIfRef a) v s)"
  by (rule growing.le_visit [OF growing.markEscapeIfRef_le growing.le_refl])

lemma mark_visit_escaped: "escaped s y \<Longrightarrow> escaped (visit (markEscapeIfRef a) v s) y"
  by (rule escaped_grows [OF _ mark_visit_grows])

lemma refers_marks: "refers a y e \<Longrightarrow> escaped (markEscapeIfRef a e st) y"
proof (induction arbitrary: st rule: refers.induct)
  case (refers_ident e)
  then show ?case by (subst markEscapeIfRef.simps) (simp add: markSymbolEscape_escaped)
next
  case (refers_arm e arm i)
  let ?f = "\<lambda>arm. visit (markEscapeIfRef a) (SwitchArm_bodyExpr arm)"
  obtain t where "grows (?f arm t) (fold ?f (SwitchExpression_arms e) st)"
    using growing.fold_passes [where f = ?f and s = st, OF mark_visit_grows refers_arm(2)] by blast
  moreover have "escaped (?f arm t) y" for t by (simp add: refers_arm(3) refers_arm.IH)
  ultimately show ?case unfolding mark_kinds(4) [OF refers_arm(1)] by (rule escaped_grows [rotated])
qed (simp_all add: mark_kinds mark_visit_escaped)

text \<open>A value leaves its function when it is returned, thrown, put into an array or a struct literal or assigned to a
  member or an element, and when it is an argument of a call or a constructor that is not known to keep it.\<close>

inductive argumentOf :: "AnalysisResult \<Rightarrow> Expression \<Rightarrow> symid option \<Rightarrow> nat \<Rightarrow> symid \<Rightarrow> bool" for a where
  "Expression_asCall e \<noteq> None \<Longrightarrow> i < length (CallExpression_arguments e) \<Longrightarrow>
     argumentValue (CallExpression_arguments e ! i) = Some x \<Longrightarrow> Expression_asIdent x \<noteq> None \<Longrightarrow> symbolAt a x = Some y \<Longrightarrow>
     argumentOf a e (calleeSymbol a e) (argumentParam a e i) y"
| "Expression_asNew e \<noteq> None \<Longrightarrow> i < length (NewExpression_arguments e) \<Longrightarrow>
     argumentValue (NewExpression_arguments e ! i) = Some x \<Longrightarrow> Expression_asIdent x \<noteq> None \<Longrightarrow> symbolAt a x = Some y \<Longrightarrow>
     argumentOf a e (constructorSymbol a e) (argumentParam a e i) y"

inductive leavesAt :: "AnalysisResult \<Rightarrow> EscapeState \<Rightarrow> Part \<Rightarrow> symid \<Rightarrow> bool" for a st where
  leaves_return: "Statement_asReturn s \<noteq> None \<Longrightarrow> ReturnStatement_value s = Some v \<Longrightarrow> refers a y v \<Longrightarrow> leavesAt a st (PStatement s) y"
| leaves_throw: "Statement_asThrow s \<noteq> None \<Longrightarrow> ThrowStatement_value s = Some v \<Longrightarrow> refers a y v \<Longrightarrow> leavesAt a st (PStatement s) y"
| leaves_element: "Expression_asArrayLiteral e \<noteq> None \<Longrightarrow> v \<in> set (ArrayLiteralExpression_elements e) \<Longrightarrow> refers a y v \<Longrightarrow>
    leavesAt a st (PExpression e) y"
| leaves_field: "Expression_asStructLiteral e \<noteq> None \<Longrightarrow> f \<in> set (StructLiteralExpression_fields e) \<Longrightarrow>
    StructLiteralField_value f = Some v \<Longrightarrow> refers a y v \<Longrightarrow> leavesAt a st (PExpression e) y"
| leaves_store: "Expression_asAssign e \<noteq> None \<Longrightarrow> AssignExpression_target e = Some t \<Longrightarrow> AssignExpression_value e = Some v \<Longrightarrow>
    Expression_asMember t \<noteq> None \<or> Expression_asSubscript t \<noteq> None \<Longrightarrow> refers a y v \<Longrightarrow> leavesAt a st (PExpression e) y"
| leaves_argument: "argumentOf a e None k y \<Longrightarrow> leavesAt a st (PExpression e) y"
| leaves_parameter: "argumentOf a e (Some f) k y \<Longrightarrow> paramEscapes st f k \<Longrightarrow> leavesAt a st (PExpression e) y"

lemmas scan_statement_kinds = castTo_None Statement_asBlock_def Statement_asLet_def Statement_asTypedVarDecl_def
  Statement_asIf_def Statement_asWhile_def Statement_asFor_def Statement_asForEach_def Statement_asBreak_def
  Statement_asContinue_def Statement_asReturn_def Statement_asExpressionStmt_def Statement_asThrow_def Block_cast_def
  LetStatement_cast_def TypedVarDeclStatement_cast_def IfStatement_cast_def WhileStatement_cast_def
  ForStatement_cast_def ForEachStatement_cast_def BreakStatement_cast_def ContinueStatement_cast_def
  ReturnStatement_cast_def ExpressionStatement_cast_def ThrowStatement_cast_def

lemmas scan_expression_kinds = castTo_None Expression_asAssign_def Expression_asCall_def Expression_asMember_def
  Expression_asSafeMember_def Expression_asSubscript_def Expression_asSafeSubscript_def Expression_asCast_def
  Expression_asCheckedCast_def Expression_asTypeTest_def Expression_asOutArgument_def Expression_asBinary_def
  Expression_asTernary_def Expression_asNullCoalesce_def Expression_asParen_def Expression_asNew_def
  Expression_asArrayLiteral_def Expression_asStructLiteral_def AssignExpression_cast_def CallExpression_cast_def
  MemberExpression_cast_def SafeMemberExpression_cast_def SubscriptExpression_cast_def
  SafeSubscriptExpression_cast_def CastExpression_cast_def CheckedCastExpression_cast_def TypeTestExpression_cast_def
  OutArgument_cast_def BinaryExpression_cast_def TernaryExpression_cast_def NullCoalesceExpression_cast_def
  ParenExpression_cast_def NewExpression_cast_def ArrayLiteralExpression_cast_def StructLiteralExpression_cast_def

lemma scan_statements:
  "Statement_asReturn s \<noteq> None \<Longrightarrow> scanStatement h a s st =
     visit (\<lambda>v st. scanExpression h a v (markEscapeIfRef a v st)) (ReturnStatement_value s) st"
  "Statement_asThrow s \<noteq> None \<Longrightarrow> scanStatement h a s st =
     visit (\<lambda>v st. scanExpression h a v (markEscapeIfRef a v st)) (ThrowStatement_value s) st"
  by (subst scanStatement.simps, simp add: scan_statement_kinds del: not_None_eq)+

lemma scan_expressions:
  "Expression_asAssign e \<noteq> None \<Longrightarrow> scanExpression h a e st =
     visit (\<lambda>target st. visit (\<lambda>value st.
            scanExpression h a value (scanExpression h a target (assignEffects h a target value st))) (AssignExpression_value e) st)
          (AssignExpression_target e) st"
  "Expression_asCall e \<noteq> None \<Longrightarrow> \<exists>t. scanExpression h a e st =
     fold (\<lambda>(i, arg) st. scanArgument h a (calleeSymbol a e) e i arg st) (enumerate 0 (CallExpression_arguments e)) t"
  "Expression_asNew e \<noteq> None \<Longrightarrow> \<exists>t. scanExpression h a e st =
     fold (\<lambda>(i, arg) st. scanArgument h a (constructorSymbol a e) e i arg st) (enumerate 0 (NewExpression_arguments e)) t"
  "Expression_asArrayLiteral e \<noteq> None \<Longrightarrow> scanExpression h a e st =
     fold (\<lambda>x st. scanExpression h a x (markEscapeIfRef a x st)) (ArrayLiteralExpression_elements e) st"
  "Expression_asStructLiteral e \<noteq> None \<Longrightarrow> scanExpression h a e st =
     fold (\<lambda>f st. visit (\<lambda>v st. scanExpression h a v (markEscapeIfRef a v st)) (StructLiteralField_value f) st)
       (StructLiteralExpression_fields e) st"
  by (subst scanExpression.simps, simp add: scan_expression_kinds del: not_None_eq; (rule exI, rule refl)?)+

lemma scanned_escaped: "refers a y v \<Longrightarrow> escaped (scanExpression h a v (markEscapeIfRef a v st)) y"
  by (rule escaped_grows [OF refers_marks scan_grows(6)])

lemma fold_escaped:
  assumes "x \<in> set xs" and "\<And>t. escaped (f x t) y" and "\<And>x t. x \<in> set xs \<Longrightarrow> grows t (f x t)"
  shows "escaped (fold f xs s) y"
  using growing.fold_passes [of xs f x s] assms escaped_grows by blast

lemma assignEffects_escaped:
  assumes "Expression_asMember t \<noteq> None \<or> Expression_asSubscript t \<noteq> None" and "refers a y v"
  shows "escaped (assignEffects h a t v st) y"
proof -
  have "Expression_asIdent t = None"
    using assms(1) by (auto simp: Expression_asMember_def Expression_asSubscript_def Expression_asIdent_def
        MemberExpression_cast_def SubscriptExpression_cast_def IdentExpression_cast_def castTo_def split: if_splits)
  with assms show ?thesis by (auto simp: assignEffects_def assignMember_def intro: refers_marks)
qed

lemma argument_passed:
  assumes "argumentOf a e callee k y" and "passes h a (PExpression e) s"
  shows "\<exists>t. (calleeEscapes t callee k \<longrightarrow> escaped s y) \<and> grows t s"
proof -
  have go: "\<exists>u. (calleeEscapes u callee (argumentParam a e i) \<longrightarrow> escaped s y) \<and> grows u s"
    if args: "i < length args" "argumentValue (args ! i) = Some x" "Expression_asIdent x \<noteq> None" "symbolAt a x = Some y"
      and f: "grows (fold (\<lambda>(i, arg) st. scanArgument h a callee e i arg st) (enumerate 0 args) t) s" for args i x t
  proof -
    let ?f = "\<lambda>(i, arg). scanArgument h a callee e i arg"
    have "(i, args ! i) \<in> set (enumerate 0 args)" using args(1) by (simp add: in_set_enumerate_eq)
    then obtain u where "grows (?f (i, args ! i) u) (fold ?f (enumerate 0 args) t)"
      using growing.fold_passes [of "enumerate 0 args" ?f "(i, args ! i)" t] scan_grows(5) by fast
    with f have g: "grows (scanArgument h a callee e i (args ! i) u) s" by (auto intro: growing.le_trans)
    have "scanArgument h a callee e i (args ! i) u = escapeArgument a callee e i x u"
      using args(2,3) by (simp add: scanArgument.simps)
    with g args(4) have "calleeEscapes u callee (argumentParam a e i) \<longrightarrow> escaped s y"
      using escaped_grows [OF markSymbolEscape_escaped] by (auto simp: escapeArgument_def)
    with g show ?thesis using growing.le_trans [OF scan_grows(5)] by blast
  qed
  obtain t where t: "grows (scanExpression h a e t) s" using assms(2) by (auto simp: passes_def)
  from assms(1) show ?thesis
  proof cases
    case 1
    then show ?thesis using scan_expressions(2) [of e h a t] t go [of _ "CallExpression_arguments e"] by metis
  next
    case 2
    then show ?thesis using scan_expressions(3) [of e h a t] t go [of _ "NewExpression_arguments e"] by metis
  qed
qed

lemma leaving_escaped:
  assumes "leavesAt a s p y" and "passes h a p s" and "\<not> en_changed s"
  shows "escaped s y"
proof -
  obtain t where t: "grows (scanPart h a p t) s" using assms(2) by (auto simp: passes_def)
  have final: "escaped (scanPart h a p t) y \<Longrightarrow> escaped s y" using t by (rule escaped_grows [rotated])
  from assms(1) show ?thesis
  proof cases
    case (leaves_return r v)
    show ?thesis by (rule final) (simp add: leaves_return scan_statements scanned_escaped)
  next
    case (leaves_throw r v)
    show ?thesis by (rule final) (simp add: leaves_throw scan_statements scanned_escaped)
  next
    case (leaves_element e v)
    show ?thesis
      by (rule final) (auto simp: leaves_element scan_expressions(4) intro!: fold_escaped [OF leaves_element(3)]
          scanned_escaped marked_grows growing.le_refl leaves_element(4))
  next
    case (leaves_field e f v)
    show ?thesis
      by (rule final) (auto simp: leaves_field scan_expressions(5) intro!: fold_escaped [OF leaves_field(3)]
          scanned_escaped growing.le_visit marked_grows growing.le_refl leaves_field(5))
  next
    case (leaves_store e l v)
    have "escaped (scanExpression h a v (scanExpression h a l (assignEffects h a l v t))) y"
      using escaped_grows [OF escaped_grows [OF assignEffects_escaped [OF leaves_store(5,6)] scan_grows(6)] scan_grows(6)] .
    then show ?thesis by (intro final) (simp add: leaves_store(1-4) scan_expressions(1))
  next
    case (leaves_argument e k)
    then show ?thesis using argument_passed [of a e None k y h s] assms(2) by (auto simp: calleeEscapes_def)
  next
    case (leaves_parameter e f k)
    obtain u where u: "calleeEscapes u (Some f) k \<longrightarrow> escaped s y" "grows u s"
      using argument_passed [OF leaves_parameter(2), of h s] assms(2) leaves_parameter(1) by blast
    have "paramEscapes u f k" using u(2) assms(3) leaves_parameter(3) by (auto simp: grows_def)
    with u(1) show ?thesis by (auto simp: calleeEscapes_def Let_def)
  qed
qed

section \<open>Last uses and promotions change nothing else\<close>

text \<open>What may be promoted: a local array that does not escape and is not assigned again.\<close>

definition stackable :: "('x) Heap_scheme \<Rightarrow> SymbolEscape \<Rightarrow> bool" where
  "stackable h s \<longleftrightarrow> ey_kind s = KVariable \<and> (\<exists>t. ey_type s = Some t \<and> kind h t = TyArray \<and> t_inner (ty h t) \<noteq> None) \<and>
     ey_localEscape s = NoEscape \<and> \<not> ey_reassigned s"

definition promotes :: "('x) Heap_scheme \<Rightarrow> EscapeState \<Rightarrow> EscapeState \<Rightarrow> bool" where
  "promotes h s t \<longleftrightarrow> (\<forall>y. en_symbols t y = en_symbols s y \<or>
     (stackable h (en_symbols s y) \<and> en_symbols t y = (en_symbols s y)\<lparr>ey_stackPromoted := True\<rparr>))"

interpretation promoting: preorder_ops "promotes h" for h :: "('x) Heap_scheme"
proof
  show "promotes h s s" for s by (simp add: promotes_def)
  show "promotes h s u" if st: "promotes h s t" and tu: "promotes h t u" for s t u
    unfolding promotes_def
  proof
    fix y
    show "en_symbols u y = en_symbols s y \<or>
        (stackable h (en_symbols s y) \<and> en_symbols u y = (en_symbols s y)\<lparr>ey_stackPromoted := True\<rparr>)"
      using st [unfolded promotes_def, rule_format, of y] tu [unfolded promotes_def, rule_format, of y] by auto
  qed
qed

lemma consider_promotes: "promotes h s (considerLocalForPromotion h y i s)"
  by (auto simp: considerLocalForPromotion_def promotes_def stackable_def onSymbol_def Let_def split: option.splits)

lemma walkStmtForPromotion_promotes: "promotes h st (walkStmtForPromotion h a s st)"
proof (induction h a s st rule: walkStmtForPromotion.induct)
  case (1 h a s st)
  show ?case
    by (subst walkStmtForPromotion.simps)
      (intro promoting.le_if promoting.le_visit promoting.le_fold promoting.le_each promoting.le_refl consider_promotes;
       ((rule "1.IH", assumption+); fail))
qed

lemma decide_promotes: "promotes h st (decideStackPromotions h sf a st)"
  unfolding decideStackPromotions_def walkBodyForPromotion_def walkBlockForPromotion_def
  by (intro promoting.le_fold promoting.le_visit promoting.le_each promoting.le_refl walkStmtForPromotion_promotes)

text \<open>A last use is a read of the variable.\<close>

definition readOf :: "('x) Heap_scheme \<Rightarrow> AnalysisResult \<Rightarrow> symid \<Rightarrow> SymbolEscape \<Rightarrow> Expression \<Rightarrow> bool" where
  "readOf h a y s e \<longleftrightarrow> Expression_asIdent e \<noteq> None \<and> symbolAt a e = Some y \<and> ey_kind s = KVariable \<and> classOrOptional h (ey_type s)"

definition readsOnly :: "('x) Heap_scheme \<Rightarrow> AnalysisResult \<Rightarrow> EscapeState \<Rightarrow> EscapeState \<Rightarrow> bool" where
  "readsOnly h a s t \<longleftrightarrow> (\<forall>y. let p = en_symbols s y; q = en_symbols t y in
     q\<lparr>ey_lastUseRef := None, ey_lastUseInLoop := False\<rparr> = p\<lparr>ey_lastUseRef := None, ey_lastUseInLoop := False\<rparr> \<and>
     (ey_lastUseRef q = ey_lastUseRef p \<or> (\<exists>e. ey_lastUseRef q = Some e \<and> readOf h a y p e)))"

lemma readsOnly_symbol:
  assumes "readsOnly h a s t"
  shows "ey_kind (en_symbols t y) = ey_kind (en_symbols s y)" "ey_type (en_symbols t y) = ey_type (en_symbols s y)"
    "ey_localEscape (en_symbols t y) = ey_localEscape (en_symbols s y)" "ey_reassigned (en_symbols t y) = ey_reassigned (en_symbols s y)"
    "ey_escapeInfo (en_symbols t y) = ey_escapeInfo (en_symbols s y)"
    "ey_stackPromoted (en_symbols t y) = ey_stackPromoted (en_symbols s y)"
proof -
  have "(en_symbols t y)\<lparr>ey_lastUseRef := None, ey_lastUseInLoop := False\<rparr> =
      (en_symbols s y)\<lparr>ey_lastUseRef := None, ey_lastUseInLoop := False\<rparr>"
    using assms by (simp add: readsOnly_def Let_def)
  from arg_cong [OF this, of ey_kind] arg_cong [OF this, of ey_type] arg_cong [OF this, of ey_localEscape]
    arg_cong [OF this, of ey_reassigned] arg_cong [OF this, of ey_escapeInfo] arg_cong [OF this, of ey_stackPromoted]
  show "ey_kind (en_symbols t y) = ey_kind (en_symbols s y)" "ey_type (en_symbols t y) = ey_type (en_symbols s y)"
    "ey_localEscape (en_symbols t y) = ey_localEscape (en_symbols s y)" "ey_reassigned (en_symbols t y) = ey_reassigned (en_symbols s y)"
    "ey_escapeInfo (en_symbols t y) = ey_escapeInfo (en_symbols s y)"
    "ey_stackPromoted (en_symbols t y) = ey_stackPromoted (en_symbols s y)"
    by simp_all
qed

interpretation reading_uses: preorder_ops "readsOnly h a" for h :: "('x) Heap_scheme" and a
proof
  show "readsOnly h a s s" for s by (simp add: readsOnly_def)
  show "readsOnly h a s u" if st: "readsOnly h a s t" and tu: "readsOnly h a t u" for s t u
  proof -
    have "readOf h a y (en_symbols t y) e \<Longrightarrow> readOf h a y (en_symbols s y) e" for y e
      using readsOnly_symbol(1,2) [OF st, of y] by (simp add: readOf_def)
    with st tu show ?thesis unfolding readsOnly_def Let_def by metis
  qed
qed

lemma recordRead_reads: "Expression_asIdent e \<noteq> None \<Longrightarrow> readsOnly h a st (recordRead h a e st)"
  by (auto simp: recordRead_def readsOnly_def readOf_def onSymbol_def Let_def split: option.split)

lemma inLoop_reads: "(\<And>t. readsOnly h a t (f t)) \<Longrightarrow> readsOnly h a s (inLoop f s)"
proof -
  assume "\<And>t. readsOnly h a t (f t)"
  from this [of "s\<lparr>en_loopDepth := en_loopDepth s + 1\<rparr>"] show ?thesis by (simp add: inLoop_def readsOnly_def Let_def)
qed

lemma walkExprForLastUses_reads: "readsOnly h a st (walkExprForLastUses h a e st)"
proof (induction h a e st rule: walkExprForLastUses.induct)
  case (1 h a e st)
  show ?case
    by (subst walkExprForLastUses.simps)
      (intro reading_uses.le_if reading_uses.le_visit reading_uses.le_fold reading_uses.le_refl recordRead_reads;
       (assumption | ((rule "1.IH", assumption+); fail)))
qed

lemma walkStmtForLastUses_reads: "readsOnly h a st (walkStmtForLastUses h a s st)"
proof (induction h a s st rule: walkStmtForLastUses.induct)
  case (1 h a s st)
  show ?case
    by (subst walkStmtForLastUses.simps)
      (intro reading_uses.le_if reading_uses.le_visit reading_uses.le_fold reading_uses.le_each reading_uses.le_refl
         reading_uses.le_trans [OF _ inLoop_reads] walkExprForLastUses_reads;
       ((rule "1.IH", assumption+); fail))
qed

lemma reads_from_zero: "readsOnly h a (s\<lparr>en_loopDepth := 0\<rparr>) t \<Longrightarrow> readsOnly h a s t"
  by (simp add: readsOnly_def)

lemma finalize_reads: "readsOnly h a st (finalize h sf a st)"
proof -
  have block: "readsOnly h a t (visit (walkBlockForLastUses h a) v s)" if "readsOnly h a t s" for s t v
    unfolding walkBlockForLastUses_def
    by (rule reading_uses.le_visit [OF reading_uses.le_each [OF walkStmtForLastUses_reads reading_uses.le_refl] that])
  have "readsOnly h a t (walkBodyForLastUses h a fn (t\<lparr>en_loopDepth := 0\<rparr>))" for fn t
    unfolding walkBodyForLastUses_def
    by (rule reads_from_zero) (intro reading_uses.le_fold block reading_uses.le_refl)
  moreover have "readsOnly h a t (visit (walkBlockForLastUses h a) v (t\<lparr>en_loopDepth := 0\<rparr>))" for v t
    by (rule reads_from_zero) (intro block reading_uses.le_refl)
  ultimately show ?thesis
    unfolding finalize_def Let_def by (intro reading_uses.le_fold reading_uses.le_refl)
qed

section \<open>The result of the analysis\<close>

definition keptBy :: "EscapeState \<Rightarrow> EscapeState \<Rightarrow> bool" where
  "keptBy s t \<longleftrightarrow> (\<forall>y. ey_stackPromoted (en_symbols t y) = ey_stackPromoted (en_symbols s y) \<and>
     ey_lastUseRef (en_symbols t y) = ey_lastUseRef (en_symbols s y))"

lemma pass_keeps: "keptBy st (escapeRunOnce h sf a st)"
proof -
  have "grows (st\<lparr>en_changed := False\<rparr>) (escapeRunOnce h sf a st)"
    unfolding escapeRunOnce_def by (rule growing.le_trans [OF growing.functions_le growing.tests_le]) simp_all
  then show ?thesis by (simp add: grows_def symbolGrows_def keptBy_def)
qed

lemma escapeLoop_result:
  assumes "escapeLoop h sf a st = Some st'"
  shows "keptBy st st' \<and> \<not> en_changed st' \<and> \<not> en_hangs st' \<and> (\<exists>u. st' = escapeRunOnce h sf a u)"
proof (rule escapeLoop.raw_induct [where P = "\<lambda>h sf a st st'. keptBy st st' \<and> \<not> en_changed st' \<and> \<not> en_hangs st' \<and> (\<exists>u. st' = escapeRunOnce h sf a u)",
      OF _ assms], goal_cases)
  case (1 loop h sf a st st')
  let ?t = "escapeRunOnce h sf a st"
  have quiet: "\<not> en_hangs ?t" using 1(2) by (auto simp: Let_def split: if_splits)
  show ?case
  proof (cases "en_changed ?t")
    case True
    with 1(2) quiet have "loop h sf a ?t = Some st'" by (simp add: Let_def)
    from 1(1) [OF this] pass_keeps [of st h sf a] show ?thesis by (auto simp: keptBy_def)
  next
    case False
    with 1(2) quiet pass_keeps [of st h sf a] show ?thesis by (auto simp: Let_def)
  qed
qed

text \<open>The result is the end of a pass without change, with last uses and promotions added.\<close>

lemma analyzeEscapes_result:
  assumes "analyzeEscapes h sf a st = Some st'"
  obtains u s where "s = escapeRunOnce h sf a u" "\<not> en_changed s" "\<not> en_hangs s" "keptBy st s" "readsOnly h a s (finalize h sf a s)"
    "promotes h (finalize h sf a s) st'"
proof -
  from assms obtain s where s: "escapeLoop h sf a st = Some s" "st' = decideStackPromotions h sf a (finalize h sf a s)"
    by (auto simp: analyzeEscapes_def)
  from escapeLoop_result [OF s(1)] obtain u where "s = escapeRunOnce h sf a u" "\<not> en_changed s" "\<not> en_hangs s" "keptBy st s" by blast
  then show thesis by (rule that [OF _ _ _ _ finalize_reads]) (simp add: s(2) decide_promotes)
qed

lemma promotes_symbol:
  assumes "promotes h s t"
  shows "ey_localEscape (en_symbols t y) = ey_localEscape (en_symbols s y)" "ey_escapeInfo (en_symbols t y) = ey_escapeInfo (en_symbols s y)"
    "ey_lastUseRef (en_symbols t y) = ey_lastUseRef (en_symbols s y)" "ey_kind (en_symbols t y) = ey_kind (en_symbols s y)"
    "ey_type (en_symbols t y) = ey_type (en_symbols s y)" "stackable h (en_symbols t y) = stackable h (en_symbols s y)"
    "ey_stackPromoted (en_symbols t y) \<Longrightarrow> ey_stackPromoted (en_symbols s y) \<or> stackable h (en_symbols s y)"
  using assms [unfolded promotes_def, rule_format, of y] by (auto simp: stackable_def)

lemma leavesAt_facts:
  "leavesAt a s p y \<Longrightarrow> (\<And>f. ey_escapeInfo (en_symbols t f) = ey_escapeInfo (en_symbols s f)) \<Longrightarrow> leavesAt a t p y"
  by (induction rule: leavesAt.induct) (auto intro: leavesAt.intros)

lemma leaving_marked:
  assumes "analyzeEscapes h sf a st = Some st'" and "b \<in> scannedBlocks sf a" and "(p, PBlock b) \<in> within" and "leavesAt a st' p y"
  shows "ey_localEscape (en_symbols st' y) = Escape"
proof -
  from assms(1) obtain u s where s: "s = escapeRunOnce h sf a u" "\<not> en_changed s" "\<not> en_hangs s" "readsOnly h a s (finalize h sf a s)"
    "promotes h (finalize h sf a s) st'" by (rule analyzeEscapes_result)
  have "leavesAt a s p y"
    using leavesAt_facts [OF assms(4)] promotes_symbol(2) [OF s(5)] readsOnly_symbol(5) [OF s(4)] by simp
  moreover have "passes h a p s"
    unfolding s(1) by (rule passes_through [OF pass_passes [OF assms(2)]]) (rule within_passes [OF assms(3)])
  ultimately have "escaped s y" using s(2) by (rule leaving_escaped)
  with s(3) show ?thesis unfolding escaped_def using promotes_symbol(1) [OF s(5)] readsOnly_symbol(3) [OF s(4)] by simp
qed

lemma fresh_symbol: "freshSymbols st \<Longrightarrow> \<not> ey_stackPromoted (en_symbols st y) \<and> ey_lastUseRef (en_symbols st y) = None"
  unfolding freshSymbols_def
proof (elim exE conjE)
  fix symbols assume s: "st = mkEscape symbols" "\<forall>y. \<exists>k t. symbols y = newSymbol k t"
  then obtain k t where "symbols y = newSymbol k t" by blast
  then show ?thesis by (simp add: s(1) mkEscape_def newSymbol_def)
qed

lemma promoted_stackable:
  assumes "freshSymbols st" and "analyzeEscapes h sf a st = Some st'" and "ey_stackPromoted (en_symbols st' y)"
  shows "stackable h (en_symbols st' y)"
proof -
  from assms(2) obtain u s where s: "keptBy st s" "readsOnly h a s (finalize h sf a s)" "promotes h (finalize h sf a s) st'"
    by (rule analyzeEscapes_result)
  have "\<not> ey_stackPromoted (en_symbols (finalize h sf a s) y)"
    using fresh_symbol [OF assms(1)] s(1) readsOnly_symbol(6) [OF s(2)] by (simp add: keptBy_def)
  with promotes_symbol(6,7) [OF s(3), of y] assms(3) show ?thesis by blast
qed

section \<open>Aliases\<close>

lemma markEscapeLoop_alias:
  assumes "markEscapeLoop y s = Some t"
  shows "sameAlias s t"
proof (rule markEscapeLoop.raw_induct [where P = "\<lambda>y s t. sameAlias s t", OF _ assms], goal_cases)
  case (1 loop y s t)
  show ?case
  proof (cases "\<exists>x. y = Some x \<and> ey_localEscape (en_symbols s x) \<noteq> Escape")
    case True
    then obtain x where x: "y = Some x" "ey_localEscape (en_symbols s x) \<noteq> Escape" by blast
    let ?u = "recordEscape x s"
    have "loop (ey_aliasOf (en_symbols ?u x)) ?u = Some t" using 1(2) x by (simp add: Let_def)
    from aliasing.le_trans [OF recordEscape_alias 1(1) [OF this]] show ?thesis .
  next
    case False
    with 1(2) show ?thesis by (auto simp: aliasing.le_refl split: option.splits)
  qed
qed

lemma markSymbolEscape_alias: "sameAlias s (markSymbolEscape y s)"
proof (cases "markEscapeLoop y s")
  case None
  then show ?thesis by (simp add: markSymbolEscape_def afterLoop_def hang_def sameAlias_def)
qed (simp add: markSymbolEscape_def afterLoop_def markEscapeLoop_alias)

lemma markEscapeIfRef_alias: "sameAlias st (markEscapeIfRef a e st)"
proof (induction a e st rule: markEscapeIfRef.induct)
  case (1 a e st)
  show ?case
    by (subst markEscapeIfRef.simps)
      (intro aliasing.le_if aliasing.le_visit aliasing.le_fold aliasing.le_refl;
       (rule markSymbolEscape_alias | ((rule "1.IH", assumption+); fail)))
qed

lemma assignIdent_alias:
  assumes "symbolAt a target = Some y"
  shows "ey_aliasOf (en_symbols (assignIdent h a target v st) y) = None"
proof -
  have u: "ey_aliasOf (en_symbols (updateBorrowMode h a y v (recordAlias y None s)) y) = None" for s
    by (simp add: updateBorrowMode_def setChanged_def onSymbol_def)
  have "ey_aliasOf (en_symbols (markEscapeIfRef a v s) y) = ey_aliasOf (en_symbols s y)" for s
    using markEscapeIfRef_alias [of s a v] by (simp add: sameAlias_def)
  with u show ?thesis by (simp add: assignIdent_def Let_def assms)
qed

lemma markSymbolEscape_only:
  assumes "ey_aliasOf (en_symbols st y) = None" and "z \<noteq> y"
  shows "ey_localEscape (en_symbols (markSymbolEscape (Some y) st) z) = ey_localEscape (en_symbols st z)"
proof -
  have none: "markEscapeLoop None s = Some s" for s by (simp add: markEscapeLoop.simps)
  have "ey_aliasOf (en_symbols (recordEscape y st) y) = None" using recordEscape_alias [of st y] assms(1) by (simp add: sameAlias_def)
  moreover have "ey_localEscape (en_symbols (recordEscape y st) z) = ey_localEscape (en_symbols st z)"
    using assms(2) by (auto simp: mirrorEscape_def setChanged_def onSymbol_def Let_def split: option.split)
  ultimately show ?thesis
    by (simp add: markSymbolEscape_def afterLoop_def markEscapeLoop.simps [of "Some y"] Let_def none)
qed

section \<open>An example\<close>

text \<open>\<open>f() { let a = []; return x; }\<close>: \<open>f\<close> is symbol 0, \<open>a\<close>, an array, symbol 1, and \<open>x\<close>, of a class, symbol 2.\<close>

definition escapeTree :: SyntaxNode where
  "escapeTree = makeRoot (GreenNode SourceFile
     [GreenNode FuncDecl [GreenToken Identifier (u16 ''f''),
        GreenNode Block
          [GreenNode LetStmt [GreenToken KwLet (u16 ''let''), GreenToken Identifier (u16 ''a''), GreenToken Eq (u16 ''=''),
             GreenNode ArrayLiteralExpr []],
           GreenNode ReturnStmt [GreenToken KwReturn (u16 ''return''), GreenNode IdentExpr [GreenToken Identifier (u16 ''x'')]]]]])"

definition placeAt :: "nat list \<Rightarrow> SyntaxNode" where
  "placeAt path = fold (\<lambda>i n. children n ! i) path escapeTree"

fun placeOf :: "SyntaxNode \<Rightarrow> nat list" where
  "placeOf (SyntaxNode g p off i) = (case p of None \<Rightarrow> [] | Some q \<Rightarrow> placeOf q @ [unat i])"

definition escapeHeap :: Heap where
  "escapeHeap = \<lparr>h_types = [newType TyInt None, newType TyArray (Some 0), newType TyClass None], h_structs = [],
     h_symbols = replicate 3 \<lparr>sy_name = [], sy_paramTypes = [], sy_returnType = None, sy_methodOwner = None, sy_abiThrows = False\<rparr>\<rparr>"

definition escapeInfo :: AnalysisResult where
  "escapeInfo = emptyAnalysis\<lparr>ar_info := (\<lambda>n. map_option (\<lambda>y. noInfo\<lparr>resolvedSymbol := Some y\<rparr>)
     (map_of [([0], 0), ([0, 1, 0], 1), ([0, 1, 1, 1], 2)] (placeOf n)))\<rparr>"

definition escapeStart :: EscapeState where
  "escapeStart = mkEscape (\<lambda>y. newSymbol KVariable (Some y))"

definition escapeEnd :: EscapeState where
  "escapeEnd = the (analyzeEscapes escapeHeap escapeTree escapeInfo escapeStart)"

lemma escapeStart_fresh: "freshSymbols escapeStart"
  by (auto simp: freshSymbols_def escapeStart_def)

lemma escapeInfo_symbols: "finite (symbolsOf escapeInfo)"
proof (rule finite_subset)
  show "symbolsOf escapeInfo \<subseteq> {0, 1, 2}"
    by (auto simp: symbolsOf_def symbolAt_def ar_find_def escapeInfo_def noInfo_def split: option.splits if_splits)
qed simp

lemma escapeTree_counts: "countsAgree escapeTree escapeInfo (\<lambda>_. 0)"
proof -
  have "list_all (\<lambda>fn. FuncDecl_parameters fn = []) (functionsOf escapeTree)" by code_simp
  then show ?thesis by (simp add: countsAgree_def list_all_iff)
qed

lemma placeOf_child: "c \<in> set (children n) \<Longrightarrow> length (placeOf c) = Suc (length (placeOf n))"
proof -
  have "c \<in> set (childrenLoop p off i cs) \<Longrightarrow> length (placeOf c) = Suc (length (placeOf p))" for p off i cs
    by (induction cs arbitrary: off i) auto
  then show "c \<in> set (children n) \<Longrightarrow> ?thesis" by (auto simp: children_def split: GreenElement.splits)
qed

lemma placeOf_source: "bindingAliasSource a e = Some z \<Longrightarrow> \<exists>m. symbolAt a m = Some z \<and> length (placeOf e) \<le> length (placeOf m)"
proof (induction a e rule: bindingAliasSource.induct)
  case (1 a e)
  show ?case
  proof (cases "Expression_asIdent e \<noteq> None")
    case False
    with 1(2) obtain i where i: "Expression_asParen e \<noteq> None" "ParenExpression_inner e = Some i" "bindingAliasSource a i = Some z"
      by (auto simp: bindingAliasSource.simps [of a e] simp del: not_None_eq split: if_splits option.splits)
    then have "i \<in> set (children e)"
      by (auto simp: ParenExpression_inner_def firstExpressionChild_def Expression_cast_def dest!: firstFound_below split: if_splits)
    with 1(1) [OF False i] placeOf_child [of i e] show ?thesis by auto
  qed (use 1(2) bindingAliasSource.simps [of a e] in auto)
qed

lemma escapeInfo_bound: "boundEarlier escapeInfo (\<lambda>y. if y = 0 then 3 else if y = 1 then 1 else 0)"
proof -
  have l: "symbolAt escapeInfo n = Some y \<Longrightarrow> length (placeOf n) = (if y = 0 then 1 else if y = 1 then 3 else 4) \<and> y < 3" for n y
    by (auto simp: symbolAt_def ar_find_def escapeInfo_def noInfo_def split: option.splits if_splits)
  have "(if z = 0 then 3 else if z = 1 then 1 else 0) < (if y = 0 then 3 else if y = 1 then 1 else (0::nat))"
    if n: "symbolAt escapeInfo n = Some y" and e: "LetStatement_initializer n = Some e \<or> TypedVarDeclStatement_initializer n = Some e"
      and z: "bindingAliasSource escapeInfo e = Some z" for n y e z
  proof -
    from placeOf_source [OF z] obtain m where m: "symbolAt escapeInfo m = Some z" "length (placeOf e) \<le> length (placeOf m)" by blast
    have "e \<in> set (children n)"
      using e by (auto simp: LetStatement_initializer_def TypedVarDeclStatement_initializer_def Expression_cast_def dest!: firstFound_below split: if_splits)
    with placeOf_child [of e n] m(2) l [OF n] l [OF m(1)] show ?thesis by (auto split: if_splits)
  qed
  then show ?thesis unfolding boundEarlier_def by blast
qed

lemma escapeEnd: "analyzeEscapes escapeHeap escapeTree escapeInfo escapeStart = Some escapeEnd"
  using escapeLoop_returns [OF escapeTree_counts fresh_runInv [OF escapeStart_fresh escapeInfo_symbols escapeInfo_bound], of escapeHeap]
  by (auto simp: escapeEnd_def analyzeEscapes_def)

lemma escapeTree_return:
  "placeAt [0, 1] \<in> scannedBlocks escapeTree escapeInfo" "(PStatement (placeAt [0, 1, 1]), PBlock (placeAt [0, 1])) \<in> within"
  "Statement_asReturn (placeAt [0, 1, 1]) \<noteq> None" "ReturnStatement_value (placeAt [0, 1, 1]) = Some (placeAt [0, 1, 1, 1])"
proof -
  have "List.member (functionsOf escapeTree) (placeAt [0]) \<and> symbolAt escapeInfo (placeAt [0]) \<noteq> None \<and>
      FuncDecl_body (placeAt [0]) = Some (placeAt [0, 1])" by code_simp
  then show "placeAt [0, 1] \<in> scannedBlocks escapeTree escapeInfo" by (auto simp: scannedBlocks_def)
  have "List.member (Block_statements (placeAt [0, 1])) (placeAt [0, 1, 1])" by code_simp
  then show "(PStatement (placeAt [0, 1, 1]), PBlock (placeAt [0, 1])) \<in> within" by (auto simp: within_def)
  show "Statement_asReturn (placeAt [0, 1, 1]) \<noteq> None" "ReturnStatement_value (placeAt [0, 1, 1]) = Some (placeAt [0, 1, 1, 1])"
    by code_simp+
qed

lemma escapeTree_refers: "refers escapeInfo 2 (placeAt [0, 1, 1, 1])"
proof (rule refers_ident)
  show "Expression_asIdent (placeAt [0, 1, 1, 1]) \<noteq> None" "symbolAt escapeInfo (placeAt [0, 1, 1, 1]) = Some 2" by code_simp+
qed

section \<open>Properties of the analysis\<close>

text \<open>C14: the analysis of a file returns when each variable is bound to symbols that come before it, as declarations
  before their uses make them, and each function symbol has one number of parameters: loops along aliases end then, and a
  pass that changes something marks one of finitely many symbols. The tables are finite and the symbols are new.\<close>

theorem escape_analysis_returns:
  assumes "finite (symbolsOf a)" and "boundEarlier a r" and "countsAgree sf a n" and "freshSymbols st"
  shows "\<exists>st'. analyzeEscapes h sf a st = Some st'"
  using escapeLoop_returns [OF assms(3) fresh_runInv [OF assms(4,1,2)], of h] by (auto simp: analyzeEscapes_def)

theorem escape_analysis_returns_witness: "\<exists>st'. analyzeEscapes escapeHeap escapeTree escapeInfo escapeStart = Some st'"
  by (rule escape_analysis_returns [OF escapeInfo_symbols escapeInfo_bound escapeTree_counts escapeStart_fresh])

text \<open>Variables that alias each other in a circle hang the analysis.\<close>

lemma alias_circle_hangs:
  assumes "ey_aliasOf (en_symbols st y) = Some z" and "ey_aliasOf (en_symbols st z) = Some y"
  shows "aliasRootOf st y = None"
proof (rule ccontr)
  assume "aliasRootOf st y \<noteq> None"
  then obtain r where r: "aliasRootOf st y = Some r" by blast
  have "u \<noteq> st \<or> x \<notin> {y, z}" if "aliasRootOf u x = Some v" for u x v
    by (rule aliasRootOf.raw_induct [where P = "\<lambda>u x v. u \<noteq> st \<or> x \<notin> {y, z}", OF _ that])
      (use assms in \<open>auto split: option.splits\<close>)
  from this [OF r] show False by simp
qed

text \<open>C13: the marks are closed under the rules of the scan when the analysis ends. In every body the scan enters, at every
  place it comes to from there, a symbol is marked as escaping that is returned, thrown, an element of an array literal, a
  field of a struct literal or assigned to a member or an element, as an identifier or through parentheses, checked casts,
  conditionals and arms of switches; and one that is itself an argument, by name, of a function that is not known or for a
  parameter that is marked. The places the scan leaves out are known gaps of the code and listed as findings.\<close>

theorem leaving_values_marked:
  assumes "analyzeEscapes h sf a st = Some st'" and "b \<in> scannedBlocks sf a" and "(p, PBlock b) \<in> within" and "leavesAt a st' p y"
  shows "ey_localEscape (en_symbols st' y) = Escape"
  by (rule leaving_marked [OF assms])

theorem leaving_values_marked_witness: "ey_localEscape (en_symbols escapeEnd 2) = Escape"
  by (rule leaving_values_marked [OF escapeEnd escapeTree_return(1,2) leaves_return [OF escapeTree_return(3,4) escapeTree_refers]])

text \<open>An assignment to a variable forgets what the variable aliased, also when it is one branch of a condition: marking the
  variable afterwards does not reach the array it was bound to, which may then be promoted although the variable, returned,
  may still be that array.\<close>

lemma assignment_forgets_alias:
  assumes "symbolAt a target = Some y" and "z \<noteq> y"
  shows "ey_localEscape (en_symbols (markSymbolEscape (Some y) (assignIdent h a target value st)) z) =
    ey_localEscape (en_symbols (assignIdent h a target value st) z)"
  by (rule markSymbolEscape_only [OF assignIdent_alias [OF assms(1)] assms(2)])

lemmas ident_kind = Expression_asIdent_def IdentExpression_cast_def Expression_asTry_def TryExpression_cast_def Expression_asSwitch_def
  SwitchExpression_cast_def Expression_asPrefix_def PrefixExpression_cast_def Expression_asPostfix_def PostfixExpression_cast_def
  Expression_asInterpString_def InterpStringExpression_cast_def

text \<open>An argument in parentheses is scanned as an expression, and scanning an identifier does nothing: the symbol stays
  unmarked, whatever the callee.\<close>

lemma parenthesised_argument_unmarked:
  assumes "Expression_asParen arg \<noteq> None" and "ParenExpression_inner arg = Some x" and "Expression_asIdent x \<noteq> None"
  shows "scanArgument h a callee call i arg st = st"
proof -
  have "Expression_asNamedArgument arg = None" "Expression_asIdent arg = None"
    using assms(1) by (simp_all add: scan_expression_kinds Expression_asNamedArgument_def NamedArgument_cast_def Expression_asIdent_def
        IdentExpression_cast_def)
  moreover have "scanExpression h a arg st = scanExpression h a x st"
    using assms(1,2) by (subst scanExpression.simps) (simp add: scan_expression_kinds del: not_None_eq)
  moreover have "scanExpression h a x st = st"
    using assms(3) by (subst scanExpression.simps) (simp add: scan_expression_kinds ident_kind del: not_None_eq)
  ultimately show ?thesis by (simp add: scanArgument.simps argumentValue_def)
qed

text \<open>The walk for last uses does not enter a struct literal: a read in one is never a last use.\<close>

lemma struct_literal_reads_missed: "Expression_asStructLiteral e \<noteq> None \<Longrightarrow> walkExprForLastUses h a e st = st"
  by (subst walkExprForLastUses.simps) (simp add: scan_expression_kinds ident_kind del: not_None_eq)

end
