(* ===== verification/AnalyzerReports.thy ===== *)
theory AnalyzerReports
  imports Throws
begin

text \<open>
  How the semantic analyzer reports (\<open>Analyzer::error\<close> and \<open>Analyzer::errorAtNode\<close> of \<open>semantic/Analyzer.cpp\<close>):
  at the content of a node, with the length as an \<open>int\<close> of at least 1.
\<close>

definition errorRange :: "SourceFile \<Rightarrow> u32 \<Rightarrow> int \<Rightarrow> string \<Rightarrow> DiagnosticSink \<Rightarrow> DiagnosticSink" where
  "errorRange source off len msg sink =
     (case offsetToPosition source off of (ln, col) \<Rightarrow> sinkError sink (mkSpan ln col (if len > 0 then len else 1)) msg)"

definition errorAtNode :: "SourceFile \<Rightarrow> SyntaxNode \<Rightarrow> string \<Rightarrow> DiagnosticSink \<Rightarrow> DiagnosticSink" where
  "errorAtNode source n msg sink = (case contentRange n of (off, len) \<Rightarrow> errorRange source off (sint len) msg sink)"

lemma errorRange_report [report_intros]: "prefix sink (errorRange source off len msg sink)"
  by (simp add: errorRange_def sinkError_def report_def split: prod.split)

lemma errorRange_reports [simp]: "errorRange source off len msg sink \<noteq> sink"
  by (simp add: errorRange_def sinkError_def report_def split: prod.split)

lemma errorAtNode_report [report_intros]: "prefix sink (errorAtNode source n msg sink)"
  by (simp add: errorAtNode_def errorRange_report split: prod.split)

lemma errorAtNode_reports [simp]: "errorAtNode source n msg sink \<noteq> sink"
  by (simp add: errorAtNode_def split: prod.split)

text \<open>A report adds exactly one error.\<close>

lemma errorRange_one: "\<exists>d. errorRange source off len msg sink = sink @ [d] \<and> level d = LevelError \<and> message d = msg"
  by (simp add: errorRange_def sinkError_def report_def split: prod.split)

lemma errorAtNode_one: "\<exists>d. errorAtNode source n msg sink = sink @ [d] \<and> level d = LevelError \<and> message d = msg"
  by (simp add: errorAtNode_def errorRange_one split: prod.split)

end
