(* ===== verification/ReturnPaths.thy ===== *)
theory ReturnPaths
  imports AnalyzerReports
begin

text \<open>
  The check that a function with a result does not run off its end: \<open>checkFunctionReturnPaths\<close> of
  \<open>semantic/Analyzer.cpp\<close> and what it calls. \<open>noret\<close> is \<open>Symbol::isNoreturn\<close>. The check is compared with how
  statements complete, \<open>runs\<close>, where a condition that is no literal may have either value and any evaluation may throw.
\<close>

section \<open>The check\<close>

function unwrapParens :: "Expression \<Rightarrow> Expression" where
  "unwrapParens e =
     (if Expression_asParen e \<noteq> None then
        (case ParenExpression_inner e of None \<Rightarrow> e | Some inner \<Rightarrow> unwrapParens inner)
      else e)"
  by pat_completeness auto
termination
  by (relation "measure (\<lambda>e. size (green e))") (auto simp: below_def [symmetric] ParenExpression_inner_def dest: below_dests)

declare unwrapParens.simps [simp del]

text \<open>A \<open>break\<close> that binds to the enclosing loop.\<close>

function statementContainsLoopBreak :: "Statement \<Rightarrow> bool" where
  "statementContainsLoopBreak s =
     (if Statement_asBreak s \<noteq> None then True
      else if Statement_asBlock s \<noteq> None then list_ex statementContainsLoopBreak (Block_statements s)
      else if Statement_asIf s \<noteq> None then
        (case IfStatement_thenBlock s of None \<Rightarrow> False | Some b \<Rightarrow> list_ex statementContainsLoopBreak (Block_statements b)) \<or>
        (case IfStatement_elseClause s of None \<Rightarrow> False
         | Some ec \<Rightarrow>
             (case ElseClause_ifStatement ec of Some inner \<Rightarrow> statementContainsLoopBreak inner
              | None \<Rightarrow> (case ElseClause_block ec of None \<Rightarrow> False
                  | Some b \<Rightarrow> list_ex statementContainsLoopBreak (Block_statements b))))
      else if Statement_asSwitch s \<noteq> None then
        list_ex (\<lambda>arm. case SwitchArm_bodyBlockNode arm of None \<Rightarrow> False
          | Some b \<Rightarrow> Block_cast b \<noteq> None \<and> list_ex statementContainsLoopBreak (Block_statements b)) (SwitchStatement_arms s)
      else False)"
  by pat_completeness auto
termination
  apply (relation "measure (\<lambda>s. size (green s))")
  apply (simp_all only: in_measure wf_measure below_def [symmetric])
  apply ((rule below_dests, assumption) | (rule below_trans, rule below_dests, assumption, rule below_dests, assumption) |
    (rule below_trans, rule below_dests, assumption, rule below_trans, rule below_dests, assumption, rule below_dests, assumption))+
  done

declare statementContainsLoopBreak.simps [simp del]

definition blockContainsLoopBreak :: "Block \<Rightarrow> bool" where
  "blockContainsLoopBreak b = list_ex statementContainsLoopBreak (Block_statements b)"

definition loopConditionAlwaysHolds :: "Expression option \<Rightarrow> bool" where
  "loopConditionAlwaysHolds condition =
     (case condition of None \<Rightarrow> True
      | Some c \<Rightarrow> let e = unwrapParens c in Expression_asLiteral e \<noteq> None \<and> LiteralExpression_literalKind e = KwTrue)"

definition loopNeverEnds :: "Expression option \<Rightarrow> Block option \<Rightarrow> bool" where
  "loopNeverEnds condition body =
     (loopConditionAlwaysHolds condition \<and> (case body of None \<Rightarrow> True | Some b \<Rightarrow> \<not> blockContainsLoopBreak b))"

definition isNoreturnCall :: "AnalysisResult \<Rightarrow> (symid \<Rightarrow> bool) \<Rightarrow> Expression \<Rightarrow> bool" where
  "isNoreturnCall a noret expr =
     (let core = unwrapParens expr;
          core = (if Expression_asTry core \<noteq> None
            then (case TryExpression_operand core of None \<Rightarrow> core | Some op \<Rightarrow> unwrapParens op) else core)
      in if Expression_asCall core = None then False
         else (case CallExpression_callee core of None \<Rightarrow> False
           | Some callee \<Rightarrow>
               (Expression_asIdent callee \<noteq> None \<or> Expression_asMember callee \<noteq> None) \<and>
               (case methodOrSymbol a callee of None \<Rightarrow> False | Some y \<Rightarrow> noret y)))"

datatype ExitScope = FunctionExit | BranchExit

definition forInitializerNeverReturns :: "AnalysisResult \<Rightarrow> (symid \<Rightarrow> bool) \<Rightarrow> ForStatement \<Rightarrow> bool" where
  "forInitializerNeverReturns a noret s =
     (case ForStatement_init s of None \<Rightarrow> False
      | Some init \<Rightarrow> Statement_asExpressionStmt init \<noteq> None \<and>
          (case ExpressionStatement_expression init of None \<Rightarrow> False | Some e \<Rightarrow> isNoreturnCall a noret e))"

function statementTerminates :: "AnalysisResult \<Rightarrow> (symid \<Rightarrow> bool) \<Rightarrow> ExitScope \<Rightarrow> Statement \<Rightarrow> bool"
  and blockTerminates :: "AnalysisResult \<Rightarrow> (symid \<Rightarrow> bool) \<Rightarrow> ExitScope \<Rightarrow> Block \<Rightarrow> bool"
  and ifStatementTerminates :: "AnalysisResult \<Rightarrow> (symid \<Rightarrow> bool) \<Rightarrow> ExitScope \<Rightarrow> IfStatement \<Rightarrow> bool"
  and switchStatementTerminates :: "AnalysisResult \<Rightarrow> (symid \<Rightarrow> bool) \<Rightarrow> ExitScope \<Rightarrow> SwitchStatement \<Rightarrow> bool"
where
  "statementTerminates a noret scope s =
     (if Statement_asReturn s \<noteq> None \<or> Statement_asThrow s \<noteq> None \<or> Statement_asRethrow s \<noteq> None then True
      else if scope = BranchExit \<and> (Statement_asBreak s \<noteq> None \<or> Statement_asContinue s \<noteq> None) then True
      else if Statement_asBlock s \<noteq> None then blockTerminates a noret scope s
      else if Statement_asIf s \<noteq> None then ifStatementTerminates a noret scope s
      else if Statement_asSwitch s \<noteq> None then switchStatementTerminates a noret scope s
      else if Statement_asWhile s \<noteq> None then
        WhileStatement_condition s \<noteq> None \<and> loopNeverEnds (WhileStatement_condition s) (WhileStatement_body s)
      else if Statement_asFor s \<noteq> None then
        forInitializerNeverReturns a noret s \<or> loopNeverEnds (ForStatement_condition s) (ForStatement_body s)
      else if Statement_asExpressionStmt s \<noteq> None then
        (case ExpressionStatement_expression s of None \<Rightarrow> False | Some e \<Rightarrow> isNoreturnCall a noret e)
      else False)"
| "blockTerminates a noret scope b = list_ex (\<lambda>s. statementTerminates a noret scope s) (Block_statements b)"
| "ifStatementTerminates a noret scope s =
     (case (IfStatement_thenBlock s) of None \<Rightarrow> False
      | Some b \<Rightarrow>
          (case IfStatement_elseClause s of None \<Rightarrow> False
           | Some ec \<Rightarrow>
               blockTerminates a noret scope b \<and>
               (case ElseClause_ifStatement ec of Some inner \<Rightarrow> ifStatementTerminates a noret scope inner
                | None \<Rightarrow> (case ElseClause_block ec of None \<Rightarrow> False | Some bb \<Rightarrow> blockTerminates a noret scope bb))))"
| "switchStatementTerminates a noret scope s =
     (SwitchStatement_arms s \<noteq> [] \<and>
      list_all (\<lambda>arm. case SwitchArm_bodyBlockNode arm of
          Some b \<Rightarrow> Block_cast b \<noteq> None \<and> blockTerminates a noret scope b
        | None \<Rightarrow> (case SwitchArm_bodyExpr arm of None \<Rightarrow> False | Some e \<Rightarrow> isNoreturnCall a noret e)) (SwitchStatement_arms s))"
  by pat_completeness (simp_all only: sum.inject sum.distinct prod.inject simp_thms)
termination
  apply (relation "measure (\<lambda>x. case x of
        Inl (Inl (a, noret, scope, s)) \<Rightarrow> 2 * size (green s) + 1
      | Inl (Inr (a, noret, scope, b)) \<Rightarrow> 2 * size (green b)
      | Inr (Inl (a, noret, scope, s)) \<Rightarrow> 2 * size (green s)
      | Inr (Inr (a, noret, scope, s)) \<Rightarrow> 2 * size (green s))")
  apply (simp_all only: in_measure sum.case split_conv wf_measure)
  apply ((simp; fail) | (rule scanned_below, rule below_dests, assumption) |
     (rule scanned_below, rule below_trans, rule below_dests, assumption, rule below_dests, assumption))+
  done

declare statementTerminates.simps [simp del] blockTerminates.simps [simp del] ifStatementTerminates.simps [simp del]
  switchStatementTerminates.simps [simp del]

text \<open>The report: at the name of the function for its body, at the clause for the body of a \<open>catch\<close> clause.\<close>

definition noreturnBodyMessage :: "string \<Rightarrow> string" where
  "noreturnBodyMessage name = ''Function '' @ apos name @
     '' is declared 'noreturn' but can reach the end of its body. Every path must end by throwing, calling 'panic', or calling another 'noreturn' function.''"

definition noreturnCatchMessage :: "string \<Rightarrow> string" where
  "noreturnCatchMessage name = ''Function '' @ apos name @
     '' is declared 'noreturn' but its 'catch' clause can complete normally. End it by throwing, calling 'panic', or calling another 'noreturn' function.''"

definition missingReturnMessage :: "string \<Rightarrow> string" where
  "missingReturnMessage name = ''Function '' @ apos name @ '' can reach the end of its body without returning a value''"

definition checkClauses :: "AnalysisResult \<Rightarrow> (symid \<Rightarrow> bool) \<Rightarrow> SourceFile \<Rightarrow> string \<Rightarrow> FuncDecl \<Rightarrow> DiagnosticSink \<Rightarrow> DiagnosticSink" where
  "checkClauses a noret source msg fn =
     fold (\<lambda>cc sink. case CatchClause_body cc of None \<Rightarrow> sink
       | Some cb \<Rightarrow> if blockTerminates a noret FunctionExit cb then sink else errorAtNode source cc msg sink) (FuncDecl_catchClauses fn)"

definition checkFunctionReturnPaths ::
    "('x) Heap_scheme \<Rightarrow> AnalysisResult \<Rightarrow> (symid \<Rightarrow> bool) \<Rightarrow> SourceFile \<Rightarrow> symid option \<Rightarrow> FuncDecl \<Rightarrow> DiagnosticSink \<Rightarrow> DiagnosticSink" where
  "checkFunctionReturnPaths h a noret source cur fn sink =
     (let diag = nameOrNode fn in
      if (case cur of None \<Rightarrow> False | Some f \<Rightarrow> noret f) then
        (case FuncDecl_body fn of None \<Rightarrow> sink
         | Some body \<Rightarrow>
             let name = (case cur of None \<Rightarrow> [] | Some f \<Rightarrow> symName h f) in
             checkClauses a noret source (noreturnCatchMessage name) fn
               (if blockTerminates a noret FunctionExit body then sink
                else errorAtNode source diag (noreturnBodyMessage name) sink))
      else case (case cur of None \<Rightarrow> None | Some f \<Rightarrow> sy_returnType (sym h f)) of
        None \<Rightarrow> sink
      | Some ret \<Rightarrow>
          if kind h ret \<in> {TyVoid, TyError} then sink
          else (case FuncDecl_body fn of None \<Rightarrow> sink
            | Some body \<Rightarrow>
                let name = (case cur of None \<Rightarrow> [] | Some f \<Rightarrow> symName h f) in
                if \<not> blockTerminates a noret FunctionExit body then errorAtNode source diag (missingReturnMessage name) sink
                else checkClauses a noret source (missingReturnMessage name) fn sink))"

section \<open>How statements complete\<close>

datatype Completion = Normal | Broken | Continued | Left

text \<open>\<open>Left\<close> is leaving the function or a call that does not return. Kinds of statements that are not mentioned complete.\<close>

definition simpleStatement :: "Statement \<Rightarrow> bool" where
  "simpleStatement s \<longleftrightarrow> node_kind s \<notin> {ReturnStmt, ThrowStmt, RethrowStmt, BreakStmt, ContinueStmt, Block, IfStmt, SwitchStmt, WhileStmt,
     ForStmt, ExprStmt}"

inductive runs :: "AnalysisResult \<Rightarrow> (symid \<Rightarrow> bool) \<Rightarrow> Statement \<Rightarrow> Completion \<Rightarrow> bool"
  and runsAll :: "AnalysisResult \<Rightarrow> (symid \<Rightarrow> bool) \<Rightarrow> Statement list \<Rightarrow> Completion \<Rightarrow> bool"
  for a noret
where
  runs_left: "runs a noret s Left"
| runs_simple: "simpleStatement s \<Longrightarrow> runs a noret s Normal"
| runs_break: "Statement_asBreak s \<noteq> None \<Longrightarrow> runs a noret s Broken"
| runs_continue: "Statement_asContinue s \<noteq> None \<Longrightarrow> runs a noret s Continued"
| runs_expression: "Statement_asExpressionStmt s \<noteq> None \<Longrightarrow>
    (\<forall>e. ExpressionStatement_expression s = Some e \<longrightarrow> \<not> isNoreturnCall a noret e) \<Longrightarrow> runs a noret s Normal"
| runs_block: "Statement_asBlock s \<noteq> None \<Longrightarrow> runsAll a noret (Block_statements s) c \<Longrightarrow> runs a noret s c"
| runs_then: "Statement_asIf s \<noteq> None \<Longrightarrow> IfStatement_thenBlock s = Some b \<Longrightarrow> runsAll a noret (Block_statements b) c \<Longrightarrow> runs a noret s c"
| runs_empty_if: "Statement_asIf s \<noteq> None \<Longrightarrow> IfStatement_thenBlock s = None \<or> IfStatement_elseClause s = None \<Longrightarrow> runs a noret s Normal"
| runs_else_if: "Statement_asIf s \<noteq> None \<Longrightarrow> IfStatement_elseClause s = Some ec \<Longrightarrow> ElseClause_ifStatement ec = Some i \<Longrightarrow>
    runs a noret i c \<Longrightarrow> runs a noret s c"
| runs_else: "Statement_asIf s \<noteq> None \<Longrightarrow> IfStatement_elseClause s = Some ec \<Longrightarrow> ElseClause_ifStatement ec = None \<Longrightarrow>
    ElseClause_block ec = Some b \<Longrightarrow> runsAll a noret (Block_statements b) c \<Longrightarrow> runs a noret s c"
| runs_empty_else: "Statement_asIf s \<noteq> None \<Longrightarrow> IfStatement_elseClause s = Some ec \<Longrightarrow> ElseClause_ifStatement ec = None \<Longrightarrow>
    ElseClause_block ec = None \<Longrightarrow> runs a noret s Normal"
| runs_while_end: "Statement_asWhile s \<noteq> None \<Longrightarrow> WhileStatement_condition s = None \<or> \<not> loopConditionAlwaysHolds (WhileStatement_condition s) \<Longrightarrow>
    runs a noret s Normal"
| runs_while_break: "Statement_asWhile s \<noteq> None \<Longrightarrow> WhileStatement_body s = Some b \<Longrightarrow> runsAll a noret (Block_statements b) Broken \<Longrightarrow>
    runs a noret s Normal"
| runs_for_end: "Statement_asFor s \<noteq> None \<Longrightarrow> (\<forall>i. ForStatement_init s = Some i \<longrightarrow> runs a noret i Normal) \<Longrightarrow>
    \<not> loopConditionAlwaysHolds (ForStatement_condition s) \<Longrightarrow> runs a noret s Normal"
| runs_for_break: "Statement_asFor s \<noteq> None \<Longrightarrow> (\<forall>i. ForStatement_init s = Some i \<longrightarrow> runs a noret i Normal) \<Longrightarrow>
    ForStatement_body s = Some b \<Longrightarrow> runsAll a noret (Block_statements b) Broken \<Longrightarrow> runs a noret s Normal"
| runs_no_arm: "Statement_asSwitch s \<noteq> None \<Longrightarrow> SwitchStatement_arms s = [] \<Longrightarrow> runs a noret s Normal"
| runs_arm_block: "Statement_asSwitch s \<noteq> None \<Longrightarrow> arm \<in> set (SwitchStatement_arms s) \<Longrightarrow> SwitchArm_bodyBlockNode arm = Some b \<Longrightarrow>
    Block_cast b \<noteq> None \<Longrightarrow> runsAll a noret (Block_statements b) c \<Longrightarrow> runs a noret s c"
| runs_arm_no_block: "Statement_asSwitch s \<noteq> None \<Longrightarrow> arm \<in> set (SwitchStatement_arms s) \<Longrightarrow> SwitchArm_bodyBlockNode arm = Some b \<Longrightarrow>
    Block_cast b = None \<Longrightarrow> runs a noret s Normal"
| runs_arm_expression: "Statement_asSwitch s \<noteq> None \<Longrightarrow> arm \<in> set (SwitchStatement_arms s) \<Longrightarrow> SwitchArm_bodyBlockNode arm = None \<Longrightarrow>
    (\<forall>e. SwitchArm_bodyExpr arm = Some e \<longrightarrow> \<not> isNoreturnCall a noret e) \<Longrightarrow> runs a noret s Normal"
| runs_nil: "runsAll a noret [] Normal"
| runs_cons: "runs a noret s Normal \<Longrightarrow> runsAll a noret ss c \<Longrightarrow> runsAll a noret (s # ss) c"
| runs_stop: "runs a noret s c \<Longrightarrow> c \<noteq> Normal \<Longrightarrow> runsAll a noret (s # ss) c"

lemmas path_kinds = castTo_None Statement_asBreak_def Statement_asContinue_def Statement_asBlock_def Statement_asIf_def Statement_asSwitch_def
  Statement_asWhile_def Statement_asFor_def Statement_asExpressionStmt_def Statement_asReturn_def Statement_asThrow_def
  Statement_asRethrow_def BreakStatement_cast_def ContinueStatement_cast_def Block_cast_def IfStatement_cast_def
  SwitchStatement_cast_def WhileStatement_cast_def ForStatement_cast_def ExpressionStatement_cast_def ReturnStatement_cast_def
  ThrowStatement_cast_def RethrowStatement_cast_def simpleStatement_def

text \<open>A statement that breaks has a \<open>break\<close> that binds outside it.\<close>

lemma runs_Broken:
  "runs a noret s c \<Longrightarrow> c = Broken \<Longrightarrow> statementContainsLoopBreak s"
  "runsAll a noret ss c \<Longrightarrow> c = Broken \<Longrightarrow> list_ex statementContainsLoopBreak ss"
proof (induction rule: runs_runsAll.inducts)
  case (runs_arm_block s arm b c)
  then have "\<exists>arm \<in> set (SwitchStatement_arms s). case SwitchArm_bodyBlockNode arm of None \<Rightarrow> False
      | Some b \<Rightarrow> Block_cast b \<noteq> None \<and> list_ex statementContainsLoopBreak (Block_statements b)"
    by (intro bexI [of _ arm]) simp_all
  with runs_arm_block(1) show ?case by (subst statementContainsLoopBreak.simps) (simp add: path_kinds list_ex_iff)
qed (simp_all, (subst statementContainsLoopBreak.simps, auto simp: path_kinds list_ex_iff)+)

lemma terminates_kinds:
  "Statement_asBlock s \<noteq> None \<Longrightarrow> statementTerminates a noret scope s = list_ex (statementTerminates a noret scope) (Block_statements s)"
  "Statement_asIf s \<noteq> None \<Longrightarrow> statementTerminates a noret scope s = ifStatementTerminates a noret scope s"
  "Statement_asSwitch s \<noteq> None \<Longrightarrow> statementTerminates a noret scope s = switchStatementTerminates a noret scope s"
  "Statement_asWhile s \<noteq> None \<Longrightarrow> statementTerminates a noret scope s =
     (WhileStatement_condition s \<noteq> None \<and> loopNeverEnds (WhileStatement_condition s) (WhileStatement_body s))"
  "Statement_asFor s \<noteq> None \<Longrightarrow> statementTerminates a noret scope s =
     (forInitializerNeverReturns a noret s \<or> loopNeverEnds (ForStatement_condition s) (ForStatement_body s))"
  "Statement_asExpressionStmt s \<noteq> None \<Longrightarrow> statementTerminates a noret scope s =
     (case ExpressionStatement_expression s of None \<Rightarrow> False | Some e \<Rightarrow> isNoreturnCall a noret e)"
  by (subst statementTerminates.simps, simp add: path_kinds blockTerminates.simps)+

lemma else_is_if: "ElseClause_ifStatement ec = Some i \<Longrightarrow> Statement_asIf i \<noteq> None"
  by (auto simp: ElseClause_ifStatement_def path_kinds IfStatement_cast_def split: option.splits)

lemma init_terminates:
  "forInitializerNeverReturns a noret s \<Longrightarrow> \<exists>i. ForStatement_init s = Some i \<and> statementTerminates a noret scope i"
  by (auto simp: forInitializerNeverReturns_def terminates_kinds(6) split: option.splits)

text \<open>A statement that completes normally is not found to terminate, whatever may be left.\<close>

lemma runs_Normal:
  "runs a noret s c \<Longrightarrow> c = Normal \<Longrightarrow> \<not> statementTerminates a noret scope s"
  "runsAll a noret ss c \<Longrightarrow> c = Normal \<Longrightarrow> \<not> list_ex (statementTerminates a noret scope) ss"
proof (induction rule: runs_runsAll.inducts)
  case (runs_simple s)
  then show ?case by (subst statementTerminates.simps) (simp add: path_kinds)
next
  case (runs_else_if s ec i c)
  then show ?case using terminates_kinds(2) [OF else_is_if [OF runs_else_if(3)]]
    by (auto simp: terminates_kinds ifStatementTerminates.simps [of _ _ _ s] split: option.splits)
next
  case (runs_while_break s b)
  then show ?case using runs_Broken(2) by (auto simp: terminates_kinds loopNeverEnds_def blockContainsLoopBreak_def)
next
  case (runs_for_end s)
  then show ?case using init_terminates [of a noret s scope] by (auto simp: terminates_kinds loopNeverEnds_def)
next
  case (runs_for_break s b)
  then show ?case using init_terminates [of a noret s scope] runs_Broken(2)
    by (auto simp: terminates_kinds loopNeverEnds_def blockContainsLoopBreak_def)
next
  case (runs_then s b c)
  then show ?case
    by (auto simp: terminates_kinds(2) ifStatementTerminates.simps [of _ _ _ s] blockTerminates.simps split: option.splits)
next
  case (runs_empty_if s)
  then show ?case
    by (auto simp: terminates_kinds(2) ifStatementTerminates.simps [of _ _ _ s] blockTerminates.simps split: option.splits)
next
  case (runs_else s ec b c)
  then show ?case
    by (auto simp: terminates_kinds(2) ifStatementTerminates.simps [of _ _ _ s] blockTerminates.simps split: option.splits)
next
  case (runs_empty_else s ec)
  then show ?case
    by (auto simp: terminates_kinds(2) ifStatementTerminates.simps [of _ _ _ s] blockTerminates.simps split: option.splits)
next
  case (runs_no_arm s)
  then show ?case
    by (fastforce simp: terminates_kinds(3) switchStatementTerminates.simps [of _ _ _ s] blockTerminates.simps list_all_iff split: option.splits)
next
  case (runs_arm_block s arm b c)
  then show ?case
    by (fastforce simp: terminates_kinds(3) switchStatementTerminates.simps [of _ _ _ s] blockTerminates.simps list_all_iff split: option.splits)
next
  case (runs_arm_no_block s arm b)
  then show ?case
    by (fastforce simp: terminates_kinds(3) switchStatementTerminates.simps [of _ _ _ s] blockTerminates.simps list_all_iff split: option.splits)
next
  case (runs_arm_expression s arm)
  then show ?case
    by (fastforce simp: terminates_kinds(3) switchStatementTerminates.simps [of _ _ _ s] blockTerminates.simps list_all_iff split: option.splits)
next
  case (runs_while_end s)
  then show ?case by (auto simp: terminates_kinds loopNeverEnds_def)
next
  case (runs_expression s)
  then show ?case by (auto simp: terminates_kinds split: option.splits)
next
  case (runs_block s c)
  then show ?case by (simp add: terminates_kinds)
qed simp_all

section \<open>Properties of the check\<close>

lemma checkClauses_report [report_intros]: "prefix sink (checkClauses a noret source msg fn sink)"
  by (auto simp: checkClauses_def errorAtNode_report split: option.split intro!: fold_report)

lemma checkClauses_quiet:
  assumes "checkClauses a noret source msg fn sink = sink" and "cc \<in> set (FuncDecl_catchClauses fn)" and "CatchClause_body cc = Some b"
  shows "blockTerminates a noret FunctionExit b"
proof (rule ccontr)
  assume fails: "\<not> ?thesis"
  let ?f = "\<lambda>cc sink. case CatchClause_body cc of None \<Rightarrow> sink
       | Some cb \<Rightarrow> if blockTerminates a noret FunctionExit cb then sink else errorAtNode source cc msg sink"
  have grows: "prefix s (fold ?f xs s)" for xs s
    by (rule fold_report) (simp add: errorAtNode_report split: option.split)
  obtain xs ys where "FuncDecl_catchClauses fn = xs @ cc # ys" using split_list [OF assms(2)] by blast
  then have "fold ?f ys (errorAtNode source cc msg (fold ?f xs sink)) = sink"
    using assms(1,3) fails by (simp add: checkClauses_def)
  with grows [of "errorAtNode source cc msg (fold ?f xs sink)" ys] have "prefix (errorAtNode source cc msg (fold ?f xs sink)) sink" by simp
  from prefix_order.order_trans [OF this grows] have "prefix (errorAtNode source cc msg (fold ?f xs sink)) (fold ?f xs sink)" .
  with errorAtNode_report errorAtNode_reports show False using prefix_order.antisym by blast
qed

lemma terminating_block_leaves: "blockTerminates a noret scope b \<Longrightarrow> \<not> runsAll a noret (Block_statements b) Normal"
  using runs_Normal(2) [of a noret "Block_statements b" Normal scope] by (auto simp: blockTerminates.simps)

text \<open>The bodies of a function: its own and those of its \<open>catch\<close> clauses.\<close>

definition functionBodies :: "FuncDecl \<Rightarrow> Block list" where
  "functionBodies fn = (case FuncDecl_body fn of None \<Rightarrow> []
     | Some b \<Rightarrow> b # List.map_filter CatchClause_body (FuncDecl_catchClauses fn))"

text \<open>A function that must not reach its end: one that is \<open>noreturn\<close> or has a result.\<close>

definition mustReturn :: "('x) Heap_scheme \<Rightarrow> (symid \<Rightarrow> bool) \<Rightarrow> symid \<Rightarrow> bool" where
  "mustReturn h noret f \<longleftrightarrow> noret f \<or> (case sy_returnType (sym h f) of None \<Rightarrow> False | Some t \<Rightarrow> kind h t \<notin> {TyVoid, TyError})"

lemma accepted_bodies_terminate:
  assumes "checkFunctionReturnPaths h a noret source (Some f) fn sink = sink" and "mustReturn h noret f" and "b \<in> set (functionBodies fn)"
  shows "blockTerminates a noret FunctionExit b"
proof -
  obtain body where body: "FuncDecl_body fn = Some body"
    using assms(3) unfolding functionBodies_def by (cases "FuncDecl_body fn") auto
  then have b: "b = body \<or> (\<exists>cc \<in> set (FuncDecl_catchClauses fn). CatchClause_body cc = Some b)"
    using assms(3) by (auto simp: functionBodies_def List.map_filter_def)
  have no: "errorAtNode source n m sink \<noteq> sink" "\<not> prefix (errorAtNode source n m sink) sink" for n m
    using errorAtNode_report [of sink source n m] by (auto dest: prefix_order.antisym)
  have "blockTerminates a noret FunctionExit body \<and> (\<exists>m. checkClauses a noret source m fn sink = sink)"
  proof (cases "noret f")
    case True
    let ?m = "noreturnCatchMessage (symName h f)"
    have c: "checkClauses a noret source ?m fn
        (if blockTerminates a noret FunctionExit body then sink
         else errorAtNode source (nameOrNode fn) (noreturnBodyMessage (symName h f)) sink) = sink"
      using assms(1) True body by (simp add: checkFunctionReturnPaths_def Let_def)
    have "blockTerminates a noret FunctionExit body"
      using c no(2) checkClauses_report by (metis (full_types))
    with c show ?thesis by auto
  next
    case False
    with assms(1,2) body no(1) show ?thesis
      by (auto simp: checkFunctionReturnPaths_def Let_def mustReturn_def split: option.splits if_splits)
  qed
  with b checkClauses_quiet show ?thesis by blast
qed

text \<open>C37: a function with a result, or one that is \<open>noreturn\<close>, whose check reports nothing never reaches the end of its
  body or of the body of one of its \<open>catch\<close> clauses: no way to run the statements completes normally.\<close>

theorem accepted_function_returns:
  assumes "checkFunctionReturnPaths h a noret source (Some f) fn sink = sink" and "mustReturn h noret f" and "b \<in> set (functionBodies fn)"
  shows "\<not> runsAll a noret (Block_statements b) Normal"
  by (rule terminating_block_leaves [OF accepted_bodies_terminate [OF assms]])

text \<open>\<open>int f() { while (true) { throw e; } } catch (E e) { if (c) { return e; } else { throw e; } }\<close>\<close>

definition pathFunction :: FuncDecl where
  "pathFunction =
     (let name = (\<lambda>s. GreenNode IdentExpr [GreenToken Identifier (u16 s)]);
          throws = GreenNode Block [GreenNode ThrowStmt [GreenToken KwThrow (u16 ''throw''), name ''e'']] in
      makeRoot (GreenNode FuncDecl
        [GreenToken Identifier (u16 ''f''),
         GreenNode Block [GreenNode WhileStmt
           [GreenToken KwWhile (u16 ''while''), GreenNode LiteralExpr [GreenToken KwTrue (u16 ''true'')], throws]],
         GreenNode CatchClause [GreenToken KwCatch (u16 ''catch''), GreenNode Block [GreenNode IfStmt [GreenToken KwIf (u16 ''if''), name ''c'',
           GreenNode Block [GreenNode ReturnStmt [GreenToken KwReturn (u16 ''return''), name ''e'']],
           GreenNode ElseClause [GreenToken KwElse (u16 ''else''), throws]]]]]))"

definition pathHeap :: Heap where
  "pathHeap = \<lparr>h_types = [newType TyInt None], h_structs = [],
    h_symbols = [\<lparr>sy_name = u16 ''f'', sy_paramTypes = [], sy_returnType = Some 0, sy_methodOwner = None, sy_abiThrows = True\<rparr>]\<rparr>"

theorem accepted_function_returns_witness:
  "length (functionBodies pathFunction) = 2 \<and>
   list_all (\<lambda>b. \<not> runsAll emptyAnalysis (\<lambda>_. False) (Block_statements b) Normal) (functionBodies pathFunction)"
proof -
  have l: "length (functionBodies pathFunction) = 2" by code_simp
  have "checkFunctionReturnPaths pathHeap emptyAnalysis (\<lambda>_. False) (mkSourceFile [] []) (Some 0) pathFunction [] = []"
    "mustReturn pathHeap (\<lambda>_. False) 0" by code_simp+
  from accepted_function_returns [OF this] l show ?thesis by (simp add: list_all_iff)
qed

end
