(* ===== verification/StructFields.thy ===== *)
theory StructFields
  imports AnalyzerReports TypeContext
begin

text \<open>
  What the semantic analyzer decides by walking through the fields of structs (\<open>semantic/Analyzer.cpp\<close>): whether a struct can
  be compared, converted to text or left without a value, and whether it contains itself. A pointer to a field is a
  struct and the index in its fields. \<open>decl\<close> is \<open>FieldInfo::declaration\<close>, which the heap of types does not keep.
\<close>

section \<open>Fields\<close>

type_synonym FieldDecls = "sid \<Rightarrow> nat \<Rightarrow> GreenElement option"

definition fieldHasDefaultValue :: "GreenElement option \<Rightarrow> bool" where
  "fieldHasDefaultValue declaration =
     (case declaration of None \<Rightarrow> False
      | Some g \<Rightarrow> (case FieldDecl_cast (makeRoot g) of None \<Rightarrow> False | Some fd \<Rightarrow> FieldDecl_defaultValue fd \<noteq> None))"

text \<open>\<open>while (core->isOptional() && core->inner) core = core->inner;\<close>\<close>

primrec coreTypeF :: "nat \<Rightarrow> ('x) Heap_scheme \<Rightarrow> tid \<Rightarrow> tid" where
  "coreTypeF 0 h t = t"
| "coreTypeF (Suc n) h t =
     (if kind h t = TyOptional then (case t_inner (ty h t) of None \<Rightarrow> t | Some i \<Rightarrow> coreTypeF n h i) else t)"

definition coreType :: "('x) Heap_scheme \<Rightarrow> tid \<Rightarrow> tid" where
  "coreType h t = coreTypeF (Suc (length (h_types h))) h t"

definition byValueFieldStruct :: "('x) Heap_scheme \<Rightarrow> tid option \<Rightarrow> sid option" where
  "byValueFieldStruct h t =
     (case stripOptionalF (Suc (length (h_types h))) h t of None \<Rightarrow> None
      | Some x \<Rightarrow> if kind h x = TyStruct then t_structInfo (ty h x) else None)"

definition declarationAuthority :: "('x) Heap_scheme \<Rightarrow> sid \<Rightarrow> sid" where
  "declarationAuthority h s = (case si_templateOf (si h s) of None \<Rightarrow> s | Some t \<Rightarrow> t)"

definition structName :: "('x) Heap_scheme \<Rightarrow> sid \<Rightarrow> string" where
  "structName h s = asAscii (si_name (si h s))"

section \<open>Comparing and converting structs\<close>

text \<open>The walks keep the structs they are inside of; a struct among them is not entered again, so there is never a need to
  go deeper than the number of structs. The answer is the path to the offending field and its type.\<close>

primrec nonComparableIn :: "nat \<Rightarrow> ('x) Heap_scheme \<Rightarrow> sid list \<Rightarrow> sid \<Rightarrow> (string \<times> tid) option" where
  "nonComparableIn 0 h visiting s = None"
| "nonComparableIn (Suc n) h visiting s =
     (if list_ex (\<lambda>m. mi_name m = u16 ''equals'') (si_methods (si h s)) then None
      else if s \<in> set visiting then None
      else firstFound (\<lambda>f. case fi_type f of None \<Rightarrow> None
        | Some ft \<Rightarrow>
            if containsTypeParam h (Some ft) then None
            else let core = coreType h ft in
              if kind h core = TyFunction then Some (asAscii (fi_name f), core)
              else if kind h core = TyStruct then
                (case t_structInfo (ty h core) of None \<Rightarrow> None
                 | Some s' \<Rightarrow> (case nonComparableIn n h (visiting @ [s]) s' of None \<Rightarrow> None
                     | Some (sub, leaf) \<Rightarrow> Some (asAscii (fi_name f) @ ''.'' @ sub, leaf)))
              else None) (si_fields (si h s)))"

definition findNonComparableField :: "('x) Heap_scheme \<Rightarrow> tid option \<Rightarrow> (string \<times> tid) option" where
  "findNonComparableField h structT =
     (case structOf h structT of None \<Rightarrow> None | Some s \<Rightarrow> nonComparableIn (length (h_structs h)) h [] s)"

definition checkStructEquatable ::
    "('x) Heap_scheme \<Rightarrow> SourceFile \<Rightarrow> tid option \<Rightarrow> SyntaxNode \<Rightarrow> DiagnosticSink \<Rightarrow> DiagnosticSink" where
  "checkStructEquatable h source structT n sink =
     (case structOf h structT of None \<Rightarrow> sink
      | Some s \<Rightarrow>
          (case findNonComparableField h structT of None \<Rightarrow> sink
           | Some (fieldPath, leaf) \<Rightarrow>
               errorAtNode source n (''Struct '' @ apos (structName h s) @ '' cannot be compared with '' @ apos ''=='' @
                 ''. Field '' @ apos fieldPath @ '' has type '' @ apos (typeToString h leaf) @
                 '', which has no '' @ apos ''=='' @ ''; a function value has no identity. Compare the fields you need directly instead.'') sink))"

definition jsonableLeaf :: "TypeKind \<Rightarrow> bool" where
  "jsonableLeaf k \<longleftrightarrow> isInteger k \<or> k = TyFloat \<or> k = TyDouble \<or> k = TyBool \<or> k = TyString \<or> k = TyEnum"

primrec nonJsonableIn :: "nat \<Rightarrow> ('x) Heap_scheme \<Rightarrow> sid list \<Rightarrow> sid \<Rightarrow> (string \<times> tid) option" where
  "nonJsonableIn 0 h visiting s = None"
| "nonJsonableIn (Suc n) h visiting s =
     (if s \<in> set visiting then None
      else firstFound (\<lambda>f. case fi_type f of None \<Rightarrow> None
        | Some ft \<Rightarrow>
            if containsTypeParam h (Some ft) then None
            else let core = coreType h ft in
              if jsonableLeaf (kind h core) then None
              else if kind h core = TyStruct then
                (case t_structInfo (ty h core) of None \<Rightarrow> None
                 | Some s' \<Rightarrow> (case nonJsonableIn n h (visiting @ [s]) s' of None \<Rightarrow> None
                     | Some (sub, leaf) \<Rightarrow> Some (asAscii (fi_name f) @ ''.'' @ sub, leaf)))
              else Some (asAscii (fi_name f), core)) (si_fields (si h s)))"

definition findNonJsonableField :: "('x) Heap_scheme \<Rightarrow> tid option \<Rightarrow> (string \<times> tid) option" where
  "findNonJsonableField h structT =
     (case structOf h structT of None \<Rightarrow> None | Some s \<Rightarrow> nonJsonableIn (length (h_structs h)) h [] s)"

definition checkStructJsonable ::
    "('x) Heap_scheme \<Rightarrow> SourceFile \<Rightarrow> tid option \<Rightarrow> SyntaxNode \<Rightarrow> tid option \<Rightarrow> DiagnosticSink \<Rightarrow> DiagnosticSink" where
  "checkStructJsonable h source structT n shown sink =
     (case (structT, structOf h structT) of
        (Some t, Some s) \<Rightarrow>
          (let shown = (case shown of None \<Rightarrow> t | Some x \<Rightarrow> x) in
           case findNonJsonableField h structT of None \<Rightarrow> sink
           | Some (fieldPath, leaf) \<Rightarrow>
               errorAtNode source n
                 ((if shown \<noteq> t
                   then ''Cannot interpolate a value of type '' @ apos (typeToString h shown) @ '': struct '' @ apos (structName h s) @
                     '' has no text form.''
                   else ''Struct '' @ apos (structName h s) @ '' cannot be converted to a string.'') @
                  '' Field '' @ apos fieldPath @ '' has type '' @ apos (typeToString h leaf) @
                  '', which has no string form; only value types, strings, enums, their nullable forms, and nested such structs '' @
                  ''serialize to JSON. Convert or drop the field.'') sink)
      | _ \<Rightarrow> sink)"

section \<open>Values without an initializer\<close>

text \<open>A type is defaultable when a variable of it may be left without a value.\<close>

definition defaultableWith :: "('x) Heap_scheme \<Rightarrow> (sid \<Rightarrow> bool) \<Rightarrow> tid option \<Rightarrow> bool" where
  "defaultableWith h inside t =
     (case t of None \<Rightarrow> False
      | Some x \<Rightarrow>
          if isPrimitive (kind h x) then True
          else if kind h x = TyOptional then True
          else if kind h x = TyStruct then (case t_structInfo (ty h x) of None \<Rightarrow> False | Some s \<Rightarrow> inside s)
          else False)"

primrec structDefaultable :: "nat \<Rightarrow> ('x) Heap_scheme \<Rightarrow> FieldDecls \<Rightarrow> sid list \<Rightarrow> sid \<Rightarrow> bool" where
  "structDefaultable 0 h decl visiting s = True"
| "structDefaultable (Suc n) h decl visiting s =
     (if s \<in> set visiting then True
      else list_all (\<lambda>i. defaultableWith h (structDefaultable n h decl (visiting @ [s])) (fi_type (si_fields (si h s) ! i)) \<or>
        fieldHasDefaultValue (decl s i)) [0..<length (si_fields (si h s))])"

definition isDefaultable :: "('x) Heap_scheme \<Rightarrow> FieldDecls \<Rightarrow> tid option \<Rightarrow> bool" where
  "isDefaultable h decl t = defaultableWith h (structDefaultable (length (h_structs h)) h decl []) t"

definition typeText :: "('x) Heap_scheme \<Rightarrow> tid option \<Rightarrow> string" where
  "typeText h t = (case t of None \<Rightarrow> ''?'' | Some x \<Rightarrow> typeToString h x)"

text \<open>\<open>checkFieldInitialization\<close> of a class; that of a struct checks nothing. The report is at the field.\<close>

definition neverInitializedMessage :: "string \<Rightarrow> string \<Rightarrow> string \<Rightarrow> string" where
  "neverInitializedMessage fname cname t =
     ''Field '' @ apos fname @ '' of class '' @ apos cname @ '' has non-nullable type '' @ apos t @
     '' but is never initialized. Give it a default (e.g. `'' @ t @ '' '' @ fname @ '' = ...;`), make it nullable (`'' @
     t @ ''? '' @ fname @ '';`), or add a constructor that assigns it (via a `this.'' @ fname @
     ''` parameter or `this.'' @ fname @ '' = ...;` in the body).''"

definition fieldSpan :: "FieldInfo \<Rightarrow> SourceSpan" where
  "fieldSpan f = mkSpan (fi_line f) (fi_column f) (int (length (fi_name f)))"

text \<open>The own fields of a class, which come after those of its base, that need a value.\<close>

definition needsValue :: "('x) Heap_scheme \<Rightarrow> FieldDecls \<Rightarrow> sid \<Rightarrow> nat \<Rightarrow> bool" where
  "needsValue h decl s i \<longleftrightarrow>
     \<not> int i < si_baseFieldCount (si h s) \<and> \<not> isDefaultable h decl (fi_type (si_fields (si h s) ! i)) \<and>
     \<not> fieldHasDefaultValue (decl s i)"

definition checkFieldInitialization ::
    "('x) Heap_scheme \<Rightarrow> FieldDecls \<Rightarrow> AnalysisResult \<Rightarrow> ClassDecl \<Rightarrow> DiagnosticSink \<Rightarrow> DiagnosticSink" where
  "checkFieldInitialization h decl a cd sink =
     (case structOf h (ar_typeOf a cd) of None \<Rightarrow> sink
      | Some s \<Rightarrow>
          if list_ex FuncDecl_isConstructor (ClassDecl_methods cd) then sink
          else fold (\<lambda>i sink. if needsValue h decl s i
              then (let f = si_fields (si h s) ! i in
                sinkError sink (fieldSpan f)
                  (neverInitializedMessage (asAscii (fi_name f)) (structName h s) (typeText h (fi_type f))))
              else sink) [0..<length (si_fields (si h s))] sink)"

definition unfilledArrayMessage :: "string \<Rightarrow> string \<Rightarrow> string" where
  "unfilledArrayMessage t name =
     ''An array of non-nullable '' @ apos t @ '' must be filled as it is created: assign it to a new variable and '' @
     ''follow the declaration with `for (long i = 0; i < '' @ name @ ''.length; i++) { '' @ name @
     ''[i] = ...; }` (the update may be written '' @ apos ''i++'' @ '', '' @ apos ''++i'' @ '', or '' @ apos ''i = i + 1'' @
     ''). Alternatively use '' @ apos (t @ ''?[]'') @ '' so slots can start as null.''"

definition arrayElementHint :: "('x) Heap_scheme \<Rightarrow> FieldDecls \<Rightarrow> tid \<Rightarrow> string" where
  "arrayElementHint h decl e =
     (let t = typeToString h e in
      if kind h e \<in> {TyClass, TyArray, TyExternal, TyString}
      then '' Use '' @ apos (t @ ''?[]'') @ '' so freshly-allocated slots can start as null.''
      else case (if kind h e = TyStruct then t_structInfo (ty h e) else None) of None \<Rightarrow> []
        | Some s \<Rightarrow>
            (case List.find (\<lambda>f. \<not> isDefaultable h decl (fi_type f)) (si_fields (si h s)) of None \<Rightarrow> []
             | Some bad \<Rightarrow> '' Field '' @ apos (asAscii (fi_name bad)) @ '' of '' @ apos t @ '' has type '' @
                 apos (typeText h (fi_type bad)) @ '' which cannot start as a default zero value. Make that field nullable.''))"

definition validateArrayElement ::
    "('x) Heap_scheme \<Rightarrow> FieldDecls \<Rightarrow> SourceFile \<Rightarrow> tid option \<Rightarrow> SyntaxNode \<Rightarrow> u16string option \<Rightarrow> DiagnosticSink \<Rightarrow>
     bool \<times> DiagnosticSink" where
  "validateArrayElement h decl source elem diagNode fillExampleName sink =
     (case elem of None \<Rightarrow> (False, sink)
      | Some e \<Rightarrow>
          if kind h e = TyError then (False, sink)
          else if isDefaultable h decl elem then (True, sink)
          else if kind h e = TyTypeParam then (True, sink)
          else case (if kind h e \<in> {TyClass, TyArray, TyExternal, TyString} then fillExampleName else None) of
            Some name \<Rightarrow> (False, errorAtNode source diagNode (unfilledArrayMessage (typeToString h e) (asAscii name)) sink)
          | None \<Rightarrow>
              (False, errorAtNode source diagNode (''Cannot use '' @ apos (typeToString h e) @
                 '' as an array element type because freshly-allocated slots would not be valid values of '' @
                 apos (typeToString h e) @ ''.'' @ arrayElementHint h decl e) sink))"

text \<open>A place that can be assigned to.\<close>

function isLValue :: "('x) Heap_scheme \<Rightarrow> AnalysisResult \<Rightarrow> Expression \<Rightarrow> bool" where
  "isLValue h a expr =
     (let k = Expression_kind expr in
      if k = IdentExpr \<or> k = SubscriptExpr \<or> k = ThisExpr then True
      else if k \<noteq> MemberExpr then False
      else case (if Expression_asMember expr \<noteq> None then MemberExpression_object expr else None) of None \<Rightarrow> False
        | Some obj \<Rightarrow>
            (case ar_typeOf a obj of None \<Rightarrow> True
             | Some objT \<Rightarrow> if kind h objT = TyStruct then isLValue h a obj else True))"
  by pat_completeness auto
termination
  by (relation "measure (\<lambda>(h, a, e). size (green e))") (auto simp: below_def [symmetric] dest: below_dests split: if_splits)

declare isLValue.simps [simp del]

section \<open>Structs that contain themselves\<close>

record StructCycleStep =
  cs_owner :: sid
  cs_field :: nat
  cs_target :: sid

text \<open>\<open>findPathBackTo\<close>: the answer, the path and the structs that were explored. Each deeper call has explored one struct more.\<close>

type_synonym PathSearch = "bool \<times> StructCycleStep list \<times> sid set"

definition searchField ::
    "(sid \<Rightarrow> StructCycleStep list \<Rightarrow> sid set \<Rightarrow> PathSearch) \<Rightarrow> ('x) Heap_scheme \<Rightarrow> sid \<Rightarrow> sid \<Rightarrow> nat \<Rightarrow> PathSearch \<Rightarrow> PathSearch" where
  "searchField search h origin cur i st =
     (case st of (found, path, explored) \<Rightarrow>
        if found then st
        else case byValueFieldStruct h (fi_type (si_fields (si h cur) ! i)) of None \<Rightarrow> st
          | Some target \<Rightarrow>
              let path = path @ [\<lparr>cs_owner = cur, cs_field = i, cs_target = target\<rparr>] in
              if declarationAuthority h target = origin then (True, path, explored)
              else if target \<in> explored then (False, butlast path, explored)
              else (case search target path (insert target explored) of
                  (found, p, explored) \<Rightarrow> if found then (True, p, explored) else (False, butlast p, explored)))"

primrec findPathBackTo :: "nat \<Rightarrow> ('x) Heap_scheme \<Rightarrow> sid \<Rightarrow> sid \<Rightarrow> StructCycleStep list \<Rightarrow> sid set \<Rightarrow> PathSearch" where
  "findPathBackTo 0 h origin cur path explored = (False, path, explored)"
| "findPathBackTo (Suc n) h origin cur path explored =
     fold (searchField (findPathBackTo n h origin) h origin cur) [0..<length (si_fields (si h cur))] (False, path, explored)"

definition valueCycle :: "('x) Heap_scheme \<Rightarrow> sid \<Rightarrow> StructCycleStep list option" where
  "valueCycle h origin =
     (case findPathBackTo (Suc (length (h_structs h))) h origin origin [] {} of
        (found, path, _) \<Rightarrow> if found then Some path else None)"

definition cycleField :: "('x) Heap_scheme \<Rightarrow> StructCycleStep \<Rightarrow> FieldInfo" where
  "cycleField h st = si_fields (si h (cs_owner st)) ! cs_field st"

definition valueCycleMessage :: "('x) Heap_scheme \<Rightarrow> sid \<Rightarrow> StructCycleStep list \<Rightarrow> string" where
  "valueCycleMessage h origin path =
     ''Struct '' @ apos (structName h origin) @ '' contains itself by value: '' @
     concat (map (\<lambda>i. (if i > 0 then (if i + 1 = length path then '', and '' else '', '') else []) @
        ''field '' @ apos (asAscii (fi_name (cycleField h (path ! i)))) @ '' of '' @
        apos (structName h (cs_owner (path ! i))) @ '' has type '' @
        apos (typeText h (fi_type (cycleField h (path ! i))))) [0..<length path]) @
     (let example = structName h (declarationAuthority h (cs_target (path ! 0))) in
      ''. Struct fields are stored inline, so this layout would be infinitely large. Break the cycle, for example by declaring '' @
      apos example @ '' as a class ('' @ apos (''class '' @ example @ '' { ... }'') @ '') so the field stores a reference.'')"

definition checkStructValueCycles ::
    "('x) Heap_scheme \<Rightarrow> AnalysisResult \<Rightarrow> SourceFileView option \<Rightarrow> DiagnosticSink \<Rightarrow> DiagnosticSink" where
  "checkStructValueCycles h a astRoot sink =
     (case astRoot of None \<Rightarrow> sink
      | Some sf \<Rightarrow> fold (\<lambda>sd sink.
          case structOf h (ar_typeOf a sd) of None \<Rightarrow> sink
          | Some origin \<Rightarrow>
              (case valueCycle h origin of None \<Rightarrow> sink
               | Some path \<Rightarrow> sinkError sink (fieldSpan (cycleField h (path ! 0))) (valueCycleMessage h origin path)))
        (SourceFileView_structs sf) sink)"

section \<open>Walks that keep what they are inside of\<close>

text \<open>A walk from a struct to those its fields hold, that stops at structs it is inside of, finds what it looks for exactly
  when there is a way to it, when it may go as deep as there are structs.\<close>

locale path_walk =
  fixes size :: nat and step :: "sid \<Rightarrow> sid set" and bad :: "sid \<Rightarrow> bool" and finds :: "nat \<Rightarrow> sid list \<Rightarrow> sid \<Rightarrow> bool"
  assumes finds_0: "\<not> finds 0 visiting s"
    and finds_Suc: "finds (Suc n) visiting s \<longleftrightarrow> s \<notin> set visiting \<and> (bad s \<or> (\<exists>t \<in> step s. finds n (visiting @ [s]) t))"
begin

definition steps :: "sid list \<Rightarrow> (sid \<times> sid) set" where
  "steps visiting = {(s, t). t \<in> step s \<and> s \<notin> set visiting \<and> t \<notin> set visiting}"

lemma steps_mono: "set vs \<subseteq> set ws \<Longrightarrow> (steps ws)\<^sup>* \<subseteq> (steps vs)\<^sup>*"
  by (rule rtrancl_mono) (auto simp: steps_def)

lemma finds_way: "finds n visiting s \<Longrightarrow> s \<notin> set visiting \<and> (\<exists>t. (s, t) \<in> (steps visiting)\<^sup>* \<and> bad t)"
proof (induction n arbitrary: visiting s)
  case (Suc n)
  show ?case
  proof (cases "bad s")
    case False
    with Suc.prems obtain t where s: "s \<notin> set visiting" and t: "t \<in> step s" "finds n (visiting @ [s]) t" by (auto simp: finds_Suc)
    from Suc.IH [OF t(2)] obtain u where u: "t \<notin> set visiting" "(t, u) \<in> (steps (visiting @ [s]))\<^sup>*" "bad u" by auto
    then have "(t, u) \<in> (steps visiting)\<^sup>*" using steps_mono [of visiting "visiting @ [s]"] by auto
    moreover have "(s, t) \<in> steps visiting" using s t(1) u(1) by (simp add: steps_def)
    ultimately show ?thesis using s u(3) by (blast intro: converse_rtrancl_into_rtrancl)
  qed (use Suc.prems in \<open>auto simp: finds_Suc\<close>)
qed (simp add: finds_0)

text \<open>A way that leaves its start leaves it for good at some step.\<close>

lemma last_exit:
  "(s, t) \<in> (steps visiting)\<^sup>* \<Longrightarrow> t \<noteq> s \<Longrightarrow> \<exists>u \<in> step s. u \<notin> set (visiting @ [s]) \<and> (u, t) \<in> (steps (visiting @ [s]))\<^sup>*"
proof (induction rule: rtrancl_induct)
  case (step x y)
  show ?case
  proof (cases "x = s")
    case True
    then show ?thesis using step.hyps(2) step.prems by (auto simp: steps_def)
  next
    case False
    from step.IH [OF this] obtain u where u: "u \<in> step s" "u \<notin> set (visiting @ [s])" "(u, x) \<in> (steps (visiting @ [s]))\<^sup>*" by blast
    moreover have "(x, y) \<in> steps (visiting @ [s])" using step.hyps(2) step.prems False by (auto simp: steps_def)
    ultimately show ?thesis by (blast intro: rtrancl_into_rtrancl)
  qed
qed simp

lemma way_finds:
  "(\<And>s t. s < size \<Longrightarrow> t \<in> step s \<Longrightarrow> t < size) \<Longrightarrow> card ({..<size} - set visiting) \<le> n \<Longrightarrow> s < size \<Longrightarrow> s \<notin> set visiting \<Longrightarrow> (s, t) \<in> (steps visiting)\<^sup>* \<Longrightarrow> bad t \<Longrightarrow> finds n visiting s"
proof (induction n arbitrary: visiting s)
  case 0
  then show ?case by auto
next
  case (Suc n)
  show ?case
  proof (cases "t = s")
    case True
    with Suc.prems show ?thesis by (simp add: finds_Suc)
  next
    case False
    from last_exit [OF Suc.prems(5) this] obtain u where
      u: "u \<in> step s" "u \<notin> set (visiting @ [s])" "(u, t) \<in> (steps (visiting @ [s]))\<^sup>*" by blast
    have "{..<size} - set (visiting @ [s]) = ({..<size} - set visiting) - {s}" by auto
    then have "card ({..<size} - set (visiting @ [s])) \<le> n" using Suc.prems(2-4) by simp
    from Suc.IH [OF Suc.prems(1) this Suc.prems(1) [OF Suc.prems(3) u(1)] u(2,3) Suc.prems(6)] have "finds n (visiting @ [s]) u" .
    then show ?thesis using Suc.prems(4) u(1) by (auto simp: finds_Suc)
  qed
qed

theorem finds_iff:
  assumes "\<And>s t. s < size \<Longrightarrow> t \<in> step s \<Longrightarrow> t < size" and "s < size"
  shows "finds size [] s \<longleftrightarrow> (\<exists>t. (s, t) \<in> {(s, t). t \<in> step s}\<^sup>* \<and> bad t)"
  using finds_way [of size "[]" s] way_finds [of "[]" size s] assms(1) assms(2) by (auto simp: steps_def)

end

text \<open>What the fields of a struct hold, without those that mention a type parameter.\<close>

definition fieldCores :: "('x) Heap_scheme \<Rightarrow> sid \<Rightarrow> tid list" where
  "fieldCores h s = List.map_filter (\<lambda>f. case fi_type f of None \<Rightarrow> None
     | Some ft \<Rightarrow> if containsTypeParam h (Some ft) then None else Some (coreType h ft)) (si_fields (si h s))"

definition hasEquals :: "('x) Heap_scheme \<Rightarrow> sid \<Rightarrow> bool" where
  "hasEquals h s = list_ex (\<lambda>m. mi_name m = u16 ''equals'') (si_methods (si h s))"

definition comparesInto :: "('x) Heap_scheme \<Rightarrow> sid \<Rightarrow> sid set" where
  "comparesInto h s = {t. \<not> hasEquals h s \<and> (\<exists>c \<in> set (fieldCores h s). kind h c = TyStruct \<and> t_structInfo (ty h c) = Some t)}"

definition holdsFunction :: "('x) Heap_scheme \<Rightarrow> sid \<Rightarrow> bool" where
  "holdsFunction h s \<longleftrightarrow> \<not> hasEquals h s \<and> (\<exists>c \<in> set (fieldCores h s). kind h c = TyFunction)"

definition convertsInto :: "('x) Heap_scheme \<Rightarrow> sid \<Rightarrow> sid set" where
  "convertsInto h s = {t. \<exists>c \<in> set (fieldCores h s). kind h c = TyStruct \<and> t_structInfo (ty h c) = Some t}"

definition holdsTextless :: "('x) Heap_scheme \<Rightarrow> sid \<Rightarrow> bool" where
  "holdsTextless h s \<longleftrightarrow> (\<exists>c \<in> set (fieldCores h s). \<not> jsonableLeaf (kind h c) \<and> kind h c \<noteq> TyStruct)"

text \<open>What the fields hold that have no default of their own.\<close>

definition defaultsInto :: "('x) Heap_scheme \<Rightarrow> FieldDecls \<Rightarrow> sid \<Rightarrow> sid set" where
  "defaultsInto h decl s = {t. \<exists>i < length (si_fields (si h s)). \<exists>x. \<not> fieldHasDefaultValue (decl s i) \<and>
     fi_type (si_fields (si h s) ! i) = Some x \<and> kind h x = TyStruct \<and> t_structInfo (ty h x) = Some t}"

definition holdsUndefaultable :: "('x) Heap_scheme \<Rightarrow> FieldDecls \<Rightarrow> sid \<Rightarrow> bool" where
  "holdsUndefaultable h decl s \<longleftrightarrow> (\<exists>i < length (si_fields (si h s)). \<not> fieldHasDefaultValue (decl s i) \<and>
     \<not> defaultableWith h (\<lambda>_. True) (fi_type (si_fields (si h s) ! i)))"

lemma struct_kind: "\<not> jsonableLeaf TyStruct" "\<not> isPrimitive TyStruct"
  by (simp_all add: jsonableLeaf_def isInteger_def isPrimitive_def)

lemma firstFound_no: "firstFound f xs = None \<longleftrightarrow> (\<forall>x \<in> set xs. f x = None)"
  by (induction xs) (auto split: option.splits)

lemma fieldCores_all:
  "(\<forall>c \<in> set (fieldCores h s). P c) \<longleftrightarrow>
     (\<forall>f \<in> set (si_fields (si h s)). \<forall>ft. fi_type f = Some ft \<longrightarrow> \<not> containsTypeParam h (Some ft) \<longrightarrow> P (coreType h ft))"
  by (force simp: fieldCores_def List.map_filter_def split: option.splits if_splits)

lemma field_no:
  "(case fi_type f of None \<Rightarrow> None | Some ft \<Rightarrow> if containsTypeParam h (Some ft) then None else Let (coreType h ft) g) = None \<longleftrightarrow>
     (\<forall>ft. fi_type f = Some ft \<longrightarrow> \<not> containsTypeParam h (Some ft) \<longrightarrow> g (coreType h ft) = None)"
  by (auto split: option.splits)

lemma nested_no:
  "(case t of None \<Rightarrow> None | Some s' \<Rightarrow> (case g s' of None \<Rightarrow> None | Some (sub, leaf) \<Rightarrow> Some (v sub, leaf))) = None \<longleftrightarrow>
     (\<forall>s'. t = Some s' \<longrightarrow> g s' = None)"
  by (auto split: option.splits)

lemma nonComparableIn_no:
  "nonComparableIn (Suc n) h visiting s = None \<longleftrightarrow>
     hasEquals h s \<or> s \<in> set visiting \<or> (\<forall>c \<in> set (fieldCores h s). kind h c \<noteq> TyFunction \<and>
       (\<forall>t. kind h c = TyStruct \<longrightarrow> t_structInfo (ty h c) = Some t \<longrightarrow> nonComparableIn n h (visiting @ [s]) t = None))"
  unfolding fieldCores_all nonComparableIn.simps(2) firstFound_no field_no if_distrib [of "\<lambda>x. x = None"] nested_no hasEquals_def
  by auto

lemma nonJsonableIn_no:
  "nonJsonableIn (Suc n) h visiting s = None \<longleftrightarrow>
     s \<in> set visiting \<or> (\<forall>c \<in> set (fieldCores h s). (kind h c \<noteq> TyStruct \<longrightarrow> jsonableLeaf (kind h c)) \<and>
       (\<forall>t. kind h c = TyStruct \<longrightarrow> t_structInfo (ty h c) = Some t \<longrightarrow> nonJsonableIn n h (visiting @ [s]) t = None))"
  unfolding fieldCores_all nonJsonableIn.simps(2) firstFound_no field_no if_distrib [of "\<lambda>x. x = None"] nested_no
  using struct_kind by auto

lemma defaultableWith_parts:
  "defaultableWith h P t \<longleftrightarrow> defaultableWith h (\<lambda>_. True) t \<and>
     (\<forall>x s. t = Some x \<longrightarrow> kind h x = TyStruct \<longrightarrow> t_structInfo (ty h x) = Some s \<longrightarrow> P s)"
  using struct_kind by (auto simp: defaultableWith_def split: option.splits if_splits)

lemma structDefaultable_no:
  "structDefaultable (Suc n) h decl visiting s \<longleftrightarrow>
     s \<in> set visiting \<or> (\<not> holdsUndefaultable h decl s \<and> (\<forall>t \<in> defaultsInto h decl s. structDefaultable n h decl (visiting @ [s]) t))"
  unfolding structDefaultable.simps(2) defaultableWith_parts [of h "structDefaultable n h decl (visiting @ [s])"]
  unfolding list_all_iff holdsUndefaultable_def defaultsInto_def set_upt atLeast0LessThan by simp blast

interpretation comparable: path_walk "length (h_structs h)" "comparesInto h" "holdsFunction h"
  "\<lambda>n visiting s. nonComparableIn n h visiting s \<noteq> None" for h :: "('x) Heap_scheme"
  by unfold_locales (auto simp: nonComparableIn_no holdsFunction_def comparesInto_def simp del: nonComparableIn.simps(2) not_None_eq)

interpretation convertible: path_walk "length (h_structs h)" "convertsInto h" "holdsTextless h"
  "\<lambda>n visiting s. nonJsonableIn n h visiting s \<noteq> None" for h :: "('x) Heap_scheme"
  by unfold_locales (auto simp: nonJsonableIn_no holdsTextless_def convertsInto_def
    simp del: nonJsonableIn.simps(2) not_None_eq)

interpretation defaultable: path_walk "length (h_structs h)" "defaultsInto h decl" "holdsUndefaultable h decl"
  "\<lambda>n visiting s. \<not> structDefaultable n h decl visiting s" for h :: "('x) Heap_scheme" and decl
  by unfold_locales (auto simp: structDefaultable_no simp del: structDefaultable.simps(2))

section \<open>The search for a cycle\<close>

definition pointsIn :: "nat \<Rightarrow> sid option \<Rightarrow> bool" where
  "pointsIn n p = (case p of None \<Rightarrow> True | Some s \<Rightarrow> s < n)"

text \<open>The structs the fields lead to are there.\<close>

definition fieldsInRange :: "('x) Heap_scheme \<Rightarrow> bool" where
  "fieldsInRange h = list_all (\<lambda>s. list_all (\<lambda>f. case fi_type f of None \<Rightarrow> True
       | Some x \<Rightarrow> pointsIn (length (h_structs h)) (byValueFieldStruct h (Some x)) \<and>
           pointsIn (length (h_structs h)) (t_structInfo (ty h (coreType h x))) \<and>
           pointsIn (length (h_structs h)) (t_structInfo (ty h x))) (si_fields (si h s))) [0..<length (h_structs h)]"

definition fieldTarget :: "('x) Heap_scheme \<Rightarrow> sid \<Rightarrow> nat \<Rightarrow> sid option" where
  "fieldTarget h s i = byValueFieldStruct h (fi_type (si_fields (si h s) ! i))"

definition holdsByValue :: "('x) Heap_scheme \<Rightarrow> sid \<Rightarrow> sid set" where
  "holdsByValue h s = {t. \<exists>i < length (si_fields (si h s)). fieldTarget h s i = Some t}"

text \<open>The steps of a path follow each other from a struct on.\<close>

fun chainFrom :: "('x) Heap_scheme \<Rightarrow> sid \<Rightarrow> StructCycleStep list \<Rightarrow> bool" where
  "chainFrom h s [] = True"
| "chainFrom h s (st # q) =
     (cs_owner st = s \<and> cs_field st < length (si_fields (si h s)) \<and> fieldTarget h s (cs_field st) = Some (cs_target st) \<and>
      chainFrom h (cs_target st) q)"

definition settledIn :: "('x) Heap_scheme \<Rightarrow> sid \<Rightarrow> sid set \<Rightarrow> sid \<Rightarrow> bool" where
  "settledIn h origin explored s \<longleftrightarrow> (\<forall>t \<in> holdsByValue h s. t \<in> explored \<and> declarationAuthority h t \<noteq> origin)"

fun searched :: "('x) Heap_scheme \<Rightarrow> sid \<Rightarrow> sid \<Rightarrow> StructCycleStep list \<Rightarrow> sid set \<Rightarrow> nat list \<Rightarrow> PathSearch \<Rightarrow> bool" where
  "searched h origin cur path explored is (found, p, after) \<longleftrightarrow>
     explored \<subseteq> after \<and> after \<subseteq> {..<length (h_structs h)} \<and>
     (if found then \<exists>q. q \<noteq> [] \<and> p = path @ q \<and> chainFrom h cur q \<and> declarationAuthority h (cs_target (last q)) = origin
      else p = path \<and> (\<forall>x \<in> after - explored. settledIn h origin after x) \<and>
        (\<forall>i \<in> set is. \<forall>t. fieldTarget h cur i = Some t \<longrightarrow> t \<in> after \<and> declarationAuthority h t \<noteq> origin))"

lemma settledIn_mono: "settledIn h origin E x \<Longrightarrow> E \<subseteq> F \<Longrightarrow> settledIn h origin F x"
  by (auto simp: settledIn_def)

lemma fieldsInRange_D:
  assumes "fieldsInRange h" and "s < length (h_structs h)" and "i < length (si_fields (si h s))" and "fieldTarget h s i = Some t"
  shows "t < length (h_structs h)"
proof (cases "fi_type (si_fields (si h s) ! i)")
  case None
  with assms(4) show ?thesis by (simp add: fieldTarget_def byValueFieldStruct_def)
next
  case (Some x)
  have "\<forall>f \<in> set (si_fields (si h s)). case fi_type f of None \<Rightarrow> True
      | Some x \<Rightarrow> pointsIn (length (h_structs h)) (byValueFieldStruct h (Some x))"
    using assms(1,2) by (auto simp: fieldsInRange_def list_all_iff split: option.splits)
  from bspec [OF this nth_mem [OF assms(3)]] Some assms(4) show ?thesis by (simp add: fieldTarget_def pointsIn_def)
qed

lemma searchField_searched:
  assumes ok: "fieldsInRange h" "cur < length (h_structs h)" "i < length (si_fields (si h cur))"
    and search: "\<And>t p E. t < length (h_structs h) \<Longrightarrow> E \<subseteq> {..<length (h_structs h)} \<Longrightarrow> card ({..<length (h_structs h)} - E) < n \<Longrightarrow>
      searched h origin t p E [0..<length (si_fields (si h t))] (search t p E)"
    and fuel: "card ({..<length (h_structs h)} - E) < Suc n"
    and st: "searched h origin cur path E is st"
  shows "searched h origin cur path E (is @ [i]) (searchField search h origin cur i st)"
proof -
  obtain found p F where s: "st = (found, p, F)" by (cases st)
  show ?thesis
  proof (cases "found \<or> fieldTarget h cur i = None")
    case True
    with st s show ?thesis by (auto simp: searchField_def fieldTarget_def)
  next
    case False
    then obtain t where t: "fieldTarget h cur i = Some t" and nf: "\<not> found" by auto
    have tr: "t < length (h_structs h)" by (rule fieldsInRange_D [OF ok t])
    have F: "E \<subseteq> F" "F \<subseteq> {..<length (h_structs h)}" "p = path" "\<forall>x \<in> F - E. settledIn h origin F x"
      "\<forall>i \<in> set is. \<forall>t. fieldTarget h cur i = Some t \<longrightarrow> t \<in> F \<and> declarationAuthority h t \<noteq> origin"
      using st s nf by simp_all
    let ?step = "\<lparr>cs_owner = cur, cs_field = i, cs_target = t\<rparr>"
    note unfold = searchField_def s nf t [unfolded fieldTarget_def] F(3)
    show ?thesis
    proof (cases "declarationAuthority h t = origin \<or> t \<in> F")
      case True
      with F t ok(3) show ?thesis by (auto simp: unfold Let_def)
    next
      case new: False
      obtain found' p' G where r: "search t (path @ [?step]) (insert t F) = (found', p', G)"
        by (cases "search t (path @ [?step]) (insert t F)")
      have "{..<length (h_structs h)} - insert t F \<subset> {..<length (h_structs h)} - E" using F(1) new tr by auto
      then have "card ({..<length (h_structs h)} - insert t F) < card ({..<length (h_structs h)} - E)"
        by (rule psubset_card_mono [rotated]) simp
      then have "searched h origin t (path @ [?step]) (insert t F) [0..<length (si_fields (si h t))] (found', p', G)"
        using search [OF tr, of "insert t F" "path @ [?step]"] F(2) tr fuel r by (simp del: searched.simps)
      note sr0 = this [unfolded searched.simps]
      note G = conjunct1 [OF sr0] conjunct1 [OF conjunct2 [OF sr0]]
      note sr = conjunct2 [OF conjunct2 [OF sr0]]
      have yes: "\<exists>q. q \<noteq> [] \<and> p' = (path @ [?step]) @ q \<and> chainFrom h t q \<and> declarationAuthority h (cs_target (last q)) = origin" if found'
        by (rule sr [unfolded if_P [OF that]])
      have no0: "p' = path @ [?step] \<and> (\<forall>x \<in> G - insert t F. settledIn h origin G x) \<and>
          (\<forall>i \<in> set [0..<length (si_fields (si h t))]. \<forall>u. fieldTarget h t i = Some u \<longrightarrow> u \<in> G \<and> declarationAuthority h u \<noteq> origin)"
        if "\<not> found'"
        by (rule sr [unfolded if_not_P [OF that]])
      have no: "p' = path @ [?step]" "\<forall>x \<in> G - insert t F. settledIn h origin G x" "settledIn h origin G t" if "\<not> found'"
      proof -
        show "p' = path @ [?step]" "\<forall>x \<in> G - insert t F. settledIn h origin G x" using no0 [OF that] by blast+
        have "\<forall>i \<in> set [0..<length (si_fields (si h t))]. \<forall>u. fieldTarget h t i = Some u \<longrightarrow> u \<in> G \<and> declarationAuthority h u \<noteq> origin"
          using no0 [OF that] by blast
        then show "settledIn h origin G t" by (auto simp: settledIn_def holdsByValue_def)
      qed
      show ?thesis
      proof (cases found')
        case True
        from yes [OF this] obtain q where
          "q \<noteq> []" "p' = path @ (?step # q)" "chainFrom h t q" "declarationAuthority h (cs_target (last q)) = origin" by auto
        then have "\<exists>q. q \<noteq> [] \<and> p' = path @ q \<and> chainFrom h cur q \<and> declarationAuthority h (cs_target (last q)) = origin"
          using t ok(3) by (intro exI [of _ "?step # q"]) simp
        with True G F(1) new show ?thesis by (auto simp: unfold Let_def r [unfolded F(3)])
      next
        case False
        have "\<forall>x \<in> G - E. settledIn h origin G x"
          using no [OF False] F(4) G(1) settledIn_mono [of h origin F _ G] by blast
        moreover have "p' = path @ [?step]" by (rule no(1) [OF False])
        ultimately show ?thesis using False G F new t by (auto simp: unfold Let_def r [unfolded F(3)])
      qed
    qed
  qed
qed

lemma findPathBackTo_searched:
  assumes "fieldsInRange h"
  shows "cur < length (h_structs h) \<Longrightarrow> E \<subseteq> {..<length (h_structs h)} \<Longrightarrow> card ({..<length (h_structs h)} - E) < n \<Longrightarrow>
    searched h origin cur path E [0..<length (si_fields (si h cur))] (findPathBackTo n h origin cur path E)"
proof (induction n arbitrary: cur path E)
  case (Suc n)
  note outer = Suc
  have "searched h origin cur path E [0..<m] (fold (searchField (findPathBackTo n h origin) h origin cur) [0..<m] (False, path, E))"
    if "m \<le> length (si_fields (si h cur))" for m
    using that
  proof (induction m)
    case 0
    then show ?case using Suc.prems by simp
  next
    case (Suc m)
    have "searched h origin cur path E ([0..<m] @ [m]) (searchField (findPathBackTo n h origin) h origin cur m
        (fold (searchField (findPathBackTo n h origin) h origin cur) [0..<m] (False, path, E)))"
      by (rule searchField_searched [OF assms outer(2) _ outer(1) outer(4)]) (use Suc in simp_all)
    then show ?case by simp
  qed
  then show ?case by simp
qed simp

text \<open>A struct contains itself when following fields that are stored inline leads to it or an instance of it.\<close>

definition containsItself :: "('x) Heap_scheme \<Rightarrow> sid \<Rightarrow> bool" where
  "containsItself h s \<longleftrightarrow> (\<exists>t. (s, t) \<in> {(s, t). t \<in> holdsByValue h s}\<^sup>+ \<and> declarationAuthority h t = s)"

lemma chain_steps: "chainFrom h s q \<Longrightarrow> q \<noteq> [] \<Longrightarrow> (s, cs_target (last q)) \<in> {(s, t). t \<in> holdsByValue h s}\<^sup>+"
proof (induction q arbitrary: s)
  case (Cons st q)
  have "(s, cs_target st) \<in> {(s, t). t \<in> holdsByValue h s}" using Cons.prems(1) by (auto simp: holdsByValue_def)
  with Cons show ?case by (cases "q = []") (auto intro: trancl_into_trancl2)
qed simp

lemma settled_closed:
  assumes "settledIn h origin E s" and "\<And>x. x \<in> E \<Longrightarrow> settledIn h origin E x"
  shows "(s, t) \<in> {(s, t). t \<in> holdsByValue h s}\<^sup>+ \<Longrightarrow> t \<in> E \<and> declarationAuthority h t \<noteq> origin"
  by (induction rule: trancl_induct) (use assms in \<open>auto simp: settledIn_def\<close>)

lemma valueCycle_iff:
  assumes "fieldsInRange h" and "s < length (h_structs h)"
  shows "valueCycle h s \<noteq> None \<longleftrightarrow> containsItself h s"
proof -
  obtain found p E where r: "findPathBackTo (Suc (length (h_structs h))) h s s [] {} = (found, p, E)" by (metis prod_cases3)
  have S: "searched h s s [] {} [0..<length (si_fields (si h s))] (found, p, E)"
    unfolding r [symmetric] by (rule findPathBackTo_searched [OF assms]) simp_all
  show ?thesis
  proof (cases found)
    case True
    then obtain q where q: "q \<noteq> []" "chainFrom h s q" "declarationAuthority h (cs_target (last q)) = s" using S by auto
    then have "containsItself h s" using chain_steps by (auto simp: containsItself_def)
    with True show ?thesis by (simp add: valueCycle_def r del: findPathBackTo.simps)
  next
    case False
    have "settledIn h s E s" "\<And>x. x \<in> E \<Longrightarrow> settledIn h s E x"
      using S False by (auto simp: settledIn_def [of h s E s] holdsByValue_def)
    then have "\<not> containsItself h s" using settled_closed [of h s E s] by (auto simp: containsItself_def)
    with False show ?thesis by (simp add: valueCycle_def r del: findPathBackTo.simps)
  qed
qed

text \<open>The report on a struct: at the first field of a chain of fields from the struct back to it or an instance of it,
  with a message that lists the chain.\<close>

definition cycleReport :: "('x) Heap_scheme \<Rightarrow> sid \<Rightarrow> Diagnostic \<Rightarrow> bool" where
  "cycleReport h s d \<longleftrightarrow> (\<exists>q. q \<noteq> [] \<and> chainFrom h s q \<and> declarationAuthority h (cs_target (last q)) = s \<and>
     d = \<lparr>level = LevelError, span = fieldSpan (cycleField h (hd q)), message = valueCycleMessage h s q\<rparr>)"

lemma valueCycle_chain:
  assumes "fieldsInRange h" and "s < length (h_structs h)" and "valueCycle h s = Some q"
  shows "q \<noteq> [] \<and> chainFrom h s q \<and> declarationAuthority h (cs_target (last q)) = s"
proof -
  obtain E where r: "findPathBackTo (Suc (length (h_structs h))) h s s [] {} = (True, q, E)"
    using assms(3) by (auto simp: valueCycle_def simp del: findPathBackTo.simps split: prod.splits if_splits)
  have "searched h s s [] {} [0..<length (si_fields (si h s))] (True, q, E)"
    unfolding r [symmetric] by (rule findPathBackTo_searched [OF assms(1,2)]) simp_all
  then show ?thesis by auto
qed


section \<open>The walks find what there is\<close>

lemma fieldCores_below:
  assumes "fieldsInRange h" and "s < length (h_structs h)" and "c \<in> set (fieldCores h s)" and "t_structInfo (ty h c) = Some t"
  shows "t < length (h_structs h)"
proof -
  have "\<forall>f \<in> set (si_fields (si h s)). \<forall>x. fi_type f = Some x \<longrightarrow> pointsIn (length (h_structs h)) (t_structInfo (ty h (coreType h x)))"
    using assms(1,2) by (auto simp: fieldsInRange_def list_all_iff split: option.splits)
  then have "\<forall>c \<in> set (fieldCores h s). pointsIn (length (h_structs h)) (t_structInfo (ty h c))"
    unfolding fieldCores_all by blast
  with assms(3,4) show ?thesis by (auto simp: pointsIn_def)
qed

text \<open>A struct holds another when comparing or converting it goes on with that one.\<close>

definition notComparable :: "('x) Heap_scheme \<Rightarrow> sid \<Rightarrow> bool" where
  "notComparable h s \<longleftrightarrow> (\<exists>t. (s, t) \<in> {(s, t). t \<in> comparesInto h s}\<^sup>* \<and> holdsFunction h t)"

definition notConvertible :: "('x) Heap_scheme \<Rightarrow> sid \<Rightarrow> bool" where
  "notConvertible h s \<longleftrightarrow> (\<exists>t. (s, t) \<in> {(s, t). t \<in> convertsInto h s}\<^sup>* \<and> holdsTextless h t)"

definition notDefaultable :: "('x) Heap_scheme \<Rightarrow> FieldDecls \<Rightarrow> sid \<Rightarrow> bool" where
  "notDefaultable h decl s \<longleftrightarrow> (\<exists>t. (s, t) \<in> {(s, t). t \<in> defaultsInto h decl s}\<^sup>* \<and> holdsUndefaultable h decl t)"



section \<open>An example\<close>

text \<open>\<open>struct A { B b; }\<close> and \<open>struct B { A? a; (() -> void) f; }\<close>: a struct that contains itself and a function.\<close>

definition cycleHeap :: Heap where
  "cycleHeap =
     (let f = (\<lambda>n t. \<lparr>fi_name = u16 n, fi_type = Some t, fi_visibility = Public, fi_isWeak = False, fi_isLazyConst = False,
        fi_line = 1, fi_column = 1, fi_definingClass = None\<rparr>) in
      \<lparr>h_types = [(newType TyStruct None)\<lparr>t_structInfo := Some 0\<rparr>, (newType TyStruct None)\<lparr>t_structInfo := Some 1\<rparr>,
          newType TyOptional (Some 0), (newType TyFunction None)\<lparr>t_functionReturn := Some 4\<rparr>, newType TyVoid None],
       h_structs = [newStructInfo\<lparr>si_name := u16 ''A'', si_fields := [f ''b'' 1]\<rparr>,
          newStructInfo\<lparr>si_name := u16 ''B'', si_fields := [f ''a'' 2, f ''f'' 3]\<rparr>],
       h_symbols = []\<rparr>)"

definition cycleTree :: SyntaxNode where
  "cycleTree = makeRoot (GreenNode SourceFile [GreenNode StructDecl [GreenToken Identifier (u16 ''A'')]])"

definition cycleAnalysis :: AnalysisResult where
  "cycleAnalysis = fold (\<lambda>sd. ar_setType sd (Some 0)) (SourceFileView_structs cycleTree) emptyAnalysis"




end
