(* ===== verification/Spec2Isabelle.thy ===== *)
theory Spec2Isabelle
  imports Literals Diagnostics ParserFuel TypeMaterialization Scopes ManifestGrammar ModuleGraphClosure ModulePaths ThrowsSoundness EscapeSoundness
    ReturnPaths StructFields
begin

text \<open>
  A verified model of the front end of the Ens language server, the C++ code under \<open>src/lsp\<close>.

  \<^bold>\<open>The program.\<close> The server keeps the text of the open documents. For each it tokenizes and parses the
  text into a lossless tree, builds the types and symbols it declares, analyses them and publishes diagnostics;
  editor requests are answered from the tree. \<open>frontend/cst\<close> is the tree, \<open>frontend/parser\<close> the tokenizer and
  the recursive descent parser that build it, \<open>frontend/diagnostics\<close> source positions and the diagnostic sink,
  \<open>frontend/semantic\<close> literals, types, scopes and the analyzers, \<open>frontend/module\<close> manifests and the module
  graph, \<open>server\<close> the protocol.

  \<^bold>\<open>The theories.\<close>
  \<^item> \<open>Prelude\<close>: loops that may not end (\<open>whileP\<close>), lemmas on lists and bit operations, text as 16 bit words.
  \<^item> \<open>SyntaxKinds\<close> (\<open>cst/SyntaxKind\<close>): the kinds and their tables.
  \<^item> \<open>Literals\<close> (\<open>semantic/Literals\<close>, \<open>server/Encoding\<close>): the two UTF-8 codecs, escape sequences, integer
    literals. The strict decoder accepts exactly the encodings of well-formed texts, and reports where the
    longest decodable beginning of a text ends.
  \<^item> \<open>Diagnostics\<close> (\<open>diagnostics/*\<close>, \<open>server/DiagnosticBridge\<close>): offsets and positions are inverse to each other,
    positions are clamped, and diagnostics become protocol ranges.
  \<^item> \<open>Green\<close> (\<open>cst/Green\<close>, \<open>SyntaxBuilder\<close>, \<open>SyntaxNode\<close>): the tree, the builder as a stack machine, navigation
    by offset.
  \<^item> \<open>Tokenizer\<close> (\<open>parser/Tokenizer\<close>): tokenizing ends, loses nothing, gives the right positions and brackets
    string interpolation.
  \<^item> \<open>ParserCore\<close>, \<open>ParserLookahead\<close>, \<open>ParserTypes\<close>, \<open>ParserExpressions\<close>, \<open>ParserStatements\<close>,
    \<open>ParserDeclarations\<close>, \<open>ParserMain\<close>, \<open>ParserFuel\<close> (\<open>parser/Parser\<close>): every parse function, in the order of
    the source. A parse action is a state transformer that may fail; the mutually recursive functions are
    parameters of the parts that call them, stated as a locale, and \<open>ParserMain\<close> ties the knot with fuel.
    \<open>ParserMain\<close> shows that every parse returns a lossless tree of the right shape and reports what it had to
    repair; \<open>ParserFuel\<close> that the fuel is not observable.
  \<^item> \<open>Types\<close> (\<open>semantic/Type\<close>): types, structs and symbols as objects of an explicit heap, equality,
    assignability, widening, subtyping, printing.
  \<^item> \<open>TypeContext\<close> (\<open>semantic/TypeContext\<close>): the context that owns the heap: interning, declared types, generic
    instantiation and substitution. Every operation takes the context and returns it.
  \<^item> \<open>TypeInterning\<close>: the invariant of a context, which every operation keeps; \<open>built\<close> is the set of contexts a
    client can reach. Equal types are one object.
  \<^item> \<open>TypeInstantiation\<close>: what instantiation leaves alone, that the recursion is stopped by the length of the chain
    only, and that \<open>substitute\<close> refines substitution on trees.
  \<^item> \<open>TypeMaterialization\<close>: instantiations that were put off are all filled.

  \<^item> \<open>Scopes\<close> (\<open>semantic/Scope\<close>): names, and the narrowed types of paths. A scope is an index into a list, since
    children share their parents; what survives a write is not a place that write reaches from the same variable.
  \<^item> \<open>Manifests\<close> (\<open>module/Manifest\<close>): the manifest parser with its recovery, and the checks, which accept exactly
    the manifests that meet the rules they are made of. \<open>ManifestGrammar\<close>: the language of manifests, which the parser reads back.
    \<open>ManifestErrors\<close>: reading only appends problems and does not depend on those found before.
  \<^item> \<open>Paths\<close>: \<open>std::filesystem\<close> on texts. The disk is a parameter, the record \<open>FileSystem\<close>, which does not change during
    a build. \<open>Workspaces\<close> (\<open>module/Workspace\<close>): the registry, its caches, members, overrides and dependencies; a
    \<open>Workspace*\<close> is an index. \<open>WorkspaceResolution\<close>: each folder has one workspace, stated as a locale for those who load
    folders, and each dependency gets the folder its source gives.
  \<^item> \<open>ModuleGraphs\<close> (\<open>module/ModuleGraph\<close>, \<open>semantic/ImplicitImports\<close>): loading modules and the work list of imports.
    \<open>ModuleGraphClosure\<close>: a graph that was built is closed under imports, and building it ends when there are finitely many
    sources. \<open>ModulePaths\<close>: a module's file and its path determine each other.

  \<^item> \<open>AstViews\<close>, \<open>AstExpressions\<close>, \<open>AstStatements\<close>, \<open>AstDeclarations\<close> (\<open>ast/*\<close>): the typed views of the tree, one
    definition per member function (\<open>CallExpr::f\<close> is \<open>CallExpr_f\<close>). The nodes they answer with lie below the node they
    look at, which is why the walks of the analyzers end.
  \<^item> \<open>AnalysisResults\<close> (\<open>semantic/AnalysisResult\<close>): the tables an analysis fills.
  \<^item> \<open>Throws\<close> (\<open>semantic/ThrowsAnalyzer\<close> and the loop of \<open>analyzeModuleGraph\<close>): which exceptions leave each function,
    and the diagnostics about it. \<open>ThrowsFixpoint\<close>: the loop ends in the least closed state, whatever the order of the
    modules. \<open>ThrowsSoundness\<close>: \<open>escapes\<close> is what a running program does; without diagnostics it stays within what is
    declared, and every call that can throw is tried, when no instance of a generic class copies a method marked
    \<open>throws\<close> without a list, whose exceptions the analyzer loses. Both rest on two locales of operations that grow a
    state.

  \<^item> \<open>EscapeAnalysis\<close> (\<open>semantic/EscapeAnalyzer\<close>): which values leave their function, last uses, and the arrays that
    are put on the stack. \<open>EscapeFacts\<close>: a pass is a sequence of a few kinds of writes, stated as locales, so facts only
    grow and the passes end; the loops along aliases end because variables are bound to earlier symbols.
    \<open>EscapeSoundness\<close>: the marks are closed under the rules of the scan. The places the scan leaves out are shown as
    lemmas, so nothing is claimed about what is promoted.

  \<^item> \<open>ReturnPaths\<close>, \<open>StructFields\<close> (parts of \<open>semantic/Analyzer\<close>): a function that must return does, compared with a
    semantics of how statements complete; the checks that walk the fields of structs, which keep what they are inside of
    (a locale with three interpretations) and find exactly what can be reached, and the search for structs that contain
    themselves.

  \<^bold>\<open>Bounds.\<close> Recursion over types goes to types that were allocated before (\<open>typesOk\<close>, \<open>argsBelow\<close>), so the
  number of types is enough fuel; instantiation is bounded by \<open>kMaxInstantiationDepth\<close>, which the source has;
  parse functions consume a token or leave a loop, so the length of the source is enough
  (\<open>parse_fuel_irrelevant\<close>); walks over fields enter no struct twice, so the number of structs is enough. The loops
  along aliases have no bound, as in the source: a loop that does not end gives no result. Offsets are 32 bit words as in the source, and theorems about them assume sources
  below 4 GiB units. The loop over imports has no bound of its own: the names it can queue are those the
  readable sources spell, and each is queued once.

  \<^bold>\<open>Not modelled.\<close> Floating point literals (they rest on \<open>strtod\<close>); most of the semantic analyzer, which fills the tables
  the other analyses read, and with it the part of \<open>analyzeModuleGraph\<close> that calls it; exceptions of the file
  system (\<open>fs::exists\<close> without an error code may throw, here it answers); the document store
  and the request handlers, which are calls into a protocol library; the linker bridge, which calls LLD.
\<close>

section \<open>From an offset to a token\<close>

text \<open>C4: for every offset of a source shorter than 4 GiB units, the tree of its parse has a token at that
  offset, and the token carries the source's code unit there: the editor's position lookups never miss.\<close>

theorem parse_token_at_offset:
  assumes "length src < 2 ^ 32" and "i < length src"
  shows "\<exists>g s' t. parse src s = Some (g, s') \<and> tokenAtOffset (makeRoot g) (of_nat i) = Some t \<and> node_isToken t \<and>
    unat (startOffset t) \<le> i \<and> i < unat (startOffset t) + length (tokenText t) \<and>
    tokenText t ! (i - unat (startOffset t)) = src ! i"
proof -
  from parseWith_parses [of src "length src + 1" s] obtain g s' where
    g: "parse src s = Some (g, s')" "greenText g = src" "wfGreen g" by (auto simp: parse_def parses_def)
  with tokenAtOffset_lookup [of g i] assms show ?thesis by auto
qed

theorem parse_token_at_offset_witness:
  "\<exists>g s' t. parse (u16 ''import a;'') [] = Some (g, s') \<and> tokenAtOffset (makeRoot g) (of_nat 7) = Some t \<and>
    node_isToken t \<and> unat (startOffset t) \<le> 7 \<and> 7 < unat (startOffset t) + length (tokenText t) \<and>
    tokenText t ! (7 - unat (startOffset t)) = u16 ''import a;'' ! 7"
  by (rule parse_token_at_offset) (simp_all add: u16_def)

end
